(* ===== verification/Prelude.thy ===== *)
theory Prelude
  imports Main "HOL-Library.Word"
begin

text \<open>
  Shared vocabulary of the development.

  C strings are HOL strings (lists of 8-bit characters, without the terminating zero); a raw byte
  buffer becomes a C string with \<open>cstr\<close>, which cuts it at the first zero byte as every
  \<open>str*\<close> function of the C library does. A plain \<open>char\<close> is signed on the platforms the
  program supports (x86), so \<open>schar\<close> is the value a \<open>char\<close> has in arithmetic, and
  \<open>uchar\<close> the value an \<open>unsigned char\<close> has.

  The C library functions below (\<open>strchr\<close> as a split, \<open>atoi\<close>, \<open>strtol\<close> in base 10,
  decimal printing as \<open>%u\<close>, \<open>%lu\<close> and \<open>%d\<close> do it) are the ones the modelled
  sources use; \<open>strtol\<close> saturates at 64 bits and \<open>atoi\<close> truncates the result to 32, as glibc
  does.
\<close>

named_theorems cstring_simps \<open>facts about the C string functions\<close>

type_synonym u8 = "8 word"
type_synonym u32 = "32 word"
type_synonym u64 = "64 word"

section \<open>Characters\<close>

definition uchar :: "char \<Rightarrow> nat" where
  "uchar c = of_char c"

definition schar :: "char \<Rightarrow> int" where
  "schar c = (if uchar c < 128 then int (uchar c) else int (uchar c) - 256)"

definition nul :: char where
  "nul = CHR 0x00"

definition cstr :: "string \<Rightarrow> string" where
  "cstr s = takeWhile (\<lambda>c. c \<noteq> CHR 0x00) s"

definition isdigit :: "char \<Rightarrow> bool" where
  "isdigit c \<longleftrightarrow> 48 \<le> uchar c \<and> uchar c \<le> 57"

definition isspace :: "char \<Rightarrow> bool" where
  "isspace c \<longleftrightarrow> uchar c = 32 \<or> (9 \<le> uchar c \<and> uchar c \<le> 13)"

definition digit_of :: "nat \<Rightarrow> char" where
  "digit_of d = char_of (48 + d)"

section \<open>Decimal numbers\<close>

text \<open>The decimal digits of an unsigned number (\<open>%u\<close>, \<open>%lu\<close>).\<close>

fun dec :: "nat \<Rightarrow> string" where
  "dec n = (if n < 10 then [digit_of n] else dec (n div 10) @ [digit_of (n mod 10)])"

declare dec.simps [simp del]

definition dec_int :: "int \<Rightarrow> string" where
  "dec_int i = (if i < 0 then CHR ''-'' # dec (nat (- i)) else dec (nat i))"

text \<open>The value of the longest prefix of decimal digits.\<close>

fun digits_val :: "nat \<Rightarrow> string \<Rightarrow> nat" where
  "digits_val acc [] = acc"
| "digits_val acc (c # cs) =
     (if isdigit c then digits_val (10 * acc + (uchar c - 48)) cs else acc)"

definition saturate64 :: "int \<Rightarrow> int" where
  "saturate64 i = max (- (2 ^ 63)) (min (2 ^ 63 - 1) i)"

definition strtol10 :: "string \<Rightarrow> int" where
  "strtol10 s =
     (case dropWhile isspace s of
        [] \<Rightarrow> 0
      | c # cs \<Rightarrow>
          if c = CHR ''-'' then saturate64 (- int (digits_val 0 cs))
          else if c = CHR ''+'' then saturate64 (int (digits_val 0 cs))
          else saturate64 (int (digits_val 0 (c # cs))))"

text \<open>Conversion to a 32-bit \<open>int\<close>.\<close>

definition to_int32 :: "int \<Rightarrow> int" where
  "to_int32 i = sint (word_of_int i :: u32)"

definition atoi :: "string \<Rightarrow> int" where
  "atoi s = to_int32 (strtol10 s)"

section \<open>Comparing C strings\<close>

definition tolower :: "char \<Rightarrow> char" where
  "tolower c = (if 65 \<le> uchar c \<and> uchar c \<le> 90 then char_of (uchar c + 32) else c)"

text \<open>\<open>strcmp\<close>, \<open>strncmp\<close> and \<open>strncasecmp\<close> (in the C locale): the difference at the first place
  where the strings differ; the end of a string compares as a zero.\<close>

fun strcmp :: "string \<Rightarrow> string \<Rightarrow> int" where
  "strcmp [] [] = 0"
| "strcmp [] (y # ys) = - int (uchar y)"
| "strcmp (x # xs) [] = int (uchar x)"
| "strcmp (x # xs) (y # ys) = (if x = y then strcmp xs ys else int (uchar x) - int (uchar y))"

definition strncmp :: "string \<Rightarrow> string \<Rightarrow> nat \<Rightarrow> int" where
  "strncmp a b n = strcmp (take n a) (take n b)"

definition strncasecmp :: "string \<Rightarrow> string \<Rightarrow> nat \<Rightarrow> int" where
  "strncasecmp a b n = strcmp (map tolower (take n a)) (map tolower (take n b))"

section \<open>Splitting at a character\<close>

text \<open>
  \<open>strchr s d\<close> followed by writing a zero at the place found: the text before the first
  delimiter and, when there is a delimiter, the text after it.
\<close>

definition split_at :: "char \<Rightarrow> string \<Rightarrow> string \<times> string option" where
  "split_at d s =
     (takeWhile (\<lambda>c. c \<noteq> d) s,
      case dropWhile (\<lambda>c. c \<noteq> d) s of [] \<Rightarrow> None | _ # r \<Rightarrow> Some r)"

lemma split_at_Some_length:
  "snd (split_at d s) = Some r \<Longrightarrow> length r < length s"
proof -
  assume "snd (split_at d s) = Some r"
  then obtain x where "dropWhile (\<lambda>c. c \<noteq> d) s = x # r"
    unfolding split_at_def by (auto split: list.splits)
  then show "length r < length s"
    by (metis Suc_le_eq length_Cons length_dropWhile_le)
qed

lemma split_at_pair_length: "(t, Some r) = split_at d s \<Longrightarrow> length r < length s"
  using split_at_Some_length [of d s r] by (metis snd_conv)

text \<open>All the fields of a text separated by a delimiter (at least one, possibly empty).\<close>

function split_fields :: "char \<Rightarrow> string \<Rightarrow> string list" where
  "split_fields d s =
     (case split_at d s of (tok, None) \<Rightarrow> [tok] | (tok, Some r) \<Rightarrow> tok # split_fields d r)"
  by pat_completeness auto
termination
  by (relation "measure (\<lambda>(d, s). length s)") (auto dest: split_at_pair_length)

declare split_fields.simps [simp del]

section \<open>Lemmas\<close>

lemma uchar_less_256 [simp]: "uchar c < 256"
  unfolding uchar_def by simp

lemma uchar_inj: "uchar c = uchar d \<longleftrightarrow> c = d"
  unfolding uchar_def by simp

lemma cstr_no_nul: "CHR 0x00 \<notin> set s \<Longrightarrow> cstr s = s"
  unfolding cstr_def by (induction s) auto

lemma append_sep_inj:
  "c \<notin> set xs \<Longrightarrow> c \<notin> set ys \<Longrightarrow> xs @ c # us = ys @ c # vs \<longleftrightarrow> xs = ys \<and> us = vs"
proof (induction xs arbitrary: ys)
  case Nil
  then show ?case by (cases ys) auto
next
  case (Cons x xs)
  then show ?case by (cases ys) auto
qed

lemma cstr_append_nul: "nul \<notin> set u \<Longrightarrow> cstr (u @ nul # v) = u"
  by (induction u) (auto simp: cstr_def nul_def)

lemma nul_notin_cstr [cstring_simps, simp]: "CHR 0x00 \<notin> set (cstr s)"
  unfolding cstr_def by (auto dest: set_takeWhileD)

lemma cstr_idem [cstring_simps, simp]: "cstr (cstr s) = cstr s"
  by (rule cstr_no_nul) simp

lemma length_cstr_le: "length (cstr s) \<le> length s"
  unfolding cstr_def by (rule length_takeWhile_le)

lemma split_at_append:
  "d \<notin> set a \<Longrightarrow> split_at d (a @ d # b) = (a, Some b)"
  unfolding split_at_def by (induction a) auto

lemma split_at_none:
  "d \<notin> set a \<Longrightarrow> split_at d a = (a, None)"
  unfolding split_at_def by (induction a) auto

lemma split_fields_nonempty [simp]: "split_fields d s \<noteq> []"
  by (subst split_fields.simps) (auto split: prod.splits option.splits)

lemma split_fields_append: "d \<notin> set a \<Longrightarrow> split_fields d (a @ d # b) = a # split_fields d b"
  by (subst split_fields.simps) (simp add: split_at_append)

lemma split_fields_none: "d \<notin> set a \<Longrightarrow> split_fields d a = [a]"
  by (subst split_fields.simps) (simp add: split_at_none)

lemma uchar_digit_of: "d < 10 \<Longrightarrow> uchar (digit_of d) = 48 + d"
  unfolding uchar_def digit_of_def by simp

lemma isdigit_digit_of [simp]: "d < 10 \<Longrightarrow> isdigit (digit_of d)"
  unfolding isdigit_def by (simp add: uchar_digit_of)

lemma dec_isdigit: "c \<in> set (dec n) \<Longrightarrow> isdigit c"
proof (induction n rule: dec.induct)
  case (1 n)
  then show ?case by (subst (asm) (2) dec.simps) (auto split: if_splits)
qed

lemma dec_nonempty [simp]: "dec n \<noteq> []"
  by (subst dec.simps) simp

lemma digits_val_append:
  "\<forall>c \<in> set ds. isdigit c \<Longrightarrow> digits_val acc (ds @ r) = digits_val (digits_val acc ds) r"
  by (induction ds arbitrary: acc) auto

lemma digits_val_dec: "digits_val 0 (dec n) = n"
proof (induction n rule: dec.induct)
  case (1 n)
  show ?case
  proof (cases "n < 10")
    case True
    then show ?thesis by (subst dec.simps) (simp add: uchar_digit_of)
  next
    case False
    have "digits_val 0 (dec n) = digits_val 0 (dec (n div 10) @ [digit_of (n mod 10)])"
      using False by (subst dec.simps) simp
    also have "\<dots> = 10 * (n div 10) + n mod 10"
      using 1 [OF False] dec_isdigit by (simp add: digits_val_append uchar_digit_of)
    finally show ?thesis by simp
  qed
qed

lemma digits_val_dec_append:
  "(r = [] \<or> \<not> isdigit (hd r)) \<Longrightarrow> digits_val 0 (dec n @ r) = n"
  by (cases r) (auto simp: digits_val_append dec_isdigit digits_val_dec)

lemma length_dec: "n < 10 ^ k \<Longrightarrow> 0 < k \<Longrightarrow> length (dec n) \<le> k"
proof (induction n arbitrary: k rule: dec.induct)
  case (1 n)
  show ?case
  proof (cases "n < 10")
    case True
    then show ?thesis using 1 by (subst dec.simps) simp
  next
    case False
    then obtain j where j: "k = Suc j" "0 < j" using 1 by (cases k; cases "k - 1") auto
    have "length (dec (n div 10)) \<le> j"
      using 1(1) [OF False, of j] 1(2) j by (simp add: less_mult_imp_div_less mult.commute)
    then show ?thesis using False j by (subst dec.simps) simp
  qed
qed

lemma dec_inj: "dec m = dec n \<longleftrightarrow> m = n"
  by (metis digits_val_dec)

lemma isdigit_not_space: "isdigit c \<Longrightarrow> \<not> isspace c"
  unfolding isdigit_def isspace_def by auto

lemma isdigit_not_sign: "isdigit c \<Longrightarrow> c \<noteq> CHR ''-'' \<and> c \<noteq> CHR ''+''"
  unfolding isdigit_def uchar_def by auto

lemma strtol10_dec:
  assumes "n < 2 ^ 63" and "r = [] \<or> \<not> isdigit (hd r)"
  shows "strtol10 (dec n @ r) = int n"
proof -
  obtain c cs where c: "dec n @ r = c # cs" and d: "isdigit c"
    by (metis append_Cons dec_isdigit dec_nonempty list.set_intros(1) neq_Nil_conv)
  have "strtol10 (dec n @ r) = saturate64 (int (digits_val 0 (dec n @ r)))"
    unfolding strtol10_def c
    using d by (auto simp: isdigit_not_space dest: isdigit_not_sign)
  also have "\<dots> = int n"
    using assms by (simp add: digits_val_dec_append saturate64_def)
  finally show ?thesis .
qed

lemma to_int32_id: "- (2 ^ 31) \<le> i \<Longrightarrow> i < 2 ^ 31 \<Longrightarrow> to_int32 i = i"
  unfolding to_int32_def by (simp add: signed_of_int signed_take_bit_int_eq_self)

lemma atoi_dec:
  assumes "n < 2 ^ 31" and "r = [] \<or> \<not> isdigit (hd r)"
  shows "atoi (dec n @ r) = int n"
  using assms strtol10_dec [of n r] unfolding atoi_def by (simp add: to_int32_id)

text \<open>A non-decimal text has the value 0, whitespace included.\<close>

lemma atoi_non_number:
  "dropWhile isspace s = [] \<Longrightarrow> atoi s = 0"
  unfolding atoi_def strtol10_def to_int32_def by (simp del: dropWhile_eq_Nil_conv)

section \<open>Machine words\<close>

lemma unat_of_nat_u32: "n < 2 ^ 32 \<Longrightarrow> unat (of_nat n :: u32) = n"
  by (simp add: unsigned_of_nat take_bit_nat_eq_self)

lemma unat_pow2_32: "k < 32 \<Longrightarrow> unat (2 ^ k :: u32) = 2 ^ k"
  using unat_of_nat_u32 [of "2 ^ k"] power_strict_increasing [of k 32 "2 :: nat"] by simp

lemma unat_take_bit_less: "unat (take_bit k (w :: 'a :: len word)) < 2 ^ k"
  by (simp add: unsigned_take_bit_eq)

lemma of_nat_pred: "Suc n = m \<Longrightarrow> (of_nat m :: 'a :: len word) - 1 = of_nat n"
  by auto

section \<open>Lists\<close>

lemma length_filter_other:
  "distinct (map f xs) \<Longrightarrow> d \<in> set xs \<Longrightarrow> Suc (length (filter (\<lambda>e. f e \<noteq> f d) xs)) = length xs"
proof (induction xs)
  case (Cons x xs)
  show ?case
  proof (cases "f x = f d")
    case True
    then have "f d \<notin> f ` set xs" using Cons.prems(1) by simp
    then have "\<forall>e \<in> set xs. f e \<noteq> f d" by (metis image_eqI)
    then have "filter (\<lambda>e. f e \<noteq> f d) xs = xs" by simp
    then show ?thesis using True by simp
  next
    case False
    then show ?thesis using Cons by auto
  qed
qed simp

lemma distinct_map_inj: "distinct (map f xs) \<Longrightarrow> x \<in> set xs \<Longrightarrow> y \<in> set xs \<Longrightarrow> f x = f y \<Longrightarrow> x = y"
  by (simp add: distinct_map inj_on_def)

lemma distinct_map_concat_nth:
  "distinct (map f (concat xss)) \<Longrightarrow> i < length xss \<Longrightarrow> distinct (map f (xss ! i))"
proof (induction xss arbitrary: i)
  case (Cons xs xss)
  then show ?case by (cases i) auto
qed simp

lemma uchar_eq_0: "uchar c = 0 \<longleftrightarrow> c = nul"
proof -
  have "uchar nul = 0" by (simp add: uchar_def nul_def)
  then show ?thesis using uchar_inj [of c nul] by auto
qed

lemma strcmp_eq:
  assumes "nul \<notin> set a" and "nul \<notin> set b"
  shows "strcmp a b = 0 \<longleftrightarrow> a = b"
  using assms by (induction a b rule: strcmp.induct) (auto simp: uchar_eq_0 uchar_inj)

lemma tolower_nul: "tolower c = nul \<longleftrightarrow> c = nul"
proof -
  have "uchar (char_of (uchar c + 32)) \<noteq> 0" if "65 \<le> uchar c" "uchar c \<le> 90"
    using that by (simp add: uchar_def)
  then show ?thesis using uchar_eq_0 [of "tolower c"] uchar_eq_0 [of c] by (auto simp: tolower_def split: if_splits)
qed

text \<open>A text that starts with another one, up to the case of letters.\<close>

definition starts_with_ci :: "string \<Rightarrow> string \<Rightarrow> bool" where
  "starts_with_ci p s \<longleftrightarrow> length p \<le> length s \<and> map tolower (take (length p) s) = map tolower p"

lemma strncasecmp_prefix:
  assumes "nul \<notin> set p" and "nul \<notin> set s"
  shows "strncasecmp p s (length p) = 0 \<longleftrightarrow> starts_with_ci p s"
proof -
  have n: "nul \<notin> set (map tolower (take k t))" if "nul \<notin> set t" for k t
  proof
    assume "nul \<in> set (map tolower (take k t))"
    then obtain c where c: "c \<in> set (take k t)" "tolower c = nul" by auto
    then show False using that tolower_nul [of c] in_set_takeD [OF c(1)] by simp
  qed
  have "strncasecmp p s (length p) = 0 \<longleftrightarrow> map tolower p = map tolower (take (length p) s)"
    unfolding strncasecmp_def
    using strcmp_eq [OF n [OF assms(1), of "length p"] n [OF assms(2), of "length p"]] by simp
  then show ?thesis
    unfolding starts_with_ci_def by (metis length_map length_take min_absorb2 min_def take_all_iff linorder_le_cases)
qed

end
