(* ===== verification/Uthash.thy ===== *)
theory Uthash
  imports Prelude "HOL-Library.Multiset"
begin

unbundle bit_operations_syntax

text \<open>
  The hash table of the enforcement extension: \<open>src/stage3/extension/uthash.h\<close>, the macros that
  \<open>seccomp.c\<close> expands (add, find) and deletion, the integrity check and the table's hash
  functions.

  A \<open>UT_hash_handle\<close> is an \<open>hh\<close> record: its address stands for the pointer to the element it is
  embedded in. The forward pointers (\<open>hh_head\<close>, \<open>hh_next\<close>, the head of the table, \<open>next\<close>, \<open>tail\<close>)
  are the lists one reads by following them: \<open>chain\<close> of a bucket and \<open>app_list\<close> of the table. The
  backward pointers are memory of their own, as in the code: \<open>prev_of\<close> and \<open>hh_prev_of\<close> hold for
  the address of a handle its \<open>prev\<close> and \<open>hh_prev\<close> field (\<open>None\<close> is NULL). They are written only
  where the code writes them: a field no operation has written yet holds the rubbish \<open>malloc\<close>
  leaves, which is a pointer that is not NULL. All counters are 32-bit words that wrap. \<open>None\<close> is the NULL head of an
  empty table. Memory allocation is the argument \<open>malloc_ok\<close>, which says for a size in bytes
  whether \<open>malloc\<close> serves it; when it does not, \<open>uthash_fatal\<close> ends the process, which is the
  result \<open>None\<close> of the operation. The hash function is the argument \<open>hfn\<close> (the macro
  \<open>HASH_FCN\<close>, by default \<open>hash_jen\<close>).
\<close>

section \<open>Data\<close>

record 'a hh =
  hh_addr :: nat
  hh_key :: string
  hh_keylen :: u32
  hh_hashv :: u32
  hh_elem :: 'a

record 'a bucket =
  chain :: "'a hh list"
  bkt_count :: u32
  expand_mult :: u32

record 'a table =
  buckets :: "'a bucket list"
  num_buckets :: u32
  log2_num_buckets :: u32
  num_items :: u32
  app_list :: "'a hh list"
  prev_of :: "nat \<Rightarrow> nat option"
  hh_prev_of :: "nat \<Rightarrow> nat option"
  ideal_chain_maxlen :: u32
  nonideal_items :: u32
  ineff_expands :: u32
  noexpand :: bool

definition empty_bucket :: "'a bucket" where
  "empty_bucket = \<lparr>chain = [], bkt_count = 0, expand_mult = 0\<rparr>"

definition sizeof_table :: nat where
  "sizeof_table = 64"

definition sizeof_bucket :: nat where
  "sizeof_bucket = 16"

definition HASH_INITIAL_NUM_BUCKETS :: u32 where
  "HASH_INITIAL_NUM_BUCKETS = 32"

definition HASH_INITIAL_NUM_BUCKETS_LOG2 :: u32 where
  "HASH_INITIAL_NUM_BUCKETS_LOG2 = 5"

definition HASH_BKT_CAPACITY_THRESH :: u32 where
  "HASH_BKT_CAPACITY_THRESH = 10"

section \<open>Hash functions\<close>

definition ubyte :: "char \<Rightarrow> u32" where
  "ubyte c = of_nat (uchar c)"

definition hash_ber :: "string \<Rightarrow> u32" where
  "hash_ber key = foldl (\<lambda>h c. (push_bit 5 h + h) + ubyte c) 0 key"

definition hash_sax :: "string \<Rightarrow> u32" where
  "hash_sax key = foldl (\<lambda>h c. h XOR (push_bit 5 h + drop_bit 2 h + ubyte c)) 0 key"

definition hash_fnv :: "string \<Rightarrow> u32" where
  "hash_fnv key = foldl (\<lambda>h c. (h XOR ubyte c) * 16777619) 2166136261 key"

definition oat_step :: "u32 \<Rightarrow> char \<Rightarrow> u32" where
  "oat_step h c =
     (let h = h + ubyte c; h = h + push_bit 10 h in h XOR drop_bit 6 h)"

definition hash_oat :: "string \<Rightarrow> u32" where
  "hash_oat key =
     (let h = foldl oat_step 0 key; h = h + push_bit 3 h; h = h XOR drop_bit 11 h
      in h + push_bit 15 h)"

definition hash_jen_mix :: "u32 \<times> u32 \<times> u32 \<Rightarrow> u32 \<times> u32 \<times> u32" where
  "hash_jen_mix = (\<lambda>(a, b, c).
     (let a = a - b; a = a - c; a = a XOR drop_bit 13 c;
          b = b - c; b = b - a; b = b XOR push_bit 8 a;
          c = c - a; c = c - b; c = c XOR drop_bit 13 b;
          a = a - b; a = a - c; a = a XOR drop_bit 12 c;
          b = b - c; b = b - a; b = b XOR push_bit 16 a;
          c = c - a; c = c - b; c = c XOR drop_bit 5 b;
          a = a - b; a = a - c; a = a XOR drop_bit 3 c;
          b = b - c; b = b - a; b = b XOR push_bit 10 a;
          c = c - a; c = c - b; c = c XOR drop_bit 15 b
      in (a, b, c)))"

text \<open>The byte at an index of the part of the key not yet consumed.\<close>

definition kbyte :: "string \<Rightarrow> nat \<Rightarrow> u32" where
  "kbyte key i = ubyte (key ! i)"

definition le32 :: "string \<Rightarrow> nat \<Rightarrow> u32" where
  "le32 key i =
     kbyte key i + push_bit 8 (kbyte key (i + 1)) + push_bit 16 (kbyte key (i + 2))
     + push_bit 24 (kbyte key (i + 3))"

text \<open>The main loop over blocks of 12 bytes; \<open>k\<close> is the number of bytes left.\<close>

fun jen_loop :: "nat \<Rightarrow> string \<Rightarrow> u32 \<times> u32 \<times> u32 \<Rightarrow> nat \<times> string \<times> (u32 \<times> u32 \<times> u32)" where
  "jen_loop k key (i, j, h) =
     (if 12 \<le> k
      then jen_loop (k - 12) (drop 12 key)
             (hash_jen_mix (i + le32 key 0, j + le32 key 4, h + le32 key 8))
      else (k, key, (i, j, h)))"

declare jen_loop.simps [simp del]

text \<open>The \<open>switch\<close> whose cases fall through.\<close>

definition jen_tail :: "nat \<Rightarrow> string \<Rightarrow> u32 \<times> u32 \<times> u32 \<Rightarrow> u32 \<times> u32 \<times> u32" where
  "jen_tail k key = (\<lambda>(i, j, h).
     (let h = (if 11 \<le> k then h + push_bit 24 (kbyte key 10) else h);
          h = (if 10 \<le> k then h + push_bit 16 (kbyte key 9) else h);
          h = (if 9 \<le> k then h + push_bit 8 (kbyte key 8) else h);
          j = (if 8 \<le> k then j + push_bit 24 (kbyte key 7) else j);
          j = (if 7 \<le> k then j + push_bit 16 (kbyte key 6) else j);
          j = (if 6 \<le> k then j + push_bit 8 (kbyte key 5) else j);
          j = (if 5 \<le> k then j + kbyte key 4 else j);
          i = (if 4 \<le> k then i + push_bit 24 (kbyte key 3) else i);
          i = (if 3 \<le> k then i + push_bit 16 (kbyte key 2) else i);
          i = (if 2 \<le> k then i + push_bit 8 (kbyte key 1) else i);
          i = (if 1 \<le> k then i + kbyte key 0 else i)
      in (i, j, h)))"

definition hash_jen :: "string \<Rightarrow> u32" where
  "hash_jen key =
     (let keylen = of_nat (length key) :: u32;
          (k, rest, (i, j, h)) =
            jen_loop (unat keylen) key (0x9e3779b9, 0x9e3779b9, 0xfeedbeef);
          (i, j, h) = hash_jen_mix (jen_tail k rest (i, j, h + keylen))
      in h)"

section \<open>Operations\<close>

definition hash_to_bkt :: "u32 \<Rightarrow> u32 \<Rightarrow> nat" where
  "hash_to_bkt hashv num_bkts = unat (hashv AND (num_bkts - 1))"

text \<open>The backward pointers before the first write.\<close>

definition unwritten :: "nat \<Rightarrow> nat option" where
  "unwritten a = Some a"

definition hash_make_table :: "(nat \<Rightarrow> bool) \<Rightarrow> 'a hh \<Rightarrow> 'a table option" where
  "hash_make_table malloc_ok add =
     (if \<not> malloc_ok sizeof_table then None
      else if \<not> malloc_ok (unat HASH_INITIAL_NUM_BUCKETS * sizeof_bucket) then None
      else Some \<lparr>buckets = replicate (unat HASH_INITIAL_NUM_BUCKETS) empty_bucket,
                 num_buckets = HASH_INITIAL_NUM_BUCKETS,
                 log2_num_buckets = HASH_INITIAL_NUM_BUCKETS_LOG2,
                 num_items = 0, app_list = [add],
                 prev_of = (unwritten(hh_addr add := None)), hh_prev_of = unwritten,
                 ideal_chain_maxlen = 0,
                 nonideal_items = 0, ineff_expands = 0, noexpand = False\<rparr>)"

definition hash_append_list :: "'a hh \<Rightarrow> 'a table \<Rightarrow> 'a table" where
  "hash_append_list add t =
     t\<lparr>prev_of := (prev_of t)(hh_addr add := Some (hh_addr (last (app_list t)))),
       app_list := app_list t @ [add]\<rparr>"

text \<open>The writes to \<open>hh_prev\<close> when a handle becomes the first of a chain.\<close>

definition front_prev :: "'a hh \<Rightarrow> 'a hh list \<Rightarrow> (nat \<Rightarrow> nat option) \<Rightarrow> nat \<Rightarrow> nat option" where
  "front_prev add ch hp =
     (let hp = hp(hh_addr add := None)
      in case ch of [] \<Rightarrow> hp | h # _ \<Rightarrow> hp(hh_addr h := Some (hh_addr add)))"

text \<open>One step of the redistribution loop: a handle moves to the front of its new chain.\<close>

definition expand_move ::
  "u32 \<Rightarrow> u32 \<Rightarrow> 'a bucket list \<times> u32 \<times> (nat \<Rightarrow> nat option) \<Rightarrow> 'a hh \<Rightarrow>
   'a bucket list \<times> u32 \<times> (nat \<Rightarrow> nat option)" where
  "expand_move new_num ideal = (\<lambda>(nbs, nonideal, hp) e.
     (let b = hash_to_bkt (hh_hashv e) new_num;
          nb = nbs ! b;
          cnt = bkt_count nb + 1;
          (nonideal', em) =
            (if ideal < cnt then (nonideal + 1, cnt div ideal) else (nonideal, expand_mult nb))
      in (nbs[b := \<lparr>chain = e # chain nb, bkt_count = cnt, expand_mult = em\<rparr>], nonideal',
          front_prev e (chain nb) hp)))"

definition hash_expand_buckets :: "(nat \<Rightarrow> bool) \<Rightarrow> 'a table \<Rightarrow> 'a table option" where
  "hash_expand_buckets malloc_ok t =
     (if \<not> malloc_ok (2 * unat (num_buckets t) * sizeof_bucket) then None
      else
        (let ideal = drop_bit (unat (log2_num_buckets t + 1)) (num_items t)
                     + (if num_items t AND (num_buckets t * 2 - 1) \<noteq> 0 then 1 else 0);
             (nbs, nonideal, hp) =
               foldl (expand_move (num_buckets t * 2) ideal)
                 (replicate (2 * unat (num_buckets t)) empty_bucket, 0, hh_prev_of t)
                 (concat (map chain (buckets t)));
             ineff = (if nonideal > drop_bit 1 (num_items t) then ineff_expands t + 1 else 0)
         in Some (t\<lparr>buckets := nbs,
                    hh_prev_of := hp,
                    num_buckets := num_buckets t * 2,
                    log2_num_buckets := log2_num_buckets t + 1,
                    ideal_chain_maxlen := ideal,
                    nonideal_items := nonideal,
                    ineff_expands := ineff,
                    noexpand := (1 < ineff \<or> noexpand t)\<rparr>)))"

definition hash_add_to_bkt :: "(nat \<Rightarrow> bool) \<Rightarrow> nat \<Rightarrow> 'a hh \<Rightarrow> 'a table \<Rightarrow> 'a table option" where
  "hash_add_to_bkt malloc_ok b add t =
     (let bk = buckets t ! b;
          cnt = bkt_count bk + 1;
          t' = t\<lparr>buckets := (buckets t)[b := bk\<lparr>chain := add # chain bk, bkt_count := cnt\<rparr>],
                 hh_prev_of := front_prev add (chain bk) (hh_prev_of t)\<rparr>
      in if (expand_mult bk + 1) * HASH_BKT_CAPACITY_THRESH \<le> cnt \<and> \<not> noexpand t
         then hash_expand_buckets malloc_ok t'
         else Some t')"

definition hash_add_to_table :: "(nat \<Rightarrow> bool) \<Rightarrow> 'a hh \<Rightarrow> 'a table \<Rightarrow> 'a table option" where
  "hash_add_to_table malloc_ok add t =
     (let t' = t\<lparr>num_items := num_items t + 1\<rparr>
      in hash_add_to_bkt malloc_ok (hash_to_bkt (hh_hashv add) (num_buckets t')) add t')"

definition hash_add_keyptr_byhashvalue ::
  "(nat \<Rightarrow> bool) \<Rightarrow> nat \<Rightarrow> string \<Rightarrow> u32 \<Rightarrow> u32 \<Rightarrow> 'a \<Rightarrow> 'a table option \<Rightarrow> 'a table option option"
  where
  "hash_add_keyptr_byhashvalue malloc_ok addr key keylen hashval v head =
     (let add = \<lparr>hh_addr = addr, hh_key = key, hh_keylen = keylen, hh_hashv = hashval,
                 hh_elem = v\<rparr>
      in map_option Some
           (case (case head of None \<Rightarrow> hash_make_table malloc_ok add
                  | Some t \<Rightarrow> Some (hash_append_list add t)) of
              None \<Rightarrow> None
            | Some t \<Rightarrow> hash_add_to_table malloc_ok add t))"

definition hash_add_str ::
  "(nat \<Rightarrow> bool) \<Rightarrow> (string \<Rightarrow> u32) \<Rightarrow> nat \<Rightarrow> string \<Rightarrow> 'a \<Rightarrow> 'a table option \<Rightarrow> 'a table option option"
  where
  "hash_add_str malloc_ok hfn addr key v head =
     hash_add_keyptr_byhashvalue malloc_ok addr key (of_nat (length key)) (hfn key) v head"

text \<open>The test of \<open>HASH_FIND_IN_BKT\<close>: hash values, then lengths, then the bytes.\<close>

definition hh_matches :: "string \<Rightarrow> u32 \<Rightarrow> u32 \<Rightarrow> 'a hh \<Rightarrow> bool" where
  "hh_matches key keylen hashval e \<longleftrightarrow>
     hh_hashv e = hashval \<and> hh_keylen e = keylen \<and>
     take (unat keylen) (hh_key e) = take (unat keylen) key"

fun hash_find_in_bkt :: "string \<Rightarrow> u32 \<Rightarrow> u32 \<Rightarrow> 'a hh list \<Rightarrow> 'a hh option" where
  "hash_find_in_bkt key keylen hashval [] = None"
| "hash_find_in_bkt key keylen hashval (e # es) =
     (if hh_matches key keylen hashval e then Some e
      else hash_find_in_bkt key keylen hashval es)"

definition hash_find_byhashvalue ::
  "string \<Rightarrow> u32 \<Rightarrow> u32 \<Rightarrow> 'a table option \<Rightarrow> 'a hh option" where
  "hash_find_byhashvalue key keylen hashval head =
     (case head of None \<Rightarrow> None
      | Some t \<Rightarrow> hash_find_in_bkt key keylen hashval
                   (chain (buckets t ! hash_to_bkt hashval (num_buckets t))))"

definition hash_find_str :: "(string \<Rightarrow> u32) \<Rightarrow> string \<Rightarrow> 'a table option \<Rightarrow> 'a hh option" where
  "hash_find_str hfn key head =
     hash_find_byhashvalue key (of_nat (length key)) (hfn key) head"

text \<open>
  Unlinking: what follows a handle in a list, the write of \<open>next\<close> in the handle at an address, and
  the write of the backward pointer of the first handle of what follows.
\<close>

definition after_hh :: "nat \<Rightarrow> 'a hh list \<Rightarrow> 'a hh list" where
  "after_hh a xs = tl (dropWhile (\<lambda>e. hh_addr e \<noteq> a) xs)"

definition set_next :: "nat \<Rightarrow> 'a hh list \<Rightarrow> 'a hh list \<Rightarrow> 'a hh list" where
  "set_next p rest xs =
     takeWhile (\<lambda>e. hh_addr e \<noteq> p) xs @
     (case dropWhile (\<lambda>e. hh_addr e \<noteq> p) xs of [] \<Rightarrow> [] | e # _ \<Rightarrow> e # rest)"

definition back_link :: "'a hh list \<Rightarrow> nat option \<Rightarrow> (nat \<Rightarrow> nat option) \<Rightarrow> nat \<Rightarrow> nat option" where
  "back_link rest p m = (case rest of [] \<Rightarrow> m | n # _ \<Rightarrow> m(hh_addr n := p))"

definition hash_del_in_bkt ::
  "'a hh \<Rightarrow> (nat \<Rightarrow> nat option) \<Rightarrow> 'a bucket \<Rightarrow> 'a bucket \<times> (nat \<Rightarrow> nat option)" where
  "hash_del_in_bkt d hp bk =
     (let rest = after_hh (hh_addr d) (chain bk);
          ch = (case chain bk of
                  [] \<Rightarrow> []
                | h # _ \<Rightarrow> if hh_addr h = hh_addr d then rest else chain bk);
          ch = (case hp (hh_addr d) of None \<Rightarrow> ch | Some p \<Rightarrow> set_next p rest ch)
      in (bk\<lparr>bkt_count := bkt_count bk - 1, chain := ch\<rparr>, back_link rest (hp (hh_addr d)) hp))"

definition hash_delete_hh :: "'a hh \<Rightarrow> 'a table \<Rightarrow> 'a table option" where
  "hash_delete_hh d t =
     (let p = prev_of t (hh_addr d);
          rest = after_hh (hh_addr d) (app_list t)
      in if p = None \<and> rest = [] then None
         else
           (let app = (case p of None \<Rightarrow> rest | Some q \<Rightarrow> set_next q rest (app_list t));
                b = hash_to_bkt (hh_hashv d) (num_buckets t);
                (bk, hp) = hash_del_in_bkt d (hh_prev_of t) (buckets t ! b)
            in Some (t\<lparr>app_list := app,
                       prev_of := back_link rest p (prev_of t),
                       buckets := (buckets t)[b := bk],
                       hh_prev_of := hp,
                       num_items := num_items t - 1\<rparr>)))"

definition hash_count :: "'a table option \<Rightarrow> u32" where
  "hash_count head = (case head of None \<Rightarrow> 0 | Some t \<Rightarrow> num_items t)"

text \<open>
  The integrity check of \<open>HASH_DEBUG\<close> builds: along every chain and along the application-order
  list each backward pointer is the handle the walk came from, the bucket counts, their sum and the
  length of the application-order list agree with the counters (\<open>False\<close> is \<open>HASH_OOPS\<close>).
\<close>

fun prevs_ok :: "(nat \<Rightarrow> nat option) \<Rightarrow> nat option \<Rightarrow> 'a hh list \<Rightarrow> bool" where
  "prevs_ok m prev [] \<longleftrightarrow> True"
| "prevs_ok m prev (thh # rest) \<longleftrightarrow>
     prev = m (hh_addr thh) \<and> prevs_ok m (Some (hh_addr thh)) rest"

definition hash_fsck :: "'a table option \<Rightarrow> bool" where
  "hash_fsck head =
     (case head of None \<Rightarrow> True
      | Some t \<Rightarrow>
          list_all (\<lambda>bk. prevs_ok (hh_prev_of t) None (chain bk) \<and>
                         bkt_count bk = of_nat (length (chain bk)))
            (take (unat (num_buckets t)) (buckets t))
          \<and> sum_list (map (\<lambda>bk. of_nat (length (chain bk)))
                 (take (unat (num_buckets t)) (buckets t))) = num_items t
          \<and> prevs_ok (prev_of t) None (app_list t)
          \<and> of_nat (length (app_list t)) = num_items t)"

section \<open>Invariant\<close>

text \<open>
  A handle carries the hash value and the length of its key; every handle of chain \<open>i\<close> belongs to
  bucket \<open>i\<close>; chains and application-order list hold the same handles; the counters agree; the
  backward pointers are those of the lists.
\<close>

definition hh_ok :: "(string \<Rightarrow> u32) \<Rightarrow> 'a hh \<Rightarrow> bool" where
  "hh_ok hfn e \<longleftrightarrow>
     hh_hashv e = hfn (hh_key e) \<and> hh_keylen e = of_nat (length (hh_key e)) \<and>
     length (hh_key e) < 2 ^ 32"

definition chain_ok :: "nat \<Rightarrow> nat \<Rightarrow> 'a bucket \<Rightarrow> bool" where
  "chain_ok k i bk \<longleftrightarrow>
     bkt_count bk = of_nat (length (chain bk)) \<and>
     (\<forall>e \<in> set (chain bk). unat (take_bit k (hh_hashv e)) = i)"

definition bkts_ok :: "nat \<Rightarrow> 'a bucket list \<Rightarrow> bool" where
  "bkts_ok k bs \<longleftrightarrow> length bs = 2 ^ k \<and> (\<forall>i < 2 ^ k. chain_ok k i (bs ! i))"

definition chained :: "'a bucket list \<Rightarrow> 'a hh multiset" where
  "chained bs = mset (concat (map chain bs))"

definition chains_linked :: "(nat \<Rightarrow> nat option) \<Rightarrow> 'a bucket list \<Rightarrow> bool" where
  "chains_linked hp bs \<longleftrightarrow> (\<forall>bk \<in> set bs. prevs_ok hp None (chain bk))"

definition table_inv :: "(string \<Rightarrow> u32) \<Rightarrow> 'a table \<Rightarrow> bool" where
  "table_inv hfn t \<longleftrightarrow>
     (let k = unat (log2_num_buckets t)
      in k < 32 \<and> num_buckets t = 2 ^ k \<and> bkts_ok k (buckets t) \<and>
         chained (buckets t) = mset (app_list t) \<and>
         num_items t = of_nat (length (app_list t)) \<and> app_list t \<noteq> [] \<and>
         list_all (hh_ok hfn) (app_list t) \<and> distinct (map hh_addr (app_list t)) \<and>
         prevs_ok (prev_of t) None (app_list t) \<and> chains_linked (hh_prev_of t) (buckets t))"

definition head_inv :: "(string \<Rightarrow> u32) \<Rightarrow> 'a table option \<Rightarrow> bool" where
  "head_inv hfn head \<longleftrightarrow> (case head of None \<Rightarrow> True | Some t \<Rightarrow> table_inv hfn t)"

definition head_items :: "'a table option \<Rightarrow> 'a hh list" where
  "head_items head = (case head of None \<Rightarrow> [] | Some t \<Rightarrow> app_list t)"

section \<open>Buckets\<close>

lemma hash_to_bkt_pow: "hash_to_bkt h (2 ^ k) = unat (take_bit k h)"
  unfolding hash_to_bkt_def by (simp add: take_bit_eq_mask mask_eq_exp_minus_1)

lemma chained_update:
  "i < length bs \<Longrightarrow>
   chained (bs[i := bk]) + mset (chain (bs ! i)) = chained bs + mset (chain bk)"
  unfolding chained_def
proof (induction bs arbitrary: i)
  case (Cons b bs)
  then show ?case by (cases i) (auto simp: algebra_simps)
qed simp

lemma chained_push:
  assumes "i < length bs" and "chain bk = e # chain (bs ! i)"
  shows "chained (bs[i := bk]) = add_mset e (chained bs)"
  using chained_update [OF assms(1), of bk] assms(2) by simp

lemma set_mset_chained: "set_mset (chained bs) = (\<Union>bk \<in> set bs. set (chain bk))"
  unfolding chained_def by auto

lemma in_chained:
  "i < length bs \<Longrightarrow> e \<in> set (chain (bs ! i)) \<Longrightarrow> e \<in># chained bs"
  using nth_mem by (force simp: set_mset_chained)

lemma bkts_ok_push:
  assumes "bkts_ok k bs" and "b = unat (take_bit k (hh_hashv e))"
    and "chain bk = e # chain (bs ! b)" and "bkt_count bk = bkt_count (bs ! b) + 1"
  shows "bkts_ok k (bs[b := bk])" and "chained (bs[b := bk]) = add_mset e (chained bs)"
proof -
  have b: "b < length bs"
    using assms(1,2) unat_take_bit_less by (simp add: bkts_ok_def)
  then show "chained (bs[b := bk]) = add_mset e (chained bs)"
    using assms(3) by (rule chained_push)
  show "bkts_ok k (bs[b := bk])"
    using assms b unfolding bkts_ok_def chain_ok_def by (auto simp: nth_list_update)
qed

lemma bkts_ok_empty [simp]: "bkts_ok k (replicate (2 ^ k) empty_bucket)"
  unfolding bkts_ok_def chain_ok_def empty_bucket_def by simp

lemma chained_empty [simp]: "chained (replicate n empty_bucket) = {#}"
  unfolding chained_def empty_bucket_def by (induction n) auto

lemma bkts_ok_find:
  assumes "bkts_ok k bs" and "e \<in># chained bs"
  shows "e \<in> set (chain (bs ! unat (take_bit k (hh_hashv e))))"
proof -
  obtain i where "i < 2 ^ k" "e \<in> set (chain (bs ! i))"
    using assms unfolding bkts_ok_def set_mset_chained by (auto simp: in_set_conv_nth [of _ bs])
  then show ?thesis
    using assms(1) unfolding bkts_ok_def chain_ok_def by auto
qed

section \<open>Backward pointers\<close>

lemma prevs_ok_cong:
  "(\<And>e. e \<in> set xs \<Longrightarrow> m (hh_addr e) = m' (hh_addr e)) \<Longrightarrow> prevs_ok m a xs = prevs_ok m' a xs"
  by (induction xs arbitrary: a) auto

lemma prevs_ok_append:
  "prevs_ok m a (xs @ ys) \<longleftrightarrow>
     prevs_ok m a xs \<and> prevs_ok m (if xs = [] then a else Some (hh_addr (last xs))) ys"
  by (induction xs arbitrary: a) auto

lemma prevs_ok_upd_other:
  "x \<notin> hh_addr ` set xs \<Longrightarrow> prevs_ok (m(x := v)) a xs = prevs_ok m a xs"
  by (rule prevs_ok_cong) auto

lemma prevs_ok_front:
  assumes "distinct (map hh_addr (e # ch))" and "prevs_ok hp None ch"
  shows "prevs_ok (front_prev e ch hp) None (e # ch)"
proof (cases ch)
  case (Cons h t)
  have "prevs_ok (hp(hh_addr e := None, hh_addr h := Some (hh_addr e))) (Some (hh_addr h)) t =
      prevs_ok hp (Some (hh_addr h)) t"
    using assms(1) Cons by (intro prevs_ok_cong) (auto simp: image_iff)
  then show ?thesis using assms Cons by (simp add: front_prev_def)
qed (simp add: front_prev_def)

lemma front_prev_other:
  "x \<noteq> hh_addr e \<Longrightarrow> x \<notin> hh_addr ` set ch \<Longrightarrow> front_prev e ch hp x = hp x"
  by (auto simp: front_prev_def Let_def split: list.split)

lemma distinct_map_mset: "mset xs = mset ys \<Longrightarrow> distinct (map f xs) \<longleftrightarrow> distinct (map f ys)"
  by (metis mset_eq_imp_distinct_iff mset_map)

lemma chains_disjoint:
  assumes "distinct (map hh_addr (concat (map chain bs)))"
    and "i < length bs" and "j < length bs" and "i \<noteq> j"
    and "x \<in> set (chain (bs ! i))" and "y \<in> set (chain (bs ! j))"
  shows "hh_addr x \<noteq> hh_addr y"
  using assms
proof (induction bs arbitrary: i j)
  case (Cons bk bs)
  have sep: "hh_addr u \<noteq> hh_addr v" if "u \<in> set (chain bk)" "k < length bs" "v \<in> set (chain (bs ! k))" for u v k
  proof -
    have "v \<in> set (concat (map chain bs))" using that(2,3) nth_mem by fastforce
    then show ?thesis using Cons.prems(1) that(1) by (auto simp del: set_concat)
  qed
  show ?case
  proof (cases i)
    case 0
    then show ?thesis using Cons.prems(3-6) sep by (cases j) auto
  next
    case (Suc i')
    show ?thesis
    proof (cases j)
      case 0
      have "hh_addr y \<noteq> hh_addr x"
        by (rule sep [of _ i']) (use Cons.prems(2,5,6) Suc 0 in auto)
      then show ?thesis by simp
    next
      case (Suc j')
      then show ?thesis using Cons.IH [of i' j'] Cons.prems \<open>i = Suc i'\<close> by auto
    qed
  qed
qed simp

text \<open>Changing the handles of one chain leaves the backward pointers along the others alone.\<close>

lemma chains_linked_update:
  assumes "chains_linked hp bs" and "b < length bs" and "prevs_ok hp' None (chain bk)"
    and "\<And>i e. i < length bs \<Longrightarrow> i \<noteq> b \<Longrightarrow> e \<in> set (chain (bs ! i)) \<Longrightarrow> hp' (hh_addr e) = hp (hh_addr e)"
  shows "chains_linked hp' (bs[b := bk])"
  unfolding chains_linked_def
proof
  fix bk' assume "bk' \<in> set (bs[b := bk])"
  then obtain i where i: "i < length bs" "bk' = bs[b := bk] ! i" by (auto simp: in_set_conv_nth)
  show "prevs_ok hp' None (chain bk')"
  proof (cases "i = b")
    case True
    then show ?thesis using i assms(2,3) by simp
  next
    case False
    have "prevs_ok hp None (chain (bs ! i))" using assms(1) i(1) by (simp add: chains_linked_def)
    then show ?thesis using False i assms(4) [OF i(1) False] prevs_ok_cong [of "chain (bs ! i)" hp' hp] by simp
  qed
qed

lemma chains_linked_push:
  assumes "chains_linked hp bs" and "b < length bs" and "chain bk = e # chain (bs ! b)"
    and "distinct (map hh_addr (e # concat (map chain bs)))"
  shows "chains_linked (front_prev e (chain (bs ! b)) hp) (bs[b := bk])"
proof (rule chains_linked_update [OF assms(1,2)])
  have d: "distinct (map hh_addr (concat (map chain bs)))" using assms(4) by simp
  have sub: "set (chain (bs ! i)) \<subseteq> set (concat (map chain bs))" if "i < length bs" for i
    using that nth_mem by fastforce
  have "distinct (map hh_addr (e # chain (bs ! b)))"
    using assms(4) sub [OF assms(2)] distinct_map_concat_nth [OF d, of b] assms(2)
    by (auto simp del: set_concat)
  then show "prevs_ok (front_prev e (chain (bs ! b)) hp) None (chain bk)"
    using assms(1,2) unfolding assms(3) by (intro prevs_ok_front) (simp_all add: chains_linked_def)
  show "front_prev e (chain (bs ! b)) hp (hh_addr x) = hp (hh_addr x)"
    if "i < length bs" "i \<noteq> b" "x \<in> set (chain (bs ! i))" for i x
  proof (rule front_prev_other)
    have "x \<in> set (concat (map chain bs))" using sub [OF that(1)] that(3) by blast
    then show "hh_addr x \<noteq> hh_addr e" using assms(4) by (auto simp del: set_concat) (metis image_eqI)
    show "hh_addr x \<notin> hh_addr ` set (chain (bs ! b))"
      using chains_disjoint [OF d that(1) assms(2) that(2,3)] by auto
  qed
qed

section \<open>Bucket expansion\<close>

lemma expand_move_ok:
  assumes "bkts_ok k (fst st)"
  shows "bkts_ok k (fst (expand_move (2 ^ k) ideal st e))"
    and "chained (fst (expand_move (2 ^ k) ideal st e)) = add_mset e (chained (fst st))"
  using bkts_ok_push [OF assms refl]
  by (auto simp: expand_move_def hash_to_bkt_pow Let_def split: prod.splits)

lemma expand_moves_ok:
  assumes "bkts_ok k (fst st)"
  shows "bkts_ok k (fst (foldl (expand_move (2 ^ k) ideal) st es)) \<and>
         chained (fst (foldl (expand_move (2 ^ k) ideal) st es)) = mset es + chained (fst st)"
  using assms
proof (induction es arbitrary: st)
  case (Cons e es)
  then show ?case
    using expand_move_ok [OF Cons.prems, of ideal e] by simp
qed simp

lemma expand_moves_linked:
  assumes "bkts_ok k nbs" and "chains_linked hp nbs"
    and "distinct (map hh_addr (es @ concat (map chain nbs)))"
    and "foldl (expand_move (2 ^ k) ideal) (nbs, n, hp) es = (nbs', n', hp')"
  shows "chains_linked hp' nbs'"
  using assms
proof (induction es arbitrary: nbs n hp)
  case (Cons e es)
  define b where "b = unat (take_bit k (hh_hashv e))"
  obtain nbs1 n1 where m: "expand_move (2 ^ k) ideal (nbs, n, hp) e =
      (nbs1, n1, front_prev e (chain (nbs ! b)) hp)"
    and nbs1: "\<exists>bk. nbs1 = nbs[b := bk] \<and> chain bk = e # chain (nbs ! b)"
    by (cases "ideal < bkt_count (nbs ! b) + 1")
       (force simp: expand_move_def hash_to_bkt_pow Let_def b_def)+
  have b: "b < length nbs" using Cons.prems(1) unat_take_bit_less by (simp add: bkts_ok_def b_def)
  have ok: "bkts_ok k nbs1" "chained nbs1 = add_mset e (chained nbs)"
    using expand_move_ok [of k "(nbs, n, hp)" ideal e] Cons.prems(1) m by auto
  have "chains_linked (front_prev e (chain (nbs ! b)) hp) nbs1"
    using nbs1 chains_linked_push [OF Cons.prems(2) b] Cons.prems(3) by auto
  moreover have "distinct (map hh_addr (es @ concat (map chain nbs1)))"
  proof -
    have "mset (es @ concat (map chain nbs1)) = mset ((e # es) @ concat (map chain nbs))"
      using ok(2) unfolding chained_def by simp
    from distinct_map_mset [OF this, of hh_addr] show ?thesis using Cons.prems(3) by simp
  qed
  ultimately show ?case
    using Cons.IH [OF ok(1)] Cons.prems(4) m by simp
qed simp

lemma chains_linked_empty [simp]: "chains_linked hp (replicate n empty_bucket)"
  unfolding chains_linked_def empty_bucket_def by simp

text \<open>Doubling the buckets loses no handle and leaves every handle in its own bucket.\<close>

lemma hash_expand_buckets_ok:
  assumes "k < 31" and "unat (log2_num_buckets t) = k" and "num_buckets t = 2 ^ k"
    and "hash_expand_buckets m t = Some t'"
  shows "unat (log2_num_buckets t') = k + 1" and "num_buckets t' = 2 ^ (k + 1)"
    and "bkts_ok (k + 1) (buckets t')" and "chained (buckets t') = chained (buckets t)"
    and "app_list t' = app_list t" and "num_items t' = num_items t" and "prev_of t' = prev_of t"
    and "distinct (map hh_addr (concat (map chain (buckets t)))) \<Longrightarrow>
           chains_linked (hh_prev_of t') (buckets t')"
proof -
  have n2: "num_buckets t * 2 = 2 ^ (k + 1)" using assms(3) by simp
  have un: "2 * unat (num_buckets t) = 2 ^ (k + 1)"
    using assms(1,3) by (simp add: unat_pow2_32)
  define init where "init = (replicate (2 ^ (k + 1)) empty_bucket :: 'a bucket list, 0 :: u32, hh_prev_of t)"
  define st where "st ideal = foldl (expand_move (2 ^ (k + 1)) ideal) init (concat (map chain (buckets t)))"
    for ideal
  have ok: "bkts_ok (k + 1) (fst (st i)) \<and> chained (fst (st i)) = chained (buckets t)" for i
    using expand_moves_ok [of "k + 1" init]
    unfolding st_def init_def by (simp add: chained_def [of "buckets t"] del: power_Suc)
  obtain i where t': "buckets t' = fst (st i)" "hh_prev_of t' = snd (snd (st i))"
    and rest: "app_list t' = app_list t" "prev_of t' = prev_of t"
    "num_items t' = num_items t" "num_buckets t' = num_buckets t * 2"
    using assms(4) unfolding hash_expand_buckets_def n2 un init_def [symmetric] st_def [symmetric]
    by (auto simp: Let_def n2 case_prod_beta split: if_split_asm simp del: power_Suc intro: that)
  show "bkts_ok (k + 1) (buckets t')" "chained (buckets t') = chained (buckets t)"
    using ok t' by auto
  show "app_list t' = app_list t" "num_items t' = num_items t" "num_buckets t' = 2 ^ (k + 1)"
    "prev_of t' = prev_of t"
    using rest n2 by auto
  have "log2_num_buckets t' = log2_num_buckets t + 1"
    using assms(4) unfolding hash_expand_buckets_def
    by (auto simp: Let_def split: if_splits prod.splits)
  then show "unat (log2_num_buckets t') = k + 1"
    using assms(1,2) by (simp add: unat_word_ariths)
  assume d: "distinct (map hh_addr (concat (map chain (buckets t))))"
  have "chain (empty_bucket :: 'a bucket) = []" by (simp add: empty_bucket_def)
  moreover have "concat (replicate n []) = ([] :: 'a hh list)" for n by (induction n) simp_all
  ultimately show "chains_linked (hh_prev_of t') (buckets t')"
    using d expand_moves_linked [of "k + 1" "fst init" "hh_prev_of t" "concat (map chain (buckets t))"
        i 0 "fst (st i)" "fst (snd (st i))" "snd (snd (st i))"]
    unfolding t' by (simp add: init_def st_def del: power_Suc)
qed

section \<open>Adding\<close>

definition mk_hh :: "(string \<Rightarrow> u32) \<Rightarrow> nat \<Rightarrow> string \<Rightarrow> 'a \<Rightarrow> 'a hh" where
  "mk_hh hfn addr key v =
     \<lparr>hh_addr = addr, hh_key = key, hh_keylen = of_nat (length key), hh_hashv = hfn key,
      hh_elem = v\<rparr>"

text \<open>
  The largest request an expansion can make without overflowing the 32-bit bucket count is for
  \<open>2 ^ 32\<close> buckets, that is 64 GiB; the lemmas assume that \<open>malloc\<close> refuses it.
\<close>

definition malloc_bounded :: "(nat \<Rightarrow> bool) \<Rightarrow> bool" where
  "malloc_bounded m \<longleftrightarrow> \<not> m (2 ^ 36)"

lemma hash_add_to_bkt_ok:
  assumes m: "malloc_bounded m" and k: "k < 32" "unat (log2_num_buckets t) = k"
    "num_buckets t = 2 ^ k" and bs: "bkts_ok k (buckets t)"
    and ln: "chains_linked (hh_prev_of t) (buckets t)"
    and dist: "distinct (map hh_addr (e # concat (map chain (buckets t))))"
    and add: "hash_add_to_bkt m (hash_to_bkt (hh_hashv e) (num_buckets t)) e t = Some t'"
  shows "\<exists>k' < 32. unat (log2_num_buckets t') = k' \<and> num_buckets t' = 2 ^ k' \<and>
           bkts_ok k' (buckets t') \<and> chained (buckets t') = add_mset e (chained (buckets t)) \<and>
           app_list t' = app_list t \<and> num_items t' = num_items t \<and> prev_of t' = prev_of t \<and>
           chains_linked (hh_prev_of t') (buckets t')"
proof -
  define b where "b = unat (take_bit k (hh_hashv e))"
  define bk where "bk = (buckets t ! b)\<lparr>chain := e # chain (buckets t ! b),
                                         bkt_count := bkt_count (buckets t ! b) + 1\<rparr>"
  define t1 where "t1 = t\<lparr>buckets := (buckets t)[b := bk],
                          hh_prev_of := front_prev e (chain (buckets t ! b)) (hh_prev_of t)\<rparr>"
  have b': "hash_to_bkt (hh_hashv e) (num_buckets t) = b"
    unfolding b_def k(3) by (rule hash_to_bkt_pow)
  have bl: "b < length (buckets t)" using bs unat_take_bit_less by (simp add: bkts_ok_def b_def)
  have ok: "bkts_ok k (buckets t1)" "chained (buckets t1) = add_mset e (chained (buckets t))"
    using bkts_ok_push [OF bs b_def, of bk] unfolding t1_def bk_def by auto
  have lk: "chains_linked (hh_prev_of t1) (buckets t1)"
    using chains_linked_push [OF ln bl, of bk e] dist unfolding t1_def bk_def by simp
  have d1: "distinct (map hh_addr (concat (map chain (buckets t1))))"
  proof -
    have "mset (concat (map chain (buckets t1))) = mset (e # concat (map chain (buckets t)))"
      using ok(2) unfolding chained_def by simp
    from distinct_map_mset [OF this, of hh_addr] show ?thesis using dist by simp
  qed
  have t1: "unat (log2_num_buckets t1) = k" "num_buckets t1 = 2 ^ k"
    "app_list t1 = app_list t" "num_items t1 = num_items t" "prev_of t1 = prev_of t"
    using k unfolding t1_def by auto
  show ?thesis
  proof (cases "t' = t1")
    case True
    then show ?thesis using ok lk t1 k(1) by (intro exI [of _ k]) simp
  next
    case False
    then have ex: "hash_expand_buckets m t1 = Some t'"
      using add unfolding b' hash_add_to_bkt_def t1_def bk_def
      by (auto simp: Let_def split: if_splits)
    have "k \<noteq> 31"
      using ex m t1(2) unfolding hash_expand_buckets_def malloc_bounded_def
      by (auto simp: unat_pow2_32 sizeof_bucket_def split: if_splits)
    then have "k < 31" using k(1) by simp
    then show ?thesis
      using hash_expand_buckets_ok [OF _ t1(1,2) ex] ok d1 t1
      by (intro exI [of _ "k + 1"]) auto
  qed
qed

lemma hash_make_table_ok:
  "hash_make_table m add = Some t \<Longrightarrow>
   unat (log2_num_buckets t) = 5 \<and> num_buckets t = 2 ^ 5 \<and> bkts_ok 5 (buckets t) \<and>
   chained (buckets t) = {#} \<and> num_items t = 0 \<and> app_list t = [add] \<and>
   prevs_ok (prev_of t) None (app_list t) \<and> chains_linked (hh_prev_of t) (buckets t)"
  unfolding hash_make_table_def HASH_INITIAL_NUM_BUCKETS_def HASH_INITIAL_NUM_BUCKETS_LOG2_def
  using bkts_ok_empty [of 5] by (auto split: if_splits)

lemma hash_append_list_prevs:
  assumes "prevs_ok (prev_of t) None (app_list t)" and "app_list t \<noteq> []"
    and "hh_addr e \<notin> hh_addr ` set (app_list t)"
  shows "prevs_ok (prev_of (hash_append_list e t)) None (app_list (hash_append_list e t))"
  using assms prevs_ok_upd_other [OF assms(3), of "prev_of t"]
  by (simp add: hash_append_list_def prevs_ok_append)

lemma hash_add_str_ok:
  assumes m: "malloc_bounded m" and inv: "head_inv hfn head" and len: "length key < 2 ^ 32"
    and fresh: "addr \<notin> hh_addr ` set (head_items head)"
    and add: "hash_add_str m hfn addr key v head = Some head'"
  shows "head_inv hfn head'" and "head_items head' = head_items head @ [mk_hh hfn addr key v]"
proof -
  define e where "e = mk_hh hfn addr key v"
  have e_ok: "hh_ok hfn e" and e_addr: "hh_addr e = addr"
    using len unfolding e_def hh_ok_def mk_hh_def by simp_all
  obtain t0 t1 where t0: "(case head of None \<Rightarrow> hash_make_table m e
                     | Some t \<Rightarrow> Some (hash_append_list e t)) = Some t0"
    and t1: "hash_add_to_table m e t0 = Some t1" and head': "head' = Some t1"
    using add unfolding hash_add_str_def hash_add_keyptr_byhashvalue_def e_def mk_hh_def
    by (cases head) (fastforce simp: Let_def split: option.split_asm)+
  obtain k where pre: "k < 32" "unat (log2_num_buckets t0) = k" "num_buckets t0 = 2 ^ k"
    "bkts_ok k (buckets t0)" "chained (buckets t0) = mset (head_items head)"
    "num_items t0 = of_nat (length (head_items head))" "app_list t0 = head_items head @ [e]"
    "list_all (hh_ok hfn) (app_list t0)" "distinct (map hh_addr (app_list t0))"
    "chains_linked (hh_prev_of t0) (buckets t0)"
    using t0 inv e_ok fresh hash_make_table_ok [of m e t0]
    by (cases head)
       (force simp: head_items_def head_inv_def table_inv_def hash_append_list_def Let_def
          e_def mk_hh_def)+
  have prevs: "prevs_ok (prev_of t0) None (app_list t0)"
    using t0 inv fresh hash_make_table_ok [of m e t0] e_addr
    by (cases head)
       (auto simp: head_items_def head_inv_def table_inv_def Let_def dest: hash_append_list_prevs)
  have dist: "distinct (map hh_addr (e # concat (map chain (buckets t0))))"
  proof -
    have "mset (e # concat (map chain (buckets t0))) = mset (app_list t0)"
      using pre(5,7) unfolding chained_def by simp
    from distinct_map_mset [OF this, of hh_addr] show ?thesis using pre(9) by simp
  qed
  have "hash_add_to_bkt m (hash_to_bkt (hh_hashv e) (num_buckets (t0\<lparr>num_items := num_items t0 + 1\<rparr>)))
          e (t0\<lparr>num_items := num_items t0 + 1\<rparr>) = Some t1"
    using t1 unfolding hash_add_to_table_def by (simp add: Let_def)
  from hash_add_to_bkt_ok [OF m _ _ _ _ _ _ this, of k] pre prevs dist
  show "head_inv hfn head'" "head_items head' = head_items head @ [mk_hh hfn addr key v]"
    unfolding head' head_inv_def head_items_def table_inv_def
    by (auto simp: Let_def e_def [symmetric])
qed

section \<open>Memory\<close>

text \<open>
  Every addition doubles the buckets at most once, so a table of \<open>n\<close> handles never asks for more
  than \<open>2 ^ (10 + n)\<close> bytes; when \<open>malloc\<close> serves that much the addition returns.
\<close>

definition log_ok :: "'a table option \<Rightarrow> bool" where
  "log_ok head \<longleftrightarrow>
     (case head of None \<Rightarrow> True
      | Some t \<Rightarrow> unat (log2_num_buckets t) \<le> 5 + length (app_list t))"

lemma unat_plus1_le: "unat (w + 1 :: u32) \<le> Suc (unat w)"
  unfolding unat_word_ariths by (rule order_trans [OF mod_less_eq_dividend]) simp

lemma hash_add_to_bkt_Some:
  assumes "malloc_ok (2 * unat (num_buckets t) * sizeof_bucket)"
  shows "\<exists>t'. hash_add_to_bkt malloc_ok b e t = Some t' \<and> app_list t' = app_list t \<and>
    unat (log2_num_buckets t') \<le> Suc (unat (log2_num_buckets t))"
  using assms unat_plus1_le [of "log2_num_buckets t"]
  unfolding hash_add_to_bkt_def hash_expand_buckets_def
  by (auto simp: Let_def case_prod_beta)

lemma hash_add_str_Some:
  assumes "head_inv hfn head" and "log_ok head"
    and m: "\<And>sz. sz \<le> 2 ^ (10 + length (head_items head)) \<Longrightarrow> malloc_ok sz"
  shows "\<exists>head'. hash_add_str malloc_ok hfn addr key v head = Some head' \<and> log_ok head'"
proof -
  define e where "e = mk_hh hfn addr key v"
  have e: "hash_add_str malloc_ok hfn addr key v head =
    map_option Some (case (case head of None \<Rightarrow> hash_make_table malloc_ok e
                  | Some t \<Rightarrow> Some (hash_append_list e t)) of
              None \<Rightarrow> None | Some t \<Rightarrow> hash_add_to_table malloc_ok e t)"
    unfolding hash_add_str_def hash_add_keyptr_byhashvalue_def e_def mk_hh_def by (simp add: Let_def)
  have m512: "malloc_ok 64" "malloc_ok 512" "malloc_ok 1024"
    using m order_trans [OF _ power_increasing [of 10 "10 + length (head_items head)" "2 :: nat"]]
    by simp_all
  show ?thesis
  proof (cases head)
    case None
    obtain t0 where t0: "hash_make_table malloc_ok e = Some t0" "num_buckets t0 = 32"
      "app_list t0 = [e]" "log2_num_buckets t0 = 5"
      using m512 unfolding hash_make_table_def sizeof_table_def sizeof_bucket_def
        HASH_INITIAL_NUM_BUCKETS_def HASH_INITIAL_NUM_BUCKETS_LOG2_def by simp
    then show ?thesis
      using hash_add_to_bkt_Some [of malloc_ok "t0\<lparr>num_items := num_items t0 + 1\<rparr>"] m512
      unfolding e hash_add_to_table_def
      by (fastforce simp: None sizeof_bucket_def Let_def log_ok_def)
  next
    case (Some t)
    define k where "k = unat (log2_num_buckets t)"
    have k: "k < 32" "num_buckets t = 2 ^ k" "k \<le> 5 + length (app_list t)"
      using assms(1,2) unfolding Some head_inv_def table_inv_def log_ok_def k_def
      by (auto simp: Let_def)
    have "2 * unat (num_buckets t) * sizeof_bucket = 2 ^ (k + 5)"
      unfolding k(2) unat_pow2_32 [OF k(1)] sizeof_bucket_def by (simp add: power_add)
    also have "\<dots> \<le> 2 ^ (10 + length (head_items head))"
      using k(3) by (intro power_increasing) (auto simp: Some head_items_def)
    finally have "malloc_ok (2 * unat (num_buckets t) * sizeof_bucket)" by (rule m)
    then show ?thesis
      using hash_add_to_bkt_Some [of malloc_ok "(hash_append_list e t)\<lparr>num_items := num_items t + 1\<rparr>"]
        k(3) unfolding e hash_add_to_table_def k_def
      by (fastforce simp: Some Let_def log_ok_def hash_append_list_def)
  qed
qed

section \<open>Finding\<close>

lemma hash_find_in_bkt_Some:
  "hash_find_in_bkt key l h es = Some e \<Longrightarrow> e \<in> set es \<and> hh_matches key l h e"
  by (induction es) (auto split: if_splits)

lemma hash_find_in_bkt_None:
  "hash_find_in_bkt key l h es = None \<longleftrightarrow> (\<forall>e \<in> set es. \<not> hh_matches key l h e)"
  by (induction es) auto

lemma hh_matches_iff:
  assumes "hh_ok hfn e" and "length key < 2 ^ 32"
  shows "hh_matches key (of_nat (length key)) (hfn key) e \<longleftrightarrow> hh_key e = key"
  using assms unfolding hh_matches_def hh_ok_def
  by (metis order_refl take_all unat_of_nat_u32)

lemma table_invD:
  assumes "table_inv hfn t" and "e \<in> set (app_list t)"
  shows "hh_ok hfn e"
    and "e \<in> set (chain (buckets t ! hash_to_bkt (hh_hashv e) (num_buckets t)))"
  using assms bkts_ok_find [of _ "buckets t" e]
  unfolding table_inv_def by (auto simp: Let_def hash_to_bkt_pow list_all_iff)

lemma table_inv_chain:
  assumes "table_inv hfn t" and "e \<in> set (chain (buckets t ! hash_to_bkt h (num_buckets t)))"
  shows "e \<in> set (app_list t)"
proof -
  define k where "k = unat (log2_num_buckets t)"
  have k: "num_buckets t = 2 ^ k" "length (buckets t) = 2 ^ k"
    "chained (buckets t) = mset (app_list t)"
    using assms(1) unfolding table_inv_def k_def bkts_ok_def by (auto simp: Let_def)
  have "e \<in># chained (buckets t)"
    using assms(2) in_chained [of "unat (take_bit k h)" "buckets t" e] k(2)
    by (simp add: k(1) hash_to_bkt_pow unat_take_bit_less)
  then show ?thesis by (simp add: k(3))
qed

lemma hash_find_str_sound:
  assumes "head_inv hfn head" and "length key < 2 ^ 32" and "hash_find_str hfn key head = Some e"
  shows "e \<in> set (head_items head) \<and> hh_key e = key"
proof -
  obtain t where t: "head = Some t" "table_inv hfn t"
    using assms unfolding hash_find_str_def hash_find_byhashvalue_def head_inv_def
    by (cases head) auto
  have "e \<in> set (chain (buckets t ! hash_to_bkt (hfn key) (num_buckets t)))"
    and mt: "hh_matches key (of_nat (length key)) (hfn key) e"
    using assms(3) hash_find_in_bkt_Some
    unfolding hash_find_str_def hash_find_byhashvalue_def t by fastforce+
  then have e: "e \<in> set (app_list t)" using t(2) table_inv_chain by blast
  have "hh_key e = key"
    using mt hh_matches_iff [OF table_invD(1) [OF t(2) e] assms(2)] by simp
  then show ?thesis using e t(1) by (simp add: head_items_def)
qed

lemma hash_find_str_complete:
  assumes "head_inv hfn head" and "length key < 2 ^ 32" and "hash_find_str hfn key head = None"
    and "e \<in> set (head_items head)"
  shows "hh_key e \<noteq> key"
proof
  assume k: "hh_key e = key"
  obtain t where t: "head = Some t" "table_inv hfn t" "e \<in> set (app_list t)"
    using assms unfolding head_items_def head_inv_def by (cases head) auto
  have ok: "hh_ok hfn e" and ch: "e \<in> set (chain (buckets t ! hash_to_bkt (hh_hashv e) (num_buckets t)))"
    using table_invD [OF t(2,3)] by auto
  then have "hh_matches key (of_nat (length key)) (hfn key) e"
    using hh_matches_iff k assms(2) by blast
  moreover have "hh_hashv e = hfn key" using ok k by (simp add: hh_ok_def)
  ultimately show False
    using assms(3) ch
    unfolding hash_find_str_def hash_find_byhashvalue_def t by (auto simp: hash_find_in_bkt_None)
qed

section \<open>Deleting\<close>

text \<open>Following the backward pointer of a handle, the code cuts exactly that handle out of a list.\<close>

definition cut_out :: "'a hh \<Rightarrow> (nat \<Rightarrow> nat option) \<Rightarrow> 'a hh list \<Rightarrow> 'a hh list" where
  "cut_out d m xs =
     (case m (hh_addr d) of
        None \<Rightarrow> after_hh (hh_addr d) xs
      | Some q \<Rightarrow> set_next q (after_hh (hh_addr d) xs) xs)"

lemma set_next_last:
  assumes "ys \<noteq> []" and "distinct (map hh_addr ys)"
  shows "set_next (hh_addr (last ys)) rest (ys @ zs) = ys @ rest"
proof -
  obtain us u where ys: "ys = us @ [u]" using assms(1) by (metis append_butlast_last_id)
  have "\<forall>e \<in> set us. hh_addr e \<noteq> hh_addr u" using assms(2) by (auto simp: ys image_iff)
  then show ?thesis by (simp add: ys set_next_def takeWhile_append2 dropWhile_append2)
qed

lemma unlink:
  assumes "distinct (map hh_addr xs)" and "d \<in> set xs" and "prevs_ok m None xs"
  shows "cut_out d m xs = filter (\<lambda>e. hh_addr e \<noteq> hh_addr d) xs"
    and "m (hh_addr d) = None \<longleftrightarrow> hh_addr (hd xs) = hh_addr d"
    and "m (hh_addr d) = None \<Longrightarrow>
           after_hh (hh_addr d) xs = filter (\<lambda>e. hh_addr e \<noteq> hh_addr d) xs"
    and "prevs_ok (back_link (after_hh (hh_addr d) xs) (m (hh_addr d)) m) None
           (filter (\<lambda>e. hh_addr e \<noteq> hh_addr d) xs)"
    and "\<And>x. x \<notin> hh_addr ` set xs \<Longrightarrow>
           back_link (after_hh (hh_addr d) xs) (m (hh_addr d)) m x = m x"
proof -
  obtain ys zs where xs: "xs = ys @ d # zs" using split_list [OF assms(2)] by blast
  have ny: "\<forall>e \<in> set ys. hh_addr e \<noteq> hh_addr d" and nz: "\<forall>e \<in> set zs. hh_addr e \<noteq> hh_addr d"
    using assms(1) by (auto simp: xs image_iff)
  have dy: "distinct (map hh_addr ys)" using assms(1) by (simp add: xs)
  have after: "after_hh (hh_addr d) xs = zs"
    using ny by (simp add: xs after_hh_def dropWhile_append2)
  have fil: "filter (\<lambda>e. hh_addr e \<noteq> hh_addr d) xs = ys @ zs"
    using ny nz by (simp add: xs)
  have md: "m (hh_addr d) = (if ys = [] then None else Some (hh_addr (last ys)))"
    and py: "prevs_ok m None ys" and pz: "prevs_ok m (Some (hh_addr d)) zs"
    using assms(3) by (auto simp: xs prevs_ok_append)
  show "cut_out d m xs = filter (\<lambda>e. hh_addr e \<noteq> hh_addr d) xs"
    using set_next_last [OF _ dy] unfolding cut_out_def after fil by (simp add: md xs)
  show "m (hh_addr d) = None \<longleftrightarrow> hh_addr (hd xs) = hh_addr d"
    using ny by (cases ys) (simp_all add: md xs)
  show "m (hh_addr d) = None \<Longrightarrow> after_hh (hh_addr d) xs = filter (\<lambda>e. hh_addr e \<noteq> hh_addr d) xs"
    unfolding after fil by (simp add: md split: if_splits)
  show "prevs_ok (back_link (after_hh (hh_addr d) xs) (m (hh_addr d)) m) None
      (filter (\<lambda>e. hh_addr e \<noteq> hh_addr d) xs)"
  proof (cases zs)
    case (Cons z zs')
    have "hh_addr z \<notin> hh_addr ` set ys" "hh_addr z \<notin> hh_addr ` set zs'"
      using assms(1) by (auto simp: xs Cons)
    then show ?thesis
      using py pz unfolding after fil
      by (simp add: Cons back_link_def prevs_ok_append prevs_ok_upd_other md)
  qed (use py in \<open>simp add: after fil back_link_def\<close>)
  show "back_link (after_hh (hh_addr d) xs) (m (hh_addr d)) m x = m x" if "x \<notin> hh_addr ` set xs" for x
    using that unfolding after by (auto simp: back_link_def xs split: list.split)
qed

lemma hash_del_in_bkt_ok:
  assumes "distinct (map hh_addr (chain bk))" and "d \<in> set (chain bk)" and "prevs_ok hp None (chain bk)"
  shows "fst (hash_del_in_bkt d hp bk) =
      bk\<lparr>bkt_count := bkt_count bk - 1, chain := filter (\<lambda>e. hh_addr e \<noteq> hh_addr d) (chain bk)\<rparr>"
    and "snd (hash_del_in_bkt d hp bk) = back_link (after_hh (hh_addr d) (chain bk)) (hp (hh_addr d)) hp"
proof -
  note u = unlink [OF assms]
  obtain h hs where bk: "chain bk = h # hs" using assms(2) by (cases "chain bk") auto
  show "fst (hash_del_in_bkt d hp bk) =
      bk\<lparr>bkt_count := bkt_count bk - 1, chain := filter (\<lambda>e. hh_addr e \<noteq> hh_addr d) (chain bk)\<rparr>"
  proof (cases "hp (hh_addr d)")
    case None
    then show ?thesis using u(2,3) bk by (simp add: hash_del_in_bkt_def Let_def)
  next
    case (Some q)
    then show ?thesis using u(1,2) bk by (simp add: hash_del_in_bkt_def Let_def cut_out_def)
  qed
  show "snd (hash_del_in_bkt d hp bk) = back_link (after_hh (hh_addr d) (chain bk)) (hp (hh_addr d)) hp"
    by (simp add: hash_del_in_bkt_def Let_def)
qed

lemma hash_delete_hh_ok:
  assumes inv: "table_inv hfn t" and d: "d \<in> set (app_list t)"
  shows "head_inv hfn (hash_delete_hh d t)"
    and "head_items (hash_delete_hh d t) = filter (\<lambda>e. hh_addr e \<noteq> hh_addr d) (app_list t)"
proof -
  define k b where "k = unat (log2_num_buckets t)" and "b = unat (take_bit k (hh_hashv d))"
  define P where "P = (\<lambda>e :: 'a hh. hh_addr e \<noteq> hh_addr d)"
  define bk where "bk = fst (hash_del_in_bkt d (hh_prev_of t) (buckets t ! b))"
  define hp where "hp = snd (hash_del_in_bkt d (hh_prev_of t) (buckets t ! b))"
  define bs where "bs = (buckets t)[b := bk]"
  have t: "k < 32" "num_buckets t = 2 ^ k" "bkts_ok k (buckets t)"
    "chained (buckets t) = mset (app_list t)" "num_items t = of_nat (length (app_list t))"
    "list_all (hh_ok hfn) (app_list t)" "distinct (map hh_addr (app_list t))"
    "prevs_ok (prev_of t) None (app_list t)" "chains_linked (hh_prev_of t) (buckets t)"
    using inv unfolding table_inv_def k_def by (auto simp: Let_def)
  have b: "b < length (buckets t)" "d \<in> set (chain (buckets t ! b))"
    "hash_to_bkt (hh_hashv d) (num_buckets t) = b"
    using table_invD(2) [OF inv d] t(2,3) unfolding b_def
    by (auto simp: hash_to_bkt_pow bkts_ok_def unat_take_bit_less)
  have in_app: "e \<in> set (app_list t)" if "i < length (buckets t)" "e \<in> set (chain (buckets t ! i))" for i e
    using in_chained [OF that] t(4) by simp
  have uniq: "e = d" if "e \<in> set (app_list t)" "\<not> P e" for e
    using distinct_map_inj [OF t(7) that(1) d] that(2) by (simp add: P_def)
  have other: "filter P (chain (buckets t ! i)) = chain (buckets t ! i)"
    if i: "i < length (buckets t)" "i \<noteq> b" for i
  proof (rule filter_True, rule ballI)
    fix e assume e: "e \<in> set (chain (buckets t ! i))"
    have "unat (take_bit k (hh_hashv e)) = i"
      using t(3) i e by (auto simp: bkts_ok_def chain_ok_def)
    then show "P e" using uniq [OF in_app [OF i(1) e]] i(2) by (auto simp: b_def)
  qed
  have dist: "distinct (map hh_addr (concat (map chain (buckets t))))"
    using t(4,7) distinct_map_mset unfolding chained_def by blast
  have db: "distinct (map hh_addr (chain (buckets t ! b)))"
    using b(1) distinct_map_concat_nth [OF dist, of b] by simp
  have pb: "prevs_ok (hh_prev_of t) None (chain (buckets t ! b))"
    using t(9) b(1) by (simp add: chains_linked_def)
  have bk: "bk = (buckets t ! b)\<lparr>bkt_count := bkt_count (buckets t ! b) - 1,
      chain := filter P (chain (buckets t ! b))\<rparr>"
    unfolding bk_def P_def by (rule hash_del_in_bkt_ok(1) [OF db b(2) pb])
  have "map chain bs = map (\<lambda>bk. filter P (chain bk)) (buckets t)"
    using other b(1) unfolding bs_def bk
    by (intro nth_equalityI) (auto simp: nth_list_update)
  then have ch: "chained bs = mset (filter P (app_list t))"
    using t(4) unfolding chained_def
    by (metis (no_types, lifting) filter_concat map_map comp_def map_cong mset_filter)
  have "chain_ok k b bk"
    using of_nat_pred [OF length_filter_other [of hh_addr "chain (buckets t ! b)" d]] db b(1,2) t(3)
    unfolding chain_ok_def bkts_ok_def bk P_def by auto
  then have bok: "bkts_ok k bs"
    using t(3) b(1) unfolding bkts_ok_def bs_def by (auto simp: nth_list_update)
  have lk: "chains_linked hp bs"
    unfolding bs_def
  proof (rule chains_linked_update [OF t(9) b(1)])
    show "prevs_ok hp None (chain bk)"
      using unlink(4) [OF db b(2) pb] hash_del_in_bkt_ok(2) [OF db b(2) pb]
      by (simp add: hp_def bk P_def)
    show "hp (hh_addr e) = hh_prev_of t (hh_addr e)"
      if "i < length (buckets t)" "i \<noteq> b" "e \<in> set (chain (buckets t ! i))" for i e
      using unlink(5) [OF db b(2) pb, of "hh_addr e"] chains_disjoint [OF dist that(1) b(1) that(2,3)]
        hash_del_in_bkt_ok(2) [OF db b(2) pb]
      by (auto simp: hp_def image_iff)
  qed
  have len: "num_items t - 1 = of_nat (length (filter P (app_list t)))"
    using length_filter_other [OF t(7) d] unfolding t(5) P_def by (metis add_diff_cancel_left' of_nat_Suc)
  note u = unlink [OF t(7) d t(8)]
  define m where "m = back_link (after_hh (hh_addr d) (app_list t)) (prev_of t (hh_addr d)) (prev_of t)"
  have ne: "prev_of t (hh_addr d) = None \<and> after_hh (hh_addr d) (app_list t) = [] \<longleftrightarrow>
      filter P (app_list t) = []"
  proof
    assume f: "filter P (app_list t) = []"
    then have "hh_addr (hd (app_list t)) = hh_addr d"
      using d by (cases "app_list t") (auto simp: P_def split: if_splits)
    then show "prev_of t (hh_addr d) = None \<and> after_hh (hh_addr d) (app_list t) = []"
      using u(2,3) f by (simp add: P_def)
  qed (use u(3) in \<open>simp add: P_def\<close>)
  have hd: "hash_del_in_bkt d (hh_prev_of t) (buckets t ! b) = (bk, hp)"
    by (simp add: bk_def hp_def)
  have del: "hash_delete_hh d t =
      (if filter P (app_list t) = [] then None
       else Some (t\<lparr>app_list := filter P (app_list t), prev_of := m, buckets := bs,
                    hh_prev_of := hp, num_items := num_items t - 1\<rparr>))"
    using u(1) unfolding hash_delete_hh_def Let_def ne b(3) hd bs_def P_def m_def cut_out_def by simp
  have "prevs_ok m None (filter P (app_list t))" using u(4) by (simp add: m_def P_def)
  then show "head_inv hfn (hash_delete_hh d t)"
    using t bok ch len lk unfolding del head_inv_def table_inv_def
    by (auto simp: Let_def k_def [symmetric] list_all_iff distinct_map inj_on_def)
  show "head_items (hash_delete_hh d t) = filter (\<lambda>e. hh_addr e \<noteq> hh_addr d) (app_list t)"
    unfolding del head_items_def P_def by simp
qed

section \<open>The integrity check\<close>

lemma sum_list_of_nat_length:
  "sum_list (map (\<lambda>bk. of_nat (length (chain bk)) :: u32) bs) = of_nat (size (chained bs))"
  unfolding chained_def by (induction bs) auto

lemma table_inv_fsck: "head_inv hfn head \<Longrightarrow> hash_fsck head"
proof (cases head)
  case (Some t)
  moreover assume "head_inv hfn head"
  ultimately have inv: "table_inv hfn t" by (simp add: head_inv_def)
  define k where "k = unat (log2_num_buckets t)"
  have t: "k < 32" "num_buckets t = 2 ^ k" "bkts_ok k (buckets t)"
    "chained (buckets t) = mset (app_list t)" "num_items t = of_nat (length (app_list t))"
    using inv unfolding table_inv_def k_def by (auto simp: Let_def)
  have "take (unat (num_buckets t)) (buckets t) = buckets t"
    using t by (simp add: bkts_ok_def unat_pow2_32)
  moreover have "prevs_ok (prev_of t) None (app_list t)" "chains_linked (hh_prev_of t) (buckets t)"
    using inv unfolding table_inv_def by (auto simp: Let_def)
  moreover have "list_all (\<lambda>bk. bkt_count bk = of_nat (length (chain bk))) (buckets t)"
    using t(3) by (auto simp: list_all_iff in_set_conv_nth bkts_ok_def chain_ok_def)
  ultimately show ?thesis
    using t(4,5) Some unfolding hash_fsck_def
    by (simp add: sum_list_of_nat_length list_all_iff chains_linked_def)
qed (simp add: hash_fsck_def)

section \<open>The table as a keyed store\<close>

text \<open>
  What a client of the table relies on: entries are \<open>(address, key, value)\<close>; adding an admissible
  entry appends it to the entries, and a lookup returns an entry of that key when there is one and
  nothing otherwise.
\<close>

locale keyed_store =
  fixes empty :: "'t"
    and add :: "nat \<Rightarrow> string \<Rightarrow> 'v \<Rightarrow> 't \<Rightarrow> 't option"
    and find :: "string \<Rightarrow> 't \<Rightarrow> 'v option"
    and inv :: "'t \<Rightarrow> bool"
    and entries :: "'t \<Rightarrow> (nat \<times> string \<times> 'v) list"
    and adm :: "nat \<Rightarrow> string \<Rightarrow> 't \<Rightarrow> bool"
    and key_ok :: "string \<Rightarrow> bool"
  assumes inv_empty: "inv empty"
    and entries_empty: "entries empty = []"
    and add_entries: "inv t \<Longrightarrow> adm a k t \<Longrightarrow> add a k v t = Some t' \<Longrightarrow>
           inv t' \<and> entries t' = entries t @ [(a, k, v)]"
    and find_Some: "inv t \<Longrightarrow> key_ok k \<Longrightarrow> find k t = Some v \<Longrightarrow> \<exists>a. (a, k, v) \<in> set (entries t)"
    and find_None: "inv t \<Longrightarrow> key_ok k \<Longrightarrow> find k t = None \<Longrightarrow> (a, k, v) \<notin> set (entries t)"
begin

lemma find_distinct:
  assumes "inv t" and "key_ok k" and "distinct (map (fst \<circ> snd) (entries t))"
  shows "find k t = map_of (map snd (entries t)) k"
proof (cases "find k t")
  case None
  then have "k \<notin> fst ` set (map snd (entries t))"
    using find_None [OF assms(1,2)] by force
  then have "map_of (map snd (entries t)) k = None" by (rule iffD2 [OF map_of_eq_None_iff])
  then show ?thesis using None by simp
next
  case (Some v)
  then obtain a where "(a, k, v) \<in> set (entries t)"
    using find_Some [OF assms(1,2)] by auto
  then have "(k, v) \<in> set (map snd (entries t))" by force
  moreover have "distinct (map fst (map snd (entries t)))" using assms(3) by (simp add: comp_def)
  ultimately show ?thesis using Some by (simp add: map_of_eq_Some_iff)
qed

lemma find_Some_iff:
  assumes "inv t" and "key_ok k"
  shows "(\<exists>v. find k t = Some v) \<longleftrightarrow> (\<exists>a v. (a, k, v) \<in> set (entries t))"
  using find_Some [OF assms] find_None [OF assms] by (metis not_Some_eq)

end

definition uth_entry :: "'a hh \<Rightarrow> nat \<times> string \<times> 'a" where
  "uth_entry e = (hh_addr e, hh_key e, hh_elem e)"

definition uth_entries :: "'a table option \<Rightarrow> (nat \<times> string \<times> 'a) list" where
  "uth_entries head = map uth_entry (head_items head)"

definition uth_adm :: "(nat \<Rightarrow> bool) \<Rightarrow> nat \<Rightarrow> string \<Rightarrow> 'a table option \<Rightarrow> bool" where
  "uth_adm m addr key head \<longleftrightarrow>
     malloc_bounded m \<and> length key < 2 ^ 32 \<and> addr \<notin> fst ` set (uth_entries head)"

definition uth_find :: "(string \<Rightarrow> u32) \<Rightarrow> string \<Rightarrow> 'a table option \<Rightarrow> 'a option" where
  "uth_find hfn key head = map_option hh_elem (hash_find_str hfn key head)"

interpretation uth: keyed_store None "hash_add_str m hfn" "uth_find hfn" "head_inv hfn" uth_entries
    "uth_adm m" "\<lambda>k. length k < 2 ^ 32" for m hfn
proof
  fix t :: "'a table option" and a k v t'
  assume "head_inv hfn t" "uth_adm m a k t" "hash_add_str m hfn a k v t = Some t'"
  then show "head_inv hfn t' \<and> uth_entries t' = uth_entries t @ [(a, k, v)]"
    using hash_add_str_ok [of m hfn t k a v t']
    by (force simp: uth_adm_def uth_entries_def uth_entry_def mk_hh_def)
next
  fix t :: "'a table option" and k v
  assume "head_inv hfn t" "length k < 2 ^ 32" "uth_find hfn k t = Some v"
  then show "\<exists>a. (a, k, v) \<in> set (uth_entries t)"
    using hash_find_str_sound [of hfn t k]
    by (force simp: uth_find_def uth_entries_def uth_entry_def)
next
  fix t :: "'a table option" and k v a
  assume "head_inv hfn t" "length k < 2 ^ 32" "uth_find hfn k t = None"
  then show "(a, k, v) \<notin> set (uth_entries t)"
    using hash_find_str_complete [of hfn t k]
    by (force simp: uth_find_def uth_entries_def uth_entry_def)
qed (simp_all add: head_inv_def uth_entries_def head_items_def)

section \<open>Properties\<close>

text \<open>A client that adds keyed elements one after the other.\<close>

fun add_strs ::
  "(nat \<Rightarrow> bool) \<Rightarrow> (string \<Rightarrow> u32) \<Rightarrow> nat \<Rightarrow> (string \<times> 'a) list \<Rightarrow> 'a table option \<Rightarrow> 'a table option option"
  where
  "add_strs m hfn a [] head = Some head"
| "add_strs m hfn a ((k, v) # kvs) head =
     (case hash_add_str m hfn a k v head of
        None \<Rightarrow> None
      | Some head' \<Rightarrow> add_strs m hfn (Suc a) kvs head')"

lemma add_strs_ok:
  assumes "malloc_bounded m" and "\<forall>kv \<in> set kvs. length (fst kv) < 2 ^ 32"
    and "head_inv hfn head" and "\<forall>e \<in> set (uth_entries head). fst e < a"
    and "add_strs m hfn a kvs head = Some head'"
  shows "head_inv hfn head' \<and> map snd (uth_entries head') = map snd (uth_entries head) @ kvs"
  using assms
proof (induction kvs arbitrary: a head)
  case (Cons kv kvs)
  obtain k v where kv: "kv = (k, v)" by force
  obtain h1 where h1: "hash_add_str m hfn a k v head = Some h1"
    and rest: "add_strs m hfn (Suc a) kvs h1 = Some head'"
    using Cons.prems(5) by (auto simp: kv split: option.splits)
  have "uth_adm m a k head"
    using Cons.prems(1,2,4) by (force simp: uth_adm_def kv)
  from uth.add_entries [OF Cons.prems(3) this h1]
  have e: "head_inv hfn h1" "uth_entries h1 = uth_entries head @ [(a, k, v)]" by auto
  have "\<forall>e \<in> set (uth_entries h1). fst e < Suc a"
    using Cons.prems(4) by (auto simp: e(2) less_Suc_eq)
  from Cons.IH [OF Cons.prems(1) _ e(1) this rest] Cons.prems(2) show ?case
    by (simp add: e(2) kv)
qed simp

lemma add_strs_None_ok:
  assumes "malloc_bounded m" and "\<forall>kv \<in> set kvs. length (fst kv) < 2 ^ 32"
    and "add_strs m hfn a kvs None = Some head"
  shows "head_inv hfn head" and "map snd (uth_entries head) = kvs"
  using add_strs_ok [OF assms(1,2) _ _ assms(3)] by (simp_all add: uth.inv_empty uth.entries_empty)

lemma add_strs_Some:
  assumes "malloc_bounded m" and "\<forall>kv \<in> set kvs. length (fst kv) < 2 ^ 32"
    and "head_inv hfn head" and "\<forall>e \<in> set (uth_entries head). fst e < a" and "log_ok head"
    and "\<And>sz. sz \<le> 2 ^ (10 + length (head_items head) + length kvs) \<Longrightarrow> m sz"
  shows "\<exists>head'. add_strs m hfn a kvs head = Some head'"
  using assms
proof (induction kvs arbitrary: a head)
  case (Cons kv kvs)
  obtain k v where kv: "kv = (k, v)" by force
  obtain h1 where h1: "hash_add_str m hfn a k v head = Some h1" and log: "log_ok h1"
    using hash_add_str_Some [OF Cons.prems(3,5), of m a k v] Cons.prems(6)
      order_trans [OF _ power_increasing] by (metis (no_types, lifting) le_add1 one_le_numeral)
  have "uth_adm m a k head"
    using Cons.prems(1,2,4) by (force simp: uth_adm_def kv)
  from uth.add_entries [OF Cons.prems(3) this h1]
  have e: "head_inv hfn h1" "uth_entries h1 = uth_entries head @ [(a, k, v)]" by auto
  have "length (head_items h1) = Suc (length (head_items head))"
    using arg_cong [OF e(2), of length] by (simp add: uth_entries_def)
  moreover have "\<forall>e \<in> set (uth_entries h1). fst e < Suc a"
    using Cons.prems(4) by (auto simp: e(2) less_Suc_eq)
  ultimately have "\<exists>head'. add_strs m hfn (Suc a) kvs h1 = Some head'"
    using Cons.prems e(1) log by (intro Cons.IH) (auto simp: add.assoc)
  then show ?case by (simp add: kv h1)
qed simp

text \<open>C2: Whatever hash function the table is built with, after adding entries with distinct keys a
  lookup returns exactly the value added under the key, through all bucket expansions, and the table
  passes its own integrity check: the counters and the backward pointers of all chains and of the
  application-order list are right.\<close>

theorem table_implements_map:
  assumes "malloc_bounded m" and "\<forall>kv \<in> set kvs. length (fst kv) < 2 ^ 32" and "length k < 2 ^ 32"
    and "distinct (map fst kvs)" and "add_strs m hfn 0 kvs None = Some head"
  shows "uth_find hfn k head = map_of kvs k \<and> hash_fsck head"
proof -
  note h = add_strs_None_ok [OF assms(1,2,5)]
  have "distinct (map (fst \<circ> snd) (uth_entries head))"
    using assms(4) h(2) by (metis map_map)
  then show ?thesis
    using uth.find_distinct [OF h(1) assms(3)] h(2) table_inv_fsck [OF h(1)] by simp
qed

definition example_kvs :: "(string \<times> nat) list" where
  "example_kvs = [(''a'', 1), (''b'', 2), (''ab'', 3)]"

lemma example_add_strs:
  "\<exists>head. add_strs (\<lambda>sz. sz < 2 ^ 30) (\<lambda>_. 0) 0 example_kvs None = Some head"
  by (rule add_strs_Some)
     (auto simp: malloc_bounded_def example_kvs_def uth.inv_empty uth.entries_empty log_ok_def
        head_items_def)

theorem table_implements_map_witness:
  "\<exists>head. add_strs (\<lambda>sz. sz < 2 ^ 30) (\<lambda>_. 0) 0 example_kvs None = Some head \<and>
     uth_find (\<lambda>_. 0) ''ab'' head = Some 3 \<and> uth_find (\<lambda>_. 0) ''x'' head = None"
proof -
  obtain head where h: "add_strs (\<lambda>sz. sz < 2 ^ 30) (\<lambda>_. 0) 0 example_kvs None = Some head"
    using example_add_strs by blast
  have "uth_find (\<lambda>_. 0) k head = map_of example_kvs k" if "length k < 2 ^ 32" for k
    using table_implements_map [OF _ _ that _ h]
    by (simp add: malloc_bounded_def example_kvs_def)
  then show ?thesis using h by (simp add: example_kvs_def)
qed

text \<open>Deleting a handle removes it and nothing else: the application order keeps the other handles,
  lookups of their keys are unchanged, the deleted key is gone, and the integrity check still passes.\<close>

lemma delete_exact:
  assumes "malloc_bounded m" and "\<forall>kv \<in> set kvs. length (fst kv) < 2 ^ 32" and "length k < 2 ^ 32"
    and "distinct (map fst kvs)" and "add_strs m hfn 0 kvs None = Some (Some t)"
    and "d \<in> set (app_list t)"
  shows "uth_find hfn k (hash_delete_hh d t) = (if k = hh_key d then None else map_of kvs k) \<and>
    head_items (hash_delete_hh d t) = filter (\<lambda>e. hh_addr e \<noteq> hh_addr d) (app_list t) \<and>
    hash_fsck (hash_delete_hh d t)"
proof -
  note h = add_strs_None_ok [OF assms(1,2,5)]
  have inv: "table_inv hfn t" using h(1) by (simp add: head_inv_def)
  note del = hash_delete_hh_ok [OF inv assms(6)]
  have dist: "distinct (map hh_key (app_list t))" "distinct (map hh_addr (app_list t))"
    and kvs: "kvs = map (\<lambda>e. (hh_key e, hh_elem e)) (app_list t)"
    using assms(4) h(2) inv
    by (auto simp: uth_entries_def head_items_def uth_entry_def comp_def table_inv_def Let_def)
  have ents: "map snd (uth_entries (hash_delete_hh d t)) =
      filter (\<lambda>kv. fst kv \<noteq> hh_key d) kvs"
  proof -
    have "filter (\<lambda>e. hh_addr e \<noteq> hh_addr d) (app_list t) = filter (\<lambda>e. hh_key e \<noteq> hh_key d) (app_list t)"
      using distinct_map_inj [OF dist(1) _ assms(6)] distinct_map_inj [OF dist(2) _ assms(6)]
      by (intro filter_cong) auto
    then show ?thesis
      using del(2) by (simp add: uth_entries_def uth_entry_def kvs comp_def filter_map)
  qed
  then have "distinct (map (fst \<circ> snd) (uth_entries (hash_delete_hh d t)))"
    using distinct_map_filter [OF assms(4)] by (metis map_map)
  then have "uth_find hfn k (hash_delete_hh d t) = map_of (filter (\<lambda>kv. fst kv \<noteq> hh_key d) kvs) k"
    using uth.find_distinct [OF del(1) assms(3)] ents by simp
  also have "\<dots> = (if k = hh_key d then None else map_of kvs k)"
    by (induction kvs) auto
  finally show ?thesis using del table_inv_fsck [OF del(1)] by simp
qed

lemma delete_exact_witness:
  "\<exists>t d. add_strs (\<lambda>sz. sz < 2 ^ 30) (\<lambda>_. 0) 0 example_kvs None = Some (Some t) \<and>
     d \<in> set (app_list t) \<and> hh_key d = ''b'' \<and>
     uth_find (\<lambda>_. 0) ''b'' (hash_delete_hh d t) = None \<and>
     uth_find (\<lambda>_. 0) ''a'' (hash_delete_hh d t) = Some 1"
proof -
  obtain head where h: "add_strs (\<lambda>sz. sz < 2 ^ 30) (\<lambda>_. 0) 0 example_kvs None = Some head"
    using example_add_strs by blast
  have pre: "malloc_bounded (\<lambda>sz. sz < 2 ^ 30)" "\<forall>kv \<in> set example_kvs. length (fst kv) < 2 ^ 32"
    "distinct (map fst example_kvs)"
    by (simp_all add: malloc_bounded_def example_kvs_def)
  have e: "map snd (uth_entries head) = example_kvs" by (rule add_strs_None_ok(2) [OF pre(1,2) h])
  then obtain t where t: "head = Some t"
    by (cases head) (auto simp: uth_entries_def head_items_def example_kvs_def)
  have "(''b'', 2) \<in> set (map snd (uth_entries head))" using e by (simp add: example_kvs_def)
  then obtain d where d: "d \<in> set (app_list t)" "hh_key d = ''b''"
    by (auto simp: uth_entries_def head_items_def uth_entry_def t)
  show ?thesis
    using delete_exact [OF pre(1,2) _ pre(3) h [unfolded t] d(1), of "''b''"]
      delete_exact [OF pre(1,2) _ pre(3) h [unfolded t] d(1), of "''a''"] h d
    by (auto simp: t example_kvs_def)
qed

end
