(* ===== verification/Seccomp.thy ===== *)
theory Seccomp
  imports Prelude Uthash
begin

text \<open>
  The enforcement extension \<open>src/stage3/extension/seccomp.c\<close>.

  \<open>ext\<close> is the file's global state (\<open>filters\<close>, \<open>ctx\<close>, \<open>seccomp_loaded\<close>,
  \<open>seccomp_old_execute_internal\<close>) together with PHP's hook \<open>zend_execute_internal\<close>, which the
  file writes, a log of the \<open>seccomp_load\<close> calls (the context and the result) and a log of the
  executors that ran internal functions. libseccomp is the record \<open>libseccomp\<close> of functions over an
  abstract context type; PHP's settings, the request's \<open>$_SERVER\<close> and the lines of the profile
  file are arguments. Every write past an array, every NULL dereference and the \<open>exit\<close> of the
  hash table is a \<open>fault\<close>.
\<close>

section \<open>Data\<close>

datatype fault = Row_overflow | Name_overflow | Null_deref | Out_of_memory

record sfilter =
  filter_syscalls :: "int list"
  filter_len :: nat

record 'c libseccomp =
  scmp_init :: "u32 \<Rightarrow> 'c option"
  scmp_rule_add :: "'c \<Rightarrow> u32 \<Rightarrow> int \<Rightarrow> 'c"
  scmp_load :: "'c \<Rightarrow> int"
  scmp_sys_exit :: int

record ini =
  enable_str :: "string option"
  enable_int :: int
  app_base :: string

datatype executor = Seccomp_execute_internal | Execute_internal | Other_executor nat

record 'c ext =
  zend_execute_internal :: "executor option"
  old_execute_internal :: "executor option"
  filters :: "sfilter table option"
  n_filters :: nat
  ctx :: "'c option"
  seccomp_loaded :: bool
  loads :: "('c option \<times> int) list"
  executed :: "executor list"

text \<open>The part of a request the extension reads; \<open>None\<close> is a \<open>$_SERVER\<close> that is not set up.\<close>

record request =
  server_script :: "string option option"
  executed_filename :: string

definition SCMP_ACT_KILL :: u32 where
  "SCMP_ACT_KILL = 0"

definition SECCOMP_RET_KILL :: u32 where
  "SECCOMP_RET_KILL = 0x00000000"

definition SCMP_ACT_ALLOW :: u32 where
  "SCMP_ACT_ALLOW = 0x7fff0000"

definition NUM_BUCKETS :: nat where
  "NUM_BUCKETS = 50000"

definition DELIM :: char where
  "DELIM = CHR '' ''"

definition ROW_SIZE :: nat where
  "ROW_SIZE = 333"

definition NAME_SIZE :: nat where
  "NAME_SIZE = 512"

definition sizeof_filter :: nat where
  "sizeof_filter = 1904"

section \<open>Parsing a profile\<close>

text \<open>The file's own hash (djb2 on signed characters), reduced to a bucket number.\<close>

definition hash :: "string \<Rightarrow> nat" where
  "hash str =
     unat (foldl (\<lambda>h c. (push_bit 5 h + h) + word_of_int (schar c)) (5381 :: u64) (cstr str))
       mod NUM_BUCKETS"

text \<open>
  \<open>create_seccomp_filter\<close> cuts the text at every delimiter and stores the number of each field in
  the row; a store past the end of the row is \<open>None\<close>.
\<close>

function create_filter_loop :: "string \<Rightarrow> int list \<Rightarrow> nat \<Rightarrow> (int list \<times> nat) option" where
  "create_filter_loop syscalls row i =
     (case split_at DELIM syscalls of (tok, nums) \<Rightarrow>
        if length row \<le> i then None
        else
          (case nums of
             None \<Rightarrow> Some (row[i := atoi tok], i + 1)
           | Some r \<Rightarrow> create_filter_loop r (row[i := atoi tok]) (i + 1)))"
  by pat_completeness auto
termination
  by (relation "measure (\<lambda>(s, row, i). length s)") (auto dest: split_at_pair_length)

declare create_filter_loop.simps [simp del]

definition create_seccomp_filter :: "string \<Rightarrow> int list \<Rightarrow> (int list \<times> nat) option" where
  "create_seccomp_filter syscalls row = create_filter_loop syscalls row 0"

text \<open>
  The body of the \<open>getline\<close> loop. \<open>row0\<close> is the content of the freshly allocated \<open>syscalls\<close>
  array. The chosen bucket \<open>h\<close> is not used further.
\<close>

definition read_profile_line ::
  "(nat \<Rightarrow> bool) \<Rightarrow> int list \<Rightarrow> string \<Rightarrow> 'c ext \<Rightarrow> fault + 'c ext" where
  "read_profile_line malloc_ok row0 raw st =
     (case split_at DELIM (cstr raw) of
        (name, None) \<Rightarrow> Inr st
      | (name, Some nums) \<Rightarrow>
          if \<not> malloc_ok sizeof_filter then Inl Null_deref
          else
            (case create_seccomp_filter nums row0 of
               None \<Rightarrow> Inl Row_overflow
             | Some (row, n) \<Rightarrow>
                 if NAME_SIZE \<le> length name then Inl Name_overflow
                 else
                   (case hash_add_str malloc_ok hash_jen (n_filters st) name
                           \<lparr>filter_syscalls = row, filter_len = n\<rparr> (filters st) of
                      None \<Rightarrow> Inl Out_of_memory
                    | Some fs \<Rightarrow> Inr (st\<lparr>filters := fs, n_filters := n_filters st + 1\<rparr>))))"

fun read_profile ::
  "(nat \<Rightarrow> bool) \<Rightarrow> int list \<Rightarrow> string list \<Rightarrow> 'c ext \<Rightarrow> fault + 'c ext" where
  "read_profile malloc_ok row0 [] st = Inr st"
| "read_profile malloc_ok row0 (raw # raws) st =
     (case read_profile_line malloc_ok row0 raw st of
        Inl e \<Rightarrow> Inl e
      | Inr st' \<Rightarrow> read_profile malloc_ok row0 raws st')"

section \<open>Module start\<close>

datatype status = SUCCESS | FAILURE

text \<open>The globals when the module is mapped; \<open>prev\<close> is the hook another extension installed.\<close>

definition initial_ext :: "executor option \<Rightarrow> 'c ext" where
  "initial_ext prev =
     \<lparr>zend_execute_internal = prev, old_execute_internal = None, filters = None, n_filters = 0,
      ctx = None, seccomp_loaded = False, loads = [], executed = []\<rparr>"

text \<open>\<open>profile\<close> is \<open>None\<close> when \<open>fopen\<close> fails, else the lines \<open>getline\<close> returns.\<close>

definition MINIT ::
  "'c libseccomp \<Rightarrow> (nat \<Rightarrow> bool) \<Rightarrow> int list \<Rightarrow> ini \<Rightarrow> string list option \<Rightarrow> 'c ext
    \<Rightarrow> fault + status \<times> 'c ext" where
  "MINIT lib malloc_ok row0 cfg profile st0 =
     (let st = st0\<lparr>old_execute_internal := zend_execute_internal st0,
                   zend_execute_internal := Some Seccomp_execute_internal\<rparr>
      in if enable_str cfg = None then Inr (SUCCESS, st)
         else
           (case profile of
              None \<Rightarrow> Inr (FAILURE, st)
            | Some raws \<Rightarrow>
                (case read_profile malloc_ok row0 raws st of
                   Inl e \<Rightarrow> Inl e
                 | Inr st' \<Rightarrow>
                     (let c = map_option (\<lambda>c. scmp_rule_add lib c SECCOMP_RET_KILL (scmp_sys_exit lib))
                                (scmp_init lib SCMP_ACT_KILL)
                      in Inr (SUCCESS, st'\<lparr>ctx := c\<rparr>)))))"

section \<open>Loading the filter of a script\<close>

definition fpm_syscalls :: "int list" where
  "fpm_syscalls = [100, 80, 38, 273, 48]"

definition allow_all :: "'c libseccomp \<Rightarrow> int list \<Rightarrow> 'c option \<Rightarrow> 'c option" where
  "allow_all lib ns c = map_option (\<lambda>c. foldl (\<lambda>c n. scmp_rule_add lib c SCMP_ACT_ALLOW n) c ns) c"

text \<open>\<open>seccomp_load\<close> of a NULL context fails with \<open>EINVAL\<close>.\<close>

definition load_ctx :: "'c libseccomp \<Rightarrow> 'c option \<Rightarrow> int" where
  "load_ctx lib c = (case c of None \<Rightarrow> - 22 | Some c \<Rightarrow> scmp_load lib c)"

definition script_path :: "request \<Rightarrow> fault + string" where
  "script_path req =
     (case server_script req of
        None \<Rightarrow> Inr (executed_filename req)
      | Some None \<Rightarrow> Inl Null_deref
      | Some (Some s) \<Rightarrow> Inr s)"

definition load_seccomp_profile ::
  "'c libseccomp \<Rightarrow> ini \<Rightarrow> request \<Rightarrow> 'c ext \<Rightarrow> fault + int \<times> 'c ext" where
  "load_seccomp_profile lib cfg req st =
     (case script_path req of
        Inl e \<Rightarrow> Inl e
      | Inr path \<Rightarrow>
          if length (cstr path) < length (cstr (app_base cfg)) then Inr (- 1, st)
          else
            (let relative = drop (length (cstr (app_base cfg))) (cstr path)
             in if enable_int cfg = 0 then Inr (- 1, st)
                else
                  (let s = uth_find hash_jen relative (filters st);
                       c1 = allow_all lib fpm_syscalls (ctx st);
                       c2 = (case s of None \<Rightarrow> c1
                             | Some f \<Rightarrow> allow_all lib (take (filter_len f) (filter_syscalls f)) c1);
                       rc = load_ctx lib c2
                   in Inr (rc, st\<lparr>ctx := c2, loads := loads st @ [(c2, rc)]\<rparr>))))"

text \<open>The hook that PHP calls for every internal function.\<close>

definition seccomp_execute_internal ::
  "'c libseccomp \<Rightarrow> ini \<Rightarrow> request \<Rightarrow> 'c ext \<Rightarrow> fault + 'c ext" where
  "seccomp_execute_internal lib cfg req st =
     (let entered =
            (if \<not> seccomp_loaded st \<and> enable_str cfg \<noteq> None
             then (case load_seccomp_profile lib cfg req st of
                     Inl e \<Rightarrow> Inl e
                   | Inr (rc, st') \<Rightarrow> Inr (st'\<lparr>seccomp_loaded := True\<rparr>))
             else Inr (st\<lparr>zend_execute_internal := old_execute_internal st\<rparr>))
      in case entered of
           Inl e \<Rightarrow> Inl e
         | Inr st' \<Rightarrow>
             Inr (st'\<lparr>executed := executed st' @
                        [case old_execute_internal st' of None \<Rightarrow> Execute_internal | Some h \<Rightarrow> h]\<rparr>))"

text \<open>PHP's dispatch of an internal function call: through the hook when one is installed.\<close>

definition call_internal ::
  "'c libseccomp \<Rightarrow> ini \<Rightarrow> request \<Rightarrow> 'c ext \<Rightarrow> fault + 'c ext" where
  "call_internal lib cfg req st =
     (case zend_execute_internal st of
        Some Seccomp_execute_internal \<Rightarrow> seccomp_execute_internal lib cfg req st
      | Some h \<Rightarrow> Inr (st\<lparr>executed := executed st @ [h]\<rparr>)
      | None \<Rightarrow> Inr (st\<lparr>executed := executed st @ [Execute_internal]\<rparr>))"

fun call_internals ::
  "'c libseccomp \<Rightarrow> ini \<Rightarrow> request list \<Rightarrow> 'c ext \<Rightarrow> fault + 'c ext" where
  "call_internals lib cfg [] st = Inr st"
| "call_internals lib cfg (r # rs) st =
     (case call_internal lib cfg r st of
        Inl e \<Rightarrow> Inl e
      | Inr st' \<Rightarrow> call_internals lib cfg rs st')"

section \<open>Parsing lemmas\<close>

lemma create_filter_loop_spec:
  "i \<le> length row \<Longrightarrow>
   create_filter_loop s row i =
     (if i + length (split_fields DELIM s) \<le> length row
      then Some (take i row @ map atoi (split_fields DELIM s) @ drop (i + length (split_fields DELIM s)) row,
                 i + length (split_fields DELIM s))
      else None)"
proof (induction s row i rule: create_filter_loop.induct)
  case (1 s row i)
  obtain tok nums where sp: "split_at DELIM s = (tok, nums)" by force
  show ?case
  proof (cases nums)
    case None
    then have f: "split_fields DELIM s = [tok]" using sp by (subst split_fields.simps) simp
    show ?thesis
      using 1 unfolding f
      by (subst create_filter_loop.simps)
         (auto simp: sp None upd_conv_take_nth_drop Suc_le_eq)
  next
    case (Some r)
    then have f: "split_fields DELIM s = tok # split_fields DELIM r" using sp by (subst split_fields.simps) simp
    show ?thesis
    proof (cases "length row \<le> i")
      case True
      then show ?thesis
        unfolding f by (subst create_filter_loop.simps) (simp add: sp Some)
    next
      case False
      then show ?thesis
        using 1(1) [OF sp [symmetric] False Some] unfolding f
        by (subst create_filter_loop.simps)
           (auto simp: sp Some take_Suc_conv_app_nth Suc_le_eq)
    qed
  qed
qed

lemma create_seccomp_filter_spec:
  "create_seccomp_filter s row =
     (let ns = map atoi (split_fields DELIM s)
      in if length ns \<le> length row then Some (ns @ drop (length ns) row, length ns) else None)"
  unfolding create_seccomp_filter_def by (simp add: create_filter_loop_spec Let_def)

text \<open>The line format that stage 2 writes: the script, then each number after a blank.\<close>

definition profile_line :: "string \<times> nat list \<Rightarrow> string" where
  "profile_line = (\<lambda>(name, ns). name @ concat (map (\<lambda>n. CHR '' '' # dec n) ns) @ [CHR 0x0A])"

definition entry_ok :: "string \<times> nat list \<Rightarrow> bool" where
  "entry_ok = (\<lambda>(name, ns).
     CHR '' '' \<notin> set name \<and> CHR 0x00 \<notin> set name \<and> length name < NAME_SIZE \<and>
     length ns \<le> ROW_SIZE \<and> (\<forall>n \<in> set ns. n < 2 ^ 31))"

lemma notin_dec: "\<not> isdigit c \<Longrightarrow> c \<notin> set (dec n)"
  using dec_isdigit by blast

lemma not_isdigit_special [simp]:
  "\<not> isdigit (CHR '' '')" "\<not> isdigit (CHR 0x0A)" "\<not> isdigit (CHR 0x00)"
  by (simp_all add: isdigit_def uchar_def)

lemma split_fields_numbers:
  "split_fields DELIM (dec n @ concat (map (\<lambda>n. CHR '' '' # dec n) ns) @ [CHR 0x0A]) =
     map dec (butlast (n # ns)) @ [dec (last (n # ns)) @ [CHR 0x0A]]"
proof (induction ns arbitrary: n)
  case Nil
  show ?case
    using notin_dec [of DELIM n] by (simp add: split_fields_none DELIM_def)
next
  case (Cons m ns)
  have "split_fields DELIM (dec n @ DELIM # (dec m @ concat (map (\<lambda>n. CHR '' '' # dec n) ns) @ [CHR 0x0A]))
        = dec n # split_fields DELIM (dec m @ concat (map (\<lambda>n. CHR '' '' # dec n) ns) @ [CHR 0x0A])"
    by (rule split_fields_append) (simp add: DELIM_def notin_dec)
  then show ?case
    unfolding Cons [of m] by (simp add: DELIM_def)
qed

lemma atoi_fields_numbers:
  assumes "\<forall>k \<in> set (n # ns). k < 2 ^ 31"
  shows "map atoi (split_fields DELIM (dec n @ concat (map (\<lambda>n. CHR '' '' # dec n) ns) @ [CHR 0x0A]))
         = map int (n # ns)"
proof -
  have "map (\<lambda>n. atoi (dec n)) ms = map int ms" if "set ms \<subseteq> set (n # ns)" for ms
    using assms that atoi_dec [where r = "[]"] by (intro map_cong) auto
  moreover have "atoi (dec k @ [CHR 0x0A]) = int k" if "k \<in> set (n # ns)" for k
    using assms that by (intro atoi_dec) auto
  moreover have "last (n # ns) \<in> set (n # ns)" "set (butlast (n # ns)) \<subseteq> set (n # ns)"
    by (rule last_in_set, simp, meson in_set_butlastD subsetI)
  ultimately have "map atoi (map dec (butlast (n # ns)) @ [dec (last (n # ns)) @ [CHR 0x0A]]) =
      map int (butlast (n # ns)) @ [int (last (n # ns))]"
    by (simp only: map_append map_map comp_def list.map)
  also have "\<dots> = map int (n # ns)"
    using append_butlast_last_id [of "n # ns"] by (metis list.distinct(1) list.simps(8,9) map_append)
  finally show ?thesis unfolding split_fields_numbers .
qed

lemma cstr_profile_line:
  "entry_ok e \<Longrightarrow> cstr (profile_line e) = profile_line e"
  unfolding entry_ok_def profile_line_def
  by (intro cstr_no_nul) (auto simp: notin_dec)

lemma split_profile_line:
  assumes "entry_ok (name, ns)"
  shows "split_at DELIM (profile_line (name, ns)) =
    (case ns of [] \<Rightarrow> (name @ [CHR 0x0A], None)
     | n # ms \<Rightarrow> (name, Some (dec n @ concat (map (\<lambda>n. CHR '' '' # dec n) ms) @ [CHR 0x0A])))"
proof (cases ns)
  case Nil
  then show ?thesis
    using assms split_at_none [of DELIM "name @ [CHR 0x0A]"]
    by (simp add: profile_line_def entry_ok_def DELIM_def)
next
  case (Cons n ms)
  then show ?thesis
    using assms split_at_append [of DELIM name]
    by (simp add: profile_line_def entry_ok_def DELIM_def)
qed

section \<open>Reading a profile\<close>

definition filter_of :: "int list \<Rightarrow> nat list \<Rightarrow> sfilter" where
  "filter_of row0 ns =
     \<lparr>filter_syscalls = map int ns @ drop (length ns) row0, filter_len = length ns\<rparr>"

text \<open>The keyed filters a list of entries stands for; a script without numbers has none.\<close>

definition stored_filters :: "int list \<Rightarrow> (string \<times> nat list) list \<Rightarrow> (string \<times> sfilter) list" where
  "stored_filters row0 es =
     map (\<lambda>(name, ns). (name, filter_of row0 ns)) (filter (\<lambda>(name, ns). ns \<noteq> []) es)"

definition filters_inv :: "'c ext \<Rightarrow> bool" where
  "filters_inv st \<longleftrightarrow>
     head_inv hash_jen (filters st) \<and> (\<forall>e \<in> set (uth_entries (filters st)). fst e < n_filters st)"

lemma read_profile_line_entry:
  assumes "entry_ok (name, ns)" and "length row0 = ROW_SIZE"
  shows "read_profile_line m row0 (profile_line (name, ns)) st =
    (if ns = [] then Inr st
     else if \<not> m sizeof_filter then Inl Null_deref
     else (case hash_add_str m hash_jen (n_filters st) name (filter_of row0 ns) (filters st) of
             None \<Rightarrow> Inl Out_of_memory
           | Some fs \<Rightarrow> Inr (st\<lparr>filters := fs, n_filters := n_filters st + 1\<rparr>)))"
proof (cases ns)
  case (Cons n ms)
  have len: "length ms < ROW_SIZE" "length name < NAME_SIZE" "\<forall>k \<in> set (n # ms). k < 2 ^ 31"
    using assms Cons by (auto simp: entry_ok_def)
  have "create_seccomp_filter (dec n @ concat (map (\<lambda>n. CHR '' '' # dec n) ms) @ [CHR 0x0A]) row0
        = Some (map int (n # ms) @ drop (length (n # ms)) row0, length (n # ms))"
    unfolding create_seccomp_filter_spec atoi_fields_numbers [OF len(3)]
    using len assms(2) by (simp add: Let_def)
  then show ?thesis
    using assms len unfolding read_profile_line_def
    by (simp add: cstr_profile_line split_profile_line Cons filter_of_def)
qed (use assms in \<open>simp add: read_profile_line_def cstr_profile_line split_profile_line\<close>)

lemma read_profile_entries:
  assumes "malloc_bounded m" and "length row0 = ROW_SIZE" and "list_all entry_ok es"
    and "filters_inv st" and "read_profile m row0 (map profile_line es) st = Inr st'"
  shows "filters_inv st' \<and>
    map snd (uth_entries (filters st')) = map snd (uth_entries (filters st)) @ stored_filters row0 es \<and>
    st' = st\<lparr>filters := filters st', n_filters := n_filters st'\<rparr>"
  using assms
proof (induction es arbitrary: st)
  case (Cons e es)
  obtain name ns where e: "e = (name, ns)" by force
  have ok: "entry_ok (name, ns)" using Cons.prems e by simp
  show ?case
  proof (cases "ns = []")
    case True
    then show ?thesis
      using Cons ok by (simp add: e read_profile_line_entry stored_filters_def)
  next
    case False
    then obtain fs where add: "hash_add_str m hash_jen (n_filters st) name (filter_of row0 ns) (filters st) = Some fs"
      and rest: "read_profile m row0 (map profile_line es)
                   (st\<lparr>filters := fs, n_filters := n_filters st + 1\<rparr>) = Inr st'"
      using Cons.prems ok by (auto simp: e read_profile_line_entry split: if_splits option.splits)
    have "uth_adm m (n_filters st) name (filters st)"
      using Cons.prems(1,4) ok by (force simp: uth_adm_def filters_inv_def entry_ok_def NAME_SIZE_def)
    from uth.add_entries [OF _ this add] Cons.prems(4)
    have fs: "head_inv hash_jen fs"
      "uth_entries fs = uth_entries (filters st) @ [(n_filters st, name, filter_of row0 ns)]"
      by (auto simp: filters_inv_def)
    have "filters_inv (st\<lparr>filters := fs, n_filters := n_filters st + 1\<rparr>)"
      using fs Cons.prems(4) by (force simp: filters_inv_def)
    from Cons.IH [OF Cons.prems(1,2) _ this rest] Cons.prems(3) fs False
    show ?thesis by (auto simp: e stored_filters_def)
  qed
qed (simp add: stored_filters_def)

text \<open>Enough memory for the doublings of the table: a well-formed profile is read to the end.\<close>

lemma read_profile_total:
  assumes "malloc_bounded m" and "length row0 = ROW_SIZE" and "list_all entry_ok es"
    and "filters_inv st" and "log_ok (filters st)"
    and "\<And>sz. sz \<le> 2 ^ (11 + length (head_items (filters st)) + length es) \<Longrightarrow> m sz"
  shows "\<exists>st'. read_profile m row0 (map profile_line es) st = Inr st'"
  using assms
proof (induction es arbitrary: st)
  case (Cons e es)
  obtain name ns where e: "e = (name, ns)" by force
  have ok: "entry_ok (name, ns)" using Cons.prems e by simp
  let ?n = "length (head_items (filters st))"
  show ?case
  proof (cases "ns = []")
    case True
    have "m sz" if "sz \<le> 2 ^ (11 + ?n + length es)" for sz
      using Cons.prems(6) [of sz] order_trans [OF that power_increasing] by simp
    then show ?thesis using Cons ok True by (simp add: e read_profile_line_entry)
  next
    case False
    have le: "(2 :: nat) ^ 11 \<le> 2 ^ (11 + ?n + length (e # es))"
      "(2 :: nat) ^ (10 + ?n) \<le> 2 ^ (11 + ?n + length (e # es))"
      by (intro power_increasing; simp)+
    have "m sizeof_filter" using Cons.prems(6) le(1) by (simp add: sizeof_filter_def)
    obtain fs where add: "hash_add_str m hash_jen (n_filters st) name (filter_of row0 ns) (filters st) = Some fs"
      and log: "log_ok fs"
      using hash_add_str_Some [of hash_jen "filters st" m "n_filters st" name "filter_of row0 ns"]
        Cons.prems(4-6) le(2) order_trans unfolding filters_inv_def by blast
    have "uth_adm m (n_filters st) name (filters st)"
      using Cons.prems(1,4) ok by (force simp: uth_adm_def filters_inv_def entry_ok_def NAME_SIZE_def)
    from uth.add_entries [OF _ this add] Cons.prems(4)
    have fs: "head_inv hash_jen fs"
      "uth_entries fs = uth_entries (filters st) @ [(n_filters st, name, filter_of row0 ns)]"
      by (auto simp: filters_inv_def)
    have "length (head_items fs) = Suc ?n"
      using arg_cong [OF fs(2), of length] by (simp add: uth_entries_def)
    moreover have "filters_inv (st\<lparr>filters := fs, n_filters := n_filters st + 1\<rparr>)"
      using fs Cons.prems(4) by (force simp: filters_inv_def)
    ultimately have "\<exists>st'. read_profile m row0 (map profile_line es)
        (st\<lparr>filters := fs, n_filters := n_filters st + 1\<rparr>) = Inr st'"
      using Cons.prems log by (intro Cons.IH) (auto simp: add.assoc)
    then show ?thesis
      using ok False add \<open>m sizeof_filter\<close> Cons.prems(2) by (simp add: e read_profile_line_entry)
  qed
qed simp

lemma filters_inv_initial: "filters_inv (initial_ext prev)"
  unfolding filters_inv_def initial_ext_def by (simp add: uth.inv_empty uth.entries_empty)

lemma filters_inv_update [simp]:
  "filters_inv (st\<lparr>old_execute_internal := x\<rparr>) = filters_inv st"
  "filters_inv (st\<lparr>zend_execute_internal := x\<rparr>) = filters_inv st"
  by (simp_all add: filters_inv_def)

lemma MINIT_profile:
  assumes "malloc_bounded m" and "length row0 = ROW_SIZE" and "list_all entry_ok es"
    and "enable_str cfg \<noteq> None"
    and "MINIT lib m row0 cfg (Some (map profile_line es)) (initial_ext prev) = Inr (rc, st)"
  shows "rc = SUCCESS" and "filters_inv st"
    and "map snd (uth_entries (filters st)) = stored_filters row0 es"
    and "ctx st = map_option (\<lambda>c. scmp_rule_add lib c SECCOMP_RET_KILL (scmp_sys_exit lib))
                    (scmp_init lib SCMP_ACT_KILL)"
    and "zend_execute_internal st = Some Seccomp_execute_internal"
    and "old_execute_internal st = prev" and "seccomp_loaded st = False" and "loads st = []"
    and "executed st = []"
proof -
  let ?st = "(initial_ext prev :: 'a ext)\<lparr>old_execute_internal := prev,
               zend_execute_internal := Some Seccomp_execute_internal\<rparr>"
  have prev: "zend_execute_internal (initial_ext prev :: 'a ext) = prev"
    by (simp add: initial_ext_def)
  obtain st' where rd: "read_profile m row0 (map profile_line es) ?st = Inr st'"
    and st: "rc = SUCCESS"
      "st = st'\<lparr>ctx := map_option (\<lambda>c. scmp_rule_add lib c SECCOMP_RET_KILL (scmp_sys_exit lib))
                    (scmp_init lib SCMP_ACT_KILL)\<rparr>"
    using assms(4,5) unfolding MINIT_def Let_def prev by (auto split: sum.splits)
  have rp: "filters_inv st'"
    "map snd (uth_entries (filters st')) = map snd (uth_entries (filters ?st)) @ stored_filters row0 es"
    "st' = ?st\<lparr>filters := filters st', n_filters := n_filters st'\<rparr>"
    using read_profile_entries [OF assms(1-3) _ rd] filters_inv_initial by auto
  have eq: "zend_execute_internal st' = Some Seccomp_execute_internal"
    "old_execute_internal st' = prev" "seccomp_loaded st' = False" "loads st' = []" "executed st' = []"
    by (subst rp(3), simp add: initial_ext_def)+
  show "rc = SUCCESS" by (rule st)
  show "filters_inv st" using rp(1) unfolding st by (simp add: filters_inv_def)
  show "map snd (uth_entries (filters st)) = stored_filters row0 es"
    using rp(2) unfolding st by (simp add: initial_ext_def uth.entries_empty)
  show "ctx st = map_option (\<lambda>c. scmp_rule_add lib c SECCOMP_RET_KILL (scmp_sys_exit lib))
                    (scmp_init lib SCMP_ACT_KILL)"
    unfolding st by simp
  show "zend_execute_internal st = Some Seccomp_execute_internal"
    "old_execute_internal st = prev" "seccomp_loaded st = False" "loads st = []" "executed st = []"
    using eq unfolding st by simp_all
qed

section \<open>Enforcement\<close>

text \<open>
  What the documentation of libseccomp promises: a context created with the default action KILL
  allows nothing, an ALLOW rule allows exactly its system call in addition, and a rule whose action is
  the default one is refused and changes nothing.
\<close>

definition scmp_lib_ok :: "'c libseccomp \<Rightarrow> ('c \<Rightarrow> int \<Rightarrow> bool) \<Rightarrow> bool" where
  "scmp_lib_ok lib allows \<longleftrightarrow>
     (\<forall>c n k. scmp_init lib SCMP_ACT_KILL = Some c \<longrightarrow>
        \<not> allows c k \<and> \<not> allows (scmp_rule_add lib c SECCOMP_RET_KILL n) k) \<and>
     (\<forall>c n k. 0 \<le> n \<longrightarrow>
        allows (scmp_rule_add lib c SCMP_ACT_ALLOW n) k = (allows c k \<or> k = n))"

lemma allows_foldl:
  assumes "scmp_lib_ok lib allows" and "\<forall>n \<in> set ns. 0 \<le> n"
  shows "allows (foldl (\<lambda>c n. scmp_rule_add lib c SCMP_ACT_ALLOW n) c ns) k
    \<longleftrightarrow> allows c k \<or> k \<in> set ns"
  using assms(2) by (induction ns arbitrary: c) (use assms(1) in \<open>auto simp: scmp_lib_ok_def\<close>)

lemma map_of_stored_filters:
  assumes "distinct (map fst es)"
  shows "map_of (stored_filters row0 es) rel =
    (case map_of es rel of None \<Rightarrow> None
     | Some ns \<Rightarrow> if ns = [] then None else Some (filter_of row0 ns))"
  using assms
proof (induction es)
  case (Cons e es)
  obtain name ns where e: "e = (name, ns)" by force
  have "map_of es name = None" using Cons.prems e by (simp add: map_of_eq_None_iff)
  then show ?case using Cons by (auto simp: e stored_filters_def split: option.splits)
qed (simp add: stored_filters_def)

lemma distinct_stored_filters:
  "distinct (map fst es) \<Longrightarrow> distinct (map fst (stored_filters row0 es))"
proof -
  assume "distinct (map fst es)"
  moreover have "map fst (stored_filters row0 es) = map fst (filter (\<lambda>(name, ns). ns \<noteq> []) es)"
    unfolding stored_filters_def by (auto simp: comp_def split: prod.splits)
  ultimately show ?thesis by (metis distinct_map_filter)
qed

lemma uth_find_stored:
  assumes "filters_inv st" and "map snd (uth_entries (filters st)) = stored_filters row0 es"
    and "distinct (map fst es)" and "length rel < 2 ^ 32"
  shows "uth_find hash_jen rel (filters st) = map_of (stored_filters row0 es) rel"
proof -
  have "distinct (map (fst \<circ> snd) (uth_entries (filters st)))"
    using distinct_stored_filters [OF assms(3)] assms(2) by (metis map_map)
  then show ?thesis
    using uth.find_distinct [of hash_jen "filters st" rel] assms
    by (simp add: filters_inv_def)
qed

lemma script_relative:
  "CHR 0x00 \<notin> set (base @ rel) \<Longrightarrow>
   drop (length (cstr base)) (cstr (base @ rel)) = rel \<and> length (cstr base) \<le> length (cstr (base @ rel))"
  by (simp add: cstr_no_nul)

lemma load_seccomp_profile_entry:
  assumes "script_path req = Inr (app_base cfg @ rel)" and "CHR 0x00 \<notin> set (app_base cfg @ rel)"
    and "enable_int cfg \<noteq> 0"
    and "uth_find hash_jen rel (filters st) = map_option (filter_of row0) sel"
    and "ctx st = Some c0"
  shows "load_seccomp_profile lib cfg req st =
    (let c = foldl (\<lambda>c n. scmp_rule_add lib c SCMP_ACT_ALLOW n) c0
               (fpm_syscalls @ (case sel of None \<Rightarrow> [] | Some ns \<Rightarrow> map int ns))
     in Inr (scmp_load lib c, st\<lparr>ctx := Some c, loads := loads st @ [(Some c, scmp_load lib c)]\<rparr>))"
  using assms script_relative [OF assms(2)]
  unfolding load_seccomp_profile_def
  by (auto simp: Let_def allow_all_def load_ctx_def filter_of_def not_less split: option.splits)

section \<open>Calls through the hook\<close>

definition plain_executor :: "'c ext \<Rightarrow> executor" where
  "plain_executor st =
     (case old_execute_internal st of None \<Rightarrow> Execute_internal | Some h \<Rightarrow> h)"

text \<open>
  The states between calls: before the first call the hook is installed and nothing is loaded; after
  it the load has happened and the hook is still installed or has been given back.
\<close>

definition hook_inv :: "'c ext \<Rightarrow> bool" where
  "hook_inv st \<longleftrightarrow>
     old_execute_internal st \<noteq> Some Seccomp_execute_internal \<and>
     (zend_execute_internal st = Some Seccomp_execute_internal \<or>
      zend_execute_internal st = old_execute_internal st) \<and>
     length (loads st) \<le> (if seccomp_loaded st then 1 else 0)"

lemma load_seccomp_profile_frame:
  "load_seccomp_profile lib cfg req st = Inr (rc, st') \<Longrightarrow>
   zend_execute_internal st' = zend_execute_internal st \<and>
   old_execute_internal st' = old_execute_internal st \<and> executed st' = executed st \<and>
   filters st' = filters st \<and> n_filters st' = n_filters st \<and>
   (loads st' = loads st \<or> (\<exists>e. loads st' = loads st @ [e]))"
  unfolding load_seccomp_profile_def by (auto simp: Let_def split: sum.splits if_splits)

lemma call_internal_step:
  assumes "hook_inv st" and "call_internal lib cfg req st = Inr st'"
  shows "hook_inv st'" and "executed st' = executed st @ [plain_executor st]"
    and "plain_executor st' = plain_executor st"
    and "seccomp_loaded st \<Longrightarrow> seccomp_loaded st' \<and> loads st' = loads st \<and> ctx st' = ctx st"
    and "enable_str cfg = None \<Longrightarrow> loads st' = loads st"
  using assms
  unfolding call_internal_def seccomp_execute_internal_def hook_inv_def plain_executor_def
  by (auto simp: Let_def split: option.splits executor.splits sum.splits if_splits
      dest!: load_seccomp_profile_frame)

lemma call_internal_loaded:
  assumes "zend_execute_internal st = Some Seccomp_execute_internal" and "enable_str cfg \<noteq> None"
    and "call_internal lib cfg req st = Inr st'"
  shows "seccomp_loaded st'"
  using assms unfolding call_internal_def seccomp_execute_internal_def
  by (auto simp: Let_def split: sum.splits if_splits)

lemma call_internals_inv:
  assumes "hook_inv st" and "call_internals lib cfg rs st = Inr st'"
  shows "hook_inv st' \<and> executed st' = executed st @ replicate (length rs) (plain_executor st) \<and>
    plain_executor st' = plain_executor st \<and>
    (seccomp_loaded st \<longrightarrow> loads st' = loads st \<and> ctx st' = ctx st)"
  using assms
proof (induction rs arbitrary: st)
  case (Cons r rs)
  then obtain st1 where c: "call_internal lib cfg r st = Inr st1"
    and rest: "call_internals lib cfg rs st1 = Inr st'" by (auto split: sum.splits)
  show ?case
    using Cons.IH [OF call_internal_step(1) [OF Cons.prems(1) c] rest]
      call_internal_step [OF Cons.prems(1) c]
    by auto
qed simp

lemma call_internals_disabled:
  assumes "hook_inv st" and "enable_str cfg = None" and "call_internals lib cfg rs st = Inr st'"
  shows "loads st' = loads st"
  using assms
proof (induction rs arbitrary: st)
  case (Cons r rs)
  then obtain st1 where c: "call_internal lib cfg r st = Inr st1"
    and rest: "call_internals lib cfg rs st1 = Inr st'" by (auto split: sum.splits)
  show ?case
    using Cons.IH [OF call_internal_step(1) [OF Cons.prems(1) c] Cons.prems(2) rest]
      call_internal_step(5) [OF Cons.prems(1) c Cons.prems(2)] by simp
qed simp

lemma hook_inv_MINIT:
  assumes "prev \<noteq> Some Seccomp_execute_internal"
    and "MINIT lib m row0 cfg profile (initial_ext prev) = Inr (rc, st)"
  shows "hook_inv st" and "seccomp_loaded st = False" and "loads st = []" and "executed st = []"
    and "old_execute_internal st = prev" and "zend_execute_internal st = Some Seccomp_execute_internal"
proof -
  have frame: "zend_execute_internal s' = zend_execute_internal s \<and> old_execute_internal s' = old_execute_internal s \<and>
      seccomp_loaded s' = seccomp_loaded s \<and> loads s' = loads s \<and> executed s' = executed s"
    if "read_profile m row0 raws s = Inr s'" for raws and s s' :: "'a ext"
    using that
  proof (induction raws arbitrary: s)
    case (Cons raw raws)
    then obtain s1 where "read_profile_line m row0 raw s = Inr s1" "read_profile m row0 raws s1 = Inr s'"
      by (auto split: sum.splits)
    then show ?case
      using Cons.IH [of s1] unfolding read_profile_line_def
      by (auto split: prod.splits option.splits if_splits)
  qed simp
  have eq: "seccomp_loaded st = False \<and> loads st = [] \<and> executed st = [] \<and>
      old_execute_internal st = prev \<and> zend_execute_internal st = Some Seccomp_execute_internal"
    using assms(2) unfolding MINIT_def initial_ext_def
    by (auto simp: Let_def split: option.splits sum.splits if_splits dest!: frame)
  then show "seccomp_loaded st = False" "loads st = []" "executed st = []"
    "old_execute_internal st = prev" "zend_execute_internal st = Some Seccomp_execute_internal"
    by auto
  show "hook_inv st" using eq assms(1) unfolding hook_inv_def by simp
qed

section \<open>Properties\<close>

text \<open>A libseccomp whose context is the list of the allowed system calls, for the witnesses.\<close>

definition list_lib :: "int list libseccomp" where
  "list_lib =
     \<lparr>scmp_init = (\<lambda>a. Some []),
      scmp_rule_add = (\<lambda>c a n. if a = SCMP_ACT_ALLOW then n # c else c),
      scmp_load = (\<lambda>c. 0), scmp_sys_exit = 60\<rparr>"

lemma list_lib_ok: "scmp_lib_ok list_lib (\<lambda>c n. n \<in> set c)"
  unfolding scmp_lib_ok_def list_lib_def SECCOMP_RET_KILL_def SCMP_ACT_ALLOW_def by auto

definition example_malloc :: "nat \<Rightarrow> bool" where
  "example_malloc sz \<longleftrightarrow> sz < 2 ^ 30"

definition example_ini :: ini where
  "example_ini = \<lparr>enable_str = Some ''1'', enable_int = 1, app_base = ''/www''\<rparr>"

definition example_entries :: "(string \<times> nat list) list" where
  "example_entries = [(''/a.php'', [0, 231]), (''/b.php'', []), (''/c.php'', [1])]"

lemma example_setup:
  "malloc_bounded example_malloc" "length (replicate ROW_SIZE (7 :: int)) = ROW_SIZE"
  "list_all entry_ok example_entries" "distinct (map fst example_entries)"
  "enable_str example_ini \<noteq> None" "enable_int example_ini \<noteq> 0"
  by (simp_all add: malloc_bounded_def example_malloc_def example_ini_def example_entries_def
      entry_ok_def NAME_SIZE_def ROW_SIZE_def)

lemma example_MINIT:
  "\<exists>st. MINIT list_lib example_malloc (replicate ROW_SIZE 7) example_ini
           (Some (map profile_line example_entries)) (initial_ext None) = Inr (SUCCESS, st)"
proof -
  have "\<exists>st. read_profile example_malloc (replicate ROW_SIZE 7) (map profile_line example_entries)
     ((initial_ext None :: int list ext)\<lparr>old_execute_internal := None,
        zend_execute_internal := Some Seccomp_execute_internal\<rparr>) = Inr st"
    by (rule read_profile_total [OF example_setup(1-3)])
       (auto simp: filters_inv_def uth.inv_empty uth.entries_empty initial_ext_def log_ok_def
          head_items_def example_malloc_def example_entries_def)
  then show ?thesis
    unfolding MINIT_def by (auto simp: Let_def initial_ext_def example_ini_def)
qed

text \<open>C1: After module start on a profile in the format of stage 2, the first internal function call of
  a request for the script \<open>base/rel\<close> loads one filter, which allows exactly the five calls PHP-FPM
  needs and the numbers the profile lists for \<open>rel\<close>; a script the profile does not list gets the
  five calls only.\<close>

theorem profile_enforced:
  assumes "scmp_lib_ok lib allows" and "malloc_bounded m" and "length row0 = ROW_SIZE"
    and "list_all entry_ok es" and "distinct (map fst es)"
    and "enable_str cfg \<noteq> None" and "enable_int cfg \<noteq> 0"
    and "scmp_init lib SCMP_ACT_KILL = Some c0"
    and "MINIT lib m row0 cfg (Some (map profile_line es)) (initial_ext prev) = Inr (rc, st)"
    and "script_path req = Inr (app_base cfg @ rel)" and "CHR 0x00 \<notin> set (app_base cfg @ rel)"
    and "length rel < 2 ^ 32"
  shows "\<exists>st' c. call_internal lib cfg req st = Inr st' \<and> loads st' = [(Some c, scmp_load lib c)] \<and>
    (\<forall>n. allows c n \<longleftrightarrow>
       n \<in> set fpm_syscalls \<or> (\<exists>ns. (rel, ns) \<in> set es \<and> n \<in> int ` set ns))"
proof -
  note st = MINIT_profile [OF assms(2,3,4,6,9)]
  define c1 where "c1 = scmp_rule_add lib c0 SECCOMP_RET_KILL (scmp_sys_exit lib)"
  have ctx: "ctx st = Some c1" using st(4) assms(8) by (simp add: c1_def)
  define sel where "sel = (case map_of es rel of None \<Rightarrow> None
                           | Some ns \<Rightarrow> if ns = [] then None else Some ns)"
  have find: "uth_find hash_jen rel (filters st) = map_option (filter_of row0) sel"
    using uth_find_stored [OF st(2,3) assms(5,12)] map_of_stored_filters [OF assms(5)]
    unfolding sel_def by (simp split: option.splits)
  define ns where "ns = fpm_syscalls @ (case sel of None \<Rightarrow> [] | Some ns \<Rightarrow> map int ns)"
  define c where "c = foldl (\<lambda>c n. scmp_rule_add lib c SCMP_ACT_ALLOW n) c1 ns"
  have "\<forall>n \<in> set ns. 0 \<le> n" by (auto simp: ns_def fpm_syscalls_def split: option.splits)
  then have "allows c n \<longleftrightarrow> n \<in> set ns" for n
    using allows_foldl [OF assms(1)] assms(1,8) unfolding c_def c1_def scmp_lib_ok_def by simp
  moreover have "set ns = set fpm_syscalls \<union> {n. \<exists>ns. (rel, ns) \<in> set es \<and> n \<in> int ` set ns}"
  proof -
    have "(rel, ns) \<in> set es \<longleftrightarrow> map_of es rel = Some ns" for ns
      using map_of_eq_Some_iff [OF assms(5)] by simp
    then show ?thesis unfolding ns_def sel_def by (auto split: option.splits)
  qed
  moreover have "\<exists>st'. call_internal lib cfg req st = Inr st' \<and> loads st' = [(Some c, scmp_load lib c)]"
    using load_seccomp_profile_entry [OF assms(10,11,7) find ctx, of lib] st(5-8) assms(6)
    unfolding call_internal_def seccomp_execute_internal_def c_def ns_def by (simp add: Let_def)
  ultimately show ?thesis by auto
qed

theorem profile_enforced_witness:
  "\<exists>st st' c. MINIT list_lib example_malloc (replicate ROW_SIZE 7) example_ini
       (Some (map profile_line example_entries)) (initial_ext None) = Inr (SUCCESS, st) \<and>
     call_internal list_lib example_ini
       \<lparr>server_script = Some (Some ''/www/a.php''), executed_filename = []\<rparr> st = Inr st' \<and>
     loads st' = [(Some c, 0)] \<and> set c = {0, 231, 100, 80, 38, 273, 48}"
proof -
  obtain st where st: "MINIT list_lib example_malloc (replicate ROW_SIZE 7) example_ini
       (Some (map profile_line example_entries)) (initial_ext None) = Inr (SUCCESS, st)"
    using example_MINIT by blast
  define req where "req = \<lparr>server_script = Some (Some ''/www/a.php''), executed_filename = []\<rparr>"
  have init: "scmp_init list_lib SCMP_ACT_KILL = Some []" by (simp add: list_lib_def)
  have sp: "script_path req = Inr (app_base example_ini @ ''/a.php'')"
    by (simp add: script_path_def req_def example_ini_def)
  obtain st' c where r: "call_internal list_lib example_ini req st = Inr st'"
    "loads st' = [(Some c, scmp_load list_lib c)]"
    "\<And>n. n \<in> set c \<longleftrightarrow> n \<in> set fpm_syscalls \<or>
       (\<exists>ns. (''/a.php'', ns) \<in> set example_entries \<and> n \<in> int ` set ns)"
    using profile_enforced [OF list_lib_ok example_setup init st sp] by (auto simp: example_ini_def)
  have "set c = {0, 231, 100, 80, 38, 273, 48}"
    using r(3) by (auto simp: example_entries_def fpm_syscalls_def)
  then show ?thesis using st r(1,2) by (auto simp: req_def list_lib_def)
qed

text \<open>C4: A run of internal function calls after module start, over any sequence of requests, loads a
  filter at most once and runs every call exactly once, in order, with the executor PHP had before the
  extension.\<close>

theorem hook_transparent:
  assumes "prev \<noteq> Some Seccomp_execute_internal"
    and "MINIT lib m row0 cfg profile (initial_ext prev) = Inr (rc, st)"
    and "call_internals lib cfg rs st = Inr st'"
  shows "length (loads st') \<le> 1 \<and>
    executed st' = replicate (length rs) (case prev of None \<Rightarrow> Execute_internal | Some h \<Rightarrow> h)"
proof -
  note st = hook_inv_MINIT [OF assms(1,2)]
  have "hook_inv st'" "executed st' = replicate (length rs) (plain_executor st)"
    using call_internals_inv [OF st(1) assms(3)] st(4) by auto
  then show ?thesis
    using st(5) by (auto simp: hook_inv_def plain_executor_def split: if_splits)
qed

definition example_requests :: "request list" where
  "example_requests =
     [\<lparr>server_script = Some (Some ''/www/a.php''), executed_filename = []\<rparr>,
      \<lparr>server_script = Some (Some ''/www/c.php''), executed_filename = []\<rparr>]"

theorem hook_transparent_witness:
  "\<exists>st st'. MINIT list_lib (\<lambda>_. True) [] example_ini (Some []) (initial_ext (Some (Other_executor 3)))
        = Inr (SUCCESS, st) \<and>
     call_internals list_lib example_ini example_requests st = Inr st' \<and>
     executed st' = [Other_executor 3, Other_executor 3] \<and> length (loads st') \<le> 1"
proof -
  obtain st where st: "MINIT list_lib (\<lambda>_. True) [] example_ini (Some [])
      (initial_ext (Some (Other_executor 3))) = Inr (SUCCESS, st)"
    by (simp add: MINIT_def Let_def example_ini_def)
  obtain st' where st': "call_internals list_lib example_ini example_requests st = Inr st'"
    using st by (auto simp: MINIT_def Let_def example_ini_def initial_ext_def example_requests_def
      list_lib_def call_internal_def seccomp_execute_internal_def load_seccomp_profile_def
      script_path_def cstr_def uth_find_def hash_find_str_def hash_find_byhashvalue_def)
  show ?thesis
    using hook_transparent [OF _ st st'] st st' by (simp add: example_requests_def numeral_2_eq_2)
qed

text \<open>C3: The filter a process runs under is decided by the first request alone: later requests, for
  other scripts too, change neither the context nor what was loaded.\<close>

theorem first_request_decides:
  assumes "prev \<noteq> Some Seccomp_execute_internal" and "enable_str cfg \<noteq> None"
    and "MINIT lib m row0 cfg profile (initial_ext prev) = Inr (rc, st)"
    and "call_internals lib cfg (r # rs) st = Inr st'"
  shows "\<exists>st1. call_internal lib cfg r st = Inr st1 \<and> loads st' = loads st1 \<and> ctx st' = ctx st1"
proof -
  note st = hook_inv_MINIT [OF assms(1,3)]
  obtain st1 where st1: "call_internal lib cfg r st = Inr st1"
    "call_internals lib cfg rs st1 = Inr st'"
    using assms(4) by (auto split: sum.splits)
  have "hook_inv st1" by (rule call_internal_step(1) [OF st(1) st1(1)])
  moreover have "seccomp_loaded st1" by (rule call_internal_loaded [OF st(6) assms(2) st1(1)])
  ultimately show ?thesis using call_internals_inv [OF _ st1(2)] st1(1) by blast
qed

theorem first_request_decides_witness:
  "\<exists>st st' st1. MINIT list_lib (\<lambda>_. True) [] example_ini (Some []) (initial_ext None) = Inr (SUCCESS, st) \<and>
     call_internals list_lib example_ini example_requests st = Inr st' \<and>
     call_internal list_lib example_ini (hd example_requests) st = Inr st1 \<and> loads st' = loads st1"
proof -
  obtain st where st: "MINIT list_lib (\<lambda>_. True) [] example_ini (Some []) (initial_ext None)
      = Inr (SUCCESS, st)"
    by (simp add: MINIT_def Let_def example_ini_def)
  obtain st' where st': "call_internals list_lib example_ini example_requests st = Inr st'"
    using st by (auto simp: MINIT_def Let_def example_ini_def initial_ext_def example_requests_def
      list_lib_def call_internal_def seccomp_execute_internal_def load_seccomp_profile_def
      script_path_def cstr_def uth_find_def hash_find_str_def hash_find_byhashvalue_def)
  have cs: "example_requests = hd example_requests # tl example_requests"
    by (simp add: example_requests_def)
  have "\<exists>st1. call_internal list_lib example_ini (hd example_requests) st = Inr st1 \<and>
      loads st' = loads st1 \<and> ctx st' = ctx st1"
    using st' by (intro first_request_decides [where rs = "tl example_requests", OF _ _ st])
      (simp_all add: example_ini_def cs [symmetric])
  then show ?thesis using st st' by blast
qed

text \<open>C5: A first request whose script path is shorter than \<open>seccomp.app_base\<close> loads no filter, and no
  later call of the process does: it stays unconfined although the extension is enabled.\<close>

theorem short_path_unconfined:
  assumes "prev \<noteq> Some Seccomp_execute_internal"
    and "MINIT lib m row0 cfg profile (initial_ext prev) = Inr (rc, st)"
    and "script_path r = Inr path" and "length (cstr path) < length (cstr (app_base cfg))"
    and "call_internals lib cfg (r # rs) st = Inr st'"
  shows "loads st' = []"
proof -
  note st = hook_inv_MINIT [OF assms(1,2)]
  obtain st1 where st1: "call_internal lib cfg r st = Inr st1"
    "call_internals lib cfg rs st1 = Inr st'"
    using assms(5) by (auto split: sum.splits)
  have h1: "hook_inv st1" by (rule call_internal_step(1) [OF st(1) st1(1)])
  have l1: "loads st1 = []"
    using st1(1) assms(3,4) st(3,6)
    unfolding call_internal_def seccomp_execute_internal_def load_seccomp_profile_def
    by (auto simp: Let_def split: if_splits)
  show ?thesis
  proof (cases "enable_str cfg = None")
    case False
    then have "seccomp_loaded st1" using call_internal_loaded [OF st(6) _ st1(1)] by simp
    then show ?thesis using call_internals_inv [OF h1 st1(2)] l1 by simp
  next
    case True
    then show ?thesis using call_internals_disabled [OF h1 _ st1(2)] l1 by simp
  qed
qed

theorem short_path_unconfined_witness:
  "\<exists>st st'. MINIT list_lib (\<lambda>_. True) [] example_ini (Some []) (initial_ext None) = Inr (SUCCESS, st) \<and>
     call_internals list_lib example_ini
       [\<lparr>server_script = Some (Some ''/x''), executed_filename = []\<rparr>, example_requests ! 1] st = Inr st' \<and>
     loads st' = []"
proof -
  obtain st where st: "MINIT list_lib (\<lambda>_. True) [] example_ini (Some []) (initial_ext None)
      = Inr (SUCCESS, st)"
    by (simp add: MINIT_def Let_def example_ini_def)
  define r where "r = \<lparr>server_script = Some (Some ''/x''), executed_filename = []\<rparr>"
  obtain st' where st': "call_internals list_lib example_ini [r, example_requests ! 1] st = Inr st'"
    using st by (auto simp: MINIT_def Let_def example_ini_def initial_ext_def example_requests_def
      r_def list_lib_def call_internal_def seccomp_execute_internal_def load_seccomp_profile_def
      script_path_def cstr_def uth_find_def hash_find_str_def hash_find_byhashvalue_def)
  have "loads st' = []"
    by (rule short_path_unconfined [OF _ st _ _ st', where path = "''/x''"])
       (simp_all add: r_def script_path_def cstr_def example_ini_def)
  then show ?thesis using st st' unfolding r_def by blast
qed

text \<open>The place of a script in the application is found by cutting \<open>strlen(app_base)\<close> characters:
  the characters cut are not compared with \<open>app_base\<close>, so paths under any prefix of that length load
  the same filter.\<close>

lemma base_not_compared:
  assumes "script_path r1 = Inr (a @ rel)" and "script_path r2 = Inr (b @ rel)"
    and "length a = length (cstr (app_base cfg))" and "length b = length a"
    and "CHR 0x00 \<notin> set (a @ b @ rel)"
  shows "load_seccomp_profile lib cfg r1 st = load_seccomp_profile lib cfg r2 st"
proof -
  have "cstr (a @ rel) = a @ rel" "cstr (b @ rel) = b @ rel"
    using assms(5) by (simp_all add: cstr_no_nul)
  then show ?thesis
    using assms(1-4) unfolding load_seccomp_profile_def by simp
qed

lemma base_not_compared_witness:
  "load_seccomp_profile list_lib example_ini
     \<lparr>server_script = Some (Some ''/www/a.php''), executed_filename = []\<rparr> (initial_ext None) =
   load_seccomp_profile list_lib example_ini
     \<lparr>server_script = Some (Some ''/tmp/a.php''), executed_filename = []\<rparr> (initial_ext None)"
  by (rule base_not_compared [where a = "''/www''" and b = "''/tmp''" and rel = "''/a.php''"])
     (simp_all add: script_path_def example_ini_def cstr_def)

text \<open>Parsing the numbers of a line: every field between delimiters is stored as \<open>atoi\<close> reads it, in
  order, an empty or blank last field as 0, and a line with more fields than the row has places runs
  past its end.\<close>

lemma create_seccomp_filter_exact:
  "create_seccomp_filter s row =
     (if length (split_fields DELIM s) \<le> length row
      then Some (map atoi (split_fields DELIM s) @ drop (length (split_fields DELIM s)) row,
                 length (split_fields DELIM s))
      else None)"
  unfolding create_seccomp_filter_spec by (simp add: Let_def)

text \<open>C6: A line of the profile whose script name fits overflows the \<open>syscalls\<close> array exactly when it
  lists more than 333 numbers; nothing checks for it.\<close>

theorem profile_line_overflow:
  assumes "CHR '' '' \<notin> set name" and "CHR 0x00 \<notin> set (name @ nums)" and "length name < NAME_SIZE"
    and "malloc_ok sizeof_filter" and "length row0 = ROW_SIZE"
  shows "read_profile_line malloc_ok row0 (name @ CHR '' '' # nums) st = Inl Row_overflow
    \<longleftrightarrow> 333 < length (split_fields DELIM nums)"
proof -
  have "cstr (name @ CHR '' '' # nums) = name @ DELIM # nums"
    using assms(2) by (simp add: cstr_no_nul DELIM_def)
  moreover have "split_at DELIM (name @ DELIM # nums) = (name, Some nums)"
    using assms(1) by (simp add: split_at_append DELIM_def)
  ultimately show ?thesis
    using assms(3-5) unfolding read_profile_line_def create_seccomp_filter_spec
    by (auto simp: Let_def ROW_SIZE_def split: option.splits)
qed

theorem profile_line_overflow_witness:
  "read_profile_line (\<lambda>_. True) (replicate ROW_SIZE 0) (''/a'' @ CHR '' '' # ''1 2'') (initial_ext None)
     \<noteq> Inl Row_overflow"
proof -
  have "length (split_fields DELIM ''1 2'') = 2"
    using split_fields_append [of DELIM "''1''" "''2''"] split_fields_none [of DELIM "''2''"]
    by (simp add: DELIM_def)
  then show ?thesis
    by (subst profile_line_overflow) (simp_all add: NAME_SIZE_def)
qed

text \<open>When libseccomp cannot create a context, module start still reports success and the first call
  only records a failed load: the process runs unconfined.\<close>

lemma init_failure_unconfined:
  assumes "prev \<noteq> Some Seccomp_execute_internal" and "scmp_init lib SCMP_ACT_KILL = None"
    and "enable_str cfg \<noteq> None" and "enable_int cfg \<noteq> 0"
    and "MINIT lib m row0 cfg (Some raws) (initial_ext prev) = Inr (rc, st)"
    and "script_path r = Inr path" and "length (cstr (app_base cfg)) \<le> length (cstr path)"
    and "call_internals lib cfg (r # rs) st = Inr st'"
  shows "rc = SUCCESS \<and> loads st' = [(None, - 22)]"
proof -
  note st = hook_inv_MINIT [OF assms(1,5)]
  have c: "rc = SUCCESS" "ctx st = None"
    using assms(2,3,5) unfolding MINIT_def by (auto simp: Let_def split: sum.splits)
  obtain st1 where st1: "call_internal lib cfg r st = Inr st1" "call_internals lib cfg rs st1 = Inr st'"
    using assms(8) by (auto split: sum.splits)
  have "hook_inv st1" "seccomp_loaded st1"
    using call_internal_step(1) [OF st(1) st1(1)] call_internal_loaded [OF st(6) assms(3) st1(1)] .
  moreover have "loads st1 = [(None, - 22)]"
    using st1(1) assms(3,4,6,7) c(2) st(2,3,6)
    unfolding call_internal_def seccomp_execute_internal_def load_seccomp_profile_def
    by (auto simp: Let_def allow_all_def load_ctx_def split: option.splits)
  ultimately show ?thesis using call_internals_inv [OF _ st1(2)] c(1) by simp
qed

lemma init_failure_unconfined_witness:
  "\<exists>st st'. MINIT (list_lib\<lparr>scmp_init := \<lambda>_. None\<rparr>) (\<lambda>_. True) [] example_ini (Some []) (initial_ext None)
       = Inr (SUCCESS, st) \<and>
     call_internals (list_lib\<lparr>scmp_init := \<lambda>_. None\<rparr>) example_ini example_requests st = Inr st' \<and>
     loads st' = [(None, - 22)]"
proof -
  let ?lib = "list_lib\<lparr>scmp_init := \<lambda>_. None\<rparr>"
  obtain st where st: "MINIT ?lib (\<lambda>_. True) [] example_ini (Some []) (initial_ext None)
      = Inr (SUCCESS, st)"
    by (simp add: MINIT_def Let_def example_ini_def)
  obtain st' where st': "call_internals ?lib example_ini example_requests st = Inr st'"
    using st by (auto simp: MINIT_def Let_def example_ini_def initial_ext_def example_requests_def
      list_lib_def call_internal_def seccomp_execute_internal_def load_seccomp_profile_def
      script_path_def cstr_def uth_find_def hash_find_str_def hash_find_byhashvalue_def)
  have "loads st' = [(None, - 22)]"
    using st' init_failure_unconfined [OF _ _ _ _ st, where path = "''/www/a.php''"
        and r = "hd example_requests" and rs = "tl example_requests" and st' = st']
    by (simp add: list_lib_def example_ini_def example_requests_def script_path_def cstr_def)
  then show ?thesis using st st' by blast
qed

end
