(* ===== verification/Llist.thy ===== *)
theory Llist
  imports Prelude "HOL-Library.Monad_Syntax"
begin

text \<open>
  The doubly linked list \<open>xdebug_llist.c\<close> of the trace extension, on an explicit heap: \<open>cells\<close> maps
  the addresses of the allocated elements to their \<open>ptr\<close>, \<open>prev\<close> and \<open>next\<close> fields, \<open>None\<close> is
  NULL, \<open>malloc\<close> hands out the next unused address and \<open>free\<close> removes the cell. An access through
  NULL or through a freed address is \<open>None\<close>. The values given to the list's destructor are logged in
  \<open>destroyed\<close>. \<open>is_llist\<close> says which addresses form the list; the refinement lemmas say what every
  operation does to the list of values.
\<close>

section \<open>Data\<close>

record 'a llist_element =
  ptr :: 'a
  prev :: "nat option"
  nxt :: "nat option"

record 'a heap =
  cells :: "nat \<Rightarrow> 'a llist_element option"
  brk :: nat
  destroyed :: "'a list"

record llist =
  head :: "nat option"
  tail :: "nat option"
  has_dtor :: bool
  lsize :: nat

definition empty_heap :: "'a heap" where
  "empty_heap = \<lparr>cells = Map.empty, brk = 0, destroyed = []\<rparr>"

definition deref :: "'a heap \<Rightarrow> nat option \<Rightarrow> 'a llist_element option" where
  "deref hp a = (case a of None \<Rightarrow> None | Some x \<Rightarrow> cells hp x)"

text \<open>Writing a field of the element at an address.\<close>

definition upd ::
  "nat option \<Rightarrow> ('a llist_element \<Rightarrow> 'a llist_element) \<Rightarrow> 'a heap \<Rightarrow> 'a heap option" where
  "upd a f hp =
     (case a of None \<Rightarrow> None
      | Some x \<Rightarrow>
          (case cells hp x of None \<Rightarrow> None
           | Some n \<Rightarrow> Some (hp\<lparr>cells := (cells hp)(x \<mapsto> f n)\<rparr>)))"

section \<open>Operations\<close>

definition llist_init :: "bool \<Rightarrow> llist" where
  "llist_init dtor = \<lparr>head = None, tail = None, has_dtor = dtor, lsize = 0\<rparr>"

definition llist_alloc :: "bool \<Rightarrow> llist" where
  "llist_alloc dtor = llist_init dtor"

definition new_cell :: "'a heap \<Rightarrow> 'a llist_element \<Rightarrow> 'a heap" where
  "new_cell hp n = hp\<lparr>cells := (cells hp)(brk hp \<mapsto> n), brk := Suc (brk hp)\<rparr>"

definition llist_insert_next ::
  "nat option \<Rightarrow> 'a \<Rightarrow> 'a heap \<times> llist \<Rightarrow> ('a heap \<times> llist) option" where
  "llist_insert_next e p = (\<lambda>(hp, l).
     (let e = (if e = None then tail l else e); ne = brk hp
      in if lsize l = 0
         then Some (new_cell hp \<lparr>ptr = p, prev = None, nxt = None\<rparr>,
                    l\<lparr>head := Some ne, tail := Some ne, lsize := lsize l + 1\<rparr>)
         else do {
           en \<leftarrow> deref hp e;
           hp \<leftarrow> Some (new_cell hp \<lparr>ptr = p, prev = e, nxt = nxt en\<rparr>);
           (hp, l) \<leftarrow>
             (if nxt en \<noteq> None
              then do { hp \<leftarrow> upd (nxt en) (\<lambda>n. n\<lparr>prev := Some ne\<rparr>) hp; Some (hp, l) }
              else Some (hp, l\<lparr>tail := Some ne\<rparr>));
           hp \<leftarrow> upd e (\<lambda>n. n\<lparr>nxt := Some ne\<rparr>) hp;
           Some (hp, l\<lparr>lsize := lsize l + 1\<rparr>)
         }))"

definition llist_insert_prev ::
  "nat option \<Rightarrow> 'a \<Rightarrow> 'a heap \<times> llist \<Rightarrow> ('a heap \<times> llist) option" where
  "llist_insert_prev e p = (\<lambda>(hp, l).
     (let e = (if e = None then head l else e); ne = brk hp
      in if lsize l = 0
         then Some (new_cell hp \<lparr>ptr = p, prev = None, nxt = None\<rparr>,
                    l\<lparr>head := Some ne, tail := Some ne, lsize := lsize l + 1\<rparr>)
         else do {
           en \<leftarrow> deref hp e;
           hp \<leftarrow> Some (new_cell hp \<lparr>ptr = p, prev = prev en, nxt = e\<rparr>);
           (hp, l) \<leftarrow>
             (if prev en \<noteq> None
              then do { hp \<leftarrow> upd (prev en) (\<lambda>n. n\<lparr>nxt := Some ne\<rparr>) hp; Some (hp, l) }
              else Some (hp, l\<lparr>head := Some ne\<rparr>));
           hp \<leftarrow> upd e (\<lambda>n. n\<lparr>prev := Some ne\<rparr>) hp;
           Some (hp, l\<lparr>lsize := lsize l + 1\<rparr>)
         }))"

definition llist_remove :: "nat option \<Rightarrow> 'a heap \<times> llist \<Rightarrow> ('a heap \<times> llist) option" where
  "llist_remove e = (\<lambda>(hp, l).
     (if e = None \<or> lsize l = 0 then Some (hp, l)
      else do {
        en \<leftarrow> deref hp e;
        (hp, l) \<leftarrow>
          (if e = head l
           then
             (if nxt en = None then Some (hp, l\<lparr>head := None, tail := None\<rparr>)
              else do {
                hp \<leftarrow> upd (nxt en) (\<lambda>n. n\<lparr>prev := None\<rparr>) hp;
                Some (hp, l\<lparr>head := nxt en\<rparr>)
              })
           else do {
             hp \<leftarrow> upd (prev en) (\<lambda>n. n\<lparr>nxt := nxt en\<rparr>) hp;
             (if nxt en = None then Some (hp, l\<lparr>tail := prev en\<rparr>)
              else do {
                hp \<leftarrow> upd (nxt en) (\<lambda>n. n\<lparr>prev := prev en\<rparr>) hp;
                Some (hp, l)
              })
           });
        Some (hp\<lparr>destroyed := (if has_dtor l then destroyed hp @ [ptr en] else destroyed hp),
                 cells := (cells hp)(the e := None)\<rparr>,
              l\<lparr>lsize := lsize l - 1\<rparr>)
      }))"

definition llist_remove_next :: "nat option \<Rightarrow> 'a heap \<times> llist \<Rightarrow> ('a heap \<times> llist) option" where
  "llist_remove_next e s = do { en \<leftarrow> deref (fst s) e; llist_remove (nxt en) s }"

definition llist_remove_prev :: "nat option \<Rightarrow> 'a heap \<times> llist \<Rightarrow> ('a heap \<times> llist) option" where
  "llist_remove_prev e s = do { en \<leftarrow> deref (fst s) e; llist_remove (prev en) s }"

text \<open>\<open>pos\<close> steps along a link; a step from NULL is the fault.\<close>

fun walk ::
  "('a llist_element \<Rightarrow> nat option) \<Rightarrow> 'a heap \<Rightarrow> nat \<Rightarrow> nat option \<Rightarrow> nat option option" where
  "walk dir hp 0 e = Some e"
| "walk dir hp (Suc n) e = do { en \<leftarrow> deref hp e; walk dir hp n (dir en) }"

definition LIST_HEAD :: int where
  "LIST_HEAD = 0"

definition LIST_TAIL :: int where
  "LIST_TAIL = 1"

definition llist_jump :: "int \<Rightarrow> int \<Rightarrow> 'a heap \<times> llist \<Rightarrow> nat option option" where
  "llist_jump wh pos = (\<lambda>(hp, l).
     (if wh = LIST_HEAD then walk nxt hp (nat pos) (head l)
      else if wh = LIST_TAIL then walk prev hp (nat pos) (tail l)
      else Some None))"

definition llist_count :: "llist \<Rightarrow> nat" where
  "llist_count l = lsize l"

lemma llist_remove_lsize:
  "llist_remove e (hp, l) = Some (hp', l') \<Longrightarrow> e \<noteq> None \<Longrightarrow> 0 < lsize l \<Longrightarrow> lsize l' = lsize l - 1"
  unfolding llist_remove_def
  by (auto split: if_splits bind_splits simp: Let_def)

function llist_empty :: "'a heap \<times> llist \<Rightarrow> ('a heap \<times> llist) option" where
  "llist_empty (hp, l) =
     (if 0 < llist_count l \<and> tail l \<noteq> None
      then (case llist_remove (tail l) (hp, l) of
              None \<Rightarrow> None
            | Some s \<Rightarrow> llist_empty s)
      else Some (hp, l))"
  by pat_completeness auto
termination
proof (relation "measure (\<lambda>(hp, l). lsize l)")
  fix hp :: "'a heap" and l s
  assume a: "0 < llist_count l \<and> tail l \<noteq> None" "llist_remove (tail l) (hp, l) = Some s"
  obtain hp' l' where s: "s = (hp', l')" by force
  show "(s, hp, l) \<in> measure (\<lambda>(hp, l). lsize l)"
    using a llist_remove_lsize [of "tail l" hp l hp' l'] unfolding s llist_count_def by simp
qed simp

declare llist_empty.simps [simp del]

definition llist_destroy :: "'a heap \<times> llist \<Rightarrow> 'a heap option" where
  "llist_destroy s = map_option fst (llist_empty s)"

section \<open>Segments\<close>

text \<open>
  \<open>seg c p avs z\<close>: the cells at the addresses of \<open>avs\<close> hold its values and are linked in this order,
  the first one's \<open>prev\<close> is \<open>p\<close> and the last one's \<open>next\<close> is \<open>z\<close>.
\<close>

definition first :: "(nat \<times> 'a) list \<Rightarrow> nat option \<Rightarrow> nat option" where
  "first avs z = (case avs of [] \<Rightarrow> z | av # _ \<Rightarrow> Some (fst av))"

definition final :: "nat option \<Rightarrow> (nat \<times> 'a) list \<Rightarrow> nat option" where
  "final p avs = (if avs = [] then p else Some (fst (last avs)))"

fun seg ::
  "(nat \<Rightarrow> 'a llist_element option) \<Rightarrow> nat option \<Rightarrow> (nat \<times> 'a) list \<Rightarrow> nat option \<Rightarrow> bool" where
  "seg c p [] z = True"
| "seg c p (av # avs) z \<longleftrightarrow>
     c (fst av) = Some \<lparr>ptr = snd av, prev = p, nxt = first avs z\<rparr> \<and> seg c (Some (fst av)) avs z"

lemma first_simps [simp]: "first [] z = z" "first (av # avs) z = Some (fst av)"
  by (simp_all add: first_def)

lemma final_Nil [simp]: "final p [] = p"
  by (simp add: final_def)

lemma first_append [simp]: "first (xs @ ys) z = first xs (first ys z)"
  by (cases xs) simp_all

lemma final_Cons [simp]: "final p (av # avs) = final (Some (fst av)) avs"
  by (simp add: final_def)

lemma final_append [simp]: "final p (xs @ ys) = final (final p xs) ys"
  by (simp add: final_def)

lemma seg_append [simp]:
  "seg c p (xs @ ys) z \<longleftrightarrow> seg c p xs (first ys z) \<and> seg c (final p xs) ys z"
  by (induction xs arbitrary: p) auto

lemma seg_other [simp]:
  "a \<notin> fst ` set avs \<Longrightarrow> seg (c(a := x)) p avs z = seg c p avs z"
  by (induction avs arbitrary: p) auto

lemma seg_set_next:
  assumes "seg c p xs z" and "distinct (map fst xs)" and "final None xs = Some a"
  shows "\<exists>n. c a = Some n \<and> seg (c(a \<mapsto> n\<lparr>nxt := z'\<rparr>)) p xs z'"
proof -
  obtain ys v where xs: "xs = ys @ [(a, v)]"
    using assms(3) by (cases xs rule: rev_cases) auto
  then show ?thesis using assms(1,2) by auto
qed

lemma seg_set_prev:
  assumes "seg c p ys z" and "distinct (map fst ys)" and "first ys None = Some a"
  shows "\<exists>n. c a = Some n \<and> seg (c(a \<mapsto> n\<lparr>prev := p'\<rparr>)) p' ys z"
proof -
  obtain zs v where "ys = (a, v) # zs"
    using assms(3) by (cases ys) (auto split: prod.splits)
  then show ?thesis using assms(1,2) by auto
qed

section \<open>The list invariant\<close>

definition is_llist :: "'a heap \<times> llist \<Rightarrow> (nat \<times> 'a) list \<Rightarrow> bool" where
  "is_llist = (\<lambda>(hp, l) avs.
     seg (cells hp) None avs None \<and> distinct (map fst avs) \<and>
     head l = first avs None \<and> tail l = final None avs \<and> lsize l = length avs \<and>
     (\<forall>a \<in> dom (cells hp). a < brk hp))"

text \<open>The operations of one list leave the cells of other lists alone.\<close>

definition same_elsewhere :: "nat set \<Rightarrow> 'a heap \<Rightarrow> 'a heap \<Rightarrow> bool" where
  "same_elsewhere as hp hp' \<longleftrightarrow> (\<forall>a. a \<notin> as \<longrightarrow> a < brk hp \<longrightarrow> cells hp' a = cells hp a)"

lemma is_llist_cell:
  "is_llist (hp, l) (xs @ (a, v) # ys) \<Longrightarrow>
   cells hp a = Some \<lparr>ptr = v, prev = final None xs, nxt = first ys None\<rparr>"
  unfolding is_llist_def by auto

lemma is_llist_init: "(\<forall>a \<in> dom (cells hp). a < brk hp) \<Longrightarrow> is_llist (hp, llist_init d) []"
  unfolding is_llist_def llist_init_def by simp

lemma is_llist_fresh: "is_llist (hp, l) avs \<Longrightarrow> brk hp \<notin> fst ` set avs"
proof
  assume inv: "is_llist (hp, l) avs" and "brk hp \<in> fst ` set avs"
  then obtain xs v ys where "avs = xs @ (brk hp, v) # ys"
    by (auto dest: split_list)
  then have "brk hp \<in> dom (cells hp)" using inv is_llist_cell [of hp l xs "brk hp" v ys] by auto
  then show False using inv unfolding is_llist_def by auto
qed

text \<open>Inserting after an element, at the tail when no element is given.\<close>

lemma insert_next_at:
  assumes inv: "is_llist (hp, l) (xs @ (a, v) # ys)"
  shows "\<exists>hp' l'. llist_insert_next (Some a) p (hp, l) = Some (hp', l') \<and>
    is_llist (hp', l') (xs @ (a, v) # (brk hp, p) # ys) \<and> destroyed hp' = destroyed hp \<and>
    has_dtor l' = has_dtor l \<and> same_elsewhere (fst ` set (xs @ (a, v) # ys)) hp hp'"
proof -
  have fresh: "brk hp \<notin> fst ` set xs" "brk hp \<notin> fst ` set ys" "brk hp \<noteq> a"
    using is_llist_fresh [OF inv] by (auto simp: image_Un)
  note cell = is_llist_cell [OF inv]
  have lt: "cells hp x = Some n \<Longrightarrow> x < brk hp" for x n
    using inv by (auto simp: is_llist_def)
  have s: "seg (cells hp) None xs (Some a)" "seg (cells hp) (Some a) ys None"
    "distinct (map fst (xs @ (a, v) # ys))"
    using inv unfolding is_llist_def by auto
  show ?thesis
  proof (cases ys)
    case Nil
    then show ?thesis
      using inv s fresh cell
      unfolding llist_insert_next_def is_llist_def same_elsewhere_def
      by (auto simp: Let_def deref_def upd_def new_cell_def less_Suc_eq dest: lt)
  next
    case (Cons y ys')
    obtain b w where y: "y = (b, w)" by force
    have "cells hp b = Some \<lparr>ptr = w, prev = Some a, nxt = first ys' None\<rparr>" using s(2) Cons y by simp
    then show ?thesis
      using inv s fresh cell
      unfolding llist_insert_next_def is_llist_def same_elsewhere_def Cons y
      by (auto simp: Let_def deref_def upd_def new_cell_def less_Suc_eq dest: lt)
  qed
qed

lemma insert_next_empty:
  assumes inv: "is_llist (hp, l) []"
  shows "\<exists>hp' l'. llist_insert_next e p (hp, l) = Some (hp', l') \<and>
    is_llist (hp', l') [(brk hp, p)] \<and> destroyed hp' = destroyed hp \<and>
    has_dtor l' = has_dtor l \<and> same_elsewhere {} hp hp'"
  using inv unfolding llist_insert_next_def is_llist_def same_elsewhere_def
  by (auto simp: Let_def new_cell_def less_Suc_eq)

lemma insert_prev_empty:
  assumes inv: "is_llist (hp, l) []"
  shows "\<exists>hp' l'. llist_insert_prev e p (hp, l) = Some (hp', l') \<and>
    is_llist (hp', l') [(brk hp, p)] \<and> destroyed hp' = destroyed hp \<and>
    has_dtor l' = has_dtor l \<and> same_elsewhere {} hp hp'"
  using inv unfolding llist_insert_prev_def is_llist_def same_elsewhere_def
  by (auto simp: Let_def new_cell_def less_Suc_eq)

text \<open>Inserting before an element.\<close>

lemma insert_prev_at:
  assumes inv: "is_llist (hp, l) (xs @ (a, v) # ys)"
  shows "\<exists>hp' l'. llist_insert_prev (Some a) p (hp, l) = Some (hp', l') \<and>
    is_llist (hp', l') (xs @ (brk hp, p) # (a, v) # ys) \<and> destroyed hp' = destroyed hp \<and>
    has_dtor l' = has_dtor l \<and> same_elsewhere (fst ` set (xs @ (a, v) # ys)) hp hp'"
proof -
  have fresh: "brk hp \<notin> fst ` set xs" "brk hp \<notin> fst ` set ys" "brk hp \<noteq> a"
    using is_llist_fresh [OF inv] by (auto simp: image_Un)
  note cell = is_llist_cell [OF inv]
  have lt: "cells hp x = Some n \<Longrightarrow> x < brk hp" for x n
    using inv by (auto simp: is_llist_def)
  have s: "seg (cells hp) None xs (Some a)" "seg (cells hp) (Some a) ys None"
    "distinct (map fst (xs @ (a, v) # ys))"
    using inv unfolding is_llist_def by auto
  show ?thesis
  proof (cases xs rule: rev_cases)
    case Nil
    then show ?thesis
      using inv s fresh cell
      unfolding llist_insert_prev_def is_llist_def same_elsewhere_def
      by (auto simp: Let_def deref_def upd_def new_cell_def less_Suc_eq dest: lt)
  next
    case (snoc xs' x)
    obtain b w where x: "x = (b, w)" by force
    have "cells hp b = Some \<lparr>ptr = w, prev = final None xs', nxt = Some a\<rparr>"
      using s(1) snoc x by simp
    then show ?thesis
      using inv s fresh cell
      unfolding llist_insert_prev_def is_llist_def same_elsewhere_def snoc x
      by (auto simp: Let_def deref_def upd_def new_cell_def less_Suc_eq dest: lt)
  qed
qed

text \<open>Removing an element gives its value to the destructor and frees its cell only.\<close>

lemma remove_at:
  assumes inv: "is_llist (hp, l) (xs @ (a, v) # ys)"
  shows "\<exists>hp' l'. llist_remove (Some a) (hp, l) = Some (hp', l') \<and>
    is_llist (hp', l') (xs @ ys) \<and>
    destroyed hp' = (if has_dtor l then destroyed hp @ [v] else destroyed hp) \<and>
    has_dtor l' = has_dtor l \<and> cells hp' a = None \<and> brk hp' = brk hp \<and>
    same_elsewhere (fst ` set (xs @ (a, v) # ys)) hp hp'"
proof -
  note cell = is_llist_cell [OF inv]
  have lt: "cells hp x = Some n \<Longrightarrow> x < brk hp" for x n
    using inv by (auto simp: is_llist_def)
  have s: "seg (cells hp) None xs (Some a)" "seg (cells hp) (Some a) ys None"
    "distinct (map fst (xs @ (a, v) # ys))"
    using inv unfolding is_llist_def by auto
  have ycell: "ys = [] \<or> (\<exists>b w ys'. ys = (b, w) # ys' \<and>
      cells hp b = Some \<lparr>ptr = w, prev = Some a, nxt = first ys' None\<rparr>)"
    using s(2) by (cases ys) auto
  show ?thesis
  proof (cases xs rule: rev_cases)
    case Nil
    then show ?thesis
      using inv s cell ycell
      unfolding llist_remove_def is_llist_def same_elsewhere_def
      by (auto simp: Let_def deref_def upd_def dest: lt split: if_splits)
  next
    case (snoc xs' x)
    obtain b w where x: "x = (b, w)" by force
    have xcell: "cells hp b = Some \<lparr>ptr = w, prev = final None xs', nxt = Some a\<rparr>"
      using s(1) snoc x by simp
    have "head l = first (xs' @ [(b, w)]) None" "head l \<noteq> Some a"
      using inv s(3) unfolding snoc x is_llist_def by (cases xs'; auto)+
    then show ?thesis
      using inv s cell ycell xcell
      unfolding llist_remove_def is_llist_def same_elsewhere_def snoc x
      by (auto simp: Let_def deref_def upd_def dest: lt split: if_splits)
  qed
qed

section \<open>Walking and emptying\<close>

lemma walk_next:
  "seg (cells hp) p avs None \<Longrightarrow>
   walk nxt hp n (first avs None) =
     (if n < length avs then Some (Some (fst (avs ! n)))
      else if n = length avs then Some None else None)"
proof (induction n arbitrary: avs p)
  case 0
  then show ?case by (cases avs) auto
next
  case (Suc n)
  then show ?case by (cases avs) (auto simp: deref_def)
qed

lemma walk_prev:
  "seg (cells hp) None avs z \<Longrightarrow>
   walk prev hp n (final None avs) =
     (if n < length avs then Some (Some (fst (rev avs ! n)))
      else if n = length avs then Some None else None)"
proof (induction n arbitrary: avs z)
  case 0
  then show ?case by (cases avs rule: rev_cases) auto
next
  case (Suc n)
  then show ?case by (cases avs rule: rev_cases) (auto simp: deref_def)
qed

lemma llist_empty_ok:
  assumes "is_llist (hp, l) avs"
  shows "\<exists>hp' l'. llist_empty (hp, l) = Some (hp', l') \<and> is_llist (hp', l') [] \<and>
    destroyed hp' = (if has_dtor l then destroyed hp @ map snd (rev avs) else destroyed hp) \<and>
    has_dtor l' = has_dtor l \<and> (\<forall>a \<in> fst ` set avs. cells hp' a = None) \<and> brk hp' = brk hp \<and>
    same_elsewhere (fst ` set avs) hp hp'"
  using assms
proof (induction avs arbitrary: hp l rule: rev_induct)
  case Nil
  then show ?case
    by (subst llist_empty.simps)
       (auto simp: is_llist_def llist_count_def same_elsewhere_def)
next
  case (snoc av avs)
  obtain a v where av: "av = (a, v)" by force
  have tl: "tail l = Some a" "0 < lsize l"
    using snoc.prems by (auto simp: is_llist_def av)
  obtain hp1 l1 where r: "llist_remove (Some a) (hp, l) = Some (hp1, l1)" "is_llist (hp1, l1) avs"
    "destroyed hp1 = (if has_dtor l then destroyed hp @ [v] else destroyed hp)"
    "has_dtor l1 = has_dtor l" "cells hp1 a = None" "brk hp1 = brk hp"
    "same_elsewhere (fst ` set (avs @ [av])) hp hp1"
    using remove_at [of hp l avs a v "[]"] snoc.prems by (auto simp: av)
  obtain hp2 l2 where e: "llist_empty (hp1, l1) = Some (hp2, l2)" "is_llist (hp2, l2) []"
    "destroyed hp2 = (if has_dtor l1 then destroyed hp1 @ map snd (rev avs) else destroyed hp1)"
    "has_dtor l2 = has_dtor l1" "\<forall>a \<in> fst ` set avs. cells hp2 a = None" "brk hp2 = brk hp1"
    "same_elsewhere (fst ` set avs) hp1 hp2"
    using snoc.IH [OF r(2)] by blast
  have a: "a < brk hp" "a \<notin> fst ` set avs"
    using snoc.prems by (auto simp: is_llist_def av)
  have "cells hp2 a = None" using e(7) a r(5,6) unfolding same_elsewhere_def by simp
  moreover have "same_elsewhere (fst ` set (avs @ [av])) hp hp2"
    using e(7) r(6,7) unfolding same_elsewhere_def by auto
  moreover have "llist_empty (hp, l) = Some (hp2, l2)"
    using tl r(1) e(1) by (subst llist_empty.simps) (simp add: llist_count_def)
  ultimately show ?case
    using e r by (auto simp: av)
qed

section \<open>The list as a stack\<close>

text \<open>What the clients that use a list as a stack or a queue rely on.\<close>

locale value_stack =
  fixes holds :: "'s \<Rightarrow> 'a list \<Rightarrow> bool"
    and push_back :: "'a \<Rightarrow> 's \<Rightarrow> 's option"
    and pop_back :: "'s \<Rightarrow> 's option"
    and clear :: "'s \<Rightarrow> 's option"
  assumes push: "holds s vs \<Longrightarrow> \<exists>s'. push_back v s = Some s' \<and> holds s' (vs @ [v])"
    and pop: "holds s (vs @ [v]) \<Longrightarrow> \<exists>s'. pop_back s = Some s' \<and> holds s' vs"
    and clear: "holds s vs \<Longrightarrow> \<exists>s'. clear s = Some s' \<and> holds s' []"
begin

fun push_all :: "'a list \<Rightarrow> 's \<Rightarrow> 's option" where
  "push_all [] s = Some s"
| "push_all (v # vs) s = Option.bind (push_back v s) (push_all vs)"

fun pop_n :: "nat \<Rightarrow> 's \<Rightarrow> 's option" where
  "pop_n 0 s = Some s"
| "pop_n (Suc n) s = Option.bind (pop_back s) (pop_n n)"

lemma push_all_holds: "holds s us \<Longrightarrow> \<exists>s'. push_all vs s = Some s' \<and> holds s' (us @ vs)"
proof (induction vs arbitrary: s us)
  case (Cons v vs)
  obtain s1 where "push_back v s = Some s1" "holds s1 (us @ [v])"
    using push [OF Cons.prems, of v] by blast
  then show ?case using Cons.IH [of s1 "us @ [v]"] by simp
qed simp

lemma pop_n_holds: "holds s (us @ vs) \<Longrightarrow> \<exists>s'. pop_n (length vs) s = Some s' \<and> holds s' us"
proof (induction vs arbitrary: s rule: rev_induct)
  case (snoc v vs)
  obtain s1 where "pop_back s = Some s1" "holds s1 (us @ vs)"
    using pop [of s "us @ vs" v] snoc.prems by auto
  then show ?case using snoc.IH [of s1] by simp
qed simp

lemma push_pop_balanced:
  "holds s us \<Longrightarrow> \<exists>s1 s2. push_all vs s = Some s1 \<and> pop_n (length vs) s1 = Some s2 \<and> holds s2 us"
  using push_all_holds pop_n_holds by metis

end

definition list_holds :: "'a heap \<times> llist \<Rightarrow> 'a list \<Rightarrow> bool" where
  "list_holds s vs \<longleftrightarrow> (\<exists>avs. is_llist s avs \<and> map snd avs = vs)"

definition push_tail :: "'a \<Rightarrow> 'a heap \<times> llist \<Rightarrow> ('a heap \<times> llist) option" where
  "push_tail v s = llist_insert_next (tail (snd s)) v s"

definition pop_tail :: "'a heap \<times> llist \<Rightarrow> ('a heap \<times> llist) option" where
  "pop_tail s = llist_remove (tail (snd s)) s"

lemma push_tail_ok:
  assumes "is_llist (hp, l) avs"
  shows "\<exists>s'. push_tail v (hp, l) = Some s' \<and> is_llist s' (avs @ [(brk hp, v)])"
proof (cases avs rule: rev_cases)
  case Nil
  then show ?thesis using insert_next_empty [of hp l "tail l" v] assms by (auto simp: push_tail_def)
next
  case (snoc xs av)
  obtain a w where av: "av = (a, w)" by force
  then have "tail l = Some a" using assms snoc by (simp add: is_llist_def)
  then show ?thesis
    using insert_next_at [of hp l xs a w "[]" v] assms snoc av by (auto simp: push_tail_def)
qed

interpretation stk: value_stack list_holds push_tail pop_tail llist_empty
proof
  fix s :: "'a heap \<times> llist" and vs v
  assume "list_holds s vs"
  then obtain avs where "is_llist s avs" "map snd avs = vs" by (auto simp: list_holds_def)
  then show "\<exists>s'. push_tail v s = Some s' \<and> list_holds s' (vs @ [v])"
    using push_tail_ok [of "fst s" "snd s" avs v] unfolding list_holds_def
    by (metis (no_types, lifting) list.simps(8,9) map_append prod.collapse snd_conv)
next
  fix s :: "'a heap \<times> llist" and vs v
  assume "list_holds s (vs @ [v])"
  then obtain avs where avs: "is_llist s avs" "map snd avs = vs @ [v]" by (auto simp: list_holds_def)
  then obtain xs a where xs: "avs = xs @ [(a, v)]" "map snd xs = vs"
    by (auto simp: map_eq_append_conv)
  then have "tail (snd s) = Some a" using avs(1) by (auto simp: is_llist_def case_prod_beta)
  then show "\<exists>s'. pop_tail s = Some s' \<and> list_holds s' vs"
    using remove_at [of "fst s" "snd s" xs a v "[]"] avs(1) xs
    by (auto simp: pop_tail_def list_holds_def)
next
  fix s :: "'a heap \<times> llist" and vs
  assume "list_holds s vs"
  then obtain avs where "is_llist (fst s, snd s) avs" by (auto simp: list_holds_def)
  then obtain hp' l' where "llist_empty s = Some (hp', l')" "is_llist (hp', l') []"
    using llist_empty_ok by fastforce
  then show "\<exists>s'. llist_empty s = Some s' \<and> list_holds s' []"
    by (auto simp: list_holds_def)
qed

section \<open>Properties\<close>

text \<open>Inserting after or before an element and removing an element do exactly this to the list: they
  never touch NULL or freed memory, keep head, tail, links and size consistent, give a removed value to
  the destructor once, and leave every cell of other lists unchanged.\<close>

lemma llist_edit_exact:
  assumes "is_llist (hp, l) (xs @ (a, v) # ys)"
  shows "\<exists>s1 s2 s3.
    llist_insert_next (Some a) p (hp, l) = Some s1 \<and> is_llist s1 (xs @ (a, v) # (brk hp, p) # ys) \<and>
    llist_insert_prev (Some a) p (hp, l) = Some s2 \<and> is_llist s2 (xs @ (brk hp, p) # (a, v) # ys) \<and>
    llist_remove (Some a) (hp, l) = Some s3 \<and> is_llist s3 (xs @ ys) \<and>
    destroyed (fst s3) = (if has_dtor l then destroyed hp @ [v] else destroyed hp) \<and>
    (\<forall>s. s = s1 \<or> s = s2 \<or> s = s3 \<longrightarrow> same_elsewhere (fst ` set (xs @ (a, v) # ys)) hp (fst s))"
  using insert_next_at [OF assms, of p] insert_prev_at [OF assms, of p] remove_at [OF assms]
  by (metis fst_conv)

definition example_heap :: "nat heap \<times> llist" where
  "example_heap =
     (\<lparr>cells = [0 \<mapsto> \<lparr>ptr = 10, prev = None, nxt = Some 1\<rparr>, 1 \<mapsto> \<lparr>ptr = 11, prev = Some 0, nxt = None\<rparr>],
       brk = 2, destroyed = []\<rparr>,
      \<lparr>head = Some 0, tail = Some 1, has_dtor = True, lsize = 2\<rparr>)"

lemma example_heap_ok: "is_llist example_heap [(0, 10), (1, 11)]"
  by (auto simp: is_llist_def example_heap_def split: if_splits)

lemma llist_edit_exact_witness:
  "\<exists>s3. llist_remove (Some 0) example_heap = Some s3 \<and> is_llist s3 [(1, 11)] \<and>
     destroyed (fst s3) = [10]"
  using llist_edit_exact [of "fst example_heap" "snd example_heap" "[]" 0 10 "[(1, 11)]" 7]
    example_heap_ok
  by (auto simp: example_heap_def)

text \<open>Emptying a list returns: it removes every element from the tail on, frees all their cells,
  gives every value to the destructor exactly once, last to first, and touches no other cell.\<close>

lemma llist_empty_exact:
  assumes "is_llist (hp, l) avs"
  shows "\<exists>hp' l'. llist_empty (hp, l) = Some (hp', l') \<and> is_llist (hp', l') [] \<and>
    destroyed hp' = (if has_dtor l then destroyed hp @ map snd (rev avs) else destroyed hp) \<and>
    (\<forall>a \<in> fst ` set avs. cells hp' a = None) \<and> same_elsewhere (fst ` set avs) hp hp'"
  using llist_empty_ok [OF assms] by blast

lemma llist_empty_exact_witness:
  "\<exists>hp' l'. llist_empty example_heap = Some (hp', l') \<and> destroyed hp' = [11, 10] \<and>
     cells hp' 0 = None \<and> cells hp' 1 = None"
  using llist_empty_exact [of "fst example_heap" "snd example_heap" "[(0, 10), (1, 11)]"]
    example_heap_ok
  by (auto simp: example_heap_def)

text \<open>Jumping to a position from the head or the tail gives the element there, NULL one past the end,
  and walks through NULL further out.\<close>

lemma llist_jump_exact:
  assumes "is_llist (hp, l) avs"
  shows "llist_jump LIST_HEAD pos (hp, l) =
      (if nat pos < length avs then Some (Some (fst (avs ! nat pos)))
       else if nat pos = length avs then Some None else None) \<and>
    llist_jump LIST_TAIL pos (hp, l) =
      (if nat pos < length avs then Some (Some (fst (rev avs ! nat pos)))
       else if nat pos = length avs then Some None else None)"
  using assms walk_next [of hp None avs "nat pos"] walk_prev [of hp avs None "nat pos"]
  unfolding llist_jump_def LIST_HEAD_def LIST_TAIL_def is_llist_def by auto

lemma llist_jump_exact_witness:
  "llist_jump LIST_HEAD 1 example_heap = Some (Some 1) \<and>
   llist_jump LIST_TAIL 1 example_heap = Some (Some 0) \<and> llist_jump LIST_HEAD 3 example_heap = None"
  using llist_jump_exact [of "fst example_heap" "snd example_heap" "[(0, 10), (1, 11)]" 1]
    llist_jump_exact [of "fst example_heap" "snd example_heap" "[(0, 10), (1, 11)]" 3]
    example_heap_ok
  by simp

end
