(* ===== verification/Hash.thy ===== *)
theory Hash
  imports Prelude "HOL-Library.AList" "HOL-Library.Multiset" "HOL-Library.Monad_Syntax"
begin

unbundle bit_operations_syntax

text \<open>
  The hash table \<open>xdebug_hash.c\<close> of the trace extension. Each slot's \<open>xdebug_llist\<close> is the list of its
  values in list order (theory \<open>Llist\<close> shows that the linked list behaves as this list); an element is
  a key with a value, the values given to the table's destructor are logged in \<open>hdestroyed\<close>. A string
  key is the list of its \<open>len\<close> bytes. Comparing two empty string keys reads the first byte of a
  zero-sized allocation, which is the fault \<open>None\<close>.
\<close>

section \<open>Data\<close>

datatype hkey = Key_string string | Key_num u64

type_synonym 'v hash_element = "hkey \<times> 'v"

record 'v xhash =
  table :: "'v hash_element list list"
  hash_dtor :: bool
  sorter :: "('v hash_element \<Rightarrow> 'v hash_element \<Rightarrow> int) option"
  slots :: nat
  hsize :: nat
  hdestroyed :: "'v list"

section \<open>Hashing and keys\<close>

definition hash_str :: "string \<Rightarrow> u64" where
  "hash_str key = foldl (\<lambda>h c. (h + push_bit 5 h) XOR word_of_int (schar c)) 5381 key"

definition hash_num :: "u64 \<Rightarrow> u64" where
  "hash_num key =
     (let key = key + NOT (push_bit 15 key);
          key = key XOR drop_bit 10 key;
          key = key + push_bit 3 key;
          key = key XOR drop_bit 6 key;
          key = key + push_bit 11 key
      in key XOR drop_bit 16 key)"

definition find_slot :: "nat \<Rightarrow> hkey \<Rightarrow> nat" where
  "find_slot n k = unat (case k of Key_string s \<Rightarrow> hash_str s | Key_num i \<Rightarrow> hash_num i) mod n"

definition key_create :: "string option \<Rightarrow> u64 \<Rightarrow> hkey" where
  "key_create s_key n_key = (case s_key of Some s \<Rightarrow> Key_string s | None \<Rightarrow> Key_num n_key)"

text \<open>\<open>xdebug_hash_key_to_str\<close>: a copy of the bytes and their number.\<close>

definition key_to_str :: "hkey \<Rightarrow> (string \<times> nat) option" where
  "key_to_str k = (case k of Key_string s \<Rightarrow> Some (s, length s) | Key_num _ \<Rightarrow> None)"

definition key_compare :: "hkey \<Rightarrow> hkey \<Rightarrow> bool option" where
  "key_compare k1 k2 =
     (case k1 of
        Key_num n1 \<Rightarrow> (case k2 of Key_string _ \<Rightarrow> Some False | Key_num n2 \<Rightarrow> Some (n1 = n2))
      | Key_string s1 \<Rightarrow>
          (case k2 of
             Key_num _ \<Rightarrow> Some False
           | Key_string s2 \<Rightarrow>
               if length s1 \<noteq> length s2 then Some False
               else if s1 = [] then None
               else Some (hd s1 = hd s2 \<and> s1 = s2)))"

section \<open>Operations\<close>

definition hash_alloc :: "nat \<Rightarrow> bool \<Rightarrow> 'v xhash" where
  "hash_alloc n dtor =
     \<lparr>table = replicate n [], hash_dtor = dtor, sorter = None, slots = n, hsize = 0,
      hdestroyed = []\<rparr>"

definition hash_alloc_with_sort ::
  "nat \<Rightarrow> bool \<Rightarrow> ('v hash_element \<Rightarrow> 'v hash_element \<Rightarrow> int) \<Rightarrow> 'v xhash" where
  "hash_alloc_with_sort n dtor srt = (hash_alloc n dtor)\<lparr>sorter := Some srt\<rparr>"

text \<open>The scan of a slot's list from the head: the position of the first equal key.\<close>

fun scan :: "hkey \<Rightarrow> 'v hash_element list \<Rightarrow> nat \<Rightarrow> nat option option" where
  "scan k [] i = Some None"
| "scan k (e # es) i =
     do { eq \<leftarrow> key_compare k (fst e); if eq then Some (Some i) else scan k es (Suc i) }"

definition destroy_val :: "'v \<Rightarrow> 'v xhash \<Rightarrow> 'v xhash" where
  "destroy_val v h = (if hash_dtor h then h\<lparr>hdestroyed := hdestroyed h @ [v]\<rparr> else h)"

definition hash_add_or_update :: "hkey \<Rightarrow> 'v \<Rightarrow> 'v xhash \<Rightarrow> 'v xhash option" where
  "hash_add_or_update k p h =
     (let slot = find_slot (slots h) k; l = table h ! slot
      in do {
        found \<leftarrow> scan k l 0;
        (case found of
           Some i \<Rightarrow>
             Some ((destroy_val (snd (l ! i)) h)
                     \<lparr>table := (table h)[slot := l[i := (fst (l ! i), p)]]\<rparr>)
         | None \<Rightarrow>
             Some (h\<lparr>table := (table h)[slot := l @ [(k, p)]], hsize := hsize h + 1\<rparr>))
      })"

definition hash_extended_delete :: "hkey \<Rightarrow> 'v xhash \<Rightarrow> (bool \<times> 'v xhash) option" where
  "hash_extended_delete k h =
     (let slot = find_slot (slots h) k; l = table h ! slot
      in do {
        found \<leftarrow> scan k l 0;
        (case found of
           Some i \<Rightarrow>
             Some (True, (destroy_val (snd (l ! i)) h)
                     \<lparr>table := (table h)[slot := take i l @ drop (Suc i) l], hsize := hsize h - 1\<rparr>)
         | None \<Rightarrow> Some (False, h))
      })"

definition hash_extended_find :: "hkey \<Rightarrow> 'v xhash \<Rightarrow> 'v option option" where
  "hash_extended_find k h =
     (let l = table h ! find_slot (slots h) k
      in do {
        found \<leftarrow> scan k l 0;
        Some (case found of Some i \<Rightarrow> Some (snd (l ! i)) | None \<Rightarrow> None)
      })"

definition hash_apply :: "('s \<Rightarrow> 'v hash_element \<Rightarrow> 's) \<Rightarrow> 'v xhash \<Rightarrow> 's \<Rightarrow> 's" where
  "hash_apply cb h s = foldl (\<lambda>s l. foldl cb s l) s (take (slots h) (table h))"

text \<open>With a sorter the elements are copied in slot order and sorted by \<open>qsort\<close> first.\<close>

definition hash_apply_with_argument ::
  "(('v hash_element \<Rightarrow> 'v hash_element \<Rightarrow> int) \<Rightarrow> 'v hash_element list \<Rightarrow> 'v hash_element list)
    \<Rightarrow> ('s \<Rightarrow> 'v hash_element \<Rightarrow> 'a \<Rightarrow> 's) \<Rightarrow> 'a \<Rightarrow> 'v xhash \<Rightarrow> 's \<Rightarrow> 's" where
  "hash_apply_with_argument qsort cb arg h s =
     (case sorter h of
        Some cmp \<Rightarrow> foldl (\<lambda>s e. cb s e arg) s (qsort cmp (concat (take (slots h) (table h))))
      | None \<Rightarrow> foldl (\<lambda>s l. foldl (\<lambda>s e. cb s e arg) s l) s (take (slots h) (table h)))"

text \<open>Every list is destroyed from its tail on.\<close>

definition hash_destroy :: "'v xhash \<Rightarrow> 'v list" where
  "hash_destroy h =
     hdestroyed h @
       (if hash_dtor h then concat (map (\<lambda>l. map snd (rev l)) (take (slots h) (table h))) else [])"

section \<open>Invariant and abstraction\<close>

definition key_ok :: "hkey \<Rightarrow> bool" where
  "key_ok k \<longleftrightarrow> k \<noteq> Key_string []"

definition slot_ok :: "nat \<Rightarrow> nat \<Rightarrow> 'v hash_element list \<Rightarrow> bool" where
  "slot_ok n i l \<longleftrightarrow> distinct (map fst l) \<and> (\<forall>e \<in> set l. key_ok (fst e) \<and> find_slot n (fst e) = i)"

definition hash_inv :: "'v xhash \<Rightarrow> bool" where
  "hash_inv h \<longleftrightarrow>
     0 < slots h \<and> length (table h) = slots h \<and> (\<forall>i < slots h. slot_ok (slots h) i (table h ! i)) \<and>
     hsize h = length (concat (table h))"

definition abs_hash :: "'v xhash \<Rightarrow> hkey \<Rightarrow> 'v option" where
  "abs_hash h k = map_of (table h ! find_slot (slots h) k) k"

definition live :: "'v xhash \<Rightarrow> 'v multiset" where
  "live h = mset (map snd (concat (table h)))"

lemma key_compare_ok: "key_ok k1 \<Longrightarrow> key_compare k1 k2 = Some (k1 = k2)"
  unfolding key_compare_def key_ok_def by (auto split: hkey.splits)

lemma find_slot_less: "0 < n \<Longrightarrow> find_slot n k < n"
  unfolding find_slot_def by simp

lemma scan_ok:
  assumes "key_ok k"
  shows "scan k l j = Some (if k \<in> fst ` set l then Some (j + length (takeWhile (\<lambda>e. fst e \<noteq> k) l)) else None)"
  using assms by (induction l arbitrary: j) (auto simp: key_compare_ok)

lemma scan_cases:
  assumes "key_ok k" and "scan k l 0 = Some r"
  shows "(r = None \<and> k \<notin> fst ` set l) \<or>
    (\<exists>xs v ys. r = Some (length xs) \<and> l = xs @ (k, v) # ys \<and> k \<notin> fst ` set xs)"
proof (cases "k \<in> fst ` set l")
  case True
  then obtain v where "(k, v) \<in> set l" by auto
  define xs where "xs = takeWhile (\<lambda>e. fst e \<noteq> k) l"
  have "dropWhile (\<lambda>e. fst e \<noteq> k) l \<noteq> []" using \<open>(k, v) \<in> set l\<close> by force
  then obtain e ys where ys: "dropWhile (\<lambda>e. fst e \<noteq> k) l = e # ys" by (cases "dropWhile (\<lambda>e. fst e \<noteq> k) l") auto
  then have "fst e = k" by (metis (mono_tags) hd_dropWhile list.distinct(1) list.sel(1))
  moreover have "l = xs @ e # ys" using ys unfolding xs_def by (metis takeWhile_dropWhile_id)
  moreover have "k \<notin> fst ` set xs" unfolding xs_def by (auto dest: set_takeWhileD)
  moreover have "r = Some (length xs)" using assms True by (simp add: scan_ok xs_def)
  ultimately show ?thesis by (metis prod.collapse)
qed (use assms in \<open>simp add: scan_ok\<close>)

lemma scan_Some: "key_ok k \<Longrightarrow> \<exists>r. scan k l 0 = Some r"
  by (simp add: scan_ok)

lemma length_concat_update:
  "i < length ls \<Longrightarrow> length (concat (ls[i := l])) + length (ls ! i) = length (concat ls) + length l"
proof (induction ls arbitrary: i)
  case (Cons x xs)
  then show ?case by (cases i) auto
qed simp

lemma live_update:
  "i < length ls \<Longrightarrow>
   mset (map snd (concat (ls[i := l]))) + mset (map snd (ls ! i)) = mset (map snd (concat ls)) + mset (map snd l)"
proof (induction ls arbitrary: i)
  case (Cons x xs)
  then show ?case by (cases i) (auto simp: algebra_simps)
qed simp

section \<open>What the operations do\<close>

lemma destroy_val_simps [simp]:
  "table (destroy_val v h) = table h" "slots (destroy_val v h) = slots h"
  "hsize (destroy_val v h) = hsize h" "hash_dtor (destroy_val v h) = hash_dtor h"
  "sorter (destroy_val v h) = sorter h"
  "hdestroyed (destroy_val v h) = hdestroyed h @ (if hash_dtor h then [v] else [])"
  unfolding destroy_val_def by auto

lemma map_of_middle:
  "k \<notin> fst ` set xs \<Longrightarrow> map_of (xs @ (k, v) # ys) k = Some v"
  "x \<noteq> k \<Longrightarrow> map_of (xs @ (k, v) # ys) x = map_of (xs @ ys) x"
  by (auto simp: map_add_def map_of_eq_None_iff [symmetric] split: option.splits)

lemma map_add_middle [simp]:
  "k \<notin> fst ` set xs \<Longrightarrow> (m(k \<mapsto> v) ++ map_of xs) k = Some v"
  by (simp add: map_add_def map_of_eq_None_iff [symmetric])

lemma abs_hash_update:
  assumes "s = find_slot (slots h) k" and "s < length (table h)" and "table h' = (table h)[s := l]"
    and "slots h' = slots h" and "\<And>x. x \<noteq> k \<Longrightarrow> map_of l x = map_of (table h ! s) x"
  shows "abs_hash h' = (abs_hash h)(k := map_of l k)"
proof
  fix x
  show "abs_hash h' x = ((abs_hash h)(k := map_of l k)) x"
    using assms by (cases "find_slot (slots h) x = s") (auto simp: abs_hash_def)
qed

lemma hash_inv_slot:
  assumes "hash_inv h" and "s < slots h" and "slot_ok (slots h) s l"
    and "table h' = (table h)[s := l]" and "slots h' = slots h"
    and "hsize h' + length (table h ! s) = hsize h + length l"
  shows "hash_inv h'"
proof -
  have "hsize h' = length (concat (table h'))"
    using length_concat_update [of s "table h" l] assms unfolding hash_inv_def by simp
  then show ?thesis using assms unfolding hash_inv_def by (auto simp: nth_list_update)
qed

lemma hash_add_or_update_ok:
  assumes inv: "hash_inv h" and k: "key_ok k"
  shows "\<exists>h'. hash_add_or_update k v h = Some h' \<and> hash_inv h' \<and> abs_hash h' = (abs_hash h)(k \<mapsto> v) \<and>
    (hash_dtor h \<longrightarrow> mset (hdestroyed h') + live h' = mset (hdestroyed h) + live h + {#v#}) \<and>
    hash_dtor h' = hash_dtor h \<and> slots h' = slots h"
proof -
  define s where "s = find_slot (slots h) k"
  define l where "l = table h ! s"
  have s: "s < slots h" "s < length (table h)" "\<And>k. find_slot (slots h) k < length (table h)"
    using inv find_slot_less unfolding hash_inv_def s_def by auto
  have ok: "slot_ok (slots h) s l" using inv s unfolding hash_inv_def l_def by simp
  obtain r where sc: "scan k l 0 = Some r" using scan_Some [OF k] by blast
  from scan_cases [OF k sc] show ?thesis
  proof (elim disjE exE conjE)
    assume r: "r = None" "k \<notin> fst ` set l"
    define h' where "h' = h\<lparr>table := (table h)[s := l @ [(k, v)]], hsize := hsize h + 1\<rparr>"
    have "hash_add_or_update k v h = Some h'"
      using sc r unfolding hash_add_or_update_def h'_def l_def s_def by (simp add: Let_def)
    moreover have "hash_inv h'"
      using ok r k by (intro hash_inv_slot [OF inv s(1)]) (auto simp: h'_def slot_ok_def l_def s_def)
    moreover have "abs_hash h' = (abs_hash h)(k \<mapsto> v)"
      using abs_hash_update [OF s_def s(2), of h' "l @ [(k, v)]"] map_of_middle [where k = k and xs = l and v = v and ys = "[]"] r
      by (simp add: h'_def l_def)
    moreover have "live h' = live h + {#v#}"
      using live_update [OF s(2), of "l @ [(k, v)]"] unfolding live_def h'_def l_def by simp
    ultimately show ?thesis by (auto simp: h'_def)
  next
    fix xs w ys
    assume r: "r = Some (length xs)" "l = xs @ (k, w) # ys" "k \<notin> fst ` set xs"
    define l' where "l' = xs @ (k, v) # ys"
    define h' where "h' = (destroy_val w h)\<lparr>table := (table h)[s := l']\<rparr>"
    have "hash_add_or_update k v h = Some h'"
      using sc r unfolding hash_add_or_update_def h'_def l'_def
      by (simp add: Let_def l_def [symmetric] s_def [symmetric])
    moreover have "hash_inv h'"
      using ok r k by (intro hash_inv_slot [OF inv s(1)]) (auto simp: h'_def l'_def slot_ok_def l_def [symmetric])
    moreover have "abs_hash h' = (abs_hash h)(k \<mapsto> v)"
      using abs_hash_update [OF s_def s(2), of h' l'] map_of_middle(1) [where k = k and xs = xs and v = v and ys = ys]
        map_of_middle(2) [where k = k and xs = xs and ys = ys] r by (simp add: h'_def l'_def l_def)
    moreover have "live h' + {#w#} = live h + {#v#}"
      using live_update [OF s(2), of l'] r(2) unfolding live_def h'_def l'_def
      by (simp add: l_def [symmetric])
    then have "hash_dtor h \<longrightarrow> mset (hdestroyed h') + live h' = mset (hdestroyed h) + live h + {#v#}"
      by (simp add: h'_def union_assoc union_commute)
    ultimately show ?thesis by (auto simp: h'_def)
  qed
qed

lemma hash_extended_find_ok:
  assumes inv: "hash_inv h" and k: "key_ok k"
  shows "hash_extended_find k h = Some (abs_hash h k)"
proof -
  obtain r where sc: "scan k (table h ! find_slot (slots h) k) 0 = Some r"
    using scan_Some [OF k] by blast
  from scan_cases [OF k this] sc show ?thesis
    unfolding hash_extended_find_def abs_hash_def
    by (auto simp: Let_def) (metis map_of_eq_None_iff)
qed

lemma hash_extended_delete_ok:
  assumes inv: "hash_inv h" and k: "key_ok k"
  shows "\<exists>h'. hash_extended_delete k h = Some (abs_hash h k \<noteq> None, h') \<and> hash_inv h' \<and>
    abs_hash h' = (abs_hash h)(k := None) \<and>
    (hash_dtor h \<longrightarrow> mset (hdestroyed h') + live h' = mset (hdestroyed h) + live h) \<and>
    hash_dtor h' = hash_dtor h \<and> slots h' = slots h"
proof -
  define s where "s = find_slot (slots h) k"
  define l where "l = table h ! s"
  have s: "s < slots h" "s < length (table h)"
    using inv find_slot_less unfolding hash_inv_def s_def by auto
  have ok: "slot_ok (slots h) s l" using inv s unfolding hash_inv_def l_def by simp
  obtain r where sc: "scan k l 0 = Some r" using scan_Some [OF k] by blast
  from scan_cases [OF k sc] show ?thesis
  proof (elim disjE exE conjE)
    assume r: "r = None" "k \<notin> fst ` set l"
    then have n: "abs_hash h k = None"
      unfolding abs_hash_def s_def [symmetric] l_def [symmetric] by (simp add: map_of_eq_None_iff)
    then have "hash_extended_delete k h = Some (False, h)"
      using sc r unfolding hash_extended_delete_def l_def s_def by (simp add: Let_def)
    then show ?thesis using n inv by (auto simp: fun_upd_idem)
  next
    fix xs w ys
    assume r: "r = Some (length xs)" "l = xs @ (k, w) # ys" "k \<notin> fst ` set xs"
    have yk: "k \<notin> fst ` set ys" using ok r(2) unfolding slot_ok_def by auto
    define h' where "h' = (destroy_val w h)\<lparr>table := (table h)[s := xs @ ys], hsize := hsize h - 1\<rparr>"
    have w: "abs_hash h k = Some w"
      unfolding abs_hash_def s_def [symmetric] l_def [symmetric]
      using r(2,3) by simp
    have "hash_extended_delete k h = Some (True, h')"
      using sc r unfolding hash_extended_delete_def h'_def
      by (simp add: Let_def l_def [symmetric] s_def [symmetric])
    moreover have "length l \<le> hsize h"
      using inv length_concat_update [OF s(2), of "[]"] unfolding hash_inv_def l_def by simp
    then have "hash_inv h'"
      using ok r by (intro hash_inv_slot [OF inv s(1)]) (auto simp: h'_def slot_ok_def l_def [symmetric])
    moreover have mN: "map_of (xs @ ys) k = None"
      unfolding map_of_eq_None_iff using r(3) yk by auto
    have "abs_hash h' = (abs_hash h)(k := map_of (xs @ ys) k)"
      using map_of_middle(2) [where k = k and xs = xs and ys = ys] r(2)
      by (intro abs_hash_update [OF s_def s(2)]) (simp_all add: h'_def l_def)
    then have "abs_hash h' = (abs_hash h)(k := None)" unfolding mN .
    moreover have "live h' + {#w#} = live h"
      using live_update [OF s(2), of "xs @ ys"] r(2) unfolding live_def h'_def
      by (simp add: l_def [symmetric])
    then have "hash_dtor h \<longrightarrow> mset (hdestroyed h') + live h' = mset (hdestroyed h) + live h"
      by (simp add: h'_def union_assoc union_commute)
    ultimately show ?thesis using w by (auto simp: h'_def)
  qed
qed

text \<open>What an operation gives to the destructor.\<close>

definition dropped :: "'v xhash \<Rightarrow> hkey \<Rightarrow> 'v list" where
  "dropped h k = (if hash_dtor h then (case abs_hash h k of None \<Rightarrow> [] | Some w \<Rightarrow> [w]) else [])"

lemma hash_add_dropped:
  assumes "key_ok k" and "hash_add_or_update k v h = Some h'"
  shows "hdestroyed h' = hdestroyed h @ dropped h k"
proof -
  define l where "l = table h ! find_slot (slots h) k"
  obtain r where sc: "scan k l 0 = Some r" using scan_Some [OF assms(1)] by blast
  from scan_cases [OF assms(1) sc] show ?thesis
  proof
    assume r: "r = None \<and> k \<notin> fst ` set l"
    then have "abs_hash h k = None" by (simp add: abs_hash_def map_of_eq_None_iff flip: l_def)
    then show ?thesis
      using assms(2) sc r unfolding hash_add_or_update_def Let_def l_def [symmetric]
      by (auto simp: dropped_def)
  next
    assume "\<exists>xs w ys. r = Some (length xs) \<and> l = xs @ (k, w) # ys \<and> k \<notin> fst ` set xs"
    then obtain xs w ys where r: "r = Some (length xs)" "l = xs @ (k, w) # ys" "k \<notin> fst ` set xs" by blast
    then have "map_of l k = Some w" by (simp add: map_add_def map_of_eq_None_iff [THEN iffD2])
    then show ?thesis
      using assms(2) sc r unfolding hash_add_or_update_def Let_def l_def [symmetric]
      by (auto simp: dropped_def abs_hash_def destroy_val_def simp flip: l_def)
  qed
qed

lemma hash_delete_dropped:
  assumes "key_ok k" and "hash_extended_delete k h = Some (b, h')"
  shows "hdestroyed h' = hdestroyed h @ dropped h k"
proof -
  define l where "l = table h ! find_slot (slots h) k"
  obtain r where sc: "scan k l 0 = Some r" using scan_Some [OF assms(1)] by blast
  from scan_cases [OF assms(1) sc] show ?thesis
  proof
    assume r: "r = None \<and> k \<notin> fst ` set l"
    then have "abs_hash h k = None" by (simp add: abs_hash_def map_of_eq_None_iff flip: l_def)
    then show ?thesis
      using assms(2) sc r unfolding hash_extended_delete_def Let_def l_def [symmetric]
      by (auto simp: dropped_def)
  next
    assume "\<exists>xs w ys. r = Some (length xs) \<and> l = xs @ (k, w) # ys \<and> k \<notin> fst ` set xs"
    then obtain xs w ys where r: "r = Some (length xs)" "l = xs @ (k, w) # ys" "k \<notin> fst ` set xs" by blast
    then have "map_of l k = Some w" by (simp add: map_add_def map_of_eq_None_iff [THEN iffD2])
    then show ?thesis
      using assms(2) sc r unfolding hash_extended_delete_def Let_def l_def [symmetric]
      by (auto simp: dropped_def abs_hash_def destroy_val_def simp flip: l_def)
  qed
qed

lemma hash_alloc_ok:
  "0 < n \<Longrightarrow> hash_inv (hash_alloc n d)" "0 < n \<Longrightarrow> abs_hash (hash_alloc n d) = Map.empty"
  "live (hash_alloc n d) = {#}"
  unfolding hash_inv_def hash_alloc_def slot_ok_def abs_hash_def live_def
  by (auto simp: find_slot_less fun_eq_iff)

lemma hash_alloc_simps [simp]:
  "hash_dtor (hash_alloc n d) = d" "hdestroyed (hash_alloc n d) = []" "slots (hash_alloc n d) = n"
  by (simp_all add: hash_alloc_def)

lemma hash_destroy_ok:
  "hash_inv h \<Longrightarrow> hash_dtor h \<Longrightarrow> mset (hash_destroy h) = mset (hdestroyed h) + live h"
proof -
  assume "hash_inv h" "hash_dtor h"
  then have "take (slots h) (table h) = table h" by (simp add: hash_inv_def)
  moreover have "mset (concat (map (\<lambda>l. map snd (rev l)) ls)) = mset (map snd (concat ls))"
    for ls :: "'a hash_element list list"
    by (induction ls) (simp_all flip: rev_map)
  ultimately show ?thesis using \<open>hash_dtor h\<close> unfolding hash_destroy_def live_def by simp
qed

section \<open>The table as a map\<close>

text \<open>The interface the other modules use, and what they rely on.\<close>

locale map_store =
  fixes inv :: "'s \<Rightarrow> bool"
    and ok :: "'k \<Rightarrow> bool"
    and abs :: "'s \<Rightarrow> 'k \<Rightarrow> 'v option"
    and add :: "'k \<Rightarrow> 'v \<Rightarrow> 's \<Rightarrow> 's option"
    and del :: "'k \<Rightarrow> 's \<Rightarrow> (bool \<times> 's) option"
    and find :: "'k \<Rightarrow> 's \<Rightarrow> 'v option option"
  assumes add: "inv s \<Longrightarrow> ok k \<Longrightarrow> \<exists>s'. add k v s = Some s' \<and> inv s' \<and> abs s' = (abs s)(k \<mapsto> v)"
    and del: "inv s \<Longrightarrow> ok k \<Longrightarrow>
      \<exists>s'. del k s = Some (abs s k \<noteq> None, s') \<and> inv s' \<and> abs s' = (abs s)(k := None)"
    and find: "inv s \<Longrightarrow> ok k \<Longrightarrow> find k s = Some (abs s k)"
begin

fun add_list :: "('k \<times> 'v) list \<Rightarrow> 's \<Rightarrow> 's option" where
  "add_list [] s = Some s"
| "add_list ((k, v) # kvs) s = Option.bind (add k v s) (add_list kvs)"

lemma add_list_abs:
  "inv s \<Longrightarrow> \<forall>kv \<in> set kvs. ok (fst kv) \<Longrightarrow>
   \<exists>s'. add_list kvs s = Some s' \<and> inv s' \<and> abs s' = abs s ++ map_of (rev kvs)"
proof (induction kvs arbitrary: s)
  case (Cons kv kvs)
  obtain k v where kv: "kv = (k, v)" by force
  obtain s1 where "add k v s = Some s1" "inv s1" "abs s1 = (abs s)(k \<mapsto> v)"
    using add [of s k v] Cons.prems kv by auto
  moreover obtain s2 where "add_list kvs s1 = Some s2" "inv s2" "abs s2 = abs s1 ++ map_of (rev kvs)"
    using Cons.IH [of s1] Cons.prems calculation by (meson list.set_intros(2))
  ultimately show ?case using kv by (auto simp: map_add_def fun_eq_iff split: option.splits)
qed simp

lemma find_after_add:
  "inv s \<Longrightarrow> ok k \<Longrightarrow> ok k' \<Longrightarrow> add k v s = Some s' \<Longrightarrow>
   find k' s' = Some (if k' = k then Some v else abs s k')"
  using add [of s k v] find [of s' k'] by auto

end

interpretation xh: map_store hash_inv key_ok abs_hash hash_add_or_update hash_extended_delete
    hash_extended_find
proof
  fix s :: "'v xhash" and k v
  assume "hash_inv s" "key_ok k"
  then show "\<exists>s'. hash_add_or_update k v s = Some s' \<and> hash_inv s' \<and> abs_hash s' = (abs_hash s)(k \<mapsto> v)"
    using hash_add_or_update_ok [of s k v] by auto
next
  fix s :: "'v xhash" and k
  assume "hash_inv s" "key_ok k"
  then show "\<exists>s'. hash_extended_delete k s = Some (abs_hash s k \<noteq> None, s') \<and> hash_inv s' \<and>
      abs_hash s' = (abs_hash s)(k := None)"
    using hash_extended_delete_ok [of s k] by auto
qed (rule hash_extended_find_ok)

section \<open>Sequences of operations\<close>

datatype 'v hash_op = Op_add hkey 'v | Op_delete hkey | Op_find hkey

datatype 'v hash_result = Res_unit | Res_bool bool | Res_val "'v option"

fun op_key :: "'v hash_op \<Rightarrow> hkey" where
  "op_key (Op_add k v) = k"
| "op_key (Op_delete k) = k"
| "op_key (Op_find k) = k"

fun run_op :: "'v hash_op \<Rightarrow> 'v xhash \<Rightarrow> ('v hash_result \<times> 'v xhash) option" where
  "run_op (Op_add k v) h = do { h \<leftarrow> hash_add_or_update k v h; Some (Res_unit, h) }"
| "run_op (Op_delete k) h = do { (b, h) \<leftarrow> hash_extended_delete k h; Some (Res_bool b, h) }"
| "run_op (Op_find k) h = do { r \<leftarrow> hash_extended_find k h; Some (Res_val r, h) }"

fun run_ops :: "'v hash_op list \<Rightarrow> 'v xhash \<Rightarrow> ('v hash_result list \<times> 'v xhash) option" where
  "run_ops [] h = Some ([], h)"
| "run_ops (opn # opns) h =
     do { (r, h) \<leftarrow> run_op opn h; (rs, h) \<leftarrow> run_ops opns h; Some (r # rs, h) }"

text \<open>The same operations on a map.\<close>

fun spec_op :: "'v hash_op \<Rightarrow> (hkey \<Rightarrow> 'v option) \<Rightarrow> 'v hash_result \<times> (hkey \<Rightarrow> 'v option)" where
  "spec_op (Op_add k v) m = (Res_unit, m(k \<mapsto> v))"
| "spec_op (Op_delete k) m = (Res_bool (m k \<noteq> None), m(k := None))"
| "spec_op (Op_find k) m = (Res_val (m k), m)"

fun spec_ops :: "'v hash_op list \<Rightarrow> (hkey \<Rightarrow> 'v option) \<Rightarrow> 'v hash_result list \<times> (hkey \<Rightarrow> 'v option)" where
  "spec_ops [] m = ([], m)"
| "spec_ops (opn # opns) m =
     (let (r, m) = spec_op opn m; (rs, m) = spec_ops opns m in (r # rs, m))"

fun op_added :: "'v hash_op \<Rightarrow> 'v list" where
  "op_added (Op_add k v) = [v]"
| "op_added (Op_delete k) = []"
| "op_added (Op_find k) = []"

lemma run_op_ok:
  assumes "hash_inv h" and "key_ok (op_key opn)" and "hash_dtor h"
  shows "\<exists>h'. run_op opn h = Some (fst (spec_op opn (abs_hash h)), h') \<and> hash_inv h' \<and>
    abs_hash h' = snd (spec_op opn (abs_hash h)) \<and> hash_dtor h' \<and>
    mset (hdestroyed h') + live h' = mset (hdestroyed h) + live h + mset (op_added opn)"
proof (cases opn)
  case (Op_add k v)
  then show ?thesis using hash_add_or_update_ok [OF assms(1), of k v] assms(2,3) by auto
next
  case (Op_delete k)
  then show ?thesis using hash_extended_delete_ok [OF assms(1), of k] assms(2,3) by auto
next
  case (Op_find k)
  then show ?thesis using hash_extended_find_ok [OF assms(1), of k] assms by auto
qed

lemma run_ops_ok:
  assumes "hash_inv h" and "\<forall>opn \<in> set opns. key_ok (op_key opn)" and "hash_dtor h"
  shows "\<exists>h'. run_ops opns h = Some (fst (spec_ops opns (abs_hash h)), h') \<and> hash_inv h' \<and>
    abs_hash h' = snd (spec_ops opns (abs_hash h)) \<and> hash_dtor h' \<and>
    mset (hdestroyed h') + live h' =
      mset (hdestroyed h) + live h + mset (concat (map op_added opns))"
  using assms
proof (induction opns arbitrary: h)
  case (Cons opn opns)
  have "key_ok (op_key opn)" using Cons.prems(2) by simp
  from run_op_ok [OF Cons.prems(1) this Cons.prems(3)]
  obtain h1 where h1: "run_op opn h = Some (fst (spec_op opn (abs_hash h)), h1)" "hash_inv h1"
    "abs_hash h1 = snd (spec_op opn (abs_hash h))" "hash_dtor h1"
    "mset (hdestroyed h1) + live h1 = mset (hdestroyed h) + live h + mset (op_added opn)"
    by blast
  have "\<forall>opn \<in> set opns. key_ok (op_key opn)" using Cons.prems(2) by simp
  from Cons.IH [OF h1(2) this h1(4)]
  obtain h2 where h2: "run_ops opns h1 = Some (fst (spec_ops opns (abs_hash h1)), h2)" "hash_inv h2"
    "abs_hash h2 = snd (spec_ops opns (abs_hash h1))" "hash_dtor h2"
    "mset (hdestroyed h2) + live h2 = mset (hdestroyed h1) + live h1 + mset (concat (map op_added opns))"
    by blast
  have "run_ops (opn # opns) h = Some (fst (spec_ops (opn # opns) (abs_hash h)), h2)"
    using h1(1,3) h2(1) by (simp add: Let_def case_prod_beta)
  moreover have "abs_hash h2 = snd (spec_ops (opn # opns) (abs_hash h))"
    using h1(3) h2(3) by (simp add: Let_def case_prod_beta)
  moreover have "mset (hdestroyed h2) + live h2 =
      mset (hdestroyed h) + live h + mset (concat (map op_added (opn # opns)))"
    unfolding h2(5) h1(5) by simp
  ultimately show ?case using h2(2,4) by blast
qed simp

section \<open>Properties\<close>

text \<open>C10: From a new table, any sequence of additions, updates, deletions and lookups under non-empty keys
  returns what the same sequence returns on a map from keys to values, and leaves the table holding that
  map.\<close>

theorem hash_refines_map:
  assumes "0 < n" and "\<forall>opn \<in> set opns. key_ok (op_key opn)"
  shows "\<exists>h. run_ops opns (hash_alloc n True) = Some (fst (spec_ops opns Map.empty), h) \<and>
    abs_hash h = snd (spec_ops opns Map.empty)"
  using run_ops_ok [OF hash_alloc_ok(1) [OF assms(1)] assms(2), of True]
  by (auto simp: hash_alloc_ok(2) [OF assms(1)])

definition example_ops :: "nat hash_op list" where
  "example_ops =
     [Op_add (Key_string ''a'') 1, Op_add (Key_num 7) 2, Op_add (Key_string ''a'') 3,
      Op_find (Key_string ''a''), Op_delete (Key_num 7), Op_find (Key_num 7)]"

theorem hash_refines_map_witness:
  "\<exists>h. run_ops example_ops (hash_alloc 4 True) =
     Some ([Res_unit, Res_unit, Res_unit, Res_val (Some 3), Res_bool True, Res_val None], h)"
  using hash_refines_map [of 4 example_ops] by (auto simp: example_ops_def key_ok_def Let_def)

text \<open>No value is lost or destroyed twice: after any sequence of operations and the destruction of the
  table, the values given to the destructor are exactly the values added, each as often as it was added.\<close>

lemma hash_destroys_each_once:
  assumes "0 < n" and "\<forall>opn \<in> set opns. key_ok (op_key opn)"
    and "run_ops opns (hash_alloc n True) = Some (rs, h)"
  shows "mset (hash_destroy h) = mset (concat (map op_added opns))"
  using run_ops_ok [OF hash_alloc_ok(1) [OF assms(1)] assms(2), of True] assms(3)
    hash_destroy_ok [of h] hash_alloc_ok(3) [of n True]
  by auto

lemma hash_destroys_each_once_witness:
  "\<exists>rs h. run_ops example_ops (hash_alloc 4 True) = Some (rs, h) \<and>
     mset (hash_destroy h) = {#1, 2, 3#}"
proof -
  have ok: "\<forall>opn \<in> set example_ops. key_ok (op_key opn)"
    by (simp add: example_ops_def key_ok_def)
  obtain rs h where r: "run_ops example_ops (hash_alloc 4 True) = Some (rs, h)"
    using run_ops_ok [OF hash_alloc_ok(1) ok, of 4 True] by auto
  have "mset (hash_destroy h) = mset (concat (map op_added example_ops))"
    using hash_destroys_each_once [OF _ ok r] by simp
  then show ?thesis using r by (simp add: example_ops_def)
qed

end
