(* ===== verification/Str.thy ===== *)
theory Str
  imports Prelude "HOL-Library.Monad_Syntax"
begin

text \<open>
  The growing strings of \<open>xdebug_str.c\<close>. An \<open>xstr\<close> has the length \<open>l\<close>, the allocated size \<open>a\<close> and
  the buffer \<open>d\<close> (\<open>None\<close> for NULL) as the struct has; \<open>realloc\<close> keeps the old bytes and fills the rest
  with the argument \<open>junk\<close>. A write or read outside a buffer is \<open>None\<close>. The theorems say that the
  operations never leave the buffer, keep it zero terminated, and append and cut exactly.
\<close>

section \<open>Data and memory\<close>

record xstr =
  str_l :: int
  str_a :: int
  str_d :: "string option"

definition XDEBUG_STR_PREALLOC :: int where
  "XDEBUG_STR_PREALLOC = 1024"

definition xdrealloc :: "char \<Rightarrow> string option \<Rightarrow> int \<Rightarrow> string" where
  "xdrealloc junk buf n =
     (let b = (case buf of None \<Rightarrow> [] | Some b \<Rightarrow> b)
      in take (nat n) (b @ replicate (nat n - length b) junk))"

text \<open>Copying bytes to an offset of a buffer.\<close>

definition poke :: "string option \<Rightarrow> int \<Rightarrow> string \<Rightarrow> string option option" where
  "poke buf off bytes =
     (case buf of
        None \<Rightarrow> None
      | Some b \<Rightarrow>
          if 0 \<le> off \<and> nat off + length bytes \<le> length b
          then Some (Some (take (nat off) b @ bytes @ drop (nat off + length bytes) b))
          else None)"

text \<open>The first \<open>n\<close> bytes of a source.\<close>

definition peek :: "string \<Rightarrow> int \<Rightarrow> string option" where
  "peek src n = (if 0 \<le> n \<and> nat n \<le> length src then Some (take (nat n) src) else None)"

section \<open>Operations\<close>

definition str_new :: xstr where
  "str_new = \<lparr>str_l = 0, str_a = 0, str_d = None\<rparr>"

definition grow :: "char \<Rightarrow> int \<Rightarrow> xstr \<Rightarrow> xstr" where
  "grow junk le xs =
     (if str_l xs + le > str_a xs - 1
      then xs\<lparr>str_d := Some (xdrealloc junk (str_d xs) (str_a xs + le + XDEBUG_STR_PREALLOC)),
              str_a := str_a xs + le + XDEBUG_STR_PREALLOC\<rparr>
      else xs)"

definition str_addl :: "char \<Rightarrow> string \<Rightarrow> int \<Rightarrow> xstr \<Rightarrow> xstr option" where
  "str_addl junk str le xs =
     (let xs = grow junk le xs
      in do {
        b0 \<leftarrow> (if str_l xs = 0 then poke (str_d xs) 0 [nul] else Some (str_d xs));
        src \<leftarrow> peek str le;
        b1 \<leftarrow> poke b0 (str_l xs) src;
        b2 \<leftarrow> poke b1 (str_l xs + le) [nul];
        Some (xs\<lparr>str_d := b2, str_l := str_l xs + le\<rparr>)
      })"

text \<open>\<open>int str_l = strlen (str)\<close> truncates the length to 32 bits.\<close>

definition str_add :: "char \<Rightarrow> string \<Rightarrow> xstr \<Rightarrow> xstr option" where
  "str_add junk str xs =
     (let len = to_int32 (int (length str)); xs = grow junk len xs
      in do {
        b0 \<leftarrow> (if str_l xs = 0 then poke (str_d xs) 0 [nul] else Some (str_d xs));
        src \<leftarrow> peek str len;
        b1 \<leftarrow> poke b0 (str_l xs) src;
        b2 \<leftarrow> poke b1 (str_l xs + len) [nul];
        Some (xs\<lparr>str_d := b2, str_l := str_l xs + len\<rparr>)
      })"

definition str_add_str :: "char \<Rightarrow> xstr \<Rightarrow> xstr \<Rightarrow> xstr option" where
  "str_add_str junk str xs =
     (let xs = grow junk (str_l str) xs
      in do {
        b0 \<leftarrow> (if str_l xs = 0 then poke (str_d xs) 0 [nul] else Some (str_d xs));
        src \<leftarrow> (case str_d str of
                 None \<Rightarrow> if str_l str = 0 then Some [] else None
               | Some b \<Rightarrow> peek b (str_l str));
        b1 \<leftarrow> poke b0 (str_l xs) src;
        b2 \<leftarrow> poke b1 (str_l xs + str_l str) [nul];
        Some (xs\<lparr>str_d := b2, str_l := str_l xs + str_l str\<rparr>)
      })"

definition str_addc :: "char \<Rightarrow> char \<Rightarrow> xstr \<Rightarrow> xstr option" where
  "str_addc junk letter xs =
     (let xs = grow junk 1 xs
      in do {
        b0 \<leftarrow> (if str_l xs = 0 then poke (str_d xs) 0 [nul] else Some (str_d xs));
        b1 \<leftarrow> poke b0 (str_l xs) [letter];
        b2 \<leftarrow> poke b1 (str_l xs + 1) [nul];
        Some (xs\<lparr>str_d := b2, str_l := str_l xs + 1\<rparr>)
      })"

definition str_chop :: "int \<Rightarrow> xstr \<Rightarrow> xstr option" where
  "str_chop c xs =
     (if c > str_l xs then Some xs
      else do {
        b \<leftarrow> poke (str_d xs) (str_l xs - c) [nul];
        Some (xs\<lparr>str_l := str_l xs - c, str_d := b\<rparr>)
      })"

definition str_create :: "char \<Rightarrow> string \<Rightarrow> nat \<Rightarrow> xstr option" where
  "str_create junk c len =
     do {
       src \<leftarrow> peek c (int len);
       b1 \<leftarrow> poke (Some (replicate (len + 1) junk)) 0 src;
       b2 \<leftarrow> poke b1 (int len) [nul];
       Some \<lparr>str_l = int len, str_a = int len + 1, str_d = b2\<rparr>
     }"

definition str_create_from_char :: "char \<Rightarrow> string \<Rightarrow> xstr option" where
  "str_create_from_char junk c = str_create junk c (length c)"

definition str_copy :: "char \<Rightarrow> xstr \<Rightarrow> xstr option" where
  "str_copy junk orig =
     do {
       src \<leftarrow> (case str_d orig of
                None \<Rightarrow> if str_l orig = 0 then Some [] else None
              | Some b \<Rightarrow> peek b (str_l orig));
       b1 \<leftarrow> poke (Some (replicate (nat (str_l orig + 1)) junk)) 0 src;
       b2 \<leftarrow> poke b1 (str_l orig) [nul];
       Some \<lparr>str_l = str_l orig, str_a = str_l orig + 1, str_d = b2\<rparr>
     }"

text \<open>
  \<open>xdebug_sprintf\<close>: \<open>vsn size\<close> is what \<open>vsnprintf\<close> returns for a buffer of that size and the text it
  leaves there. The loop retries with a bigger buffer; \<open>None\<close> is a loop that never ends.
\<close>

partial_function (option) sprintf_loop :: "(int \<Rightarrow> int \<times> string) \<Rightarrow> int \<Rightarrow> string option" where
  "sprintf_loop vsn sz =
     (let (n, text) = vsn sz
      in if n > - 1 \<and> n < sz then Some text
         else if n < 0 then sprintf_loop vsn (sz * 2)
         else sprintf_loop vsn (n + 1))"

definition xdebug_sprintf :: "(int \<Rightarrow> int \<times> string) \<Rightarrow> string option" where
  "xdebug_sprintf vsn = sprintf_loop vsn 1"

definition xdebug_strndup :: "char \<Rightarrow> string \<Rightarrow> nat \<Rightarrow> string option" where
  "xdebug_strndup junk s len =
     do {
       src \<leftarrow> (if len \<noteq> 0 then peek s (int len) else Some []);
       p \<leftarrow> poke (Some (replicate (len + 1) junk)) 0 src;
       p \<leftarrow> poke p (int len) [nul];
       p
     }"

section \<open>Invariant\<close>

definition str_wf :: "xstr \<Rightarrow> bool" where
  "str_wf xs \<longleftrightarrow>
     0 \<le> str_l xs \<and>
     (case str_d xs of
        None \<Rightarrow> str_l xs = 0 \<and> str_a xs = 0
      | Some b \<Rightarrow> int (length b) = str_a xs \<and> str_l xs < str_a xs \<and> b ! nat (str_l xs) = nul)"

definition content :: "xstr \<Rightarrow> string" where
  "content xs = (case str_d xs of None \<Rightarrow> [] | Some b \<Rightarrow> take (nat (str_l xs)) b)"

lemma length_xdrealloc [simp]: "0 \<le> n \<Longrightarrow> length (xdrealloc junk buf n) = nat n"
  unfolding xdrealloc_def by (auto simp: Let_def split: option.splits)

lemma take_xdrealloc:
  "k \<le> nat n \<Longrightarrow> k \<le> length b \<Longrightarrow> take k (xdrealloc junk (Some b) n) = take k b"
  unfolding xdrealloc_def by (simp add: min_def)

lemma length_content: "str_wf xs \<Longrightarrow> length (content xs) = nat (str_l xs)"
  unfolding str_wf_def content_def by (auto split: option.splits)

text \<open>After growing there is room for the new bytes and the terminator.\<close>

lemma grow_room:
  assumes "str_wf xs" and "0 \<le> le"
  shows "\<exists>b. str_d (grow junk le xs) = Some b \<and> int (length b) = str_a (grow junk le xs) \<and>
    str_l (grow junk le xs) = str_l xs \<and> str_l xs + le < str_a (grow junk le xs) \<and>
    take (nat (str_l xs)) b = content xs"
proof (cases "str_l xs + le > str_a xs - 1")
  case True
  define n where "n = str_a xs + le + XDEBUG_STR_PREALLOC"
  have n: "0 \<le> n" "str_l xs + le < n" "nat (str_l xs) \<le> nat n" "str_a xs \<le> n"
    using assms unfolding str_wf_def n_def XDEBUG_STR_PREALLOC_def by (auto split: option.splits)
  have "take (nat (str_l xs)) (xdrealloc junk (str_d xs) n) = content xs"
    using assms n unfolding str_wf_def content_def
    by (auto simp: take_xdrealloc split: option.splits)
  then show ?thesis using True n unfolding grow_def n_def by simp
next
  case False
  then show ?thesis
    using assms unfolding grow_def str_wf_def content_def by (auto split: option.splits)
qed

text \<open>The common tail of the append operations.\<close>

definition append_bytes :: "xstr \<Rightarrow> string \<Rightarrow> xstr option" where
  "append_bytes xs src =
     do {
       b0 \<leftarrow> (if str_l xs = 0 then poke (str_d xs) 0 [nul] else Some (str_d xs));
       b1 \<leftarrow> poke b0 (str_l xs) src;
       b2 \<leftarrow> poke b1 (str_l xs + int (length src)) [nul];
       Some (xs\<lparr>str_d := b2, str_l := str_l xs + int (length src)\<rparr>)
     }"

lemma append_bytes_ok:
  assumes "str_d xs = Some b" and "int (length b) = str_a xs" and "0 \<le> str_l xs"
    and "str_l xs + int (length src) < str_a xs"
  shows "\<exists>xs'. append_bytes xs src = Some xs' \<and> str_wf xs' \<and> content xs' = take (nat (str_l xs)) b @ src"
proof -
  define n where "n = nat (str_l xs)"
  have n: "str_l xs = int n" "n + length src < length b" using assms n_def by auto
  define b0 where "b0 = (if n = 0 then nul # drop 1 b else b)"
  have b0: "length b0 = length b" "take n b0 = take n b"
    using n by (auto simp: b0_def)
  define b1 where "b1 = take n b0 @ src @ drop (n + length src) b0"
  have b1: "length b1 = length b" using b0 n by (simp add: b1_def)
  define b2 where "b2 = take (n + length src) b1 @ [nul] @ drop (n + length src + 1) b1"
  have p0: "(if str_l xs = 0 then poke (str_d xs) 0 [nul] else Some (str_d xs)) = Some (Some b0)"
    using n assms(1) by (auto simp: poke_def b0_def)
  have p1: "poke (Some b0) (str_l xs) src = Some (Some b1)"
    using n b0 by (simp add: poke_def b1_def)
  have p2: "poke (Some b1) (str_l xs + int (length src)) [nul] = Some (Some b2)"
    using n b1 by (simp add: poke_def b2_def nat_add_distrib)
  have "append_bytes xs src = Some (xs\<lparr>str_d := Some b2, str_l := int (n + length src)\<rparr>)"
    unfolding append_bytes_def p0
    by (simp only: p1 p2 Option.bind_lunit) (simp add: n(1))
  moreover have "take (n + length src) b2 = take n b @ src"
    using b0 b1 n by (simp add: b2_def b1_def)
  moreover have "length b2 = length b" "b2 ! (n + length src) = nul"
    using b1 n by (auto simp: b2_def nth_append)
  ultimately show ?thesis
    using assms n unfolding str_wf_def content_def by (simp add: nat_int_add)
qed

lemma str_addl_ok:
  assumes "str_wf xs" and "le \<le> length str"
  shows "\<exists>xs'. str_addl junk str (int le) xs = Some xs' \<and> str_wf xs' \<and>
    content xs' = content xs @ take le str"
proof -
  obtain b where g: "str_d (grow junk (int le) xs) = Some b"
    "int (length b) = str_a (grow junk (int le) xs)" "str_l (grow junk (int le) xs) = str_l xs"
    "str_l xs + int le < str_a (grow junk (int le) xs)" "take (nat (str_l xs)) b = content xs"
    using grow_room [OF assms(1), of "int le" junk] by auto
  have "str_addl junk str (int le) xs = append_bytes (grow junk (int le) xs) (take le str)"
    using assms(2) unfolding str_addl_def append_bytes_def by (simp add: Let_def peek_def min_def)
  moreover have "0 \<le> str_l xs" using assms(1) by (simp add: str_wf_def)
  ultimately show ?thesis
    using append_bytes_ok [OF g(1,2), of "take le str"] assms(2) g(3-5) by simp
qed

lemma str_add_addl:
  "length str < 2 ^ 31 \<Longrightarrow> str_add junk str xs = str_addl junk str (int (length str)) xs"
  unfolding str_add_def str_addl_def by (simp add: Let_def to_int32_id)

lemma str_add_ok:
  "str_wf xs \<Longrightarrow> length str < 2 ^ 31 \<Longrightarrow>
   \<exists>xs'. str_add junk str xs = Some xs' \<and> str_wf xs' \<and> content xs' = content xs @ str"
  using str_addl_ok [of xs "length str" str junk] by (simp add: str_add_addl)

lemma str_addc_addl: "str_addc junk c xs = str_addl junk [c] 1 xs"
  unfolding str_addc_def str_addl_def by (simp add: Let_def peek_def)

lemma str_add_str_ok:
  assumes "str_wf xs" and "str_wf ys"
  shows "\<exists>xs'. str_add_str junk ys xs = Some xs' \<and> str_wf xs' \<and> content xs' = content xs @ content ys"
proof -
  have src: "(case str_d ys of None \<Rightarrow> if str_l ys = 0 then Some [] else None
     | Some b \<Rightarrow> peek b (str_l ys)) = Some (content ys)"
    using assms(2) unfolding str_wf_def content_def peek_def by (auto split: option.splits)
  have "str_add_str junk ys xs = str_addl junk (content ys) (int (length (content ys))) xs"
    using length_content [OF assms(2)] assms(2)
    unfolding str_add_str_def str_addl_def src
    by (simp add: Let_def peek_def str_wf_def)
  then show ?thesis using str_addl_ok [OF assms(1), of "length (content ys)" "content ys" junk] by simp
qed

lemma str_chop_ok:
  assumes "str_wf xs" and "0 \<le> c" and "0 < c \<or> str_d xs \<noteq> None"
  shows "\<exists>xs'. str_chop c xs = Some xs' \<and> str_wf xs' \<and>
    content xs' = (if c > str_l xs then content xs
                   else take (length (content xs) - nat c) (content xs))"
proof (cases "c > str_l xs")
  case True
  then show ?thesis using assms unfolding str_chop_def by simp
next
  case False
  obtain b where b: "str_d xs = Some b" "int (length b) = str_a xs" "str_l xs < str_a xs" "0 \<le> str_l xs"
    using assms False unfolding str_wf_def by (auto split: option.splits)
  define n where "n = nat (str_l xs - c)"
  have n: "str_l xs - c = int n" "n < length b" "n \<le> nat (str_l xs)"
    using b assms(2) False n_def by auto
  have p: "poke (Some b) (int n) [nul] = Some (Some (take n b @ [nul] @ drop (n + 1) b))"
    using n by (simp add: poke_def)
  have "length (take n b @ [nul] @ drop (n + 1) b) = length b"
    "(take n b @ [nul] @ drop (n + 1) b) ! n = nul" "take n (take n b @ [nul] @ drop (n + 1) b) = take n b"
    using n by (auto simp: nth_append)
  moreover have "nat (str_l xs) - nat c = n" using b(4) assms(2) False n_def by auto
  ultimately show ?thesis
    using b n False p length_content [OF assms(1)]
    unfolding str_chop_def str_wf_def content_def by (auto simp: min_def)
qed

lemma str_create_ok:
  "len \<le> length c \<Longrightarrow>
   \<exists>xs. str_create junk c len = Some xs \<and> str_wf xs \<and> content xs = take len c"
  unfolding str_create_def str_wf_def content_def
  by (auto simp: peek_def poke_def min_def nth_append)

lemma str_wf_new [simp]: "str_wf str_new" "content str_new = []"
  by (simp_all add: str_new_def str_wf_def content_def)

section \<open>The interface of a text buffer\<close>

text \<open>What the modules that write text rely on.\<close>

locale text_buffer =
  fixes wf :: "'b \<Rightarrow> bool"
    and text_of :: "'b \<Rightarrow> string"
    and add :: "string \<Rightarrow> 'b \<Rightarrow> 'b option"
    and fits :: "string \<Rightarrow> bool"
  assumes add_ok: "wf b \<Longrightarrow> fits s \<Longrightarrow> \<exists>b'. add s b = Some b' \<and> wf b' \<and> text_of b' = text_of b @ s"
begin

fun add_all :: "string list \<Rightarrow> 'b \<Rightarrow> 'b option" where
  "add_all [] b = Some b"
| "add_all (s # ss) b = Option.bind (add s b) (add_all ss)"

lemma add_all_ok:
  "wf b \<Longrightarrow> \<forall>s \<in> set ss. fits s \<Longrightarrow>
   \<exists>b'. add_all ss b = Some b' \<and> wf b' \<and> text_of b' = text_of b @ concat ss"
proof (induction ss arbitrary: b)
  case (Cons s ss)
  obtain b1 where "add s b = Some b1" "wf b1" "text_of b1 = text_of b @ s"
    using add_ok [of b s] Cons.prems by auto
  then show ?case using Cons.IH [of b1] Cons.prems by auto
qed simp

lemma add_all_append:
  "add_all (ss @ ts) b = Option.bind (add_all ss b) (add_all ts)"
  by (induction ss arbitrary: b) (auto split: bind_splits)

end

interpretation tb: text_buffer str_wf content "str_add junk" "\<lambda>s. length s < 2 ^ 31" for junk
  by unfold_locales (rule str_add_ok)

section \<open>Properties\<close>

datatype str_op = Add string | Addl string nat | Addc char | Add_copy_of string | Chop nat

text \<open>What each operation does to the text. More characters than there are cannot be cut off, then none is.\<close>

fun op_effect :: "str_op \<Rightarrow> string \<Rightarrow> string" where
  "op_effect (Add s) t = t @ s"
| "op_effect (Addl s n) t = t @ take n s"
| "op_effect (Addc c) t = t @ [c]"
| "op_effect (Add_copy_of s) t = t @ s"
| "op_effect (Chop n) t = (if length t < n then t else take (length t - n) t)"

fun op_fits :: "str_op \<Rightarrow> bool" where
  "op_fits (Add s) = (length s < 2 ^ 31)"
| "op_fits (Addl s n) = (n \<le> length s)"
| "op_fits (Addc c) = True"
| "op_fits (Add_copy_of s) = True"
| "op_fits (Chop n) = (0 < n)"

fun run_str_op :: "char \<Rightarrow> str_op \<Rightarrow> xstr \<Rightarrow> xstr option" where
  "run_str_op junk (Add s) xs = str_add junk s xs"
| "run_str_op junk (Addl s n) xs = str_addl junk s (int n) xs"
| "run_str_op junk (Addc c) xs = str_addc junk c xs"
| "run_str_op junk (Add_copy_of s) xs =
     do { ys \<leftarrow> str_create_from_char junk s; ys \<leftarrow> str_copy junk ys; str_add_str junk ys xs }"
| "run_str_op junk (Chop n) xs = str_chop (int n) xs"

fun run_str_ops :: "char \<Rightarrow> str_op list \<Rightarrow> xstr \<Rightarrow> xstr option" where
  "run_str_ops junk [] xs = Some xs"
| "run_str_ops junk (opn # opns) xs = do { xs \<leftarrow> run_str_op junk opn xs; run_str_ops junk opns xs }"

lemma str_copy_ok:
  "str_wf xs \<Longrightarrow> \<exists>ys. str_copy junk xs = Some ys \<and> str_wf ys \<and> content ys = content xs"
  unfolding str_wf_def content_def str_copy_def
  by (auto simp: peek_def poke_def min_def nth_append nat_add_distrib split: option.splits)

lemma run_str_op_ok:
  assumes "str_wf xs" and "op_fits opn"
  shows "\<exists>xs'. run_str_op junk opn xs = Some xs' \<and> str_wf xs' \<and> content xs' = op_effect opn (content xs)"
proof (cases opn)
  case (Add s)
  then show ?thesis using str_add_ok [OF assms(1), of s junk] assms(2) by simp
next
  case (Addl s n)
  then show ?thesis using str_addl_ok [OF assms(1), of n s junk] assms(2) by simp
next
  case (Addc c)
  then show ?thesis using str_addl_ok [OF assms(1), of 1 "[c]" junk] by (simp add: str_addc_addl)
next
  case (Add_copy_of s)
  obtain ys where ys: "str_create_from_char junk s = Some ys" "str_wf ys" "content ys = s"
    using str_create_ok [of "length s" s junk] unfolding str_create_from_char_def by auto
  obtain zs where zs: "str_copy junk ys = Some zs" "str_wf zs" "content zs = s"
    using str_copy_ok [OF ys(2), of junk] ys(3) by auto
  show ?thesis using str_add_str_ok [OF assms(1) zs(2), of junk] ys(1) zs by (simp add: Add_copy_of)
next
  case (Chop n)
  then show ?thesis
    using str_chop_ok [OF assms(1), of "int n"] assms length_content [OF assms(1)] by (auto simp: str_wf_def)
qed

text \<open>C11: Whatever mix of appends and cuts is applied to a new string, no write leaves the buffer, the buffer stays
  zero terminated, and the text is what the appends and cuts make of the empty text. A cut of no character at all
  would write a zero to a string that has no buffer yet.\<close>

theorem str_edits_exact:
  assumes "\<forall>opn \<in> set opns. op_fits opn"
  shows "\<exists>xs. run_str_ops junk opns str_new = Some xs \<and> str_wf xs \<and> content xs = fold op_effect opns []"
proof -
  have "\<exists>ys. run_str_ops junk opns xs = Some ys \<and> str_wf ys \<and> content ys = fold op_effect opns (content xs)"
    if "str_wf xs" for xs
    using assms that
  proof (induction opns arbitrary: xs)
    case (Cons opn opns)
    obtain x1 where x1: "run_str_op junk opn xs = Some x1" "str_wf x1" "content x1 = op_effect opn (content xs)"
      using run_str_op_ok [of xs opn junk] Cons.prems by auto
    then show ?case using Cons.IH [of x1] Cons.prems by auto
  qed simp
  from this [of str_new] show ?thesis by simp
qed

theorem str_edits_exact_witness:
  "\<exists>xs. run_str_ops nul [Add ''ab'', Addc (CHR ''-''), Addl ''xyz'' 2, Chop 1, Add_copy_of ''!'', Chop 9] str_new = Some xs \<and>
     content xs = ''ab-x!''"
  using str_edits_exact [of "[Add ''ab'', Addc (CHR ''-''), Addl ''xyz'' 2, Chop 1, Add_copy_of ''!'', Chop 9]" nul]
  by auto

section \<open>Formatting\<close>

lemma sprintf_loop_returns:
  assumes "\<And>sz. int (length text) < sz \<Longrightarrow> vsn sz = (int (length text), text)"
    and "\<And>sz. 0 < sz \<Longrightarrow> sz \<le> int (length text) \<Longrightarrow>
           fst (vsn sz) = - 1 \<or> fst (vsn sz) = int (length text)"
    and "0 < sz"
  shows "sprintf_loop vsn sz = Some text"
  using assms(3)
proof (induction "nat (int (length text) + 1 - sz)" arbitrary: sz rule: less_induct)
  case less
  show ?case
  proof (cases "int (length text) < sz")
    case True
    then show ?thesis using assms(1) [of sz] by (subst sprintf_loop.simps) simp
  next
    case False
    obtain n buf where n: "vsn sz = (n, buf)" by force
    then have "n = - 1 \<or> n = int (length text)" using assms(2) [of sz] less.prems False by auto
    then show ?thesis
    proof
      assume "n = - 1"
      then show ?thesis
        using less.hyps [of "sz * 2"] less.prems False by (subst sprintf_loop.simps) (simp add: n)
    next
      assume "n = int (length text)"
      then show ?thesis
        using less.hyps [of "int (length text) + 1"] less.prems False
        by (subst sprintf_loop.simps) (simp add: n)
    qed
  qed
qed

text \<open>\<open>xdebug_sprintf\<close> returns, and returns the whole formatted text, both with a \<open>vsnprintf\<close> that
  reports the needed length and with an old one that reports -1 while the buffer is too small.\<close>

lemma sprintf_returns_text:
  assumes "\<And>sz. int (length text) < sz \<Longrightarrow> vsn sz = (int (length text), text)"
    and "\<And>sz. 0 < sz \<Longrightarrow> sz \<le> int (length text) \<Longrightarrow>
           fst (vsn sz) = - 1 \<or> fst (vsn sz) = int (length text)"
  shows "xdebug_sprintf vsn = Some text"
  unfolding xdebug_sprintf_def by (rule sprintf_loop_returns [OF assms]) simp_all

lemma sprintf_returns_text_witness:
  "xdebug_sprintf (\<lambda>sz. if 5 < sz then (5, ''hello'') else (- 1, [])) = Some ''hello''"
  by (rule sprintf_returns_text) simp_all

end
