(* ===== verification/BitSet.thy ===== *)
theory BitSet
  imports Prelude
begin

unbundle bit_operations_syntax

text \<open>
  The bit sets of \<open>xdebug_set.c\<close>, which mark opcodes. \<open>setinfo\<close> is the byte array; an access past its
  end is \<open>None\<close>. The abstraction \<open>members\<close> is the set of the positions whose bit is set; the lemmas show
  that within the size the set was created with no access leaves the array and that the operations are
  insertion, deletion and membership.
\<close>

record xset =
  set_size :: u32
  setinfo :: "u8 list"

definition set_create :: "u32 \<Rightarrow> xset" where
  "set_create sz =
     \<lparr>set_size = sz,
      setinfo = replicate (unat (sz div 8 + 1 + (if sz mod 8 \<noteq> 0 then 1 else 0))) 0\<rparr>"

text \<open>\<open>1 << bit\<close> as the byte it contributes.\<close>

definition bit_mask :: "u32 \<Rightarrow> u8" where
  "bit_mask position = push_bit (unat (position mod 8)) 1"

definition set_add :: "u32 \<Rightarrow> xset \<Rightarrow> xset option" where
  "set_add position s =
     (let i = unat (position div 8)
      in if i < length (setinfo s)
         then Some (s\<lparr>setinfo := (setinfo s)[i := setinfo s ! i OR bit_mask position]\<rparr>)
         else None)"

definition set_remove :: "u32 \<Rightarrow> xset \<Rightarrow> xset option" where
  "set_remove position s =
     (let i = unat (position div 8)
      in if i < length (setinfo s)
         then Some (s\<lparr>setinfo := (setinfo s)[i := setinfo s ! i AND NOT (bit_mask position)]\<rparr>)
         else None)"

definition set_in_ex :: "u32 \<Rightarrow> xset \<Rightarrow> bool option" where
  "set_in_ex position s =
     (let i = unat (position div 8)
      in if i < length (setinfo s)
         then Some (setinfo s ! i AND bit_mask position \<noteq> 0)
         else None)"

definition set_wf :: "xset \<Rightarrow> bool" where
  "set_wf s \<longleftrightarrow> unat (set_size s) div 8 < length (setinfo s)"

definition members :: "xset \<Rightarrow> nat set" where
  "members s = {p. p div 8 < length (setinfo s) \<and> bit (setinfo s ! (p div 8)) (p mod 8)}"

lemma unat_div8: "unat (p div 8 :: u32) = unat p div 8"
  by (simp add: unat_div)

lemma unat_mod8: "unat (p mod 8 :: u32) = unat p mod 8"
  by (simp add: unat_mod)

lemma bit_bit_mask: "bit (bit_mask p) n \<longleftrightarrow> n = unat p mod 8"
proof -
  have "unat p mod 8 < 8" by simp
  then show ?thesis
    unfolding bit_mask_def unat_mod8 by (auto simp: bit_simps)
qed

lemma and_mask_nonzero: "(w AND bit_mask p \<noteq> 0) \<longleftrightarrow> bit w (unat p mod 8)"
proof -
  have "(w AND bit_mask p \<noteq> 0) \<longleftrightarrow> (\<exists>n. bit (w AND bit_mask p) n)"
    by (metis bit_0_eq bit_eqI bot_apply bot_bool_def)
  then show ?thesis by (auto simp: bit_and_iff bit_bit_mask)
qed

lemma set_create_wf: "set_wf (set_create n)" "members (set_create n) = {}" "set_size (set_create n) = n"
proof -
  have "unat (n div 8 + 1 + (if n mod 8 \<noteq> 0 then 1 else 0)) > unat n div 8"
  proof -
    have "unat n < 2 ^ 32" by (rule order_less_le_trans [OF unsigned_less]) simp
    then have "unat n div 8 < 2 ^ 29" by simp
    then have "unat (n div 8 + 1) = unat n div 8 + 1"
      "unat (n div 8 + 1 + 1) = unat n div 8 + 2"
      by (simp_all add: unat_word_ariths unat_div8)
    then show ?thesis by auto
  qed
  then show "set_wf (set_create n)" by (simp add: set_wf_def set_create_def)
  show "members (set_create n) = {}" by (auto simp: members_def set_create_def)
qed (simp add: set_create_def)

lemma in_range: "set_wf s \<Longrightarrow> p \<le> set_size s \<Longrightarrow> unat p div 8 < length (setinfo s)"
  unfolding set_wf_def by (meson div_le_mono le_less_trans unat_mono word_le_nat_alt)

lemma set_add_ok:
  assumes "set_wf s" and "p \<le> set_size s"
  shows "\<exists>s'. set_add p s = Some s' \<and> set_wf s' \<and> set_size s' = set_size s \<and>
    members s' = insert (unat p) (members s)"
proof -
  have i: "unat p div 8 < length (setinfo s)" by (rule in_range [OF assms])
  have "q = unat p" if "q div 8 = unat p div 8" "q mod 8 = unat p mod 8" for q
    using that by (metis div_mult_mod_eq)
  then show ?thesis
    using i assms(1)
    by (auto simp: set_add_def Let_def unat_div8 set_wf_def members_def nth_list_update bit_or_iff
        bit_bit_mask)
qed

lemma set_remove_ok:
  assumes "set_wf s" and "p \<le> set_size s"
  shows "\<exists>s'. set_remove p s = Some s' \<and> set_wf s' \<and> set_size s' = set_size s \<and>
    members s' = members s - {unat p}"
proof -
  have i: "unat p div 8 < length (setinfo s)" by (rule in_range [OF assms])
  have "q = unat p" if "q div 8 = unat p div 8" "q mod 8 = unat p mod 8" for q
    using that by (metis div_mult_mod_eq)
  moreover have "bit (NOT (bit_mask p)) (q mod 8) \<longleftrightarrow> q mod 8 \<noteq> unat p mod 8" for q
    by (simp add: bit_not_iff bit_bit_mask)
  ultimately show ?thesis
    using i assms(1)
    by (auto simp: set_remove_def Let_def unat_div8 set_wf_def members_def nth_list_update
        bit_and_iff)
qed

lemma set_in_ok:
  assumes "set_wf s" and "p \<le> set_size s"
  shows "set_in_ex p s = Some (unat p \<in> members s)"
  using in_range [OF assms]
  by (simp add: set_in_ex_def Let_def unat_div8 and_mask_nonzero members_def)

section \<open>The set interface\<close>

locale finite_set =
  fixes wf :: "'s \<Rightarrow> bool"
    and dom :: "'s \<Rightarrow> 'p \<Rightarrow> bool"
    and elems :: "'s \<Rightarrow> nat set"
    and idx :: "'p \<Rightarrow> nat"
    and add :: "'p \<Rightarrow> 's \<Rightarrow> 's option"
    and remove :: "'p \<Rightarrow> 's \<Rightarrow> 's option"
    and mem :: "'p \<Rightarrow> 's \<Rightarrow> bool option"
  assumes add: "wf s \<Longrightarrow> dom s p \<Longrightarrow>
      \<exists>s'. add p s = Some s' \<and> wf s' \<and> dom s' = dom s \<and> elems s' = insert (idx p) (elems s)"
    and remove: "wf s \<Longrightarrow> dom s p \<Longrightarrow>
      \<exists>s'. remove p s = Some s' \<and> wf s' \<and> dom s' = dom s \<and> elems s' = elems s - {idx p}"
    and mem: "wf s \<Longrightarrow> dom s p \<Longrightarrow> mem p s = Some (idx p \<in> elems s)"
begin

fun adds :: "'p list \<Rightarrow> 's \<Rightarrow> 's option" where
  "adds [] s = Some s"
| "adds (p # ps) s = Option.bind (add p s) (adds ps)"

lemma adds_ok:
  "wf s \<Longrightarrow> \<forall>p \<in> set ps. dom s p \<Longrightarrow>
   \<exists>s'. adds ps s = Some s' \<and> wf s' \<and> dom s' = dom s \<and> elems s' = elems s \<union> idx ` set ps"
proof (induction ps arbitrary: s)
  case (Cons p ps)
  obtain s1 where s1: "add p s = Some s1" "wf s1" "dom s1 = dom s" "elems s1 = insert (idx p) (elems s)"
    using add [of s p] Cons.prems by auto
  then show ?case using Cons.IH [of s1] Cons.prems by auto
qed simp

end

interpretation bs: finite_set set_wf "\<lambda>s p. p \<le> set_size s" members unat set_add set_remove set_in_ex
proof
  fix s p
  assume "set_wf s" "p \<le> set_size s"
  then show "\<exists>s'. set_add p s = Some s' \<and> set_wf s' \<and> (\<lambda>p. p \<le> set_size s') = (\<lambda>p. p \<le> set_size s) \<and>
      members s' = insert (unat p) (members s)"
    using set_add_ok [of s p] by auto
next
  fix s p
  assume "set_wf s" "p \<le> set_size s"
  then show "\<exists>s'. set_remove p s = Some s' \<and> set_wf s' \<and> (\<lambda>p. p \<le> set_size s') = (\<lambda>p. p \<le> set_size s) \<and>
      members s' = members s - {unat p}"
    using set_remove_ok [of s p] by auto
qed (rule set_in_ok)

section \<open>Properties\<close>

text \<open>A bit set created for \<open>n\<close> positions can be used for all positions up to and including \<open>n\<close>
  without leaving its byte array; adding a list of positions and removing one gives exactly the set one
  expects.\<close>

lemma bitset_is_set:
  assumes "\<forall>p \<in> set ps. p \<le> n" and "q \<le> n" and "r \<le> n"
  shows "\<exists>s1 s2. bs.adds ps (set_create n) = Some s1 \<and> set_remove q s1 = Some s2 \<and>
    members s2 = unat ` set ps - {unat q} \<and> set_in_ex r s2 = Some (r \<in> set ps \<and> r \<noteq> q)"
proof -
  have "\<forall>p \<in> set ps. p \<le> set_size (set_create n)" using assms(1) by (simp add: set_create_wf)
  from bs.adds_ok [OF set_create_wf(1) this]
  obtain s1 where s1: "bs.adds ps (set_create n) = Some s1" "set_wf s1"
    "(\<lambda>p. p \<le> set_size s1) = (\<lambda>p. p \<le> n)" "members s1 = unat ` set ps"
    by (auto simp: set_create_wf)
  have le: "p \<le> set_size s1 \<longleftrightarrow> p \<le> n" for p using fun_cong [OF s1(3), of p] by simp
  obtain s2 where s2: "set_remove q s1 = Some s2" "set_wf s2" "set_size s2 = set_size s1"
    "members s2 = members s1 - {unat q}"
    using set_remove_ok [OF s1(2)] assms(2) le by blast
  have "set_in_ex r s2 = Some (unat r \<in> members s2)"
    using set_in_ok [OF s2(2)] assms(3) le s2(3) by simp
  moreover have "unat r \<in> members s2 \<longleftrightarrow> r \<in> set ps \<and> r \<noteq> q"
    unfolding s2(4) s1(4) by (auto simp: image_iff simp flip: word_unat_eq_iff)
  ultimately show ?thesis using s1(1,4) s2(1,4) by (intro exI [of _ s1] exI [of _ s2]) simp
qed

lemma bitset_is_set_witness:
  "\<exists>s1 s2. bs.adds [3, 9] (set_create 9) = Some s1 \<and> set_remove 3 s1 = Some s2 \<and>
     set_in_ex 9 s2 = Some True"
proof -
  have p: "\<forall>p \<in> set [3, 9]. p \<le> (9 :: u32)" "(3 :: u32) \<le> 9" "(9 :: u32) \<le> 9" by simp_all
  show ?thesis
    using bitset_is_set [OF p] by (elim exE conjE) (intro exI conjI, assumption+, simp)
qed

end
