(* ===== verification/OpArray.thy ===== *)
theory OpArray
  imports Prelude
begin

text \<open>
  What the coverage code reads of PHP's compiled functions: \<open>zend_op_array\<close> with its opcodes. The
  opcode numbers are constants of the Zend headers and become constructors; opcodes the code does not
  name are \<open>ZEND_OTHER\<close>. The layout is the one of 64-bit builds, where jumps are byte offsets
  (\<open>ZEND_USE_ABS_JMP_ADDR\<close> is 0) and \<open>sizeof(zend_op)\<close> is 32.
\<close>

datatype zend_opcode =
    ZEND_NOP | ZEND_EXT_NOP | ZEND_RECV | ZEND_RECV_INIT | ZEND_VERIFY_ABSTRACT_CLASS
  | ZEND_OP_DATA | ZEND_ADD_INTERFACE | ZEND_TICKS | ZEND_RECV_VARIADIC
  | ZEND_JMP | ZEND_JMPZ | ZEND_JMPNZ | ZEND_JMPZ_EX | ZEND_JMPNZ_EX | ZEND_JMPZNZ
  | ZEND_FE_FETCH_R | ZEND_FE_FETCH_RW | ZEND_FE_RESET_R | ZEND_FE_RESET_RW
  | ZEND_CATCH | ZEND_GOTO | ZEND_FAST_CALL | ZEND_FAST_RET | ZEND_GENERATOR_RETURN
  | ZEND_EXIT | ZEND_THROW | ZEND_RETURN | ZEND_RETURN_BY_REF
  | ZEND_SWITCH_LONG | ZEND_SWITCH_STRING | ZEND_FETCH_CLASS | ZEND_OTHER nat

text \<open>\<open>switch_vals\<close> are the \<open>lval\<close>s of the jump table in the literal a switch opcode refers to.\<close>

record zend_op =
  opcode :: zend_opcode
  lineno :: nat
  op1_jmp_offset :: u32
  op2_jmp_offset :: u32
  extended_value :: u32
  result_num :: u32
  switch_vals :: "u64 list"

type_synonym opcodes = "zend_op list"

definition SIZEOF_ZEND_OP :: u64 where
  "SIZEOF_ZEND_OP = 32"

text \<open>Reading an opcode; past the end of the array is \<open>None\<close>.\<close>

definition op_at :: "opcodes \<Rightarrow> nat \<Rightarrow> zend_op option" where
  "op_at opa i = (if i < length opa then Some (opa ! i) else None)"

lemma op_at_Some [simp]: "i < length opa \<Longrightarrow> op_at opa i = Some (opa ! i)"
  by (simp add: op_at_def)

lemma op_at_None [simp]: "length opa \<le> i \<Longrightarrow> op_at opa i = None"
  by (simp add: op_at_def)

end
