(* ===== verification/BranchInfo.thy ===== *)
theory BranchInfo
  imports Prelude BitSet Str Hash OpArray "HOL-Library.Sublist"
begin

text \<open>
  The branch and path analysis \<open>xdebug_branch_info.c\<close>. The sets are those of \<open>BitSet\<close>, keys are
  built in an \<open>xstr\<close> and stored in the hash table of \<open>Hash\<close>; a path pointer is the index of the path in
  \<open>paths\<close>. A read or write outside an array is \<open>None\<close>. The path search recurses along the branches; its
  first argument bounds the depth, and the lemmas show that one more than the number of edges is enough.
\<close>

section \<open>Data\<close>

definition XDEBUG_JMP_NOT_SET :: int where
  "XDEBUG_JMP_NOT_SET = 2147483646"

definition XDEBUG_JMP_EXIT :: int where
  "XDEBUG_JMP_EXIT = 2147483645"

definition XDEBUG_BRANCH_MAX_OUTS :: nat where
  "XDEBUG_BRANCH_MAX_OUTS = 64"

record branch =
  start_lineno :: nat
  end_lineno :: nat
  end_op :: nat
  branch_hit :: bool
  outs_count :: nat
  outs :: "int list"
  outs_hit :: "bool list"

record path =
  elements :: "nat list"
  elements_size :: nat
  path_hit :: bool

record branch_info =
  bi_size :: nat
  entry_points :: xset
  starts :: xset
  ends :: xset
  branches :: "branch list"
  paths :: "path list"
  paths_size :: nat
  path_hash :: "nat xhash option"

text \<open>\<open>calloc\<close> zeroes the branches.\<close>

definition zero_branch :: branch where
  "zero_branch =
     \<lparr>start_lineno = 0, end_lineno = 0, end_op = 0, branch_hit = False, outs_count = 0,
      outs = replicate XDEBUG_BRANCH_MAX_OUTS 0,
      outs_hit = replicate XDEBUG_BRANCH_MAX_OUTS False\<rparr>"

definition branch_info_create :: "nat \<Rightarrow> branch_info" where
  "branch_info_create n =
     \<lparr>bi_size = n, entry_points = set_create (of_nat n), starts = set_create (of_nat n),
      ends = set_create (of_nat n), branches = replicate n zero_branch,
      paths = [], paths_size = 0, path_hash = None\<rparr>"

text \<open>Changing the branch at an index.\<close>

definition mod_branch :: "nat \<Rightarrow> (branch \<Rightarrow> branch) \<Rightarrow> branch_info \<Rightarrow> branch_info option" where
  "mod_branch i f bi =
     (if i < length (branches bi)
      then Some (bi\<lparr>branches := (branches bi)[i := f (branches bi ! i)]\<rparr>) else None)"

definition branch_info_update ::
  "branch_info \<Rightarrow> nat \<Rightarrow> nat \<Rightarrow> nat \<Rightarrow> int \<Rightarrow> branch_info option" where
  "branch_info_update bi pos lno outidx jump_pos =
     do {
       e \<leftarrow> set_add (of_nat pos) (ends bi);
       let bi = bi\<lparr>ends := e\<rparr>;
       bi \<leftarrow> (if outidx < XDEBUG_BRANCH_MAX_OUTS
              then mod_branch pos
                     (\<lambda>b. b\<lparr>outs := (outs b)[outidx := jump_pos],
                            outs_count := (if outs_count b < outidx + 1 then outidx + 1
                                           else outs_count b)\<rparr>) bi
              else Some bi);
       mod_branch pos (\<lambda>b. b\<lparr>start_lineno := lno\<rparr>) bi
     }"

section \<open>Catches and branch ends\<close>

text \<open>The target of a catch: the offset is divided as an unsigned 64-bit number.\<close>

definition catch_target :: "nat \<Rightarrow> zend_op \<Rightarrow> nat" where
  "catch_target position opn =
     unat (ucast ((of_nat position :: u64) + (scast (extended_value opn) :: u64) div SIZEOF_ZEND_OP) :: u32)"

text \<open>Following a chain of catches; \<open>None\<close> is an access out of bounds or a chain that never ends.\<close>

partial_function (option) only_leave_first_catch ::
  "opcodes \<Rightarrow> nat \<Rightarrow> branch_info \<Rightarrow> branch_info option" where
  "only_leave_first_catch opa position0 bi =
     do {
       op0 \<leftarrow> op_at opa position0;
       let position = (if opcode op0 = ZEND_FETCH_CLASS then position0 + 1 else position0);
       opn \<leftarrow> op_at opa position;
       if opcode opn \<noteq> ZEND_CATCH then Some bi
       else do {
         ep \<leftarrow> set_remove (of_nat position) (entry_points bi);
         let bi = bi\<lparr>entry_points := ep\<rparr>;
         if result_num opn = 0
         then do {
           let exit0 = catch_target position opn;
           e0 \<leftarrow> op_at opa exit0;
           let exit_jmp = (if opcode e0 = ZEND_FETCH_CLASS then exit0 + 1 else exit0);
           e \<leftarrow> op_at opa exit_jmp;
           if opcode e = ZEND_CATCH then only_leave_first_catch opa exit_jmp bi else Some bi
         }
         else Some bi
       }
     }"

text \<open>The first loop of \<open>xdebug_branch_post_process\<close>, over positions \<open>i\<close> up to the set's size.\<close>

fun chain_catches :: "opcodes \<Rightarrow> nat list \<Rightarrow> branch_info \<Rightarrow> branch_info option" where
  "chain_catches opa [] bi = Some bi"
| "chain_catches opa (i # is) bi =
     do {
       entry \<leftarrow> set_in_ex (of_nat i) (entry_points bi);
       bi \<leftarrow> (if entry then do {
                opn \<leftarrow> op_at opa i;
                if opcode opn = ZEND_CATCH
                then only_leave_first_catch opa (catch_target i opn) bi else Some bi
              } else Some bi);
       chain_catches opa is bi
     }"

text \<open>
  The second loop: \<open>in_branch\<close> and \<open>last_start\<close> (-1 before the first start) are its local state. Using
  \<open>last_start\<close> while it is -1 is an access out of bounds.
\<close>

definition close_branch :: "nat \<Rightarrow> bool \<times> int \<times> branch_info \<Rightarrow> (bool \<times> int \<times> branch_info) option" where
  "close_branch i = (\<lambda>(in_branch, last_start, bi).
     do {
       start \<leftarrow> set_in_ex (of_nat i) (starts bi);
       (in_branch, last_start, bi) \<leftarrow>
         (if start then do {
            bi \<leftarrow> (if in_branch then do {
                     bthis \<leftarrow> (if i < length (branches bi) then Some (branches bi ! i) else None);
                     mod_branch (nat last_start)
                       (\<lambda>b. b\<lparr>outs_count := 1, outs := (outs b)[0 := int i], end_op := i - 1,
                              end_lineno := start_lineno bthis\<rparr>) bi
                   } else Some bi);
            Some (True, int i, bi)
          } else Some (in_branch, last_start, bi));
       fin \<leftarrow> set_in_ex (of_nat i) (ends bi);
       (if fin then do {
          bthis \<leftarrow> (if i < length (branches bi) then Some (branches bi ! i) else None);
          bi \<leftarrow> (if last_start < 0 then None
                 else mod_branch (nat last_start)
                        (\<lambda>b. b\<lparr>outs := take (outs_count bthis) (outs bthis) @ drop (outs_count bthis) (outs b),
                               outs_count := outs_count bthis, end_op := i,
                               end_lineno := start_lineno bthis\<rparr>) bi);
          Some (False, last_start, bi)
        } else Some (in_branch, last_start, bi))
     })"

fun close_branches :: "nat list \<Rightarrow> bool \<times> int \<times> branch_info \<Rightarrow> (bool \<times> int \<times> branch_info) option" where
  "close_branches [] st = Some st"
| "close_branches (i # is) st = do { st \<leftarrow> close_branch i st; close_branches is st }"

definition branch_post_process :: "opcodes \<Rightarrow> branch_info \<Rightarrow> branch_info option" where
  "branch_post_process opa bi =
     do {
       bi \<leftarrow> chain_catches opa [0..<unat (set_size (entry_points bi))] bi;
       (_, _, bi) \<leftarrow> close_branches [0..<unat (set_size (starts bi))] (False, - 1, bi);
       Some bi
     }"

section \<open>Paths\<close>

definition path_new_empty :: path where
  "path_new_empty = \<lparr>elements = [], elements_size = 0, path_hit = False\<rparr>"

definition path_add :: "nat \<Rightarrow> path \<Rightarrow> path" where
  "path_add nr p =
     p\<lparr>elements_size := (if length (elements p) = elements_size p then elements_size p + 32
                         else elements_size p),
       elements := elements p @ [nr]\<rparr>"

definition path_new :: "path option \<Rightarrow> path" where
  "path_new old =
     (case old of None \<Rightarrow> path_new_empty
      | Some p \<Rightarrow> foldl (\<lambda>q e. path_add e q) path_new_empty (elements p))"

definition path_info_add_path :: "path \<Rightarrow> branch_info \<Rightarrow> branch_info" where
  "path_info_add_path p bi =
     bi\<lparr>paths_size := (if length (paths bi) = paths_size bi then paths_size bi + 32 else paths_size bi),
        paths := paths bi @ [p]\<rparr>"

definition find_last_element :: "path \<Rightarrow> nat" where
  "find_last_element p = last (elements p)"

definition path_exists :: "path \<Rightarrow> nat \<Rightarrow> nat \<Rightarrow> bool" where
  "path_exists p elem1 elem2 \<longleftrightarrow>
     list_ex (\<lambda>i. elements p ! i = elem1 \<and> elements p ! (i + 1) = elem2) [0..<length (elements p) - 1]"

text \<open>\<open>out\<close> is an \<open>int\<close>; as a branch number it is converted to \<open>unsigned\<close>.\<close>

definition to_unsigned :: "int \<Rightarrow> nat" where
  "to_unsigned i = unat (word_of_int i :: u32)"

function (sequential) find_path ::
    "nat \<Rightarrow> nat \<Rightarrow> path option \<Rightarrow> branch_info \<Rightarrow> branch_info option"
  and find_outs ::
    "nat \<Rightarrow> int list \<Rightarrow> path \<Rightarrow> bool \<Rightarrow> branch_info \<Rightarrow> (bool \<times> branch_info) option" where
  "find_path 0 nr prev bi = None"
| "find_path (Suc n) nr prev bi =
     (if 4095 < length (paths bi) then Some bi
      else if length (branches bi) \<le> nr then None
      else
        (let np = path_add nr (path_new prev); b = branches bi ! nr
         in case find_outs n (take (outs_count b) (outs b)) np False bi of
              None \<Rightarrow> None
            | Some (found, bi') \<Rightarrow>
                Some (if \<not> found then path_info_add_path np bi' else bi')))"
| "find_outs n [] np found bi = Some (found, bi)"
| "find_outs n (out # os) np found bi =
     (if out \<noteq> 0 \<and> out \<noteq> XDEBUG_JMP_EXIT \<and>
         \<not> path_exists np (find_last_element np) (to_unsigned out)
      then (case find_path n (to_unsigned out) (Some np) bi of
              None \<Rightarrow> None
            | Some bi' \<Rightarrow> find_outs n os np True bi')
      else find_outs n os np found bi)"
  by pat_completeness auto
termination
  by (relation "measures [\<lambda>x. case x of Inl (n, _) \<Rightarrow> n | Inr (n, _) \<Rightarrow> n,
                          \<lambda>x. case x of Inl _ \<Rightarrow> 0 | Inr (n, os, _) \<Rightarrow> Suc (length os)]") auto

section \<open>Keys\<close>

fun create_key_loop :: "char \<Rightarrow> nat list \<Rightarrow> xstr \<Rightarrow> xstr option" where
  "create_key_loop junk [] str = Some str"
| "create_key_loop junk (e # es) str =
     do { str \<leftarrow> str_add junk (take 14 (dec e @ '':'')) str; create_key_loop junk es str }"

definition create_key_for_path :: "char \<Rightarrow> path \<Rightarrow> xstr \<Rightarrow> xstr option" where
  "create_key_for_path junk p str = create_key_loop junk (elements p) str"

fun find_entry_paths :: "nat \<Rightarrow> nat list \<Rightarrow> branch_info \<Rightarrow> branch_info option" where
  "find_entry_paths fuel [] bi = Some bi"
| "find_entry_paths fuel (i # is) bi =
     do {
       entry \<leftarrow> set_in_ex (of_nat i) (entry_points bi);
       bi \<leftarrow> (if entry then find_path fuel i None bi else Some bi);
       find_entry_paths fuel is bi
     }"

fun hash_paths :: "char \<Rightarrow> path list \<Rightarrow> nat \<Rightarrow> nat xhash \<Rightarrow> nat xhash option" where
  "hash_paths junk [] i h = Some h"
| "hash_paths junk (p # ps) i h =
     do {
       key \<leftarrow> create_key_for_path junk p str_new;
       h \<leftarrow> hash_add_or_update (key_create (map_option (take (nat (str_l key))) (str_d key)) 0) i h;
       hash_paths junk ps (Suc i) h
     }"

definition branch_find_paths :: "char \<Rightarrow> nat \<Rightarrow> branch_info \<Rightarrow> branch_info option" where
  "branch_find_paths junk fuel bi =
     do {
       bi \<leftarrow> find_entry_paths fuel [0..<unat (set_size (entry_points bi))] bi;
       h \<leftarrow> hash_paths junk (paths bi) 0 (hash_alloc 128 False);
       Some (bi\<lparr>path_hash := Some h\<rparr>)
     }"

section \<open>The path search\<close>

text \<open>
  The edges the search follows: from a branch to an out that is neither 0 nor the exit. A trail uses
  every edge at most once; it is maximal when no unused edge leaves its end.
\<close>

definition valid_outs :: "branch list \<Rightarrow> nat \<Rightarrow> int list" where
  "valid_outs bs nr =
     filter (\<lambda>out. out \<noteq> 0 \<and> out \<noteq> XDEBUG_JMP_EXIT) (take (outs_count (bs ! nr)) (outs (bs ! nr)))"

definition graph :: "branch list \<Rightarrow> (nat \<times> nat) set" where
  "graph bs = (\<Union>a \<in> {..<length bs}. (\<lambda>out. (a, to_unsigned out)) ` set (valid_outs bs a))"

definition closed :: "branch list \<Rightarrow> bool" where
  "closed bs \<longleftrightarrow> (\<forall>(a, b) \<in> graph bs. b < length bs)"

definition edges :: "nat list \<Rightarrow> (nat \<times> nat) list" where
  "edges es = zip es (tl es)"

definition trail :: "(nat \<times> nat) set \<Rightarrow> nat list \<Rightarrow> bool" where
  "trail G es \<longleftrightarrow> es \<noteq> [] \<and> set (edges es) \<subseteq> G \<and> distinct (edges es)"

definition maximal :: "(nat \<times> nat) set \<Rightarrow> nat list \<Rightarrow> bool" where
  "maximal G es \<longleftrightarrow> (\<forall>b. (last es, b) \<in> G \<longrightarrow> (last es, b) \<in> set (edges es))"

lemma finite_graph [simp]: "finite (graph bs)"
  unfolding graph_def by simp

lemma graph_iff: "(a, b) \<in> graph bs \<longleftrightarrow> a < length bs \<and> (\<exists>out \<in> set (valid_outs bs a). b = to_unsigned out)"
  unfolding graph_def by auto

lemma edges_snoc: "es \<noteq> [] \<Longrightarrow> edges (es @ [b]) = edges es @ [(last es, b)]"
  unfolding edges_def
proof (induction es)
  case (Cons x xs)
  then show ?case by (cases xs) auto
qed simp

lemma edges_append_Cons:
  "es \<noteq> [] \<Longrightarrow> set (edges (es @ b # cs)) = set (edges es) \<union> {(last es, b)} \<union> set (edges (b # cs)) \<and>
   length (edges (es @ b # cs)) = length (edges es) + 1 + length (edges (b # cs))"
  unfolding edges_def
proof (induction es)
  case (Cons x xs)
  then show ?case by (cases xs) auto
qed simp

lemma distinct_edges_prefix:
  "es \<noteq> [] \<Longrightarrow> distinct (edges (es @ b # cs)) \<Longrightarrow> (last es, b) \<notin> set (edges es)"
  unfolding edges_def
proof (induction es)
  case (Cons x xs)
  show ?case
  proof (cases xs)
    case (Cons y ys)
    have "(x, y) \<notin> set (zip (y # ys @ b # cs) (ys @ b # cs))"
      using Cons.prems(2) Cons by simp
    moreover have "(last (y # ys), b) \<in> set (zip (y # ys @ b # cs) (ys @ b # cs))"
      using edges_append_Cons [of "y # ys" b cs] unfolding edges_def by auto
    ultimately show ?thesis using Cons.IH Cons.prems Cons by auto
  qed simp
qed simp

lemma elements_path_add [simp]: "elements (path_add nr p) = elements p @ [nr]"
  by (simp add: path_add_def)

lemma elements_path_new [simp]:
  "elements (path_new None) = []" "elements (path_new (Some p)) = elements p"
proof -
  have "elements (foldl (\<lambda>q e. path_add e q) q es) = elements q @ es" for q es
    by (induction es arbitrary: q) auto
  then show "elements (path_new (Some p)) = elements p"
    by (simp add: path_new_def path_new_empty_def)
qed (simp add: path_new_def path_new_empty_def)

lemma path_exists_iff: "path_exists p a b \<longleftrightarrow> (a, b) \<in> set (edges (elements p))"
  unfolding path_exists_def edges_def in_set_zip list_ex_iff
  by (auto simp: nth_tl)

definition same_graph :: "branch_info \<Rightarrow> branch_info \<Rightarrow> bool" where
  "same_graph bi bi' \<longleftrightarrow>
     bi_size bi' = bi_size bi \<and> entry_points bi' = entry_points bi \<and> starts bi' = starts bi \<and>
     ends bi' = ends bi \<and> branches bi' = branches bi \<and> path_hash bi' = path_hash bi"

text \<open>Every branch has its outs once; walks that were started all have the same length and differ.\<close>

definition distinct_outs :: "branch list \<Rightarrow> bool" where
  "distinct_outs bs \<longleftrightarrow> (\<forall>p < length bs. distinct (map to_unsigned (valid_outs bs p)))"

definition fan :: "nat list list \<Rightarrow> bool" where
  "fan xs \<longleftrightarrow> distinct xs \<and> (\<forall>a \<in> set xs. \<forall>b \<in> set xs. length a = length b)"

definition path_spec ::
  "branch list \<Rightarrow> nat list list \<Rightarrow> branch_info \<Rightarrow> branch_info \<Rightarrow> nat list list \<Rightarrow> bool" where
  "path_spec bs starts_with bi bi' new \<longleftrightarrow>
     same_graph bi bi' \<and>
     map elements (paths bi') = map elements (paths bi) @ new \<and>
     (\<forall>es \<in> set new. trail (graph bs) es \<and> maximal (graph bs) es \<and> (\<exists>np \<in> set starts_with. prefix np es)) \<and>
     length (paths bi') \<le> max (length (paths bi)) 4096 \<and>
     (length (paths bi') < 4096 \<longrightarrow>
        (\<forall>es. trail (graph bs) es \<and> maximal (graph bs) es \<and> (\<exists>np \<in> set starts_with. prefix np es)
           \<longrightarrow> es \<in> set new)) \<and>
     (distinct_outs bs \<longrightarrow> fan starts_with \<longrightarrow> distinct new)"

definition next_starts :: "nat list \<Rightarrow> int list \<Rightarrow> nat list list" where
  "next_starts np os =
     map (\<lambda>out. np @ [to_unsigned out])
       (filter (\<lambda>out. out \<noteq> 0 \<and> out \<noteq> XDEBUG_JMP_EXIT \<and> (last np, to_unsigned out) \<notin> set (edges np)) os)"

lemma path_spec_refl: "path_spec bs [] bi bi []"
  by (simp add: path_spec_def same_graph_def)

lemma path_spec_length:
  "path_spec bs xs bi bi' new \<Longrightarrow> length (paths bi') = length (paths bi) + length new"
  unfolding path_spec_def by (elim conjE) (drule arg_cong [where f = length and y = "_ @ _"], simp)

lemma path_spec_frame:
  "path_spec bs xs bi bi' new \<Longrightarrow> branches bi' = branches bi"
  unfolding path_spec_def same_graph_def by simp

lemma path_spec_trans:
  assumes "path_spec bs xs bi bi1 new1" and "path_spec bs ys bi1 bi2 new2"
  shows "path_spec bs (xs @ ys) bi bi2 (new1 @ new2)"
proof -
  note len = path_spec_length [OF assms(1)] path_spec_length [OF assms(2)]
  have "same_graph bi bi2" using assms unfolding path_spec_def same_graph_def by simp
  moreover have "map elements (paths bi2) = map elements (paths bi) @ new1 @ new2"
  proof -
    have "map elements (paths bi2) = map elements (paths bi1) @ new2"
      "map elements (paths bi1) = map elements (paths bi) @ new1"
      using assms unfolding path_spec_def by blast+
    then show ?thesis by simp
  qed
  moreover have "\<forall>es \<in> set (new1 @ new2). trail (graph bs) es \<and> maximal (graph bs) es \<and>
      (\<exists>np \<in> set (xs @ ys). prefix np es)"
  proof -
    have "\<forall>es \<in> set new1. trail (graph bs) es \<and> maximal (graph bs) es \<and> (\<exists>np \<in> set xs. prefix np es)"
      "\<forall>es \<in> set new2. trail (graph bs) es \<and> maximal (graph bs) es \<and> (\<exists>np \<in> set ys. prefix np es)"
      using assms unfolding path_spec_def by blast+
    then show ?thesis by (metis Un_iff set_append)
  qed
  moreover have "length (paths bi2) \<le> max (length (paths bi)) 4096"
  proof -
    have "length (paths bi1) \<le> max (length (paths bi)) 4096"
      "length (paths bi2) \<le> max (length (paths bi1)) 4096"
      using assms unfolding path_spec_def by blast+
    then show ?thesis by linarith
  qed
  moreover have "es \<in> set (new1 @ new2)"
    if "length (paths bi2) < 4096" "trail (graph bs) es" "maximal (graph bs) es"
      "np \<in> set (xs @ ys)" "prefix np es" for es np
  proof -
    have "length (paths bi1) < 4096" using that(1) len by simp
    then have "np \<in> set xs \<Longrightarrow> es \<in> set new1" "np \<in> set ys \<Longrightarrow> es \<in> set new2"
      using assms that unfolding path_spec_def by blast+
    then show ?thesis using that(4) by auto
  qed
  moreover have "distinct (new1 @ new2)" if d: "distinct_outs bs" "fan (xs @ ys)"
  proof -
    have "fan xs" "fan ys" using d(2) by (auto simp: fan_def)
    then have "distinct new1" "distinct new2" using assms d(1) unfolding path_spec_def by blast+
    moreover have "es \<notin> set new2" if es: "es \<in> set new1" for es
    proof
      assume "es \<in> set new2"
      then obtain x y where xy: "x \<in> set xs" "prefix x es" "y \<in> set ys" "prefix y es"
        using assms es unfolding path_spec_def by blast
      then have "length x = length y" using d(2) by (simp add: fan_def)
      then have "x = y" using xy(2,4) by (auto simp: prefix_def)
      then show False using xy(1,3) d(2) by (auto simp: fan_def)
    qed
    ultimately show ?thesis by auto
  qed
  ultimately show ?thesis unfolding path_spec_def by (metis append_assoc)
qed

lemma fan_next_starts:
  assumes "distinct_outs bs" and "nr < length bs"
  shows "fan (next_starts es (take (outs_count (bs ! nr)) (outs (bs ! nr))))"
proof -
  have "next_starts es (take (outs_count (bs ! nr)) (outs (bs ! nr))) =
      map (\<lambda>b. es @ [b]) (filter (\<lambda>b. (last es, b) \<notin> set (edges es)) (map to_unsigned (valid_outs bs nr)))"
    unfolding next_starts_def valid_outs_def by (simp add: filter_map comp_def conj_assoc)
  moreover have "distinct (map to_unsigned (valid_outs bs nr))"
    using assms by (simp add: distinct_outs_def)
  ultimately show ?thesis
    unfolding fan_def by (auto simp: distinct_map inj_on_def simp del: map_map)
qed

definition pre_elems :: "path option \<Rightarrow> nat list" where
  "pre_elems prev = (case prev of None \<Rightarrow> [] | Some p \<Rightarrow> elements p)"

lemma elements_path_new_pre [simp]: "elements (path_new prev) = pre_elems prev"
  by (cases prev) (simp_all add: pre_elems_def)

lemma next_start_graph:
  assumes "nr < length bs" and "es \<noteq> []" and "last es = nr"
  shows "es @ [b] \<in> set (next_starts es (take (outs_count (bs ! nr)) (outs (bs ! nr)))) \<longleftrightarrow>
    (nr, b) \<in> graph bs \<and> (nr, b) \<notin> set (edges es)"
  using assms unfolding next_starts_def graph_iff valid_outs_def by auto

lemma trail_extend:
  assumes "trail G es" and "(last es, b) \<in> G" and "(last es, b) \<notin> set (edges es)"
  shows "trail G (es @ [b])"
  using assms unfolding trail_def by (simp add: edges_snoc)

lemma card_unused:
  assumes "finite G" and "es \<noteq> []" and "(last es, b) \<in> G" and "(last es, b) \<notin> set (edges es)"
  shows "card (G - set (edges (es @ [b]))) < card (G - set (edges es))"
proof -
  have "G - set (edges (es @ [b])) = (G - set (edges es)) - {(last es, b)}"
    using assms(2) by (auto simp: edges_snoc)
  moreover have "(last es, b) \<in> G - set (edges es)" "finite (G - set (edges es))"
    using assms by auto
  ultimately show ?thesis by (simp only: card_Diff1_less)
qed

lemma path_spec_found:
  assumes "path_spec bs (next_starts es outs') bi bi' new"
    and "outs' = take (outs_count (bs ! nr)) (outs (bs ! nr))" and "nr < length bs"
    and "es \<noteq> []" and "last es = nr" and "next_starts es outs' \<noteq> []"
  shows "path_spec bs [es] bi bi' new"
proof -
  have pre: "prefix es np" if "np \<in> set (next_starts es outs')" for np
    using that unfolding next_starts_def by auto
  obtain b0 where b0: "(nr, b0) \<in> graph bs" "(nr, b0) \<notin> set (edges es)"
  proof -
    obtain np where np: "np \<in> set (next_starts es outs')"
      using assms(6) by (cases "next_starts es outs'") auto
    then obtain b where "np = es @ [b]" unfolding next_starts_def by auto
    then show ?thesis
      using that [of b] next_start_graph [OF assms(3-5), of b] np unfolding assms(2) by simp
  qed
  have compl: "\<exists>np \<in> set (next_starts es outs'). prefix np fs"
    if fs: "trail (graph bs) fs" "maximal (graph bs) fs" "prefix es fs" for fs
  proof -
    obtain cs where cs: "fs = es @ cs" using fs(3) by (auto elim: prefixE)
    have "cs \<noteq> []" using fs(2) b0 assms(5) unfolding cs maximal_def by auto
    then obtain b ds where ds: "cs = b # ds" by (cases cs) auto
    have "(last es, b) \<notin> set (edges es)"
      using distinct_edges_prefix [OF assms(4)] fs(1) unfolding cs ds trail_def by blast
    moreover have "(last es, b) \<in> graph bs"
      using edges_append_Cons [OF assms(4), of b ds] fs(1) unfolding cs ds trail_def by auto
    ultimately have "es @ [b] \<in> set (next_starts es outs')"
      using next_start_graph [OF assms(3-5), of b] assms(2,5) by auto
    moreover have "prefix (es @ [b]) fs" unfolding cs ds by (simp add: prefix_def)
    ultimately show ?thesis by blast
  qed
  have "trail (graph bs) fs \<and> maximal (graph bs) fs \<and> (\<exists>np \<in> set [es]. prefix np fs)"
    if "fs \<in> set new" for fs
  proof -
    have *: "trail (graph bs) fs" "maximal (graph bs) fs"
      "\<exists>np \<in> set (next_starts es outs'). prefix np fs"
      using assms(1) that unfolding path_spec_def by blast+
    then obtain np where "np \<in> set (next_starts es outs')" "prefix np fs" by blast
    then have "prefix es fs" using pre prefix_order.trans by blast
    then show ?thesis using * by simp
  qed
  moreover have "fs \<in> set new"
    if "length (paths bi') < 4096" "trail (graph bs) fs" "maximal (graph bs) fs" "prefix es fs" for fs
    using assms(1) that compl [OF that(2-4)] unfolding path_spec_def by blast
  moreover have "same_graph bi bi'" "map elements (paths bi') = map elements (paths bi) @ new"
    "length (paths bi') \<le> max (length (paths bi)) 4096"
    using assms(1) unfolding path_spec_def by blast+
  moreover have "distinct new" if "distinct_outs bs"
    using assms(1) fan_next_starts [OF that assms(3), of es] that unfolding path_spec_def assms(2) by blast
  ultimately show ?thesis unfolding path_spec_def by simp
qed

lemma path_spec_leaf:
  assumes "path_spec bs (next_starts es outs') bi bi' new"
    and "outs' = take (outs_count (bs ! nr)) (outs (bs ! nr))" and "nr < length bs"
    and "trail (graph bs) es" and "last es = nr" and "next_starts es outs' = []"
    and "length (paths bi) \<le> 4095" and "elements p = es"
  shows "path_spec bs [es] bi (path_info_add_path p bi') [es]"
proof -
  have ne: "es \<noteq> []" using assms(4) by (simp add: trail_def)
  have new: "new = []"
  proof -
    have "\<forall>x \<in> set new. \<exists>np \<in> set (next_starts es outs'). prefix np x"
      using assms(1) unfolding path_spec_def by blast
    then show ?thesis unfolding assms(6) by (cases new) auto
  qed
  have mx: "maximal (graph bs) es"
    using next_start_graph [OF assms(3) ne assms(5)] assms(2,5,6) unfolding maximal_def by auto
  have only: "fs = es" if fs: "trail (graph bs) fs" "prefix es fs" for fs
  proof -
    obtain cs where cs: "fs = es @ cs" using fs(2) by (auto elim: prefixE)
    show ?thesis
    proof (cases cs)
      case (Cons b ds)
      have "(last es, b) \<notin> set (edges es)"
        using distinct_edges_prefix [OF ne] fs(1) unfolding cs Cons trail_def by blast
      moreover have "(last es, b) \<in> graph bs"
        using edges_append_Cons [OF ne, of b ds] fs(1) unfolding cs Cons trail_def by auto
      ultimately show ?thesis using mx unfolding maximal_def by blast
    qed (simp add: cs)
  qed
  have "map elements (paths bi') = map elements (paths bi)" "same_graph bi bi'"
    using assms(1) unfolding path_spec_def new by auto
  moreover have "length (paths bi') = length (paths bi)"
    using path_spec_length [OF assms(1)] new by simp
  ultimately show ?thesis
    using assms(4,7,8) mx only unfolding path_spec_def path_info_add_path_def same_graph_def by auto
qed

lemma find_path_ok:
  "branches bi = bs \<Longrightarrow> closed bs \<Longrightarrow> nr < length bs \<Longrightarrow> trail (graph bs) (pre_elems prev @ [nr]) \<Longrightarrow>
   card (graph bs - set (edges (pre_elems prev @ [nr]))) < n \<Longrightarrow>
   \<exists>bi' new. find_path n nr prev bi = Some bi' \<and> path_spec bs [pre_elems prev @ [nr]] bi bi' new"
  and find_outs_ok:
  "branches bi = bs \<Longrightarrow> closed bs \<Longrightarrow> trail (graph bs) (elements np) \<Longrightarrow>
   last (elements np) < length bs \<Longrightarrow>
   set os \<subseteq> set (take (outs_count (bs ! last (elements np))) (outs (bs ! last (elements np)))) \<Longrightarrow>
   card (graph bs - set (edges (elements np))) \<le> n \<Longrightarrow>
   \<exists>bi' new. find_outs n os np found bi = Some (found \<or> next_starts (elements np) os \<noteq> [], bi') \<and>
     path_spec bs (next_starts (elements np) os) bi bi' new"
proof (induction n nr prev bi and n os np found bi rule: find_path_find_outs.induct)
  case (2 n nr prev bi)
  let ?es = "pre_elems prev @ [nr]" and ?np = "path_add nr (path_new prev)"
  let ?outs = "take (outs_count (bs ! nr)) (outs (bs ! nr))"
  show ?case
  proof (cases "4095 < length (paths bi)")
    case True
    then have "path_spec bs [?es] bi bi []" unfolding path_spec_def same_graph_def by simp
    then show ?thesis using True by auto
  next
    case False
    have np: "elements ?np = ?es" by simp
    have "\<exists>bi' new. find_outs n ?outs ?np False bi = Some (False \<or> next_starts (elements ?np) ?outs \<noteq> [], bi') \<and>
        path_spec bs (next_starts (elements ?np) ?outs) bi bi' new"
      using "2.prems" False by (intro "2.IH") (auto simp: np not_less)
    then obtain bi' new where fo: "find_outs n ?outs ?np False bi = Some (next_starts ?es ?outs \<noteq> [], bi')"
      "path_spec bs (next_starts ?es ?outs) bi bi' new"
      unfolding np by auto
    show ?thesis
    proof (cases "next_starts ?es ?outs = []")
      case True
      have "path_spec bs [?es] bi (path_info_add_path ?np bi') [?es]"
        using False "2.prems" by (intro path_spec_leaf [OF fo(2) refl _ _ _ True]) auto
      then show ?thesis using fo(1) True False "2.prems"(1,3) by (auto simp: Let_def)
    next
      case nz: False
      have "path_spec bs [?es] bi bi' new"
        using "2.prems" by (intro path_spec_found [OF fo(2) refl _ _ _ nz]) auto
      then show ?thesis using fo(1) nz False "2.prems"(1,3) by (auto simp: Let_def)
    qed
  qed
next
  case (4 n out os np found bi)
  let ?es = "elements np" and ?b = "to_unsigned out"
  have ne: "?es \<noteq> []" using "4.prems"(3) by (simp add: trail_def)
  show ?case
  proof (cases "out \<noteq> 0 \<and> out \<noteq> XDEBUG_JMP_EXIT \<and> (last ?es, ?b) \<notin> set (edges ?es)")
    case True
    have cond: "out \<noteq> 0 \<and> out \<noteq> XDEBUG_JMP_EXIT \<and> \<not> path_exists np (find_last_element np) (to_unsigned out)"
      using True by (simp add: path_exists_iff find_last_element_def)
    have e: "(last ?es, ?b) \<in> graph bs"
      using True "4.prems"(4,5) unfolding graph_iff valid_outs_def by auto
    have "?b < length bs" using "4.prems"(2) e unfolding closed_def by auto
    then have "\<exists>bi1 new. find_path n ?b (Some np) bi = Some bi1 \<and>
        path_spec bs [pre_elems (Some np) @ [?b]] bi bi1 new"
      using "4.prems" e True card_unused [OF finite_graph ne e] trail_extend [OF "4.prems"(3) e]
      by (intro "4.IH"(1) [OF cond]) (auto simp: pre_elems_def)
    then obtain bi1 new1 where p: "find_path n ?b (Some np) bi = Some bi1"
      "path_spec bs [?es @ [?b]] bi bi1 new1"
      by (auto simp: pre_elems_def)
    have "\<exists>bi' new. find_outs n os np True bi1 = Some (True \<or> next_starts ?es os \<noteq> [], bi') \<and>
        path_spec bs (next_starts ?es os) bi1 bi' new"
      using "4.prems" path_spec_frame [OF p(2)] by (intro "4.IH"(2) [OF cond p(1)]) auto
    then obtain bi2 new2 where q: "find_outs n os np True bi1 = Some (True, bi2)"
      "path_spec bs (next_starts ?es os) bi1 bi2 new2" by auto
    have "next_starts ?es (out # os) = [?es @ [?b]] @ next_starts ?es os"
      using True by (simp add: next_starts_def)
    moreover have "find_outs n (out # os) np found bi = Some (True, bi2)"
      using cond p(1) q(1) by simp
    ultimately show ?thesis using path_spec_trans [OF p(2) q(2)] by auto
  next
    case False
    then have cond: "\<not> (out \<noteq> 0 \<and> out \<noteq> XDEBUG_JMP_EXIT \<and>
        \<not> path_exists np (find_last_element np) (to_unsigned out))"
      by (simp add: path_exists_iff find_last_element_def)
    have "next_starts ?es (out # os) = next_starts ?es os"
      using False by (auto simp: next_starts_def)
    then show ?thesis using "4.IH"(3) [OF cond] "4.prems" cond by auto
  qed
qed (auto simp: next_starts_def intro: path_spec_refl)

section \<open>Keys identify paths\<close>

definition key_text :: "nat list \<Rightarrow> string" where
  "key_text es = concat (map (\<lambda>e. dec e @ '':'') es)"

lemma colon_notin_dec: "CHR '':'' \<notin> set (dec n)"
  using dec_isdigit [of "CHR '':''" n] by (auto simp: isdigit_def uchar_def)

lemma key_text_inj: "key_text es = key_text fs \<longleftrightarrow> es = fs"
proof (induction es arbitrary: fs)
  case Nil
  then show ?case by (cases fs) (auto simp: key_text_def)
next
  case (Cons e es)
  show ?case
  proof (cases fs)
    case (Cons f gs)
    have "key_text (e # es) = key_text (f # gs) \<longleftrightarrow>
        dec e @ CHR '':'' # key_text es = dec f @ CHR '':'' # key_text gs"
      by (simp add: key_text_def)
    also have "\<dots> \<longleftrightarrow> dec e = dec f \<and> key_text es = key_text gs"
      by (rule append_sep_inj) (rule colon_notin_dec)+
    finally show ?thesis using Cons.IH [of gs] Cons by (simp add: dec_inj)
  qed (simp add: key_text_def)
qed

lemma create_key_loop_ok:
  assumes "str_wf str" and "\<forall>e \<in> set es. e < 2 ^ 32"
  shows "\<exists>str'. create_key_loop junk es str = Some str' \<and> str_wf str' \<and>
    content str' = content str @ key_text es"
  using assms
proof (induction es arbitrary: str)
  case (Cons e es)
  have "e < 10 ^ 10" using Cons.prems(2) by simp
  then have len: "length (dec e) \<le> 10" by (rule length_dec) simp
  obtain s1 where s1: "str_add junk (take 14 (dec e @ '':'')) str = Some s1" "str_wf s1"
    "content s1 = content str @ dec e @ '':''"
    using str_add_ok [OF Cons.prems(1), of "take 14 (dec e @ '':'')" junk] len by auto
  have "\<exists>str'. create_key_loop junk es s1 = Some str' \<and> str_wf str' \<and>
      content str' = content s1 @ key_text es"
    using Cons.prems(2) by (intro Cons.IH [OF s1(2)]) simp
  then show ?case using s1 by (auto simp: key_text_def)
qed (simp add: key_text_def)

definition path_key :: "nat list \<Rightarrow> hkey" where
  "path_key es = Key_string (key_text es)"

lemma key_ok_path_key: "es \<noteq> [] \<Longrightarrow> key_ok (path_key es)"
  by (cases es) (auto simp: key_ok_def path_key_def key_text_def)

lemma created_key:
  assumes "\<forall>e \<in> set (elements p). e < 2 ^ 32" and "elements p \<noteq> []"
  shows "\<exists>key. create_key_for_path junk p str_new = Some key \<and>
    key_create (map_option (take (nat (str_l key))) (str_d key)) 0 = path_key (elements p)"
proof -
  obtain key where k: "create_key_for_path junk p str_new = Some key" "str_wf key"
    "content key = key_text (elements p)"
    using create_key_loop_ok [OF str_wf_new(1) assms(1), of junk]
    unfolding create_key_for_path_def by auto
  have "content key \<noteq> []" using k(3) assms(2) by (cases "elements p") (auto simp: key_text_def)
  then show ?thesis using k by (cases "str_d key") (auto simp: key_create_def path_key_def content_def)
qed

lemma path_key_inj: "path_key es = path_key fs \<longleftrightarrow> es = fs"
  by (simp add: path_key_def key_text_inj)

lemma hash_paths_ok:
  assumes "hash_inv h" and "\<forall>p \<in> set ps. elements p \<noteq> [] \<and> (\<forall>e \<in> set (elements p). e < 2 ^ 32)"
  shows "\<exists>h'. hash_paths junk ps i h = Some h' \<and> hash_inv h' \<and>
    (\<forall>es j. abs_hash h' (path_key es) = Some j \<longrightarrow>
       abs_hash h (path_key es) = Some j \<or>
       (i \<le> j \<and> j < i + length ps \<and> elements (ps ! (j - i)) = es)) \<and>
    (\<forall>es. es \<in> elements ` set ps \<or> abs_hash h (path_key es) \<noteq> None \<longrightarrow>
       abs_hash h' (path_key es) \<noteq> None)"
  using assms
proof (induction ps arbitrary: i h)
  case (Cons p ps)
  obtain key where key: "create_key_for_path junk p str_new = Some key"
    "key_create (map_option (take (nat (str_l key))) (str_d key)) 0 = path_key (elements p)"
    using created_key [of p junk] Cons.prems(2) by auto
  have "key_ok (path_key (elements p))" using Cons.prems(2) by (simp add: key_ok_path_key)
  from hash_add_or_update_ok [OF Cons.prems(1) this, of i]
  obtain h1 where h1: "hash_add_or_update (path_key (elements p)) i h = Some h1" "hash_inv h1"
    "abs_hash h1 = (abs_hash h)(path_key (elements p) \<mapsto> i)" by blast
  have "\<forall>p \<in> set ps. elements p \<noteq> [] \<and> (\<forall>e \<in> set (elements p). e < 2 ^ 32)"
    using Cons.prems(2) by simp
  from Cons.IH [OF h1(2) this, of "Suc i"]
  obtain h2 where h2: "hash_paths junk ps (Suc i) h1 = Some h2" "hash_inv h2"
    "\<forall>es j. abs_hash h2 (path_key es) = Some j \<longrightarrow> abs_hash h1 (path_key es) = Some j \<or>
       (Suc i \<le> j \<and> j < Suc i + length ps \<and> elements (ps ! (j - Suc i)) = es)"
    "\<forall>es. es \<in> elements ` set ps \<or> abs_hash h1 (path_key es) \<noteq> None \<longrightarrow>
       abs_hash h2 (path_key es) \<noteq> None" by blast
  have run: "hash_paths junk (p # ps) i h = Some h2" using key h1(1) h2(1) by simp
  have sound: "abs_hash h (path_key es) = Some j \<or>
      (i \<le> j \<and> j < i + length (p # ps) \<and> elements ((p # ps) ! (j - i)) = es)"
    if a: "abs_hash h2 (path_key es) = Some j" for es j
  proof (cases "abs_hash h1 (path_key es) = Some j")
    case True
    then show ?thesis unfolding h1(3) by (auto simp: path_key_inj split: if_splits)
  next
    case False
    then have "Suc i \<le> j" "j < Suc i + length ps" "elements (ps ! (j - Suc i)) = es"
      using h2(3) a by blast+
    moreover have "j - i = Suc (j - Suc i)" using calculation(1) by simp
    ultimately show ?thesis by simp
  qed
  have complete: "abs_hash h2 (path_key es) \<noteq> None"
    if a: "es \<in> elements ` set (p # ps) \<or> abs_hash h (path_key es) \<noteq> None" for es
  proof -
    have "es \<in> elements ` set ps \<or> abs_hash h1 (path_key es) \<noteq> None"
      using a unfolding h1(3) by (auto simp: path_key_inj)
    then show ?thesis using h2(4) by blast
  qed
  show ?case
    by (intro exI [of _ h2] conjI allI impI run h2(2)) (rule sound, assumption, rule complete)
qed simp

section \<open>Properties\<close>

text \<open>C8: The path search from an entry point returns, on every graph of branches, however cyclic. It
  appends to the collected paths only maximal walks from the entry that use no edge twice, it never
  collects more than 4096 paths, unless it reaches that number it has collected all such walks, and
  when no branch has two equal outs it collects each of them once.\<close>

theorem find_path_exact:
  assumes "closed (branches bi)" and "nr < length (branches bi)"
    and "card (graph (branches bi)) < fuel"
  shows "\<exists>bi' new. find_path fuel nr None bi = Some bi' \<and>
    map elements (paths bi') = map elements (paths bi) @ new \<and>
    length (paths bi') \<le> max (length (paths bi)) 4096 \<and>
    (\<forall>es \<in> set new. hd es = nr \<and> trail (graph (branches bi)) es \<and> maximal (graph (branches bi)) es) \<and>
    (length (paths bi') < 4096 \<longrightarrow>
       (\<forall>es. hd es = nr \<and> trail (graph (branches bi)) es \<and> maximal (graph (branches bi)) es
          \<longrightarrow> es \<in> set new)) \<and>
    (distinct_outs (branches bi) \<longrightarrow> distinct new)"
proof -
  have "trail (graph (branches bi)) (pre_elems None @ [nr])"
    by (simp add: trail_def edges_def pre_elems_def)
  moreover have "card (graph (branches bi) - set (edges (pre_elems None @ [nr]))) < fuel"
    using assms(3) by (simp add: edges_def pre_elems_def)
  ultimately obtain bi' new where r: "find_path fuel nr None bi = Some bi'"
    "path_spec (branches bi) [[nr]] bi bi' new"
    using find_path_ok [OF refl assms(1,2), of None fuel] by (auto simp: pre_elems_def)
  have pre: "prefix [nr] es \<longleftrightarrow> hd es = nr" if "trail (graph (branches bi)) es" for es
    using that by (cases es) (auto simp: trail_def)
  have f1: "map elements (paths bi') = map elements (paths bi) @ new"
    "length (paths bi') \<le> max (length (paths bi)) 4096"
    using r(2) unfolding path_spec_def by blast+
  have f2: "\<forall>es \<in> set new. hd es = nr \<and> trail (graph (branches bi)) es \<and> maximal (graph (branches bi)) es"
  proof
    fix es assume "es \<in> set new"
    then have *: "trail (graph (branches bi)) es" "maximal (graph (branches bi)) es" "prefix [nr] es"
      using r(2) unfolding path_spec_def by auto
    then show "hd es = nr \<and> trail (graph (branches bi)) es \<and> maximal (graph (branches bi)) es"
      using pre [OF *(1)] by simp
  qed
  have f3: "\<forall>es. hd es = nr \<and> trail (graph (branches bi)) es \<and> maximal (graph (branches bi)) es
      \<longrightarrow> es \<in> set new" if "length (paths bi') < 4096"
  proof (intro allI impI, elim conjE)
    fix es assume es: "hd es = nr" "trail (graph (branches bi)) es" "maximal (graph (branches bi)) es"
    have "\<exists>np \<in> set [[nr]]. prefix np es" using pre [OF es(2)] es(1) by simp
    then show "es \<in> set new" using r(2) that es(2,3) unfolding path_spec_def by blast
  qed
  have f4: "distinct new" if "distinct_outs (branches bi)"
    using r(2) that unfolding path_spec_def fan_def by simp
  show ?thesis
    by (rule exI [of _ bi'], rule exI [of _ new], intro conjI impI)
       (rule r(1), rule f1(1), rule f1(2), rule f2, erule f3, erule f4)
qed

definition example_branches :: "branch list" where
  "example_branches =
     [zero_branch\<lparr>outs_count := 2, outs := [1, 2]\<rparr>,
      zero_branch\<lparr>outs_count := 1, outs := [1]\<rparr>,
      zero_branch\<lparr>outs_count := 1, outs := [XDEBUG_JMP_EXIT]\<rparr>]"

definition example_info :: branch_info where
  "example_info = (branch_info_create 3)\<lparr>branches := example_branches\<rparr>"

lemma example_graph: "graph (branches example_info) = {(0, 1), (0, 2), (1, 1)}"
proof -
  have "{..<length (branches example_info)} = {0, 1, 2}"
    by (auto simp: example_info_def example_branches_def)
  moreover have "valid_outs (branches example_info) 0 = [1, 2]"
    "valid_outs (branches example_info) 1 = [1]" "valid_outs (branches example_info) 2 = []"
    by (simp_all add: valid_outs_def example_info_def example_branches_def XDEBUG_JMP_EXIT_def)
  ultimately show ?thesis unfolding graph_def by (auto simp: to_unsigned_def)
qed

lemma example_distinct: "distinct_outs example_branches"
  by (auto simp: distinct_outs_def valid_outs_def example_branches_def less_Suc_eq nth_Cons'
      XDEBUG_JMP_EXIT_def to_unsigned_def)

theorem find_path_exact_witness:
  "\<exists>bi' new. find_path 4 0 None example_info = Some bi' \<and> map elements (paths bi') = new \<and>
     (\<forall>es \<in> set new. hd es = 0) \<and> length new \<le> 4096 \<and> distinct new"
proof -
  have "closed (branches example_info)" "0 < length (branches example_info)"
    "card (graph (branches example_info)) < 4"
    unfolding closed_def example_graph by (auto simp: example_info_def example_branches_def)
  from find_path_exact [OF this] show ?thesis
    using example_distinct by (auto simp: example_info_def branch_info_create_def)
qed

text \<open>The path table identifies executed paths exactly: for every sequence of branches the key built
  from it finds a collected path with exactly these branches, and finds nothing when no such path was
  collected.\<close>

lemma path_lookup_exact:
  assumes "\<forall>p \<in> set ps. elements p \<noteq> [] \<and> (\<forall>e \<in> set (elements p). e < 2 ^ 32)"
    and "elements q \<noteq> []" and "\<forall>e \<in> set (elements q). e < 2 ^ 32"
  shows "\<exists>h key r. hash_paths junk ps 0 (hash_alloc 128 False) = Some h \<and>
    create_key_for_path junk q str_new = Some key \<and>
    hash_extended_find (key_create (map_option (take (nat (str_l key))) (str_d key)) 0) h = Some r \<and>
    (case r of None \<Rightarrow> elements q \<notin> elements ` set ps
     | Some j \<Rightarrow> j < length ps \<and> elements (ps ! j) = elements q)"
proof -
  have pos: "0 < (128 :: nat)" by simp
  have e: "abs_hash (hash_alloc 128 False) k = (None :: nat option)" for k
    by (simp add: hash_alloc_ok(2) [OF pos])
  obtain h where h: "hash_paths junk ps 0 (hash_alloc 128 False) = Some h" "hash_inv h"
    "\<forall>es j. abs_hash h (path_key es) = Some j \<longrightarrow> j < length ps \<and> elements (ps ! j) = es"
    "\<forall>es. es \<in> elements ` set ps \<longrightarrow> abs_hash h (path_key es) \<noteq> None"
    using hash_paths_ok [OF hash_alloc_ok(1) [OF pos] assms(1), of junk 0 False]
    by (elim exE conjE) (simp add: e)
  obtain key where key: "create_key_for_path junk q str_new = Some key"
    "key_create (map_option (take (nat (str_l key))) (str_d key)) 0 = path_key (elements q)"
    using created_key [OF assms(3,2)] by blast
  have "hash_extended_find (path_key (elements q)) h = Some (abs_hash h (path_key (elements q)))"
    by (rule hash_extended_find_ok [OF h(2) key_ok_path_key [OF assms(2)]])
  moreover have "case abs_hash h (path_key (elements q)) of None \<Rightarrow> elements q \<notin> elements ` set ps
     | Some j \<Rightarrow> j < length ps \<and> elements (ps ! j) = elements q"
    using h(3,4) by (auto split: option.splits)
  ultimately show ?thesis
    by (intro exI [of _ h] exI [of _ key] exI [of _ "abs_hash h (path_key (elements q))"])
       (simp add: h(1) key)
qed

lemma path_lookup_exact_witness:
  "\<exists>h key r. hash_paths nul [path_add 2 (path_new None), path_add 7 (path_add 2 (path_new None))] 0
       (hash_alloc 128 False) = Some h \<and>
     create_key_for_path nul (path_add 2 (path_new None)) str_new = Some key \<and>
     hash_extended_find (key_create (map_option (take (nat (str_l key))) (str_d key)) 0) h = Some r \<and>
     r \<noteq> None"
proof -
  let ?ps = "[path_add 2 (path_new None), path_add 7 (path_add 2 (path_new None))]"
  have pre: "\<forall>p \<in> set ?ps. elements p \<noteq> [] \<and> (\<forall>e \<in> set (elements p). e < 2 ^ 32)"
    by (simp add: pre_elems_def)
  have q: "elements (path_add 2 (path_new None)) \<noteq> []"
    "\<forall>e \<in> set (elements (path_add 2 (path_new None))). e < 2 ^ 32"
    by (simp_all add: pre_elems_def)
  show ?thesis
    using path_lookup_exact [OF pre q, of nul]
    by (elim exE conjE) (intro exI conjI, assumption+, simp add: image_iff pre_elems_def split: option.splits)
qed

end
