(* ===== verification/BranchAnalysis.thy ===== *)
theory BranchAnalysis
  imports Prelude BitSet OpArray BranchInfo
begin

text \<open>
  Dead code and branch analysis of a compiled function, \<open>xdebug_find_jumps\<close>, \<open>xdebug_analyse_branch\<close>
  and \<open>xdebug_analyse_oparray\<close> of \<open>xdebug_code_coverage.c\<close>. \<open>None\<close> is an access outside an array; the
  first argument of the analysis bounds the depth of its recursion, and two more than the number of
  opcodes is enough. The theorems show that the set it computes is the set of the reachable opcodes.
\<close>

section \<open>Jumps\<close>

definition to_int :: "u64 \<Rightarrow> int" where
  "to_int w = sint (ucast w :: u32)"

text \<open>\<open>XDEBUG_ZNODE_JMP_LINE\<close> without absolute addresses: the division is unsigned.\<close>

definition znode_jmp_line :: "u32 \<Rightarrow> nat \<Rightarrow> int" where
  "znode_jmp_line jmp_offset opline = to_int ((scast jmp_offset :: u64) div SIZEOF_ZEND_OP + of_nat opline)"

text \<open>The unsigned distance of \<open>extended_value\<close>, and the signed one \<open>ZEND_JMPZNZ\<close> uses.\<close>

definition ext_target :: "zend_op \<Rightarrow> nat \<Rightarrow> int" where
  "ext_target opn position = to_int (of_nat position + (ucast (extended_value opn) :: u64) div SIZEOF_ZEND_OP)"

definition signed_quot :: "int \<Rightarrow> int \<Rightarrow> int" where
  "signed_quot x y = (if x < 0 then - ((- x) div y) else x div y)"

definition ext_target_signed :: "zend_op \<Rightarrow> nat \<Rightarrow> int" where
  "ext_target_signed opn position =
     to_int32 (int position + signed_quot (sint (extended_value opn)) 32)"

text \<open>The cases of a switch, at most \<open>XDEBUG_BRANCH_MAX_OUTS - 2\<close> of them.\<close>

definition switch_targets :: "nat \<Rightarrow> u64 list \<Rightarrow> int list" where
  "switch_targets position vals =
     foldl (\<lambda>js v. if length js < XDEBUG_BRANCH_MAX_OUTS - 2
                   then js @ [to_int (of_nat position + v div SIZEOF_ZEND_OP)] else js) [] vals"

text \<open>\<open>None\<close> is the result 0 (no jump), else the jumps stored.\<close>

definition find_jumps :: "zend_op \<Rightarrow> nat \<Rightarrow> int list option" where
  "find_jumps opn position =
     (let oc = opcode opn; next = int position + 1
      in if oc = ZEND_JMP then Some [znode_jmp_line (op1_jmp_offset opn) position]
         else if oc = ZEND_JMPZ \<or> oc = ZEND_JMPNZ \<or> oc = ZEND_JMPZ_EX \<or> oc = ZEND_JMPNZ_EX
         then Some [next, znode_jmp_line (op2_jmp_offset opn) position]
         else if oc = ZEND_JMPZNZ
         then Some [znode_jmp_line (op2_jmp_offset opn) position, ext_target_signed opn position]
         else if oc = ZEND_FE_FETCH_R \<or> oc = ZEND_FE_FETCH_RW
         then Some [next, ext_target opn position]
         else if oc = ZEND_FE_RESET_R \<or> oc = ZEND_FE_RESET_RW
         then Some [next, znode_jmp_line (op2_jmp_offset opn) position]
         else if oc = ZEND_CATCH
         then (if result_num opn = 0
               then (if ext_target opn position = next then Some [next]
                     else Some [next, ext_target opn position])
               else Some [next, XDEBUG_JMP_EXIT])
         else if oc = ZEND_GOTO then Some [znode_jmp_line (op1_jmp_offset opn) position]
         else if oc = ZEND_FAST_CALL
         then Some [znode_jmp_line (op1_jmp_offset opn) position, next]
         else if oc = ZEND_FAST_RET then Some [XDEBUG_JMP_EXIT]
         else if oc = ZEND_GENERATOR_RETURN \<or> oc = ZEND_EXIT \<or> oc = ZEND_THROW \<or> oc = ZEND_RETURN
         then Some [XDEBUG_JMP_EXIT]
         else if oc = ZEND_SWITCH_LONG \<or> oc = ZEND_SWITCH_STRING
         then Some (switch_targets position (switch_vals opn) @ [ext_target opn position, next])
         else None)"

section \<open>Analysis\<close>

record analysis =
  visited :: xset
  info :: "branch_info option"

definition with_info :: "(branch_info \<Rightarrow> branch_info option) \<Rightarrow> analysis \<Rightarrow> analysis option" where
  "with_info f st =
     (case info st of None \<Rightarrow> Some st
      | Some bi \<Rightarrow> do { bi \<leftarrow> f bi; Some (st\<lparr>info := Some bi\<rparr>) })"

definition mark_start :: "opcodes \<Rightarrow> nat \<Rightarrow> branch_info \<Rightarrow> branch_info option" where
  "mark_start opa position bi =
     do {
       s \<leftarrow> set_add (of_nat position) (starts bi);
       opn \<leftarrow> op_at opa position;
       mod_branch position (\<lambda>b. b\<lparr>start_lineno := lineno opn\<rparr>) (bi\<lparr>starts := s\<rparr>)
     }"

definition mark_end :: "opcodes \<Rightarrow> nat \<Rightarrow> branch_info \<Rightarrow> branch_info option" where
  "mark_end opa position bi =
     do {
       e \<leftarrow> set_add (of_nat position) (ends bi);
       opn \<leftarrow> op_at opa position;
       mod_branch position (\<lambda>b. b\<lparr>start_lineno := lineno opn\<rparr>) (bi\<lparr>ends := e\<rparr>)
     }"

function (sequential) analyse_branch :: "nat \<Rightarrow> opcodes \<Rightarrow> nat \<Rightarrow> analysis \<Rightarrow> analysis option"
  and analyse_loop :: "nat \<Rightarrow> opcodes \<Rightarrow> nat \<Rightarrow> analysis \<Rightarrow> analysis option"
  and analyse_jumps :: "nat \<Rightarrow> opcodes \<Rightarrow> nat \<Rightarrow> nat \<Rightarrow> int list \<Rightarrow> analysis \<Rightarrow> analysis option" where
  "analyse_branch 0 opa position st = None"
| "analyse_branch (Suc n) opa position st =
     (case with_info (mark_start opa position) st of
        None \<Rightarrow> None
      | Some st1 \<Rightarrow>
          (case set_in_ex (of_nat position) (visited st1) of
             None \<Rightarrow> None
           | Some seen \<Rightarrow>
               if seen then Some st1
               else (case set_add (of_nat position) (visited st1) of
                       None \<Rightarrow> None
                     | Some v \<Rightarrow> analyse_loop n opa position (st1\<lparr>visited := v\<rparr>))))"
| "analyse_loop n opa position st =
     (if position < length opa
      then
        (case find_jumps (opa ! position) position of
           Some js \<Rightarrow> analyse_jumps n opa position 0 js st
         | None \<Rightarrow>
             if opcode (opa ! position) = ZEND_THROW then with_info (mark_end opa position) st
             else if opcode (opa ! position) = ZEND_EXIT then with_info (mark_end opa position) st
             else if opcode (opa ! position) = ZEND_RETURN \<or> opcode (opa ! position) = ZEND_RETURN_BY_REF
             then with_info (mark_end opa position) st
             else (case set_add (of_nat (position + 1)) (visited st) of
                     None \<Rightarrow> None
                   | Some v \<Rightarrow> analyse_loop n opa (position + 1) (st\<lparr>visited := v\<rparr>)))
      else Some st)"
| "analyse_jumps n opa position i [] st = Some st"
| "analyse_jumps n opa position i (j # js) st =
     (if j = XDEBUG_JMP_EXIT \<or> j \<noteq> XDEBUG_JMP_NOT_SET
      then
        (case with_info (\<lambda>bi. branch_info_update bi position (lineno (opa ! position)) i j) st of
           None \<Rightarrow> None
         | Some st1 \<Rightarrow>
             (case (if j \<noteq> XDEBUG_JMP_EXIT then analyse_branch n opa (to_unsigned j) st1 else Some st1) of
                None \<Rightarrow> None
              | Some st2 \<Rightarrow> analyse_jumps n opa position (i + 1) js st2))
      else analyse_jumps n opa position (i + 1) js st)"
  by pat_completeness auto
termination
  by (relation "measures
       [\<lambda>x. case x of Inl (n, _) \<Rightarrow> n | Inr (Inl (n, _)) \<Rightarrow> n | Inr (Inr (n, _)) \<Rightarrow> n,
        \<lambda>x. case x of Inl _ \<Rightarrow> 0 | Inr (Inl _) \<Rightarrow> 2 | Inr (Inr _) \<Rightarrow> 1,
        \<lambda>x. case x of Inl _ \<Rightarrow> 0 | Inr (Inl (n, opa, p, _)) \<Rightarrow> length opa - p
                    | Inr (Inr (n, opa, p, i, js, _)) \<Rightarrow> length js]") auto

definition mark_entry :: "nat \<Rightarrow> branch_info \<Rightarrow> branch_info option" where
  "mark_entry position bi =
     do { s \<leftarrow> set_add (of_nat position) (entry_points bi); Some (bi\<lparr>entry_points := s\<rparr>) }"

fun analyse_entries :: "nat \<Rightarrow> opcodes \<Rightarrow> nat list \<Rightarrow> analysis \<Rightarrow> analysis option" where
  "analyse_entries n opa [] st = Some st"
| "analyse_entries n opa (position # ps) st =
     do {
       st \<leftarrow> (if position = 0 \<or> opcode (opa ! position) = ZEND_CATCH
              then do { st \<leftarrow> analyse_branch n opa position st; with_info (mark_entry position) st }
              else Some st);
       analyse_entries n opa ps st
     }"

definition analyse_oparray :: "nat \<Rightarrow> opcodes \<Rightarrow> analysis \<Rightarrow> analysis option" where
  "analyse_oparray n opa st =
     do {
       st \<leftarrow> analyse_entries n opa [0..<length opa] st;
       with_info (\<lambda>bi. if opa = [] then None else mark_end opa (length opa - 1) bi) st
     }"

section \<open>The graph of the jumps found\<close>

definition stops :: "zend_opcode \<Rightarrow> bool" where
  "stops oc \<longleftrightarrow> oc = ZEND_THROW \<or> oc = ZEND_EXIT \<or> oc = ZEND_RETURN \<or> oc = ZEND_RETURN_BY_REF"

definition goes_to :: "int \<Rightarrow> bool" where
  "goes_to j \<longleftrightarrow> j \<noteq> XDEBUG_JMP_EXIT \<and> j \<noteq> XDEBUG_JMP_NOT_SET"

definition jump_succs :: "opcodes \<Rightarrow> nat \<Rightarrow> nat set" where
  "jump_succs opa p =
     (if length opa \<le> p then {}
      else (case find_jumps (opa ! p) p of
              Some js \<Rightarrow> to_unsigned ` set (filter goes_to js)
            | None \<Rightarrow> if stops (opcode (opa ! p)) then {} else {p + 1}))"

definition jump_flow :: "opcodes \<Rightarrow> (nat \<times> nat) set" where
  "jump_flow opa = {(a, b). b \<in> jump_succs opa a}"

definition reach :: "opcodes \<Rightarrow> nat \<Rightarrow> nat set" where
  "reach opa p = (jump_flow opa)\<^sup>* `` {p}"

text \<open>Every jump of a compiled function stays inside it.\<close>

definition ops_ok :: "opcodes \<Rightarrow> bool" where
  "ops_ok opa \<longleftrightarrow>
     length opa < 2 ^ 31 - 3 \<and>
     (\<forall>p < length opa. case find_jumps (opa ! p) p of
        None \<Rightarrow> True | Some js \<Rightarrow> (\<forall>j \<in> set js. goes_to j \<longrightarrow> 0 \<le> j \<and> j < int (length opa)))"

definition set_for :: "nat \<Rightarrow> xset \<Rightarrow> bool" where
  "set_for n s \<longleftrightarrow> set_wf s \<and> unat (set_size s) = n"

definition info_ok :: "nat \<Rightarrow> branch_info \<Rightarrow> bool" where
  "info_ok n bi \<longleftrightarrow>
     length (branches bi) = n \<and> set_for n (entry_points bi) \<and> set_for n (starts bi) \<and> set_for n (ends bi)"

definition analysis_ok :: "nat \<Rightarrow> analysis \<Rightarrow> bool" where
  "analysis_ok n st \<longleftrightarrow>
     set_for n (visited st) \<and> (case info st of None \<Rightarrow> True | Some bi \<Rightarrow> info_ok n bi)"

definition seen :: "analysis \<Rightarrow> nat set" where
  "seen st = members (visited st)"

lemma position_le:
  assumes "set_for n s" and "p \<le> n" and "n < 2 ^ 31"
  shows "(of_nat p :: u32) \<le> set_size s" and "unat (of_nat p :: u32) = p"
  using assms unat_of_nat_u32 [of p] by (simp_all add: set_for_def word_le_nat_alt)

lemma set_add_for:
  assumes "set_for n s" and "p \<le> n" and "n < 2 ^ 31"
  shows "\<exists>s'. set_add (of_nat p) s = Some s' \<and> set_for n s' \<and> members s' = insert p (members s)"
  using set_add_ok [of s "of_nat p"] position_le [OF assms] assms(1) by (auto simp: set_for_def)

lemma set_in_for:
  assumes "set_for n s" and "p \<le> n" and "n < 2 ^ 31"
  shows "set_in_ex (of_nat p) s = Some (p \<in> members s)"
  using set_in_ok [of s "of_nat p"] position_le [OF assms] assms(1) by (auto simp: set_for_def)

lemma with_info_ok:
  assumes "analysis_ok n st" and "\<And>bi. info_ok n bi \<Longrightarrow> \<exists>bi'. f bi = Some bi' \<and> info_ok n bi'"
  shows "\<exists>st'. with_info f st = Some st' \<and> analysis_ok n st' \<and> visited st' = visited st"
proof (cases "info st")
  case None
  then show ?thesis using assms(1) by (simp add: with_info_def)
next
  case (Some bi)
  then have "info_ok n bi" using assms(1) by (simp add: analysis_ok_def)
  then obtain bi' where "f bi = Some bi'" "info_ok n bi'" using assms(2) by blast
  then show ?thesis using Some assms(1) by (simp add: with_info_def analysis_ok_def)
qed

lemma mod_branch_ok:
  "info_ok n bi \<Longrightarrow> p < n \<Longrightarrow> \<exists>bi'. mod_branch p f bi = Some bi' \<and> info_ok n bi'"
  unfolding mod_branch_def info_ok_def by auto

lemma mark_start_ok:
  assumes "info_ok (length opa) bi" and "p < length opa" and "length opa < 2 ^ 31"
  shows "\<exists>bi'. mark_start opa p bi = Some bi' \<and> info_ok (length opa) bi'"
proof -
  obtain s where s: "set_add (of_nat p) (starts bi) = Some s" "set_for (length opa) s"
    using set_add_for [of "length opa" "starts bi" p] assms by (auto simp: info_ok_def)
  have "info_ok (length opa) (bi\<lparr>starts := s\<rparr>)" using assms(1) s(2) by (simp add: info_ok_def)
  from mod_branch_ok [OF this assms(2), of "\<lambda>b. b\<lparr>start_lineno := lineno (opa ! p)\<rparr>"]
  show ?thesis using s(1) assms(2) by (auto simp: mark_start_def)
qed

lemma mark_end_ok:
  assumes "info_ok (length opa) bi" and "p < length opa" and "length opa < 2 ^ 31"
  shows "\<exists>bi'. mark_end opa p bi = Some bi' \<and> info_ok (length opa) bi'"
proof -
  obtain s where s: "set_add (of_nat p) (ends bi) = Some s" "set_for (length opa) s"
    using set_add_for [of "length opa" "ends bi" p] assms by (auto simp: info_ok_def)
  have "info_ok (length opa) (bi\<lparr>ends := s\<rparr>)" using assms(1) s(2) by (simp add: info_ok_def)
  from mod_branch_ok [OF this assms(2), of "\<lambda>b. b\<lparr>start_lineno := lineno (opa ! p)\<rparr>"]
  show ?thesis using s(1) assms(2) by (auto simp: mark_end_def)
qed

lemma mark_entry_ok:
  assumes "info_ok n bi" and "p < n" and "n < 2 ^ 31"
  shows "\<exists>bi'. mark_entry p bi = Some bi' \<and> info_ok n bi'"
  using set_add_for [of n "entry_points bi" p] assms by (auto simp: info_ok_def mark_entry_def)

lemma branch_info_update_ok:
  assumes "info_ok n bi" and "p < n" and "n < 2 ^ 31"
  shows "\<exists>bi'. branch_info_update bi p lno i j = Some bi' \<and> info_ok n bi'"
proof -
  obtain s where s: "set_add (of_nat p) (ends bi) = Some s" "set_for n s"
    using set_add_for [of n "ends bi" p] assms by (auto simp: info_ok_def)
  have i1: "info_ok n (bi\<lparr>ends := s\<rparr>)" using assms(1) s(2) by (simp add: info_ok_def)
  show ?thesis
  proof (cases "i < XDEBUG_BRANCH_MAX_OUTS")
    case True
    obtain b2 where b2: "mod_branch p (\<lambda>b. b\<lparr>outs := (outs b)[i := j],
        outs_count := (if outs_count b < i + 1 then i + 1 else outs_count b)\<rparr>) (bi\<lparr>ends := s\<rparr>) = Some b2"
      "info_ok n b2"
      using mod_branch_ok [OF i1 assms(2)] by blast
    then show ?thesis
      using True s(1) mod_branch_ok [OF b2(2) assms(2)] by (simp add: branch_info_update_def Let_def)
  next
    case False
    then show ?thesis
      using s(1) mod_branch_ok [OF i1 assms(2)] by (simp add: branch_info_update_def Let_def)
  qed
qed

section \<open>The depth-first search\<close>

text \<open>What a call adds: it extends the visited set by nodes reachable from its start and leaves every
  node it added with all its successors visited.\<close>

definition search_post :: "opcodes \<Rightarrow> nat set \<Rightarrow> nat set \<Rightarrow> nat set \<Rightarrow> bool" where
  "search_post opa V R V' \<longleftrightarrow> V \<subseteq> V' \<and> V' \<subseteq> V \<union> R \<and> (\<forall>q \<in> V' - V. jump_succs opa q \<subseteq> V')"

lemma search_post_trans:
  assumes "search_post opa V R V1" and "search_post opa V1 S V2" and "R \<subseteq> T" and "S \<subseteq> T"
  shows "search_post opa V T V2"
  using assms unfolding search_post_def by blast

lemma reach_refl [simp]: "p \<in> reach opa p"
  unfolding reach_def by simp

lemma reach_step: "q \<in> jump_succs opa p \<Longrightarrow> reach opa q \<subseteq> reach opa p"
  unfolding reach_def jump_flow_def by (auto intro: converse_rtrancl_into_rtrancl)

lemma to_unsigned_nat:
  assumes "0 \<le> j" and "j < 2 ^ 32"
  shows "to_unsigned j = nat j"
proof -
  have "unat (word_of_int j :: u32) = nat j"
    using assms by (simp add: unsigned_of_int take_bit_int_eq_self)
  then show ?thesis by (simp add: to_unsigned_def)
qed

lemma ops_ok_target:
  assumes "ops_ok opa" and "p < length opa" and "find_jumps (opa ! p) p = Some js"
    and "j \<in> set js" and "goes_to j"
  shows "to_unsigned j < length opa"
proof -
  have j: "0 \<le> j" "j < int (length opa)" and l: "length opa < 2 ^ 31 - 3"
    using assms by (auto simp: ops_ok_def)
  then show ?thesis using to_unsigned_nat [of j] by simp
qed

lemma jump_succs_le:
  assumes "ops_ok opa" and "q \<in> jump_succs opa p"
  shows "q \<le> length opa"
proof (cases "p < length opa")
  case False
  then show ?thesis using assms(2) by (simp add: jump_succs_def)
next
  case True
  show ?thesis
  proof (cases "find_jumps (opa ! p) p")
    case None
    then show ?thesis using True assms(2) by (simp add: jump_succs_def split: if_splits)
  next
    case (Some js)
    then obtain j where "j \<in> set js" "goes_to j" "q = to_unsigned j"
      using True assms(2) by (auto simp: jump_succs_def)
    then show ?thesis using ops_ok_target [OF assms(1) True Some] by fastforce
  qed
qed

text \<open>What a call promises: it succeeds, and its result has visited the targets \<open>T\<close>.\<close>

definition found :: "opcodes \<Rightarrow> analysis \<Rightarrow> nat set \<Rightarrow> nat set \<Rightarrow> analysis option \<Rightarrow> bool" where
  "found opa st R T res \<longleftrightarrow>
     (\<exists>st'. res = Some st' \<and> analysis_ok (length opa) st' \<and>
        search_post opa (seen st) R (seen st') \<and> T \<subseteq> seen st')"

definition room :: "opcodes \<Rightarrow> analysis \<Rightarrow> nat" where
  "room opa st = card ({..length opa} - seen st)"

lemma foundI:
  "analysis_ok (length opa) st' \<Longrightarrow> search_post opa (seen st) R (seen st') \<Longrightarrow> T \<subseteq> seen st' \<Longrightarrow>
   found opa st R T (Some st')"
  by (simp add: found_def)

lemma room_mono: "seen st \<subseteq> seen st' \<Longrightarrow> room opa st' \<le> room opa st"
  unfolding room_def by (rule card_mono) auto

lemma room_insert:
  assumes "seen st' = insert p (seen st)" and "p \<notin> seen st" and "p \<le> length opa"
  shows "room opa st' < room opa st"
  unfolding room_def assms(1) by (rule psubset_card_mono) (use assms in auto)

lemma seen_visited [simp]: "seen (st\<lparr>visited := v\<rparr>) = members v"
  by (simp add: seen_def)

lemma search_post_refl [simp]: "search_post opa V R V"
  by (simp add: search_post_def)

lemma visit_ok:
  assumes "analysis_ok (length opa) st" and "p \<le> length opa" and "ops_ok opa"
  shows "\<exists>v. set_add (of_nat p) (visited st) = Some v \<and> analysis_ok (length opa) (st\<lparr>visited := v\<rparr>) \<and>
           members v = insert p (seen st)"
  using set_add_for [of "length opa" "visited st" p] assms
  by (auto simp: analysis_ok_def ops_ok_def seen_def)

lemma seen_ok:
  assumes "analysis_ok (length opa) st" and "p \<le> length opa" and "ops_ok opa"
  shows "set_in_ex (of_nat p) (visited st) = Some (p \<in> seen st)"
  using set_in_for [of "length opa" "visited st" p] assms
  by (auto simp: analysis_ok_def ops_ok_def seen_def)

lemma search_post_visit:
  assumes "search_post opa (insert p V) R V'" and "jump_succs opa p \<subseteq> V'" and "p \<in> R"
  shows "search_post opa V R V'"
  using assms unfolding search_post_def by blast

lemma with_start_ok:
  assumes "analysis_ok (length opa) st" and "p < length opa" and "length opa < 2 ^ 31"
  shows "\<exists>st'. with_info (mark_start opa p) st = Some st' \<and> analysis_ok (length opa) st' \<and>
           visited st' = visited st"
  by (rule with_info_ok [OF assms(1)]) (rule mark_start_ok [OF _ assms(2,3)])

lemma with_end_ok:
  assumes "analysis_ok (length opa) st" and "p < length opa" and "length opa < 2 ^ 31"
  shows "\<exists>st'. with_info (mark_end opa p) st = Some st' \<and> analysis_ok (length opa) st' \<and>
           visited st' = visited st"
  by (rule with_info_ok [OF assms(1)]) (rule mark_end_ok [OF _ assms(2,3)])

lemma with_entry_ok:
  assumes "analysis_ok (length opa) st" and "p < length opa" and "length opa < 2 ^ 31"
  shows "\<exists>st'. with_info (mark_entry p) st = Some st' \<and> analysis_ok (length opa) st' \<and>
           visited st' = visited st"
  by (rule with_info_ok [OF assms(1)]) (rule mark_entry_ok [OF _ assms(2,3)])

lemma with_update_ok:
  assumes "analysis_ok (length opa) st" and "p < length opa" and "length opa < 2 ^ 31"
  shows "\<exists>st'. with_info (\<lambda>bi. branch_info_update bi p lno i j) st = Some st' \<and> analysis_ok (length opa) st' \<and>
           visited st' = visited st"
  by (rule with_info_ok [OF assms(1)]) (rule branch_info_update_ok [OF _ assms(2,3)])

lemma search_branch_step:
  assumes "ops_ok opa" and "analysis_ok (length opa) st" and "p < length opa" and "room opa st < Suc n"
    and loop: "\<And>st'. analysis_ok (length opa) st' \<Longrightarrow> p \<in> seen st' \<Longrightarrow> room opa st' < n \<Longrightarrow>
                 found opa st' (reach opa p) (jump_succs opa p) (analyse_loop n opa p st')"
  shows "found opa st (reach opa p) {p} (analyse_branch (Suc n) opa p st)"
proof -
  have l: "length opa < 2 ^ 31" using assms(1) by (simp add: ops_ok_def)
  obtain st1 where st1: "with_info (mark_start opa p) st = Some st1" "analysis_ok (length opa) st1"
      "visited st1 = visited st"
    using with_start_ok [OF assms(2,3) l] by blast
  have s1: "seen st1 = seen st" using st1(3) by (simp add: seen_def)
  have inn: "set_in_ex (of_nat p) (visited st1) = Some (p \<in> seen st)"
    using seen_ok [OF st1(2) _ assms(1), of p] assms(3) s1 by simp
  show ?thesis
  proof (cases "p \<in> seen st")
    case True
    then show ?thesis using st1 inn s1 by (simp add: found_def)
  next
    case False
    obtain v where v: "set_add (of_nat p) (visited st1) = Some v"
        "analysis_ok (length opa) (st1\<lparr>visited := v\<rparr>)" "members v = insert p (seen st)"
      using visit_ok [OF st1(2) _ assms(1), of p] assms(3) s1 by auto
    have "room opa (st1\<lparr>visited := v\<rparr>) < n"
      using room_insert [of "st1\<lparr>visited := v\<rparr>" p st opa] v(3) False assms(3,4) by simp
    from loop [OF v(2) _ this] v(3)
    obtain st' where st': "analyse_loop n opa p (st1\<lparr>visited := v\<rparr>) = Some st'"
        "analysis_ok (length opa) st'" "search_post opa (insert p (seen st)) (reach opa p) (seen st')"
        "jump_succs opa p \<subseteq> seen st'"
      by (auto simp: found_def)
    have "search_post opa (seen st) (reach opa p) (seen st')"
      using search_post_visit [OF st'(3,4)] by simp
    moreover have "p \<in> seen st'" using st'(3) by (auto simp: search_post_def)
    ultimately show ?thesis using st1(1) inn False v(1) st'(1,2) by (simp add: found_def)
  qed
qed

lemma search_next_step:
  assumes "ops_ok opa" and "analysis_ok (length opa) st" and "p < length opa" and "room opa st < n"
    and "find_jumps (opa ! p) p = None" and "\<not> stops (opcode (opa ! p))"
    and loop: "\<And>st'. analysis_ok (length opa) st' \<Longrightarrow> p + 1 \<in> seen st' \<Longrightarrow> room opa st' < n \<Longrightarrow>
                 found opa st' (reach opa (p + 1)) (jump_succs opa (p + 1)) (analyse_loop n opa (p + 1) st')"
  shows "found opa st (reach opa p) (jump_succs opa p) (analyse_loop n opa p st)"
proof -
  have sc: "jump_succs opa p = {p + 1}" using assms(3,5,6) by (simp add: jump_succs_def)
  obtain v where v: "set_add (of_nat (p + 1)) (visited st) = Some v"
      "analysis_ok (length opa) (st\<lparr>visited := v\<rparr>)" "members v = insert (p + 1) (seen st)"
    using visit_ok [OF assms(2) _ assms(1), of "p + 1"] assms(3) by auto
  have "room opa (st\<lparr>visited := v\<rparr>) < n"
    using room_mono [of st "st\<lparr>visited := v\<rparr>" opa] v(3) assms(4) by (simp add: subset_insertI)
  from loop [OF v(2) _ this] v(3)
  obtain st' where st': "analyse_loop n opa (p + 1) (st\<lparr>visited := v\<rparr>) = Some st'"
      "analysis_ok (length opa) st'" "search_post opa (insert (p + 1) (seen st)) (reach opa (p + 1)) (seen st')"
      "jump_succs opa (p + 1) \<subseteq> seen st'"
    by (auto simp: found_def)
  have "search_post opa (seen st) (reach opa p) (seen st')"
    using search_post_visit [OF st'(3,4)] search_post_trans [of opa "seen st" "{}" "seen st"]
      reach_step [of "p + 1" opa p] sc by (auto simp: search_post_def)
  moreover have "jump_succs opa p \<subseteq> seen st'" using st'(3) sc by (auto simp: search_post_def)
  moreover have "analyse_loop n opa p st = Some st'"
    using v(1) st'(1) assms(3,5,6) by (subst analyse_loop.simps) (simp add: stops_def del: analyse_loop.simps)
  ultimately show ?thesis using st'(2) by (simp add: found_def)
qed

lemma search_stop_step:
  assumes "ops_ok opa" and "analysis_ok (length opa) st" and "p < length opa"
    and "find_jumps (opa ! p) p = None" and "stops (opcode (opa ! p))"
  shows "found opa st (reach opa p) (jump_succs opa p) (analyse_loop n opa p st)"
proof -
  have l: "length opa < 2 ^ 31" using assms(1) by (simp add: ops_ok_def)
  obtain st1 where st1: "with_info (mark_end opa p) st = Some st1" "analysis_ok (length opa) st1"
      "visited st1 = visited st"
    using with_end_ok [OF assms(2,3) l] by blast
  have "analyse_loop n opa p st = Some st1"
    using assms(3-5) st1(1) by (subst analyse_loop.simps) (auto simp: stops_def)
  moreover have "seen st1 = seen st" using st1(3) by (simp add: seen_def)
  moreover have "jump_succs opa p = {}" using assms(3-5) by (simp add: jump_succs_def)
  ultimately show ?thesis using st1(2) by (simp add: found_def)
qed

definition jump_targets :: "int list \<Rightarrow> nat set" where
  "jump_targets js = to_unsigned ` set (filter goes_to js)"

definition reach_all :: "opcodes \<Rightarrow> nat set \<Rightarrow> nat set" where
  "reach_all opa S = (\<Union>s \<in> S. reach opa s)"

lemma search_jump_step:
  assumes "ops_ok opa" and "analysis_ok (length opa) st" and "p < length opa" and "room opa st < n"
    and g: "goes_to j"
    and branch: "\<And>st1. analysis_ok (length opa) st1 \<Longrightarrow> room opa st1 < n \<Longrightarrow>
       found opa st1 (reach opa (to_unsigned j)) {to_unsigned j} (analyse_branch n opa (to_unsigned j) st1)"
    and rest: "\<And>st2. analysis_ok (length opa) st2 \<Longrightarrow> room opa st2 < n \<Longrightarrow>
       found opa st2 (reach_all opa (jump_targets js)) (jump_targets js) (analyse_jumps n opa p (i + 1) js st2)"
  shows "found opa st (reach_all opa (jump_targets (j # js))) (jump_targets (j # js))
           (analyse_jumps n opa p i (j # js) st)"
proof -
  have l: "length opa < 2 ^ 31" using assms(1) by (simp add: ops_ok_def)
  obtain st1 where st1: "with_info (\<lambda>bi. branch_info_update bi p (lineno (opa ! p)) i j) st = Some st1"
      "analysis_ok (length opa) st1" "visited st1 = visited st"
    using with_update_ok [OF assms(2,3) l] by blast
  have s1: "seen st1 = seen st" using st1(3) by (simp add: seen_def)
  have r1: "room opa st1 < n" using assms(4) s1 by (simp add: room_def)
  from branch [OF st1(2) r1] s1
  obtain st2 where st2: "analyse_branch n opa (to_unsigned j) st1 = Some st2" "analysis_ok (length opa) st2"
      "search_post opa (seen st) (reach opa (to_unsigned j)) (seen st2)" "to_unsigned j \<in> seen st2"
    by (auto simp: found_def)
  have r2: "room opa st2 < n"
    using room_mono [of st st2 opa] st2(3) assms(4) by (auto simp: search_post_def)
  have br: "(if j \<noteq> XDEBUG_JMP_EXIT then analyse_branch n opa (to_unsigned j) st1 else Some st1) = Some st2"
    using g st2(1) by (simp add: goes_to_def)
  from rest [OF st2(2) r2]
  obtain st3 where st3: "analyse_jumps n opa p (i + 1) js st2 = Some st3" "analysis_ok (length opa) st3"
      "search_post opa (seen st2) (reach_all opa (jump_targets js)) (seen st3)" "jump_targets js \<subseteq> seen st3"
    by (auto simp: found_def)
  have t: "jump_targets (j # js) = insert (to_unsigned j) (jump_targets js)"
    using g by (simp add: jump_targets_def)
  have "search_post opa (seen st) (reach_all opa (jump_targets (j # js))) (seen st3)"
    by (rule search_post_trans [OF st2(3) st3(3)]) (auto simp: t reach_all_def)
  moreover have "jump_targets (j # js) \<subseteq> seen st3"
    using t st2(4) st3(3,4) by (auto simp: search_post_def)
  moreover have "analyse_jumps n opa p i (j # js) st = Some st3"
    using g st1(1) br st3(1) by (simp add: goes_to_def)
  ultimately show ?thesis using st3(2) by (simp add: found_def)
qed

lemma search_exit_step:
  assumes "ops_ok opa" and "analysis_ok (length opa) st" and "p < length opa" and "room opa st < n"
    and g: "\<not> goes_to j"
    and rest: "\<And>st1. analysis_ok (length opa) st1 \<Longrightarrow> room opa st1 < n \<Longrightarrow>
       found opa st1 (reach_all opa (jump_targets js)) (jump_targets js) (analyse_jumps n opa p (i + 1) js st1)"
  shows "found opa st (reach_all opa (jump_targets (j # js))) (jump_targets (j # js))
           (analyse_jumps n opa p i (j # js) st)"
proof (cases "j = XDEBUG_JMP_EXIT")
  case True
  have l: "length opa < 2 ^ 31" using assms(1) by (simp add: ops_ok_def)
  obtain st1 where st1: "with_info (\<lambda>bi. branch_info_update bi p (lineno (opa ! p)) i j) st = Some st1"
      "analysis_ok (length opa) st1" "visited st1 = visited st"
    using with_update_ok [OF assms(2,3) l] by blast
  have s1: "seen st1 = seen st" using st1(3) by (simp add: seen_def)
  have "room opa st1 < n" using assms(4) s1 by (simp add: room_def)
  from rest [OF st1(2) this] show ?thesis
    using True s1 st1(1) g by (simp add: found_def jump_targets_def)
next
  case False
  then have "j = XDEBUG_JMP_NOT_SET" using g by (simp add: goes_to_def)
  moreover have "analyse_jumps n opa p i (j # js) st = analyse_jumps n opa p (i + 1) js st"
    using calculation False by simp
  ultimately show ?thesis using rest [OF assms(2,4)] g by (simp add: jump_targets_def)
qed

definition branch_found :: "opcodes \<Rightarrow> nat \<Rightarrow> bool" where
  "branch_found opa n \<longleftrightarrow>
     (\<forall>p st. analysis_ok (length opa) st \<longrightarrow> p < length opa \<longrightarrow> room opa st < n \<longrightarrow>
        found opa st (reach opa p) {p} (analyse_branch n opa p st))"

lemma analyse_jumps_found:
  assumes "ops_ok opa" and "branch_found opa n" and "p < length opa"
    and "analysis_ok (length opa) st" and "room opa st < n"
    and "\<And>j. j \<in> set js \<Longrightarrow> goes_to j \<Longrightarrow> to_unsigned j < length opa"
  shows "found opa st (reach_all opa (jump_targets js)) (jump_targets js) (analyse_jumps n opa p i js st)"
  using assms(4-6)
proof (induction js arbitrary: i st)
  case Nil
  then show ?case by (simp add: found_def jump_targets_def)
next
  case (Cons j js)
  have rest: "found opa st2 (reach_all opa (jump_targets js)) (jump_targets js)
                (analyse_jumps n opa p (i + 1) js st2)"
    if "analysis_ok (length opa) st2" "room opa st2 < n" for st2
    using Cons.IH [OF that] Cons.prems(3) by simp
  show ?case
  proof (cases "goes_to j")
    case True
    then have "to_unsigned j < length opa" using Cons.prems(3) by simp
    then show ?thesis
      using assms(2) rest
      by (intro search_jump_step [OF assms(1) Cons.prems(1) assms(3) Cons.prems(2) True])
         (auto simp: branch_found_def)
  next
    case False
    then show ?thesis
      using rest by (intro search_exit_step [OF assms(1) Cons.prems(1) assms(3) Cons.prems(2) False])
  qed
qed

lemma analyse_loop_found:
  assumes "ops_ok opa" and "branch_found opa n"
    and "analysis_ok (length opa) st" and "p \<le> length opa" and "room opa st < n"
  shows "found opa st (reach opa p) (jump_succs opa p) (analyse_loop n opa p st)"
  using assms(3-5)
proof (induction "length opa - p" arbitrary: p st)
  case 0
  then show ?case by (simp add: found_def jump_succs_def)
next
  case (Suc k)
  then have p: "p < length opa" by simp
  show ?case
  proof (cases "find_jumps (opa ! p) p")
    case (Some js)
    have sc: "jump_succs opa p = jump_targets js" using p Some by (simp add: jump_succs_def jump_targets_def)
    have "found opa st (reach_all opa (jump_targets js)) (jump_targets js) (analyse_jumps n opa p 0 js st)"
      by (rule analyse_jumps_found [OF assms(1,2) p Suc.prems(1,3)])
         (rule ops_ok_target [OF assms(1) p Some])
    moreover have "reach_all opa (jump_targets js) \<subseteq> reach opa p"
      unfolding reach_all_def using reach_step [of _ opa p] sc by blast
    ultimately show ?thesis
      using p Some sc search_post_trans [of opa "seen st" "reach_all opa (jump_targets js)" _ "{}" _ "reach opa p"]
      by (auto simp: found_def)
  next
    case None
    show ?thesis
    proof (cases "stops (opcode (opa ! p))")
      case True
      then show ?thesis by (rule search_stop_step [OF assms(1) Suc.prems(1) p None])
    next
      case False
      have k: "k = length opa - (p + 1)" and le: "p + 1 \<le> length opa" using Suc.hyps(2) p by simp_all
      show ?thesis
        by (rule search_next_step [OF assms(1) Suc.prems(1) p Suc.prems(3) None False])
           (rule Suc.hyps(1) [OF k _ le])
    qed
  qed
qed

lemma analyse_branch_found:
  assumes "ops_ok opa"
  shows "branch_found opa n"
proof (induction n)
  case 0
  then show ?case by (simp add: branch_found_def)
next
  case (Suc n)
  show ?case
    unfolding branch_found_def
  proof (intro allI impI)
    fix p st assume a: "analysis_ok (length opa) st" "p < length opa" "room opa st < Suc n"
    show "found opa st (reach opa p) {p} (analyse_branch (Suc n) opa p st)"
      by (rule search_branch_step [OF assms a])
         (rule analyse_loop_found [OF assms Suc.IH _ less_imp_le [OF a(2)]])
  qed
qed

section \<open>The analysis of a function\<close>

definition is_entry :: "opcodes \<Rightarrow> nat \<Rightarrow> bool" where
  "is_entry opa p \<longleftrightarrow> p < length opa \<and> (p = 0 \<or> opcode (opa ! p) = ZEND_CATCH)"

lemma analyse_entries_found:
  assumes "ops_ok opa"
    and "analysis_ok (length opa) st" and "room opa st < n" and "\<forall>p \<in> set ps. p < length opa"
  shows "found opa st (reach_all opa {p \<in> set ps. is_entry opa p}) {p \<in> set ps. is_entry opa p}
           (analyse_entries n opa ps st)"
  using assms(2-4)
proof (induction ps arbitrary: st)
  case Nil
  then show ?case by (simp add: found_def)
next
  case (Cons p ps)
  have l: "length opa < 2 ^ 31" using assms(1) by (simp add: ops_ok_def)
  have p: "p < length opa" and ps: "\<forall>p \<in> set ps. p < length opa" using Cons.prems(3) by auto
  show ?case
  proof (cases "is_entry opa p")
    case False
    then have "{q \<in> set (p # ps). is_entry opa q} = {q \<in> set ps. is_entry opa q}" by auto
    then show ?thesis
      using False p Cons.IH [OF Cons.prems(1,2) ps] by (simp add: is_entry_def)
  next
    case True
    have "found opa st (reach opa p) {p} (analyse_branch n opa p st)"
      using analyse_branch_found [OF assms(1), of n] Cons.prems(1,2) p unfolding branch_found_def by blast
    then obtain st1 where st1: "analyse_branch n opa p st = Some st1" "analysis_ok (length opa) st1"
        "search_post opa (seen st) (reach opa p) (seen st1)" "p \<in> seen st1"
      by (auto simp: found_def)
    obtain st2 where st2: "with_info (mark_entry p) st1 = Some st2" "analysis_ok (length opa) st2"
        "visited st2 = visited st1"
      using with_entry_ok [OF st1(2) p l] by blast
    have s2: "seen st2 = seen st1" using st2(3) by (simp add: seen_def)
    have "room opa st2 < n"
      using room_mono [of st st2 opa] st1(3) s2 Cons.prems(2) by (auto simp: search_post_def)
    from Cons.IH [OF st2(2) this ps]
    obtain st3 where st3: "analyse_entries n opa ps st2 = Some st3" "analysis_ok (length opa) st3"
        "search_post opa (seen st1) (reach_all opa {p \<in> set ps. is_entry opa p}) (seen st3)"
        "{p \<in> set ps. is_entry opa p} \<subseteq> seen st3"
      unfolding found_def s2 by blast
    have "search_post opa (seen st) (reach_all opa {q \<in> set (p # ps). is_entry opa q}) (seen st3)"
      by (rule search_post_trans [OF st1(3) st3(3)]) (use True in \<open>auto simp: reach_all_def\<close>)
    moreover have "{q \<in> set (p # ps). is_entry opa q} \<subseteq> seen st3"
      using st1(4) st3(3,4) by (auto simp: search_post_def)
    moreover have "analyse_entries n opa (p # ps) st = Some st3"
      using True st1(1) st2(1) st3(1) by (simp add: is_entry_def)
    ultimately show ?thesis using st3(2) by (simp add: found_def)
  qed
qed

lemma search_post_closed:
  assumes "search_post opa {} R V" and "p \<in> V"
  shows "reach opa p \<subseteq> V"
proof
  fix q assume "q \<in> reach opa p"
  then have "(p, q) \<in> (jump_flow opa)\<^sup>*" by (simp add: reach_def)
  then show "q \<in> V"
  proof (induction rule: rtrancl_induct)
    case base
    then show ?case by (rule assms(2))
  next
    case (step y z)
    then show ?case using assms(1) by (auto simp: search_post_def jump_flow_def)
  qed
qed

definition new_analysis :: "bool \<Rightarrow> nat \<Rightarrow> analysis" where
  "new_analysis branch_check n =
     \<lparr>visited = set_create (of_nat n),
      info = (if branch_check then Some (branch_info_create n) else None)\<rparr>"

lemma new_analysis_ok:
  assumes "n < 2 ^ 31"
  shows "analysis_ok n (new_analysis b n)" and "seen (new_analysis b n) = {}"
  using assms unat_of_nat_u32 [of n]
  by (simp_all add: new_analysis_def analysis_ok_def info_ok_def set_for_def branch_info_create_def
      set_create_wf seen_def)

lemma analysis_of_jumps:
  assumes "ops_ok opa" and "opa \<noteq> []" and "length opa + 2 \<le> n"
  shows "\<exists>st. analyse_oparray n opa (new_analysis branch_check (length opa)) = Some st \<and>
           members (visited st) = {q. \<exists>e. is_entry opa e \<and> (e, q) \<in> (jump_flow opa)\<^sup>*}"
proof -
  let ?st = "new_analysis branch_check (length opa)" and ?E = "{p. is_entry opa p}"
  have l: "length opa < 2 ^ 31" using assms(1) by (simp add: ops_ok_def)
  note ok = new_analysis_ok [OF l, of branch_check]
  have "room opa ?st < n" using assms(3) ok(2) by (simp add: room_def)
  from analyse_entries_found [OF assms(1) ok(1) this, of "[0..<length opa]"]
  have "found opa ?st (reach_all opa {p \<in> set [0..<length opa]. is_entry opa p})
          {p \<in> set [0..<length opa]. is_entry opa p} (analyse_entries n opa [0..<length opa] ?st)"
    by simp
  moreover have "{p \<in> set [0..<length opa]. is_entry opa p} = ?E" by (auto simp: is_entry_def)
  ultimately obtain st1 where st1: "analyse_entries n opa [0..<length opa] ?st = Some st1"
      "analysis_ok (length opa) st1" "search_post opa {} (reach_all opa ?E) (seen st1)" "?E \<subseteq> seen st1"
    unfolding found_def ok(2) by auto
  obtain st2 where st2: "with_info (mark_end opa (length opa - 1)) st1 = Some st2" "visited st2 = visited st1"
    using with_end_ok [OF st1(2) _ l, of "length opa - 1"] assms(2) by fastforce
  have "seen st1 \<subseteq> reach_all opa ?E" using st1(3) by (auto simp: search_post_def)
  moreover have "reach_all opa ?E \<subseteq> seen st1"
    unfolding reach_all_def using search_post_closed [OF st1(3)] st1(4) by blast
  ultimately have "members (visited st2) = reach_all opa ?E"
    unfolding st2(2) by (simp add: seen_def)
  moreover have "analyse_oparray n opa ?st = Some st2"
    using st1(1) st2(1) assms(2) by (simp add: analyse_oparray_def)
  ultimately show ?thesis by (auto simp: reach_all_def reach_def)
qed

section \<open>Distances\<close>

lemma to_int_of_int:
  assumes "x mod 2 ^ 32 = y mod 2 ^ 32" and "0 \<le> y" and "y < 2 ^ 31"
  shows "to_int (word_of_int x) = y"
proof -
  have "to_int (word_of_int x) = to_int32 (x mod 2 ^ 64)"
    by (simp add: to_int_def to_int32_def unsigned_of_int unsigned_ucast_eq take_bit_eq_mod flip: word_of_int_uint)
  also have "\<dots> = to_int32 y"
    unfolding to_int32_def
    by (rule arg_cong [where f = sint]) (use assms(1) in \<open>simp add: word_of_int_eq_iff take_bit_eq_mod mod_mod_cancel\<close>)
  finally show ?thesis using to_int32_id [of y] assms(2,3) by simp
qed

lemma scast_distance:
  assumes "- (2 ^ 31) \<le> x" and "x < 2 ^ 31"
  shows "(scast (word_of_int x :: u32) :: u64) div 32 = word_of_int ((x mod 2 ^ 64) div 32)"
proof -
  have "(scast (word_of_int x :: u32) :: u64) = word_of_int x"
    using to_int32_id [OF assms] by (simp add: to_int32_def scast_eq)
  then have "uint ((scast (word_of_int x :: u32) :: u64) div 32) = (x mod 2 ^ 64) div 32"
    by (simp add: uint_div unsigned_of_int take_bit_eq_mod)
  then show ?thesis by (metis word_of_int_uint)
qed

text \<open>Jump distances: although the byte offset of a jump is divided as an unsigned number
  (\<open>sizeof\<close> makes the division unsigned), \<open>XDEBUG_ZNODE_JMP_LINE\<close> gives the opcode number
  \<open>k\<close> entries away for every forward or backward distance whose target is in range.\<close>

lemma znode_jmp_line_exact:
  assumes "- (2 ^ 26) \<le> k" and "k < 2 ^ 26" and "0 \<le> int p + k" and "int p + k < 2 ^ 31"
  shows "znode_jmp_line (word_of_int (32 * k)) p = int p + k"
proof -
  have x: "- (2 ^ 31) \<le> 32 * k" "32 * k < 2 ^ 31" using assms(1,2) by simp_all
  have "((32 * k) mod 2 ^ 64) div 32 = k mod 2 ^ 59"
    using mod_mult_mult1 [of 32 k "2 ^ 59"] by simp
  then have "znode_jmp_line (word_of_int (32 * k)) p = to_int (word_of_int (k mod 2 ^ 59 + int p))"
    unfolding znode_jmp_line_def SIZEOF_ZEND_OP_def scast_distance [OF x] by simp
  also have "\<dots> = int p + k"
  proof (rule to_int_of_int [OF _ assms(3,4)])
    have "(k mod 2 ^ 59 + int p) mod 2 ^ 32 = (k mod 2 ^ 59 mod 2 ^ 32 + int p) mod 2 ^ 32"
      by (simp only: mod_add_left_eq)
    also have "k mod 2 ^ 59 mod (2::int) ^ 32 = k mod 2 ^ 32" by (simp add: mod_mod_cancel)
    finally show "(k mod 2 ^ 59 + int p) mod 2 ^ 32 = (int p + k) mod 2 ^ 32"
      by (simp only: mod_add_left_eq mod_add_right_eq add.commute [of k])
  qed
  finally show ?thesis .
qed

lemma znode_jmp_line_exact_witness:
  "znode_jmp_line (word_of_int (32 * (- 3))) 10 = int 10 + - 3"
  by (rule znode_jmp_line_exact) simp_all

section \<open>Control flow of compiled functions\<close>

text \<open>
  Where PHP's executor goes after an opcode, independently of \<open>xdebug_find_jumps\<close>: a jump operand
  is a signed distance in bytes. \<open>ZEND_JMP\<close> goes to its first operand, a conditional jump there or
  to the next opcode, \<open>ZEND_JMPZNZ\<close> to one of two distances, a loop header into the loop or behind
  it, a \<open>catch\<close> into its body or, unless it is the last one, to the next \<open>catch\<close>, a switch to a
  case, to its default, or on (when the operand has another type); \<open>return\<close>, \<open>throw\<close>, \<open>exit\<close>
  and the end of a \<open>finally\<close> leave. Every other opcode runs on to the next one.
\<close>

definition dist32 :: "u32 \<Rightarrow> int" where
  "dist32 w = sint w div 32"

definition dist64 :: "u64 \<Rightarrow> int" where
  "dist64 w = sint w div 32"

definition goes_next :: "zend_op \<Rightarrow> nat \<Rightarrow> int set" where
  "goes_next opn p =
     (case opcode opn of
        ZEND_JMP \<Rightarrow> {int p + dist32 (op1_jmp_offset opn)}
      | ZEND_GOTO \<Rightarrow> {int p + dist32 (op1_jmp_offset opn)}
      | ZEND_JMPZ \<Rightarrow> {int p + 1, int p + dist32 (op2_jmp_offset opn)}
      | ZEND_JMPNZ \<Rightarrow> {int p + 1, int p + dist32 (op2_jmp_offset opn)}
      | ZEND_JMPZ_EX \<Rightarrow> {int p + 1, int p + dist32 (op2_jmp_offset opn)}
      | ZEND_JMPNZ_EX \<Rightarrow> {int p + 1, int p + dist32 (op2_jmp_offset opn)}
      | ZEND_JMPZNZ \<Rightarrow>
          {int p + dist32 (op2_jmp_offset opn), int p + dist32 (extended_value opn)}
      | ZEND_FE_RESET_R \<Rightarrow> {int p + 1, int p + dist32 (op2_jmp_offset opn)}
      | ZEND_FE_RESET_RW \<Rightarrow> {int p + 1, int p + dist32 (op2_jmp_offset opn)}
      | ZEND_FE_FETCH_R \<Rightarrow> {int p + 1, int p + dist32 (extended_value opn)}
      | ZEND_FE_FETCH_RW \<Rightarrow> {int p + 1, int p + dist32 (extended_value opn)}
      | ZEND_CATCH \<Rightarrow>
          (if result_num opn = 0 then {int p + 1, int p + dist32 (extended_value opn)}
           else {int p + 1})
      | ZEND_FAST_CALL \<Rightarrow> {int p + dist32 (op1_jmp_offset opn), int p + 1}
      | ZEND_SWITCH_LONG \<Rightarrow>
          (\<lambda>v. int p + dist64 v) ` set (switch_vals opn) \<union> {int p + dist32 (extended_value opn), int p + 1}
      | ZEND_SWITCH_STRING \<Rightarrow>
          (\<lambda>v. int p + dist64 v) ` set (switch_vals opn) \<union> {int p + dist32 (extended_value opn), int p + 1}
      | ZEND_FAST_RET \<Rightarrow> {}
      | ZEND_GENERATOR_RETURN \<Rightarrow> {}
      | ZEND_RETURN \<Rightarrow> {}
      | ZEND_RETURN_BY_REF \<Rightarrow> {}
      | ZEND_THROW \<Rightarrow> {}
      | ZEND_EXIT \<Rightarrow> {}
      | _ \<Rightarrow> {int p + 1})"

text \<open>
  What the compiler produces: control stays inside the function, distances are whole opcodes, the
  distances in \<open>extended_value\<close> of loops, \<open>catch\<close>es and switches and the cases of a switch are
  forward. A switch has at most 62 cases: the analysis ignores the others.
\<close>

definition op_ok :: "zend_op \<Rightarrow> bool" where
  "op_ok opn \<longleftrightarrow>
     32 dvd sint (op1_jmp_offset opn) \<and> 32 dvd sint (op2_jmp_offset opn) \<and>
     32 dvd sint (extended_value opn) \<and>
     (opcode opn \<noteq> ZEND_JMPZNZ \<longrightarrow> 0 \<le> sint (extended_value opn)) \<and>
     (\<forall>v \<in> set (switch_vals opn). 32 dvd sint v \<and> 0 \<le> sint v) \<and>
     length (switch_vals opn) \<le> XDEBUG_BRANCH_MAX_OUTS - 2"

definition compiled :: "opcodes \<Rightarrow> bool" where
  "compiled opa \<longleftrightarrow>
     opa \<noteq> [] \<and> length opa < 2 ^ 31 - 3 \<and>
     (\<forall>p < length opa. op_ok (opa ! p) \<and> (\<forall>q \<in> goes_next (opa ! p) p. 0 \<le> q \<and> q < int (length opa)))"

definition flow :: "opcodes \<Rightarrow> (nat \<times> nat) set" where
  "flow opa = {(p, nat q) |p q. p < length opa \<and> q \<in> goes_next (opa ! p) p}"

lemma sint_dvd_word:
  assumes "32 dvd sint w"
  shows "w = word_of_int (32 * (sint w div 32))"
  using assms by simp

lemma uint_of_sint:
  assumes "0 \<le> sint (w :: 'a :: len word)"
  shows "uint w = sint w"
proof -
  have "sint w < 2 ^ LENGTH('a)"
    using sint_range_size [of w] power_increasing [of "size w - 1" "size w" "2 :: int"]
    by (simp add: word_size) (meson diff_le_self less_le_trans one_le_numeral power_increasing)
  then show ?thesis using assms uint_sint [of w] by (simp add: take_bit_int_eq_self)
qed

lemma znode_jmp_line_dist32:
  assumes "32 dvd sint w" and "0 \<le> int p + dist32 w" and "int p + dist32 w < 2 ^ 31"
  shows "znode_jmp_line w p = int p + dist32 w"
proof -
  have "- (2 ^ 31) \<le> sint w" "sint w < 2 ^ 31" using sint_range_size [of w] by (simp_all add: word_size)
  then have "- (2 ^ 26) \<le> dist32 w" "dist32 w < 2 ^ 26" unfolding dist32_def by simp_all
  from znode_jmp_line_exact [OF this assms(2,3)] show ?thesis
    using sint_dvd_word [OF assms(1)] by (simp add: dist32_def)
qed

lemma ext_target_dist32:
  assumes "0 \<le> sint (extended_value opn)" and "int p + dist32 (extended_value opn) < 2 ^ 31"
  shows "ext_target opn p = int p + dist32 (extended_value opn)"
proof -
  let ?w = "extended_value opn"
  have u: "uint ?w = sint ?w" using assms(1) by (rule uint_of_sint)
  have "uint (ucast ?w :: u64) = sint ?w" using u by (simp add: uint_up_ucast is_up)
  then have "uint ((ucast ?w :: u64) div SIZEOF_ZEND_OP) = dist32 ?w"
    by (simp add: uint_div SIZEOF_ZEND_OP_def dist32_def)
  then have "ext_target opn p = to_int (word_of_int (int p + dist32 ?w))"
    unfolding ext_target_def
    by (metis of_int_add of_int_of_nat_eq word_of_int_uint)
  moreover have "0 \<le> int p + dist32 ?w" using assms(1) by (simp add: dist32_def)
  ultimately show ?thesis using to_int_of_int [OF refl _ assms(2)] by metis
qed

lemma ext_target_signed_dist32:
  assumes "32 dvd sint (extended_value opn)" and "0 \<le> int p + dist32 (extended_value opn)"
    and "int p + dist32 (extended_value opn) < 2 ^ 31"
  shows "ext_target_signed opn p = int p + dist32 (extended_value opn)"
proof -
  have "signed_quot (sint (extended_value opn)) 32 = dist32 (extended_value opn)"
    using assms(1) by (auto simp: signed_quot_def dist32_def dvd_neg_div)
  then show ?thesis
    unfolding ext_target_signed_def using assms(2,3) by (simp add: to_int32_id)
qed

lemma case_target_dist64:
  assumes "0 \<le> sint v" and "int p + dist64 v < 2 ^ 31"
  shows "to_int (of_nat p + v div SIZEOF_ZEND_OP) = int p + dist64 v"
proof -
  have "uint (v div SIZEOF_ZEND_OP) = dist64 v"
    by (simp add: uint_div SIZEOF_ZEND_OP_def dist64_def uint_of_sint [OF assms(1)])
  then have "to_int (of_nat p + v div SIZEOF_ZEND_OP) = to_int (word_of_int (int p + dist64 v))"
    by (metis of_int_add of_int_of_nat_eq word_of_int_uint)
  moreover have "0 \<le> int p + dist64 v" using assms(1) by (simp add: dist64_def)
  ultimately show ?thesis using to_int_of_int [OF refl _ assms(2)] by metis
qed

lemma switch_targets_map:
  "length js + length vs \<le> XDEBUG_BRANCH_MAX_OUTS - 2 \<Longrightarrow>
   foldl (\<lambda>js v. if length js < XDEBUG_BRANCH_MAX_OUTS - 2
                  then js @ [to_int (of_nat p + v div SIZEOF_ZEND_OP)] else js) js vs =
   js @ map (\<lambda>v. to_int (of_nat p + v div SIZEOF_ZEND_OP)) vs"
  by (induction vs arbitrary: js) auto

lemma switch_targets_dist64:
  assumes "op_ok opn" and "\<forall>v \<in> set (switch_vals opn). int p + dist64 v < 2 ^ 31"
  shows "switch_targets p (switch_vals opn) = map (\<lambda>v. int p + dist64 v) (switch_vals opn)"
  using assms switch_targets_map [of "[]" "switch_vals opn" p]
  by (simp add: switch_targets_def op_ok_def case_target_dist64)

lemma in_range_goes_to: "q < 2 ^ 31 - 3 \<Longrightarrow> goes_to q"
  by (auto simp: goes_to_def XDEBUG_JMP_EXIT_def XDEBUG_JMP_NOT_SET_def)

lemma exit_goes_nowhere [simp]: "\<not> goes_to XDEBUG_JMP_EXIT"
  by (simp add: goes_to_def)

text \<open>What \<open>xdebug_find_jumps\<close> finds for an opcode is where control can go after it.\<close>

lemma find_jumps_exact:
  assumes ok: "op_ok opn" and rng: "\<forall>q \<in> goes_next opn p. 0 \<le> q \<and> q < 2 ^ 31 - 3"
  shows "case find_jumps opn p of
           Some js \<Rightarrow> set (filter goes_to js) = goes_next opn p
         | None \<Rightarrow> goes_next opn p = (if stops (opcode opn) then {} else {int p + 1})"
proof -
  note d = ok [unfolded op_ok_def] and rules = znode_jmp_line_dist32 ext_target_dist32 ext_target_signed_dist32
  have sw: "switch_targets p (switch_vals opn) = map (\<lambda>v. int p + dist64 v) (switch_vals opn)"
    if "opcode opn = ZEND_SWITCH_LONG \<or> opcode opn = ZEND_SWITCH_STRING"
    by (rule switch_targets_dist64 [OF ok]) (use rng that in \<open>force simp: goes_next_def\<close>)
  show ?thesis
    by (cases "opcode opn"; cases "result_num opn = 0")
       (use d rng sw in \<open>auto simp: goes_next_def find_jumps_def stops_def rules in_range_goes_to Let_def\<close>)
qed

lemma compiled_jumps:
  assumes "compiled opa"
  shows "ops_ok opa" and "jump_flow opa = flow opa"
proof -
  have l: "length opa < 2 ^ 31 - 3" using assms by (simp add: compiled_def)
  have rng: "0 \<le> q \<and> q < int (length opa)" if "p < length opa" "q \<in> goes_next (opa ! p) p" for p q
    using assms that by (simp add: compiled_def)
  have ex: "case find_jumps (opa ! p) p of
           Some js \<Rightarrow> set (filter goes_to js) = goes_next (opa ! p) p
         | None \<Rightarrow> goes_next (opa ! p) p = (if stops (opcode (opa ! p)) then {} else {int p + 1})"
    if "p < length opa" for p
    by (rule find_jumps_exact) (use assms that rng l in \<open>fastforce simp: compiled_def\<close>)+
  show ok: "ops_ok opa"
    unfolding ops_ok_def using l
  proof (intro conjI allI impI)
    fix p assume p: "p < length opa"
    show "case find_jumps (opa ! p) p of None \<Rightarrow> True
          | Some js \<Rightarrow> \<forall>j\<in>set js. goes_to j \<longrightarrow> 0 \<le> j \<and> j < int (length opa)"
    proof (cases "find_jumps (opa ! p) p")
      case (Some js)
      then have "set (filter goes_to js) = goes_next (opa ! p) p" using ex [OF p] by simp
      then show ?thesis using rng [OF p] Some by auto
    qed simp
  qed
  have "jump_succs opa p = nat ` goes_next (opa ! p) p" if p: "p < length opa" for p
  proof (cases "find_jumps (opa ! p) p")
    case (Some js)
    then have g: "set (filter goes_to js) = goes_next (opa ! p) p" using ex [OF p] by simp
    have "to_unsigned j = nat j" if "j \<in> goes_next (opa ! p) p" for j
      using rng [OF p that] l by (intro to_unsigned_nat) simp_all
    then have "to_unsigned ` set (filter goes_to js) = nat ` goes_next (opa ! p) p"
      unfolding g by (rule image_cong [OF refl])
    then show ?thesis using p Some by (simp add: jump_succs_def)
  next
    case None
    then show ?thesis using p ex [OF p] by (simp add: jump_succs_def nat_add_distrib)
  qed
  moreover have "jump_succs opa p = {}" if "\<not> p < length opa" for p
    using that by (simp add: jump_succs_def)
  ultimately have "q \<in> jump_succs opa p \<longleftrightarrow> p < length opa \<and> q \<in> nat ` goes_next (opa ! p) p" for p q
    by (metis empty_iff)
  then show "jump_flow opa = flow opa"
    unfolding jump_flow_def flow_def by auto
qed


definition op_with :: "zend_opcode \<Rightarrow> u32 \<Rightarrow> zend_op" where
  "op_with oc off = \<lparr>opcode = oc, lineno = 1, op1_jmp_offset = off, op2_jmp_offset = off,
     extended_value = off, result_num = 1, switch_vals = []\<rparr>"


text \<open>The cases of a switch behind the 62nd are not among the jumps found, so a case that only they
  lead to counts as dead.\<close>

lemma switch_cases_dropped: "length (switch_targets p vs) \<le> 62"
proof -
  have "length (foldl (\<lambda>js v. if length js < XDEBUG_BRANCH_MAX_OUTS - 2
      then js @ [to_int (of_nat p + v div SIZEOF_ZEND_OP)] else js) js vs) \<le> 62" if "length js \<le> 62" for js
    using that by (induction vs arbitrary: js) (simp_all add: XDEBUG_BRANCH_MAX_OUTS_def)
  then show ?thesis by (simp add: switch_targets_def)
qed

end
