(* ===== verification/Frames.thy ===== *)
theory Frames
  imports Prelude Str Hash "HOL-Library.Monad_Syntax"
begin

text \<open>
  The function stack (\<open>xdebug_private.h\<close>, \<open>xdebug_private.c\<close>). \<open>XG(stack)\<close> is \<open>None\<close> for NULL, else the
  list of its frames from the main script to the innermost call: the tail of the linked list is the last
  element. Of a frame the fields are kept that the modelled code reads.
\<close>

section \<open>Data\<close>

definition XFUNC_UNKNOWN :: nat where "XFUNC_UNKNOWN = 0x00"
definition XFUNC_NORMAL :: nat where "XFUNC_NORMAL = 0x01"
definition XFUNC_STATIC_MEMBER :: nat where "XFUNC_STATIC_MEMBER = 0x02"
definition XFUNC_MEMBER :: nat where "XFUNC_MEMBER = 0x03"
definition XFUNC_INCLUDES :: nat where "XFUNC_INCLUDES = 0x10"
definition XFUNC_EVAL :: nat where "XFUNC_EVAL = 0x10"
definition XFUNC_INCLUDE :: nat where "XFUNC_INCLUDE = 0x11"
definition XFUNC_INCLUDE_ONCE :: nat where "XFUNC_INCLUDE_ONCE = 0x12"
definition XFUNC_REQUIRE :: nat where "XFUNC_REQUIRE = 0x13"
definition XFUNC_REQUIRE_ONCE :: nat where "XFUNC_REQUIRE_ONCE = 0x14"
definition XFUNC_ZEND_PASS :: nat where "XFUNC_ZEND_PASS = 0x20"

definition XDEBUG_IS_FUNCTION :: "nat \<Rightarrow> bool" where
  "XDEBUG_IS_FUNCTION f \<longleftrightarrow> f = XFUNC_NORMAL \<or> f = XFUNC_STATIC_MEMBER \<or> f = XFUNC_MEMBER"

lemmas xfunc_defs = XFUNC_UNKNOWN_def XFUNC_NORMAL_def XFUNC_STATIC_MEMBER_def XFUNC_MEMBER_def
  XFUNC_INCLUDES_def XFUNC_EVAL_def XFUNC_INCLUDE_def XFUNC_INCLUDE_ONCE_def XFUNC_REQUIRE_def
  XFUNC_REQUIRE_ONCE_def XFUNC_ZEND_PASS_def

definition XDEBUG_INTERNAL :: nat where "XDEBUG_INTERNAL = 1"
definition XDEBUG_EXTERNAL :: nat where "XDEBUG_EXTERNAL = 2"

record xdebug_func =
  func_class :: "string option"
  func_function :: "string option"
  func_type :: nat

record function_stack_entry =
  fse_function :: xdebug_func
  user_defined :: nat
  fse_level :: int
  fse_filename :: "string option"
  fse_lineno :: int
  include_filename :: "string option"
  function_nr :: int
  filtered_tracing :: int
  filtered_code_coverage :: int
  declared_vars :: "xstr list option"
  fse_execute_data :: "nat option"
  fse_symbol_table :: "nat option"
  fse_this :: "nat option"

type_synonym fstack = "function_stack_entry list option"

section \<open>Access\<close>

definition get_stack_head :: "fstack \<Rightarrow> function_stack_entry option" where
  "get_stack_head st = (case st of None \<Rightarrow> None | Some [] \<Rightarrow> None | Some (f # fs) \<Rightarrow> Some f)"

definition get_stack_tail :: "fstack \<Rightarrow> function_stack_entry option" where
  "get_stack_tail st = (case st of None \<Rightarrow> None | Some fs \<Rightarrow> if fs = [] then None else Some (last fs))"

text \<open>Going \<open>nr\<close> frames towards the head.\<close>

fun step_prev :: "nat \<Rightarrow> function_stack_entry list \<Rightarrow> nat \<Rightarrow> nat option" where
  "step_prev 0 fs le = Some le"
| "step_prev (Suc nr) fs le = (if le = 0 then None else step_prev nr fs (le - 1))"

definition get_stack_frame :: "int \<Rightarrow> fstack \<Rightarrow> function_stack_entry option" where
  "get_stack_frame nr st =
     (case st of
        None \<Rightarrow> None
      | Some fs \<Rightarrow>
          if fs = [] then None
          else if nr < 0 then None
          else map_option (\<lambda>le. fs ! le) (step_prev (nat nr) fs (length fs - 1)))"

text \<open>The declared variables as a sorted hash of copied names.\<close>

definition compare_xdebug_str :: "hkey \<times> xstr \<Rightarrow> hkey \<times> xstr \<Rightarrow> int" where
  "compare_xdebug_str a b =
     (case (str_d (snd a), str_d (snd b)) of
        (Some x, Some y) \<Rightarrow> strcmp (cstr x) (cstr y) | _ \<Rightarrow> 0)"

fun add_declared :: "char \<Rightarrow> xstr list \<Rightarrow> xstr xhash \<Rightarrow> xstr xhash option" where
  "add_declared junk [] h = Some h"
| "add_declared junk (v # vs) h =
     do {
       c \<leftarrow> str_copy junk v;
       h \<leftarrow> hash_add_or_update (key_create (map_option (take (nat (str_l v))) (str_d v)) 0) c h;
       add_declared junk vs h
     }"

definition declared_var_hash_from_llist ::
  "char \<Rightarrow> xstr list \<Rightarrow> xstr xhash option" where
  "declared_var_hash_from_llist junk vs =
     add_declared junk vs (hash_alloc_with_sort 32 True compare_xdebug_str)"

lemma step_prev_iff: "step_prev nr fs le = (if nr \<le> le then Some (le - nr) else None)"
  by (induction nr arbitrary: le) auto

lemma get_stack_frame_rev:
  "get_stack_frame nr (Some fs) = (if 0 \<le> nr \<and> nat nr < length fs then Some (rev fs ! nat nr) else None)"
proof (cases "fs = []")
  case False
  then have "n \<le> length fs - 1 \<longleftrightarrow> n < length fs" for n by (cases fs) auto
  then show ?thesis using False by (auto simp: get_stack_frame_def step_prev_iff rev_nth)
qed (simp add: get_stack_frame_def)

end
