(* ===== verification/CodeCoverage.thy ===== *)
theory CodeCoverage
  imports Prelude BitSet OpArray BranchInfo BranchAnalysis Hash Str Frames
begin

text \<open>
  Line, branch and path coverage: \<open>xdebug_code_coverage.c\<close> and the part of \<open>xdebug_branch_info.c\<close>
  that works on the request's globals. Pointers are indices: a \<open>xdebug_coverage_file *\<close> an index into
  \<open>file_store\<close>, a line or function of a file an index into the stores of that file, a branch
  information an index into \<open>info_store\<close>, a path of the path stack an index into \<open>path_store\<close>, where a
  freed path is \<open>None\<close>; in \<open>last_branch_nr\<close> a number that was never written is \<open>None\<close>. Every operation
  returns \<open>None\<close> when the code would use memory it does not own or never wrote.
\<close>

section \<open>Data\<close>

record coverage_line =
  line_lineno :: int
  line_count :: int
  line_executable :: int

record coverage_function =
  function_name :: string
  function_branch_info :: "nat option"

record coverage_file =
  file_name :: string
  file_lines :: "nat xhash"
  line_store :: "coverage_line list"
  file_functions :: "nat xhash"
  function_store :: "coverage_function list"
  has_branch_info :: bool

text \<open>The fields of the request globals \<open>XG\<close> that coverage uses.\<close>

record coverage =
  code_coverage :: "nat xhash"
  file_store :: "coverage_file list"
  info_store :: "branch_info list"
  previous_filename :: "string option"
  previous_file :: nat
  previous_mark_filename :: "string option"
  previous_mark_file :: nat
  do_code_coverage :: bool
  cc_unused :: bool
  cc_dead_code_analysis :: bool
  cc_branch_check :: bool
  dead_code_last_start_id :: int
  level :: nat
  function_count :: int
  branches_size :: nat
  last_branch_nr :: "int option list"
  stack_paths :: "nat option list"
  path_store :: "path option list"
  visited_branches :: "unit xhash"

definition coverage_file_ctor :: "string \<Rightarrow> coverage_file" where
  "coverage_file_ctor filename =
     \<lparr>file_name = filename, file_lines = hash_alloc 128 True, line_store = [],
      file_functions = hash_alloc 128 True, function_store = [], has_branch_info = False\<rparr>"

definition coverage_function_ctor :: "string \<Rightarrow> coverage_function" where
  "coverage_function_ctor fname = \<lparr>function_name = fname, function_branch_info = None\<rparr>"

section \<open>Lines\<close>

text \<open>The file of a name, from the one-entry cache or the hash; a new file is added to the hash.\<close>

definition get_file :: "string \<Rightarrow> coverage \<Rightarrow> (nat \<times> coverage) option" where
  "get_file filename xg =
     (if previous_filename xg = Some filename then Some (previous_file xg, xg)
      else do {
        found \<leftarrow> hash_extended_find (Key_string filename) (code_coverage xg);
        (file, xg) \<leftarrow>
          (case found of
             Some file \<Rightarrow> Some (file, xg)
           | None \<Rightarrow> do {
               let file = length (file_store xg);
               h \<leftarrow> hash_add_or_update (Key_string filename) file (code_coverage xg);
               Some (file, xg\<lparr>file_store := file_store xg @ [coverage_file_ctor filename],
                              code_coverage := h\<rparr>)
             });
        if file < length (file_store xg)
        then Some (file, xg\<lparr>previous_filename := Some (file_name (file_store xg ! file)),
                            previous_file := file\<rparr>)
        else None
      })"

text \<open>Finding or adding the line of a file.\<close>

definition get_line :: "int \<Rightarrow> coverage_file \<Rightarrow> (nat \<times> coverage_file) option" where
  "get_line lno file =
     do {
       found \<leftarrow> hash_extended_find (Key_num (word_of_int lno)) (file_lines file);
       (case found of
          Some line \<Rightarrow> Some (line, file)
        | None \<Rightarrow> do {
            let line = length (line_store file);
            h \<leftarrow> hash_add_or_update (Key_num (word_of_int lno)) line (file_lines file);
            Some (line, file\<lparr>line_store := line_store file @
                               [\<lparr>line_lineno = lno, line_count = 0, line_executable = 0\<rparr>],
                             file_lines := h\<rparr>)
          })
     }"

definition touch_line :: "bool \<Rightarrow> bool \<Rightarrow> coverage_line \<Rightarrow> coverage_line" where
  "touch_line executable deadcode line =
     (if executable
      then if line_executable line \<noteq> 1 \<and> deadcode then line\<lparr>line_executable := 2\<rparr>
           else line\<lparr>line_executable := 1\<rparr>
      else line\<lparr>line_count := to_int32 (line_count line + 1)\<rparr>)"

definition count_line :: "string \<Rightarrow> int \<Rightarrow> bool \<Rightarrow> bool \<Rightarrow> coverage \<Rightarrow> coverage option" where
  "count_line filename lno executable deadcode xg =
     do {
       (i, xg) \<leftarrow> get_file filename xg;
       file \<leftarrow> (if i < length (file_store xg) then Some (file_store xg ! i) else None);
       (l, file) \<leftarrow> get_line lno file;
       line \<leftarrow> (if l < length (line_store file) then Some (line_store file ! l) else None);
       let file = file\<lparr>line_store := (line_store file)[l := touch_line executable deadcode line]\<rparr>;
       Some (xg\<lparr>file_store := (file_store xg)[i := file]\<rparr>)
     }"

definition counted_opcode :: "zend_opcode \<Rightarrow> bool" where
  "counted_opcode oc \<longleftrightarrow>
     oc \<noteq> ZEND_NOP \<and> oc \<noteq> ZEND_EXT_NOP \<and> oc \<noteq> ZEND_RECV \<and> oc \<noteq> ZEND_RECV_INIT \<and>
     oc \<noteq> ZEND_VERIFY_ABSTRACT_CLASS \<and> oc \<noteq> ZEND_OP_DATA \<and> oc \<noteq> ZEND_ADD_INTERFACE \<and>
     oc \<noteq> ZEND_TICKS \<and> oc \<noteq> ZEND_FAST_CALL \<and> oc \<noteq> ZEND_RECV_VARIADIC"

text \<open>The line number of an opcode is unsigned and becomes an \<open>int\<close>.\<close>

definition prefill_from_opcode :: "string \<Rightarrow> zend_op \<Rightarrow> bool \<Rightarrow> coverage \<Rightarrow> coverage option" where
  "prefill_from_opcode fn opn deadcode xg =
     (if counted_opcode (opcode opn)
      then count_line fn (to_int32 (int (lineno opn))) True deadcode xg else Some xg)"

section \<open>Functions\<close>

record zend_op_array =
  oa_function_name :: "string option"
  oa_filename :: string
  line_start :: nat
  line_end :: nat
  oa_scope :: "string option"
  acc_abstract :: bool
  done_pass_two :: bool
  is_user_function :: bool
  opcodes_of :: opcodes
  tracker :: int
  filtered_coverage :: bool

definition build_fname_from_oparray :: "zend_op_array \<Rightarrow> xdebug_func" where
  "build_fname_from_oparray opa =
     (let closure = (oa_function_name opa = Some ''{closure}'');
          f = (case oa_function_name opa of
                 Some n \<Rightarrow>
                   if n = ''{closure}''
                   then ''{closure:'' @ oa_filename opa @ '':'' @ dec_int (to_int32 (int (line_start opa))) @
                        ''-'' @ dec_int (to_int32 (int (line_end opa))) @ ''}''
                   else n
               | None \<Rightarrow> ''{main}'')
      in if oa_scope opa \<noteq> None \<and> \<not> closure
         then \<lparr>func_class = oa_scope opa, func_function = Some f, func_type = XFUNC_MEMBER\<rparr>
         else \<lparr>func_class = None, func_function = Some f, func_type = XFUNC_NORMAL\<rparr>)"

text \<open>\<open>%s\<close> of a null pointer prints \<open>(null)\<close>; \<open>xdstrdup\<close> of one is a fault.\<close>

definition func_format :: "xdebug_func \<Rightarrow> string option" where
  "func_format f =
     (if func_type f = XFUNC_NORMAL then func_function f
      else if func_type f = XFUNC_MEMBER
      then Some ((case func_class f of None \<Rightarrow> ''(null)'' | Some c \<Rightarrow> c) @ ''->'' @
                 (case func_function f of None \<Rightarrow> ''(null)'' | Some n \<Rightarrow> n))
      else Some ''???'')"

text \<open>\<open>xdebug_branch_info_add_branches_and_paths\<close>.\<close>

definition get_function :: "string \<Rightarrow> coverage_file \<Rightarrow> (nat \<times> coverage_file) option" where
  "get_function fname file =
     do {
       found \<leftarrow> hash_extended_find (Key_string fname) (file_functions file);
       (case found of
          Some f \<Rightarrow> Some (f, file)
        | None \<Rightarrow> do {
            let f = length (function_store file);
            h \<leftarrow> hash_add_or_update (Key_string fname) f (file_functions file);
            Some (f, file\<lparr>function_store := function_store file @ [coverage_function_ctor fname],
                          file_functions := h\<rparr>)
          })
     }"

definition add_branches_and_paths ::
  "string \<Rightarrow> string \<Rightarrow> branch_info option \<Rightarrow> coverage \<Rightarrow> coverage option" where
  "add_branches_and_paths filename fname bi xg =
     do {
       (i, xg) \<leftarrow> get_file filename xg;
       file \<leftarrow> (if i < length (file_store xg) then Some (file_store xg ! i) else None);
       (f, file) \<leftarrow> get_function fname file;
       fn \<leftarrow> (if f < length (function_store file) then Some (function_store file ! f) else None);
       let file = (if bi \<noteq> None then file\<lparr>has_branch_info := True\<rparr> else file);
       let ptr = map_option (\<lambda>_. length (info_store xg)) bi;
       let file = file\<lparr>function_store := (function_store file)[f := fn\<lparr>function_branch_info := ptr\<rparr>]\<rparr>;
       Some (xg\<lparr>file_store := (file_store xg)[i := file],
                info_store := info_store xg @ (case bi of None \<Rightarrow> [] | Some b \<Rightarrow> [b])\<rparr>)
     }"

fun prefill_opcodes :: "string \<Rightarrow> (nat \<Rightarrow> bool option) \<Rightarrow> nat \<Rightarrow> opcodes \<Rightarrow> coverage \<Rightarrow> coverage option" where
  "prefill_opcodes filename dead i [] xg = Some xg"
| "prefill_opcodes filename dead i (opn # opns) xg =
     do {
       d \<leftarrow> dead i;
       xg \<leftarrow> prefill_from_opcode filename opn d xg;
       prefill_opcodes filename dead (i + 1) opns xg
     }"

text \<open>Analysing one function; the fuel bounds the depth of the two recursive searches.\<close>

definition prefill_from_oparray ::
  "char \<Rightarrow> nat \<Rightarrow> string \<Rightarrow> zend_op_array \<Rightarrow> coverage \<Rightarrow> (zend_op_array \<times> coverage) option" where
  "prefill_from_oparray junk fuel filename opa xg =
     (let opa = opa\<lparr>tracker := dead_code_last_start_id xg\<rparr>; opns = opcodes_of opa
      in if acc_abstract opa then Some (opa, xg)
      else if filtered_coverage opa then Some (opa, xg)
      else do {
        an \<leftarrow> (if cc_dead_code_analysis xg \<and> done_pass_two opa
               then do {
                 st \<leftarrow> analyse_oparray fuel opns
                   \<lparr>visited = set_create (of_nat (length opns)),
                    info = (if cc_branch_check xg then Some (branch_info_create (length opns)) else None)\<rparr>;
                 Some (Some st)
               }
               else Some None);
        xg \<leftarrow> prefill_opcodes filename
               (\<lambda>i. case an of None \<Rightarrow> Some False
                    | Some st \<Rightarrow> map_option Not (set_in_ex (of_nat i) (visited st))) 0 opns xg;
        (case Option.bind an info of
           None \<Rightarrow> Some (opa, xg)
         | Some bi \<Rightarrow> do {
             fname \<leftarrow> func_format (build_fname_from_oparray opa);
             bi \<leftarrow> branch_post_process opns bi;
             bi \<leftarrow> branch_find_paths junk fuel bi;
             xg \<leftarrow> add_branches_and_paths filename fname (Some bi) xg;
             Some (opa, xg)
           })
      })"

text \<open>The function and class tables of the engine; functions are indices into \<open>op_arrays\<close>.\<close>

record class_entry =
  user_class :: bool
  class_visited :: bool
  class_methods :: "nat list"

record engine =
  op_arrays :: "zend_op_array list"
  function_table :: "nat list"
  class_table :: "class_entry list"

definition prefill_if_new ::
  "char \<Rightarrow> nat \<Rightarrow> nat \<Rightarrow> engine \<times> coverage \<Rightarrow> (engine \<times> coverage) option" where
  "prefill_if_new junk fuel f = (\<lambda>(eg, xg).
     do {
       opa \<leftarrow> (if f < length (op_arrays eg) then Some (op_arrays eg ! f) else None);
       if tracker opa < dead_code_last_start_id xg
       then do {
         (opa, xg) \<leftarrow> prefill_from_oparray junk fuel (oa_filename opa) opa xg;
         Some (eg\<lparr>op_arrays := (op_arrays eg)[f := opa]\<rparr>, xg)
       }
       else Some (eg, xg)
     })"

definition prefill_from_function_table ::
  "char \<Rightarrow> nat \<Rightarrow> nat \<Rightarrow> engine \<times> coverage \<Rightarrow> (engine \<times> coverage) option" where
  "prefill_from_function_table junk fuel f = (\<lambda>(eg, xg).
     do {
       opa \<leftarrow> (if f < length (op_arrays eg) then Some (op_arrays eg ! f) else None);
       if is_user_function opa then prefill_if_new junk fuel f (eg, xg) else Some (eg, xg)
     })"

fun prefill_functions ::
  "char \<Rightarrow> nat \<Rightarrow> nat list \<Rightarrow> engine \<times> coverage \<Rightarrow> (engine \<times> coverage) option" where
  "prefill_functions junk fuel [] s = Some s"
| "prefill_functions junk fuel (f # fs) s =
     do { s \<leftarrow> prefill_from_function_table junk fuel f s; prefill_functions junk fuel fs s }"

definition prefill_from_class_table ::
  "char \<Rightarrow> nat \<Rightarrow> nat \<Rightarrow> engine \<times> coverage \<Rightarrow> (engine \<times> coverage) option" where
  "prefill_from_class_table junk fuel c = (\<lambda>(eg, xg).
     do {
       ce \<leftarrow> (if c < length (class_table eg) then Some (class_table eg ! c) else None);
       if user_class ce \<and> \<not> class_visited ce
       then prefill_functions junk fuel (class_methods ce)
              (eg\<lparr>class_table := (class_table eg)[c := ce\<lparr>class_visited := True\<rparr>]\<rparr>, xg)
       else Some (eg, xg)
     })"

fun prefill_classes ::
  "char \<Rightarrow> nat \<Rightarrow> nat list \<Rightarrow> engine \<times> coverage \<Rightarrow> (engine \<times> coverage) option" where
  "prefill_classes junk fuel [] s = Some s"
| "prefill_classes junk fuel (c # cs) s =
     do { s \<leftarrow> prefill_from_class_table junk fuel c s; prefill_classes junk fuel cs s }"

definition prefill_code_coverage ::
  "char \<Rightarrow> nat \<Rightarrow> nat \<Rightarrow> engine \<times> coverage \<Rightarrow> (engine \<times> coverage) option" where
  "prefill_code_coverage junk fuel f s =
     do {
       s \<leftarrow> prefill_if_new junk fuel f s;
       s \<leftarrow> prefill_functions junk fuel (function_table (fst s)) s;
       prefill_classes junk fuel [0..<length (class_table (fst s))] s
     }"

section \<open>The path of each stack level\<close>

text \<open>New \<open>last_branch_nr\<close> entries from the old number of paths on are set to -1; new paths are NULL.\<close>

definition make_sure_level_exists :: "nat \<Rightarrow> coverage \<Rightarrow> coverage" where
  "make_sure_level_exists lv xg =
     (let orig = length (stack_paths xg)
      in if orig \<le> lv
         then xg\<lparr>last_branch_nr :=
                     take orig (last_branch_nr xg) @
                     replicate (length (last_branch_nr xg) - orig) (Some (- 1)),
                 stack_paths := stack_paths xg @ replicate (lv + 32 - orig) None\<rparr>
         else xg)"

definition add_path_for_level :: "nat option \<Rightarrow> nat \<Rightarrow> coverage \<Rightarrow> coverage" where
  "add_path_for_level p lv xg =
     (let xg = make_sure_level_exists lv xg in xg\<lparr>stack_paths := (stack_paths xg)[lv := p]\<rparr>)"

definition get_path_for_level :: "nat \<Rightarrow> coverage \<Rightarrow> nat option \<times> coverage" where
  "get_path_for_level lv xg =
     (let xg = make_sure_level_exists lv xg in (stack_paths xg ! lv, xg))"

definition path_of :: "nat \<Rightarrow> coverage \<Rightarrow> path option" where
  "path_of p xg = (if p < length (path_store xg) then path_store xg ! p else None)"

definition start_of_function ::
  "char \<Rightarrow> nat \<Rightarrow> nat \<Rightarrow> engine \<times> coverage \<Rightarrow> (engine \<times> coverage) option" where
  "start_of_function junk fuel f = (\<lambda>(eg, xg).
     do {
       let p = length (path_store xg);
       let xg = xg\<lparr>path_store := path_store xg @ [Some (path_new None)]\<rparr>;
       (eg, xg) \<leftarrow> prefill_code_coverage junk fuel f (eg, xg);
       let xg = add_path_for_level (Some p) (level xg) xg;
       let xg = (if branches_size xg = 0 \<or> branches_size xg \<le> level xg
                 then xg\<lparr>branches_size := level xg + 32,
                         last_branch_nr := last_branch_nr xg @
                           replicate (level xg + 32 - length (last_branch_nr xg)) None\<rparr>
                 else xg);
       if level xg < length (last_branch_nr xg)
       then Some (eg, xg\<lparr>last_branch_nr := (last_branch_nr xg)[level xg := Some (- 1)]\<rparr>)
       else None
     })"

text \<open>The file in the cache of the mark functions; the outer \<open>None\<close> is a fault.\<close>

definition get_mark_file :: "string \<Rightarrow> coverage \<Rightarrow> (nat option \<times> coverage) option" where
  "get_mark_file filename xg =
     (if previous_mark_filename xg = Some filename then Some (Some (previous_mark_file xg), xg)
      else do {
        found \<leftarrow> hash_extended_find (Key_string filename) (code_coverage xg);
        (case found of
           None \<Rightarrow> Some (None, xg)
         | Some i \<Rightarrow>
             if i < length (file_store xg)
             then Some (Some i, xg\<lparr>previous_mark_filename := Some (file_name (file_store xg ! i)),
                                   previous_mark_file := i\<rparr>)
             else None)
      })"

text \<open>The branch information of a function, when its file has any; \<open>Some None\<close> is the early return.\<close>

definition get_mark_info :: "string \<Rightarrow> string \<Rightarrow> coverage \<Rightarrow> (nat option \<times> coverage) option" where
  "get_mark_info filename fname xg =
     do {
       (i, xg) \<leftarrow> get_mark_file filename xg;
       (case i of
          None \<Rightarrow> Some (None, xg)
        | Some i \<Rightarrow> do {
            file \<leftarrow> (if i < length (file_store xg) then Some (file_store xg ! i) else None);
            if \<not> has_branch_info file then Some (None, xg)
            else do {
              found \<leftarrow> hash_extended_find (Key_string fname) (file_functions file);
              (case found of
                 None \<Rightarrow> Some (None, xg)
               | Some f \<Rightarrow>
                   if f < length (function_store file)
                   then (case function_branch_info (function_store file ! f) of
                           Some b \<Rightarrow> if b < length (info_store xg) then Some (Some b, xg) else None
                         | None \<Rightarrow> None)
                   else None)
            }
          })
     }"

definition mark_end_of_function_reached ::
  "string \<Rightarrow> string \<Rightarrow> hkey \<Rightarrow> coverage \<Rightarrow> coverage option" where
  "mark_end_of_function_reached filename fname key xg =
     do {
       (b, xg) \<leftarrow> get_mark_info filename fname xg;
       (case b of
          None \<Rightarrow> Some xg
        | Some b \<Rightarrow> do {
            let bi = info_store xg ! b;
            h \<leftarrow> path_hash bi;
            found \<leftarrow> hash_extended_find key h;
            (case found of
               None \<Rightarrow> Some xg
             | Some p \<Rightarrow>
                 if p < length (paths bi)
                 then Some (xg\<lparr>info_store := (info_store xg)
                        [b := bi\<lparr>paths := (paths bi)[p := (paths bi ! p)\<lparr>path_hit := True\<rparr>]\<rparr>]\<rparr>)
                 else None)
          })
     }"

definition end_of_function :: "char \<Rightarrow> string \<Rightarrow> string \<Rightarrow> coverage \<Rightarrow> coverage option" where
  "end_of_function junk filename fname xg =
     (let (p, xg) = get_path_for_level (level xg) xg
      in (case p of
            None \<Rightarrow> Some xg
          | Some p \<Rightarrow> do {
              pa \<leftarrow> path_of p xg;
              key \<leftarrow> create_key_for_path junk pa str_new;
              xg \<leftarrow> mark_end_of_function_reached filename fname
                     (key_create (map_option (take (nat (str_l key))) (str_d key)) 0) xg;
              Some (xg\<lparr>path_store := (path_store xg)[p := None]\<rparr>)
            }))"

section \<open>Marking branches as they run\<close>

text \<open>Setting \<open>outs_hit\<close> of every out of a branch that leads to the opcode.\<close>

definition mark_outs :: "nat \<Rightarrow> branch \<Rightarrow> branch" where
  "mark_outs opcode_nr b =
     b\<lparr>outs_hit := map (\<lambda>i. if i < outs_count b \<and> outs b ! i = int opcode_nr then True else outs_hit b ! i)
                    [0..<length (outs_hit b)]\<rparr>"

definition mark_previous_out :: "int \<Rightarrow> nat \<Rightarrow> branch_info \<Rightarrow> branch_info option" where
  "mark_previous_out last_nr opcode_nr bi =
     (if last_nr = - 1 then Some bi
      else if last_nr < 0 then None
      else mod_branch (nat last_nr) (mark_outs opcode_nr) bi)"

text \<open>\<open>xdebug_path_add\<close> on the path of the current level, which may be NULL.\<close>

definition add_to_level_path :: "nat \<Rightarrow> coverage \<Rightarrow> coverage option" where
  "add_to_level_path opcode_nr xg =
     (if level xg < length (stack_paths xg)
      then (case stack_paths xg ! level xg of
              None \<Rightarrow> Some xg
            | Some p \<Rightarrow> do {
                pa \<leftarrow> path_of p xg;
                Some (xg\<lparr>path_store := (path_store xg)[p := Some (path_add opcode_nr pa)]\<rparr>)
              })
      else None)"

definition branch_key :: "nat \<Rightarrow> int \<Rightarrow> int \<Rightarrow> string" where
  "branch_key opcode_nr last_nr fc =
     dec_int (to_int32 (int opcode_nr)) @ '':'' @ dec_int last_nr @ '':'' @ dec_int (to_int32 fc)"

definition mark_start_reached :: "nat \<Rightarrow> nat \<Rightarrow> coverage \<Rightarrow> coverage option" where
  "mark_start_reached b opcode_nr xg =
     do {
       last_nr \<leftarrow> (if level xg < length (last_branch_nr xg) then last_branch_nr xg ! level xg else None);
       bi \<leftarrow> mark_previous_out last_nr opcode_nr (info_store xg ! b);
       let xg = xg\<lparr>info_store := (info_store xg)[b := bi]\<rparr>;
       let key = Key_string (branch_key opcode_nr last_nr (function_count xg));
       found \<leftarrow> hash_extended_find key (visited_branches xg);
       xg \<leftarrow> (case found of
               Some _ \<Rightarrow> Some xg
             | None \<Rightarrow> do {
                 xg \<leftarrow> add_to_level_path opcode_nr xg;
                 h \<leftarrow> hash_add_or_update key () (visited_branches xg);
                 Some (xg\<lparr>visited_branches := h\<rparr>)
               });
       bi \<leftarrow> mod_branch opcode_nr (\<lambda>br. br\<lparr>branch_hit := True\<rparr>) (info_store xg ! b);
       Some (xg\<lparr>info_store := (info_store xg)[b := bi],
                last_branch_nr := (last_branch_nr xg)[level xg := Some (int opcode_nr)]\<rparr>)
     }"

definition mark_reached ::
  "char \<Rightarrow> nat \<Rightarrow> string \<Rightarrow> string \<Rightarrow> nat \<Rightarrow> nat \<Rightarrow> engine \<times> coverage \<Rightarrow> (engine \<times> coverage) option" where
  "mark_reached junk fuel filename fname f opcode_nr = (\<lambda>(eg, xg).
     do {
       (b, xg) \<leftarrow> get_mark_info filename fname xg;
       (case b of
          None \<Rightarrow> Some (eg, xg)
        | Some b \<Rightarrow> do {
            entry \<leftarrow> (if opcode_nr = 0 then Some False
                      else set_in_ex (of_nat opcode_nr) (entry_points (info_store xg ! b)));
            (eg, xg) \<leftarrow> (if entry
                         then do {
                           xg \<leftarrow> end_of_function junk filename fname xg;
                           start_of_function junk fuel f (eg, xg)
                         }
                         else Some (eg, xg));
            start \<leftarrow> set_in_ex (of_nat opcode_nr) (starts (info_store xg ! b));
            if start then do { xg \<leftarrow> mark_start_reached b opcode_nr xg; Some (eg, xg) }
            else Some (eg, xg)
          })
     })"

definition print_opcode_info ::
  "char \<Rightarrow> nat \<Rightarrow> nat \<Rightarrow> nat \<Rightarrow> engine \<times> coverage \<Rightarrow> (engine \<times> coverage) option" where
  "print_opcode_info junk fuel f opnr s =
     do {
       opa \<leftarrow> (if f < length (op_arrays (fst s)) then Some (op_arrays (fst s) ! f) else None);
       fname \<leftarrow> func_format (build_fname_from_oparray opa);
       mark_reached junk fuel (oa_filename opa) fname f opnr s
     }"

definition check_branch_entry_handler ::
  "char \<Rightarrow> nat \<Rightarrow> nat \<Rightarrow> nat \<Rightarrow> engine \<times> coverage \<Rightarrow> (engine \<times> coverage) option" where
  "check_branch_entry_handler junk fuel f opnr s =
     do {
       opa \<leftarrow> (if f < length (op_arrays (fst s)) then Some (op_arrays (fst s) ! f) else None);
       if \<not> filtered_coverage opa \<and> do_code_coverage (snd s)
       then print_opcode_info junk fuel f opnr s else Some s
     }"

definition common_override_handler ::
  "char \<Rightarrow> nat \<Rightarrow> nat \<Rightarrow> nat \<Rightarrow> engine \<times> coverage \<Rightarrow> (engine \<times> coverage) option" where
  "common_override_handler junk fuel f opnr s =
     do {
       opa \<leftarrow> (if f < length (op_arrays (fst s)) then Some (op_arrays (fst s) ! f) else None);
       if \<not> filtered_coverage opa \<and> do_code_coverage (snd s)
       then do {
         opn \<leftarrow> op_at (opcodes_of opa) opnr;
         (eg, xg) \<leftarrow> print_opcode_info junk fuel f opnr s;
         xg \<leftarrow> count_line (oa_filename opa) (to_int32 (int (lineno opn))) False False xg;
         Some (eg, xg)
       }
       else Some s
     }"

section \<open>Start and stop\<close>

definition XDEBUG_CC_OPTION_UNUSED :: int where "XDEBUG_CC_OPTION_UNUSED = 1"
definition XDEBUG_CC_OPTION_DEAD_CODE :: int where "XDEBUG_CC_OPTION_DEAD_CODE = 2"
definition XDEBUG_CC_OPTION_BRANCH_CHECK :: int where "XDEBUG_CC_OPTION_BRANCH_CHECK = 4"

text \<open>\<open>options\<close> defaults to 0; the result is the returned boolean. The last check is whether the hash
  \<open>XG(code_coverage)\<close> is allocated, which it is in every request.\<close>

definition start_code_coverage :: "int \<Rightarrow> bool \<Rightarrow> bool \<Rightarrow> coverage \<Rightarrow> bool \<times> coverage" where
  "start_code_coverage options extended_info hash_allocated xg =
     (let xg = xg\<lparr>cc_unused := (and options XDEBUG_CC_OPTION_UNUSED \<noteq> 0),
                  cc_dead_code_analysis := (and options XDEBUG_CC_OPTION_DEAD_CODE \<noteq> 0),
                  cc_branch_check := (and options XDEBUG_CC_OPTION_BRANCH_CHECK \<noteq> 0)\<rparr>
      in if \<not> extended_info then (False, xg)
         else if \<not> hash_allocated then (False, xg)
         else (True, xg\<lparr>do_code_coverage := True\<rparr>))"

definition stop_code_coverage :: "bool \<Rightarrow> coverage \<Rightarrow> bool \<times> coverage" where
  "stop_code_coverage cleanup xg =
     (if do_code_coverage xg
      then
        (let xg = (if cleanup
                   then xg\<lparr>previous_filename := None, previous_mark_filename := None,
                           code_coverage := hash_alloc 32 True,
                           dead_code_last_start_id := dead_code_last_start_id xg + 1,
                           stack_paths := []\<rparr>
                   else xg)
         in (True, xg\<lparr>do_code_coverage := False\<rparr>))
      else (False, xg))"

section \<open>The report\<close>

text \<open>PHP arrays with keys in insertion order; adding under an existing key replaces the value.\<close>

datatype zkey = ZInt int | ZStr string

datatype zval = Long int | Arr "(zkey \<times> zval) list"

type_synonym zarray = "(zkey \<times> zval) list"

definition add_line :: "zarray \<Rightarrow> coverage_line \<Rightarrow> zarray" where
  "add_line retval line =
     AList.update (ZInt (line_lineno line))
       (Long (if line_executable line \<noteq> 0 \<and> line_count line = 0 then - line_executable line else 1)) retval"

text \<open>\<open>xdebug_lineno_cmp\<close> compares the keys of two integer-keyed elements as unsigned numbers.\<close>

definition lineno_cmp :: "u64 \<Rightarrow> u64 \<Rightarrow> int" where
  "lineno_cmp f s = (if f < s then - 1 else if f > s then 1 else 0)"

definition index_key :: "zkey \<times> zval \<Rightarrow> u64" where
  "index_key e = (case fst e of ZInt i \<Rightarrow> word_of_int i | ZStr _ \<Rightarrow> 0)"

definition out_list :: "branch \<Rightarrow> (nat \<Rightarrow> int) \<Rightarrow> zarray" where
  "out_list b f =
     foldl (\<lambda>arr j. if outs b ! j \<noteq> 0 then AList.update (ZInt (int j)) (Long (f j)) arr else arr) []
       [0..<outs_count b]"

definition report_branch :: "nat \<Rightarrow> branch \<Rightarrow> zval" where
  "report_branch i b =
     Arr [(ZStr ''op_start'', Long (int i)), (ZStr ''op_end'', Long (int (end_op b))),
          (ZStr ''line_start'', Long (int (start_lineno b))), (ZStr ''line_end'', Long (int (end_lineno b))),
          (ZStr ''hit'', Long (if branch_hit b then 1 else 0)),
          (ZStr ''out'', Arr (out_list b (\<lambda>j. outs b ! j))),
          (ZStr ''out_hit'', Arr (out_list b (\<lambda>j. if outs_hit b ! j then 1 else 0)))]"

fun add_branch_list :: "nat list \<Rightarrow> branch_info \<Rightarrow> zarray \<Rightarrow> zarray option" where
  "add_branch_list [] bi arr = Some arr"
| "add_branch_list (i # is) bi arr =
     do {
       start \<leftarrow> set_in_ex (of_nat i) (starts bi);
       arr \<leftarrow> (if start
               then if i < length (branches bi)
                    then Some (AList.update (ZInt (int i)) (report_branch i (branches bi ! i)) arr) else None
               else Some arr);
       add_branch_list is bi arr
     }"

definition add_branches :: "branch_info \<Rightarrow> zarray \<Rightarrow> zarray option" where
  "add_branches bi retval =
     do {
       arr \<leftarrow> add_branch_list [0..<unat (set_size (starts bi))] bi [];
       Some (AList.update (ZStr ''branches'') (Arr arr) retval)
     }"

definition report_path :: "path \<Rightarrow> zval" where
  "report_path p =
     Arr [(ZStr ''path'', Arr (map (\<lambda>j. (ZInt (int j), Long (int (elements p ! j)))) [0..<length (elements p)])),
          (ZStr ''hit'', Long (if path_hit p then 1 else 0))]"

definition add_paths :: "branch_info \<Rightarrow> zarray \<Rightarrow> zarray" where
  "add_paths bi retval =
     AList.update (ZStr ''paths'')
       (Arr (map (\<lambda>i. (ZInt (int i), report_path (paths bi ! i))) [0..<length (paths bi)])) retval"

definition add_cc_function :: "coverage \<Rightarrow> coverage_function \<Rightarrow> zarray \<Rightarrow> zarray option" where
  "add_cc_function xg fn retval =
     (case function_branch_info fn of
        None \<Rightarrow> Some (AList.update (ZStr (function_name fn)) (Arr []) retval)
      | Some b \<Rightarrow> do {
          bi \<leftarrow> (if b < length (info_store xg) then Some (info_store xg ! b) else None);
          fi \<leftarrow> add_branches bi [];
          Some (AList.update (ZStr (function_name fn)) (Arr (add_paths bi fi)) retval)
        })"

text \<open>Applying a callback that may fault to the elements of a hash.\<close>

definition apply_all :: "('e \<Rightarrow> zarray \<Rightarrow> zarray option) \<Rightarrow> 'e list \<Rightarrow> nat xhash \<Rightarrow> zarray \<Rightarrow> zarray option" where
  "apply_all cb store h arr =
     hash_apply (\<lambda>acc e. Option.bind acc (\<lambda>arr. if snd e < length store then cb (store ! snd e) arr else None))
       h (Some arr)"

definition add_file ::
  "((u64 \<Rightarrow> u64 \<Rightarrow> int) \<Rightarrow> zarray \<Rightarrow> zarray) \<Rightarrow> coverage \<Rightarrow> coverage_file \<Rightarrow> zarray \<Rightarrow> zarray option" where
  "add_file hash_sort xg file retval =
     do {
       lines \<leftarrow> apply_all (\<lambda>line arr. Some (add_line arr line)) (line_store file) (file_lines file) [];
       let lines = hash_sort lineno_cmp lines;
       if has_branch_info file
       then do {
         functions \<leftarrow> apply_all (add_cc_function xg) (function_store file) (file_functions file) [];
         Some (AList.update (ZStr (file_name file))
                (Arr [(ZStr ''lines'', Arr lines), (ZStr ''functions'', Arr functions)]) retval)
       }
       else Some (AList.update (ZStr (file_name file)) (Arr lines) retval)
     }"

definition get_code_coverage ::
  "((u64 \<Rightarrow> u64 \<Rightarrow> int) \<Rightarrow> zarray \<Rightarrow> zarray) \<Rightarrow> coverage \<Rightarrow> zarray option" where
  "get_code_coverage hash_sort xg = apply_all (add_file hash_sort xg) (file_store xg) (code_coverage xg) []"

end
