(* ===== verification/CoverageFacts.thy ===== *)
theory CoverageFacts
  imports CodeCoverage
begin

text \<open>
  What line counting does, for \<open>CodeCoverage\<close>: the state of a line is the pair of its count and its
  \<open>executable\<close> mark, and the view of a request maps a file and a line to it. The invariant relates the
  hash tables with the stores and the one-entry cache with the hash.
\<close>

section \<open>The state of a line\<close>

definition bump :: "bool \<times> bool \<Rightarrow> (int \<times> int) option \<Rightarrow> (int \<times> int) option" where
  "bump h o' =
     (let (cnt, ex) = (case o' of None \<Rightarrow> (0, 0) | Some x \<Rightarrow> x)
      in Some (if fst h then (cnt, if ex \<noteq> 1 \<and> snd h then 2 else 1) else (to_int32 (cnt + 1), ex)))"

definition line_history :: "(bool \<times> bool) list \<Rightarrow> (int \<times> int) option" where
  "line_history hs = fold bump hs None"

definition line_state :: "coverage_line \<Rightarrow> int \<times> int" where
  "line_state l = (line_count l, line_executable l)"

definition line_key :: "int \<Rightarrow> hkey" where
  "line_key lno = Key_num (word_of_int lno)"

definition file_view :: "coverage_file \<Rightarrow> int \<Rightarrow> (int \<times> int) option" where
  "file_view file lno =
     map_option (\<lambda>i. line_state (line_store file ! i)) (abs_hash (file_lines file) (line_key lno))"

definition is_int :: "int \<Rightarrow> bool" where
  "is_int i \<longleftrightarrow> - (2 ^ 31) \<le> i \<and> i < 2 ^ 31"

definition file_ok :: "coverage_file \<Rightarrow> bool" where
  "file_ok file \<longleftrightarrow> hash_inv (file_lines file) \<and>
     (\<forall>k i. abs_hash (file_lines file) k = Some i \<longrightarrow>
        i < length (line_store file) \<and> k = line_key (line_lineno (line_store file ! i)) \<and>
        is_int (line_lineno (line_store file ! i)))"

lemma line_key_inj: "is_int a \<Longrightarrow> is_int b \<Longrightarrow> line_key a = line_key b \<longleftrightarrow> a = b"
proof -
  assume ab: "is_int a" "is_int b"
  have "sint (word_of_int i :: u64) = i" if "is_int i" for i
    using that by (simp add: is_int_def signed_of_int signed_take_bit_int_eq_self)
  then show ?thesis using ab unfolding line_key_def by (metis hkey.inject(2))
qed

lemma key_ok_line_key [simp]: "key_ok (line_key lno)"
  by (simp add: key_ok_def line_key_def)

lemma line_state_touch:
  "line_state (touch_line ex dead l) = the (bump (ex, dead) (Some (line_state l)))"
  by (simp add: line_state_def touch_line_def bump_def)

lemma touch_lineno [simp]: "line_lineno (touch_line ex dead l) = line_lineno l"
  by (simp add: touch_line_def)

lemma bump_Some: "bump h o' = Some (the (bump h o'))"
  by (simp add: bump_def Let_def split: prod.splits)

lemma lineno_touched [simp]:
  "line_lineno (ls[l := touch_line ex dead (ls ! l)] ! i) = line_lineno (ls ! i)"
  by (cases "l < length ls") (auto simp: nth_list_update list_update_beyond)

lemma file_okD:
  assumes "file_ok file" and "abs_hash (file_lines file) k = Some i"
  shows "i < length (line_store file)" and "k = line_key (line_lineno (line_store file ! i))"
    and "is_int (line_lineno (line_store file ! i))"
  using assms unfolding file_ok_def by blast+

lemma file_okI:
  assumes "hash_inv (file_lines file)"
    and "\<And>k i. abs_hash (file_lines file) k = Some i \<Longrightarrow>
           i < length (line_store file) \<and> k = line_key (line_lineno (line_store file ! i)) \<and>
           is_int (line_lineno (line_store file ! i))"
  shows "file_ok file"
  using assms unfolding file_ok_def by blast

definition touch_file :: "int \<Rightarrow> bool \<Rightarrow> bool \<Rightarrow> coverage_file \<Rightarrow> coverage_file option" where
  "touch_file lno executable deadcode file =
     do {
       (l, file) \<leftarrow> get_line lno file;
       line \<leftarrow> (if l < length (line_store file) then Some (line_store file ! l) else None);
       Some (file\<lparr>line_store := (line_store file)[l := touch_line executable deadcode line]\<rparr>)
     }"

lemma get_line_ok:
  assumes "file_ok file" and "is_int lno"
  shows "\<exists>l f1. get_line lno file = Some (l, f1) \<and> file_ok f1 \<and> l < length (line_store f1) \<and>
     abs_hash (file_lines f1) (line_key lno) = Some l \<and>
     line_state (line_store f1 ! l) = (case file_view file lno of None \<Rightarrow> (0, 0) | Some x \<Rightarrow> x) \<and>
     (\<forall>n. is_int n \<longrightarrow> n \<noteq> lno \<longrightarrow> file_view f1 n = file_view file n) \<and>
     file_name f1 = file_name file \<and> has_branch_info f1 = has_branch_info file"
proof -
  have inv: "hash_inv (file_lines file)" using assms by (simp add: file_ok_def)
  have find: "hash_extended_find (Key_num (word_of_int lno)) (file_lines file) =
      Some (abs_hash (file_lines file) (line_key lno))"
    using hash_extended_find_ok [OF inv key_ok_line_key, of lno] by (simp add: line_key_def)
  show ?thesis
  proof (cases "abs_hash (file_lines file) (line_key lno)")
    case (Some l)
    then show ?thesis
      using assms find by (auto simp: get_line_def file_view_def file_ok_def)
  next
    case None
    let ?l = "length (line_store file)" and ?n = "\<lparr>line_lineno = lno, line_count = 0, line_executable = 0\<rparr>"
    obtain h where h: "hash_add_or_update (line_key lno) ?l (file_lines file) = Some h" "hash_inv h"
        "abs_hash h = (abs_hash (file_lines file))(line_key lno \<mapsto> ?l)"
      using xh.add [OF inv key_ok_line_key] by blast
    define f1 where "f1 = file\<lparr>line_store := line_store file @ [?n], file_lines := h\<rparr>"
    have g: "get_line lno file = Some (?l, f1)"
      using find None h(1) by (simp add: get_line_def line_key_def f1_def)
    have ok: "file_ok f1"
    proof (rule file_okI)
      show "hash_inv (file_lines f1)" using h(2) by (simp add: f1_def)
    next
      fix k i assume "abs_hash (file_lines f1) k = Some i"
      then have "(k = line_key lno \<and> i = ?l) \<or> abs_hash (file_lines file) k = Some i"
        using h(3) by (auto simp: f1_def split: if_splits)
      then show "i < length (line_store f1) \<and> k = line_key (line_lineno (line_store f1 ! i)) \<and>
          is_int (line_lineno (line_store f1 ! i))"
        using file_okD [OF assms(1), of k i] assms(2) by (auto simp: f1_def nth_append)
    qed
    have other: "file_view f1 n = file_view file n" if "is_int n" "n \<noteq> lno" for n
      using that line_key_inj [of n lno] assms h(3)
      by (cases "abs_hash (file_lines file) (line_key n)")
        (auto simp: file_view_def f1_def file_ok_def nth_append)
    show ?thesis
      using g ok h(3) None other by (auto simp: f1_def file_view_def line_state_def)
  qed
qed

lemma touch_file_ok:
  assumes "file_ok file" and "is_int lno"
  shows "\<exists>f1. touch_file lno ex dead file = Some f1 \<and> file_ok f1 \<and> file_name f1 = file_name file \<and>
     has_branch_info f1 = has_branch_info file \<and>
     (\<forall>n. is_int n \<longrightarrow> file_view f1 n = (if n = lno then bump (ex, dead) (file_view file n) else file_view file n))"
proof -
  obtain l f1 where f1: "get_line lno file = Some (l, f1)" "file_ok f1" "l < length (line_store f1)"
      "abs_hash (file_lines f1) (line_key lno) = Some l"
      "line_state (line_store f1 ! l) = (case file_view file lno of None \<Rightarrow> (0, 0) | Some x \<Rightarrow> x)"
      "\<And>n. is_int n \<Longrightarrow> n \<noteq> lno \<Longrightarrow> file_view f1 n = file_view file n" "file_name f1 = file_name file"
      "has_branch_info f1 = has_branch_info file"
    using get_line_ok [OF assms] by blast
  define f2 where "f2 = f1\<lparr>line_store := (line_store f1)[l := touch_line ex dead (line_store f1 ! l)]\<rparr>"
  have t: "touch_file lno ex dead file = Some f2"
    using f1(1,3) by (simp add: touch_file_def f2_def)
  have ok: "file_ok f2"
    using f1(2) file_okD [OF f1(2)] by (intro file_okI) (auto simp: f2_def file_ok_def)
  have here: "file_view f2 lno = bump (ex, dead) (file_view file lno)"
  proof -
    have "file_view f2 lno = Some (line_state (touch_line ex dead (line_store f1 ! l)))"
      using f1(3,4) by (simp add: file_view_def f2_def)
    also have "\<dots> = bump (ex, dead) (file_view file lno)"
      unfolding line_state_touch f1(5) by (cases "file_view file lno") (auto simp: bump_def Let_def split: prod.splits)
    finally show ?thesis .
  qed
  have other: "file_view f2 n = file_view file n" if n: "is_int n" "n \<noteq> lno" for n
  proof -
    have "abs_hash (file_lines f1) (line_key n) \<noteq> Some l"
    proof
      assume "abs_hash (file_lines f1) (line_key n) = Some l"
      then have "line_key n = line_key lno"
        using file_okD(2) [OF f1(2) f1(4)] file_okD(2) [OF f1(2), of "line_key n"] by metis
      then show False using n line_key_inj [OF n(1) assms(2)] by simp
    qed
    then have "file_view f2 n = file_view f1 n"
      by (cases "abs_hash (file_lines f1) (line_key n)") (auto simp: file_view_def f2_def)
    then show ?thesis using f1(6) [OF n] by simp
  qed
  show ?thesis using t ok here other f1(7,8) by (auto simp: f2_def)
qed

section \<open>The state of the request\<close>

definition view :: "coverage \<Rightarrow> string \<Rightarrow> int \<Rightarrow> (int \<times> int) option" where
  "view xg f lno =
     (case abs_hash (code_coverage xg) (Key_string f) of
        None \<Rightarrow> None | Some i \<Rightarrow> file_view (file_store xg ! i) lno)"

definition coverage_ok :: "coverage \<Rightarrow> bool" where
  "coverage_ok xg \<longleftrightarrow> hash_inv (code_coverage xg) \<and>
     (\<forall>k i. abs_hash (code_coverage xg) k = Some i \<longrightarrow>
        i < length (file_store xg) \<and> k = Key_string (file_name (file_store xg ! i)) \<and>
        file_ok (file_store xg ! i)) \<and>
     (\<forall>f. previous_filename xg = Some f \<longrightarrow>
        abs_hash (code_coverage xg) (Key_string f) = Some (previous_file xg))"

lemma coverage_okD:
  assumes "coverage_ok xg" and "abs_hash (code_coverage xg) k = Some i"
  shows "i < length (file_store xg)" and "k = Key_string (file_name (file_store xg ! i))"
    and "file_ok (file_store xg ! i)"
  using assms unfolding coverage_ok_def by blast+

lemma file_ctor_ok: "file_ok (coverage_file_ctor f)" "file_view (coverage_file_ctor f) lno = None"
  by (simp_all add: file_ok_def file_view_def coverage_file_ctor_def hash_alloc_ok)

text \<open>No file has branch information.\<close>

definition plain :: "coverage \<Rightarrow> bool" where
  "plain xg \<longleftrightarrow>
     (\<forall>k i. abs_hash (code_coverage xg) k = Some i \<longrightarrow> \<not> has_branch_info (file_store xg ! i))"

lemma get_file_ok:
  assumes "coverage_ok xg" and "f \<noteq> []"
  shows "\<exists>i x1. get_file f xg = Some (i, x1) \<and> coverage_ok x1 \<and>
     abs_hash (code_coverage x1) (Key_string f) = Some i \<and> (\<forall>g n. view x1 g n = view xg g n) \<and>
     (plain xg \<longrightarrow> plain x1)"
proof (cases "previous_filename xg = Some f")
  case True
  then show ?thesis using assms(1) by (auto simp: get_file_def coverage_ok_def)
next
  case False
  have inv: "hash_inv (code_coverage xg)" using assms(1) by (simp add: coverage_ok_def)
  have k: "key_ok (Key_string f)" using assms(2) by (simp add: key_ok_def)
  note find = hash_extended_find_ok [OF inv k]
  show ?thesis
  proof (cases "abs_hash (code_coverage xg) (Key_string f)")
    case (Some i)
    let ?x = "xg\<lparr>previous_filename := Some f, previous_file := i\<rparr>"
    note d = coverage_okD [OF assms(1) Some]
    have "get_file f xg = Some (i, ?x)"
      using False find Some d(1,2) by (simp add: get_file_def)
    moreover have "coverage_ok ?x" "plain xg \<longrightarrow> plain ?x"
      using assms(1) Some by (simp_all add: coverage_ok_def plain_def)
    moreover have "view ?x g n = view xg g n" for g n by (simp add: view_def split: option.splits)
    ultimately show ?thesis using Some by auto
  next
    case None
    let ?i = "length (file_store xg)"
    obtain h where h: "hash_add_or_update (Key_string f) ?i (code_coverage xg) = Some h" "hash_inv h"
        "abs_hash h = (abs_hash (code_coverage xg))(Key_string f \<mapsto> ?i)"
      using xh.add [OF inv k] by blast
    define x where "x = xg\<lparr>file_store := file_store xg @ [coverage_file_ctor f], code_coverage := h,
      previous_filename := Some f, previous_file := ?i\<rparr>"
    have g: "get_file f xg = Some (?i, x)"
      using False find None h(1) by (simp add: get_file_def x_def coverage_file_ctor_def)
    have e: "i < length (file_store x) \<and> k = Key_string (file_name (file_store x ! i)) \<and> file_ok (file_store x ! i)"
      if "abs_hash (code_coverage x) k = Some i" for k i
    proof -
      have "(k = Key_string f \<and> i = ?i) \<or> abs_hash (code_coverage xg) k = Some i"
        using that h(3) by (auto simp: x_def split: if_splits)
      then show ?thesis
        using coverage_okD [OF assms(1), of k i] file_ctor_ok(1) [of f]
        by (auto simp: x_def nth_append coverage_file_ctor_def)
    qed
    have "coverage_ok x"
      unfolding coverage_ok_def using e h(2,3) by (simp add: x_def)
    moreover have "view x g n = view xg g n" for g n
      using None coverage_okD(1) [OF assms(1)] h(3) file_ctor_ok(2) [of f n]
      by (cases "abs_hash (code_coverage xg) (Key_string g)") (auto simp: view_def x_def nth_append)
    moreover have "plain x" if p: "plain xg"
      unfolding plain_def
    proof (intro allI impI)
      fix k j assume "abs_hash (code_coverage x) k = Some j"
      then have "j = ?i \<or> abs_hash (code_coverage xg) k = Some j"
        using h(3) by (auto simp: x_def split: if_splits)
      then show "\<not> has_branch_info (file_store x ! j)"
        using coverage_okD(1) [OF assms(1), of k j] p
        by (auto simp: x_def nth_append coverage_file_ctor_def plain_def)
    qed
    ultimately show ?thesis using g h(3) by (auto simp: x_def)
  qed
qed

lemma count_line_touch:
  "count_line f lno ex dead xg =
     do {
       (i, xg) \<leftarrow> get_file f xg;
       file \<leftarrow> (if i < length (file_store xg) then Some (file_store xg ! i) else None);
       file \<leftarrow> touch_file lno ex dead file;
       Some (xg\<lparr>file_store := (file_store xg)[i := file]\<rparr>)
     }"
  by (simp add: count_line_def touch_file_def Let_def split: bind_splits option.splits prod.splits)

lemma count_line_ok:
  assumes "coverage_ok xg" and "f \<noteq> []" and "is_int lno"
  shows "\<exists>x2. count_line f lno ex dead xg = Some x2 \<and> coverage_ok x2 \<and>
     (plain xg \<longrightarrow> plain x2) \<and>
     (\<forall>g n. is_int n \<longrightarrow>
        view x2 g n = (if g = f \<and> n = lno then bump (ex, dead) (view xg g n) else view xg g n))"
proof -
  obtain i x1 where x1: "get_file f xg = Some (i, x1)" "coverage_ok x1"
      "abs_hash (code_coverage x1) (Key_string f) = Some i" "\<And>g n. view x1 g n = view xg g n"
      "plain xg \<Longrightarrow> plain x1"
    using get_file_ok [OF assms(1,2)] by blast
  note d = coverage_okD [OF x1(2,3)]
  obtain f1 where f1: "touch_file lno ex dead (file_store x1 ! i) = Some f1" "file_ok f1"
      "file_name f1 = file_name (file_store x1 ! i)"
      "\<And>n. is_int n \<Longrightarrow> file_view f1 n =
         (if n = lno then bump (ex, dead) (file_view (file_store x1 ! i) n) else file_view (file_store x1 ! i) n)"
      "has_branch_info f1 = has_branch_info (file_store x1 ! i)"
    using touch_file_ok [OF d(3) assms(3), of ex dead] by blast
  define x2 where "x2 = x1\<lparr>file_store := (file_store x1)[i := f1]\<rparr>"
  have c: "count_line f lno ex dead xg = Some x2"
    using x1(1) d(1) f1(1) by (simp add: count_line_touch x2_def)
  have e: "j < length (file_store x2) \<and> k = Key_string (file_name (file_store x2 ! j)) \<and> file_ok (file_store x2 ! j)"
    if "abs_hash (code_coverage x2) k = Some j" for k j
    using that coverage_okD [OF x1(2), of k j] f1(2,3) by (cases "j = i") (auto simp: x2_def)
  have "coverage_ok x2"
    unfolding coverage_ok_def using e x1(2) by (simp add: x2_def coverage_ok_def)
  moreover have "plain x2" if "plain xg"
    using x1(5) [OF that] f1(5) d(1) x1(3) by (auto simp: plain_def x2_def nth_list_update)
  moreover have "view x2 g n = (if g = f \<and> n = lno then bump (ex, dead) (view xg g n) else view xg g n)"
    if n: "is_int n" for g n
  proof (cases "g = f")
    case True
    have "view x2 f n = file_view f1 n" "view x1 f n = file_view (file_store x1 ! i) n"
      using x1(3) d(1) by (simp_all add: view_def x2_def)
    then show ?thesis using True x1(4) [of f n] f1(4) [OF n] by (cases "n = lno") auto
  next
    case False
    have "abs_hash (code_coverage x1) (Key_string g) \<noteq> Some i"
      using coverage_okD(2) [OF x1(2), of "Key_string g" i] d(2) False by auto
    then have "view x2 g n = view x1 g n"
      by (cases "abs_hash (code_coverage x1) (Key_string g)") (auto simp: view_def x2_def)
    then show ?thesis using False x1(4) by simp
  qed
  ultimately show ?thesis using c by blast
qed

section \<open>Counting a sequence of lines\<close>

type_synonym line_event = "string \<times> int \<times> bool \<times> bool"

fun count_lines :: "line_event list \<Rightarrow> coverage \<Rightarrow> coverage option" where
  "count_lines [] xg = Some xg"
| "count_lines ((f, lno, ex, dead) # evs) xg =
     do { xg \<leftarrow> count_line f lno ex dead xg; count_lines evs xg }"

definition at_line :: "string \<Rightarrow> int \<Rightarrow> line_event list \<Rightarrow> (bool \<times> bool) list" where
  "at_line f n evs = map (\<lambda>(_, _, h). h) (filter (\<lambda>(g, m, _). g = f \<and> m = n) evs)"

definition event_ok :: "line_event \<Rightarrow> bool" where
  "event_ok = (\<lambda>(f, lno, _). f \<noteq> [] \<and> is_int lno)"

lemma count_lines_ok:
  assumes "coverage_ok xg" and "\<forall>e \<in> set evs. event_ok e"
  shows "\<exists>x. count_lines evs xg = Some x \<and> coverage_ok x \<and>
     (plain xg \<longrightarrow> plain x) \<and>
     (\<forall>f n. is_int n \<longrightarrow> view x f n = fold bump (at_line f n evs) (view xg f n))"
  using assms
proof (induction evs arbitrary: xg)
  case Nil
  then show ?case by (simp add: at_line_def)
next
  case (Cons e evs)
  obtain f lno ex dead where e: "e = (f, lno, ex, dead)" by (cases e) auto
  have ok: "f \<noteq> []" "is_int lno" and rest: "\<forall>e \<in> set evs. event_ok e"
    using Cons.prems(2) e by (auto simp: event_ok_def)
  obtain x1 where x1: "count_line f lno ex dead xg = Some x1" "coverage_ok x1"
      "\<And>g n. is_int n \<Longrightarrow> view x1 g n = (if g = f \<and> n = lno then bump (ex, dead) (view xg g n) else view xg g n)"
      "plain xg \<Longrightarrow> plain x1"
    using count_line_ok [OF Cons.prems(1) ok, of ex dead] by blast
  obtain x where x: "count_lines evs x1 = Some x" "coverage_ok x"
      "\<And>f n. is_int n \<Longrightarrow> view x f n = fold bump (at_line f n evs) (view x1 f n)" "plain x1 \<Longrightarrow> plain x"
    using Cons.IH [OF x1(2) rest] by blast
  have "view x g n = fold bump (at_line g n (e # evs)) (view xg g n)" if n: "is_int n" for g n
    using x(3) [OF n] x1(3) [OF n] by (auto simp: at_line_def e)
  then show ?case using x1(1,4) x(1,2,4) e by auto
qed

text \<open>A request in which coverage was just started or cleaned up.\<close>

definition clean :: "coverage \<Rightarrow> bool" where
  "clean xg \<longleftrightarrow> code_coverage xg = hash_alloc 32 True \<and> previous_filename xg = None"

lemma clean_ok: "clean xg \<Longrightarrow> coverage_ok xg" "clean xg \<Longrightarrow> view xg f n = None"
  by (simp_all add: clean_def coverage_ok_def view_def hash_alloc_ok)

lemma stop_clean: "do_code_coverage xg \<Longrightarrow> clean (snd (stop_code_coverage True xg))"
  by (simp add: stop_code_coverage_def clean_def Let_def)

text \<open>Line counting is exact: after any sequence of calls of \<open>xdebug_count_line\<close> for any files and
  lines, made after a cleanup, what is stored for a line is the history of exactly the calls for this
  file and line (its count modulo 32 bits, its mark \<open>executable\<close>), whatever the one-entry file cache and
  the hash tables held in between.\<close>

lemma count_lines_exact:
  assumes "do_code_coverage xg0" and "xg = snd (stop_code_coverage True xg0)"
    and "\<forall>e \<in> set evs. event_ok e"
  shows "\<exists>x. count_lines evs xg = Some x \<and>
     (\<forall>f n. is_int n \<longrightarrow> view x f n = line_history (at_line f n evs))"
  using count_lines_ok [OF clean_ok(1) assms(3), of xg] stop_clean [OF assms(1)] clean_ok(2) [of xg] assms(2)
  by (auto simp: line_history_def)

definition example_request :: coverage where
  "example_request =
     \<lparr>code_coverage = hash_alloc 32 True, file_store = [], info_store = [], previous_filename = None,
      previous_file = 0, previous_mark_filename = None, previous_mark_file = 0, do_code_coverage = True,
      cc_unused = True, cc_dead_code_analysis = False, cc_branch_check = False,
      dead_code_last_start_id = 1, level = 0, function_count = 0, branches_size = 0, last_branch_nr = [],
      stack_paths = [], path_store = [], visited_branches = hash_alloc 2048 False\<rparr>"

lemma count_lines_exact_witness:
  "\<exists>x. count_lines [(''a.php'', 3, True, False), (''b.php'', 3, True, True), (''a.php'', 3, False, False)]
         (snd (stop_code_coverage True example_request)) = Some x \<and>
       view x ''a.php'' 3 = Some (1, 1) \<and> view x ''b.php'' 3 = Some (0, 2) \<and> view x ''a.php'' 4 = None"
proof -
  let ?evs = "[(''a.php'', 3, True, False), (''b.php'', 3, True, True), (''a.php'', 3, False, False)]"
  have "\<exists>x. count_lines ?evs (snd (stop_code_coverage True example_request)) = Some x \<and>
      (\<forall>f n. is_int n \<longrightarrow> view x f n = line_history (at_line f n ?evs))"
    by (rule count_lines_exact [OF _ refl]) (simp_all add: example_request_def event_ok_def is_int_def)
  then show ?thesis
    by (auto simp: is_int_def at_line_def line_history_def bump_def to_int32_id)
qed

section \<open>The report of the lines\<close>

definition report_value :: "int \<times> int \<Rightarrow> int" where
  "report_value = (\<lambda>(cnt, ex). if ex \<noteq> 0 \<and> cnt = 0 then - ex else 1)"

definition line_entry :: "coverage_line \<Rightarrow> zkey \<times> zval" where
  "line_entry l = (ZInt (line_lineno l), Long (report_value (line_state l)))"

text \<open>All the lines of a file, in the order of the hash.\<close>

definition hash_vals :: "nat xhash \<Rightarrow> nat list" where
  "hash_vals h = map snd (concat (take (slots h) (table h)))"

lemma foldl_concat: "foldl (\<lambda>s l. foldl f s l) s ls = foldl f s (concat ls)"
  by (induction ls arbitrary: s) simp_all

lemma apply_all_foldl:
  "apply_all cb store h arr =
     foldl (\<lambda>acc i. Option.bind acc (\<lambda>arr. if i < length store then cb (store ! i) arr else None))
       (Some arr) (hash_vals h)"
  unfolding apply_all_def hash_apply_def foldl_concat hash_vals_def by (simp add: foldl_map)

lemma hash_vals_iff:
  assumes "hash_inv h"
  shows "i \<in> set (hash_vals h) \<longleftrightarrow> (\<exists>k. abs_hash h k = Some i)"
proof -
  have "take (slots h) (table h) = table h" using assms by (simp add: hash_inv_def)
  then have "i \<in> set (hash_vals h) \<longleftrightarrow> (\<exists>k. (k, i) \<in> set (concat (table h)))"
    by (force simp: hash_vals_def)
  moreover have "(\<exists>k. (k, i) \<in> set (concat (table h))) \<longleftrightarrow> (\<exists>k. abs_hash h k = Some i)"
  proof
    assume "\<exists>k. (k, i) \<in> set (concat (table h))"
    then obtain k l where l: "l \<in> set (table h)" "(k, i) \<in> set l" by auto
    then obtain s where s: "s < slots h" "(k, i) \<in> set (table h ! s)"
      using assms by (auto simp: hash_inv_def in_set_conv_nth [of l])
    then have "slot_ok (slots h) s (table h ! s)" using assms by (simp add: hash_inv_def)
    then have "abs_hash h k = Some i"
      using s(2) by (force simp: abs_hash_def slot_ok_def intro: map_of_is_SomeI)
    then show "\<exists>k. abs_hash h k = Some i" by blast
  next
    assume "\<exists>k. abs_hash h k = Some i"
    then obtain k where k: "map_of (table h ! find_slot (slots h) k) k = Some i"
      by (auto simp: abs_hash_def)
    then have "(k, i) \<in> set (table h ! find_slot (slots h) k)" by (rule map_of_SomeD)
    moreover have "find_slot (slots h) k < length (table h)"
      using assms find_slot_less by (simp add: hash_inv_def)
    ultimately show "\<exists>k. (k, i) \<in> set (concat (table h))" by (auto intro: nth_mem)
  qed
  ultimately show ?thesis by simp
qed

text \<open>Adding entries under keys; only one index has the key asked for.\<close>

lemma map_of_add_none:
  assumes "\<And>i. i \<in> set is \<Longrightarrow> kf i \<noteq> k"
  shows "map_of (foldl (\<lambda>arr i. AList.update (kf i) (vf i) arr) arr is) k = map_of arr k"
  using assms by (induction "is" arbitrary: arr) (auto simp: AList.update_conv')

lemma map_of_add_some:
  assumes "j \<in> set is" and "kf j = k" and "\<And>i. i \<in> set is \<Longrightarrow> kf i = k \<Longrightarrow> i = j"
  shows "map_of (foldl (\<lambda>arr i. AList.update (kf i) (vf i) arr) arr is) k = Some (vf j)"
  using assms
proof (induction "is" arbitrary: arr)
  case (Cons i "is")
  show ?case
  proof (cases "j \<in> set is")
    case True
    have u: "\<And>i'. i' \<in> set is \<Longrightarrow> kf i' = k \<Longrightarrow> i' = j" using Cons.prems(3) by simp
    show ?thesis using Cons.IH [OF True Cons.prems(2) u] by simp
  next
    case False
    then have i: "i = j" and n: "\<And>i'. i' \<in> set is \<Longrightarrow> kf i' \<noteq> k" using Cons.prems by auto
    show ?thesis
      using map_of_add_none [of "is" kf k vf, OF n] i Cons.prems(2) by (simp add: AList.update_conv')
  qed
qed simp

lemma distinct_add:
  "distinct (map fst arr) \<Longrightarrow> distinct (map fst (foldl (\<lambda>arr i. AList.update (kf i) (vf i) arr) arr is))"
  by (induction "is" arbitrary: arr) (auto simp: AList.distinct_update)

lemma apply_all_pure:
  assumes "\<And>i arr. i \<in> set (hash_vals h) \<Longrightarrow>
             i < length store \<and> cb (store ! i) arr = Some (AList.update (kf i) (vf i) arr)"
  shows "apply_all cb store h arr = Some (foldl (\<lambda>arr i. AList.update (kf i) (vf i) arr) arr (hash_vals h))"
proof -
  have step: "foldl (\<lambda>acc i. Option.bind acc (\<lambda>arr. if i < length store then cb (store ! i) arr else None)) (Some arr) is =
      Some (foldl (\<lambda>arr i. AList.update (kf i) (vf i) arr) arr is)" if "set is \<subseteq> set (hash_vals h)" for "is"
    using that
  proof (induction "is" arbitrary: arr)
    case (Cons i "is")
    have i: "i < length store" "cb (store ! i) arr = Some (AList.update (kf i) (vf i) arr)"
      using assms [of i arr] Cons.prems by simp_all
    show ?case using Cons.IH [of "AList.update (kf i) (vf i) arr"] Cons.prems by (simp add: i)
  qed simp
  then show ?thesis unfolding apply_all_foldl by simp
qed

lemma map_of_same:
  assumes "mset xs = mset ys" and "distinct (map fst ys)"
  shows "map_of xs = map_of ys" and "distinct (map fst xs)"
proof -
  show d: "distinct (map fst xs)"
    using assms by (metis mset_map mset_eq_imp_distinct_iff)
  have "set xs = set ys" using assms(1) by (rule mset_eq_setD)
  then show "map_of xs = map_of ys" using map_of_inject_set [OF d assms(2)] by simp
qed

section \<open>The report of a request without branch information\<close>

text \<open>What the engine's \<open>zend_hash_sort\<close> does with any function that compares consistently: it permutes the entries into
  the order of the comparison.\<close>

definition consistent :: "(u64 \<Rightarrow> u64 \<Rightarrow> int) \<Rightarrow> bool" where
  "consistent cmp \<longleftrightarrow>
     (\<forall>a b. cmp a b \<le> 0 \<or> cmp b a \<le> 0) \<and> (\<forall>a b c. cmp a b \<le> 0 \<and> cmp b c \<le> 0 \<longrightarrow> cmp a c \<le> 0)"

definition sorts :: "((u64 \<Rightarrow> u64 \<Rightarrow> int) \<Rightarrow> zarray \<Rightarrow> zarray) \<Rightarrow> bool" where
  "sorts srt \<longleftrightarrow>
     (\<forall>cmp arr. mset (srt cmp arr) = mset arr \<and>
        (consistent cmp \<longrightarrow> sorted_wrt (\<lambda>a b. cmp (index_key a) (index_key b) \<le> 0) (srt cmp arr)))"

text \<open>The number of a line as the engine keeps it, an unsigned word.\<close>

fun line_number :: "zkey \<Rightarrow> int" where
  "line_number (ZInt n) = n mod 2 ^ 64"
| "line_number (ZStr _) = 0"

lemma sorted_lines:
  assumes "sorts srt"
  shows "sorted_wrt (\<lambda>a b. line_number (fst a) \<le> line_number (fst b)) (srt lineno_cmp arr)"
proof -
  have le: "lineno_cmp a b \<le> 0 \<longleftrightarrow> uint a \<le> uint b" for a b :: u64 by (auto simp: lineno_cmp_def word_le_def word_less_def)
  have key: "uint (index_key e) = line_number (fst e)" for e
    by (auto simp: index_key_def uint_word_of_int split: zkey.split)
  have "consistent lineno_cmp" unfolding consistent_def le by auto
  then have "sorted_wrt (\<lambda>a b. lineno_cmp (index_key a) (index_key b) \<le> 0) (srt lineno_cmp arr)"
    using assms unfolding sorts_def by blast
  then show ?thesis unfolding le key .
qed

definition lines_array :: "coverage_file \<Rightarrow> zarray" where
  "lines_array file =
     foldl (\<lambda>arr i. AList.update (fst (line_entry (line_store file ! i))) (snd (line_entry (line_store file ! i))) arr)
       [] (hash_vals (file_lines file))"

lemma lines_array_ok:
  assumes "file_ok file"
  shows "apply_all (\<lambda>line arr. Some (add_line arr line)) (line_store file) (file_lines file) [] =
           Some (lines_array file)"
    and "is_int n \<Longrightarrow> map_of (lines_array file) (ZInt n) =
           map_option (\<lambda>s. Long (report_value s)) (file_view file n)"
    and "distinct (map fst (lines_array file))"
proof -
  have inv: "hash_inv (file_lines file)" using assms by (simp add: file_ok_def)
  have vals: "\<exists>k. abs_hash (file_lines file) k = Some i" if "i \<in> set (hash_vals (file_lines file))" for i
    using that hash_vals_iff [OF inv] by blast
  show "apply_all (\<lambda>line arr. Some (add_line arr line)) (line_store file) (file_lines file) [] =
      Some (lines_array file)"
    unfolding lines_array_def
  proof (rule apply_all_pure)
    fix i arr assume "i \<in> set (hash_vals (file_lines file))"
    then show "i < length (line_store file) \<and> Some (add_line arr (line_store file ! i)) =
        Some (AList.update (fst (line_entry (line_store file ! i))) (snd (line_entry (line_store file ! i))) arr)"
      using vals file_okD(1) [OF assms] by (auto simp: add_line_def line_entry_def report_value_def line_state_def)
  qed
  show "distinct (map fst (lines_array file))"
    unfolding lines_array_def by (rule distinct_add) simp
  assume n: "is_int n"
  have key: "abs_hash (file_lines file) (line_key n) = Some i"
    if "i \<in> set (hash_vals (file_lines file))" "fst (line_entry (line_store file ! i)) = ZInt n" for i
    using vals [OF that(1)] that(2) file_okD(2) [OF assms] by (auto simp: line_entry_def)
  show "map_of (lines_array file) (ZInt n) = map_option (\<lambda>s. Long (report_value s)) (file_view file n)"
  proof (cases "abs_hash (file_lines file) (line_key n)")
    case None
    then have "map_of (lines_array file) (ZInt n) = map_of [] (ZInt n)"
      unfolding lines_array_def using key by (intro map_of_add_none) fastforce
    then show ?thesis using None by (simp add: file_view_def)
  next
    case (Some j)
    have j: "j \<in> set (hash_vals (file_lines file))" using Some hash_vals_iff [OF inv] by blast
    have "line_lineno (line_store file ! j) = n"
      using file_okD(2,3) [OF assms Some] line_key_inj [OF n] by metis
    then have "map_of (lines_array file) (ZInt n) = Some (snd (line_entry (line_store file ! j)))"
      unfolding lines_array_def using key Some
      by (intro map_of_add_some [OF j]) (simp_all add: line_entry_def)
    then show ?thesis using Some by (simp add: file_view_def line_entry_def)
  qed
qed

lemma report_ok:
  assumes "coverage_ok xg" and "plain xg" and "sorts srt"
  shows "\<exists>r. get_code_coverage srt xg = Some r \<and>
     (\<forall>f. map_of r (ZStr f) =
        (case abs_hash (code_coverage xg) (Key_string f) of None \<Rightarrow> None
         | Some i \<Rightarrow> Some (Arr (srt lineno_cmp (lines_array (file_store xg ! i))))))"
proof -
  let ?h = "code_coverage xg" and ?fs = "file_store xg"
  let ?kf = "\<lambda>i. ZStr (file_name (?fs ! i))" and ?vf = "\<lambda>i. Arr (srt lineno_cmp (lines_array (?fs ! i)))"
  let ?r = "foldl (\<lambda>arr i. AList.update (?kf i) (?vf i) arr) [] (hash_vals ?h)"
  have inv: "hash_inv ?h" using assms(1) by (simp add: coverage_ok_def)
  have vals: "\<exists>k. abs_hash ?h k = Some i" if "i \<in> set (hash_vals ?h)" for i
    using that hash_vals_iff [OF inv] by blast
  have g: "get_code_coverage srt xg = Some ?r"
    unfolding get_code_coverage_def
  proof (rule apply_all_pure)
    fix i arr assume "i \<in> set (hash_vals ?h)"
    then obtain k where k: "abs_hash ?h k = Some i" using vals by blast
    have "\<not> has_branch_info (?fs ! i)" using assms(2) k by (auto simp: plain_def)
    then show "i < length ?fs \<and> add_file srt xg (?fs ! i) arr = Some (AList.update (?kf i) (?vf i) arr)"
      using coverage_okD [OF assms(1) k] lines_array_ok(1) by (simp add: add_file_def)
  qed
  have key: "abs_hash ?h (Key_string f) = Some i" if "i \<in> set (hash_vals ?h)" "?kf i = ZStr f" for i f
    using vals [OF that(1)] that(2) coverage_okD(2) [OF assms(1)] by auto
  have "map_of ?r (ZStr f) = (case abs_hash ?h (Key_string f) of None \<Rightarrow> None | Some i \<Rightarrow> Some (?vf i))" for f
  proof (cases "abs_hash ?h (Key_string f)")
    case None
    then have "map_of ?r (ZStr f) = map_of [] (ZStr f)"
      using key by (intro map_of_add_none) fastforce
    then show ?thesis using None by simp
  next
    case (Some j)
    have j: "j \<in> set (hash_vals ?h)" using Some hash_vals_iff [OF inv] by blast
    have "file_name (?fs ! j) = f" using coverage_okD(2) [OF assms(1) Some] by simp
    then have "map_of ?r (ZStr f) = Some (?vf j)"
      using key Some by (intro map_of_add_some [OF j]) simp_all
    then show ?thesis using Some by simp
  qed
  then show ?thesis using g by blast
qed

text \<open>C9: The report is exact: after a cleanup and any sequence of counted lines, without branch
  information, \<open>xdebug_get_code_coverage\<close> returns one array per file, in which
  the elements of each come in the order of their line numbers and
  each line of the file has the value of its history: \<open>-1\<close> for executable code that never ran, \<open>-2\<close> for
  dead code, \<open>1\<close> for everything else, and no other line occurs.\<close>

theorem report_exact:
  assumes "do_code_coverage xg0" and "xg = snd (stop_code_coverage True xg0)"
    and "\<forall>e \<in> set evs. event_ok e" and "count_lines evs xg = Some x" and "sorts srt"
  shows "\<exists>r. get_code_coverage srt x = Some r \<and>
     (\<forall>f n. is_int n \<longrightarrow>
        (case map_of r (ZStr f) of
           Some (Arr ls) \<Rightarrow>
             map_of ls (ZInt n) = map_option (\<lambda>s. Long (report_value s)) (line_history (at_line f n evs)) \<and>
             distinct (map fst ls) \<and> sorted_wrt (\<lambda>a b. line_number (fst a) \<le> line_number (fst b)) ls
         | Some (Long _) \<Rightarrow> False
         | None \<Rightarrow> line_history (at_line f n evs) = None))"
proof -
  have clean: "clean xg" using stop_clean [OF assms(1)] assms(2) by simp
  have "plain xg" using clean by (simp add: clean_def plain_def hash_alloc_ok)
  then have x: "coverage_ok x" "plain x"
      "\<And>f n. is_int n \<Longrightarrow> view x f n = line_history (at_line f n evs)"
    using count_lines_ok [OF clean_ok(1) [OF clean] assms(3)] assms(4) clean_ok(2) [OF clean]
    by (auto simp: line_history_def)
  obtain r where r: "get_code_coverage srt x = Some r"
      "\<And>f. map_of r (ZStr f) =
        (case abs_hash (code_coverage x) (Key_string f) of None \<Rightarrow> None
         | Some i \<Rightarrow> Some (Arr (srt lineno_cmp (lines_array (file_store x ! i)))))"
    using report_ok [OF x(1,2) assms(5)] by blast
  have "case map_of r (ZStr f) of
           Some (Arr ls) \<Rightarrow>
             map_of ls (ZInt n) = map_option (\<lambda>s. Long (report_value s)) (line_history (at_line f n evs)) \<and>
             distinct (map fst ls) \<and> sorted_wrt (\<lambda>a b. line_number (fst a) \<le> line_number (fst b)) ls
         | Some (Long _) \<Rightarrow> False
         | None \<Rightarrow> line_history (at_line f n evs) = None" if n: "is_int n" for f n
  proof (cases "abs_hash (code_coverage x) (Key_string f)")
    case None
    then show ?thesis using r(2) [of f] x(3) [OF n, of f] by (simp add: view_def)
  next
    case (Some i)
    let ?ls = "lines_array (file_store x ! i)"
    note ok = lines_array_ok [OF coverage_okD(3) [OF x(1) Some]]
    have s: "mset (srt lineno_cmp ?ls) = mset ?ls"
        "sorted_wrt (\<lambda>a b. line_number (fst a) \<le> line_number (fst b)) (srt lineno_cmp ?ls)"
      using assms(5) sorted_lines [OF assms(5)] unfolding sorts_def by blast+
    show ?thesis
      using r(2) [of f] Some x(3) [OF n, of f] ok(2) [OF n] map_of_same [OF s(1) ok(3)] s(2)
      by (simp add: view_def)
  qed
  then show ?thesis using r(1) by blast
qed

text \<open>Insertion sort with a comparison.\<close>

fun insert_by :: "(u64 \<Rightarrow> u64 \<Rightarrow> int) \<Rightarrow> zkey \<times> zval \<Rightarrow> zarray \<Rightarrow> zarray" where
  "insert_by cmp e [] = [e]"
| "insert_by cmp e (x # xs) = (if cmp (index_key e) (index_key x) \<le> 0 then e # x # xs else x # insert_by cmp e xs)"

definition sort_by :: "(u64 \<Rightarrow> u64 \<Rightarrow> int) \<Rightarrow> zarray \<Rightarrow> zarray" where
  "sort_by cmp arr = foldr (insert_by cmp) arr []"

lemma sort_by_sorts: "sorts sort_by"
proof -
  have m: "mset (insert_by cmp e xs) = add_mset e (mset xs)" for cmp e xs by (induction xs) auto
  then have "mset (sort_by cmp arr) = mset arr" for cmp arr by (induction arr) (simp_all add: sort_by_def)
  moreover have "sorted_wrt (\<lambda>a b. cmp (index_key a) (index_key b) \<le> 0) (sort_by cmp arr)" if c: "consistent cmp" for cmp arr
  proof -
    have i: "sorted_wrt (\<lambda>a b. cmp (index_key a) (index_key b) \<le> 0) (insert_by cmp e xs)"
      if "sorted_wrt (\<lambda>a b. cmp (index_key a) (index_key b) \<le> 0) xs" for e xs
      using that
    proof (induction xs)
      case (Cons x xs)
      have s: "set (insert_by cmp e xs) = insert e (set xs)"
        using m [of cmp e xs] by (metis set_mset_add_mset_insert set_mset_mset)
      have t: "cmp a b \<le> 0 \<Longrightarrow> cmp b d \<le> 0 \<Longrightarrow> cmp a d \<le> 0" for a b d using c unfolding consistent_def by blast
      have l: "\<not> cmp a b \<le> 0 \<Longrightarrow> cmp b a \<le> 0" for a b using c unfolding consistent_def by blast
      show ?case
      proof (cases "cmp (index_key e) (index_key x) \<le> 0")
        case True
        then show ?thesis using Cons.prems t by simp
      next
        case False
        then show ?thesis using Cons l [OF False] s by simp
      qed
    qed simp
    show ?thesis using i by (induction arr) (simp_all add: sort_by_def)
  qed
  ultimately show ?thesis by (simp add: sorts_def)
qed

theorem report_exact_witness:
  "\<exists>r x. count_lines [(''a.php'', 3, True, False), (''a.php'', 4, False, False)]
           (snd (stop_code_coverage True example_request)) = Some x \<and>
         get_code_coverage sort_by x = Some r \<and>
         (\<exists>ls. map_of r (ZStr ''a.php'') = Some (Arr ls) \<and> map_of ls (ZInt 3) = Some (Long (- 1)) \<and>
            map_of ls (ZInt 4) = Some (Long 1) \<and> map_of ls (ZInt 5) = None)"
proof -
  let ?evs = "[(''a.php'', 3, True, False), (''a.php'', 4, False, False)]"
  let ?x = "snd (stop_code_coverage True example_request)"
  have d: "do_code_coverage example_request" by (simp add: example_request_def)
  have ok: "\<forall>e \<in> set ?evs. event_ok e" by (simp add: event_ok_def is_int_def)
  obtain x where x: "count_lines ?evs ?x = Some x"
    using count_lines_ok [OF clean_ok(1) [OF stop_clean [OF d]] ok] by blast
  from report_exact [OF d refl ok x sort_by_sorts]
  obtain r where r: "get_code_coverage sort_by x = Some r"
    "\<And>f n. is_int n \<Longrightarrow> (case map_of r (ZStr f) of
           Some (Arr ls) \<Rightarrow>
             map_of ls (ZInt n) = map_option (\<lambda>s. Long (report_value s)) (line_history (at_line f n ?evs)) \<and>
             distinct (map fst ls) \<and> sorted_wrt (\<lambda>a b. line_number (fst a) \<le> line_number (fst b)) ls
         | Some (Long _) \<Rightarrow> False
         | None \<Rightarrow> line_history (at_line f n ?evs) = None)"
    by blast
  have h: "line_history (at_line ''a.php'' 3 ?evs) = Some (0, 1)"
      "line_history (at_line ''a.php'' 4 ?evs) = Some (1, 0)" "line_history (at_line ''a.php'' 5 ?evs) = None"
    by (simp_all add: at_line_def line_history_def bump_def to_int32_id)
  have i: "is_int 3" "is_int 4" "is_int 5" by (simp_all add: is_int_def)
  obtain ls where ls: "map_of r (ZStr ''a.php'') = Some (Arr ls)"
    using r(2) [OF i(1), of "''a.php''"] h(1) by (auto split: option.splits zval.splits)
  have "map_of ls (ZInt 3) = Some (Long (- 1))" "map_of ls (ZInt 4) = Some (Long 1)" "map_of ls (ZInt 5) = None"
    using r(2) [OF i(1), of "''a.php''"] r(2) [OF i(2), of "''a.php''"] r(2) [OF i(3), of "''a.php''"] ls h
    by (simp_all add: report_value_def)
  then show ?thesis using x r(1) ls by blast
qed

section \<open>Starting coverage in the middle of a request\<close>

text \<open>Analysing functions leaves the branch numbers of the stack levels alone.\<close>

definition same_levels :: "coverage \<Rightarrow> coverage \<Rightarrow> bool" where
  "same_levels x y \<longleftrightarrow> last_branch_nr y = last_branch_nr x \<and> branches_size y = branches_size x \<and> level y = level x \<and>
   function_count y = function_count x"

lemma same_levels_refl [simp]: "same_levels x x"
  by (simp add: same_levels_def)

lemma same_levels_trans: "same_levels x y \<Longrightarrow> same_levels y z \<Longrightarrow> same_levels x z"
  by (simp add: same_levels_def)

lemma get_file_levels: "get_file f x = Some (i, y) \<Longrightarrow> same_levels x y"
  by (auto simp: get_file_def same_levels_def Let_def bind_eq_Some_conv split: if_splits option.splits)

lemma count_line_levels: "count_line f n ex dead x = Some y \<Longrightarrow> same_levels x y"
  unfolding count_line_touch
  by (auto simp: bind_eq_Some_conv same_levels_def dest!: get_file_levels split: if_splits)

lemma prefill_opcodes_levels: "prefill_opcodes f dead i opns x = Some y \<Longrightarrow> same_levels x y"
proof (induction opns arbitrary: i x)
  case (Cons opn opns)
  then obtain d x1 where "prefill_from_opcode f opn d x = Some x1" "prefill_opcodes f dead (i + 1) opns x1 = Some y"
    by (auto simp: bind_eq_Some_conv)
  moreover have "same_levels x x1"
    using calculation(1) count_line_levels by (auto simp: prefill_from_opcode_def split: if_splits)
  ultimately show ?case using Cons.IH same_levels_trans by blast
qed simp

lemma add_branches_levels: "add_branches_and_paths f g b x = Some y \<Longrightarrow> same_levels x y"
  unfolding add_branches_and_paths_def Let_def
  by (auto simp: bind_eq_Some_conv same_levels_def dest!: get_file_levels split: if_splits)

lemma prefill_from_oparray_levels:
  "prefill_from_oparray junk fuel f opa x = Some (opa', y) \<Longrightarrow> same_levels x y"
  unfolding prefill_from_oparray_def Let_def
  by (auto simp: bind_eq_Some_conv split: if_splits option.splits
      dest!: prefill_opcodes_levels add_branches_levels intro: same_levels_trans)

lemma prefill_if_new_levels: "prefill_if_new junk fuel f (eg, x) = Some (eg', y) \<Longrightarrow> same_levels x y"
  unfolding prefill_if_new_def
  by (auto simp: bind_eq_Some_conv split: if_splits dest!: prefill_from_oparray_levels)

lemma prefill_function_levels:
  "prefill_from_function_table junk fuel f (eg, x) = Some (eg', y) \<Longrightarrow> same_levels x y"
  unfolding prefill_from_function_table_def
  by (auto simp: bind_eq_Some_conv split: if_splits dest!: prefill_if_new_levels)

lemma prefill_functions_levels: "prefill_functions junk fuel fs (eg, x) = Some (eg', y) \<Longrightarrow> same_levels x y"
  by (induction fs arbitrary: eg x)
    (auto simp: bind_eq_Some_conv dest!: prefill_function_levels intro: same_levels_trans)

lemma prefill_class_levels: "prefill_from_class_table junk fuel c (eg, x) = Some (eg', y) \<Longrightarrow> same_levels x y"
  unfolding prefill_from_class_table_def
  by (auto simp: bind_eq_Some_conv split: if_splits dest!: prefill_functions_levels)

lemma prefill_classes_levels: "prefill_classes junk fuel cs (eg, x) = Some (eg', y) \<Longrightarrow> same_levels x y"
  by (induction cs arbitrary: eg x)
    (auto simp: bind_eq_Some_conv dest!: prefill_class_levels intro: same_levels_trans)

lemma prefill_code_coverage_levels:
  "prefill_code_coverage junk fuel f (eg, x) = Some (eg', y) \<Longrightarrow> same_levels x y"
  unfolding prefill_code_coverage_def
  by (auto simp: bind_eq_Some_conv dest!: prefill_if_new_levels prefill_functions_levels prefill_classes_levels
      intro: same_levels_trans)

lemma start_of_function_levels:
  assumes "start_of_function junk fuel f (eg, x) = Some (eg', y)"
    and "branches_size x = 0" and "last_branch_nr x = []"
  shows "last_branch_nr y = (replicate (level x + 32) None)[level x := Some (- 1)]"
proof -
  define x0 where "x0 = x\<lparr>path_store := path_store x @ [Some (path_new None)]\<rparr>"
  obtain eg1 x1 where p: "prefill_code_coverage junk fuel f (eg, x0) = Some (eg1, x1)"
    using assms(1) by (auto simp: start_of_function_def x0_def bind_eq_Some_conv Let_def)
  have same: "last_branch_nr x1 = []" "branches_size x1 = 0" "level x1 = level x"
    using prefill_code_coverage_levels [OF p] assms(2,3) by (simp_all add: same_levels_def x0_def)
  show ?thesis
    using assms(1) p same
    by (simp add: start_of_function_def x0_def [symmetric] Let_def add_path_for_level_def
        make_sure_level_exists_def split: if_splits) auto
qed

lemma get_mark_file_levels:
  assumes "get_mark_file f x = Some (b, y)"
  shows "same_levels x y"
proof (cases "previous_mark_filename x = Some f")
  case True
  then show ?thesis using assms by (simp add: get_mark_file_def)
next
  case False
  obtain r where r: "hash_extended_find (Key_string f) (code_coverage x) = Some r"
    using assms False by (cases "hash_extended_find (Key_string f) (code_coverage x)") (simp_all add: get_mark_file_def)
  show ?thesis
  proof (cases r)
    case None
    then show ?thesis using assms False r by (simp add: get_mark_file_def)
  next
    case (Some i)
    then have "y = x\<lparr>previous_mark_filename := Some (file_name (file_store x ! i)), previous_mark_file := i\<rparr>"
      using assms False r by (simp add: get_mark_file_def split: if_splits)
    then show ?thesis by (simp add: same_levels_def)
  qed
qed

lemma get_mark_info_state:
  assumes "get_mark_info f g x = Some (b, y)"
  shows "\<exists>i. get_mark_file f x = Some (i, y)"
proof -
  obtain i z where z: "get_mark_file f x = Some (i, z)"
    using assms by (cases "get_mark_file f x") (auto simp: get_mark_info_def)
  have "y = z"
  proof (cases i)
    case (Some k)
    let ?file = "file_store z ! k"
    have k: "k < length (file_store z)" using assms z Some by (simp add: get_mark_info_def split: if_splits)
    show ?thesis
      using assms z Some k
      by (cases "hash_extended_find (Key_string g) (file_functions ?file)")
        (simp_all add: get_mark_info_def split: if_splits option.splits)
  qed (use assms z in \<open>simp add: get_mark_info_def\<close>)
  then show ?thesis using z by blast
qed

lemma get_mark_info_levels: "get_mark_info f g x = Some (b, y) \<Longrightarrow> same_levels x y"
  using get_mark_info_state get_mark_file_levels by blast

text \<open>Starting coverage in the middle of a request reads memory that was never written: when the first
  function entered after the start runs at one stack level, the branch numbers of the other levels stay
  uninitialised (the entry is only set for the own level), and the first branch start reached back at
  another level uses such a number.\<close>

lemma mid_request_start_faults:
  assumes "branches_size xg = 0" and "last_branch_nr xg = []"
    and "start_of_function junk fuel f (eg, xg) = Some (eg', xg')" and "lv \<noteq> level xg"
    and "get_mark_info filename fname (xg'\<lparr>level := lv\<rparr>) = Some (Some b, x1)"
    and "opcode_nr = 0 \<or> set_in_ex (of_nat opcode_nr) (entry_points (info_store x1 ! b)) = Some False"
    and "set_in_ex (of_nat opcode_nr) (starts (info_store x1 ! b)) = Some True"
  shows "mark_reached junk fuel filename fname g opcode_nr (eg', xg'\<lparr>level := lv\<rparr>) = None"
proof -
  have "last_branch_nr xg' = (replicate (level xg + 32) None)[level xg := Some (- 1)]"
    by (rule start_of_function_levels [OF assms(3,1,2)])
  then have "last_branch_nr x1 = (replicate (level xg + 32) None)[level xg := Some (- 1)]" "level x1 = lv"
    using get_mark_info_levels [OF assms(5)] by (simp_all add: same_levels_def)
  then have "mark_start_reached b opcode_nr x1 = None"
    using assms(4) by (simp add: mark_start_reached_def)
  then show ?thesis
    using assms(5-7) by (auto simp: mark_reached_def)
qed

definition abstract_function :: zend_op_array where
  "abstract_function =
     \<lparr>oa_function_name = Some ''f'', oa_filename = ''a.php'', line_start = 1, line_end = 2, oa_scope = None,
      acc_abstract = True, done_pass_two = True, is_user_function = True, opcodes_of = [], tracker = 0,
      filtered_coverage = False\<rparr>"

definition example_engine :: engine where
  "example_engine = \<lparr>op_arrays = [abstract_function], function_table = [], class_table = []\<rparr>"

lemma mid_request_start_faults_witness:
  "\<exists>xg eg' xg'. start_of_function CHR ''x'' 9 0 (example_engine, xg) = Some (eg', xg') \<and>
     mark_reached CHR ''x'' 9 ''a.php'' ''g'' 0 0 (eg', xg'\<lparr>level := 2\<rparr>) = None"
proof -
  have ok: "key_ok (Key_string ''g'')" by (simp add: key_ok_def)
  obtain h :: "nat xhash" where h: "hash_add_or_update (Key_string ''g'') 0 (hash_alloc 128 True) = Some h"
      "hash_inv h" "abs_hash h = (abs_hash (hash_alloc 128 True))(Key_string ''g'' \<mapsto> 0)"
    using xh.add [OF hash_alloc_ok(1) ok, of 128 0 True] by auto
  have find: "hash_extended_find (Key_string ''g'') h = Some (Some 0)"
    using xh.find [OF h(2) ok] h(3) by simp
  obtain s where s: "set_add 0 (set_create 1) = Some s" "members s = {0}" "set_wf s" "set_size s = 1"
    using set_add_ok [of "set_create 1" 0] by (auto simp: set_create_wf)
  have starts: "set_in_ex 0 s = Some True" using set_in_ok [of s 0] s by simp
  define bi where "bi = (branch_info_create 1)\<lparr>starts := s\<rparr>"
  define fl where "fl = (coverage_file_ctor ''a.php'')\<lparr>file_functions := h, has_branch_info := True,
    function_store := [\<lparr>function_name = ''g'', function_branch_info = Some 0\<rparr>]\<rparr>"
  define xg where "xg = example_request\<lparr>level := 3, previous_mark_filename := Some ''a.php'',
    file_store := [fl], info_store := [bi]\<rparr>"
  obtain eg' xg' where st: "start_of_function CHR ''x'' 9 0 (example_engine, xg) = Some (eg', xg')"
      and fs: "file_store xg' = [fl]" "info_store xg' = [bi]" "previous_mark_file xg' = 0"
        "previous_mark_filename xg' = Some ''a.php''"
    by (simp add: start_of_function_def prefill_code_coverage_def prefill_if_new_def example_engine_def
        xg_def example_request_def prefill_from_oparray_def abstract_function_def Let_def
        add_path_for_level_def make_sure_level_exists_def)
  have info: "get_mark_info ''a.php'' ''g'' (xg'\<lparr>level := 2\<rparr>) = Some (Some 0, xg'\<lparr>level := 2\<rparr>)"
    using fs find by (simp add: get_mark_info_def get_mark_file_def fl_def)
  have "mark_reached CHR ''x'' 9 ''a.php'' ''g'' 0 0 (eg', xg'\<lparr>level := 2\<rparr>) = None"
    by (rule mid_request_start_faults [OF _ _ st _ info]) (use fs starts in
        \<open>simp_all add: xg_def example_request_def bi_def\<close>)
  then show ?thesis using st by blast
qed

end
