(* ===== verification/StackFilter.thy ===== *)
theory StackFilter
  imports Frames CodeCoverage
begin

text \<open>
  The tracing and coverage filters \<open>xdebug_filter.c\<close>. A frame's flag is an argument and a result of the
  matchers; a null file name that is compared is the fault \<open>None\<close>. The linked lists of filters are
  lists, walked from the head.
\<close>

section \<open>Data\<close>

definition XDEBUG_FILTER_NONE :: int where "XDEBUG_FILTER_NONE = 0x000"
definition XDEBUG_FILTER_TRACING :: int where "XDEBUG_FILTER_TRACING = 0x100"
definition XDEBUG_FILTER_CODE_COVERAGE :: int where "XDEBUG_FILTER_CODE_COVERAGE = 0x200"
definition XDEBUG_PATH_WHITELIST :: int where "XDEBUG_PATH_WHITELIST = 0x01"
definition XDEBUG_PATH_BLACKLIST :: int where "XDEBUG_PATH_BLACKLIST = 0x02"
definition XDEBUG_NAMESPACE_WHITELIST :: int where "XDEBUG_NAMESPACE_WHITELIST = 0x11"
definition XDEBUG_NAMESPACE_BLACKLIST :: int where "XDEBUG_NAMESPACE_BLACKLIST = 0x12"

lemmas filter_defs = XDEBUG_FILTER_NONE_def XDEBUG_FILTER_TRACING_def XDEBUG_FILTER_CODE_COVERAGE_def
  XDEBUG_PATH_WHITELIST_def XDEBUG_PATH_BLACKLIST_def XDEBUG_NAMESPACE_WHITELIST_def
  XDEBUG_NAMESPACE_BLACKLIST_def

record filter_config =
  filter_type_tracing :: int
  filters_tracing :: "string list"
  filter_type_code_coverage :: int
  filters_code_coverage :: "string list"

section \<open>Matching\<close>

definition is_stack_frame_filtered :: "int \<Rightarrow> function_stack_entry \<Rightarrow> int" where
  "is_stack_frame_filtered filter_type fse =
     (if filter_type = XDEBUG_FILTER_TRACING then filtered_tracing fse
      else if filter_type = XDEBUG_FILTER_CODE_COVERAGE then filtered_code_coverage fse
      else 0)"

definition is_top_stack_frame_filtered :: "int \<Rightarrow> fstack \<Rightarrow> int option" where
  "is_top_stack_frame_filtered filter_type st = map_option (is_stack_frame_filtered filter_type) (get_stack_tail st)"

text \<open>A matcher returns whether it matched and the flag.\<close>

type_synonym matcher = "function_stack_entry \<Rightarrow> int \<Rightarrow> string \<Rightarrow> (bool \<times> int) option"

definition match_path_whitelist :: matcher where
  "match_path_whitelist fse flag filt =
     (case fse_filename fse of
        None \<Rightarrow> None
      | Some f \<Rightarrow> Some (if strncasecmp filt f (length filt) = 0 then (True, 0) else (False, flag)))"

definition match_path_blacklist :: matcher where
  "match_path_blacklist fse flag filt =
     (case fse_filename fse of
        None \<Rightarrow> None
      | Some f \<Rightarrow> Some (if strncasecmp filt f (length filt) = 0 then (True, 1) else (False, flag)))"

definition match_namespace :: "int \<Rightarrow> matcher" where
  "match_namespace new_flag fse flag filt =
     (case func_class (fse_function fse) of
        None \<Rightarrow> Some (if length filt = 0 then (True, new_flag) else (False, flag))
      | Some c \<Rightarrow>
          Some (if 0 < length filt \<and> strncasecmp filt c (length filt) = 0 then (True, new_flag)
                else (False, flag)))"

definition match_namespace_whitelist :: matcher where
  "match_namespace_whitelist = match_namespace 0"

definition match_namespace_blacklist :: matcher where
  "match_namespace_blacklist = match_namespace 1"

fun run_filters :: "matcher \<Rightarrow> function_stack_entry \<Rightarrow> int \<Rightarrow> string list \<Rightarrow> int option" where
  "run_filters m fse flag [] = Some flag"
| "run_filters m fse flag (f # fs) =
     do { (matched, flag) \<leftarrow> m fse flag f; if matched then Some flag else run_filters m fse flag fs }"

text \<open>The frame a coverage path filter looks at is the included file for includes.\<close>

definition include_frame :: "int \<Rightarrow> function_stack_entry \<Rightarrow> function_stack_entry" where
  "include_frame grp fse =
     (if grp = XDEBUG_FILTER_CODE_COVERAGE \<and> and (func_type (fse_function fse)) XFUNC_INCLUDES \<noteq> 0
      then fse\<lparr>fse_filename := include_filename fse\<rparr> else fse)"

definition filter_run_internal ::
  "function_stack_entry \<Rightarrow> int \<Rightarrow> int \<Rightarrow> int \<Rightarrow> string list \<Rightarrow> int option" where
  "filter_run_internal fse grp flag typ filters =
     (if typ = XDEBUG_PATH_WHITELIST
      then run_filters match_path_whitelist (include_frame grp fse) 1 filters
      else if typ = XDEBUG_PATH_BLACKLIST
      then run_filters match_path_blacklist (include_frame grp fse) 0 filters
      else if typ = XDEBUG_NAMESPACE_WHITELIST then run_filters match_namespace_whitelist fse 1 filters
      else if typ = XDEBUG_NAMESPACE_BLACKLIST then run_filters match_namespace_blacklist fse 0 filters
      else Some flag)"

definition filter_run_tracing :: "filter_config \<Rightarrow> function_stack_entry \<Rightarrow> function_stack_entry option" where
  "filter_run_tracing cfg fse =
     (let fse = fse\<lparr>filtered_tracing := 0\<rparr>
      in if filter_type_tracing cfg \<noteq> XDEBUG_FILTER_NONE
         then do {
           flag \<leftarrow> filter_run_internal fse XDEBUG_FILTER_TRACING (filtered_tracing fse)
                    (filter_type_tracing cfg) (filters_tracing cfg);
           Some (fse\<lparr>filtered_tracing := flag\<rparr>)
         }
         else Some fse)"

text \<open>The temporary frame is uninitialised except for its file and function; its type is never an
  include, so \<open>include_filename\<close> is not read.\<close>

definition filter_run_code_coverage ::
  "filter_config \<Rightarrow> function_stack_entry \<Rightarrow> zend_op_array \<Rightarrow> zend_op_array option" where
  "filter_run_code_coverage cfg uninit opa =
     (let opa = opa\<lparr>tracker := 0\<rparr>
      in if filter_type_code_coverage cfg \<noteq> XDEBUG_FILTER_NONE
         then do {
           let fse = uninit\<lparr>fse_filename := Some (oa_filename opa), fse_function := build_fname_from_oparray opa\<rparr>;
           flag \<leftarrow> filter_run_internal fse XDEBUG_FILTER_CODE_COVERAGE (filtered_code_coverage fse)
                    (filter_type_code_coverage cfg) (filters_code_coverage cfg);
           Some (opa\<lparr>filtered_coverage := (flag \<noteq> 0)\<rparr>)
         }
         else Some opa)"

section \<open>Configuration\<close>

definition strip_backslash :: "string \<Rightarrow> string" where
  "strip_backslash f = (case f of [] \<Rightarrow> [] | c # cs \<Rightarrow> if c = CHR 0x5C then cs else f)"

definition known_filter_type :: "int \<Rightarrow> bool" where
  "known_filter_type t \<longleftrightarrow>
     t = XDEBUG_PATH_WHITELIST \<or> t = XDEBUG_PATH_BLACKLIST \<or> t = XDEBUG_NAMESPACE_WHITELIST \<or>
     t = XDEBUG_NAMESPACE_BLACKLIST \<or> t = XDEBUG_FILTER_NONE"

definition set_filter_list :: "int \<Rightarrow> string list \<Rightarrow> string list" where
  "set_filter_list typ filters = 
     (if typ = XDEBUG_FILTER_NONE then [] else map (\<lambda>p. cstr (strip_backslash p)) filters)"

definition set_filter :: "int \<Rightarrow> int \<Rightarrow> string list \<Rightarrow> filter_config \<Rightarrow> filter_config" where
  "set_filter grp typ filters cfg =
     (if grp = XDEBUG_FILTER_TRACING
      then (let cfg = cfg\<lparr>filter_type_tracing := XDEBUG_FILTER_NONE\<rparr>
            in if known_filter_type typ
               then cfg\<lparr>filter_type_tracing := typ, filters_tracing := set_filter_list typ filters\<rparr>
               else cfg)
      else if grp = XDEBUG_FILTER_CODE_COVERAGE
      then (let cfg = cfg\<lparr>filter_type_code_coverage := XDEBUG_FILTER_NONE\<rparr>
            in if typ = XDEBUG_NAMESPACE_WHITELIST \<or> typ = XDEBUG_NAMESPACE_BLACKLIST then cfg
               else if known_filter_type typ
               then cfg\<lparr>filter_type_code_coverage := typ, filters_code_coverage := set_filter_list typ filters\<rparr>
               else cfg)
      else cfg)"

section \<open>What a filter does\<close>

text \<open>The empty namespace filter matches functions outside classes.\<close>

definition path_matches :: "string \<Rightarrow> string \<Rightarrow> bool" where
  "path_matches p f \<longleftrightarrow> starts_with_ci p f"

definition namespace_matches :: "string \<Rightarrow> string option \<Rightarrow> bool" where
  "namespace_matches p c =
     (case c of None \<Rightarrow> p = [] | Some c \<Rightarrow> p \<noteq> [] \<and> starts_with_ci p c)"

definition filtered_by :: "int \<Rightarrow> string list \<Rightarrow> string \<Rightarrow> string option \<Rightarrow> bool" where
  "filtered_by typ filters f c \<longleftrightarrow>
     (if typ = XDEBUG_PATH_WHITELIST then \<not> (\<exists>p \<in> set filters. path_matches p f)
      else if typ = XDEBUG_PATH_BLACKLIST then \<exists>p \<in> set filters. path_matches p f
      else if typ = XDEBUG_NAMESPACE_WHITELIST then \<not> (\<exists>p \<in> set filters. namespace_matches p c)
      else if typ = XDEBUG_NAMESPACE_BLACKLIST then \<exists>p \<in> set filters. namespace_matches p c
      else False)"

lemma run_filters_ok:
  assumes "\<And>fl flag. fl \<in> set filters \<Longrightarrow> m fse flag fl = Some (if P fl then (True, new) else (False, flag))"
  shows "run_filters m fse flag filters = Some (if \<exists>fl \<in> set filters. P fl then new else flag)"
  using assms by (induction filters) auto

lemma path_filter_ok:
  assumes "fse_filename fse = Some f" and "nul \<notin> set f" and "\<forall>p \<in> set filters. nul \<notin> set p"
  shows "run_filters match_path_whitelist fse flag filters =
           Some (if \<exists>p \<in> set filters. path_matches p f then 0 else flag)"
    and "run_filters match_path_blacklist fse flag filters =
           Some (if \<exists>p \<in> set filters. path_matches p f then 1 else flag)"
proof -
  have m: "strncasecmp p f (length p) = 0 \<longleftrightarrow> path_matches p f" if "p \<in> set filters" for p
    using assms(2,3) that strncasecmp_prefix [of p f] by (simp add: path_matches_def)
  show "run_filters match_path_whitelist fse flag filters =
      Some (if \<exists>p \<in> set filters. path_matches p f then 0 else flag)"
    by (rule run_filters_ok) (simp add: match_path_whitelist_def assms(1) m)
  show "run_filters match_path_blacklist fse flag filters =
      Some (if \<exists>p \<in> set filters. path_matches p f then 1 else flag)"
    by (rule run_filters_ok) (simp add: match_path_blacklist_def assms(1) m)
qed

lemma namespace_filter_ok:
  assumes "\<And>c. func_class (fse_function fse) = Some c \<Longrightarrow> nul \<notin> set c" and "\<forall>p \<in> set filters. nul \<notin> set p"
  shows "run_filters (match_namespace new) fse flag filters =
           Some (if \<exists>p \<in> set filters. namespace_matches p (func_class (fse_function fse)) then new else flag)"
  by (rule run_filters_ok)
    (use assms strncasecmp_prefix in \<open>auto simp: match_namespace_def namespace_matches_def split: option.splits\<close>)

lemma strip_no_nul: "\<forall>p \<in> set (map (\<lambda>p. cstr (strip_backslash p)) filters). nul \<notin> set p"
  by (auto simp: nul_def)

lemma filter_run_internal_ok:
  assumes "known_filter_type typ" and "typ \<noteq> XDEBUG_FILTER_NONE" and "fse_filename fse = Some f"
    and "nul \<notin> set f" and "\<And>c. func_class (fse_function fse) = Some c \<Longrightarrow> nul \<notin> set c"
    and "\<forall>p \<in> set filters. nul \<notin> set p"
  shows "filter_run_internal fse XDEBUG_FILTER_TRACING flag typ filters =
     Some (if filtered_by typ filters f (func_class (fse_function fse)) then 1 else 0)"
proof -
  have i: "include_frame XDEBUG_FILTER_TRACING x = x" for x
    by (simp add: include_frame_def filter_defs)
  note path = path_filter_ok [OF assms(3,4,6)]
  note ns = namespace_filter_ok [of fse filters, OF assms(5) assms(6)]
  have "typ = XDEBUG_PATH_WHITELIST \<or> typ = XDEBUG_PATH_BLACKLIST \<or> typ = XDEBUG_NAMESPACE_WHITELIST \<or>
      typ = XDEBUG_NAMESPACE_BLACKLIST"
    using assms(1,2) by (auto simp: known_filter_type_def)
  then show ?thesis
  proof (elim disjE)
    assume t: "typ = XDEBUG_PATH_WHITELIST"
    show ?thesis unfolding t filter_run_internal_def i filtered_by_def by (simp add: path)
  next
    assume t: "typ = XDEBUG_PATH_BLACKLIST"
    show ?thesis unfolding t filter_run_internal_def i filtered_by_def path by (simp add: filter_defs)
  next
    assume t: "typ = XDEBUG_NAMESPACE_WHITELIST"
    show ?thesis
      unfolding t filter_run_internal_def match_namespace_whitelist_def filtered_by_def
      by (simp add: filter_defs ns)
  next
    assume t: "typ = XDEBUG_NAMESPACE_BLACKLIST"
    show ?thesis
      unfolding t filter_run_internal_def match_namespace_blacklist_def filtered_by_def
      by (simp add: filter_defs ns)
  qed
qed

text \<open>C22: After \<open>xdebug_set_filter\<close> for tracing with any of the filter types, a frame whose file is known
  is filtered exactly when the list says so: for the white lists when no filter is a prefix (up to case)
  of the file or class name, for the black lists when one is. One leading backslash of a filter is
  removed whatever the type, also from a path filter, where the comment in the source speaks of
  namespace filters only; the empty namespace filter stands for code outside classes.\<close>

theorem tracing_filter_exact:
  assumes "known_filter_type typ" and "fse_filename fse = Some f" and "nul \<notin> set f"
    and "\<And>c. func_class (fse_function fse) = Some c \<Longrightarrow> nul \<notin> set c"
  shows "filter_run_tracing (set_filter XDEBUG_FILTER_TRACING typ filters cfg) fse =
     Some (fse\<lparr>filtered_tracing :=
       (if filtered_by typ (map (\<lambda>p. cstr (strip_backslash p)) filters) f (func_class (fse_function fse))
        then 1 else 0)\<rparr>)"
proof (cases "typ = XDEBUG_FILTER_NONE")
  case True
  then show ?thesis
    by (simp add: filter_run_tracing_def set_filter_def filtered_by_def Let_def known_filter_type_def filter_defs)
next
  case False
  let ?g = "fse\<lparr>filtered_tracing := 0\<rparr>" and ?ps = "map (\<lambda>p. cstr (strip_backslash p)) filters"
  have "filter_run_internal ?g XDEBUG_FILTER_TRACING 0 typ ?ps =
      Some (if filtered_by typ ?ps f (func_class (fse_function fse)) then 1 else 0)"
    using filter_run_internal_ok [OF assms(1) False, of ?g f ?ps 0] assms(2-4) strip_no_nul by simp
  then show ?thesis
    using False assms(1) by (simp add: filter_run_tracing_def set_filter_def set_filter_list_def Let_def)
qed

definition example_frame :: function_stack_entry where
  "example_frame =
     \<lparr>fse_function = \<lparr>func_class = Some ''App'', func_function = Some ''run'', func_type = XFUNC_MEMBER\<rparr>,
      user_defined = XDEBUG_EXTERNAL, fse_level = 1, fse_filename = Some ''/srv/App.php'', fse_lineno = 3,
      include_filename = None, function_nr = 1, filtered_tracing = 0, filtered_code_coverage = 0,
      declared_vars = None,
      fse_execute_data = None, fse_symbol_table = None, fse_this = None\<rparr>"

theorem tracing_filter_exact_witness:
  "filter_run_tracing
     (set_filter XDEBUG_FILTER_TRACING XDEBUG_PATH_WHITELIST [''/SRV/'']
        \<lparr>filter_type_tracing = 0, filters_tracing = [], filter_type_code_coverage = 0,
         filters_code_coverage = []\<rparr>) example_frame = Some (example_frame\<lparr>filtered_tracing := 0\<rparr>)"
proof -
  have "filtered_by XDEBUG_PATH_WHITELIST (map (\<lambda>p. cstr (strip_backslash p)) [''/SRV/'']) ''/srv/App.php'' (Some ''App'')
      = False"
    by code_simp
  then show ?thesis
    using tracing_filter_exact [of XDEBUG_PATH_WHITELIST example_frame "''/srv/App.php''" "[''/SRV/'']"]
    by (simp add: known_filter_type_def example_frame_def nul_def)
qed

end
