(* ===== verification/SharedCallstack.thy ===== *)
theory SharedCallstack
  imports Frames "HOL-Library.Monad_Syntax"
begin

text \<open>
  How the tracing extension tells the system call tracer which PHP function runs: the shared memory of
  \<open>xdebug.c\<close> (module start and shutdown, \<open>confirm_shm_pid\<close>, \<open>xdebug_execute_internal\<close>) and
  \<open>update_shared_callstack\<close> of \<open>xdebug_profiler.c\<close>. A shared memory object is the list of its 8192 bytes,
  found by its name \<open>trace_<pid>\<close> and mapped by any number of processes; opening and mapping succeed.
  The byte at \<open>SHM_FORK_FLAG_OFFSET\<close> is a counter that the tracer raises when a process forks; the tracer
  is not part of this program and is an event of the model. A write outside a buffer is \<open>None\<close>.

  Processes interleave between accesses to the shared memory: the loop before a call is a machine with one
  step for each access, so that the two accesses of \<open>shm_ptr[SHM_FORK_FLAG_OFFSET] -= 1\<close> are two steps and
  any number of steps of other processes may fall between them. The text of a call is written in one step.
\<close>

section \<open>Data\<close>

definition SHM_SIZE :: nat where "SHM_SIZE = 8192"
definition SHM_CALLSTACK_SIZE :: nat where "SHM_CALLSTACK_SIZE = 8188"
definition SHM_FORK_FLAG_OFFSET :: nat where "SHM_FORK_FLAG_OFFSET = SHM_CALLSTACK_SIZE"

type_synonym region = string

text \<open>The globals of one process.\<close>

record proc =
  shm_pid :: int
  shm_obj :: nat
  shm_name :: string

record shm =
  objects :: "nat \<Rightarrow> region"
  names :: "string \<Rightarrow> nat option"
  next_object :: nat

definition zero_region :: region where
  "zero_region = replicate SHM_SIZE nul"

definition name_of :: "int \<Rightarrow> string" where
  "name_of pid = ''trace'' @ ''_'' @ dec_int pid"

text \<open>\<open>shm_open\<close> with \<open>O_CREAT\<close>, \<open>ftruncate\<close> to the fixed size and \<open>mmap\<close>.\<close>

definition open_object :: "string \<Rightarrow> shm \<Rightarrow> nat \<times> shm" where
  "open_object n m =
     (case names m n of
        Some i \<Rightarrow> (i, m)
      | None \<Rightarrow> (next_object m,
          m\<lparr>names := (names m)(n \<mapsto> next_object m),
            objects := (objects m)(next_object m := zero_region),
            next_object := next_object m + 1\<rparr>))"

definition shm_minit :: "int \<Rightarrow> shm \<Rightarrow> proc \<times> shm" where
  "shm_minit pid m =
     (let (i, m) = open_object (name_of pid) m
      in (\<lparr>shm_pid = pid, shm_obj = i, shm_name = name_of pid\<rparr>, m))"

definition shm_mshutdown :: "proc \<Rightarrow> shm \<Rightarrow> shm" where
  "shm_mshutdown p m = m\<lparr>names := (names m)(shm_name p := None)\<rparr>"

section \<open>Publishing the innermost call\<close>

definition show_str :: "string option \<Rightarrow> string" where
  "show_str s = (case s of None \<Rightarrow> ''(null)'' | Some t \<Rightarrow> t)"

definition frame_line :: "function_stack_entry \<Rightarrow> string" where
  "frame_line i =
     (case func_class (fse_function i) of
        Some c \<Rightarrow> '' > '' @ c @ ''::'' @ show_str (func_function (fse_function i)) @ '' ->'' @
                  show_str (fse_filename i) @ '':'' @ dec_int (fse_lineno i) @ [CHR 0x0A]
      | None \<Rightarrow> '' > '' @ show_str (func_function (fse_function i)) @ '' ->'' @
                show_str (fse_filename i) @ '':'' @ dec_int (fse_lineno i) @ [CHR 0x0A])"

definition write_at :: "nat \<Rightarrow> string \<Rightarrow> region \<Rightarrow> region option" where
  "write_at off bytes r =
     (if off + length bytes \<le> length r
      then Some (take off r @ bytes @ drop (off + length bytes) r) else None)"

text \<open>From the innermost frame outwards; \<open>tmp\<close> has \<open>SHM_CALLSTACK_SIZE\<close> bytes. The first line that
  fits ends the loop.\<close>

fun callstack_loop :: "function_stack_entry list \<Rightarrow> nat \<Rightarrow> region \<Rightarrow> region option" where
  "callstack_loop [] sz r = Some r"
| "callstack_loop (i # is) sz r =
     (if sz < SHM_CALLSTACK_SIZE
      then
        (let tmp = frame_line i
         in if SHM_CALLSTACK_SIZE < length tmp + 1 then None
            else if sz + length tmp < SHM_CALLSTACK_SIZE then write_at sz (tmp @ [nul]) r
            else callstack_loop is sz r)
      else Some r)"

text \<open>What \<open>update_shared_callstack\<close> does when the counter is not positive.\<close>

definition write_callstack :: "fstack \<Rightarrow> region \<Rightarrow> region option" where
  "write_callstack st r =
     do {
       r \<leftarrow> (case st of None \<Rightarrow> Some r | Some fs \<Rightarrow> callstack_loop (rev fs) 0 r);
       Some (r[SHM_CALLSTACK_SIZE - 1 := nul])
     }"

text \<open>
  Where a process is: outside the loop; about to read the counter in \<open>update_shared_callstack\<close>; about to
  write its text, the counter read not being positive; in \<open>confirm_shm_pid\<close>, about to read the counter, to
  write back the value read less one, or to map the memory of its own name.
\<close>

datatype pc =
    Out | In_check fstack | In_write fstack | In_load fstack | In_store fstack char | In_reopen fstack

text \<open>One step of process \<open>pid\<close> in the loop of \<open>xdebug_execute_internal\<close>; \<open>None\<close> is a fault.\<close>

definition shm_step :: "int \<Rightarrow> pc \<Rightarrow> proc \<times> shm \<Rightarrow> (pc \<times> proc \<times> shm) option" where
  "shm_step pid pc = (\<lambda>(p, m).
     (let r = objects m (shm_obj p) in
      case pc of
        Out \<Rightarrow> None
      | In_check st \<Rightarrow>
          Some (if schar (r ! SHM_FORK_FLAG_OFFSET) > 0
                then (if shm_pid p = pid then In_check st else In_load st) else In_write st, p, m)
      | In_write st \<Rightarrow>
          (case write_callstack st r of
             None \<Rightarrow> None
           | Some r \<Rightarrow> Some (Out, p, m\<lparr>objects := (objects m)(shm_obj p := r)\<rparr>))
      | In_load st \<Rightarrow> Some (In_store st (r ! SHM_FORK_FLAG_OFFSET), p, m)
      | In_store st b \<Rightarrow>
          Some (In_reopen st, p, m\<lparr>objects := (objects m)(shm_obj p :=
                  r[SHM_FORK_FLAG_OFFSET := char_of ((uchar b + 255) mod 256)])\<rparr>)
      | In_reopen st \<Rightarrow>
          (let (i, m) = open_object (name_of pid) m
           in Some (In_check st, \<lparr>shm_pid = pid, shm_obj = i, shm_name = name_of pid\<rparr>, m))))"

text \<open>
  The loop of a process that no other process disturbs; \<open>None\<close> is a fault or a loop that never ends.
\<close>

partial_function (option) publish_steps :: "int \<Rightarrow> pc \<times> proc \<times> shm \<Rightarrow> (proc \<times> shm) option" where
  "publish_steps pid s =
     (case shm_step pid (fst s) (snd s) of
        None \<Rightarrow> None
      | Some (pc, s') \<Rightarrow> if pc = Out then Some s' else publish_steps pid (pc, s'))"

definition publish :: "int \<Rightarrow> fstack \<Rightarrow> proc \<times> shm \<Rightarrow> (proc \<times> shm) option" where
  "publish pid st s = publish_steps pid (In_check st, s)"

text \<open>After the call the whole memory is cleared, the counter included.\<close>

definition clear_shared :: "proc \<Rightarrow> shm \<Rightarrow> shm" where
  "clear_shared p m = m\<lparr>objects := (objects m)(shm_obj p := zero_region)\<rparr>"

section \<open>Several processes\<close>

text \<open>Of every process its globals, where it is, and the number of internal functions it is in.\<close>

record sys =
  procs :: "int \<Rightarrow> proc option"
  at :: "int \<Rightarrow> pc"
  calls :: "int \<Rightarrow> nat"
  memory :: shm

text \<open>The tracer counts a fork in the memory of the forking process.\<close>

definition tracer_mark :: "nat \<Rightarrow> shm \<Rightarrow> shm" where
  "tracer_mark i m =
     m\<lparr>objects := (objects m)(i := (objects m i)
          [SHM_FORK_FLAG_OFFSET := char_of ((uchar (objects m i ! SHM_FORK_FLAG_OFFSET) + 1) mod 256)])\<rparr>"

text \<open>A process enters an internal function, makes a step of its loop, returns from the function, or forks.\<close>

datatype event = Enter int fstack | Step int | Return int | Fork int int

definition exec :: "event \<Rightarrow> sys \<Rightarrow> sys option" where
  "exec e s =
     (case e of
        Enter c st \<Rightarrow>
          (if procs s c \<noteq> None \<and> at s c = Out then Some (s\<lparr>at := (at s)(c := In_check st)\<rparr>) else None)
      | Step c \<Rightarrow>
          (case procs s c of
             None \<Rightarrow> None
           | Some p \<Rightarrow>
               (case shm_step c (at s c) (p, memory s) of
                  None \<Rightarrow> None
                | Some (pc, p, m) \<Rightarrow>
                    Some (s\<lparr>procs := (procs s)(c \<mapsto> p), at := (at s)(c := pc), memory := m,
                            calls := (calls s)(c := (if pc = Out then calls s c + 1 else calls s c))\<rparr>)))
      | Return c \<Rightarrow>
          (case procs s c of
             None \<Rightarrow> None
           | Some p \<Rightarrow>
               if at s c = Out \<and> 0 < calls s c
               then Some (s\<lparr>memory := clear_shared p (memory s), calls := (calls s)(c := calls s c - 1)\<rparr>)
               else None)
      | Fork c d \<Rightarrow>
          (case procs s c of
             None \<Rightarrow> None
           | Some p \<Rightarrow>
               if at s c = Out \<and> procs s d = None
               then Some (s\<lparr>procs := (procs s)(d \<mapsto> p), at := (at s)(d := Out),
                            calls := (calls s)(d := calls s c), memory := tracer_mark (shm_obj p) (memory s)\<rparr>)
               else None))"

fun run :: "event list \<Rightarrow> sys \<Rightarrow> sys option" where
  "run [] s = Some s"
| "run (e # es) s = (case exec e s of None \<Rightarrow> None | Some s' \<Rightarrow> run es s')"

text \<open>What the tracer reads for a process: the C string in the object with its name.\<close>

definition tracer_reads :: "int \<Rightarrow> sys \<Rightarrow> string option" where
  "tracer_reads pid s = map_option (\<lambda>i. cstr (objects (memory s) i)) (names (memory s) (name_of pid))"

definition first_sys :: "int \<Rightarrow> sys" where
  "first_sys m =
     (let (p, mem) = shm_minit m \<lparr>objects = \<lambda>_. zero_region, names = Map.empty, next_object = 0\<rparr>
      in \<lparr>procs = [m \<mapsto> p], at = (\<lambda>_. Out), calls = (\<lambda>_. 0), memory = mem\<rparr>)"

section \<open>One publication\<close>

lemmas shm_defs = SHM_SIZE_def SHM_CALLSTACK_SIZE_def SHM_FORK_FLAG_OFFSET_def

definition flag :: "region \<Rightarrow> nat" where
  "flag r = uchar (r ! SHM_FORK_FLAG_OFFSET)"

definition line_ok :: "function_stack_entry \<Rightarrow> bool" where
  "line_ok i \<longleftrightarrow> nul \<notin> set (frame_line i) \<and> length (frame_line i) < SHM_CALLSTACK_SIZE"

lemma flag_pos: "flag r \<le> 127 \<Longrightarrow> schar (r ! SHM_FORK_FLAG_OFFSET) > 0 \<longleftrightarrow> 0 < flag r"
  by (auto simp: flag_def schar_def)

lemma zero_region_simps [simp]: "length zero_region = SHM_SIZE" "flag zero_region = 0" "cstr zero_region = []"
  by (simp_all add: zero_region_def flag_def shm_defs nul_def uchar_def cstr_def)

lemma callstack_loop_keeps:
  assumes "callstack_loop fs sz r = Some r'" and "length r = SHM_SIZE"
  shows "length r' = SHM_SIZE \<and> r' ! SHM_FORK_FLAG_OFFSET = r ! SHM_FORK_FLAG_OFFSET"
  using assms
proof (induction fs sz r rule: callstack_loop.induct)
  case (2 i "is" sz r)
  show ?case
  proof (cases "sz < SHM_CALLSTACK_SIZE \<and> sz + length (frame_line i) < SHM_CALLSTACK_SIZE")
    case True
    then have w: "write_at sz (frame_line i @ [nul]) r = Some r'"
      using 2(2) by (auto simp: Let_def split: if_splits)
    then show ?thesis
      using True 2(3) by (auto simp: write_at_def nth_append shm_defs split: if_splits)
  next
    case False
    then show ?thesis using 2 by (auto simp: Let_def split: if_splits)
  qed
qed simp

lemma write_callstack_keeps:
  assumes "write_callstack st r = Some r'" and "length r = SHM_SIZE"
  shows "length r' = SHM_SIZE" and "flag r' = flag r"
proof -
  obtain q where "(case st of None \<Rightarrow> Some r | Some fs \<Rightarrow> callstack_loop (rev fs) 0 r) = Some q"
      and r': "r' = q[SHM_CALLSTACK_SIZE - 1 := nul]"
    using assms(1) unfolding write_callstack_def bind_eq_Some_conv by blast
  then have "length q = SHM_SIZE \<and> q ! SHM_FORK_FLAG_OFFSET = r ! SHM_FORK_FLAG_OFFSET"
    using callstack_loop_keeps assms(2) by (auto split: option.splits)
  then show "length r' = SHM_SIZE" "flag r' = flag r" by (simp_all add: r' flag_def shm_defs)
qed

text \<open>The line of the innermost frame is what stands in the memory afterwards.\<close>

lemma write_callstack_line:
  assumes "length r = SHM_SIZE" and "fs \<noteq> []" and "line_ok (last fs)"
  shows "\<exists>r'. write_callstack (Some fs) r = Some r' \<and> cstr r' = frame_line (last fs)"
proof -
  let ?t = "frame_line (last fs)"
  obtain gs where fs: "rev fs = last fs # gs" using assms(2) by (cases fs rule: rev_cases) auto
  have l: "length ?t < SHM_CALLSTACK_SIZE" "nul \<notin> set ?t" using assms(3) by (simp_all add: line_ok_def)
  define r1 where "r1 = (?t @ [nul]) @ drop (length ?t + 1) r"
  have loop: "callstack_loop (rev fs) 0 r = Some r1"
    using l(1) assms(1) by (simp add: fs r1_def write_at_def shm_defs Let_def)
  have len: "length r1 = SHM_SIZE" using l(1) assms(1) by (simp add: r1_def shm_defs)
  let ?r2 = "r1[SHM_CALLSTACK_SIZE - 1 := nul]"
  have "?r2 = ?t @ nul # (drop (length ?t + 1) ?r2)"
  proof (rule nth_equalityI)
    show "length ?r2 = length (?t @ nul # drop (length ?t + 1) ?r2)"
      using len l(1) by (simp add: shm_defs)
  next
    fix i assume i: "i < length ?r2"
    consider "i < length ?t" | "i = length ?t" | "length ?t < i" by linarith
    then show "?r2 ! i = (?t @ nul # drop (length ?t + 1) ?r2) ! i"
    proof cases
      case 1
      then have "i \<noteq> SHM_CALLSTACK_SIZE - 1" using l(1) by simp
      then show ?thesis using 1 by (simp add: r1_def nth_append)
    next
      case 2
      then show ?thesis using l(1) len by (cases "i = SHM_CALLSTACK_SIZE - 1") (simp_all add: r1_def nth_append shm_defs)
    next
      case 3
      then have "(?t @ nul # drop (length ?t + 1) ?r2) ! i = drop (length ?t + 1) ?r2 ! (i - length ?t - 1)"
        by (simp add: nth_append)
      then show ?thesis using 3 i by simp
    qed
  qed
  then have "cstr ?r2 = ?t" using cstr_append_nul [OF l(2)] by metis
  then show ?thesis using loop by (simp add: write_callstack_def)
qed

lemma write_publishes:
  assumes "length r = SHM_SIZE" and "fs \<noteq> []" and "line_ok (last fs)"
  shows "\<exists>r'. write_callstack (Some fs) r = Some r' \<and> length r' = SHM_SIZE \<and>
     cstr r' = frame_line (last fs) \<and> flag r' = flag r"
  using write_callstack_line [OF assms] write_callstack_keeps [OF _ assms(1)] by blast

text \<open>A process whose counter is zero publishes at once.\<close>

lemma publish_own:
  assumes "flag (objects m (shm_obj p)) = 0" and "write_callstack st (objects m (shm_obj p)) = Some r"
  shows "publish pid st (p, m) = Some (p, m\<lparr>objects := (objects m)(shm_obj p := r)\<rparr>)"
proof -
  have "shm_step pid (In_check st) (p, m) = Some (In_write st, p, m)"
    using assms(1) flag_pos [of "objects m (shm_obj p)"] by (simp add: shm_step_def)
  moreover have "shm_step pid (In_write st) (p, m) = Some (Out, p, m\<lparr>objects := (objects m)(shm_obj p := r)\<rparr>)"
    using assms(2) by (simp add: shm_step_def)
  ultimately show ?thesis
    unfolding publish_def by (subst publish_steps.simps, simp, subst publish_steps.simps, simp)
qed

end
