(* ===== verification/SharedSteps.thy ===== *)
theory SharedSteps
  imports SharedCallstack
begin

text \<open>
  What the protocol of \<open>SharedCallstack\<close> guarantees when processes interleave between their accesses to
  the shared memory, and where it fails. The discipline it is made for: only the master forks, no fork is
  counted between the two accesses of a decrement, and no function returns in the master (which clears
  its memory) while a forked worker has not counted itself down.
\<close>

section \<open>Schedules\<close>

text \<open>The workers that use the memory of the master and have not yet counted themselves down.\<close>

definition waiting :: "int \<Rightarrow> sys \<Rightarrow> int set" where
  "waiting m s = {c. c \<noteq> m \<and> (\<exists>p. procs s c = Some p \<and> shm_pid p = m) \<and> (\<forall>st. at s c \<noteq> In_reopen st)}"

definition stack_ok :: "fstack \<Rightarrow> bool" where
  "stack_ok st \<longleftrightarrow> (\<exists>fs. st = Some fs \<and> fs \<noteq> [] \<and> line_ok (last fs))"

definition counter :: "int \<Rightarrow> sys \<Rightarrow> nat" where
  "counter c s = (case procs s c of None \<Rightarrow> 0 | Some p \<Rightarrow> flag (objects (memory s) (shm_obj p)))"

definition ok_event :: "int \<Rightarrow> sys \<Rightarrow> event \<Rightarrow> bool" where
  "ok_event m s e =
     (case e of
        Enter c st \<Rightarrow> stack_ok st
      | Step c \<Rightarrow> True
      | Return c \<Rightarrow> (if c = m then waiting m s = {} else c \<notin> waiting m s)
      | Fork c d \<Rightarrow> c = m \<and> counter m s < 127 \<and> (\<forall>x st b. at s x \<noteq> In_store st b))"

fun sched :: "int \<Rightarrow> sys \<Rightarrow> event list \<Rightarrow> sys \<Rightarrow> bool" where
  "sched m s [] s' \<longleftrightarrow> s' = s"
| "sched m s (e # es) s' \<longleftrightarrow>
     ok_event m s e \<and> (case exec e s of None \<Rightarrow> False | Some s1 \<Rightarrow> sched m s1 es s')"

section \<open>The invariant\<close>

definition owns :: "sys \<Rightarrow> int \<Rightarrow> proc \<Rightarrow> bool" where
  "owns s c p \<longleftrightarrow> shm_pid p = c \<and> names (memory s) (name_of c) = Some (shm_obj p)"

definition names_ok :: "shm \<Rightarrow> bool" where
  "names_ok m \<longleftrightarrow>
     (\<forall>n i. names m n = Some i \<longrightarrow> i < next_object m \<and> length (objects m i) = SHM_SIZE) \<and>
     (\<forall>n n' i. names m n = Some i \<longrightarrow> names m n' = Some i \<longrightarrow> n = n')"

definition worker_pc :: "pc \<Rightarrow> bool" where
  "worker_pc pc \<longleftrightarrow> (\<forall>st. pc \<noteq> In_write st)"

definition owner_pc :: "pc \<Rightarrow> bool" where
  "owner_pc pc \<longleftrightarrow> pc = Out \<or> (\<exists>st. pc = In_check st \<or> pc = In_write st)"

definition pc_stack_ok :: "pc \<Rightarrow> bool" where
  "pc_stack_ok pc =
     (case pc of Out \<Rightarrow> True | In_check st \<Rightarrow> stack_ok st | In_write st \<Rightarrow> stack_ok st
      | In_load st \<Rightarrow> stack_ok st | In_store st b \<Rightarrow> stack_ok st | In_reopen st \<Rightarrow> stack_ok st)"

definition member_ok :: "proc \<Rightarrow> sys \<Rightarrow> int \<Rightarrow> proc \<Rightarrow> bool" where
  "member_ok pm s c p \<longleftrightarrow>
     (p = pm \<and> names (memory s) (name_of c) = None \<and> worker_pc (at s c)) \<or>
     (owns s c p \<and> flag (objects (memory s) (shm_obj p)) = 0 \<and> owner_pc (at s c))"

definition pc_store_ok :: "int \<Rightarrow> sys \<Rightarrow> int \<Rightarrow> bool" where
  "pc_store_ok m s c \<longleftrightarrow> (\<forall>st b. at s c = In_store st b \<longrightarrow> card (waiting m s) \<le> uchar b \<and> uchar b \<le> 127)"

definition master_ok :: "int \<Rightarrow> sys \<Rightarrow> bool" where
  "master_ok m s \<longleftrightarrow> owner_pc (at s m) \<and> ((\<exists>st. at s m = In_write st) \<longrightarrow> waiting m s = {})"

definition sys_inv :: "int \<Rightarrow> proc \<Rightarrow> sys \<Rightarrow> bool" where
  "sys_inv m pm s \<longleftrightarrow>
     procs s m = Some pm \<and> owns s m pm \<and> names_ok (memory s) \<and>
     (\<forall>c p. procs s c = Some p \<longrightarrow> c \<noteq> m \<longrightarrow> member_ok pm s c p) \<and>
     (\<forall>c. procs s c = None \<longrightarrow> names (memory s) (name_of c) = None) \<and>
     finite (waiting m s) \<and> card (waiting m s) \<le> flag (objects (memory s) (shm_obj pm)) \<and>
     flag (objects (memory s) (shm_obj pm)) \<le> 127 \<and>
     (\<forall>c. pc_store_ok m s c) \<and> master_ok m s \<and> (\<forall>c. pc_stack_ok (at s c))"

lemma dec_int_inj: "dec_int a = dec_int b \<longleftrightarrow> a = b"
proof -
  have minus: "dec n \<noteq> CHR ''-'' # t" for n t
    using dec_isdigit [of "CHR ''-''" n] isdigit_not_sign [of "CHR ''-''"] by (metis list.set_intros(1))
  show ?thesis
    using minus by (auto simp: dec_int_def dec_inj split: if_splits) metis+
qed

lemma name_of_inj [simp]: "name_of a = name_of b \<longleftrightarrow> a = b"
  by (simp add: name_of_def dec_int_inj)

lemma flag_set:
  assumes "length r = SHM_SIZE" and "n < 256"
  shows "flag (r[SHM_FORK_FLAG_OFFSET := char_of n]) = n"
  using assms by (simp add: flag_def shm_defs uchar_def)

lemma pred_byte: "0 < n \<Longrightarrow> n \<le> 127 \<Longrightarrow> (n + 255) mod 256 = n - (1 :: nat)"
proof -
  assume "0 < n" "n \<le> 127"
  then obtain k where "n = Suc k" "k < 256" by (cases n) auto
  then show ?thesis by simp
qed

lemma sys_invD:
  assumes "sys_inv m pm s"
  shows "procs s m = Some pm" and "owns s m pm" and "shm_pid pm = m"
    and "names (memory s) (name_of m) = Some (shm_obj pm)"
    and "length (objects (memory s) (shm_obj pm)) = SHM_SIZE" and "shm_obj pm < next_object (memory s)"
    and "finite (waiting m s)" and "card (waiting m s) \<le> flag (objects (memory s) (shm_obj pm))"
    and "flag (objects (memory s) (shm_obj pm)) \<le> 127" and "names_ok (memory s)"
  using assms by (auto simp: sys_inv_def owns_def names_ok_def)

lemma sys_inv_member: "sys_inv m pm s \<Longrightarrow> procs s c = Some p \<Longrightarrow> c \<noteq> m \<Longrightarrow> member_ok pm s c p"
  by (simp add: sys_inv_def)

lemma owner_objects:
  assumes "names_ok (memory s)" and "owns s c p" and "owns s d q" and "c \<noteq> d"
  shows "shm_obj p \<noteq> shm_obj q"
  using assms unfolding names_ok_def owns_def by (metis name_of_inj)

text \<open>A change of place alone.\<close>

lemma inv_goto:
  assumes inv: "sys_inv m pm s" and p: "procs s c = Some p"
    and w: "waiting m (s\<lparr>at := (at s)(c := pc)\<rparr>) \<subseteq> waiting m s"
    and mem: "c \<noteq> m \<Longrightarrow> member_ok pm (s\<lparr>at := (at s)(c := pc)\<rparr>) c p"
    and st: "pc_store_ok m (s\<lparr>at := (at s)(c := pc)\<rparr>) c"
    and mst: "c = m \<Longrightarrow> master_ok m (s\<lparr>at := (at s)(m := pc)\<rparr>)" and ok: "pc_stack_ok pc"
  shows "sys_inv m pm (s\<lparr>at := (at s)(c := pc), calls := k\<rparr>)"
proof -
  let ?s = "s\<lparr>at := (at s)(c := pc)\<rparr>" and ?s' = "s\<lparr>at := (at s)(c := pc), calls := k\<rparr>"
  note d = sys_invD [OF inv]
  have wt: "waiting m ?s' = waiting m ?s" by (simp add: waiting_def)
  have card: "card (waiting m ?s) \<le> card (waiting m s)" by (rule card_mono [OF d(7) w])
  have "member_ok pm ?s' x q" if "procs s x = Some q" "x \<noteq> m" for x q
    using sys_inv_member [OF inv that] mem that p by (cases "x = c") (auto simp: member_ok_def owns_def)
  moreover have "pc_store_ok m ?s' x" for x
  proof (cases "x = c")
    case True
    then show ?thesis using st unfolding pc_store_ok_def wt by simp
  next
    case False
    then show ?thesis using inv card unfolding sys_inv_def pc_store_ok_def wt by fastforce
  qed
  moreover have "master_ok m ?s'"
  proof (cases "c = m")
    case True
    then show ?thesis using mst unfolding master_ok_def wt by simp
  next
    case False
    then show ?thesis using inv w unfolding sys_inv_def master_ok_def wt by auto
  qed
  moreover have "pc_stack_ok (at ?s' x)" for x using inv ok by (simp add: sys_inv_def)
  moreover have "owns ?s' m pm" using d(2) by (simp add: owns_def)
  moreover have "finite (waiting m ?s')" using d(7) w finite_subset wt by metis
  ultimately show ?thesis
    using inv card unfolding sys_inv_def wt by auto
qed

text \<open>A change of the memory of an owner.\<close>

lemma inv_memory:
  assumes inv: "sys_inv m pm s" and p: "procs s c = Some p" "owns s c p"
    and r: "length r = SHM_SIZE" "c \<noteq> m \<Longrightarrow> flag r = 0"
      "c = m \<Longrightarrow> card (waiting m s) \<le> flag r \<and> flag r \<le> 127"
  shows "sys_inv m pm (s\<lparr>memory := (memory s)\<lparr>objects := (objects (memory s))(shm_obj p := r)\<rparr>\<rparr>)" (is "sys_inv m pm ?s")
proof -
  note d = sys_invD [OF inv]
  have wt: "waiting m ?s = waiting m s" by (simp add: waiting_def)
  have own: "owns ?s x q \<longleftrightarrow> owns s x q" for x q by (simp add: owns_def)
  have obj: "objects (memory ?s) (shm_obj q) = objects (memory s) (shm_obj q)" if "owns s x q" "x \<noteq> c" for x q
    using owner_objects [OF d(10) that(1) p(2) that(2)] by simp
  have "member_ok pm ?s x q" if x: "procs s x = Some q" "x \<noteq> m" for x q
  proof (cases "x = c")
    case True
    then show ?thesis
      using sys_inv_member [OF inv x] x p r(2) by (auto simp: member_ok_def own) (auto simp: owns_def)
  next
    case False
    then show ?thesis
      using sys_inv_member [OF inv x] owner_objects [OF d(10) _ p(2) False, of q]
      by (auto simp: member_ok_def own)
  qed
  moreover have "card (waiting m ?s) \<le> flag (objects (memory ?s) (shm_obj pm)) \<and>
      flag (objects (memory ?s) (shm_obj pm)) \<le> 127"
  proof (cases "c = m")
    case True
    then show ?thesis using r(3) p(1) d(1) by (simp add: wt)
  next
    case False
    then show ?thesis using obj [OF d(2)] d(8,9) by (simp add: wt)
  qed
  moreover have "names_ok (memory ?s)" using d(10) r(1) by (auto simp: names_ok_def)
  ultimately show ?thesis
    using inv unfolding sys_inv_def pc_store_ok_def master_ok_def by (simp add: wt own)
qed

lemma memory_frame:
  assumes "names_ok (memory s)" and "owns s c p" and "d \<noteq> c"
  shows "tracer_reads d (s\<lparr>memory := (memory s)\<lparr>objects := (objects (memory s))(shm_obj p := r)\<rparr>\<rparr>) = tracer_reads d s"
proof (cases "names (memory s) (name_of d)")
  case (Some i)
  have "i \<noteq> shm_obj p"
    using Some assms unfolding names_ok_def owns_def by (metis name_of_inj)
  then show ?thesis by (simp add: tracer_reads_def Some)
qed (simp add: tracer_reads_def)

lemma memory_own:
  "owns s c p \<Longrightarrow>
   tracer_reads c (s\<lparr>memory := (memory s)\<lparr>objects := (objects (memory s))(shm_obj p := r)\<rparr>\<rparr>) = Some (cstr r)"
  by (simp add: tracer_reads_def owns_def)

section \<open>Every step keeps the invariant\<close>

text \<open>What the step of a process does, by its place.\<close>

lemma exec_Step:
  assumes "exec (Step c) s = Some s'"
  obtains p pc p' m' where "procs s c = Some p" and "shm_step c (at s c) (p, memory s) = Some (pc, p', m')"
    and "s' = s\<lparr>procs := (procs s)(c \<mapsto> p'), at := (at s)(c := pc), memory := m',
                calls := (calls s)(c := (if pc = Out then calls s c + 1 else calls s c))\<rparr>"
  using assms by (auto simp: exec_def split: option.splits)

lemma counter_pos:
  "flag r \<le> 127 \<Longrightarrow> (schar (r ! SHM_FORK_FLAG_OFFSET) > 0) = (flag r \<noteq> 0)"
  using flag_pos [of r] by simp

lemma inv_step_owner:
  assumes inv: "sys_inv m pm s" and p: "procs s c = Some p" "owns s c p" and pc: "owner_pc (at s c)"
    and fl: "flag (objects (memory s) (shm_obj p)) \<le> 127"
    and zero: "c \<noteq> m \<Longrightarrow> flag (objects (memory s) (shm_obj p)) = 0"
    and e: "exec (Step c) s = Some s'"
  shows "sys_inv m pm s'" and "d \<noteq> c \<Longrightarrow> tracer_reads d s' = tracer_reads d s"
    and "procs s' c = Some p" and "waiting m s' = waiting m s"
    and "at s c = In_check st \<Longrightarrow>
           at s' c = (if flag (objects (memory s) (shm_obj p)) = 0 then In_write st else In_check st)"
    and "at s c = In_write (Some fs) \<Longrightarrow> at s' c = Out \<and> tracer_reads c s' = Some (frame_line (last fs))"
proof -
  let ?r = "objects (memory s) (shm_obj p)"
  note dd = sys_invD [OF inv]
  have len: "length ?r = SHM_SIZE" using dd(10) p(2) by (auto simp: names_ok_def owns_def)
  have mp: "c = m \<Longrightarrow> p = pm" using p(1) dd(1) by auto
  have pcs: "pc_stack_ok (at s c)" using inv by (simp add: sys_inv_def)
  obtain pc' p' m' where st: "shm_step c (at s c) (p, memory s) = Some (pc', p', m')"
    and s': "s' = s\<lparr>procs := (procs s)(c \<mapsto> p'), at := (at s)(c := pc'), memory := m',
                calls := (calls s)(c := (if pc' = Out then calls s c + 1 else calls s c))\<rparr>"
    using exec_Step [OF e] p(1) by (metis option.inject)
  have wait: "waiting m (s\<lparr>at := (at s)(c := x)\<rparr>) = waiting m s" if "owner_pc x" for x
    using that pc p by (auto simp: waiting_def owner_pc_def owns_def split: if_splits)
  consider (reading) st where "at s c = In_check st" | (writing) st where "at s c = In_write st"
    using pc st by (auto simp: owner_pc_def shm_step_def)
  then have "sys_inv m pm s' \<and> (d \<noteq> c \<longrightarrow> tracer_reads d s' = tracer_reads d s) \<and> procs s' c = Some p \<and>
      waiting m s' = waiting m s \<and>
      (\<forall>st. at s c = In_check st \<longrightarrow> at s' c = (if flag ?r = 0 then In_write st else In_check st)) \<and>
      (\<forall>fs. at s c = In_write (Some fs) \<longrightarrow> at s' c = Out \<and> tracer_reads c s' = Some (frame_line (last fs)))"
  proof cases
    case reading
    define x where "x = (if flag ?r = 0 then In_write st else In_check st)"
    have "shm_step c (at s c) (p, memory s) = Some (x, p, memory s)"
      using p(2) by (simp add: reading shm_step_def counter_pos [OF fl] x_def owns_def)
    then have e: "pc' = x" "p' = p" "m' = memory s" using st by simp_all
    have s'': "s' = s\<lparr>at := (at s)(c := x), calls := calls s'\<rparr>"
      using p(1) by (simp add: s' e fun_upd_idem)
    have ox: "owner_pc x" by (simp add: x_def owner_pc_def)
    have "sys_inv m pm (s\<lparr>at := (at s)(c := x), calls := calls s'\<rparr>)"
    proof (rule inv_goto [OF inv p(1)])
      show "waiting m (s\<lparr>at := (at s)(c := x)\<rparr>) \<subseteq> waiting m s" by (simp add: wait [OF ox])
      show "c \<noteq> m \<Longrightarrow> member_ok pm (s\<lparr>at := (at s)(c := x)\<rparr>) c p"
        using p(2) ox zero by (simp add: member_ok_def owns_def)
      show "pc_store_ok m (s\<lparr>at := (at s)(c := x)\<rparr>) c" by (simp add: pc_store_ok_def x_def)
      show "master_ok m (s\<lparr>at := (at s)(m := x)\<rparr>)" if "c = m"
      proof -
        have "flag ?r = 0 \<Longrightarrow> waiting m s = {}" using dd(7,8) mp [OF that] by simp
        then show ?thesis using ox wait [OF ox] that by (auto simp: master_ok_def x_def)
      qed
      show "pc_stack_ok x" using pcs by (simp add: reading x_def pc_stack_ok_def)
    qed
    moreover have "tracer_reads d s' = tracer_reads d s" by (subst s'') (simp add: tracer_reads_def)
    moreover have "waiting m s' = waiting m s" using wait [OF ox] by (subst s'') (simp add: waiting_def)
    moreover have "procs s' c = Some p" "at s' c = x" using s' e by simp_all
    ultimately show ?thesis using s'' reading by (simp add: x_def)
  next
    case writing
    have "stack_ok st" using pcs by (simp add: writing pc_stack_ok_def)
    then obtain fs where fs: "st = Some fs" "fs \<noteq> []" "line_ok (last fs)" by (auto simp: stack_ok_def)
    obtain r where r: "write_callstack st ?r = Some r" "length r = SHM_SIZE" "cstr r = frame_line (last fs)"
        "flag r = flag ?r"
      using write_publishes [OF len fs(2,3)] fs(1) by blast
    define s1 where "s1 = s\<lparr>memory := (memory s)\<lparr>objects := (objects (memory s))(shm_obj p := r)\<rparr>\<rparr>"
    have e: "pc' = Out" "p' = p" "m' = memory s1" using st r(1) by (auto simp: writing shm_step_def s1_def)
    have s'': "s' = s1\<lparr>at := (at s1)(c := Out), calls := calls s'\<rparr>"
      using p(1) by (simp add: s' e s1_def fun_upd_idem)
    have i1: "sys_inv m pm s1"
      unfolding s1_def by (rule inv_memory [OF inv p]) (use r zero dd(8,9) mp in auto)
    have own1: "owns s1 c p" using p(2) by (simp add: owns_def s1_def)
    have o: "owner_pc Out" by (simp add: owner_pc_def)
    have w1: "waiting m (s1\<lparr>at := (at s1)(c := Out)\<rparr>) = waiting m s" "waiting m s1 = waiting m s"
      using wait [OF o] by (simp_all add: waiting_def s1_def)
    have "sys_inv m pm (s1\<lparr>at := (at s1)(c := Out), calls := calls s'\<rparr>)"
    proof (rule inv_goto [OF i1])
      show "procs s1 c = Some p" using p(1) by (simp add: s1_def)
      show "waiting m (s1\<lparr>at := (at s1)(c := Out)\<rparr>) \<subseteq> waiting m s1" by (simp add: w1)
      show "c \<noteq> m \<Longrightarrow> member_ok pm (s1\<lparr>at := (at s1)(c := Out)\<rparr>) c p"
        using own1 zero r(4) by (simp add: member_ok_def owns_def owner_pc_def s1_def)
    qed (simp_all add: pc_store_ok_def master_ok_def owner_pc_def pc_stack_ok_def)
    moreover have "tracer_reads d s' = tracer_reads d s" if "d \<noteq> c"
      using memory_frame [OF dd(10) p(2) that, of r] by (subst s'') (simp add: tracer_reads_def s1_def)
    moreover have "tracer_reads c s' = Some (frame_line (last fs))"
      using memory_own [OF p(2), of r] r(3) by (subst s'') (simp add: tracer_reads_def s1_def)
    moreover have "waiting m s' = waiting m s" using w1(1) by (subst s'') (simp add: waiting_def)
    moreover have "procs s' c = Some p" "at s' c = Out" using s' e by simp_all
    ultimately show ?thesis using writing fs(1) s'' by simp
  qed
  then show "sys_inv m pm s'" "d \<noteq> c \<Longrightarrow> tracer_reads d s' = tracer_reads d s"
    "procs s' c = Some p" "waiting m s' = waiting m s"
    "at s c = In_check st \<Longrightarrow>
       at s' c = (if flag (objects (memory s) (shm_obj p)) = 0 then In_write st else In_check st)"
    "at s c = In_write (Some fs) \<Longrightarrow> at s' c = Out \<and> tracer_reads c s' = Some (frame_line (last fs))"
    by blast+
qed

text \<open>A worker that still has the memory of the master.\<close>

lemma inv_step_worker:
  assumes inv: "sys_inv m pm s" and p: "procs s c = Some pm" "c \<noteq> m" and nm: "names (memory s) (name_of c) = None"
    and wp: "worker_pc (at s c)" and e: "exec (Step c) s = Some s'"
  shows "sys_inv m pm s' \<and> (\<forall>d. d \<noteq> c \<longrightarrow> d \<noteq> m \<longrightarrow> tracer_reads d s' = tracer_reads d s) \<and>
    (\<exists>st. (at s c = In_check st \<and> at s' c = In_load st \<and> procs s' c = Some pm) \<or>
         (at s c = In_load st \<and> (\<exists>b. at s' c = In_store st b) \<and> procs s' c = Some pm) \<or>
         (\<exists>b. at s c = In_store st b \<and> at s' c = In_reopen st \<and> procs s' c = Some pm) \<or>
         (at s c = In_reopen st \<and> at s' c = In_check st \<and> (\<exists>q. procs s' c = Some q \<and> shm_pid q = c)))"
proof -
  let ?r = "objects (memory s) (shm_obj pm)"
  note d = sys_invD [OF inv]
  have pcs: "pc_stack_ok (at s c)" using inv by (simp add: sys_inv_def)
  obtain pc' p' m' where st: "shm_step c (at s c) (pm, memory s) = Some (pc', p', m')"
    and s': "s' = s\<lparr>procs := (procs s)(c \<mapsto> p'), at := (at s)(c := pc'), memory := m',
                calls := (calls s)(c := (if pc' = Out then calls s c + 1 else calls s c))\<rparr>"
    using exec_Step [OF e] p(1) by (metis option.inject)
  have go: "sys_inv m pm s'" if "p' = pm" "m' = memory s" "worker_pc pc'" "\<forall>st. pc' \<noteq> In_reopen st"
      "\<forall>st. at s c \<noteq> In_reopen st" "pc_stack_ok pc'" "\<forall>st b. pc' = In_store st b \<longrightarrow> uchar b = flag ?r"
  proof -
    have wt: "waiting m (s\<lparr>at := (at s)(c := pc')\<rparr>) = waiting m s"
      using that(4,5) by (auto simp: waiting_def)
    have "s' = s\<lparr>at := (at s)(c := pc'), calls := calls s'\<rparr>"
      using p(1) by (simp add: s' that(1,2) fun_upd_idem)
    moreover have "sys_inv m pm (s\<lparr>at := (at s)(c := pc'), calls := calls s'\<rparr>)"
    proof (rule inv_goto [OF inv p(1)])
      show "member_ok pm (s\<lparr>at := (at s)(c := pc')\<rparr>) c pm" using nm that(3) by (simp add: member_ok_def)
      show "pc_store_ok m (s\<lparr>at := (at s)(c := pc')\<rparr>) c" using that(7) d(8,9) unfolding pc_store_ok_def wt by auto
    qed (use wt p(2) that(6) in auto)
    ultimately show ?thesis by simp
  qed
  have same: "tracer_reads x s' = tracer_reads x s" if "m' = memory s" for x
    using that by (simp add: s' tracer_reads_def)
  show ?thesis
  proof (cases "at s c")
    case Out
    then show ?thesis using st by (simp add: shm_step_def)
  next
    case (In_write st')
    then show ?thesis using wp by (simp add: worker_pc_def)
  next
    case (In_check st')
    have "c \<in> waiting m s" using p d(3) In_check by (simp add: waiting_def)
    then have "flag ?r \<noteq> 0" using d(7,8) by (metis card_gt_0_iff empty_iff le_zero_eq not_gr_zero)
    then have e: "pc' = In_load st'" "p' = pm" "m' = memory s"
      using st counter_pos [OF d(9)] d(3) p(2) by (auto simp: In_check shm_step_def)
    have "sys_inv m pm s'" by (rule go) (use e pcs In_check in \<open>simp_all add: worker_pc_def pc_stack_ok_def\<close>)
    then show ?thesis using same e In_check by (auto simp: s')
  next
    case (In_load st')
    have e: "pc' = In_store st' (?r ! SHM_FORK_FLAG_OFFSET)" "p' = pm" "m' = memory s"
      using st by (auto simp: In_load shm_step_def)
    have "sys_inv m pm s'"
      by (rule go) (use e pcs In_load in \<open>simp_all add: worker_pc_def pc_stack_ok_def flag_def\<close>)
    then show ?thesis using same e In_load by (auto simp: s')
  next
    case (In_store st' b)
    define r where "r = ?r[SHM_FORK_FLAG_OFFSET := char_of ((uchar b + 255) mod 256)]"
    define s1 where "s1 = s\<lparr>at := (at s)(c := In_reopen st'), calls := calls s'\<rparr>"
    have e: "pc' = In_reopen st'" "p' = pm"
      "m' = (memory s)\<lparr>objects := (objects (memory s))(shm_obj pm := r)\<rparr>"
      using st by (auto simp: In_store shm_step_def r_def)
    have cw: "c \<in> waiting m s" using p d(3) In_store by (simp add: waiting_def)
    have wt: "waiting m (s\<lparr>at := (at s)(c := In_reopen st')\<rparr>) = waiting m s - {c}" "waiting m s1 = waiting m s - {c}"
      by (auto simp: waiting_def s1_def)
    have b: "card (waiting m s) \<le> uchar b" "uchar b \<le> 127"
      using inv In_store by (auto simp: sys_inv_def pc_store_ok_def)
    have pos: "0 < card (waiting m s)" using cw d(7) by (auto simp: card_gt_0_iff)
    have fr: "flag r = uchar b - 1"
      using flag_set [OF d(5)] pred_byte [of "uchar b"] b pos by (simp add: r_def)
    have i1: "sys_inv m pm s1"
      unfolding s1_def
    proof (rule inv_goto [OF inv p(1)])
      show "member_ok pm (s\<lparr>at := (at s)(c := In_reopen st')\<rparr>) c pm"
        using nm by (simp add: member_ok_def worker_pc_def)
    qed (use wt p(2) pcs In_store in \<open>auto simp: pc_store_ok_def pc_stack_ok_def\<close>)
    have own: "owns s1 m pm" using d(2) by (simp add: owns_def s1_def)
    have s'': "s' = s1\<lparr>memory := (memory s1)\<lparr>objects := (objects (memory s1))(shm_obj pm := r)\<rparr>\<rparr>"
      using p(1) by (simp add: s' e s1_def fun_upd_idem)
    have "sys_inv m pm s'"
      unfolding s''
    proof (rule inv_memory [OF i1 _ own])
      show "procs s1 m = Some pm" using d(1) by (simp add: s1_def)
      show "length r = SHM_SIZE" using d(5) by (simp add: r_def)
      show "card (waiting m s1) \<le> flag r \<and> flag r \<le> 127"
        using fr b cw d(7) diff_le_mono [OF b(1), of 1] by (simp add: wt)
    qed simp
    moreover have "tracer_reads x s' = tracer_reads x s" if "x \<noteq> m" for x
      using memory_frame [OF sys_invD(10) [OF i1] own that, of r] unfolding s'' [symmetric]
      by (simp add: tracer_reads_def s1_def)
    ultimately show ?thesis using e In_store by (auto simp: s')
  next
    case (In_reopen st')
    let ?i = "next_object (memory s)"
    define q where "q = \<lparr>shm_pid = c, shm_obj = ?i, shm_name = name_of c\<rparr>"
    have e: "pc' = In_check st'" "p' = q" "m' = (memory s)\<lparr>names := (names (memory s))(name_of c \<mapsto> ?i),
        objects := (objects (memory s))(?i := zero_region), next_object := ?i + 1\<rparr>"
      using st nm by (auto simp: In_reopen shm_step_def open_object_def q_def)
    have wt: "waiting m s' = waiting m s"
      using p In_reopen by (auto simp: waiting_def s' e q_def)
    have names: "names (memory s') n = (if n = name_of c then Some ?i else names (memory s) n)" for n
      by (simp add: s' e)
    have obj: "objects (memory s') j = objects (memory s) j" if "j < ?i" for j
      using that by (simp add: s' e)
    have old: "j < ?i" if "names (memory s) n = Some j" for n j using d(10) that by (auto simp: names_ok_def)
    have own: "owns s' x y \<and> objects (memory s') (shm_obj y) = objects (memory s) (shm_obj y)"
      if "owns s x y" "x \<noteq> c" for x y
      using that old obj by (auto simp: owns_def names)
    have ownc: "owns s' c q" "objects (memory s') (shm_obj q) = zero_region"
      by (simp_all add: owns_def names q_def s' e)
    have nok: "names_ok (memory s')"
      unfolding names_ok_def
    proof (intro conjI allI impI)
      fix n j assume n: "names (memory s') n = Some j"
      then have "j = ?i \<or> j < ?i \<and> length (objects (memory s) j) = SHM_SIZE"
        using d(10) by (auto simp: names names_ok_def split: if_splits)
      then show "j < next_object (memory s')" "length (objects (memory s') j) = SHM_SIZE"
        by (auto simp: s' e)
    next
      fix n n' j assume "names (memory s') n = Some j" "names (memory s') n' = Some j"
      then show "n = n'" using d(10) old unfolding names_ok_def names by (metis nat_neq_iff option.inject)
    qed
    have mem: "member_ok pm s' x y" if x: "procs s' x = Some y" "x \<noteq> m" for x y
    proof (cases "x = c")
      case True
      then have "y = q" using x(1) by (simp add: s' e)
      then show ?thesis using ownc True by (simp add: member_ok_def owner_pc_def s' e)
    next
      case False
      then have "member_ok pm s x y" using x sys_inv_member [OF inv] by (simp add: s')
      moreover have "at s' x = at s x" "names (memory s') (name_of x) = names (memory s) (name_of x)"
        using False by (simp_all add: names) (simp add: s')
      ultimately show ?thesis using own [OF _ False] by (auto simp: member_ok_def)
    qed
    have "sys_inv m pm s'"
      unfolding sys_inv_def wt
    proof (intro conjI allI impI)
      show "procs s' m = Some pm" using d(1) p(2) by (simp add: s')
      show "owns s' m pm" using own [OF d(2)] p(2) by simp
      show "card (waiting m s) \<le> flag (objects (memory s') (shm_obj pm))"
        "flag (objects (memory s') (shm_obj pm)) \<le> 127"
        using own [OF d(2)] p(2) d(8,9) by simp_all
      show "names (memory s') (name_of x) = None" if "procs s' x = None" for x
        using that inv by (auto simp: s' names sys_inv_def e split: if_splits)
      show "pc_store_ok m s' x" for x
        using inv by (auto simp: sys_inv_def pc_store_ok_def wt) (auto simp: s' e pc_store_ok_def split: if_splits)
      show "master_ok m s'" using inv p(2) by (simp add: sys_inv_def master_ok_def wt) (simp add: s')
      show "pc_stack_ok (at s' x)" for x
        using inv pcs In_reopen by (auto simp: sys_inv_def s' e pc_stack_ok_def)
    qed (use nok mem d(7) in auto)
    moreover have "tracer_reads x s' = tracer_reads x s" if "x \<noteq> c" for x
      using that old obj by (cases "names (memory s) (name_of x)") (auto simp: tracer_reads_def names)
    ultimately show ?thesis using e In_reopen by (auto simp: s' q_def)
  qed
qed

text \<open>A step of any process.\<close>

lemma inv_step:
  assumes inv: "sys_inv m pm s" and e: "exec (Step c) s = Some s'"
  shows "sys_inv m pm s'" and "d \<noteq> c \<Longrightarrow> d \<noteq> m \<Longrightarrow> tracer_reads d s' = tracer_reads d s"
proof -
  obtain p where p: "procs s c = Some p" using exec_Step [OF e] by metis
  note d = sys_invD [OF inv]
  have "sys_inv m pm s' \<and> (d \<noteq> c \<longrightarrow> d \<noteq> m \<longrightarrow> tracer_reads d s' = tracer_reads d s)"
  proof (cases "c = m")
    case True
    have "owner_pc (at s m)" using inv by (simp add: sys_inv_def master_ok_def)
    then show ?thesis
      using inv_step_owner(1,2) [OF inv d(1,2) _ d(9) _ e [unfolded True]] True by simp
  next
    case False
    from sys_inv_member [OF inv p False] show ?thesis
      unfolding member_ok_def
    proof (elim disjE conjE)
      assume a: "p = pm" "names (memory s) (name_of c) = None" "worker_pc (at s c)"
      then show ?thesis using inv_step_worker [OF inv _ False _ _ e] p by simp
    next
      assume a: "owns s c p" "flag (objects (memory s) (shm_obj p)) = 0" "owner_pc (at s c)"
      then show ?thesis using inv_step_owner(1,2) [OF inv p a(1,3) _ _ e] by simp
    qed
  qed
  then show "sys_inv m pm s'" "d \<noteq> c \<Longrightarrow> d \<noteq> m \<Longrightarrow> tracer_reads d s' = tracer_reads d s" by auto
qed

lemma inv_enter:
  assumes inv: "sys_inv m pm s" and ok: "stack_ok st" and e: "exec (Enter c st) s = Some s'"
  shows "sys_inv m pm s'" and "tracer_reads d s' = tracer_reads d s"
proof -
  obtain p where p: "procs s c = Some p" "at s c = Out" and s': "s' = s\<lparr>at := (at s)(c := In_check st)\<rparr>"
    using e by (auto simp: exec_def split: if_splits)
  have wt: "waiting m (s\<lparr>at := (at s)(c := In_check st)\<rparr>) = waiting m s"
    using p(2) by (auto simp: waiting_def)
  have "sys_inv m pm (s\<lparr>at := (at s)(c := In_check st), calls := calls s\<rparr>)"
  proof (rule inv_goto [OF inv p(1)])
    show "member_ok pm (s\<lparr>at := (at s)(c := In_check st)\<rparr>) c p" if "c \<noteq> m"
      using sys_inv_member [OF inv p(1) that] by (auto simp: member_ok_def worker_pc_def owner_pc_def owns_def)
  qed (use wt ok in \<open>auto simp: pc_store_ok_def master_ok_def owner_pc_def pc_stack_ok_def\<close>)
  then show "sys_inv m pm s'" by (simp add: s')
  show "tracer_reads d s' = tracer_reads d s" by (simp add: s' tracer_reads_def)
qed

lemma inv_calls: "sys_inv m pm (s\<lparr>calls := k\<rparr>) = sys_inv m pm s"
  unfolding sys_inv_def member_ok_def owns_def pc_store_ok_def master_ok_def waiting_def by simp

lemma inv_return:
  assumes inv: "sys_inv m pm s" and ok: "ok_event m s (Return c)" and e: "exec (Return c) s = Some s'"
  shows "sys_inv m pm s'" and "d \<noteq> c \<Longrightarrow> tracer_reads d s' = tracer_reads d s"
proof -
  obtain p where p: "procs s c = Some p" "at s c = Out"
    and s': "s' = s\<lparr>memory := clear_shared p (memory s), calls := (calls s)(c := calls s c - 1)\<rparr>"
    using e by (auto simp: exec_def split: if_splits option.splits)
  note d = sys_invD [OF inv]
  have own: "owns s c p"
  proof (cases "c = m")
    case True
    then show ?thesis using d(1,2) p(1) by simp
  next
    case False
    then have "shm_pid p \<noteq> m" using ok p by (auto simp: ok_event_def waiting_def)
    then show ?thesis using sys_inv_member [OF inv p(1) False] d(3) by (auto simp: member_ok_def)
  qed
  have "sys_inv m pm (s\<lparr>memory := clear_shared p (memory s)\<rparr>)"
    unfolding clear_shared_def
    by (rule inv_memory [OF inv p(1) own]) (use ok in \<open>auto simp: ok_event_def\<close>)
  then show "sys_inv m pm s'" using inv_calls [where s = "s\<lparr>memory := clear_shared p (memory s)\<rparr>"] by (simp add: s')
  show "tracer_reads d s' = tracer_reads d s" if "d \<noteq> c"
    using memory_frame [OF d(10) own that] by (simp add: s' clear_shared_def tracer_reads_def)
qed

lemma inv_fork:
  assumes inv: "sys_inv m pm s" and ok: "ok_event m s (Fork c d)" and e: "exec (Fork c d) s = Some s'"
  shows "sys_inv m pm s'" and "x \<noteq> m \<Longrightarrow> tracer_reads x s' = tracer_reads x s"
proof -
  note dd = sys_invD [OF inv]
  let ?r = "objects (memory s) (shm_obj pm)"
  define r where "r = ?r[SHM_FORK_FLAG_OFFSET := char_of ((uchar (?r ! SHM_FORK_FLAG_OFFSET) + 1) mod 256)]"
  have cm: "c = m" and lt: "flag ?r < 127" and nst: "\<forall>x st b. at s x \<noteq> In_store st b"
    using ok dd(1) by (auto simp: ok_event_def counter_def)
  have out: "at s m = Out" "procs s d = None"
    and s': "s' = s\<lparr>procs := (procs s)(d \<mapsto> pm), at := (at s)(d := Out), calls := (calls s)(d := calls s m),
        memory := (memory s)\<lparr>objects := (objects (memory s))(shm_obj pm := r)\<rparr>\<rparr>"
    using e dd(1) by (auto simp: exec_def cm tracer_mark_def r_def split: if_splits)
  have dm: "d \<noteq> m" using out(2) dd(1) by auto
  have r: "length r = SHM_SIZE" "flag r = flag ?r + 1"
    using dd(5) lt flag_set [OF dd(5), of "flag ?r + 1"] by (simp_all add: r_def flag_def)
  have wt: "waiting m s' = insert d (waiting m s)" "d \<notin> waiting m s"
    using dm dd(3) out(2) by (auto simp: waiting_def s')
  have nm: "names (memory s') = names (memory s)" "next_object (memory s') = next_object (memory s)"
    by (simp_all add: s')
  have other: "objects (memory s') (shm_obj q) = objects (memory s) (shm_obj q)" if "owns s y q" "y \<noteq> m" for y q
    using owner_objects [OF dd(10) that(1) dd(2) that(2)] by (simp add: s')
  have "names_ok (memory s')" using dd(10) r(1) by (auto simp: names_ok_def s')
  moreover have "member_ok pm s' y q" if y: "procs s' y = Some q" "y \<noteq> m" for y q
  proof (cases "y = d")
    case True
    then show ?thesis using y out(2) inv by (auto simp: member_ok_def s' sys_inv_def worker_pc_def)
  next
    case False
    then have "member_ok pm s y q" using y sys_inv_member [OF inv] by (simp add: s')
    then show ?thesis using other [OF _ y(2)] False by (auto simp: member_ok_def owns_def nm) (simp_all add: s')
  qed
  moreover have "pc_store_ok m s' y" for y using nst by (simp add: pc_store_ok_def s')
  moreover have "master_ok m s'" using out(1) dm by (simp add: master_ok_def s' owner_pc_def)
  moreover have "pc_stack_ok (at s' y)" for y using inv by (simp add: s' sys_inv_def pc_stack_ok_def)
  moreover have "card (waiting m s') \<le> flag (objects (memory s') (shm_obj pm))"
    using dd(7,8) wt r(2) by (simp add: s')
  moreover have "flag (objects (memory s') (shm_obj pm)) \<le> 127" using r(2) lt by (simp add: s')
  moreover have "owns s' m pm" using dd(2) by (simp add: owns_def nm)
  moreover have "procs s' m = Some pm" using dd(1) dm by (simp add: s')
  moreover have "names (memory s') (name_of y) = None" if "procs s' y = None" for y
    using that inv by (auto simp: nm s' sys_inv_def split: if_splits)
  moreover have "finite (waiting m s')" using dd(7) by (simp add: wt)
  ultimately show "sys_inv m pm s'" unfolding sys_inv_def by blast
  show "tracer_reads x s' = tracer_reads x s" if "x \<noteq> m"
    using memory_frame [OF dd(10,2) that, of r] by (simp add: tracer_reads_def s')
qed

lemma inv_exec:
  assumes "sys_inv m pm s" and "ok_event m s e" and "exec e s = Some s'"
  shows "sys_inv m pm s'"
proof (cases e)
  case (Enter c st)
  then show ?thesis using assms inv_enter(1) by (simp add: ok_event_def)
next
  case (Step c)
  then show ?thesis using assms inv_step(1) by blast
next
  case (Return c)
  then show ?thesis using assms inv_return(1) by blast
next
  case (Fork c d)
  then show ?thesis using assms inv_fork(1) by blast
qed

lemma inv_sched: "sched m s es s' \<Longrightarrow> sys_inv m pm s \<Longrightarrow> sys_inv m pm s'"
  by (induction es arbitrary: s) (auto split: option.splits dest: inv_exec)

lemma inv_start: "\<exists>pm. sys_inv m pm (first_sys m)"
proof -
  let ?pm = "\<lparr>shm_pid = m, shm_obj = 0, shm_name = name_of m\<rparr>"
  have w: "waiting m (first_sys m) = {}"
    by (auto simp: waiting_def first_sys_def shm_minit_def open_object_def split: if_splits)
  have "sys_inv m ?pm (first_sys m)"
    unfolding sys_inv_def w pc_store_ok_def master_ok_def
    by (simp add: first_sys_def shm_minit_def open_object_def owns_def names_ok_def owner_pc_def pc_stack_ok_def)
  then show ?thesis by blast
qed

section \<open>Progress of a worker\<close>

definition pc_stack :: "pc \<Rightarrow> fstack option" where
  "pc_stack pc =
     (case pc of Out \<Rightarrow> None | In_check st \<Rightarrow> Some st | In_write st \<Rightarrow> Some st | In_load st \<Rightarrow> Some st
      | In_store st b \<Rightarrow> Some st | In_reopen st \<Rightarrow> Some st)"

text \<open>The steps a worker still has to make.\<close>

definition todo :: "int \<Rightarrow> sys \<Rightarrow> nat" where
  "todo c s =
     (case at s c of Out \<Rightarrow> 0 | In_write st \<Rightarrow> 1 | In_load st \<Rightarrow> 5 | In_store st b \<Rightarrow> 4 | In_reopen st \<Rightarrow> 3
      | In_check st \<Rightarrow> (if map_option shm_pid (procs s c) = Some c then 2 else 6))"

lemma todo_le: "todo c s \<le> 6"
  by (simp add: todo_def split: pc.split)

lemma worker_step:
  assumes inv: "sys_inv m pm s" and c: "procs s c = Some p" "c \<noteq> m" "pc_stack (at s c) = Some (Some fs)"
    and e: "exec (Step c) s = Some s'"
  shows "at s' c = Out \<and> tracer_reads c s' = Some (frame_line (last fs)) \<and> todo c s = 1 \<or>
     pc_stack (at s' c) = Some (Some fs) \<and> procs s' c \<noteq> None \<and> todo c s' + 1 = todo c s"
  using sys_inv_member [OF inv c(1,2)]
  unfolding member_ok_def
proof (elim disjE conjE)
  assume "p = pm" "names (memory s) (name_of c) = None" "worker_pc (at s c)"
  then show ?thesis
    using inv_step_worker [OF inv _ c(2) _ _ e] c sys_invD(3) [OF inv] by (auto simp: pc_stack_def todo_def)
next
  assume a: "owns s c p" "flag (objects (memory s) (shm_obj p)) = 0" "owner_pc (at s c)"
  have fl: "flag (objects (memory s) (shm_obj p)) \<le> 127" using a(2) by simp
  note o = inv_step_owner [OF inv c(1) a(1,3) fl a(2) e]
  from a(3) c(3) consider "at s c = In_check (Some fs)" | "at s c = In_write (Some fs)"
    by (auto simp: owner_pc_def pc_stack_def)
  then show ?thesis
  proof cases
    case 1
    then show ?thesis using o(3) o(5) [OF 1] a c(1) by (simp add: pc_stack_def todo_def owns_def)
  next
    case 2
    then show ?thesis using o(6) [OF 2] by (simp add: todo_def)
  qed
qed

lemma worker_step_runs:
  assumes inv: "sys_inv m pm s" and c: "procs s c = Some p" "c \<noteq> m" "pc_stack (at s c) = Some (Some fs)"
  shows "exec (Step c) s \<noteq> None"
proof -
  have "pc_stack_ok (at s c)" using inv by (simp add: sys_inv_def)
  then have "stack_ok (Some fs)" using c(3) by (auto simp: pc_stack_ok_def pc_stack_def split: pc.splits)
  moreover have "length (objects (memory s) (shm_obj p)) = SHM_SIZE"
    using sys_inv_member [OF inv c(1,2)] sys_invD(5,10) [OF inv] by (auto simp: member_ok_def owns_def names_ok_def)
  ultimately obtain r where "write_callstack (Some fs) (objects (memory s) (shm_obj p)) = Some r"
    using write_publishes unfolding stack_ok_def by blast
  then show ?thesis
    using c by (auto simp: exec_def shm_step_def pc_stack_def Let_def split: pc.splits prod.splits)
qed

definition actor :: "event \<Rightarrow> int" where
  "actor e = (case e of Enter c st \<Rightarrow> c | Step c \<Rightarrow> c | Return c \<Rightarrow> c | Fork c d \<Rightarrow> c)"

lemma other_event:
  assumes "exec e s = Some s'" and "actor e \<noteq> c" and "procs s c \<noteq> None"
  shows "procs s' c = procs s c" and "at s' c = at s c"
  using assms by (auto simp: exec_def actor_def split: event.splits option.splits if_splits)

lemma busy_event:
  assumes "exec e s = Some s'" and "actor e = c" and "at s c \<noteq> Out"
  shows "e = Step c"
  using assms by (auto simp: exec_def actor_def split: event.splits option.splits if_splits)

lemma worker_publishes:
  assumes "sched m s es s'" and "sys_inv m pm s" and "c \<noteq> m" and "procs s c \<noteq> None"
    and "pc_stack (at s c) = Some (Some fs)" and "todo c s \<le> count_list es (Step c)"
  shows "\<exists>es1 es2 s1. es = es1 @ Step c # es2 \<and> sched m s (es1 @ [Step c]) s1 \<and>
     count_list es1 (Step c) < todo c s \<and> at s1 c = Out \<and> tracer_reads c s1 = Some (frame_line (last fs))"
  using assms
proof (induction es arbitrary: s)
  case Nil
  then have "todo c s = 0" by simp
  then show ?case using Nil(5) by (auto simp: todo_def pc_stack_def split: pc.splits if_splits)
next
  case (Cons e es)
  obtain s1 where ok: "ok_event m s e" and s1: "exec e s = Some s1" and rest: "sched m s1 es s'"
    using Cons.prems(1) by (auto split: option.splits)
  have i1: "sys_inv m pm s1" using inv_exec [OF Cons.prems(2) ok s1] .
  obtain p where p: "procs s c = Some p" using Cons.prems(4) by blast
  have out: "at s c \<noteq> Out" using Cons.prems(5) by (auto simp: pc_stack_def)
  show ?case
  proof (cases "e = Step c")
    case True
    consider (fin) "at s1 c = Out" "tracer_reads c s1 = Some (frame_line (last fs))" "todo c s = 1"
      | (going) "pc_stack (at s1 c) = Some (Some fs)" "procs s1 c \<noteq> None" "todo c s1 + 1 = todo c s"
      using worker_step [OF Cons.prems(2) p Cons.prems(3,5)] s1 True by blast
    then show ?thesis
    proof cases
      case fin
      then show ?thesis
        using True ok s1 by (intro exI [of _ "[]"] exI [of _ es] exI [of _ s1]) simp
    next
      case going
      have "todo c s1 \<le> count_list es (Step c)" using going(3) Cons.prems(6) True by simp
      from Cons.IH [OF rest i1 Cons.prems(3) going(2,1) this]
      obtain es1 es2 s2 where "es = es1 @ Step c # es2" "sched m s1 (es1 @ [Step c]) s2"
          "count_list es1 (Step c) < todo c s1" "at s2 c = Out" "tracer_reads c s2 = Some (frame_line (last fs))"
        by blast
      then show ?thesis
        using True ok s1 going(3) by (intro exI [of _ "e # es1"] exI [of _ es2] exI [of _ s2]) simp
    qed
  next
    case False
    have "actor e \<noteq> c" using busy_event [OF s1 _ out] False by blast
    from other_event [OF s1 this Cons.prems(4)]
    have same: "procs s1 c = procs s c" "at s1 c = at s c" .
    then have "todo c s1 = todo c s" by (simp only: todo_def)
    moreover have "todo c s1 \<le> count_list es (Step c)" using calculation Cons.prems(6) False by simp
    ultimately obtain es1 es2 s2 where "es = es1 @ Step c # es2" "sched m s1 (es1 @ [Step c]) s2"
        "count_list es1 (Step c) < todo c s" "at s2 c = Out" "tracer_reads c s2 = Some (frame_line (last fs))"
      using Cons.IH [OF rest i1 Cons.prems(3)] same Cons.prems(4,5) by auto
    then show ?thesis
      using False ok s1 by (intro exI [of _ "e # es1"] exI [of _ es2] exI [of _ s2]) simp
  qed
qed

lemma event_frame:
  assumes "sys_inv m pm s" and "ok_event m s e" and "exec e s = Some s'" and "d \<noteq> actor e" and "d \<noteq> m"
  shows "tracer_reads d s' = tracer_reads d s"
proof (cases e)
  case (Enter c st)
  then show ?thesis using assms inv_enter(2) [OF assms(1)] by (simp add: ok_event_def)
next
  case (Step c)
  then show ?thesis using assms inv_step(2) [OF assms(1)] by (simp add: actor_def)
next
  case (Return c)
  then show ?thesis using assms inv_return(2) [OF assms(1)] by (simp add: actor_def)
next
  case (Fork c x)
  then show ?thesis using assms inv_fork(2) [OF assms(1)] by simp
qed

text \<open>The loop of \<open>publish\<close> is the loop of a process that is not disturbed.\<close>

lemma publish_is_run:
  assumes "publish_steps c (pc, p, m) = Some (p', m')"
  shows "\<forall>s. procs s c = Some p \<longrightarrow> at s c = pc \<longrightarrow> memory s = m \<longrightarrow>
     (\<exists>n s'. run (replicate n (Step c)) s = Some s' \<and> procs s' c = Some p' \<and> memory s' = m' \<and> at s' c = Out)"
proof -
  define P where "P = (\<lambda>c' (x :: pc \<times> proc \<times> shm) (y :: proc \<times> shm).
    \<forall>s. procs s c' = Some (fst (snd x)) \<longrightarrow> at s c' = fst x \<longrightarrow> memory s = snd (snd x) \<longrightarrow>
     (\<exists>n s'. run (replicate n (Step c')) s = Some s' \<and> procs s' c' = Some (fst y) \<and> memory s' = snd y \<and> at s' c' = Out))"
  have "P c (pc, p, m) (p', m')"
  proof (rule publish_steps.raw_induct [OF _ assms, where P = P])
    fix f c x y
    assume ih: "\<And>c x y. f c x = Some y \<Longrightarrow> P c x y"
    assume run: "(case shm_step c (fst x) (snd x) of None \<Rightarrow> None
       | Some (pc, s') \<Rightarrow> if pc = Out then Some s' else f c (pc, s')) = Some y"
    then obtain pc1 p1 m1 where st: "shm_step c (fst x) (snd x) = Some (pc1, p1, m1)"
      and k: "(if pc1 = Out then Some (p1, m1) else f c (pc1, p1, m1)) = Some y"
      by (auto split: option.splits)
    show "P c x y"
      unfolding P_def
    proof (intro allI impI)
      fix s :: sys assume a: "procs s c = Some (fst (snd x))" "at s c = fst x" "memory s = snd (snd x)"
      define s1 where "s1 = s\<lparr>procs := (procs s)(c \<mapsto> p1), at := (at s)(c := pc1), memory := m1,
                calls := (calls s)(c := (if pc1 = Out then calls s c + 1 else calls s c))\<rparr>"
      have e: "exec (Step c) s = Some s1" using a st by (simp add: exec_def s1_def)
      have s1: "procs s1 c = Some p1" "at s1 c = pc1" "memory s1 = m1" by (simp_all add: s1_def)
      show "\<exists>n s'. run (replicate n (Step c)) s = Some s' \<and> procs s' c = Some (fst y) \<and> memory s' = snd y \<and> at s' c = Out"
      proof (cases "pc1 = Out")
        case True
        then show ?thesis using k e s1 by (intro exI [of _ "Suc 0"] exI [of _ s1]) auto
      next
        case False
        then have "P c (pc1, p1, m1) y" using k ih by simp
        then obtain n s' where "run (replicate n (Step c)) s1 = Some s'" "procs s' c = Some (fst y)"
            "memory s' = snd y" "at s' c = Out"
          using s1 by (auto simp: P_def)
        then show ?thesis using e by (intro exI [of _ "Suc n"] exI [of _ s']) simp
      qed
    qed
  qed
  then show ?thesis by (simp add: P_def)
qed

section \<open>Lost counts\<close>

lemma zero_flag: "zero_region ! SHM_FORK_FLAG_OFFSET = char_of (0 :: nat)"
proof -
  have "uchar (char_of (0 :: nat)) = 0" by (simp add: uchar_def)
  then have "nul = char_of (0 :: nat)" using uchar_eq_0 [of "char_of (0 :: nat)"] by simp
  then show ?thesis by (simp add: zero_region_def shm_defs)
qed

lemma set_flag [simp]: "zero_region[SHM_FORK_FLAG_OFFSET := b] ! SHM_FORK_FLAG_OFFSET = b"
  by (simp add: zero_region_def shm_defs)

text \<open>The master is in its loop, its counter is one, and no other process will ever change it.\<close>

definition blocked :: "int \<Rightarrow> fstack \<Rightarrow> sys \<Rightarrow> bool" where
  "blocked m st s \<longleftrightarrow>
     at s m = In_check st \<and>
     (\<exists>p. procs s m = Some p \<and> shm_pid p = m \<and> shm_obj p = 0) \<and>
     flag (objects (memory s) 0) = 1 \<and> 0 < next_object (memory s) \<and>
     (\<forall>n. names (memory s) n = Some 0 \<longrightarrow> n = name_of m) \<and>
     (\<forall>x p. procs s x = Some p \<longrightarrow> x \<noteq> m \<longrightarrow> shm_obj p \<noteq> 0 \<or> (\<exists>st. at s x = In_reopen st))"

lemma blocked_object:
  "blocked m st s \<Longrightarrow> procs s x = Some p \<Longrightarrow> x \<noteq> m \<Longrightarrow> (\<And>t. at s x \<noteq> In_reopen t) \<Longrightarrow> shm_obj p \<noteq> 0"
  unfolding blocked_def by blast

lemma blocked_step:
  assumes b: "blocked m st s" and e: "exec (Step c) s = Some s'"
  shows "blocked m st s'"
proof -
  obtain p pc p' m' where p: "procs s c = Some p" and sh: "shm_step c (at s c) (p, memory s) = Some (pc, p', m')"
    and s': "s' = s\<lparr>procs := (procs s)(c \<mapsto> p'), at := (at s)(c := pc), memory := m',
                calls := (calls s)(c := (if pc = Out then calls s c + 1 else calls s c))\<rparr>"
    using exec_Step [OF e] by metis
  show ?thesis
  proof (cases "c = m")
    case True
    then have "shm_pid p = m" "shm_obj p = 0" "at s c = In_check st" using b p by (auto simp: blocked_def)
    moreover have "flag (objects (memory s) 0) = 1" using b by (simp add: blocked_def)
    ultimately have "pc = In_check st" "p' = p" "m' = memory s"
      using sh counter_pos [of "objects (memory s) 0"] True by (simp_all add: shm_step_def)
    then have "s' = s"
      using True p b by (simp add: s' blocked_def fun_upd_idem)
    then show ?thesis using b by simp
  next
    case False
    have n0: "0 < next_object (memory s)" using b by (simp add: blocked_def)
    have nm: "names (memory s) n = Some 0 \<Longrightarrow> n = name_of m" for n using b by (simp add: blocked_def)
    have "objects m' 0 = objects (memory s) 0 \<and> 0 < next_object m' \<and>
        (\<forall>n. names m' n = Some 0 \<longrightarrow> n = name_of m) \<and> (shm_obj p' \<noteq> 0 \<or> (\<exists>st. pc = In_reopen st))"
    proof (cases "\<exists>st. at s c = In_reopen st")
      case True
      then obtain t where "at s c = In_reopen t" by blast
      moreover have "names (memory s) (name_of c) \<noteq> Some 0" using nm [of "name_of c"] False by auto
      ultimately show ?thesis
        using sh n0 nm False by (auto simp: shm_step_def open_object_def split: option.splits if_splits)
    next
      case reopen: False
      then have "shm_obj p \<noteq> 0" using blocked_object [OF b p False] by blast
      then show ?thesis
        using sh n0 nm reopen by (auto simp: shm_step_def Let_def split: pc.splits option.splits if_splits)
    qed
    then show ?thesis using b False by (auto simp: blocked_def s')
  qed
qed

lemma blocked_exec:
  assumes b: "blocked m st s" and e: "exec e s = Some s'"
  shows "blocked m st s'"
proof (cases e)
  case (Enter c t)
  then have out: "at s c = Out" and s': "s' = s\<lparr>at := (at s)(c := In_check t)\<rparr>"
    using e by (auto simp: exec_def split: if_splits)
  have "c \<noteq> m" using out b by (auto simp: blocked_def)
  moreover have "shm_obj p \<noteq> 0 \<or> (\<exists>st. at s' x = In_reopen st)" if "procs s x = Some p" "x \<noteq> m" for x p
    using blocked_object [OF b that] out by (cases "x = c") (auto simp: s')
  ultimately show ?thesis using b unfolding blocked_def s' by simp
next
  case (Step c)
  then show ?thesis using blocked_step [OF b] e by simp
next
  case (Return c)
  then obtain p where p: "procs s c = Some p" "at s c = Out"
    and s': "s' = s\<lparr>memory := clear_shared p (memory s), calls := (calls s)(c := calls s c - 1)\<rparr>"
    using e by (auto simp: exec_def split: option.splits if_splits)
  have "c \<noteq> m" using p(2) b by (auto simp: blocked_def)
  then have "shm_obj p \<noteq> 0" using blocked_object [OF b p(1)] p(2) by simp
  then show ?thesis using b by (auto simp: blocked_def s' clear_shared_def)
next
  case (Fork c d)
  then obtain p where p: "procs s c = Some p" "at s c = Out" "procs s d = None"
    and s': "s' = s\<lparr>procs := (procs s)(d \<mapsto> p), at := (at s)(d := Out),
               calls := (calls s)(d := calls s c), memory := tracer_mark (shm_obj p) (memory s)\<rparr>"
    using e by (auto simp: exec_def split: option.splits if_splits)
  have "c \<noteq> m" using p(2) b by (auto simp: blocked_def)
  then have "shm_obj p \<noteq> 0" using blocked_object [OF b p(1)] p(2) by simp
  moreover have "d \<noteq> m" using p(3) b by (auto simp: blocked_def)
  ultimately show ?thesis using b by (auto simp: blocked_def s' tracer_mark_def)
qed

lemma blocked_run: "run es s = Some s' \<Longrightarrow> blocked m st s \<Longrightarrow> blocked m st s'"
  by (induction es arbitrary: s) (auto split: option.splits dest: blocked_exec)

definition overlap :: "int \<Rightarrow> int \<Rightarrow> int \<Rightarrow> fstack \<Rightarrow> event list" where
  "overlap m c d st =
     [Fork m c, Fork m d, Enter c st, Enter d st, Step c, Step d, Step c, Step d, Step c, Step d, Enter m st]"

lemma overlap_blocks:
  assumes "c \<noteq> m" and "d \<noteq> m" and "c \<noteq> d"
  shows "\<exists>s. run (overlap m c d st) (first_sys m) = Some s \<and> waiting m s = {} \<and> blocked m st s"
proof -
  let ?p = "\<lparr>shm_pid = m, shm_obj = 0, shm_name = name_of m\<rparr>"
  define mem where "mem b = \<lparr>objects = (\<lambda>_. zero_region)(0 := zero_region[SHM_FORK_FLAG_OFFSET := char_of (b :: nat)]),
    names = [name_of m \<mapsto> 0], next_object = 1\<rparr>" for b
  have z: "zero_region[SHM_FORK_FLAG_OFFSET := char_of (0 :: nat)] = zero_region"
    by (metis list_update_id zero_flag)
  have f: "first_sys m = \<lparr>procs = [m \<mapsto> ?p], at = (\<lambda>_. Out), calls = (\<lambda>_. 0), memory = mem 0\<rparr>"
    by (simp add: first_sys_def shm_minit_def open_object_def mem_def z fun_upd_idem)
  have mark: "tracer_mark 0 (mem 0) = mem 1" "tracer_mark 0 (mem 1) = mem 2"
    by (simp_all add: tracer_mark_def mem_def uchar_def numeral_2_eq_2)
  have chk: "shm_step x (In_check st) (?p, mem 2) = Some (In_load st, ?p, mem 2)" if "x \<noteq> m" for x
    using that counter_pos [of "objects (mem 2) 0"] by (simp add: shm_step_def mem_def flag_def uchar_def)
  have ld: "shm_step x (In_load st) (?p, mem 2) = Some (In_store st (char_of (2 :: nat)), ?p, mem 2)" for x
    by (simp add: shm_step_def mem_def)
  have sto: "shm_step x (In_store st (char_of (2 :: nat))) (?p, mem b) = Some (In_reopen st, ?p, mem 1)" for x b
  proof -
    have "char_of ((uchar (char_of (2 :: nat)) + 255) mod 256) = (char_of (1 :: nat) :: char)"
      by (rule arg_cong [where f = char_of]) (simp add: uchar_def)
    then show ?thesis unfolding shm_step_def mem_def by (simp del: char_of_mod_256)
  qed
  define s where "s = \<lparr>procs = [m \<mapsto> ?p, c \<mapsto> ?p, d \<mapsto> ?p],
     at = (\<lambda>_. Out)(c := In_reopen st, d := In_reopen st, m := In_check st), calls = (\<lambda>_. 0), memory = mem 1\<rparr>"
  have "run (overlap m c d st) (first_sys m) = Some s"
    using assms unfolding overlap_def f
    by (simp add: exec_def mark chk ld sto s_def fun_upd_idem fun_upd_twist del: One_nat_def)
  moreover have "waiting m s = {}" by (auto simp: waiting_def s_def split: if_splits)
  moreover have "blocked m st s"
    using assms by (auto simp: blocked_def s_def mem_def flag_def uchar_def split: if_splits)
  ultimately show ?thesis by blast
qed

text \<open>Everyone is in the memory of the master, the counter is zero.\<close>

definition merged :: "int \<Rightarrow> int \<Rightarrow> sys \<Rightarrow> bool" where
  "merged m c s \<longleftrightarrow>
     procs s = [m \<mapsto> \<lparr>shm_pid = m, shm_obj = 0, shm_name = name_of m\<rparr>,
                c \<mapsto> \<lparr>shm_pid = m, shm_obj = 0, shm_name = name_of m\<rparr>] \<and>
     names (memory s) = [name_of m \<mapsto> 0] \<and>
     length (objects (memory s) 0) = SHM_SIZE \<and> flag (objects (memory s) 0) = 0 \<and>
     owner_pc (at s m) \<and> owner_pc (at s c)"

definition is_fork :: "event \<Rightarrow> bool" where
  "is_fork e = (case e of Fork c d \<Rightarrow> True | _ \<Rightarrow> False)"

lemma merged_step:
  assumes b: "merged m c s" and e: "exec (Step x) s = Some s'"
  shows "merged m c s' \<and> (at s x = In_write (Some fs) \<longrightarrow> fs \<noteq> [] \<longrightarrow> line_ok (last fs) \<longrightarrow>
           tracer_reads m s' = Some (frame_line (last fs)))"
proof -
  let ?p = "\<lparr>shm_pid = m, shm_obj = 0, shm_name = name_of m\<rparr>" and ?r = "objects (memory s) 0"
  obtain p pc p' m' where p: "procs s x = Some p" and sh: "shm_step x (at s x) (p, memory s) = Some (pc, p', m')"
    and s': "s' = s\<lparr>procs := (procs s)(x \<mapsto> p'), at := (at s)(x := pc), memory := m',
                calls := (calls s)(x := (if pc = Out then calls s x + 1 else calls s x))\<rparr>"
    using exec_Step [OF e] by metis
  have x: "x = m \<or> x = c" "p = ?p" using p b by (auto simp: merged_def split: if_splits)
  have len: "length ?r = SHM_SIZE" "flag ?r = 0" using b by (simp_all add: merged_def)
  have "owner_pc (at s x)" using b x(1) by (auto simp: merged_def)
  then consider (reads) st where "at s x = In_check st" | (writes) st where "at s x = In_write st"
    using sh by (auto simp: owner_pc_def shm_step_def)
  then show ?thesis
  proof cases
    case reads
    have "pc = In_write st" "p' = p" "m' = memory s"
      using sh counter_pos [of ?r] len(2) x(2) by (simp_all add: shm_step_def reads)
    then show ?thesis
      using b p x reads by (auto simp: merged_def s' owner_pc_def fun_upd_idem)
  next
    case writes
    then obtain r where r: "write_callstack st ?r = Some r" "pc = Out" "p' = p"
        "m' = (memory s)\<lparr>objects := (objects (memory s))(0 := r)\<rparr>"
      using sh x(2) by (auto simp: shm_step_def split: option.splits)
    note k = write_callstack_keeps [OF r(1) len(1)]
    have "merged m c s'"
      using b p x r k len(2) by (auto simp: merged_def s' owner_pc_def fun_upd_idem)
    moreover have "tracer_reads m s' = Some (frame_line (last fs))"
      if "at s x = In_write (Some fs)" "fs \<noteq> []" "line_ok (last fs)"
      using write_callstack_line [OF len(1) that(2,3)] that(1) writes r b
      by (auto simp: tracer_reads_def s' merged_def)
    ultimately show ?thesis by blast
  qed
qed

lemma merged_exec:
  assumes b: "merged m c s" and e: "exec e s = Some s'" and f: "\<not> is_fork e"
  shows "merged m c s'"
proof (cases e)
  case (Enter x t)
  then have "s' = s\<lparr>at := (at s)(x := In_check t)\<rparr>" using e by (auto simp: exec_def split: if_splits)
  then show ?thesis using b by (auto simp: merged_def owner_pc_def)
next
  case (Step x)
  then show ?thesis using merged_step [OF b] e by blast
next
  case (Return x)
  then obtain p where p: "procs s x = Some p"
    and s': "s' = s\<lparr>memory := clear_shared p (memory s), calls := (calls s)(x := calls s x - 1)\<rparr>"
    using e by (auto simp: exec_def split: option.splits if_splits)
  have "shm_obj p = 0" using p b by (auto simp: merged_def split: if_splits)
  then show ?thesis using b by (auto simp: merged_def s' clear_shared_def)
qed (use f in \<open>simp add: is_fork_def\<close>)

lemma merged_run:
  "run es s = Some s' \<Longrightarrow> merged m c s \<Longrightarrow> (\<forall>e \<in> set es. \<not> is_fork e) \<Longrightarrow> merged m c s'"
  by (induction es arbitrary: s) (auto split: option.splits dest: merged_exec)

text \<open>The master enters a function, forks in it, and the function returns in one of the two.\<close>

definition fork_in_call :: "int \<Rightarrow> int \<Rightarrow> fstack \<Rightarrow> int \<Rightarrow> event list" where
  "fork_in_call m c st d = [Enter m st, Step m, Step m, Fork m c, Return d]"

lemma fork_in_call_merges:
  assumes "c \<noteq> m" and "stack_ok st" and "d = m \<or> d = c"
  shows "\<exists>s. run (fork_in_call m c st d) (first_sys m) = Some s \<and> merged m c s"
proof -
  let ?p = "\<lparr>shm_pid = m, shm_obj = 0, shm_name = name_of m\<rparr>"
  define mem where "mem r = \<lparr>objects = (\<lambda>_. zero_region)(0 := r), names = [name_of m \<mapsto> 0], next_object = 1\<rparr>" for r
  obtain r where r: "write_callstack st zero_region = Some r"
    using assms(2) write_callstack_line [OF zero_region_simps(1)] unfolding stack_ok_def by blast
  have f: "first_sys m = \<lparr>procs = [m \<mapsto> ?p], at = (\<lambda>_. Out), calls = (\<lambda>_. 0), memory = mem zero_region\<rparr>"
    by (simp add: first_sys_def shm_minit_def open_object_def mem_def)
  have chk: "shm_step m (In_check st) (?p, mem zero_region) = Some (In_write st, ?p, mem zero_region)"
    using counter_pos [of zero_region] by (simp add: shm_step_def mem_def)
  have wr: "shm_step m (In_write st) (?p, mem zero_region) = Some (Out, ?p, mem r)"
    by (simp add: shm_step_def mem_def r)
  have clr: "clear_shared ?p (tracer_mark 0 (mem x)) = mem zero_region" for x
    by (simp add: clear_shared_def tracer_mark_def mem_def)
  define k where "k = (if d = m then (\<lambda>_. 0)(m := 0, c := 1) else (\<lambda>_. 0)(m := 1, c := 0 :: nat))"
  define s where "s = \<lparr>procs = [m \<mapsto> ?p, c \<mapsto> ?p], at = (\<lambda>_. Out), calls = k, memory = mem zero_region\<rparr>"
  have "run (fork_in_call m c st d) (first_sys m) = Some s"
    using assms unfolding fork_in_call_def f
    by (auto simp: exec_def chk wr clr s_def k_def fun_upd_idem fun_upd_twist)
  moreover have "merged m c s" using assms(1) by (simp add: merged_def s_def mem_def owner_pc_def)
  ultimately show ?thesis by blast
qed

section \<open>Properties\<close>

lemma worker_runs:
  assumes "sys_inv m pm s" and "c \<noteq> m" and "procs s c \<noteq> None" and "pc_stack (at s c) = Some (Some fs)"
  shows "\<exists>s'. sched m s (replicate (todo c s) (Step c)) s'"
  using assms
proof (induction "todo c s" arbitrary: s)
  case 0
  then show ?case by (intro exI [of _ s]) simp
next
  case (Suc k)
  obtain p where p: "procs s c = Some p" using Suc.prems(3) by blast
  obtain s1 where s1: "exec (Step c) s = Some s1"
    using worker_step_runs [OF Suc.prems(1) p Suc.prems(2,4)] by blast
  have i1: "sys_inv m pm s1" using inv_step(1) [OF Suc.prems(1) s1] .
  have "\<exists>s'. sched m s1 (replicate k (Step c)) s'"
    using worker_step [OF Suc.prems(1) p Suc.prems(2,4) s1]
  proof (elim disjE conjE)
    assume "todo c s = 1"
    then show ?thesis using Suc.hyps(2) by (intro exI [of _ s1]) simp
  next
    assume a: "pc_stack (at s1 c) = Some (Some fs)" "procs s1 c \<noteq> None" "todo c s1 + 1 = todo c s"
    then have k: "k = todo c s1" using Suc.hyps(2) by simp
    then show ?thesis using Suc.hyps(1) [OF k i1 Suc.prems(2) a(2,1)] by simp
  qed
  then obtain s' where "sched m s1 (replicate k (Step c)) s'" by blast
  then have "sched m s (replicate (Suc k) (Step c)) s'" using s1 by (simp add: ok_event_def)
  then show ?case using Suc.hyps(2) by metis
qed


definition sample_frame :: function_stack_entry where
  "sample_frame =
     \<lparr>fse_function = \<lparr>func_class = None, func_function = Some ''system'', func_type = XFUNC_NORMAL\<rparr>,
      user_defined = XDEBUG_INTERNAL, fse_level = 1, fse_filename = Some ''/a.php'', fse_lineno = 7,
      include_filename = None, function_nr = 1, filtered_tracing = 0, filtered_code_coverage = 0,
      declared_vars = None,
      fse_execute_data = None, fse_symbol_table = None, fse_this = None\<rparr>"

lemma sample_line: "frame_line sample_frame = '' > system ->/a.php:7'' @ [CHR 0x0A]"
  by code_simp

lemma sample_stack_ok: "stack_ok (Some [sample_frame])"
  unfolding stack_ok_def line_ok_def by (simp add: sample_line nul_def shm_defs)

lemma first_fork:
  "\<exists>s. sched 7 (first_sys 7) [Fork 7 8, Enter 8 (Some [sample_frame])] s \<and> procs s 8 \<noteq> None \<and>
     at s 8 = In_check (Some [sample_frame]) \<and> todo 8 s = 6"
proof -
  have "counter 7 (first_sys 7) = 0" "\<forall>x st b. at (first_sys 7) x \<noteq> In_store st b"
    by (auto simp: counter_def first_sys_def shm_minit_def open_object_def)
  then have ok1: "ok_event 7 (first_sys 7) (Fork 7 8)" by (simp add: ok_event_def)
  let ?p = "\<lparr>shm_pid = 7, shm_obj = 0, shm_name = name_of 7\<rparr>"
  define s1 where "s1 = \<lparr>procs = [7 \<mapsto> ?p, 8 \<mapsto> ?p], at = (\<lambda>_. Out), calls = (\<lambda>_. 0),
    memory = tracer_mark 0 (memory (first_sys 7))\<rparr>"
  define s where "s = s1\<lparr>at := (at s1)(8 := In_check (Some [sample_frame]))\<rparr>"
  have "exec (Fork 7 8) (first_sys 7) = Some s1"
    by (simp add: exec_def s1_def first_sys_def shm_minit_def open_object_def fun_upd_idem)
  moreover have "exec (Enter 8 (Some [sample_frame])) s1 = Some s" by (simp add: exec_def s1_def s_def)
  moreover have "ok_event 7 s1 (Enter 8 (Some [sample_frame]))" using sample_stack_ok by (simp add: ok_event_def)
  ultimately have "sched 7 (first_sys 7) [Fork 7 8, Enter 8 (Some [sample_frame])] s" using ok1 by simp
  moreover have "procs s 8 \<noteq> None" "at s 8 = In_check (Some [sample_frame])" "todo 8 s = 6"
    by (simp_all add: s_def s1_def todo_def)
  ultimately show ?thesis by blast
qed




text \<open>C14: \<open>shm_ptr[SHM_FORK_FLAG_OFFSET] -= 1\<close> is not atomic: when two forked workers read the counter
  before either writes it back, one count is lost. Both leave the memory of the master, so that nobody will
  count down again, the counter stays one, and the master never gets out of the loop before its next internal
  function, whatever the processes do.\<close>

theorem lost_count_blocks_master:
  assumes "c \<noteq> m" and "d \<noteq> m" and "c \<noteq> d"
  shows "\<exists>s. run (overlap m c d st) (first_sys m) = Some s \<and> waiting m s = {} \<and>
     (\<forall>es s'. run es s = Some s' \<longrightarrow> at s' m = In_check st)"
proof -
  obtain s where s: "run (overlap m c d st) (first_sys m) = Some s" "waiting m s = {}" "blocked m st s"
    using overlap_blocks [OF assms] by blast
  have "at s' m = In_check st" if "run es s = Some s'" for es s'
    using blocked_run [OF that s(3)] by (simp add: blocked_def)
  then show ?thesis using s by blast
qed

theorem lost_count_blocks_master_witness:
  "\<exists>s. run (overlap 7 8 9 (Some [sample_frame])) (first_sys 7) = Some s \<and>
     (\<forall>es s'. run es s = Some s' \<longrightarrow> at s' 7 = In_check (Some [sample_frame]))"
  using lost_count_blocks_master [of 8 7 9 "Some [sample_frame]"] by auto

text \<open>C15: A fork inside an internal function is lost: when the function returns in the parent (or in the
  child, which has the same memory mapped) the whole memory is cleared together with the fork counter. From
  then on, as long as no further fork is counted, the child never has a memory of its own, and every call it
  publishes overwrites what the tracer reads for the parent.\<close>

theorem fork_in_call_is_lost:
  assumes "c \<noteq> m" and "stack_ok st" and "d = m \<or> d = c"
  shows "\<exists>s. run (fork_in_call m c st d) (first_sys m) = Some s \<and>
     (\<forall>es s'. run es s = Some s' \<and> (\<forall>e \<in> set es. \<not> is_fork e) \<longrightarrow>
        tracer_reads c s' = None \<and>
        (\<forall>gs s1. at s' c = In_write (Some gs) \<and> stack_ok (Some gs) \<and> exec (Step c) s' = Some s1 \<longrightarrow>
           tracer_reads m s1 = Some (frame_line (last gs))))"
proof -
  obtain s where s: "run (fork_in_call m c st d) (first_sys m) = Some s" "merged m c s"
    using fork_in_call_merges [OF assms] by blast
  have "tracer_reads c s' = None \<and>
      (\<forall>gs s1. at s' c = In_write (Some gs) \<and> stack_ok (Some gs) \<and> exec (Step c) s' = Some s1 \<longrightarrow>
         tracer_reads m s1 = Some (frame_line (last gs)))"
    if r: "run es s = Some s'" "\<forall>e \<in> set es. \<not> is_fork e" for es s'
  proof -
    have mg: "merged m c s'" by (rule merged_run [OF r(1) s(2) r(2)])
    then show ?thesis
      using merged_step [OF mg] assms(1) by (auto simp: merged_def tracer_reads_def stack_ok_def)
  qed
  then show ?thesis using s(1) by blast
qed

theorem fork_in_call_is_lost_witness:
  "\<exists>s. run (fork_in_call 7 8 (Some [sample_frame]) 7) (first_sys 7) = Some s \<and>
     (\<forall>es s'. run es s = Some s' \<and> (\<forall>e \<in> set es. \<not> is_fork e) \<longrightarrow> tracer_reads 8 s' = None)"
  using fork_in_call_is_lost [of 8 7 "Some [sample_frame]" 7] sample_stack_ok by auto

end
