(* ===== verification/Text.thy ===== *)
theory Text
  imports Prelude Str "HOL-Library.Sublist" "HOL-Library.Monad_Syntax"
begin

text \<open>
  Splitting, joining and searching texts, and the line reader: the first part of \<open>usefulstuff.c\<close>. A
  pointer into a string is the remaining suffix, a found place its offset. \<open>xdebug_arg\<close> is the list of
  its arguments. Reading outside a string or the argument array is \<open>None\<close>.
\<close>

section \<open>Searching\<close>

text \<open>The scan of \<open>xdebug_memnstr\<close> from offset \<open>p\<close>; a needle that is longer than the rest is not
  found. The empty needle, whose first character is the terminating zero, is found at the end.\<close>

fun memnstr :: "string \<Rightarrow> string \<Rightarrow> nat \<Rightarrow> nat option" where
  "memnstr needle [] p = (if needle = [] then Some p else None)"
| "memnstr needle (c # cs) p =
     (if length (c # cs) < length needle then None
      else if needle \<noteq> [] \<and> c = hd needle \<and> take (length needle) (c # cs) = needle then Some p
      else memnstr needle cs (p + 1))"

text \<open>\<open>strstr\<close> of the C library, and the last occurrence.\<close>

fun strstr :: "string \<Rightarrow> string \<Rightarrow> nat \<Rightarrow> nat option" where
  "strstr needle [] p = (if needle = [] then Some p else None)"
| "strstr needle (c # cs) p =
     (if prefix needle (c # cs) then Some p else strstr needle cs (p + 1))"

lemma strstr_bounds:
  "strstr needle s p = Some q \<Longrightarrow> p \<le> q \<and> q + length needle \<le> p + length s"
proof (induction s arbitrary: p)
  case (Cons c cs)
  then show ?case
    by (fastforce split: if_splits dest: prefix_length_le)
qed (simp split: if_splits)

text \<open>The loop of \<open>xdebug_strrstr\<close>: the search goes on one character after the last find.\<close>

function strrstr_loop :: "string \<Rightarrow> string \<Rightarrow> nat \<Rightarrow> nat option \<Rightarrow> nat option" where
  "strrstr_loop haystack needle pos loc =
     (if length haystack < pos then loc
      else (case strstr needle (drop pos haystack) pos of
              Some found \<Rightarrow> strrstr_loop haystack needle (found + 1) (Some found)
            | None \<Rightarrow> loc))"
  by pat_completeness auto
termination
  by (relation "measure (\<lambda>(haystack, needle, pos, loc). length haystack + 1 - pos)")
    (auto dest: strstr_bounds)

declare strrstr_loop.simps [simp del]

definition strrstr :: "string \<Rightarrow> string \<Rightarrow> nat option" where
  "strrstr haystack needle = strrstr_loop haystack needle 0 None"

section \<open>Splitting and joining\<close>

text \<open>The \<open>do\<close> loop of \<open>xdebug_explode\<close>: \<open>p1\<close> is the rest of the string, \<open>p2\<close> the offset of the
  delimiter in it. \<open>None\<close> is a loop that never ends (an empty delimiter).\<close>

partial_function (option) explode_loop ::
  "string \<Rightarrow> string \<Rightarrow> nat \<Rightarrow> string list \<Rightarrow> int \<Rightarrow> (string list \<times> string) option" where
  "explode_loop delim p1 p2 args limit =
     (let args = args @ [take p2 p1]; p1 = drop (p2 + length delim) p1
      in case memnstr delim p1 0 of
           None \<Rightarrow> Some (args, p1)
         | Some q \<Rightarrow>
             (if limit = - 1 then explode_loop delim p1 q args limit
              else if limit - 1 > 1 then explode_loop delim p1 q args (limit - 1)
              else Some (args, p1)))"

definition explode :: "string \<Rightarrow> string \<Rightarrow> string list \<Rightarrow> int \<Rightarrow> string list option" where
  "explode delim str args limit =
     (case memnstr delim str 0 of
        None \<Rightarrow> Some (args @ [str])
      | Some p2 \<Rightarrow> do {
          (args, p1) \<leftarrow> explode_loop delim str p2 args limit;
          Some (args @ [p1])
        })"

fun join_loop :: "char \<Rightarrow> string \<Rightarrow> string list \<Rightarrow> nat list \<Rightarrow> xstr \<Rightarrow> xstr option" where
  "join_loop junk delim args [] ret = Some ret"
| "join_loop junk delim args (i # is) ret =
     do {
       a \<leftarrow> (if i < length args then Some (args ! i) else None);
       ret \<leftarrow> str_add junk a ret;
       ret \<leftarrow> str_add junk delim ret;
       join_loop junk delim args is ret
     }"

definition join :: "char \<Rightarrow> string \<Rightarrow> string list \<Rightarrow> int \<Rightarrow> int \<Rightarrow> xstr option" where
  "join junk delim args begin0 end0 =
     (let first = (if begin0 < 0 then 0 else begin0);
          last = (if end0 > int (length args) - 1 then int (length args) - 1 else end0)
      in do {
        ret \<leftarrow> join_loop junk delim args (map nat [first..last - 1]) str_new;
        a \<leftarrow> (if 0 \<le> last \<and> nat last < length args then Some (args ! nat last) else None);
        str_add junk a ret
      })"

section \<open>Reading lines\<close>

definition READ_BUFFER_SIZE :: nat where "READ_BUFFER_SIZE = 128"

record fd_buf =
  buffer :: "string option"
  buffer_size :: int

text \<open>What the descriptor delivers: each read or receive returns the next chunk of at most
  \<open>READ_BUFFER_SIZE\<close> bytes; no chunk left, or an empty one, is the end or an error.\<close>

type_synonym chunks = "string list"

fun fill_buffer :: "char \<Rightarrow> chunks \<Rightarrow> string \<Rightarrow> string option \<times> string \<times> chunks" where
  "fill_buffer delim input buf =
     (if buf \<noteq> [] \<and> last buf = delim then (Some buf, buf, input)
      else (case input of
              [] \<Rightarrow> (None, buf, [])
            | c # cs \<Rightarrow> if c = [] then (None, buf, cs) else fill_buffer delim cs (buf @ c)))"

declare fill_buffer.simps [simp del]

text \<open>The result is the line (\<open>None\<close> for NULL) with the new context and the chunks left.\<close>

definition fd_read_line_delim :: "char \<Rightarrow> fd_buf \<Rightarrow> chunks \<Rightarrow> string option \<times> fd_buf \<times> chunks" where
  "fd_read_line_delim delim ctx input =
     (let buf0 = (case buffer ctx of None \<Rightarrow> [] | Some b \<Rightarrow> take (nat (buffer_size ctx)) b)
      in case fill_buffer delim input buf0 of
           (None, buf, input) \<Rightarrow> (None, \<lparr>buffer = Some buf, buffer_size = int (length buf)\<rparr>, input)
         | (Some buf, _, input) \<Rightarrow>
             (let sz = length (takeWhile (\<lambda>c. c \<noteq> delim) buf); nbufsize = length buf - sz - 1
              in (Some (take sz buf),
                  \<lparr>buffer = (if 0 < nbufsize then Some (drop (sz + 1) buf) else None),
                   buffer_size = int (length buf) - int (sz + 1)\<rparr>, input)))"


section \<open>Facts about searching\<close>

lemma memnstr_Some:
  assumes "memnstr needle s p = Some q"
  shows "p \<le> q \<and> q - p + length needle \<le> length s \<and> take (q - p) s @ needle @ drop (q - p + length needle) s = s"
  using assms
proof (induction s arbitrary: p)
  case (Cons c cs)
  show ?case
  proof (cases "needle \<noteq> [] \<and> c = hd needle \<and> take (length needle) (c # cs) = needle")
    case True
    then have "q = p" "length needle \<le> length (c # cs)"
      using Cons.prems by (auto split: if_splits)
    moreover have "needle @ drop (length needle) (c # cs) = c # cs"
      using conjunct2 [OF conjunct2 [OF True]] append_take_drop_id [of "length needle" "c # cs"] by metis
    ultimately show ?thesis by simp
  next
    case False
    then have "memnstr needle cs (p + 1) = Some q" using Cons.prems by (auto split: if_splits)
    from Cons.IH [OF this] show ?thesis
      by (cases "q - p") (auto simp: Suc_diff_le diff_Suc split: nat.splits)
  qed
qed (simp split: if_splits)

lemma memnstr_None: "memnstr needle s p = None \<longleftrightarrow> needle \<noteq> [] \<and> \<not> sublist needle s"
proof (induction s arbitrary: p)
  case (Cons c cs)
  have 1: "prefix needle (c # cs) \<longleftrightarrow> take (length needle) (c # cs) = needle"
    by (metis append_take_drop_id prefix_def append_eq_conv_conj)
  show ?case
  proof (cases "length (c # cs) < length needle")
    case True
    then show ?thesis using sublist_length_le [of needle "c # cs"] by auto
  next
    case False
    then show ?thesis using Cons.IH [of "p + 1"] 1 by (cases needle) (auto simp: sublist_Cons_right)
  qed
qed simp

text \<open>The first place is the leftmost one: what precedes it has no delimiter inside.\<close>

lemma memnstr_take:
  assumes "memnstr needle s p = Some q" and "needle \<noteq> []"
  shows "\<not> sublist needle (take (q - p) s)"
  using assms(1)
proof (induction s arbitrary: p)
  case (Cons c cs)
  show ?case
  proof (cases "c = hd needle \<and> take (length needle) (c # cs) = needle")
    case True
    then show ?thesis using Cons.prems assms(2) by (auto split: if_splits)
  next
    case False
    then have m: "memnstr needle cs (p + 1) = Some q" using Cons.prems by (auto split: if_splits)
    then have q: "p + 1 \<le> q" using memnstr_Some by blast
    have np: "\<not> prefix needle (c # take (q - (p + 1)) cs)"
    proof
      assume "prefix needle (c # take (q - (p + 1)) cs)"
      then have "prefix needle (c # cs)"
        by (metis append_Cons append_take_drop_id prefix_prefix)
      then have "take (length needle) (c # cs) = needle" "c = hd needle"
        using assms(2) by (cases needle; auto simp: prefix_def)+
      then show False using False by blast
    qed
    have "q - p = Suc (q - (p + 1))" using q by simp
    then have "take (q - p) (c # cs) = c # take (q - (p + 1)) cs" by simp
    then show ?thesis using Cons.IH [OF m] np by (simp add: sublist_Cons_right)
  qed
qed (simp add: assms(2) split: if_splits)

section \<open>Splitting and joining again\<close>

lemma explode_loop_ok:
  assumes "delim \<noteq> []" and "memnstr delim p1 0 = Some p2"
  shows "\<exists>ps rest. explode_loop delim p1 p2 args limit = Some (args @ ps, rest) \<and> ps \<noteq> [] \<and>
    concat (map (\<lambda>a. a @ delim) ps) @ rest = p1 \<and> (\<forall>a\<in>set ps. \<not> sublist delim a) \<and>
    (if limit = - 1 then \<not> sublist delim rest else int (length ps) \<le> max 1 (limit - 1))"
  using assms(2)
proof (induction "length p1" arbitrary: p1 p2 args limit rule: less_induct)
  case less
  define a where "a = take p2 p1"
  define r where "r = drop (p2 + length delim) p1"
  have p1: "a @ delim @ r = p1" and nd: "\<not> sublist delim a"
    using memnstr_Some [OF less.prems] memnstr_take [OF less.prems assms(1)]
    by (auto simp: a_def r_def)
  show ?case
  proof (cases "memnstr delim r 0")
    case None
    then show ?thesis
      using p1 nd memnstr_None [of delim r 0] by (intro exI [of _ "[a]"] exI [of _ r])
        (simp add: explode_loop.simps [of delim p1] Let_def flip: a_def r_def)
  next
    case (Some q)
    have l: "length r < length p1" using p1 assms(1) by auto
    consider (go) lim where "lim = (if limit = - 1 then limit else limit - 1)" "limit = - 1 \<or> 1 < limit - 1"
      | (stop) "limit \<noteq> - 1" "\<not> 1 < limit - 1" by auto
    then show ?thesis
    proof cases
      case go
      have e: "explode_loop delim p1 p2 args limit = explode_loop delim r q (args @ [a]) lim"
        using go Some by (auto simp: explode_loop.simps [of delim p1] Let_def simp flip: a_def r_def)
      obtain ps rest where "explode_loop delim r q (args @ [a]) lim = Some (args @ [a] @ ps, rest)"
        "concat (map (\<lambda>a. a @ delim) ps) @ rest = r" "\<forall>a\<in>set ps. \<not> sublist delim a"
        "if lim = - 1 then \<not> sublist delim rest else int (length ps) \<le> max 1 (lim - 1)"
        using less.hyps [OF l Some, of "args @ [a]" lim] by auto
      then show ?thesis
        using p1 nd go e by (intro exI [of _ "a # ps"] exI [of _ rest]) (auto split: if_splits)
    next
      case stop
      then show ?thesis
        using p1 nd Some by (intro exI [of _ "[a]"] exI [of _ r])
          (simp add: explode_loop.simps [of delim p1] Let_def flip: a_def r_def)
    qed
  qed
qed

lemma explode_ok:
  assumes "delim \<noteq> []"
  shows "\<exists>ps rest. explode delim s args limit = Some (args @ ps @ [rest]) \<and>
    concat (map (\<lambda>a. a @ delim) ps) @ rest = s \<and> (\<forall>a\<in>set ps. \<not> sublist delim a) \<and>
    (if limit = - 1 then \<not> sublist delim rest else int (length ps) \<le> max 1 (limit - 1))"
proof (cases "memnstr delim s 0")
  case None
  then show ?thesis
    using memnstr_None [of delim s 0]
    by (auto simp: explode_def intro!: exI [where x = "[] :: string list"])
next
  case (Some p2)
  then show ?thesis
    using explode_loop_ok [OF assms Some, of args limit] by (fastforce simp: explode_def)
qed

lemma join_loop_ok:
  assumes "str_wf xs" and "length delim < 2 ^ 31" and "\<forall>a\<in>set args. length a < 2 ^ 31"
    and "\<forall>i\<in>set is. i < length args"
  shows "\<exists>xs'. join_loop junk delim args is xs = Some xs' \<and> str_wf xs' \<and>
    content xs' = content xs @ concat (map (\<lambda>i. args ! i @ delim) is)"
  using assms(1,4)
proof (induction "is" arbitrary: xs)
  case (Cons i "is")
  have i: "i < length args" "length (args ! i) < 2 ^ 31" using Cons.prems assms(3) by auto
  obtain x1 where x1: "str_add junk (args ! i) xs = Some x1" "str_wf x1" "content x1 = content xs @ args ! i"
    using str_add_ok [OF Cons.prems(1) i(2)] by blast
  obtain x2 where x2: "str_add junk delim x1 = Some x2" "str_wf x2" "content x2 = content x1 @ delim"
    using str_add_ok [OF x1(2) assms(2)] by blast
  show ?case using Cons.IH [OF x2(2)] Cons.prems(2) i x1 x2 by auto
qed simp

lemma join_ok:
  assumes "length delim < 2 ^ 31" and "\<forall>a\<in>set (os @ ps @ [rest]). length a < 2 ^ 31"
  shows "\<exists>r. join junk delim (os @ ps @ [rest]) (int (length os)) (int (length (os @ ps))) = Some r \<and> str_wf r \<and>
    content r = concat (map (\<lambda>a. a @ delim) ps) @ rest"
proof -
  have m: "map nat [int (length os)..int (length (os @ ps)) - 1] = [length os..<length (os @ ps)]"
    by (rule nth_equalityI) simp_all
  have c: "map (\<lambda>i. (os @ ps @ [rest]) ! i @ delim) [length os..<length (os @ ps)] = map (\<lambda>a. a @ delim) ps"
    by (rule nth_equalityI) (simp_all add: nth_append)
  obtain x where x: "join_loop junk delim (os @ ps @ [rest]) [length os..<length (os @ ps)] str_new = Some x"
    "str_wf x" "content x = concat (map (\<lambda>a. a @ delim) ps)"
    using join_loop_ok [of str_new delim "os @ ps @ [rest]" "[length os..<length (os @ ps)]" junk] assms c
    by auto
  show ?thesis using str_add_ok [OF x(2), of rest junk] assms(2) m x
    by (simp add: join_def Let_def nth_append nat_int_add)
qed

section \<open>Lines\<close>

fun read_lines :: "nat \<Rightarrow> char \<Rightarrow> fd_buf \<Rightarrow> chunks \<Rightarrow> string option list" where
  "read_lines 0 delim ctx input = []"
| "read_lines (Suc n) delim ctx input =
     (let (line, ctx, input) = fd_read_line_delim delim ctx input in line # read_lines n delim ctx input)"

text \<open>What a context holds of the bytes received but not yet delivered.\<close>

definition pending :: "fd_buf \<Rightarrow> string" where
  "pending ctx = (case buffer ctx of None \<Rightarrow> [] | Some b \<Rightarrow> take (nat (buffer_size ctx)) b)"

lemma fill_buffer_ends:
  assumes "\<forall>c\<in>set input. c \<noteq> []" and "buf @ concat input \<noteq> []" and "last (buf @ concat input) = delim"
  shows "\<exists>b rest. fill_buffer delim input buf = (Some b, b, rest) \<and> b @ concat rest = buf @ concat input \<and>
    b \<noteq> [] \<and> last b = delim \<and> set rest \<subseteq> set input"
  using assms
proof (induction input arbitrary: buf)
  case Nil
  then show ?case by (simp add: fill_buffer.simps)
next
  case (Cons c cs)
  show ?case
  proof (cases "buf \<noteq> [] \<and> last buf = delim")
    case True
    then show ?thesis by (auto simp: fill_buffer.simps)
  next
    case False
    obtain b rest where "fill_buffer delim cs (buf @ c) = (Some b, b, rest)"
      "b @ concat rest = (buf @ c) @ concat cs" "b \<noteq> []" "last b = delim" "set rest \<subseteq> set cs"
      using Cons.IH [of "buf @ c"] Cons.prems by auto
    then show ?thesis using False Cons.prems(1) by (auto simp: fill_buffer.simps [of delim "c # cs"])
  qed
qed

lemma fd_read_line_ok:
  assumes "\<forall>c\<in>set input. c \<noteq> []" and "pending ctx @ concat input = line @ delim # others"
    and "delim \<notin> set line" and "last (delim # others) = delim"
  shows "\<exists>ctx' input'. fd_read_line_delim delim ctx input = (Some line, ctx', input') \<and>
    pending ctx' @ concat input' = others \<and> set input' \<subseteq> set input"
proof -
  obtain b rest where b: "fill_buffer delim input (pending ctx) = (Some b, b, rest)"
    "b @ concat rest = pending ctx @ concat input" "b \<noteq> []" "last b = delim" "set rest \<subseteq> set input"
    using fill_buffer_ends [OF assms(1), of "pending ctx" delim] assms(2,4)
    by (auto split: if_splits)
  have "delim \<in> set b" using b(3,4) by (metis last_in_set)
  then obtain l m where lm: "b = l @ delim # m" "delim \<notin> set l" using split_list_first by metis
  then have eq: "l @ delim # m @ concat rest = line @ delim # others" using b(2) assms(2) by simp
  then have l: "l = line" "m @ concat rest = others"
    using lm(2) assms(3) by (auto simp: append_eq_Cons_conv append_eq_append_conv2 Cons_eq_append_conv)
  have tw: "length (takeWhile (\<lambda>c. c \<noteq> delim) b) = length line"
    using lm l(1) by (metis (mono_tags, lifting) takeWhile_append2 takeWhile.simps(2) append_Nil2)
  show ?thesis
    using b(5) l lm tw
    by (auto simp: fd_read_line_delim_def pending_def [symmetric] b(1) Let_def)
       (auto simp: pending_def)
qed

lemma read_lines_ok:
  assumes "\<forall>c\<in>set input. c \<noteq> []" and "\<forall>l\<in>set ls. delim \<notin> set l"
    and "pending ctx @ concat input = concat (map (\<lambda>l. l @ [delim]) ls)"
  shows "read_lines (length ls) delim ctx input = map Some ls"
  using assms
proof (induction ls arbitrary: ctx input)
  case (Cons l ls)
  define others where "others = concat (map (\<lambda>l. l @ [delim]) ls)"
  have lst: "last (delim # others) = delim"
    by (cases ls rule: rev_cases) (auto simp: others_def)
  obtain ctx' input' where r: "fd_read_line_delim delim ctx input = (Some l, ctx', input')"
    "pending ctx' @ concat input' = others" "set input' \<subseteq> set input"
    using fd_read_line_ok [OF Cons.prems(1) _ _ lst, of ctx l] Cons.prems(2,3)
    by (auto simp: others_def)
  have "read_lines (length ls) delim ctx' input' = map Some ls"
    by (rule Cons.IH) (use r Cons.prems in \<open>auto simp: others_def\<close>)
  then show ?case using r(1) by simp
qed simp

section \<open>Properties\<close>

text \<open>splitting a text at a non-empty delimiter and joining the pieces again gives back the text,
  for every limit. No piece but the last contains the delimiter; with no limit (\<open>- 1\<close>) the last does
  not either, and with a limit there are at most that many pieces (but never fewer than the first and
  the rest, whatever the limit).\<close>

lemma explode_join_roundtrip:
  assumes "delim \<noteq> []" and "length delim < 2 ^ 31" and "length s < 2 ^ 31"
  shows "\<exists>ps rest r. explode delim s [] limit = Some (ps @ [rest]) \<and>
    join junk delim (ps @ [rest]) 0 (int (length ps)) = Some r \<and> content r = s \<and>
    (\<forall>a\<in>set ps. \<not> sublist delim a) \<and>
    (if limit = - 1 then \<not> sublist delim rest else int (length (ps @ [rest])) \<le> max 2 limit)"
proof -
  obtain ps rest where e: "explode delim s [] limit = Some (ps @ [rest])"
    "concat (map (\<lambda>a. a @ delim) ps) @ rest = s" "\<forall>a\<in>set ps. \<not> sublist delim a"
    "if limit = - 1 then \<not> sublist delim rest else int (length ps) \<le> max 1 (limit - 1)"
    using explode_ok [OF assms(1), of s "[]" limit] by auto
  have "length a \<le> length s" if "a \<in> set (ps @ [rest])" for a
  proof -
    have "sublist a (concat (map (\<lambda>a. a @ delim) ps) @ rest)"
      using that by (auto simp: in_set_conv_decomp intro: sublist_appendI)
    then show ?thesis using e(2) sublist_length_le by blast
  qed
  then have "\<forall>a\<in>set (ps @ [rest]). length a < 2 ^ 31" using assms(3) by force
  then show ?thesis using join_ok [OF assms(2), of "[]" ps rest junk] e by fastforce
qed

lemma explode_join_roundtrip_witness:
  "\<exists>ps rest r. explode '', '' ''a, b,c, '' [] (- 1) = Some (ps @ [rest]) \<and>
    join nul '', '' (ps @ [rest]) 0 (int (length ps)) = Some r \<and> content r = ''a, b,c, '' \<and>
    (\<forall>a\<in>set ps. \<not> sublist '', '' a) \<and> \<not> sublist '', '' rest"
  using explode_join_roundtrip [of "'', ''" "''a, b,c, ''" "- 1" nul] by simp

text \<open>the line reader frames messages: however the bytes of a sequence of terminated lines are cut
  into the chunks the socket delivers, and whatever part of them was already buffered, reading as often
  as there are lines returns exactly the lines, in their order.\<close>

lemma lines_framed:
  assumes "\<forall>c\<in>set input. c \<noteq> [] \<and> length c \<le> READ_BUFFER_SIZE" and "\<forall>l\<in>set ls. delim \<notin> set l"
    and "pending ctx @ concat input = concat (map (\<lambda>l. l @ [delim]) ls)"
  shows "read_lines (length ls) delim ctx input = map Some ls"
  using read_lines_ok [OF _ assms(2,3)] assms(1) by blast

lemma lines_framed_witness:
  "read_lines 3 nul \<lparr>buffer = Some ''ru'', buffer_size = 2\<rparr> [''n'' @ [nul], ''step'', [nul], ''run -i 2'' @ [nul]] =
     map Some [''run'', ''step'', ''run -i 2'']"
  using lines_framed [of "[''n'' @ [nul], ''step'', [nul], ''run -i 2'' @ [nul]]"
    "[''run'', ''step'', ''run -i 2'']" nul "\<lparr>buffer = Some ''ru'', buffer_size = 2\<rparr>"]
  by (simp add: nul_def pending_def READ_BUFFER_SIZE_def numeral_3_eq_3)

end
