(* ===== verification/Url.thy ===== *)
theory Url
  imports Text
begin

text \<open>
  File names as URLs, the second part of \<open>usefulstuff.c\<close>. Decoding works in place, so its result is the
  whole buffer with its leftover tail; a C string is what precedes the first zero byte. Reading outside
  a buffer is \<open>None\<close>. The theorems say that encoding loses nothing and which paths survive the way to a
  URL and back.
\<close>

section \<open>Hexadecimal digits\<close>

definition isxdigit :: "char \<Rightarrow> bool" where
  "isxdigit c \<longleftrightarrow> isdigit c \<or> (65 \<le> uchar c \<and> uchar c \<le> 70) \<or> (97 \<le> uchar c \<and> uchar c \<le> 102)"

definition hex_value :: "char \<Rightarrow> int" where
  "hex_value c0 =
     (let c = schar (tolower c0)
      in if 48 \<le> c \<and> c \<le> 57 then c - 48 else c - 97 + 10)"

definition htoi :: "char \<Rightarrow> char \<Rightarrow> int" where
  "htoi s0 s1 = hex_value s0 * 16 + hex_value s1"

definition hexchars :: string where
  "hexchars = ''0123456789ABCDEF''"

section \<open>Encoding and decoding\<close>

text \<open>The bytes that \<open>xdebug_raw_url_decode\<close> writes, reading \<open>len\<close> bytes of the buffer.\<close>

fun raw_url_decode_loop :: "string \<Rightarrow> nat \<Rightarrow> string option" where
  "raw_url_decode_loop data 0 = Some []"
| "raw_url_decode_loop [] (Suc len) = None"
| "raw_url_decode_loop [c] (Suc len) =
     (if c = CHR ''%'' \<and> 2 \<le> len then None
      else map_option ((#) c) (raw_url_decode_loop [] len))"
| "raw_url_decode_loop [c, a] (Suc len) =
     (if c = CHR ''%'' \<and> 2 \<le> len \<and> isxdigit a then None
      else map_option ((#) c) (raw_url_decode_loop [a] len))"
| "raw_url_decode_loop (c # a # b # data) (Suc len) =
     (if c = CHR ''%'' \<and> 2 \<le> len \<and> isxdigit a \<and> isxdigit b
      then map_option ((#) (char_of (nat (htoi a b mod 256)))) (raw_url_decode_loop data (len - 2))
      else map_option ((#) c) (raw_url_decode_loop (a # b # data) len))"

text \<open>The buffer afterwards and the length of its text.\<close>

definition raw_url_decode :: "string \<Rightarrow> nat \<Rightarrow> (string \<times> nat) option" where
  "raw_url_decode buf len =
     do {
       out \<leftarrow> raw_url_decode_loop buf len;
       if length out < length buf
       then Some (out @ [nul] @ drop (length out + 1) buf, length out)
       else None
     }"

definition must_encode :: "bool \<Rightarrow> char \<Rightarrow> bool" where
  "must_encode skip_slash ch \<longleftrightarrow>
     (let y = uchar ch
      in (y < 48 \<and> y \<noteq> 45 \<and> y \<noteq> 46 \<and> (y \<noteq> 47 \<or> \<not> skip_slash)) \<or>
         (y < 65 \<and> y > 57 \<and> y \<noteq> 58) \<or>
         (y > 90 \<and> y < 97 \<and> y \<noteq> 95 \<and> (y \<noteq> 92 \<or> \<not> skip_slash)) \<or>
         (y > 122))"

fun raw_url_encode :: "string \<Rightarrow> bool \<Rightarrow> string" where
  "raw_url_encode [] skip_slash = []"
| "raw_url_encode (c # s) skip_slash =
     (if must_encode skip_slash c
      then [CHR ''%'', hexchars ! (uchar c div 16), hexchars ! (uchar c mod 16)]
      else [c]) @ raw_url_encode s skip_slash"

section \<open>Paths and URLs\<close>

text \<open>The byte of a zero-terminated buffer at an index.\<close>

definition byte_at :: "string \<Rightarrow> nat \<Rightarrow> char option" where
  "byte_at buf i = (if i < length buf then Some (buf ! i) else None)"

definition path_from_url :: "string \<Rightarrow> string option" where
  "path_from_url fileurl =
     do {
       (dfp, _) \<leftarrow> raw_url_decode (fileurl @ [nul]) (length fileurl);
       case strstr ''file://'' (cstr dfp) 0 of
         Some tmp \<Rightarrow>
           (let fp = drop (tmp + 7) dfp
            in do {
              c0 \<leftarrow> byte_at fp 0;
              if c0 = CHR ''/''
              then do {
                c2 \<leftarrow> byte_at fp 2;
                Some (cstr (if c2 = CHR '':'' then drop 1 fp else fp))
              }
              else Some (cstr fp)
            })
       | None \<Rightarrow> Some fileurl
     }"

text \<open>\<open>getcwd\<close> is the current directory, if it can be read; \<open>virtual_file_ex cwd path\<close> is the resolved
  path of the Zend engine, \<open>None\<close> when it fails, which leaves the code with a NULL string.\<close>

definition path_to_url :: "string option \<Rightarrow> (string \<Rightarrow> string \<Rightarrow> string option) \<Rightarrow> string \<Rightarrow> string option" where
  "path_to_url getcwd virtual_file_ex fileurl =
     (let encoded_fileurl = raw_url_encode fileurl True; buf = fileurl @ [nul]
      in do {
        tmp \<leftarrow>
          (if strncmp fileurl ''phar://'' 7 = 0 then Some fileurl
           else do {
             c0 \<leftarrow> byte_at buf 0;
             rel \<leftarrow> (if c0 \<noteq> CHR ''/'' \<and> c0 \<noteq> CHR 0x5C
                    then map_option (\<lambda>c1. c1 \<noteq> CHR '':'') (byte_at buf 1) else Some False);
             if rel
             then map_option (\<lambda>s. ''file://'' @ s)
                    (virtual_file_ex (case getcwd of None \<Rightarrow> [] | Some cwd \<Rightarrow> cwd) fileurl)
             else do {
               c1 \<leftarrow> byte_at buf 1;
               Some (if c1 = CHR ''/'' \<or> c1 = CHR 0x5C then ''file:'' @ encoded_fileurl
                     else if c0 = CHR ''/'' \<or> c0 = CHR 0x5C then ''file://'' @ encoded_fileurl
                     else if c1 = CHR '':'' then ''file:///'' @ encoded_fileurl
                     else encoded_fileurl)
             }
           });
        Some (map (\<lambda>c. if c = CHR 0x5C then CHR ''/'' else c) tmp)
      })"

section \<open>Encoding and decoding again\<close>

lemma hex_value_hexchars: "n < 16 \<Longrightarrow> isxdigit (hexchars ! n) \<and> hex_value (hexchars ! n) = int n"
proof -
  have "list_all (\<lambda>n. isxdigit (hexchars ! n) \<and> hex_value (hexchars ! n) = int n) [0..<16]"
    by code_simp
  then show "n < 16 \<Longrightarrow> isxdigit (hexchars ! n) \<and> hex_value (hexchars ! n) = int n"
    by (simp add: list_all_iff)
qed

lemma nibble_bounds: "uchar c div 16 < 16" "uchar c mod 16 < 16"
  using uchar_less_256 [of c] by (auto simp: less_mult_imp_div_less)

lemmas nibbles = hex_value_hexchars [OF nibble_bounds(1)] hex_value_hexchars [OF nibble_bounds(2)]

lemma htoi_hexchars:
  "char_of (nat (htoi (hexchars ! (uchar c div 16)) (hexchars ! (uchar c mod 16)) mod 256)) = c"
proof -
  have "htoi (hexchars ! (uchar c div 16)) (hexchars ! (uchar c mod 16)) = int (uchar c)"
    using nibbles [of c] div_mult_mod_eq [of "uchar c" 16]
    unfolding htoi_def by (metis of_nat_add of_nat_mult of_nat_numeral)
  then show ?thesis using uchar_less_256 [of c] by (simp add: uchar_def flip: zmod_int)
qed

lemma percent_encoded: "must_encode skip (CHR ''%'')"
  by code_simp

lemma raw_url_decode_loop_encode:
  "raw_url_decode_loop (raw_url_encode s skip @ tail) (length (raw_url_encode s skip)) = Some s"
proof (induction s)
  case (Cons c s)
  show ?case
  proof (cases "must_encode skip c")
    case True
    then show ?thesis
      using Cons nibbles [of c] by (simp add: htoi_hexchars)
  next
    case False
    then have "c \<noteq> CHR ''%''" using percent_encoded by blast
    then have "raw_url_decode_loop (c # t) (Suc n) = map_option ((#) c) (raw_url_decode_loop t n)" for t n
      by (cases t rule: remdups_adj.cases) auto
    then show ?thesis using False Cons by simp
  qed
qed simp

text \<open>Any text in front of the encoded one that needs no decoding stays.\<close>

lemma raw_url_decode_loop_plain:
  "CHR ''%'' \<notin> set p \<Longrightarrow>
   raw_url_decode_loop (p @ t) (length p + n) = map_option ((@) p) (raw_url_decode_loop t n)"
proof (induction p)
  case (Cons c p)
  then have "raw_url_decode_loop (c # u) (Suc n) = map_option ((#) c) (raw_url_decode_loop u n)" for u n
    by (cases u rule: remdups_adj.cases) auto
  then show ?case using Cons by (cases "raw_url_decode_loop t n") auto
qed (cases "raw_url_decode_loop t n"; simp)

lemma hexchars_clean: "n < 16 \<Longrightarrow> hexchars ! n \<noteq> CHR 0x5C"
  using hex_value_hexchars [of n] by (auto simp: hex_value_def isxdigit_def isdigit_def uchar_def)

lemma length_raw_url_encode: "length s \<le> length (raw_url_encode s skip)"
  by (induction s) auto

lemma no_backslash_encoded: "CHR 0x5C \<notin> set s \<Longrightarrow> CHR 0x5C \<notin> set (raw_url_encode s skip)"
proof (induction s)
  case (Cons c s)
  then show ?case using hexchars_clean [OF nibble_bounds(1), of c] hexchars_clean [OF nibble_bounds(2), of c] by auto
qed simp


lemma raw_url_decode_encoded:
  assumes "CHR ''%'' \<notin> set p"
  shows "\<exists>tail. raw_url_decode ((p @ raw_url_encode s skip) @ [nul]) (length (p @ raw_url_encode s skip)) =
    Some (p @ s @ nul # tail, length p + length s) \<and>
    length tail = length (raw_url_encode s skip) - length s"
  using raw_url_decode_loop_plain [OF assms, of "raw_url_encode s skip @ [nul]" "length (raw_url_encode s skip)"]
    length_raw_url_encode [of s skip]
  by (simp add: raw_url_decode_def raw_url_decode_loop_encode)

lemma path_to_url_absolute:
  assumes "s \<noteq> []" and "hd s = CHR ''/''" and "length s = 1 \<or> s ! 1 \<noteq> CHR ''/''" and "CHR 0x5C \<notin> set s"
  shows "path_to_url getcwd virtual_file_ex s = Some (''file://'' @ raw_url_encode s True)"
proof -
  obtain t where t: "s = CHR ''/'' # t" using assms(1,2) by (cases s) auto
  have c1: "(t @ [nul]) ! 0 \<noteq> CHR ''/''" "(t @ [nul]) ! 0 \<noteq> CHR 0x5C"
    using assms(3,4) t by (cases t; auto simp: nul_def)+
  have "strncmp s ''phar://'' 7 \<noteq> 0"
    by (simp add: t strncmp_def uchar_def)
  moreover have "map (\<lambda>c. if c = CHR 0x5C then CHR ''/'' else c) (raw_url_encode s True) = raw_url_encode s True"
    using no_backslash_encoded [OF assms(4), of True] by (intro map_idI) auto
  ultimately show ?thesis using c1 by (simp add: path_to_url_def byte_at_def t Let_def)
qed

text \<open>Decoding an encoded text gives it back, for every byte string, whether or not slashes are left
  alone; the bytes of the buffer behind the result are leftovers of the longer encoded text.\<close>

lemma url_decode_encode:
  "\<exists>tail. raw_url_decode (raw_url_encode s skip @ [nul]) (length (raw_url_encode s skip)) =
    Some (s @ nul # tail, length s)"
  using raw_url_decode_encoded [of "[]" s skip] by auto

section \<open>Properties\<close>

text \<open>C23: a path that starts with one slash, not two, and has no backslash and no zero byte gives a \<open>file://\<close> URL.
  Read back, the URL gives the path itself, but for two cases: for the root directory \<open>/\<close> the code reads behind its
  buffer, and a path with a colon as its third character loses its leading slash, because it is taken for a
  Windows drive.\<close>

theorem path_url_roundtrip:
  assumes "s \<noteq> []" and "hd s = CHR ''/''" and "length s = 1 \<or> s ! 1 \<noteq> CHR ''/''"
    and "CHR 0x5C \<notin> set s" and "nul \<notin> set s"
  shows "\<exists>url. path_to_url getcwd virtual_file_ex s = Some url \<and>
    path_from_url url =
      (if length s = 1 then None
       else if 2 < length s \<and> s ! 2 = CHR '':'' then Some (tl s)
       else Some s)"
proof -
  obtain t where t: "s = CHR ''/'' # t" using assms(1,2) by (cases s) auto
  obtain tail where tail: "raw_url_decode ((''file://'' @ raw_url_encode s True) @ [nul])
      (length (''file://'' @ raw_url_encode s True)) = Some (''file://'' @ s @ nul # tail, 7 + length s)"
    "length tail = length (raw_url_encode s True) - length s"
    using raw_url_decode_encoded [of "''file://''" s True] by auto
  have cut: "cstr (u @ nul # v) = u" if "set u \<subseteq> set (''file://'' @ s)" for u v
    using that assms(5) by (intro cstr_append_nul) (auto simp: nul_def)
  have "strstr ''file://'' (''file://'' @ s) 0 = Some 0" by simp
  then have p: "path_from_url (''file://'' @ raw_url_encode s True) =
      map_option (\<lambda>c2. cstr (if c2 = CHR '':'' then drop 1 (s @ nul # tail) else s @ nul # tail))
        (byte_at (s @ nul # tail) 2)"
    using tail(1) cut [of "''file://'' @ s" tail] t
    by (simp add: path_from_url_def byte_at_def Let_def)
  show ?thesis
  proof (cases t)
    case Nil
    then have "tail = []" using tail(2) t by (simp add: must_encode_def uchar_def)
    then show ?thesis using p t Nil path_to_url_absolute [OF assms(1-4)] by (simp add: byte_at_def)
  next
    case (Cons a t')
    then have "byte_at (s @ nul # tail) 2 = Some (case t' of [] \<Rightarrow> nul | b # _ \<Rightarrow> b)"
      using t by (cases t') (auto simp: byte_at_def)
    then show ?thesis
      using p t Cons path_to_url_absolute [OF assms(1-4)] cut [of s tail] cut [of t tail]
      by (cases t') (auto simp: nul_def)
  qed
qed

theorem path_url_roundtrip_witness:
  "(\<exists>url. path_to_url None (\<lambda>_ _. None) ''/a b.php'' = Some url \<and> path_from_url url = Some ''/a b.php'') \<and>
   (\<exists>url. path_to_url None (\<lambda>_ _. None) ''/'' = Some url \<and> path_from_url url = None) \<and>
   (\<exists>url. path_to_url None (\<lambda>_ _. None) ''/c:/x'' = Some url \<and> path_from_url url = Some ''c:/x'')"
  using path_url_roundtrip [of "''/a b.php''" None "\<lambda>_ _. None"] path_url_roundtrip [of "''/''" None "\<lambda>_ _. None"]
    path_url_roundtrip [of "''/c:/x''" None "\<lambda>_ _. None"]
  by (simp add: nul_def)

end
