(* ===== verification/Crc.thy ===== *)
theory Crc
  imports Prelude
begin

unbundle bit_operations_syntax

text \<open>
  The checksum of \<open>usefulstuff.c\<close>: the table and the byte step of \<open>usefulstuff.h\<close>. The reference is the
  cyclic redundancy check that shifts one bit at a time; the theorems say that the two agree.
\<close>

section \<open>The code\<close>

definition xdebug_crc32tab :: "u32 list" where
  "xdebug_crc32tab = [
     0, 0x77073096, 0xEE0E612C, 0x990951BA, 0x76DC419, 0x706AF48F, 0xE963A535, 0x9E6495A3,
     0xEDB8832, 0x79DCB8A4, 0xE0D5E91E, 0x97D2D988, 0x9B64C2B, 0x7EB17CBD, 0xE7B82D07, 0x90BF1D91,
     0x1DB71064, 0x6AB020F2, 0xF3B97148, 0x84BE41DE, 0x1ADAD47D, 0x6DDDE4EB, 0xF4D4B551, 0x83D385C7,
     0x136C9856, 0x646BA8C0, 0xFD62F97A, 0x8A65C9EC, 0x14015C4F, 0x63066CD9, 0xFA0F3D63, 0x8D080DF5,
     0x3B6E20C8, 0x4C69105E, 0xD56041E4, 0xA2677172, 0x3C03E4D1, 0x4B04D447, 0xD20D85FD, 0xA50AB56B,
     0x35B5A8FA, 0x42B2986C, 0xDBBBC9D6, 0xACBCF940, 0x32D86CE3, 0x45DF5C75, 0xDCD60DCF, 0xABD13D59,
     0x26D930AC, 0x51DE003A, 0xC8D75180, 0xBFD06116, 0x21B4F4B5, 0x56B3C423, 0xCFBA9599, 0xB8BDA50F,
     0x2802B89E, 0x5F058808, 0xC60CD9B2, 0xB10BE924, 0x2F6F7C87, 0x58684C11, 0xC1611DAB, 0xB6662D3D,
     0x76DC4190, 0x1DB7106, 0x98D220BC, 0xEFD5102A, 0x71B18589, 0x6B6B51F, 0x9FBFE4A5, 0xE8B8D433,
     0x7807C9A2, 0xF00F934, 0x9609A88E, 0xE10E9818, 0x7F6A0DBB, 0x86D3D2D, 0x91646C97, 0xE6635C01,
     0x6B6B51F4, 0x1C6C6162, 0x856530D8, 0xF262004E, 0x6C0695ED, 0x1B01A57B, 0x8208F4C1, 0xF50FC457,
     0x65B0D9C6, 0x12B7E950, 0x8BBEB8EA, 0xFCB9887C, 0x62DD1DDF, 0x15DA2D49, 0x8CD37CF3, 0xFBD44C65,
     0x4DB26158, 0x3AB551CE, 0xA3BC0074, 0xD4BB30E2, 0x4ADFA541, 0x3DD895D7, 0xA4D1C46D, 0xD3D6F4FB,
     0x4369E96A, 0x346ED9FC, 0xAD678846, 0xDA60B8D0, 0x44042D73, 0x33031DE5, 0xAA0A4C5F, 0xDD0D7CC9,
     0x5005713C, 0x270241AA, 0xBE0B1010, 0xC90C2086, 0x5768B525, 0x206F85B3, 0xB966D409, 0xCE61E49F,
     0x5EDEF90E, 0x29D9C998, 0xB0D09822, 0xC7D7A8B4, 0x59B33D17, 0x2EB40D81, 0xB7BD5C3B, 0xC0BA6CAD,
     0xEDB88320, 0x9ABFB3B6, 0x3B6E20C, 0x74B1D29A, 0xEAD54739, 0x9DD277AF, 0x4DB2615, 0x73DC1683,
     0xE3630B12, 0x94643B84, 0xD6D6A3E, 0x7A6A5AA8, 0xE40ECF0B, 0x9309FF9D, 0xA00AE27, 0x7D079EB1,
     0xF00F9344, 0x8708A3D2, 0x1E01F268, 0x6906C2FE, 0xF762575D, 0x806567CB, 0x196C3671, 0x6E6B06E7,
     0xFED41B76, 0x89D32BE0, 0x10DA7A5A, 0x67DD4ACC, 0xF9B9DF6F, 0x8EBEEFF9, 0x17B7BE43, 0x60B08ED5,
     0xD6D6A3E8, 0xA1D1937E, 0x38D8C2C4, 0x4FDFF252, 0xD1BB67F1, 0xA6BC5767, 0x3FB506DD, 0x48B2364B,
     0xD80D2BDA, 0xAF0A1B4C, 0x36034AF6, 0x41047A60, 0xDF60EFC3, 0xA867DF55, 0x316E8EEF, 0x4669BE79,
     0xCB61B38C, 0xBC66831A, 0x256FD2A0, 0x5268E236, 0xCC0C7795, 0xBB0B4703, 0x220216B9, 0x5505262F,
     0xC5BA3BBE, 0xB2BD0B28, 0x2BB45A92, 0x5CB36A04, 0xC2D7FFA7, 0xB5D0CF31, 0x2CD99E8B, 0x5BDEAE1D,
     0x9B64C2B0, 0xEC63F226, 0x756AA39C, 0x26D930A, 0x9C0906A9, 0xEB0E363F, 0x72076785, 0x5005713,
     0x95BF4A82, 0xE2B87A14, 0x7BB12BAE, 0xCB61B38, 0x92D28E9B, 0xE5D5BE0D, 0x7CDCEFB7, 0xBDBDF21,
     0x86D3D2D4, 0xF1D4E242, 0x68DDB3F8, 0x1FDA836E, 0x81BE16CD, 0xF6B9265B, 0x6FB077E1, 0x18B74777,
     0x88085AE6, 0xFF0F6A70, 0x66063BCA, 0x11010B5C, 0x8F659EFF, 0xF862AE69, 0x616BFFD3, 0x166CCF45,
     0xA00AE278, 0xD70DD2EE, 0x4E048354, 0x3903B3C2, 0xA7672661, 0xD06016F7, 0x4969474D, 0x3E6E77DB,
     0xAED16A4A, 0xD9D65ADC, 0x40DF0B66, 0x37D83BF0, 0xA9BCAE53, 0xDEBB9EC5, 0x47B2CF7F, 0x30B5FFE9,
     0xBDBDF21C, 0xCABAC28A, 0x53B39330, 0x24B4A3A6, 0xBAD03605, 0xCDD70693, 0x54DE5729, 0x23D967BF,
     0xB3667A2E, 0xC4614AB8, 0x5D681B02, 0x2A6F2B94, 0xB40BBE37, 0xC30C8EA1, 0x5A05DF1B, 0x2D02EF8D]"

text \<open>A \<open>char\<close> is sign extended before it meets the checksum.\<close>

definition XDEBUG_CRC32 :: "u32 \<Rightarrow> char \<Rightarrow> u32" where
  "XDEBUG_CRC32 crc ch = drop_bit 8 crc XOR xdebug_crc32tab ! unat ((crc XOR word_of_int (schar ch)) AND 0xFF)"

text \<open>The result is a \<open>long\<close>, which holds every \<open>unsigned int\<close>.\<close>

definition xdebug_crc32 :: "string \<Rightarrow> int" where
  "xdebug_crc32 s = uint (NOT (foldl XDEBUG_CRC32 (NOT 0) s))"

section \<open>The reference\<close>

definition crc_bit :: "u32 \<Rightarrow> u32" where
  "crc_bit c = (if c AND 1 = 1 then 0xEDB88320 else 0) XOR drop_bit 1 c"

definition crc_byte :: "u32 \<Rightarrow> char \<Rightarrow> u32" where
  "crc_byte c ch = (crc_bit ^^ 8) (c XOR word_of_nat (uchar ch))"

definition crc32_ref :: "string \<Rightarrow> u32" where
  "crc32_ref s = NOT (foldl crc_byte (NOT 0) s)"

section \<open>The table\<close>

text \<open>The bit step on integers, which evaluates quickly.\<close>

definition crc_bit_int :: "int \<Rightarrow> int" where
  "crc_bit_int c = (if c mod 2 = 1 then 0xEDB88320 XOR (c div 2) else c div 2)"

lemma uint_crc_bit: "uint (crc_bit c) = crc_bit_int (uint c)"
proof -
  have "c AND 1 = 1 \<longleftrightarrow> uint c mod 2 = 1"
    by (metis and_one_eq one_word_def uint_and uint_1 word_uint_eq_iff)
  moreover have "uint (drop_bit 1 c) = uint c div 2"
    by (simp add: drop_bit_eq_div uint_div)
  ultimately show ?thesis
    unfolding crc_bit_def crc_bit_int_def by (auto simp: unsigned_xor_eq)
qed

lemma uint_crc_bits: "uint ((crc_bit ^^ n) c) = (crc_bit_int ^^ n) (uint c)"
  by (induction n) (simp_all add: uint_crc_bit)

lemma crc32tab_values: "map (\<lambda>n. (crc_bit_int ^^ 8) n) [0..255] = map uint xdebug_crc32tab"
  unfolding xdebug_crc32tab_def by code_simp

lemma crc32tab_entries:
  assumes "n < 256"
  shows "xdebug_crc32tab ! n = (crc_bit ^^ 8) (word_of_nat n)"
proof -
  have l: "length xdebug_crc32tab = 256" by (simp add: xdebug_crc32tab_def)
  have "map (\<lambda>n. (crc_bit_int ^^ 8) n) [0..255] ! n = (crc_bit_int ^^ 8) ([0..255] ! n)"
  proof (rule nth_map)
    have "length [0..255] = 256" by (simp only: length_upto)
    then show "n < length [0..255]" using assms by (simp only:)
  qed
  moreover have "[0..255] ! n = int n"
    using assms nth_upto [of 0 n 255] by linarith
  moreover have "map uint xdebug_crc32tab ! n = uint (xdebug_crc32tab ! n)"
    by (rule nth_map) (simp only: l assms)
  ultimately have "(crc_bit_int ^^ 8) (int n) = uint (xdebug_crc32tab ! n)"
    by (simp only: crc32tab_values)
  moreover have "uint (word_of_nat n :: u32) = int n"
    using assms by (simp add: unsigned_of_nat take_bit_nat_eq_self)
  ultimately show ?thesis by (metis uint_crc_bits word_uint_eq_iff)
qed

section \<open>Linearity\<close>

lemma crc_bit_xor: "crc_bit (a XOR b) = crc_bit a XOR crc_bit b"
proof -
  have "(x AND 1 = 1) = bit x 0" for x :: u32
    by (metis and_one_eq bit_0 odd_iff_mod_2_eq_one even_word_iff one_neq_zero)
  then show ?thesis
    unfolding crc_bit_def by (auto simp: bit_xor_iff drop_bit_xor xor.assoc xor.left_commute)
qed


lemma crc_bits_xor: "(crc_bit ^^ n) (a XOR b) = (crc_bit ^^ n) a XOR (crc_bit ^^ n) b"
  by (induction n) (simp_all add: crc_bit_xor)

text \<open>Bits beyond the first \<open>n\<close> only move.\<close>

lemma crc_bits_shift: "take_bit n c = 0 \<Longrightarrow> (crc_bit ^^ n) c = drop_bit n c"
proof (induction n arbitrary: c)
  case (Suc n)
  have b: "\<not> bit c i" if "i < Suc n" for i
    using Suc.prems that by (metis bit_take_bit_iff bit_0_eq bot_apply bot_bool_def)
  have "c AND 1 = 0" by (rule bit_eqI) (use b [of 0] in \<open>auto simp: bit_and_iff bit_1_iff intro: gr0I\<close>)
  then have "crc_bit c = drop_bit 1 c" by (simp add: crc_bit_def)
  moreover have "take_bit n (drop_bit 1 c) = 0"
    by (rule bit_eqI) (use b in \<open>auto simp: bit_take_bit_iff bit_drop_bit_eq\<close>)
  ultimately show ?case
    using Suc.IH [of "drop_bit 1 c"] by (simp add: funpow_swap1 del: funpow.simps(2)) (simp add: funpow_swap1)
qed simp

lemma crc_byte_split: "(crc_bit ^^ 8) c = drop_bit 8 c XOR xdebug_crc32tab ! unat (c AND 0xFF)"
proof -
  have m: "c AND 0xFF = take_bit 8 c" by (simp add: take_bit_eq_mask mask_eq_exp_minus_1)
  define h where "h = push_bit 8 (drop_bit 8 c)"
  have h: "take_bit 8 h = 0" "drop_bit 8 h = drop_bit 8 c" "h XOR take_bit 8 c = c"
    unfolding h_def
    by (rule bit_eqI; auto simp: bit_take_bit_iff bit_drop_bit_eq bit_push_bit_iff bit_xor_iff
        dest: bit_imp_le_length)+
  have "unat (c AND 0xFF) < 256"
    unfolding m by (simp add: unsigned_take_bit_eq) (use take_bit_nat_less_exp [of 8 "unat c"] in simp)
  then have "xdebug_crc32tab ! unat (c AND 0xFF) = (crc_bit ^^ 8) (take_bit 8 c)"
    using crc32tab_entries m by simp
  moreover have "(crc_bit ^^ 8) c = (crc_bit ^^ 8) h XOR (crc_bit ^^ 8) (take_bit 8 c)"
    using crc_bits_xor [of 8 h "take_bit 8 c"] h(3) by simp
  ultimately show ?thesis using crc_bits_shift [OF h(1)] h(2) by simp
qed

text \<open>Sign extension does not reach the low byte, and the byte does not reach the other bits.\<close>

lemma low_byte: "(c XOR word_of_int (schar ch)) AND 0xFF = (c XOR word_of_nat (uchar ch)) AND (0xFF :: u32)"
proof -
  have "take_bit 8 (word_of_int (schar ch) :: u32) = take_bit 8 (word_of_nat (uchar ch))"
  proof -
    have "take_bit 8 (schar ch) = take_bit 8 (int (uchar ch))"
      by (simp add: schar_def take_bit_eq_mod flip: mod_diff_left_eq)
    then have "take_bit 8 (word_of_int (schar ch) :: u32) = take_bit 8 (word_of_int (int (uchar ch)))"
      by (simp only: take_bit_of_int)
    then show ?thesis by simp
  qed
  then have "word_of_int (schar ch) AND (0xFF :: u32) = word_of_nat (uchar ch) AND 0xFF"
    by (simp add: take_bit_eq_mask mask_eq_exp_minus_1)
  then show ?thesis by (simp add: bit.conj_xor_distrib2)
qed

lemma high_bits: "drop_bit 8 (c XOR word_of_nat (uchar ch)) = drop_bit 8 (c :: u32)"
proof -
  have "drop_bit 8 (word_of_nat (uchar ch) :: u32) = 0"
  proof (rule bit_eqI)
    fix n
    have "uchar ch < 2 ^ (8 + n)"
    proof -
      have "(256 :: nat) \<le> 2 ^ (8 + n)" using power_increasing [of 8 "8 + n" "2 :: nat"] by simp
      then show ?thesis by (rule less_le_trans [OF uchar_less_256])
    qed
    then have "\<not> bit (uchar ch) (8 + n)" by (simp add: bit_iff_odd)
    then show "bit (drop_bit 8 (word_of_nat (uchar ch) :: u32)) n = bit 0 n"
      by (simp add: bit_drop_bit_eq bit_of_nat_iff)
  qed
  then show ?thesis by (simp add: drop_bit_xor)
qed

lemma XDEBUG_CRC32_byte: "XDEBUG_CRC32 c ch = crc_byte c ch"
  unfolding XDEBUG_CRC32_def crc_byte_def crc_byte_split low_byte high_bits ..

section \<open>Properties\<close>

text \<open>C24: the table driven checksum is the bitwise cyclic redundancy check, for every text, and its result
  fits 32 bits.\<close>

theorem crc32_bitwise:
  "xdebug_crc32 s = uint (crc32_ref s) \<and> 0 \<le> xdebug_crc32 s \<and> xdebug_crc32 s < 2 ^ 32"
proof -
  have "XDEBUG_CRC32 = crc_byte" by (intro ext) (rule XDEBUG_CRC32_byte)
  then show ?thesis
    using uint_lt2p [of "crc32_ref s"] by (simp add: xdebug_crc32_def crc32_ref_def)
qed

end
