(* ===== verification/OutputName.thy ===== *)
theory OutputName
  imports Text Crc
begin

text \<open>
  The names of output files and links, the third part of \<open>usefulstuff.c\<close>: three functions that walk over
  a format with \<open>%\<close> specifiers. What a specifier reads of the process and the request at the \<open>k\<close>-th
  character handled is the record \<open>env k\<close>. \<open>None\<close> is a read outside a string or of a value that is no
  string as if it were one.
\<close>

section \<open>The environment\<close>

text \<open>A value of a superglobal array; \<open>ZOther\<close> is anything but a string, e.g. an array made by a request
  with \<open>name[]=value\<close>.\<close>

datatype zval = ZString string | ZOther

record name_env =
  env_cwd :: "string option"
  env_pid :: int
  env_random :: nat
  env_time :: int
  env_utime :: string
  env_server :: "(string \<Rightarrow> zval option) option"
  env_cookies :: "(string \<Rightarrow> zval option) option"
  env_session_name :: "string option"

section \<open>Replacing characters\<close>

definition replace_chars :: "char set \<Rightarrow> string \<Rightarrow> string" where
  "replace_chars cs s = map (\<lambda>c. if c \<in> cs then CHR ''_'' else c) s"

text \<open>\<open>strrchr\<close> and writing an underscore at the place found.\<close>

definition replace_last :: "char \<Rightarrow> string \<Rightarrow> string" where
  "replace_last d s =
     (if d \<in> set s
      then rev (takeWhile (\<lambda>c. c \<noteq> d) (rev s) @ CHR ''_'' # tl (dropWhile (\<lambda>c. c \<noteq> d) (rev s)))
      else s)"

text \<open>\<open>%06x\<close> for a number below \<open>2 ^ 32\<close>.\<close>

fun hex :: "nat \<Rightarrow> string" where
  "hex n = (if n < 16 then [''0123456789abcdef'' ! n] else hex (n div 16) @ [''0123456789abcdef'' ! (n mod 16)])"

declare hex.simps [simp del]

definition hex6 :: "nat \<Rightarrow> string" where
  "hex6 n = replicate (6 - length (hex n)) (CHR ''0'') @ hex n"

section \<open>Walking over a format\<close>

text \<open>The loop the three functions share: \<open>spec k c\<close> is the body of the \<open>switch\<close> for the specifier \<open>c\<close>. A
  percent sign at the end moves the pointer behind the terminating zero.\<close>

fun format_walk :: "char \<Rightarrow> (nat \<Rightarrow> char \<Rightarrow> xstr \<Rightarrow> xstr option) \<Rightarrow> nat \<Rightarrow> string \<Rightarrow> xstr \<Rightarrow> xstr option" where
  "format_walk junk spec k [] fname = Some fname"
| "format_walk junk spec k [c] fname =
     (if c \<noteq> CHR ''%'' then str_addl junk [c] 1 fname else None)"
| "format_walk junk spec k (c # c' # format) fname =
     (if c \<noteq> CHR ''%''
      then do {
        fname \<leftarrow> str_addl junk (c # c' # format) 1 fname;
        format_walk junk spec (k + 1) (c' # format) fname
      }
      else do {
        fname \<leftarrow> spec k c' fname;
        format_walk junk spec (k + 1) format fname
      })"

definition output_spec ::
  "char \<Rightarrow> (nat \<Rightarrow> name_env) \<Rightarrow> string option \<Rightarrow> nat \<Rightarrow> char \<Rightarrow> xstr \<Rightarrow> xstr option" where
  "output_spec junk env script_name k c fname =
     (if c = CHR ''c'' then
        (case env_cwd (env k) of
           None \<Rightarrow> Some fname
         | Some cwd \<Rightarrow> str_add junk (dec (nat (xdebug_crc32 cwd))) fname)
      else if c = CHR ''p'' then str_add junk (dec_int (env_pid (env k))) fname
      else if c = CHR ''r'' then str_add junk (hex6 (env_random (env k))) fname
      else if c = CHR ''s'' then
        (case script_name of
           None \<Rightarrow> Some fname
         | Some script_name \<Rightarrow>
             str_add junk (replace_last (CHR ''.'') (replace_chars (set (CHR 0x5C # ''/: '')) script_name)) fname)
      else if c = CHR ''t'' then str_add junk (dec_int (env_time (env k))) fname
      else if c = CHR ''u'' then str_add junk (replace_last (CHR ''.'') (env_utime (env k))) fname
      else if c = CHR ''H'' \<or> c = CHR ''U'' \<or> c = CHR ''R'' then
        (case env_server (env k) of
           None \<Rightarrow> Some fname
         | Some server \<Rightarrow>
             (case server (if c = CHR ''H'' then ''HTTP_HOST''
                           else if c = CHR ''R'' then ''REQUEST_URI'' else ''UNIQUE_ID'') of
                None \<Rightarrow> Some fname
              | Some ZOther \<Rightarrow> None
              | Some (ZString s) \<Rightarrow>
                  str_add junk (replace_chars (set (CHR 0x5C # CHR 0x22 # ''/.?&+:*<>| '')) (cstr s)) fname))
      else if c = CHR ''S'' then
        (case env_session_name (env k) of
           None \<Rightarrow> Some fname
         | Some sess_name \<Rightarrow>
             (case env_cookies (env k) of
                None \<Rightarrow> Some fname
              | Some cookies \<Rightarrow>
                  (case cookies sess_name of
                     None \<Rightarrow> Some fname
                   | Some ZOther \<Rightarrow> None
                   | Some (ZString s) \<Rightarrow>
                       if length s < 100
                       then str_add junk (replace_chars (set (CHR 0x5C # ''/.?&+ '')) (cstr s)) fname
                       else Some fname)))
      else if c = CHR ''%'' then str_addl junk ''%'' 1 fname
      else Some fname)"

definition format_output_filename ::
  "char \<Rightarrow> (nat \<Rightarrow> name_env) \<Rightarrow> string \<Rightarrow> string option \<Rightarrow> xstr option" where
  "format_output_filename junk env format script_name =
     format_walk junk (output_spec junk env script_name) 0 format str_new"

definition link_spec :: "char \<Rightarrow> string \<Rightarrow> int \<Rightarrow> nat \<Rightarrow> char \<Rightarrow> xstr \<Rightarrow> xstr option" where
  "link_spec junk error_filename error_lineno k c fname =
     (if c = CHR ''f'' then str_add junk error_filename fname
      else if c = CHR ''l'' then str_add junk (dec_int error_lineno) fname
      else if c = CHR ''%'' then str_addl junk ''%'' 1 fname
      else Some fname)"

definition format_file_link :: "char \<Rightarrow> string \<Rightarrow> string \<Rightarrow> int \<Rightarrow> xstr option" where
  "format_file_link junk file_link_format error_filename error_lineno =
     format_walk junk (link_spec junk error_filename error_lineno) 0 file_link_format str_new"

text \<open>The separator PHP uses on Unix.\<close>

definition DEFAULT_SLASH :: char where "DEFAULT_SLASH = CHR ''/''"

text \<open>What \<open>%s\<close> prints of a growing string: the text up to the first zero; NULL cannot occur here.\<close>

definition str_text :: "xstr \<Rightarrow> string" where
  "str_text xs = (case str_d xs of None \<Rightarrow> [] | Some b \<Rightarrow> cstr b)"

definition filename_spec ::
  "char \<Rightarrow> string \<Rightarrow> xstr \<Rightarrow> xstr \<Rightarrow> string \<Rightarrow> nat \<Rightarrow> char \<Rightarrow> xstr \<Rightarrow> xstr option" where
  "filename_spec junk name parent ancester full k c fname =
     (if c = CHR ''n'' then str_add junk name fname
      else if c = CHR ''p'' then str_add junk (str_text parent) fname
      else if c = CHR ''a'' then str_add junk (str_text ancester) fname
      else if c = CHR ''f'' then str_add junk full fname
      else if c = CHR ''s'' then str_add junk [DEFAULT_SLASH] fname
      else if c = CHR ''%'' then str_addl junk ''%'' 1 fname
      else Some fname)"

definition format_filename :: "char \<Rightarrow> string option \<Rightarrow> string \<Rightarrow> string \<Rightarrow> xstr option" where
  "format_filename junk fmt default_fmt filename =
     (let slash = [DEFAULT_SLASH];
          format = (case fmt of None \<Rightarrow> default_fmt | Some f \<Rightarrow> if f \<noteq> [] then f else default_fmt)
      in do {
        parts \<leftarrow> explode slash filename [] (- 1);
        let c = int (length parts); name = last parts in do {
          parent \<leftarrow> (if c > 1 then join junk slash parts (c - 2) (c - 1) else str_create_from_char junk name);
          ancester \<leftarrow> (if c > 2 then join junk slash parts (c - 3) (c - 1) else str_copy junk parent);
          format_walk junk (filename_spec junk name parent ancester filename) 0 format str_new
        }
      })"


section \<open>The text of a format\<close>

text \<open>What a format stands for when the specifier \<open>c\<close> at step \<open>k\<close> stands for \<open>piece k c\<close>; \<open>None\<close> is a
  fault of the code.\<close>

fun expand :: "(nat \<Rightarrow> char \<Rightarrow> string option) \<Rightarrow> nat \<Rightarrow> string \<Rightarrow> string option" where
  "expand piece k [] = Some []"
| "expand piece k [c] = (if c \<noteq> CHR ''%'' then Some [c] else None)"
| "expand piece k (c # c' # format) =
     (if c \<noteq> CHR ''%'' then map_option ((#) c) (expand piece (k + 1) (c' # format))
      else do {
        p \<leftarrow> piece k c';
        r \<leftarrow> expand piece (k + 1) format;
        Some (p @ r)
      })"

lemma expand_trailing_percent: "CHR ''%'' \<notin> set f \<Longrightarrow> expand piece k (f @ ''%'') = None"
proof (induction f arbitrary: k)
  case (Cons c f)
  then show ?case by (cases f) auto
qed simp

text \<open>Characters that no piece has come from the format.\<close>

lemma expand_chars:
  assumes "\<And>k c p. piece k c = Some p \<Longrightarrow> set p \<inter> bad = {}"
  shows "expand piece k format = Some t \<Longrightarrow> set t \<inter> bad \<subseteq> set format"
proof (induction "length format" arbitrary: k format t rule: less_induct)
  case less
  consider (nil) "format = []" | (one) c where "format = [c]"
    | (plain) c c' f where "format = c # c' # f" "c \<noteq> CHR ''%''"
    | (spec) c' f where "format = CHR ''%'' # c' # f"
    by (cases format rule: remdups_adj.cases) blast+
  then show ?case
  proof cases
    case plain
    then obtain t' where "expand piece (k + 1) (c' # f) = Some t'" "t = c # t'"
      using less.prems by auto
    then show ?thesis using less.hyps [of "c' # f" "k + 1" t'] plain by auto
  next
    case spec
    then obtain p t' where "piece k c' = Some p" "expand piece (k + 1) f = Some t'" "t = p @ t'"
      using less.prems by (auto split: Option.bind_splits)
    then show ?thesis using less.hyps [of f "k + 1" t'] assms spec by fastforce
  qed (use less.prems in \<open>auto split: if_splits\<close>)
qed

text \<open>The contract of a \<open>switch\<close> over the specifiers.\<close>

locale format_spec =
  fixes spec :: "nat \<Rightarrow> char \<Rightarrow> xstr \<Rightarrow> xstr option"
    and piece :: "nat \<Rightarrow> char \<Rightarrow> string option"
  assumes spec_None: "piece k c = None \<Longrightarrow> spec k c fname = None"
    and spec_Some: "piece k c = Some p \<Longrightarrow> length p < 2 ^ 31 \<Longrightarrow> str_wf fname \<Longrightarrow>
      \<exists>fname'. spec k c fname = Some fname' \<and> str_wf fname' \<and> content fname' = content fname @ p"
begin

lemma walk_exact:
  assumes "\<And>k c p. piece k c = Some p \<Longrightarrow> length p < 2 ^ 31"
  shows "str_wf fname \<Longrightarrow>
    (case expand piece k format of
      None \<Rightarrow> format_walk junk spec k format fname = None
    | Some t \<Rightarrow> \<exists>r. format_walk junk spec k format fname = Some r \<and> str_wf r \<and> content r = content fname @ t)"
proof (induction "length format" arbitrary: k format fname rule: less_induct)
  case less
  consider (nil) "format = []" | (one) c where "format = [c]"
    | (plain) c c' f where "format = c # c' # f" "c \<noteq> CHR ''%''"
    | (spec) c' f where "format = CHR ''%'' # c' # f"
    by (cases format rule: remdups_adj.cases) blast+
  then show ?case
  proof cases
    case nil
    then show ?thesis using less.prems by simp
  next
    case one
    then show ?thesis using str_addl_ok [OF less.prems, of 1 "[c]" junk] by auto
  next
    case plain
    obtain x where x: "str_addl junk format 1 fname = Some x" "str_wf x" "content x = content fname @ [c]"
      using str_addl_ok [OF less.prems, of 1 format junk] plain by auto
    show ?thesis using less.hyps [of "c' # f" x "k + 1"] plain x by (auto split: option.splits)
  next
    case spec
    show ?thesis
    proof (cases "piece k c'")
      case None
      then show ?thesis using spec spec_None by simp
    next
      case (Some p)
      obtain x where x: "spec k c' fname = Some x" "str_wf x" "content x = content fname @ p"
        using spec_Some [OF Some assms [OF Some] less.prems] by blast
      show ?thesis using less.hyps [of f x "k + 1"] spec x Some by (auto split: option.splits)
    qed
  qed
qed

end

section \<open>The pieces\<close>

definition output_piece :: "(nat \<Rightarrow> name_env) \<Rightarrow> string option \<Rightarrow> nat \<Rightarrow> char \<Rightarrow> string option" where
  "output_piece env script_name k c =
     (if c = CHR ''c'' then Some (case env_cwd (env k) of None \<Rightarrow> [] | Some cwd \<Rightarrow> dec (nat (xdebug_crc32 cwd)))
      else if c = CHR ''p'' then Some (dec_int (env_pid (env k)))
      else if c = CHR ''r'' then Some (hex6 (env_random (env k)))
      else if c = CHR ''s'' then
        Some (case script_name of
                None \<Rightarrow> []
              | Some s \<Rightarrow> replace_last (CHR ''.'') (replace_chars (set (CHR 0x5C # ''/: '')) s))
      else if c = CHR ''t'' then Some (dec_int (env_time (env k)))
      else if c = CHR ''u'' then Some (replace_last (CHR ''.'') (env_utime (env k)))
      else if c = CHR ''H'' \<or> c = CHR ''U'' \<or> c = CHR ''R'' then
        (case Option.bind (env_server (env k)) (\<lambda>server. server (if c = CHR ''H'' then ''HTTP_HOST''
                           else if c = CHR ''R'' then ''REQUEST_URI'' else ''UNIQUE_ID'')) of
           None \<Rightarrow> Some []
         | Some ZOther \<Rightarrow> None
         | Some (ZString s) \<Rightarrow> Some (replace_chars (set (CHR 0x5C # CHR 0x22 # ''/.?&+:*<>| '')) (cstr s)))
      else if c = CHR ''S'' then
        (case Option.bind (env_session_name (env k)) (\<lambda>n. Option.bind (env_cookies (env k)) (\<lambda>cookies. cookies n)) of
           None \<Rightarrow> Some []
         | Some ZOther \<Rightarrow> None
         | Some (ZString s) \<Rightarrow>
             Some (if length s < 100 then replace_chars (set (CHR 0x5C # ''/.?&+ '')) (cstr s) else []))
      else if c = CHR ''%'' then Some ''%''
      else Some [])"

interpretation outname: format_spec "output_spec junk env script_name" "output_piece env script_name"
  for junk env script_name
proof
  fix k c and fname :: xstr
  show "output_piece env script_name k c = None \<Longrightarrow> output_spec junk env script_name k c fname = None"
    unfolding output_piece_def output_spec_def
    by (auto split: if_splits option.splits zval.splits Option.bind_splits)
  fix p
  assume p: "output_piece env script_name k c = Some p" "length p < 2 ^ 31" and wf: "str_wf fname"
  show "\<exists>fname'. output_spec junk env script_name k c fname = Some fname' \<and> str_wf fname' \<and>
      content fname' = content fname @ p"
    using p str_add_ok [OF wf, of _ junk] str_addl_ok [OF wf, of 1 "''%''" junk] wf
    unfolding output_piece_def output_spec_def
    by (auto split: if_splits option.splits zval.splits Option.bind_splits)
qed


definition link_piece :: "string \<Rightarrow> int \<Rightarrow> nat \<Rightarrow> char \<Rightarrow> string option" where
  "link_piece error_filename error_lineno k c =
     Some (if c = CHR ''f'' then error_filename
           else if c = CHR ''l'' then dec_int error_lineno
           else if c = CHR ''%'' then ''%'' else [])"

interpretation linkname: format_spec "link_spec junk error_filename error_lineno" "link_piece error_filename error_lineno"
  for junk error_filename error_lineno
proof
  fix k c p and fname :: xstr
  assume "link_piece error_filename error_lineno k c = Some p" "length p < 2 ^ 31" and wf: "str_wf fname"
  then show "\<exists>fname'. link_spec junk error_filename error_lineno k c fname = Some fname' \<and> str_wf fname' \<and>
      content fname' = content fname @ p"
    using str_add_ok [OF wf, of _ junk] str_addl_ok [OF wf, of 1 "''%''" junk]
    unfolding link_piece_def link_spec_def by (auto split: if_splits)
qed (simp add: link_piece_def)

text \<open>The pieces of a file name: its last component, its last two and its last three.\<close>

definition slash_join :: "string list \<Rightarrow> string" where
  "slash_join ps = concat (map (\<lambda>a. a @ [DEFAULT_SLASH]) (butlast ps)) @ last ps"

definition filename_piece :: "string \<Rightarrow> nat \<Rightarrow> char \<Rightarrow> string option" where
  "filename_piece full k c =
     (let cs = split_fields DEFAULT_SLASH full
      in Some (if c = CHR ''n'' then last cs
               else if c = CHR ''p'' then slash_join (drop (length cs - 2) cs)
               else if c = CHR ''a'' then slash_join (drop (length cs - 3) cs)
               else if c = CHR ''f'' then full
               else if c = CHR ''s'' then [DEFAULT_SLASH]
               else if c = CHR ''%'' then ''%'' else []))"

lemma str_text_content:
  assumes "str_wf xs" and "nul \<notin> set (content xs)"
  shows "str_text xs = content xs"
proof (cases "str_d xs")
  case (Some b)
  define n where "n = nat (str_l xs)"
  have n: "n < length b" "b ! n = nul" "content xs = take n b"
    using assms(1) Some by (auto simp: str_wf_def content_def n_def)
  then have "b = content xs @ nul # drop (Suc n) b" by (metis id_take_nth_drop)
  then show ?thesis
    using Some cstr_append_nul [OF assms(2)] unfolding str_text_def by (metis option.simps(5))
qed (simp add: str_text_def content_def)

lemma explode_fields: "explode [d] s [] (- 1) = Some (split_fields d s)"
proof -
  obtain ps rest where e: "explode [d] s [] (- 1) = Some (ps @ [rest])"
    "concat (map (\<lambda>a. a @ [d]) ps) @ rest = s" "\<forall>a\<in>set ps. \<not> sublist [d] a" "\<not> sublist [d] rest"
    using explode_ok [of "[d]" s "[]" "- 1"] by auto
  have sub: "sublist [d] a \<longleftrightarrow> d \<in> set a" for a
    by (simp add: sublist_def in_set_conv_decomp)
  have "split_fields d (concat (map (\<lambda>a. a @ [d]) ps) @ rest) = ps @ [rest]"
    using e(3,4) unfolding sub by (induction ps) (auto simp: split_fields_none split_fields_append)
  then show ?thesis using e by simp
qed

lemma slash_join_fields: "slash_join (split_fields DEFAULT_SLASH s) = s"
proof -
  obtain ps rest where "explode [DEFAULT_SLASH] s [] (- 1) = Some (ps @ [rest])"
    "concat (map (\<lambda>a. a @ [DEFAULT_SLASH]) ps) @ rest = s"
    using explode_ok [of "[DEFAULT_SLASH]" s "[]" "- 1"] by auto
  then show ?thesis by (simp add: explode_fields slash_join_def)
qed

lemma suffix_slash_join: "k < length cs \<Longrightarrow> suffix (slash_join (drop k cs)) (slash_join cs)"
proof -
  assume k: "k < length cs"
  have "butlast cs = take k cs @ butlast (drop k cs)"
    using k by (metis append_take_drop_id butlast_append drop_eq_Nil linorder_not_le)
  then have "slash_join cs = concat (map (\<lambda>a. a @ [DEFAULT_SLASH]) (take k cs)) @ slash_join (drop k cs)"
    using k by (simp add: slash_join_def)
  then show ?thesis by (simp add: suffix_def)
qed

lemma fields_parts:
  assumes "cs = split_fields DEFAULT_SLASH s" and "k < length cs"
  shows "set (slash_join (drop k cs)) \<subseteq> set s \<and> length (slash_join (drop k cs)) \<le> length s"
  using suffix_slash_join [OF assms(2)] assms(1) slash_join_fields [of s]
  by (auto dest: set_mono_suffix suffix_length_le)

lemma field_length:
  assumes "a \<in> set (split_fields DEFAULT_SLASH s)"
  shows "length a \<le> length s"
proof -
  obtain i where i: "i < length (split_fields DEFAULT_SLASH s)" "a = split_fields DEFAULT_SLASH s ! i"
    using assms by (metis in_set_conv_nth)
  have "prefix a (slash_join (a # bs))" for bs by (cases bs) (auto simp: slash_join_def)
  then have "prefix a (slash_join (drop i (split_fields DEFAULT_SLASH s)))"
    using i by (metis Cons_nth_drop_Suc)
  then show ?thesis using fields_parts [OF refl i(1)] by (metis prefix_length_le le_trans)
qed

lemma join_drop:
  assumes "k < length cs" and "\<forall>a\<in>set cs. length a < 2 ^ 31"
  shows "\<exists>r. join junk [DEFAULT_SLASH] cs (int k) (int (length cs) - 1) = Some r \<and> str_wf r \<and>
    content r = slash_join (drop k cs)"
proof -
  define ps where "ps = butlast (drop k cs)"
  have cs: "cs = take k cs @ ps @ [last cs]"
    using assms(1) by (metis append_butlast_last_id append_take_drop_id drop_eq_Nil last_drop linorder_not_le ps_def)
  have len: "int (length (take k cs)) = int k" "int (length (take k cs @ ps)) = int (length cs) - 1"
    using assms(1) by (auto simp: ps_def)
  have "\<forall>a\<in>set (take k cs @ ps @ [last cs]). length a < 2 ^ 31" using assms(2) cs by metis
  then show ?thesis
    using join_ok [of "[DEFAULT_SLASH]" "take k cs" ps "last cs" junk] cs len assms(1)
    by (auto simp: slash_join_def ps_def last_drop)
qed

text \<open>The parts that \<open>xdebug_format_filename\<close> prepares.\<close>

lemma parent_ancester_ok:
  assumes "cs = split_fields DEFAULT_SLASH s" and "length s < 2 ^ 31"
  shows "\<exists>parent ancester.
    (if int (length cs) > 1 then join junk [DEFAULT_SLASH] cs (int (length cs) - 2) (int (length cs) - 1)
     else str_create_from_char junk (last cs)) = Some parent \<and>
    (if int (length cs) > 2 then join junk [DEFAULT_SLASH] cs (int (length cs) - 3) (int (length cs) - 1)
     else str_copy junk parent) = Some ancester \<and>
    str_wf parent \<and> content parent = slash_join (drop (length cs - 2) cs) \<and>
    str_wf ancester \<and> content ancester = slash_join (drop (length cs - 3) cs)"
proof -
  have small: "\<forall>a\<in>set cs. length a < 2 ^ 31" using field_length assms by fastforce
  have ne: "cs \<noteq> []" using assms(1) by simp
  have "\<exists>parent. (if int (length cs) > 1 then join junk [DEFAULT_SLASH] cs (int (length cs) - 2) (int (length cs) - 1)
     else str_create_from_char junk (last cs)) = Some parent \<and>
     str_wf parent \<and> content parent = slash_join (drop (length cs - 2) cs)"
  proof (cases "1 < length cs")
    case True
    then show ?thesis using join_drop [of "length cs - 2" cs junk] small by (simp add: of_nat_diff)
  next
    case False
    then obtain a where "cs = [a]" using ne by (cases cs) auto
    then show ?thesis
      using str_create_ok [of "length a" a junk] by (simp add: str_create_from_char_def slash_join_def)
  qed
  then obtain parent where p: "(if int (length cs) > 1 then join junk [DEFAULT_SLASH] cs (int (length cs) - 2) (int (length cs) - 1)
     else str_create_from_char junk (last cs)) = Some parent"
     "str_wf parent" "content parent = slash_join (drop (length cs - 2) cs)" by blast
  have "\<exists>ancester. (if int (length cs) > 2 then join junk [DEFAULT_SLASH] cs (int (length cs) - 3) (int (length cs) - 1)
     else str_copy junk parent) = Some ancester \<and>
    str_wf ancester \<and> content ancester = slash_join (drop (length cs - 3) cs)"
  proof (cases "2 < length cs")
    case True
    then show ?thesis using join_drop [of "length cs - 3" cs junk] small by (simp add: of_nat_diff)
  next
    case False
    then show ?thesis using str_copy_ok [OF p(2), of junk] p(3) by simp
  qed
  then show ?thesis using p by blast
qed

lemma filename_spec_ok:
  assumes "str_text parent = slash_join (drop (length cs - 2) cs)"
    and "str_text ancester = slash_join (drop (length cs - 3) cs)" and "cs = split_fields DEFAULT_SLASH full"
  shows "format_spec (filename_spec junk (last cs) parent ancester full) (filename_piece full)"
proof
  fix k c p and fname :: xstr
  assume "filename_piece full k c = Some p" "length p < 2 ^ 31" and wf: "str_wf fname"
  then show "\<exists>fname'. filename_spec junk (last cs) parent ancester full k c fname = Some fname' \<and>
      str_wf fname' \<and> content fname' = content fname @ p"
    using str_add_ok [OF wf, of _ junk] str_addl_ok [OF wf, of 1 "''%''" junk] assms
    unfolding filename_piece_def filename_spec_def by (auto simp: Let_def split: if_splits)
qed (simp add: filename_piece_def Let_def)

lemma filename_piece_length:
  "filename_piece full k c = Some p \<Longrightarrow> length full < 2 ^ 31 \<Longrightarrow> length p < 2 ^ 31"
proof -
  assume a: "filename_piece full k c = Some p" "length full < 2 ^ 31"
  define cs where "cs = split_fields DEFAULT_SLASH full"
  have ne: "cs \<noteq> []" by (simp add: cs_def)
  then have "length (last cs) \<le> length full" "length cs - 2 < length cs" "length cs - 3 < length cs"
    using field_length [of "last cs" full] by (auto simp: cs_def)
  then show ?thesis
    using a fields_parts [OF cs_def, of "length cs - 2"] fields_parts [OF cs_def, of "length cs - 3"]
    by (auto simp: filename_piece_def Let_def simp flip: cs_def split: if_splits)
qed


section \<open>What the names consist of\<close>

lemma set_replace_chars: "CHR ''_'' \<notin> cs \<Longrightarrow> set (replace_chars cs s) \<inter> cs = {}"
  by (auto simp: replace_chars_def)

lemma set_replace_last: "set (replace_last d s) \<subseteq> insert (CHR ''_'') (set s)"
  by (auto simp: replace_last_def dest: set_takeWhileD) (metis list.sel(2) list.set_sel(2) set_dropWhileD set_rev)

lemma dec_no_slash: "set (dec n) \<inter> {CHR ''/'', CHR 0x5C} = {}"
  using dec_isdigit [of "CHR ''/''" n] dec_isdigit [of "CHR 0x5C" n] by (auto simp: isdigit_def uchar_def)

lemma dec_int_no_slash: "set (dec_int i) \<inter> {CHR ''/'', CHR 0x5C} = {}"
  using dec_no_slash by (auto simp: dec_int_def)

lemma hex_no_slash: "set (hex n) \<inter> {CHR ''/'', CHR 0x5C} = {}"
proof (induction n rule: hex.induct)
  case (1 n)
  have d: "''0123456789abcdef'' ! k \<notin> {CHR ''/'', CHR 0x5C}" if "k < 16" for k
  proof -
    have "list_all (\<lambda>k. ''0123456789abcdef'' ! k \<notin> {CHR ''/'', CHR 0x5C}) [0..<16]" by code_simp
    then show ?thesis using that by (simp add: list_all_iff)
  qed
  show ?case using 1 d [of n] d [of "n mod 16"] by (cases "n < 16") (auto simp: hex.simps [of n])
qed

lemma output_piece_no_slash:
  assumes "output_piece env script_name k c = Some p"
    and "set (env_utime (env k)) \<inter> {CHR ''/'', CHR 0x5C} = {}"
  shows "set p \<inter> {CHR ''/'', CHR 0x5C} = {}"
proof -
  have s: "set (replace_last (CHR ''.'') (replace_chars (set (CHR 0x5C # ''/: '')) s)) \<inter> {CHR ''/'', CHR 0x5C} = {}" for s
    using set_replace_last [of "CHR ''.''" "replace_chars (set (CHR 0x5C # ''/: '')) s"]
      set_replace_chars [of "set (CHR 0x5C # ''/: '')" s] by auto
  have u: "set (replace_last (CHR ''.'') (env_utime (env k))) \<inter> {CHR ''/'', CHR 0x5C} = {}"
    using set_replace_last [of "CHR ''.''" "env_utime (env k)"] assms(2) by auto
  have v: "set (replace_chars (set (CHR 0x5C # CHR 0x22 # ''/.?&+:*<>| '')) s) \<inter> {CHR ''/'', CHR 0x5C} = {}"
    "set (replace_chars (set (CHR 0x5C # ''/.?&+ '')) s) \<inter> {CHR ''/'', CHR 0x5C} = {}" for s
    using set_replace_chars [of "set (CHR 0x5C # CHR 0x22 # ''/.?&+:*<>| '')" s]
      set_replace_chars [of "set (CHR 0x5C # ''/.?&+ '')" s] by auto
  have h: "set (hex6 n) \<inter> {CHR ''/'', CHR 0x5C} = {}" for n
    using hex_no_slash [of n] by (auto simp: hex6_def)
  show ?thesis
    using assms(1) unfolding output_piece_def
    by (simp only: split: if_splits option.splits zval.splits)
      (use s u v h dec_no_slash dec_int_no_slash in \<open>auto split: option.splits\<close>)
qed

section \<open>Properties\<close>

text \<open>C25: the name of an output file is the format with every specifier replaced by what it stands for,
  when the values fit 31-bit lengths; it contains a slash or a backslash only where the format itself has
  one, whatever script name, host, URI or cookies the request brings. The function faults exactly when the
  format ends in a lone percent sign after its last specifier or a variable it uses holds no string.\<close>

theorem output_name_confined:
  assumes "\<And>k c p. output_piece env script_name k c = Some p \<Longrightarrow> length p < 2 ^ 31"
    and "\<And>k. set (env_utime (env k)) \<inter> {CHR ''/'', CHR 0x5C} = {}"
  shows "case expand (output_piece env script_name) 0 format of
      None \<Rightarrow> format_output_filename junk env format script_name = None
    | Some t \<Rightarrow> \<exists>r. format_output_filename junk env format script_name = Some r \<and> content r = t \<and>
        set t \<inter> {CHR ''/'', CHR 0x5C} \<subseteq> set format"
proof -
  have "set t \<inter> {CHR ''/'', CHR 0x5C} \<subseteq> set format"
    if "expand (output_piece env script_name) 0 format = Some t" for t
    by (rule expand_chars [OF output_piece_no_slash [OF _ assms(2)] that])
  moreover have "case expand (output_piece env script_name) 0 format of
      None \<Rightarrow> format_walk junk (output_spec junk env script_name) 0 format str_new = None
    | Some t \<Rightarrow> \<exists>r. format_walk junk (output_spec junk env script_name) 0 format str_new = Some r \<and>
        str_wf r \<and> content r = content str_new @ t"
    by (rule outname.walk_exact [OF assms(1) str_wf_new(1)])
  ultimately show ?thesis by (auto simp: format_output_filename_def split: option.splits)
qed

definition sample_env :: name_env where
  "sample_env = \<lparr>env_cwd = None, env_pid = 42, env_random = 255, env_time = 7, env_utime = ''7.25'',
     env_server = Some [''REQUEST_URI'' \<mapsto> ZString ''/../x?a=1''], env_cookies = None, env_session_name = None\<rparr>"

lemma sample_env_pieces: "output_piece (\<lambda>_. sample_env) (Some ''/a.php'') k c = Some p \<Longrightarrow> length p < 2 ^ 31"
proof -
  have "dec_int 42 = ''42''" "hex6 255 = ''0000ff''" "dec_int 7 = ''7''"
    "replace_last (CHR ''.'') ''7.25'' = ''7_25''"
    "replace_last (CHR ''.'') (replace_chars (set (CHR 0x5C # ''/: '')) ''/a.php'') = ''_a_php''"
    "replace_chars (set (CHR 0x5C # CHR 0x22 # ''/.?&+:*<>| '')) (cstr ''/../x?a=1'') = ''____x_a=1''"
    by code_simp+
  note v = this this [simplified]
  show "output_piece (\<lambda>_. sample_env) (Some ''/a.php'') k c = Some p \<Longrightarrow> length p < 2 ^ 31"
    unfolding output_piece_def sample_env_def
    by (simp only: option.case name_env.simps split: if_splits) (auto simp: v)
qed

theorem output_name_confined_witness:
  "\<exists>r. format_output_filename nul (\<lambda>_. sample_env) ''/tmp/%s.%R.%p'' (Some ''/a.php'') = Some r \<and>
    content r = ''/tmp/_a_php.____x_a=1.42''"
proof -
  have "expand (output_piece (\<lambda>_. sample_env) (Some ''/a.php'')) 0 ''/tmp/%s.%R.%p'' = Some ''/tmp/_a_php.____x_a=1.42''"
    by code_simp
  then show ?thesis
    using output_name_confined [where env = "\<lambda>_. sample_env" and script_name = "Some ''/a.php''" and format = "''/tmp/%s.%R.%p''" and junk = nul,
        OF sample_env_pieces]
    by (simp add: sample_env_def)
qed

text \<open>formatting a file name replaces \<open>%n\<close>, \<open>%p\<close> and \<open>%a\<close> by the last one, two and three components
  of the path (all of them when it has fewer) and \<open>%f\<close> by the whole path, whatever the path; an empty
  format is replaced by the default one.\<close>

lemma format_filename_exact:
  assumes "length filename < 2 ^ 31" and "nul \<notin> set filename"
  shows "case expand (filename_piece filename) 0 (if fmt = None \<or> fmt = Some [] then default_fmt else the fmt) of
      None \<Rightarrow> format_filename junk fmt default_fmt filename = None
    | Some t \<Rightarrow> \<exists>r. format_filename junk fmt default_fmt filename = Some r \<and> content r = t"
proof -
  define cs where "cs = split_fields DEFAULT_SLASH filename"
  obtain parent ancester where pa:
    "(if int (length cs) > 1 then join junk [DEFAULT_SLASH] cs (int (length cs) - 2) (int (length cs) - 1)
      else str_create_from_char junk (last cs)) = Some parent"
    "(if int (length cs) > 2 then join junk [DEFAULT_SLASH] cs (int (length cs) - 3) (int (length cs) - 1)
     else str_copy junk parent) = Some ancester"
    "str_wf parent" "content parent = slash_join (drop (length cs - 2) cs)"
    "str_wf ancester" "content ancester = slash_join (drop (length cs - 3) cs)"
    using parent_ancester_ok [OF cs_def assms(1)] by blast
  have "cs \<noteq> []" by (simp add: cs_def)
  then have "length cs - 2 < length cs" "length cs - 3 < length cs" by auto
  then have "nul \<notin> set (content parent)" "nul \<notin> set (content ancester)"
    using fields_parts [OF cs_def] assms(2) pa(4,6) by fastforce+
  then have interp: "format_spec (filename_spec junk (last cs) parent ancester filename) (filename_piece filename)"
    using filename_spec_ok [OF _ _ cs_def] str_text_content pa(3-6) by simp
  define format where "format = (if fmt = None \<or> fmt = Some [] then default_fmt else the fmt)"
  have "case expand (filename_piece filename) 0 format of
      None \<Rightarrow> format_walk junk (filename_spec junk (last cs) parent ancester filename) 0 format str_new = None
    | Some t \<Rightarrow> \<exists>r. format_walk junk (filename_spec junk (last cs) parent ancester filename) 0 format str_new = Some r \<and>
        str_wf r \<and> content r = content str_new @ t"
    by (rule format_spec.walk_exact [OF interp filename_piece_length [OF _ assms(1)] str_wf_new(1)])
  moreover have "(case fmt of None \<Rightarrow> default_fmt | Some f \<Rightarrow> if f \<noteq> [] then f else default_fmt) = format"
    by (simp add: format_def split: option.splits)
  then have "format_filename junk fmt default_fmt filename =
      format_walk junk (filename_spec junk (last cs) parent ancester filename) 0 format str_new"
    using pa(1,2) by (simp add: format_filename_def explode_fields Let_def flip: cs_def)
  ultimately show ?thesis
    unfolding format_def [symmetric] by (auto split: option.splits)
qed

lemma format_filename_exact_witness:
  "\<exists>r. format_filename nul (Some []) ''...%p%s%n:%a'' ''/srv/www/app/x.php'' = Some r \<and>
    content r = ''...app/x.php/x.php:www/app/x.php''"
proof -
  have "split_fields DEFAULT_SLASH ''/srv/www/app/x.php'' = [[], ''srv'', ''www'', ''app'', ''x.php'']"
    using split_fields_append [of DEFAULT_SLASH "[]" "''srv/www/app/x.php''"]
      split_fields_append [of DEFAULT_SLASH "''srv''" "''www/app/x.php''"]
      split_fields_append [of DEFAULT_SLASH "''www''" "''app/x.php''"]
      split_fields_append [of DEFAULT_SLASH "''app''" "''x.php''"] split_fields_none [of DEFAULT_SLASH "''x.php''"]
    by (simp add: DEFAULT_SLASH_def)
  then have "expand (filename_piece ''/srv/www/app/x.php'') 0 ''...%p%s%n:%a'' = Some ''...app/x.php/x.php:www/app/x.php''"
    by (simp add: filename_piece_def slash_join_def DEFAULT_SLASH_def)
  moreover have "length ''/srv/www/app/x.php'' < 2 ^ 31"
    by simp
  moreover have "nul \<notin> set ''/srv/www/app/x.php''"
    by code_simp
  moreover have "(if Some [] = None \<or> Some [] = Some ([] :: string) then d else the (Some [])) = d" for d
    by simp
  ultimately show ?thesis
    using format_filename_exact [where filename = "''/srv/www/app/x.php''" and fmt = "Some []" and default_fmt = "''...%p%s%n:%a''" and junk = nul]
    by (simp only: option.case simp_thms if_True)
qed

end
