(* ===== verification/Escapes.thy ===== *)
theory Escapes
  imports Url
begin

text \<open>
  The C escapes of \<open>xdebug_compat.c\<close>. \<open>xdebug_stripcslashes\<close> works in place: the result is the buffer
  with its leftover tail, and the length that it computes apart from the text. The theorems say that the
  two lengths agree and that quoting is undone.
\<close>

section \<open>The code\<close>

text \<open>The letters with a meaning of their own.\<close>

definition simple_escape :: "char \<Rightarrow> char option" where
  "simple_escape c =
     (if c = CHR ''n'' then Some (CHR 0x0A)
      else if c = CHR ''r'' then Some (CHR 0x0D)
      else if c = CHR ''a'' then Some (CHR 0x07)
      else if c = CHR ''t'' then Some (CHR 0x09)
      else if c = CHR ''v'' then Some (CHR 0x0B)
      else if c = CHR ''b'' then Some (CHR 0x08)
      else if c = CHR ''f'' then Some (CHR 0x0C)
      else if c = CHR 0x5C then Some (CHR 0x5C)
      else None)"

definition isoctal :: "char \<Rightarrow> bool" where
  "isoctal c \<longleftrightarrow> 48 \<le> uchar c \<and> uchar c \<le> 55"

text \<open>\<open>(char) strtol\<close> of a few digits in base 8 or 16.\<close>

definition char_of_digits :: "nat \<Rightarrow> string \<Rightarrow> char" where
  "char_of_digits base ds = char_of (foldl (\<lambda>v d. base * v + nat (hex_value d)) 0 ds mod 256)"

text \<open>One byte written that stands for \<open>k\<close> more bytes than one.\<close>

definition emit :: "char \<Rightarrow> nat \<Rightarrow> string \<times> int \<Rightarrow> string \<times> int" where
  "emit c k r = (c # fst r, snd r + int k)"

text \<open>The bytes written and how much the length shrinks.\<close>

function strip_loop :: "string \<Rightarrow> string \<times> int" where
  "strip_loop [] = ([], 0)"
| "strip_loop [c] = ([c], 0)"
| "strip_loop (c # d # source) =
     (if c \<noteq> CHR 0x5C then emit c 0 (strip_loop (d # source))
      else case simple_escape d of
        Some e \<Rightarrow> emit e 1 (strip_loop source)
      | None \<Rightarrow>
          (if d = CHR ''x'' \<and> source \<noteq> [] \<and> isxdigit (hd source)
           then (if tl source \<noteq> [] \<and> isxdigit (hd (tl source))
                 then emit (char_of_digits 16 (take 2 source)) 3 (strip_loop (drop 2 source))
                 else emit (char_of_digits 16 (take 1 source)) 2 (strip_loop (drop 1 source)))
           else (let numtmp = takeWhile isoctal (take 3 (d # source))
                 in if numtmp \<noteq> []
                    then emit (char_of_digits 8 numtmp) (length numtmp)
                           (strip_loop (drop (length numtmp) (d # source)))
                    else emit d 1 (strip_loop source))))"
  by pat_completeness auto
termination by (relation "measure length") (auto simp: diff_less_Suc)

declare strip_loop.simps(3) [simp del]

definition stripcslashes :: "string \<Rightarrow> int \<Rightarrow> (string \<times> int) option" where
  "stripcslashes buf len =
     (if 0 \<le> len \<and> nat len \<le> length buf
      then (let (out, n) = strip_loop (take (nat len) buf); nlen = len - n
            in if nlen \<noteq> 0
               then (if length out < length buf
                     then Some (out @ [nul] @ drop (length out + 1) buf, nlen)
                     else None)
               else Some (out @ drop (length out) buf, nlen))
      else None)"

section \<open>Facts\<close>

text \<open>The length computed beside the text is the length of the text.\<close>

lemma strip_loop_length: "int (length (fst (strip_loop s))) = int (length s) - snd (strip_loop s)"
proof (induction "length s" arbitrary: s rule: less_induct)
  case less
  consider "s = []" | c where "s = [c]" | (more) c d source where "s = c # d # source"
    by (cases s rule: remdups_adj.cases) blast+
  then show ?case
  proof cases
    case (more c d source)
    define numtmp where "numtmp = takeWhile isoctal (take 3 (d # source))"
    have n: "length numtmp \<le> length (d # source)"
      unfolding numtmp_def by (rule le_trans [OF length_takeWhile_le]) simp
    have shrink: "int (length (fst (emit e k (strip_loop t)))) = int (length s) - snd (emit e k (strip_loop t))"
      if "length t + k + 1 = length s" for e k t
      using less [of t] that by (simp add: emit_def)
    have two: "length source \<ge> 2" if "source \<noteq> []" "tl source \<noteq> []"
      using that by (cases source; cases "tl source") auto
    have one: "length source \<ge> 1" if "source \<noteq> []"
      using that by (cases source) auto
    show ?thesis
      unfolding more strip_loop.simps(3) numtmp_def [symmetric]
      using shrink two one n more
      by (auto simp: Let_def simp del: drop_Suc_Cons length_greater_0_conv split: option.split)
  qed auto
qed

text \<open>Escaping the quote and the backslash.\<close>

fun escape :: "string \<Rightarrow> string" where
  "escape [] = []"
| "escape (c # s) = (if c = CHR 0x5C \<or> c = CHR 0x22 then [CHR 0x5C, c] else [c]) @ escape s"

lemma strip_escape: "strip_loop (escape s) = (s, int (length (escape s)) - int (length s))"
proof (induction s)
  case (Cons c s)
  have plain: "strip_loop (c # escape s) = emit c 0 (strip_loop (escape s))" if "c \<noteq> CHR 0x5C"
    using that by (cases "escape s") (auto simp: strip_loop.simps(3) emit_def)
  have bs: "strip_loop (CHR 0x5C # CHR 0x5C # t) = emit (CHR 0x5C) 1 (strip_loop t)" for t
    by (simp add: strip_loop.simps(3) simple_escape_def)
  have qt: "strip_loop (CHR 0x5C # CHR 0x22 # t) = emit (CHR 0x22) 1 (strip_loop t)" for t
    by (simp add: strip_loop.simps(3) simple_escape_def isoctal_def uchar_def)
  show ?case using Cons plain bs qt by (auto simp: emit_def)
qed simp

end
