(* ===== verification/Xml.thy ===== *)
theory Xml
  imports Str Text Url
begin

text \<open>
  The responses of the debugger, \<open>xdebug_xml.c\<close>, with \<open>xdebug_xmlize\<close> of \<open>xdebug_var.c\<close>. The list of a
  node's attributes or children is a list; who frees a string is not modelled. The functions of PHP for
  replacing and for base64 are arguments. The theorems say that what is written determines the tree.
\<close>

section \<open>Data\<close>

record xml_text_node =
  xt_text :: string
  xt_encode :: bool
  xt_len :: int

record xml_attribute =
  at_name :: string
  at_value :: "string option"

datatype xml_node = XmlNode
  (xml_tag: string) (xml_text: "xml_text_node option") (xml_attributes: "xml_attribute list") (xml_child: "xml_node list")

text \<open>\<open>php_str_to_str haystack needle str\<close> and \<open>php_base64_encode data\<close>.\<close>

record php_lib =
  str_to_str :: "string \<Rightarrow> string \<Rightarrow> string \<Rightarrow> string"
  base64_encode :: "string \<Rightarrow> string"

text \<open>What PHP documents: every occurrence of a one-character needle is replaced, and the base64 text of
  two different byte strings differs and consists of letters, digits, plus, slash and the equals sign.\<close>

definition replaces :: "php_lib \<Rightarrow> bool" where
  "replaces lib \<longleftrightarrow> (\<forall>s c t. str_to_str lib s [c] t = concat (map (\<lambda>d. if d = c then t else [d]) s))"

definition base64_char :: "char \<Rightarrow> bool" where
  "base64_char c \<longleftrightarrow> isdigit c \<or> (65 \<le> uchar c \<and> uchar c \<le> 90) \<or> (97 \<le> uchar c \<and> uchar c \<le> 122) \<or>
     c = CHR ''+'' \<or> c = CHR ''/'' \<or> c = CHR ''=''"

definition encodes :: "php_lib \<Rightarrow> bool" where
  "encodes lib \<longleftrightarrow> inj (base64_encode lib) \<and> (\<forall>s. \<forall>c\<in>set (base64_encode lib s). base64_char c)"

section \<open>Building\<close>

definition xml_node_init :: "string \<Rightarrow> xml_node" where
  "xml_node_init t = XmlNode t None [] []"

definition xml_add_attribute_ex :: "string \<Rightarrow> string \<Rightarrow> xml_node \<Rightarrow> xml_node" where
  "xml_add_attribute_ex a v x =
     XmlNode (xml_tag x) (xml_text x) (xml_attributes x @ [\<lparr>at_name = a, at_value = Some v\<rparr>]) (xml_child x)"

definition xml_add_child :: "xml_node \<Rightarrow> xml_node \<Rightarrow> xml_node" where
  "xml_add_child x c = XmlNode (xml_tag x) (xml_text x) (xml_attributes x) (xml_child x @ [c])"

text \<open>The text and its length; a text that contains the end mark of the section is encoded in any case.
  An earlier text is thrown away.\<close>

definition xml_add_text_ex :: "string \<Rightarrow> int \<Rightarrow> bool \<Rightarrow> xml_node \<Rightarrow> xml_node" where
  "xml_add_text_ex t len encode x =
     XmlNode (xml_tag x)
       (Some \<lparr>xt_text = t, xt_encode = encode \<or> strstr '']]>'' (cstr t) 0 \<noteq> None, xt_len = len\<rparr>)
       (xml_attributes x) (xml_child x)"

definition xml_add_text :: "string \<Rightarrow> xml_node \<Rightarrow> xml_node" where
  "xml_add_text t = xml_add_text_ex t (int (length t)) False"

definition xml_add_text_encode :: "string \<Rightarrow> xml_node \<Rightarrow> xml_node" where
  "xml_add_text_encode t = xml_add_text_ex t (int (length t)) True"

text \<open>A node that got more attributes, children or text.\<close>

definition extends :: "xml_node \<Rightarrow> xml_node \<Rightarrow> bool" where
  "extends x y \<longleftrightarrow> xml_tag y = xml_tag x \<and> prefix (xml_attributes x) (xml_attributes y)"

lemma extends_intros [intro, simp]:
  "extends x x"
  "extends x y \<Longrightarrow> extends x (xml_add_attribute_ex a v y)"
  "extends x y \<Longrightarrow> extends x (xml_add_child y c)"
  "extends x y \<Longrightarrow> extends x (xml_add_text_ex t i b y)"
  "extends x y \<Longrightarrow> extends x (xml_add_text t y)"
  by (simp_all add: extends_def xml_add_attribute_ex_def xml_add_child_def xml_add_text_def xml_add_text_ex_def)

lemma extends_trans: "extends x y \<Longrightarrow> extends y z \<Longrightarrow> extends x z"
  by (auto simp: extends_def)

section \<open>Writing\<close>

text \<open>The empty string is returned as it is.\<close>

definition xmlize :: "php_lib \<Rightarrow> string \<Rightarrow> string" where
  "xmlize lib s =
     (if s = [] then []
      else
        (let tmp = str_to_str lib s ''&'' ''&amp;'';
             tmp2 = str_to_str lib tmp ''>'' ''&gt;'';
             tmp = str_to_str lib tmp2 ''<'' ''&lt;'';
             tmp2 = str_to_str lib tmp [CHR 0x22] ''&quot;'';
             tmp = str_to_str lib tmp2 [CHR 0x27] ''&#39;'';
             tmp2 = str_to_str lib tmp [CHR 0x0A] ''&#10;'';
             tmp = str_to_str lib tmp2 [CHR 0x0D] ''&#13;''
         in str_to_str lib tmp [nul] ''&#0;''))"

definition return_attribute :: "char \<Rightarrow> php_lib \<Rightarrow> xml_attribute \<Rightarrow> xstr \<Rightarrow> xstr option" where
  "return_attribute junk lib attr out =
     do {
       out \<leftarrow> str_addl junk '' '' 1 out;
       let tmp = xmlize lib (at_name attr) in do {
         out \<leftarrow> str_addl junk tmp (int (length tmp)) out;
         out \<leftarrow> str_addl junk (CHR ''='' # [CHR 0x22]) 2 out;
         out \<leftarrow> (case at_value attr of
                  None \<Rightarrow> Some out
                | Some v \<Rightarrow> str_add junk (cstr (xmlize lib v)) out);
         str_addl junk [CHR 0x22] 1 out
       }
     }"

fun return_attributes :: "char \<Rightarrow> php_lib \<Rightarrow> xml_attribute list \<Rightarrow> xstr \<Rightarrow> xstr option" where
  "return_attributes junk lib [] out = Some out"
| "return_attributes junk lib (attr # attrs) out =
     do { out \<leftarrow> return_attribute junk lib attr out; return_attributes junk lib attrs out }"

definition return_text_node :: "char \<Rightarrow> php_lib \<Rightarrow> xml_text_node \<Rightarrow> xstr \<Rightarrow> xstr option" where
  "return_text_node junk lib node out =
     do {
       out \<leftarrow> str_addl junk ''<![CDATA['' 9 out;
       out \<leftarrow> (if xt_encode node
              then do {
                data \<leftarrow> peek (xt_text node) (xt_len node);
                str_add junk (cstr (base64_encode lib data)) out
              }
              else str_add junk (cstr (xt_text node)) out);
       str_addl junk '']]>'' 3 out
     }"

text \<open>The attribute that marks an encoded text is added to the node when it is written.\<close>

definition with_encoding :: "xml_text_node option \<Rightarrow> xml_attribute list \<Rightarrow> xml_attribute list" where
  "with_encoding text attrs =
     (case text of
        None \<Rightarrow> attrs
      | Some t \<Rightarrow>
          if xt_encode t then attrs @ [\<lparr>at_name = ''encoding'', at_value = Some ''base64''\<rparr>] else attrs)"

fun return_node :: "char \<Rightarrow> php_lib \<Rightarrow> xml_node \<Rightarrow> xstr \<Rightarrow> xstr option"
  and return_nodes :: "char \<Rightarrow> php_lib \<Rightarrow> xml_node list \<Rightarrow> xstr \<Rightarrow> xstr option" where
  "return_node junk lib (XmlNode tag text attrs child) out =
     do {
       out \<leftarrow> str_addl junk ''<'' 1 out;
       out \<leftarrow> str_add junk tag out;
       out \<leftarrow> return_attributes junk lib (with_encoding text attrs) out;
       out \<leftarrow> str_addl junk ''>'' 1 out;
       out \<leftarrow> return_nodes junk lib child out;
       out \<leftarrow> (case text of None \<Rightarrow> Some out | Some t \<Rightarrow> return_text_node junk lib t out);
       out \<leftarrow> str_addl junk ''</'' 2 out;
       out \<leftarrow> str_add junk tag out;
       str_addl junk ''>'' 1 out
     }"
| "return_nodes junk lib [] out = Some out"
| "return_nodes junk lib (n # ns) out =
     do { out \<leftarrow> return_node junk lib n out; return_nodes junk lib ns out }"


section \<open>Escaping\<close>

text \<open>What one character becomes.\<close>

definition entity :: "char \<Rightarrow> string" where
  "entity c =
     (if c = CHR ''&'' then ''&amp;'' else if c = CHR ''>'' then ''&gt;''
      else if c = CHR ''<'' then ''&lt;'' else if c = CHR 0x22 then ''&quot;''
      else if c = CHR 0x27 then ''&#39;'' else if c = CHR 0x0A then ''&#10;''
      else if c = CHR 0x0D then ''&#13;'' else if c = nul then ''&#0;'' else [c])"

definition entities :: "string \<Rightarrow> string" where
  "entities s = concat (map entity s)"

lemma xmlize_entities:
  assumes "replaces lib"
  shows "xmlize lib s = entities s"
proof (cases "s = []")
  case False
  define rep where "rep c t u = concat (map (\<lambda>d. if d = c then t else [d]) u)" for c :: char and t u
  define chain where "chain u = rep nul ''&#0;'' (rep (CHR 0x0D) ''&#13;'' (rep (CHR 0x0A) ''&#10;''
    (rep (CHR 0x27) ''&#39;'' (rep (CHR 0x22) ''&quot;'' (rep (CHR ''<'') ''&lt;'' (rep (CHR ''>'') ''&gt;''
    (rep (CHR ''&'') ''&amp;'' u)))))))" for u
  have hom: "chain (a @ b) = chain a @ chain b" for a b by (simp add: chain_def rep_def)
  have one: "chain [c] = entity c" for c by (simp add: chain_def rep_def entity_def nul_def)
  have "chain u = entities u" for u
  proof (induction u)
    case Nil
    then show ?case by (simp add: chain_def rep_def entities_def)
  next
    case (Cons c u)
    then show ?case using hom [of "[c]" u] one by (simp add: entities_def)
  qed
  then show ?thesis
    using assms False by (simp add: xmlize_def Let_def chain_def rep_def replaces_def)
qed (simp add: xmlize_def entities_def)

text \<open>No escaped text contains a character that ends something, and none hides another text.\<close>

lemma entities_clean: "set (entities s) \<inter> {CHR 0x22, CHR ''<'', CHR ''>'', nul} = {}"
  by (induction s) (auto simp: entities_def entity_def nul_def)

lemma entity_prefix: "entity c @ r = entity d @ s \<Longrightarrow> c = d \<and> r = s"
  by (auto simp: entity_def nul_def split: if_splits)

lemma entities_inj: "entities s = entities t \<longleftrightarrow> s = t"
proof (induction s arbitrary: t)
  case Nil
  then show ?case by (cases t) (auto simp: entities_def entity_def)
next
  case (Cons c s)
  show ?case
  proof (cases t)
    case Nil
    then show ?thesis by (auto simp: entities_def entity_def)
  next
    case (Cons d t')
    then show ?thesis
      using entity_prefix [of c "entities s" d "entities t'"] Cons.IH [of t'] by (auto simp: entities_def)
  qed
qed

section \<open>What a written tree says\<close>

text \<open>The tag, the attributes with their values, the children and the characters of the text section.\<close>

datatype xml_view = View string "(string \<times> string) list" "xml_view list" "string option"

definition quote_mark :: char where "quote_mark = CHR 0x22"

definition attr_text :: "string \<times> string \<Rightarrow> string" where
  "attr_text av = '' '' @ entities (fst av) @ ''='' @ [quote_mark] @ entities (snd av) @ [quote_mark]"

fun view_text :: "xml_view \<Rightarrow> string" where
  "view_text (View t as cs cd) =
     ''<'' @ t @ concat (map attr_text as) @ ''>'' @ concat (map view_text cs) @
     (case cd of None \<Rightarrow> [] | Some d \<Rightarrow> ''<![CDATA['' @ d @ '']]>'') @ ''</'' @ t @ ''>''"

definition tag_ok :: "string \<Rightarrow> bool" where
  "tag_ok t \<longleftrightarrow> t \<noteq> [] \<and> hd t \<noteq> CHR ''/'' \<and> hd t \<noteq> CHR ''!'' \<and> CHR '' '' \<notin> set t \<and> CHR ''>'' \<notin> set t"

fun view_ok :: "xml_view \<Rightarrow> bool" where
  "view_ok (View t as cs cd) \<longleftrightarrow>
     tag_ok t \<and> (\<forall>c\<in>set cs. view_ok c) \<and> (\<forall>d. cd = Some d \<longrightarrow> \<not> sublist '']]>'' d)"

lemma attr_text_inj:
  assumes "attr_text a @ r = attr_text b @ s"
  shows "a = b \<and> r = s"
proof -
  have q: "quote_mark \<notin> set (entities u @ ''='')" "quote_mark \<notin> set (entities u)" for u
    using entities_clean [of u] by (auto simp: quote_mark_def)
  have "(entities (fst a) @ ''='') @ quote_mark # entities (snd a) @ quote_mark # r =
      (entities (fst b) @ ''='') @ quote_mark # entities (snd b) @ quote_mark # s"
    using assms by (simp add: attr_text_def)
  then have "entities (fst a) = entities (fst b)"
    "entities (snd a) @ quote_mark # r = entities (snd b) @ quote_mark # s"
    using append_sep_inj [OF q(1) q(1)] by simp_all
  then show ?thesis
    using append_sep_inj [OF q(2) q(2)] by (simp add: entities_inj prod_eq_iff)
qed

lemma attrs_text_inj:
  "concat (map attr_text as) @ CHR ''>'' # r = concat (map attr_text bs) @ CHR ''>'' # s \<Longrightarrow> as = bs \<and> r = s"
proof (induction as arbitrary: bs)
  case Nil
  then show ?case by (cases bs) (auto simp: attr_text_def)
next
  case (Cons a as)
  then obtain b bs' where bs: "bs = b # bs'" by (cases bs) (auto simp: attr_text_def)
  then have "attr_text a @ concat (map attr_text as) @ CHR ''>'' # r =
      attr_text b @ concat (map attr_text bs') @ CHR ''>'' # s"
    using Cons.prems by simp
  from attr_text_inj [OF this] Cons.IH [of bs'] bs show ?case by simp
qed

text \<open>A tag ends at the first blank or angle bracket.\<close>

lemma tag_inj:
  assumes "t @ x # r = u @ y # s" and "tag_ok t" and "tag_ok u"
    and "x \<in> {CHR '' '', CHR ''>''}" and "y \<in> {CHR '' '', CHR ''>''}"
  shows "t = u \<and> x # r = y # s"
proof -
  define P where "P c \<longleftrightarrow> c \<notin> {CHR '' '', CHR ''>''}" for c :: char
  have w: "takeWhile P (v @ z # q) = v" if "tag_ok v" "z \<in> {CHR '' '', CHR ''>''}" for v z q
    using that by (subst takeWhile_append2) (auto simp: P_def tag_ok_def)
  have "t = u" using w [OF assms(2,4), of r] w [OF assms(3,5), of s] assms(1) by metis
  then show ?thesis using assms(1) by simp
qed

lemma attrs_head: "\<exists>x r. concat (map attr_text as) @ CHR ''>'' # q = x # r \<and> x \<in> {CHR '' '', CHR ''>''}"
  by (cases as) (auto simp: attr_text_def)

text \<open>The text section ends at the first end mark.\<close>

lemma section_shorter:
  assumes "d @ '']]>'' @ r = e @ '']]>'' @ s" and "\<not> sublist '']]>'' e"
  shows "length e \<le> length d"
proof (rule ccontr)
  assume "\<not> length e \<le> length d"
  then obtain z where z: "e = d @ z" "z \<noteq> []"
    using assms(1) by (auto simp: append_eq_append_conv2)
  then have eq: "'']]>'' @ r = z @ '']]>'' @ s" using assms(1) by simp
  obtain a z' where "z = a # z'" using z(2) by (cases z) auto
  show False
  proof (cases "3 \<le> length z")
    case True
    then have "take 3 z = '']]>''" using arg_cong [OF eq, of "take 3"] by simp
    then have "prefix '']]>'' z" by (metis take_is_prefix)
    then have "sublist '']]>'' e" using z(1) by (metis sublist_append_leftI prefix_imp_sublist sublist_order.order_trans)
    then show False using assms(2) by blast
  next
    case False
    have "length z \<noteq> 0" using z(2) by simp
    then have "length z = 1 \<or> length z = 2" using False by arith
    then show False using eq by (auto simp: length_Suc_conv numeral_2_eq_2)
  qed
qed

lemma section_inj:
  "d @ '']]>'' @ r = e @ '']]>'' @ s \<Longrightarrow> \<not> sublist '']]>'' d \<Longrightarrow> \<not> sublist '']]>'' e \<Longrightarrow> d = e \<and> r = s"
  using section_shorter [of d r e s] section_shorter [of e s d r]
  by (metis append_eq_append_conv le_antisym same_append_eq)


text \<open>Where the children end: at a text section or at the end tag.\<close>

definition stops :: "string \<Rightarrow> bool" where
  "stops r \<longleftrightarrow> (\<exists>c r'. r = CHR ''<'' # c # r' \<and> c \<in> {CHR ''/'', CHR ''!''})"

lemma view_text_go: "view_ok v \<Longrightarrow> \<not> stops (view_text v @ r)"
  by (cases v; rename_tac t as cs cd; case_tac t) (auto simp: stops_def tag_ok_def)

lemma views_text_inj:
  assumes "\<And>v w r s. v \<in> set vs \<Longrightarrow> view_ok v \<Longrightarrow> view_ok w \<Longrightarrow> view_text v @ r = view_text w @ s \<Longrightarrow> v = w \<and> r = s"
    and "\<forall>v\<in>set vs. view_ok v" and "\<forall>w\<in>set ws. view_ok w" and "stops r" and "stops s"
    and "concat (map view_text vs) @ r = concat (map view_text ws) @ s"
  shows "vs = ws \<and> r = s"
  using assms
proof (induction vs arbitrary: ws)
  case Nil
  then show ?case using view_text_go by (cases ws) auto
next
  case (Cons v vs)
  have "ws \<noteq> []"
  proof
    assume "ws = []"
    then have "stops (view_text v @ concat (map view_text vs) @ r)" using Cons.prems(5,6) by simp
    then show False using view_text_go Cons.prems(2) by auto
  qed
  then obtain w ws' where ws: "ws = w # ws'" by (cases ws) auto
  have "view_text v @ concat (map view_text vs) @ r = view_text w @ concat (map view_text ws') @ s"
    using Cons.prems(6) ws by simp
  then have "v = w" "concat (map view_text vs) @ r = concat (map view_text ws') @ s"
    using Cons.prems(1) [of v w] Cons.prems(2,3) ws by auto
  moreover have "vs = ws' \<and> r = s"
  proof (rule Cons.IH)
    show "\<And>v w r s. v \<in> set vs \<Longrightarrow> view_ok v \<Longrightarrow> view_ok w \<Longrightarrow> view_text v @ r = view_text w @ s \<Longrightarrow> v = w \<and> r = s"
      by (rule Cons.prems(1)) simp_all
  qed (use Cons.prems(2-5) ws calculation(2) in auto)
  ultimately show ?case using ws by simp
qed

text \<open>The end of a view, after its children.\<close>

definition view_end :: "string \<Rightarrow> string option \<Rightarrow> string" where
  "view_end t cd = (case cd of None \<Rightarrow> [] | Some d \<Rightarrow> ''<![CDATA['' @ d @ '']]>'') @ ''</'' @ t @ ''>''"

lemma stops_end: "stops (view_end t cd @ r)"
  by (cases cd) (auto simp: view_end_def stops_def)

lemma view_end_inj:
  assumes "view_end t cd @ r = view_end t cd' @ s"
    and "\<And>d. cd = Some d \<Longrightarrow> \<not> sublist '']]>'' d" and "\<And>d. cd' = Some d \<Longrightarrow> \<not> sublist '']]>'' d"
  shows "cd = cd' \<and> r = s"
proof -
  have split: "view_end t None @ q \<noteq> view_end t (Some d) @ q'" for t d q q'
    by (simp add: view_end_def)
  show ?thesis
  proof (cases cd; cases cd')
    fix d e
    assume c: "cd = Some d" "cd' = Some e"
    then have "d @ '']]>'' @ ''</'' @ t @ ''>'' @ r = e @ '']]>'' @ ''</'' @ t @ ''>'' @ s"
      using assms(1) by (simp add: view_end_def)
    from section_inj [OF this] show ?thesis using c assms(2,3) by simp
  qed (use assms(1) split [of t r _ s] split [of t s _ r] in \<open>auto simp: view_end_def\<close>)
qed

lemma view_text_inj:
  "view_ok v \<Longrightarrow> view_ok w \<Longrightarrow> view_text v @ r = view_text w @ s \<Longrightarrow> v = w \<and> r = s"
proof (induction v arbitrary: w r s)
  case (View t al cs cd)
  obtain u bs ds ce where w: "w = View u bs ds ce" by (cases w)
  have ok: "tag_ok t" "tag_ok u" using View.prems(1,2) w by auto
  have vt: "view_text (View t al cs cd) @ r =
      CHR ''<'' # t @ concat (map attr_text al) @ CHR ''>'' # concat (map view_text cs) @ view_end t cd @ r" for t al cs cd r
    by (simp add: view_end_def)
  have eq: "t @ concat (map attr_text al) @ CHR ''>'' # concat (map view_text cs) @ view_end t cd @ r =
      u @ concat (map attr_text bs) @ CHR ''>'' # concat (map view_text ds) @ view_end u ce @ s"
    using View.prems(3) unfolding w vt by simp
  have "t = u" and eq2: "concat (map attr_text al) @ CHR ''>'' # concat (map view_text cs) @ view_end t cd @ r =
      concat (map attr_text bs) @ CHR ''>'' # concat (map view_text ds) @ view_end u ce @ s"
    using attrs_head [of al "concat (map view_text cs) @ view_end t cd @ r"]
      attrs_head [of bs "concat (map view_text ds) @ view_end u ce @ s"] tag_inj [OF _ ok] eq
    by metis+
  from attrs_text_inj [OF eq2] have "al = bs"
    and eq3: "concat (map view_text cs) @ view_end t cd @ r = concat (map view_text ds) @ view_end u ce @ s"
    by blast+
  have kids: "\<forall>c\<in>set cs. view_ok c" "\<forall>c\<in>set ds. view_ok c" using View.prems(1,2) w by simp_all
  have "cs = ds \<and> view_end t cd @ r = view_end u ce @ s"
  proof (rule views_text_inj [OF _ kids stops_end stops_end eq3])
    fix v w r s
    assume "v \<in> set cs" "view_ok v" "view_ok w" "view_text v @ r = view_text w @ s"
    then show "v = w \<and> r = s" by (rule View.IH)
  qed
  then have "cs = ds" and eq4: "view_end t cd @ r = view_end u ce @ s" by simp_all
  from view_end_inj [OF eq4 [folded \<open>t = u\<close>]] View.prems(1,2) w have "cd = ce \<and> r = s" by auto
  then show ?case using \<open>t = u\<close> \<open>al = bs\<close> \<open>cs = ds\<close> w by simp
qed


section \<open>What is written\<close>

text \<open>An operation that appends a text to a buffer.\<close>

definition writes :: "(xstr \<Rightarrow> xstr option) \<Rightarrow> string \<Rightarrow> bool" where
  "writes m t \<longleftrightarrow> (\<forall>out. str_wf out \<longrightarrow> (\<exists>r. m out = Some r \<and> str_wf r \<and> content r = content out @ t))"

lemma writesD: "writes m t \<Longrightarrow> str_wf out \<Longrightarrow> \<exists>r. m out = Some r \<and> str_wf r \<and> content r = content out @ t"
  unfolding writes_def by blast

lemma writes_nothing: "writes Some []"
  by (simp add: writes_def)

lemma writes_bind: "writes m t \<Longrightarrow> writes m' t' \<Longrightarrow> writes (\<lambda>out. Option.bind (m out) m') (t @ t')"
  unfolding writes_def by (metis Option.bind_lunit append.assoc)

lemma writes_str_add: "length t < 2 ^ 31 \<Longrightarrow> writes (str_add junk t) t"
  unfolding writes_def using str_add_ok by blast

lemma writes_str_addl: "n = int (length t) \<Longrightarrow> writes (str_addl junk t n) t"
  unfolding writes_def using str_addl_ok [of _ "length t" t junk] by auto

lemmas writes_intros = writes_bind writes_str_addl writes_str_add writes_nothing

definition attr_view :: "xml_attribute \<Rightarrow> string \<times> string" where
  "attr_view a = (at_name a, case at_value a of None \<Rightarrow> [] | Some v \<Rightarrow> v)"

definition section_view :: "php_lib \<Rightarrow> xml_text_node \<Rightarrow> string" where
  "section_view lib t =
     (if xt_encode t then base64_encode lib (take (nat (xt_len t)) (xt_text t)) else cstr (xt_text t))"

fun node_view :: "php_lib \<Rightarrow> xml_node \<Rightarrow> xml_view" where
  "node_view lib (XmlNode t x as cs) =
     View t (map attr_view (with_encoding x as)) (map (node_view lib) cs) (map_option (section_view lib) x)"

text \<open>Nodes with tags without blanks and angle brackets, and with texts that are encoded when they contain the end
  mark.\<close>

definition text_ok :: "xml_text_node \<Rightarrow> bool" where
  "text_ok t \<longleftrightarrow> (xt_encode t \<or> \<not> sublist '']]>'' (cstr (xt_text t))) \<and> 0 \<le> xt_len t \<and> nat (xt_len t) \<le> length (xt_text t)"

fun node_ok :: "xml_node \<Rightarrow> bool" where
  "node_ok (XmlNode t x as cs) \<longleftrightarrow>
     tag_ok t \<and> (\<forall>c\<in>set cs. node_ok c) \<and> (\<forall>y. x = Some y \<longrightarrow> text_ok y)"

lemma strstr_None: "strstr needle s p = None \<longleftrightarrow> \<not> sublist needle s"
  by (induction s arbitrary: p) (auto simp: sublist_Cons_right)

text \<open>A tree is made with the functions of \<open>xdebug_xml.c\<close>, from tags that are names and from texts with a length that
  is not beyond their end. Names and values of attributes and the bytes of texts are arbitrary.\<close>

inductive built :: "xml_node \<Rightarrow> bool" where
  built_init: "tag_ok t \<Longrightarrow> built (xml_node_init t)"
| built_attribute: "built x \<Longrightarrow> built (xml_add_attribute_ex a v x)"
| built_child: "built x \<Longrightarrow> built c \<Longrightarrow> built (xml_add_child x c)"
| built_text: "built x \<Longrightarrow> 0 \<le> len \<Longrightarrow> nat len \<le> length t \<Longrightarrow> built (xml_add_text_ex t len encode x)"

text \<open>The check of \<open>xdebug_xml_add_text_ex\<close> keeps the end mark out of plain text sections.\<close>

lemma text_ex_ok: "node_ok x \<Longrightarrow> 0 \<le> len \<Longrightarrow> nat len \<le> length t \<Longrightarrow> node_ok (xml_add_text_ex t len encode x)"
  by (cases x) (auto simp: xml_add_text_ex_def text_ok_def strstr_None)

lemma node_ok_build:
  "tag_ok t \<Longrightarrow> node_ok (xml_node_init t)"
  "node_ok x \<Longrightarrow> node_ok (xml_add_attribute_ex a v x)"
  "node_ok x \<Longrightarrow> node_ok c \<Longrightarrow> node_ok (xml_add_child x c)"
  "node_ok x \<Longrightarrow> node_ok (xml_add_text t x)"
  by (cases x; auto simp: xml_node_init_def xml_add_attribute_ex_def xml_add_child_def xml_add_text_def text_ex_ok)+

lemma built_ok: "built x \<Longrightarrow> node_ok x"
  by (induction rule: built.induct) (simp_all add: node_ok_build text_ex_ok)

lemma base64_section:
  assumes "encodes lib"
  shows "\<not> sublist '']]>'' (base64_encode lib s)" "cstr (base64_encode lib s) = base64_encode lib s"
proof -
  have c: "\<forall>c\<in>set (base64_encode lib s). base64_char c" using assms by (simp add: encodes_def)
  then have "CHR '']'' \<notin> set (base64_encode lib s)" "nul \<notin> set (base64_encode lib s)"
    by (auto simp: base64_char_def isdigit_def uchar_def nul_def)
  then show "\<not> sublist '']]>'' (base64_encode lib s)" "cstr (base64_encode lib s) = base64_encode lib s"
    by (auto simp: sublist_def nul_def cstr_no_nul)
qed

lemma node_view_ok: "encodes lib \<Longrightarrow> node_ok n \<Longrightarrow> view_ok (node_view lib n)"
  by (induction n) (auto simp: section_view_def text_ok_def base64_section)

lemma return_attribute_writes:
  assumes "replaces lib" and "length (attr_text (attr_view a)) < 2 ^ 31"
  shows "writes (return_attribute junk lib a) (attr_text (attr_view a))"
proof -
  have c: "cstr (entities v) = entities v" for v
    using entities_clean [of v] by (intro cstr_no_nul) (auto simp: nul_def)
  show ?thesis
  proof (cases "at_value a")
    case None
    have "writes (return_attribute junk lib a)
        ('' '' @ entities (at_name a) @ (CHR ''='' # [CHR 0x22]) @ [] @ [CHR 0x22])"
      unfolding return_attribute_def Let_def None option.case xmlize_entities [OF assms(1)]
      by (intro writes_intros) (simp_all add: eta_contract_eq)
    then show ?thesis using None by (simp add: attr_text_def attr_view_def quote_mark_def entities_def)
  next
    case (Some v)
    have "length (entities v) < 2 ^ 31" using assms(2) Some by (simp add: attr_text_def attr_view_def)
    then have "writes (return_attribute junk lib a)
        ('' '' @ entities (at_name a) @ (CHR ''='' # [CHR 0x22]) @ entities v @ [CHR 0x22])"
      unfolding return_attribute_def Let_def Some option.case xmlize_entities [OF assms(1)] c
      by (intro writes_intros) (simp_all add: eta_contract_eq)
    then show ?thesis using Some by (simp add: attr_text_def attr_view_def quote_mark_def)
  qed
qed


lemma return_attributes_writes:
  assumes "replaces lib" and "length (concat (map attr_text (map attr_view as))) < 2 ^ 31"
  shows "writes (return_attributes junk lib as) (concat (map attr_text (map attr_view as)))"
  using assms(2)
proof (induction as)
  case Nil
  have "return_attributes junk lib [] = Some" by (rule ext) simp
  then show ?case by (simp add: writes_nothing)
next
  case (Cons a as)
  have "return_attributes junk lib (a # as) =
      (\<lambda>out. Option.bind (return_attribute junk lib a out) (return_attributes junk lib as))"
    by (rule ext) simp
  then show ?case
    using writes_bind [OF return_attribute_writes [OF assms(1)] Cons.IH, of a junk] Cons.prems by simp
qed

lemma return_text_writes:
  assumes "encodes lib" and "text_ok t" and "length (section_view lib t) < 2 ^ 31"
  shows "writes (return_text_node junk lib t) (''<![CDATA['' @ section_view lib t @ '']]>'')"
proof (cases "xt_encode t")
  case True
  have p: "peek (xt_text t) (xt_len t) = Some (take (nat (xt_len t)) (xt_text t))"
    using assms(2) by (simp add: text_ok_def peek_def)
  have "length (base64_encode lib (take (nat (xt_len t)) (xt_text t))) < 2 ^ 31"
    using assms(3) True by (simp add: section_view_def)
  then show ?thesis
    unfolding return_text_node_def section_view_def if_P [OF True] p Option.bind_lunit base64_section(2) [OF assms(1)]
    by (intro writes_intros) simp_all
next
  case False
  then have "length (cstr (xt_text t)) < 2 ^ 31" using assms(3) by (simp add: section_view_def)
  then show ?thesis
    unfolding return_text_node_def section_view_def if_not_P [OF False]
    by (intro writes_intros) simp_all
qed

lemma return_nodes_writes:
  assumes "\<And>n. n \<in> set ns \<Longrightarrow> length (view_text (node_view lib n)) < 2 ^ 31 \<Longrightarrow>
      writes (return_node junk lib n) (view_text (node_view lib n))"
    and "length (concat (map view_text (map (node_view lib) ns))) < 2 ^ 31"
  shows "writes (return_nodes junk lib ns) (concat (map view_text (map (node_view lib) ns)))"
  using assms
proof (induction ns)
  case Nil
  have "return_nodes junk lib [] = Some" by (rule ext) simp
  then show ?case by (simp add: writes_nothing)
next
  case (Cons n ns)
  have "return_nodes junk lib (n # ns) = (\<lambda>out. Option.bind (return_node junk lib n out) (return_nodes junk lib ns))"
    by (rule ext) simp
  moreover have "writes (return_node junk lib n) (view_text (node_view lib n))"
    using Cons.prems by simp
  moreover have "writes (return_nodes junk lib ns) (concat (map view_text (map (node_view lib) ns)))"
    by (rule Cons.IH) (use Cons.prems in simp_all)
  ultimately show ?case using writes_bind by simp
qed

lemma return_node_writes:
  assumes "replaces lib" and "encodes lib"
  shows "node_ok n \<Longrightarrow> length (view_text (node_view lib n)) < 2 ^ 31 \<Longrightarrow>
    writes (return_node junk lib n) (view_text (node_view lib n))"
proof (induction n)
  case (XmlNode t x as cs)
  define cd where "cd = (case x of None \<Rightarrow> [] | Some y \<Rightarrow> ''<![CDATA['' @ section_view lib y @ '']]>'')"
  have len: "length t < 2 ^ 31" "length (concat (map attr_text (map attr_view (with_encoding x as)))) < 2 ^ 31"
    "length (concat (map view_text (map (node_view lib) cs))) < 2 ^ 31" "length cd < 2 ^ 31"
    using XmlNode.prems(2) by (auto simp: cd_def split: option.splits)
  have kids: "writes (return_nodes junk lib cs) (concat (map view_text (map (node_view lib) cs)))"
    by (rule return_nodes_writes) (use XmlNode.IH XmlNode.prems(1) len(3) in simp_all)
  have sec: "writes (\<lambda>out. case x of None \<Rightarrow> Some out | Some y \<Rightarrow> return_text_node junk lib y out) cd"
  proof (cases x)
    case None
    then show ?thesis by (simp add: cd_def writes_nothing)
  next
    case (Some y)
    then show ?thesis
      using return_text_writes [OF assms(2), of y junk] XmlNode.prems(1) len(4) by (simp add: cd_def)
  qed
  have eq: "return_node junk lib (XmlNode t x as cs) = (\<lambda>out. do {
       out \<leftarrow> str_addl junk ''<'' 1 out;
       out \<leftarrow> str_add junk t out;
       out \<leftarrow> return_attributes junk lib (with_encoding x as) out;
       out \<leftarrow> str_addl junk ''>'' 1 out;
       out \<leftarrow> return_nodes junk lib cs out;
       out \<leftarrow> (case x of None \<Rightarrow> Some out | Some t \<Rightarrow> return_text_node junk lib t out);
       out \<leftarrow> str_addl junk ''</'' 2 out;
       out \<leftarrow> str_add junk t out;
       str_addl junk ''>'' 1 out
     })"
    by (rule ext) simp
  have "writes (return_node junk lib (XmlNode t x as cs))
    (''<'' @ t @ concat (map attr_text (map attr_view (with_encoding x as))) @ ''>'' @
     concat (map view_text (map (node_view lib) cs)) @ cd @ ''</'' @ t @ ''>'')"
    unfolding eq
    by (intro writes_intros return_attributes_writes [OF assms(1) len(2)] kids sec len(1)) simp_all
  moreover have "view_text (node_view lib (XmlNode t x as cs)) =
    ''<'' @ t @ concat (map attr_text (map attr_view (with_encoding x as))) @ ''>'' @
     concat (map view_text (map (node_view lib) cs)) @ cd @ ''</'' @ t @ ''>''"
    by (simp add: cd_def split: option.splits)
  ultimately show ?case by (simp only:)
qed

section \<open>Properties\<close>

text \<open>C26: What is written for a tree that was built with the functions of \<open>xdebug_xml.c\<close> determines what it says: two
  such trees, shorter than 2 GiB each, give the same text exactly when they have the same view, that is the same tags,
  the same attributes with the same values in the same order, the same children in the same order and the same text
  sections (in base64 and marked by an attribute when they are encoded, as all texts with the end mark of a
  section are, and up to the first zero byte otherwise). So no attribute and no text, whatever bytes the debugged
  program puts there, can be taken for another part of the tree; only the tags, which the code chooses, are assumed to
  be names.\<close>

theorem xml_unambiguous:
  assumes "replaces lib" and "encodes lib" and "built m" and "built n"
    and "length (view_text (node_view lib m)) < 2 ^ 31" and "length (view_text (node_view lib n)) < 2 ^ 31"
  shows "\<exists>rm rn. return_node junk lib m str_new = Some rm \<and> return_node junk lib n str_new = Some rn \<and>
    (content rm = content rn \<longleftrightarrow> node_view lib m = node_view lib n)"
proof -
  note ok = built_ok [OF assms(3)] built_ok [OF assms(4)]
  obtain rm where rm: "return_node junk lib m str_new = Some rm" "content rm = view_text (node_view lib m)"
    using writesD [OF return_node_writes [OF assms(1,2) ok(1) assms(5)] str_wf_new(1)] by auto
  obtain rn where rn: "return_node junk lib n str_new = Some rn" "content rn = view_text (node_view lib n)"
    using writesD [OF return_node_writes [OF assms(1,2) ok(2) assms(6)] str_wf_new(1)] by auto
  have "node_view lib m = node_view lib n" if "content rm = content rn"
    using view_text_inj [OF node_view_ok [OF assms(2) ok(1)] node_view_ok [OF assms(2) ok(2)], of "[]" "[]"] that rm rn
    by simp
  then show ?thesis using rm rn by auto
qed


text \<open>A library for the example: it replaces characters, and encodes bytes as two hexadecimal digits.\<close>

definition sample_lib :: php_lib where
  "sample_lib = \<lparr>str_to_str = (\<lambda>s needle t. concat (map (\<lambda>d. if [d] = needle then t else [d]) s)),
     base64_encode = (\<lambda>s. concat (map (\<lambda>c. [hexchars ! (uchar c div 16), hexchars ! (uchar c mod 16)]) s))\<rparr>"

lemma sample_lib_ok: "replaces sample_lib" "encodes sample_lib"
proof -
  show "replaces sample_lib" by (simp add: replaces_def sample_lib_def)
  define h where "h c = [hexchars ! (uchar c div 16), hexchars ! (uchar c mod 16)]" for c
  have h: "c = d" if "h c = h d" for c d
    using that unfolding h_def by (metis htoi_hexchars list.inject)
  have "s = t" if "concat (map h s) = concat (map h t)" for s t
    using that
  proof (induction s arbitrary: t)
    case Nil
    then show ?case by (cases t) (auto simp: h_def)
  next
    case (Cons c s)
    then obtain d t' where t: "t = d # t'" by (cases t) (auto simp: h_def)
    then have "h c = h d \<and> concat (map h s) = concat (map h t')"
      using Cons.prems by (simp add: h_def [abs_def])
    then show ?case using Cons.IH h t by simp
  qed
  then have "inj (base64_encode sample_lib)"
    unfolding sample_lib_def h_def [abs_def, symmetric] by (auto intro: injI)
  moreover have "base64_char (hexchars ! n)" if "n < 16" for n
  proof -
    have "list_all (\<lambda>n. base64_char (hexchars ! n)) [0..<16]" by code_simp
    then show ?thesis using that by (simp add: list_all_iff)
  qed
  then have "\<forall>c\<in>set (base64_encode sample_lib s). base64_char c" for s
    using nibble_bounds by (auto simp: sample_lib_def)
  ultimately show "encodes sample_lib" by (simp add: encodes_def)
qed

theorem xml_unambiguous_witness:
  "\<exists>rm rn. return_node nul sample_lib (xml_add_attribute_ex ''name'' (CHR 0x22 # ''/><x'') (xml_node_init ''p'')) str_new = Some rm \<and>
    return_node nul sample_lib (xml_add_text '']]><x>'' (xml_node_init ''p'')) str_new = Some rn \<and>
    content rm \<noteq> content rn"
proof -
  define m where "m = xml_add_attribute_ex ''name'' (CHR 0x22 # ''/><x'') (xml_node_init ''p'')"
  define n where "n = xml_add_text '']]><x>'' (xml_node_init ''p'')"
  have ok: "built m" "built n"
    unfolding m_def n_def xml_add_text_def by (intro built.intros; simp add: tag_ok_def)+
  have v: "node_view sample_lib m = View ''p'' [(''name'', CHR 0x22 # ''/><x'')] [] None"
    "node_view sample_lib n = View ''p'' [(''encoding'', ''base64'')] [] (Some ''5D5D3E3C783E'')"
    unfolding m_def n_def by code_simp+
  have "length (view_text (node_view sample_lib m)) = 31" "length (view_text (node_view sample_lib n)) = 49"
    unfolding v by code_simp+
  then show ?thesis
    using xml_unambiguous [OF sample_lib_ok ok, of nul] v unfolding m_def n_def by simp
qed

end
