(* ===== verification/DbgpParse.thy ===== *)
theory DbgpParse
  imports Escapes Str
begin

text \<open>
  The parser of debugger commands in \<open>xdebug_handler_dbgp.c\<close>: a command name and options \<open>-x value\<close>, where
  a value may be quoted and the value of \<open>--\<close> is the rest of the line. The states of the machine are the
  \<open>STATE\<close> constants, pointers into the line are offsets. A write outside the array of values is \<open>None\<close>.
\<close>

section \<open>Data\<close>

datatype parse_state = STATE_NORMAL | STATE_QUOTED | STATE_OPT_FOLLOWS | STATE_SEP_FOLLOWS
  | STATE_VALUE_FOLLOWS_FIRST_CHAR | STATE_VALUE_FOLLOWS | STATE_SKIP_CHAR | STATE_ESCAPED_CHAR_FOLLOWS

text \<open>The values of the options \<open>-a\<close> to \<open>-z\<close> and of \<open>--\<close>.\<close>

type_synonym dbgp_arg = "xstr option list"

definition no_args :: dbgp_arg where
  "no_args = replicate 27 None"

record parser =
  p_state :: parse_state
  charescaped :: bool
  opt :: char
  value_begin :: nat
  p_args :: dbgp_arg

definition XDEBUG_ERROR_OK :: int where "XDEBUG_ERROR_OK = 0"
definition XDEBUG_ERROR_PARSE :: int where "XDEBUG_ERROR_PARSE = 1"
definition XDEBUG_ERROR_DUP_ARG :: int where "XDEBUG_ERROR_DUP_ARG = 2"

section \<open>The machine\<close>

definition opt_index :: "char \<Rightarrow> int" where
  "opt_index c = (if c = CHR ''-'' then 26 else schar c - schar (CHR ''a''))"

text \<open>\<open>args->value[i]\<close>; outside the array is \<open>None\<close>.\<close>

definition arg_at :: "dbgp_arg \<Rightarrow> int \<Rightarrow> xstr option option" where
  "arg_at args i = (if 0 \<le> i \<and> nat i < length args then Some (args ! nat i) else None)"

text \<open>Storing a value: \<open>Inl\<close> is the jump to \<open>duplicate_opts\<close>.\<close>

definition store :: "parser \<Rightarrow> xstr option \<Rightarrow> parse_state \<Rightarrow> (int + parser) option" where
  "store ps create next =
     do {
       old \<leftarrow> arg_at (p_args ps) (opt_index (opt ps));
       if old = None
       then do {
         v \<leftarrow> create;
         Some (Inr (ps\<lparr>p_args := (p_args ps)[nat (opt_index (opt ps)) := Some v], p_state := next\<rparr>))
       }
       else Some (Inl XDEBUG_ERROR_DUP_ARG)
     }"

text \<open>One turn of the loop: the character \<open>c\<close> at offset \<open>ptr\<close> of the line.\<close>

definition parse_char :: "char \<Rightarrow> string \<Rightarrow> nat \<Rightarrow> char \<Rightarrow> parser \<Rightarrow> (int + parser) option" where
  "parse_char junk line ptr c ps =
     (case p_state ps of
        STATE_NORMAL \<Rightarrow>
          Some (if c \<noteq> CHR ''-'' then Inl XDEBUG_ERROR_PARSE else Inr (ps\<lparr>p_state := STATE_OPT_FOLLOWS\<rparr>))
      | STATE_OPT_FOLLOWS \<Rightarrow> Some (Inr (ps\<lparr>opt := c, p_state := STATE_SEP_FOLLOWS\<rparr>))
      | STATE_SEP_FOLLOWS \<Rightarrow>
          Some (if c \<noteq> CHR '' '' then Inl XDEBUG_ERROR_PARSE
                else Inr (ps\<lparr>p_state := STATE_VALUE_FOLLOWS_FIRST_CHAR, value_begin := ptr + 1\<rparr>))
      | STATE_VALUE_FOLLOWS_FIRST_CHAR \<Rightarrow>
          Some (Inr (if c = CHR 0x22 \<and> opt ps \<noteq> CHR ''-''
                     then ps\<lparr>value_begin := ptr + 1, p_state := STATE_QUOTED\<rparr>
                     else ps\<lparr>p_state := STATE_VALUE_FOLLOWS\<rparr>))
      | STATE_VALUE_FOLLOWS \<Rightarrow>
          (if (c = CHR '' '' \<and> opt ps \<noteq> CHR ''-'') \<or> c = nul
           then store ps (str_create junk (drop (value_begin ps) line) (ptr - value_begin ps)) STATE_NORMAL
           else Some (Inr ps))
      | STATE_QUOTED \<Rightarrow>
          (if c = CHR 0x5C then Some (Inr (ps\<lparr>p_state := STATE_ESCAPED_CHAR_FOLLOWS\<rparr>))
           else if c = CHR 0x22 then
             (if charescaped ps then Some (Inr (ps\<lparr>charescaped := False\<rparr>))
              else store ps
                (do {
                   v \<leftarrow> str_create junk (drop (value_begin ps) line) (ptr - value_begin ps);
                   d \<leftarrow> str_d v;
                   (d, len) \<leftarrow> stripcslashes d (int (ptr - value_begin ps));
                   Some (v\<lparr>str_d := Some d, str_l := len\<rparr>)
                 }) STATE_SKIP_CHAR)
           else Some (Inr ps))
      | STATE_SKIP_CHAR \<Rightarrow> Some (Inr (ps\<lparr>p_state := STATE_NORMAL\<rparr>))
      | STATE_ESCAPED_CHAR_FOLLOWS \<Rightarrow> Some (Inr (ps\<lparr>p_state := STATE_QUOTED\<rparr>)))"

text \<open>The \<open>do\<close> loop over the characters from offset \<open>ptr\<close> on, ended by the zero.\<close>

fun parse_loop :: "char \<Rightarrow> string \<Rightarrow> nat \<Rightarrow> string \<Rightarrow> parser \<Rightarrow> (int \<times> dbgp_arg) option" where
  "parse_loop junk line ptr [] ps = None"
| "parse_loop junk line ptr (c # cs) ps =
     do {
       r \<leftarrow> parse_char junk line ptr c ps;
       case r of
         Inl code \<Rightarrow> Some (code, p_args ps)
       | Inr ps \<Rightarrow> if c = nul then Some (XDEBUG_ERROR_OK, p_args ps) else parse_loop junk line (ptr + 1) cs ps
     }"

text \<open>The code, the command name (NULL only for an empty line) and the values.\<close>

definition parse_cmd :: "char \<Rightarrow> string \<Rightarrow> (int \<times> string option \<times> dbgp_arg) option" where
  "parse_cmd junk line =
     (case split_at (CHR '' '') line of
        (cmd, None) \<Rightarrow>
          Some (if line \<noteq> [] then (XDEBUG_ERROR_OK, Some cmd, no_args) else (XDEBUG_ERROR_PARSE, None, no_args))
      | (cmd, Some rest) \<Rightarrow>
          do {
            (code, args) \<leftarrow> parse_loop junk line (length cmd + 1) (rest @ [nul])
              \<lparr>p_state = STATE_NORMAL, charescaped = False, opt = CHR '' '', value_begin = 0, p_args = no_args\<rparr>;
            Some (code, Some cmd, args)
          })"

text \<open>\<open>CMD_OPTION_SET\<close>, \<open>CMD_OPTION_CHAR\<close> and \<open>CMD_OPTION_LEN\<close>.\<close>

definition option_set :: "dbgp_arg \<Rightarrow> char \<Rightarrow> bool" where
  "option_set args c \<longleftrightarrow> args ! nat (opt_index c) \<noteq> None"

definition option_char :: "dbgp_arg \<Rightarrow> char \<Rightarrow> string" where
  "option_char args c =
     (case args ! nat (opt_index c) of None \<Rightarrow> [] | Some v \<Rightarrow> (case str_d v of None \<Rightarrow> [] | Some d \<Rightarrow> cstr d))"

definition option_len :: "dbgp_arg \<Rightarrow> char \<Rightarrow> int" where
  "option_len args c = (case args ! nat (opt_index c) of None \<Rightarrow> 0 | Some v \<Rightarrow> str_l v)"

section \<open>Commands as text\<close>

text \<open>How a client writes a command: plain values, quoted ones, and data that ends the line.\<close>

datatype opt_value = Plain string | Quoted string

fun value_text :: "opt_value \<Rightarrow> string" where
  "value_text (Plain v) = v"
| "value_text (Quoted v) = [CHR 0x22] @ escape v @ [CHR 0x22]"

fun the_value :: "opt_value \<Rightarrow> string" where
  "the_value (Plain v) = v"
| "the_value (Quoted v) = v"

fun value_ok :: "opt_value \<Rightarrow> bool" where
  "value_ok (Plain v) \<longleftrightarrow> v \<noteq> [] \<and> hd v \<noteq> CHR 0x22 \<and> CHR '' '' \<notin> set v \<and> nul \<notin> set v"
| "value_ok (Quoted v) \<longleftrightarrow> nul \<notin> set v"

definition opt_text :: "char \<times> opt_value \<Rightarrow> string" where
  "opt_text ov = '' -'' @ [fst ov] @ '' '' @ value_text (snd ov)"

definition data_text :: "string option \<Rightarrow> string" where
  "data_text data = (case data of None \<Rightarrow> [] | Some d \<Rightarrow> '' -- '' @ d)"

definition command_text :: "string \<Rightarrow> (char \<times> opt_value) list \<Rightarrow> string option \<Rightarrow> string" where
  "command_text cmd opts data = cmd @ concat (map opt_text opts) @ data_text data"

definition letter :: "char \<Rightarrow> bool" where
  "letter c \<longleftrightarrow> 97 \<le> uchar c \<and> uchar c \<le> 122"


section \<open>Running over one option\<close>

abbreviation parser_at :: "parse_state \<Rightarrow> char \<Rightarrow> nat \<Rightarrow> dbgp_arg \<Rightarrow> parser" where
  "parser_at st c vb args \<equiv> \<lparr>p_state = st, charescaped = False, opt = c, value_begin = vb, p_args = args\<rparr>"

lemma plain_run:
  assumes "\<forall>d\<in>set u. d \<noteq> nul \<and> (d = CHR '' '' \<longrightarrow> c = CHR ''-'')"
  shows "parse_loop junk line ptr (u @ cs) (parser_at STATE_VALUE_FOLLOWS c vb args) =
    parse_loop junk line (ptr + length u) cs (parser_at STATE_VALUE_FOLLOWS c vb args)"
  using assms
proof (induction u arbitrary: ptr)
  case (Cons d u)
  then show ?case by (auto simp: parse_char_def)
qed simp

lemma quoted_run:
  assumes "nul \<notin> set v"
  shows "parse_loop junk line ptr (escape v @ cs) (parser_at STATE_QUOTED c vb args) =
    parse_loop junk line (ptr + length (escape v)) cs (parser_at STATE_QUOTED c vb args)"
  using assms
proof (induction v arbitrary: ptr)
  case (Cons d v)
  then show ?case by (auto simp: parse_char_def nul_def)
qed simp

text \<open>The text from an option's minus sign to the end of its value.\<close>

definition body :: "char \<times> opt_value \<Rightarrow> string" where
  "body ov = CHR ''-'' # fst ov # CHR '' '' # value_text (snd ov)"

definition item_ok :: "char \<times> opt_value \<Rightarrow> bool" where
  "item_ok ov \<longleftrightarrow>
     (letter (fst ov) \<and> value_ok (snd ov)) \<or>
     (fst ov = CHR ''-'' \<and> (\<exists>d. snd ov = Plain d \<and> d \<noteq> [] \<and> nul \<notin> set d))"

lemma letter_not_minus: "letter c \<Longrightarrow> c \<noteq> CHR ''-'' \<and> c \<noteq> nul"
  by (auto simp: letter_def uchar_def nul_def)

lemma start_run:
  assumes "c \<noteq> nul"
  shows "parse_loop junk line ptr (CHR ''-'' # c # CHR '' '' # cs) (parser_at STATE_NORMAL o0 vb args) =
    parse_loop junk line (ptr + 3) cs (parser_at STATE_VALUE_FOLLOWS_FIRST_CHAR c (ptr + 3) args)"
  using assms by (simp add: parse_char_def nul_def numeral_3_eq_3)

lemma plain_value:
  assumes "v \<noteq> []" and "nul \<notin> set v" and "c = CHR ''-'' \<or> hd v \<noteq> CHR 0x22 \<and> CHR '' '' \<notin> set v"
    and "sep = nul \<or> sep = CHR '' '' \<and> c \<noteq> CHR ''-''" and "line @ [nul] = pre @ v @ sep # cs"
    and "arg_at args (opt_index c) = Some old"
  shows "old = None \<Longrightarrow> \<exists>x. str_wf x \<and> content x = v \<and>
      parse_loop junk line (length pre) (v @ sep # cs) (parser_at STATE_VALUE_FOLLOWS_FIRST_CHAR c (length pre) args) =
      (if sep = nul then Some (XDEBUG_ERROR_OK, args[nat (opt_index c) := Some x])
       else parse_loop junk line (length pre + length v + 1) cs
         (parser_at STATE_NORMAL c (length pre) (args[nat (opt_index c) := Some x])))"
  and "old \<noteq> None \<Longrightarrow>
      parse_loop junk line (length pre) (v @ sep # cs) (parser_at STATE_VALUE_FOLLOWS_FIRST_CHAR c (length pre) args) =
      Some (XDEBUG_ERROR_DUP_ARG, args)"
proof -
  obtain a u where v: "v = a # u" using assms(1) by (cases v) auto
  have "parse_loop junk line (length pre) (v @ sep # cs) (parser_at STATE_VALUE_FOLLOWS_FIRST_CHAR c (length pre) args) =
      parse_loop junk line (length pre + 1) (u @ sep # cs) (parser_at STATE_VALUE_FOLLOWS c (length pre) args)"
    using assms(2,3) v by (auto simp: parse_char_def)
  also have "\<dots> = parse_loop junk line (length pre + length v) (sep # cs) (parser_at STATE_VALUE_FOLLOWS c (length pre) args)"
    using assms(2,3) v by (subst plain_run) auto
  finally have run: "parse_loop junk line (length pre) (v @ sep # cs)
      (parser_at STATE_VALUE_FOLLOWS_FIRST_CHAR c (length pre) args) =
    parse_loop junk line (length pre + length v) (sep # cs) (parser_at STATE_VALUE_FOLLOWS c (length pre) args)" .
  have line: "take (length v) (drop (length pre) line) = v" "length v \<le> length (drop (length pre) line)"
  proof -
    have "line = butlast (pre @ v @ sep # cs)" using assms(5) by (metis butlast_snoc)
    then have "line = pre @ v @ butlast (sep # cs)" by (simp add: butlast_append)
    then show "take (length v) (drop (length pre) line) = v" "length v \<le> length (drop (length pre) line)" by simp_all
  qed
  obtain x where x: "str_create junk (drop (length pre) line) (length v) = Some x" "str_wf x" "content x = v"
    using str_create_ok [OF line(2), of junk] line(1) by auto
  show "old \<noteq> None \<Longrightarrow>
      parse_loop junk line (length pre) (v @ sep # cs) (parser_at STATE_VALUE_FOLLOWS_FIRST_CHAR c (length pre) args) =
      Some (XDEBUG_ERROR_DUP_ARG, args)"
    unfolding run using assms(4,6) by (auto simp: parse_char_def store_def)
  assume "old = None"
  then have "parse_loop junk line (length pre + length v) (sep # cs) (parser_at STATE_VALUE_FOLLOWS c (length pre) args) =
      (if sep = nul then Some (XDEBUG_ERROR_OK, args[nat (opt_index c) := Some x])
       else parse_loop junk line (length pre + length v + 1) cs
         (parser_at STATE_NORMAL c (length pre) (args[nat (opt_index c) := Some x])))"
    using assms(4,6) x(1) by (auto simp: parse_char_def store_def)
  then show "\<exists>x. str_wf x \<and> content x = v \<and>
      parse_loop junk line (length pre) (v @ sep # cs) (parser_at STATE_VALUE_FOLLOWS_FIRST_CHAR c (length pre) args) =
      (if sep = nul then Some (XDEBUG_ERROR_OK, args[nat (opt_index c) := Some x])
       else parse_loop junk line (length pre + length v + 1) cs
         (parser_at STATE_NORMAL c (length pre) (args[nat (opt_index c) := Some x])))"
    using run x by auto
qed


lemma create_strip:
  assumes "take (length (escape v)) s = escape v" and "length (escape v) \<le> length s"
  shows "\<exists>x. (do {
      w \<leftarrow> str_create junk s (length (escape v));
      d \<leftarrow> str_d w;
      (d, len) \<leftarrow> stripcslashes d (int (length (escape v)));
      Some (w\<lparr>str_d := Some d, str_l := len\<rparr>)
    }) = Some x \<and> str_wf x \<and> content x = v"
proof -
  define e where "e = length (escape v)"
  have le: "length v \<le> e" unfolding e_def by (induction v) auto
  obtain w where w: "str_create junk s e = Some w" "str_wf w" "content w = escape v"
    using str_create_ok [of e s junk] assms by (auto simp: e_def)
  have a: "str_a w = int e + 1" "str_l w = int e"
    using w(1) by (auto simp: str_create_def split: Option.bind_splits)
  obtain d where d: "str_d w = Some d" "length d = e + 1" "take e d = escape v" "d ! e = nul"
    using w a by (auto simp: str_wf_def content_def e_def split: option.splits)
  have st: "strip_loop (take e d) = (v, int e - int (length v))"
    using strip_escape [of v] d(3) by (simp add: e_def)
  show ?thesis
  proof (cases "v = []")
    case True
    then show ?thesis
      using w d a by (auto simp: stripcslashes_def e_def str_wf_def content_def)
  next
    case False
    then have "stripcslashes d (int e) = Some (v @ [nul] @ drop (length v + 1) d, int (length v))"
      using d(2) st le by (simp add: stripcslashes_def)
    then show ?thesis
      using w(1) d(1,2) a le unfolding e_def [symmetric]
      by (auto simp: str_wf_def content_def nth_append)
  qed
qed

lemma quoted_value:
  assumes "nul \<notin> set v" and "c \<noteq> CHR ''-''" and "sep = nul \<or> sep = CHR '' ''"
    and "line @ [nul] = pre @ value_text (Quoted v) @ sep # cs" and "arg_at args (opt_index c) = Some old"
  shows "old = None \<Longrightarrow> \<exists>x vb. str_wf x \<and> content x = v \<and>
      parse_loop junk line (length pre) (value_text (Quoted v) @ sep # cs)
        (parser_at STATE_VALUE_FOLLOWS_FIRST_CHAR c (length pre) args) =
      (if sep = nul then Some (XDEBUG_ERROR_OK, args[nat (opt_index c) := Some x])
       else parse_loop junk line (length pre + length (value_text (Quoted v)) + 1) cs
         (parser_at STATE_NORMAL c vb (args[nat (opt_index c) := Some x])))"
  and "old \<noteq> None \<Longrightarrow>
      parse_loop junk line (length pre) (value_text (Quoted v) @ sep # cs)
        (parser_at STATE_VALUE_FOLLOWS_FIRST_CHAR c (length pre) args) =
      Some (XDEBUG_ERROR_DUP_ARG, args)"
proof -
  have run: "parse_loop junk line (length pre) (value_text (Quoted v) @ sep # cs)
      (parser_at STATE_VALUE_FOLLOWS_FIRST_CHAR c (length pre) args) =
    parse_loop junk line (length pre + 1 + length (escape v)) (CHR 0x22 # sep # cs)
      (parser_at STATE_QUOTED c (length pre + 1) args)"
    using assms(1,2) quoted_run [of v junk line "length pre + 1" "CHR 0x22 # sep # cs"]
    by (simp add: parse_char_def nul_def)
  define q where "q = drop (length pre + 1) line"
  have "line = butlast (pre @ value_text (Quoted v) @ sep # cs)" using assms(4) by (metis butlast_snoc)
  then have "line = pre @ [CHR 0x22] @ escape v @ [CHR 0x22] @ butlast (sep # cs)" by (simp add: butlast_append)
  then have q: "take (length (escape v)) q = escape v" "length (escape v) \<le> length q"
    by (simp_all add: q_def)
  obtain x where x: "(do {
      w \<leftarrow> str_create junk q (length (escape v));
      d \<leftarrow> str_d w;
      (d, len) \<leftarrow> stripcslashes d (int (length (escape v)));
      Some (w\<lparr>str_d := Some d, str_l := len\<rparr>)
    }) = Some x" "str_wf x" "content x = v"
    using create_strip [OF q] by blast
  have pc: "parse_char junk line (length pre + 1 + length (escape v)) (CHR 0x22)
      (parser_at STATE_QUOTED c (length pre + 1) args) =
    store (parser_at STATE_QUOTED c (length pre + 1) args) (Some x) STATE_SKIP_CHAR"
    using x(1) by (simp add: parse_char_def q_def)
  show "old \<noteq> None \<Longrightarrow>
      parse_loop junk line (length pre) (value_text (Quoted v) @ sep # cs)
        (parser_at STATE_VALUE_FOLLOWS_FIRST_CHAR c (length pre) args) =
      Some (XDEBUG_ERROR_DUP_ARG, args)"
    unfolding run using assms(5) by (simp only: parse_loop.simps(2) pc) (auto simp: store_def)
  assume "old = None"
  then have "parse_loop junk line (length pre + 1 + length (escape v)) (CHR 0x22 # sep # cs)
      (parser_at STATE_QUOTED c (length pre + 1) args) =
     parse_loop junk line (length pre + length (value_text (Quoted v))) (sep # cs)
       (parser_at STATE_SKIP_CHAR c (length pre + 1) (args[nat (opt_index c) := Some x]))"
    using assms(5) by (subst parse_loop.simps(2), simp only: pc) (simp add: store_def nul_def)
  also have "\<dots> = (if sep = nul then Some (XDEBUG_ERROR_OK, args[nat (opt_index c) := Some x])
       else parse_loop junk line (length pre + length (value_text (Quoted v)) + 1) cs
         (parser_at STATE_NORMAL c (length pre + 1) (args[nat (opt_index c) := Some x])))"
    by (simp add: parse_char_def)
  finally show "\<exists>x vb. str_wf x \<and> content x = v \<and>
      parse_loop junk line (length pre) (value_text (Quoted v) @ sep # cs)
        (parser_at STATE_VALUE_FOLLOWS_FIRST_CHAR c (length pre) args) =
      (if sep = nul then Some (XDEBUG_ERROR_OK, args[nat (opt_index c) := Some x])
       else parse_loop junk line (length pre + length (value_text (Quoted v)) + 1) cs
         (parser_at STATE_NORMAL c vb (args[nat (opt_index c) := Some x])))"
    using run x(2,3) by metis
qed


section \<open>Running over all options\<close>

fun bodies :: "(char \<times> opt_value) list \<Rightarrow> string" where
  "bodies [] = [nul]"
| "bodies [i] = body i @ [nul]"
| "bodies (i # j # is) = body i @ CHR '' '' # bodies (j # is)"

text \<open>One option: its value is stored and the machine is where it was before.\<close>

lemma item_run:
  assumes "item_ok (c, v)" and "sep = nul \<or> sep = CHR '' '' \<and> c \<noteq> CHR ''-''"
    and "line @ [nul] = pre @ body (c, v) @ sep # cs" and "arg_at args (opt_index c) = Some old"
  shows "old = None \<Longrightarrow> \<exists>x vb. str_wf x \<and> content x = the_value v \<and>
      parse_loop junk line (length pre) (body (c, v) @ sep # cs) (parser_at STATE_NORMAL o0 vb0 args) =
      (if sep = nul then Some (XDEBUG_ERROR_OK, args[nat (opt_index c) := Some x])
       else parse_loop junk line (length pre + length (body (c, v)) + 1) cs
         (parser_at STATE_NORMAL c vb (args[nat (opt_index c) := Some x])))"
  and "old \<noteq> None \<Longrightarrow>
      parse_loop junk line (length pre) (body (c, v) @ sep # cs) (parser_at STATE_NORMAL o0 vb0 args) =
      Some (XDEBUG_ERROR_DUP_ARG, args)"
proof -
  define pre' where "pre' = pre @ [CHR ''-'', c, CHR '' '']"
  have c: "c \<noteq> nul" using assms(1) letter_not_minus by (auto simp: item_ok_def nul_def)
  have run: "parse_loop junk line (length pre) (body (c, v) @ sep # cs) (parser_at STATE_NORMAL o0 vb0 args) =
      parse_loop junk line (length pre') (value_text v @ sep # cs)
        (parser_at STATE_VALUE_FOLLOWS_FIRST_CHAR c (length pre') args)"
    by (simp add: body_def pre'_def start_run [OF c] del: parse_loop.simps) (simp add: numeral_3_eq_3)
  have line: "line @ [nul] = pre' @ value_text v @ sep # cs"
    using assms(3) by (simp add: body_def pre'_def)
  have len: "length pre + length (body (c, v)) + 1 = length pre' + length (value_text v) + 1"
    by (simp add: body_def pre'_def)
  show "old = None \<Longrightarrow> \<exists>x vb. str_wf x \<and> content x = the_value v \<and>
      parse_loop junk line (length pre) (body (c, v) @ sep # cs) (parser_at STATE_NORMAL o0 vb0 args) =
      (if sep = nul then Some (XDEBUG_ERROR_OK, args[nat (opt_index c) := Some x])
       else parse_loop junk line (length pre + length (body (c, v)) + 1) cs
         (parser_at STATE_NORMAL c vb (args[nat (opt_index c) := Some x])))"
  proof (cases v)
    case (Plain w)
    assume old: "old = None"
    have w: "w \<noteq> []" "nul \<notin> set w" "c = CHR ''-'' \<or> hd w \<noteq> CHR 0x22 \<and> CHR '' '' \<notin> set w"
      using assms(1) Plain by (auto simp: item_ok_def)
    obtain x where "str_wf x" "content x = w"
      "parse_loop junk line (length pre') (w @ sep # cs) (parser_at STATE_VALUE_FOLLOWS_FIRST_CHAR c (length pre') args) =
      (if sep = nul then Some (XDEBUG_ERROR_OK, args[nat (opt_index c) := Some x])
       else parse_loop junk line (length pre' + length w + 1) cs
         (parser_at STATE_NORMAL c (length pre') (args[nat (opt_index c) := Some x])))"
      using plain_value(1) [OF w assms(2) _ assms(4) old, of line pre' cs junk] line Plain by auto
    then show ?thesis
      unfolding run len unfolding Plain by (intro exI [of _ x] exI [of _ "length pre'"]) simp
  next
    case (Quoted w)
    assume old: "old = None"
    have w: "nul \<notin> set w" "c \<noteq> CHR ''-''" "sep = nul \<or> sep = CHR '' ''"
      using assms(1,2) Quoted letter_not_minus by (auto simp: item_ok_def)
    obtain x vb where "str_wf x" "content x = w"
      "parse_loop junk line (length pre') (value_text (Quoted w) @ sep # cs)
        (parser_at STATE_VALUE_FOLLOWS_FIRST_CHAR c (length pre') args) =
      (if sep = nul then Some (XDEBUG_ERROR_OK, args[nat (opt_index c) := Some x])
       else parse_loop junk line (length pre' + length (value_text (Quoted w)) + 1) cs
         (parser_at STATE_NORMAL c vb (args[nat (opt_index c) := Some x])))"
      using quoted_value(1) [OF w _ assms(4) old, of line pre' cs junk] line Quoted by blast
    then show ?thesis
      unfolding run len unfolding Quoted by (intro exI [of _ x] exI [of _ vb]) simp
  qed
  show "old \<noteq> None \<Longrightarrow>
      parse_loop junk line (length pre) (body (c, v) @ sep # cs) (parser_at STATE_NORMAL o0 vb0 args) =
      Some (XDEBUG_ERROR_DUP_ARG, args)"
  proof (cases v)
    case (Plain w)
    assume "old \<noteq> None"
    then show ?thesis
      unfolding run
      using plain_value(2) [OF _ _ _ assms(2) _ assms(4), of w line pre' cs junk] line assms(1) Plain
      by (auto simp: item_ok_def)
  next
    case (Quoted w)
    assume old: "old \<noteq> None"
    have w: "nul \<notin> set w" "c \<noteq> CHR ''-''" "sep = nul \<or> sep = CHR '' ''"
      using assms(1,2) Quoted letter_not_minus by (auto simp: item_ok_def)
    show ?thesis
      unfolding run
      unfolding Quoted
      using quoted_value(2) [OF w _ assms(4) old, of line pre' cs junk] line Quoted by blast
  qed
qed

abbreviation slot :: "char \<Rightarrow> nat" where
  "slot c \<equiv> nat (opt_index c)"

lemma opt_index_item: "item_ok i \<Longrightarrow> 0 \<le> opt_index (fst i) \<and> opt_index (fst i) < 27"
  by (auto simp: item_ok_def opt_index_def letter_def schar_def uchar_def)

lemma slot_inj:
  assumes "item_ok i" and "item_ok j" and "slot (fst i) = slot (fst j)"
  shows "fst i = fst j"
proof -
  have "opt_index (fst i) = opt_index (fst j)"
    using assms(3) opt_index_item [OF assms(1)] opt_index_item [OF assms(2)] by linarith
  then show ?thesis
    using assms(1,2) by (auto simp: item_ok_def opt_index_def letter_def schar_def uchar_inj split: if_splits)
      (auto simp: uchar_def)
qed

lemma slot_less: "item_ok i \<Longrightarrow> slot (fst i) < 27"
  using opt_index_item [of i] by linarith

lemma arg_at_slot: "item_ok i \<Longrightarrow> length args = 27 \<Longrightarrow> arg_at args (opt_index (fst i)) = Some (args ! slot (fst i))"
  using opt_index_item [of i] by (auto simp: arg_at_def)

definition free_slots :: "dbgp_arg \<Rightarrow> (char \<times> opt_value) list \<Rightarrow> bool" where
  "free_slots args items \<longleftrightarrow> distinct (map fst items) \<and> (\<forall>i\<in>set items. args ! slot (fst i) = None)"

definition slots_hold :: "dbgp_arg \<Rightarrow> dbgp_arg \<Rightarrow> (char \<times> opt_value) list \<Rightarrow> bool" where
  "slots_hold args args' items \<longleftrightarrow>
     length args' = length args \<and> (\<forall>k. k \<notin> slot ` fst ` set items \<longrightarrow> args' ! k = args ! k) \<and>
     (\<forall>i\<in>set items. \<exists>x. args' ! slot (fst i) = Some x \<and> str_wf x \<and> content x = the_value (snd i))"

lemma items_run:
  assumes "items \<noteq> []" and "\<forall>i\<in>set items. item_ok i" and "\<forall>i\<in>set (butlast items). fst i \<noteq> CHR ''-''"
    and "length args = 27" and "line @ [nul] = pre @ bodies items"
  shows "\<exists>args'. parse_loop junk line (length pre) (bodies items) (parser_at STATE_NORMAL o0 vb0 args) =
      Some (if free_slots args items then XDEBUG_ERROR_OK else XDEBUG_ERROR_DUP_ARG, args') \<and>
    (free_slots args items \<longrightarrow> slots_hold args args' items)"
  using assms
proof (induction items arbitrary: pre args o0 vb0 rule: bodies.induct)
  case (2 i)
  obtain c v where i: "i = (c, v)" by fastforce
  have ok: "item_ok (c, v)" "line @ [nul] = pre @ body (c, v) @ nul # []" "length args = 27"
    using 2 i by auto
  note at = arg_at_slot [OF ok(1,3), simplified]
  show ?case
  proof (cases "args ! slot c")
    case None
    obtain x where x: "str_wf x" "content x = the_value v"
      "parse_loop junk line (length pre) (body (c, v) @ [nul]) (parser_at STATE_NORMAL o0 vb0 args) =
        Some (XDEBUG_ERROR_OK, args[slot c := Some x])"
      using item_run(1) [OF ok(1) _ ok(2) at None, of junk o0 vb0] by auto
    then show ?thesis
      using None i slot_less [OF ok(1)] ok(3) by (auto simp: free_slots_def slots_hold_def)
  next
    case (Some y)
    then show ?thesis
      using item_run(2) [OF ok(1) _ ok(2) at, of junk o0 vb0] i by (auto simp: free_slots_def)
  qed
next
  case (3 i j "is")
  obtain c v where i: "i = (c, v)" by fastforce
  have ok: "item_ok (c, v)" "line @ [nul] = pre @ body (c, v) @ CHR '' '' # bodies (j # is)" "length args = 27"
    "c \<noteq> CHR ''-''"
    using 3(2-6) i by auto
  note at = arg_at_slot [OF ok(1,3), simplified]
  show ?case
  proof (cases "args ! slot c")
    case None
    define pre' where "pre' = pre @ body (c, v) @ '' ''"
    obtain x vb where x: "str_wf x" "content x = the_value v"
      "parse_loop junk line (length pre) (body (c, v) @ CHR '' '' # bodies (j # is)) (parser_at STATE_NORMAL o0 vb0 args) =
        parse_loop junk line (length pre') (bodies (j # is)) (parser_at STATE_NORMAL c vb (args[slot c := Some x]))"
      using item_run(1) [OF ok(1) _ ok(2) at None, of junk o0 vb0] ok(4) by (auto simp: pre'_def nul_def)
    obtain args' where r: "parse_loop junk line (length pre') (bodies (j # is))
        (parser_at STATE_NORMAL c vb (args[slot c := Some x])) =
      Some (if free_slots (args[slot c := Some x]) (j # is) then XDEBUG_ERROR_OK else XDEBUG_ERROR_DUP_ARG, args')"
      "free_slots (args[slot c := Some x]) (j # is) \<Longrightarrow> slots_hold (args[slot c := Some x]) args' (j # is)"
      using 3(1) [of "args[slot c := Some x]" pre' c vb] 3(3,4) ok by (auto simp: pre'_def)
    have slots: "slot (fst k) = slot c \<longleftrightarrow> fst k = c" if "k \<in> set (j # is)" for k
      using slot_inj [of k "(c, v)"] 3(3) ok(1) that by fastforce
    have len: "slot c < length args" using slot_less [OF ok(1)] ok(3) by simp
    have n: "args[slot c := Some x] ! slot (fst k) = (if fst k = c then Some x else args ! slot (fst k))"
      if "k \<in> set (j # is)" for k
      using slots [OF that] len by (cases "fst k = c") simp_all
    have "(\<forall>k\<in>set (j # is). args[slot c := Some x] ! slot (fst k) = None) \<longleftrightarrow>
        (\<forall>k\<in>set (j # is). fst k \<noteq> c \<and> args ! slot (fst k) = None)"
      by (intro ball_cong refl) (simp only: n, simp)
    then have free: "free_slots (args[slot c := Some x]) (j # is) \<longleftrightarrow> free_slots args (i # j # is)"
      unfolding free_slots_def using None i by auto
    have "slots_hold args args' (i # j # is)" if "free_slots args (i # j # is)"
    proof -
      have h: "slots_hold (args[slot c := Some x]) args' (j # is)" using r(2) free that by blast
      have c: "c \<notin> fst ` set (j # is)" using that i by (simp add: free_slots_def)
      have "slot c \<notin> slot ` fst ` set (j # is)"
      proof
        assume "slot c \<in> slot ` fst ` set (j # is)"
        then obtain k where k: "k \<in> set (j # is)" "slot (fst k) = slot c" by (elim imageE) (metis)
        then have "fst k = c" using slots by blast
        then show False using c k(1) by blast
      qed
      then have args': "args' ! slot c = Some x" using h len by (simp add: slots_hold_def)
      show ?thesis
        unfolding slots_hold_def
      proof (intro conjI allI impI ballI)
        show "length args' = length args" using h by (simp add: slots_hold_def)
        fix k
        assume "k \<notin> slot ` fst ` set (i # j # is)"
        then have "k \<notin> slot ` fst ` set (j # is)" "k \<noteq> slot c" using i by auto
        then show "args' ! k = args ! k" using h by (simp add: slots_hold_def)
      next
        fix l
        assume "l \<in> set (i # j # is)"
        then consider "l = i" | "l \<in> set (j # is)" by auto
        then show "\<exists>x. args' ! slot (fst l) = Some x \<and> str_wf x \<and> content x = the_value (snd l)"
        proof cases
          case 1
          then show ?thesis using args' x(1,2) i by simp
        next
          case 2
          then show ?thesis using h unfolding slots_hold_def by blast
        qed
      qed
    qed
    then show ?thesis using r(1) x(3) free i by auto
  next
    case (Some y)
    then show ?thesis
      using item_run(2) [OF ok(1) _ ok(2) at, of junk o0 vb0] i ok(4) by (auto simp: free_slots_def)
  qed
qed simp


section \<open>Properties\<close>

lemma bodies_text: "items \<noteq> [] \<Longrightarrow> concat (map opt_text items) @ [nul] = CHR '' '' # bodies items"
  by (induction items rule: bodies.induct) (auto simp: opt_text_def body_def)

lemma parse_items:
  assumes "CHR '' '' \<notin> set cmd" and "items \<noteq> []" and "\<forall>i\<in>set items. item_ok i"
    and "\<forall>i\<in>set (butlast items). fst i \<noteq> CHR ''-''"
  shows "\<exists>args. parse_cmd junk (cmd @ concat (map opt_text items)) =
      Some (if distinct (map fst items) then XDEBUG_ERROR_OK else XDEBUG_ERROR_DUP_ARG, Some cmd, args) \<and>
    (distinct (map fst items) \<longrightarrow> slots_hold no_args args items)"
proof -
  obtain t where t: "concat (map opt_text items) = CHR '' '' # t"
    using assms(2) by (cases items) (auto simp: opt_text_def)
  have line: "(cmd @ concat (map opt_text items)) @ [nul] = (cmd @ '' '') @ bodies items"
    using bodies_text [OF assms(2)] by simp
  then have tb: "t @ [nul] = bodies items" using t by simp
  have free: "free_slots no_args items \<longleftrightarrow> distinct (map fst items)"
    using assms(3) slot_less by (auto simp: free_slots_def no_args_def)
  have sp: "split_at (CHR '' '') (cmd @ CHR '' '' # t) = (cmd, Some t)"
    using assms(1) by (rule split_at_append)
  show ?thesis
    using items_run [OF assms(2-4) _ line, of no_args junk "CHR '' ''" 0] sp tb t
    unfolding free by (auto simp: parse_cmd_def no_args_def)
qed

lemma value_plain: "value_ok v \<Longrightarrow> nul \<notin> set (the_value v)"
  by (cases v) auto

lemma option_value:
  assumes "args ! slot c = Some x" and "str_wf x" and "nul \<notin> set (content x)"
  shows "option_set args c \<and> option_char args c = content x"
proof (cases "str_d x")
  case None
  then show ?thesis using assms(1) by (simp add: option_set_def option_char_def content_def)
next
  case (Some b)
  have l: "nat (str_l x) < length b" "b ! nat (str_l x) = nul" using assms(2) Some by (auto simp: str_wf_def nul_def)
  have "b = take (nat (str_l x)) b @ nul # drop (Suc (nat (str_l x))) b"
    using id_take_nth_drop [OF l(1)] l(2) by simp
  then have "cstr b = take (nat (str_l x)) b" using assms(3) Some by (metis content_def option.simps(5) cstr_append_nul)
  then show ?thesis using assms(1) Some by (simp add: option_set_def option_char_def content_def)
qed

lemma command_parsed:
  assumes "cmd \<noteq> []" and "CHR '' '' \<notin> set cmd" and "\<forall>(c, v)\<in>set opts. letter c \<and> value_ok v"
    and "\<forall>d. data = Some d \<longrightarrow> d \<noteq> [] \<and> nul \<notin> set d"
  shows "\<exists>args. parse_cmd junk (command_text cmd opts data) =
      Some (if distinct (map fst opts) then XDEBUG_ERROR_OK else XDEBUG_ERROR_DUP_ARG, Some cmd, args) \<and>
    (distinct (map fst opts) \<longrightarrow>
      (\<forall>c. letter c \<longrightarrow> map_option content (args ! slot c) = map_option the_value (map_of opts c)) \<and>
      map_option content (args ! slot (CHR ''-'')) = data \<and>
      (\<forall>c v. map_of opts c = Some v \<longrightarrow> option_set args c \<and> option_char args c = the_value v))"
proof -
  define items where "items = opts @ (case data of None \<Rightarrow> [] | Some d \<Rightarrow> [(CHR ''-'', Plain d)])"
  have ct: "command_text cmd opts data = cmd @ concat (map opt_text items)"
    by (simp add: command_text_def items_def data_text_def opt_text_def split: option.splits)
  have minus: "CHR ''-'' \<notin> fst ` set opts" using assms(3) letter_not_minus by fastforce
  have dist: "distinct (map fst items) \<longleftrightarrow> distinct (map fst opts)"
    using minus by (auto simp: items_def split: option.splits)
  have ok: "\<forall>i\<in>set items. item_ok i"
    using assms(3,4) by (auto simp: items_def item_ok_def split: option.splits)
  have lm: "letter c \<longleftrightarrow> item_ok (c, Quoted [])" for c
    using letter_not_minus by (auto simp: item_ok_def)
  have vals: "map_option content (args ! slot c) = map_option the_value (map_of items c)"
    if "slots_hold no_args args items" "distinct (map fst items)" "item_ok (c, v)" for args c v
  proof (cases "map_of items c")
    case None
    then have "slot c \<notin> slot ` fst ` set items"
      using slot_inj [OF _ that(3)] ok by (auto simp: map_of_eq_None_iff) (metis fst_conv image_eqI)
    then have "args ! slot c = no_args ! slot c" using that(1) by (simp add: slots_hold_def)
    then show ?thesis using None slot_less [OF that(3)] by (simp add: no_args_def)
  next
    case (Some w)
    then have "(c, w) \<in> set items" by (rule map_of_SomeD)
    then have "\<exists>x. args ! slot c = Some x \<and> content x = the_value w"
      using that(1) unfolding slots_hold_def by (metis fst_conv snd_conv)
    then obtain x where "args ! slot c = Some x" "content x = the_value w" by blast
    then show ?thesis using Some by simp
  qed
  have "\<exists>args. parse_cmd junk (cmd @ concat (map opt_text items)) =
      Some (if distinct (map fst items) then XDEBUG_ERROR_OK else XDEBUG_ERROR_DUP_ARG, Some cmd, args) \<and>
    (distinct (map fst items) \<longrightarrow> slots_hold no_args args items)"
  proof (cases "items = []")
    case True
    then show ?thesis
      using assms(1,2) by (auto simp: parse_cmd_def split_at_none slots_hold_def)
  next
    case False
    have "\<forall>i\<in>set (butlast items). fst i \<noteq> CHR ''-''"
    proof -
      have "set (butlast items) \<subseteq> set opts"
        by (auto simp: items_def butlast_append dest!: in_set_butlastD split: option.splits)
      then show ?thesis using minus by (metis imageI subsetD)
    qed
    then show ?thesis by (rule parse_items [OF assms(2) False ok])
  qed
  then obtain args where args: "parse_cmd junk (command_text cmd opts data) =
      Some (if distinct (map fst opts) then XDEBUG_ERROR_OK else XDEBUG_ERROR_DUP_ARG, Some cmd, args)"
    "distinct (map fst opts) \<Longrightarrow> slots_hold no_args args items"
    unfolding ct dist by blast
  have "map_option content (args ! slot c) = map_option the_value (map_of opts c)"
    if "distinct (map fst opts)" "letter c" for c
    using vals [OF args(2)] that lm letter_not_minus [OF that(2)] dist
    by (auto simp: items_def map_add_def split: option.splits)
  moreover have "map_option content (args ! slot (CHR ''-'')) = data" if "distinct (map fst opts)"
  proof -
    have "map_of opts (CHR ''-'') = None" using minus by (simp add: map_of_eq_None_iff)
    then have "map_option the_value (map_of items (CHR ''-'')) = data"
      by (simp add: items_def map_add_def split: option.splits)
    then show ?thesis
      using vals [OF args(2) [OF that], of "CHR ''-''" "Plain ''x''"] that dist by (simp add: item_ok_def nul_def)
  qed
  moreover have "option_set args c \<and> option_char args c = the_value v"
    if d: "distinct (map fst opts)" and m: "map_of opts c = Some v" for c v
  proof -
    have i: "(c, v) \<in> set opts" using m by (rule map_of_SomeD)
    then have "(c, v) \<in> set items" by (simp add: items_def)
    then obtain x where "args ! slot c = Some x" "str_wf x" "content x = the_value v"
      using args(2) [OF d] unfolding slots_hold_def by (metis fst_conv snd_conv)
    then show ?thesis using option_value [of args c x] value_plain [of v] assms(3) i by auto
  qed
  ultimately show ?thesis using args(1) by blast
qed

text \<open>C27: the parser understands what a client writes. For every command name, every list of options with
  letters as names and plain or quoted values (in a quoted value the backslash and the quote are escaped;
  it may hold anything but zero bytes), and optional data behind \<open>--\<close>, it returns the name and exactly
  the values; a repeated option, and nothing else, is reported as a duplicate.\<close>

theorem command_roundtrip:
  assumes "cmd \<noteq> []" and "CHR '' '' \<notin> set cmd" and "\<forall>(c, v)\<in>set opts. letter c \<and> value_ok v"
    and "\<forall>d. data = Some d \<longrightarrow> d \<noteq> [] \<and> nul \<notin> set d"
  shows "\<exists>args. parse_cmd junk (command_text cmd opts data) =
      Some (if distinct (map fst opts) then XDEBUG_ERROR_OK else XDEBUG_ERROR_DUP_ARG, Some cmd, args) \<and>
    (distinct (map fst opts) \<longrightarrow>
      (\<forall>c. letter c \<longrightarrow> map_option content (args ! slot c) = map_option the_value (map_of opts c)) \<and>
      map_option content (args ! slot (CHR ''-'')) = data)"
  using command_parsed [OF assms] by blast

theorem command_roundtrip_witness:
  "\<exists>args. parse_cmd nul (command_text ''property_set'' [(CHR ''i'', Plain ''7''), (CHR ''n'', Quoted (CHR 0x22 # '' x''))] (Some ''YQ== z'')) =
      Some (XDEBUG_ERROR_OK, Some ''property_set'', args) \<and>
    map_option content (args ! slot (CHR ''n'')) = Some (CHR 0x22 # '' x'') \<and>
    map_option content (args ! slot (CHR ''-'')) = Some ''YQ== z''"
proof -
  have "letter (CHR ''i'')" "letter (CHR ''n'')" by code_simp+
  then show ?thesis
    using command_roundtrip [where cmd = "''property_set''" and junk = nul and data = "Some ''YQ== z''"
        and opts = "[(CHR ''i'', Plain ''7''), (CHR ''n'', Quoted (CHR 0x22 # '' x''))]"]
    by (auto simp: nul_def simp del: map_option_eq_Some)
qed

end
