(* ===== verification/Dbgp.thy ===== *)
theory Dbgp
  imports DbgpParse Xml Hash Frames
begin

text \<open>
  The state of a debugging session (\<open>xdebug_handlers.h\<close>, \<open>xdebug_var.h\<close> and the globals of
  \<open>php_xdebug.h\<close> that it uses) and the replies of \<open>xdebug_handler_dbgp.c\<close>. Breakpoints are objects: a
  hash or list holds their addresses in \<open>brks\<close>, where a freed one is \<open>None\<close>. Using a freed or NULL
  breakpoint, or an index outside a table of strings, is \<open>None\<close>.
\<close>

section \<open>Constants\<close>

definition DBGP_STATUS_STARTING :: nat where "DBGP_STATUS_STARTING = 1"
definition DBGP_STATUS_STOPPING :: nat where "DBGP_STATUS_STOPPING = 2"
definition DBGP_STATUS_STOPPED :: nat where "DBGP_STATUS_STOPPED = 3"
definition DBGP_STATUS_RUNNING :: nat where "DBGP_STATUS_RUNNING = 4"
definition DBGP_STATUS_BREAK :: nat where "DBGP_STATUS_BREAK = 5"
definition DBGP_STATUS_DETACHED :: nat where "DBGP_STATUS_DETACHED = 6"

definition xdebug_dbgp_status_strings :: "string list" where
  "xdebug_dbgp_status_strings = [[], ''starting'', ''stopping'', ''stopped'', ''running'', ''break'']"

definition DBGP_REASON_OK :: nat where "DBGP_REASON_OK = 0"
definition DBGP_REASON_ERROR :: nat where "DBGP_REASON_ERROR = 1"
definition DBGP_REASON_ABORTED :: nat where "DBGP_REASON_ABORTED = 2"
definition DBGP_REASON_EXCEPTION :: nat where "DBGP_REASON_EXCEPTION = 3"

definition xdebug_dbgp_reason_strings :: "string list" where
  "xdebug_dbgp_reason_strings = [''ok'', ''error'', ''aborted'', ''exception'']"

definition XDEBUG_ERROR_INVALID_ARGS :: int where "XDEBUG_ERROR_INVALID_ARGS = 3"
definition XDEBUG_ERROR_UNIMPLEMENTED :: int where "XDEBUG_ERROR_UNIMPLEMENTED = 4"
definition XDEBUG_ERROR_COMMAND_UNAVAILABLE :: int where "XDEBUG_ERROR_COMMAND_UNAVAILABLE = 5"
definition XDEBUG_ERROR_CANT_OPEN_FILE :: int where "XDEBUG_ERROR_CANT_OPEN_FILE = 100"
definition XDEBUG_ERROR_BREAKPOINT_NOT_SET :: int where "XDEBUG_ERROR_BREAKPOINT_NOT_SET = 200"
definition XDEBUG_ERROR_BREAKPOINT_TYPE_NOT_SUPPORTED :: int where
  "XDEBUG_ERROR_BREAKPOINT_TYPE_NOT_SUPPORTED = 201"
definition XDEBUG_ERROR_NO_SUCH_BREAKPOINT :: int where "XDEBUG_ERROR_NO_SUCH_BREAKPOINT = 205"
definition XDEBUG_ERROR_STACK_DEPTH_INVALID :: int where "XDEBUG_ERROR_STACK_DEPTH_INVALID = 301"
definition XDEBUG_ERROR_ENCODING_NOT_SUPPORTED :: int where "XDEBUG_ERROR_ENCODING_NOT_SUPPORTED = 900"

definition xdebug_error_codes :: "(int \<times> string) list" where
  "xdebug_error_codes =
     [(0, ''no error''), (1, ''parse error in command''), (2, ''duplicate arguments in command''),
      (3, ''invalid or missing options''), (4, ''unimplemented command''), (5, ''command is not available''),
      (100, ''can not open file''), (101, ''stream redirect failed''),
      (200, ''breakpoint could not be set''), (201, ''breakpoint type is not supported''),
      (202, ''invalid breakpoint line''), (203, ''no code on breakpoint line''),
      (204, ''invalid breakpoint state''), (205, ''no such breakpoint''), (206, ''error evaluating code''),
      (207, ''invalid expression''), (300, ''can not get property''), (301, ''stack depth invalid''),
      (302, ''context invalid''), (800, ''profiler not started''), (900, ''encoding not supported''),
      (998, ''an internal exception in the debugger''), (999, ''unknown error'')]"

definition BREAKPOINT_TYPE_LINE :: nat where "BREAKPOINT_TYPE_LINE = 1"
definition BREAKPOINT_TYPE_FUNCTION :: nat where "BREAKPOINT_TYPE_FUNCTION = 2"
definition BREAKPOINT_TYPE_EXCEPTION :: nat where "BREAKPOINT_TYPE_EXCEPTION = 4"

definition XDEBUG_HIT_DISABLED :: nat where "XDEBUG_HIT_DISABLED = 0"
definition XDEBUG_HIT_GREATER_EQUAL :: nat where "XDEBUG_HIT_GREATER_EQUAL = 1"
definition XDEBUG_HIT_EQUAL :: nat where "XDEBUG_HIT_EQUAL = 2"
definition XDEBUG_HIT_MOD :: nat where "XDEBUG_HIT_MOD = 3"

definition XDEBUG_BRK_FUNC_CALL :: nat where "XDEBUG_BRK_FUNC_CALL = 1"
definition XDEBUG_BRK_FUNC_RETURN :: nat where "XDEBUG_BRK_FUNC_RETURN = 2"

section \<open>Data\<close>

record brk_admin =
  adm_id :: int
  adm_type :: nat
  adm_key :: string

record brk_info =
  bi_type :: "string option"
  bi_classname :: "string option"
  bi_functionname :: "string option"
  bi_exceptionname :: "string option"
  function_break_type :: nat
  bi_file :: "string option"
  bi_file_len :: nat
  bi_lineno :: int
  bi_condition :: "string option"
  disabled :: bool
  temporary :: int
  hit_count :: int
  hit_value :: int
  hit_condition :: nat

text \<open>The fields of a page are \<open>None\<close> until they are written.\<close>

record runtime_page =
  page :: "int option"
  current_element_nr :: "int option"
  start_element_nr :: "int option"
  end_element_nr :: "int option"

record export_options =
  max_children :: int
  max_data :: int
  max_depth :: int
  show_hidden :: int
  extended_properties :: int
  force_extended :: int
  show_location :: "bool option"
  runtime :: "runtime_page list"
  no_decoration :: "bool option"

record eval_info =
  ei_id :: int
  ei_contents :: string
  ei_refcount :: int

record dbg =
  status :: nat
  reason :: nat
  lastcmd :: "string option"
  lasttransid :: "string option"
  breakpoint_count :: int
  remote_enabled :: bool
  stdout_mode :: int
  program_name :: string
  con_options :: export_options
  breakpoint_list :: "brk_admin xhash"
  function_breakpoints :: "nat xhash"
  exception_breakpoints :: "nat xhash"
  line_breakpoints :: "nat list"
  brks :: "brk_info option list"
  do_break :: bool
  do_step :: bool
  do_next :: bool
  next_level :: int
  do_finish :: bool
  finish_level :: int
  finish_func_nr :: int
  send_notifications :: int
  inhibit_notifications :: bool
  eval_id_lookup :: "nat xhash"
  eval_id_sequence :: int
  evals :: "eval_info option list"
  xg_execute_data :: "nat option"
  xg_symbol_table :: "nat option"
  xg_this :: "nat option"
  xg_fse :: "int option"

text \<open>The part of \<open>xdebug_dbgp_init\<close> that fills the session in. The page of each depth is set, the
  extra one at the end is not; a field that the session does not use stays unset.\<close>

definition new_page :: runtime_page where
  "new_page = \<lparr>page = None, current_element_nr = None, start_element_nr = None, end_element_nr = None\<rparr>"

definition first_page :: runtime_page where
  "first_page = new_page\<lparr>page := Some 0, current_element_nr := Some 0\<rparr>"

definition default_options :: export_options where
  "default_options =
     \<lparr>max_children = 32, max_data = 1024, max_depth = 1, show_hidden = 0, extended_properties = 0,
      force_extended = 0, show_location = None, runtime = [first_page, new_page], no_decoration = None\<rparr>"

definition session_init :: "dbg \<Rightarrow> dbg" where
  "session_init d =
     d\<lparr>con_options := default_options, breakpoint_list := hash_alloc 64 True,
       function_breakpoints := hash_alloc 64 True, exception_breakpoints := hash_alloc 64 True,
       line_breakpoints := [], eval_id_lookup := hash_alloc 64 True, eval_id_sequence := 0,
       send_notifications := 0, inhibit_notifications := False\<rparr>"

text \<open>What a handler reads of the process: its identifier, the current directory, path resolution (of the
  Zend engine and of the C library), base64 decoding, PHP's version, the stack and the executed level.\<close>

record dbg_env =
  env_getpid :: int
  env_getcwd :: "string option"
  env_virtual_file :: "string \<Rightarrow> string \<Rightarrow> string option"
  env_realpath :: "string \<Rightarrow> string option"
  env_base64_decode :: "string \<Rightarrow> string"
  env_php_version :: string
  env_stack :: fstack
  env_level :: int

text \<open>A handler gets the values of the options and the reply and returns the new state and reply.\<close>

type_synonym handler = "dbgp_arg \<Rightarrow> dbg \<Rightarrow> xml_node \<Rightarrow> (dbg \<times> xml_node) option"

section \<open>Replies\<close>

definition string_at :: "string list \<Rightarrow> nat \<Rightarrow> string option" where
  "string_at ss i = (if i < length ss then Some (ss ! i) else None)"

text \<open>Adding the message of an error code to the error node (\<open>ADD_REASON_MESSAGE\<close>): the loop runs over all
  entries.\<close>

definition add_reason_message :: "int \<Rightarrow> xml_node \<Rightarrow> xml_node" where
  "add_reason_message c error =
     foldl (\<lambda>error entry.
         if fst entry = c
         then xml_add_child error (xml_add_text (snd entry) (xml_node_init ''message'')) else error)
       error xdebug_error_codes"

definition error_node :: "int \<Rightarrow> xml_node" where
  "error_node c = add_reason_message c (xml_add_attribute_ex ''code'' (dec (nat c)) (xml_node_init ''error''))"

definition return_result :: "nat \<Rightarrow> nat \<Rightarrow> int \<Rightarrow> xml_node \<Rightarrow> xml_node option" where
  "return_result s r c retval =
     do {
       st \<leftarrow> string_at xdebug_dbgp_status_strings s;
       re \<leftarrow> string_at xdebug_dbgp_reason_strings r;
       Some (xml_add_child
         (xml_add_attribute_ex ''reason'' re (xml_add_attribute_ex ''status'' st retval)) (error_node c))
     }"

text \<open>Leaving a handler with an error.\<close>

definition fail_with :: "int \<Rightarrow> dbg \<Rightarrow> xml_node \<Rightarrow> (dbg \<times> xml_node) option" where
  "fail_with c d retval = map_option (\<lambda>x. (d, x)) (return_result (status d) (reason d) c retval)"

text \<open>The string \<open>"<?xml ..."\<close> before every message, and the message with its length.\<close>

definition xml_header :: string where
  "xml_header = ''<?xml version='' @ [CHR 0x22] @ ''1.0'' @ [CHR 0x22] @ '' encoding='' @ [CHR 0x22] @ ''iso-8859-1'' @
     [CHR 0x22] @ ''?>'' @ [CHR 0x0A]"

definition make_message :: "char \<Rightarrow> php_lib \<Rightarrow> xml_node \<Rightarrow> xstr option" where
  "make_message junk lib message =
     do {
       xml_message \<leftarrow> return_node junk lib message str_new;
       d \<leftarrow> str_d xml_message;
       ret \<leftarrow> str_add junk (dec_int (str_l xml_message + int (length xml_header))) str_new;
       ret \<leftarrow> str_addl junk [nul] 1 ret;
       ret \<leftarrow> str_add junk xml_header ret;
       ret \<leftarrow> str_add junk (cstr d) ret;
       str_addl junk [nul] 1 ret
     }"

section \<open>Facts\<close>

lemma error_node_ok: "node_ok (error_node c)"
proof -
  have m: "node_ok (xml_add_text t (xml_node_init ''message''))" for t
    by (intro node_ok_build) (simp add: tag_ok_def)
  have "node_ok (foldl (\<lambda>error entry.
         if fst entry = c
         then xml_add_child error (xml_add_text (snd entry) (xml_node_init ''message'')) else error) e es)"
    if "node_ok e" for e and es :: "(int \<times> string) list"
    using that by (induction es arbitrary: e) (auto intro: node_ok_build m)
  moreover have "node_ok (xml_add_attribute_ex ''code'' (dec (nat c)) (xml_node_init ''error''))"
    by (intro node_ok_build) (simp add: tag_ok_def)
  ultimately show ?thesis by (simp add: error_node_def add_reason_message_def)
qed

text \<open>A message is framed: its length, a zero, the header and the text of the tree, a zero.\<close>

lemma make_message_ok:
  assumes "replaces lib" and "encodes lib" and "node_ok n"
    and "length (view_text (node_view lib n)) < 2 ^ 30" and "nul \<notin> set (view_text (node_view lib n))"
  shows "\<exists>r. make_message junk lib n = Some r \<and>
    content r = dec (length xml_header + length (view_text (node_view lib n))) @ [nul] @
      xml_header @ view_text (node_view lib n) @ [nul]"
proof -
  define t where "t = view_text (node_view lib n)"
  have t: "length t < 2 ^ 31" using assms(4) by (simp add: t_def)
  obtain x where x: "return_node junk lib n str_new = Some x" "str_wf x" "content x = t"
    using writesD [OF return_node_writes [OF assms(1-3)] str_wf_new(1)] t by (auto simp: t_def)
  have l: "str_l x = int (length t)" using length_content [OF x(2)] x(2,3) by (auto simp: str_wf_def)
  have "t \<noteq> []" by (cases "node_view lib n") (simp add: t_def)
  then have "str_d x \<noteq> None" using x(3) by (auto simp: content_def split: option.splits)
  then obtain d where d: "str_d x = Some d" by blast
  have "cstr d = t"
  proof -
    have n: "length t < length d" "d ! length t = nul" "take (length t) d = t"
      using x(2,3) d l by (auto simp: str_wf_def content_def)
    then have "d = t @ nul # drop (Suc (length t)) d" by (metis id_take_nth_drop)
    then show ?thesis using cstr_append_nul assms(5) by (metis t_def)
  qed
  moreover have "dec_int (str_l x + int (length xml_header)) = dec (length xml_header + length t)"
    by (simp add: l dec_int_def nat_add_distrib add.commute)
  moreover have "length (dec (length xml_header + length t)) < 2 ^ 31"
  proof -
    have "length xml_header + length t < 10 ^ 10"
      using t by (simp add: xml_header_def)
    from length_dec [OF this] show ?thesis by simp
  qed
  then have "writes (\<lambda>out. do {
       out \<leftarrow> str_add junk (dec (length xml_header + length t)) out;
       out \<leftarrow> str_addl junk [nul] 1 out;
       out \<leftarrow> str_add junk xml_header out;
       out \<leftarrow> str_add junk t out;
       str_addl junk [nul] 1 out
     }) (dec (length xml_header + length t) @ [nul] @ xml_header @ t @ [nul])"
    using t by (intro writes_intros) (simp_all add: xml_header_def)
  ultimately show ?thesis
    using writesD [of _ _ str_new] x(1) d by (fastforce simp: make_message_def t_def)
qed

end
