(* ===== verification/Breakpoints.thy ===== *)
theory Breakpoints
  imports Dbgp
begin

text \<open>
  The breakpoint commands of \<open>xdebug_handler_dbgp.c\<close>: setting, looking up, changing, listing and removing
  breakpoints. The administration maps an identifier to a type and a key; a line breakpoint is found again
  by the file and line in its key, the others by their key in a hash. \<open>xdebug_hash_add\<close> always succeeds.
\<close>

section \<open>Administration\<close>

text \<open>\<open>%lu\<close> of an \<open>int\<close>.\<close>

definition lu :: "int \<Rightarrow> string" where
  "lu i = dec (nat (i mod 2 ^ 64))"

abbreviation key_of :: "string \<Rightarrow> hkey" where
  "key_of s \<equiv> Key_string s"

definition breakpoint_admin_add :: "dbg_env \<Rightarrow> nat \<Rightarrow> string \<Rightarrow> dbg \<Rightarrow> (int \<times> dbg) option" where
  "breakpoint_admin_add env ty key d =
     (let d = d\<lparr>breakpoint_count := breakpoint_count d + 1\<rparr>;
          adm = \<lparr>adm_id = to_int32 (take_bit 17 (env_getpid env) * 10000 + breakpoint_count d), adm_type = ty, adm_key = key\<rparr>
      in do {
        bl \<leftarrow> hash_add_or_update (key_of (lu (adm_id adm))) adm (breakpoint_list d);
        Some (adm_id adm, d\<lparr>breakpoint_list := bl\<rparr>)
      })"

definition breakpoint_admin_fetch :: "string \<Rightarrow> dbg \<Rightarrow> (nat \<times> string) option option" where
  "breakpoint_admin_fetch hkey d =
     do {
       r \<leftarrow> hash_extended_find (key_of hkey) (breakpoint_list d);
       Some (map_option (\<lambda>adm. (adm_type adm, adm_key adm)) r)
     }"

definition breakpoint_admin_remove :: "string \<Rightarrow> dbg \<Rightarrow> dbg option" where
  "breakpoint_admin_remove hkey d =
     do {
       (_, bl) \<leftarrow> hash_extended_delete (key_of hkey) (breakpoint_list d);
       Some (d\<lparr>breakpoint_list := bl\<rparr>)
     }"

section \<open>Breakpoint objects\<close>

definition brk_at :: "brk_info option list \<Rightarrow> nat \<Rightarrow> brk_info option" where
  "brk_at h a = (if a < length h then h ! a else None)"

definition new_brk_info :: brk_info where
  "new_brk_info =
     \<lparr>bi_type = None, bi_classname = None, bi_functionname = None, bi_exceptionname = None, function_break_type = 0,
      bi_file = None, bi_file_len = 0, bi_lineno = 0, bi_condition = None, disabled = False, temporary = 0,
      hit_count = 0, hit_value = 0, hit_condition = XDEBUG_HIT_DISABLED\<rparr>"

definition alloc_brk :: "brk_info \<Rightarrow> dbg \<Rightarrow> nat \<times> dbg" where
  "alloc_brk b d = (length (brks d), d\<lparr>brks := brks d @ [Some b]\<rparr>)"

text \<open>The destructors of the hashes and of the list free the objects.\<close>

definition free_brks :: "nat list \<Rightarrow> dbg \<Rightarrow> dbg" where
  "free_brks as d = d\<lparr>brks := foldl (\<lambda>h a. h[a := None]) (brks d) as\<rparr>"

definition newly_destroyed :: "nat xhash \<Rightarrow> nat xhash \<Rightarrow> nat list" where
  "newly_destroyed h h' = drop (length (hdestroyed h)) (hdestroyed h')"

text \<open>\<open>memcmp\<close> of the file with a name at least as long; a shorter one differs at its end.\<close>

definition same_file :: "brk_info \<Rightarrow> string \<Rightarrow> bool" where
  "same_file b name \<longleftrightarrow> (case bi_file b of None \<Rightarrow> bi_file_len b = 0 | Some f \<Rightarrow> prefix (take (bi_file_len b) f) name)"

definition nth_part :: "string list \<Rightarrow> nat \<Rightarrow> string option" where
  "nth_part parts i = (if i < length parts then Some (parts ! i) else None)"

definition line_matches :: "string list \<Rightarrow> brk_info \<Rightarrow> bool option" where
  "line_matches parts b =
     do {
       p1 \<leftarrow> nth_part parts 1;
       p0 \<leftarrow> nth_part parts 0;
       Some (atoi p1 = bi_lineno b \<and> same_file b p0)
     }"

text \<open>The search of \<open>breakpoint_brk_info_fetch\<close>: when no breakpoint matches, the variable keeps the last one
  looked at.\<close>

fun fetch_line :: "string list \<Rightarrow> brk_info option list \<Rightarrow> nat list \<Rightarrow> nat option \<Rightarrow> nat option option" where
  "fetch_line parts h [] brk = Some brk"
| "fetch_line parts h (a # as) brk =
     do {
       b \<leftarrow> brk_at h a;
       m \<leftarrow> line_matches parts b;
       if m then Some (Some a) else fetch_line parts h as (Some a)
     }"

definition breakpoint_brk_info_fetch :: "nat \<Rightarrow> string \<Rightarrow> dbg \<Rightarrow> nat option option" where
  "breakpoint_brk_info_fetch ty hkey d =
     (if ty = BREAKPOINT_TYPE_LINE
      then do {
        parts \<leftarrow> explode ''$'' hkey [] (- 1);
        fetch_line parts (brks d) (line_breakpoints d) None
      }
      else if ty = BREAKPOINT_TYPE_FUNCTION then hash_extended_find (key_of hkey) (function_breakpoints d)
      else if ty = BREAKPOINT_TYPE_EXCEPTION then hash_extended_find (key_of hkey) (exception_breakpoints d)
      else Some None)"

text \<open>The search of \<open>breakpoint_remove\<close>.\<close>

fun find_line :: "string list \<Rightarrow> brk_info option list \<Rightarrow> nat list \<Rightarrow> nat option option" where
  "find_line parts h [] = Some None"
| "find_line parts h (a # as) =
     do {
       b \<leftarrow> brk_at h a;
       m \<leftarrow> line_matches parts b;
       if m then Some (Some a) else find_line parts h as
     }"

definition breakpoint_remove :: "nat \<Rightarrow> string \<Rightarrow> dbg \<Rightarrow> dbg option" where
  "breakpoint_remove ty hkey d =
     (if ty = BREAKPOINT_TYPE_LINE
      then do {
        parts \<leftarrow> explode ''$'' hkey [] (- 1);
        r \<leftarrow> find_line parts (brks d) (line_breakpoints d);
        Some (case r of
                None \<Rightarrow> d
              | Some a \<Rightarrow> free_brks [a] (d\<lparr>line_breakpoints := remove1 a (line_breakpoints d)\<rparr>))
      }
      else if ty = BREAKPOINT_TYPE_FUNCTION
      then do {
        (_, h) \<leftarrow> hash_extended_delete (key_of hkey) (function_breakpoints d);
        Some (free_brks (newly_destroyed (function_breakpoints d) h) (d\<lparr>function_breakpoints := h\<rparr>))
      }
      else if ty = BREAKPOINT_TYPE_EXCEPTION
      then do {
        (_, h) \<leftarrow> hash_extended_delete (key_of hkey) (exception_breakpoints d);
        Some (free_brks (newly_destroyed (exception_breakpoints d) h) (d\<lparr>exception_breakpoints := h\<rparr>))
      }
      else Some d)"

section \<open>Describing a breakpoint\<close>

definition add_opt_attr :: "string \<Rightarrow> string option \<Rightarrow> xml_node \<Rightarrow> xml_node" where
  "add_opt_attr name v x = (case v of None \<Rightarrow> x | Some s \<Rightarrow> xml_add_attribute_ex name s x)"

definition breakpoint_brk_info_add :: "dbg_env \<Rightarrow> brk_info \<Rightarrow> xml_node \<Rightarrow> xml_node option" where
  "breakpoint_brk_info_add env b xml =
     (let xml = add_opt_attr ''type'' (bi_type b) xml
      in do {
        xml \<leftarrow> (case bi_file b of
                 None \<Rightarrow> Some xml
               | Some f \<Rightarrow> map_option (\<lambda>u. xml_add_attribute_ex ''filename'' u xml)
                   (path_to_url (env_getcwd env) (env_virtual_file env) f));
        let xml = (if bi_lineno b \<noteq> 0 then xml_add_attribute_ex ''lineno'' (lu (bi_lineno b)) xml else xml);
            xml = add_opt_attr ''function'' (bi_functionname b) xml;
            xml = add_opt_attr ''class'' (bi_classname b) xml;
            xml = xml_add_attribute_ex ''state''
              (if temporary b \<noteq> 0 then ''temporary'' else if disabled b then ''disabled'' else ''enabled'') xml;
            xml = xml_add_attribute_ex ''hit_count'' (lu (hit_count b)) xml;
            xml = (if hit_condition b = XDEBUG_HIT_GREATER_EQUAL then xml_add_attribute_ex ''hit_condition'' ''>='' xml
                   else if hit_condition b = XDEBUG_HIT_EQUAL then xml_add_attribute_ex ''hit_condition'' ''=='' xml
                   else if hit_condition b = XDEBUG_HIT_MOD then xml_add_attribute_ex ''hit_condition'' ''%'' xml
                   else xml);
            xml = (case bi_condition b of
                     None \<Rightarrow> xml
                   | Some c \<Rightarrow> xml_add_child xml
                       (xml_add_text_ex c (int (length (cstr c))) True (xml_node_init ''expression'')))
        in Some (xml_add_attribute_ex ''hit_value'' (lu (hit_value b)) xml)
      })"

section \<open>Commands on an existing breakpoint\<close>

definition change_state :: "string \<Rightarrow> brk_info \<Rightarrow> brk_info option" where
  "change_state s b =
     (if s = ''enabled'' then Some (b\<lparr>disabled := False\<rparr>)
      else if s = ''disabled'' then Some (b\<lparr>disabled := True\<rparr>)
      else None)"

definition change_operator :: "string \<Rightarrow> brk_info \<Rightarrow> brk_info option" where
  "change_operator s b =
     (if s = ''>='' then Some (b\<lparr>hit_condition := XDEBUG_HIT_GREATER_EQUAL\<rparr>)
      else if s = ''=='' then Some (b\<lparr>hit_condition := XDEBUG_HIT_EQUAL\<rparr>)
      else if s = ''%'' then Some (b\<lparr>hit_condition := XDEBUG_HIT_MOD\<rparr>)
      else None)"

definition int_option :: "dbgp_arg \<Rightarrow> char \<Rightarrow> int" where
  "int_option args c = to_int32 (strtol10 (option_char args c))"

definition put_brk :: "nat \<Rightarrow> brk_info \<Rightarrow> dbg \<Rightarrow> dbg" where
  "put_brk a b d = d\<lparr>brks := (brks d)[a := Some b]\<rparr>"

text \<open>The changes of \<open>breakpoint_update\<close>, \<open>True\<close> when all went well; earlier changes stay when a later
  option is invalid.\<close>

definition update_brk :: "dbgp_arg \<Rightarrow> brk_info \<Rightarrow> bool \<times> brk_info" where
  "update_brk args b =
     (case (if option_set args (CHR ''s'') then change_state (option_char args (CHR ''s'')) b else Some b) of
        None \<Rightarrow> (False, b)
      | Some b \<Rightarrow>
          (let b = (if option_set args (CHR ''n'') then b\<lparr>bi_lineno := int_option args (CHR ''n'')\<rparr> else b);
               b = (if option_set args (CHR ''h'') then b\<lparr>hit_value := int_option args (CHR ''h'')\<rparr> else b)
           in case (if option_set args (CHR ''o'') then change_operator (option_char args (CHR ''o'')) b else Some b) of
                None \<Rightarrow> (False, b)
              | Some b \<Rightarrow> (True, b)))"

datatype action = BREAKPOINT_ACTION_GET | BREAKPOINT_ACTION_REMOVE | BREAKPOINT_ACTION_UPDATE

definition breakpoint_do_action :: "dbg_env \<Rightarrow> action \<Rightarrow> handler" where
  "breakpoint_do_action env act args d retval =
     (if \<not> option_set args (CHR ''d'') then fail_with XDEBUG_ERROR_INVALID_ARGS d retval
      else do {
        adm \<leftarrow> breakpoint_admin_fetch (option_char args (CHR ''d'')) d;
        case adm of
          None \<Rightarrow> fail_with XDEBUG_ERROR_NO_SUCH_BREAKPOINT d retval
        | Some (ty, hkey) \<Rightarrow>
            do {
              r \<leftarrow> breakpoint_brk_info_fetch ty hkey d;
              a \<leftarrow> r;
              b \<leftarrow> brk_at (brks d) a;
              let (good, b) = (if act = BREAKPOINT_ACTION_UPDATE then update_brk args b else (True, b));
                  d = (if act = BREAKPOINT_ACTION_UPDATE then put_brk a b d else d)
              in if \<not> good then fail_with XDEBUG_ERROR_INVALID_ARGS d retval
                 else do {
                   node \<leftarrow> breakpoint_brk_info_add env b (xml_node_init ''breakpoint'');
                   let retval = xml_add_child retval (xml_add_attribute_ex ''id'' (option_char args (CHR ''d'')) node) in
                   if act = BREAKPOINT_ACTION_REMOVE
                   then do {
                     d \<leftarrow> breakpoint_remove ty hkey d;
                     d \<leftarrow> breakpoint_admin_remove (option_char args (CHR ''d'')) d;
                     Some (d, retval)
                   }
                   else Some (d, retval)
                 }
            }
      })"

definition handle_breakpoint_get :: "dbg_env \<Rightarrow> handler" where
  "handle_breakpoint_get env = breakpoint_do_action env BREAKPOINT_ACTION_GET"

definition handle_breakpoint_remove :: "dbg_env \<Rightarrow> handler" where
  "handle_breakpoint_remove env = breakpoint_do_action env BREAKPOINT_ACTION_REMOVE"

definition handle_breakpoint_update :: "dbg_env \<Rightarrow> handler" where
  "handle_breakpoint_update env = breakpoint_do_action env BREAKPOINT_ACTION_UPDATE"

definition breakpoint_list_helper ::
  "dbg_env \<Rightarrow> dbg \<Rightarrow> xml_node option \<Rightarrow> hkey \<times> brk_admin \<Rightarrow> xml_node option" where
  "breakpoint_list_helper env d xml he =
     do {
       xml \<leftarrow> xml;
       r \<leftarrow> breakpoint_brk_info_fetch (adm_type (snd he)) (adm_key (snd he)) d;
       a \<leftarrow> r;
       b \<leftarrow> brk_at (brks d) a;
       node \<leftarrow> breakpoint_brk_info_add env b (xml_node_init ''breakpoint'');
       Some (xml_add_child xml (xml_add_attribute_ex ''id'' (lu (adm_id (snd he))) node))
     }"

definition handle_breakpoint_list :: "dbg_env \<Rightarrow> handler" where
  "handle_breakpoint_list env args d retval =
     map_option (\<lambda>x. (d, x)) (hash_apply (breakpoint_list_helper env d) (breakpoint_list d) (Some retval))"

section \<open>Setting a breakpoint\<close>

text \<open>The source allocates the object first and fills it step by step; here \<open>b\<close> is the object under
  construction and \<open>a\<close> its address. A step that fails leaves the object behind: it stays allocated and nothing
  refers to it. The result of setting one: an error code, or its identifier, with the new state.\<close>

type_synonym set_result = "(int \<times> dbg + int \<times> dbg) option"

definition option_content :: "dbgp_arg \<Rightarrow> char \<Rightarrow> string" where
  "option_content args c = (case args ! nat (opt_index c) of None \<Rightarrow> [] | Some v \<Rightarrow> content v)"

definition set_line :: "dbg_env \<Rightarrow> dbgp_arg \<Rightarrow> nat \<Rightarrow> brk_info \<Rightarrow> dbg \<Rightarrow> set_result" where
  "set_line env args a b d =
     (if \<not> option_set args (CHR ''n'') then Some (Inl (XDEBUG_ERROR_INVALID_ARGS, put_brk a b d))
      else
        (let b = b\<lparr>bi_lineno := int_option args (CHR ''n'')\<rparr>
         in case (if option_set args (CHR ''f'')
                  then Inr (do {
                    f \<leftarrow> path_from_url (option_char args (CHR ''f''));
                    Some (case env_realpath env f of None \<Rightarrow> f | Some r \<Rightarrow> r)
                  })
                  else (case get_stack_tail (env_stack env) of
                          None \<Rightarrow> Inl XDEBUG_ERROR_STACK_DEPTH_INVALID
                        | Some fse \<Rightarrow> Inr (Option.bind (fse_filename fse) path_from_url))) of
              Inl e \<Rightarrow> Some (Inl (e, put_brk a b d))
            | Inr f \<Rightarrow>
                do {
                  f \<leftarrow> f;
                  let b = b\<lparr>bi_file := Some f, bi_file_len := length f\<rparr>;
                      b = (if option_set args (CHR ''-'')
                           then b\<lparr>bi_condition := Some (env_base64_decode env (option_content args (CHR ''-'')))\<rparr> else b)
                  in do {
                    (i, d) \<leftarrow> breakpoint_admin_add env BREAKPOINT_TYPE_LINE (f @ ''$'' @ lu (bi_lineno b)) (put_brk a b d);
                    Some (Inr (i, d\<lparr>line_breakpoints := line_breakpoints d @ [a]\<rparr>))
                  }
                }))"

text \<open>Adding an object to a hash; the one it replaces is freed.\<close>

definition add_function :: "string \<Rightarrow> nat \<Rightarrow> dbg \<Rightarrow> dbg option" where
  "add_function key a d =
     do {
       h \<leftarrow> hash_add_or_update (key_of key) a (function_breakpoints d);
       Some (free_brks (newly_destroyed (function_breakpoints d) h) (d\<lparr>function_breakpoints := h\<rparr>))
     }"

definition add_exception :: "string \<Rightarrow> nat \<Rightarrow> dbg \<Rightarrow> dbg option" where
  "add_exception key a d =
     do {
       h \<leftarrow> hash_add_or_update (key_of key) a (exception_breakpoints d);
       Some (free_brks (newly_destroyed (exception_breakpoints d) h) (d\<lparr>exception_breakpoints := h\<rparr>))
     }"

definition set_function :: "dbg_env \<Rightarrow> dbgp_arg \<Rightarrow> nat \<Rightarrow> brk_info \<Rightarrow> dbg \<Rightarrow> set_result" where
  "set_function env args a b d =
     (let b = b\<lparr>function_break_type :=
              (if option_char args (CHR ''t'') = ''call'' then XDEBUG_BRK_FUNC_CALL else XDEBUG_BRK_FUNC_RETURN)\<rparr>
      in if \<not> option_set args (CHR ''m'') then Some (Inl (XDEBUG_ERROR_INVALID_ARGS, put_brk a b d))
         else
           (let m = option_char args (CHR ''m''); b = b\<lparr>bi_functionname := Some m\<rparr>
            in if option_set args (CHR ''a'')
               then
                 (let b = b\<lparr>bi_classname := Some (option_char args (CHR ''a''))\<rparr>;
                      tmp_name = option_char args (CHR ''a'') @ ''::'' @ m
                  in do {
                    d \<leftarrow> add_function tmp_name a (put_brk a b d);
                    (i, d) \<leftarrow> breakpoint_admin_add env BREAKPOINT_TYPE_FUNCTION tmp_name d;
                    Some (Inr (i, d))
                  })
               else
                 do {
                   d \<leftarrow> add_function (option_content args (CHR ''m'')) a (put_brk a b d);
                   (i, d) \<leftarrow> breakpoint_admin_add env BREAKPOINT_TYPE_FUNCTION m d;
                   Some (Inr (i, d))
                 }))"

definition set_exception :: "dbg_env \<Rightarrow> dbgp_arg \<Rightarrow> nat \<Rightarrow> brk_info \<Rightarrow> dbg \<Rightarrow> set_result" where
  "set_exception env args a b d =
     (if \<not> option_set args (CHR ''x'') then Some (Inl (XDEBUG_ERROR_INVALID_ARGS, put_brk a b d))
      else
        (let x = option_char args (CHR ''x''); b = b\<lparr>bi_exceptionname := Some x\<rparr>
         in do {
           d \<leftarrow> add_exception (option_content args (CHR ''x'')) a (put_brk a b d);
           (i, d) \<leftarrow> breakpoint_admin_add env BREAKPOINT_TYPE_EXCEPTION x d;
           Some (Inr (i, d))
         }))"

text \<open>The branch of the type, and the reply to its result.\<close>

definition set_by_type :: "dbg_env \<Rightarrow> string \<Rightarrow> dbgp_arg \<Rightarrow> nat \<Rightarrow> brk_info \<Rightarrow> dbg \<Rightarrow> set_result" where
  "set_by_type env t args a b d =
     (if t = ''line'' \<or> t = ''conditional'' then set_line env args a b d
      else if t = ''call'' \<or> t = ''return'' then set_function env args a b d
      else if t = ''exception'' then set_exception env args a b d
      else Some (Inl (XDEBUG_ERROR_BREAKPOINT_TYPE_NOT_SUPPORTED, put_brk a b d)))"

definition reply_set :: "xml_node \<Rightarrow> int \<times> dbg + int \<times> dbg \<Rightarrow> (dbg \<times> xml_node) option" where
  "reply_set retval r =
     (case r of
        Inl (e, d) \<Rightarrow> fail_with e d retval
      | Inr (i, d) \<Rightarrow> Some (d, xml_add_attribute_ex ''id'' (lu i) retval))"

text \<open>The options that fill the new object before its type is looked at: \<open>s\<close>, which also goes into the reply,
  \<open>o\<close> with \<open>h\<close>, and \<open>r\<close>. An invalid one ends the command with the object as it is then.\<close>

definition set_options :: "dbgp_arg \<Rightarrow> brk_info \<Rightarrow> xml_node \<Rightarrow> bool \<times> brk_info \<times> xml_node" where
  "set_options args b retval =
     (case (if option_set args (CHR ''s'')
            then map_option (\<lambda>b. (b, xml_add_attribute_ex ''state'' (option_char args (CHR ''s'')) retval))
                   (change_state (option_char args (CHR ''s'')) b)
            else Some (b, retval)) of
        None \<Rightarrow> (False, b, retval)
      | Some (b, retval) \<Rightarrow>
          (case (if option_set args (CHR ''o'') \<and> option_set args (CHR ''h'')
                 then map_option (\<lambda>b. b\<lparr>hit_value := int_option args (CHR ''h'')\<rparr>)
                        (change_operator (option_char args (CHR ''o'')) b)
                 else Some b) of
             None \<Rightarrow> (False, b, retval)
           | Some b \<Rightarrow>
               (True, (if option_set args (CHR ''r'') then b\<lparr>temporary := int_option args (CHR ''r'')\<rparr> else b), retval)))"

definition handle_breakpoint_set :: "dbg_env \<Rightarrow> handler" where
  "handle_breakpoint_set env args d retval =
     (let (a, d) = alloc_brk new_brk_info d
      in if \<not> option_set args (CHR ''t'') then fail_with XDEBUG_ERROR_INVALID_ARGS d retval
         else
           (let t = option_char args (CHR ''t'')
            in if t \<notin> set [''line'', ''conditional'', ''call'', ''return'', ''exception'', ''watch'']
               then fail_with XDEBUG_ERROR_INVALID_ARGS d retval
               else
                 (let (good, b, retval) = set_options args (new_brk_info\<lparr>bi_type := Some t\<rparr>) retval
                  in if \<not> good then fail_with XDEBUG_ERROR_INVALID_ARGS (put_brk a b d) retval
                     else Option.bind (set_by_type env t args a b d) (reply_set retval))))"

end
