(* ===== verification/BreakpointFacts.thy ===== *)
theory BreakpointFacts
  imports Breakpoints
begin

text \<open>
  The breakpoint store: which objects are alive and who holds them. The theorems say that the commands keep
  the store consistent, but for the object that a failed setting leaves behind, that setting and removing a
  breakpoint cancel out, and in which cases the administration loses track of a breakpoint.
\<close>

section \<open>The store\<close>

text \<open>The addresses held by the two hashes and the list.\<close>

definition owners :: "dbg \<Rightarrow> nat multiset" where
  "owners d = live (function_breakpoints d) + live (exception_breakpoints d) + mset (line_breakpoints d)"

definition tables_ok :: "dbg \<Rightarrow> bool" where
  "tables_ok d \<longleftrightarrow>
     hash_inv (breakpoint_list d) \<and> hash_inv (function_breakpoints d) \<and> hash_inv (exception_breakpoints d) \<and>
     hash_dtor (function_breakpoints d) \<and> hash_dtor (exception_breakpoints d) \<and>
     (\<forall>k adm. abs_hash (breakpoint_list d) k = Some adm \<longrightarrow> adm_key adm \<noteq> [])"

text \<open>Every object that is alive is held exactly once, or is one of the loose objects \<open>X\<close>, and nothing else
  is held. An object is loose between its allocation and its entry in a table, and for good when the command
  that allocated it failed.\<close>

definition held :: "nat multiset \<Rightarrow> dbg \<Rightarrow> bool" where
  "held X d \<longleftrightarrow> (\<forall>a. count (owners d) a + count X a = (if brk_at (brks d) a = None then 0 else 1))"

definition store_with :: "nat multiset \<Rightarrow> dbg \<Rightarrow> bool" where
  "store_with X d \<longleftrightarrow> tables_ok d \<and> held X d"

definition store_ok :: "dbg \<Rightarrow> bool" where
  "store_ok d \<longleftrightarrow> (\<exists>X. store_with X d)"

lemma store_withD: "store_with X d \<Longrightarrow> tables_ok d"
  by (simp add: store_with_def)

lemma brk_at_append: "brk_at (h @ [Some b]) a = (if a = length h then Some b else brk_at h a)"
  by (auto simp: brk_at_def nth_append)

lemma brk_at_free: "brk_at (foldl (\<lambda>h a. h[a := None]) h as) a = (if a \<in> set as then None else brk_at h a)"
proof (induction as arbitrary: h)
  case (Cons x xs)
  have "brk_at (h[x := None]) y = (if y = x then None else brk_at h y)" for y
    by (auto simp: brk_at_def)
  then show ?case using Cons by simp
qed simp

lemma brk_at_put: "brk_at h a = Some b0 \<Longrightarrow> brk_at (h[a := Some b]) x = (if x = a then Some b else brk_at h x)"
  by (auto simp: brk_at_def split: if_splits)

lemma abs_hash_live: "hash_inv h \<Longrightarrow> abs_hash h k = Some w \<Longrightarrow> w \<in># live h"
proof -
  assume h: "hash_inv h" "abs_hash h k = Some w"
  then have "(k, w) \<in> set (table h ! find_slot (slots h) k)" by (auto simp: abs_hash_def dest: map_of_SomeD)
  moreover have "find_slot (slots h) k < length (table h)"
    using h(1) find_slot_less by (auto simp: hash_inv_def)
  ultimately have "(k, w) \<in> set (concat (table h))" by (metis UN_I nth_mem set_concat)
  then show "w \<in># live h" by (force simp: live_def)
qed

section \<open>Allocating, adding and removing\<close>

lemma alloc_brk_ok:
  assumes "tables_ok d" and "held X d"
  shows "tables_ok (snd (alloc_brk b d))" "held (X + {#fst (alloc_brk b d)#}) (snd (alloc_brk b d))"
proof -
  show "tables_ok (snd (alloc_brk b d))" using assms(1) by (simp add: tables_ok_def alloc_brk_def)
  have n: "brk_at (brks d) (length (brks d)) = None" by (simp add: brk_at_def)
  have o: "owners (d\<lparr>brks := brks d @ [Some b]\<rparr>) = owners d" by (simp add: owners_def)
  show "held (X + {#fst (alloc_brk b d)#}) (snd (alloc_brk b d))"
    unfolding held_def
  proof
    fix x
    show "count (owners (snd (alloc_brk b d))) x + count (X + {#fst (alloc_brk b d)#}) x =
        (if brk_at (brks (snd (alloc_brk b d))) x = None then 0 else 1)"
      using assms(2) [unfolded held_def, THEN spec, of x] n
      by (cases "x = length (brks d)") (simp_all add: alloc_brk_def o brk_at_append)
  qed
qed

text \<open>The object that was allocated empty holds what is stored in it later.\<close>

lemma put_new_brk [simp]: "put_brk (length (brks d)) b (d\<lparr>brks := brks d @ [Some b0]\<rparr>) = d\<lparr>brks := brks d @ [Some b]\<rparr>"
  by (simp add: put_brk_def list_update_append)

text \<open>A hash that takes over a loose object, or drops one it holds.\<close>

lemma count_add:
  assumes "hash_inv h" and "hash_dtor h" and "key_ok k" and "hash_add_or_update k v h = Some h'"
  shows "live h' + mset (newly_destroyed h h') = live h + {#v#}" and "newly_destroyed h h' = dropped h k"
    and "hash_inv h'" and "hash_dtor h'" and "abs_hash h' = (abs_hash h)(k \<mapsto> v)"
proof -
  have d: "hdestroyed h' = hdestroyed h @ dropped h k" by (rule hash_add_dropped [OF assms(3,4)])
  then show n: "newly_destroyed h h' = dropped h k" by (simp add: newly_destroyed_def)
  obtain h2 where h2: "hash_add_or_update k v h = Some h2" "hash_inv h2" "abs_hash h2 = (abs_hash h)(k \<mapsto> v)"
    "mset (hdestroyed h2) + live h2 = mset (hdestroyed h) + live h + {#v#}" "hash_dtor h2"
    using hash_add_or_update_ok [OF assms(1,3), of v] assms(2) by auto
  then have "h2 = h'" using assms(4) by simp
  then have "mset (hdestroyed h) + (live h' + mset (dropped h k)) = mset (hdestroyed h) + (live h + {#v#})"
    using h2(4) d by (simp add: ac_simps)
  then have "live h' + mset (dropped h k) = live h + {#v#}" by (rule add_left_imp_eq)
  then show "live h' + mset (newly_destroyed h h') = live h + {#v#}" unfolding n .
  show "hash_inv h'" "hash_dtor h'" "abs_hash h' = (abs_hash h)(k \<mapsto> v)"
    using h2 \<open>h2 = h'\<close> by auto
qed

lemma count_delete:
  assumes "hash_inv h" and "hash_dtor h" and "key_ok k" and "hash_extended_delete k h = Some (b, h')"
  shows "live h' + mset (newly_destroyed h h') = live h" and "newly_destroyed h h' = dropped h k"
    and "hash_inv h'" and "hash_dtor h'" and "abs_hash h' = (abs_hash h)(k := None)"
proof -
  have d: "hdestroyed h' = hdestroyed h @ dropped h k" by (rule hash_delete_dropped [OF assms(3,4)])
  then show n: "newly_destroyed h h' = dropped h k" by (simp add: newly_destroyed_def)
  obtain h2 where h2: "hash_extended_delete k h = Some (abs_hash h k \<noteq> None, h2)" "hash_inv h2"
    "abs_hash h2 = (abs_hash h)(k := None)"
    "mset (hdestroyed h2) + live h2 = mset (hdestroyed h) + live h" "hash_dtor h2"
    using hash_extended_delete_ok [OF assms(1,3)] assms(2) by auto
  then have "h2 = h'" using assms(4) by simp
  then have "mset (hdestroyed h) + (live h' + mset (dropped h k)) = mset (hdestroyed h) + live h"
    using h2(4) d by (simp add: ac_simps)
  then have "live h' + mset (dropped h k) = live h" by (rule add_left_imp_eq)
  then show "live h' + mset (newly_destroyed h h') = live h" unfolding n .
  show "hash_inv h'" "hash_dtor h'" "abs_hash h' = (abs_hash h)(k := None)"
    using h2 \<open>h2 = h'\<close> by auto
qed

text \<open>Freeing what was dropped keeps the store in order.\<close>

lemma held_drop:
  assumes "held (X + Y) d" and "owners d' + mset as = owners d + Y" and "distinct as" and "set as \<subseteq> set_mset (owners d)"
    and "brks d' = foldl (\<lambda>h a. h[a := None]) (brks d) as"
  shows "held X d'"
  unfolding held_def
proof
  fix a
  have c: "count (owners d') a + count (mset as) a = count (owners d) a + count Y a"
    using assms(2) by (metis count_union)
  have h: "count (owners d) a + (count X a + count Y a) = (if brk_at (brks d) a = None then 0 else 1)"
    using assms(1) unfolding held_def by simp
  show "count (owners d') a + count X a = (if brk_at (brks d') a = None then 0 else 1)"
  proof (cases "a \<in> set as")
    case True
    then have "0 < count (owners d) a" "count (mset as) a = 1"
      using assms(3,4) by (auto simp: distinct_count_atmost_1 count_greater_zero_iff)
    then show ?thesis using c h True by (auto simp: assms(5) brk_at_free split: if_splits)
  next
    case False
    then have "count (mset as) a = 0" by (simp add: count_eq_zero_iff)
    then have "count (owners d') a = count (owners d) a + count Y a" using c by linarith
    then show ?thesis using h False by (simp add: assms(5) brk_at_free)
  qed
qed

lemma dropped_ok:
  assumes "hash_inv h"
  shows "distinct (dropped h k) \<and> set (dropped h k) \<subseteq> set_mset (live h)"
proof (cases "abs_hash h k")
  case None
  then have "dropped h k = []" by (simp add: dropped_def)
  then show ?thesis by simp
next
  case (Some w)
  then have "dropped h k = [] \<or> dropped h k = [w]" by (simp add: dropped_def)
  then show ?thesis using abs_hash_live [OF assms Some] by auto
qed

lemma add_function_ok:
  assumes "tables_ok d" and "held (X + {#a#}) d" and "key \<noteq> []"
  shows "\<exists>d'. add_function key a d = Some d' \<and> tables_ok d' \<and> held X d' \<and>
    abs_hash (function_breakpoints d') = (abs_hash (function_breakpoints d))(key_of key \<mapsto> a) \<and>
    (abs_hash (function_breakpoints d) (key_of key) = None \<longrightarrow> brks d' = brks d) \<and>
    brk_at (brks d') a = brk_at (brks d) a \<and>
    d' = d\<lparr>brks := brks d', function_breakpoints := function_breakpoints d'\<rparr>"
proof -
  have inv: "hash_inv (function_breakpoints d)" "hash_dtor (function_breakpoints d)"
    using assms(1) by (auto simp: tables_ok_def)
  have k: "key_ok (key_of key)" using assms(3) by (simp add: key_ok_def)
  obtain h where h: "hash_add_or_update (key_of key) a (function_breakpoints d) = Some h"
    using hash_add_or_update_ok [OF inv(1) k, of a] by blast
  note c = count_add [OF inv k h]
  define d' where "d' = free_brks (newly_destroyed (function_breakpoints d) h) (d\<lparr>function_breakpoints := h\<rparr>)"
  have e: "add_function key a d = Some d'" by (simp add: add_function_def h d'_def)
  have t: "tables_ok d'" using assms(1) c(3,4) by (auto simp: tables_ok_def d'_def free_brks_def)
  have "held X d'"
  proof (rule held_drop [OF assms(2)])
    show "owners d' + mset (dropped (function_breakpoints d) (key_of key)) = owners d + {#a#}"
      using c(1,2) by (simp add: owners_def d'_def free_brks_def ac_simps)
    show "brks d' = foldl (\<lambda>h a. h[a := None]) (brks d) (dropped (function_breakpoints d) (key_of key))"
      using c(2) by (simp add: d'_def free_brks_def)
  qed (use dropped_ok [OF inv(1), of "key_of key"] in \<open>auto simp: owners_def\<close>)
  moreover have "abs_hash (function_breakpoints d) (key_of key) = None \<longrightarrow> brks d' = brks d"
    using c(2) by (simp add: d'_def free_brks_def dropped_def)
  moreover have "brk_at (brks d') a = brk_at (brks d) a"
  proof -
    have "count (owners d) a + count (X + {#a#}) a \<le> 1" using assms(2) [unfolded held_def, THEN spec, of a]
      by (simp split: if_splits)
    then have "a \<notin># live (function_breakpoints d)" by (simp add: owners_def not_in_iff)
    then have "a \<notin> set (dropped (function_breakpoints d) (key_of key))"
      using dropped_ok [OF inv(1), of "key_of key"] by blast
    then show ?thesis by (simp add: d'_def free_brks_def c(2) brk_at_free)
  qed
  moreover have "abs_hash (function_breakpoints d') = (abs_hash (function_breakpoints d))(key_of key \<mapsto> a)"
    using c(5) by (simp add: d'_def free_brks_def)
  ultimately show ?thesis using e t by (intro exI [of _ d']) (simp add: d'_def free_brks_def)
qed

lemma add_exception_ok:
  assumes "tables_ok d" and "held (X + {#a#}) d" and "key \<noteq> []"
  shows "\<exists>d'. add_exception key a d = Some d' \<and> tables_ok d' \<and> held X d' \<and>
    abs_hash (exception_breakpoints d') = (abs_hash (exception_breakpoints d))(key_of key \<mapsto> a) \<and>
    brk_at (brks d') a = brk_at (brks d) a \<and>
    d' = d\<lparr>brks := brks d', exception_breakpoints := exception_breakpoints d'\<rparr>"
proof -
  have inv: "hash_inv (exception_breakpoints d)" "hash_dtor (exception_breakpoints d)"
    using assms(1) by (auto simp: tables_ok_def)
  have k: "key_ok (key_of key)" using assms(3) by (simp add: key_ok_def)
  obtain h where h: "hash_add_or_update (key_of key) a (exception_breakpoints d) = Some h"
    using hash_add_or_update_ok [OF inv(1) k, of a] by blast
  note c = count_add [OF inv k h]
  define d' where "d' = free_brks (newly_destroyed (exception_breakpoints d) h) (d\<lparr>exception_breakpoints := h\<rparr>)"
  have e: "add_exception key a d = Some d'" by (simp add: add_exception_def h d'_def)
  have t: "tables_ok d'" using assms(1) c(3,4) by (auto simp: tables_ok_def d'_def free_brks_def)
  have "held X d'"
  proof (rule held_drop [OF assms(2)])
    show "owners d' + mset (dropped (exception_breakpoints d) (key_of key)) = owners d + {#a#}"
      using c(1,2) by (simp add: owners_def d'_def free_brks_def ac_simps)
    show "brks d' = foldl (\<lambda>h a. h[a := None]) (brks d) (dropped (exception_breakpoints d) (key_of key))"
      using c(2) by (simp add: d'_def free_brks_def)
  qed (use dropped_ok [OF inv(1), of "key_of key"] in \<open>auto simp: owners_def\<close>)
  moreover have "brk_at (brks d') a = brk_at (brks d) a"
  proof -
    have "count (owners d) a + count (X + {#a#}) a \<le> 1" using assms(2) [unfolded held_def, THEN spec, of a]
      by (simp split: if_splits)
    then have "a \<notin># live (exception_breakpoints d)" by (simp add: owners_def not_in_iff)
    then have "a \<notin> set (dropped (exception_breakpoints d) (key_of key))"
      using dropped_ok [OF inv(1), of "key_of key"] by blast
    then show ?thesis by (simp add: d'_def free_brks_def c(2) brk_at_free)
  qed
  moreover have "abs_hash (exception_breakpoints d') = (abs_hash (exception_breakpoints d))(key_of key \<mapsto> a)"
    using c(5) by (simp add: d'_def free_brks_def)
  ultimately show ?thesis using e t by (intro exI [of _ d']) (simp add: d'_def free_brks_def)
qed


text \<open>The identifier the next breakpoint gets.\<close>

definition next_id :: "dbg_env \<Rightarrow> dbg \<Rightarrow> int" where
  "next_id env d = to_int32 (take_bit 17 (env_getpid env) * 10000 + (breakpoint_count d + 1))"

definition following_id :: "dbg_env \<Rightarrow> dbg \<Rightarrow> int" where
  "following_id env d = next_id env (d\<lparr>breakpoint_count := breakpoint_count d + 1\<rparr>)"

lemma lu_nonempty [simp]: "lu i \<noteq> []"
  by (simp add: lu_def)

lemma admin_add_ok:
  assumes "tables_ok d" and "key \<noteq> []"
  shows "\<exists>bl. breakpoint_admin_add env ty key d =
      Some (next_id env d, d\<lparr>breakpoint_count := breakpoint_count d + 1, breakpoint_list := bl\<rparr>) \<and>
    hash_inv bl \<and> abs_hash bl = (abs_hash (breakpoint_list d))
      (key_of (lu (next_id env d)) \<mapsto> \<lparr>adm_id = next_id env d, adm_type = ty, adm_key = key\<rparr>) \<and>
    tables_ok (d\<lparr>breakpoint_count := breakpoint_count d + 1, breakpoint_list := bl\<rparr>)"
proof -
  let ?adm = "\<lparr>adm_id = next_id env d, adm_type = ty, adm_key = key\<rparr>"
  have k: "key_ok (key_of (lu (next_id env d)))" by (simp add: key_ok_def)
  have inv: "hash_inv (breakpoint_list d)" using assms(1) by (simp add: tables_ok_def)
  obtain bl where bl: "hash_add_or_update (key_of (lu (next_id env d))) ?adm (breakpoint_list d) = Some bl"
    "hash_inv bl" "abs_hash bl = (abs_hash (breakpoint_list d))(key_of (lu (next_id env d)) \<mapsto> ?adm)"
    using hash_add_or_update_ok [OF inv k, of ?adm] by blast
  have "\<forall>k adm. abs_hash bl k = Some adm \<longrightarrow> adm_key adm \<noteq> []"
    using assms unfolding bl(3) tables_ok_def by simp
  then have t: "tables_ok (d\<lparr>breakpoint_count := breakpoint_count d + 1, breakpoint_list := bl\<rparr>)"
    using assms(1) bl(2) by (simp add: tables_ok_def)
  have "breakpoint_admin_add env ty key d =
      Some (next_id env d, d\<lparr>breakpoint_count := breakpoint_count d + 1, breakpoint_list := bl\<rparr>)"
    using bl(1) by (simp add: breakpoint_admin_add_def next_id_def)
  then show ?thesis using bl(2,3) t by blast
qed

lemma held_other [simp]:
  "held X (d\<lparr>breakpoint_count := n\<rparr>) = held X d" "held X (d\<lparr>breakpoint_list := bl\<rparr>) = held X d"
  by (simp_all add: held_def owners_def)

lemma find_line_mem: "find_line parts h as = Some (Some a) \<Longrightarrow> a \<in> set as"
proof (induction as)
  case (Cons x as)
  obtain b where b: "brk_at h x = Some b" using Cons.prems by (cases "brk_at h x") auto
  obtain m where m: "line_matches parts b = Some m" using Cons.prems b by (cases "line_matches parts b") auto
  show ?case using Cons.prems Cons.IH by (cases m) (auto simp: b m)
qed simp

lemma remove_ok:
  assumes "tables_ok d" and "held X d" and "hkey \<noteq> []" and "breakpoint_remove ty hkey d = Some d'"
  shows "tables_ok d' \<and> held X d' \<and> breakpoint_list d' = breakpoint_list d"
proof -
  have k: "key_ok (key_of hkey)" using assms(3) by (simp add: key_ok_def)
  consider (line) "ty = BREAKPOINT_TYPE_LINE" | (fn) "ty = BREAKPOINT_TYPE_FUNCTION"
    | (ex) "ty = BREAKPOINT_TYPE_EXCEPTION"
    | (none) "ty \<noteq> BREAKPOINT_TYPE_LINE" "ty \<noteq> BREAKPOINT_TYPE_FUNCTION" "ty \<noteq> BREAKPOINT_TYPE_EXCEPTION"
    by blast
  then show ?thesis
  proof cases
    case line
    then have b: "do {
        parts \<leftarrow> explode ''$'' hkey [] (- 1);
        r \<leftarrow> find_line parts (brks d) (line_breakpoints d);
        Some (case r of
                None \<Rightarrow> d
              | Some a \<Rightarrow> free_brks [a] (d\<lparr>line_breakpoints := remove1 a (line_breakpoints d)\<rparr>))
      } = Some d'"
      using assms(4) unfolding breakpoint_remove_def by (simp only: if_True refl simp_thms)
    obtain parts where parts: "explode ''$'' hkey [] (- 1) = Some parts"
      using b by (cases "explode ''$'' hkey [] (- 1)") auto
    obtain r where r1: "find_line parts (brks d) (line_breakpoints d) = Some r"
      using b parts by (cases "find_line parts (brks d) (line_breakpoints d)") auto
    have r: "find_line parts (brks d) (line_breakpoints d) = Some r"
      "d' = (case r of None \<Rightarrow> d | Some a \<Rightarrow> free_brks [a] (d\<lparr>line_breakpoints := remove1 a (line_breakpoints d)\<rparr>))"
      using b unfolding parts Option.bind_lunit r1 by simp_all
    show ?thesis
    proof (cases r)
      case None
      then show ?thesis using r assms(1,2) by simp
    next
      case (Some a)
      then have a: "a \<in># mset (line_breakpoints d)" using find_line_mem r(1) by simp
      then have "held X d'"
        using held_drop [where Y = "{#}", OF _ _, of X d d' "[a]"] assms(2) r(2) Some
        by (simp add: owners_def free_brks_def mset_remove1)
      then show ?thesis using r(2) Some assms(1) by (simp add: tables_ok_def free_brks_def)
    qed
  next
    case fn
    then obtain b h where h: "hash_extended_delete (key_of hkey) (function_breakpoints d) = Some (b, h)"
      "d' = free_brks (newly_destroyed (function_breakpoints d) h) (d\<lparr>function_breakpoints := h\<rparr>)"
      using assms(4) by (auto simp: breakpoint_remove_def BREAKPOINT_TYPE_FUNCTION_def BREAKPOINT_TYPE_LINE_def
          split: Option.bind_splits)
    have inv: "hash_inv (function_breakpoints d)" "hash_dtor (function_breakpoints d)"
      using assms(1) by (auto simp: tables_ok_def)
    note c = count_delete [OF inv k h(1)]
    have "held X d'"
    proof (rule held_drop [where Y = "{#}"])
      show "held (X + {#}) d" using assms(2) by simp
    next
      show "owners d' + mset (dropped (function_breakpoints d) (key_of hkey)) = owners d + {#}"
        using c(1,2) h(2) by (simp add: owners_def free_brks_def ac_simps)
      show "brks d' = foldl (\<lambda>h a. h[a := None]) (brks d) (dropped (function_breakpoints d) (key_of hkey))"
        using c(2) h(2) by (simp add: free_brks_def)
    qed (use dropped_ok [OF inv(1), of "key_of hkey"] in \<open>auto simp: owners_def\<close>)
    then show ?thesis using assms(1) c(3,4) h(2) by (auto simp: tables_ok_def free_brks_def)
  next
    case ex
    then obtain b h where h: "hash_extended_delete (key_of hkey) (exception_breakpoints d) = Some (b, h)"
      "d' = free_brks (newly_destroyed (exception_breakpoints d) h) (d\<lparr>exception_breakpoints := h\<rparr>)"
      using assms(4) by (auto simp: breakpoint_remove_def BREAKPOINT_TYPE_FUNCTION_def BREAKPOINT_TYPE_LINE_def
          BREAKPOINT_TYPE_EXCEPTION_def split: Option.bind_splits)
    have inv: "hash_inv (exception_breakpoints d)" "hash_dtor (exception_breakpoints d)"
      using assms(1) by (auto simp: tables_ok_def)
    note c = count_delete [OF inv k h(1)]
    have "held X d'"
    proof (rule held_drop [where Y = "{#}"])
      show "held (X + {#}) d" using assms(2) by simp
    next
      show "owners d' + mset (dropped (exception_breakpoints d) (key_of hkey)) = owners d + {#}"
        using c(1,2) h(2) by (simp add: owners_def free_brks_def ac_simps)
      show "brks d' = foldl (\<lambda>h a. h[a := None]) (brks d) (dropped (exception_breakpoints d) (key_of hkey))"
        using c(2) h(2) by (simp add: free_brks_def)
    qed (use dropped_ok [OF inv(1), of "key_of hkey"] in \<open>auto simp: owners_def\<close>)
    then show ?thesis using assms(1) c(3,4) h(2) by (auto simp: tables_ok_def free_brks_def)
  next
    case none
    then show ?thesis using assms by (simp add: breakpoint_remove_def)
  qed
qed

lemma admin_remove_ok:
  assumes "tables_ok d" and "hkey \<noteq> []"
  shows "\<exists>bl. breakpoint_admin_remove hkey d = Some (d\<lparr>breakpoint_list := bl\<rparr>) \<and>
    abs_hash bl = (abs_hash (breakpoint_list d))(key_of hkey := None) \<and> tables_ok (d\<lparr>breakpoint_list := bl\<rparr>)"
proof -
  have k: "key_ok (key_of hkey)" using assms(2) by (simp add: key_ok_def)
  have inv: "hash_inv (breakpoint_list d)" using assms(1) by (simp add: tables_ok_def)
  obtain b bl where bl: "hash_extended_delete (key_of hkey) (breakpoint_list d) = Some (b, bl)" "hash_inv bl"
    "abs_hash bl = (abs_hash (breakpoint_list d))(key_of hkey := None)"
    using hash_extended_delete_ok [OF inv k] by blast
  have "\<forall>k adm. abs_hash bl k = Some adm \<longrightarrow> adm_key adm \<noteq> []"
    using assms(1) unfolding bl(3) tables_ok_def by simp
  then have "tables_ok (d\<lparr>breakpoint_list := bl\<rparr>)"
    using assms(1) bl(2) by (simp add: tables_ok_def)
  then show ?thesis using bl(3) by (auto simp: breakpoint_admin_remove_def bl(1))
qed

lemma admin_fetch_ok:
  assumes "tables_ok d" and "hkey \<noteq> []"
  shows "breakpoint_admin_fetch hkey d =
    Some (map_option (\<lambda>adm. (adm_type adm, adm_key adm)) (abs_hash (breakpoint_list d) (key_of hkey)))"
  using xh.find [of "breakpoint_list d" "key_of hkey"] assms
  by (simp add: breakpoint_admin_fetch_def tables_ok_def key_ok_def)

lemma put_brk_ok:
  assumes "brk_at (brks d) a = Some b0"
  shows "held X (put_brk a b d) = held X d" "tables_ok (put_brk a b d) = tables_ok d"
proof -
  have e: "(brk_at (brks (put_brk a b d)) x = None) = (brk_at (brks d) x = None)" for x
    using assms by (simp add: put_brk_def brk_at_put [OF assms])
  have "owners (put_brk a b d) = owners d" by (simp add: put_brk_def owners_def)
  then show "held X (put_brk a b d) = held X d" unfolding held_def e by (simp only:)
  show "tables_ok (put_brk a b d) = tables_ok d" by (simp add: put_brk_def tables_ok_def)
qed

section \<open>Setting\<close>

text \<open>The options that become keys are not empty.\<close>

definition keys_given :: "dbgp_arg \<Rightarrow> bool" where
  "keys_given args \<longleftrightarrow>
     (\<forall>c \<in> {CHR ''d'', CHR ''m'', CHR ''x''}.
        option_set args c \<longrightarrow> option_char args c \<noteq> [] \<and> option_content args c \<noteq> [])"

lemma set_in_functions:
  assumes "store_with X d" and "key \<noteq> []" and "akey \<noteq> []"
  shows "\<exists>d1 d'. add_function key (length (brks d)) (snd (alloc_brk b d)) = Some d1 \<and>
    breakpoint_admin_add env ty akey d1 = Some (next_id env d, d') \<and> store_with X d' \<and>
    abs_hash (function_breakpoints d') = (abs_hash (function_breakpoints d))(key_of key \<mapsto> length (brks d)) \<and>
    abs_hash (breakpoint_list d') = (abs_hash (breakpoint_list d))
      (key_of (lu (next_id env d)) \<mapsto> \<lparr>adm_id = next_id env d, adm_type = ty, adm_key = akey\<rparr>) \<and>
    (abs_hash (function_breakpoints d) (key_of key) = None \<longrightarrow> brks d' = brks d @ [Some b]) \<and>
    brk_at (brks d') (length (brks d)) = Some b \<and>
    d' = d\<lparr>breakpoint_count := breakpoint_count d + 1, breakpoint_list := breakpoint_list d', brks := brks d',
      function_breakpoints := function_breakpoints d'\<rparr>"
proof -
  have ok: "tables_ok d" "held X d" using assms(1) by (auto simp: store_with_def)
  note a = alloc_brk_ok [OF ok, of b]
  have f: "fst (alloc_brk b d) = length (brks d)" "snd (alloc_brk b d) = d\<lparr>brks := brks d @ [Some b]\<rparr>"
    by (simp_all add: alloc_brk_def)
  obtain d1 where d1: "add_function key (length (brks d)) (snd (alloc_brk b d)) = Some d1" "tables_ok d1" "held X d1"
    "abs_hash (function_breakpoints d1) = (abs_hash (function_breakpoints d))(key_of key \<mapsto> length (brks d))"
    "abs_hash (function_breakpoints d) (key_of key) = None \<longrightarrow> brks d1 = brks d @ [Some b]"
    "brk_at (brks d1) (length (brks d)) = Some b"
    "d1 = d\<lparr>brks := brks d1, function_breakpoints := function_breakpoints d1\<rparr>"
    using add_function_ok [OF a(1) a(2) [unfolded f(1)] assms(2)] by (auto simp: f(2) brk_at_append)
  have same: "next_id env d1 = next_id env d" "breakpoint_count d1 = breakpoint_count d"
    "breakpoint_list d1 = breakpoint_list d"
    by (subst d1(7); simp add: next_id_def)+
  obtain bl where bl: "breakpoint_admin_add env ty akey d1 =
      Some (next_id env d1, d1\<lparr>breakpoint_count := breakpoint_count d1 + 1, breakpoint_list := bl\<rparr>)"
    "abs_hash bl = (abs_hash (breakpoint_list d1))
      (key_of (lu (next_id env d1)) \<mapsto> \<lparr>adm_id = next_id env d1, adm_type = ty, adm_key = akey\<rparr>)"
    "tables_ok (d1\<lparr>breakpoint_count := breakpoint_count d1 + 1, breakpoint_list := bl\<rparr>)"
    using admin_add_ok [OF d1(2) assms(3)] by blast
  define d' where "d' = d1\<lparr>breakpoint_count := breakpoint_count d1 + 1, breakpoint_list := bl\<rparr>"
  have st: "store_with X d'" using bl(3) d1(3) by (simp add: store_with_def d'_def)
  have sel: "breakpoint_list d' = bl" "brks d' = brks d1" "function_breakpoints d' = function_breakpoints d1"
    by (simp_all add: d'_def)
  have "d' = d\<lparr>breakpoint_count := breakpoint_count d + 1, breakpoint_list := breakpoint_list d', brks := brks d',
      function_breakpoints := function_breakpoints d'\<rparr>"
    unfolding sel using arg_cong [OF d1(7), of "\<lambda>x. x\<lparr>breakpoint_count := breakpoint_count d + 1, breakpoint_list := bl\<rparr>"]
    by (simp add: d'_def same)
  moreover have "breakpoint_admin_add env ty akey d1 = Some (next_id env d, d')"
    using bl(1) by (simp add: same d'_def)
  moreover have "abs_hash (function_breakpoints d) (key_of key) = None \<longrightarrow> brks d' = brks d @ [Some b]"
    unfolding sel by (rule d1(5))
  moreover have "brk_at (brks d') (length (brks d)) = Some b" unfolding sel by (rule d1(6))
  ultimately show ?thesis
    using d1(1) by (intro exI [of _ d1] exI [of _ d'] conjI st d1(4) [folded sel(3)] bl(2) [unfolded same, folded sel(1)])
qed

lemma set_in_exceptions:
  assumes "store_with X d" and "key \<noteq> []" and "akey \<noteq> []"
  shows "\<exists>d1 d'. add_exception key (length (brks d)) (snd (alloc_brk b d)) = Some d1 \<and>
    breakpoint_admin_add env ty akey d1 = Some (next_id env d, d') \<and> store_with X d'"
proof -
  have ok: "tables_ok d" "held X d" using assms(1) by (auto simp: store_with_def)
  note a = alloc_brk_ok [OF ok, of b]
  have f: "fst (alloc_brk b d) = length (brks d)" "snd (alloc_brk b d) = d\<lparr>brks := brks d @ [Some b]\<rparr>"
    by (simp_all add: alloc_brk_def)
  obtain d1 where d1: "add_exception key (length (brks d)) (snd (alloc_brk b d)) = Some d1" "tables_ok d1" "held X d1"
    "d1 = d\<lparr>brks := brks d1, exception_breakpoints := exception_breakpoints d1\<rparr>"
    using add_exception_ok [OF a(1) a(2) [unfolded f(1)] assms(2)] by (auto simp: f(2))
  have same: "next_id env d1 = next_id env d"
    by (subst d1(4)) (simp add: next_id_def)
  obtain bl where bl: "breakpoint_admin_add env ty akey d1 =
      Some (next_id env d1, d1\<lparr>breakpoint_count := breakpoint_count d1 + 1, breakpoint_list := bl\<rparr>)"
    "tables_ok (d1\<lparr>breakpoint_count := breakpoint_count d1 + 1, breakpoint_list := bl\<rparr>)"
    using admin_add_ok [OF d1(2) assms(3)] by blast
  then show ?thesis using d1(1,3) by (simp add: store_with_def same)
qed

lemma set_line_ok:
  assumes "store_with X d"
    and "set_line env args (length (brks d)) b (d\<lparr>brks := brks d @ [Some b0]\<rparr>) = Some (Inr (i, d'))"
  shows "store_with X d'"
proof -
  have ok: "tables_ok d" "held X d" using assms(1) by (auto simp: store_with_def)
  obtain f c b' i' dx where f: "breakpoint_admin_add env BREAKPOINT_TYPE_LINE (f @ ''$'' @ c)
        (snd (alloc_brk b' d)) = Some (i', dx)"
      "d' = dx\<lparr>line_breakpoints := line_breakpoints dx @ [fst (alloc_brk b' d)]\<rparr>"
    using assms(2) by (auto simp: set_line_def Let_def alloc_brk_def split: if_splits option.splits sum.splits Option.bind_splits)
  note a = alloc_brk_ok [OF ok, of b']
  obtain bl where bl: "breakpoint_admin_add env BREAKPOINT_TYPE_LINE (f @ ''$'' @ c) (snd (alloc_brk b' d)) =
      Some (next_id env (snd (alloc_brk b' d)), (snd (alloc_brk b' d))\<lparr>breakpoint_count :=
        breakpoint_count (snd (alloc_brk b' d)) + 1, breakpoint_list := bl\<rparr>)"
    "tables_ok ((snd (alloc_brk b' d))\<lparr>breakpoint_count := breakpoint_count (snd (alloc_brk b' d)) + 1, breakpoint_list := bl\<rparr>)"
    using admin_add_ok [OF a(1), of "f @ ''$'' @ c"] by blast
  have dx: "dx = (snd (alloc_brk b' d))\<lparr>breakpoint_count :=
        breakpoint_count (snd (alloc_brk b' d)) + 1, breakpoint_list := bl\<rparr>" using f(1) bl(1) by simp
  have "tables_ok d'" using bl(2) unfolding f(2) dx by (simp add: tables_ok_def)
  moreover have o: "owners d' = owners (snd (alloc_brk b' d)) + {#fst (alloc_brk b' d)#}"
    unfolding f(2) dx by (simp add: owners_def)
  moreover have br: "brks d' = brks (snd (alloc_brk b' d))" unfolding f(2) dx by simp
  have "held X d'" using a(2) unfolding held_def o br count_union by (simp only: ac_simps simp_thms)
  ultimately show ?thesis by (simp add: store_with_def)
qed

lemma set_function_ok:
  assumes "store_with X d" and "keys_given args"
    and "set_function env args (length (brks d)) b (d\<lparr>brks := brks d @ [Some b0]\<rparr>) = Some (Inr (i, d'))"
  shows "store_with X d'"
proof -
  define m where "m = option_char args (CHR ''m'')"
  have m: "m \<noteq> []" "option_content args (CHR ''m'') \<noteq> []" "option_set args (CHR ''m'')"
    using assms(2,3) by (auto simp: keys_given_def set_function_def Let_def m_def split: if_splits)
  define b1 where "b1 = b\<lparr>function_break_type :=
              (if option_char args (CHR ''t'') = ''call'' then XDEBUG_BRK_FUNC_CALL else XDEBUG_BRK_FUNC_RETURN),
              bi_functionname := Some m\<rparr>"
  define b2 where "b2 = b1\<lparr>bi_classname := Some (option_char args (CHR ''a''))\<rparr>"
  show ?thesis
  proof (cases "option_set args (CHR ''a'')")
    case True
    define key where "key = option_char args (CHR ''a'') @ ''::'' @ m"
    have k: "key \<noteq> []" by (simp add: key_def)
    from set_in_functions [OF assms(1) k k, of b2 env BREAKPOINT_TYPE_FUNCTION] obtain d1 dx
      where r: "add_function key (length (brks d)) (snd (alloc_brk b2 d)) = Some d1"
      "breakpoint_admin_add env BREAKPOINT_TYPE_FUNCTION key d1 = Some (next_id env d, dx)" "store_with X dx" by blast
    then show ?thesis
      using assms(3) True m(3) by (simp add: set_function_def Let_def alloc_brk_def b1_def b2_def key_def m_def)
  next
    case False
    from set_in_functions [OF assms(1) m(2,1), of b1 env BREAKPOINT_TYPE_FUNCTION] obtain d1 dx
      where r: "add_function (option_content args (CHR ''m'')) (length (brks d)) (snd (alloc_brk b1 d)) = Some d1"
      "breakpoint_admin_add env BREAKPOINT_TYPE_FUNCTION m d1 = Some (next_id env d, dx)" "store_with X dx" by blast
    then show ?thesis
      using assms(3) False m(3) by (simp add: set_function_def Let_def alloc_brk_def b1_def m_def)
  qed
qed

lemma set_exception_ok:
  assumes "store_with X d" and "keys_given args"
    and "set_exception env args (length (brks d)) b (d\<lparr>brks := brks d @ [Some b0]\<rparr>) = Some (Inr (i, d'))"
  shows "store_with X d'"
proof -
  define x where "x = option_char args (CHR ''x'')"
  have x: "x \<noteq> []" "option_content args (CHR ''x'') \<noteq> []" "option_set args (CHR ''x'')"
    using assms(2,3) by (auto simp: keys_given_def set_exception_def Let_def x_def split: if_splits)
  from set_in_exceptions [OF assms(1) x(2,1), of "b\<lparr>bi_exceptionname := Some x\<rparr>" env BREAKPOINT_TYPE_EXCEPTION]
  obtain d1 dx where "add_exception (option_content args (CHR ''x'')) (length (brks d))
        (snd (alloc_brk (b\<lparr>bi_exceptionname := Some x\<rparr>) d)) = Some d1"
    "breakpoint_admin_add env BREAKPOINT_TYPE_EXCEPTION x d1 = Some (next_id env d, dx)" "store_with X dx" by blast
  then show ?thesis using assms(3) x(3) by (simp add: set_exception_def Let_def alloc_brk_def x_def)
qed

lemma fail_with_same: "fail_with c d retval = Some (d', r) \<Longrightarrow> d' = d"
  by (auto simp: fail_with_def)

text \<open>A reply that ends with an error.\<close>

definition error_reply :: "xml_node \<Rightarrow> bool" where
  "error_reply r \<longleftrightarrow> (\<exists>c. xml_child r \<noteq> [] \<and> List.last (xml_child r) = error_node c)"

lemma fail_with_error: "fail_with c d retval = Some (d', r) \<Longrightarrow> error_reply r"
  by (auto simp: fail_with_def return_result_def error_reply_def xml_add_child_def bind_eq_Some_conv)

text \<open>A step that fails leaves the object behind.\<close>

lemma set_failed_object:
  assumes "set_by_type env t args a b d = Some (Inl (e, d'))"
  shows "\<exists>b'. d' = put_brk a b' d"
  using assms
  by (auto simp: set_by_type_def set_line_def set_function_def set_exception_def Let_def
      split: if_splits sum.splits option.splits Option.bind_splits)

lemma set_by_type_ok:
  assumes "store_with X d" and "keys_given args"
    and "set_by_type env t args (length (brks d)) b (d\<lparr>brks := brks d @ [Some b0]\<rparr>) = Some (Inr (i, d'))"
  shows "store_with X d'"
  using assms set_line_ok [OF assms(1)] set_function_ok [OF assms(1,2)] set_exception_ok [OF assms(1,2)]
  by (auto simp: set_by_type_def split: if_splits)

lemma store_with_new: "store_with X d \<Longrightarrow> store_with (X + {#length (brks d)#}) (d\<lparr>brks := brks d @ [Some b]\<rparr>)"
  using alloc_brk_ok [of d X b] by (simp add: store_with_def alloc_brk_def)

text \<open>What \<open>breakpoint_set\<close> does in full: it fails and leaves its object behind, or sets the breakpoint.\<close>

lemma handle_set_ok:
  assumes "store_with X d" and "keys_given args" and "handle_breakpoint_set env args d retval = Some (d', r)"
  shows "store_with X d' \<or> error_reply r \<and> store_with (X + {#length (brks d)#}) d'"
proof -
  let ?d = "d\<lparr>brks := brks d @ [Some new_brk_info]\<rparr>" and ?a = "length (brks d)"
  have "(\<exists>e b y. fail_with e (d\<lparr>brks := brks d @ [Some b]\<rparr>) y = Some (d', r)) \<or>
      (\<exists>b y t. Option.bind (set_by_type env t args ?a b ?d) (reply_set y) = Some (d', r))"
  proof (cases "option_set args (CHR ''t'') \<and>
      option_char args (CHR ''t'') \<in> set [''line'', ''conditional'', ''call'', ''return'', ''exception'', ''watch'']")
    case False
    then have "fail_with XDEBUG_ERROR_INVALID_ARGS ?d retval = Some (d', r)"
      using assms(3) unfolding handle_breakpoint_set_def Let_def alloc_brk_def prod.case by (simp only: split: if_split_asm) blast+
    then show ?thesis by blast
  next
    case True
    obtain good b y where o: "set_options args (new_brk_info\<lparr>bi_type := Some (option_char args (CHR ''t''))\<rparr>) retval =
        (good, b, y)" by (cases "set_options args (new_brk_info\<lparr>bi_type := Some (option_char args (CHR ''t''))\<rparr>) retval")
    have "(if \<not> good then fail_with XDEBUG_ERROR_INVALID_ARGS (put_brk ?a b ?d) y
        else Option.bind (set_by_type env (option_char args (CHR ''t'')) args ?a b ?d) (reply_set y)) = Some (d', r)"
      using assms(3) True unfolding handle_breakpoint_set_def Let_def alloc_brk_def prod.case o
      by (simp only: not_True_eq_False if_False simp_thms)
    then show ?thesis unfolding put_new_brk by (cases good) auto
  qed
  then consider e b y where "fail_with e (d\<lparr>brks := brks d @ [Some b]\<rparr>) y = Some (d', r)"
    | b y t q where "set_by_type env t args ?a b ?d = Some q" "reply_set y q = Some (d', r)"
    by (auto simp: bind_eq_Some_conv)
  then consider e b y where "fail_with e (d\<lparr>brks := brks d @ [Some b]\<rparr>) y = Some (d', r)"
    | b t i where "set_by_type env t args ?a b ?d = Some (Inr (i, d'))"
  proof cases
    case 2
    show ?thesis
    proof (cases q)
      case (Inl ed)
      obtain e d2 where ed: "ed = (e, d2)" by (cases ed)
      obtain b' where "d2 = put_brk ?a b' ?d" using set_failed_object [OF 2(1) [unfolded Inl ed]] by blast
      then show ?thesis using 2(2) that(1) [of e b' y] by (simp add: Inl ed reply_set_def)
    next
      case (Inr id2)
      then show ?thesis using 2 that(2) by (cases id2) (simp add: reply_set_def)
    qed
  qed (rule that(1))
  then show ?thesis
  proof cases
    case 1
    then have "d' = d\<lparr>brks := brks d @ [Some b]\<rparr>" by (rule fail_with_same)
    then show ?thesis using store_with_new [OF assms(1), of b] fail_with_error [OF 1] by simp
  next
    case 2
    then show ?thesis using set_by_type_ok [OF assms(1,2)] by blast
  qed
qed

text \<open>Every way to fail leaves an object behind; here the option \<open>t\<close> is missing.\<close>

lemma failed_set_leaks:
  assumes "\<not> option_set args (CHR ''t'')" and "handle_breakpoint_set env args d retval = Some (d', r)"
  shows "d' = d\<lparr>brks := brks d @ [Some new_brk_info]\<rparr>"
  using assms by (simp add: handle_breakpoint_set_def alloc_brk_def fail_with_same)

lemma do_action_ok:
  assumes "store_with X d" and "keys_given args" and "breakpoint_do_action env act args d retval = Some (d', r)"
  shows "store_with X d'"
proof (cases "option_set args (CHR ''d'')")
  case False
  then show ?thesis using assms by (simp add: breakpoint_do_action_def fail_with_same) (blast dest: fail_with_same)
next
  case True
  define k where "k = option_char args (CHR ''d'')"
  have k: "k \<noteq> []" using True assms(2) by (simp add: keys_given_def k_def)
  have ok: "tables_ok d" "held X d" using assms(1) by (auto simp: store_with_def)
  note f = admin_fetch_ok [OF ok(1) k]
  show ?thesis
  proof (cases "abs_hash (breakpoint_list d) (key_of k)")
    case None
    then show ?thesis using assms True f
      by (simp add: breakpoint_do_action_def k_def [symmetric]) (blast dest: fail_with_same)
  next
    case (Some adm)
    have hk: "adm_key adm \<noteq> []" using ok(1) Some by (simp add: tables_ok_def)
    obtain a where a: "breakpoint_brk_info_fetch (adm_type adm) (adm_key adm) d = Some (Some a)"
      using assms(3) True f Some
      by (cases "breakpoint_brk_info_fetch (adm_type adm) (adm_key adm) d"; cases "the (breakpoint_brk_info_fetch (adm_type adm) (adm_key adm) d)")
        (auto simp: breakpoint_do_action_def k_def)
    obtain b where b: "brk_at (brks d) a = Some b"
      using assms(3) True f Some a by (cases "brk_at (brks d) a") (auto simp: breakpoint_do_action_def k_def)
    define d1 where "d1 = (if act = BREAKPOINT_ACTION_UPDATE then put_brk a (snd (update_brk args b)) d else d)"
    have d1: "tables_ok d1" "held X d1"
      using ok put_brk_ok [OF b] by (simp_all add: d1_def)
    have "d' = d1 \<or> (\<exists>d2. breakpoint_remove (adm_type adm) (adm_key adm) d1 = Some d2 \<and>
        breakpoint_admin_remove k d2 = Some d')"
      using assms(3) True f Some a b
      by (auto simp: breakpoint_do_action_def k_def d1_def Let_def split: if_splits prod.splits Option.bind_splits
          dest!: fail_with_same)
    then show ?thesis
    proof
      assume "d' = d1"
      then show ?thesis using d1 by (simp add: store_with_def)
    next
      assume "\<exists>d2. breakpoint_remove (adm_type adm) (adm_key adm) d1 = Some d2 \<and> breakpoint_admin_remove k d2 = Some d'"
      then obtain d2 where d2: "breakpoint_remove (adm_type adm) (adm_key adm) d1 = Some d2"
        "breakpoint_admin_remove k d2 = Some d'" by blast
      note r = remove_ok [OF d1 hk d2(1)]
      obtain bl where "d' = d2\<lparr>breakpoint_list := bl\<rparr>" "tables_ok (d2\<lparr>breakpoint_list := bl\<rparr>)"
        using admin_remove_ok [OF _ k, of d2] r d2(2) by auto
      then show ?thesis using r by (simp add: store_with_def)
    qed
  qed
qed

section \<open>A session\<close>

lemma fresh_hash_ok:
  assumes "0 < n"
  shows "hash_inv (hash_alloc n b)" "live (hash_alloc n b) = {#}" "abs_hash (hash_alloc n b) = Map.empty"
    "hash_dtor (hash_alloc n b) = b"
  using assms by (auto simp: hash_alloc_def hash_inv_def live_def abs_hash_def slot_ok_def fun_eq_iff find_slot_less)

lemma session_init_ok: "(\<And>a. brk_at (brks d) a = None) \<Longrightarrow> store_with {#} (session_init d)"
  by (simp add: session_init_def store_with_def tables_ok_def held_def owners_def fresh_hash_ok)

text \<open>A session that has just begun, and the options of a command.\<close>

definition new_session :: dbg where
  "new_session = session_init
     \<lparr>status = DBGP_STATUS_STARTING, reason = DBGP_REASON_OK, lastcmd = None, lasttransid = None, breakpoint_count = 0,
      remote_enabled = True, stdout_mode = 0, program_name = ''/a.php'', con_options = default_options,
      breakpoint_list = hash_alloc 64 True, function_breakpoints = hash_alloc 64 True,
      exception_breakpoints = hash_alloc 64 True, line_breakpoints = [], brks = [], do_break = False, do_step = False,
      do_next = False, next_level = 0, do_finish = False, finish_level = 0, finish_func_nr = 0, send_notifications = 0,
      inhibit_notifications = False, eval_id_lookup = hash_alloc 64 True, eval_id_sequence = 0, evals = [],
      xg_execute_data = None, xg_symbol_table = None, xg_this = None, xg_fse = None\<rparr>"

definition xstr_of :: "string \<Rightarrow> xstr" where
  "xstr_of s = \<lparr>str_l = int (length s), str_a = int (length s) + 1, str_d = Some (s @ [nul])\<rparr>"

definition args_of :: "(char \<times> string) list \<Rightarrow> dbgp_arg" where
  "args_of os = foldr (\<lambda>(c, s) args. args[nat (opt_index c) := Some (xstr_of s)]) os no_args"

lemma new_session_with: "store_with {#} new_session"
  unfolding new_session_def by (rule session_init_ok) (simp add: brk_at_def)

lemma new_session_ok: "store_ok new_session"
  using new_session_with by (auto simp: store_ok_def)

text \<open>The call breakpoints of the theorems below.\<close>

abbreviation set_call :: "string \<Rightarrow> dbgp_arg" where
  "set_call f \<equiv> args_of [(CHR ''t'', ''call''), (CHR ''m'', f)]"

abbreviation by_id :: "int \<Rightarrow> dbgp_arg" where
  "by_id i \<equiv> args_of [(CHR ''d'', lu i)]"

lemma opt_indices [simp]:
  "nat (opt_index (CHR ''a'')) = 0" "nat (opt_index (CHR ''d'')) = 3" "nat (opt_index (CHR ''m'')) = 12"
  "nat (opt_index (CHR ''n'')) = 13" "nat (opt_index (CHR ''o'')) = 14" "nat (opt_index (CHR ''r'')) = 17"
  "nat (opt_index (CHR ''s'')) = 18" "nat (opt_index (CHR ''t'')) = 19" "nat (opt_index (CHR ''h'')) = 7"
  "nat (opt_index (CHR ''x'')) = 23"
  by code_simp+

lemma set_call_slots: "n < 27 \<Longrightarrow>
  set_call f ! n = (if n = 19 then Some (xstr_of ''call'') else if n = 12 then Some (xstr_of f) else None)"
  by (simp add: args_of_def no_args_def nth_list_update)

lemma args_simps:
  "option_set (set_call f) (CHR ''t'')" "option_set (set_call f) (CHR ''m'')" "\<not> option_set (set_call f) (CHR ''a'')"
  "\<not> option_set (set_call f) (CHR ''o'')" "\<not> option_set (set_call f) (CHR ''r'')"
  "\<not> option_set (set_call f) (CHR ''s'')"
  by (simp_all add: option_set_def set_call_slots)

lemma cstr_plain: "nul \<notin> set s \<Longrightarrow> cstr (s @ [nul]) = s"
  using cstr_append_nul [of s "[]"] by simp

lemma call_values:
  assumes "nul \<notin> set f"
  shows "option_char (set_call f) (CHR ''t'') = ''call''" "option_char (set_call f) (CHR ''m'') = f"
    "option_content (set_call f) (CHR ''m'') = f"
proof -
  show "option_char (set_call f) (CHR ''t'') = ''call''" "option_char (set_call f) (CHR ''m'') = f"
    "option_content (set_call f) (CHR ''m'') = f"
    using cstr_plain [OF assms] cstr_plain [of "''call''"]
    by (simp_all add: option_char_def option_content_def set_call_slots xstr_of_def content_def nul_def)
qed

lemma lu_plain: "nul \<notin> set (lu i)"
proof -
  have "\<not> isdigit nul" by code_simp
  then show ?thesis using dec_isdigit unfolding lu_def by blast
qed

lemma id_values: "option_set (by_id i) (CHR ''d'')" "option_char (by_id i) (CHR ''d'') = lu i"
proof -
  have n: "by_id i ! 3 = Some (xstr_of (lu i))" by (simp add: args_of_def no_args_def nth_list_update)
  show "option_set (by_id i) (CHR ''d'')" "option_char (by_id i) (CHR ''d'') = lu i"
    using cstr_plain [OF lu_plain] by (simp_all add: option_set_def option_char_def n xstr_of_def)
qed

text \<open>The object and the administration entry of a new call breakpoint.\<close>

definition call_brk :: "string \<Rightarrow> brk_info" where
  "call_brk f = new_brk_info\<lparr>bi_type := Some ''call'', function_break_type := XDEBUG_BRK_FUNC_CALL,
     bi_functionname := Some f\<rparr>"

definition call_adm :: "dbg_env \<Rightarrow> dbg \<Rightarrow> string \<Rightarrow> brk_admin" where
  "call_adm env d f = \<lparr>adm_id = next_id env d, adm_type = BREAKPOINT_TYPE_FUNCTION, adm_key = f\<rparr>"

lemma set_call_ok:
  assumes "store_with X d" and "nul \<notin> set f" and "f \<noteq> []"
  shows "\<exists>d'. handle_breakpoint_set env (set_call f) d retval =
      Some (d', xml_add_attribute_ex ''id'' (lu (next_id env d)) retval) \<and> store_with X d' \<and>
    abs_hash (function_breakpoints d') = (abs_hash (function_breakpoints d))(key_of f \<mapsto> length (brks d)) \<and>
    abs_hash (breakpoint_list d') = (abs_hash (breakpoint_list d))(key_of (lu (next_id env d)) \<mapsto> call_adm env d f) \<and>
    (abs_hash (function_breakpoints d) (key_of f) = None \<longrightarrow> brks d' = brks d @ [Some (call_brk f)]) \<and>
    brk_at (brks d') (length (brks d)) = Some (call_brk f) \<and>
    d' = d\<lparr>breakpoint_count := breakpoint_count d + 1, breakpoint_list := breakpoint_list d', brks := brks d',
      function_breakpoints := function_breakpoints d'\<rparr>"
proof -
  obtain d1 d' where d: "add_function f (length (brks d)) (snd (alloc_brk (call_brk f) d)) = Some d1"
    "breakpoint_admin_add env BREAKPOINT_TYPE_FUNCTION f d1 = Some (next_id env d, d')"
    and r: "store_with X d'"
    "abs_hash (function_breakpoints d') = (abs_hash (function_breakpoints d))(key_of f \<mapsto> length (brks d))"
    "abs_hash (breakpoint_list d') = (abs_hash (breakpoint_list d))(key_of (lu (next_id env d)) \<mapsto> call_adm env d f)"
    "abs_hash (function_breakpoints d) (key_of f) = None \<longrightarrow> brks d' = brks d @ [Some (call_brk f)]"
    "brk_at (brks d') (length (brks d)) = Some (call_brk f)"
    "d' = d\<lparr>breakpoint_count := breakpoint_count d + 1, breakpoint_list := breakpoint_list d', brks := brks d',
      function_breakpoints := function_breakpoints d'\<rparr>"
    using set_in_functions [OF assms(1,3,3), of "call_brk f" env BREAKPOINT_TYPE_FUNCTION, folded call_adm_def]
    by (elim exE conjE) (rule that, assumption+)
  have s: "set_function env (set_call f) (length (brks d)) (new_brk_info\<lparr>bi_type := Some ''call''\<rparr>)
      (d\<lparr>brks := brks d @ [Some new_brk_info]\<rparr>) = Some (Inr (next_id env d, d'))"
    using d by (simp add: set_function_def args_simps call_values [OF assms(2)] Let_def alloc_brk_def call_brk_def)
  have "handle_breakpoint_set env (set_call f) d retval =
      Some (d', xml_add_attribute_ex ''id'' (lu (next_id env d)) retval)"
    by (simp add: handle_breakpoint_set_def call_values [OF assms(2)] args_simps set_by_type_def s reply_set_def
        set_options_def alloc_brk_def)
  with r show ?thesis by (intro exI [of _ d'] conjI)
qed

lemma take_call:
  assumes "tables_ok d" and "abs_hash (breakpoint_list d) (key_of (lu i)) =
      Some \<lparr>adm_id = i', adm_type = BREAKPOINT_TYPE_FUNCTION, adm_key = f\<rparr>" and "f \<noteq> []"
  shows "breakpoint_admin_fetch (lu i) d = Some (Some (BREAKPOINT_TYPE_FUNCTION, f))"
    "breakpoint_brk_info_fetch BREAKPOINT_TYPE_FUNCTION f d =
      Some (abs_hash (function_breakpoints d) (key_of f))"
proof -
  note ok = assms(1)
  show "breakpoint_admin_fetch (lu i) d = Some (Some (BREAKPOINT_TYPE_FUNCTION, f))"
    using admin_fetch_ok [OF ok, of "lu i"] assms(2) by simp
  have "hash_inv (function_breakpoints d)" using ok by (simp add: tables_ok_def)
  then show "breakpoint_brk_info_fetch BREAKPOINT_TYPE_FUNCTION f d =
      Some (abs_hash (function_breakpoints d) (key_of f))"
    using xh.find [of "function_breakpoints d" "key_of f"] assms(3)
    by (simp add: breakpoint_brk_info_fetch_def BREAKPOINT_TYPE_FUNCTION_def BREAKPOINT_TYPE_LINE_def key_ok_def)
qed

text \<open>Describing a breakpoint without a file always succeeds.\<close>

definition call_node :: "dbg_env \<Rightarrow> int \<Rightarrow> brk_info \<Rightarrow> xml_node" where
  "call_node env i b = xml_add_attribute_ex ''id'' (lu i) (the (breakpoint_brk_info_add env b (xml_node_init ''breakpoint'')))"

lemma call_node:
  assumes "bi_file b = None"
  shows "\<exists>x. breakpoint_brk_info_add env b (xml_node_init ''breakpoint'') = Some x \<and>
    xml_add_attribute_ex ''id'' (lu i) x = call_node env i b"
proof -
  have "breakpoint_brk_info_add env b (xml_node_init ''breakpoint'') \<noteq> None"
    using assms by (simp add: breakpoint_brk_info_add_def Let_def)
  then show ?thesis by (auto simp: call_node_def)
qed

lemma get_call:
  assumes "tables_ok d" and "abs_hash (breakpoint_list d) (key_of (lu i)) =
      Some \<lparr>adm_id = i', adm_type = BREAKPOINT_TYPE_FUNCTION, adm_key = f\<rparr>" and "f \<noteq> []"
  shows "handle_breakpoint_get env (by_id i) d x =
    (case abs_hash (function_breakpoints d) (key_of f) of
       None \<Rightarrow> None
     | Some a \<Rightarrow> do {
         b \<leftarrow> brk_at (brks d) a;
         node \<leftarrow> breakpoint_brk_info_add env b (xml_node_init ''breakpoint'');
         Some (d, xml_add_child x (xml_add_attribute_ex ''id'' (lu i) node))
       })"
  unfolding handle_breakpoint_get_def breakpoint_do_action_def Let_def
  by (simp add: id_values take_call [OF assms] split: option.split)

lemma remove_call:
  assumes "tables_ok d" and "abs_hash (breakpoint_list d) (key_of (lu i)) =
      Some \<lparr>adm_id = i', adm_type = BREAKPOINT_TYPE_FUNCTION, adm_key = f\<rparr>" and "f \<noteq> []"
    and "abs_hash (function_breakpoints d) (key_of f) = Some a" and "brk_at (brks d) a = Some b" and "bi_file b = None"
  shows "\<exists>d'. handle_breakpoint_remove env (by_id i) d x = Some (d', xml_add_child x (call_node env i b)) \<and>
    abs_hash (function_breakpoints d') = (abs_hash (function_breakpoints d))(key_of f := None) \<and>
    abs_hash (breakpoint_list d') = (abs_hash (breakpoint_list d))(key_of (lu i) := None) \<and>
    brks d' = (brks d)[a := None] \<and>
    d' = d\<lparr>breakpoint_list := breakpoint_list d', brks := brks d', function_breakpoints := function_breakpoints d'\<rparr>"
proof -
  have ok: "tables_ok d" "hash_inv (function_breakpoints d)" "hash_dtor (function_breakpoints d)"
    using assms(1) by (simp_all add: tables_ok_def)
  have k: "key_ok (key_of f)" using assms(3) by (simp add: key_ok_def)
  obtain r h where h: "hash_extended_delete (key_of f) (function_breakpoints d) = Some (r, h)"
    using hash_extended_delete_ok [OF ok(2) k] by blast
  note c = count_delete [OF ok(2,3) k h]
  have dr: "dropped (function_breakpoints d) (key_of f) = [a]" using assms(4) ok(3) by (simp add: dropped_def)
  define d1 where "d1 = free_brks [a] (d\<lparr>function_breakpoints := h\<rparr>)"
  have r1: "breakpoint_remove BREAKPOINT_TYPE_FUNCTION f d = Some d1"
    by (simp add: breakpoint_remove_def BREAKPOINT_TYPE_FUNCTION_def BREAKPOINT_TYPE_LINE_def h c(2) dr d1_def)
  have "tables_ok d1"
    using ok(1) c(3,4) by (auto simp: tables_ok_def d1_def free_brks_def)
  then obtain bl where bl: "breakpoint_admin_remove (lu i) d1 = Some (d1\<lparr>breakpoint_list := bl\<rparr>)"
    "abs_hash bl = (abs_hash (breakpoint_list d1))(key_of (lu i) := None)"
    using admin_remove_ok [of d1 "lu i"] by auto
  obtain n where n: "breakpoint_brk_info_add env b (xml_node_init ''breakpoint'') = Some n"
    "xml_add_attribute_ex ''id'' (lu i) n = call_node env i b" using call_node [OF assms(6)] by blast
  have "handle_breakpoint_remove env (by_id i) d x = Some (d1\<lparr>breakpoint_list := bl\<rparr>, xml_add_child x (call_node env i b))"
    unfolding handle_breakpoint_remove_def breakpoint_do_action_def Let_def
    by (simp add: id_values take_call [OF assms(1-3)] assms(4,5) n r1 bl(1))
  then show ?thesis using bl(2) c(5)
    by (intro exI [of _ "d1\<lparr>breakpoint_list := bl\<rparr>"]) (simp add: d1_def free_brks_def)
qed

lemma lu_int32: "lu (to_int32 i) = lu (to_int32 j) \<Longrightarrow> i mod 2 ^ 32 = j mod 2 ^ 32"
proof -
  assume "lu (to_int32 i) = lu (to_int32 j)"
  then have "nat (to_int32 i mod 2 ^ 64) = nat (to_int32 j mod 2 ^ 64)" by (simp only: lu_def dec_inj)
  then have m: "to_int32 i mod 2 ^ 64 = to_int32 j mod 2 ^ 64" by (simp add: nat_eq_iff)
  have r: "- (2 ^ 31) \<le> to_int32 k \<and> to_int32 k < 2 ^ 31" for k
    using sint_range_size [of "word_of_int k :: u32"] by (simp add: to_int32_def word_size)
  have "(2 ^ 64 :: int) dvd to_int32 i - to_int32 j" using m by (simp add: mod_eq_dvd_iff)
  moreover have "\<bar>to_int32 i - to_int32 j\<bar> < 2 ^ 64" using r [of i] r [of j] by (simp add: abs_less_iff)
  ultimately have "to_int32 i - to_int32 j = 0" using zdvd_not_zless [of "\<bar>to_int32 i - to_int32 j\<bar>" "2 ^ 64"] by force
  then have "sint (word_of_int i :: u32) = sint (word_of_int j :: u32)" by (simp add: to_int32_def)
  then have "(word_of_int i :: u32) = word_of_int j" by (rule signed_word_eqI)
  then show ?thesis by (simp add: word_of_int_eq_iff take_bit_eq_mod)
qed

lemma lu_next [simp]: "lu (following_id env d) \<noteq> lu (next_id env d)" "lu (next_id env d) \<noteq> lu (following_id env d)"
proof -
  show "lu (following_id env d) \<noteq> lu (next_id env d)"
  proof
    let ?n = "take_bit 17 (env_getpid env) * 10000 + (breakpoint_count d + 1)"
    assume "lu (following_id env d) = lu (next_id env d)"
    then have "(?n + 1) mod 2 ^ 32 = ?n mod 2 ^ 32"
      using lu_int32 [of "?n + 1" ?n] by (simp add: following_id_def next_id_def algebra_simps)
    then have "(2 ^ 32 :: int) dvd (?n + 1) - ?n" by (simp only: mod_eq_dvd_iff)
    then show False by simp
  qed
  then show "lu (next_id env d) \<noteq> lu (following_id env d)" by simp
qed

text \<open>A process for the examples.\<close>

definition local_env :: dbg_env where
  "local_env =
     \<lparr>env_getpid = 321, env_getcwd = Some ''/'', env_virtual_file = (\<lambda>_ _. None), env_realpath = (\<lambda>_. None),
      env_base64_decode = (\<lambda>s. s), env_php_version = ''7.2.0'', env_stack = None, env_level = 0\<rparr>"

section \<open>Properties\<close>

text \<open>C35: Whatever breakpoint command a client sends, as long as the names and the identifier in it are not
  empty: when it returns, the three hashes keep their invariant, no hash and no list holds a freed object, no
  object is held twice, and every live object is held by one of the two hashes or the list, but for those that
  were left behind before, \<open>X\<close>. Only a \<open>breakpoint_set\<close> that is answered with an error adds to
  these, and what it adds is the one object it allocated.\<close>

theorem breakpoints_stay_consistent:
  assumes "store_with X d" and "keys_given args"
    and "h \<in> {handle_breakpoint_set env, handle_breakpoint_get env, handle_breakpoint_remove env,
      handle_breakpoint_update env, handle_breakpoint_list env}"
    and "h args d x = Some (d', r)"
  shows "store_with X d' \<or>
    h = handle_breakpoint_set env \<and> error_reply r \<and> store_with (X + {#length (brks d)#}) d'"
  using assms handle_set_ok [OF assms(1,2)] do_action_ok [OF assms(1,2)]
  by (auto simp: handle_breakpoint_get_def handle_breakpoint_remove_def handle_breakpoint_update_def
      handle_breakpoint_list_def)

lemma call_keys: "nul \<notin> set f \<Longrightarrow> f \<noteq> [] \<Longrightarrow> keys_given (set_call f)"
  using call_values [of f] by (simp add: keys_given_def option_set_def set_call_slots)

lemma id_keys: "keys_given (by_id i)"
  using cstr_plain [OF lu_plain] lu_nonempty [of i]
  by (auto simp: keys_given_def option_set_def option_char_def option_content_def args_of_def no_args_def
      nth_list_update xstr_of_def content_def)

theorem breakpoints_stay_consistent_witness:
  "\<exists>d r. handle_breakpoint_set local_env (set_call ''f'') new_session (xml_node_init ''response'') = Some (d, r) \<and>
    (store_with {#} d \<or> error_reply r \<and> store_with {#length (brks new_session)#} d)"
proof -
  have f: "nul \<notin> set ''f''" "''f'' \<noteq> []" by (simp_all add: nul_def)
  obtain d r where r: "handle_breakpoint_set local_env (set_call ''f'') new_session (xml_node_init ''response'') = Some (d, r)"
    using set_call_ok [OF new_session_with f, of local_env "xml_node_init ''response''"] by blast
  have "store_with {#} d \<or> handle_breakpoint_set local_env = handle_breakpoint_set local_env \<and> error_reply r \<and>
      store_with ({#} + {#length (brks new_session)#}) d"
    by (rule breakpoints_stay_consistent [where h = "handle_breakpoint_set local_env" and env = local_env,
          OF new_session_with call_keys [OF f] _ r]) simp
  with r show ?thesis by auto
qed

text \<open>Setting a call breakpoint on a function without one and removing it by the identifier in the reply
  gives back the tables of before, and no object is left over.\<close>

lemma set_remove_restores:
  assumes "store_with X d" and "nul \<notin> set f" and "f \<noteq> []"
    and "abs_hash (function_breakpoints d) (key_of f) = None"
    and "abs_hash (breakpoint_list d) (key_of (lu (next_id env d))) = None"
  shows "\<exists>d1 d2. handle_breakpoint_set env (set_call f) d x =
      Some (d1, xml_add_attribute_ex ''id'' (lu (next_id env d)) x) \<and>
    handle_breakpoint_remove env (by_id (next_id env d)) d1 y =
      Some (d2, xml_add_child y (call_node env (next_id env d) (call_brk f))) \<and>
    abs_hash (function_breakpoints d2) = abs_hash (function_breakpoints d) \<and>
    abs_hash (breakpoint_list d2) = abs_hash (breakpoint_list d) \<and>
    exception_breakpoints d2 = exception_breakpoints d \<and> line_breakpoints d2 = line_breakpoints d \<and>
    (\<forall>a. brk_at (brks d2) a = brk_at (brks d) a)"
proof -
  obtain d1 where d1: "handle_breakpoint_set env (set_call f) d x =
      Some (d1, xml_add_attribute_ex ''id'' (lu (next_id env d)) x)" "store_with X d1"
    "abs_hash (function_breakpoints d1) = (abs_hash (function_breakpoints d))(key_of f \<mapsto> length (brks d))"
    "abs_hash (breakpoint_list d1) = (abs_hash (breakpoint_list d))(key_of (lu (next_id env d)) \<mapsto> call_adm env d f)"
    "abs_hash (function_breakpoints d) (key_of f) = None \<longrightarrow> brks d1 = brks d @ [Some (call_brk f)]"
    "brk_at (brks d1) (length (brks d)) = Some (call_brk f)"
    "d1 = d\<lparr>breakpoint_count := breakpoint_count d + 1, breakpoint_list := breakpoint_list d1, brks := brks d1,
      function_breakpoints := function_breakpoints d1\<rparr>"
    using set_call_ok [OF assms(1-3), of env x] by (elim exE conjE) (rule that)
  have b: "abs_hash (breakpoint_list d1) (key_of (lu (next_id env d))) =
      Some \<lparr>adm_id = next_id env d, adm_type = BREAKPOINT_TYPE_FUNCTION, adm_key = f\<rparr>"
    by (simp add: d1(4) call_adm_def)
  have a: "abs_hash (function_breakpoints d1) (key_of f) = Some (length (brks d))" by (simp add: d1(3))
  have n: "bi_file (call_brk f) = None" by (simp add: call_brk_def new_brk_info_def)
  obtain d2 where d2: "handle_breakpoint_remove env (by_id (next_id env d)) d1 y =
      Some (d2, xml_add_child y (call_node env (next_id env d) (call_brk f)))"
    "abs_hash (function_breakpoints d2) = (abs_hash (function_breakpoints d1))(key_of f := None)"
    "abs_hash (breakpoint_list d2) = (abs_hash (breakpoint_list d1))(key_of (lu (next_id env d)) := None)"
    "brks d2 = (brks d1)[length (brks d) := None]"
    "d2 = d1\<lparr>breakpoint_list := breakpoint_list d2, brks := brks d2, function_breakpoints := function_breakpoints d2\<rparr>"
    using remove_call [OF store_withD [OF d1(2)] b assms(3) a d1(6) n, of env y] by (elim exE conjE) (rule that)
  have e: "exception_breakpoints d2 = exception_breakpoints d" "line_breakpoints d2 = line_breakpoints d"
    by (subst d2(5), subst d1(7), simp)+
  have f: "abs_hash (function_breakpoints d2) = abs_hash (function_breakpoints d)"
    "abs_hash (breakpoint_list d2) = abs_hash (breakpoint_list d)"
    using assms(4,5) unfolding d2(2,3) d1(3,4) by (simp_all add: fun_upd_idem)
  have "brk_at (brks d2) a = brk_at (brks d) a" for a
    using d1(5) assms(4) by (auto simp: d2(4) brk_at_def nth_append list_update_append)
  with d1(1) d2(1) e f show ?thesis by (intro exI [of _ d1] exI [of _ d2] conjI allI)
qed

lemma set_remove_restores_witness:
  "\<exists>d1 d2. handle_breakpoint_set local_env (set_call ''f'') new_session (xml_node_init ''r'') = Some d1 \<and>
    handle_breakpoint_remove local_env (by_id (next_id local_env new_session)) (fst d1) (xml_node_init ''r'') = Some d2 \<and>
    abs_hash (function_breakpoints (fst d2)) = abs_hash (function_breakpoints new_session)"
proof -
  have f: "nul \<notin> set ''f''" "''f'' \<noteq> []" by (simp_all add: nul_def)
  have e: "abs_hash (function_breakpoints new_session) = Map.empty" "abs_hash (breakpoint_list new_session) = Map.empty"
    by (simp_all add: new_session_def session_init_def fresh_hash_ok)
  show ?thesis
    using set_remove_restores [OF new_session_with f, of local_env "xml_node_init ''r''" "xml_node_init ''r''"]
    by (force simp: e)
qed

text \<open>Setting a call breakpoint twice on the same function is answered with two identifiers but leaves one
  object. Removing it by the first identifier leaves the second in the administration, and asking for that one
  dereferences a NULL pointer.\<close>

lemma second_identifier_faults:
  assumes "store_with X d" and "nul \<notin> set f" and "f \<noteq> []"
    and "x1 = xml_add_attribute_ex ''id'' (lu (next_id env d)) x"
    and "x2 = xml_add_attribute_ex ''id'' (lu (following_id env d)) x"
  shows "\<exists>d1 d2 d3 y. handle_breakpoint_set env (set_call f) d x = Some (d1, x1) \<and>
    handle_breakpoint_set env (set_call f) d1 x = Some (d2, x2) \<and>
    handle_breakpoint_remove env (by_id (next_id env d)) d2 x = Some (d3, y) \<and>
    abs_hash (breakpoint_list d3) (key_of (lu (following_id env d))) \<noteq> None \<and>
    handle_breakpoint_get env (by_id (following_id env d)) d3 x = None"
proof -
  let ?i = "next_id env d"
  obtain d1 where d1: "handle_breakpoint_set env (set_call f) d x = Some (d1, x1)" "store_with X d1"
    "abs_hash (breakpoint_list d1) = (abs_hash (breakpoint_list d))(key_of (lu ?i) \<mapsto> call_adm env d f)"
    "d1 = d\<lparr>breakpoint_count := breakpoint_count d + 1, breakpoint_list := breakpoint_list d1, brks := brks d1,
      function_breakpoints := function_breakpoints d1\<rparr>"
    using set_call_ok [OF assms(1-3), of env x, folded assms(4)] by (elim exE conjE) (rule that)
  have i: "next_id env d1 = following_id env d" by (subst d1(4)) (simp add: next_id_def following_id_def)
  obtain d2 where d2: "handle_breakpoint_set env (set_call f) d1 x = Some (d2, x2)" "store_with X d2"
    "abs_hash (function_breakpoints d2) = (abs_hash (function_breakpoints d1))(key_of f \<mapsto> length (brks d1))"
    "abs_hash (breakpoint_list d2) = (abs_hash (breakpoint_list d1))(key_of (lu (following_id env d)) \<mapsto> call_adm env d1 f)"
    "brk_at (brks d2) (length (brks d1)) = Some (call_brk f)"
    using set_call_ok [OF d1(2) assms(2,3), of env x, unfolded i, folded assms(5)] by (elim exE conjE) (rule that)
  have b: "abs_hash (breakpoint_list d2) (key_of (lu ?i)) =
      Some \<lparr>adm_id = ?i, adm_type = BREAKPOINT_TYPE_FUNCTION, adm_key = f\<rparr>"
    by (simp add: d2(4) d1(3) call_adm_def)
  have a: "abs_hash (function_breakpoints d2) (key_of f) = Some (length (brks d1))" by (simp add: d2(3))
  have n: "bi_file (call_brk f) = None" by (simp add: call_brk_def new_brk_info_def)
  obtain d3 where d3: "handle_breakpoint_remove env (by_id ?i) d2 x =
      Some (d3, xml_add_child x (call_node env ?i (call_brk f)))"
    "abs_hash (function_breakpoints d3) = (abs_hash (function_breakpoints d2))(key_of f := None)"
    "abs_hash (breakpoint_list d3) = (abs_hash (breakpoint_list d2))(key_of (lu ?i) := None)"
    using remove_call [OF store_withD [OF d2(2)] b assms(3) a d2(5) n, of env x] by (elim exE conjE) (rule that)
  have s3: "store_with X d3"
    using do_action_ok [OF d2(2), of "by_id ?i"] d3(1) id_keys [of ?i] unfolding handle_breakpoint_remove_def by blast
  have b3: "abs_hash (breakpoint_list d3) (key_of (lu (following_id env d))) =
      Some \<lparr>adm_id = following_id env d, adm_type = BREAKPOINT_TYPE_FUNCTION, adm_key = f\<rparr>"
    by (simp add: d3(3) d2(4) call_adm_def i)
  have "handle_breakpoint_get env (by_id (following_id env d)) d3 x = None"
    using get_call [OF store_withD [OF s3] b3 assms(3), of env x] by (simp add: d3(2))
  with d1(1) d2(1) d3(1) b3 show ?thesis by (intro exI conjI) auto
qed

lemma second_identifier_faults_witness:
  "\<exists>d x. handle_breakpoint_set local_env (set_call ''f'') new_session (xml_node_init ''r'') =
      Some (d, xml_add_attribute_ex ''id'' (lu (next_id local_env new_session)) (xml_node_init ''r'')) \<and>
    handle_breakpoint_set local_env (set_call ''f'') d (xml_node_init ''r'') = Some x"
proof -
  have f: "nul \<notin> set ''f''" "''f'' \<noteq> []" by (simp_all add: nul_def)
  show ?thesis
    using second_identifier_faults [OF new_session_with f refl refl, of local_env "xml_node_init ''r''"] by blast
qed

end
