(* ===== verification/Stepping.thy ===== *)
theory Stepping
  imports BreakpointFacts CodeCoverage
begin

text \<open>
  When the debugger stops a script: the statement hook, function breakpoints and the exception hook of
  \<open>xdebug.c\<close>, the hit counter of \<open>xdebug_stack.c\<close> and the stepping commands of \<open>xdebug_handler_dbgp.c\<close>.
  \<open>remote_breakpoint\<close> of the handler is a parameter: it gets the event, the state of the client and the
  session and returns whether it succeeded and both states. Evaluating a condition is a parameter as well.
\<close>

section \<open>Events\<close>

datatype brk_kind = XDEBUG_BREAK | XDEBUG_STEP

record brk_event =
  ev_stack :: fstack
  ev_file :: "string option"
  ev_lineno :: int
  ev_kind :: brk_kind
  ev_exception :: "string option"
  ev_code :: "string option"
  ev_message :: "string option"

type_synonym 'w remote = "brk_event \<Rightarrow> 'w \<Rightarrow> dbg \<Rightarrow> (bool \<times> 'w \<times> dbg) option"

definition at_line :: "fstack \<Rightarrow> string \<Rightarrow> int \<Rightarrow> brk_kind \<Rightarrow> brk_event" where
  "at_line st fname ln kind =
     \<lparr>ev_stack = st, ev_file = Some fname, ev_lineno = ln, ev_kind = kind, ev_exception = None, ev_code = None, ev_message = None\<rparr>"

text \<open>A failed call ends the session.\<close>

definition keep_session :: "bool \<times> 'w \<times> dbg \<Rightarrow> 'w \<times> dbg" where
  "keep_session r = (case r of (ok, w, d) \<Rightarrow> (w, if ok then d else d\<lparr>remote_enabled := False\<rparr>))"

section \<open>Hits\<close>

definition handle_hit_value :: "brk_info \<Rightarrow> bool \<times> brk_info" where
  "handle_hit_value b =
     (let b = (if temporary b \<noteq> 0 then b\<lparr>disabled := True\<rparr> else b);
          b = b\<lparr>hit_count := to_int32 (hit_count b + 1)\<rparr>
      in (if hit_value b = 0 then True
          else if hit_condition b = XDEBUG_HIT_GREATER_EQUAL then hit_value b \<le> hit_count b
          else if hit_condition b = XDEBUG_HIT_EQUAL then hit_count b = hit_value b
          else if hit_condition b = XDEBUG_HIT_MOD then hit_count b mod hit_value b = 0
          else hit_condition b = XDEBUG_HIT_DISABLED, b))"

section \<open>Function breakpoints\<close>

definition lookup_brk :: "string \<Rightarrow> nat xhash \<Rightarrow> dbg \<Rightarrow> (nat \<times> brk_info) option option" where
  "lookup_brk key h d =
     do {
       r \<leftarrow> hash_extended_find (key_of key) h;
       case r of
         None \<Rightarrow> Some None
       | Some a \<Rightarrow> do { b \<leftarrow> brk_at (brks d) a; Some (Some (a, b)) }
     }"

definition handle_breakpoints ::
  "'w remote \<Rightarrow> fstack \<Rightarrow> function_stack_entry \<Rightarrow> nat \<Rightarrow> 'w \<Rightarrow> dbg \<Rightarrow> (bool \<times> 'w \<times> dbg) option" where
  "handle_breakpoints remote st fse breakpoint_type w d =
     (if func_type (fse_function fse) = XFUNC_NORMAL
      then do {
        fn \<leftarrow> func_function (fse_function fse);
        r \<leftarrow> lookup_brk fn (function_breakpoints d) d;
        case r of
          None \<Rightarrow> Some (True, w, d)
        | Some (a, b) \<Rightarrow>
            if \<not> disabled b \<and> function_break_type b = breakpoint_type
            then (let (hit, b) = handle_hit_value b; d = put_brk a b d
                  in if \<not> hit then Some (True, w, d)
                     else if user_defined fse = XDEBUG_INTERNAL \<or> breakpoint_type = XDEBUG_BRK_FUNC_RETURN
                     then remote \<lparr>ev_stack = st, ev_file = fse_filename fse, ev_lineno = fse_lineno fse, ev_kind = XDEBUG_BREAK,
                       ev_exception = None, ev_code = None, ev_message = None\<rparr> w d
                     else Some (True, w, d\<lparr>do_break := True\<rparr>))
            else Some (True, w, d)
      }
      else if func_type (fse_function fse) = XFUNC_MEMBER \<or> func_type (fse_function fse) = XFUNC_STATIC_MEMBER
      then do {
        cls \<leftarrow> func_class (fse_function fse);
        fn \<leftarrow> func_function (fse_function fse);
        r \<leftarrow> lookup_brk (cls @ ''::'' @ fn) (function_breakpoints d) d;
        case r of
          None \<Rightarrow> Some (True, w, d)
        | Some (a, b) \<Rightarrow>
            if \<not> disabled b \<and> function_break_type b = breakpoint_type
            then (let (hit, b) = handle_hit_value b; d = put_brk a b d
                  in Some (True, w, if hit then d\<lparr>do_break := True\<rparr> else d))
            else Some (True, w, d)
      }
      else Some (True, w, d))"

section \<open>Statements\<close>

text \<open>Whether a breakpoint is for this line: its file is compared with the end of the name.\<close>

definition line_hits :: "string \<Rightarrow> int \<Rightarrow> brk_info \<Rightarrow> bool" where
  "line_hits fname ln b \<longleftrightarrow>
     \<not> disabled b \<and> ln = bi_lineno b \<and> bi_file_len b \<le> length fname \<and>
     strncasecmp (case bi_file b of None \<Rightarrow> [] | Some f \<Rightarrow> f)
       (drop (length fname - bi_file_len b) fname) (bi_file_len b) = 0"

text \<open>The loop over the line breakpoints. \<open>eval\<close> tells whether a condition evaluates to true.\<close>

fun line_loop ::
  "'w remote \<Rightarrow> (string \<Rightarrow> bool) \<Rightarrow> fstack \<Rightarrow> string \<Rightarrow> int \<Rightarrow> nat list \<Rightarrow> 'w \<Rightarrow> dbg \<Rightarrow> ('w \<times> dbg) option" where
  "line_loop remote eval st fname ln [] w d = Some (w, d)"
| "line_loop remote eval st fname ln (a # as) w d =
     do {
       b \<leftarrow> brk_at (brks d) a;
       if line_hits fname ln b
       then
         (let d = (if bi_condition b = None then d else d\<lparr>inhibit_notifications := False\<rparr>);
              break_ok = (case bi_condition b of None \<Rightarrow> True | Some c \<Rightarrow> eval c)
          in if \<not> break_ok then line_loop remote eval st fname ln as w d
             else (let (hit, b) = handle_hit_value b; d = put_brk a b d
                   in if hit then map_option keep_session (remote (at_line st fname ln XDEBUG_BREAK) w d)
                      else line_loop remote eval st fname ln as w d))
       else line_loop remote eval st fname ln as w d
     }"

text \<open>The level and number of the innermost function.\<close>

definition where_now :: "fstack \<Rightarrow> (int \<times> int) option" where
  "where_now st =
     (case st of
        None \<Rightarrow> Some (0, 0)
      | Some _ \<Rightarrow> map_option (\<lambda>fse. (fse_level fse, function_nr fse)) (get_stack_tail st))"

text \<open>The part of \<open>xdebug_statement_call\<close> behind \<open>XG(remote_enabled)\<close>.\<close>

definition statement_debug ::
  "'w remote \<Rightarrow> (string \<Rightarrow> bool) \<Rightarrow> string \<Rightarrow> int \<Rightarrow> fstack \<Rightarrow> 'w \<Rightarrow> dbg \<Rightarrow> ('w \<times> dbg) option" where
  "statement_debug remote eval fname ln st w d =
     (if \<not> remote_enabled d then Some (w, d)
      else do {
        (go, w, d) \<leftarrow>
          (if do_break d
           then map_option (\<lambda>(ok, w, d). (ok, w, if ok then d else d\<lparr>remote_enabled := False\<rparr>))
                  (remote (at_line st fname ln XDEBUG_BREAK) w (d\<lparr>do_break := False\<rparr>))
           else Some (True, w, d));
        if \<not> go then Some (w, d)
        else do {
          (lv, nr) \<leftarrow> where_now st;
          if do_finish d \<and> (lv < finish_level d \<or> lv = finish_level d \<and> finish_func_nr d < nr)
          then map_option keep_session (remote (at_line st fname ln XDEBUG_STEP) w (d\<lparr>do_finish := False\<rparr>))
          else if do_next d \<and> lv \<le> next_level d
          then map_option keep_session (remote (at_line st fname ln XDEBUG_STEP) w (d\<lparr>do_next := False\<rparr>))
          else if do_step d
          then map_option keep_session (remote (at_line st fname ln XDEBUG_STEP) w (d\<lparr>do_step := False\<rparr>))
          else line_loop remote eval st fname ln (line_breakpoints d) w d
        }
      })"

text \<open>The whole hook: the line is counted first, unless the file is filtered.\<close>

definition statement_call ::
  "'w remote \<Rightarrow> (string \<Rightarrow> bool) \<Rightarrow> bool \<Rightarrow> string \<Rightarrow> int \<Rightarrow> fstack \<Rightarrow> coverage \<Rightarrow> 'w \<Rightarrow> dbg \<Rightarrow>
   (coverage \<times> 'w \<times> dbg) option" where
  "statement_call remote eval filtered fname ln st xg w d =
     do {
       xg \<leftarrow> (if \<not> filtered \<and> do_code_coverage xg then count_line fname ln False False xg else Some xg);
       (w, d) \<leftarrow> statement_debug remote eval fname ln st w d;
       Some (xg, w, d)
     }"

section \<open>Exceptions\<close>

text \<open>The search for a breakpoint on the class of an exception or, from there on, on a parent.\<close>

fun class_brk :: "string list \<Rightarrow> dbg \<Rightarrow> (nat \<times> brk_info) option option" where
  "class_brk [] d = Some None"
| "class_brk (c # cs) d =
     do {
       r \<leftarrow> lookup_brk c (exception_breakpoints d) d;
       case r of None \<Rightarrow> class_brk cs d | Some ab \<Rightarrow> Some (Some ab)
     }"

text \<open>The breakpoint part of the exception hook; \<open>classes\<close> are the class and its parents.\<close>

definition exception_break ::
  "'w remote \<Rightarrow> fstack \<Rightarrow> string list \<Rightarrow> string \<Rightarrow> int \<Rightarrow> string option \<Rightarrow> string \<Rightarrow> 'w \<Rightarrow> dbg \<Rightarrow> ('w \<times> dbg) option" where
  "exception_break remote st classes fname ln code message w d =
     (if \<not> remote_enabled d then Some (w, d)
      else do {
        wild \<leftarrow> lookup_brk ''*'' (exception_breakpoints d) d;
        hitkey \<leftarrow> (case wild of Some ab \<Rightarrow> Some (Some ab) | None \<Rightarrow> class_brk classes d);
        case hitkey of
          None \<Rightarrow> Some (w, d)
        | Some (a, b) \<Rightarrow>
            (let (hit, b) = handle_hit_value b; d = put_brk a b d
             in if \<not> hit then Some (w, d)
                else do {
                  c \<leftarrow> (case classes of [] \<Rightarrow> None | c # _ \<Rightarrow> Some c);
                  map_option keep_session
                    (remote \<lparr>ev_stack = st, ev_file = Some fname, ev_lineno = ln, ev_kind = XDEBUG_BREAK,
                       ev_exception = Some c, ev_code = code, ev_message = Some message\<rparr> w d)
                })
      })"

section \<open>Stepping commands\<close>

definition handle_step_into :: "dbg_env \<Rightarrow> handler" where
  "handle_step_into env args d retval = Some (d\<lparr>do_next := False, do_step := True, do_finish := False\<rparr>, retval)"

definition handle_step_out :: "dbg_env \<Rightarrow> handler" where
  "handle_step_out env args d retval =
     (let d = d\<lparr>do_next := False, do_step := False, do_finish := True\<rparr>
      in Some (case get_stack_tail (env_stack env) of
                 Some fse \<Rightarrow> d\<lparr>finish_level := fse_level fse, finish_func_nr := function_nr fse\<rparr>
               | None \<Rightarrow> d\<lparr>finish_level := - 1, finish_func_nr := - 1\<rparr>, retval))"

definition handle_step_over :: "dbg_env \<Rightarrow> handler" where
  "handle_step_over env args d retval =
     (let d = d\<lparr>do_next := True, do_step := False, do_finish := False\<rparr>
      in Some (case get_stack_tail (env_stack env) of
                 Some fse \<Rightarrow> d\<lparr>next_level := fse_level fse\<rparr>
               | None \<Rightarrow> d\<lparr>next_level := 0\<rparr>, retval))"

section \<open>Running statements\<close>

text \<open>A statement that is executed is its file, its line, the frames of the stack, not empty, and which conditions of
  breakpoints are true at that moment; the same condition may be true at one statement and false at the next. The
  recorder is a client that notes every stop and lets the script go on.\<close>

type_synonym statement = "string \<times> int \<times> function_stack_entry list \<times> (string \<Rightarrow> bool)"

abbreviation frames :: "statement \<Rightarrow> function_stack_entry list" where
  "frames s \<equiv> fst (snd (snd s))"

abbreviation holds :: "statement \<Rightarrow> string \<Rightarrow> bool" where
  "holds s \<equiv> snd (snd (snd s))"

abbreviation stmt_line :: "statement \<Rightarrow> int" where
  "stmt_line s \<equiv> fst (snd s)"

fun run :: "'w remote \<Rightarrow> statement list \<Rightarrow> 'w \<Rightarrow> dbg \<Rightarrow> ('w \<times> dbg) option" where
  "run remote [] w d = Some (w, d)"
| "run remote (s # ss) w d =
     do {
       (w, d) \<leftarrow> statement_debug remote (holds s) (fst s) (stmt_line s) (Some (frames s)) w d;
       run remote ss w d
     }"

definition recorder :: "brk_event list remote" where
  "recorder ev w d = Some (True, w @ [ev], d)"

text \<open>No stop is pending.\<close>

definition quiet :: "dbg \<Rightarrow> bool" where
  "quiet d \<longleftrightarrow> remote_enabled d \<and> \<not> do_break d \<and> \<not> do_step d \<and> \<not> do_next d \<and> \<not> do_finish d"

lemma where_now_frames: "fs \<noteq> [] \<Longrightarrow> where_now (Some fs) = Some (fse_level (last fs), function_nr (last fs))"
  by (simp add: where_now_def get_stack_tail_def)

lemma quiet_statement:
  "quiet d \<Longrightarrow> frames s \<noteq> [] \<Longrightarrow>
   statement_debug remote eval (fst s) (stmt_line s) (Some (frames s)) w d =
     line_loop remote eval (Some (frames s)) (fst s) (stmt_line s) (line_breakpoints d) w d"
  by (simp add: statement_debug_def quiet_def where_now_frames)

lemma quiet_run:
  "quiet d \<Longrightarrow> line_breakpoints d = [] \<Longrightarrow> \<forall>s \<in> set ss. frames s \<noteq> [] \<Longrightarrow> run remote ss w d = Some (w, d)"
  by (induction ss) (simp_all add: quiet_statement)

section \<open>Stepping\<close>

datatype step = Into | Over | Out

fun step_handler :: "step \<Rightarrow> dbg_env \<Rightarrow> handler" where
  "step_handler Into = handle_step_into"
| "step_handler Over = handle_step_over"
| "step_handler Out = handle_step_out"

text \<open>Whether a step that began in frame \<open>f\<close> ends in frame \<open>g\<close>.\<close>

fun step_ends :: "step \<Rightarrow> function_stack_entry \<Rightarrow> function_stack_entry \<Rightarrow> bool" where
  "step_ends Into f g \<longleftrightarrow> True"
| "step_ends Over f g \<longleftrightarrow> fse_level g \<le> fse_level f"
| "step_ends Out f g \<longleftrightarrow> fse_level g < fse_level f \<or> fse_level g = fse_level f \<and> function_nr f < function_nr g"

definition set_step :: "step \<Rightarrow> function_stack_entry \<Rightarrow> dbg \<Rightarrow> dbg" where
  "set_step c f d =
     (case c of
        Into \<Rightarrow> d\<lparr>do_step := True\<rparr>
      | Over \<Rightarrow> d\<lparr>do_next := True, next_level := fse_level f\<rparr>
      | Out \<Rightarrow> d\<lparr>do_finish := True, finish_level := fse_level f, finish_func_nr := function_nr f\<rparr>)"

lemma step_handler_sets:
  assumes "quiet d" and "env_stack env = Some (fs @ [f])"
  shows "step_handler c env args d x = Some (set_step c f d, x)"
  using assms
  by (cases c) (simp_all add: handle_step_into_def handle_step_over_def handle_step_out_def get_stack_tail_def
      set_step_def quiet_def)

lemma step_statement:
  assumes "quiet d" and "line_breakpoints d = []" and "frames s \<noteq> []"
  shows "\<exists>d'. quiet d' \<and> line_breakpoints d' = [] \<and>
    statement_debug recorder eval (fst s) (stmt_line s) (Some (frames s)) w (set_step c f d) =
      Some (if step_ends c f (last (frames s)) then (w @ [at_line (Some (frames s)) (fst s) (stmt_line s) XDEBUG_STEP], d')
            else (w, set_step c f d))"
  using assms
  by (cases c) (auto simp: statement_debug_def set_step_def quiet_def where_now_frames recorder_def keep_session_def)

text \<open>C36: After a stepping command given while the script is in frame \<open>f\<close>, a script without line breakpoints
  stops exactly once: step into at its next statement, step over at the first statement that is not deeper than
  \<open>f\<close>, step out at the first one that is higher, or in a later call at the same level.\<close>

theorem stepping_exact:
  assumes "quiet d" and "line_breakpoints d = []" and "env_stack env = Some (fs @ [f])"
    and "\<forall>s \<in> set ss. frames s \<noteq> []"
  shows "\<exists>d1 d2. step_handler c env args d x = Some (d1, x) \<and>
    run recorder ss w d1 =
      Some (w @ (case List.find (\<lambda>s. step_ends c f (last (frames s))) ss of
                   None \<Rightarrow> []
                 | Some s \<Rightarrow> [at_line (Some (frames s)) (fst s) (stmt_line s) XDEBUG_STEP]), d2)"
proof -
  have "\<exists>d2. run recorder ss w (set_step c f d) =
      Some (w @ (case List.find (\<lambda>s. step_ends c f (last (frames s))) ss of
                   None \<Rightarrow> []
                 | Some s \<Rightarrow> [at_line (Some (frames s)) (fst s) (stmt_line s) XDEBUG_STEP]), d2)"
    using assms(4)
  proof (induction ss)
    case (Cons s ss)
    then have s: "frames s \<noteq> []" "\<forall>s \<in> set ss. frames s \<noteq> []" by simp_all
    obtain d' where d': "quiet d'" "line_breakpoints d' = []"
      "statement_debug recorder (holds s) (fst s) (stmt_line s) (Some (frames s)) w (set_step c f d) =
        Some (if step_ends c f (last (frames s)) then (w @ [at_line (Some (frames s)) (fst s) (stmt_line s) XDEBUG_STEP], d')
              else (w, set_step c f d))"
      using step_statement [OF assms(1,2) s(1)] by blast
    show ?case using Cons.IH [OF s(2)] quiet_run [where remote = recorder, OF d'(1,2) s(2)] d'(3)
      by (cases "step_ends c f (last (frames s))") auto
  qed simp
  then show ?thesis using step_handler_sets [OF assms(1,3)] by blast
qed

section \<open>Hit counts\<close>

text \<open>Whether the \<open>k\<close>-th time a breakpoint is reached stops the script.\<close>

definition threshold :: "brk_info \<Rightarrow> nat \<Rightarrow> bool" where
  "threshold b k \<longleftrightarrow>
     hit_value b = 0 \<or> hit_condition b = XDEBUG_HIT_DISABLED \<or>
     hit_condition b = XDEBUG_HIT_GREATER_EQUAL \<and> hit_value b \<le> int k \<or>
     hit_condition b = XDEBUG_HIT_EQUAL \<and> hit_value b = int k \<or>
     hit_condition b = XDEBUG_HIT_MOD \<and> hit_value b dvd int k"

definition fires :: "brk_info \<Rightarrow> nat \<Rightarrow> bool" where
  "fires b k \<longleftrightarrow> (temporary b = 0 \<or> k = 1) \<and> threshold b k"

text \<open>Whether a statement reaches it.\<close>

definition reaches :: "brk_info \<Rightarrow> statement \<Rightarrow> bool" where
  "reaches b s \<longleftrightarrow>
     line_hits (fst s) (stmt_line s) b \<and> (case bi_condition b of None \<Rightarrow> True | Some c \<Rightarrow> holds s c)"

text \<open>The breakpoint after it was reached \<open>m\<close> times.\<close>

definition counted :: "brk_info \<Rightarrow> nat \<Rightarrow> brk_info" where
  "counted b m =
     b\<lparr>hit_count := int (if temporary b \<noteq> 0 then min m 1 else m), disabled := temporary b \<noteq> 0 \<and> 0 < m\<rparr>"

definition watches :: "nat \<Rightarrow> brk_info \<Rightarrow> dbg \<Rightarrow> bool" where
  "watches a b d \<longleftrightarrow> quiet d \<and> line_breakpoints d = [a] \<and> brk_at (brks d) a = Some b"

lemma hit_counted:
  assumes "temporary b = 0 \<or> m = 0" and "Suc m < 2 ^ 31"
  shows "handle_hit_value (counted b m) = (threshold b (Suc m), counted b (Suc m))"
proof -
  have c: "to_int32 (int m + 1) = int m + 1" "to_int32 1 = 1"
    using assms(2) by (simp_all add: to_int32_id)
  have "fst (handle_hit_value (counted b m)) = threshold b (Suc m)"
    using assms(1) c
    by (auto simp: handle_hit_value_def counted_def threshold_def Let_def dvd_eq_mod_eq_0
        XDEBUG_HIT_DISABLED_def XDEBUG_HIT_GREATER_EQUAL_def XDEBUG_HIT_EQUAL_def XDEBUG_HIT_MOD_def add.commute)
  moreover have "snd (handle_hit_value (counted b m)) = counted b (Suc m)"
    using assms(1) c by (auto simp: handle_hit_value_def counted_def Let_def)
  ultimately show ?thesis by (simp add: prod_eq_iff)
qed

lemma line_hits_counted:
  "line_hits f l (counted b m) \<longleftrightarrow> (temporary b = 0 \<or> m = 0) \<and> line_hits f l (b\<lparr>disabled := False\<rparr>)"
  by (auto simp: line_hits_def counted_def)

lemma watched_statement:
  assumes "watches a (counted b m) d" and "frames s \<noteq> []" and "Suc m < 2 ^ 31" and "\<not> disabled b"
  shows "\<exists>d'. watches a (counted b (if reaches b s then Suc m else m)) d' \<and>
    statement_debug recorder (holds s) (fst s) (stmt_line s) (Some (frames s)) w d =
      Some (w @ (if reaches b s \<and> fires b (Suc m) then [at_line (Some (frames s)) (fst s) (stmt_line s) XDEBUG_BREAK] else []), d')"
proof -
  have d: "quiet d" "line_breakpoints d = [a]" "brk_at (brks d) a = Some (counted b m)"
    using assms(1) by (auto simp: watches_def)
  have u: "b\<lparr>disabled := False\<rparr> = b" using assms(4) by simp
  have cond: "bi_condition (counted b m) = bi_condition b" by (simp add: counted_def)
  note st = quiet_statement [OF d(1) assms(2)]
  have put: "watches a b' (put_brk a b' d')" if "quiet d'" "line_breakpoints d' = [a]" "brks d' = brks d" for b' d'
    using that d(3) by (auto simp: watches_def put_brk_def quiet_def brk_at_def split: if_splits)
  show ?thesis
  proof (cases "reaches b s \<and> (temporary b = 0 \<or> m = 0)")
    case True
    then have h: "line_hits (fst s) (stmt_line s) (counted b m)"
      "case bi_condition b of None \<Rightarrow> True | Some c \<Rightarrow> holds s c" "temporary b = 0 \<or> m = 0"
      by (auto simp: line_hits_counted u reaches_def)
    define d1 where "d1 = (if bi_condition b = None then d else d\<lparr>inhibit_notifications := False\<rparr>)"
    have d1: "quiet d1" "line_breakpoints d1 = [a]" "brks d1 = brks d" using d by (auto simp: d1_def quiet_def)
    have f: "fires b (Suc m) = threshold b (Suc m)" using h(3) by (auto simp: fires_def)
    have "statement_debug recorder (holds s) (fst s) (stmt_line s) (Some (frames s)) w d =
      Some (w @ (if threshold b (Suc m) then [at_line (Some (frames s)) (fst s) (stmt_line s) XDEBUG_BREAK] else []),
        put_brk a (counted b (Suc m)) d1)"
      using h(1,2) unfolding st d(2)
      by (simp add: d(3) cond hit_counted [OF h(3) assms(3)] d1_def [symmetric] recorder_def keep_session_def)
    then show ?thesis using put [OF d1] True f by auto
  next
    case False
    then have "\<not> (line_hits (fst s) (stmt_line s) (counted b m) \<and> (case bi_condition b of None \<Rightarrow> True | Some c \<Rightarrow> holds s c))"
      by (auto simp: line_hits_counted u reaches_def)
    moreover have "watches a (counted b m) (d\<lparr>inhibit_notifications := False\<rparr>)"
      using assms(1) by (simp add: watches_def quiet_def)
    ultimately have "\<exists>d'. watches a (counted b m) d' \<and>
        statement_debug recorder (holds s) (fst s) (stmt_line s) (Some (frames s)) w d = Some (w, d')"
      using assms(1) unfolding st d(2) by (auto simp: d(3) cond)
    moreover have "counted b (Suc m) = counted b m" "\<not> fires b (Suc m)" if "reaches b s"
      using False that by (auto simp: counted_def fires_def)
    ultimately show ?thesis by auto
  qed
qed

lemma hits_run:
  assumes "watches a (counted b m) d" and "\<forall>s \<in> set ss. frames s \<noteq> []" and "m + length ss < 2 ^ 31" and "\<not> disabled b"
  shows "\<exists>d'. run recorder ss w d =
    Some (w @ map (\<lambda>(k, s). at_line (Some (frames s)) (fst s) (stmt_line s) XDEBUG_BREAK)
      (filter (\<lambda>(k, s). fires b k) (enumerate (Suc m) (filter (reaches b) ss))), d')"
  using assms
proof (induction ss arbitrary: m w d)
  case (Cons s ss)
  then have s: "frames s \<noteq> []" "\<forall>s \<in> set ss. frames s \<noteq> []" "Suc m < 2 ^ 31" by simp_all
  obtain d' where d': "watches a (counted b (if reaches b s then Suc m else m)) d'"
    "statement_debug recorder (holds s) (fst s) (stmt_line s) (Some (frames s)) w d =
      Some (w @ (if reaches b s \<and> fires b (Suc m) then [at_line (Some (frames s)) (fst s) (stmt_line s) XDEBUG_BREAK] else []), d')"
    using watched_statement [OF Cons.prems(1) s(1,3) assms(4)] by blast
  have l: "(if reaches b s then Suc m else m) + length ss < 2 ^ 31" using Cons.prems(3) by simp
  show ?case
    using Cons.IH [OF d'(1) s(2) l assms(4),
        of "w @ (if reaches b s \<and> fires b (Suc m) then [at_line (Some (frames s)) (fst s) (stmt_line s) XDEBUG_BREAK] else [])"] d'(2)
    by (cases "reaches b s") auto
qed simp

text \<open>C37: With one line breakpoint \<open>b\<close> and no step pending, a script stops exactly at those statements that
  reach the breakpoint (its line, the end of the file name and a condition that is true then) for the \<open>k\<close>-th time where \<open>k\<close>
  satisfies the hit condition; a temporary breakpoint only ever counts \<open>k = 1\<close>, so that with a hit value
  greater than one it never stops.\<close>

theorem hits_exact:
  assumes "quiet d" and "line_breakpoints d = [a]" and "brk_at (brks d) a = Some b"
    and "\<not> disabled b" and "hit_count b = 0"
    and "\<forall>s \<in> set ss. frames s \<noteq> []" and "length ss < 2 ^ 31"
  shows "\<exists>d'. run recorder ss w d =
    Some (w @ map (\<lambda>(k, s). at_line (Some (frames s)) (fst s) (stmt_line s) XDEBUG_BREAK)
      (filter (\<lambda>(k, s). fires b k) (enumerate 1 (filter (reaches b) ss))), d')"
proof -
  have "counted b 0 = b" using assms(4,5) by (simp add: counted_def)
  then have "watches a (counted b 0) d" using assms(1-3) by (simp add: watches_def)
  from hits_run [OF this assms(6) _ assms(4)] assms(7) show ?thesis by simp
qed

section \<open>Exception breakpoints\<close>

lemma lookup_brk_ok:
  assumes "hash_inv h" and "key \<noteq> []"
    and "\<And>a. abs_hash h (key_of key) = Some a \<Longrightarrow> brk_at (brks d) a \<noteq> None"
  shows "lookup_brk key h d =
    Some (map_option (\<lambda>a. (a, the (brk_at (brks d) a))) (abs_hash h (key_of key)))"
  using xh.find [of h "key_of key"] assms by (auto simp: lookup_brk_def key_ok_def split: option.split)

lemma class_brk_ok:
  assumes "hash_inv (exception_breakpoints d)" and "[] \<notin> set cs"
    and "\<And>k a. abs_hash (exception_breakpoints d) k = Some a \<Longrightarrow> brk_at (brks d) a \<noteq> None"
  shows "class_brk cs d = Some (map_option (\<lambda>k. let a = the (abs_hash (exception_breakpoints d) (key_of k))
      in (a, the (brk_at (brks d) a))) (List.find (\<lambda>k. abs_hash (exception_breakpoints d) (key_of k) \<noteq> None) cs))"
  using assms(2)
proof (induction cs)
  case (Cons c cs)
  then show ?case
    using lookup_brk_ok [OF assms(1) _ assms(3), of c] by (cases "abs_hash (exception_breakpoints d) (key_of c)") auto
qed simp

text \<open>C38: An exception stops the script when there is a breakpoint on all exceptions or, searched from its class
  upwards, on one of its classes, and the hit counter of the first one found allows it; whether this breakpoint
  is disabled, or was temporary and has been used, makes no difference.\<close>

theorem exception_break_exact:
  assumes "remote_enabled d" and "store_ok d" and "[] \<notin> set (c # cs)"
    and "List.find (\<lambda>k. abs_hash (exception_breakpoints d) (key_of k) \<noteq> None) (''*'' # c # cs) = hitkey"
    and "\<And>k. hitkey = Some k \<Longrightarrow> abs_hash (exception_breakpoints d) (key_of k) = Some a \<and> brk_at (brks d) a = Some b"
  shows "exception_break recorder st (c # cs) f l code msg w d =
    (case hitkey of
       None \<Rightarrow> Some (w, d)
     | Some k \<Rightarrow>
         Some (if fst (handle_hit_value (b\<lparr>disabled := False\<rparr>))
               then w @ [\<lparr>ev_stack = st, ev_file = Some f, ev_lineno = l, ev_kind = XDEBUG_BREAK, ev_exception = Some c,
                 ev_code = code, ev_message = Some msg\<rparr>] else w,
               put_brk a (snd (handle_hit_value b)) d))"
proof -
  have h: "hash_inv (exception_breakpoints d)" using assms(2) by (auto simp: store_ok_def store_with_def tables_ok_def)
  have alive: "brk_at (brks d) x \<noteq> None" if "abs_hash (exception_breakpoints d) k = Some x" for k x
  proof -
    have "x \<in># owners d" using abs_hash_live [OF h that] by (simp add: owners_def)
    then have "0 < count (owners d) x" by simp
    moreover obtain X where "held X d" using assms(2) by (auto simp: store_ok_def store_with_def)
    ultimately show ?thesis unfolding held_def by (metis add_is_0 less_numeral_extra(3))
  qed
  have same: "fst (handle_hit_value (b\<lparr>disabled := x\<rparr>)) = fst (handle_hit_value b)" for x
    by (simp add: handle_hit_value_def Let_def)
  have star: "lookup_brk ''*'' (exception_breakpoints d) d =
      Some (map_option (\<lambda>a. (a, the (brk_at (brks d) a))) (abs_hash (exception_breakpoints d) (key_of ''*'')))"
    using lookup_brk_ok [OF h _ alive, of "''*''"] by simp
  note cl = class_brk_ok [OF h assms(3) alive]
  have both: "do {
      wild \<leftarrow> lookup_brk ''*'' (exception_breakpoints d) d;
      case wild of Some ab \<Rightarrow> Some (Some ab) | None \<Rightarrow> class_brk (c # cs) d
    } = Some (map_option (\<lambda>k. (a, b)) hitkey)"
    using assms(4,5)
    by (cases "abs_hash (exception_breakpoints d) (key_of ''*'')"; cases hitkey)
      (auto simp: Let_def star cl simp del: class_brk.simps split: if_splits)
  have "exception_break recorder st (c # cs) f l code msg w d =
    (case map_option (\<lambda>k. (a, b)) hitkey of
       None \<Rightarrow> Some (w, d)
     | Some (a, b) \<Rightarrow>
            (let (hit, b) = handle_hit_value b; d = put_brk a b d
             in if \<not> hit then Some (w, d)
                else map_option keep_session
                    (recorder \<lparr>ev_stack = st, ev_file = Some f, ev_lineno = l, ev_kind = XDEBUG_BREAK,
                       ev_exception = Some c, ev_code = code, ev_message = Some msg\<rparr> w d)))"
    using assms(1) both unfolding exception_break_def
    by (cases "lookup_brk ''*'' (exception_breakpoints d) d"; cases hitkey; cases "handle_hit_value b")
      (auto simp: Let_def)
  then show ?thesis
    using same [of False] by (cases hitkey; cases "handle_hit_value b") (auto simp: recorder_def keep_session_def)
qed

section \<open>Examples\<close>

definition frame_at :: "int \<Rightarrow> int \<Rightarrow> function_stack_entry" where
  "frame_at lv nr =
     \<lparr>fse_function = \<lparr>func_class = None, func_function = Some ''f'', func_type = XFUNC_NORMAL\<rparr>,
      user_defined = XDEBUG_EXTERNAL, fse_level = lv, fse_filename = Some ''/a.php'', fse_lineno = 1,
      include_filename = None, function_nr = nr, filtered_tracing = 0, filtered_code_coverage = 0, declared_vars = None,
      fse_execute_data = None, fse_symbol_table = None, fse_this = None\<rparr>"

definition sample_script :: "statement list" where
  "sample_script =
     [(''/a.php'', 7, [frame_at 1 1, frame_at 2 2], \<lambda>_. True), (''/a.php'', 3, [frame_at 1 1], \<lambda>_. True),
      (''/a.php'', 4, [frame_at 1 1], \<lambda>_. True)]"

lemma new_session_quiet: "quiet new_session"
  by (simp add: quiet_def new_session_def session_init_def)

theorem stepping_exact_witness:
  "\<exists>d1 d2. handle_step_over (local_env\<lparr>env_stack := Some ([] @ [frame_at 1 1])\<rparr>) no_args new_session
      (xml_node_init ''r'') = Some (d1, xml_node_init ''r'') \<and>
    run recorder sample_script [] d1 = Some ([] @ [at_line (Some [frame_at 1 1]) ''/a.php'' 3 XDEBUG_STEP], d2)"
proof -
  have l: "line_breakpoints new_session = []" by (simp add: new_session_def session_init_def)
  have e: "env_stack (local_env\<lparr>env_stack := Some ([] @ [frame_at 1 1])\<rparr>) = Some ([] @ [frame_at 1 1])" by simp
  have f: "\<forall>s \<in> set sample_script. frames s \<noteq> []" by (simp add: sample_script_def)
  show ?thesis
    using stepping_exact [OF new_session_quiet l e f, of Over no_args "xml_node_init ''r''" "[]"]
    by (simp add: sample_script_def frame_at_def)
qed

definition line_brk :: brk_info where
  "line_brk = new_brk_info\<lparr>bi_type := Some ''line'', bi_file := Some ''a.php'', bi_file_len := 5, bi_lineno := 3,
     hit_value := 2, hit_condition := XDEBUG_HIT_MOD\<rparr>"

theorem hits_exact_witness:
  "\<exists>d. run recorder (concat [sample_script, sample_script])
      [] (new_session\<lparr>line_breakpoints := [0], brks := [Some line_brk]\<rparr>) =
    Some ([] @ [at_line (Some [frame_at 1 1]) ''/a.php'' 3 XDEBUG_BREAK], d)"
proof -
  let ?d = "new_session\<lparr>line_breakpoints := [0], brks := [Some line_brk]\<rparr>"
  have q: "quiet ?d" "line_breakpoints ?d = [0]" "brk_at (brks ?d) 0 = Some line_brk"
    using new_session_quiet by (simp_all add: quiet_def brk_at_def)
  have b: "\<not> disabled line_brk" "hit_count line_brk = 0" by (simp_all add: line_brk_def new_brk_info_def)
  have f: "\<forall>s \<in> set (concat [sample_script, sample_script]). frames s \<noteq> []" by (simp add: sample_script_def)
  have n: "length (concat [sample_script, sample_script]) < 2 ^ 31" by (simp add: sample_script_def)
  have r: "map (reaches line_brk) sample_script = [False, True, False]" by code_simp
  have t: "fires line_brk 1 = False" "fires line_brk 2 = True" by code_simp+
  show ?thesis
    using hits_exact [OF q b f n, of "[]"] r t by (simp add: sample_script_def enumerate_eq_zip numeral_2_eq_2)
qed

definition any_brk :: brk_info where
  "any_brk = new_brk_info\<lparr>bi_type := Some ''exception'', bi_exceptionname := Some ''*'', disabled := True\<rparr>"

theorem exception_break_exact_witness:
  "\<exists>d d2. disabled any_brk \<and> exception_break recorder None [''E''] ''/a.php'' 3 None ''oops'' [] d =
    Some ([] @ [\<lparr>ev_stack = None, ev_file = Some ''/a.php'', ev_lineno = 3, ev_kind = XDEBUG_BREAK, ev_exception = Some ''E'',
      ev_code = None, ev_message = Some ''oops''\<rparr>], d2)"
proof -
  have ok: "tables_ok new_session" "held {#} new_session" using new_session_with by (auto simp: store_with_def)
  note a = alloc_brk_ok [OF ok, of any_brk]
  obtain d where d: "tables_ok d" "held {#} d" "abs_hash (exception_breakpoints d) (key_of ''*'') =
      Some (fst (alloc_brk any_brk new_session))" "brk_at (brks d) (fst (alloc_brk any_brk new_session)) = Some any_brk"
    "remote_enabled d"
  proof -
    obtain d where d: "tables_ok d \<and> held {#} d \<and>
      abs_hash (exception_breakpoints d) =
        (abs_hash (exception_breakpoints (snd (alloc_brk any_brk new_session))))(key_of ''*'' \<mapsto> fst (alloc_brk any_brk new_session)) \<and>
      brk_at (brks d) (fst (alloc_brk any_brk new_session)) =
        brk_at (brks (snd (alloc_brk any_brk new_session))) (fst (alloc_brk any_brk new_session)) \<and>
      d = (snd (alloc_brk any_brk new_session))\<lparr>brks := brks d, exception_breakpoints := exception_breakpoints d\<rparr>"
      using add_exception_ok [OF a, of "''*''"] by blast
    moreover have "brk_at (brks (snd (alloc_brk any_brk new_session))) (fst (alloc_brk any_brk new_session)) = Some any_brk"
      by (simp add: alloc_brk_def brk_at_append)
    moreover have "remote_enabled d"
      by (subst conjunct2 [OF conjunct2 [OF conjunct2 [OF conjunct2 [OF d]]]])
        (simp add: alloc_brk_def new_session_def session_init_def)
    ultimately show ?thesis by (intro that) simp_all
  qed
  have s: "store_ok d" using d(1,2) by (auto simp: store_ok_def store_with_def)
  have h: "fst (handle_hit_value (any_brk\<lparr>disabled := False\<rparr>))" by code_simp
  have "exception_break recorder None (''E'' # []) ''/a.php'' 3 None ''oops'' [] d =
      (case Some ''*'' of None \<Rightarrow> Some ([], d)
       | Some k \<Rightarrow> Some (if fst (handle_hit_value (any_brk\<lparr>disabled := False\<rparr>))
           then [] @ [\<lparr>ev_stack = None, ev_file = Some ''/a.php'', ev_lineno = 3, ev_kind = XDEBUG_BREAK, ev_exception = Some ''E'',
             ev_code = None, ev_message = Some ''oops''\<rparr>] else [],
           put_brk (fst (alloc_brk any_brk new_session)) (snd (handle_hit_value any_brk)) d))"
    by (rule exception_break_exact [OF d(5) s]) (use d(3,4) in auto)
  moreover have "disabled any_brk" by (simp add: any_brk_def)
  ultimately show ?thesis using h by auto
qed

end
