(* ===== verification/DbgpCommands.thy ===== *)
theory DbgpCommands
  imports Breakpoints OutputName
begin

text \<open>
  The other commands of \<open>xdebug_handler_dbgp.c\<close> that do not export PHP values: features, status, output
  redirection, the source of evaluated code and the type map. Opening a source file through PHP's streams is a
  parameter.
\<close>

section \<open>Output and status\<close>

definition ns_attributes :: "xml_node \<Rightarrow> xml_node" where
  "ns_attributes x =
     xml_add_attribute_ex ''xmlns:xdebug'' ''http://xdebug.org/dbgp/xdebug''
       (xml_add_attribute_ex ''xmlns'' ''urn:debugger_protocol_v1'' x)"

definition status_attributes :: "dbg \<Rightarrow> xml_node \<Rightarrow> xml_node option" where
  "status_attributes d x =
     do {
       st \<leftarrow> string_at xdebug_dbgp_status_strings (status d);
       re \<leftarrow> string_at xdebug_dbgp_reason_strings (reason d);
       Some (xml_add_attribute_ex ''reason'' re (xml_add_attribute_ex ''status'' st x))
     }"

definition send_stream :: "string \<Rightarrow> string \<Rightarrow> nat \<Rightarrow> xml_node" where
  "send_stream name str len =
     xml_add_text_ex (take len str) (int len) True
       (xml_add_attribute_ex ''type'' name (ns_attributes (xml_node_init ''stream'')))"

text \<open>The message sent, if any, and whether PHP prints the output as well (0) or not (-1).\<close>

definition stream_output :: "string \<Rightarrow> nat \<Rightarrow> dbg \<Rightarrow> xml_node option \<times> int" where
  "stream_output str len d =
     (if (stdout_mode d = 1 \<or> stdout_mode d = 2) \<and> len \<noteq> 0 then Some (send_stream ''stdout'' str len) else None,
      if stdout_mode d = 0 \<or> stdout_mode d = 1 then 0 else - 1)"

definition handle_stderr :: handler where
  "handle_stderr args d retval = Some (d, xml_add_attribute_ex ''success'' ''0'' retval)"

definition handle_stdout :: handler where
  "handle_stdout args d retval =
     (if \<not> option_set args (CHR ''c'') then fail_with XDEBUG_ERROR_INVALID_ARGS d retval
      else Some (d\<lparr>stdout_mode := int_option args (CHR ''c'')\<rparr>, xml_add_attribute_ex ''success'' ''1'' retval))"

definition handle_stop :: handler where
  "handle_stop args d retval =
     (let d = d\<lparr>status := DBGP_STATUS_STOPPED\<rparr> in map_option (\<lambda>x. (d, x)) (status_attributes d retval))"

definition handle_run :: handler where
  "handle_run args d retval = Some (d, xml_add_attribute_ex ''filename'' (program_name d) retval)"

definition handle_status :: handler where
  "handle_status args d retval = map_option (\<lambda>x. (d, x)) (status_attributes d retval)"

definition handle_stack_depth :: "dbg_env \<Rightarrow> handler" where
  "handle_stack_depth env args d retval = Some (d, xml_add_attribute_ex ''depth'' (lu (env_level env)) retval)"

section \<open>Features\<close>

text \<open>The entries of the command table: the name, whether the script goes on after the command (1) or the session
  ends (2), and whether the command is allowed at the end of the script.\<close>

definition dbgp_commands :: "(string \<times> int \<times> bool) list" where
  "dbgp_commands =
     [(''breakpoint_get'', 0, False), (''breakpoint_list'', 0, True), (''breakpoint_remove'', 0, False),
      (''breakpoint_set'', 0, False), (''breakpoint_update'', 0, False), (''context_get'', 0, False),
      (''context_names'', 0, True), (''eval'', 0, False), (''feature_get'', 0, True), (''feature_set'', 0, False),
      (''typemap_get'', 0, True), (''property_get'', 0, False), (''property_set'', 0, False),
      (''property_value'', 0, False), (''source'', 0, False), (''stack_depth'', 0, False), (''stack_get'', 0, False),
      (''status'', 0, True), (''stderr'', 0, False), (''stdout'', 0, False), (''run'', 1, False),
      (''step_into'', 1, False), (''step_out'', 1, False), (''step_over'', 1, False), (''stop'', 2, True),
      (''detach'', 2, False), (''xcmd_profiler_name_get'', 0, True), (''xcmd_get_executable_lines'', 0, False)]"

definition lookup_cmd :: "string \<Rightarrow> (string \<times> int \<times> bool) option" where
  "lookup_cmd cmd = List.find (\<lambda>entry. fst entry = cmd) dbgp_commands"

definition ld :: "int \<Rightarrow> string" where
  "ld i = dec_int i"

text \<open>The text and the value of \<open>supported\<close> for a feature.\<close>

definition feature :: "dbg_env \<Rightarrow> dbg \<Rightarrow> string \<Rightarrow> string option \<times> string" where
  "feature env d n =
     (let co = con_options d in
      if n = ''breakpoint_languages'' then (None, ''0'')
      else if n = ''breakpoint_types'' then (Some ''line conditional call return exception'', ''1'')
      else if n = ''data_encoding'' then (None, ''0'')
      else if n = ''encoding'' then (Some ''iso-8859-1'', ''1'')
      else if n = ''language_name'' then (Some ''PHP'', ''1'')
      else if n = ''language_supports_threads'' then (Some ''0'', ''1'')
      else if n = ''language_version'' then (Some (env_php_version env), ''1'')
      else if n = ''max_children'' then (Some (ld (max_children co)), ''1'')
      else if n = ''max_data'' then (Some (ld (max_data co)), ''1'')
      else if n = ''max_depth'' then (Some (ld (max_depth co)), ''1'')
      else if n = ''protocol_version'' then (Some ''1.0'', ''1'')
      else if n = ''supported_encodings'' then (Some ''iso-8859-1'', ''1'')
      else if n = ''supports_async'' then (Some ''0'', ''1'')
      else if n = ''supports_postmortem'' then (Some ''1'', ''1'')
      else if n = ''show_hidden'' then (Some (ld (show_hidden co)), ''1'')
      else if n = ''extended_properties'' then (Some (ld (extended_properties co)), ''1'')
      else if n = ''notify_ok'' then (Some (ld (send_notifications d)), ''1'')
      else (let known = (if lookup_cmd n = None then ''0'' else ''1'') in (Some known, known)))"

definition handle_feature_get :: "dbg_env \<Rightarrow> handler" where
  "handle_feature_get env args d retval =
     (if \<not> option_set args (CHR ''n'') then fail_with XDEBUG_ERROR_INVALID_ARGS d retval
      else
        (let n = option_char args (CHR ''n'');
             retval = xml_add_attribute_ex ''feature_name'' n retval;
             (txt, supported) = feature env d n;
             retval = (case txt of None \<Rightarrow> retval | Some t \<Rightarrow> xml_add_text t retval)
         in Some (d, xml_add_attribute_ex ''supported'' supported retval)))"

text \<open>The session with a feature set; \<open>Inl\<close> is an error code. A new depth gets new pages.\<close>

definition set_feature :: "string \<Rightarrow> string \<Rightarrow> dbg \<Rightarrow> int + dbg" where
  "set_feature n v d =
     (let co = con_options d; i = to_int32 (strtol10 v) in
      if n = ''encoding'' then if v = ''iso-8859-1'' then Inr d else Inl XDEBUG_ERROR_ENCODING_NOT_SUPPORTED
      else if n = ''max_children'' then Inr (d\<lparr>con_options := co\<lparr>max_children := i\<rparr>\<rparr>)
      else if n = ''max_data'' then Inr (d\<lparr>con_options := co\<lparr>max_data := i\<rparr>\<rparr>)
      else if n = ''max_depth'' then
        Inr (d\<lparr>con_options := co\<lparr>max_depth := i, runtime := replicate (nat i) first_page\<rparr>\<rparr>)
      else if n = ''show_hidden'' then Inr (d\<lparr>con_options := co\<lparr>show_hidden := i\<rparr>\<rparr>)
      else if n = ''multiple_sessions'' then Inr d
      else if n = ''extended_properties'' then Inr (d\<lparr>con_options := co\<lparr>extended_properties := i\<rparr>\<rparr>)
      else if n = ''notify_ok'' then Inr (d\<lparr>send_notifications := i\<rparr>)
      else Inl XDEBUG_ERROR_INVALID_ARGS)"

definition handle_feature_set :: handler where
  "handle_feature_set args d retval =
     (if \<not> option_set args (CHR ''n'') \<or> \<not> option_set args (CHR ''v'')
      then fail_with XDEBUG_ERROR_INVALID_ARGS d retval
      else
        (case set_feature (option_char args (CHR ''n'')) (option_char args (CHR ''v'')) d of
           Inl e \<Rightarrow> fail_with e d retval
         | Inr d \<Rightarrow>
             Some (d, xml_add_attribute_ex ''success'' ''1''
               (xml_add_attribute_ex ''feature'' (option_char args (CHR ''n'')) retval))))"

section \<open>The type map and the contexts\<close>

definition xdebug_dbgp_typemap :: "(string \<times> string \<times> string option) list" where
  "xdebug_dbgp_typemap =
     [(''bool'', ''bool'', Some ''xsd:boolean''), (''int'', ''int'', Some ''xsd:decimal''),
      (''float'', ''float'', Some ''xsd:double''), (''string'', ''string'', Some ''xsd:string''),
      (''null'', ''null'', None), (''hash'', ''array'', None), (''object'', ''object'', None),
      (''resource'', ''resource'', None)]"

definition typemap_entry :: "string \<times> string \<times> string option \<Rightarrow> xml_node" where
  "typemap_entry e =
     add_opt_attr ''xsi:type'' (snd (snd e))
       (xml_add_attribute_ex ''type'' (fst e) (xml_add_attribute_ex ''name'' (fst (snd e)) (xml_node_init ''map'')))"

definition handle_typemap_get :: handler where
  "handle_typemap_get args d retval =
     Some (d, foldl (\<lambda>x e. xml_add_child x (typemap_entry e))
       (xml_add_attribute_ex ''xmlns:xsd'' ''http://www.w3.org/2001/XMLSchema''
         (xml_add_attribute_ex ''xmlns:xsi'' ''http://www.w3.org/2001/XMLSchema-instance'' retval))
       xdebug_dbgp_typemap)"

definition context_node :: "string \<Rightarrow> string \<Rightarrow> xml_node" where
  "context_node name i = xml_add_attribute_ex ''id'' i (xml_add_attribute_ex ''name'' name (xml_node_init ''context''))"

definition handle_context_names :: handler where
  "handle_context_names args d retval =
     Some (d, xml_add_child (xml_add_child (xml_add_child retval
       (context_node ''Locals'' ''0'')) (context_node ''Superglobals'' ''1''))
       (context_node ''User defined constants'' ''2''))"

section \<open>Evaluated code\<close>

definition eval_at :: "eval_info option list \<Rightarrow> nat \<Rightarrow> eval_info option" where
  "eval_at h a = (if a < length h then h ! a else None)"

definition create_eval_key_file :: "string \<Rightarrow> int \<Rightarrow> string" where
  "create_eval_key_file fname ln = fname @ ''('' @ dec_int ln @ '') : eval()'' @ [CHR 0x27] @ ''d code''"

text \<open>\<open>%04x\<close> of an \<open>int\<close>.\<close>

definition create_eval_key_id :: "int \<Rightarrow> string" where
  "create_eval_key_id i =
     (let h = hex (nat (i mod 2 ^ 32)) in replicate (4 - length h) (CHR ''0'') @ h)"

text \<open>The destructor of an entry: the last reference frees the object.\<close>

definition drop_eval :: "eval_info option list \<Rightarrow> nat \<Rightarrow> eval_info option list option" where
  "drop_eval h a =
     do {
       ei \<leftarrow> eval_at h a;
       let ei = ei\<lparr>ei_refcount := ei_refcount ei - 1\<rparr>
       in Some (h[a := (if ei_refcount ei = 0 then None else Some ei)])
     }"

fun drop_evals :: "eval_info option list \<Rightarrow> nat list \<Rightarrow> eval_info option list option" where
  "drop_evals h [] = Some h"
| "drop_evals h (a # as) = do { h \<leftarrow> drop_eval h a; drop_evals h as }"

definition add_eval :: "string \<Rightarrow> nat \<Rightarrow> dbg \<Rightarrow> dbg option" where
  "add_eval key a d =
     do {
       h \<leftarrow> hash_add_or_update (key_of key) a (eval_id_lookup d);
       es \<leftarrow> drop_evals (evals d) (newly_destroyed (eval_id_lookup d) h);
       Some (d\<lparr>eval_id_lookup := h, evals := es\<rparr>)
     }"

definition register_eval_id :: "function_stack_entry \<Rightarrow> dbg \<Rightarrow> (int \<times> dbg) option" where
  "register_eval_id fse d =
     (let d = d\<lparr>eval_id_sequence := to_int32 (eval_id_sequence d + 1)\<rparr>; i = eval_id_sequence d; a = length (evals d)
      in do {
        code \<leftarrow> include_filename fse;
        fname \<leftarrow> fse_filename fse;
        d \<leftarrow> add_eval (create_eval_key_file fname (fse_lineno fse)) a
          (d\<lparr>evals := evals d @ [Some \<lparr>ei_id = i, ei_contents = code, ei_refcount = 2\<rparr>]\<rparr>);
        d \<leftarrow> add_eval (create_eval_key_id i) a d;
        Some (i, d)
      })"

definition lookup_eval :: "string \<Rightarrow> dbg \<Rightarrow> eval_info option option" where
  "lookup_eval key d =
     do {
       r \<leftarrow> hash_extended_find (key_of key) (eval_id_lookup d);
       case r of None \<Rightarrow> Some None | Some a \<Rightarrow> do { ei \<leftarrow> eval_at (evals d) a; Some (Some ei) }
     }"

definition return_eval_source :: "char \<Rightarrow> string \<Rightarrow> int \<Rightarrow> int \<Rightarrow> dbg \<Rightarrow> xstr option option" where
  "return_eval_source junk i begin0 end0 d =
     (let begin0 = (if begin0 < 0 then 0 else begin0)
      in do {
        r \<leftarrow> lookup_eval (create_eval_key_id (atoi i)) d;
        case r of
          None \<Rightarrow> Some None
        | Some ei \<Rightarrow>
            do {
              parts \<leftarrow> explode [CHR 0x0A] (ei_contents ei) [] (to_int32 (end0 + 2));
              joined \<leftarrow> join junk [CHR 0x0A] parts begin0 end0;
              Some (Some joined)
            }
      })"

text \<open>Whether a file name is one of evaluated code, and the name to show for it: the given one when it is not
  known.\<close>

definition eval_suffix :: string where
  "eval_suffix = ''eval()'' @ [CHR 0x27] @ ''d code''"

definition check_evaled_code :: "string \<Rightarrow> dbg \<Rightarrow> (bool \<times> string) option" where
  "check_evaled_code fname d =
     (if suffix eval_suffix fname
      then do {
        r \<leftarrow> lookup_eval fname d;
        Some (True, case r of None \<Rightarrow> fname | Some ei \<Rightarrow> ''dbgp://'' @ lu (ei_id ei))
      }
      else Some (False, fname))"

text \<open>\<open>file_source\<close> reads the lines of a file.\<close>

definition handle_source ::
  "char \<Rightarrow> (string \<Rightarrow> int \<Rightarrow> int \<Rightarrow> string option) \<Rightarrow> dbg_env \<Rightarrow> handler" where
  "handle_source junk file_source env args d retval =
     (let b = (if option_set args (CHR ''b'') then int_option args (CHR ''b'') else 0);
          e = (if option_set args (CHR ''e'') then int_option args (CHR ''e'') else 999999)
      in case (if option_set args (CHR ''f'') then Inr (Some (option_char args (CHR ''f'')))
               else (case get_stack_tail (env_stack env) of
                       None \<Rightarrow> Inl XDEBUG_ERROR_STACK_DEPTH_INVALID
                     | Some fse \<Rightarrow> Inr (fse_filename fse))) of
           Inl err \<Rightarrow> fail_with err d retval
         | Inr f \<Rightarrow>
             do {
               f \<leftarrow> f;
               source \<leftarrow> (if strncmp f ''dbgp://'' 7 = 0
                           then map_option (map_option content) (return_eval_source junk (drop 7 f) b e d)
                           else do { p \<leftarrow> path_from_url f; Some (file_source p b e) });
               case source of
                 None \<Rightarrow> fail_with XDEBUG_ERROR_CANT_OPEN_FILE d retval
               | Some s \<Rightarrow> Some (d, xml_add_text_ex (cstr s) (int (length s)) True retval)
             })"

end
