(* ===== verification/DbgpSession.thy ===== *)
theory DbgpSession
  imports DbgpCommands Stepping Text
begin

text \<open>
  The command loop of \<open>xdebug_handler_dbgp.c\<close>: reading a command, running its handler and replying, and the
  start, the end and the events of a session around it. The connection holds the line buffer, what the client
  will send, and what was sent to it. The handlers that export PHP values are a parameter. The loop and
  \<open>detach\<close>, which ends the session inside a command, call each other; each call takes one fuel, and running out of
  it is a result of its own, not that of a fault.
\<close>

section \<open>Connection\<close>

record conn =
  c_buffer :: fd_buf
  c_input :: chunks
  c_sent :: "string list"

record io =
  io_junk :: char
  io_lib :: php_lib
  io_file_source :: "string \<Rightarrow> int \<Rightarrow> int \<Rightarrow> string option"
  io_handler :: "string \<Rightarrow> handler"

definition send_message :: "io \<Rightarrow> xml_node \<Rightarrow> conn \<Rightarrow> conn option" where
  "send_message k message c =
     do { m \<leftarrow> make_message (io_junk k) (io_lib k) message; Some (c\<lparr>c_sent := c_sent c @ [content m]\<rparr>) }"

section \<open>Commands\<close>

text \<open>The handlers by name, \<open>detach\<close> excepted.\<close>

definition handler_of :: "io \<Rightarrow> dbg_env \<Rightarrow> string \<Rightarrow> handler" where
  "handler_of k env name =
     (if name = ''breakpoint_get'' then handle_breakpoint_get env
      else if name = ''breakpoint_list'' then handle_breakpoint_list env
      else if name = ''breakpoint_remove'' then handle_breakpoint_remove env
      else if name = ''breakpoint_set'' then handle_breakpoint_set env
      else if name = ''breakpoint_update'' then handle_breakpoint_update env
      else if name = ''context_names'' then handle_context_names
      else if name = ''feature_get'' then handle_feature_get env
      else if name = ''feature_set'' then handle_feature_set
      else if name = ''typemap_get'' then handle_typemap_get
      else if name = ''source'' then handle_source (io_junk k) (io_file_source k) env
      else if name = ''stack_depth'' then handle_stack_depth env
      else if name = ''status'' then handle_status
      else if name = ''stderr'' then handle_stderr
      else if name = ''stdout'' then handle_stdout
      else if name = ''run'' then handle_run
      else if name = ''step_into'' then handle_step_into env
      else if name = ''step_out'' then handle_step_out env
      else if name = ''step_over'' then handle_step_over env
      else if name = ''stop'' then handle_stop
      else io_handler k name)"

text \<open>What \<open>parse_option\<close> does before the handler: the reply so far, and the error code or the command.\<close>

definition parse_request ::
  "io \<Rightarrow> string \<Rightarrow> xml_node \<Rightarrow> (xml_node \<times> (int + string \<times> dbgp_arg)) option" where
  "parse_request k line retval =
     do {
       (res, cmd, args) \<leftarrow> parse_cmd (io_junk k) line;
       let retval = (case cmd of None \<Rightarrow> retval | Some s \<Rightarrow> xml_add_attribute_ex ''command'' s retval);
           (res, retval) =
             (if \<not> option_set args (CHR ''i'') then (XDEBUG_ERROR_INVALID_ARGS, retval)
              else (res, xml_add_attribute_ex ''transaction_id'' (option_char args (CHR ''i'')) retval))
       in if res \<noteq> XDEBUG_ERROR_OK then Some (retval, Inl res)
          else do { s \<leftarrow> cmd; Some (retval, Inr (s, args)) }
     }"

definition unavailable :: "dbg \<Rightarrow> bool \<Rightarrow> bool" where
  "unavailable d post_mortem \<longleftrightarrow> status d = DBGP_STATUS_STOPPING \<and> \<not> post_mortem"

text \<open>The session when a command starts.\<close>

definition start_command :: "string \<times> int \<times> bool \<Rightarrow> dbgp_arg \<Rightarrow> dbg \<Rightarrow> dbg" where
  "start_command entry args d =
     (let d = (if fst (snd entry) \<noteq> 0 then d\<lparr>status := DBGP_STATUS_RUNNING, reason := DBGP_REASON_OK\<rparr> else d)
      in d\<lparr>lastcmd := Some (fst entry), lasttransid := Some (option_char args (CHR ''i''))\<rparr>)"

text \<open>The response to an event or a command names the last command when there is one.\<close>

definition last_command :: "dbg \<Rightarrow> xml_node \<Rightarrow> xml_node" where
  "last_command d x =
     (case (lastcmd d, lasttransid d) of
        (Some cmd, Some i) \<Rightarrow> xml_add_attribute_ex ''transaction_id'' i (xml_add_attribute_ex ''command'' cmd x)
      | _ \<Rightarrow> x)"

definition response :: xml_node where
  "response = ns_attributes (xml_node_init ''response'')"

text \<open>Destroying the tables of a session frees the breakpoints and drops the evaluated code.\<close>

definition destroy_session :: "dbg \<Rightarrow> dbg option" where
  "destroy_session d =
     do {
       es \<leftarrow> drop_evals (evals d) (drop (length (hdestroyed (eval_id_lookup d))) (hash_destroy (eval_id_lookup d)));
       Some (free_brks
         (drop (length (hdestroyed (function_breakpoints d))) (hash_destroy (function_breakpoints d)) @
          drop (length (hdestroyed (exception_breakpoints d))) (hash_destroy (exception_breakpoints d)) @
          line_breakpoints d) (d\<lparr>evals := es\<rparr>))
     }"

text \<open>How the loop ends: returning a value, or leaving the script by \<open>_zend_bailout\<close>.\<close>

datatype loop_end = Returned int | Bailout

datatype 'a outcome = Out_of_fuel | Fault | Ends 'a

function (sequential) cmdloop :: "io \<Rightarrow> dbg_env \<Rightarrow> nat \<Rightarrow> bool \<Rightarrow> conn \<Rightarrow> dbg \<Rightarrow> (loop_end \<times> conn \<times> dbg) outcome"
  and parse_option :: "io \<Rightarrow> dbg_env \<Rightarrow> nat \<Rightarrow> string \<Rightarrow> conn \<Rightarrow> dbg \<Rightarrow> (int \<times> xml_node \<times> conn \<times> dbg) outcome"
  and dbgp_deinit :: "io \<Rightarrow> dbg_env \<Rightarrow> nat \<Rightarrow> conn \<Rightarrow> dbg \<Rightarrow> (conn \<times> dbg) outcome" where
  "cmdloop k env 0 bail c d = Out_of_fuel"
| "cmdloop k env (Suc n) bail c d =
     (case fd_read_line_delim nul (c_buffer c) (c_input c) of
        (None, b, input) \<Rightarrow> Ends (Returned 0, c\<lparr>c_buffer := b, c_input := input\<rparr>, d)
      | (Some line, b, input) \<Rightarrow>
          (case parse_option k env n line (c\<lparr>c_buffer := b, c_input := input\<rparr>) d of
             Out_of_fuel \<Rightarrow> Out_of_fuel
           | Fault \<Rightarrow> Fault
           | Ends (ret, retval, c, d) \<Rightarrow>
               (case (if ret \<noteq> 1 then send_message k retval c else Some c) of
                  None \<Rightarrow> Fault
                | Some c \<Rightarrow>
                    if ret = 0 then cmdloop k env n bail c d
                    else if bail \<and> status d = DBGP_STATUS_STOPPED then Ends (Bailout, c, d)
                    else Ends (Returned ret, c, d))))"
| "parse_option k env n line c d =
     (case parse_request k line response of
        None \<Rightarrow> Fault
      | Some (retval, Inl res) \<Rightarrow> Ends (0, xml_add_child retval (error_node res), c, d)
      | Some (retval, Inr (cmd, args)) \<Rightarrow>
          (case lookup_cmd cmd of
             None \<Rightarrow> Ends (- 1, xml_add_child retval (error_node XDEBUG_ERROR_UNIMPLEMENTED), c, d)
           | Some entry \<Rightarrow>
               (let d = start_command entry args d
                in if unavailable d (snd (snd entry))
                   then Ends (- 1, xml_add_child retval (error_node XDEBUG_ERROR_COMMAND_UNAVAILABLE), c, d)
                   else if fst entry = ''detach''
                   then
                     (case string_at xdebug_dbgp_reason_strings (reason d) of
                        None \<Rightarrow> Fault
                      | Some re \<Rightarrow>
                          (case n of
                             0 \<Rightarrow> Out_of_fuel
                           | Suc m \<Rightarrow>
                               (case dbgp_deinit k env m c (d\<lparr>status := DBGP_STATUS_DETACHED\<rparr>) of
                                  Out_of_fuel \<Rightarrow> Out_of_fuel
                                | Fault \<Rightarrow> Fault
                                | Ends (c, d) \<Rightarrow>
                                    Ends (fst (snd entry),
                                      xml_add_attribute_ex ''reason'' re
                                        (xml_add_attribute_ex ''status'' ''stopped'' retval),
                                      c, d\<lparr>remote_enabled := False, stdout_mode := 0\<rparr>))))
                   else
                     (case handler_of k env (fst entry) args d retval of
                        None \<Rightarrow> Fault
                      | Some (d, retval) \<Rightarrow> Ends (fst (snd entry), retval, c, d)))))"
| "dbgp_deinit k env n c d =
     (if remote_enabled d
      then
        (let d = d\<lparr>status := DBGP_STATUS_STOPPING, reason := DBGP_REASON_OK\<rparr>
         in case Option.bind (status_attributes d (last_command d response)) (\<lambda>x. send_message k x c) of
              None \<Rightarrow> Fault
            | Some c \<Rightarrow>
                (case cmdloop k env n False c d of
                   Out_of_fuel \<Rightarrow> Out_of_fuel
                 | Fault \<Rightarrow> Fault
                 | Ends (_, c, d) \<Rightarrow>
                     (case (if remote_enabled d then destroy_session d else Some d) of
                        None \<Rightarrow> Fault
                      | Some d \<Rightarrow> Ends (c, d\<lparr>remote_enabled := False\<rparr>))))
      else Ends (c, d\<lparr>remote_enabled := False\<rparr>))"
  by pat_completeness auto
termination
  by (relation "measures
       [\<lambda>x. case x of Inl (_, _, n, _) \<Rightarrow> n | Inr (Inl (_, _, n, _)) \<Rightarrow> n | Inr (Inr (_, _, n, _)) \<Rightarrow> n,
        \<lambda>x. case x of Inl _ \<Rightarrow> 0 | Inr (Inl _) \<Rightarrow> 1 | Inr (Inr _) \<Rightarrow> 1]") auto

text \<open>The bytes the client still sends, those in the buffer included. Every command takes one of them at least, and two
  calls at most, so that the loop of an event, run with this fuel, never uses it up; \<open>None\<close> is a fault then.\<close>

definition bytes :: "conn \<Rightarrow> nat" where
  "bytes c = length (pending (c_buffer c)) + length (concat (c_input c))"

definition command_loop :: "io \<Rightarrow> dbg_env \<Rightarrow> conn \<Rightarrow> dbg \<Rightarrow> (loop_end \<times> conn \<times> dbg) option" where
  "command_loop k env c d = (case cmdloop k env (2 * bytes c + 1) True c d of Ends r \<Rightarrow> Some r | _ \<Rightarrow> None)"

section \<open>Events\<close>

text \<open>The beginning of a session. \<open>jit\<close> is set when it is started by an error in the script.\<close>

record start_env =
  start_jit :: bool
  start_cookie :: "string option"
  start_ide_key :: "string option"

definition text_node :: "string \<Rightarrow> string \<Rightarrow> xml_node" where
  "text_node tag t = xml_add_text t (xml_node_init tag)"

definition init_packet :: "dbg_env \<Rightarrow> start_env \<Rightarrow> dbg \<Rightarrow> xml_node option" where
  "init_packet env se d =
     (let r = ns_attributes (xml_node_init ''init'');
          r = xml_add_child r (xml_add_text ''Xdebug'' (xml_add_attribute_ex ''version'' ''2.6.1-dev'' (xml_node_init ''engine'')));
          r = xml_add_child r (text_node ''author'' ''Derick Rethans'');
          r = xml_add_child r (text_node ''url'' ''http://xdebug.org'');
          r = xml_add_child r (text_node ''copyright'' ''Copyright (c) 2002-2018 by Derick Rethans'')
      in do {
        uri \<leftarrow> (if program_name d = ''-'' \<or> program_name d = ''Command line code'' then Some ''dbgp://stdin''
                else path_to_url (env_getcwd env) (env_virtual_file env) (program_name d));
        let r = xml_add_attribute_ex ''fileuri'' uri r;
            r = xml_add_attribute_ex ''language'' ''PHP'' r;
            r = xml_add_attribute_ex ''xdebug:language_version'' (env_php_version env) r;
            r = xml_add_attribute_ex ''protocol_version'' ''1.0'' r;
            r = xml_add_attribute_ex ''appid'' (dec_int (env_getpid env)) r;
            r = add_opt_attr ''session'' (start_cookie se) r
        in Some (case start_ide_key se of
                   None \<Rightarrow> r
                 | Some ik \<Rightarrow> if ik = [] then r else xml_add_attribute_ex ''idekey'' ik r)
      })"

definition dbgp_init :: "io \<Rightarrow> dbg_env \<Rightarrow> start_env \<Rightarrow> conn \<Rightarrow> dbg \<Rightarrow> (loop_end \<times> conn \<times> dbg) option" where
  "dbgp_init k env se c d =
     (let d = (if start_jit se then d\<lparr>status := DBGP_STATUS_BREAK, reason := DBGP_REASON_ERROR\<rparr>
               else d\<lparr>status := DBGP_STATUS_STARTING, reason := DBGP_REASON_OK\<rparr>);
          d = d\<lparr>lastcmd := None, lasttransid := None\<rparr>
      in do {
        r \<leftarrow> init_packet env se d;
        c \<leftarrow> send_message k r (c\<lparr>c_buffer := \<lparr>buffer = None, buffer_size = 0\<rparr>\<rparr>);
        command_loop k env c (session_init d)
      })"

text \<open>The message container shared by breaks and notifications.\<close>

definition message_node :: "dbg_env \<Rightarrow> dbg \<Rightarrow> string option \<Rightarrow> int \<Rightarrow> xml_node option" where
  "message_node env d fname ln =
     do {
       x \<leftarrow> (case fname of
               None \<Rightarrow> Some (xml_node_init ''xdebug:message'')
             | Some f \<Rightarrow>
                 do {
                   (evaled, shown) \<leftarrow> check_evaled_code f d;
                   u \<leftarrow> (if evaled then Some shown else path_to_url (env_getcwd env) (env_virtual_file env) f);
                   Some (xml_add_attribute_ex ''filename'' u (xml_node_init ''xdebug:message''))
                 });
       Some (if ln \<noteq> 0 then xml_add_attribute_ex ''lineno'' (lu ln) x else x)
     }"

definition break_packet :: "dbg_env \<Rightarrow> brk_event \<Rightarrow> dbg \<Rightarrow> xml_node option" where
  "break_packet env ev d =
     do {
       r \<leftarrow> status_attributes d (last_command d response);
       x \<leftarrow> message_node env d (ev_file ev) (ev_lineno ev);
       let x = add_opt_attr ''exception'' (ev_exception ev) x;
           x = add_opt_attr ''code'' (ev_code ev) x;
           x = (case ev_message ev of None \<Rightarrow> x | Some m \<Rightarrow> xml_add_text m x)
       in Some (xml_add_child r x)
     }"

definition dbgp_breakpoint ::
  "io \<Rightarrow> dbg_env \<Rightarrow> brk_event \<Rightarrow> conn \<Rightarrow> dbg \<Rightarrow> (loop_end \<times> conn \<times> dbg) option" where
  "dbgp_breakpoint k env ev c d =
     (let d = d\<lparr>status := DBGP_STATUS_BREAK, reason := DBGP_REASON_OK\<rparr>
      in do {
        r \<leftarrow> break_packet env ev d;
        c \<leftarrow> send_message k r c;
        command_loop k env c (d\<lparr>lastcmd := None, lasttransid := None\<rparr>)
      })"

text \<open>The types of errors that end the script.\<close>

definition fatal_error :: "int \<Rightarrow> bool" where
  "fatal_error ty \<longleftrightarrow> ty \<in> {1, 16, 64, 256}"

definition dbgp_error ::
  "io \<Rightarrow> dbg_env \<Rightarrow> int \<Rightarrow> string option \<Rightarrow> string \<Rightarrow> string \<Rightarrow> conn \<Rightarrow> dbg \<Rightarrow> (loop_end \<times> conn \<times> dbg) option" where
  "dbgp_error k env ty exception_type error_type message c d =
     (let d = (if exception_type \<noteq> None then d\<lparr>status := DBGP_STATUS_BREAK, reason := DBGP_REASON_EXCEPTION\<rparr>
               else if fatal_error ty then d\<lparr>status := DBGP_STATUS_STOPPING, reason := DBGP_REASON_ABORTED\<rparr>
               else d\<lparr>status := DBGP_STATUS_BREAK, reason := DBGP_REASON_ERROR\<rparr>)
      in do {
        r \<leftarrow> status_attributes d (last_command d response);
        let name = (case exception_type of None \<Rightarrow> error_type | Some e \<Rightarrow> e);
            x = xml_add_text message (xml_add_attribute_ex ''exception'' name
              (xml_add_attribute_ex ''code'' (lu ty) (xml_node_init ''error'')))
        in do {
          c \<leftarrow> send_message k (xml_add_child r x) c;
          command_loop k env c d
        }
      })"

text \<open>The handler as the hooks of \<open>Stepping\<close> use it, with the stack of the event; a script that was left by a
  bailout does not come back.\<close>

definition dbgp_remote :: "io \<Rightarrow> dbg_env \<Rightarrow> conn remote" where
  "dbgp_remote k env ev c d =
     (case dbgp_breakpoint k (env\<lparr>env_stack := ev_stack ev\<rparr>) ev c d of
        Some (Returned _, c, d) \<Rightarrow> Some (True, c, d)
      | _ \<Rightarrow> None)"

end
