(* ===== verification/DbgpFacts.thy ===== *)
theory DbgpFacts
  imports DbgpSession BreakpointFacts
begin

text \<open>
  The command loop returns: every turn consumes a line, so that more fuel than twice the bytes to come never
  matters. Every command is answered once, under its own name and transaction, and an unknown command ends the
  loop.
\<close>

section \<open>Fuel\<close>

lemma fill_buffer_bytes:
  "fill_buffer delim input buf = (r, buf', rest) \<Longrightarrow>
   length buf' + length (concat rest) \<le> length buf + length (concat input) \<and>
   (\<forall>x. r = Some x \<longrightarrow> x = buf' \<and> buf' \<noteq> [] \<and> last buf' = delim)"
proof (induction input arbitrary: buf)
  case Nil
  then show ?case by (auto simp: fill_buffer.simps split: if_splits)
next
  case (Cons c cs)
  show ?case
  proof (cases "(buf \<noteq> [] \<and> last buf = delim) \<or> c = []")
    case True
    then show ?thesis using Cons.prems by (auto simp: fill_buffer.simps [of delim "c # cs"] split: if_splits)
  next
    case False
    then have "fill_buffer delim cs (buf @ c) = (r, buf', rest)"
      using Cons.prems by (auto simp: fill_buffer.simps [of delim "c # cs"])
    from Cons.IH [OF this] show ?thesis by auto
  qed
qed

lemma read_bytes:
  assumes "fd_read_line_delim delim ctx input = (r, b, rest)"
  shows "length (pending b) + length (concat rest) + (if r = None then 0 else 1) \<le>
    length (pending ctx) + length (concat input)"
proof -
  obtain q buf' rest' where f: "fill_buffer delim input (pending ctx) = (q, buf', rest')"
    by (cases "fill_buffer delim input (pending ctx)") auto
  note n = fill_buffer_bytes [OF f]
  show ?thesis
  proof (cases q)
    case None
    then show ?thesis using assms f n
      by (auto simp: fd_read_line_delim_def pending_def [symmetric]) (auto simp: pending_def)
  next
    case (Some x)
    then have x: "x = buf'" "buf' \<noteq> []" "last buf' = delim" using n by auto
    then have "delim \<in> set buf'" by (metis last_in_set)
    then obtain l m where "buf' = l @ delim # m" "delim \<notin> set l" using split_list_first by metis
    then have t: "length (takeWhile (\<lambda>c. c \<noteq> delim) buf') < length buf'"
      by (auto simp: takeWhile_append)
    have "rest = rest'" "r \<noteq> None" "length (pending b) + 1 \<le> length buf'"
      using assms f Some x(1) t
      by (auto simp: fd_read_line_delim_def pending_def [of ctx, symmetric] Let_def) (auto simp: pending_def)
    then show ?thesis using n by auto
  qed
qed

lemma send_bytes [simp]: "send_message k x c = Some c' \<Longrightarrow> bytes c' = bytes c"
  by (cases "make_message (io_junk k) (io_lib k) x") (auto simp: send_message_def bytes_def)

lemma read_command_bytes:
  "fd_read_line_delim nul (c_buffer c) (c_input c) = (Some line, b, input) \<Longrightarrow>
   bytes (c\<lparr>c_buffer := b, c_input := input\<rparr>) < bytes c"
  "fd_read_line_delim nul (c_buffer c) (c_input c) = (None, b, input) \<Longrightarrow>
   bytes (c\<lparr>c_buffer := b, c_input := input\<rparr>) \<le> bytes c"
  using read_bytes [of nul "c_buffer c" "c_input c"] by (fastforce simp: bytes_def)+

declare cmdloop.simps [simp del] parse_option.simps [simp del] dbgp_deinit.simps [simp del]

lemma session_bytes:
  "cmdloop k env n bail c d = Ends (e, c', d') \<Longrightarrow> bytes c' \<le> bytes c"
  "parse_option k env n line c d = Ends (ret, x, c', d') \<Longrightarrow> bytes c' \<le> bytes c"
  "dbgp_deinit k env n c d = Ends (c', d') \<Longrightarrow> bytes c' \<le> bytes c"
proof (induction k env n bail c d and k env n line c d and k env n c d
    arbitrary: e c' d' and ret x c' d' and c' d' rule: cmdloop_parse_option_dbgp_deinit.induct)
  case (1 k env bail c d)
  then show ?case by (simp add: cmdloop.simps)
next
  case (2 k env n bail c d)
  obtain r b input where f: "fd_read_line_delim nul (c_buffer c) (c_input c) = (r, b, input)"
    by (cases "fd_read_line_delim nul (c_buffer c) (c_input c)") auto
  show ?case
  proof (cases r)
    case None
    then show ?thesis using 2 f read_command_bytes(2) by (auto simp: cmdloop.simps)
  next
    case (Some line)
    let ?c = "c\<lparr>c_buffer := b, c_input := input\<rparr>"
    have l: "bytes ?c < bytes c" using read_command_bytes(1) f Some by auto
    obtain ret x c1 d1 where p: "parse_option k env n line ?c d = Ends (ret, x, c1, d1)"
      using 2(3) f Some by (auto simp: cmdloop.simps split: option.splits outcome.splits)
    have p': "bytes c1 \<le> bytes ?c" using 2(1) f Some p by auto
    obtain c2 where s: "(if ret \<noteq> 1 then send_message k x c1 else Some c1) = Some c2"
      using 2(3) f Some p by (auto simp: cmdloop.simps split: option.splits outcome.splits)
    have s': "bytes c2 = bytes c1" using s by (auto split: if_splits)
    show ?thesis
    proof (cases "ret = 0")
      case True
      then have "cmdloop k env n bail c2 d1 = Ends (e, c', d')" using 2(3) f Some p s by (simp add: cmdloop.simps)
      then have "bytes c' \<le> bytes c2" using 2(2) f Some p s True by auto
      then show ?thesis using l p' s' by simp
    next
      case False
      then have "c' = c2" using 2(3) f Some p s by (auto simp: cmdloop.simps split: if_splits)
      then show ?thesis using l p' s' by simp
    qed
  qed
next
  case (3 k env n line c d)
  show ?case
  proof (cases "\<exists>c1 d1 m d2. n = Suc m \<and> dbgp_deinit k env m c d1 = Ends (c1, d2) \<and> c' = c1")
    case True
    then show ?thesis using 3 by (auto simp: parse_option.simps Let_def split: option.splits outcome.splits sum.splits prod.splits if_splits nat.splits)
  next
    case False
    then have "c' = c" using 3(2)
      by (auto simp: parse_option.simps Let_def split: option.splits outcome.splits sum.splits prod.splits if_splits nat.splits)
    then show ?thesis by simp
  qed
next
  case (4 k env n c d)
  then show ?case
    by (auto simp: dbgp_deinit.simps Let_def bind_eq_Some_conv split: option.splits outcome.splits prod.splits if_splits) fastforce+
qed

lemma deinit_fuel:
  assumes "\<And>bail c' d'. bytes c' \<le> bytes c \<Longrightarrow> cmdloop k env n bail c' d' = cmdloop k env m bail c' d'"
  shows "dbgp_deinit k env n c d = dbgp_deinit k env m c d"
proof -
  have "cmdloop k env n False c' d' = cmdloop k env m False c' d'" if "send_message k x c = Some c'" for x c' d'
    using assms send_bytes [OF that] by simp
  then show ?thesis
    by (auto simp: dbgp_deinit.simps Let_def bind_eq_Some_conv split: option.split outcome.split)
qed

lemma option_fuel:
  assumes "\<And>bail c' d'. bytes c' \<le> bytes c \<Longrightarrow> cmdloop k env n bail c' d' = cmdloop k env m bail c' d'"
  shows "parse_option k env (Suc n) line c d = parse_option k env (Suc m) line c d"
proof -
  have "dbgp_deinit k env n c d' = dbgp_deinit k env m c d'" for d' by (rule deinit_fuel) (rule assms)
  then show ?thesis by (simp only: parse_option.simps nat.case)
qed

lemma loop_fuel:
  "2 * bytes c < n \<Longrightarrow> 2 * bytes c < m \<Longrightarrow> cmdloop k env n bail c d = cmdloop k env m bail c d"
proof (induction "bytes c" arbitrary: n m bail c d rule: less_induct)
  case less
  obtain n1 m1 where nm: "n = Suc n1" "m = Suc m1" using less.prems by (metis not_less_zero old.nat.exhaust)
  obtain r b input where f: "fd_read_line_delim nul (c_buffer c) (c_input c) = (r, b, input)"
    by (cases "fd_read_line_delim nul (c_buffer c) (c_input c)") auto
  show ?case
  proof (cases r)
    case None
    then show ?thesis by (simp add: nm cmdloop.simps f)
  next
    case (Some line)
    define c1 where "c1 = c\<lparr>c_buffer := b, c_input := input\<rparr>"
    have l: "bytes c1 < bytes c" unfolding c1_def using read_command_bytes(1) f Some by auto
    have "0 < n1" "0 < m1" using l less.prems nm by linarith+
    then obtain n2 m2 where nm2: "n1 = Suc n2" "m1 = Suc m2" by (metis gr0_conv_Suc)
    have pe: "parse_option k env n1 line c1 d = parse_option k env m1 line c1 d"
      unfolding nm2 by (rule option_fuel, rule less.hyps) (use l less.prems nm nm2 in auto)
    show ?thesis
    proof (cases "parse_option k env m1 line c1 d")
      case (Ends p)
      obtain ret x c2 d2 where p: "p = (ret, x, c2, d2)" by (cases p) auto
      have c2: "bytes c2 \<le> bytes c1" using session_bytes(2) Ends p by auto
      have "cmdloop k env n1 bail c3 d2 = cmdloop k env m1 bail c3 d2"
        if "(if ret \<noteq> 1 then send_message k x c2 else Some c2) = Some c3" for c3
      proof (rule less.hyps)
        have "bytes c3 = bytes c2" using that by (auto split: if_splits)
        then show "bytes c3 < bytes c" "2 * bytes c3 < n1" "2 * bytes c3 < m1"
          using c2 l less.prems nm by auto
      qed
      then show ?thesis
        by (auto simp: nm cmdloop.simps f \<open>r = Some line\<close> c1_def [symmetric] pe Ends p split: option.split)
    qed (simp_all add: nm cmdloop.simps f Some c1_def [symmetric] pe)
  qed
qed

text \<open>Every turn reads a byte and takes two calls at most.\<close>

lemma session_fuel:
  "2 * bytes c < n \<Longrightarrow> cmdloop k env n bail c d \<noteq> Out_of_fuel"
  "2 * bytes c + 1 < n \<Longrightarrow> parse_option k env n line c d \<noteq> Out_of_fuel"
  "2 * bytes c < n \<Longrightarrow> dbgp_deinit k env n c d \<noteq> Out_of_fuel"
proof (induction k env n bail c d and k env n line c d and k env n c d rule: cmdloop_parse_option_dbgp_deinit.induct)
  case (2 k env n bail c d)
  obtain r b input where f: "fd_read_line_delim nul (c_buffer c) (c_input c) = (r, b, input)"
    by (cases "fd_read_line_delim nul (c_buffer c) (c_input c)") auto
  show ?case
  proof (cases r)
    case None
    then show ?thesis using f by (simp add: cmdloop.simps)
  next
    case (Some line)
    define c1 where "c1 = c\<lparr>c_buffer := b, c_input := input\<rparr>"
    have l: "bytes c1 < bytes c" unfolding c1_def using read_command_bytes(1) f Some by auto
    then have p: "parse_option k env n line c1 d \<noteq> Out_of_fuel"
      using 2(1) [OF f [symmetric] Some refl] 2(3) unfolding c1_def by simp
    show ?thesis
    proof (cases "parse_option k env n line c1 d")
      case (Ends q)
      obtain ret x c2 d2 where q: "q = (ret, x, c2, d2)" by (cases q) auto
      have "bytes c2 \<le> bytes c1" using session_bytes(2) Ends q by auto
      then have "cmdloop k env n bail c3 d2 \<noteq> Out_of_fuel"
        if "(if ret \<noteq> 1 then send_message k x c2 else Some c2) = Some c3" "ret = 0" for c3
        using 2(2) [OF f [symmetric] Some refl Ends [unfolded c1_def] q [symmetric] refl refl that] that l 2(3) by auto
      then show ?thesis by (auto simp: cmdloop.simps f Some c1_def [symmetric] Ends q split: option.split)
    qed (use p in \<open>simp_all add: cmdloop.simps f Some c1_def [symmetric]\<close>)
  qed
next
  case (3 k env n line c d)
  then show ?case
    by (auto simp: parse_option.simps Let_def split: option.split sum.split prod.split outcome.split nat.split)
next
  case (4 k env n c d)
  then show ?case
    by (auto simp: dbgp_deinit.simps Let_def bind_eq_Some_conv split: option.split outcome.split)
qed simp

section \<open>Replies\<close>

text \<open>A handler only adds to the reply.\<close>

definition appends :: "handler \<Rightarrow> bool" where
  "appends h \<longleftrightarrow> (\<forall>args d x d' y. h args d x = Some (d', y) \<longrightarrow> extends x y)"

lemma extends_fail: "fail_with c d x = Some (d', y) \<Longrightarrow> extends x y"
  by (auto simp: fail_with_def return_result_def bind_eq_Some_conv)

lemma extends_status: "status_attributes d x = Some y \<Longrightarrow> extends x y"
  by (auto simp: status_attributes_def bind_eq_Some_conv)

lemma foldl_extends: "extends x y \<Longrightarrow> extends x (foldl (\<lambda>x e. xml_add_child x (f e)) y es)"
  by (induction es arbitrary: y) auto

lemma simple_appends:
  "appends handle_context_names" "appends (handle_feature_get env)" "appends handle_feature_set"
  "appends handle_typemap_get" "appends (handle_stack_depth env)" "appends handle_status" "appends handle_stderr"
  "appends handle_stdout" "appends handle_run" "appends (handle_step_into env)" "appends (handle_step_out env)"
  "appends (handle_step_over env)" "appends handle_stop"
  unfolding appends_def
  by (auto simp: handle_context_names_def handle_feature_get_def handle_feature_set_def handle_typemap_get_def
      handle_stack_depth_def handle_status_def handle_stderr_def handle_stdout_def handle_run_def handle_step_into_def
      handle_step_out_def handle_step_over_def handle_stop_def Let_def foldl_extends dest: extends_fail extends_status
      split: if_splits option.splits outcome.splits sum.splits prod.splits)

lemma source_appends: "appends (handle_source junk src env)"
  unfolding appends_def
  by (auto simp: handle_source_def Let_def bind_eq_Some_conv dest: extends_fail
      split: if_splits option.splits outcome.splits sum.splits)

lemma action_appends: "appends (breakpoint_do_action env act)"
  unfolding appends_def
  by (cases act) (auto simp: breakpoint_do_action_def Let_def bind_eq_Some_conv case_prod_unfold dest: extends_fail
      split: if_splits option.splits outcome.splits)

lemma breakpoint_appends:
  "appends (handle_breakpoint_get env)" "appends (handle_breakpoint_remove env)" "appends (handle_breakpoint_update env)"
  using action_appends
  by (simp_all add: handle_breakpoint_get_def handle_breakpoint_remove_def handle_breakpoint_update_def)

lemma list_helper_extends:
  "extends x y \<Longrightarrow> breakpoint_list_helper env d (Some y) he = Some z \<Longrightarrow> extends x z"
  by (auto simp: breakpoint_list_helper_def bind_eq_Some_conv)

lemma list_fold_extends:
  "extends x y \<Longrightarrow> foldl (breakpoint_list_helper env d) (Some y) hes = Some z \<Longrightarrow> extends x z"
proof (induction hes arbitrary: y)
  case (Cons he hes)
  have none: "foldl (breakpoint_list_helper env d) None hs = None" for hs
    by (induction hs) (simp_all add: breakpoint_list_helper_def)
  show ?case
  proof (cases "breakpoint_list_helper env d (Some y) he")
    case None
    then show ?thesis using Cons.prems(2) none by simp
  next
    case (Some y')
    then show ?thesis using Cons.IH [OF list_helper_extends [OF Cons.prems(1) Some]] Cons.prems(2) by simp
  qed
qed simp

lemma foldl_foldl: "foldl (foldl f) s ls = foldl f s (concat ls)"
  by (induction ls arbitrary: s) simp_all

lemma list_appends: "appends (handle_breakpoint_list env)"
  unfolding appends_def
proof (intro allI impI)
  fix args d x d' y
  assume "handle_breakpoint_list env args d x = Some (d', y)"
  then show "extends x y"
    using list_fold_extends [OF extends_intros(1)]
    by (simp only: handle_breakpoint_list_def hash_apply_def foldl_foldl eta_contract_eq) auto
qed

lemma reply_set_extends: "Option.bind s (reply_set x) = Some (d', y) \<Longrightarrow> extends x y"
  by (cases s) (auto simp: reply_set_def split: sum.splits prod.splits dest: extends_fail)

text \<open>The options may add the attribute \<open>state\<close>, what follows works on their reply.\<close>

lemma set_options_extends: "set_options args b x = (good, b', y) \<Longrightarrow> extends x y"
  by (auto simp: set_options_def split: option.splits if_splits prod.splits)

lemma set_appends: "appends (handle_breakpoint_set env)"
  unfolding appends_def
proof (intro allI impI)
  fix args d x d' y
  assume h: "handle_breakpoint_set env args d x = Some (d', y)"
  obtain good b z where o: "set_options args (new_brk_info\<lparr>bi_type := Some (option_char args (CHR ''t''))\<rparr>) x = (good, b, z)"
    by (cases "set_options args (new_brk_info\<lparr>bi_type := Some (option_char args (CHR ''t''))\<rparr>) x")
  have z: "extends x z" using o by (rule set_options_extends)
  show "extends x y"
    using h set_options_extends [OF o] unfolding handle_breakpoint_set_def Let_def alloc_brk_def prod.case o
    by (auto dest: extends_fail reply_set_extends intro: extends_trans [OF z] split: if_split_asm)
qed

lemma handler_appends:
  assumes "\<And>name. appends (io_handler k name)"
  shows "appends (handler_of k env name)"
  using assms simple_appends source_appends breakpoint_appends set_appends list_appends
  by (simp add: handler_of_def)

section \<open>Requests\<close>

text \<open>What a client writes: a name, options and data. Here with distinct options, one of them the transaction.\<close>

type_synonym request = "string \<times> (char \<times> opt_value) list \<times> string option"

definition request_text :: "request \<Rightarrow> string" where
  "request_text r = command_text (fst r) (fst (snd r)) (snd (snd r))"

definition transaction :: "request \<Rightarrow> string" where
  "transaction r = (case map_of (fst (snd r)) (CHR ''i'') of None \<Rightarrow> [] | Some v \<Rightarrow> the_value v)"

definition request_ok :: "request \<Rightarrow> bool" where
  "request_ok r \<longleftrightarrow>
     (case r of (cmd, opts, data) \<Rightarrow>
        cmd \<noteq> [] \<and> CHR '' '' \<notin> set cmd \<and> nul \<notin> set cmd \<and> distinct (map fst opts) \<and>
        CHR ''i'' \<in> fst ` set opts \<and> (\<forall>(c, v)\<in>set opts. letter c \<and> value_ok v) \<and>
        (case data of None \<Rightarrow> True | Some d \<Rightarrow> d \<noteq> [] \<and> nul \<notin> set d))"

definition request_head :: "request \<Rightarrow> xml_node" where
  "request_head r =
     xml_add_attribute_ex ''transaction_id'' (transaction r) (xml_add_attribute_ex ''command'' (fst r) response)"

text \<open>A message answers a request when it holds a tree that starts with the command and the transaction.\<close>

definition answers :: "io \<Rightarrow> request \<Rightarrow> string \<Rightarrow> bool" where
  "answers k r m \<longleftrightarrow>
     (\<exists>y s. extends (request_head r) y \<and> make_message (io_junk k) (io_lib k) y = Some s \<and> m = content s)"

lemma value_text_plain: "value_ok v \<Longrightarrow> nul \<notin> set (value_text v)"
proof (cases v)
  case (Quoted s)
  assume "value_ok v"
  moreover have "nul \<notin> set s \<Longrightarrow> nul \<notin> set (escape s)"
    by (induction s rule: escape.induct) (auto simp: nul_def)
  ultimately show ?thesis using Quoted by (auto simp: nul_def)
qed simp

lemma request_plain:
  assumes "request_ok r"
  shows "nul \<notin> set (request_text r)"
proof -
  obtain cmd opts data where r: "r = (cmd, opts, data)" by (cases r)
  have "nul \<notin> set (opt_text (c, v))" if "(c, v) \<in> set opts" for c v
  proof -
    have "letter c" "value_ok v" using assms that by (auto simp: request_ok_def r)
    moreover from this(1) have "c \<noteq> nul" by (auto simp: letter_def nul_def uchar_def)
    ultimately show ?thesis using value_text_plain by (auto simp: opt_text_def nul_def)
  qed
  moreover have "nul \<notin> set (data_text data)"
    using assms by (auto simp: request_ok_def r data_text_def nul_def split: option.split)
  ultimately show ?thesis using assms by (auto simp: request_text_def r command_text_def request_ok_def)
qed

lemma request_parsed:
  assumes "request_ok r"
  shows "\<exists>args. parse_request k (request_text r) response = Some (request_head r, Inr (fst r, args))"
proof -
  obtain cmd opts data where r: "r = (cmd, opts, data)" by (cases r)
  have ok: "cmd \<noteq> []" "CHR '' '' \<notin> set cmd" "\<forall>(c, v)\<in>set opts. letter c \<and> value_ok v"
    "\<forall>d. data = Some d \<longrightarrow> d \<noteq> [] \<and> nul \<notin> set d" "distinct (map fst opts)" "CHR ''i'' \<in> fst ` set opts"
    using assms by (auto simp: request_ok_def r split: option.splits)
  obtain args where a: "parse_cmd (io_junk k) (request_text r) = Some (XDEBUG_ERROR_OK, Some cmd, args)"
    "\<And>c v. map_of opts c = Some v \<Longrightarrow> option_set args c \<and> option_char args c = the_value v"
    using command_parsed [OF ok(1-4)] ok(5) by (auto simp: request_text_def r)
  obtain v where v: "map_of opts (CHR ''i'') = Some v" "value_ok v"
    using ok(3,6) by (metis (no_types, lifting) case_prodD map_of_SomeD map_of_eq_None_iff not_Some_eq)
  have "option_set args (CHR ''i'')" "option_char args (CHR ''i'') = the_value v" using a(2) v(1) by auto
  then show ?thesis
    by (simp add: parse_request_def a(1) [unfolded r] request_head_def transaction_def r v(1))
qed

lemma lookup_cmd_entry:
  assumes "lookup_cmd cmd = Some entry"
  shows "fst entry = cmd \<and> fst (snd entry) \<in> {0, 1, 2}"
proof -
  have "entry \<in> set dbgp_commands" "fst entry = cmd"
    using assms by (auto simp: lookup_cmd_def find_Some_iff)
  moreover have "\<forall>e\<in>set dbgp_commands. fst (snd e) \<in> {0, 1, 2}"
    by (simp add: dbgp_commands_def)
  ultimately show ?thesis by blast
qed

lemma option_answer:
  assumes "\<And>name. appends (io_handler k name)" and "request_ok r" and "fst r \<noteq> ''detach''"
    and "parse_option k env n (request_text r) c d = Ends (ret, x, c', d')"
  shows "c' = c \<and> extends (request_head r) x \<and> ret \<in> {- 1, 0, 1, 2}"
proof -
  obtain args where p: "parse_request k (request_text r) response = Some (request_head r, Inr (fst r, args))"
    using request_parsed [OF assms(2)] by blast
  show ?thesis
  proof (cases "lookup_cmd (fst r)")
    case None
    then show ?thesis using assms(4) p by (auto simp: parse_option.simps)
  next
    case (Some entry)
    note e = lookup_cmd_entry [OF Some]
    have "extends (request_head r) y" if "handler_of k env name a d1 (request_head r) = Some (d2, y)" for name a d1 d2 y
      using handler_appends [OF assms(1)] that unfolding appends_def by blast
    then show ?thesis
      using assms(3,4) p Some e by (auto simp: parse_option.simps Let_def split: if_splits option.splits outcome.splits)
  qed
qed

lemma sent_answers:
  assumes "send_message k x c = Some c'" and "extends (request_head r) x"
  shows "\<exists>m. answers k r m \<and> c' = c\<lparr>c_sent := c_sent c @ [m]\<rparr>"
  using assms by (auto simp: send_message_def answers_def bind_eq_Some_conv)

definition sends :: "request list \<Rightarrow> string" where
  "sends rs = concat (map (\<lambda>r. request_text r @ [nul]) rs)"

text \<open>The bytes to come, and that the socket delivers no empty chunk, which would be its end.\<close>

definition to_come :: "conn \<Rightarrow> string" where
  "to_come c = pending (c_buffer c) @ concat (c_input c)"

definition connected :: "conn \<Rightarrow> bool" where
  "connected c \<longleftrightarrow> (\<forall>x\<in>set (c_input c). x \<noteq> [])"

lemma request_read:
  assumes "connected c" and "request_ok r" and "to_come c = sends (r # rs)"
  shows "\<exists>b input. fd_read_line_delim nul (c_buffer c) (c_input c) = (Some (request_text r), b, input) \<and>
    to_come (c\<lparr>c_buffer := b, c_input := input\<rparr>) = sends rs \<and> connected (c\<lparr>c_buffer := b, c_input := input\<rparr>)"
proof -
  have "last (nul # sends rs) = nul"
    by (cases rs rule: rev_cases) (simp_all add: sends_def)
  then show ?thesis
    using fd_read_line_ok [of "c_input c" "c_buffer c" "request_text r" nul "sends rs"] assms request_plain [OF assms(2)]
    by (fastforce simp: connected_def to_come_def sends_def)
qed

lemma send_frame: "send_message k x c = Some c' \<Longrightarrow> to_come c' = to_come c \<and> connected c' = connected c"
  by (auto simp: send_message_def to_come_def connected_def bind_eq_Some_conv)

text \<open>One turn of the loop on a request.\<close>

lemma loop_turn:
  assumes "\<And>name. appends (io_handler k name)" and "request_ok r" and "fst r \<noteq> ''detach''"
    and "connected c" and "to_come c = sends (r # rs)" and "cmdloop k env (Suc n) bail c d = Ends (e, c', d')"
  obtains (more) m c1 d1 where "answers k r m" and "connected c1" and "to_come c1 = sends rs"
      and "c_sent c1 = c_sent c @ [m]" and "cmdloop k env n bail c1 d1 = Ends (e, c', d')"
    | (stop) m ret where "answers k r m" and "to_come c' = sends rs" and "c_sent c' = c_sent c @ [m]"
      and "e = Bailout \<or> e = Returned ret \<and> ret \<noteq> 0"
    | (run) "to_come c' = sends rs" and "c_sent c' = c_sent c" and "e = Bailout \<or> e = Returned 1"
proof -
  obtain b input where rd: "fd_read_line_delim nul (c_buffer c) (c_input c) = (Some (request_text r), b, input)"
    "to_come (c\<lparr>c_buffer := b, c_input := input\<rparr>) = sends rs" "connected (c\<lparr>c_buffer := b, c_input := input\<rparr>)"
    using request_read [OF assms(4,2,5)] by blast
  define c0 where "c0 = c\<lparr>c_buffer := b, c_input := input\<rparr>"
  have c0: "to_come c0 = sends rs" "connected c0" "c_sent c0 = c_sent c" using rd by (simp_all add: c0_def)
  obtain ret x ce d1 where p: "parse_option k env n (request_text r) c0 d = Ends (ret, x, ce, d1)"
    using assms(6) rd(1) by (auto simp: cmdloop.simps c0_def [symmetric] split: option.splits outcome.splits)
  have o: "ce = c0" "extends (request_head r) x" using option_answer [OF assms(1-3) p] by auto
  note run' = assms(6) [unfolded cmdloop.simps rd(1) prod.case option.case c0_def [symmetric] p o(1) outcome.case]
  show thesis
  proof (cases "ret = 1")
    case True
    then have "e = Bailout \<or> e = Returned 1" "c' = c0" using run' by (auto split: if_splits)
    then show thesis using run c0 by simp
  next
    case False
    then obtain c1 where s: "send_message k x c0 = Some c1" using run' by (auto split: option.splits)
    then obtain m where m: "answers k r m" "c_sent c1 = c_sent c @ [m]"
      using sent_answers [OF s o(2)] c0(3) by auto
    have c1: "to_come c1 = sends rs" "connected c1" using send_frame [OF s] c0 by auto
    show thesis
    proof (cases "ret = 0")
      case True
      then show thesis using more [OF m(1) c1(2,1) m(2)] run' s by simp
    next
      case ne: False
      then have "e = Bailout \<or> e = Returned ret" "c' = c1" using run' s False by (auto split: if_splits)
      then show thesis using stop [OF m(1), of ret] c1 m(2) ne by simp
    qed
  qed
qed

section \<open>Examples\<close>

definition sample_io :: io where
  "sample_io = \<lparr>io_junk = nul, io_lib = sample_lib, io_file_source = (\<lambda>f b e. None),
     io_handler = (\<lambda>name args d x. Some (d, x))\<rparr>"

definition sample_requests :: "request list" where
  "sample_requests = [(''status'', [(CHR ''i'', Plain ''1'')], None), (''run'', [(CHR ''i'', Plain ''2'')], None)]"

definition sample_conn :: "string \<Rightarrow> conn" where
  "sample_conn t = \<lparr>c_buffer = \<lparr>buffer = None, buffer_size = 0\<rparr>, c_input = [take 3 t, drop 3 t], c_sent = []\<rparr>"

lemma sample_ok: "\<forall>r\<in>set sample_requests. request_ok r \<and> fst r \<noteq> ''detach''"
  by code_simp

lemma sample_conn_ok: "3 < length t \<Longrightarrow> connected (sample_conn t) \<and> to_come (sample_conn t) = t"
  by (auto simp: connected_def to_come_def sample_conn_def pending_def)

definition status_reply :: xml_node where
  "status_reply = xml_add_attribute_ex ''reason'' ''ok'' (xml_add_attribute_ex ''status'' ''starting'' (request_head (hd sample_requests)))"

lemma sample_message: "\<exists>m. make_message nul sample_lib status_reply = Some m"
proof -
  have ok: "node_ok status_reply"
    unfolding status_reply_def request_head_def response_def ns_attributes_def
    by (intro node_ok_build) (simp add: tag_ok_def)
  define v where "v = node_view sample_lib status_reply"
  have "v = View ''response'' [(''xmlns'', ''urn:debugger_protocol_v1''), (''xmlns:xdebug'', ''http://xdebug.org/dbgp/xdebug''),
      (''command'', ''status''), (''transaction_id'', ''1''), (''status'', ''starting''), (''reason'', ''ok'')] [] None"
    unfolding v_def by code_simp
  then have t: "length (view_text v) < 1000 \<and> nul \<notin> set (view_text v)"
    by (simp only:) code_simp
  then have "length (view_text (node_view sample_lib status_reply)) < 2 ^ 30" "nul \<notin> set (view_text (node_view sample_lib status_reply))"
    by (simp_all add: v_def)
  then show ?thesis using make_message_ok [OF sample_lib_ok ok, of nul] by blast
qed

lemma sample_run:
  "\<exists>c' d'. cmdloop sample_io local_env (Suc (Suc (Suc n))) True (sample_conn (sends sample_requests)) new_session =
    Ends (Returned 1, c', d')"
proof -
  let ?s = "hd sample_requests" and ?r = "hd (tl sample_requests)"
  have rs: "sample_requests = [?s, ?r]" by (simp add: sample_requests_def)
  have ok: "request_ok ?s" "request_ok ?r" using sample_ok by (simp_all add: sample_requests_def)
  have len: "3 < length (sends sample_requests)" by code_simp
  obtain b input where s: "fd_read_line_delim nul (c_buffer (sample_conn (sends sample_requests))) (c_input (sample_conn (sends sample_requests))) =
      (Some (request_text ?s), b, input)"
    "to_come (sample_conn (sends sample_requests)\<lparr>c_buffer := b, c_input := input\<rparr>) = sends [?r]"
    "connected (sample_conn (sends sample_requests)\<lparr>c_buffer := b, c_input := input\<rparr>)"
    using request_read [of "sample_conn (sends sample_requests)" ?s "[?r]"] sample_conn_ok [OF len] ok(1) rs by auto
  define c0 where "c0 = sample_conn (sends sample_requests)\<lparr>c_buffer := b, c_input := input\<rparr>"
  obtain m where m: "make_message nul sample_lib status_reply = Some m" using sample_message by blast
  define c1 where "c1 = c0\<lparr>c_sent := c_sent c0 @ [content m]\<rparr>"
  have send: "send_message sample_io status_reply c0 = Some c1"
    by (simp add: send_message_def sample_io_def m c1_def)
  obtain b2 input2 where r: "fd_read_line_delim nul (c_buffer c1) (c_input c1) = (Some (request_text ?r), b2, input2)"
    using request_read [of c1 ?r "[]"] s(2,3) ok(2) by (auto simp: c1_def c0_def to_come_def connected_def)
  obtain args where p1: "parse_request sample_io (request_text ?s) response = Some (request_head ?s, Inr (fst ?s, args))"
    using request_parsed [OF ok(1)] by blast
  obtain args' where p2: "parse_request sample_io (request_text ?r) response = Some (request_head ?r, Inr (fst ?r, args'))"
    using request_parsed [OF ok(2)] by blast
  have f: "fst ?s = ''status''" "fst ?r = ''run''" by (simp_all add: sample_requests_def)
  have l: "lookup_cmd ''status'' = Some (''status'', 0, True)" "lookup_cmd ''run'' = Some (''run'', 1, False)"
    by code_simp+
  define d1 where "d1 = start_command (''status'', 0, True) args new_session"
  have d1: "status d1 = DBGP_STATUS_STARTING" "reason d1 = DBGP_REASON_OK"
    by (simp_all add: d1_def start_command_def new_session_def session_init_def)
  have h: "handler_of sample_io local_env ''status'' args d1 (request_head ?s) = Some (d1, status_reply)"
    by (simp add: handler_of_def handle_status_def status_attributes_def string_at_def d1 status_reply_def
        xdebug_dbgp_status_strings_def xdebug_dbgp_reason_strings_def DBGP_STATUS_STARTING_def DBGP_REASON_OK_def)
  have t1: "parse_option sample_io local_env (Suc (Suc n)) (request_text ?s) c0 new_session = Ends (0, status_reply, c0, d1)"
    using p1 f(1) l(1) h d1 by (simp add: parse_option.simps d1_def [symmetric] unavailable_def DBGP_STATUS_STARTING_def DBGP_STATUS_STOPPING_def)
  define d2 where "d2 = start_command (''run'', 1, False) args' d1"
  have d2: "status d2 = DBGP_STATUS_RUNNING" by (simp add: d2_def start_command_def)
  have t2: "\<exists>x. parse_option sample_io local_env (Suc n) (request_text ?r) (c1\<lparr>c_buffer := b2, c_input := input2\<rparr>) d1 =
      Ends (1, x, c1\<lparr>c_buffer := b2, c_input := input2\<rparr>, d2)"
    using p2 f(2) l(2) d2 by (simp add: parse_option.simps d2_def [symmetric] unavailable_def handler_of_def handle_run_def
        DBGP_STATUS_RUNNING_def DBGP_STATUS_STOPPING_def)
  have d2': "status d2 \<noteq> DBGP_STATUS_STOPPED" using d2 by (simp add: DBGP_STATUS_RUNNING_def DBGP_STATUS_STOPPED_def)
  show ?thesis
    using t2 d2' by (auto simp: cmdloop.simps s(1) c0_def [symmetric] t1 send r)
qed

section \<open>Properties\<close>

text \<open>C39: The command loop, with the ends of sessions inside it, always comes to an end, whatever the client sends: with
  more fuel than twice the bytes to come, those in the buffer included, it never runs out of fuel, so that it returns, leaves
  the script, or is a fault of a handler. More fuel changes nothing. (The client's bytes are finite; waiting for them is
  not modelled.)\<close>

theorem command_loop_terminates:
  assumes "2 * bytes c < n"
  shows "cmdloop k env n bail c d \<noteq> Out_of_fuel \<and> cmdloop k env n bail c d = cmdloop k env (2 * bytes c + 1) bail c d"
  using session_fuel(1) [OF assms] loop_fuel [OF assms, of "2 * bytes c + 1"] by simp

lemma sample_bytes: "bytes (sample_conn (sends sample_requests)) < 50"
  by code_simp

theorem command_loop_terminates_witness:
  "\<exists>c d. cmdloop sample_io local_env (2 * bytes (sample_conn (sends sample_requests)) + 1) True
    (sample_conn (sends sample_requests)) new_session = Ends (Returned 1, c, d)"
proof -
  obtain c d where r: "cmdloop sample_io local_env (Suc (Suc (Suc 97))) True (sample_conn (sends sample_requests)) new_session =
      Ends (Returned 1, c, d)"
    using sample_run [of 97] by blast
  have b: "2 * bytes (sample_conn (sends sample_requests)) < Suc (Suc (Suc 97))" using sample_bytes by simp
  show ?thesis
    using r command_loop_terminates [OF b, of sample_io local_env True new_session] by metis
qed

text \<open>C40: The debugger answers the client. However the bytes of a sequence of well-formed commands (none of them
  \<open>detach\<close>) arrive, the loop takes some of them, leaves the others unread, and sends one message for each it took,
  in order, which names the command and its transaction; only the last one has no answer yet when it lets the
  script run. Without such a command all are answered before the loop returns 0 at the end of the input. The
  handlers that export values may do to the session what they like as long as they only add to the reply.\<close>

theorem commands_answered:
  assumes "\<And>name. appends (io_handler k name)" and "\<forall>r\<in>set rs. request_ok r \<and> fst r \<noteq> ''detach''"
    and "connected c" and "to_come c = sends rs" and "cmdloop k env n bail c d = Ends (e, c', d')"
  shows "\<exists>taken rest ms. rs = taken @ rest \<and> to_come c' = sends rest \<and> c_sent c' = c_sent c @ ms \<and>
    (list_all2 (answers k) taken ms \<or>
     (e = Returned 1 \<or> e = Bailout) \<and> taken \<noteq> [] \<and> list_all2 (answers k) (butlast taken) ms) \<and>
    (e = Returned 0 \<longrightarrow> rest = [])"
  using assms(2-5)
proof (induction rs arbitrary: n c d)
  case Nil
  then obtain m where n: "n = Suc m" by (cases n) (auto simp: cmdloop.simps)
  have "concat (c_input c) = []" "c_input c = []" "pending (c_buffer c) = []"
    using Nil.prems(2,3) by (auto simp: to_come_def sends_def connected_def)
  moreover obtain q b input where rd: "fd_read_line_delim nul (c_buffer c) (c_input c) = (q, b, input)"
    by (cases "fd_read_line_delim nul (c_buffer c) (c_input c)") auto
  ultimately have "q = None" "pending b = []" "input = []"
    by (auto simp: fd_read_line_delim_def pending_def [symmetric] fill_buffer.simps) (auto simp: pending_def)
  then have "e = Returned 0" "c' = c\<lparr>c_buffer := b, c_input := []\<rparr>" "to_come c' = []"
    using Nil.prems(4) rd n by (auto simp: cmdloop.simps to_come_def)
  then show ?case by (simp add: sends_def)
next
  case (Cons r rs)
  have ok: "request_ok r" "fst r \<noteq> ''detach''" "\<forall>r\<in>set rs. request_ok r \<and> fst r \<noteq> ''detach''"
    using Cons.prems(1) by auto
  obtain m where n: "n = Suc m" using Cons.prems(4) by (cases n) (auto simp: cmdloop.simps)
  from assms(1) ok(1,2) Cons.prems(2,3) Cons.prems(4) [unfolded n] show ?case
  proof (cases rule: loop_turn)
    case (more t c1 d1)
    obtain taken rest ms where i: "rs = taken @ rest" "to_come c' = sends rest" "c_sent c' = c_sent c1 @ ms"
      "list_all2 (answers k) taken ms \<or>
       (e = Returned 1 \<or> e = Bailout) \<and> taken \<noteq> [] \<and> list_all2 (answers k) (butlast taken) ms"
      "e = Returned 0 \<longrightarrow> rest = []"
      using Cons.IH [OF ok(3) more(2,3,5)] by blast
    show ?thesis
      by (rule exI [of _ "r # taken"], rule exI [of _ rest], rule exI [of _ "t # ms"]) (use i more in auto)
  next
    case (stop t ret)
    then show ?thesis
      by (intro exI [of _ "[r]"] exI [of _ rs] exI [of _ "[t]"]) auto
  next
    case run
    then show ?thesis
      by (intro exI [of _ "[r]"] exI [of _ rs] exI [of _ "[]"]) auto
  qed
qed

theorem commands_answered_witness:
  "\<exists>c d taken rest ms. cmdloop sample_io local_env 3 True (sample_conn (sends sample_requests)) new_session =
      Ends (Returned 1, c, d) \<and> sample_requests = taken @ rest \<and> to_come c = sends rest \<and> c_sent c = ms \<and>
    (list_all2 (answers sample_io) taken ms \<or>
     taken \<noteq> [] \<and> list_all2 (answers sample_io) (butlast taken) ms)"
proof -
  have a: "appends (io_handler sample_io name)" for name
    by (simp add: sample_io_def appends_def)
  have len: "3 < length (sends sample_requests)" by code_simp
  obtain c d where r: "cmdloop sample_io local_env 3 True (sample_conn (sends sample_requests)) new_session =
      Ends (Returned 1, c, d)"
    using sample_run [of 0] by (auto simp: numeral_3_eq_3)
  have "c_sent (sample_conn (sends sample_requests)) = []" by (simp add: sample_conn_def)
  with commands_answered [OF a sample_ok _ _ r] sample_conn_ok [OF len] r show ?thesis by auto
qed

text \<open>An unknown command ends the loop, although the loop's condition is there to wait for a command that runs
  the script: it is answered with error 4 and the loop returns at once, with the client's other commands unread, so
  that a mistyped command makes a stopped script go on.\<close>

lemma unknown_command_resumes:
  assumes "request_ok r" and "lookup_cmd (fst r) = None" and "connected c" and "to_come c = sends (r # rs)"
    and "status d \<noteq> DBGP_STATUS_STOPPED"
  shows "\<exists>c1. to_come c1 = sends rs \<and> c_sent c1 = c_sent c \<and>
    cmdloop k env (Suc n) bail c d =
      (case send_message k (xml_add_child (request_head r) (error_node XDEBUG_ERROR_UNIMPLEMENTED)) c1 of
         None \<Rightarrow> Fault
       | Some c2 \<Rightarrow> Ends (Returned (- 1), c2, d))"
proof -
  obtain b input where rd: "fd_read_line_delim nul (c_buffer c) (c_input c) = (Some (request_text r), b, input)"
    "to_come (c\<lparr>c_buffer := b, c_input := input\<rparr>) = sends rs"
    using request_read [OF assms(3,1,4)] by blast
  obtain args where "parse_request k (request_text r) response = Some (request_head r, Inr (fst r, args))"
    using request_parsed [OF assms(1)] by blast
  then have "cmdloop k env (Suc n) bail c d =
      (case send_message k (xml_add_child (request_head r) (error_node XDEBUG_ERROR_UNIMPLEMENTED))
          (c\<lparr>c_buffer := b, c_input := input\<rparr>) of
         None \<Rightarrow> Fault
       | Some c2 \<Rightarrow> Ends (Returned (- 1), c2, d))"
    using rd(1) assms(2,5) by (simp add: cmdloop.simps parse_option.simps split: option.split)
  then show ?thesis using rd(2) by (intro exI [of _ "c\<lparr>c_buffer := b, c_input := input\<rparr>"]) simp
qed

lemma unknown_command_resumes_witness:
  "\<exists>c1. to_come c1 = sends sample_requests \<and> c_sent c1 = [] \<and>
    cmdloop sample_io local_env 1 True
      (sample_conn (sends ((''setp_over'', [(CHR ''i'', Plain ''0'')], None) # sample_requests))) new_session =
      (case send_message sample_io
          (xml_add_child (request_head (''setp_over'', [(CHR ''i'', Plain ''0'')], None)) (error_node XDEBUG_ERROR_UNIMPLEMENTED)) c1 of
         None \<Rightarrow> Fault
       | Some c2 \<Rightarrow> Ends (Returned (- 1), c2, new_session))"
proof -
  let ?r = "(''setp_over'', [(CHR ''i'', Plain ''0'')], None) :: request"
  have len: "3 < length (sends (?r # sample_requests))" by code_simp
  have u: "request_ok ?r" "lookup_cmd (fst ?r) = None" by code_simp+
  have st: "status new_session \<noteq> DBGP_STATUS_STOPPED"
    by (simp add: new_session_def session_init_def DBGP_STATUS_STARTING_def DBGP_STATUS_STOPPED_def)
  have "c_sent (sample_conn t) = []" for t by (simp add: sample_conn_def)
  then show ?thesis
    using unknown_command_resumes [OF u _ _ st, of "sample_conn (sends (?r # sample_requests))" sample_requests
        sample_io local_env 0 True] sample_conn_ok [OF len] by simp
qed

end
