(* ===== verification/PhpValue.thy ===== *)
theory PhpValue
  imports Dbgp
begin

text \<open>
  PHP values as the code sees them: a \<open>zval\<close> holds a scalar, or the address of a table, an object, a reference or
  another slot in a heap that the engine owns. Tables keep their entries in order; a heap may be cyclic. What the
  engine computes (escaping, names of mangled properties, printing of floats, magic properties) is a record of
  functions. A missing address is \<open>None\<close>.
\<close>

section \<open>Values and the heap\<close>

datatype zval =
    IS_UNDEF
  | IS_NULL
  | IS_BOOL bool
  | IS_LONG int
  | IS_DOUBLE u64
  | IS_STRING string
  | IS_ARRAY nat
  | IS_OBJECT nat
  | IS_RESOURCE int
  | IS_REFERENCE nat
  | IS_INDIRECT nat
  | IS_OTHER

text \<open>A key of a table is a number or a string.\<close>

datatype pkey = Key_num int | Key_str string

type_synonym ptable = "(pkey \<times> zval) list"

text \<open>The table that the debug handler of an object gives: none, one that lives on (in the heap), or one that is
  made for this call.\<close>

datatype debug_table = No_table | Shared nat | Temporary ptable

text \<open>An object with its class, its number and what its handlers for properties and for debugging give, when it
  has these handlers.\<close>

record php_object =
  class_name :: string
  obj_handle :: int
  obj_properties :: "nat option"
  obj_debug :: "debug_table option"

text \<open>A property of a class: its name, its mangled name, whether it is static and then its value.\<close>

record property_info =
  prop_key :: string
  prop_name :: string
  prop_static :: bool
  prop_value :: zval

record heap =
  ht_at :: "nat \<Rightarrow> ptable option"
  ref_at :: "nat \<Rightarrow> zval option"
  slot_at :: "nat \<Rightarrow> zval option"
  object_at :: "nat \<Rightarrow> php_object option"
  class_at :: "string \<Rightarrow> property_info list option"
  refcount_of :: "zval \<Rightarrow> int"
  in_debug_info :: bool

text \<open>Reading a property the engine's way gives a stored value, one made by a getter, or the uninitialized one.\<close>

datatype read_result = Stored zval | Computed zval | Uninitialized

record engine =
  en_lib :: php_lib
  addslashes :: "string \<Rightarrow> string"
  addcslashes :: "string \<Rightarrow> string \<Rightarrow> string"
  unmangle :: "string \<Rightarrow> string option \<times> string"
  format_double :: "u64 \<Rightarrow> string"
  symtable_key :: "string \<Rightarrow> pkey"
  key_hash :: "string \<Rightarrow> int"
  read_property :: "string \<Rightarrow> zval \<Rightarrow> string \<Rightarrow> read_result"
  rsrc_type :: "int \<Rightarrow> string option"

section \<open>Access\<close>

definition skip_indirect :: "heap \<Rightarrow> zval \<Rightarrow> zval option" where
  "skip_indirect h z = (case z of IS_INDIRECT a \<Rightarrow> slot_at h a | _ \<Rightarrow> Some z)"

definition skip_reference :: "heap \<Rightarrow> zval \<Rightarrow> zval option" where
  "skip_reference h z = (case z of IS_REFERENCE a \<Rightarrow> ref_at h a | _ \<Rightarrow> Some z)"

definition deref :: "heap \<Rightarrow> zval \<Rightarrow> zval option" where
  "deref h z = Option.bind (skip_indirect h z) (skip_reference h)"

text \<open>The loop \<open>ZEND_HASH_FOREACH_KEY_VAL_IND\<close> visits these entries.\<close>

fun foreach_ind :: "heap \<Rightarrow> ptable \<Rightarrow> ptable option" where
  "foreach_ind h [] = Some []"
| "foreach_ind h ((k, z) # t) =
     do {
       v \<leftarrow> skip_indirect h z;
       vs \<leftarrow> foreach_ind h t;
       Some (if v = IS_UNDEF then vs else (k, v) # vs)
     }"

fun fold_option :: "('a \<Rightarrow> 's \<Rightarrow> 's option) \<Rightarrow> 'a list \<Rightarrow> 's \<Rightarrow> 's option" where
  "fold_option f [] s = Some s"
| "fold_option f (x # xs) s = Option.bind (f x s) (fold_option f xs)"

text \<open>\<open>xdebug_objdebug_pp\<close>: the table of an object for the debugger, with its address, if it has one, for the
  protection against recursion. While a debug handler runs, no other one is called.\<close>

definition object_table :: "heap \<Rightarrow> php_object \<Rightarrow> (nat option \<times> ptable) option option" where
  "object_table h obj =
     (let shared = (\<lambda>a. map_option (\<lambda>t. Some (Some a, t)) (ht_at h a))
      in if \<not> in_debug_info h \<and> obj_debug obj \<noteq> None
         then (case the (obj_debug obj) of
                 No_table \<Rightarrow> Some None
               | Shared a \<Rightarrow> shared a
               | Temporary t \<Rightarrow> Some (Some (None, t)))
         else (case obj_properties obj of None \<Rightarrow> Some None | Some a \<Rightarrow> shared a))"

text \<open>How many loops over the table at an address are running; a table without an address is in none.\<close>

type_synonym applied = "nat \<Rightarrow> nat"

definition apply_count :: "applied \<Rightarrow> nat option \<Rightarrow> nat" where
  "apply_count ap a = (case a of None \<Rightarrow> 0 | Some a \<Rightarrow> ap a)"

definition inc_apply :: "nat option \<Rightarrow> applied \<Rightarrow> applied" where
  "inc_apply a ap = (case a of None \<Rightarrow> ap | Some a \<Rightarrow> ap(a := ap a + 1))"

section \<open>Export options\<close>

text \<open>Access to a page of the options.\<close>

definition page_at :: "export_options \<Rightarrow> nat \<Rightarrow> runtime_page option" where
  "page_at co level = (if level < length (runtime co) then Some (runtime co ! level) else None)"

definition set_page :: "nat \<Rightarrow> runtime_page \<Rightarrow> export_options \<Rightarrow> export_options" where
  "set_page level p co = co\<lparr>runtime := (runtime co)[level := p]\<rparr>"

text \<open>Whether the current element is to be shown; the counters must have been set.\<close>

definition in_page :: "runtime_page \<Rightarrow> bool option" where
  "in_page p =
     do {
       c \<leftarrow> current_element_nr p;
       s \<leftarrow> start_element_nr p;
       e \<leftarrow> end_element_nr p;
       Some (s \<le> c \<and> c < e)
     }"

definition next_element :: "nat \<Rightarrow> export_options \<Rightarrow> export_options option" where
  "next_element level co =
     do {
       p \<leftarrow> page_at co level;
       c \<leftarrow> current_element_nr p;
       Some (set_page level (p\<lparr>current_element_nr := Some (to_int32 (c + 1))\<rparr>) co)
     }"

text \<open>The start of a loop over the elements of a table.\<close>

definition start_page :: "nat \<Rightarrow> int \<Rightarrow> int \<Rightarrow> export_options \<Rightarrow> export_options option" where
  "start_page level lo hi co =
     do {
       p \<leftarrow> page_at co level;
       Some (set_page level (p\<lparr>current_element_nr := Some 0, start_element_nr := Some lo, end_element_nr := Some hi\<rparr>) co)
     }"

definition XDEBUG_MAX_INT :: int where "XDEBUG_MAX_INT = 2147483647"

text \<open>The options for the display of values, from the settings.\<close>

definition options_from_ini :: "int \<Rightarrow> int \<Rightarrow> int \<Rightarrow> int \<Rightarrow> export_options" where
  "options_from_ini overload_var_dump display_max_children display_max_data display_max_depth =
     (let clip = (\<lambda>top v. if v = - 1 \<or> v > top then top else if v < 1 then 0 else v);
          depth = clip 1023 (to_int32 display_max_depth)
      in \<lparr>max_children = clip XDEBUG_MAX_INT (to_int32 display_max_children),
          max_data = clip XDEBUG_MAX_INT (to_int32 display_max_data), max_depth = depth, show_hidden = 0,
          extended_properties = 0, force_extended = 0, show_location = Some (overload_var_dump > 1),
          runtime = replicate (nat (depth + 1)) new_page, no_decoration = Some False\<rparr>)"

section \<open>Heaps without dangling addresses\<close>

text \<open>And without tables that are too long to be counted.\<close>

definition valid :: "heap \<Rightarrow> zval \<Rightarrow> bool" where
  "valid h z \<longleftrightarrow>
     (case z of
        IS_ARRAY a \<Rightarrow> ht_at h a \<noteq> None
      | IS_OBJECT a \<Rightarrow> object_at h a \<noteq> None
      | IS_REFERENCE a \<Rightarrow> ref_at h a \<noteq> None
      | IS_INDIRECT a \<Rightarrow> slot_at h a \<noteq> None
      | _ \<Rightarrow> True)"

text \<open>An object has a class, a table for the debugger, and no property with an empty name.\<close>

definition object_ok :: "heap \<Rightarrow> php_object \<Rightarrow> bool" where
  "object_ok h obj \<longleftrightarrow>
     (\<exists>ps t. class_at h (class_name obj) = Some ps \<and> (\<forall>p\<in>set ps. valid h (prop_value p) \<and> prop_name p \<noteq> []) \<and>
       object_table h obj = Some t \<and> length ps < 2 ^ 30 \<and>
       (\<forall>a es. t = Some (a, es) \<longrightarrow> (\<forall>e\<in>set es. valid h (snd e) \<and> fst e \<noteq> Key_str []) \<and> length es < 2 ^ 30))"

definition heap_ok :: "heap \<Rightarrow> bool" where
  "heap_ok h \<longleftrightarrow>
     (\<forall>a t. ht_at h a = Some t \<longrightarrow> (\<forall>e\<in>set t. valid h (snd e)) \<and> length t < 2 ^ 31) \<and>
     (\<forall>a z. ref_at h a = Some z \<longrightarrow> valid h z) \<and> (\<forall>a z. slot_at h a = Some z \<longrightarrow> valid h z) \<and>
     (\<forall>a obj. object_at h a = Some obj \<longrightarrow> object_ok h obj)"

lemma skip_valid:
  assumes "heap_ok h" and "valid h z"
  shows "\<exists>z'. skip_indirect h z = Some z' \<and> valid h z'" and "\<exists>z'. skip_reference h z = Some z' \<and> valid h z'"
  using assms by (cases z; auto simp: skip_indirect_def skip_reference_def valid_def heap_ok_def)+

lemma deref_valid:
  assumes "heap_ok h" and "valid h z"
  shows "\<exists>z'. deref h z = Some z' \<and> valid h z'"
proof -
  obtain y where "skip_indirect h z = Some y" "valid h y" using skip_valid(1) [OF assms] by blast
  then show ?thesis using skip_valid(2) [OF assms(1), of y] by (auto simp: deref_def)
qed

lemma foreach_valid:
  assumes "heap_ok h" and "\<forall>e\<in>set t. valid h (snd e)"
  shows "\<exists>es. foreach_ind h t = Some es \<and> length es \<le> length t \<and>
    (\<forall>e\<in>set es. valid h (snd e) \<and> (\<exists>e'\<in>set t. fst e = fst e'))"
  using assms(2)
proof (induction t)
  case (Cons e t)
  obtain k z where e: "e = (k, z)" by (cases e)
  obtain v where "skip_indirect h z = Some v" "valid h v" using skip_valid(1) [OF assms(1), of z] Cons.prems e by auto
  then show ?case using Cons e by fastforce
qed simp

lemma fold_option_append: "fold_option f (xs @ ys) s = Option.bind (fold_option f xs s) (fold_option f ys)"
proof (induction xs arbitrary: s)
  case (Cons x xs)
  then show ?case by (cases "f x s") simp_all
qed simp

end
