(* ===== verification/PhpSymbol.thy ===== *)
theory PhpSymbol
  imports PhpValue Escapes Text
begin

text \<open>
  Looking up a variable by its name, \<open>xdebug_get_php_symbol\<close> of \<open>xdebug_var.c\<close>: a state machine over the
  characters of names such as \<open>$a["key"][3]->prop\<close> that fetches one step at a time. A keyword is an offset into
  the name; the rest of the name stands behind it, as the search for stars reads past its end.
\<close>

section \<open>Fetching one step\<close>

definition XF_ST_ROOT :: nat where "XF_ST_ROOT = 0"
definition XF_ST_ARRAY_INDEX_NUM :: nat where "XF_ST_ARRAY_INDEX_NUM = 1"
definition XF_ST_ARRAY_INDEX_ASSOC :: nat where "XF_ST_ARRAY_INDEX_ASSOC = 2"
definition XF_ST_OBJ_PROPERTY :: nat where "XF_ST_OBJ_PROPERTY = 3"
definition XF_ST_STATIC_ROOT :: nat where "XF_ST_STATIC_ROOT = 4"
definition XF_ST_STATIC_PROPERTY :: nat where "XF_ST_STATIC_PROPERTY = 5"

lemmas xf_defs = XF_ST_ROOT_def XF_ST_ARRAY_INDEX_NUM_def XF_ST_ARRAY_INDEX_ASSOC_def XF_ST_OBJ_PROPERTY_def
  XF_ST_STATIC_ROOT_def XF_ST_STATIC_PROPERTY_def

text \<open>What the code reads of the running script: the compiled variables of the active function with their values,
  the active symbol table, \<open>$this\<close> and the class of the active frame. \<open>None\<close> on the outside is a pointer to
  something that is gone, or for the frame also a missing one.\<close>

record scope =
  compiled_vars :: "(string \<times> zval) list option option"
  active_symbol_table :: "nat option"
  this_value :: "zval option option"
  active_class :: "string option option"

text \<open>\<open>strtoull\<close> of decimal digits, and the number as a key.\<close>

definition strtoull10 :: "string \<Rightarrow> int" where
  "strtoull10 s =
     (let sat = (\<lambda>t. min (int (digits_val 0 t)) (2 ^ 64 - 1))
      in case dropWhile isspace s of
           [] \<Rightarrow> 0
         | c # cs \<Rightarrow>
             if c = CHR ''-'' then (if int (digits_val 0 cs) < 2 ^ 64 then (- sat cs) mod 2 ^ 64 else 2 ^ 64 - 1)
             else if c = CHR ''+'' then sat cs
             else sat (c # cs))"

definition to_int64 :: "int \<Rightarrow> int" where
  "to_int64 i = sint (word_of_int i :: u64)"

text \<open>\<open>prepare_search_key\<close>: a prefix other than the empty one is set between zero bytes; of a prefix that starts
  with a star only the star is used.\<close>

definition prepare_search_key :: "string \<Rightarrow> string \<Rightarrow> string" where
  "prepare_search_key name pre =
     (if pre = [] then name
      else if hd pre = CHR ''*'' then [nul, CHR ''*'', nul] @ name
      else [nul] @ pre @ [nul] @ name)"

definition find_in :: "heap \<Rightarrow> nat option \<Rightarrow> pkey \<Rightarrow> zval option option" where
  "find_in h ht k = (case ht of None \<Rightarrow> Some None | Some a \<Rightarrow> map_option (\<lambda>t. map_of t k) (ht_at h a))"

definition fetch_ht_from_zval :: "heap \<Rightarrow> zval \<Rightarrow> nat option option" where
  "fetch_ht_from_zval h z =
     (case z of
        IS_ARRAY a \<Rightarrow> Some (Some a)
      | IS_OBJECT a \<Rightarrow> map_option Some (Option.bind (object_at h a) obj_properties)
      | _ \<Rightarrow> Some None)"

text \<open>The text between the star at the start of the name and the second one, if there is one, and what follows.\<close>

definition stars :: "string \<Rightarrow> (string \<times> string) option" where
  "stars name =
     (case name of
        [] \<Rightarrow> None
      | c # cs \<Rightarrow>
          if c = CHR ''*''
          then (case split_at (CHR ''*'') (cstr cs) of (cls, Some r) \<Rightarrow> Some (cls, r) | _ \<Rightarrow> None)
          else None)"

text \<open>The value of a static property. A property that is not static has no place among the static members.\<close>

definition static_member :: "heap \<Rightarrow> string option \<Rightarrow> string \<Rightarrow> zval option option" where
  "static_member h ce key =
     (case ce of
        None \<Rightarrow> Some None
      | Some c \<Rightarrow>
          do {
            ps \<leftarrow> class_at h c;
            case List.find (\<lambda>p. prop_key p = key) ps of
              None \<Rightarrow> Some None
            | Some p \<Rightarrow> if prop_static p then Some (Some (prop_value p)) else None
          })"

text \<open>The first step that finds a value ends the search.\<close>

abbreviation or_else :: "zval option option \<Rightarrow> zval option option \<Rightarrow> zval option option" where
  "or_else a b \<equiv> (case a of None \<Rightarrow> None | Some (Some z) \<Rightarrow> Some (Some z) | Some None \<Rightarrow> b)"

text \<open>The storage that \<open>ArrayObject\<close> and its relatives show to a debugger; the value has to be an object. The engine
  does not look whether a debug handler runs.\<close>

definition spl_storage :: "heap \<Rightarrow> zval \<Rightarrow> string \<Rightarrow> zval option option" where
  "spl_storage h z cls =
     (case z of
        IS_OBJECT a \<Rightarrow>
          do {
            obj \<leftarrow> object_at h a;
            r \<leftarrow> object_table (h\<lparr>in_debug_info := False\<rparr>) obj;
            t \<leftarrow> r;
            Some (map_of (snd t) (Key_str ([nul] @ cls @ [nul] @ ''storage'')))
          }
      | _ \<Rightarrow> None)"

definition fetch_static :: "heap \<Rightarrow> string \<Rightarrow> nat \<Rightarrow> string option \<Rightarrow> zval option option" where
  "fetch_static h name len ce =
     or_else (static_member h ce (take len name))
       (case stars name of
          None \<Rightarrow> Some None
        | Some (cls, r) \<Rightarrow>
            if length cls + 2 \<le> len then static_member h ce (take (len - (length cls + 2)) (drop (length cls + 2) name))
            else None)"

text \<open>The assoc step unescapes the key in place; the root of a name is looked up among the compiled variables
  first, and then like a key of the symbol table.\<close>

definition fetch_assoc :: "heap \<Rightarrow> scope \<Rightarrow> nat \<Rightarrow> nat option \<Rightarrow> string \<Rightarrow> zval option option" where
  "fetch_assoc h sc type ht key =
     do {
       (element, len) \<leftarrow> stripcslashes (key @ [nul]) (int (length key));
       if type = XF_ST_ROOT \<and> cstr element = ''this''
       then map_option (\<lambda>this. Some (case this of None \<Rightarrow> IS_NULL | Some z \<Rightarrow> z)) (this_value sc)
       else find_in h ht (Key_str (take (nat len) element))
     }"

definition fetch_root :: "heap \<Rightarrow> scope \<Rightarrow> string \<Rightarrow> zval option option" where
  "fetch_root h sc key =
     or_else (map_option (\<lambda>cvs. Option.bind cvs (\<lambda>cvs. map_of cvs key)) (compiled_vars sc))
       (fetch_assoc h sc XF_ST_ROOT (active_symbol_table sc) key)"

text \<open>A property. The value that a getter made is kept until a later step finds another one. The engine reads a
  property only of an object.\<close>

definition is_object :: "zval \<Rightarrow> bool" where
  "is_object z = (case z of IS_OBJECT _ \<Rightarrow> True | _ \<Rightarrow> False)"

definition fetch_property ::
  "engine \<Rightarrow> heap \<Rightarrow> zval \<Rightarrow> nat option \<Rightarrow> string \<Rightarrow> nat \<Rightarrow> string option \<Rightarrow> nat \<Rightarrow> string option \<Rightarrow> zval option option" where
  "fetch_property en h z ht name len ccn ccnl ce =
     (let key = take len name;
          computed = (case ce of None \<Rightarrow> Uninitialized | Some c \<Rightarrow> read_property en c z key);
          ccnp = (case ccn of None \<Rightarrow> [] | Some c \<Rightarrow> c)
      in if ce \<noteq> None \<and> \<not> is_object z then None
      else map_option (\<lambda>r. case r of None \<Rightarrow> (case computed of Computed v \<Rightarrow> Some v | _ \<Rightarrow> None) | Some v \<Rightarrow> Some v)
        (or_else
          (case z of
             IS_OBJECT a \<Rightarrow>
               do {
                 obj \<leftarrow> object_at h a;
                 t \<leftarrow> object_table h obj;
                 Some (case t of None \<Rightarrow> None | Some t \<Rightarrow> map_of (snd t) (Key_str key))
               }
           | _ \<Rightarrow> Some None)
        (or_else (Some (case computed of Stored v \<Rightarrow> Some v | _ \<Rightarrow> None))
        (or_else (find_in h ht (symtable_key en key))
        (or_else (find_in h ht (Key_str (prepare_search_key key ''*'')))
        (or_else (find_in h ht (Key_str (prepare_search_key key (take ccnl ccnp))))
        (or_else (if strncmp ccnp ''SplObjectStorage'' ccnl = 0 \<and> strncmp (cstr name) ''storage'' len = 0
                  then spl_storage h z ''SplObjectStorage'' else Some None)
          (case stars name of
             None \<Rightarrow> Some None
           | Some (cls, r) \<Rightarrow>
               if length cls + 2 \<le> len
               then
                 (let elen = len - (length cls + 2)
                  in or_else (if strncmp (cls @ CHR ''*'' # r) ''ArrayObject'' (length cls) = 0 \<and> strncmp r ''storage'' elen = 0
                              then spl_storage h z ''ArrayObject'' else Some None)
                    (or_else (if strncmp (cls @ CHR ''*'' # r) ''ArrayIterator'' (length cls) = 0 \<and> strncmp r ''storage'' elen = 0
                              then spl_storage h z ''ArrayIterator'' else Some None)
                      (find_in h ht (Key_str (prepare_search_key (take elen (drop (length cls + 2) name)) cls)))))
               else None))))))))"

text \<open>The value found, or the undefined one. \<open>name\<close> is the text from the keyword on.\<close>

definition fetch_zval_from_symbol_table ::
  "engine \<Rightarrow> heap \<Rightarrow> scope \<Rightarrow> zval \<Rightarrow> string \<Rightarrow> nat \<Rightarrow> nat \<Rightarrow> string option \<Rightarrow> nat \<Rightarrow> string option \<Rightarrow> zval option" where
  "fetch_zval_from_symbol_table en h sc value_in name len type ccn ccnl ce =
     do {
       z \<leftarrow> deref h value_in;
       ht \<leftarrow> fetch_ht_from_zval h z;
       r \<leftarrow> (if type = XF_ST_STATIC_ROOT \<or> type = XF_ST_STATIC_PROPERTY then fetch_static h name len ce
             else if type = XF_ST_ROOT then fetch_root h sc (take len name)
             else if type = XF_ST_ARRAY_INDEX_ASSOC then fetch_assoc h sc type ht (take len name)
             else if type = XF_ST_ARRAY_INDEX_NUM then find_in h ht (Key_num (to_int64 (strtoull10 (take len name))))
             else if type = XF_ST_OBJ_PROPERTY then fetch_property en h z ht name len ccn ccnl ce
             else Some None);
       Some (case r of None \<Rightarrow> IS_UNDEF | Some v \<Rightarrow> v)
     }"

section \<open>The state machine\<close>

record symbol =
  sy_state :: nat
  keyword :: "nat option"
  fetch_type :: nat
  current_classname :: "string option"
  cc_length :: nat
  current_ce :: "string option"
  quotechar :: char
  retval_of :: zval

definition is_objectish :: "heap \<Rightarrow> zval \<Rightarrow> bool option" where
  "is_objectish h z =
     (case z of
        IS_OBJECT _ \<Rightarrow> Some True
      | IS_INDIRECT a \<Rightarrow> map_option is_object (slot_at h a)
      | IS_REFERENCE a \<Rightarrow> map_option is_object (ref_at h a)
      | _ \<Rightarrow> Some False)"

definition fetch_classname_from_zval :: "heap \<Rightarrow> zval \<Rightarrow> string option option" where
  "fetch_classname_from_zval h z =
     do {
       z \<leftarrow> deref h z;
       case z of IS_OBJECT a \<Rightarrow> map_option (\<lambda>obj. Some (class_name obj)) (object_at h a) | _ \<Rightarrow> Some None
     }"

text \<open>Fetching the keyword that ends at \<open>ctr\<close>.\<close>

definition fetch_keyword :: "engine \<Rightarrow> heap \<Rightarrow> scope \<Rightarrow> string \<Rightarrow> nat \<Rightarrow> nat \<Rightarrow> symbol \<Rightarrow> symbol option" where
  "fetch_keyword en h sc s ctr k sy =
     do {
       r \<leftarrow> fetch_zval_from_symbol_table en h sc (retval_of sy) (drop k s) (ctr - k) (fetch_type sy)
         (current_classname sy) (cc_length sy) (current_ce sy);
       Some (sy\<lparr>retval_of := r, current_classname := None, cc_length := 0\<rparr>)
     }"

text \<open>The class of the value just fetched, when it is an object, is the current class.\<close>

definition enter_class :: "heap \<Rightarrow> symbol \<Rightarrow> symbol option" where
  "enter_class h sy =
     do {
       b \<leftarrow> is_objectish h (retval_of sy);
       if b then do {
         c \<leftarrow> fetch_classname_from_zval h (retval_of sy);
         Some (case c of None \<Rightarrow> sy
               | Some c \<Rightarrow> sy\<lparr>current_classname := Some c, cc_length := length c, current_ce := Some c\<rparr>)
       } else Some sy
     }"

text \<open>State 1: the end of a name or of a step.\<close>

definition symbol_step1 :: "engine \<Rightarrow> heap \<Rightarrow> scope \<Rightarrow> string \<Rightarrow> nat \<Rightarrow> symbol \<Rightarrow> symbol option" where
  "symbol_step1 en h sc s ctr sy =
     (let c = s ! ctr in
      if c = CHR ''['' then
        do {
          sy \<leftarrow> (case keyword sy of
                   None \<Rightarrow> Some sy
                 | Some k \<Rightarrow>
                     map_option (\<lambda>sy. sy\<lparr>current_ce := None, keyword := None\<rparr>) (fetch_keyword en h sc s ctr k sy));
          Some (sy\<lparr>sy_state := 3\<rparr>)
        }
      else if c = CHR ''-'' then
        do {
          sy \<leftarrow> (case keyword sy of
                   None \<Rightarrow> Some sy
                 | Some k \<Rightarrow>
                     do {
                       sy \<leftarrow> fetch_keyword en h sc s ctr k sy;
                       sy \<leftarrow> enter_class h (sy\<lparr>current_ce := None\<rparr>);
                       Some (sy\<lparr>keyword := None\<rparr>)
                     });
          Some (sy\<lparr>sy_state := 2, fetch_type := XF_ST_OBJ_PROPERTY\<rparr>)
        }
      else if c = CHR '':'' then
        do {
          sy \<leftarrow> (case keyword sy of
                   None \<Rightarrow> Some sy
                 | Some k \<Rightarrow>
                     do {
                       sy \<leftarrow> fetch_keyword en h sc s ctr k sy;
                       sy \<leftarrow> enter_class h sy;
                       Some (sy\<lparr>keyword := None\<rparr>)
                     });
          Some (sy\<lparr>sy_state := 8, fetch_type := XF_ST_STATIC_PROPERTY\<rparr>)
        }
      else Some sy)"

text \<open>The end of an index in brackets.\<close>

definition end_index :: "engine \<Rightarrow> heap \<Rightarrow> scope \<Rightarrow> string \<Rightarrow> nat \<Rightarrow> symbol \<Rightarrow> symbol option" where
  "end_index en h sc s ctr sy =
     do {
       k \<leftarrow> keyword sy;
       sy \<leftarrow> fetch_keyword en h sc s ctr k sy;
       sy \<leftarrow> enter_class h sy;
       Some (sy\<lparr>keyword := None\<rparr>)
     }"

definition symbol_step :: "engine \<Rightarrow> heap \<Rightarrow> scope \<Rightarrow> string \<Rightarrow> nat \<Rightarrow> symbol \<Rightarrow> symbol option" where
  "symbol_step en h sc s ctr sy =
     (let c = s ! ctr; state = sy_state sy in
      if state = 0 then
        if c = CHR ''$'' then Some (sy\<lparr>keyword := Some (ctr + 1)\<rparr>)
        else if c = CHR '':'' then Some (sy\<lparr>keyword := Some ctr, sy_state := 7\<rparr>)
        else symbol_step1 en h sc s ctr (sy\<lparr>keyword := Some ctr, sy_state := 1\<rparr>)
      else if state = 1 then symbol_step1 en h sc s ctr sy
      else if state = 2 then Some (if c \<noteq> CHR ''>'' then sy\<lparr>keyword := Some ctr, sy_state := 1\<rparr> else sy)
      else if state = 8 then Some (if c \<noteq> CHR '':'' then sy\<lparr>keyword := Some ctr, sy_state := 1\<rparr> else sy)
      else if state = 3 then
        (let sy = (if c = CHR 0x27 \<or> c = CHR 0x22
                   then sy\<lparr>sy_state := 4, keyword := Some (ctr + 1), quotechar := c, fetch_type := XF_ST_ARRAY_INDEX_ASSOC\<rparr>
                   else sy);
             sy = (if isdigit c
                   then sy\<lparr>cc_length := 0, sy_state := 6, keyword := Some ctr, fetch_type := XF_ST_ARRAY_INDEX_NUM\<rparr>
                   else sy)
         in Some (if c = CHR ''-'' then sy\<lparr>sy_state := 9, keyword := Some ctr\<rparr> else sy))
      else if state = 9 then
        Some (if isdigit c then sy\<lparr>sy_state := 6, fetch_type := XF_ST_ARRAY_INDEX_NUM\<rparr> else sy)
      else if state = 4 then
        if c = CHR 0x5C then Some (sy\<lparr>sy_state := 10\<rparr>)
        else if c = quotechar sy then end_index en h sc s ctr (sy\<lparr>quotechar := nul, sy_state := 5\<rparr>)
        else Some sy
      else if state = 10 then Some (sy\<lparr>sy_state := 4\<rparr>)
      else if state = 5 then Some (if c = CHR '']'' then sy\<lparr>sy_state := 1\<rparr> else sy)
      else if state = 6 then
        if c = CHR '']'' then end_index en h sc s ctr (sy\<lparr>sy_state := 1\<rparr>) else Some sy
      else if c = CHR '':'' then
        do {
          k \<leftarrow> keyword sy;
          if strncmp (drop k s) ''::'' 2 = 0
          then do {
            cls \<leftarrow> active_class sc;
            case cls of
              None \<Rightarrow> Some (sy\<lparr>sy_state := 1, keyword := None\<rparr>)
            | Some cls \<Rightarrow>
                do {
                  _ \<leftarrow> class_at h cls;
                  Some (sy\<lparr>sy_state := 1, current_classname := Some cls, cc_length := length cls, current_ce := Some cls,
                    keyword := Some (ctr + 1), fetch_type := XF_ST_STATIC_ROOT\<rparr>)
                }
          }
          else Some (sy\<lparr>sy_state := 1, keyword := None\<rparr>)
        }
      else Some sy)"

definition symbol_start :: symbol where
  "symbol_start =
     \<lparr>sy_state = 0, keyword = None, fetch_type = XF_ST_ROOT, current_classname = None, cc_length = 0,
      current_ce = None, quotechar = nul, retval_of = IS_UNDEF\<rparr>"

definition get_php_symbol :: "engine \<Rightarrow> heap \<Rightarrow> scope \<Rightarrow> string \<Rightarrow> zval option" where
  "get_php_symbol en h sc name =
     do {
       sy \<leftarrow> fold_option (symbol_step en h sc name) [0..<length name] symbol_start;
       case keyword sy of
         None \<Rightarrow> Some (retval_of sy)
       | Some k \<Rightarrow> map_option retval_of (fetch_keyword en h sc name (length name) k sy)
     }"

end
