(* ===== verification/VarXml.thy ===== *)
theory VarXml
  imports PhpValue DbgpParse
begin

text \<open>
  The export of values as XML trees, the second half of \<open>xdebug_var.c\<close>: depth, number of children and size of
  strings are bounded by the options, a page at a time is shown at the top, and a table that is being exported is
  not entered again. The recursion takes one fuel for a level; \<open>VarFacts\<close> shows how much is enough.
\<close>

section \<open>Names and texts\<close>

text \<open>Whether a text has a byte below 0x20; a plain \<open>char\<close> is signed, so bytes from 0x80 on are.\<close>

definition encoding_requested :: "string \<Rightarrow> bool" where
  "encoding_requested value \<longleftrightarrow> list_ex (\<lambda>c. schar c < 0x20) value"

definition base64_element :: "engine \<Rightarrow> string \<Rightarrow> string \<Rightarrow> xml_node" where
  "base64_element en field value =
     (let b = base64_encode (en_lib en) value
      in xml_add_text_ex b (int (length b)) False
           (xml_add_attribute_ex ''encoding'' ''base64'' (xml_node_init field)))"

definition add_xml_attribute_or_element ::
  "engine \<Rightarrow> string \<Rightarrow> string \<Rightarrow> export_options \<times> xml_node \<Rightarrow> export_options \<times> xml_node" where
  "add_xml_attribute_or_element en field value st =
     (let (co, node) = st
      in if force_extended co \<noteq> 0 \<or> (encoding_requested value \<and> extended_properties co \<noteq> 0)
         then (co\<lparr>force_extended := 1\<rparr>, xml_add_child node (base64_element en field value))
         else (co, xml_add_attribute_ex field value node))"

definition add_unencoded_text_value :: "engine \<Rightarrow> export_options \<Rightarrow> string \<Rightarrow> xml_node \<Rightarrow> xml_node" where
  "add_unencoded_text_value en co value node =
     (if force_extended co \<noteq> 0 then xml_add_child node (base64_element en ''value'' value)
      else xml_add_text value node)"

definition add_encoded_text_value :: "engine \<Rightarrow> export_options \<Rightarrow> string \<Rightarrow> xml_node \<Rightarrow> xml_node" where
  "add_encoded_text_value en co value node =
     (if force_extended co \<noteq> 0 then xml_add_child node (base64_element en ''value'' value)
      else xml_add_text_ex value (int (length value)) True node)"

text \<open>The property behind a mangled name: its name, its modifier and the class in the name. The name of a class
  is never empty; its first character is read.\<close>

definition get_property_info :: "engine \<Rightarrow> string \<Rightarrow> string \<times> string \<times> string option" where
  "get_property_info en mangled =
     (let (cls, prop) = unmangle en mangled
      in (prop,
          (case cls of
             None \<Rightarrow> ''public''
           | Some c \<Rightarrow> if c \<noteq> [] \<and> hd c = CHR ''*'' then ''protected'' else ''private''),
          cls))"

text \<open>A private property of another class is shown with the class between stars.\<close>

definition shown_name :: "string \<Rightarrow> string \<times> string \<times> string option \<Rightarrow> string option" where
  "shown_name cls info =
     (let (prop, modifier, pcls) = info
      in if modifier \<noteq> ''private'' then Some prop
         else (case pcls of
                 None \<Rightarrow> None
               | Some p \<Rightarrow> Some (if cstr cls = cstr p then prop else ''*'' @ cstr p @ ''*'' @ prop)))"

text \<open>A name gets a dollar sign and loses a double colon at its end. Two characters are looked at.\<close>

definition prepare_variable_name :: "string \<Rightarrow> string option" where
  "prepare_variable_name name =
     (let tmp = (if name \<noteq> [] \<and> (hd name = CHR ''$'' \<or> hd name = CHR '':'') then name else CHR ''$'' # name)
      in if length tmp < 2 then None
         else Some (if drop (length tmp - 2) tmp = ''::'' then take (length tmp - 2) tmp else tmp))"

section \<open>Elements\<close>

datatype item_type = XDEBUG_OBJECT_ITEM_TYPE_PROPERTY | XDEBUG_OBJECT_ITEM_TYPE_STATIC_PROPERTY

record object_item =
  item_type :: item_type
  item_name :: string
  item_index :: int
  item_zv :: zval

definition object_item_add_to_merged_hash :: "engine \<Rightarrow> pkey \<times> zval \<Rightarrow> object_item" where
  "object_item_add_to_merged_hash en kv =
     (case fst kv of
        Key_str n \<Rightarrow>
          \<lparr>item_type = XDEBUG_OBJECT_ITEM_TYPE_PROPERTY, item_name = n, item_index = key_hash en n, item_zv = snd kv\<rparr>
      | Key_num i \<Rightarrow>
          \<lparr>item_type = XDEBUG_OBJECT_ITEM_TYPE_PROPERTY, item_name = dec_int i, item_index = 0, item_zv = snd kv\<rparr>)"

definition object_item_add_zend_prop_to_merged_hash :: "property_info \<Rightarrow> object_item list" where
  "object_item_add_zend_prop_to_merged_hash p =
     (if prop_static p
      then [\<lparr>item_type = XDEBUG_OBJECT_ITEM_TYPE_STATIC_PROPERTY, item_name = prop_name p, item_index = 0,
             item_zv = prop_value p\<rparr>]
      else [])"

type_synonym exporter =
  "zval \<Rightarrow> string option \<Rightarrow> nat \<Rightarrow> export_options \<times> xml_node \<Rightarrow> (export_options \<times> xml_node) option"

text \<open>An element of an array, with its name and the full name that leads to it.\<close>

definition array_element_name :: "pkey \<Rightarrow> string" where
  "array_element_name k = (case k of Key_str s \<Rightarrow> s | Key_num i \<Rightarrow> dec_int i)"

definition array_element_full_name :: "engine \<Rightarrow> pkey \<Rightarrow> string option \<Rightarrow> string" where
  "array_element_full_name en k parent_name =
     (case parent_name of
        None \<Rightarrow> []
      | Some pn \<Rightarrow>
          (case k of
             Key_str s \<Rightarrow> pn @ [CHR ''['', CHR 0x22] @ addslashes en s @ [CHR 0x22, CHR '']'']
           | Key_num i \<Rightarrow> pn @ ''['' @ dec_int i @ '']''))"

definition array_element_export_xml_node ::
  "engine \<Rightarrow> exporter \<Rightarrow> nat \<Rightarrow> string option \<Rightarrow> pkey \<times> zval \<Rightarrow> export_options \<times> xml_node \<Rightarrow>
   (export_options \<times> xml_node) option" where
  "array_element_export_xml_node en export level parent_name kv st =
     do {
       let (co, parent) = st in do {
       p \<leftarrow> page_at co level;
       shown \<leftarrow> in_page p;
       (co, parent) \<leftarrow>
         (if shown
          then
            (let full_name = array_element_full_name en (fst kv) parent_name;
                 st = add_xml_attribute_or_element en ''name'' (array_element_name (fst kv))
                   (co\<lparr>force_extended := 0\<rparr>, xml_node_init ''property'');
                 st = (if full_name \<noteq> [] then add_xml_attribute_or_element en ''fullname'' full_name st else st)
             in do {
               (co, node) \<leftarrow> export (snd kv) (Some full_name) (level + 1) st;
               Some (co, xml_add_child parent node)
             })
          else Some (co, parent));
       co \<leftarrow> next_element level co;
       Some (co, parent)
     }}"

text \<open>A property of an object. With an empty name the code prints a string structure as a C string when there is a
  parent name.\<close>

definition object_element_names ::
  "engine \<Rightarrow> string \<Rightarrow> object_item \<Rightarrow> string option \<Rightarrow> (string \<times> string option \<times> string) option" where
  "object_element_names en cls item parent_name =
     (let arrow = (if item_type item = XDEBUG_OBJECT_ITEM_TYPE_STATIC_PROPERTY then ''::'' else ''->'')
      in if item_name item \<noteq> []
         then
           (let info = get_property_info en (item_name item)
            in do {
              name \<leftarrow> shown_name cls info;
              Some (name, map_option (\<lambda>pn. pn @ arrow @ name) parent_name, fst (snd info))
            })
         else
           (case parent_name of
              None \<Rightarrow> Some (dec_int (item_index item), None, ''public'')
            | Some _ \<Rightarrow> None))"

definition object_element_export_xml_node ::
  "engine \<Rightarrow> exporter \<Rightarrow> nat \<Rightarrow> string option \<Rightarrow> string \<Rightarrow> object_item \<Rightarrow> export_options \<times> xml_node \<Rightarrow>
   (export_options \<times> xml_node) option" where
  "object_element_export_xml_node en export level parent_name cls item st =
     do {
       let (co, parent) = st in do {
       p \<leftarrow> page_at co level;
       shown \<leftarrow> in_page p;
       (co, parent) \<leftarrow>
         (if shown
          then do {
            (name, full_name, modifier) \<leftarrow> object_element_names en cls item parent_name;
            let st = add_xml_attribute_or_element en ''name'' name (co\<lparr>force_extended := 0\<rparr>, xml_node_init ''property'');
                st = (case full_name of None \<Rightarrow> st | Some f \<Rightarrow> add_xml_attribute_or_element en ''fullname'' f st);
                facet = (if item_type item = XDEBUG_OBJECT_ITEM_TYPE_STATIC_PROPERTY then ''static '' else []) @ modifier
            in do {
              (co, node) \<leftarrow> export (item_zv item) full_name (level + 1)
                (fst st, xml_add_attribute_ex ''facet'' facet (snd st));
              Some (co, xml_add_child parent node)
            }
          }
          else Some (co, parent));
       co \<leftarrow> next_element level co;
       Some (co, parent)
     }}"

section \<open>Values\<close>

text \<open>The loop over the elements of a table, when the level is not too deep.\<close>

definition export_children ::
  "('e \<Rightarrow> export_options \<times> xml_node \<Rightarrow> (export_options \<times> xml_node) option) \<Rightarrow> 'e list \<Rightarrow> nat \<Rightarrow>
   export_options \<times> xml_node \<Rightarrow> (export_options \<times> xml_node) option" where
  "export_children element es level st =
     (let (co, node) = st
      in if int level < max_depth co
         then do {
           p \<leftarrow> page_at co level;
           pg \<leftarrow> page p;
           let node = xml_add_attribute_ex ''page'' (dec_int pg) node;
               node = xml_add_attribute_ex ''pagesize'' (dec_int (max_children co)) node
           in do {
             co \<leftarrow> (if level = 0
                     then start_page level (to_int32 (max_children co * pg)) (to_int32 (max_children co * (pg + 1))) co
                     else start_page level 0 (max_children co) co);
             fold_option element es (co, node)
           }
         }
         else Some (co, node))"

definition export_array ::
  "engine \<Rightarrow> heap \<Rightarrow> (applied \<Rightarrow> exporter) \<Rightarrow> applied \<Rightarrow> nat \<Rightarrow> string option \<Rightarrow> nat \<Rightarrow> export_options \<times> xml_node \<Rightarrow>
   (export_options \<times> xml_node) option" where
  "export_array en h export ap a name level st =
     do {
       t \<leftarrow> ht_at h a;
       let (co, node) = st;
           node = xml_add_attribute_ex ''type'' ''array'' node;
           node = xml_add_attribute_ex ''children'' (if t \<noteq> [] then ''1'' else ''0'') node
       in if ap a < 1
          then do {
            es \<leftarrow> foreach_ind h t;
            export_children (array_element_export_xml_node en (export (inc_apply (Some a) ap)) level name) es level
              (co, xml_add_attribute_ex ''numchildren'' (dec (length t)) node)
          }
          else Some (co, xml_add_attribute_ex ''recursive'' ''1'' node)
     }"

definition merged_hash :: "engine \<Rightarrow> heap \<Rightarrow> php_object \<Rightarrow> object_item list option" where
  "merged_hash en h obj =
     do {
       ce \<leftarrow> class_at h (class_name obj);
       t \<leftarrow> object_table h obj;
       es \<leftarrow> (case t of None \<Rightarrow> Some [] | Some t \<Rightarrow> foreach_ind h (snd t));
       Some (concat (map object_item_add_zend_prop_to_merged_hash ce) @ map (object_item_add_to_merged_hash en) es)
     }"

text \<open>The merged table is made for this export, so nothing protects an object that holds itself but the depth.\<close>

definition export_object ::
  "engine \<Rightarrow> heap \<Rightarrow> exporter \<Rightarrow> nat \<Rightarrow> string option \<Rightarrow> nat \<Rightarrow> export_options \<times> xml_node \<Rightarrow>
   (export_options \<times> xml_node) option" where
  "export_object en h export a name level st =
     do {
       obj \<leftarrow> object_at h a;
       items \<leftarrow> merged_hash en h obj;
       let (co, node) = st;
           (co, node) = add_xml_attribute_or_element en ''classname'' (class_name obj)
             (co, xml_add_attribute_ex ''type'' ''object'' node);
           node = xml_add_attribute_ex ''children'' (if items \<noteq> [] then ''1'' else ''0'') node;
           node = xml_add_attribute_ex ''numchildren'' (dec (length items)) node
       in export_children (object_element_export_xml_node en export level name (class_name obj)) items level (co, node)
     }"

fun var_export_xml_node :: "engine \<Rightarrow> heap \<Rightarrow> nat \<Rightarrow> applied \<Rightarrow> exporter" where
  "var_export_xml_node en h 0 ap z name level st = None"
| "var_export_xml_node en h (Suc n) ap z name level st =
     do {
       z \<leftarrow> deref h z;
       let (co, node) = st; typed = (\<lambda>t. xml_add_attribute_ex ''type'' t node)
       in case z of
            IS_BOOL b \<Rightarrow> Some (co, add_unencoded_text_value en co (if b then ''1'' else ''0'') (typed ''bool''))
          | IS_NULL \<Rightarrow> Some (co, typed ''null'')
          | IS_LONG i \<Rightarrow> Some (co, add_unencoded_text_value en co (dec_int i) (typed ''int''))
          | IS_DOUBLE f \<Rightarrow> Some (co, add_unencoded_text_value en co (format_double en f) (typed ''float''))
          | IS_STRING s \<Rightarrow>
              (if max_data co = 0 \<or> int (length s) \<le> max_data co mod 2 ^ 64
               then Some (co, xml_add_attribute_ex ''size'' (dec (length s)) (add_encoded_text_value en co s (typed ''string'')))
               else Some (co, xml_add_attribute_ex ''size'' (dec (length s))
                      (add_encoded_text_value en co (take (nat (max_data co)) s) (typed ''string''))))
          | IS_ARRAY a \<Rightarrow> export_array en h (var_export_xml_node en h n) ap a name level st
          | IS_OBJECT a \<Rightarrow> export_object en h (var_export_xml_node en h n ap) a name level st
          | IS_RESOURCE i \<Rightarrow>
              Some (co, xml_add_text
                (''resource id='' @ [CHR 0x27] @ dec_int i @ [CHR 0x27] @ '' type='' @ [CHR 0x27] @
                 (case rsrc_type en i of None \<Rightarrow> ''Unknown'' | Some t \<Rightarrow> t) @ [CHR 0x27]) (typed ''resource''))
          | IS_UNDEF \<Rightarrow> Some (co, typed ''uninitialized'')
          | _ \<Rightarrow> Some (co, typed ''null'')
     }"

datatype var_type = XDEBUG_VAR_TYPE_NORMAL | XDEBUG_VAR_TYPE_STATIC | XDEBUG_VAR_TYPE_CONSTANT

text \<open>The fuel is one more than the depth.\<close>

definition get_zval_value_xml_node_ex ::
  "engine \<Rightarrow> heap \<Rightarrow> string option \<Rightarrow> zval \<Rightarrow> var_type \<Rightarrow> export_options \<Rightarrow> (export_options \<times> xml_node) option" where
  "get_zval_value_xml_node_ex en h name z vt co =
     (let st = (co\<lparr>force_extended := 0\<rparr>, xml_node_init ''property'');
          fuel = nat (max_depth co) + 1
      in case name of
           None \<Rightarrow> var_export_xml_node en h fuel (\<lambda>_. 0) z None 0 st
         | Some name \<Rightarrow>
             do {
               short_name \<leftarrow> (case vt of
                   XDEBUG_VAR_TYPE_NORMAL \<Rightarrow> prepare_variable_name name
                 | XDEBUG_VAR_TYPE_STATIC \<Rightarrow> Some (''::'' @ name)
                 | XDEBUG_VAR_TYPE_CONSTANT \<Rightarrow> Some name);
               var_export_xml_node en h fuel (\<lambda>_. 0) z (Some short_name) 0
                 (add_xml_attribute_or_element en ''fullname'' short_name
                   (add_xml_attribute_or_element en ''name'' short_name st))
             })"

section \<open>Static properties\<close>

definition attach_uninitialized_var ::
  "engine \<Rightarrow> string \<Rightarrow> export_options \<times> xml_node \<Rightarrow> (export_options \<times> xml_node) option" where
  "attach_uninitialized_var en name st =
     do {
       let (co, node) = st in do {
       tmp_name \<leftarrow> prepare_variable_name name;
       let (co, contents) = add_xml_attribute_or_element en ''fullname'' tmp_name
             (add_xml_attribute_or_element en ''name'' tmp_name (co\<lparr>force_extended := 0\<rparr>, xml_node_init ''property''))
       in Some (co, xml_add_child node (xml_add_attribute_ex ''type'' ''uninitialized'' contents))
     }}"

text \<open>The export always gives a node, so the branch for a missing one is never taken.\<close>

definition attach_property_with_contents ::
  "engine \<Rightarrow> heap \<Rightarrow> string \<Rightarrow> property_info \<Rightarrow> export_options \<times> xml_node \<times> nat \<Rightarrow>
   (export_options \<times> xml_node \<times> nat) option" where
  "attach_property_with_contents en h cls prop_info st =
     (let (co, node, children) = st; info = get_property_info en (prop_name prop_info)
      in if \<not> prop_static prop_info then Some st
         else do {
           name \<leftarrow> shown_name cls info;
           (co, contents) \<leftarrow> get_zval_value_xml_node_ex en h (Some name) (prop_value prop_info) XDEBUG_VAR_TYPE_STATIC co;
           Some (co, xml_add_child node (xml_add_attribute_ex ''facet'' (''static '' @ fst (snd info)) contents), Suc children)
         })"

definition attach_static_vars ::
  "engine \<Rightarrow> heap \<Rightarrow> string \<Rightarrow> export_options \<times> xml_node \<Rightarrow> (export_options \<times> xml_node) option" where
  "attach_static_vars en h cls st =
     do {
       let (co, node) = st;
           container = xml_add_attribute_ex ''name'' ''::'' (xml_node_init ''property'');
           container = xml_add_attribute_ex ''fullname'' ''::'' container;
           container = xml_add_attribute_ex ''type'' ''object'' container;
           container = xml_add_attribute_ex ''classname'' cls container
       in do {
         ps \<leftarrow> class_at h cls;
         (co, container, children) \<leftarrow>
           fold_option (attach_property_with_contents en h cls) ps (co\<lparr>force_extended := 0\<rparr>, container, 0);
         let container = xml_add_attribute_ex ''children'' (if children > 0 then ''1'' else ''0'') container;
             container = xml_add_attribute_ex ''numchildren'' (dec children) container
         in Some (co, xml_add_child node container)
       }
     }"

end
