(* ===== verification/SymbolFacts.thy ===== *)
theory SymbolFacts
  imports PhpSymbol VarXml
begin

text \<open>
  The full names that the export writes lead back: looking one up with \<open>get_php_symbol\<close> walks the same path through
  the arrays. Where this is not so, the theorems say what happens instead.
\<close>

section \<open>Escaping keys\<close>

text \<open>PHP documents that \<open>addslashes\<close> sets a backslash before quotes and backslashes and writes a zero byte as
  a backslash and the digit 0.\<close>

definition slash :: "char \<Rightarrow> string" where
  "slash c = (if c = nul then [CHR 0x5C, CHR ''0''] else if c \<in> {CHR 0x22, CHR 0x27, CHR 0x5C} then [CHR 0x5C, c] else [c])"

definition slashes :: "engine \<Rightarrow> bool" where
  "slashes en \<longleftrightarrow> (\<forall>s. addslashes en s = concat (map slash s))"

text \<open>No zero byte is followed by an octal digit.\<close>

fun plain_nuls :: "string \<Rightarrow> bool" where
  "plain_nuls [] \<longleftrightarrow> True"
| "plain_nuls [c] \<longleftrightarrow> True"
| "plain_nuls (c # d # s) \<longleftrightarrow> (c = nul \<longrightarrow> \<not> isoctal d) \<and> plain_nuls (d # s)"

lemma strip_plain: "c \<noteq> CHR 0x5C \<Longrightarrow> strip_loop (c # s) = emit c 0 (strip_loop s)"
  by (cases s) (auto simp: strip_loop.simps(3) emit_def)

lemma strip_escaped:
  assumes "c \<in> {CHR 0x22, CHR 0x27, CHR 0x5C}"
  shows "strip_loop (CHR 0x5C # c # s) = emit c 1 (strip_loop s)"
proof -
  have o: "\<not> isoctal (CHR 0x22)" "\<not> isoctal (CHR 0x27)" by (simp_all add: isoctal_def uchar_def)
  have t: "takeWhile isoctal (take 3 (c # s)) = []" if "\<not> isoctal c" for c using that by simp
  have e: "simple_escape (CHR 0x22) = None" "simple_escape (CHR 0x27) = None" "simple_escape (CHR 0x5C) = Some (CHR 0x5C)"
    by (simp_all add: simple_escape_def)
  consider "c = CHR 0x22" | "c = CHR 0x27" | "c = CHR 0x5C" using assms by blast
  then show ?thesis
  proof cases
    case 1
    show ?thesis unfolding 1 by (subst strip_loop.simps(3)) (simp only: Let_def e t [OF o(1)] option.case, simp)
  next
    case 2
    show ?thesis unfolding 2 by (subst strip_loop.simps(3)) (simp only: Let_def e t [OF o(2)] option.case, simp)
  next
    case 3
    show ?thesis unfolding 3 by (subst strip_loop.simps(3)) (simp only: Let_def e option.case, simp)
  qed
qed

lemma char_of_0: "char_of (0 :: nat) = nul"
proof -
  have "of_char (CHR 0x00) = (0 :: nat)" by simp
  then show ?thesis by (metis char_of_char nul_def)
qed

lemma char_of_octal_0: "char_of_digits 8 [CHR ''0''] = nul"
  using char_of_0 by (simp add: char_of_digits_def hex_value_def Let_def schar_def uchar_def tolower_def)

lemma octal_0: "isoctal (CHR ''0'')"
  by (simp add: isoctal_def uchar_def)

lemma strip_nul:
  assumes "s = [] \<or> \<not> isoctal (hd s)"
  shows "strip_loop (CHR 0x5C # CHR ''0'' # s) = emit nul 1 (strip_loop s)"
proof -
  have d: "takeWhile isoctal (take 3 (CHR ''0'' # s)) = [CHR ''0'']"
    using assms octal_0 by (cases s) simp_all
  have e: "simple_escape (CHR ''0'') = None" by (simp add: simple_escape_def)
  show ?thesis
    by (subst strip_loop.simps(3)) (simp only: Let_def d e char_of_octal_0 option.case, simp)
qed

lemma slash_start: "s \<noteq> [] \<Longrightarrow> \<not> isoctal (hd s) \<Longrightarrow> \<not> isoctal (hd (concat (map slash s)))"
  by (cases s) (auto simp: slash_def isoctal_def uchar_def)

lemma strip_slashes:
  "plain_nuls s \<Longrightarrow> strip_loop (concat (map slash s)) = (s, int (length (concat (map slash s))) - int (length s))"
proof (induction s rule: plain_nuls.induct)
  case (2 c)
  then show ?case
    using strip_plain [of c "[]"] strip_escaped [of c "[]"] strip_nul [of "[]"] by (auto simp: slash_def emit_def)
next
  case (3 c d s)
  define t where "t = concat (map slash (d # s))"
  have ih: "strip_loop t = (d # s, int (length t) - int (length (d # s)))" using 3 by (simp add: t_def)
  have t: "concat (map slash (c # d # s)) = slash c @ t" by (simp add: t_def)
  consider "c = nul" | "c \<noteq> nul" "c \<in> {CHR 0x22, CHR 0x27, CHR 0x5C}"
    | "c \<noteq> nul" "c \<notin> {CHR 0x22, CHR 0x27, CHR 0x5C}" by blast
  then show ?case
  proof cases
    case 1
    then have "\<not> isoctal (hd t)" using 3(2) slash_start [of "d # s"] by (simp add: t_def)
    then show ?thesis using strip_nul [of t] ih 1 unfolding t by (simp add: slash_def emit_def)
  next
    case 2
    then show ?thesis using strip_escaped [OF 2(2), of t] ih unfolding t by (simp add: slash_def emit_def)
  next
    case 3
    then show ?thesis using strip_plain [of c t] ih unfolding t by (simp add: slash_def emit_def)
  qed
qed simp

lemma stripcslashes_slashes:
  assumes "plain_nuls s"
  shows "\<exists>buf. stripcslashes (concat (map slash s) @ [nul]) (int (length (concat (map slash s)))) = Some (buf, int (length s)) \<and>
    take (length s) buf = s"
proof -
  let ?t = "concat (map slash s)"
  have "length s \<le> length ?t" by (induction s) (auto simp: slash_def)
  then show ?thesis using strip_slashes [OF assms] by (auto simp: stripcslashes_def Let_def)
qed

section \<open>Numbers as keys\<close>

lemma strtoull_dec_int:
  assumes "- (2 ^ 63) \<le> i" and "i < 2 ^ 63"
  shows "to_int64 (strtoull10 (dec_int i)) = i"
proof (cases "i < 0")
  case True
  then have "strtoull10 (dec_int i) = i mod 2 ^ 64"
    using assms by (simp add: strtoull10_def dec_int_def digits_val_dec isspace_def uchar_def Let_def)
  moreover have "(word_of_int (i mod 2 ^ 64) :: u64) = word_of_int i"
    by (simp add: word_of_int_eq_iff take_bit_eq_mod)
  ultimately show ?thesis using assms by (simp add: to_int64_def signed_of_int signed_take_bit_int_eq_self)
next
  case False
  obtain c cs where d: "dec (nat i) = c # cs" by (cases "dec (nat i)") auto
  then have c: "isdigit c" using dec_isdigit [of c "nat i"] by simp
  have "digits_val 0 (c # cs) = nat i" using digits_val_dec [of "nat i"] d by simp
  then have "strtoull10 (dec_int i) = i"
    using False assms c isdigit_not_sign [OF c] isdigit_not_space [OF c] d
    by (simp add: strtoull10_def dec_int_def Let_def)
  then show ?thesis using assms by (simp add: to_int64_def signed_of_int signed_take_bit_int_eq_self)
qed

section \<open>Running over a name\<close>

definition go :: "engine \<Rightarrow> heap \<Rightarrow> scope \<Rightarrow> string \<Rightarrow> nat \<Rightarrow> symbol \<Rightarrow> symbol option" where
  "go en h sc s n = fold_option (symbol_step en h sc s) [n..<length s]"

lemma go_step:
  assumes "s = pre @ c # post" and "n = length pre" and "symbol_step en h sc s n sy = Some sy'"
  shows "go en h sc s n sy = go en h sc s (Suc n) sy'"
proof -
  have "n < length s" using assms(1,2) by simp
  then have "[n..<length s] = n # [Suc n..<length s]" by (rule upt_conv_Cons)
  then show ?thesis using assms(3) by (simp add: go_def)
qed

lemma nth_here: "s = pre @ c # post \<Longrightarrow> s ! length pre = c"
  by simp

text \<open>The characters of a name change nothing.\<close>

definition name_char :: "char \<Rightarrow> bool" where
  "name_char c \<longleftrightarrow> c \<noteq> CHR ''$'' \<and> c \<noteq> CHR '':'' \<and> c \<noteq> CHR ''['' \<and> c \<noteq> CHR ''-''"

lemma go_name:
  assumes "sy_state sy = 1" and "s = pre @ w @ post" and "\<forall>c\<in>set w. name_char c"
  shows "go en h sc s (length pre) sy = go en h sc s (length pre + length w) sy"
  using assms(2,3)
proof (induction w arbitrary: pre)
  case (Cons c w)
  have "symbol_step en h sc s (length pre) sy = Some sy"
    using assms(1) Cons.prems by (auto simp: symbol_step_def symbol_step1_def name_char_def nth_append)
  then have "go en h sc s (length pre) sy = go en h sc s (Suc (length pre)) sy"
    using go_step [of s pre c "w @ post"] Cons.prems by simp
  also have "\<dots> = go en h sc s (length pre + length (c # w)) sy"
    using Cons.IH [of "pre @ [c]"] Cons.prems by simp
  finally show ?case .
qed simp

text \<open>Inside a quoted key.\<close>

lemma go_slashes:
  assumes "sy_state sy = 4" and "quotechar sy = CHR 0x22" and "s = pre @ concat (map slash w) @ post"
  shows "go en h sc s (length pre) sy = go en h sc s (length pre + length (concat (map slash w))) sy"
  using assms(3)
proof (induction w arbitrary: pre)
  case (Cons c w)
  have sy: "sy\<lparr>sy_state := 10, sy_state := 4\<rparr> = sy" using assms(1) by simp
  have two: "go en h sc s (length pre) sy = go en h sc s (Suc (Suc (length pre))) sy"
    if "slash c = [CHR 0x5C, d]" for d
  proof -
    have s: "s = pre @ CHR 0x5C # d # concat (map slash w) @ post" "s = (pre @ [CHR 0x5C]) @ d # concat (map slash w) @ post"
      using Cons.prems that by simp_all
    have "symbol_step en h sc s (length pre) sy = Some (sy\<lparr>sy_state := 10\<rparr>)"
      using assms(1) nth_here [OF s(1)] by (simp add: symbol_step_def)
    moreover have "symbol_step en h sc s (Suc (length pre)) (sy\<lparr>sy_state := 10\<rparr>) = Some sy"
      using assms(1) by (simp add: symbol_step_def)
    ultimately show ?thesis using go_step [OF s(1)] go_step [OF s(2)] by simp
  qed
  have one: "go en h sc s (length pre) sy = go en h sc s (Suc (length pre)) sy" if "slash c = [c]"
  proof -
    have s: "s = pre @ c # concat (map slash w) @ post" using Cons.prems that by simp
    have "c \<noteq> CHR 0x5C" "c \<noteq> CHR 0x22" using that by (auto simp: slash_def split: if_splits)
    then have "symbol_step en h sc s (length pre) sy = Some sy"
      using assms(1,2) nth_here [OF s] by (simp add: symbol_step_def)
    then show ?thesis using go_step [OF s] by simp
  qed
  have "go en h sc s (length pre) sy = go en h sc s (length (pre @ slash c)) sy"
    using two one by (auto simp: slash_def split: if_splits)
  then show ?case using Cons.IH [of "pre @ slash c"] Cons.prems by (simp add: add.assoc)
qed simp

lemma go_digits:
  assumes "sy_state sy = 6" and "s = pre @ w @ post" and "\<forall>c\<in>set w. isdigit c"
  shows "go en h sc s (length pre) sy = go en h sc s (length pre + length w) sy"
  using assms(2,3)
proof (induction w arbitrary: pre)
  case (Cons c w)
  have "c \<noteq> CHR '']''" using Cons.prems(2) by (auto simp: isdigit_def uchar_def)
  then have "symbol_step en h sc s (length pre) sy = Some sy"
    using assms(1) Cons.prems by (auto simp: symbol_step_def nth_append)
  then have "go en h sc s (length pre) sy = go en h sc s (Suc (length pre)) sy"
    using go_step [of s pre c "w @ post"] Cons.prems by simp
  also have "\<dots> = go en h sc s (length pre + length (c # w)) sy"
    using Cons.IH [of "pre @ [c]"] Cons.prems by simp
  finally show ?case .
qed simp

section \<open>Fetching an element\<close>

definition key_ok :: "pkey \<Rightarrow> bool" where
  "key_ok k \<longleftrightarrow> (case k of Key_num i \<Rightarrow> - (2 ^ 63) \<le> i \<and> i < 2 ^ 63 | Key_str s \<Rightarrow> plain_nuls s)"

lemma enter_class_ok:
  assumes "heap_ok h" and "valid h (retval_of sy)"
  shows "\<exists>sy'. enter_class h sy = Some sy' \<and> sy_state sy' = sy_state sy \<and> retval_of sy' = retval_of sy"
proof -
  obtain b where b: "is_objectish h (retval_of sy) = Some b"
    using assms(2) by (cases "retval_of sy") (auto simp: is_objectish_def valid_def)
  obtain z where z: "deref h (retval_of sy) = Some z" "valid h z" using deref_valid [OF assms] by blast
  then obtain c where c: "fetch_classname_from_zval h (retval_of sy) = Some c"
    by (cases z) (auto simp: fetch_classname_from_zval_def valid_def)
  show ?thesis using b c by (cases b; cases c) (simp_all add: enter_class_def)
qed

text \<open>The end of an index fetches the element.\<close>

lemma end_index_ok:
  assumes "heap_ok h" and "keyword sy = Some k"
    and "fetch_zval_from_symbol_table en h sc (retval_of sy) (drop k s) (ctr - k) (fetch_type sy)
      (current_classname sy) (cc_length sy) (current_ce sy) = Some v" and "valid h v"
  shows "\<exists>sy'. end_index en h sc s ctr sy = Some sy' \<and> sy_state sy' = sy_state sy \<and> retval_of sy' = v \<and> keyword sy' = None"
  using enter_class_ok [of h "sy\<lparr>retval_of := v, current_classname := None, cc_length := 0\<rparr>"] assms
  by (auto simp: end_index_def fetch_keyword_def)

lemma fetch_str:
  assumes "deref h z = Some (IS_ARRAY a)" and "ht_at h a = Some t" and "map_of t (Key_str k) = Some v"
    and "plain_nuls k" and "take len name = concat (map slash k)"
  shows "fetch_zval_from_symbol_table en h sc z name len XF_ST_ARRAY_INDEX_ASSOC ccn ccnl ce = Some v"
proof -
  obtain buf where "stripcslashes (concat (map slash k) @ [nul]) (int (length (concat (map slash k)))) = Some (buf, int (length k))"
    "take (length k) buf = k"
    using stripcslashes_slashes [OF assms(4)] by blast
  then show ?thesis
    using assms by (simp add: fetch_zval_from_symbol_table_def fetch_ht_from_zval_def fetch_assoc_def find_in_def xf_defs)
qed

lemma fetch_num:
  assumes "deref h z = Some (IS_ARRAY a)" and "ht_at h a = Some t" and "map_of t (Key_num i) = Some v"
    and "- (2 ^ 63) \<le> i" "i < 2 ^ 63" and "take len name = dec_int i"
  shows "fetch_zval_from_symbol_table en h sc z name len XF_ST_ARRAY_INDEX_NUM ccn ccnl ce = Some v"
  using assms strtoull_dec_int [OF assms(4,5)]
  by (simp add: fetch_zval_from_symbol_table_def fetch_ht_from_zval_def find_in_def xf_defs)

text \<open>What stands between the bracket and the end of an index.\<close>

definition index_text :: "pkey \<Rightarrow> string" where
  "index_text k =
     (case k of Key_str w \<Rightarrow> CHR 0x22 # concat (map slash w) @ [CHR 0x22, CHR '']''] | Key_num i \<Rightarrow> dec_int i @ '']'')"

lemma go_quoted:
  assumes "heap_ok h" and "sy_state sy = 3"
    and "\<And>name len ccn ccnl ce. take len name = concat (map slash w) \<Longrightarrow>
      fetch_zval_from_symbol_table en h sc (retval_of sy) name len XF_ST_ARRAY_INDEX_ASSOC ccn ccnl ce = Some v"
    and "valid h v" and "s = pre @ index_text (Key_str w) @ post"
  shows "\<exists>sy'. go en h sc s (length pre) sy = go en h sc s (length pre + length (index_text (Key_str w))) sy' \<and>
    sy_state sy' = 1 \<and> retval_of sy' = v \<and> keyword sy' = None"
proof -
  let ?w = "concat (map slash w)"
  have s1: "s = pre @ CHR 0x22 # ?w @ [CHR 0x22, CHR '']''] @ post" using assms(5) by (simp add: index_text_def)
  define sy1 where "sy1 = sy\<lparr>sy_state := 4, keyword := Some (length pre + 1), quotechar := CHR 0x22, fetch_type := XF_ST_ARRAY_INDEX_ASSOC\<rparr>"
  have "symbol_step en h sc s (length pre) sy = Some sy1"
    using assms(2) nth_here [OF s1] by (simp add: symbol_step_def sy1_def isdigit_def uchar_def)
  from go_step [OF s1 refl this] have g1: "go en h sc s (length pre) sy = go en h sc s (Suc (length pre)) sy1" .
  have s2: "s = (pre @ [CHR 0x22]) @ ?w @ [CHR 0x22, CHR '']''] @ post" using s1 by simp
  have g2: "go en h sc s (Suc (length pre)) sy1 = go en h sc s (Suc (length pre) + length ?w) sy1"
    using go_slashes [OF _ _ s2, of sy1] by (simp add: sy1_def)
  define n where "n = Suc (length pre) + length ?w"
  have s3: "s = (pre @ [CHR 0x22] @ ?w) @ CHR 0x22 # '']'' @ post" using s1 by simp
  have n: "length (pre @ [CHR 0x22] @ ?w) = n" by (simp add: n_def)
  have "fetch_zval_from_symbol_table en h sc (retval_of sy1) (drop (length pre + 1) s) (n - (length pre + 1))
      (fetch_type sy1) (current_classname sy1) (cc_length sy1) (current_ce sy1) = Some v"
    unfolding sy1_def by (simp, rule assms(3)) (simp add: n_def s1)
  then obtain sy2 where sy2: "end_index en h sc s n (sy1\<lparr>quotechar := nul, sy_state := 5\<rparr>) = Some sy2"
    "sy_state sy2 = 5" "retval_of sy2 = v" "keyword sy2 = None"
    using end_index_ok [OF assms(1), of "sy1\<lparr>quotechar := nul, sy_state := 5\<rparr>" "length pre + 1" en sc s n v] assms(4)
    by (auto simp: sy1_def)
  have "symbol_step en h sc s n sy1 = Some sy2"
    using sy2(1) nth_here [OF s3] n by (simp add: symbol_step_def sy1_def)
  from go_step [OF s3 n [symmetric] this] have g3: "go en h sc s n sy1 = go en h sc s (Suc n) sy2" .
  have s4: "s = (pre @ [CHR 0x22] @ ?w @ [CHR 0x22]) @ CHR '']'' # post" using s1 by simp
  have n4: "Suc n = length (pre @ [CHR 0x22] @ ?w @ [CHR 0x22])" by (simp add: n_def)
  have "symbol_step en h sc s (Suc n) sy2 = Some (sy2\<lparr>sy_state := 1\<rparr>)"
    using sy2(2) nth_here [OF s4] n4 by (simp add: symbol_step_def)
  from go_step [OF s4 n4 this] have g4: "go en h sc s (Suc n) sy2 = go en h sc s (Suc (Suc n)) (sy2\<lparr>sy_state := 1\<rparr>)" .
  have l: "length pre + length (index_text (Key_str w)) = Suc (Suc n)" by (simp add: n_def index_text_def)
  show ?thesis
    unfolding l using g1 g2 [folded n_def] g3 g4 sy2 by (intro exI [of _ "sy2\<lparr>sy_state := 1\<rparr>"]) simp
qed

lemma go_string_index:
  assumes "heap_ok h" and "sy_state sy = 3" and "deref h (retval_of sy) = Some (IS_ARRAY a)" and "ht_at h a = Some t"
    and "map_of t (Key_str w) = Some v" and "valid h v" and "plain_nuls w"
    and "s = pre @ index_text (Key_str w) @ post"
  shows "\<exists>sy'. go en h sc s (length pre) sy = go en h sc s (length pre + length (index_text (Key_str w))) sy' \<and>
    sy_state sy' = 1 \<and> retval_of sy' = v \<and> keyword sy' = None"
  by (rule go_quoted [OF assms(1,2) _ assms(6,8)]) (rule fetch_str [OF assms(3-5,7)])

text \<open>The digits of a number are in state 6, after a sign or not.\<close>

definition in_number :: "symbol \<Rightarrow> nat \<Rightarrow> symbol \<Rightarrow> bool" where
  "in_number sy k sy6 \<longleftrightarrow> sy_state sy6 = 6 \<and> keyword sy6 = Some k \<and> fetch_type sy6 = XF_ST_ARRAY_INDEX_NUM \<and>
     retval_of sy6 = retval_of sy"

lemma digit_char: "isdigit c \<Longrightarrow> c \<noteq> CHR 0x27 \<and> c \<noteq> CHR 0x22 \<and> c \<noteq> CHR ''-'' \<and> c \<noteq> CHR '']''"
  by (auto simp: isdigit_def uchar_def)

lemma minus_char: "\<not> isdigit (CHR ''-'')"
  by (simp add: isdigit_def uchar_def)

lemma go_unsigned:
  assumes "sy_state sy = 3" and "isdigit c" and "\<forall>c\<in>set ds. isdigit c" and "s = pre @ (c # ds) @ post"
  shows "\<exists>sy6. go en h sc s (length pre) sy = go en h sc s (length pre + length (c # ds)) sy6 \<and> in_number sy (length pre) sy6"
proof -
  have s1: "s = pre @ c # ds @ post" and s2: "s = (pre @ [c]) @ ds @ post" using assms(4) by simp_all
  define sy6 where "sy6 = sy\<lparr>cc_length := 0, sy_state := 6, keyword := Some (length pre), fetch_type := XF_ST_ARRAY_INDEX_NUM\<rparr>"
  have "symbol_step en h sc s (length pre) sy = Some sy6"
    using assms(1,2) nth_here [OF s1] digit_char [OF assms(2)] by (simp add: symbol_step_def sy6_def)
  from go_step [OF s1 refl this] have g1: "go en h sc s (length pre) sy = go en h sc s (Suc (length pre)) sy6" .
  have "go en h sc s (Suc (length pre)) sy6 = go en h sc s (length pre + length (c # ds)) sy6"
    using go_digits [OF _ s2 assms(3), of sy6] by (simp add: sy6_def)
  with g1 show ?thesis by (intro exI [of _ sy6]) (simp add: sy6_def in_number_def)
qed

lemma go_signed:
  assumes "sy_state sy = 3" and "isdigit c" and "\<forall>c\<in>set ds. isdigit c" and "s = pre @ (CHR ''-'' # c # ds) @ post"
  shows "\<exists>sy6. go en h sc s (length pre) sy = go en h sc s (length pre + length (CHR ''-'' # c # ds)) sy6 \<and>
    in_number sy (length pre) sy6"
proof -
  have s1: "s = pre @ CHR ''-'' # c # ds @ post" and s2: "s = (pre @ [CHR ''-'']) @ c # ds @ post"
    and s3: "s = (pre @ [CHR ''-'', c]) @ ds @ post" using assms(4) by simp_all
  define sy9 where "sy9 = sy\<lparr>sy_state := 9, keyword := Some (length pre)\<rparr>"
  define sy6 where "sy6 = sy9\<lparr>sy_state := 6, fetch_type := XF_ST_ARRAY_INDEX_NUM\<rparr>"
  have "symbol_step en h sc s (length pre) sy = Some sy9"
    using assms(1) nth_here [OF s1] minus_char by (simp add: symbol_step_def sy9_def)
  from go_step [OF s1 refl this] have g1: "go en h sc s (length pre) sy = go en h sc s (Suc (length pre)) sy9" .
  have n2: "Suc (length pre) = length (pre @ [CHR ''-''])" by simp
  have "symbol_step en h sc s (Suc (length pre)) sy9 = Some sy6"
    unfolding n2 using nth_here [OF s2] assms(2) by (simp add: symbol_step_def sy9_def sy6_def del: length_append)
  from go_step [OF s2 n2 this] have g2: "go en h sc s (Suc (length pre)) sy9 = go en h sc s (Suc (Suc (length pre))) sy6" .
  have "go en h sc s (Suc (Suc (length pre))) sy6 = go en h sc s (length pre + length (CHR ''-'' # c # ds)) sy6"
    using go_digits [OF _ s3 assms(3), of sy6] by (simp add: sy6_def)
  with g1 g2 show ?thesis by (intro exI [of _ sy6]) (simp add: sy6_def sy9_def in_number_def)
qed

lemma go_number:
  assumes "sy_state sy = 3" and "s = pre @ dec_int i @ post"
  shows "\<exists>sy6. go en h sc s (length pre) sy = go en h sc s (length pre + length (dec_int i)) sy6 \<and> in_number sy (length pre) sy6"
proof -
  have digits: "\<exists>c ds. dec n = c # ds \<and> isdigit c \<and> (\<forall>c\<in>set ds. isdigit c)" for n
    using dec_isdigit [of _ n] by (cases "dec n") auto
  show ?thesis
  proof (cases "i < 0")
    case True
    obtain c ds where "dec (nat (- i)) = c # ds" "isdigit c" "\<forall>c\<in>set ds. isdigit c" using digits by blast
    with True show ?thesis using go_signed [OF assms(1), of c ds s pre post] assms(2) by (simp add: dec_int_def)
  next
    case False
    obtain c ds where "dec (nat i) = c # ds" "isdigit c" "\<forall>c\<in>set ds. isdigit c" using digits by blast
    with False show ?thesis using go_unsigned [OF assms(1), of c ds s pre post] assms(2) by (simp add: dec_int_def)
  qed
qed

lemma go_number_index:
  assumes "heap_ok h" and "sy_state sy = 3" and "deref h (retval_of sy) = Some (IS_ARRAY a)" and "ht_at h a = Some t"
    and "map_of t (Key_num i) = Some v" and "valid h v" and "- (2 ^ 63) \<le> i" and "i < 2 ^ 63"
    and "s = pre @ index_text (Key_num i) @ post"
  shows "\<exists>sy'. go en h sc s (length pre) sy = go en h sc s (length pre + length (index_text (Key_num i))) sy' \<and>
    sy_state sy' = 1 \<and> retval_of sy' = v \<and> keyword sy' = None"
proof -
  define n where "n = length pre + length (dec_int i)"
  have s: "s = pre @ dec_int i @ CHR '']'' # post" using assms(9) by (simp add: index_text_def)
  obtain sy6 where g: "go en h sc s (length pre) sy = go en h sc s n sy6" and sy6: "sy_state sy6 = 6"
    "keyword sy6 = Some (length pre)" "fetch_type sy6 = XF_ST_ARRAY_INDEX_NUM" "retval_of sy6 = retval_of sy"
    using go_number [OF assms(2) s, of en h sc] by (auto simp: in_number_def n_def)
  have s4: "s = (pre @ dec_int i) @ CHR '']'' # post" and n4: "n = length (pre @ dec_int i)" using s by (simp_all add: n_def)
  have "fetch_zval_from_symbol_table en h sc (retval_of sy6) (drop (length pre) s) (n - length pre)
      (fetch_type sy6) (current_classname sy6) (cc_length sy6) (current_ce sy6) = Some v"
    unfolding sy6 by (rule fetch_num [OF assms(3-5,7,8)]) (simp add: n_def s)
  then obtain sy7 where sy7: "end_index en h sc s n (sy6\<lparr>sy_state := 1\<rparr>) = Some sy7"
    "sy_state sy7 = 1" "retval_of sy7 = v" "keyword sy7 = None"
    using end_index_ok [OF assms(1), of "sy6\<lparr>sy_state := 1\<rparr>" "length pre" en sc s n v] assms(6) sy6(2) by auto
  have "symbol_step en h sc s n sy6 = Some sy7"
    using sy7(1) sy6(1) nth_here [OF s4] n4 by (simp add: symbol_step_def)
  from go_step [OF s4 n4 this] have "go en h sc s n sy6 = go en h sc s (Suc n) sy7" .
  moreover have "length pre + length (index_text (Key_num i)) = Suc n" by (simp add: n_def index_text_def)
  ultimately show ?thesis using g sy7 by (intro exI [of _ sy7]) simp
qed

section \<open>Paths\<close>

text \<open>The value that a list of keys leads to through arrays.\<close>

fun follow :: "heap \<Rightarrow> zval \<Rightarrow> pkey list \<Rightarrow> zval option" where
  "follow h z [] = Some z"
| "follow h z (k # ks) =
     do {
       z \<leftarrow> deref h z;
       case z of
         IS_ARRAY a \<Rightarrow> do { t \<leftarrow> ht_at h a; v \<leftarrow> map_of t k; follow h v ks }
       | _ \<Rightarrow> None
     }"

text \<open>The full name that the export gives to the element behind these keys.\<close>

definition path_name :: "engine \<Rightarrow> string \<Rightarrow> pkey list \<Rightarrow> string" where
  "path_name en name ks = foldl (\<lambda>pn k. array_element_full_name en k (Some pn)) name ks"

lemma path_name_text:
  "slashes en \<Longrightarrow> path_name en name ks = name @ concat (map (\<lambda>k. CHR ''['' # index_text k) ks)"
proof (induction ks arbitrary: name)
  case (Cons k ks)
  have "array_element_full_name en k (Some name) = name @ CHR ''['' # index_text k"
    using Cons.prems by (cases k) (simp_all add: array_element_full_name_def index_text_def slashes_def)
  then show ?case using Cons by (simp add: path_name_def)
qed (simp add: path_name_def)

lemma follow_step:
  assumes "heap_ok h" and "follow h z (k # ks) = Some v"
  obtains a t y where "deref h z = Some (IS_ARRAY a)" and "ht_at h a = Some t" and "map_of t k = Some y"
    and "valid h y" and "follow h y ks = Some v"
proof -
  obtain z' where z': "deref h z = Some z'" using assms(2) by (auto simp: bind_eq_Some_conv)
  obtain a where a: "z' = IS_ARRAY a" using assms(2) z' by (cases z') auto
  obtain t y where t: "ht_at h a = Some t" "map_of t k = Some y" "follow h y ks = Some v"
    using assms(2) z' a by (auto simp: bind_eq_Some_conv)
  have "(k, y) \<in> set t" using t(2) by (rule map_of_SomeD)
  then have "valid h y" using assms(1) t(1) unfolding heap_ok_def by fastforce
  then show thesis using that z' a t by blast
qed

lemma go_index:
  assumes "heap_ok h" and "sy_state sy = 3" and "deref h (retval_of sy) = Some (IS_ARRAY a)" and "ht_at h a = Some t"
    and "map_of t k = Some v" and "valid h v" and "key_ok k" and "s = pre @ index_text k @ post"
  shows "\<exists>sy'. go en h sc s (length pre) sy = go en h sc s (length pre + length (index_text k)) sy' \<and>
    sy_state sy' = 1 \<and> retval_of sy' = v \<and> keyword sy' = None"
  using assms go_string_index [OF assms(1-4) _ assms(6), of _ s pre post en sc]
    go_number_index [OF assms(1-4) _ assms(6), of _ s pre post en sc]
  by (cases k) (auto simp: key_ok_def)

lemma go_path:
  assumes "heap_ok h" and "sy_state sy = 1" and "keyword sy = None" and "follow h (retval_of sy) ks = Some v"
    and "\<forall>k\<in>set ks. key_ok k" and "s = pre @ concat (map (\<lambda>k. CHR ''['' # index_text k) ks)"
  shows "\<exists>sy'. go en h sc s (length pre) sy = Some sy' \<and> keyword sy' = None \<and> retval_of sy' = v"
  using assms(2-6)
proof (induction ks arbitrary: pre sy)
  case Nil
  then show ?case by (simp add: go_def)
next
  case (Cons k ks)
  let ?rest = "concat (map (\<lambda>k. CHR ''['' # index_text k) ks)"
  obtain a t y where f: "deref h (retval_of sy) = Some (IS_ARRAY a)" "ht_at h a = Some t" "map_of t k = Some y"
    "valid h y" "follow h y ks = Some v"
    using follow_step [OF assms(1) Cons.prems(3)] by blast
  have s1: "s = pre @ CHR ''['' # index_text k @ ?rest" and s2: "s = (pre @ ''['') @ index_text k @ ?rest"
    and s3: "s = (pre @ ''['' @ index_text k) @ ?rest" using Cons.prems(5) by simp_all
  have "symbol_step en h sc s (length pre) sy = Some (sy\<lparr>sy_state := 3\<rparr>)"
    using Cons.prems(1,2) nth_here [OF s1] by (simp add: symbol_step_def symbol_step1_def)
  from go_step [OF s1 refl this] have g1: "go en h sc s (length pre) sy = go en h sc s (length (pre @ ''['')) (sy\<lparr>sy_state := 3\<rparr>)"
    by simp
  obtain sy1 where g2: "go en h sc s (length (pre @ ''['')) (sy\<lparr>sy_state := 3\<rparr>) =
      go en h sc s (length (pre @ ''['' @ index_text k)) sy1"
    "sy_state sy1 = 1" "retval_of sy1 = y" "keyword sy1 = None"
    using go_index [OF assms(1) _ _ f(2-4) _ s2, of "sy\<lparr>sy_state := 3\<rparr>" en sc] f(1) Cons.prems(4)
    by (auto simp: add.assoc)
  have "\<exists>sy'. go en h sc s (length (pre @ ''['' @ index_text k)) sy1 = Some sy' \<and> keyword sy' = None \<and> retval_of sy' = v"
    by (rule Cons.IH [OF g2(2,4) _ _ s3]) (use f(5) g2(3) Cons.prems(4) in auto)
  then show ?case using g1 g2(1) by simp
qed

text \<open>A variable name as in the source of a script.\<close>

definition variable_name :: "string \<Rightarrow> bool" where
  "variable_name nm \<longleftrightarrow> nm \<noteq> [] \<and> (\<forall>c\<in>set nm. name_char c)"

text \<open>Up to the first bracket the machine holds the name of the variable as its keyword.\<close>

lemma go_root:
  assumes "variable_name nm" and "s = CHR ''$'' # nm @ post"
  shows "\<exists>sy. go en h sc s 0 symbol_start = go en h sc s (Suc (length nm)) sy \<and>
    sy = symbol_start\<lparr>keyword := Some 1, sy_state := 1\<rparr>"
proof -
  obtain c cs where nm: "nm = c # cs" "name_char c" "\<forall>c\<in>set cs. name_char c"
    using assms(1) by (cases nm) (auto simp: variable_name_def)
  define sy where "sy = symbol_start\<lparr>keyword := Some 1, sy_state := 1\<rparr>"
  have s0: "s = [] @ CHR ''$'' # nm @ post" and s1: "s = ''$'' @ c # cs @ post" and s2: "s = [CHR ''$'', c] @ cs @ post"
    using assms(2) nm(1) by simp_all
  have "symbol_step en h sc s 0 symbol_start = Some (symbol_start\<lparr>keyword := Some 1\<rparr>)"
    using s0 by (simp add: symbol_step_def symbol_start_def)
  from go_step [OF s0 _ this] have g0: "go en h sc s 0 symbol_start = go en h sc s 1 (symbol_start\<lparr>keyword := Some 1\<rparr>)" by simp
  have "symbol_step en h sc s 1 (symbol_start\<lparr>keyword := Some 1\<rparr>) = Some sy"
    using s1 nm(2) by (simp add: symbol_step_def symbol_step1_def symbol_start_def sy_def name_char_def)
  from go_step [OF s1 _ this] have g1: "go en h sc s 1 (symbol_start\<lparr>keyword := Some 1\<rparr>) = go en h sc s 2 sy"
    by (simp add: numeral_2_eq_2)
  have "go en h sc s 2 sy = go en h sc s (Suc (length nm)) sy"
    using go_name [OF _ s2 nm(3), of sy en h sc] nm(1) by (simp add: sy_def numeral_2_eq_2)
  with g0 g1 show ?thesis by (simp add: sy_def)
qed

lemma fetch_variable:
  assumes "compiled_vars sc = Some (Some cvs)" and "map_of cvs nm = Some z" and "take len name = nm"
  shows "fetch_zval_from_symbol_table en h sc IS_UNDEF name len XF_ST_ROOT ccn ccnl ce = Some z"
  using assms by (simp add: fetch_zval_from_symbol_table_def deref_def skip_indirect_def skip_reference_def
      fetch_ht_from_zval_def fetch_root_def xf_defs)

text \<open>The keyword at its end is fetched.\<close>

lemma fetch_root_keyword:
  assumes "compiled_vars sc = Some (Some cvs)" and "map_of cvs nm = Some z" and "s = CHR ''$'' # nm @ post"
  shows "fetch_keyword en h sc s (Suc (length nm)) 1 (symbol_start\<lparr>keyword := Some 1, sy_state := 1\<rparr>) =
    Some (symbol_start\<lparr>keyword := Some 1, sy_state := 1, retval_of := z\<rparr>)"
  using fetch_variable [OF assms(1,2), of "length nm" "drop 1 s" en h None 0 None] assms(3)
  by (simp add: fetch_keyword_def symbol_start_def)

text \<open>A name without indices.\<close>

lemma variable_found:
  assumes "compiled_vars sc = Some (Some cvs)" and "map_of cvs nm = Some z" and "variable_name nm"
  shows "get_php_symbol en h sc (CHR ''$'' # nm) = Some z"
proof -
  define s where "s = CHR ''$'' # nm @ []"
  define sy where "sy = symbol_start\<lparr>keyword := Some 1, sy_state := 1\<rparr>"
  have "go en h sc s 0 symbol_start = Some sy"
    using go_root [OF assms(3) s_def, of en h sc] by (simp add: go_def s_def sy_def)
  moreover have "fetch_keyword en h sc s (length s) 1 sy = Some (sy\<lparr>retval_of := z\<rparr>)"
    using fetch_root_keyword [OF assms(1,2) s_def, of en h] by (simp add: sy_def s_def)
  ultimately show ?thesis by (simp add: get_php_symbol_def go_def s_def sy_def)
qed

lemma go_to_bracket:
  assumes "variable_name nm" and "compiled_vars sc = Some (Some cvs)" and "map_of cvs nm = Some z"
    and "s = CHR ''$'' # nm @ CHR ''['' # post"
  shows "\<exists>sy3. go en h sc s 0 symbol_start = go en h sc s (Suc (Suc (length nm))) sy3 \<and>
    sy_state sy3 = 3 \<and> retval_of sy3 = z \<and> keyword sy3 = None"
proof -
  define sy where "sy = symbol_start\<lparr>keyword := Some 1, sy_state := 1\<rparr>"
  have g: "go en h sc s 0 symbol_start = go en h sc s (Suc (length nm)) sy"
    using go_root [OF assms(1,4)] by (simp add: sy_def)
  note f = fetch_root_keyword [OF assms(2-4), of en h, folded sy_def]
  have s1: "s = (CHR ''$'' # nm) @ CHR ''['' # post" using assms(4) by simp
  define sy3 where "sy3 = sy\<lparr>retval_of := z, current_ce := None, keyword := None, sy_state := 3\<rparr>"
  have "sy_state sy = 1" "keyword sy = Some 1" by (simp_all add: sy_def)
  then have "symbol_step en h sc s (length (CHR ''$'' # nm)) sy = Some sy3"
    using nth_here [OF s1] f by (simp add: symbol_step_def symbol_step1_def sy3_def)
  from go_step [OF s1 refl this]
  have "go en h sc s (Suc (length nm)) sy = go en h sc s (Suc (Suc (length nm))) sy3" by simp
  with g show ?thesis by (intro exI [of _ sy3]) (simp add: sy3_def)
qed

lemma full_name_found:
  assumes "slashes en" and "heap_ok h" and "compiled_vars sc = Some (Some cvs)" and "map_of cvs nm = Some z" and "valid h z"
    and "variable_name nm" and "\<forall>k\<in>set ks. key_ok k" and "follow h z ks = Some v"
  shows "get_php_symbol en h sc (path_name en (CHR ''$'' # nm) ks) = Some v"
proof -
  let ?rest = "concat (map (\<lambda>k. CHR ''['' # index_text k) ks)"
  define s where "s = path_name en (CHR ''$'' # nm) ks"
  have s: "s = CHR ''$'' # nm @ ?rest" using path_name_text [OF assms(1)] by (simp add: s_def)
  define sy where "sy = symbol_start\<lparr>keyword := Some 1, sy_state := 1\<rparr>"
  have "\<exists>sy'. go en h sc s 0 symbol_start = Some sy' \<and>
      (keyword sy' = None \<and> retval_of sy' = v \<or> sy' = sy \<and> ks = [])"
  proof (cases ks)
    case Nil
    then have "length s = Suc (length nm)" using s by simp
    then show ?thesis using Nil go_root [OF assms(6) s, of en h sc] by (simp add: go_def sy_def)
  next
    case (Cons k ks')
    let ?more = "concat (map (\<lambda>k. CHR ''['' # index_text k) ks')"
    obtain a t y where fo: "deref h z = Some (IS_ARRAY a)" "ht_at h a = Some t" "map_of t k = Some y" "valid h y"
      "follow h y ks' = Some v"
      using follow_step [OF assms(2) assms(8) [unfolded Cons]] by blast
    have s1: "s = CHR ''$'' # nm @ CHR ''['' # index_text k @ ?more"
      and s2: "s = (CHR ''$'' # nm @ ''['') @ index_text k @ ?more"
      and s3: "s = (CHR ''$'' # nm @ ''['' @ index_text k) @ ?more" using s Cons by simp_all
    obtain sy3 where g1: "go en h sc s 0 symbol_start = go en h sc s (length (CHR ''$'' # nm @ ''['')) sy3"
      and sy3: "sy_state sy3 = 3" "retval_of sy3 = z" "keyword sy3 = None"
      using go_to_bracket [OF assms(6,3,4) s1, of en h] by auto
    obtain sy1 where g2: "go en h sc s (length (CHR ''$'' # nm @ ''['')) sy3 =
        go en h sc s (length (CHR ''$'' # nm @ ''['' @ index_text k)) sy1"
      "sy_state sy1 = 1" "retval_of sy1 = y" "keyword sy1 = None"
      using go_index [OF assms(2) sy3(1) _ fo(2-4) _ s2, of en sc] fo(1) assms(7) Cons sy3(2)
      by (auto simp: add.assoc)
    have "\<exists>sy'. go en h sc s (length (CHR ''$'' # nm @ ''['' @ index_text k)) sy1 = Some sy' \<and> keyword sy' = None \<and>
        retval_of sy' = v"
      by (rule go_path [OF assms(2) g2(2,4) _ _ s3]) (use fo(5) g2(3) assms(7) Cons in auto)
    then show ?thesis using g1 g2(1) by auto
  qed
  then obtain sy' where sy': "go en h sc s 0 symbol_start = Some sy'"
    "keyword sy' = None \<and> retval_of sy' = v \<or> sy' = sy \<and> ks = []" by auto
  from sy'(2) show ?thesis
  proof
    assume "keyword sy' = None \<and> retval_of sy' = v"
    then show ?thesis using sy'(1) by (simp add: get_php_symbol_def go_def s_def)
  next
    assume k: "sy' = sy \<and> ks = []"
    then have "z = v" "length s = Suc (length nm)" "keyword sy = Some 1" using assms(8) s by (simp_all add: sy_def)
    moreover have "fetch_keyword en h sc s (Suc (length nm)) 1 sy = Some (sy\<lparr>retval_of := z\<rparr>)"
      using fetch_root_keyword [OF assms(3,4) s, of en h] by (simp add: sy_def)
    ultimately show ?thesis using sy'(1) k by (simp add: get_php_symbol_def go_def s_def)
  qed
qed

text \<open>C28: The name that the export gives to an element of an array leads back to it: for a variable of the active
  function and every list of keys through arrays, references and slots, looking up the full name gives exactly the
  value behind these keys, whatever bytes the keys hold, except where a key has a zero byte before an octal digit.\<close>

theorem full_name_roundtrip:
  assumes "slashes en" and "heap_ok h" and "compiled_vars sc = Some (Some cvs)" and "map_of cvs nm = Some z" and "valid h z"
    and "variable_name nm" and "\<forall>k\<in>set ks. key_ok k" and "follow h z ks = Some v"
  shows "get_php_symbol en h sc (path_name en (CHR ''$'' # nm) ks) = Some v"
  by (rule full_name_found [OF assms])

text \<open>A key with a zero byte before an octal digit leads elsewhere: PHP writes the zero byte as a backslash and
  the digit 0, and the lookup takes both digits for one octal number, so that it finds the element whose key is the
  byte with this number, or nothing.\<close>

lemma octal_key_confused:
  assumes "slashes en" and "heap_ok h" and "compiled_vars sc = Some (Some cvs)" and "map_of cvs nm = Some z"
    and "variable_name nm" and "deref h z = Some (IS_ARRAY a)" and "ht_at h a = Some t" and "isoctal d"
  shows "get_php_symbol en h sc (path_name en (CHR ''$'' # nm) [Key_str [nul, d]]) =
    Some (case map_of t (Key_str [char_of_digits 8 [CHR ''0'', d]]) of None \<Rightarrow> IS_UNDEF | Some v \<Rightarrow> v)"
proof -
  define v where "v = (case map_of t (Key_str [char_of_digits 8 [CHR ''0'', d]]) of None \<Rightarrow> IS_UNDEF | Some v \<Rightarrow> v)"
  have v: "valid h v"
  proof (cases "map_of t (Key_str [char_of_digits 8 [CHR ''0'', d]])")
    case None
    then show ?thesis by (simp add: v_def valid_def)
  next
    case (Some y)
    then have "(Key_str [char_of_digits 8 [CHR ''0'', d]], y) \<in> set t" by (rule map_of_SomeD)
    then show ?thesis using Some assms(2,7) unfolding heap_ok_def v_def by fastforce
  qed
  define s where "s = path_name en (CHR ''$'' # nm) [Key_str [nul, d]]"
  have s: "s = CHR ''$'' # nm @ CHR ''['' # index_text (Key_str [nul, d])"
    using path_name_text [OF assms(1)] by (simp add: s_def)
  have s2: "s = (CHR ''$'' # nm @ ''['') @ index_text (Key_str [nul, d]) @ []" using s by simp
  have plain: "d \<noteq> nul \<and> d \<noteq> CHR 0x22 \<and> d \<noteq> CHR 0x27 \<and> d \<noteq> CHR 0x5C"
    using assms(8) by (auto simp: isoctal_def uchar_def nul_def)
  have w: "concat (map slash [nul, d]) = [CHR 0x5C, CHR ''0'', d]" using plain by (simp add: slash_def)
  have "strip_loop [CHR 0x5C, CHR ''0'', d] = ([char_of_digits 8 [CHR ''0'', d]], 2)"
  proof -
    have t: "takeWhile isoctal (take 3 [CHR ''0'', d]) = [CHR ''0'', d]" using assms(8) octal_0 by simp
    have e: "simple_escape (CHR ''0'') = None" by (simp add: simple_escape_def)
    show ?thesis by (subst strip_loop.simps(3)) (simp only: Let_def t e option.case, simp add: emit_def)
  qed
  then have strip: "stripcslashes ([CHR 0x5C, CHR ''0'', d] @ [nul]) 3 = Some ([char_of_digits 8 [CHR ''0'', d], nul, d, nul], 1)"
    by (simp add: stripcslashes_def Let_def)
  have fetch: "fetch_zval_from_symbol_table en h sc z name len XF_ST_ARRAY_INDEX_ASSOC ccn ccnl ce = Some v"
    if "take len name = concat (map slash [nul, d])" for name len ccn ccnl ce
    using that strip assms(6,7) unfolding w v_def
    by (simp add: fetch_zval_from_symbol_table_def fetch_ht_from_zval_def fetch_assoc_def find_in_def xf_defs)
  obtain sy3 where g1: "go en h sc s 0 symbol_start = go en h sc s (length (CHR ''$'' # nm @ ''['')) sy3"
    and sy3: "sy_state sy3 = 3" "retval_of sy3 = z"
    using go_to_bracket [OF assms(5,3,4) s, of en h] by auto
  obtain sy' where g2: "go en h sc s (length (CHR ''$'' # nm @ ''['')) sy3 =
      go en h sc s (length (CHR ''$'' # nm @ ''['') + length (index_text (Key_str [nul, d]))) sy'"
    "retval_of sy' = v" "keyword sy' = None"
    using go_quoted [OF assms(2) sy3(1) _ v s2, of en sc] fetch sy3(2) by blast
  have "go en h sc s (length (CHR ''$'' # nm @ ''['') + length (index_text (Key_str [nul, d]))) sy' = Some sy'"
    by (simp add: go_def s)
  then show ?thesis
    using g1 g2 by (simp add: get_php_symbol_def go_def s_def v_def)
qed

text \<open>A value without properties and elements.\<close>

definition scalar :: "zval \<Rightarrow> bool" where
  "scalar z \<longleftrightarrow> (case z of IS_NULL \<Rightarrow> True | IS_BOOL _ \<Rightarrow> True | IS_LONG _ \<Rightarrow> True | IS_DOUBLE _ \<Rightarrow> True | IS_STRING _ \<Rightarrow> True
     | _ \<Rightarrow> False)"

lemma fetch_property_scalar:
  assumes "scalar z" and "p \<noteq> []" and "prefix p ''storage''"
  shows "fetch_zval_from_symbol_table en h sc z p (length p) XF_ST_OBJ_PROPERTY None 0 None = None"
proof -
  have p: "take (length p) ''storage'' = p" using assms(3) by (auto simp: prefix_def)
  have "set p \<subseteq> set ''storage''" using assms(3) by (rule set_mono_prefix)
  then have "CHR 0x00 \<notin> set p" by auto
  moreover have "strcmp p p = 0" by (induction p) simp_all
  ultimately have "strncmp (cstr p) ''storage'' (length p) = 0"
    using p by (simp add: strncmp_def cstr_no_nul)
  moreover have "strncmp [] t 0 = 0" for t by (simp add: strncmp_def)
  ultimately show ?thesis
    using assms(1) by (cases z) (simp_all add: scalar_def fetch_zval_from_symbol_table_def deref_def skip_indirect_def
        skip_reference_def fetch_ht_from_zval_def fetch_property_def find_in_def spl_storage_def is_object_def xf_defs)
qed

text \<open>C29: Looking up a property of a scalar value (null, a boolean, a number or a string) crashes
  for the names that start the word storage: the comparison with the name of a class compares zero characters when
  there is no class, and the code then reads the value as an object. A client that shows \<open>$i->s\<close> for a number takes down the script.\<close>

theorem storage_of_scalar_faults:
  assumes "compiled_vars sc = Some (Some cvs)" and "map_of cvs nm = Some z" and "variable_name nm" and "scalar z"
    and "p \<noteq> []" and "prefix p ''storage''"
  shows "get_php_symbol en h sc (CHR ''$'' # nm @ ''->'' @ p) = None"
proof -
  define s where "s = CHR ''$'' # nm @ ''->'' @ p"
  define sy where "sy = symbol_start\<lparr>keyword := Some 1, sy_state := 1\<rparr>"
  have g: "go en h sc s 0 symbol_start = go en h sc s (Suc (length nm)) sy"
    using go_root [OF assms(3) s_def] by (simp add: sy_def)
  have f: "fetch_keyword en h sc s (Suc (length nm)) 1 sy = Some (sy\<lparr>retval_of := z\<rparr>)"
    using fetch_root_keyword [OF assms(1,2) s_def, of en h] by (simp add: sy_def)
  obtain c cs where p: "p = c # cs" using assms(5) by (cases p) auto
  have letters: "set p \<subseteq> set ''storage''" using assms(6) by (rule set_mono_prefix)
  have names: "name_char c" "\<forall>c\<in>set cs. name_char c" "c \<noteq> CHR ''>''"
    using letters p by (auto simp: name_char_def)
  define n where "n = Suc (length nm)"
  have s1: "s = (CHR ''$'' # nm) @ CHR ''-'' # ''>'' @ p" and s2: "s = (CHR ''$'' # nm @ ''-'') @ CHR ''>'' # p"
    and s3: "s = (CHR ''$'' # nm @ ''->'') @ c # cs" and s4: "s = (CHR ''$'' # nm @ ''->'' @ [c]) @ cs @ []"
    using p by (simp_all add: s_def)
  have o: "is_objectish h z = Some False" using assms(4) by (cases z) (simp_all add: is_objectish_def scalar_def)
  define sy2 where "sy2 = sy\<lparr>retval_of := z, current_ce := None, keyword := None, sy_state := 2, fetch_type := XF_ST_OBJ_PROPERTY\<rparr>"
  have "sy_state sy = 1" "keyword sy = Some 1" by (simp_all add: sy_def)
  then have "symbol_step en h sc s (length (CHR ''$'' # nm)) sy = Some sy2"
    using nth_here [OF s1] f o by (simp add: symbol_step_def symbol_step1_def enter_class_def sy2_def)
  from go_step [OF s1 refl this] have g1: "go en h sc s n sy = go en h sc s (Suc n) sy2" by (simp add: n_def)
  have n2: "Suc n = length (CHR ''$'' # nm @ ''-'')" by (simp add: n_def)
  have "symbol_step en h sc s (Suc n) sy2 = Some sy2"
    unfolding n2 using nth_here [OF s2] by (simp add: symbol_step_def sy2_def del: length_append)
  from go_step [OF s2 n2 this] have g2: "go en h sc s (Suc n) sy2 = go en h sc s (Suc (Suc n)) sy2" .
  have n3: "Suc (Suc n) = length (CHR ''$'' # nm @ ''->'')" by (simp add: n_def)
  define sy1 where "sy1 = sy2\<lparr>keyword := Some (Suc (Suc n)), sy_state := 1\<rparr>"
  have "symbol_step en h sc s (Suc (Suc n)) sy2 = Some sy1"
    unfolding n3 using nth_here [OF s3] names(3) by (simp add: symbol_step_def sy2_def sy1_def n3 del: length_append)
  from go_step [OF s3 n3 this] have g3: "go en h sc s (Suc (Suc n)) sy2 = go en h sc s (Suc (Suc (Suc n))) sy1" .
  have "go en h sc s (Suc (Suc (Suc n))) sy1 = go en h sc s (length s) sy1"
    using go_name [OF _ s4 names(2), of sy1 en h sc] by (simp add: sy1_def n_def s_def p)
  then have run: "go en h sc s 0 symbol_start = Some sy1" using g g1 g2 g3 by (simp add: n_def go_def)
  have "drop (Suc (Suc n)) s = p" by (simp add: s_def n_def)
  moreover have "length s - Suc (Suc n) = length p" by (simp add: s_def n_def)
  ultimately have "fetch_keyword en h sc s (length s) (Suc (Suc n)) sy1 = None"
    using fetch_property_scalar [OF assms(4,5,6)]
    by (simp add: fetch_keyword_def sy1_def sy2_def sy_def symbol_start_def)
  then show ?thesis
    unfolding s_def [symmetric] using run by (simp add: get_php_symbol_def go_def sy1_def)
qed

section \<open>Samples\<close>

definition sample_engine :: engine where
  "sample_engine = \<lparr>en_lib = sample_lib, addslashes = (\<lambda>s. concat (map slash s)), addcslashes = (\<lambda>s cs. s),
     unmangle = (\<lambda>s. (None, s)), format_double = (\<lambda>_. ''0''), symtable_key = Key_str, key_hash = (\<lambda>_. 0),
     read_property = (\<lambda>_ _ _. Uninitialized), rsrc_type = (\<lambda>_. None)\<rparr>"

text \<open>An array that holds itself.\<close>

definition sample_table :: ptable where
  "sample_table = [(Key_str ''a'', IS_ARRAY 0), (Key_num 3, IS_LONG 7), (Key_str [CHR 0x07], IS_NULL), (Key_num (- 1), IS_LONG 1)]"

definition sample_heap :: heap where
  "sample_heap = \<lparr>ht_at = (\<lambda>a. if a = 0 then Some sample_table else None), ref_at = (\<lambda>_. None), slot_at = (\<lambda>_. None),
     object_at = (\<lambda>_. None), class_at = (\<lambda>_. None), refcount_of = (\<lambda>_. 1), in_debug_info = False\<rparr>"

definition sample_scope :: scope where
  "sample_scope = \<lparr>compiled_vars = Some (Some [(''x'', IS_ARRAY 0), (''i'', IS_LONG 5)]), active_symbol_table = None,
     this_value = Some None, active_class = Some None\<rparr>"

lemma sample_engine_ok: "slashes sample_engine"
  by (simp add: slashes_def sample_engine_def)

lemma sample_heap_ok: "heap_ok sample_heap"
  by (simp add: heap_ok_def sample_heap_def sample_table_def valid_def)

lemma sample_scope_vars:
  "compiled_vars sample_scope = Some (Some [(''x'', IS_ARRAY 0), (''i'', IS_LONG 5)])"
  by (simp add: sample_scope_def)

lemma sample_names: "variable_name ''x''" "variable_name ''i''"
  by (simp_all add: variable_name_def name_char_def)

theorem full_name_roundtrip_witness:
  "get_php_symbol sample_engine sample_heap sample_scope
     (path_name sample_engine ''$x'' [Key_str ''a'', Key_str ''a'', Key_num 3]) = Some (IS_LONG 7)"
proof -
  have "map_of [(''x'', IS_ARRAY 0), (''i'', IS_LONG 5)] ''x'' = Some (IS_ARRAY 0)" "valid sample_heap (IS_ARRAY 0)"
    "follow sample_heap (IS_ARRAY 0) [Key_str ''a'', Key_str ''a'', Key_num 3] = Some (IS_LONG 7)"
    "\<forall>k\<in>set [Key_str ''a'', Key_str ''a'', Key_num 3]. key_ok k"
    by (simp_all add: sample_heap_def sample_table_def valid_def key_ok_def deref_def skip_indirect_def skip_reference_def)
  then show ?thesis
    using full_name_roundtrip [OF sample_engine_ok sample_heap_ok sample_scope_vars _ _ sample_names(1)] by blast
qed

lemma octal_key_confused_witness:
  "get_php_symbol sample_engine sample_heap sample_scope (path_name sample_engine ''$x'' [Key_str [nul, CHR ''7'']]) = Some IS_NULL"
proof -
  have "char_of_digits 8 [CHR ''0'', CHR ''7''] = CHR 0x07" by code_simp
  then show ?thesis
    using octal_key_confused [OF sample_engine_ok sample_heap_ok sample_scope_vars _ sample_names(1), of _ 0 sample_table "CHR ''7''"]
    by (simp add: sample_heap_def sample_table_def deref_def skip_indirect_def skip_reference_def isoctal_def uchar_def)
qed

theorem storage_of_scalar_faults_witness:
  "get_php_symbol sample_engine sample_heap sample_scope ''$i->st'' = None"
  using storage_of_scalar_faults [OF sample_scope_vars _ sample_names(2), of "IS_LONG 5" "''st''" sample_engine sample_heap]
  by (simp add: scalar_def)

end
