(* ===== verification/VarFacts.thy ===== *)
theory VarFacts
  imports SymbolFacts
begin

text \<open>
  The export of a value returns for every heap without dangling addresses, cyclic ones included, stays inside the
  pages of the options, and gives a tree whose depth and width the options bound. At the top it shows exactly one
  page of the elements.
\<close>

section \<open>Options during the export\<close>

definition pages_ok :: "export_options \<Rightarrow> bool" where
  "pages_ok co \<longleftrightarrow> (\<forall>l. int l < max_depth co \<longrightarrow> l < length (runtime co) \<and> page (runtime co ! l) \<noteq> None)"

text \<open>The counters of a level.\<close>

definition counters :: "export_options \<Rightarrow> nat \<Rightarrow> int \<Rightarrow> int \<Rightarrow> int \<Rightarrow> bool" where
  "counters co l c s e \<longleftrightarrow>
     l < length (runtime co) \<and> current_element_nr (runtime co ! l) = Some c \<and>
     start_element_nr (runtime co ! l) = Some s \<and> end_element_nr (runtime co ! l) = Some e"

text \<open>What an export at a level leaves as it was: the limits, the pages and all counters above.\<close>

definition frame :: "nat \<Rightarrow> export_options \<Rightarrow> export_options \<Rightarrow> bool" where
  "frame l co co' \<longleftrightarrow>
     max_children co' = max_children co \<and> max_data co' = max_data co \<and> max_depth co' = max_depth co \<and>
     extended_properties co' = extended_properties co \<and> length (runtime co') = length (runtime co) \<and>
     (\<forall>i<length (runtime co). page (runtime co' ! i) = page (runtime co ! i)) \<and>
     (\<forall>i<length (runtime co). i < l \<longrightarrow> runtime co' ! i = runtime co ! i)"

lemma frame_refl [simp]: "frame l co co"
  by (simp add: frame_def)

lemma frame_trans: "frame l co co' \<Longrightarrow> frame l co' co'' \<Longrightarrow> frame l co co''"
  by (auto simp: frame_def)

lemma frame_mono: "frame l co co' \<Longrightarrow> k \<le> l \<Longrightarrow> frame k co co'"
  by (auto simp: frame_def)

lemma frame_force [simp]: "frame l co (co\<lparr>force_extended := x\<rparr>)"
  by (simp add: frame_def)

lemma frame_set_page: "page p = page (runtime co ! l) \<Longrightarrow> frame l co (set_page l p co)"
  by (cases "l < length (runtime co)") (auto simp: frame_def set_page_def nth_list_update)

lemma frame_pages: "frame l co co' \<Longrightarrow> pages_ok co \<Longrightarrow> pages_ok co'"
  by (auto simp: frame_def pages_ok_def)

lemma frame_counters: "frame (Suc l) co co' \<Longrightarrow> counters co l c s e \<Longrightarrow> counters co' l c s e"
  by (auto simp: frame_def counters_def)

lemma next_element_ok:
  assumes "counters co l c s e" and "0 \<le> c" and "c + 1 < 2 ^ 31"
  shows "\<exists>co'. next_element l co = Some co' \<and> counters co' l (c + 1) s e \<and> frame l co co'"
proof -
  define co' where "co' = set_page l ((runtime co ! l)\<lparr>current_element_nr := Some (c + 1)\<rparr>) co"
  have "next_element l co = Some co'"
    using assms to_int32_id [of "c + 1"] by (simp add: next_element_def page_at_def counters_def co'_def)
  moreover have "counters co' l (c + 1) s e" using assms(1) by (simp add: counters_def co'_def set_page_def)
  moreover have "frame l co co'" unfolding co'_def by (rule frame_set_page) simp
  ultimately show ?thesis by blast
qed

lemma start_page_ok:
  assumes "l < length (runtime co)"
  shows "\<exists>co'. start_page l s e co = Some co' \<and> counters co' l 0 s e \<and> frame l co co'"
proof -
  define co' where "co' = set_page l ((runtime co ! l)
    \<lparr>current_element_nr := Some 0, start_element_nr := Some s, end_element_nr := Some e\<rparr>) co"
  have "start_page l s e co = Some co'" using assms by (simp add: start_page_def page_at_def co'_def)
  moreover have "counters co' l 0 s e" using assms by (simp add: counters_def co'_def set_page_def)
  moreover have "frame l co co'" unfolding co'_def by (rule frame_set_page) simp
  ultimately show ?thesis by blast
qed

section \<open>Loops\<close>

text \<open>The elements that are shown when the counter starts at \<open>c\<close>.\<close>

fun slice :: "int \<Rightarrow> int \<Rightarrow> int \<Rightarrow> 'a list \<Rightarrow> 'a list" where
  "slice c s e [] = []"
| "slice c s e (x # xs) = (if s \<le> c \<and> c < e then [x] else []) @ slice (c + 1) s e xs"

lemma slice_take: "0 \<le> s - c \<Longrightarrow> slice c s e xs = take (nat (e - s)) (drop (nat (s - c)) xs)"
proof (induction xs arbitrary: c)
  case (Cons x xs)
  have later: "slice c s e xs = take (nat (e - c)) xs" if "s \<le> c" for c and xs :: "'a list"
    using that
  proof (induction xs arbitrary: c)
    case (Cons x xs)
    have "nat (e - c) = Suc (nat (e - (c + 1)))" if "c < e" using that by linarith
    moreover have "nat (e - (c + 1)) = 0" if "\<not> c < e" using that by linarith
    ultimately show ?case using Cons.IH [of "c + 1"] Cons.prems by (cases "c < e") simp_all
  qed simp
  show ?case
  proof (cases "s = c")
    case True
    then show ?thesis using later [of c "x # xs"] by simp
  next
    case False
    then have "nat (s - c) = Suc (nat (s - (c + 1)))" "0 \<le> s - (c + 1)" using Cons.prems by linarith+
    then show ?thesis using Cons.IH [of "c + 1"] Cons.prems False by simp
  qed
qed simp

lemma slice_length: "0 \<le> c \<Longrightarrow> int (length (slice c s e xs)) \<le> max 0 (e - max c s)"
proof (induction xs arbitrary: c)
  case (Cons x xs)
  then have "int (length (slice (c + 1) s e xs)) \<le> max 0 (e - max (c + 1) s)" by simp
  then show ?case by (auto simp: max_def split: if_splits)
qed simp

lemma slice_set: "set (slice c s e xs) \<subseteq> set xs"
  by (induction xs arbitrary: c) auto

lemma loop_ok:
  assumes step: "\<And>x co node c. x \<in> set xs \<Longrightarrow> counters co l c s e \<Longrightarrow> 0 \<le> c \<Longrightarrow> c + 1 < 2 ^ 31 \<Longrightarrow> frame l co0 co \<Longrightarrow>
      \<exists>co' node'. element x (co, node) = Some (co', node') \<and> counters co' l (c + 1) s e \<and> frame l co co' \<and>
        (if s \<le> c \<and> c < e then \<exists>child. node' = xml_add_child node child \<and> R x child else node' = node)"
    and "counters co l c s e" and "0 \<le> c" and "c + int (length xs) < 2 ^ 31" and "frame l co0 co"
  shows "\<exists>co' cs. fold_option element xs (co, node) = Some (co', foldl xml_add_child node cs) \<and> frame l co co' \<and>
    list_all2 R (slice c s e xs) cs"
  using assms
proof (induction xs arbitrary: co node c)
  case (Cons x xs)
  obtain co1 node1 where e: "element x (co, node) = Some (co1, node1)" "counters co1 l (c + 1) s e" "frame l co co1"
    "if s \<le> c \<and> c < e then \<exists>child. node1 = xml_add_child node child \<and> R x child else node1 = node"
    using Cons.prems(1) [of x co c node] Cons.prems(2-5) by auto
  have f: "frame l co0 co1" using frame_trans [OF Cons.prems(5) e(3)] .
  have st: "\<And>y co node c. y \<in> set xs \<Longrightarrow> counters co l c s e \<Longrightarrow> 0 \<le> c \<Longrightarrow> c + 1 < 2 ^ 31 \<Longrightarrow> frame l co0 co \<Longrightarrow>
      \<exists>co' node'. element y (co, node) = Some (co', node') \<and> counters co' l (c + 1) s e \<and> frame l co co' \<and>
        (if s \<le> c \<and> c < e then \<exists>child. node' = xml_add_child node child \<and> R y child else node' = node)"
    by (rule Cons.prems(1)) auto
  obtain co2 cs where r: "fold_option element xs (co1, node1) = Some (co2, foldl xml_add_child node1 cs)"
    "frame l co1 co2" "list_all2 R (slice (c + 1) s e xs) cs"
    using Cons.IH [OF st e(2) _ _ f, of node1] Cons.prems(3,4) by auto
  have f2: "frame l co co2" using frame_trans [OF e(3) r(2)] .
  show ?case
  proof (cases "s \<le> c \<and> c < e")
    case True
    then obtain child where child: "node1 = xml_add_child node child" "R x child" using e(4) by auto
    show ?thesis
      using r e(1) f2 child True by (intro exI [of _ co2] exI [of _ "child # cs"]) simp
  next
    case False
    then have "slice c s e (x # xs) = slice (c + 1) s e xs" "node1 = node" using e(4) by auto
    then show ?thesis using r e(1) f2 by (intro exI [of _ co2] exI [of _ cs]) simp
  qed
qed simp

section \<open>Trees\<close>

definition properties :: "xml_node \<Rightarrow> xml_node list" where
  "properties x = filter (\<lambda>c. xml_tag c = ''property'') (xml_child x)"

text \<open>At most \<open>w\<close> properties at every node, nested at most \<open>d\<close> deep.\<close>

fun fits :: "nat \<Rightarrow> nat \<Rightarrow> xml_node \<Rightarrow> bool" where
  "fits 0 w x \<longleftrightarrow> properties x = []"
| "fits (Suc d) w x \<longleftrightarrow> length (properties x) \<le> w \<and> (\<forall>c\<in>set (properties x). fits d w c)"

lemma fits_none: "properties x = [] \<Longrightarrow> fits d w x"
  by (cases d) auto

lemma properties_build [simp]:
  "properties (xml_add_attribute_ex a v x) = properties x" "properties (xml_add_text t x) = properties x"
  "properties (xml_add_text_ex t i b x) = properties x" "properties (xml_node_init t) = []"
  "properties (xml_add_child x c) = properties x @ (if xml_tag c = ''property'' then [c] else [])"
  by (simp_all add: properties_def xml_add_attribute_ex_def xml_add_text_def xml_add_text_ex_def xml_node_init_def xml_add_child_def)

lemma tag_build [simp]:
  "xml_tag (xml_add_attribute_ex a v x) = xml_tag x" "xml_tag (xml_add_text t x) = xml_tag x"
  "xml_tag (xml_add_text_ex t i b x) = xml_tag x" "xml_tag (xml_node_init t) = t" "xml_tag (xml_add_child x c) = xml_tag x"
  by (simp_all add: xml_add_attribute_ex_def xml_add_text_def xml_add_text_ex_def xml_node_init_def xml_add_child_def)

lemma add_ok:
  assumes "add_xml_attribute_or_element en field value (co, node) = (co', node')" and "field \<noteq> ''property''"
  shows "frame l co co' \<and> properties node' = properties node \<and> extends node node'"
  using assms by (auto simp: add_xml_attribute_or_element_def base64_element_def Let_def split: if_splits)

lemma add_children:
  "list_all2 R xs cs \<Longrightarrow> \<forall>x c. R x c \<longrightarrow> xml_tag c = ''property'' \<Longrightarrow>
   properties (foldl xml_add_child node cs) = properties node @ cs \<and> extends node (foldl xml_add_child node cs)"
proof (induction cs arbitrary: node xs)
  case (Cons c cs)
  obtain x xs' where x: "xs = x # xs'" "R x c" "list_all2 R xs' cs" using Cons.prems(1) by (cases xs) auto
  have "extends node (xml_add_child node c)" by simp
  then show ?case using Cons.IH [OF x(3) Cons.prems(2), of "xml_add_child node c"] x(1,2) Cons.prems(2)
    by (auto intro: extends_trans [of node "xml_add_child node c"])
qed simp

section \<open>Elements\<close>

text \<open>A child that stands for an element; without extended properties its name is its first attribute.\<close>

definition shown :: "nat \<Rightarrow> nat \<Rightarrow> xml_node \<Rightarrow> bool" where
  "shown d w child \<longleftrightarrow> xml_tag child = ''property'' \<and> fits d w child"

definition named :: "export_options \<Rightarrow> string \<Rightarrow> xml_node \<Rightarrow> bool" where
  "named co name child \<longleftrightarrow>
     (extended_properties co = 0 \<longrightarrow>
       xml_attributes child \<noteq> [] \<and> hd (xml_attributes child) = \<lparr>at_name = ''name'', at_value = Some name\<rparr>)"

lemma named_extends: "named co name x \<Longrightarrow> extends x y \<Longrightarrow> named co name y"
  by (cases "xml_attributes x") (auto simp: named_def extends_def prefix_def)

lemma named_first:
  assumes "add_xml_attribute_or_element en ''name'' name (co\<lparr>force_extended := 0\<rparr>, xml_node_init t) = (co', node)"
  shows "named co name node"
  using assms by (auto simp: named_def add_xml_attribute_or_element_def xml_add_attribute_ex_def xml_node_init_def)

text \<open>The child node that an element starts with.\<close>

lemma start_child:
  assumes "add_xml_attribute_or_element en ''name'' name (co\<lparr>force_extended := 0\<rparr>, xml_node_init ''property'') = (co1, n1)"
    and "(case full_name of None \<Rightarrow> (co1, n1) | Some f \<Rightarrow> add_xml_attribute_or_element en ''fullname'' f (co1, n1)) = (co2, n2)"
  shows "frame l co co2 \<and> properties n2 = [] \<and> xml_tag n2 = ''property'' \<and> named co name n2"
proof -
  have 1: "frame l (co\<lparr>force_extended := 0\<rparr>) co1" "properties n1 = []" "extends (xml_node_init ''property'') n1"
    using add_ok [OF assms(1), of l] by auto
  have 2: "frame l co1 co2" "properties n2 = properties n1" "extends n1 n2"
    using assms(2) add_ok [of en "''fullname''" _ co1 n1 co2 n2 l] by (auto split: option.splits)
  have "frame l co co1" using frame_trans [OF frame_force 1(1)] .
  then show ?thesis
    using frame_trans 1 2 named_extends [OF named_first [OF assms(1)] 2(3)] by (auto simp: extends_def)
qed

lemma array_element_ok:
  assumes ex: "\<And>name co node. frame l co0 co \<Longrightarrow> properties node = [] \<Longrightarrow>
      \<exists>co' node'. export (snd kv) name (Suc l) (co, node) = Some (co', node') \<and> frame (Suc l) co co' \<and>
        extends node node' \<and> fits d w node'"
    and "counters co l c s e" and "0 \<le> c" and "c + 1 < 2 ^ 31" and "frame l co0 co"
  shows "\<exists>co' node'. array_element_export_xml_node en export l pn kv (co, parent) = Some (co', node') \<and>
    counters co' l (c + 1) s e \<and> frame l co co' \<and>
    (if s \<le> c \<and> c < e
     then \<exists>child. node' = xml_add_child parent child \<and> shown d w child \<and> named co0 (array_element_name (fst kv)) child
     else node' = parent)"
proof -
  obtain p where p: "page_at co l = Some p" "in_page p = Some (s \<le> c \<and> c < e)"
    using assms(2) by (auto simp: counters_def page_at_def in_page_def)
  show ?thesis
  proof (cases "s \<le> c \<and> c < e")
    case False
    then show ?thesis
      using p next_element_ok [OF assms(2-4)] by (auto simp: array_element_export_xml_node_def)
  next
    case True
    define f where "f = array_element_full_name en (fst kv) pn"
    obtain co1 n1 where 1: "add_xml_attribute_or_element en ''name'' (array_element_name (fst kv))
        (co\<lparr>force_extended := 0\<rparr>, xml_node_init ''property'') = (co1, n1)" by force
    obtain co2 n2 where 2: "(case (if f = [] then None else Some f) of None \<Rightarrow> (co1, n1)
        | Some f \<Rightarrow> add_xml_attribute_or_element en ''fullname'' f (co1, n1)) = (co2, n2)" by force
    note st = start_child [OF 1 2, of l]
    then have "frame l co0 co2" using frame_trans assms(5) by blast
    then obtain co3 n3 where 3: "export (snd kv) (Some f) (Suc l) (co2, n2) = Some (co3, n3)"
      "frame (Suc l) co2 co3" "extends n2 n3" "fits d w n3"
      using ex [of co2 n2 "Some f"] st by blast
    have f3: "frame l co co3" using st frame_trans frame_mono [OF 3(2), of l] by auto
    have "frame (Suc l) co co2" using start_child [OF 1 2, of "Suc l"] by simp
    then have "counters co3 l c s e" using frame_counters assms(2) 3(2) by blast
    then obtain co4 where 4: "next_element l co3 = Some co4" "counters co4 l (c + 1) s e" "frame l co3 co4"
      using next_element_ok assms(3,4) by blast
    have "named co0 (array_element_name (fst kv)) n3"
      using named_extends [of co _ n2 n3] st 3(3) assms(5) by (simp add: named_def frame_def)
    moreover have "shown d w n3" using 3(3,4) st by (simp add: shown_def extends_def)
    moreover have "array_element_export_xml_node en export l pn kv (co, parent) = Some (co4, xml_add_child parent n3)"
      using p True 1 2 3(1) 4(1)
      by (simp add: array_element_export_xml_node_def f_def [symmetric] Let_def split: if_splits)
    ultimately show ?thesis using 4 f3 frame_trans True by auto
  qed
qed

lemma object_names:
  assumes "item_name item \<noteq> []"
  shows "\<exists>name f m. object_element_names en cls item pn = Some (name, f, m)"
  using assms by (auto simp: object_element_names_def get_property_info_def shown_name_def Let_def
      split: option.splits prod.splits)

lemma object_element_ok:
  assumes ex: "\<And>name co node. frame l co0 co \<Longrightarrow> properties node = [] \<Longrightarrow>
      \<exists>co' node'. export (item_zv item) name (Suc l) (co, node) = Some (co', node') \<and> frame (Suc l) co co' \<and>
        extends node node' \<and> fits d w node'"
    and "counters co l c s e" and "0 \<le> c" and "c + 1 < 2 ^ 31" and "frame l co0 co" and "item_name item \<noteq> []"
  shows "\<exists>co' node'. object_element_export_xml_node en export l pn cls item (co, parent) = Some (co', node') \<and>
    counters co' l (c + 1) s e \<and> frame l co co' \<and>
    (if s \<le> c \<and> c < e then \<exists>child. node' = xml_add_child parent child \<and> shown d w child else node' = parent)"
proof -
  obtain p where p: "page_at co l = Some p" "in_page p = Some (s \<le> c \<and> c < e)"
    using assms(2) by (auto simp: counters_def page_at_def in_page_def)
  show ?thesis
  proof (cases "s \<le> c \<and> c < e")
    case False
    then show ?thesis
      using p next_element_ok [OF assms(2-4)] by (auto simp: object_element_export_xml_node_def)
  next
    case True
    obtain name f m where n: "object_element_names en cls item pn = Some (name, f, m)"
      using object_names [OF assms(6)] by blast
    obtain co1 n1 where 1: "add_xml_attribute_or_element en ''name'' name
        (co\<lparr>force_extended := 0\<rparr>, xml_node_init ''property'') = (co1, n1)" by force
    obtain co2 n2 where 2: "(case f of None \<Rightarrow> (co1, n1)
        | Some f \<Rightarrow> add_xml_attribute_or_element en ''fullname'' f (co1, n1)) = (co2, n2)" by force
    note st = start_child [OF 1 2, of l]
    define facet where "facet = (if item_type item = XDEBUG_OBJECT_ITEM_TYPE_STATIC_PROPERTY then ''static '' else []) @ m"
    have "frame l co0 co2" using st frame_trans assms(5) by blast
    then obtain co3 n3 where 3: "export (item_zv item) f (Suc l) (co2, xml_add_attribute_ex ''facet'' facet n2) = Some (co3, n3)"
      "frame (Suc l) co2 co3" "extends (xml_add_attribute_ex ''facet'' facet n2) n3" "fits d w n3"
      using ex [of co2 "xml_add_attribute_ex ''facet'' facet n2" f] st by auto
    have f3: "frame l co co3" using st frame_trans frame_mono [OF 3(2), of l] by auto
    have "frame (Suc l) co co2" using start_child [OF 1 2, of "Suc l"] by simp
    then have "counters co3 l c s e" using frame_counters assms(2) 3(2) by blast
    then obtain co4 where 4: "next_element l co3 = Some co4" "counters co4 l (c + 1) s e" "frame l co3 co4"
      using next_element_ok assms(3,4) by blast
    have "shown d w n3" using 3(3,4) st by (simp add: shown_def extends_def)
    moreover have "object_element_export_xml_node en export l pn cls item (co, parent) = Some (co4, xml_add_child parent n3)"
      using p True n 2 [folded 1] 3(1) 4(1)
      by (simp add: object_element_export_xml_node_def facet_def [symmetric] Let_def)
    ultimately show ?thesis using 4 f3 frame_trans True by auto
  qed
qed

section \<open>The whole export\<close>

text \<open>The page at the top does not overflow.\<close>

definition top_page_ok :: "export_options \<Rightarrow> bool" where
  "top_page_ok co \<longleftrightarrow>
     (\<forall>pg. runtime co \<noteq> [] \<longrightarrow> page (hd (runtime co)) = Some pg \<longrightarrow>
       0 \<le> pg \<and> 0 \<le> max_children co \<and> max_children co * (pg + 1) < 2 ^ 31)"

lemma frame_top: "frame l co co' \<Longrightarrow> top_page_ok co \<Longrightarrow> top_page_ok co'"
proof (unfold top_page_ok_def, intro allI impI)
  fix pg
  assume a: "frame l co co'" "\<forall>pg. runtime co \<noteq> [] \<longrightarrow> page (hd (runtime co)) = Some pg \<longrightarrow>
      0 \<le> pg \<and> 0 \<le> max_children co \<and> max_children co * (pg + 1) < 2 ^ 31"
    "runtime co' \<noteq> []" "page (hd (runtime co')) = Some pg"
  then have n: "runtime co \<noteq> []" by (auto simp: frame_def)
  then have "page (runtime co' ! 0) = page (runtime co ! 0)" "max_children co' = max_children co"
    using a(1) by (simp_all add: frame_def)
  then show "0 \<le> pg \<and> 0 \<le> max_children co' \<and> max_children co' * (pg + 1) < 2 ^ 31"
    using a(2-4) n by (simp add: hd_conv_nth)
qed

text \<open>The first element of the page at a level, and the first behind it.\<close>

definition page_start :: "export_options \<Rightarrow> nat \<Rightarrow> int" where
  "page_start co l = (if l = 0 then max_children co * the (page (runtime co ! 0)) else 0)"

definition page_end :: "export_options \<Rightarrow> nat \<Rightarrow> int" where
  "page_end co l = page_start co l + max_children co"

lemma export_children_ok:
  assumes step: "\<And>s e x co node c. int l < max_depth co0 \<Longrightarrow> x \<in> set es \<Longrightarrow> counters co l c s e \<Longrightarrow> 0 \<le> c \<Longrightarrow> c + 1 < 2 ^ 31 \<Longrightarrow> frame l co0 co \<Longrightarrow>
      \<exists>co' node'. element x (co, node) = Some (co', node') \<and> counters co' l (c + 1) s e \<and> frame l co co' \<and>
        (if s \<le> c \<and> c < e then \<exists>child. node' = xml_add_child node child \<and> R x child else node' = node)"
    and R: "\<And>x child. R x child \<Longrightarrow> shown (nat (max_depth co0) - Suc l) (nat (max_children co0)) child"
    and "pages_ok co0" and "l = 0 \<Longrightarrow> top_page_ok co0" and "length es < 2 ^ 31" and "frame l co0 co" and "properties node = []"
  shows "\<exists>co' node'. export_children element es l (co, node) = Some (co', node') \<and> frame l co co' \<and> extends node node' \<and>
    fits (nat (max_depth co0) - l) (nat (max_children co0)) node' \<and>
    (int l < max_depth co0 \<longrightarrow> list_all2 R (slice 0 (page_start co0 l) (page_end co0 l) es) (properties node'))"
proof (cases "int l < max_depth co")
  case False
  then show ?thesis using assms(6,7) by (auto simp: export_children_def fits_none frame_def)
next
  case True
  then have d: "int l < max_depth co0" using assms(6) by (simp add: frame_def)
  then have pl: "l < length (runtime co0)" "page (runtime co0 ! l) \<noteq> None" using assms(3) by (simp_all add: pages_ok_def)
  then obtain pg where pg0: "page (runtime co0 ! l) = Some pg" by blast
  have len: "length (runtime co) = length (runtime co0)" and mc: "max_children co = max_children co0"
    and pg: "page (runtime co ! l) = Some pg"
    using assms(6) pl(1) pg0 by (simp_all add: frame_def)
  define s where "s = page_start co0 l"
  define e where "e = page_end co0 l"
  have top: "0 \<le> pg \<and> 0 \<le> max_children co0 \<and> max_children co0 * (pg + 1) < 2 ^ 31" if "l = 0"
    using assms(4) [OF that] pg0 pl(1) that by (auto simp: top_page_ok_def hd_conv_nth)
  have bounds: "to_int32 (max_children co0 * pg) = s \<and> to_int32 (max_children co0 * (pg + 1)) = e" if "l = 0"
  proof -
    have p: "0 \<le> max_children co0 * pg" "max_children co0 * pg \<le> max_children co0 * (pg + 1)"
      "max_children co0 * (pg + 1) < 2 ^ 31"
      using top [OF that] by (simp_all add: mult_left_mono)
    have "to_int32 (max_children co0 * pg) = max_children co0 * pg"
      "to_int32 (max_children co0 * (pg + 1)) = max_children co0 * (pg + 1)"
      by (rule to_int32_id; use p in linarith)+
    then show ?thesis
      using pg0 that by (simp add: s_def e_def page_start_def page_end_def algebra_simps)
  qed
  define node1 where "node1 = xml_add_attribute_ex ''pagesize'' (dec_int (max_children co))
    (xml_add_attribute_ex ''page'' (dec_int pg) node)"
  have start: "(if l = 0 then start_page l (to_int32 (max_children co * pg)) (to_int32 (max_children co * (pg + 1))) co
      else start_page l 0 (max_children co) co) = start_page l s e co"
    using bounds by (auto simp: mc s_def e_def page_start_def page_end_def)
  obtain co1 where st: "start_page l s e co = Some co1" "counters co1 l 0 s e" "frame l co co1"
    using start_page_ok [of l co s e] pl(1) len by auto
  have f1: "frame l co0 co1" using frame_trans [OF assms(6) st(3)] .
  have "0 + int (length es) < 2 ^ 31" using assms(5) by simp
  then obtain co2 cs where r: "fold_option element es (co1, node1) = Some (co2, foldl xml_add_child node1 cs)"
    "frame l co1 co2" "list_all2 R (slice 0 s e es) cs"
    using loop_ok [where xs = es and node = node1 and R = R, OF step [OF d] st(2) _ _ f1] by blast
  have tags: "\<forall>x c. R x c \<longrightarrow> xml_tag c = ''property''" using R by (auto simp: shown_def)
  note props = add_children [where node = node1, OF r(3) tags]
  have n1: "properties node1 = []" "extends node node1" using assms(7) by (simp_all add: node1_def)
  have "export_children element es l (co, node) = Some (co2, foldl xml_add_child node1 cs)"
    using True pl(1) pg len r(1) st(1) start
    by (simp add: export_children_def page_at_def node1_def [symmetric] del: fold_option.simps)
  moreover have "frame l co co2" using frame_trans [OF st(3) r(2)] .
  moreover have "extends node (foldl xml_add_child node1 cs)" using extends_trans [OF n1(2)] props by blast
  moreover have "fits (nat (max_depth co0) - l) (nat (max_children co0)) (foldl xml_add_child node1 cs)"
  proof -
    have sd: "nat (max_depth co0) - l = Suc (nat (max_depth co0) - Suc l)" using d by linarith
    have "int (length cs) \<le> max 0 (e - max 0 s)"
      using slice_length [of 0 s e es] list_all2_lengthD [OF r(3)] by simp
    moreover have "e - max 0 s \<le> max_children co0"
      by (simp add: s_def e_def page_end_def)
    ultimately have "length cs \<le> nat (max_children co0)" by linarith
    moreover have "\<forall>c\<in>set cs. fits (nat (max_depth co0) - Suc l) (nat (max_children co0)) c"
    proof
      fix c
      assume "c \<in> set cs"
      then obtain x where "R x c" using r(3) by (auto simp: list_all2_conv_all_nth in_set_conv_nth)
      then show "fits (nat (max_depth co0) - Suc l) (nat (max_children co0)) c" using R by (simp add: shown_def)
    qed
    ultimately show ?thesis using props n1(1) by (simp add: sd)
  qed
  ultimately show ?thesis using props n1(1) r(3) by (auto simp: s_def e_def)
qed

text \<open>What is known of the export of a value.\<close>

definition exports :: "export_options \<Rightarrow> nat \<Rightarrow> (export_options \<times> xml_node \<Rightarrow> (export_options \<times> xml_node) option) \<Rightarrow> bool" where
  "exports co0 l f \<longleftrightarrow>
     (\<forall>co node. frame l co0 co \<longrightarrow> properties node = [] \<longrightarrow>
       (\<exists>co' node'. f (co, node) = Some (co', node') \<and> frame l co co' \<and> extends node node' \<and>
         fits (nat (max_depth co0) - l) (nat (max_children co0)) node'))"

lemma exports_scalar:
  assumes "\<And>co node. \<exists>node'. f (co, node) = Some (co, node') \<and> extends node node' \<and> properties node' = properties node"
  shows "exports co0 l f"
  unfolding exports_def
proof (intro allI impI)
  fix co node
  assume p: "properties node = []"
  obtain node' where "f (co, node) = Some (co, node')" "extends node node'" "properties node' = properties node"
    using assms by blast
  then show "\<exists>co' node'. f (co, node) = Some (co', node') \<and> frame l co co' \<and> extends node node' \<and>
      fits (nat (max_depth co0) - l) (nat (max_children co0)) node'"
    using p by (intro exI [of _ co] exI [of _ node']) (simp add: fits_none)
qed

lemma exports_child:
  assumes "\<And>co. frame l co0 co \<Longrightarrow> exports co (Suc l) f" and "frame l co0 co" and "properties node = []"
  shows "\<exists>co' node'. f (co, node) = Some (co', node') \<and> frame (Suc l) co co' \<and> extends node node' \<and>
    fits (nat (max_depth co0) - Suc l) (nat (max_children co0)) node'"
proof -
  have "max_depth co = max_depth co0" "max_children co = max_children co0" using assms(2) by (simp_all add: frame_def)
  moreover have "exports co (Suc l) f" using assms(1,2) by blast
  ultimately show ?thesis using assms(3) unfolding exports_def by (metis frame_refl)
qed

lemma merged_ok:
  assumes "heap_ok h" and "object_at h a = Some obj"
  shows "\<exists>items. merged_hash en h obj = Some items \<and> length items < 2 ^ 31 \<and>
    (\<forall>i\<in>set items. valid h (item_zv i) \<and> item_name i \<noteq> [])"
proof -
  have "object_ok h obj" using assms unfolding heap_ok_def by blast
  then obtain ps t where o: "class_at h (class_name obj) = Some ps" "\<forall>p\<in>set ps. valid h (prop_value p) \<and> prop_name p \<noteq> []"
    "object_table h obj = Some t" "length ps < 2 ^ 30"
    "\<forall>a es. t = Some (a, es) \<longrightarrow> (\<forall>e\<in>set es. valid h (snd e) \<and> fst e \<noteq> Key_str []) \<and> length es < 2 ^ 30"
    unfolding object_ok_def by blast
  have "\<exists>es. (case t of None \<Rightarrow> Some [] | Some t \<Rightarrow> foreach_ind h (snd t)) = Some es \<and> length es < 2 ^ 30 \<and>
      (\<forall>e\<in>set es. valid h (snd e) \<and> fst e \<noteq> Key_str [])"
  proof (cases t)
    case (Some at)
    obtain a es where "at = (a, es)" by (cases at)
    then have es: "\<forall>e\<in>set es. valid h (snd e)" "\<forall>e\<in>set es. fst e \<noteq> Key_str []" "length es < 2 ^ 30" "at = (a, es)"
      using o(5) Some by auto
    then show ?thesis using foreach_valid [OF assms(1) es(1)] Some by fastforce
  qed simp
  then obtain es where es: "(case t of None \<Rightarrow> Some [] | Some t \<Rightarrow> foreach_ind h (snd t)) = Some es" "length es < 2 ^ 30"
    "\<forall>e\<in>set es. valid h (snd e) \<and> fst e \<noteq> Key_str []" by blast
  have stat: "\<forall>i\<in>set (concat (map object_item_add_zend_prop_to_merged_hash ps)). valid h (item_zv i) \<and> item_name i \<noteq> []"
    using o(2) by (auto simp: object_item_add_zend_prop_to_merged_hash_def split: if_splits)
  have "length (concat (map object_item_add_zend_prop_to_merged_hash ps)) \<le> length ps"
    by (induction ps) (auto simp: object_item_add_zend_prop_to_merged_hash_def)
  moreover have "\<forall>i\<in>set (map (object_item_add_to_merged_hash en) es). valid h (item_zv i) \<and> item_name i \<noteq> []"
    using es(3) by (auto simp: object_item_add_to_merged_hash_def dec_int_def split: pkey.splits if_splits)
  ultimately show ?thesis using o(1,3,4) es(1,2) stat
    by (intro exI [of _ "concat (map object_item_add_zend_prop_to_merged_hash ps) @ map (object_item_add_to_merged_hash en) es"])
      (auto simp: merged_hash_def)
qed

lemma array_children_ok:
  assumes "heap_ok h" and "ht_at h a = Some t" and "pages_ok co0" and "l = 0 \<Longrightarrow> top_page_ok co0"
    and ih: "\<And>z name co. int l < max_depth co0 \<Longrightarrow> valid h z \<Longrightarrow> frame l co0 co \<Longrightarrow> exports co (Suc l) (export z name (Suc l))"
    and f: "frame l co0 co" and "properties node = []"
  shows "\<exists>es co' node'. foreach_ind h t = Some es \<and>
    export_children (array_element_export_xml_node en export l name) es l (co, node) = Some (co', node') \<and>
    frame l co co' \<and> extends node node' \<and> fits (nat (max_depth co0) - l) (nat (max_children co0)) node' \<and>
    (int l < max_depth co0 \<longrightarrow> list_all2 (\<lambda>kv child. shown (nat (max_depth co0) - Suc l) (nat (max_children co0)) child \<and>
        named co0 (array_element_name (fst kv)) child)
      (slice 0 (page_start co0 l) (page_end co0 l) es) (properties node'))"
proof -
  have "(\<forall>e\<in>set t. valid h (snd e)) \<and> length t < 2 ^ 31" using assms(1,2) unfolding heap_ok_def by blast
  then obtain es where es: "foreach_ind h t = Some es" "length es < 2 ^ 31" "\<forall>e\<in>set es. valid h (snd e)"
    using foreach_valid [OF assms(1), of t] by fastforce
  have "\<exists>co' node'. export_children (array_element_export_xml_node en export l name) es l (co, node)
      = Some (co', node') \<and> frame l co co' \<and> extends node node' \<and>
      fits (nat (max_depth co0) - l) (nat (max_children co0)) node' \<and>
      (int l < max_depth co0 \<longrightarrow> list_all2 (\<lambda>kv child. shown (nat (max_depth co0) - Suc l) (nat (max_children co0)) child \<and>
          named co0 (array_element_name (fst kv)) child)
        (slice 0 (page_start co0 l) (page_end co0 l) es) (properties node'))"
  proof (rule export_children_ok [OF _ _ assms(3,4) es(2) f assms(7)])
    fix s e x co node c
    assume a: "int l < max_depth co0" "x \<in> set es" "counters co l c s e" "0 \<le> c" "c + 1 < 2 ^ 31" "frame l co0 co"
    have v: "valid h (snd x)" using a(2) es(3) by blast
    have ex: "\<exists>co' node'. export (snd x) name (Suc l) (co, node) = Some (co', node') \<and>
        frame (Suc l) co co' \<and> extends node node' \<and> fits (nat (max_depth co0) - Suc l) (nat (max_children co0)) node'"
      if "frame l co0 co" "properties node = []" for name co node
      by (rule exports_child [OF ih [OF a(1) v] that])
    show "\<exists>co' node'. array_element_export_xml_node en export l name x (co, node) = Some (co', node') \<and>
        counters co' l (c + 1) s e \<and> frame l co co' \<and>
        (if s \<le> c \<and> c < e then \<exists>child. node' = xml_add_child node child \<and>
           shown (nat (max_depth co0) - Suc l) (nat (max_children co0)) child \<and> named co0 (array_element_name (fst x)) child
         else node' = node)"
      by (rule array_element_ok [where export = export and kv = x, OF ex a(3-6)])
  qed auto
  then show ?thesis using es(1) by blast
qed

text \<open>The node of an array before its elements.\<close>

definition array_node :: "ptable \<Rightarrow> xml_node \<Rightarrow> xml_node" where
  "array_node t node = xml_add_attribute_ex ''children'' (if t \<noteq> [] then ''1'' else ''0'')
    (xml_add_attribute_ex ''type'' ''array'' node)"

lemma array_node_ok: "properties (array_node t node) = properties node" "extends node (array_node t node)"
  by (simp_all add: array_node_def)

lemma export_array_eq:
  assumes "ht_at h a = Some t" and "foreach_ind h t = Some es"
  shows "export_array en h export ap a name l (co, node) =
    (if ap a < 1
     then export_children (array_element_export_xml_node en (export (inc_apply (Some a) ap)) l name) es l
       (co, xml_add_attribute_ex ''numchildren'' (dec (length t)) (array_node t node))
     else Some (co, xml_add_attribute_ex ''recursive'' ''1'' (array_node t node)))"
  using assms by (simp add: export_array_def Let_def array_node_def)

lemma export_array_ok:
  assumes "heap_ok h" and "ht_at h a = Some t" and "pages_ok co0" and "l = 0 \<Longrightarrow> top_page_ok co0"
    and ih: "\<And>ap z name co. int l < max_depth co0 \<Longrightarrow> valid h z \<Longrightarrow> frame l co0 co \<Longrightarrow> exports co (Suc l) (export ap z name (Suc l))"
  shows "exports co0 l (export_array en h export ap a name l)"
  unfolding exports_def
proof (intro allI impI)
  fix co node
  assume f: "frame l co0 co" and p: "properties node = []"
  define node2 where "node2 = xml_add_attribute_ex ''numchildren'' (dec (length t)) (array_node t node)"
  have n2: "properties node2 = []" "extends node node2" using p array_node_ok by (simp_all add: node2_def)
  obtain es co' node' where r: "foreach_ind h t = Some es"
    "export_children (array_element_export_xml_node en (export (inc_apply (Some a) ap)) l name) es l (co, node2) = Some (co', node')"
    "frame l co co'" "extends node2 node'" "fits (nat (max_depth co0) - l) (nat (max_children co0)) node'"
    using array_children_ok [where export = "export (inc_apply (Some a) ap)", OF assms(1-4) ih f n2(1)] by blast
  show "\<exists>co' node'. export_array en h export ap a name l (co, node) = Some (co', node') \<and> frame l co co' \<and> extends node node' \<and>
      fits (nat (max_depth co0) - l) (nat (max_children co0)) node'"
    using r(2-5) extends_trans [OF n2(2) r(4)] p array_node_ok
    by (cases "ap a < 1") (simp_all add: export_array_eq [OF assms(2) r(1)] node2_def [symmetric] fits_none)
qed

lemma export_object_ok:
  assumes "heap_ok h" and "object_at h a = Some obj" and "pages_ok co0" and "l = 0 \<Longrightarrow> top_page_ok co0"
    and ih: "\<And>z name co. int l < max_depth co0 \<Longrightarrow> valid h z \<Longrightarrow> frame l co0 co \<Longrightarrow> exports co (Suc l) (export z name (Suc l))"
  shows "exports co0 l (export_object en h export a name l)"
  unfolding exports_def
proof (intro allI impI)
  fix co node
  assume f: "frame l co0 co" and p: "properties node = []"
  obtain items where items: "merged_hash en h obj = Some items" "length items < 2 ^ 31"
    "\<forall>i\<in>set items. valid h (item_zv i) \<and> item_name i \<noteq> []"
    using merged_ok [OF assms(1,2)] by blast
  obtain co1 node1 where 1: "add_xml_attribute_or_element en ''classname'' (class_name obj)
      (co, xml_add_attribute_ex ''type'' ''object'' node) = (co1, node1)" by force
  then have "frame l co co1" "properties node1 = []" "extends node node1"
    using add_ok [OF 1, of l] p extends_trans [of node "xml_add_attribute_ex ''type'' ''object'' node"] by auto
  then have f1: "frame l co0 co1" and fc: "frame l co co1" using frame_trans [OF f] by blast+
  define node2 where "node2 = xml_add_attribute_ex ''numchildren'' (dec (length items))
    (xml_add_attribute_ex ''children'' (if items \<noteq> [] then ''1'' else ''0'') node1)"
  have n2: "properties node2 = []" "extends node node2"
    using \<open>properties node1 = []\<close> \<open>extends node node1\<close> by (simp_all add: node2_def)
  have "\<exists>co' node'. export_children (object_element_export_xml_node en export l name (class_name obj)) items l (co1, node2)
      = Some (co', node') \<and> frame l co1 co' \<and> extends node2 node' \<and>
      fits (nat (max_depth co0) - l) (nat (max_children co0)) node' \<and>
      (int l < max_depth co0 \<longrightarrow> list_all2 (\<lambda>_. shown (nat (max_depth co0) - Suc l) (nat (max_children co0)))
        (slice 0 (page_start co0 l) (page_end co0 l) items) (properties node'))"
  proof (rule export_children_ok [OF _ _ assms(3,4) items(2) f1 n2(1)])
    fix s e x co node c
    assume a: "int l < max_depth co0" "x \<in> set items" "counters co l c s e" "0 \<le> c" "c + 1 < 2 ^ 31" "frame l co0 co"
    have v: "valid h (item_zv x)" "item_name x \<noteq> []" using a(2) items(3) by blast+
    have ex: "\<exists>co' node'. export (item_zv x) name (Suc l) (co, node) = Some (co', node') \<and>
        frame (Suc l) co co' \<and> extends node node' \<and> fits (nat (max_depth co0) - Suc l) (nat (max_children co0)) node'"
      if "frame l co0 co" "properties node = []" for name co node
      by (rule exports_child [OF ih [OF a(1) v(1)] that])
    show "\<exists>co' node'. object_element_export_xml_node en export l name (class_name obj) x (co, node) = Some (co', node') \<and>
        counters co' l (c + 1) s e \<and> frame l co co' \<and>
        (if s \<le> c \<and> c < e then \<exists>child. node' = xml_add_child node child \<and>
           shown (nat (max_depth co0) - Suc l) (nat (max_children co0)) child else node' = node)"
      by (rule object_element_ok [where export = export and item = x, OF ex a(3-6) v(2)])
  qed auto
  then obtain co' node' where r: "export_children (object_element_export_xml_node en export l name (class_name obj)) items l
      (co1, node2) = Some (co', node')" "frame l co1 co'" "extends node2 node'"
      "fits (nat (max_depth co0) - l) (nat (max_children co0)) node'" by blast
  have "export_object en h export a name l (co, node) = Some (co', node')"
    using assms(2) items(1) r(1) by (simp add: export_object_def Let_def 1 node2_def [symmetric])
  then show "\<exists>co' node'. export_object en h export a name l (co, node) = Some (co', node') \<and> frame l co co' \<and> extends node node' \<and>
      fits (nat (max_depth co0) - l) (nat (max_children co0)) node'"
    using frame_trans [OF fc r(2)] extends_trans [OF n2(2) r(3)] r(4) by blast
qed

lemma texts_ok:
  "extends x node \<Longrightarrow> extends x (add_unencoded_text_value en co v node)"
  "extends x node \<Longrightarrow> extends x (add_encoded_text_value en co v node)"
  "properties (add_unencoded_text_value en co v node) = properties node"
  "properties (add_encoded_text_value en co v node) = properties node"
  by (auto simp: add_unencoded_text_value_def add_encoded_text_value_def base64_element_def Let_def)

text \<open>The whole export: one unit of fuel for a level is enough, whatever the heap looks like.\<close>

lemma export_ok:
  assumes "heap_ok h"
  shows "valid h z \<Longrightarrow> pages_ok co0 \<Longrightarrow> (l = 0 \<Longrightarrow> top_page_ok co0) \<Longrightarrow> nat (max_depth co0) < n + l \<Longrightarrow> l \<le> nat (max_depth co0) \<Longrightarrow>
    exports co0 l (var_export_xml_node en h n ap z name l)"
proof (induction n arbitrary: ap z name l co0)
  case (Suc n)
  obtain y where y: "deref h z = Some y" "valid h y" using deref_valid [OF assms Suc.prems(1)] by blast
  have ih: "exports co (Suc l) (var_export_xml_node en h n ap z name (Suc l))"
    if "int l < max_depth co0" "valid h z" "frame l co0 co" for ap z name co
  proof (rule Suc.IH)
    have "max_depth co = max_depth co0" using that(3) by (simp add: frame_def)
    then show "nat (max_depth co) < n + Suc l" "Suc l \<le> nat (max_depth co)" using that(1) Suc.prems(4) by linarith+
  qed (use that frame_pages Suc.prems(2) in auto)
  show ?case
  proof (cases "(\<exists>a. y = IS_ARRAY a) \<or> (\<exists>a. y = IS_OBJECT a)")
    case True
    then show ?thesis
    proof (elim disjE exE)
      fix a
      assume a: "y = IS_ARRAY a"
      obtain t where "ht_at h a = Some t" using y(2) a by (auto simp: valid_def)
      from export_array_ok [where export = "var_export_xml_node en h n", OF assms this Suc.prems(2,3) ih] y(1) a
      show ?thesis by (simp add: exports_def)
    next
      fix a
      assume a: "y = IS_OBJECT a"
      obtain obj where "object_at h a = Some obj" using y(2) a by (auto simp: valid_def)
      from export_object_ok [where export = "var_export_xml_node en h n ap", OF assms this Suc.prems(2,3) ih] y(1) a
      show ?thesis by (simp add: exports_def)
    qed
  next
    case False
    show ?thesis
    proof (rule exports_scalar)
      fix co node
      show "\<exists>node'. var_export_xml_node en h (Suc n) ap z name l (co, node) = Some (co, node') \<and> extends node node' \<and>
          properties node' = properties node"
        using False y(1) by (cases y) (auto simp: texts_ok)
    qed
  qed
qed simp

section \<open>The property node\<close>

text \<open>A name that can be shown has a character besides the dollar sign.\<close>

definition name_ok :: "var_type \<Rightarrow> string \<Rightarrow> bool" where
  "name_ok vt name \<longleftrightarrow> vt = XDEBUG_VAR_TYPE_NORMAL \<longrightarrow> prepare_variable_name name \<noteq> None"

lemma property_start:
  assumes "name_ok vt name"
  shows "\<exists>short co1 node1. frame 0 co co1 \<and> properties node1 = [] \<and> xml_tag node1 = ''property'' \<and>
    get_zval_value_xml_node_ex en h (Some name) z vt co =
      var_export_xml_node en h (nat (max_depth co) + 1) (\<lambda>_. 0) z (Some short) 0 (co1, node1)"
proof -
  obtain short where short: "(case vt of XDEBUG_VAR_TYPE_NORMAL \<Rightarrow> prepare_variable_name name
      | XDEBUG_VAR_TYPE_STATIC \<Rightarrow> Some (''::'' @ name) | XDEBUG_VAR_TYPE_CONSTANT \<Rightarrow> Some name) = Some short"
    using assms by (cases vt) (auto simp: name_ok_def)
  obtain co1 n1 where 1: "add_xml_attribute_or_element en ''name'' short (co\<lparr>force_extended := 0\<rparr>, xml_node_init ''property'')
      = (co1, n1)" by force
  obtain co2 n2 where 2: "add_xml_attribute_or_element en ''fullname'' short (co1, n1) = (co2, n2)" by force
  have "frame 0 co co2 \<and> properties n2 = [] \<and> xml_tag n2 = ''property''"
    using start_child [OF 1, of "Some short" co2 n2 0] 2 by simp
  then show ?thesis using short 1 2 by (auto simp: get_zval_value_xml_node_ex_def Let_def)
qed

lemma value_exported:
  assumes "heap_ok h" and "valid h z" and "pages_ok co" and "top_page_ok co" and "name_ok vt name"
  shows "\<exists>co' node. get_zval_value_xml_node_ex en h (Some name) z vt co = Some (co', node) \<and>
    xml_tag node = ''property'' \<and> fits (nat (max_depth co)) (nat (max_children co)) node \<and>
    max_depth co' = max_depth co \<and> max_children co' = max_children co \<and> max_data co' = max_data co \<and>
    pages_ok co' \<and> top_page_ok co'"
proof -
  obtain short co1 node1 where s: "frame 0 co co1" "properties node1 = []" "xml_tag node1 = ''property''"
    "get_zval_value_xml_node_ex en h (Some name) z vt co =
      var_export_xml_node en h (nat (max_depth co) + 1) (\<lambda>_. 0) z (Some short) 0 (co1, node1)"
    using property_start [OF assms(5)] by blast
  have "exports co 0 (var_export_xml_node en h (nat (max_depth co) + 1) (\<lambda>_. 0) z (Some short) 0)"
    by (rule export_ok [OF assms(1-3)]) (use assms(4) in auto)
  then obtain co' node where r: "var_export_xml_node en h (nat (max_depth co) + 1) (\<lambda>_. 0) z (Some short) 0 (co1, node1)
      = Some (co', node)" "frame 0 co1 co'" "extends node1 node" "fits (nat (max_depth co)) (nat (max_children co)) node"
    using s(1,2) unfolding exports_def by fastforce
  have f: "frame 0 co co'" using frame_trans [OF s(1) r(2)] .
  then have limits: "max_depth co' = max_depth co" "max_children co' = max_children co" "max_data co' = max_data co"
    by (simp_all add: frame_def)
  have "get_zval_value_xml_node_ex en h (Some name) z vt co = Some (co', node)" by (simp only: s(4) r(1))
  moreover have "xml_tag node = ''property''" using r(3) s(3) by (simp add: extends_def)
  ultimately show ?thesis using r(4) limits frame_pages [OF f assms(3)] frame_top [OF f assms(4)] by blast
qed

text \<open>C30: The export of a value always returns, in every heap in which no pointer dangles and no object has a property
  with an empty name, cyclic arrays and objects included, and never leaves the pages of the options. (For a
  property with an empty name the code prints a structure as a string.) The tree it gives has at most as many properties at a node as
  the options allow children, nested at most as deep as they allow; the options come back with the same limits and
  pages, so that they can be used again.\<close>

theorem exported_tree_bounded:
  assumes "heap_ok h" and "valid h z" and "pages_ok co" and "top_page_ok co" and "name_ok vt name"
  shows "\<exists>co' node. get_zval_value_xml_node_ex en h (Some name) z vt co = Some (co', node) \<and>
    xml_tag node = ''property'' \<and> fits (nat (max_depth co)) (nat (max_children co)) node \<and>
    max_depth co' = max_depth co \<and> max_children co' = max_children co \<and> max_data co' = max_data co \<and>
    pages_ok co' \<and> top_page_ok co'"
  by (rule value_exported [OF assms])

text \<open>C31: At the top of an array exactly one page is shown: the properties of the node are named, in order, like the
  elements of the table from the number of the page times its size on, as many as a page holds or as are left.\<close>

theorem page_exact:
  assumes "heap_ok h" and "valid h z" and "deref h z = Some (IS_ARRAY a)" and "ht_at h a = Some t" and "foreach_ind h t = Some es"
    and "pages_ok co" and "top_page_ok co" and "0 < max_depth co" and "page (hd (runtime co)) = Some p"
    and "extended_properties co = 0" and "name_ok vt name"
  shows "\<exists>co' node. get_zval_value_xml_node_ex en h (Some name) z vt co = Some (co', node) \<and>
    map (\<lambda>c. hd (xml_attributes c)) (filter (\<lambda>c. xml_tag c = ''property'') (xml_child node)) =
    map (\<lambda>kv. \<lparr>at_name = ''name'', at_value = Some (array_element_name (fst kv))\<rparr>)
      (take (nat (max_children co)) (drop (nat (max_children co * p)) es))"
proof -
  obtain short co1 node1 where s: "frame 0 co co1" "properties node1 = []"
    "get_zval_value_xml_node_ex en h (Some name) z vt co =
      var_export_xml_node en h (nat (max_depth co) + 1) (\<lambda>_. 0) z (Some short) 0 (co1, node1)"
    using property_start [OF assms(11)] by blast
  define ex where "ex = var_export_xml_node en h (nat (max_depth co)) (inc_apply (Some a) (\<lambda>_. 0))"
  define node2 where "node2 = xml_add_attribute_ex ''numchildren'' (dec (length t)) (array_node t node1)"
  have ih: "exports co'' (Suc 0) (ex z name (Suc 0))" if "valid h z" "frame 0 co co''" for z name co''
  proof -
    have "max_depth co'' = max_depth co" using that(2) by (simp add: frame_def)
    then show ?thesis
      unfolding ex_def by (intro export_ok [OF assms(1) that(1)] frame_pages [OF that(2) assms(6)]) (use assms(8) in auto)
  qed
  obtain co' node' where r: "export_children (array_element_export_xml_node en ex 0 (Some short)) es 0 (co1, node2) = Some (co', node')"
    "list_all2 (\<lambda>kv child. shown (nat (max_depth co) - Suc 0) (nat (max_children co)) child \<and>
        named co (array_element_name (fst kv)) child)
      (slice 0 (page_start co 0) (page_end co 0) es) (properties node')"
    using array_children_ok [where export = ex and l = 0 and node = node2 and name = "Some short" and en = en,
      OF assms(1,4,6) assms(7) ih s(1)] s(2) array_node_ok assms(5,8) by (auto simp: node2_def)
  have run: "get_zval_value_xml_node_ex en h (Some name) z vt co = Some (co', node')"
    using s(3) assms(3) r(1) by (simp add: export_array_eq [OF assms(4,5)] ex_def node2_def)
  have n: "runtime co \<noteq> []" using assms(6) [unfolded pages_ok_def, rule_format, of 0] assms(8) by auto
  then have "page_start co 0 = max_children co * p" "0 \<le> p \<and> 0 \<le> max_children co"
    using assms(7,9) by (auto simp: page_start_def top_page_ok_def hd_conv_nth)
  then have sl: "slice 0 (page_start co 0) (page_end co 0) es = take (nat (max_children co)) (drop (nat (max_children co * p)) es)"
    by (simp add: slice_take page_end_def)
  have "map (\<lambda>c. hd (xml_attributes c)) (properties node') =
      map (\<lambda>kv. \<lparr>at_name = ''name'', at_value = Some (array_element_name (fst kv))\<rparr>) (slice 0 (page_start co 0) (page_end co 0) es)"
    using r(2) assms(10) by (auto simp: list_all2_conv_all_nth named_def intro: nth_equalityI)
  then show ?thesis using run by (simp add: sl properties_def)
qed

section \<open>Samples\<close>

definition sample_options :: export_options where
  "sample_options = \<lparr>max_children = 2, max_data = 10, max_depth = 1, show_hidden = 0, extended_properties = 0,
     force_extended = 0, show_location = None, runtime = [new_page\<lparr>page := Some 1\<rparr>], no_decoration = None\<rparr>"

lemma sample_options_ok: "pages_ok sample_options" "top_page_ok sample_options"
  by (simp_all add: pages_ok_def top_page_ok_def sample_options_def)

lemma sample_value_ok: "valid sample_heap (IS_ARRAY 0)" "name_ok XDEBUG_VAR_TYPE_NORMAL ''x''"
  by (simp_all add: valid_def sample_heap_def name_ok_def prepare_variable_name_def)

theorem exported_tree_bounded_witness:
  "\<exists>co' node. get_zval_value_xml_node_ex sample_engine sample_heap (Some ''x'') (IS_ARRAY 0) XDEBUG_VAR_TYPE_NORMAL sample_options
     = Some (co', node) \<and> fits 1 2 node"
proof -
  have l: "max_depth sample_options = 1" "max_children sample_options = 2" by (simp_all add: sample_options_def)
  show ?thesis
    using exported_tree_bounded [OF sample_heap_ok sample_value_ok(1) sample_options_ok sample_value_ok(2), of sample_engine]
    unfolding l by auto
qed

theorem page_exact_witness:
  "\<exists>co' node. get_zval_value_xml_node_ex sample_engine sample_heap (Some ''x'') (IS_ARRAY 0) XDEBUG_VAR_TYPE_NORMAL sample_options
     = Some (co', node) \<and>
     map (\<lambda>c. hd (xml_attributes c)) (filter (\<lambda>c. xml_tag c = ''property'') (xml_child node)) =
     [\<lparr>at_name = ''name'', at_value = Some [CHR 0x07]\<rparr>, \<lparr>at_name = ''name'', at_value = Some ''-1''\<rparr>]"
proof -
  have d: "dec_int (- 1) = ''-1''" by code_simp
  have "deref sample_heap (IS_ARRAY 0) = Some (IS_ARRAY 0)" "ht_at sample_heap 0 = Some sample_table"
    "foreach_ind sample_heap sample_table = Some sample_table" "0 < max_depth sample_options"
    "page (hd (runtime sample_options)) = Some 1" "extended_properties sample_options = 0"
    by (simp_all add: deref_def skip_indirect_def skip_reference_def sample_heap_def sample_table_def sample_options_def)
  from page_exact [OF sample_heap_ok sample_value_ok(1) this(1-3) sample_options_ok this(4-6) sample_value_ok(2), of sample_engine]
  show ?thesis by (simp add: sample_options_def sample_table_def array_element_name_def d numeral_2_eq_2)
qed

end
