(* ===== verification/FuncName.thy ===== *)
theory FuncName
  imports Frames
begin

text \<open>
  How a frame is named: \<open>xdebug_show_fname\<close> of \<open>xdebug_var.c\<close>, with the links to the manual. Printing or
  comparing a missing name is \<open>None\<close>.
\<close>

text \<open>The settings of PHP that the links use.\<close>

record docref =
  html_errors :: bool
  doc_root :: string
  doc_ext :: string

definition create_doc_link :: "docref \<Rightarrow> xdebug_func \<Rightarrow> string option" where
  "create_doc_link ini f =
     do {
       name \<leftarrow> func_function f;
       target \<leftarrow> (if func_type f = XFUNC_NORMAL then Some (''function.'' @ name)
                  else if func_type f = XFUNC_STATIC_MEMBER \<or> func_type f = XFUNC_MEMBER
                  then map_option (\<lambda>c. c @ ''.'' @ (if name = ''__construct'' then ''construct'' else name)) (func_class f)
                  else None);
       Some (''<a href='' @ [CHR 0x27] @ (if doc_root ini \<noteq> [] then doc_root ini else ''http://www.php.net/'') @
         map (\<lambda>c. if c = CHR ''_'' then CHR ''-'' else c) target @ doc_ext ini @ [CHR 0x27] @ '' target='' @ [CHR 0x27] @
         ''_new'' @ [CHR 0x27] @ ''>'' @ name @ ''</a>'' @ [CHR 0x0A])
     }"

text \<open>The name without a link; an included file is shown by the kind of the call.\<close>

definition plain_fname :: "xdebug_func \<Rightarrow> string option" where
  "plain_fname f =
     (let ty = func_type f; unknown = (\<lambda>n. case n of None \<Rightarrow> ''?'' | Some n \<Rightarrow> n)
      in if ty = XFUNC_NORMAL then func_function f
         else if ty = XFUNC_STATIC_MEMBER \<or> ty = XFUNC_MEMBER
         then Some (unknown (func_class f) @ (if ty = XFUNC_STATIC_MEMBER then ''::'' else ''->'') @ unknown (func_function f))
         else if ty = XFUNC_EVAL then Some ''eval''
         else if ty = XFUNC_INCLUDE then Some ''include''
         else if ty = XFUNC_INCLUDE_ONCE then Some ''include_once''
         else if ty = XFUNC_REQUIRE then Some ''require''
         else if ty = XFUNC_REQUIRE_ONCE then Some ''require_once''
         else if ty = XFUNC_ZEND_PASS then Some ''{zend_pass}''
         else Some ''{unknown}'')"

text \<open>\<open>internal\<close> functions are linked in HTML.\<close>

definition show_fname :: "docref \<Rightarrow> bool \<Rightarrow> bool \<Rightarrow> xdebug_func \<Rightarrow> string option" where
  "show_fname ini html internal f =
     (if html_errors ini \<and> html \<and> internal \<and>
         (func_type f = XFUNC_NORMAL \<or> func_type f = XFUNC_STATIC_MEMBER \<or> func_type f = XFUNC_MEMBER)
      then create_doc_link ini f else plain_fname f)"

lemma show_fname_plain [simp]: "show_fname ini False internal f = plain_fname f"
  by (simp add: show_fname_def)

end
