(* ===== verification/DbgpValues.thy ===== *)
theory DbgpValues
  imports DbgpCommands PhpSymbol VarXml OpArray FuncName
begin

text \<open>
  The commands of \<open>xdebug_handler_dbgp.c\<close> that show and change values and frames: \<open>property_get\<close>,
  \<open>property_value\<close>, \<open>property_set\<close>, \<open>eval\<close>, \<open>context_get\<close>, \<open>stack_get\<close> and the \<open>xcmd\<close> commands. They look at the
  state of the engine, a parameter, through the pointers that the session keeps to the frame looked at last; a
  pointer to something that is gone gives \<open>None\<close> when it is used. Evaluating code is a parameter as well; what is evaluated is part
  of the result of a command.
\<close>

definition XDEBUG_ERROR_EVALUATING_CODE :: int where "XDEBUG_ERROR_EVALUATING_CODE = 206"
definition XDEBUG_ERROR_PROPERTY_NON_EXISTENT :: int where "XDEBUG_ERROR_PROPERTY_NON_EXISTENT = 300"
definition XDEBUG_ERROR_PROFILING_NOT_STARTED :: int where "XDEBUG_ERROR_PROFILING_NOT_STARTED = 800"

section \<open>The running script\<close>

record php_constant =
  const_name :: "string option"
  const_user :: bool
  const_value :: zval

record world =
  w_engine :: engine
  w_heap :: heap
  w_current_execute_data :: "nat option"
  w_compiled_vars :: "nat \<Rightarrow> (string \<times> zval) list option option"
  w_symbol_table :: nat
  w_executed_filename :: string
  w_executed_lineno :: int
  w_get_constant :: "string \<Rightarrow> zval option"
  w_constants :: "php_constant list"
  w_eval :: "nat option \<Rightarrow> string \<Rightarrow> zval option"
  w_op_array :: "int \<Rightarrow> opcodes option"
  w_docref :: docref
  w_profile_filename :: "string option"
  w_qsort :: "(hkey \<times> xstr \<Rightarrow> hkey \<times> xstr \<Rightarrow> int) \<Rightarrow> (hkey \<times> xstr) list \<Rightarrow> (hkey \<times> xstr) list"

text \<open>The frame with a number, unless it has returned.\<close>

definition frame_nr :: "dbg_env \<Rightarrow> int \<Rightarrow> function_stack_entry option" where
  "frame_nr env nr = Option.bind (env_stack env) (List.find (\<lambda>fse. function_nr fse = nr))"

definition active_scope :: "world \<Rightarrow> dbg_env \<Rightarrow> dbg \<Rightarrow> scope" where
  "active_scope w env d =
     \<lparr>compiled_vars = (case xg_execute_data d of None \<Rightarrow> Some None | Some a \<Rightarrow> w_compiled_vars w a),
      active_symbol_table = xg_symbol_table d,
      this_value = (case xg_this d of None \<Rightarrow> Some None | Some a \<Rightarrow> map_option Some (slot_at (w_heap w) a)),
      active_class = Option.bind (xg_fse d) (\<lambda>nr. map_option (\<lambda>fse. func_class (fse_function fse)) (frame_nr env nr))\<rparr>"

section \<open>Looking up\<close>

definition get_symbol ::
  "world \<Rightarrow> scope \<Rightarrow> string \<Rightarrow> export_options \<Rightarrow> (export_options \<times> xml_node option) option" where
  "get_symbol w sc name co =
     do {
       z \<leftarrow> get_php_symbol (w_engine w) (w_heap w) sc name;
       if z = IS_UNDEF \<or> (cstr name = ''this'' \<and> z = IS_NULL) then Some (co, None)
       else do {
         (co, node) \<leftarrow> get_zval_value_xml_node_ex (w_engine w) (w_heap w) (Some name) z XDEBUG_VAR_TYPE_NORMAL co;
         Some (co, Some node)
       }
     }"

text \<open>The export starts at level one, inside the node of the reply.\<close>

definition get_symbol_contents ::
  "world \<Rightarrow> scope \<Rightarrow> string \<Rightarrow> export_options \<times> xml_node \<Rightarrow> (bool \<times> export_options \<times> xml_node) option" where
  "get_symbol_contents w sc name st =
     do {
       z \<leftarrow> get_php_symbol (w_engine w) (w_heap w) sc name;
       if z = IS_UNDEF then Some (False, st)
       else map_option (\<lambda>st. (True, st))
         (var_export_xml_node (w_engine w) (w_heap w) (nat (max_depth (fst st)) + 1) (\<lambda>_. 0) z (Some name) 1 st)
     }"

definition add_constant_node ::
  "world \<Rightarrow> string \<Rightarrow> zval \<Rightarrow> export_options \<times> xml_node \<Rightarrow> (export_options \<times> xml_node) option" where
  "add_constant_node w name z st =
     do {
       (co, contents) \<leftarrow> get_zval_value_xml_node_ex (w_engine w) (w_heap w) (Some name) z XDEBUG_VAR_TYPE_CONSTANT (fst st);
       Some (co, xml_add_child (snd st) (xml_add_attribute_ex ''facet'' ''constant'' contents))
     }"

definition add_variable_node ::
  "world \<Rightarrow> scope \<Rightarrow> string \<Rightarrow> export_options \<times> xml_node \<Rightarrow> (bool \<times> export_options \<times> xml_node) option" where
  "add_variable_node w sc name st =
     do {
       (co, contents) \<leftarrow> get_symbol w sc name (fst st);
       Some (case contents of None \<Rightarrow> (False, co, snd st) | Some c \<Rightarrow> (True, co, xml_add_child (snd st) c))
     }"

text \<open>The pointers to the frame at a depth; \<open>Some None\<close> when there is no such frame.\<close>

definition enter_frame :: "world \<Rightarrow> dbg_env \<Rightarrow> int \<Rightarrow> dbg \<Rightarrow> dbg option option" where
  "enter_frame w env depth d =
     (case get_stack_frame depth (env_stack env) of
        None \<Rightarrow> Some None
      | Some fse \<Rightarrow>
          do {
            ed \<leftarrow> (if depth > 0 then map_option fse_execute_data (get_stack_frame (depth - 1) (env_stack env))
                   else Some (w_current_execute_data w));
            Some (Some (d\<lparr>xg_execute_data := ed, xg_symbol_table := fse_symbol_table fse, xg_this := fse_this fse,
              xg_fse := Some (function_nr fse)\<rparr>))
          })"

text \<open>The page to show goes to the first level, whether there is one or not.\<close>

definition set_first_page :: "int \<Rightarrow> export_options \<Rightarrow> export_options option" where
  "set_first_page p co =
     (case runtime co of [] \<Rightarrow> None | q # qs \<Rightarrow> Some (co\<lparr>runtime := q\<lparr>page := Some p\<rparr> # qs\<rparr>))"

definition page_option :: "dbgp_arg \<Rightarrow> int" where
  "page_option args = (if option_set args (CHR ''p'') then int_option args (CHR ''p'') else 0)"

definition option_or :: "int \<Rightarrow> dbgp_arg \<Rightarrow> char \<Rightarrow> int" where
  "option_or i args c = (if option_set args c then int_option args c else i)"

section \<open>Properties\<close>

text \<open>The frame or table that a command looks at; \<open>Inl\<close> is an error code. \<open>property_get\<close> knows three contexts, the
  other commands take every one but the first for the super globals.\<close>

definition select_locals :: "world \<Rightarrow> dbg_env \<Rightarrow> int \<Rightarrow> dbg \<Rightarrow> (int + dbg) option" where
  "select_locals w env depth d =
     map_option (\<lambda>r. case r of None \<Rightarrow> Inl XDEBUG_ERROR_STACK_DEPTH_INVALID | Some d \<Rightarrow> Inr d) (enter_frame w env depth d)"

definition select_globals :: "world \<Rightarrow> dbg \<Rightarrow> dbg" where
  "select_globals w d = d\<lparr>xg_symbol_table := Some (w_symbol_table w)\<rparr>"

definition select_context :: "world \<Rightarrow> dbg_env \<Rightarrow> int \<Rightarrow> int \<Rightarrow> dbg \<Rightarrow> (int + dbg) option" where
  "select_context w env ctx depth d =
     (if ctx = 0 then select_locals w env depth d
      else if ctx = 1 then Some (Inr (select_globals w d))
      else if ctx = 2 then Some (Inr d)
      else Some (Inl XDEBUG_ERROR_INVALID_ARGS))"

definition handle_property_get :: "world \<Rightarrow> dbg_env \<Rightarrow> handler" where
  "handle_property_get w env args d retval =
     (if \<not> option_set args (CHR ''n'') then fail_with XDEBUG_ERROR_INVALID_ARGS d retval
      else
        (let name = option_content args (CHR ''n''); depth = option_or 0 args (CHR ''d''); ctx = option_or 0 args (CHR ''c'')
         in do {
           sel \<leftarrow> select_context w env ctx depth d;
           case sel of
             Inl e \<Rightarrow> fail_with e d retval
           | Inr d \<Rightarrow>
               do {
                 co \<leftarrow> set_first_page (page_option args) (con_options d);
                 let old = max_data co; co = co\<lparr>max_data := option_or old args (CHR ''m'')\<rparr>
                 in if ctx = 2
                    then
                      (case w_get_constant w name of
                         None \<Rightarrow> fail_with XDEBUG_ERROR_PROPERTY_NON_EXISTENT (d\<lparr>con_options := co\<lparr>max_data := old\<rparr>\<rparr>) retval
                       | Some z \<Rightarrow>
                           do {
                             (co, retval) \<leftarrow> add_constant_node w name z (co, retval);
                             Some (d\<lparr>con_options := co\<lparr>max_data := old\<rparr>\<rparr>, retval)
                           })
                    else
                      do {
                        (found, co, retval) \<leftarrow> add_variable_node w (active_scope w env d) name (co, retval);
                        let d = d\<lparr>con_options := co\<lparr>max_data := old\<rparr>, inhibit_notifications := False\<rparr>
                        in if found then Some (d, retval) else fail_with XDEBUG_ERROR_PROPERTY_NON_EXISTENT d retval
                      }
               }
         }))"

definition handle_property_value :: "world \<Rightarrow> dbg_env \<Rightarrow> handler" where
  "handle_property_value w env args d retval =
     (if \<not> option_set args (CHR ''n'') then fail_with XDEBUG_ERROR_INVALID_ARGS d retval
      else
        (let name = option_content args (CHR ''n''); depth = option_or 0 args (CHR ''d''); ctx = option_or 0 args (CHR ''c'')
         in do {
           sel \<leftarrow> (if ctx = 0 then select_locals w env depth d else Some (Inr (select_globals w d)));
           case sel of
             Inl e \<Rightarrow> fail_with e d retval
           | Inr d \<Rightarrow>
               do {
                 co \<leftarrow> set_first_page (page_option args) (con_options d);
                 let old = max_data co; co = co\<lparr>max_data := option_or old args (CHR ''m'')\<rparr>
                 in if max_data co < 0
                    then fail_with XDEBUG_ERROR_INVALID_ARGS (d\<lparr>con_options := co\<lparr>max_data := old\<rparr>\<rparr>) retval
                    else
                      do {
                        (found, co, retval) \<leftarrow> get_symbol_contents w (active_scope w env d) name (co, retval);
                        let d = d\<lparr>con_options := co\<lparr>max_data := old\<rparr>\<rparr>
                        in if found then Some (d, retval) else fail_with XDEBUG_ERROR_PROPERTY_NON_EXISTENT d retval
                      }
               }
         }))"

text \<open>Commands that evaluate code also give the code with the frame it runs in.\<close>

type_synonym evaluations = "(nat option \<times> string) list"
type_synonym eval_handler = "dbgp_arg \<Rightarrow> dbg \<Rightarrow> xml_node \<Rightarrow> (evaluations \<times> dbg \<times> xml_node) option"

definition success_node :: "bool \<Rightarrow> xml_node \<Rightarrow> xml_node" where
  "success_node b x = xml_add_attribute_ex ''success'' (if b then ''1'' else ''0'') x"

text \<open>With a type the new value is converted in a copy and dropped.\<close>

definition handle_property_set :: "world \<Rightarrow> dbg_env \<Rightarrow> eval_handler" where
  "handle_property_set w env args d retval =
     (if \<not> option_set args (CHR ''n'') \<or> \<not> option_set args (CHR ''-'')
      then map_option (Pair []) (fail_with XDEBUG_ERROR_INVALID_ARGS d retval)
      else
        (let name = option_content args (CHR ''n''); depth = option_or 0 args (CHR ''d''); ctx = option_or 0 args (CHR ''c'')
         in do {
           sel \<leftarrow> (if ctx = 0 then select_locals w env depth d else Some (Inr (select_globals w d)));
           case sel of
             Inl e \<Rightarrow> map_option (Pair []) (fail_with e d retval)
           | Inr d \<Rightarrow>
               do {
                 co \<leftarrow> set_first_page (page_option args) (con_options d);
                 let d = d\<lparr>con_options := co\<rparr>; new_value = env_base64_decode env (option_content args (CHR ''-''))
                 in if option_set args (CHR ''t'')
                    then do {
                      z \<leftarrow> get_php_symbol (w_engine w) (w_heap w) (active_scope w env d) name;
                      map_option (Pair [])
                        (if z = IS_UNDEF then fail_with XDEBUG_ERROR_PROPERTY_NON_EXISTENT d retval
                         else Some (d,
                           (if option_char args (CHR ''t'') \<in> {''bool'', ''int'', ''float'', ''string''}
                            then success_node True retval else success_node False (success_node True retval))))
                    }
                    else
                      (let ed = (if depth > 0 then xg_execute_data d else w_current_execute_data w);
                           code = option_char args (CHR ''n'') @ '' = '' @ cstr new_value
                       in Some ([(ed, code)], d, success_node (w_eval w ed code \<noteq> None) retval))
               }
         }))"

definition handle_eval :: "world \<Rightarrow> dbg_env \<Rightarrow> eval_handler" where
  "handle_eval w env args d retval =
     (if \<not> option_set args (CHR ''-'') then map_option (Pair []) (fail_with XDEBUG_ERROR_INVALID_ARGS d retval)
      else do {
        co \<leftarrow> set_first_page (page_option args) (con_options d);
        let code = cstr (env_base64_decode env (option_content args (CHR ''-''))); ed = w_current_execute_data w
        in map_option (Pair [(ed, code)])
          (case w_eval w ed code of
             None \<Rightarrow> fail_with XDEBUG_ERROR_EVALUATING_CODE (d\<lparr>con_options := co\<rparr>) retval
           | Some z \<Rightarrow>
               do {
                 (co, node) \<leftarrow> get_zval_value_xml_node_ex (w_engine w) (w_heap w) None z XDEBUG_VAR_TYPE_NORMAL co;
                 Some (d\<lparr>con_options := co\<rparr>, xml_add_child retval node)
               })
      })"

section \<open>Contexts\<close>

definition attach_declared_var_with_contents ::
  "world \<Rightarrow> scope \<Rightarrow> xstr \<Rightarrow> export_options \<times> xml_node \<Rightarrow> (export_options \<times> xml_node) option" where
  "attach_declared_var_with_contents w sc name st =
     do {
       (co, contents) \<leftarrow> get_symbol w sc (content name) (fst st);
       case contents of
         None \<Rightarrow> attach_uninitialized_var (w_engine w) (content name) (co, snd st)
       | Some c \<Rightarrow> Some (co, xml_add_child (snd st) c)
     }"

definition hidden_names :: "string list" where
  "hidden_names =
     [''argc'', ''argv'', ''_COOKIE'', ''_ENV'', ''_FILES'', ''_GET'', ''_POST'', ''_REQUEST'', ''_SERVER'', ''_SESSION'',
      ''HTTP_COOKIE_VARS'', ''HTTP_ENV_VARS'', ''HTTP_GET_VARS'', ''HTTP_POST_VARS'', ''HTTP_POST_FILES'',
      ''HTTP_RAW_POST_DATA'', ''HTTP_SERVER_VARS'', ''HTTP_SESSION_VARS'', ''GLOBALS'']"

text \<open>A variable of the symbol table that is none of the hidden ones joins the declared ones.\<close>

definition add_filtered_symboltable_var :: "pkey \<times> zval \<Rightarrow> xstr xhash \<Rightarrow> xstr xhash option" where
  "add_filtered_symboltable_var kv h =
     (case fst kv of
        pkey.Key_num _ \<Rightarrow> Some h
      | Key_str s \<Rightarrow>
          if s = [] \<or> cstr s \<in> set hidden_names then Some h
          else do { x \<leftarrow> str_create nul (s @ [nul]) (length s); hash_add_or_update (Key_string s) x h })"

definition superglobals :: "string list" where
  "superglobals =
     [''_COOKIE'', ''_ENV'', ''_FILES'', ''_GET'', ''_POST'', ''_REQUEST'', ''_SERVER'', ''_SESSION'', ''GLOBALS'']"

definition add_variables ::
  "world \<Rightarrow> scope \<Rightarrow> string list \<Rightarrow> export_options \<times> xml_node \<Rightarrow> (export_options \<times> xml_node) option" where
  "add_variables w sc names = fold_option (\<lambda>name st. map_option snd (add_variable_node w sc name st)) names"

definition add_user_constants :: "world \<Rightarrow> export_options \<times> xml_node \<Rightarrow> (export_options \<times> xml_node) option" where
  "add_user_constants w =
     fold_option (\<lambda>c st. case const_name c of
         None \<Rightarrow> Some st
       | Some n \<Rightarrow> if const_user c then add_constant_node w n (const_value c) st else Some st)
       (w_constants w)"

text \<open>The declared variables of a frame with those of its symbol table, and \<open>$this\<close>.\<close>

definition add_locals ::
  "world \<Rightarrow> scope \<Rightarrow> xstr list \<Rightarrow> export_options \<times> xml_node \<Rightarrow> (export_options \<times> xml_node) option" where
  "add_locals w sc vars st =
     do {
       h \<leftarrow> declared_var_hash_from_llist nul vars;
       h \<leftarrow> (case active_symbol_table sc of
              None \<Rightarrow> Some h
            | Some a \<Rightarrow> Option.bind (ht_at (w_heap w) a) (\<lambda>t. fold_option add_filtered_symboltable_var t h));
       st \<leftarrow> hash_apply_with_argument (w_qsort w)
         (\<lambda>r e (_ :: unit). Option.bind r (attach_declared_var_with_contents w sc (snd e))) () h (Some st);
       found \<leftarrow> hash_extended_find (Key_string ''this'') h;
       if found = None then add_variables w sc [''this''] st else Some st
     }"

definition leave_frame :: "dbg \<Rightarrow> dbg" where
  "leave_frame d = d\<lparr>xg_symbol_table := None, xg_execute_data := None, xg_this := None\<rparr>"

text \<open>\<open>Some None\<close> when the frame does not exist. Every context other than the globals and the constants is the one
  of the locals.\<close>

definition attach_context_vars ::
  "world \<Rightarrow> dbg_env \<Rightarrow> int \<Rightarrow> int \<Rightarrow> dbg \<Rightarrow> xml_node \<Rightarrow> (dbg \<times> xml_node) option option" where
  "attach_context_vars w env ctx depth d node =
     (if ctx = 1
      then
        (let d = d\<lparr>xg_symbol_table := Some (w_symbol_table w), xg_execute_data := None\<rparr>
         in do {
           (co, node) \<leftarrow> add_variables w (active_scope w env d) superglobals (con_options d, node);
           Some (Some (d\<lparr>con_options := co, xg_symbol_table := None\<rparr>, node))
         })
      else if ctx = 2
      then do {
        (co, node) \<leftarrow> add_user_constants w (con_options d, node);
        Some (Some (d\<lparr>con_options := co\<rparr>, node))
      }
      else do {
        entered \<leftarrow> enter_frame w env depth d;
        case entered of
          None \<Rightarrow> Some None
        | Some e \<Rightarrow>
            do {
              fse \<leftarrow> get_stack_frame depth (env_stack env);
              let e = e\<lparr>xg_fse := xg_fse d\<rparr>; sc = active_scope w env e
              in do {
                st \<leftarrow> (case declared_vars fse of
                       None \<Rightarrow> Some (con_options e, node)
                     | Some vars \<Rightarrow> add_locals w sc vars (con_options e, node));
                (co, node) \<leftarrow> (if func_type (fse_function fse) = XFUNC_STATIC_MEMBER
                  then do { cls \<leftarrow> func_class (fse_function fse); attach_static_vars (w_engine w) (w_heap w) cls st }
                  else Some st);
                Some (Some (leave_frame (e\<lparr>con_options := co\<rparr>), node))
              }
            }
      })"

definition handle_context_get :: "world \<Rightarrow> dbg_env \<Rightarrow> handler" where
  "handle_context_get w env args d retval =
     (let ctx = option_or 0 args (CHR ''c''); depth = option_or 0 args (CHR ''d'')
      in do {
        co \<leftarrow> set_first_page 0 (con_options d);
        let d = d\<lparr>con_options := co\<rparr>
        in do {
          r \<leftarrow> attach_context_vars w env ctx depth d retval;
          case r of
            None \<Rightarrow> fail_with XDEBUG_ERROR_STACK_DEPTH_INVALID d retval
          | Some (d, retval) \<Rightarrow> Some (d, xml_add_attribute_ex ''context'' (dec_int ctx) retval)
        }
      })"

section \<open>Frames\<close>

text \<open>The type and the name of the file that a frame is in; the name of evaluated code that is not registered is
  left unset when it comes from a frame.\<close>

definition file_attributes :: "dbg_env \<Rightarrow> bool \<Rightarrow> string \<Rightarrow> dbg \<Rightarrow> xml_node \<Rightarrow> xml_node option" where
  "file_attributes env use_fse fname d x =
     do {
       (evaled, shown) \<leftarrow> check_evaled_code fname d;
       if evaled
       then if use_fse \<and> shown = fname then None
            else Some (xml_add_attribute_ex ''filename'' shown (xml_add_attribute_ex ''type'' ''eval'' x))
       else do {
         u \<leftarrow> path_to_url (env_getcwd env) (env_virtual_file env) fname;
         Some (xml_add_attribute_ex ''filename'' u (xml_add_attribute_ex ''type'' ''file'' x))
       }
     }"

definition return_stackframe :: "world \<Rightarrow> dbg_env \<Rightarrow> dbg \<Rightarrow> int \<Rightarrow> xml_node option" where
  "return_stackframe w env d nr =
     do {
       fse \<leftarrow> get_stack_frame nr (env_stack env);
       fname \<leftarrow> show_fname (w_docref w) False False (fse_function fse);
       let tmp = xml_add_attribute_ex ''level'' (ld nr) (xml_add_attribute_ex ''where'' fname (xml_node_init ''stack''))
       in case get_stack_frame (nr - 1) (env_stack env) of
            Some prev \<Rightarrow>
              do {
                f \<leftarrow> fse_filename prev;
                tmp \<leftarrow> file_attributes env True f d tmp;
                Some (xml_add_attribute_ex ''lineno'' (lu (fse_lineno prev)) tmp)
              }
          | None \<Rightarrow>
              do {
                tmp \<leftarrow> file_attributes env False (w_executed_filename w) d tmp;
                Some (xml_add_attribute_ex ''lineno'' (lu (w_executed_lineno w)) tmp)
              }
     }"

definition handle_stack_get :: "world \<Rightarrow> dbg_env \<Rightarrow> handler" where
  "handle_stack_get w env args d retval =
     (let add = (\<lambda>nr x. map_option (xml_add_child x) (return_stackframe w env d nr))
      in if option_set args (CHR ''d'')
         then
           (let depth = strtol10 (option_char args (CHR ''d''))
            in if 0 \<le> depth \<and> depth < env_level env then map_option (Pair d) (add (to_int32 depth) retval)
               else fail_with XDEBUG_ERROR_STACK_DEPTH_INVALID d retval)
         else do {
           fs \<leftarrow> env_stack env;
           map_option (Pair d) (fold_option (\<lambda>i. add (int i)) [0..<length fs] retval)
         })"

definition handle_xcmd_profiler_name_get :: "world \<Rightarrow> handler" where
  "handle_xcmd_profiler_name_get w args d retval =
     (case w_profile_filename w of
        Some f \<Rightarrow> Some (d, xml_add_text f retval)
      | None \<Rightarrow> fail_with XDEBUG_ERROR_PROFILING_NOT_STARTED d retval)"

definition line_node :: "nat \<Rightarrow> xml_node" where
  "line_node n = xml_add_attribute_ex ''lineno'' (dec n) (xml_node_init ''xdebug:line'')"

definition ZEND_EXT_STMT :: zend_opcode where "ZEND_EXT_STMT = ZEND_OTHER 101"

definition handle_xcmd_get_executable_lines :: "world \<Rightarrow> dbg_env \<Rightarrow> handler" where
  "handle_xcmd_get_executable_lines w env args d retval =
     (let depth = strtol10 (option_char args (CHR ''d''))
      in if \<not> option_set args (CHR ''d'') then fail_with XDEBUG_ERROR_INVALID_ARGS d retval
         else if 0 \<le> depth \<and> depth < env_level env
         then do {
           fse \<leftarrow> get_stack_frame (to_int32 depth) (env_stack env);
           opa \<leftarrow> w_op_array w (function_nr fse);
           Some (d, xml_add_child retval
             (foldl xml_add_child (xml_node_init ''xdebug:lines'')
               (map (\<lambda>op. line_node (lineno op)) (filter (\<lambda>op. opcode op = ZEND_EXT_STMT) opa))))
         }
         else fail_with XDEBUG_ERROR_STACK_DEPTH_INVALID d retval)"

section \<open>Dispatch\<close>

definition value_handler :: "world \<Rightarrow> dbg_env \<Rightarrow> string \<Rightarrow> handler" where
  "value_handler w env name =
     (if name = ''context_get'' then handle_context_get w env
      else if name = ''eval'' then (\<lambda>args d retval. map_option snd (handle_eval w env args d retval))
      else if name = ''property_get'' then handle_property_get w env
      else if name = ''property_set'' then (\<lambda>args d retval. map_option snd (handle_property_set w env args d retval))
      else if name = ''property_value'' then handle_property_value w env
      else if name = ''stack_get'' then handle_stack_get w env
      else if name = ''xcmd_profiler_name_get'' then handle_xcmd_profiler_name_get w
      else handle_xcmd_get_executable_lines w env)"

end
