(* ===== verification/ValueFacts.thy ===== *)
theory ValueFacts
  imports DbgpValues VarFacts BreakpointFacts
begin

text \<open>
  What a client gets for a value: the name it was shown leads back to the value, pages and limits hold, and where
  a command does something else than it says, the theorems state what.
\<close>

section \<open>Selecting a frame\<close>

text \<open>The execution data of the frame that a command with a depth looks at.\<close>

definition execute_data_at :: "world \<Rightarrow> dbg_env \<Rightarrow> int \<Rightarrow> nat option" where
  "execute_data_at w env depth =
     (if depth > 0 then Option.bind (get_stack_frame (depth - 1) (env_stack env)) fse_execute_data
      else w_current_execute_data w)"

lemma enter_frame_ok:
  assumes "get_stack_frame depth (env_stack env) = Some fse"
  shows "enter_frame w env depth d = Some (Some (d\<lparr>xg_execute_data := execute_data_at w env depth,
    xg_symbol_table := fse_symbol_table fse, xg_this := fse_this fse, xg_fse := Some (function_nr fse)\<rparr>))"
proof (cases "depth > 0")
  case True
  obtain fs where fs: "env_stack env = Some fs" using assms by (cases "env_stack env") (auto simp: get_stack_frame_def)
  have "0 \<le> depth - 1 \<and> nat (depth - 1) < length fs"
    using assms True fs by (auto simp: get_stack_frame_rev split: if_splits)
  then have "\<exists>prev. get_stack_frame (depth - 1) (env_stack env) = Some prev" using fs by (simp add: get_stack_frame_rev)
  then show ?thesis using assms True by (auto simp: enter_frame_def execute_data_at_def)
next
  case False
  then show ?thesis using assms by (simp add: enter_frame_def execute_data_at_def)
qed

lemma active_scope_vars:
  "xg_execute_data d = Some a \<Longrightarrow> w_compiled_vars w a = Some (Some cvs) \<Longrightarrow> compiled_vars (active_scope w env d) = Some (Some cvs)"
  by (simp add: active_scope_def)

lemma path_name_ok:
  assumes "slashes en"
  shows "name_ok XDEBUG_VAR_TYPE_NORMAL (path_name en (CHR ''$'' # c # cs) ks)"
    and "cstr (path_name en (CHR ''$'' # nm) ks) \<noteq> ''this''"
  using path_name_text [OF assms] by (simp_all add: name_ok_def prepare_variable_name_def cstr_def Let_def)

section \<open>The value behind a name\<close>

lemma get_symbol_found:
  assumes "get_php_symbol (w_engine w) (w_heap w) sc name = Some v" and "v \<noteq> IS_UNDEF" and "cstr name \<noteq> ''this''"
    and "get_zval_value_xml_node_ex (w_engine w) (w_heap w) (Some name) v XDEBUG_VAR_TYPE_NORMAL co = Some (co', node)"
  shows "add_variable_node w sc name (co, retval) = Some (True, co', xml_add_child retval node)"
  using assms by (simp add: add_variable_node_def get_symbol_def)

lemma options_with:
  "pages_ok (co\<lparr>max_data := m\<rparr>) = pages_ok co" "top_page_ok (co\<lparr>max_data := m\<rparr>) = top_page_ok co"
  by (simp_all add: pages_ok_def top_page_ok_def)

lemma follow_valid: "heap_ok h \<Longrightarrow> valid h z \<Longrightarrow> follow h z ks = Some v \<Longrightarrow> valid h v"
proof (induction ks arbitrary: z)
  case (Cons k ks)
  obtain a t y where "valid h y" "follow h y ks = Some v" using follow_step [OF Cons.prems(1,3)] by metis
  then show ?case using Cons by blast
qed simp

lemma property_get_returns:
  assumes "slashes (w_engine w)" and "heap_ok (w_heap w)"
    and "option_set args (CHR ''n'')" and "option_or 0 args (CHR ''c'') = 0"
    and "get_stack_frame (option_or 0 args (CHR ''d'')) (env_stack env) = Some fse"
    and "execute_data_at w env (option_or 0 args (CHR ''d'')) = Some a" and "w_compiled_vars w a = Some (Some cvs)"
    and "map_of cvs nm = Some z" and "valid (w_heap w) z" and "variable_name nm" and "\<forall>k\<in>set ks. key_ok k"
    and "follow (w_heap w) z ks = Some v" and "v \<noteq> IS_UNDEF"
    and "option_content args (CHR ''n'') = path_name (w_engine w) (CHR ''$'' # nm) ks"
    and "set_first_page (page_option args) (con_options d) = Some co" and "pages_ok co" and "top_page_ok co"
  shows "\<exists>co' d' node. handle_property_get w env args d retval = Some (d', xml_add_child retval node) \<and>
    get_zval_value_xml_node_ex (w_engine w) (w_heap w) (Some (path_name (w_engine w) (CHR ''$'' # nm) ks)) v
      XDEBUG_VAR_TYPE_NORMAL (co\<lparr>max_data := option_or (max_data co) args (CHR ''m'')\<rparr>) = Some (co', node) \<and>
    fits (nat (max_depth co)) (nat (max_children co)) node \<and> con_options d' = co'\<lparr>max_data := max_data co\<rparr>"
proof -
  define name where "name = path_name (w_engine w) (CHR ''$'' # nm) ks"
  define e where "e = d\<lparr>xg_execute_data := Some a, xg_symbol_table := fse_symbol_table fse, xg_this := fse_this fse,
    xg_fse := Some (function_nr fse)\<rparr>"
  have sel: "select_context w env (option_or 0 args (CHR ''c'')) (option_or 0 args (CHR ''d'')) d = Some (Inr e)"
    using enter_frame_ok [OF assms(5)] assms(4,6) by (simp add: select_context_def select_locals_def e_def)
  obtain c cs where nm: "nm = c # cs" using assms(10) by (cases nm) (auto simp: variable_name_def)
  have "compiled_vars (active_scope w env e) = Some (Some cvs)" using active_scope_vars assms(7) by (simp add: e_def)
  then have found: "get_php_symbol (w_engine w) (w_heap w) (active_scope w env e) name = Some v"
    unfolding name_def by (rule full_name_found [OF assms(1,2) _ assms(8-12)])
  define co1 where "co1 = co\<lparr>max_data := option_or (max_data co) args (CHR ''m'')\<rparr>"
  have ok: "pages_ok co1" "top_page_ok co1" using assms(16,17) by (simp_all add: co1_def options_with)
  obtain co' node where ex: "get_zval_value_xml_node_ex (w_engine w) (w_heap w) (Some name) v XDEBUG_VAR_TYPE_NORMAL co1 = Some (co', node)"
    "fits (nat (max_depth co)) (nat (max_children co)) node"
    using value_exported [OF assms(2) follow_valid [OF assms(2,9,12)] ok, of XDEBUG_VAR_TYPE_NORMAL name "w_engine w"]
      path_name_ok(1) [OF assms(1), of c cs ks] nm by (auto simp: name_def co1_def)
  have "cstr name \<noteq> ''this''" using path_name_ok(2) [OF assms(1)] by (simp add: name_def)
  from get_symbol_found [OF found assms(13) this ex(1)]
  have "handle_property_get w env args d retval =
      Some (e\<lparr>con_options := co'\<lparr>max_data := max_data co\<rparr>, inhibit_notifications := False\<rparr>, xml_add_child retval node)"
    using assms(3,4,14,15) sel
    by (simp add: handle_property_get_def Let_def name_def [symmetric] co1_def e_def)
  then show ?thesis using ex by (auto simp: name_def co1_def)
qed

text \<open>C33: A client that asks with \<open>property_get\<close> in context 0, the local variables, for the full name of an element of a
  compiled variable, or of arrays nested in it, that it was shown gets one property node, the export of exactly this
  element under exactly this name. No key on the way may have a zero byte before an octal digit, for which the name is
  read back differently. The export stays within the depth and width of the options; the limit
  for strings that the command may override is restored afterwards.\<close>

theorem property_get_exact:
  assumes "slashes (w_engine w)" and "heap_ok (w_heap w)"
    and "option_set args (CHR ''n'')" and "option_or 0 args (CHR ''c'') = 0"
    and "get_stack_frame (option_or 0 args (CHR ''d'')) (env_stack env) = Some fse"
    and "execute_data_at w env (option_or 0 args (CHR ''d'')) = Some a" and "w_compiled_vars w a = Some (Some cvs)"
    and "map_of cvs nm = Some z" and "valid (w_heap w) z" and "variable_name nm" and "\<forall>k\<in>set ks. key_ok k"
    and "follow (w_heap w) z ks = Some v" and "v \<noteq> IS_UNDEF"
    and "option_content args (CHR ''n'') = path_name (w_engine w) (CHR ''$'' # nm) ks"
    and "set_first_page (page_option args) (con_options d) = Some co" and "pages_ok co" and "top_page_ok co"
  shows "\<exists>co' d' node. handle_property_get w env args d retval = Some (d', xml_add_child retval node) \<and>
    get_zval_value_xml_node_ex (w_engine w) (w_heap w) (Some (path_name (w_engine w) (CHR ''$'' # nm) ks)) v
      XDEBUG_VAR_TYPE_NORMAL (co\<lparr>max_data := option_or (max_data co) args (CHR ''m'')\<rparr>) = Some (co', node) \<and>
    fits (nat (max_depth co)) (nat (max_children co)) node \<and> con_options d' = co'\<lparr>max_data := max_data co\<rparr>"
  by (rule property_get_returns [OF assms])

section \<open>The contents of a property\<close>

lemma shown_names:
  assumes "list_all2 (\<lambda>kv child. shown d w child \<and> named co (array_element_name (fst kv)) child) es cs"
    and "extended_properties co = 0"
  shows "map (\<lambda>c. hd (xml_attributes c)) cs =
    map (\<lambda>kv. \<lparr>at_name = ''name'', at_value = Some (array_element_name (fst kv))\<rparr>) es"
  using assms by (auto simp: list_all2_conv_all_nth named_def intro: nth_equalityI)

lemma contents_exported:
  assumes "heap_ok h" and "deref h z = Some (IS_ARRAY a)" and "ht_at h a = Some t" and "foreach_ind h t = Some es"
    and "pages_ok co" and "1 < max_depth co" and "extended_properties co = 0" and "properties node = []"
  shows "\<exists>co' node'. var_export_xml_node en h (nat (max_depth co) + 1) (\<lambda>_. 0) z name 1 (co, node) = Some (co', node') \<and>
    frame 1 co co' \<and>
    map (\<lambda>c. hd (xml_attributes c)) (properties node') =
    map (\<lambda>kv. \<lparr>at_name = ''name'', at_value = Some (array_element_name (fst kv))\<rparr>) (take (nat (max_children co)) es)"
proof -
  define ex where "ex = var_export_xml_node en h (nat (max_depth co)) (inc_apply (Some a) (\<lambda>_. 0))"
  define node2 where "node2 = xml_add_attribute_ex ''numchildren'' (dec (length t)) (array_node t node)"
  have ih: "exports co'' (Suc 1) (ex z name (Suc 1))" if "int 1 < max_depth co" "valid h z" "frame 1 co co''" for z name co''
  proof -
    have "max_depth co'' = max_depth co" using that(3) by (simp add: frame_def)
    then show ?thesis
      unfolding ex_def by (intro export_ok [OF assms(1) that(2)] frame_pages [OF that(3) assms(5)]) (use that(1) in auto)
  qed
  have n2: "properties node2 = []" using assms(8) array_node_ok by (simp add: node2_def)
  obtain co' node' where r: "export_children (array_element_export_xml_node en ex 1 name) es 1 (co, node2) = Some (co', node')"
    "frame 1 co co'"
    "list_all2 (\<lambda>kv child. shown (nat (max_depth co) - Suc 1) (nat (max_children co)) child \<and>
        named co (array_element_name (fst kv)) child) (slice 0 (page_start co 1) (page_end co 1) es) (properties node')"
    using array_children_ok [where export = ex and l = 1 and node = node2 and name = name and en = en,
      OF assms(1,3,5) _ ih frame_refl n2] assms(4,6) by auto
  have "slice 0 (page_start co 1) (page_end co 1) es = take (nat (max_children co)) es"
    by (simp add: slice_take page_start_def page_end_def)
  then have "map (\<lambda>c. hd (xml_attributes c)) (properties node') =
      map (\<lambda>kv. \<lparr>at_name = ''name'', at_value = Some (array_element_name (fst kv))\<rparr>) (take (nat (max_children co)) es)"
    using shown_names [OF r(3) assms(7)] by simp
  moreover have "var_export_xml_node en h (nat (max_depth co) + 1) (\<lambda>_. 0) z name 1 (co, node) = Some (co', node')"
    using assms(2) r(1) by (simp add: export_array_eq [OF assms(3,4)] ex_def node2_def)
  ultimately show ?thesis using r(2) by blast
qed

text \<open>\<open>property_value\<close> of an array always shows its first elements, as many as the options allow, in order: the page
  that the client asks for is stored for the first level, and the command exports at the second.\<close>

lemma property_value_first_page:
  assumes "heap_ok (w_heap w)" and "option_set args (CHR ''n'')" and "option_or 0 args (CHR ''c'') = 0"
    and "get_stack_frame (option_or 0 args (CHR ''d'')) (env_stack env) = Some fse"
    and "execute_data_at w env (option_or 0 args (CHR ''d'')) = Some b" and "w_compiled_vars w b = Some (Some cvs)"
    and "map_of cvs nm = Some z" and "variable_name nm" and "option_content args (CHR ''n'') = CHR ''$'' # nm"
    and "deref (w_heap w) z = Some (IS_ARRAY a)" and "ht_at (w_heap w) a = Some t" and "foreach_ind (w_heap w) t = Some es"
    and "pages_ok (con_options d)" and "1 < max_depth (con_options d)" and "extended_properties (con_options d) = 0"
    and "0 \<le> option_or (max_data (con_options d)) args (CHR ''m'')"
    and "filter (\<lambda>c. xml_tag c = ''property'') (xml_child retval) = []"
  shows "\<exists>d' reply. handle_property_value w env args d retval = Some (d', reply) \<and>
    page (hd (runtime (con_options d'))) = Some (page_option args) \<and>
    map (\<lambda>c. hd (xml_attributes c)) (filter (\<lambda>c. xml_tag c = ''property'') (xml_child reply)) =
    map (\<lambda>kv. \<lparr>at_name = ''name'', at_value = Some (array_element_name (fst kv))\<rparr>) (take (nat (max_children (con_options d))) es)"
proof -
  define e where "e = d\<lparr>xg_execute_data := Some b, xg_symbol_table := fse_symbol_table fse, xg_this := fse_this fse,
    xg_fse := Some (function_nr fse)\<rparr>"
  have sel: "select_locals w env (option_or 0 args (CHR ''d'')) d = Some (Inr e)"
    using enter_frame_ok [OF assms(4)] assms(5) by (simp add: select_locals_def e_def)
  obtain q qs where rt: "runtime (con_options d) = q # qs"
    using assms(13) [unfolded pages_ok_def, rule_format, of 0] assms(14) by (cases "runtime (con_options d)") auto
  define co where "co = con_options d\<lparr>runtime := q\<lparr>page := Some (page_option args)\<rparr> # qs\<rparr>"
  define co1 where "co1 = co\<lparr>max_data := option_or (max_data co) args (CHR ''m'')\<rparr>"
  have co: "set_first_page (page_option args) (con_options e) = Some co" by (simp add: set_first_page_def e_def rt co_def)
  have m: "max_data co = max_data (con_options d)" by (simp add: co_def)
  have "pages_ok co" unfolding pages_ok_def
  proof (intro allI impI)
    fix l
    assume "int l < max_depth co"
    then have "int l < max_depth (con_options d)" by (simp add: co_def)
    then have "l < length (runtime (con_options d)) \<and> page (runtime (con_options d) ! l) \<noteq> None"
      using assms(13) unfolding pages_ok_def by blast
    then show "l < length (runtime co) \<and> page (runtime co ! l) \<noteq> None" by (cases l) (simp_all add: co_def rt)
  qed
  then have ok: "pages_ok co1" "1 < max_depth co1" "extended_properties co1 = 0" "max_children co1 = max_children (con_options d)"
    using assms(14,15) by (simp_all add: co1_def options_with co_def)
  have "properties retval = []" using assms(17) by (simp add: properties_def)
  then obtain co' node where ex: "var_export_xml_node (w_engine w) (w_heap w) (nat (max_depth co1) + 1) (\<lambda>_. 0) z
      (Some (CHR ''$'' # nm)) 1 (co1, retval) = Some (co', node)" "frame 1 co1 co'"
    "map (\<lambda>c. hd (xml_attributes c)) (properties node) =
     map (\<lambda>kv. \<lparr>at_name = ''name'', at_value = Some (array_element_name (fst kv))\<rparr>) (take (nat (max_children co1)) es)"
    using contents_exported [OF assms(1,10-12) ok(1-3), of retval "w_engine w" "Some (CHR ''$'' # nm)"] by blast
  have "compiled_vars (active_scope w env e) = Some (Some cvs)" using active_scope_vars assms(6) by (simp add: e_def)
  then have "get_php_symbol (w_engine w) (w_heap w) (active_scope w env e) (CHR ''$'' # nm) = Some z"
    by (rule variable_found [OF _ assms(7,8)])
  moreover have "z \<noteq> IS_UNDEF" using assms(10) by (auto simp: deref_def skip_indirect_def skip_reference_def)
  ultimately have "get_symbol_contents w (active_scope w env e) (CHR ''$'' # nm) (co1, retval) = Some (True, co', node)"
    using ex(1) by (simp add: get_symbol_contents_def)
  then have "handle_property_value w env args d retval = Some (e\<lparr>con_options := co'\<lparr>max_data := max_data co\<rparr>\<rparr>, node)"
    using assms(2,3,9,16) sel co m by (simp add: handle_property_value_def Let_def co1_def)
  moreover have "page (hd (runtime co')) = Some (page_option args)"
  proof -
    have "length (runtime co') = length (runtime co1)" "page (runtime co' ! 0) = page (runtime co1 ! 0)"
      using ex(2) by (auto simp: frame_def co1_def co_def)
    moreover from this(1) have "runtime co' \<noteq> []" by (auto simp: co1_def co_def)
    ultimately show ?thesis by (simp add: hd_conv_nth co1_def co_def)
  qed
  ultimately show ?thesis using ex(3) ok(4) by (simp add: properties_def)
qed

section \<open>Pointers that stay behind\<close>

lemma set_first_page_keeps: "set_first_page p co = Some co' \<Longrightarrow> max_data co' = max_data co"
  by (auto simp: set_first_page_def split: list.splits)

lemma fail_keeps: "fail_with e d retval = Some (d', retval') \<Longrightarrow> d' = d"
  by (auto simp: fail_with_def)

text \<open>Whatever comes of it, looking at a local variable leaves the pointers of its frame in the session.\<close>

lemma property_get_leaves:
  assumes "handle_property_get w env args d retval = Some (d1, r1)"
    and "option_set args (CHR ''n'')" and "option_or 0 args (CHR ''c'') = 0"
    and "get_stack_frame (option_or 0 args (CHR ''d'')) (env_stack env) = Some fse"
  shows "xg_execute_data d1 = execute_data_at w env (option_or 0 args (CHR ''d'')) \<and> xg_symbol_table d1 = fse_symbol_table fse"
proof -
  define e where "e = d\<lparr>xg_execute_data := execute_data_at w env (option_or 0 args (CHR ''d'')), xg_symbol_table := fse_symbol_table fse,
    xg_this := fse_this fse, xg_fse := Some (function_nr fse)\<rparr>"
  have sel: "select_context w env (option_or 0 args (CHR ''c'')) (option_or 0 args (CHR ''d'')) d = Some (Inr e)"
    using enter_frame_ok [OF assms(4)] assms(3) by (simp add: select_context_def select_locals_def e_def)
  obtain co where co: "set_first_page (page_option args) (con_options e) = Some co"
    using assms(1,2) sel by (cases "set_first_page (page_option args) (con_options e)") (auto simp: handle_property_get_def Let_def)
  obtain found co' r where "add_variable_node w (active_scope w env e) (option_content args (CHR ''n''))
      (co\<lparr>max_data := option_or (max_data co) args (CHR ''m'')\<rparr>, retval) = Some (found, co', r)"
    using assms(1-3) sel co by (auto simp: handle_property_get_def Let_def bind_eq_Some_conv)
  then have "d1 = e\<lparr>con_options := co'\<lparr>max_data := max_data co\<rparr>, inhibit_notifications := False\<rparr>"
    using assms(1-3) sel co by (auto simp: handle_property_get_def Let_def split: if_splits dest: fail_keeps)
  then show ?thesis by (simp add: e_def)
qed

lemma stale_root:
  assumes "compiled_vars sc = None" and "variable_name nm"
  shows "get_php_symbol en h sc (CHR ''$'' # nm) = None"
proof -
  define s where "s = CHR ''$'' # nm @ []"
  have "go en h sc s 0 symbol_start = go en h sc s (Suc (length nm)) (symbol_start\<lparr>keyword := Some 1, sy_state := 1\<rparr>)"
    using go_root [OF assms(2) s_def, of en h sc] by simp
  then have "go en h sc s 0 symbol_start = Some (symbol_start\<lparr>keyword := Some 1, sy_state := 1\<rparr>)" by (simp add: go_def s_def)
  moreover have "fetch_keyword en h sc s (length s) 1 (symbol_start\<lparr>keyword := Some 1, sy_state := 1\<rparr>) = None"
    using assms(1) by (simp add: fetch_keyword_def fetch_zval_from_symbol_table_def symbol_start_def deref_def
        skip_indirect_def skip_reference_def fetch_ht_from_zval_def fetch_root_def xf_defs)
  ultimately show ?thesis by (simp add: get_php_symbol_def go_def s_def)
qed

text \<open>C34: A debugger that has looked at a local variable and asks for a super global after the function has returned
  crashes the script: \<open>property_get\<close> leaves the pointer to the frame in the session, the context of the globals does
  not reset it, and the lookup reads the compiled variables of the frame that is gone.\<close>

theorem stale_frame_faults:
  assumes "handle_property_get w env args d retval = Some (d1, r1)"
    and "option_set args (CHR ''n'')" and "option_or 0 args (CHR ''c'') = 0"
    and "get_stack_frame (option_or 0 args (CHR ''d'')) (env_stack env) = Some fse"
    and "execute_data_at w env (option_or 0 args (CHR ''d'')) = Some a" and "w_compiled_vars w' a = None"
    and "option_set args' (CHR ''n'')" and "option_or 0 args' (CHR ''c'') = 1"
    and "option_content args' (CHR ''n'') = CHR ''$'' # nm" and "variable_name nm"
  shows "handle_property_get w' env' args' d1 retval' = None"
proof -
  have a: "xg_execute_data d1 = Some a" using property_get_leaves [OF assms(1-4)] assms(5) by simp
  have "compiled_vars (active_scope w' env' (select_globals w' d1)) = None"
    using a assms(6) by (simp add: active_scope_def select_globals_def)
  from stale_root [OF this assms(10)] have "add_variable_node w' (active_scope w' env' (select_globals w' d1)) (CHR ''$'' # nm) st = None"
    for st by (simp add: add_variable_node_def get_symbol_def)
  then show ?thesis
    using assms(7-9)
    by (cases "set_first_page (page_option args') (con_options (select_globals w' d1))")
      (simp_all add: handle_property_get_def select_context_def Let_def)
qed

section \<open>Changing values\<close>

text \<open>\<open>property_set\<close> with one of the types of the protocol reports success for every variable that exists, and changes
  nothing: no code is evaluated, and the new value is converted in a copy that is dropped.\<close>

lemma typed_set_changes_nothing:
  assumes "option_set args (CHR ''n'')" and "option_set args (CHR ''-'')" and "option_or 0 args (CHR ''c'') = 0"
    and "get_stack_frame (option_or 0 args (CHR ''d'')) (env_stack env) = Some fse"
    and "execute_data_at w env (option_or 0 args (CHR ''d'')) = Some a" and "w_compiled_vars w a = Some (Some cvs)"
    and "map_of cvs nm = Some z" and "z \<noteq> IS_UNDEF" and "variable_name nm"
    and "option_content args (CHR ''n'') = CHR ''$'' # nm"
    and "option_set args (CHR ''t'')" and "option_char args (CHR ''t'') \<in> {''bool'', ''int'', ''float'', ''string''}"
    and "runtime (con_options d) \<noteq> []"
  shows "\<exists>d'. handle_property_set w env args d retval = Some ([], d', xml_add_attribute_ex ''success'' ''1'' retval)"
proof -
  define e where "e = d\<lparr>xg_execute_data := Some a, xg_symbol_table := fse_symbol_table fse, xg_this := fse_this fse,
    xg_fse := Some (function_nr fse)\<rparr>"
  have sel: "select_locals w env (option_or 0 args (CHR ''d'')) d = Some (Inr e)"
    using enter_frame_ok [OF assms(4)] assms(5) by (simp add: select_locals_def e_def)
  obtain co where co: "set_first_page (page_option args) (con_options e) = Some co"
    using assms(13) by (cases "runtime (con_options d)") (auto simp: set_first_page_def e_def)
  have "compiled_vars (active_scope w env (e\<lparr>con_options := co\<rparr>)) = Some (Some cvs)" using active_scope_vars assms(6) by (simp add: e_def)
  then have "get_php_symbol (w_engine w) (w_heap w) (active_scope w env (e\<lparr>con_options := co\<rparr>)) (CHR ''$'' # nm) = Some z"
    by (rule variable_found [OF _ assms(7,9)])
  then show ?thesis
    using assms(1-3,8,10-12) sel co by (simp add: handle_property_set_def Let_def success_node_def)
qed

section \<open>Samples\<close>

definition main_frame :: function_stack_entry where
  "main_frame =
     \<lparr>fse_function = \<lparr>func_class = None, func_function = Some ''{main}'', func_type = XFUNC_NORMAL\<rparr>,
      user_defined = XDEBUG_EXTERNAL, fse_level = 1, fse_filename = Some ''/a.php'', fse_lineno = 1,
      include_filename = None, function_nr = 1, filtered_tracing = 0, filtered_code_coverage = 0, declared_vars = None,
      fse_execute_data = Some 7, fse_symbol_table = None, fse_this = None\<rparr>"

definition sample_world :: "(nat \<Rightarrow> (string \<times> zval) list option option) \<Rightarrow> world" where
  "sample_world vars =
     \<lparr>w_engine = sample_engine, w_heap = sample_heap, w_current_execute_data = Some 7, w_compiled_vars = vars,
      w_symbol_table = 0, w_executed_filename = ''/a.php'', w_executed_lineno = 3, w_get_constant = (\<lambda>_. None),
      w_constants = [], w_eval = (\<lambda>_ _. Some (IS_LONG 1)), w_op_array = (\<lambda>_. None),
      w_docref = \<lparr>html_errors = False, doc_root = [], doc_ext = []\<rparr>, w_profile_filename = None, w_qsort = (\<lambda>_ xs. xs)\<rparr>"

definition running :: "nat \<Rightarrow> (string \<times> zval) list option option" where
  "running a = (if a = 7 then Some (Some [(''x'', IS_ARRAY 0), (''i'', IS_LONG 5)]) else None)"

definition script_env :: dbg_env where
  "script_env = local_env\<lparr>env_stack := Some [main_frame]\<rparr>"

lemma sample_frame0: "get_stack_frame 0 (env_stack script_env) = Some main_frame"
  by (simp add: script_env_def get_stack_frame_def)

lemma sample_execute: "execute_data_at (sample_world vars) script_env 0 = Some 7"
  by (simp add: execute_data_at_def sample_world_def)

lemma sample_fields: "w_engine (sample_world vars) = sample_engine" "w_heap (sample_world vars) = sample_heap"
  "w_compiled_vars (sample_world vars) = vars"
  by (simp_all add: sample_world_def)

lemma more_indices: "nat (opt_index (CHR ''c'')) = 2" "nat (opt_index (CHR ''p'')) = 15" "nat (opt_index (CHR ''-'')) = 26"
  by code_simp+

lemma content_of: "content (xstr_of s) = s"
  by (simp add: content_def xstr_of_def)

lemmas option_simps = option_set_def option_content_def option_or_def page_option_def args_of_def no_args_def more_indices
  content_of nth_list_update

lemma sample_root: "map_of [(''x'', IS_ARRAY 0), (''i'', IS_LONG 5)] ''x'' = Some (IS_ARRAY 0)"
  "map_of [(''x'', IS_ARRAY 0), (''i'', IS_LONG 5)] ''i'' = Some (IS_LONG 5)" "valid sample_heap (IS_ARRAY 0)"
  by (simp_all add: valid_def sample_heap_def)

lemma sample_path: "path_name sample_engine ''$x'' [Key_str ''a'', Key_num 3] = ''$x['' @ [CHR 0x22] @ ''a'' @ [CHR 0x22] @ ''][3]''"
  by code_simp

lemma sample_page: "set_first_page 0 (con_options new_session) = Some default_options"
  "pages_ok default_options" "top_page_ok default_options"
  by (simp_all add: new_session_def session_init_def default_options_def set_first_page_def first_page_def new_page_def
      pages_ok_def top_page_ok_def)

theorem property_get_exact_witness:
  "\<exists>d' node. handle_property_get (sample_world running) script_env
     (args_of [(CHR ''n'', ''$x['' @ [CHR 0x22] @ ''a'' @ [CHR 0x22] @ ''][3]'')]) new_session (xml_node_init ''response'') =
     Some (d', xml_add_child (xml_node_init ''response'') node) \<and> fits 1 32 node"
proof -
  define args where "args = args_of [(CHR ''n'', ''$x['' @ [CHR 0x22] @ ''a'' @ [CHR 0x22] @ ''][3]'')]"
  have o: "option_set args (CHR ''n'')" "option_or 0 args (CHR ''c'') = 0" "option_or 0 args (CHR ''d'') = 0" "page_option args = 0"
    "option_content args (CHR ''n'') = path_name sample_engine ''$x'' [Key_str ''a'', Key_num 3]"
    unfolding sample_path by (simp_all add: args_def option_simps)
  have v: "follow sample_heap (IS_ARRAY 0) [Key_str ''a'', Key_num 3] = Some (IS_LONG 7)"
    "\<forall>k\<in>set [Key_str ''a'', Key_num 3]. key_ok k"
    by (simp_all add: sample_heap_def sample_table_def key_ok_def deref_def skip_indirect_def skip_reference_def)
  have run: "running 7 = Some (Some [(''x'', IS_ARRAY 0), (''i'', IS_LONG 5)])" by (simp add: running_def)
  have l: "max_depth default_options = 1" "max_children default_options = 32" by (simp_all add: default_options_def)
  show ?thesis
    using property_get_exact [where w = "sample_world running" and env = script_env and args = args and d = new_session
        and retval = "xml_node_init ''response''" and ks = "[Key_str ''a'', Key_num 3]" and nm = "''x''" and co = default_options and v = "IS_LONG 7"
        and a = 7 and fse = main_frame and z = "IS_ARRAY 0",
        unfolded sample_fields o, OF sample_engine_ok sample_heap_ok o(1) refl sample_frame0 sample_execute run sample_root(1,3)
          sample_names(1) v(2,1) _ refl sample_page]
    unfolding args_def [symmetric] l by auto
qed

text \<open>A second command after the frame is gone.\<close>

theorem stale_frame_faults_witness:
  "\<exists>d1 r1. handle_property_get (sample_world running) script_env (args_of [(CHR ''n'', ''$i'')]) new_session
       (xml_node_init ''response'') = Some (d1, r1) \<and>
     handle_property_get (sample_world (\<lambda>_. None)) script_env (args_of [(CHR ''n'', ''$x''), (CHR ''c'', ''1'')]) d1
       (xml_node_init ''response'') = None"
proof -
  define args where "args = args_of [(CHR ''n'', ''$i'')]"
  define args' where "args' = args_of [(CHR ''n'', ''$x''), (CHR ''c'', ''1'')]"
  have o: "option_set args (CHR ''n'')" "option_or 0 args (CHR ''c'') = 0" "option_or 0 args (CHR ''d'') = 0" "page_option args = 0"
    "option_content args (CHR ''n'') = path_name sample_engine (CHR ''$'' # ''i'') []"
    by (simp_all add: args_def option_simps path_name_def)
  have "to_int32 (strtol10 ''1'') = 1" by code_simp
  then have o': "option_set args' (CHR ''n'')" "option_or 0 args' (CHR ''c'') = 1" "option_content args' (CHR ''n'') = CHR ''$'' # ''x''"
    by (simp_all add: args'_def option_simps int_option_def option_char_def xstr_of_def cstr_def nul_def content_def)
  have run: "running 7 = Some (Some [(''x'', IS_ARRAY 0), (''i'', IS_LONG 5)])" by (simp add: running_def)
  have v: "valid sample_heap (IS_LONG 5)" "IS_LONG 5 \<noteq> IS_UNDEF" "follow sample_heap (IS_LONG 5) [] = Some (IS_LONG 5)"
    by (simp_all add: valid_def)
  obtain d1 r1 where 1: "handle_property_get (sample_world running) script_env args new_session (xml_node_init ''response'') = Some (d1, r1)"
    using property_get_returns [where w = "sample_world running" and env = script_env and args = args and d = new_session
        and retval = "xml_node_init ''response''" and ks = "[]" and nm = "''i''" and co = default_options and v = "IS_LONG 5"
        and a = 7 and fse = main_frame and z = "IS_LONG 5",
        unfolded sample_fields o, OF sample_engine_ok sample_heap_ok o(1) refl sample_frame0 sample_execute run sample_root(2) v(1)
          sample_names(2) _ v(3,2) refl sample_page] by auto
  have "handle_property_get (sample_world (\<lambda>_. None)) script_env args' d1 (xml_node_init ''response'') = None"
    by (rule stale_frame_faults [where args = args and args' = args' and w' = "sample_world (\<lambda>_. None)" and a = 7 and nm = "''x''",
          unfolded o(2-4) o'(2,3) sample_fields, OF 1 o(1) refl sample_frame0 sample_execute refl o'(1) refl refl sample_names(1)])
  then show ?thesis using 1 unfolding args_def args'_def by blast
qed

lemma typed_set_changes_nothing_witness:
  "\<exists>d'. handle_property_set (sample_world running) script_env
     (args_of [(CHR ''n'', ''$i''), (CHR ''t'', ''int''), (CHR ''-'', ''Ng=='')]) new_session (xml_node_init ''response'') =
     Some ([], d', xml_add_attribute_ex ''success'' ''1'' (xml_node_init ''response''))"
proof -
  define args where "args = args_of [(CHR ''n'', ''$i''), (CHR ''t'', ''int''), (CHR ''-'', ''Ng=='')]"
  have o: "option_set args (CHR ''n'')" "option_set args (CHR ''-'')" "option_or 0 args (CHR ''c'') = 0"
    "option_or 0 args (CHR ''d'') = 0" "option_content args (CHR ''n'') = CHR ''$'' # ''i''" "option_set args (CHR ''t'')"
    "option_char args (CHR ''t'') = ''int''"
    by (simp_all add: args_def option_simps option_char_def xstr_of_def cstr_def nul_def content_def)
  have run: "w_compiled_vars (sample_world running) 7 = Some (Some [(''x'', IS_ARRAY 0), (''i'', IS_LONG 5)])"
    by (simp add: sample_fields running_def)
  have r: "runtime (con_options new_session) \<noteq> []" "IS_LONG 5 \<noteq> IS_UNDEF" "''int'' \<in> {''bool'', ''int'', ''float'', ''string''}"
    by (simp_all add: new_session_def session_init_def default_options_def)
  show ?thesis
    using typed_set_changes_nothing [where w = "sample_world running" and env = script_env and args = args and d = new_session
        and nm = "''i''" and a = 7 and fse = main_frame and retval = "xml_node_init ''response''",
        unfolded o(3-5,7), OF o(1,2) refl sample_frame0 sample_execute run sample_root(2) r(2) sample_names(2) refl o(6) r(3,1)]
    unfolding args_def [symmetric] .
qed

text \<open>Options with two levels.\<close>

definition deep_session :: dbg where
  "deep_session = new_session\<lparr>con_options := default_options\<lparr>max_depth := 2, max_children := 2, runtime := [first_page, first_page]\<rparr>\<rparr>"

lemma property_value_first_page_witness:
  "\<exists>d' reply. handle_property_value (sample_world running) script_env (args_of [(CHR ''n'', ''$x''), (CHR ''p'', ''1'')]) deep_session
       (xml_node_init ''response'') = Some (d', reply) \<and> page (hd (runtime (con_options d'))) = Some 1 \<and>
     map (\<lambda>c. hd (xml_attributes c)) (filter (\<lambda>c. xml_tag c = ''property'') (xml_child reply)) =
     [\<lparr>at_name = ''name'', at_value = Some ''a''\<rparr>, \<lparr>at_name = ''name'', at_value = Some ''3''\<rparr>]"
proof -
  define args where "args = args_of [(CHR ''n'', ''$x''), (CHR ''p'', ''1'')]"
  have "to_int32 (strtol10 ''1'') = 1" by code_simp
  then have o: "option_set args (CHR ''n'')" "option_or 0 args (CHR ''c'') = 0" "option_or 0 args (CHR ''d'') = 0"
    "option_content args (CHR ''n'') = CHR ''$'' # ''x''" "option_or 1024 args (CHR ''m'') = 1024" "page_option args = 1"
    by (simp_all add: args_def option_simps int_option_def option_char_def xstr_of_def cstr_def nul_def content_def)
  have run: "w_compiled_vars (sample_world running) 7 = Some (Some [(''x'', IS_ARRAY 0), (''i'', IS_LONG 5)])"
    by (simp add: sample_fields running_def)
  have h: "deref sample_heap (IS_ARRAY 0) = Some (IS_ARRAY 0)" "ht_at sample_heap 0 = Some sample_table"
    "foreach_ind sample_heap sample_table = Some sample_table"
    by (simp_all add: deref_def skip_indirect_def skip_reference_def sample_heap_def sample_table_def)
  have s: "pages_ok (con_options deep_session)" "1 < max_depth (con_options deep_session)" "extended_properties (con_options deep_session) = 0"
    "max_data (con_options deep_session) = 1024" "max_children (con_options deep_session) = 2"
    by (auto simp: deep_session_def default_options_def pages_ok_def first_page_def new_page_def less_2_cases_iff)
  have d: "dec_int 3 = ''3''" by code_simp
  show ?thesis
    using property_value_first_page [where w = "sample_world running" and env = script_env and args = args and d = deep_session
        and retval = "xml_node_init ''response''" and a = 0, unfolded sample_fields o s, OF sample_heap_ok o(1) refl sample_frame0
          sample_execute run [unfolded sample_fields] sample_root(1) sample_names(1) refl h s(1,2) refl]
    unfolding args_def [symmetric]
    by (simp add: xml_node_init_def sample_table_def array_element_name_def d numeral_2_eq_2)
qed

end
