(* ===== verification/VarText.thy ===== *)
theory VarText
  imports OutputName VarXml
begin

text \<open>
  The export of values as plain text in \<open>xdebug_var.c\<close>, which traces use, with the synopsis that names only the type,
  and what it shares with the exports of \<open>VarDump\<close>. The loops over the elements of
  a table are those of \<open>VarXml\<close>, with a page that always starts at the first element. Texts grow as lists, as
  \<open>Str\<close> shows; a text that \<open>%s\<close> prints ends at its first zero. A missing table of an object is read without a
  test, except for terminals. The levels that the pages do not have are a fault; one fuel is taken for each level.
\<close>

section \<open>Elements\<close>

type_synonym text_state = "export_options \<times> string"
type_synonym text_exporter = "zval \<Rightarrow> nat \<Rightarrow> text_state \<Rightarrow> text_state option"

definition put :: "string \<Rightarrow> text_state \<Rightarrow> text_state" where
  "put t st = (fst st, snd st @ t)"

definition spaces :: "nat \<Rightarrow> string" where
  "spaces n = replicate n (CHR '' '')"

text \<open>An element is shown when it is on the page; the first one behind the page leaves a remark.\<close>

definition text_element :: "nat \<Rightarrow> string \<Rightarrow> (text_state \<Rightarrow> text_state option) \<Rightarrow> text_state \<Rightarrow> text_state option" where
  "text_element level remark shown st =
     do {
       p \<leftarrow> page_at (fst st) level;
       b \<leftarrow> in_page p;
       st \<leftarrow> (if b then shown st else Some st);
       p \<leftarrow> page_at (fst st) level;
       c \<leftarrow> current_element_nr p;
       e \<leftarrow> end_element_nr p;
       co \<leftarrow> next_element level (fst st);
       Some (co, snd st @ (if c = e then remark else []))
     }"

definition text_elements :: "nat \<Rightarrow> ('e \<Rightarrow> text_state \<Rightarrow> text_state option) \<Rightarrow> 'e list \<Rightarrow> text_state \<Rightarrow> text_state option" where
  "text_elements level element es st =
     do {
       co \<leftarrow> start_page level 0 (max_children (fst st)) (fst st);
       fold_option element es (co, snd st)
     }"

text \<open>A key of an array between quotes; the length of the key counts its final zero.\<close>

definition quoted_key :: "engine \<Rightarrow> string \<Rightarrow> string" where
  "quoted_key en k =
     (let tmp = str_to_str (en_lib en) (k @ [nul]) [CHR 0x27] [CHR 0x5C, CHR 0x27];
          tmp2 = str_to_str (en_lib en) (take (length tmp - 1) tmp) [nul] [CHR 0x5C, CHR ''0'']
      in [CHR 0x27] @ tmp2 @ [CHR 0x27])"

definition ESCAPE_MASK :: string where
  "ESCAPE_MASK = [CHR 0x27, CHR 0x5C, nul] @ ''..'' @ [CHR 0x1F, nul]"

text \<open>The first characters of a text and the zero behind it; more are read behind it.\<close>

definition read_chars :: "int \<Rightarrow> string \<Rightarrow> string option" where
  "read_chars n s = (if 0 \<le> n \<and> nat n \<le> length s + 1 then Some (take (nat n) (s @ [nul])) else None)"

definition data_fits :: "export_options \<Rightarrow> string \<Rightarrow> bool" where
  "data_fits co s \<longleftrightarrow> int (length s) \<le> max_data co mod 2 ^ 64"

definition is_counted :: "zval \<Rightarrow> bool" where
  "is_counted z =
     (case z of IS_UNDEF \<Rightarrow> False | IS_NULL \<Rightarrow> False | IS_BOOL _ \<Rightarrow> False | IS_LONG _ \<Rightarrow> False | IS_DOUBLE _ \<Rightarrow> False
      | IS_INDIRECT _ \<Rightarrow> False | _ \<Rightarrow> True)"

definition refcount_text :: "heap \<Rightarrow> zval \<Rightarrow> string" where
  "refcount_text h z =
     (if is_counted z
      then ''(refcount='' @ dec_int (to_int32 (refcount_of h z)) @ '', is_ref='' @
           (case z of IS_REFERENCE _ \<Rightarrow> ''1'' | _ \<Rightarrow> ''0'') @ '')''
      else ''(refcount=0, is_ref=0)'')"

definition resource_type :: "engine \<Rightarrow> int \<Rightarrow> string" where
  "resource_type en i = (case rsrc_type en i of None \<Rightarrow> ''Unknown'' | Some t \<Rightarrow> cstr t)"

text \<open>Whether the class that a private property belongs to is another one than that of the object.\<close>

definition other_class :: "string \<Rightarrow> string \<times> string \<times> string option \<Rightarrow> string option option" where
  "other_class cls info =
     (let (prop, modifier, pcls) = info
      in if modifier \<noteq> ''private'' then Some None
         else map_option (\<lambda>p. if cstr cls = cstr p then None else Some (cstr p)) pcls)"

section \<open>Plain text\<close>

definition array_element_export ::
  "engine \<Rightarrow> text_exporter \<Rightarrow> nat \<Rightarrow> pkey \<times> zval \<Rightarrow> text_state \<Rightarrow> text_state option" where
  "array_element_export en export level kv =
     text_element level ''..., '' (\<lambda>st.
       map_option (put '', '')
         (export (snd kv) (level + 2)
           (put ((case fst kv of Key_num i \<Rightarrow> dec_int i | Key_str k \<Rightarrow> quoted_key en k) @ '' => '') st)))"

definition object_element_label :: "engine \<Rightarrow> string \<Rightarrow> pkey \<Rightarrow> string option" where
  "object_element_label en cls key =
     (case key of
        Key_num i \<Rightarrow> Some (''public $'' @ dec_int (to_int32 i) @ '' = '')
      | Key_str k \<Rightarrow>
          (let info = get_property_info en k
           in map_option (\<lambda>other. fst (snd info) @ '' $'' @
                  (case other of None \<Rightarrow> [] | Some c \<Rightarrow> ''{'' @ c @ ''}'') @ fst info @ '' = '')
                (other_class cls info)))"

definition object_element_export ::
  "engine \<Rightarrow> text_exporter \<Rightarrow> nat \<Rightarrow> string \<Rightarrow> pkey \<times> zval \<Rightarrow> text_state \<Rightarrow> text_state option" where
  "object_element_export en export level cls kv =
     text_element level ''...; '' (\<lambda>st.
       do {
         label \<leftarrow> object_element_label en cls (fst kv);
         st \<leftarrow> export (snd kv) (level + 2) (put label st);
         Some (put ''; '' st)
       })"

definition export_text :: "engine \<Rightarrow> export_options \<Rightarrow> string \<Rightarrow> string option" where
  "export_text en co s =
     (let t = cstr (addcslashes en s ESCAPE_MASK)
      in do {
        plain \<leftarrow> no_decoration co;
        if plain then Some t
        else if data_fits co s then Some ([CHR 0x27] @ t @ [CHR 0x27])
        else map_option (\<lambda>u. [CHR 0x27] @ u @ ''...'' @ [CHR 0x27]) (read_chars (max_data co) t)
      })"

text \<open>\<open>xdebug_str_chop\<close> after a loop.\<close>

definition chop2 :: "text_state \<Rightarrow> text_state" where
  "chop2 st = (fst st, take (length (snd st) - 2) (snd st))"

definition plain_children ::
  "nat \<Rightarrow> (pkey \<times> zval \<Rightarrow> text_state \<Rightarrow> text_state option) \<Rightarrow> heap \<Rightarrow> ptable \<Rightarrow> string \<Rightarrow> text_state \<Rightarrow> text_state option" where
  "plain_children level element h t close st =
     map_option (put close)
       (if int level \<le> max_depth (fst st)
        then do {
          es \<leftarrow> foreach_ind h t;
          st \<leftarrow> text_elements level element es st;
          Some (if t \<noteq> [] then chop2 st else st)
        }
        else Some (put ''...'' st))"

fun var_export :: "engine \<Rightarrow> heap \<Rightarrow> bool \<Rightarrow> nat \<Rightarrow> applied \<Rightarrow> text_exporter" where
  "var_export en h debug 0 ap z level st = None"
| "var_export en h debug (Suc n) ap z level st =
     (let st = (if debug then put (refcount_text h z @ ''='') st else st)
      in do {
        z \<leftarrow> skip_reference h z;
        case z of
          IS_BOOL b \<Rightarrow> Some (put (if b then ''TRUE'' else ''FALSE'') st)
        | IS_NULL \<Rightarrow> Some (put ''NULL'' st)
        | IS_LONG i \<Rightarrow> Some (put (dec_int i) st)
        | IS_DOUBLE f \<Rightarrow> Some (put (format_double en f) st)
        | IS_STRING s \<Rightarrow> map_option (\<lambda>t. put t st) (export_text en (fst st) s)
        | IS_ARRAY a \<Rightarrow>
            do {
              t \<leftarrow> ht_at h a;
              if ap a < 1
              then plain_children level (array_element_export en (var_export en h debug n (inc_apply (Some a) ap)) level)
                     h t '')'' (put ''array ('' st)
              else Some (put ''...'' st)
            }
        | IS_OBJECT a \<Rightarrow>
            do {
              obj \<leftarrow> object_at h a;
              t \<leftarrow> object_table h obj;
              (adr, t) \<leftarrow> t;
              if apply_count ap adr < 1
              then plain_children level
                     (object_element_export en (var_export en h debug n (inc_apply adr ap)) level (class_name obj))
                     h t '' }'' (put (''class '' @ cstr (class_name obj) @ '' { '') st)
              else Some (put ''...'' st)
            }
        | IS_RESOURCE i \<Rightarrow> Some (put (''resource('' @ dec_int i @ '') of type ('' @ resource_type en i @ '')'') st)
        | IS_UNDEF \<Rightarrow> Some (put ''*uninitialized*'' st)
        | _ \<Rightarrow> Some (put ''NFC'' st)
      })"

text \<open>The fuel is one more than the depth; \<open>None\<close> stands for the options of the settings.\<close>

definition text_fuel :: "export_options \<Rightarrow> nat" where
  "text_fuel co = nat (max_depth co) + 1"

definition get_zval_value :: "engine \<Rightarrow> heap \<Rightarrow> zval \<Rightarrow> bool \<Rightarrow> export_options \<Rightarrow> string option" where
  "get_zval_value en h z debug co = map_option snd (var_export en h debug (text_fuel co) (\<lambda>_. 0) z 1 (co, []))"

definition var_synopsis :: "engine \<Rightarrow> heap \<Rightarrow> zval \<Rightarrow> bool \<Rightarrow> string option" where
  "var_synopsis en h z debug =
     map_option (\<lambda>t. (if debug then refcount_text h z @ ''='' else []) @ t)
       (do {
         z \<leftarrow> skip_reference h z;
         case z of
           IS_BOOL b \<Rightarrow> Some (if b then ''true'' else ''false'')
         | IS_NULL \<Rightarrow> Some ''null''
         | IS_LONG _ \<Rightarrow> Some ''long''
         | IS_DOUBLE _ \<Rightarrow> Some ''double''
         | IS_STRING s \<Rightarrow> Some (''string('' @ dec_int (to_int32 (int (length s))) @ '')'')
         | IS_ARRAY a \<Rightarrow> map_option (\<lambda>t. ''array('' @ dec_int (to_int32 (int (length t))) @ '')'') (ht_at h a)
         | IS_OBJECT a \<Rightarrow> map_option (\<lambda>obj. ''class '' @ cstr (class_name obj)) (object_at h a)
         | IS_RESOURCE i \<Rightarrow> Some (''resource('' @ dec_int i @ '') of type ('' @ resource_type en i @ '')'')
         | IS_UNDEF \<Rightarrow> Some ''*uninitialized*''
         | _ \<Rightarrow> Some ''NFC''
       })"

text \<open>The serialized value in base64; \<open>None\<close> inside when the engine writes nothing.\<close>

definition get_zval_value_serialized :: "php_lib \<Rightarrow> (zval \<Rightarrow> string option) \<Rightarrow> zval \<Rightarrow> string option" where
  "get_zval_value_serialized lib serialize z = map_option (base64_encode lib) (serialize z)"

end
