(* ===== verification/VarDump.thy ===== *)
theory VarDump
  imports VarText
begin

text \<open>
  The exports of \<open>xdebug_var.c\<close> for terminals, with colours in mode 1, and in HTML.
\<close>

section \<open>Terminals\<close>

text \<open>The codes of the colours, which are not written without colours.\<close>

definition ansi :: "bool \<Rightarrow> string \<Rightarrow> string" where
  "ansi mode code = (if mode then CHR 0x1B # code else [])"

definition ANSI_COLOR_POINTER :: "bool \<Rightarrow> string" where "ANSI_COLOR_POINTER mode = ansi mode ''[0m''"
definition ANSI_COLOR_BOOL :: "bool \<Rightarrow> string" where "ANSI_COLOR_BOOL mode = ansi mode ''[35m''"
definition ANSI_COLOR_LONG :: "bool \<Rightarrow> string" where "ANSI_COLOR_LONG mode = ansi mode ''[32m''"
definition ANSI_COLOR_NULL :: "bool \<Rightarrow> string" where "ANSI_COLOR_NULL mode = ansi mode ''[34m''"
definition ANSI_COLOR_DOUBLE :: "bool \<Rightarrow> string" where "ANSI_COLOR_DOUBLE mode = ansi mode ''[33m''"
definition ANSI_COLOR_STRING :: "bool \<Rightarrow> string" where "ANSI_COLOR_STRING mode = ansi mode ''[31m''"
definition ANSI_COLOR_OBJECT :: "bool \<Rightarrow> string" where "ANSI_COLOR_OBJECT mode = ansi mode ''[31m''"
definition ANSI_COLOR_RESOURCE :: "bool \<Rightarrow> string" where "ANSI_COLOR_RESOURCE mode = ansi mode ''[36m''"
definition ANSI_COLOR_MODIFIER :: "bool \<Rightarrow> string" where "ANSI_COLOR_MODIFIER mode = ansi mode ''[32m''"
definition ANSI_COLOR_RESET :: "bool \<Rightarrow> string" where "ANSI_COLOR_RESET mode = ansi mode ''[0m''"
definition ANSI_COLOR_BOLD :: "bool \<Rightarrow> string" where "ANSI_COLOR_BOLD mode = ansi mode ''[1m''"
definition ANSI_COLOR_BOLD_OFF :: "bool \<Rightarrow> string" where "ANSI_COLOR_BOLD_OFF mode = ansi mode ''[22m''"

definition bold :: "bool \<Rightarrow> string \<Rightarrow> string" where
  "bold mode t = ANSI_COLOR_BOLD mode @ t @ ANSI_COLOR_BOLD_OFF mode"

definition newline :: string where
  "newline = [CHR 0x0A]"

definition more_elements :: "nat \<Rightarrow> string" where
  "more_elements level = newline @ spaces (level * 2) @ ''(more elements)...'' @ newline"

definition array_element_export_text_ansi ::
  "engine \<Rightarrow> bool \<Rightarrow> text_exporter \<Rightarrow> nat \<Rightarrow> pkey \<times> zval \<Rightarrow> text_state \<Rightarrow> text_state option" where
  "array_element_export_text_ansi en mode export level kv =
     text_element level (more_elements level) (\<lambda>st.
       export (snd kv) (level + 1)
         (put (spaces (level * 2) @
            (case fst kv of
               Key_num i \<Rightarrow> ''['' @ dec_int i @ ''] '' @ ANSI_COLOR_POINTER mode @ ''=>'' @ ANSI_COLOR_RESET mode @ newline
             | Key_str k \<Rightarrow> quoted_key en k @ '' =>'' @ newline)) st))"

definition object_element_export_text_ansi ::
  "engine \<Rightarrow> bool \<Rightarrow> text_exporter \<Rightarrow> nat \<Rightarrow> pkey \<times> zval \<Rightarrow> text_state \<Rightarrow> text_state option" where
  "object_element_export_text_ansi en mode export level kv =
     text_element level (more_elements level) (\<lambda>st.
       export (snd kv) (level + 1)
         (put (spaces (level * 2) @
            (case fst kv of
               Key_str k \<Rightarrow>
                 (let (name, modifier, cls) = get_property_info en k
                  in ANSI_COLOR_MODIFIER mode @ bold mode modifier @ ANSI_COLOR_RESET mode @ '' $'' @ name @ '' '' @
                     ANSI_COLOR_POINTER mode @ ''=>'' @ ANSI_COLOR_RESET mode @ newline)
             | Key_num i \<Rightarrow>
                 ANSI_COLOR_MODIFIER mode @ bold mode ''public'' @ ANSI_COLOR_RESET mode @ '' ${'' @ dec_int i @ ''} '' @
                 ANSI_COLOR_POINTER mode @ ''=>'' @ ANSI_COLOR_RESET mode @ newline)) st))"

text \<open>Without colours only the zero is escaped: the mask is a text of one zero.\<close>

definition export_text_ansi :: "engine \<Rightarrow> bool \<Rightarrow> export_options \<Rightarrow> string \<Rightarrow> string option" where
  "export_text_ansi en mode co s =
     (let t = addcslashes en s (if mode then ESCAPE_MASK else [nul]);
          head = bold mode ''string'' @ ''('' @ ANSI_COLOR_LONG mode @ dec_int (int (length s)) @ ANSI_COLOR_RESET mode @ '') '' @
                 [CHR 0x22] @ ANSI_COLOR_STRING mode
      in do {
        plain \<leftarrow> no_decoration co;
        if plain then Some t
        else if data_fits co s then Some (head @ cstr t @ ANSI_COLOR_RESET mode @ [CHR 0x22])
        else map_option (\<lambda>u. head @ u @ ANSI_COLOR_RESET mode @ [CHR 0x22] @ ''...'') (read_chars (max_data co) t)
      })"

definition ansi_children ::
  "nat \<Rightarrow> (pkey \<times> zval \<Rightarrow> text_state \<Rightarrow> text_state option) \<Rightarrow> heap \<Rightarrow> ptable \<Rightarrow> text_state \<Rightarrow> text_state option" where
  "ansi_children level element h t st =
     map_option (put (spaces (level * 2 - 2) @ ''}''))
       (if int level \<le> max_depth (fst st)
        then do { es \<leftarrow> foreach_ind h t; text_elements level element es st }
        else Some (put (spaces (level * 2) @ ''...'' @ newline) st))"

fun var_export_text_ansi :: "engine \<Rightarrow> heap \<Rightarrow> bool \<Rightarrow> bool \<Rightarrow> nat \<Rightarrow> applied \<Rightarrow> text_exporter" where
  "var_export_text_ansi en h mode debug 0 ap z level st = None"
| "var_export_text_ansi en h mode debug (Suc n) ap z level st =
     (let st = put (spaces (level * 2 - 2) @ (if debug then refcount_text h z @ ''='' else [])) st;
          plain = (\<lambda>t. Some (put t st))
      in map_option (put newline) (do {
        z \<leftarrow> skip_reference h z;
        case z of
          IS_BOOL b \<Rightarrow>
            plain (bold mode ''bool'' @ ''('' @ ANSI_COLOR_BOOL mode @ (if b then ''true'' else ''false'') @ ANSI_COLOR_RESET mode @ '')'')
        | IS_NULL \<Rightarrow>
            plain (ANSI_COLOR_BOLD mode @ ANSI_COLOR_NULL mode @ ''NULL'' @ ANSI_COLOR_RESET mode @ ANSI_COLOR_BOLD_OFF mode)
        | IS_LONG i \<Rightarrow>
            plain (bold mode ''int'' @ ''('' @ ANSI_COLOR_LONG mode @ dec_int i @ ANSI_COLOR_RESET mode @ '')'')
        | IS_DOUBLE f \<Rightarrow>
            plain (bold mode ''double'' @ ''('' @ ANSI_COLOR_DOUBLE mode @ format_double en f @ ANSI_COLOR_RESET mode @ '')'')
        | IS_STRING s \<Rightarrow> map_option (\<lambda>t. put t st) (export_text_ansi en mode (fst st) s)
        | IS_ARRAY a \<Rightarrow>
            do {
              t \<leftarrow> ht_at h a;
              if ap a < 1
              then ansi_children level
                     (array_element_export_text_ansi en mode (var_export_text_ansi en h mode debug n (inc_apply (Some a) ap)) level)
                     h t
                     (put (bold mode ''array'' @ ''('' @ ANSI_COLOR_LONG mode @ dec_int (to_int32 (int (length t))) @
                           ANSI_COLOR_RESET mode @ '') {'' @ newline) st)
              else plain (''&'' @ bold mode ''array'')
            }
        | IS_OBJECT a \<Rightarrow>
            do {
              obj \<leftarrow> object_at h a;
              t \<leftarrow> object_table h obj;
              case t of
                None \<Rightarrow> plain (spaces (level * 2) @ ''...'' @ newline)
              | Some (adr, t) \<Rightarrow>
                  if apply_count ap adr < 1
                  then ansi_children level
                         (object_element_export_text_ansi en mode (var_export_text_ansi en h mode debug n (inc_apply adr ap)) level)
                         h t
                         (put (bold mode ''class'' @ '' '' @ ANSI_COLOR_OBJECT mode @ cstr (class_name obj) @ ANSI_COLOR_RESET mode @
                               ''#'' @ dec_int (to_int32 (obj_handle obj)) @ '' ('' @ ANSI_COLOR_LONG mode @
                               dec_int (to_int32 (int (length t))) @ ANSI_COLOR_RESET mode @ '') {'' @ newline) st)
                  else plain (spaces (level * 2) @ ''...'' @ newline)
            }
        | IS_RESOURCE i \<Rightarrow>
            plain (bold mode ''resource'' @ ''('' @ ANSI_COLOR_RESOURCE mode @ dec_int i @ ANSI_COLOR_RESET mode @
                   '') of type ('' @ resource_type en i @ '')'')
        | IS_UNDEF \<Rightarrow> plain (ANSI_COLOR_NULL mode @ ''*uninitialized*'' @ ANSI_COLOR_RESET mode)
        | _ \<Rightarrow> plain (ANSI_COLOR_NULL mode @ ''NFC'' @ ANSI_COLOR_RESET mode)
      }))"

text \<open>The place that runs: its file, its line, and the setting for names of files.\<close>

record place =
  pl_file :: string
  pl_line :: int
  pl_filename_format :: "string option"
  pl_link_format :: string

definition get_zval_value_text_ansi ::
  "char \<Rightarrow> engine \<Rightarrow> heap \<Rightarrow> place \<Rightarrow> zval \<Rightarrow> bool \<Rightarrow> bool \<Rightarrow> export_options \<Rightarrow> string option" where
  "get_zval_value_text_ansi junk en h pl z mode debug co =
     do {
       loc \<leftarrow> show_location co;
       head \<leftarrow> (if loc \<and> \<not> debug
                then map_option (\<lambda>f. bold mode (str_text f) @ '':'' @ bold mode (dec_int (to_int32 (pl_line pl))) @ '':'' @ newline)
                       (format_filename junk (pl_filename_format pl) ''%f'' (pl_file pl))
                else Some []);
       map_option snd (var_export_text_ansi en h mode debug (text_fuel co) (\<lambda>_. 0) z 1 (co, head))
     }"

definition var_synopsis_text_ansi :: "engine \<Rightarrow> heap \<Rightarrow> bool \<Rightarrow> bool \<Rightarrow> zval \<Rightarrow> string option" where
  "var_synopsis_text_ansi en h mode debug z =
     map_option (\<lambda>t. (if debug then refcount_text h z @ ''='' else []) @ t)
       (do {
         z \<leftarrow> skip_reference h z;
         case z of
           IS_BOOL b \<Rightarrow> Some (bold mode (if b then ''true'' else ''false''))
         | IS_NULL \<Rightarrow> Some (bold mode ''null'')
         | IS_LONG _ \<Rightarrow> Some (bold mode ''int'')
         | IS_DOUBLE _ \<Rightarrow> Some (bold mode ''double'')
         | IS_STRING s \<Rightarrow>
             Some (bold mode ''string'' @ ''('' @ ANSI_COLOR_LONG mode @ dec_int (to_int32 (int (length s))) @
                   ANSI_COLOR_RESET mode @ '')'')
         | IS_ARRAY a \<Rightarrow>
             map_option (\<lambda>t. ''array('' @ ANSI_COLOR_LONG mode @ dec_int (to_int32 (int (length t))) @ ANSI_COLOR_RESET mode @ '')'')
               (ht_at h a)
         | IS_OBJECT a \<Rightarrow> map_option (\<lambda>obj. ''class '' @ cstr (class_name obj)) (object_at h a)
         | IS_RESOURCE i \<Rightarrow>
             Some (''resource('' @ ANSI_COLOR_LONG mode @ dec_int i @ ANSI_COLOR_RESET mode @ '') of type ('' @ resource_type en i @ '')'')
         | IS_UNDEF \<Rightarrow> Some (ANSI_COLOR_NULL mode @ ''*uninitialized*'' @ ANSI_COLOR_RESET mode)
         | _ \<Rightarrow> Some (ANSI_COLOR_NULL mode @ ''NFC'' @ ANSI_COLOR_RESET mode)
       })"

definition get_zval_synopsis_text_ansi ::
  "engine \<Rightarrow> heap \<Rightarrow> place \<Rightarrow> zval \<Rightarrow> bool \<Rightarrow> bool \<Rightarrow> export_options \<Rightarrow> string option" where
  "get_zval_synopsis_text_ansi en h pl z mode debug co =
     do {
       loc \<leftarrow> show_location co;
       map_option (\<lambda>t. (if loc \<and> \<not> debug then bold mode (cstr (pl_file pl) @ '': '' @ dec_int (to_int32 (pl_line pl))) @ newline else []) @ t)
         (var_synopsis_text_ansi en h mode debug z)
     }"

section \<open>HTML\<close>

definition COLOR_POINTER :: string where "COLOR_POINTER = ''#888a85''"
definition COLOR_BOOL :: string where "COLOR_BOOL = ''#75507b''"
definition COLOR_LONG :: string where "COLOR_LONG = ''#4e9a06''"
definition COLOR_NULL :: string where "COLOR_NULL = ''#3465a4''"
definition COLOR_DOUBLE :: string where "COLOR_DOUBLE = ''#f57900''"
definition COLOR_STRING :: string where "COLOR_STRING = ''#cc0000''"
definition COLOR_EMPTY :: string where "COLOR_EMPTY = ''#888a85''"
definition COLOR_ARRAY :: string where "COLOR_ARRAY = ''#ce5c00''"
definition COLOR_OBJECT :: string where "COLOR_OBJECT = ''#8f5902''"
definition COLOR_RESOURCE :: string where "COLOR_RESOURCE = ''#2e3436''"

definition font :: "string \<Rightarrow> string \<Rightarrow> string" where
  "font color t = ''<font color='' @ [CHR 0x27] @ color @ [CHR 0x27] @ ''>'' @ t @ ''</font>''"

definition html_pointer :: string where
  "html_pointer = font COLOR_POINTER ''=&gt;'' @ '' ''"

definition more_elements_fancy :: "nat \<Rightarrow> string" where
  "more_elements_fancy level = spaces (level * 4 - 2) @ ''<i>more elements...</i>'' @ newline"

text \<open>Escaping the first characters of a text; without any the text is not looked at.\<close>

definition xmlize_chars :: "engine \<Rightarrow> int \<Rightarrow> string \<Rightarrow> string option" where
  "xmlize_chars en n s = map_option (xmlize (en_lib en)) (read_chars n s)"

definition array_element_export_fancy ::
  "engine \<Rightarrow> text_exporter \<Rightarrow> nat \<Rightarrow> pkey \<times> zval \<Rightarrow> text_state \<Rightarrow> text_state option" where
  "array_element_export_fancy en export level kv =
     text_element level (more_elements_fancy level) (\<lambda>st.
       export (snd kv) (level + 1)
         (put (spaces (level * 4 - 2) @
            (case fst kv of
               Key_num i \<Rightarrow> dec_int i @ '' '' @ html_pointer
             | Key_str k \<Rightarrow> [CHR 0x27] @ xmlize (en_lib en) k @ [CHR 0x27] @ '' '' @ html_pointer)) st))"

definition object_element_label_fancy :: "engine \<Rightarrow> string \<Rightarrow> pkey \<Rightarrow> string option" where
  "object_element_label_fancy en cls key =
     (case key of
        Key_num i \<Rightarrow> Some (''<i>public</i> '' @ dec_int i @ '' '' @ html_pointer)
      | Key_str k \<Rightarrow>
          (let info = get_property_info en k
           in map_option (\<lambda>other. ''<i>'' @ fst (snd info) @ ''</i> '' @ [CHR 0x27] @ fst info @ [CHR 0x27] @
                  (case other of None \<Rightarrow> [] | Some c \<Rightarrow> '' <small>('' @ c @ '')</small>'') @ '' '' @ html_pointer)
                (other_class cls info)))"

definition object_element_export_fancy ::
  "engine \<Rightarrow> text_exporter \<Rightarrow> nat \<Rightarrow> string \<Rightarrow> pkey \<times> zval \<Rightarrow> text_state \<Rightarrow> text_state option" where
  "object_element_export_fancy en export level cls kv =
     text_element level (more_elements_fancy level) (\<lambda>st.
       do {
         label \<leftarrow> object_element_label_fancy en cls (fst kv);
         export (snd kv) (level + 1) (put (spaces (level * 4 - 2) @ label) st)
       })"

definition export_text_fancy :: "engine \<Rightarrow> export_options \<Rightarrow> string \<Rightarrow> string option" where
  "export_text_fancy en co s =
     map_option (\<lambda>t. ''<small>string</small> <font color='' @ [CHR 0x27] @ COLOR_STRING @ [CHR 0x27] @ ''>'' @ [CHR 0x27] @ t @
        '' <i>(length='' @ dec_int (to_int32 (int (length s))) @ '')</i>'')
       (if \<not> data_fits co s
        then map_option (\<lambda>t. t @ [CHR 0x27] @ ''...</font>'') (xmlize_chars en (max_data co) s)
        else Some (xmlize (en_lib en) s @ [CHR 0x27] @ ''</font>''))"

definition fancy_children ::
  "nat \<Rightarrow> (pkey \<times> zval \<Rightarrow> text_state \<Rightarrow> text_state option) \<Rightarrow> heap \<Rightarrow> ptable \<Rightarrow> text_state \<Rightarrow> text_state option" where
  "fancy_children level element h t st =
     (if int level \<le> max_depth (fst st)
      then do { es \<leftarrow> foreach_ind h t; text_elements level element es st }
      else Some (put (spaces (level * 4 - 2) @ ''...'' @ newline) st))"

text \<open>The class and the number of an object.\<close>

definition fancy_object :: "php_object \<Rightarrow> string" where
  "fancy_object obj =
     ''<b>object</b>(<i>'' @ cstr (class_name obj) @ ''</i>)[<i>'' @ dec_int (to_int32 (obj_handle obj)) @ ''</i>]'' @ newline"

text \<open>After a table no newline is written.\<close>

fun var_export_fancy :: "engine \<Rightarrow> heap \<Rightarrow> bool \<Rightarrow> nat \<Rightarrow> applied \<Rightarrow> text_exporter" where
  "var_export_fancy en h debug 0 ap z level st = None"
| "var_export_fancy en h debug (Suc n) ap z level st =
     (let st = put (if debug then ''<i>'' @ refcount_text h z @ ''</i>'' else []) st;
          plain = (\<lambda>t. Some (put (t @ newline) st))
      in do {
        z \<leftarrow> skip_reference h z;
        case z of
          IS_BOOL b \<Rightarrow> plain (''<small>boolean</small> '' @ font COLOR_BOOL (if b then ''true'' else ''false''))
        | IS_NULL \<Rightarrow> plain (font COLOR_NULL ''null'')
        | IS_LONG i \<Rightarrow> plain (''<small>int</small> '' @ font COLOR_LONG (dec_int i))
        | IS_DOUBLE f \<Rightarrow> plain (''<small>float</small> '' @ font COLOR_DOUBLE (format_double en f))
        | IS_STRING s \<Rightarrow> map_option (\<lambda>t. put (t @ newline) st) (export_text_fancy en (fst st) s)
        | IS_ARRAY a \<Rightarrow>
            do {
              t \<leftarrow> ht_at h a;
              let st = put (newline @ spaces ((level - 1) * 4)) st;
              if ap a < 1
              then
                (let st = put (''<b>array</b> <i>(size='' @ dec_int (to_int32 (int (length t))) @ '')</i>'' @ newline) st
                 in if int level \<le> max_depth (fst st) \<and> t = []
                    then Some (put (spaces (level * 4 - 2) @ ''<i>'' @ font COLOR_EMPTY ''empty'' @ ''</i>'' @ newline) st)
                    else fancy_children level
                           (array_element_export_fancy en (var_export_fancy en h debug n (inc_apply (Some a) ap)) level) h t st)
              else Some (put (''<i>&amp;</i><b>array</b>'' @ newline) st)
            }
        | IS_OBJECT a \<Rightarrow>
            do {
              obj \<leftarrow> object_at h a;
              t \<leftarrow> object_table h obj;
              (adr, t) \<leftarrow> t;
              let st = put (newline @ spaces ((level - 1) * 4)) st;
              if apply_count ap adr < 1
              then fancy_children level
                     (object_element_export_fancy en (var_export_fancy en h debug n (inc_apply adr ap)) level (class_name obj))
                     h t (put (fancy_object obj) st)
              else Some (put (''<i>&amp;</i>'' @ fancy_object obj) st)
            }
        | IS_RESOURCE i \<Rightarrow>
            plain (''<b>resource</b>(<i>'' @ dec_int i @ ''</i>'' @ font COLOR_RESOURCE '','' @ '' <i>'' @ resource_type en i @ ''</i>)'')
        | IS_UNDEF \<Rightarrow> plain (font COLOR_NULL ''*uninitialized*'')
        | _ \<Rightarrow> plain (font COLOR_NULL ''NFC'')
      })"

definition fancy_place :: "char \<Rightarrow> place \<Rightarrow> string option" where
  "fancy_place junk pl =
     do {
       f \<leftarrow> format_filename junk (pl_filename_format pl) ''%f'' (pl_file pl);
       let text = str_text f @ '':'' @ dec_int (to_int32 (pl_line pl));
       if pl_link_format pl \<noteq> []
       then map_option (\<lambda>l. newline @ ''<small><a href='' @ [CHR 0x27] @ str_text l @ [CHR 0x27] @ ''>'' @ text @ ''</a>:</small>'')
              (format_file_link junk (pl_link_format pl) (pl_file pl) (pl_line pl))
       else Some (newline @ ''<small>'' @ text @ '':</small>'')
     }"

definition get_zval_value_fancy :: "char \<Rightarrow> engine \<Rightarrow> heap \<Rightarrow> place \<Rightarrow> zval \<Rightarrow> bool \<Rightarrow> export_options \<Rightarrow> string option" where
  "get_zval_value_fancy junk en h pl z debug co =
     do {
       loc \<leftarrow> show_location co;
       head \<leftarrow> (if loc \<and> \<not> debug then fancy_place junk pl else Some []);
       st \<leftarrow> var_export_fancy en h debug (text_fuel co) (\<lambda>_. 0) z 1
         (co, ''<pre class='' @ [CHR 0x27] @ ''xdebug-var-dump'' @ [CHR 0x27] @ '' dir='' @ [CHR 0x27] @ ''ltr'' @ [CHR 0x27] @ ''>'' @ head);
       Some (snd st @ ''</pre>'')
     }"

definition get_zval_synopsis_fancy :: "engine \<Rightarrow> heap \<Rightarrow> zval \<Rightarrow> bool \<Rightarrow> string option" where
  "get_zval_synopsis_fancy en h z debug =
     map_option (\<lambda>t. (if debug then ''<i>'' @ refcount_text h z @ ''</i>'' else []) @ t)
       (do {
         z \<leftarrow> skip_reference h z;
         case z of
           IS_BOOL b \<Rightarrow> Some (font COLOR_BOOL (if b then ''true'' else ''false''))
         | IS_NULL \<Rightarrow> Some (font COLOR_NULL ''null'')
         | IS_LONG _ \<Rightarrow> Some (font COLOR_LONG ''long'')
         | IS_DOUBLE _ \<Rightarrow> Some (font COLOR_DOUBLE ''double'')
         | IS_STRING s \<Rightarrow> Some (font COLOR_STRING (''string('' @ dec_int (to_int32 (int (length s))) @ '')''))
         | IS_ARRAY a \<Rightarrow>
             map_option (\<lambda>t. font COLOR_ARRAY (''array('' @ dec_int (to_int32 (int (length t))) @ '')'')) (ht_at h a)
         | IS_OBJECT a \<Rightarrow>
             map_option (\<lambda>obj. font COLOR_OBJECT
                 (''object('' @ cstr (class_name obj) @ '')['' @ dec_int (to_int32 (obj_handle obj)) @ '']'')) (object_at h a)
         | IS_RESOURCE i \<Rightarrow> Some (font COLOR_RESOURCE (''resource('' @ dec_int i @ '', '' @ resource_type en i @ '')''))
         | IS_UNDEF \<Rightarrow> Some (font COLOR_NULL ''*uninitialized*'')
         | _ \<Rightarrow> Some (font COLOR_NULL ''NFC'')
       })"

end
