(* ===== verification/VarTextFacts.thy ===== *)
theory VarTextFacts
  imports VarDump VarFacts
begin

text \<open>
  What the texts of values consist of: a set of texts that is closed under appending holds the whole export when it
  holds the pieces. Of the plain export this shows that it has no control characters, of the one in HTML that its
  markup is only the one the code writes.
\<close>

section \<open>Writing within a language\<close>

definition text_frame :: "nat \<Rightarrow> export_options \<Rightarrow> export_options \<Rightarrow> bool" where
  "text_frame l co co' \<longleftrightarrow> frame l co co' \<and> no_decoration co' = no_decoration co"

definition writes :: "(string \<Rightarrow> bool) \<Rightarrow> export_options \<Rightarrow> nat \<Rightarrow> (text_state \<Rightarrow> text_state option) \<Rightarrow> bool" where
  "writes Q co0 l f \<longleftrightarrow>
     (\<forall>co s. text_frame l co0 co \<longrightarrow> (\<exists>co' t. f (co, s) = Some (co', s @ t) \<and> text_frame l co co' \<and> Q t))"

text \<open>Every level that may be shown has a page.\<close>

definition text_pages :: "export_options \<Rightarrow> bool" where
  "text_pages co \<longleftrightarrow> (\<forall>l. int l \<le> max_depth co \<longrightarrow> l < length (runtime co)) \<and> no_decoration co \<noteq> None \<and>
     0 \<le> max_data co \<and> max_data co < 2 ^ 64"

lemma text_frame_refl [simp]: "text_frame l co co"
  by (simp add: text_frame_def)

lemma text_frame_trans: "text_frame l co co' \<Longrightarrow> text_frame l co' co'' \<Longrightarrow> text_frame l co co''"
  unfolding text_frame_def using frame_trans by fastforce

lemma text_frame_mono: "text_frame l co co' \<Longrightarrow> k \<le> l \<Longrightarrow> text_frame k co co'"
  unfolding text_frame_def using frame_mono by blast

lemma text_frame_pages: "text_frame l co co' \<Longrightarrow> text_pages co \<Longrightarrow> text_pages co'"
  by (auto simp: text_frame_def text_pages_def frame_def)

lemma writes_lower:
  assumes "\<And>co. text_frame k co0 co \<Longrightarrow> writes Q co l f" and "k \<le> l"
  shows "writes Q co0 k f"
  unfolding writes_def
proof (intro allI impI)
  fix co s
  assume "text_frame k co0 co"
  from assms(1) [OF this] show "\<exists>co' t. f (co, s) = Some (co', s @ t) \<and> text_frame k co co' \<and> Q t"
    unfolding writes_def using text_frame_mono [OF _ assms(2)] text_frame_refl by blast
qed

lemma writes_frame: "writes Q co0 l f \<Longrightarrow> text_frame l co0 co \<Longrightarrow> writes Q co l f"
  unfolding writes_def using text_frame_trans by blast

lemma writes_put: "Q t \<Longrightarrow> writes Q co0 l (\<lambda>st. Some (put t st))"
  by (auto simp: writes_def put_def)

lemma writes_if: "writes Q co0 l f \<Longrightarrow> writes Q co0 l g \<Longrightarrow> writes Q co0 l (\<lambda>st. if P st then f st else g st)"
  by (simp add: writes_def)

lemma next_element_text:
  assumes "counters co l c s e" and "0 \<le> c" and "c + 1 < 2 ^ 31"
  shows "\<exists>co'. next_element l co = Some co' \<and> counters co' l (c + 1) s e \<and> text_frame l co co'"
proof -
  obtain co' where "next_element l co = Some co'" "counters co' l (c + 1) s e" "frame l co co'"
    using next_element_ok [OF assms] by blast
  moreover from this(1) have "no_decoration co' = no_decoration co"
    by (auto simp: next_element_def set_page_def bind_eq_Some_conv)
  ultimately show ?thesis by (auto simp: text_frame_def)
qed

lemma start_page_text:
  assumes "l < length (runtime co)"
  shows "\<exists>co'. start_page l s e co = Some co' \<and> counters co' l 0 s e \<and> text_frame l co co'"
proof -
  obtain co' where "start_page l s e co = Some co'" "counters co' l 0 s e" "frame l co co'"
    using start_page_ok [OF assms] by blast
  moreover from this(1) have "no_decoration co' = no_decoration co"
    by (auto simp: start_page_def set_page_def bind_eq_Some_conv)
  ultimately show ?thesis by (auto simp: text_frame_def)
qed

locale text_language =
  fixes Q :: "string \<Rightarrow> bool"
  assumes empty: "Q []" and append: "Q s \<Longrightarrow> Q t \<Longrightarrow> Q (s @ t)"
begin

lemma writes_then:
  assumes "writes Q co0 l f" and "writes Q co0 l g"
  shows "writes Q co0 l (\<lambda>st. Option.bind (f st) g)"
  unfolding writes_def
proof (intro allI impI)
  fix co s
  assume co: "text_frame l co0 co"
  then obtain co1 t where 1: "f (co, s) = Some (co1, s @ t)" "text_frame l co co1" "Q t"
    using assms(1) unfolding writes_def by blast
  then obtain co2 u where "g (co1, s @ t) = Some (co2, (s @ t) @ u)" "text_frame l co1 co2" "Q u"
    using assms(2) text_frame_trans [OF co] unfolding writes_def by blast
  then show "\<exists>co' t. Option.bind (f (co, s)) g = Some (co', s @ t) \<and> text_frame l co co' \<and> Q t"
    using 1 append text_frame_trans by fastforce
qed

lemma writes_before: "Q t \<Longrightarrow> writes Q co0 l f \<Longrightarrow> writes Q co0 l (\<lambda>st. f (put t st))"
  using writes_then [OF writes_put [of Q t co0 l], of f] by simp

lemma writes_after: "Q t \<Longrightarrow> writes Q co0 l f \<Longrightarrow> writes Q co0 l (\<lambda>st. map_option (put t) (f st))"
  using writes_then [OF _ writes_put [of Q t co0 l], of f] by (simp add: map_conv_bind_option o_def)

lemma element_writes:
  assumes "\<And>co. text_frame l co0 co \<Longrightarrow> writes Q co (Suc l) f" and "Q remark"
    and "counters co l c s e" and "0 \<le> c" and "c + 1 < 2 ^ 31" and "text_frame l co0 co"
  shows "\<exists>co' t. text_element l remark f (co, x) = Some (co', x @ t) \<and> counters co' l (c + 1) s e \<and> text_frame l co co' \<and> Q t"
proof -
  have p: "page_at co l = Some (runtime co ! l)" "in_page (runtime co ! l) = Some (s \<le> c \<and> c < e)"
    using assms(3) by (simp_all add: counters_def page_at_def in_page_def)
  obtain co1 t where 1: "(if s \<le> c \<and> c < e then f (co, x) else Some (co, x)) = Some (co1, x @ t)"
      "text_frame (Suc l) co co1" "Q t"
  proof (cases "s \<le> c \<and> c < e")
    case True
    then show ?thesis using assms(1) [OF assms(6)] text_frame_refl that unfolding writes_def by metis
  next
    case False
    then have "(if s \<le> c \<and> c < e then f (co, x) else Some (co, x)) = Some (co, x @ [])" by auto
    then show ?thesis by (rule that) (simp_all add: empty)
  qed
  have c1: "counters co1 l c s e" using frame_counters assms(3) 1(2) by (auto simp: text_frame_def)
  then obtain co2 where 2: "next_element l co1 = Some co2" "counters co2 l (c + 1) s e" "text_frame l co1 co2"
    using next_element_text assms(4,5) by blast
  have "page_at co1 l = Some (runtime co1 ! l)" "current_element_nr (runtime co1 ! l) = Some c"
      "end_element_nr (runtime co1 ! l) = Some e"
    using c1 by (simp_all add: counters_def page_at_def)
  then have "text_element l remark f (co, x) = Some (co2, x @ (t @ (if c = e then remark else [])))"
    using p 1(1) 2(1) by (simp add: text_element_def)
  moreover have "text_frame l co co2" using text_frame_trans [OF text_frame_mono [OF 1(2)] 2(3)] by simp
  ultimately show ?thesis using 1(3) 2(2) assms(2) empty append by fastforce
qed

lemma loop_writes:
  assumes "\<And>y co. y \<in> set es \<Longrightarrow> text_frame l co0 co \<Longrightarrow> writes Q co (Suc l) (f y)" and "Q remark"
    and "counters co l c s e" and "0 \<le> c" and "c + int (length es) < 2 ^ 31" and "text_frame l co0 co"
  shows "\<exists>co' t. fold_option (\<lambda>y. text_element l remark (f y)) es (co, x) = Some (co', x @ t) \<and> text_frame l co co' \<and> Q t"
  using assms
proof (induction es arbitrary: co x c)
  case Nil
  then show ?case using empty by simp
next
  case (Cons y es)
  obtain co1 t where 1: "text_element l remark (f y) (co, x) = Some (co1, x @ t)" "counters co1 l (c + 1) s e"
      "text_frame l co co1" "Q t"
    using element_writes [of l co0 "f y", OF Cons.prems(1) Cons.prems(2,3,4) _ Cons.prems(6)] Cons.prems(5) by force
  obtain co2 u where "fold_option (\<lambda>y. text_element l remark (f y)) es (co1, x @ t) = Some (co2, (x @ t) @ u)"
      "text_frame l co1 co2" "Q u"
    using Cons.IH [OF _ Cons.prems(2) 1(2), of "x @ t"] Cons.prems(1,4,5) text_frame_trans [OF Cons.prems(6) 1(3)] by force
  then show ?case using 1 append text_frame_trans by fastforce
qed

lemma elements_write:
  assumes "\<And>y co. y \<in> set es \<Longrightarrow> text_frame l co0 co \<Longrightarrow> writes Q co (Suc l) (f y)" and "Q remark"
    and "l < length (runtime co0)" and "length es < 2 ^ 31"
  shows "writes Q co0 l (text_elements l (\<lambda>y. text_element l remark (f y)) es)"
  unfolding writes_def
proof (intro allI impI)
  fix co x
  assume co: "text_frame l co0 co"
  then have "l < length (runtime co)" using assms(3) by (simp add: text_frame_def frame_def)
  then obtain co1 where 1: "start_page l 0 (max_children co) co = Some co1" "counters co1 l 0 0 (max_children co)" "text_frame l co co1"
    using start_page_text by blast
  obtain co2 t where "fold_option (\<lambda>y. text_element l remark (f y)) es (co1, x) = Some (co2, x @ t)" "text_frame l co1 co2" "Q t"
    using loop_writes [of es l co0 f remark co1 0, OF assms(1,2) 1(2)] assms(4) text_frame_trans [OF co 1(3)] by fastforce
  then show "\<exists>co' t. text_elements l (\<lambda>y. text_element l remark (f y)) es (co, x) = Some (co', x @ t) \<and> text_frame l co co' \<and> Q t"
    using 1 text_frame_trans by (fastforce simp: text_elements_def)
qed

lemma fancy_children_writes:
  assumes "\<And>y co. int l \<le> max_depth co0 \<Longrightarrow> y \<in> set es \<Longrightarrow> text_frame l co0 co \<Longrightarrow> writes Q co (Suc l) (f y)" and "Q remark"
    and "text_pages co0" and "foreach_ind h t = Some es" and "length es < 2 ^ 31"
    and "Q (spaces (l * 4 - 2) @ ''...'' @ newline)"
  shows "writes Q co0 l (fancy_children l (\<lambda>y. text_element l remark (f y)) h t)"
proof (cases "int l \<le> max_depth co0")
  case True
  then have l: "l < length (runtime co0)" using assms(3) by (simp add: text_pages_def)
  have "writes Q co0 l (text_elements l (\<lambda>y. text_element l remark (f y)) es)"
    by (rule elements_write [OF assms(1) [OF True] assms(2) l assms(5)])
  moreover have "fancy_children l (\<lambda>y. text_element l remark (f y)) h t (co, s) =
      text_elements l (\<lambda>y. text_element l remark (f y)) es (co, s)" if "text_frame l co0 co" for co s
    using True that assms(4) by (simp add: fancy_children_def text_frame_def frame_def)
  ultimately show ?thesis unfolding writes_def by metis
next
  case False
  have "writes Q co0 l (\<lambda>st. Some (put (spaces (l * 4 - 2) @ ''...'' @ newline) st))"
    by (rule writes_put) (rule assms(6))
  moreover have "fancy_children l (\<lambda>y. text_element l remark (f y)) h t (co, s) =
      Some (put (spaces (l * 4 - 2) @ ''...'' @ newline) (co, s))" if "text_frame l co0 co" for co s
    using False that by (simp add: fancy_children_def text_frame_def frame_def)
  ultimately show ?thesis unfolding writes_def by metis
qed

end

text \<open>A text that loses its end, as the export does after a loop.\<close>

locale text_prefix_language = text_language +
  assumes shorter: "Q t \<Longrightarrow> Q (take n t)"
begin

lemma plain_children_writes:
  assumes "\<And>y co. int l \<le> max_depth co0 \<Longrightarrow> y \<in> set es \<Longrightarrow> text_frame l co0 co \<Longrightarrow> writes Q co (Suc l) (f y)" and "Q remark"
    and "text_pages co0" and "foreach_ind h t = Some es" and "length es < 2 ^ 31"
    and "Q opening" and "2 \<le> length opening" and "Q close" and "Q ''...''"
  shows "writes Q co0 l (\<lambda>st. plain_children l (\<lambda>y. text_element l remark (f y)) h t close (put opening st))"
proof (cases "int l \<le> max_depth co0")
  case True
  let ?body = "\<lambda>st. map_option (if t \<noteq> [] then chop2 else id)
      (text_elements l (\<lambda>y. text_element l remark (f y)) es (put opening st))"
  have l: "l < length (runtime co0)" using assms(3) True by (simp add: text_pages_def)
  have w: "writes Q co0 l (\<lambda>st. text_elements l (\<lambda>y. text_element l remark (f y)) es (put opening st))"
    by (rule writes_before [OF assms(6) elements_write [OF assms(1) [OF True] assms(2) l assms(5)]])
  have o: "writes Q co0 l (text_elements l (\<lambda>y. text_element l remark (f y)) es)"
    by (rule elements_write [OF assms(1) [OF True] assms(2) l assms(5)])
  have "writes Q co0 l ?body"
    unfolding writes_def
  proof (intro allI impI)
    fix co s
    assume "text_frame l co0 co"
    then obtain co1 u where u: "text_elements l (\<lambda>y. text_element l remark (f y)) es (co, s @ opening) = Some (co1, (s @ opening) @ u)"
        "text_frame l co co1" "Q u"
      using o unfolding writes_def by blast
    define v where "v = (if t \<noteq> [] then take (length (opening @ u) - 2) (opening @ u) else opening @ u)"
    have "Q v" using assms(6) u(3) append shorter by (simp add: v_def del: take_append)
    moreover have "?body (co, s) = Some (co1, s @ v)"
      using u(1) assms(7) by (auto simp: put_def chop2_def v_def)
    ultimately show "\<exists>co' v. ?body (co, s) = Some (co', s @ v) \<and> text_frame l co co' \<and> Q v" using u(2) by blast
  qed
  from writes_after [OF assms(8) this]
  have 1: "writes Q co0 l (\<lambda>st. map_option (put close) (?body st))" .
  show ?thesis
    unfolding writes_def
  proof (intro allI impI)
    fix co s
    assume co: "text_frame l co0 co"
    then have "int l \<le> max_depth co" using True by (simp add: text_frame_def frame_def)
    then have "plain_children l (\<lambda>y. text_element l remark (f y)) h t close (put opening (co, s)) =
        map_option (put close) (?body (co, s))"
      using assms(4) by (simp add: plain_children_def put_def map_option_case split: option.split)
    then show "\<exists>co' u. plain_children l (\<lambda>y. text_element l remark (f y)) h t close (put opening (co, s)) = Some (co', s @ u) \<and>
        text_frame l co co' \<and> Q u"
      using 1 co unfolding writes_def by metis
  qed
next
  case False
  have "writes Q co0 l (\<lambda>st. Some (put (opening @ ''...'' @ close) st))"
    by (rule writes_put) (intro append assms)
  moreover have "plain_children l (\<lambda>y. text_element l remark (f y)) h t close (put opening (co, s)) =
      Some (put (opening @ ''...'' @ close) (co, s))" if "text_frame l co0 co" for co s
    using False that by (simp add: plain_children_def put_def text_frame_def frame_def)
  ultimately show ?thesis unfolding writes_def by metis
qed

end

section \<open>The plain export has no control characters\<close>

definition control_free :: "string \<Rightarrow> bool" where
  "control_free s \<longleftrightarrow> (\<forall>c\<in>set s. 0x20 \<le> uchar c)"

lemma control_free_simps [simp]:
  "control_free []" "control_free (s @ t) \<longleftrightarrow> control_free s \<and> control_free t"
  "control_free (c # s) \<longleftrightarrow> 0x20 \<le> uchar c \<and> control_free s"
  by (auto simp: control_free_def)

interpretation quiet: text_prefix_language control_free
  by unfold_locales (auto simp: control_free_def dest: in_set_takeD)

lemma control_free_cstr: "control_free s \<Longrightarrow> cstr s = s"
  by (auto simp: control_free_def cstr_def nul_def uchar_def takeWhile_eq_all_conv)

lemma control_free_prefix: "control_free s \<Longrightarrow> control_free (cstr s)"
  by (simp add: control_free_cstr)

lemma control_free_dec_int [simp]: "control_free (dec_int i)"
proof -
  have "control_free (dec n)" for n
    using dec_isdigit [of _ n] by (fastforce simp: control_free_def isdigit_def)
  then show ?thesis by (simp add: dec_int_def uchar_def)
qed

text \<open>What is needed of the engine: \<open>php_addcslashes\<close> escapes what the mask names and drops nothing; names and keys that a
  script makes have no control characters, but for the zeros, which the export of keys escapes.\<close>

definition escapes_controls :: "engine \<Rightarrow> bool" where
  "escapes_controls en \<longleftrightarrow>
     (\<forall>s. control_free (addcslashes en s ESCAPE_MASK) \<and> length s \<le> length (addcslashes en s ESCAPE_MASK))"

definition quiet_key :: "engine \<Rightarrow> pkey \<Rightarrow> bool" where
  "quiet_key en k =
     (case k of
        Key_num _ \<Rightarrow> True
      | Key_str n \<Rightarrow>
          (\<forall>c\<in>set n. c = nul \<or> 0x20 \<le> uchar c) \<and> control_free (snd (unmangle en n)) \<and>
          (case fst (unmangle en n) of None \<Rightarrow> True | Some c \<Rightarrow> control_free c))"

definition quiet_heap :: "engine \<Rightarrow> heap \<Rightarrow> bool" where
  "quiet_heap en h \<longleftrightarrow>
     (\<forall>a t. ht_at h a = Some t \<longrightarrow> (\<forall>e\<in>set t. quiet_key en (fst e))) \<and>
     (\<forall>a obj. object_at h a = Some obj \<longrightarrow> control_free (class_name obj) \<and>
        (\<exists>adr t. object_table h obj = Some (Some (adr, t)) \<and> (\<forall>e\<in>set t. quiet_key en (fst e)))) \<and>
     (\<forall>f. control_free (format_double en f)) \<and> (\<forall>i t. rsrc_type en i = Some t \<longrightarrow> control_free t)"

definition key_char :: "char \<Rightarrow> string" where
  "key_char c = (if c = CHR 0x27 then [CHR 0x5C, CHR 0x27] else if c = nul then [CHR 0x5C, CHR ''0''] else [c])"

lemma quoted_key_eq:
  assumes "replaces (en_lib en)"
  shows "quoted_key en k = [CHR 0x27] @ concat (map key_char k) @ [CHR 0x27]"
proof -
  define q where "q d = (if d = CHR 0x27 then [CHR 0x5C, CHR 0x27] else [d])" for d
  have "str_to_str (en_lib en) (k @ [nul]) [CHR 0x27] [CHR 0x5C, CHR 0x27] = concat (map q k) @ [nul]"
    using assms by (simp add: replaces_def q_def [abs_def] nul_def)
  moreover have "str_to_str (en_lib en) (concat (map q k)) [nul] [CHR 0x5C, CHR ''0''] = concat (map key_char k)"
  proof -
    have "str_to_str (en_lib en) u [nul] [CHR 0x5C, CHR ''0''] = concat (map (\<lambda>d. if d = nul then [CHR 0x5C, CHR ''0''] else [d]) u)" for u
      using assms by (simp add: replaces_def)
    moreover have "concat (map (\<lambda>d. if d = nul then [CHR 0x5C, CHR ''0''] else [d]) (q c)) = key_char c" for c
      by (simp add: q_def key_char_def nul_def)
    ultimately show ?thesis by (induction k) simp_all
  qed
  ultimately show ?thesis by (simp add: quoted_key_def Let_def)
qed

lemma quoted_key_quiet: "replaces (en_lib en) \<Longrightarrow> quiet_key en (Key_str k) \<Longrightarrow> control_free (quoted_key en k)"
  by (auto simp: quoted_key_eq quiet_key_def key_char_def control_free_def uchar_def split: if_splits)

lemma object_label_quiet:
  assumes "quiet_key en k" and "control_free cls"
  shows "\<exists>t. object_element_label en cls k = Some t \<and> control_free t"
proof (cases k)
  case (Key_str n)
  obtain c p where u: "unmangle en n = (c, p)" by force
  then have "control_free p" "case c of None \<Rightarrow> True | Some d \<Rightarrow> control_free d"
    using assms(1) Key_str by (simp_all add: quiet_key_def)
  moreover obtain m where m: "get_property_info en n = (p, m, c)" "m \<in> {''public'', ''protected'', ''private''}"
      "m = ''private'' \<longrightarrow> c \<noteq> None"
    using u by (auto simp: get_property_info_def split: option.splits)
  ultimately obtain other where "other_class cls (p, m, c) = Some other" "case other of None \<Rightarrow> True | Some d \<Rightarrow> control_free d"
    by (cases "m = ''private''") (auto simp: other_class_def control_free_prefix)
  then show ?thesis using m \<open>control_free p\<close> Key_str
    by (auto simp: object_element_label_def uchar_def split: option.splits)
qed (simp add: object_element_label_def uchar_def)

lemma export_text_quiet:
  assumes "escapes_controls en" and "text_pages co"
  shows "\<exists>t. export_text en co s = Some t \<and> control_free t"
proof -
  let ?t = "addcslashes en s ESCAPE_MASK"
  have t: "control_free ?t" "cstr ?t = ?t" "length s \<le> length ?t"
    using assms(1) control_free_cstr by (auto simp: escapes_controls_def)
  obtain nd where "no_decoration co = Some nd" using assms(2) by (auto simp: text_pages_def)
  moreover have "\<exists>u. read_chars (max_data co) ?t = Some u \<and> control_free u" if "\<not> data_fits co s"
  proof -
    have "nat (max_data co) \<le> length ?t" "0 \<le> max_data co"
      using that t(3) assms(2) by (auto simp: data_fits_def text_pages_def)
    then show ?thesis using t(1) by (auto simp: read_chars_def control_free_def dest: in_set_takeD)
  qed
  ultimately show ?thesis using t by (auto simp: export_text_def uchar_def Let_def)
qed

lemma put_put: "put t (put s st) = put (s @ t) st" "fst (put t st) = fst st"
  by (simp_all add: put_def)

text \<open>Tables, with what stands before them.\<close>

lemma array_writes:
  assumes "heap_ok h" and "quiet_heap en h" and "replaces (en_lib en)" and "ht_at h a = Some t" and "text_pages co0"
    and "control_free pre"
    and child: "\<And>z co. int l \<le> max_depth co0 \<Longrightarrow> valid h z \<Longrightarrow> text_frame l co0 co \<Longrightarrow> writes control_free co (Suc l) (ex z (l + 2))"
  shows "writes control_free co0 l (\<lambda>st. plain_children l (array_element_export en ex l) h t '')'' (put (pre @ ''array ('') st))"
proof -
  have v: "\<forall>e\<in>set t. valid h (snd e)" "length t < 2 ^ 31" "\<forall>e\<in>set t. quiet_key en (fst e)"
    using assms(1,2,4) by (auto simp: heap_ok_def quiet_heap_def)
  obtain es where es: "foreach_ind h t = Some es" "length es < 2 ^ 31" "\<forall>e\<in>set es. valid h (snd e) \<and> quiet_key en (fst e)"
    using foreach_valid [OF assms(1) v(1)] v(2,3) by fastforce
  have step: "writes control_free co (Suc l) (\<lambda>st. map_option (put '', '') (ex (snd kv) (l + 2)
      (put ((case fst kv of Key_num i \<Rightarrow> dec_int i | Key_str k \<Rightarrow> quoted_key en k) @ '' => '') st)))"
    if "int l \<le> max_depth co0" "kv \<in> set es" "text_frame l co0 co" for kv co
  proof -
    have "control_free ((case fst kv of Key_num i \<Rightarrow> dec_int i | Key_str k \<Rightarrow> quoted_key en k) @ '' => '')"
      using es(3) that(2) quoted_key_quiet [OF assms(3)] by (auto simp: uchar_def split: pkey.splits)
    from quiet.writes_after [OF _ quiet.writes_before [OF this child [OF that(1) _ that(3)]]]
    show ?thesis using es(3) that(2) by (simp add: uchar_def)
  qed
  have "writes control_free co0 l (\<lambda>st. plain_children l (\<lambda>kv. text_element l ''..., '' (\<lambda>st. map_option (put '', '') (ex (snd kv) (l + 2)
      (put ((case fst kv of Key_num i \<Rightarrow> dec_int i | Key_str k \<Rightarrow> quoted_key en k) @ '' => '') st)))) h t '')'' (put (pre @ ''array ('') st))"
    by (rule quiet.plain_children_writes [OF step _ assms(5) es(1,2)]) (simp_all add: assms(6) uchar_def)
  then show ?thesis by (simp add: array_element_export_def [abs_def])
qed

lemma object_writes:
  assumes "heap_ok h" and "quiet_heap en h" and "object_at h a = Some obj" and "object_table h obj = Some (Some (adr, t))"
    and "text_pages co0" and "control_free pre" and "2 \<le> length pre"
    and child: "\<And>z co. int l \<le> max_depth co0 \<Longrightarrow> valid h z \<Longrightarrow> text_frame l co0 co \<Longrightarrow> writes control_free co (Suc l) (ex z (l + 2))"
  shows "writes control_free co0 l (\<lambda>st. plain_children l (object_element_export en ex l (class_name obj)) h t '' }'' (put pre st))"
proof -
  have q: "\<forall>e\<in>set t. quiet_key en (fst e)" "control_free (class_name obj)"
    using assms(2-4) unfolding quiet_heap_def by fastforce+
  have "object_ok h obj" using assms(1,3) unfolding heap_ok_def by blast
  then have v: "\<forall>e\<in>set t. valid h (snd e)" "length t < 2 ^ 30" using assms(4) by (auto simp: object_ok_def)
  obtain es where es: "foreach_ind h t = Some es" "length es < 2 ^ 31" "\<forall>e\<in>set es. valid h (snd e) \<and> quiet_key en (fst e)"
    using foreach_valid [OF assms(1) v(1)] v(2) q(1) by fastforce
  have step: "writes control_free co (Suc l) (\<lambda>st. do {
       label \<leftarrow> object_element_label en (class_name obj) (fst kv);
       st \<leftarrow> ex (snd kv) (l + 2) (put label st);
       Some (put ''; '' st)
     })"
    if kv: "int l \<le> max_depth co0" "kv \<in> set es" "text_frame l co0 co" for kv co
  proof -
    obtain label where l: "object_element_label en (class_name obj) (fst kv) = Some label" "control_free label"
      using object_label_quiet q(2) es(3) kv(2) by blast
    have "valid h (snd kv)" using es(3) kv(2) by blast
    from quiet.writes_then [OF quiet.writes_before [OF l(2) child [OF kv(1) this kv(3)]] writes_put [of control_free "''; ''"]]
    show ?thesis using l(1) by (simp add: uchar_def)
  qed
  show ?thesis
    unfolding object_element_export_def [abs_def]
    by (rule quiet.plain_children_writes [OF step _ assms(5) es(1,2) assms(6,7)]) (simp_all add: uchar_def)
qed

text \<open>The whole export.\<close>

lemma var_export_writes:
  assumes "heap_ok h" and "quiet_heap en h" and "escapes_controls en" and "replaces (en_lib en)"
  shows "valid h z \<Longrightarrow> text_pages co0 \<Longrightarrow> 0 < n \<Longrightarrow> (int l \<le> max_depth co0 \<Longrightarrow> nat (max_depth co0) + 2 \<le> n + l) \<Longrightarrow>
    writes control_free co0 l (var_export en h debug n ap z l)"
proof (induction n arbitrary: ap z l co0)
  case (Suc n)
  obtain y where y: "skip_reference h z = Some y" "valid h y" using skip_valid(2) [OF assms(1) Suc.prems(1)] by blast
  define pre where "pre = (if debug then refcount_text h z @ ''='' else [])"
  have st: "(if debug then put (refcount_text h z @ ''='') st else st) = put pre st" for st :: text_state
    by (simp add: pre_def put_def)
  have pre: "control_free pre" by (auto simp: pre_def refcount_text_def uchar_def split: zval.splits)
  have child: "writes control_free co (Suc l) (var_export en h debug n ap z (l + 2))"
    if "int l \<le> max_depth co0" "valid h z" "text_frame l co0 co" for ap z co
  proof (rule writes_lower)
    fix co'
    assume "text_frame (Suc l) co co'"
    then have f: "text_frame l co0 co'" using text_frame_trans [OF that(3)] text_frame_mono by (meson le_SucI order_refl)
    then have "max_depth co' = max_depth co0" by (simp add: text_frame_def frame_def)
    moreover have "0 < n" using that(1) Suc.prems(4) by simp
    ultimately show "writes control_free co' (l + 2) (var_export en h debug n ap z (l + 2))"
      using Suc.IH [OF that(2) text_frame_pages [OF f Suc.prems(2)]] Suc.prems(4) that(1) by simp
  qed simp
  have res: "control_free (resource_type en i)" for i
    using assms(2) by (auto simp: resource_type_def quiet_heap_def uchar_def control_free_prefix split: option.splits)
  have dbl: "control_free (format_double en f)" for f using assms(2) by (simp add: quiet_heap_def)
  have dots: "writes control_free co0 l (\<lambda>st. Some (put (pre @ ''...'') st))"
    by (rule writes_put) (simp add: pre uchar_def)
  have "writes control_free co0 l (\<lambda>st. var_export en h debug (Suc n) ap z l st)"
  proof (cases y)
    case (IS_ARRAY a)
    then obtain t where t: "ht_at h a = Some t" using y(2) by (auto simp: valid_def)
    from array_writes [where ex = "var_export en h debug n (inc_apply (Some a) ap)", OF assms(1,2,4) this Suc.prems(2) pre child] dots
    show ?thesis using IS_ARRAY y(1) t by (cases "ap a < 1") (simp_all add: st put_put Let_def)
  next
    case (IS_OBJECT a)
    then obtain obj where obj: "object_at h a = Some obj" using y(2) by (auto simp: valid_def)
    then obtain adr t where t: "object_table h obj = Some (Some (adr, t))" "control_free (class_name obj)"
      using assms(2) unfolding quiet_heap_def by blast
    have "control_free (pre @ ''class '' @ cstr (class_name obj) @ '' { '')" using t(2) pre by (simp add: uchar_def control_free_prefix)
    from object_writes [where ex = "var_export en h debug n (inc_apply adr ap)", OF assms(1,2) obj t(1) Suc.prems(2) this _ child] dots
    show ?thesis using IS_OBJECT y(1) obj t(1) by (cases "apply_count ap adr < 1") (simp_all add: st put_put Let_def)
  next
    case (IS_STRING s)
    show ?thesis
      unfolding writes_def
    proof (intro allI impI)
      fix co u
      assume "text_frame l co0 co"
      then have "text_pages co" by (rule text_frame_pages [OF _ Suc.prems(2)])
      from export_text_quiet [OF assms(3) this] obtain t where "export_text en co s = Some t" "control_free t" by blast
      then have "var_export en h debug (Suc n) ap z l (co, u) = Some (co, u @ (pre @ t))" "control_free (pre @ t)"
        using IS_STRING y(1) pre by (simp_all add: st put_put Let_def) (simp add: put_def)
      then show "\<exists>co' t. var_export en h debug (Suc n) ap z l (co, u) = Some (co', u @ t) \<and> text_frame l co co' \<and> control_free t"
        using text_frame_refl by blast
    qed
  qed (use y(1) pre res dbl in \<open>auto simp: st put_put Let_def uchar_def intro!: writes_put\<close>)
  then show ?case by simp
qed simp

lemma ini_pages:
  "text_pages (options_from_ini overload children data depth)" "max_depth (options_from_ini overload children data depth) \<le> 1023"
  by (auto simp: text_pages_def options_from_ini_def Let_def XDEBUG_MAX_INT_def)

lemma value_text_quiet:
  assumes "heap_ok h" and "quiet_heap en h" and "escapes_controls en" and "replaces (en_lib en)"
    and "valid h z" and "text_pages co"
  shows "\<exists>t. get_zval_value en h z debug co = Some t \<and> control_free t"
proof -
  have "writes control_free co 1 (var_export en h debug (text_fuel co) (\<lambda>_. 0) z 1)"
    by (rule var_export_writes [OF assms(1-4,5,6)]) (simp_all add: text_fuel_def)
  then obtain co' t where "var_export en h debug (text_fuel co) (\<lambda>_. 0) z 1 (co, []) = Some (co', [] @ t)" "control_free t"
    unfolding writes_def using text_frame_refl by blast
  then show ?thesis by (simp add: get_zval_value_def)
qed

section \<open>The markup of the export in HTML\<close>

definition TAGS :: "string list" where
  "TAGS = [''<i>'', ''</i>'', ''<b>'', ''</b>'', ''<small>'', ''</small>'', ''</font>'', ''</pre>'',
     ''<pre class='' @ [CHR 0x27] @ ''xdebug-var-dump'' @ [CHR 0x27] @ '' dir='' @ [CHR 0x27] @ ''ltr'' @ [CHR 0x27] @ ''>''] @
     map (\<lambda>color. ''<font color='' @ [CHR 0x27] @ color @ [CHR 0x27] @ ''>'')
       [COLOR_POINTER, COLOR_BOOL, COLOR_LONG, COLOR_NULL, COLOR_DOUBLE, COLOR_STRING, COLOR_EMPTY, COLOR_ARRAY, COLOR_OBJECT,
        COLOR_RESOURCE]"

definition ENTITIES :: "string list" where
  "ENTITIES = [''&amp;'', ''&gt;'', ''&lt;'', ''&quot;'', ''&#39;'', ''&#10;'', ''&#13;'', ''&#0;'']"

definition plain_char :: "char \<Rightarrow> bool" where
  "plain_char c \<longleftrightarrow> c \<noteq> CHR ''<'' \<and> c \<noteq> CHR ''>'' \<and> c \<noteq> CHR ''&''"

definition markup_free :: "string \<Rightarrow> bool" where
  "markup_free s \<longleftrightarrow> (\<forall>c\<in>set s. plain_char c)"

text \<open>Texts made of the tags of the code, entities, characters that mean nothing in HTML, and the texts of \<open>R\<close>.\<close>

definition html :: "string set \<Rightarrow> string \<Rightarrow> bool" where
  "html R t \<longleftrightarrow> (\<exists>ps. t = concat ps \<and>
     (\<forall>p\<in>set ps. p \<in> set TAGS \<or> p \<in> set ENTITIES \<or> p \<in> R \<or> (\<exists>c. p = [c] \<and> plain_char c)))"

lemma html_append: "html R s \<Longrightarrow> html R t \<Longrightarrow> html R (s @ t)"
  unfolding html_def
proof (elim exE conjE)
  fix ps qs
  assume "s = concat ps" "t = concat qs"
    "\<forall>p\<in>set ps. p \<in> set TAGS \<or> p \<in> set ENTITIES \<or> p \<in> R \<or> (\<exists>c. p = [c] \<and> plain_char c)"
    "\<forall>p\<in>set qs. p \<in> set TAGS \<or> p \<in> set ENTITIES \<or> p \<in> R \<or> (\<exists>c. p = [c] \<and> plain_char c)"
  then show "\<exists>rs. s @ t = concat rs \<and>
      (\<forall>p\<in>set rs. p \<in> set TAGS \<or> p \<in> set ENTITIES \<or> p \<in> R \<or> (\<exists>c. p = [c] \<and> plain_char c))"
    by (intro exI [of _ "ps @ qs"]) auto
qed

interpretation html: text_language "html R" for R
proof
  show "html R []" unfolding html_def by (rule exI [of _ "[]"]) simp
qed (rule html_append)

lemma html_raw: "p \<in> R \<Longrightarrow> html R p"
  unfolding html_def by (rule exI [of _ "[p]"]) auto

lemma html_piece: "p \<in> set TAGS \<or> p \<in> set ENTITIES \<Longrightarrow> html R p"
  unfolding html_def by (rule exI [of _ "[p]"]) auto

lemma html_char: "plain_char c \<Longrightarrow> html R t \<Longrightarrow> html R (c # t)"
proof -
  have "plain_char c \<Longrightarrow> html R [c]" unfolding html_def by (rule exI [of _ "[[c]]"]) auto
  then show "plain_char c \<Longrightarrow> html R t \<Longrightarrow> html R (c # t)" using html.append [of R "[c]" t] by simp
qed

lemma html_plain: "markup_free s \<Longrightarrow> html R s"
  by (induction s) (auto simp: markup_free_def html.empty intro: html_char)

lemma html_start: "p \<in> set TAGS \<or> p \<in> set ENTITIES \<Longrightarrow> html R t \<Longrightarrow> html R (p @ t)"
  by (rule html.append [OF html_piece])

lemma html_tags:
  "html R t \<Longrightarrow> html R (''<i>'' @ t)" "html R t \<Longrightarrow> html R (''</i>'' @ t)" "html R t \<Longrightarrow> html R (''<b>'' @ t)" "html R t \<Longrightarrow> html R (''</b>'' @ t)"
  "html R t \<Longrightarrow> html R (''<small>'' @ t)" "html R t \<Longrightarrow> html R (''</small>'' @ t)" "html R t \<Longrightarrow> html R (''</font>'' @ t)"
  "html R t \<Longrightarrow> html R (''</pre>'' @ t)" "html R t \<Longrightarrow> html R (''&amp;'' @ t)" "html R t \<Longrightarrow> html R (''&gt;'' @ t)"
  by (rule html_start, simp add: TAGS_def ENTITIES_def, assumption)+

lemmas html_scan = html_tags [simplified] html_char html.empty

lemma html_xmlize:
  assumes "replaces lib"
  shows "html R (xmlize lib s)"
proof -
  have "entity c \<in> set ENTITIES \<or> (entity c = [c] \<and> plain_char c)" for c
    by (simp add: entity_def ENTITIES_def plain_char_def)
  then have "html R (entity c)" for c
    using html_piece html_char [of c R "[]"] html.empty by metis
  then have "html R (entities s)" by (induction s) (auto simp: entities_def html.empty intro: html.append)
  then show ?thesis by (simp add: xmlize_entities [OF assms])
qed

lemma html_font:
  assumes "color \<in> {COLOR_POINTER, COLOR_BOOL, COLOR_LONG, COLOR_NULL, COLOR_DOUBLE, COLOR_STRING, COLOR_EMPTY, COLOR_RESOURCE}"
    and "html R t"
  shows "html R (font color t)"
proof -
  have "html R (''<font color='' @ [CHR 0x27] @ color @ [CHR 0x27] @ ''>'')"
    using assms(1) html_piece by (auto simp: TAGS_def)
  moreover have "html R ''</font>''" by (rule html_piece) (simp add: TAGS_def)
  moreover have "font color t = (''<font color='' @ [CHR 0x27] @ color @ [CHR 0x27] @ ''>'') @ t @ ''</font>''"
    by (simp add: font_def)
  ultimately show ?thesis using html.append assms(2) by metis
qed

lemma markup_free_dec_int: "markup_free (dec_int i)"
proof -
  have "markup_free (dec n)" for n
    using dec_isdigit [of _ n] by (fastforce simp: markup_free_def isdigit_def plain_char_def uchar_def)
  then show ?thesis by (simp add: dec_int_def markup_free_def plain_char_def)
qed

lemma html_dec_int: "html R (dec_int i)"
  by (rule html_plain [OF markup_free_dec_int])

lemma html_spaces: "html R (spaces n)"
  by (rule html_plain) (simp add: spaces_def markup_free_def plain_char_def)

lemma markup_free_cstr: "markup_free s \<Longrightarrow> markup_free (cstr s)"
  by (auto simp: markup_free_def cstr_def dest: set_takeWhileD)

lemma html_cstr: "markup_free s \<Longrightarrow> html R (cstr s)"
  by (rule html_plain [OF markup_free_cstr])

lemma html_texts:
  "html R ''=&gt;''" "html R newline" "html R '' ''" "html R [CHR 0x27]" "html R ''true''" "html R ''false''" "html R ''null''"
  "html R ''<small>boolean</small> ''" "html R ''<small>int</small> ''" "html R ''<small>float</small> ''"
  "html R ''<small>string</small> ''"
  "html R ''...''" "html R ''</font>''" "html R '' <i>(length=''" "html R '')</i>''" "html R ''<i>more elements...</i>''"
  "html R ''<b>array</b> <i>(size=''" "html R ''empty''" "html R ''<i>''" "html R ''</i>''" "html R ''<i>&amp;</i><b>array</b>''"
  "html R ''<b>object</b>(<i>''" "html R ''</i>)[<i>''" "html R ''</i>]''" "html R ''<i>&amp;</i>''" "html R ''<b>resource</b>(<i>''"
  "html R '',''" "html R '' <i>''" "html R ''</i>)''" "html R ''*uninitialized*''" "html R ''NFC''" "html R ''<i>public</i> ''"
  "html R ''</i> ''" "html R '' <small>(''" "html R '')</small>''" "html R ''</pre>''" "html R ''...</font>''"
  "html R ''public''" "html R ''protected''" "html R ''private''" "html R ''(refcount=''" "html R '', is_ref=''" "html R ''0''" "html R ''1''"
  "html R '')''" "html R ''(refcount=0, is_ref=0)''" "html R ''Unknown''"
  by (simp_all add: html_scan plain_char_def newline_def)

text \<open>What the export writes as it is: the names of the classes, the names in the keys of the property tables with
  the classes of private ones, and the types of the resources.\<close>

definition raw_key :: "engine \<Rightarrow> pkey \<Rightarrow> string set" where
  "raw_key en k =
     (case k of
        Key_num _ \<Rightarrow> {}
      | Key_str n \<Rightarrow> insert (snd (unmangle en n)) (case fst (unmangle en n) of None \<Rightarrow> {} | Some c \<Rightarrow> {cstr c}))"

definition raw_texts :: "engine \<Rightarrow> heap \<Rightarrow> string set" where
  "raw_texts en h =
     {cstr (class_name obj) | a obj. object_at h a = Some obj} \<union>
     {s. \<exists>a obj adr t e. object_at h a = Some obj \<and> object_table h obj = Some (Some (adr, t)) \<and> e \<in> set t \<and>
        s \<in> raw_key en (fst e)} \<union>
     range (resource_type en)"

definition tables_known :: "heap \<Rightarrow> bool" where
  "tables_known h \<longleftrightarrow> (\<forall>a obj. object_at h a = Some obj \<longrightarrow> (\<exists>adr t. object_table h obj = Some (Some (adr, t))))"

text \<open>A number that PHP prints has no markup.\<close>

definition plain_numbers :: "engine \<Rightarrow> bool" where
  "plain_numbers en \<longleftrightarrow> (\<forall>f. markup_free (format_double en f))"

named_theorems html_intro

lemmas [html_intro] = html.append html_texts html_dec_int html_spaces html_font

lemma html_pointer_ok [html_intro]: "html R html_pointer"
  by (auto simp: html_pointer_def intro!: html_intro)

lemma refcount_html [html_intro]: "html R (refcount_text h z)"
  by (auto simp: refcount_text_def simp del: append.simps intro!: html_intro split: zval.splits)

lemma more_elements_html [html_intro]: "html R (more_elements_fancy l)"
  by (auto simp: more_elements_fancy_def simp del: append.simps intro!: html_intro)

lemma object_label_html:
  assumes "raw_key en k \<subseteq> R"
  shows "\<exists>t. object_element_label_fancy en cls k = Some t \<and> html R t"
proof (cases k)
  case (Key_str n)
  obtain c p where u: "unmangle en n = (c, p)" by force
  then have "p \<in> R" "case c of None \<Rightarrow> True | Some d \<Rightarrow> cstr d \<in> R"
    using assms(1) Key_str by (auto simp: raw_key_def split: option.splits)
  moreover obtain m where m: "get_property_info en n = (p, m, c)" "m \<in> {''public'', ''protected'', ''private''}"
      "m = ''private'' \<longrightarrow> c \<noteq> None"
    using u by (auto simp: get_property_info_def split: option.splits)
  ultimately obtain other where other: "other_class cls (p, m, c) = Some other" "case other of None \<Rightarrow> True | Some d \<Rightarrow> html R d"
    by (cases "m = ''private''") (auto simp: other_class_def html_raw)
  define small where "small = (case other of None \<Rightarrow> [] | Some c \<Rightarrow> '' <small>('' @ c @ '')</small>'')"
  have "html R small"
    using other(2) unfolding small_def by (cases other) (auto simp del: append.simps intro!: html_intro html.empty)
  moreover have "html R m" using m(2) html_texts by auto
  ultimately have "html R (''<i>'' @ m @ ''</i> '' @ [CHR 0x27] @ p @ [CHR 0x27] @ small @ '' '' @ html_pointer)"
    using html_raw [OF \<open>p \<in> R\<close>] by (intro html_intro)
  then show ?thesis using m other(1) Key_str
    by (auto simp: object_element_label_fancy_def Let_def small_def)
next
  case (Key_num i)
  have "html R (''<i>public</i> '' @ dec_int i @ '' '' @ html_pointer)" by (intro html_intro)
  then show ?thesis using Key_num by (simp add: object_element_label_fancy_def)
qed

lemma export_text_html:
  assumes "replaces (en_lib en)" and "text_pages co"
  shows "\<exists>t. export_text_fancy en co s = Some t \<and> html R t"
proof -
  define rest where "rest = '' <i>(length='' @ dec_int (to_int32 (int (length s))) @ '')</i>''"
  have rest: "html R rest" unfolding rest_def by (intro html_intro)
  have font: "html R (''<font color='' @ [CHR 0x27] @ COLOR_STRING @ [CHR 0x27] @ ''>'')"
    by (rule html_piece) (simp add: TAGS_def)
  define start where "start = ''<small>string</small> '' @ (''<font color='' @ [CHR 0x27] @ COLOR_STRING @ [CHR 0x27] @ ''>'') @ [CHR 0x27]"
  have start: "html R start" unfolding start_def by (intro html_intro font)
  have eq: "export_text_fancy en co s = map_option (\<lambda>t. start @ t @ rest)
       (if \<not> data_fits co s
        then map_option (\<lambda>t. t @ [CHR 0x27] @ ''...</font>'') (xmlize_chars en (max_data co) s)
        else Some (xmlize (en_lib en) s @ [CHR 0x27] @ ''</font>''))"
    by (simp add: export_text_fancy_def start_def rest_def)
  have "html R (start @ (xmlize (en_lib en) u @ [CHR 0x27] @ ''</font>'') @ rest)"
      "html R (start @ (xmlize (en_lib en) u @ [CHR 0x27] @ ''...</font>'') @ rest)" for u
    by (intro html_intro start rest html_xmlize [OF assms(1)])+
  moreover have "\<exists>u. read_chars (max_data co) s = Some u" if "\<not> data_fits co s"
    using that assms(2) by (auto simp: read_chars_def data_fits_def text_pages_def)
  ultimately show ?thesis by (auto simp: eq xmlize_chars_def simp del: append_assoc append.simps)
qed

text \<open>Tables, with what stands before them, and the values without children.\<close>

lemma fancy_array_writes:
  assumes "heap_ok h" and "replaces (en_lib en)" and "ht_at h a = Some t" and "text_pages co0" and "html R pre"
    and child: "\<And>z co. int l \<le> max_depth co0 \<Longrightarrow> valid h z \<Longrightarrow> text_frame l co0 co \<Longrightarrow> writes (html R) co (Suc l) (ex z (Suc l))"
  shows "writes (html R) co0 l (fancy_children l (array_element_export_fancy en ex l) h t \<circ> put pre)"
proof -
  have v: "\<forall>e\<in>set t. valid h (snd e)" "length t < 2 ^ 31" using assms(1,3) by (auto simp: heap_ok_def)
  obtain es where es: "foreach_ind h t = Some es" "length es < 2 ^ 31" "\<forall>e\<in>set es. valid h (snd e)"
    using foreach_valid [OF assms(1) v(1)] v(2) by fastforce
  define key where "key = (\<lambda>kv :: pkey \<times> zval. spaces (l * 4 - 2) @ (case fst kv of Key_num i \<Rightarrow> dec_int i @ '' '' @ html_pointer
      | Key_str k \<Rightarrow> [CHR 0x27] @ xmlize (en_lib en) k @ [CHR 0x27] @ '' '' @ html_pointer))"
  have key: "html R (key kv)" for kv
    unfolding key_def by (cases "fst kv") (auto simp del: append.simps intro!: html_intro html_xmlize [OF assms(2)])
  have step: "writes (html R) co (Suc l) (\<lambda>st. ex (snd kv) (Suc l) (put (key kv) st))"
    if "int l \<le> max_depth co0" "kv \<in> set es" "text_frame l co0 co" for kv co
    using es(3) that html.writes_before [OF key child] by blast
  have dots: "html R (spaces (l * 4 - 2) @ ''...'' @ newline)" by (intro html_intro)
  have "array_element_export_fancy en ex l =
      (\<lambda>kv. text_element l (more_elements_fancy l) (\<lambda>st. ex (snd kv) (Suc l) (put (key kv) st)))"
    by (simp add: array_element_export_fancy_def [abs_def] key_def)
  then show ?thesis
    using html.writes_before [OF assms(5) html.fancy_children_writes [OF step more_elements_html assms(4) es(1,2) dots]]
    by (simp add: o_def)
qed

lemma fancy_object_writes:
  assumes "heap_ok h" and "raw_texts en h \<subseteq> R" and "object_at h a = Some obj" and "object_table h obj = Some (Some (adr, t))"
    and "text_pages co0" and "html R pre"
    and child: "\<And>z co. int l \<le> max_depth co0 \<Longrightarrow> valid h z \<Longrightarrow> text_frame l co0 co \<Longrightarrow> writes (html R) co (Suc l) (ex z (Suc l))"
  shows "writes (html R) co0 l (fancy_children l (object_element_export_fancy en ex l (class_name obj)) h t \<circ> put pre)"
proof -
  have keys: "\<forall>e\<in>set t. raw_key en (fst e) \<subseteq> R" using assms(2-4) unfolding raw_texts_def by blast
  have "object_ok h obj" using assms(1,3) unfolding heap_ok_def by blast
  then have v: "\<forall>e\<in>set t. valid h (snd e)" "length t < 2 ^ 30" using assms(4) by (auto simp: object_ok_def)
  obtain es where es: "foreach_ind h t = Some es" "length es < 2 ^ 31" "\<forall>e\<in>set es. valid h (snd e) \<and> raw_key en (fst e) \<subseteq> R"
    using foreach_valid [OF assms(1) v(1)] v(2) keys by fastforce
  have step: "writes (html R) co (Suc l) (\<lambda>st. do {
       label \<leftarrow> object_element_label_fancy en (class_name obj) (fst kv);
       ex (snd kv) (l + 1) (put (spaces (l * 4 - 2) @ label) st)
     })"
    if kv: "int l \<le> max_depth co0" "kv \<in> set es" "text_frame l co0 co" for kv co
  proof -
    obtain label where "object_element_label_fancy en (class_name obj) (fst kv) = Some label" "html R label"
      using object_label_html es(3) kv(2) by blast
    moreover from this(2) have "html R (spaces (l * 4 - 2) @ label)" by (intro html_intro)
    moreover have "valid h (snd kv)" using es(3) kv(2) by blast
    ultimately show ?thesis using html.writes_before [OF _ child [OF kv(1) _ kv(3)]] by simp
  qed
  have dots: "html R (spaces (l * 4 - 2) @ ''...'' @ newline)" by (intro html_intro)
  show ?thesis
    using html.writes_before [OF assms(6) html.fancy_children_writes [OF step more_elements_html assms(5) es(1,2) dots]]
    by (simp add: o_def object_element_export_fancy_def [abs_def])
qed

lemma fancy_scalars:
  assumes "raw_texts en h \<subseteq> R" and "plain_numbers en"
  shows "html R (''<small>int</small> '' @ font COLOR_LONG (dec_int i) @ newline)"
    "html R (''<small>boolean</small> '' @ font COLOR_BOOL ''true'' @ newline)"
    "html R (''<small>boolean</small> '' @ font COLOR_BOOL ''false'' @ newline)"
    "html R (''<small>float</small> '' @ font COLOR_DOUBLE (format_double en f) @ newline)"
    "html R (''<b>resource</b>(<i>'' @ dec_int i @ ''</i>'' @ font COLOR_RESOURCE '','' @ '' <i>'' @ resource_type en i @ ''</i>)'' @ newline)"
    "html R (font COLOR_NULL ''null'' @ newline)" "html R (font COLOR_NULL ''*uninitialized*'' @ newline)"
    "html R (font COLOR_NULL ''NFC'' @ newline)"
    "html R (''<i>&amp;</i><b>array</b>'' @ newline)"
    "html R (''<b>array</b> <i>(size='' @ dec_int i @ '')</i>'' @ newline)"
    "html R (spaces k @ ''<i>'' @ font COLOR_EMPTY ''empty'' @ ''</i>'' @ newline)"
proof -
  have "resource_type en i \<in> R" using assms(1) by (auto simp: raw_texts_def)
  note html_raw [OF this, html_intro]
  have "markup_free (format_double en f)" using assms(2) by (simp add: plain_numbers_def)
  note html_plain [OF this, html_intro]
  show "html R (''<small>int</small> '' @ font COLOR_LONG (dec_int i) @ newline)"
    "html R (''<small>boolean</small> '' @ font COLOR_BOOL ''true'' @ newline)"
    "html R (''<small>boolean</small> '' @ font COLOR_BOOL ''false'' @ newline)"
    "html R (''<small>float</small> '' @ font COLOR_DOUBLE (format_double en f) @ newline)"
    "html R (''<b>resource</b>(<i>'' @ dec_int i @ ''</i>'' @ font COLOR_RESOURCE '','' @ '' <i>'' @ resource_type en i @ ''</i>)'' @ newline)"
    "html R (font COLOR_NULL ''null'' @ newline)" "html R (font COLOR_NULL ''*uninitialized*'' @ newline)"
    "html R (font COLOR_NULL ''NFC'' @ newline)"
    "html R (''<i>&amp;</i><b>array</b>'' @ newline)"
    "html R (''<b>array</b> <i>(size='' @ dec_int i @ '')</i>'' @ newline)"
    "html R (spaces k @ ''<i>'' @ font COLOR_EMPTY ''empty'' @ ''</i>'' @ newline)"
    by (intro html_intro; simp)+
qed

lemma var_export_fancy_writes:
  assumes "heap_ok h" and "raw_texts en h \<subseteq> R" and "replaces (en_lib en)" and "tables_known h" and "plain_numbers en"
  shows "valid h z \<Longrightarrow> text_pages co0 \<Longrightarrow> 0 < n \<Longrightarrow> (int l \<le> max_depth co0 \<Longrightarrow> nat (max_depth co0) + 2 \<le> n + l) \<Longrightarrow>
    writes (html R) co0 l (var_export_fancy en h debug n ap z l)"
proof (induction n arbitrary: ap z l co0)
  case (Suc n)
  obtain y where y: "skip_reference h z = Some y" "valid h y" using skip_valid(2) [OF assms(1) Suc.prems(1)] by blast
  define pre where "pre = (if debug then ''<i>'' @ refcount_text h z @ ''</i>'' else [])"
  have pre: "html R pre" unfolding pre_def by (auto simp: html.empty simp del: append.simps intro!: html_intro)
  define indent where "indent = newline @ spaces ((l - 1) * 4)"
  have indent: "html R indent" unfolding indent_def by (intro html_intro)
  have child: "writes (html R) co (Suc l) (var_export_fancy en h debug n ap z (Suc l))"
    if "int l \<le> max_depth co0" "valid h z" "text_frame l co0 co" for ap z co
  proof (rule Suc.IH [OF that(2) text_frame_pages [OF that(3) Suc.prems(2)]])
    have "max_depth co = max_depth co0" using that(3) by (simp add: text_frame_def frame_def)
    then show "nat (max_depth co) + 2 \<le> n + Suc l" "0 < n" using that(1) Suc.prems(4) by simp_all
  qed
  have scalar: "writes (html R) co0 l (\<lambda>st. Some (put (pre @ t) st))" if "html R t" for t
    by (rule writes_put) (rule html.append [OF pre that])
  note fold = put_put pre_def [symmetric] indent_def Let_def
  have "writes (html R) co0 l (\<lambda>st. var_export_fancy en h debug (Suc n) ap z l st)"
  proof (cases y)
    case (IS_ARRAY a)
    then obtain t where t: "ht_at h a = Some t" using y(2) by (auto simp: valid_def)
    define top where "top = ''<b>array</b> <i>(size='' @ dec_int (to_int32 (int (length t))) @ '')</i>'' @ newline"
    have top: "html R (indent @ top)" unfolding top_def by (intro html.append indent fancy_scalars [OF assms(2,5)])
    have "writes (html R) co0 l (fancy_children l (array_element_export_fancy en (var_export_fancy en h debug n (inc_apply (Some a) ap)) l)
        h t \<circ> put (pre @ indent @ top))"
      using fancy_array_writes [where ex = "var_export_fancy en h debug n (inc_apply (Some a) ap)", OF assms(1,3) t Suc.prems(2) html.append [OF pre top] child] by simp
    moreover note scalar [OF html.append [OF top fancy_scalars(11) [OF assms(2,5), of "l * 4 - 2"]]]
      scalar [OF html.append [OF indent fancy_scalars(9) [OF assms(2,5)]]]
    ultimately show ?thesis
      using IS_ARRAY y(1) t writes_if [of "html R" co0 l _ _ "\<lambda>st. int l \<le> max_depth (fst st) \<and> t = []"]
      by (cases "ap a < 1") (simp_all add: fold top_def o_def del: append.simps One_nat_def)
  next
    case (IS_OBJECT a)
    then obtain obj where obj: "object_at h a = Some obj" using y(2) by (auto simp: valid_def)
    then obtain adr t where t: "object_table h obj = Some (Some (adr, t))" "cstr (class_name obj) \<in> R"
      using assms(2,4) unfolding raw_texts_def tables_known_def by blast
    have head: "html R (fancy_object obj)" unfolding fancy_object_def by (intro html_intro html_raw [OF t(2)])
    have "html R (''<i>&amp;</i>'' @ fancy_object obj)" by (intro html_intro head)
    note scalar [OF html.append [OF indent this]]
    moreover have "writes (html R) co0 l (fancy_children l
        (object_element_export_fancy en (var_export_fancy en h debug n (inc_apply adr ap)) l (class_name obj)) h t \<circ>
        put (pre @ indent @ fancy_object obj))"
      using fancy_object_writes [where ex = "var_export_fancy en h debug n (inc_apply adr ap)", OF assms(1,2) obj t(1) Suc.prems(2) html.append [OF pre html.append [OF indent head]] child] by simp
    ultimately show ?thesis
      using IS_OBJECT y(1) obj t(1)
      by (cases "apply_count ap adr < 1") (simp_all add: fold o_def del: append.simps One_nat_def)
  next
    case (IS_STRING s)
    show ?thesis
      unfolding writes_def
    proof (intro allI impI)
      fix co u
      assume "text_frame l co0 co"
      then have "text_pages co" by (rule text_frame_pages [OF _ Suc.prems(2)])
      from export_text_html [OF assms(3) this] obtain t where t: "export_text_fancy en co s = Some t" "html R t" by blast
      have "html R (pre @ t @ newline)" by (intro html.append pre t(2) html_intro)
      then show "\<exists>co' t. var_export_fancy en h debug (Suc n) ap z l (co, u) = Some (co', u @ t) \<and> text_frame l co co' \<and> html R t"
        using IS_STRING y(1) t(1) by (intro exI [of _ co]) (simp add: fold put_def)
    qed
  qed (use y(1) in \<open>auto simp: fold simp del: append.simps intro!: scalar fancy_scalars [OF assms(2,5)]\<close>)
  then show ?case by simp
qed simp

text \<open>C32: The HTML of a value is always made, for any limits and in every heap, cyclic ones included, whose objects
  have their property tables. It consists of tags of the code, entities and characters that mean nothing in HTML, and
  of a few texts that the code writes as they are: the header with the place, the names of classes and properties
  and the types of resources. So a text or a key of an array cannot add a tag, and these names are all that can.\<close>

theorem html_markup_is_ours:
  assumes "heap_ok h" and "tables_known h" and "replaces (en_lib en)" and "plain_numbers en"
    and "valid h z" and "text_pages co" and "show_location co = Some loc"
    and "(if loc \<and> \<not> debug then fancy_place junk pl else Some []) = Some head"
  shows "\<exists>t. get_zval_value_fancy junk en h pl z debug co = Some t \<and> html (insert head (raw_texts en h)) t"
proof -
  let ?R = "insert head (raw_texts en h)"
  define pre where "pre = ''<pre class='' @ [CHR 0x27] @ ''xdebug-var-dump'' @ [CHR 0x27] @ '' dir='' @ [CHR 0x27] @ ''ltr'' @ [CHR 0x27] @ ''>''"
  have "writes (html ?R) co 1 (var_export_fancy en h debug (text_fuel co) (\<lambda>_. 0) z 1)"
    by (rule var_export_fancy_writes [OF assms(1) _ assms(3,2,4-6)]) (auto simp: text_fuel_def)
  then obtain co' t where t: "var_export_fancy en h debug (text_fuel co) (\<lambda>_. 0) z 1 (co, pre @ head) =
      Some (co', (pre @ head) @ t)" "html ?R t"
    unfolding writes_def using text_frame_refl by blast
  have "html ?R pre" unfolding pre_def by (rule html_piece) (simp add: TAGS_def)
  moreover have "html ?R head" by (rule html_raw) simp
  ultimately have "html ?R (((pre @ head) @ t) @ ''</pre>'')" by (intro html.append t(2) html_intro)
  then show ?thesis using assms(7,8) t(1)
    by (intro exI [of _ "((pre @ head) @ t) @ ''</pre>''"]) (simp add: get_zval_value_fancy_def pre_def)
qed

section \<open>Samples\<close>

text \<open>An engine that writes control characters and the quoting ones as octal numbers, and a page with an array that holds itself.\<close>

definition octal :: "char \<Rightarrow> string" where
  "octal c = (let n = uchar c in CHR 0x5C # map digit_of [n div 64, n div 8 mod 8, n mod 8])"

definition octal_engine :: engine where
  "octal_engine = sample_engine\<lparr>addcslashes := (\<lambda>s _. concat (map (\<lambda>c. if uchar c < 32 \<or> c = CHR 0x27 \<or> c = CHR 0x5C then octal c else [c]) s))\<rparr>"

definition page_object :: php_object where
  "page_object = \<lparr>class_name = ''Page'', obj_handle = 4, obj_properties = Some 1, obj_debug = None\<rparr>"

definition page_heap :: heap where
  "page_heap = sample_heap\<lparr>
     ht_at := [0 \<mapsto> [(Key_str ''<b>'', IS_STRING ''<script>''), (Key_str ''self'', IS_ARRAY 0), (Key_num 2, IS_OBJECT 0)],
               1 \<mapsto> [(Key_str ''title'', IS_STRING [CHR 0x0A, CHR ''&''])]],
     object_at := [0 \<mapsto> page_object], class_at := (\<lambda>_. Some [])\<rparr>"

lemma page_heap_ok: "heap_ok page_heap"
  by (auto simp: heap_ok_def page_heap_def sample_heap_def valid_def object_ok_def page_object_def object_table_def split: if_splits)

lemma page_heap_tables: "tables_known page_heap"
  by (auto simp: tables_known_def page_heap_def sample_heap_def page_object_def object_table_def split: if_splits)

lemma sample_numbers: "plain_numbers sample_engine"
  by (auto simp: plain_numbers_def sample_engine_def markup_free_def plain_char_def)

lemma sample_engine_replaces: "replaces (en_lib sample_engine)"
  by (simp add: sample_engine_def sample_lib_ok)

theorem html_markup_is_ours_witness:
  "\<exists>t. get_zval_value_fancy nul sample_engine page_heap
     \<lparr>pl_file = ''/a.php'', pl_line = 3, pl_filename_format = None, pl_link_format = []\<rparr> (IS_ARRAY 0) True
     (options_from_ini 2 128 512 3) = Some t \<and> html (insert [] (raw_texts sample_engine page_heap)) t"
  by (rule html_markup_is_ours [OF page_heap_ok page_heap_tables sample_engine_replaces sample_numbers _ ini_pages(1)])
    (simp_all add: valid_def page_heap_def options_from_ini_def Let_def)

text \<open>A name of a property is not escaped, so an object made of user input (\<open>json_decode\<close>) writes markup of its own.\<close>

lemma property_name_unescaped:
  assumes "unmangle en n = (None, n)"
  shows "object_element_label_fancy en cls (Key_str n) =
    Some (''<i>public</i> '' @ [CHR 0x27] @ n @ [CHR 0x27] @ '' '' @ html_pointer)"
  using assms by (simp add: object_element_label_fancy_def get_property_info_def other_class_def)

end
