(* ===== verification/Profiler.thy ===== *)
theory Profiler
  imports FuncName OutputName
begin

text \<open>
  The profiler \<open>xdebug_profiler.c\<close>. The times are C doubles: their bits are kept, and the arithmetic and
  the printing of doubles are parameters; the memory is a \<open>long\<close>, kept at its width. The cost of a frame is
  \<open>None\<close> until the profiler has seen the call, a list of calls until it is allocated. The file is the text
  written to it, and opening it succeeds or not as a parameter says. A fault is \<open>None\<close>, the use of an entry of
  the aggregated profile among them.
\<close>

section \<open>Data\<close>

record double_ops =
  d_add :: "u64 \<Rightarrow> u64 \<Rightarrow> u64"
  d_sub :: "u64 \<Rightarrow> u64 \<Rightarrow> u64"
  d_usec :: "u64 \<Rightarrow> string"

record call_entry =
  ent_user_defined :: nat
  ent_filename :: string
  ent_function :: string
  ent_lineno :: int
  ent_time :: u64
  ent_mem :: u64

record profile =
  pr_time :: u64
  pr_mark :: u64
  pr_memory :: u64
  pr_mem_mark :: u64

text \<open>\<open>fse->profile\<close> and \<open>fse->profiler\<close>.\<close>

record prof_name =
  pn_lineno :: int
  pn_filename :: string
  pn_funcname :: string

record prof_data =
  pd_cost :: "profile option"
  pd_calls :: "call_entry list option"
  pd_name :: "prof_name option"

definition no_prof :: prof_data where
  "no_prof = \<lparr>pd_cost = None, pd_calls = None, pd_name = None\<rparr>"

record profiler =
  profiler_enabled :: bool
  profile_file :: "string option"
  profile_filename_refs :: "int xhash"
  profile_last_filename_ref :: int
  profile_functionname_refs :: "int xhash"
  profile_last_functionname_ref :: int

section \<open>Starting\<close>

definition IS_SLASH :: "char \<Rightarrow> bool" where
  "IS_SLASH c \<longleftrightarrow> c = CHR ''/''"

definition profile_header :: "bool \<Rightarrow> string \<Rightarrow> string \<Rightarrow> string" where
  "profile_header append_mode php_version script_name =
     (if append_mode
      then [CHR 0x0A] @ ''==== NEW PROFILING FILE =============================================='' @ [CHR 0x0A] else []) @
     ''version: 1'' @ [CHR 0x0A] @ ''creator: xdebug 2.6.1-dev (PHP '' @ php_version @ '')'' @ [CHR 0x0A] @
     ''cmd: '' @ script_name @ [CHR 0x0A] @ ''part: 1'' @ [CHR 0x0A] @ ''positions: line'' @ [CHR 0x0A, CHR 0x0A] @
     ''events: Time Memory'' @ [CHR 0x0A, CHR 0x0A]"

text \<open>The settings, and opening the file: the text that is in it, when it is opened.\<close>

record profiler_config =
  profiler_output_dir :: string
  profiler_output_name :: string
  profiler_append :: bool
  pc_php_version :: string
  pc_open :: "string \<Rightarrow> bool \<Rightarrow> string option"

definition profiler_init ::
  "char \<Rightarrow> (nat \<Rightarrow> name_env) \<Rightarrow> profiler_config \<Rightarrow> string \<Rightarrow> profiler \<Rightarrow> (bool \<times> profiler) option" where
  "profiler_init junk env cfg script_name p =
     (if profiler_output_name cfg = [] then Some (False, p)
      else do {
        fname \<leftarrow> format_output_filename junk env (profiler_output_name cfg) (Some script_name);
        if str_l fname \<le> 0 then Some (False, p)
        else if profiler_output_dir cfg = [] then None
        else
          (let dir = profiler_output_dir cfg;
               name = (if IS_SLASH (last dir) then dir @ content fname else dir @ ''/'' @ content fname)
           in case pc_open cfg name (profiler_append cfg) of
                None \<Rightarrow> Some (False, p\<lparr>profile_file := None\<rparr>)
              | Some old \<Rightarrow>
                  Some (True, p\<lparr>profile_file :=
                    Some (old @ profile_header (profiler_append cfg) (pc_php_version cfg) script_name)\<rparr>))
      })"

definition fprintf :: "string \<Rightarrow> profiler \<Rightarrow> profiler option" where
  "fprintf s p = map_option (\<lambda>t. p\<lparr>profile_file := Some (t @ s)\<rparr>) (profile_file p)"

section \<open>References to names\<close>

text \<open>The table of the names, the last number, and the text for a name: the number alone if it is known.\<close>

definition name_ref :: "string \<Rightarrow> int xhash \<Rightarrow> int \<Rightarrow> (string \<times> int xhash \<times> int) option" where
  "name_ref name refs final =
     do {
       r \<leftarrow> hash_extended_find (key_create (Some name) 0) refs;
       case r of
         Some nr \<Rightarrow> Some (''('' @ dec_int (to_int32 nr) @ '')'', refs, final)
       | None \<Rightarrow>
           do {
             let final = to_int32 (final + 1);
             refs \<leftarrow> hash_add_or_update (key_create (Some name) 0) final refs;
             Some (''('' @ dec_int final @ '') '' @ name, refs, final)
           }
     }"

definition get_filename_ref :: "string \<Rightarrow> profiler \<Rightarrow> (string \<times> profiler) option" where
  "get_filename_ref name p =
     do {
       (t, refs, final) \<leftarrow> name_ref name (profile_filename_refs p) (profile_last_filename_ref p);
       Some (t, p\<lparr>profile_filename_refs := refs, profile_last_filename_ref := final\<rparr>)
     }"

definition get_functionname_ref :: "string \<Rightarrow> profiler \<Rightarrow> (string \<times> profiler) option" where
  "get_functionname_ref name p =
     do {
       (t, refs, final) \<leftarrow> name_ref name (profile_functionname_refs p) (profile_last_functionname_ref p);
       Some (t, p\<lparr>profile_functionname_refs := refs, profile_last_functionname_ref := final\<rparr>)
     }"

section \<open>Calls\<close>

text \<open>The name in the profile; \<open>opa_line\<close> is the first line of the code of a user function.\<close>

definition details_name :: "function_stack_entry \<Rightarrow> int \<Rightarrow> docref \<Rightarrow> (string \<times> int) option" where
  "details_name fse ln ini =
     do {
       name \<leftarrow> show_fname ini False False (fse_function fse);
       let ty = func_type (fse_function fse);
       let included = (ty = XFUNC_INCLUDE \<or> ty = XFUNC_INCLUDE_ONCE \<or> ty = XFUNC_REQUIRE \<or> ty = XFUNC_REQUIRE_ONCE);
       let ln = (if included then 1 else ln);
       let name = (if included
                   then name @ ''::'' @ (case include_filename fse of None \<Rightarrow> ''(null)'' | Some f \<Rightarrow> f) else name);
       Some (name, if ln = 0 then 1 else ln)
     }"

definition add_function_details_user ::
  "docref \<Rightarrow> function_stack_entry \<Rightarrow> string \<Rightarrow> nat \<Rightarrow> prof_data \<Rightarrow> prof_data option" where
  "add_function_details_user ini fse opa_filename opa_line pd =
     do {
       (name, ln) \<leftarrow> details_name fse (to_int32 (int opa_line)) ini;
       Some (pd\<lparr>pd_name := Some \<lparr>pn_lineno = ln, pn_filename = opa_filename, pn_funcname = name\<rparr>\<rparr>)
     }"

definition add_function_details_internal :: "docref \<Rightarrow> function_stack_entry \<Rightarrow> prof_data \<Rightarrow> prof_data option" where
  "add_function_details_internal ini fse pd =
     do {
       (name, ln) \<leftarrow> details_name fse (fse_lineno fse) ini;
       file \<leftarrow> fse_filename fse;
       Some (pd\<lparr>pd_name := Some \<lparr>pn_lineno = ln, pn_filename = file, pn_funcname = name\<rparr>\<rparr>)
     }"

definition free_function_details :: "prof_data \<Rightarrow> prof_data" where
  "free_function_details pd = pd\<lparr>pd_name := None\<rparr>"

definition function_begin :: "u64 \<Rightarrow> u64 \<Rightarrow> prof_data \<Rightarrow> prof_data" where
  "function_begin now mem pd =
     pd\<lparr>pd_cost := Some \<lparr>pr_time = 0, pr_mark = now, pr_memory = 0, pr_mem_mark = mem\<rparr>\<rparr>"

definition function_push :: "double_ops \<Rightarrow> u64 \<Rightarrow> u64 \<Rightarrow> profile \<Rightarrow> profile" where
  "function_push ops now mem c =
     \<lparr>pr_time = d_sub ops (d_add ops (pr_time c) now) (pr_mark c), pr_mark = 0,
      pr_memory = pr_memory c + mem - pr_mem_mark c, pr_mem_mark = 0\<rparr>"

definition function_continue :: "u64 \<Rightarrow> prof_data \<Rightarrow> prof_data" where
  "function_continue now pd = pd\<lparr>pd_cost := map_option (\<lambda>c. c\<lparr>pr_mark := now\<rparr>) (pd_cost pd)\<rparr>"

definition function_pause :: "double_ops \<Rightarrow> u64 \<Rightarrow> u64 \<Rightarrow> prof_data \<Rightarrow> prof_data" where
  "function_pause ops now mem pd = pd\<lparr>pd_cost := map_option (function_push ops now mem) (pd_cost pd)\<rparr>"

text \<open>The two lines with the file and the name of a function, for a frame (no prefix) and for a call.\<close>

definition ref_lines :: "string \<Rightarrow> nat \<Rightarrow> string \<Rightarrow> string \<Rightarrow> profiler \<Rightarrow> profiler option" where
  "ref_lines pre ud file name p =
     do {
       (fl, p) \<leftarrow> get_filename_ref (if ud = XDEBUG_INTERNAL then ''php:internal'' else file) p;
       (fn, p) \<leftarrow> get_functionname_ref (if ud = XDEBUG_INTERNAL then ''php::'' @ name else name) p;
       fprintf (pre @ ''fl='' @ fl @ [CHR 0x0A] @ pre @ ''fn='' @ fn @ [CHR 0x0A]) p
     }"

definition cost_line :: "double_ops \<Rightarrow> int \<Rightarrow> u64 \<Rightarrow> u64 \<Rightarrow> string" where
  "cost_line ops ln time mem = dec_int ln @ '' '' @ d_usec ops time @ '' '' @ dec_int (sint mem) @ [CHR 0x0A]"

definition subtract_call :: "double_ops \<Rightarrow> call_entry \<Rightarrow> profile \<Rightarrow> profile" where
  "subtract_call ops e c = c\<lparr>pr_time := d_sub ops (pr_time c) (ent_time e), pr_memory := pr_memory c - ent_mem e\<rparr>"

fun dump_calls :: "double_ops \<Rightarrow> call_entry list \<Rightarrow> profiler \<Rightarrow> profiler option" where
  "dump_calls ops [] p = Some p"
| "dump_calls ops (e # es) p =
     do {
       p \<leftarrow> ref_lines ''c'' (ent_user_defined e) (ent_filename e) (ent_function e) p;
       p \<leftarrow> fprintf (''calls=1 0 0'' @ [CHR 0x0A] @ cost_line ops (ent_lineno e) (ent_time e) (ent_mem e)) p;
       dump_calls ops es p
     }"

text \<open>The end of a call, with the readings of clock and memory; \<open>caller\<close> is the data of the caller.\<close>

definition function_end ::
  "double_ops \<Rightarrow> bool \<Rightarrow> u64 \<Rightarrow> u64 \<Rightarrow> function_stack_entry \<Rightarrow> prof_data \<Rightarrow> prof_data option \<Rightarrow> profiler \<Rightarrow>
   (prof_data \<times> prof_data option \<times> profiler) option" where
  "function_end ops aggregate now mem fse pd caller p =
     do {
       c \<leftarrow> pd_cost pd;
       n \<leftarrow> pd_name pd;
       let calls = (case pd_calls pd of None \<Rightarrow> [] | Some es \<Rightarrow> es);
       let c = function_push ops now mem c;
       let caller = map_option (\<lambda>q. q\<lparr>pd_calls := Some ((case pd_calls q of None \<Rightarrow> [] | Some es \<Rightarrow> es) @
               [\<lparr>ent_user_defined = user_defined fse, ent_filename = pn_filename n, ent_function = pn_funcname n,
                 ent_lineno = fse_lineno fse, ent_time = pr_time c, ent_mem = pr_memory c\<rparr>])\<rparr>) caller;
       p \<leftarrow> ref_lines [] (user_defined fse) (pn_filename n) (pn_funcname n) p;
       p \<leftarrow> (if func_function (fse_function fse) = Some ''{main}''
             then map_option (\<lambda>p. p\<lparr>profiler_enabled := False\<rparr>)
                    (fprintf ([CHR 0x0A] @ ''summary: '' @ d_usec ops (pr_time c) @ '' '' @ dec (unat (pr_memory c)) @
                       [CHR 0x0A, CHR 0x0A]) p)
             else Some p);
       if aggregate then None
       else do {
         let c = fold (subtract_call ops) calls c;
         p \<leftarrow> fprintf (cost_line ops (pn_lineno n) (pr_time c) (pr_memory c)) p;
         p \<leftarrow> dump_calls ops calls p;
         p \<leftarrow> fprintf [CHR 0x0A] p;
         Some (pd\<lparr>pd_cost := Some c, pd_calls := Some calls\<rparr>, caller, p)
       }
     }"


section \<open>Reading names back\<close>

text \<open>What a reader of the profile does with a reference: a number with a name defines it, one alone uses it.\<close>

definition read_ref :: "string \<Rightarrow> (int \<Rightarrow> string option) \<Rightarrow> string option \<times> (int \<Rightarrow> string option)" where
  "read_ref t m =
     (case split_at (CHR '')'') t of
        (nr, Some (_ # name)) \<Rightarrow> (Some name, m(atoi (tl nr) \<mapsto> name))
      | (nr, _) \<Rightarrow> (m (atoi (tl nr)), m))"

fun read_refs :: "string list \<Rightarrow> (int \<Rightarrow> string option) \<Rightarrow> string option list" where
  "read_refs [] m = []"
| "read_refs (t # ts) m = (let (n, m) = read_ref t m in n # read_refs ts m)"

fun write_refs :: "string list \<Rightarrow> profiler \<Rightarrow> (string list \<times> profiler) option" where
  "write_refs [] p = Some ([], p)"
| "write_refs (n # ns) p =
     do { (t, p) \<leftarrow> get_functionname_ref n p; (ts, p) \<leftarrow> write_refs ns p; Some (t # ts, p) }"

text \<open>A table whose numbers run up to the last one, each used once.\<close>

definition refs_ok :: "int xhash \<Rightarrow> int \<Rightarrow> bool" where
  "refs_ok refs final \<longleftrightarrow>
     hash_inv refs \<and> 0 \<le> final \<and>
     (\<forall>k nr. abs_hash refs k = Some nr \<longrightarrow> 0 < nr \<and> nr \<le> final) \<and>
     (\<forall>k k' nr. abs_hash refs k = Some nr \<longrightarrow> abs_hash refs k' = Some nr \<longrightarrow> k = k')"

text \<open>The reader knows of each number in the table its name.\<close>

definition reader_knows :: "int xhash \<Rightarrow> (int \<Rightarrow> string option) \<Rightarrow> bool" where
  "reader_knows refs m \<longleftrightarrow> (\<forall>n nr. abs_hash refs (Key_string n) = Some nr \<longrightarrow> m nr = Some n)"

lemma key_create_Some [simp]: "key_create (Some n) 0 = Key_string n"
  by (simp add: key_create_def)

lemma name_ref_ok:
  assumes "refs_ok refs final" and "name \<noteq> []" and "final < 2 ^ 31 - 1"
  shows "\<exists>t refs' final'. name_ref name refs final = Some (t, refs', final') \<and> refs_ok refs' final' \<and>
    final' \<le> final + 1 \<and>
    (reader_knows refs m \<longrightarrow> fst (read_ref t m) = Some name \<and> reader_knows refs' (snd (read_ref t m)))"
proof -
  have inv: "hash_inv refs" and k: "key_ok (Key_string name)" and f0: "0 \<le> final"
    using assms by (simp_all add: refs_ok_def key_ok_def)
  have split: "split_at (CHR '')'') (''('' @ dec_int nr @ '')'' @ u) = (''('' @ dec_int nr, Some u)" if "0 \<le> nr" for nr u
  proof -
    have "CHR '')'' \<notin> set (''('' @ dec_int nr)"
      using that dec_isdigit [of "CHR '')''" "nat nr"] by (auto simp: dec_int_def isdigit_def uchar_def)
    then show ?thesis using split_at_append [of "CHR '')''" "''('' @ dec_int nr" u] by simp
  qed
  have num: "atoi (dec_int nr) = nr" if "0 \<le> nr" "nr < 2 ^ 31" for nr
    using that atoi_dec [of "nat nr" "[]"] by (simp add: dec_int_def)
  show ?thesis
  proof (cases "abs_hash refs (Key_string name)")
    case (Some nr)
    then have nr: "0 < nr" "nr < 2 ^ 31" using assms(1,3) by (force simp: refs_ok_def)+
    have "name_ref name refs final = Some (''('' @ dec_int nr @ '')'', refs, final)"
      using xh.find [OF inv k] Some nr by (simp add: name_ref_def to_int32_id)
    moreover have "read_ref (''('' @ dec_int nr @ '')'') m = (m nr, m)"
      using split [of nr "[]"] num [of nr] nr by (simp add: read_ref_def)
    ultimately show ?thesis using assms(1) Some f0 by (auto simp: reader_knows_def)
  next
    case None
    have f: "to_int32 (final + 1) = final + 1" using assms(3) f0 by (simp add: to_int32_id)
    obtain refs' where r: "hash_add_or_update (Key_string name) (final + 1) refs = Some refs'" "hash_inv refs'"
      "abs_hash refs' = (abs_hash refs)(Key_string name \<mapsto> final + 1)"
      using xh.add [OF inv k] by blast
    have "name_ref name refs final = Some (''('' @ dec_int (final + 1) @ '') '' @ name, refs', final + 1)"
      using xh.find [OF inv k] None r(1) by (simp add: name_ref_def f Let_def)
    moreover have ok: "refs_ok refs' (final + 1)"
      using assms(1) r(2,3) by (force simp: refs_ok_def split: if_splits)
    moreover have "read_ref (''('' @ dec_int (final + 1) @ '') '' @ name) m = (Some name, m(final + 1 \<mapsto> name))"
      using split [of "final + 1" "'' '' @ name"] num [of "final + 1"] assms(3) f0 by (simp add: read_ref_def)
    moreover have "reader_knows refs' (m(final + 1 \<mapsto> name))" if "reader_knows refs m"
      using that r(3) assms(1) by (force simp: reader_knows_def refs_ok_def split: if_splits)
    ultimately show ?thesis by auto
  qed
qed


lemma write_refs_read:
  assumes "refs_ok (profile_functionname_refs p) (profile_last_functionname_ref p)" and "[] \<notin> set names"
    and "profile_last_functionname_ref p + int (length names) < 2 ^ 31" and "reader_knows (profile_functionname_refs p) m"
  shows "\<exists>ts p'. write_refs names p = Some (ts, p') \<and> read_refs ts m = map Some names"
  using assms
proof (induction names arbitrary: p m)
  case (Cons n ns)
  obtain t refs final where r: "name_ref n (profile_functionname_refs p) (profile_last_functionname_ref p) = Some (t, refs, final)"
      "refs_ok refs final" "final \<le> profile_last_functionname_ref p + 1"
      "fst (read_ref t m) = Some n" "reader_knows refs (snd (read_ref t m))"
    using name_ref_ok [of "profile_functionname_refs p" "profile_last_functionname_ref p" n m] Cons.prems by auto
  let ?p = "p\<lparr>profile_functionname_refs := refs, profile_last_functionname_ref := final\<rparr>"
  obtain ts p' where "write_refs ns ?p = Some (ts, p')" "read_refs ts (snd (read_ref t m)) = map Some ns"
    using Cons.IH [of ?p "snd (read_ref t m)"] Cons.prems(2,3) r by auto
  then show ?case using r(1,4)
    by (auto simp: get_functionname_ref_def case_prod_unfold Let_def)
qed simp

definition new_profiler :: profiler where
  "new_profiler =
     \<lparr>profiler_enabled = False, profile_file = None, profile_filename_refs = hash_alloc 128 False,
      profile_last_filename_ref = 0, profile_functionname_refs = hash_alloc 128 False, profile_last_functionname_ref = 0\<rparr>"

lemma refs_ok_new: "refs_ok (hash_alloc 128 False) 0" and reader_knows_new: "reader_knows (hash_alloc 128 False) m"
  by (simp_all add: refs_ok_def reader_knows_def hash_alloc_ok)

text \<open>C21: however often and in whatever order functions are named in a profile, a reader that resolves the
  numbers gets back exactly their names.\<close>

theorem profile_names_roundtrip:
  assumes "[] \<notin> set names" and "length names < 2 ^ 31"
  shows "\<exists>ts p. write_refs names new_profiler = Some (ts, p) \<and> read_refs ts Map.empty = map Some names"
  using write_refs_read [of new_profiler names Map.empty] assms refs_ok_new reader_knows_new
  by (simp add: new_profiler_def)

theorem profile_names_roundtrip_witness:
  "\<exists>ts p. write_refs [''main'', ''a)'', ''main''] new_profiler = Some (ts, p) \<and>
     read_refs ts Map.empty = [Some ''main'', Some ''a)'', Some ''main'']"
  using profile_names_roundtrip [of "[''main'', ''a)'', ''main'']"] by simp

section \<open>Costs\<close>

text \<open>A call with the memory and clock readings at its beginning and end, and the calls it makes.\<close>

datatype cost_tree =
  Cost_node (node_fse: function_stack_entry) (node_name: prof_name) (node_begin: "u64 \<times> u64") (node_end: "u64 \<times> u64")
    (node_calls: "cost_tree list")

fun profile_call ::
  "double_ops \<Rightarrow> cost_tree \<Rightarrow> prof_data option \<Rightarrow> profiler \<Rightarrow> (profile list \<times> prof_data option \<times> profiler) option"
and profile_calls ::
  "double_ops \<Rightarrow> cost_tree list \<Rightarrow> prof_data option \<Rightarrow> profiler \<Rightarrow> (profile list \<times> prof_data option \<times> profiler) option"
where
  "profile_call ops (Cost_node fse n start stop calls) caller p =
     do {
       (own, pd, p) \<leftarrow> profile_calls ops calls
           (Some (function_begin (fst start) (snd start) (no_prof\<lparr>pd_name := Some n\<rparr>))) p;
       pd \<leftarrow> pd;
       (pd, caller, p) \<leftarrow> function_end ops False (fst stop) (snd stop) fse pd caller p;
       c \<leftarrow> pd_cost pd;
       Some (own @ [c], caller, p)
     }"
| "profile_calls ops [] caller p = Some ([], caller, p)"
| "profile_calls ops (t # ts) caller p =
     do {
       (own, caller, p) \<leftarrow> profile_call ops t caller p;
       (owns, caller, p) \<leftarrow> profile_calls ops ts caller p;
       Some (own @ owns, caller, p)
     }"

definition node_memory :: "cost_tree \<Rightarrow> u64" where
  "node_memory t = snd (node_end t) - snd (node_begin t)"

text \<open>Every frame of a tree has a name and a file.\<close>

fun named_tree :: "cost_tree \<Rightarrow> bool" where
  "named_tree (Cost_node fse n start stop calls) \<longleftrightarrow>
     pn_funcname n \<noteq> [] \<and> pn_filename n \<noteq> [] \<and> (\<forall>t \<in> set calls. named_tree t)"

fun tree_size :: "cost_tree \<Rightarrow> nat" where
  "tree_size (Cost_node fse n start stop calls) = Suc (sum_list (map tree_size calls))"


text \<open>How many references of one kind the profile of a tree writes at most.\<close>

fun refs_used :: "cost_tree \<Rightarrow> nat" where
  "refs_used (Cost_node fse n start stop calls) = Suc (length calls + sum_list (map refs_used calls))"

definition prof_ok :: "nat \<Rightarrow> profiler \<Rightarrow> bool" where
  "prof_ok k p \<longleftrightarrow>
     profile_file p \<noteq> None \<and>
     refs_ok (profile_filename_refs p) (profile_last_filename_ref p) \<and> profile_last_filename_ref p + int k < 2 ^ 31 \<and>
     refs_ok (profile_functionname_refs p) (profile_last_functionname_ref p) \<and>
     profile_last_functionname_ref p + int k < 2 ^ 31"

definition entry_ok :: "call_entry \<Rightarrow> bool" where
  "entry_ok e \<longleftrightarrow> ent_filename e \<noteq> [] \<and> ent_function e \<noteq> []"

lemma fprintf_ok: "prof_ok k p \<Longrightarrow> \<exists>p'. fprintf s p = Some p' \<and> prof_ok k p'"
  by (auto simp: prof_ok_def fprintf_def)

lemma name_ref_returns:
  assumes "refs_ok refs final" and "name \<noteq> []" and "final + int (Suc k) < 2 ^ 31"
  shows "\<exists>t refs' final'. name_ref name refs final = Some (t, refs', final') \<and> refs_ok refs' final' \<and>
    final' + int k < 2 ^ 31"
  using name_ref_ok [OF assms(1,2), of Map.empty] assms(3) by fastforce

lemma ref_lines_ok:
  assumes "prof_ok (Suc k) p" and "file \<noteq> []" and "name \<noteq> []"
  shows "\<exists>p'. ref_lines pre ud file name p = Some p' \<and> prof_ok k p'"
proof -
  let ?fl = "if ud = XDEBUG_INTERNAL then ''php:internal'' else file"
  let ?fn = "if ud = XDEBUG_INTERNAL then ''php::'' @ name else name"
  have ne: "?fl \<noteq> []" "?fn \<noteq> []" using assms(2,3) by simp_all
  have p: "refs_ok (profile_filename_refs p) (profile_last_filename_ref p)" "profile_last_filename_ref p + int (Suc k) < 2 ^ 31"
      "refs_ok (profile_functionname_refs p) (profile_last_functionname_ref p)"
      "profile_last_functionname_ref p + int (Suc k) < 2 ^ 31"
    using assms(1) by (simp_all add: prof_ok_def)
  obtain t r f where 1: "name_ref ?fl (profile_filename_refs p) (profile_last_filename_ref p) = Some (t, r, f)"
      "refs_ok r f" "f + int k < 2 ^ 31"
    using name_ref_returns [OF p(1) ne(1) p(2)] by blast
  obtain t' r' f' where 2: "name_ref ?fn (profile_functionname_refs p) (profile_last_functionname_ref p) = Some (t', r', f')"
      "refs_ok r' f'" "f' + int k < 2 ^ 31"
    using name_ref_returns [OF p(3) ne(2) p(4)] by blast
  show ?thesis using 1 2 assms(1)
    by (auto simp: ref_lines_def get_filename_ref_def get_functionname_ref_def fprintf_def prof_ok_def)
qed

lemma dump_calls_ok:
  "prof_ok (length es + k) p \<Longrightarrow> \<forall>e \<in> set es. entry_ok e \<Longrightarrow> \<exists>p'. dump_calls ops es p = Some p' \<and> prof_ok k p'"
proof (induction es arbitrary: p)
  case (Cons e es)
  obtain p1 where 1: "ref_lines ''c'' (ent_user_defined e) (ent_filename e) (ent_function e) p = Some p1"
      "prof_ok (length es + k) p1"
    using ref_lines_ok [of "length es + k" p "ent_filename e" "ent_function e" "''c''" "ent_user_defined e"] Cons.prems
    by (auto simp: entry_ok_def)
  obtain p2 where 2: "fprintf (''calls=1 0 0'' @ [CHR 0x0A] @ cost_line ops (ent_lineno e) (ent_time e) (ent_mem e)) p1 = Some p2"
      "prof_ok (length es + k) p2"
    using fprintf_ok [OF 1(2)] by blast
  show ?case using Cons.IH [OF 2(2)] Cons.prems(2) 1(1) 2(1) by simp
qed simp

lemma subtract_calls_memory:
  "pr_memory (fold (subtract_call ops) es c) = pr_memory c - sum_list (map ent_mem es)"
  by (induction es arbitrary: c) (simp_all add: subtract_call_def)

definition calls_of :: "prof_data \<Rightarrow> call_entry list" where
  "calls_of pd = (case pd_calls pd of None \<Rightarrow> [] | Some es \<Rightarrow> es)"

definition add_entry :: "call_entry \<Rightarrow> prof_data \<Rightarrow> prof_data" where
  "add_entry e q = q\<lparr>pd_calls := Some (calls_of q @ [e])\<rparr>"

lemma function_end_ok:
  assumes "pd_cost pd = Some c" and "pd_name pd = Some n" and "pn_funcname n \<noteq> []" and "pn_filename n \<noteq> []"
    and "prof_ok (Suc (length (calls_of pd) + k)) p" and "\<forall>e \<in> set (calls_of pd). entry_ok e"
  shows "\<exists>e c' p'. function_end ops False now mem fse pd caller p =
      Some (pd\<lparr>pd_cost := Some c', pd_calls := Some (calls_of pd)\<rparr>, map_option (add_entry e) caller, p') \<and>
    prof_ok k p' \<and> entry_ok e \<and> ent_mem e = pr_memory c + mem - pr_mem_mark c \<and>
    pr_memory c' = ent_mem e - sum_list (map ent_mem (calls_of pd))"
proof -
  let ?c = "function_push ops now mem c"
  let ?c' = "fold (subtract_call ops) (calls_of pd) ?c"
  let ?e = "\<lparr>ent_user_defined = user_defined fse, ent_filename = pn_filename n, ent_function = pn_funcname n,
             ent_lineno = fse_lineno fse, ent_time = pr_time ?c, ent_mem = pr_memory ?c\<rparr>"
  let ?summary = "[CHR 0x0A] @ ''summary: '' @ d_usec ops (pr_time ?c) @ '' '' @ dec (unat (pr_memory ?c)) @ [CHR 0x0A, CHR 0x0A]"
  obtain p1 where 1: "ref_lines [] (user_defined fse) (pn_filename n) (pn_funcname n) p = Some p1"
      "prof_ok (length (calls_of pd) + k) p1"
    using ref_lines_ok [OF assms(5,4,3)] by blast
  have "\<exists>p2. (if func_function (fse_function fse) = Some ''{main}''
              then map_option (\<lambda>p. p\<lparr>profiler_enabled := False\<rparr>) (fprintf ?summary p1) else Some p1) = Some p2 \<and>
            prof_ok (length (calls_of pd) + k) p2"
    using fprintf_ok [OF 1(2), of ?summary] 1(2) by (auto simp: prof_ok_def)
  then obtain p2 where 2: "(if func_function (fse_function fse) = Some ''{main}''
      then map_option (\<lambda>p. p\<lparr>profiler_enabled := False\<rparr>) (fprintf ?summary p1) else Some p1) = Some p2"
      "prof_ok (length (calls_of pd) + k) p2" by blast
  obtain p3 where 3: "fprintf (cost_line ops (pn_lineno n) (pr_time ?c') (pr_memory ?c')) p2 = Some p3"
      "prof_ok (length (calls_of pd) + k) p3"
    using fprintf_ok [OF 2(2)] by blast
  obtain p4 where 4: "dump_calls ops (calls_of pd) p3 = Some p4" "prof_ok k p4"
    using dump_calls_ok [OF 3(2) assms(6)] by blast
  obtain p5 where 5: "fprintf [CHR 0x0A] p4 = Some p5" "prof_ok k p5" using fprintf_ok [OF 4(2)] by blast
  have "function_end ops False now mem fse pd caller p =
      Some (pd\<lparr>pd_cost := Some ?c', pd_calls := Some (calls_of pd)\<rparr>, map_option (add_entry ?e) caller, p5)"
    using assms(1,2) 1(1) 2(1) 3(1) 4(1) 5(1)
    by (simp add: function_end_def Let_def calls_of_def add_entry_def cong: option.map_cong)
  moreover have "entry_ok ?e" using assms(3,4) by (simp add: entry_ok_def)
  moreover have "ent_mem ?e = pr_memory c + mem - pr_mem_mark c" by (simp add: function_push_def)
  moreover have "pr_memory ?c' = ent_mem ?e - sum_list (map ent_mem (calls_of pd))"
    by (simp add: subtract_calls_memory)
  ultimately show ?thesis using 5(2) by blast
qed


text \<open>A call and the calls one after the other that a frame makes: the costs of all frames add up to what was
  spent, and the caller's list grows by one entry for each call with what was spent in it.\<close>

definition grown :: "prof_data \<Rightarrow> call_entry list \<Rightarrow> prof_data" where
  "grown q es = (if es = [] then q else q\<lparr>pd_calls := Some (calls_of q @ es)\<rparr>)"

lemma grown_simps [simp]:
  "pd_cost (grown q es) = pd_cost q" "pd_name (grown q es) = pd_name q" "calls_of (grown q es) = calls_of q @ es"
  by (simp_all add: grown_def calls_of_def)

lemma grown_add: "grown (grown q [e]) es = grown q (e # es)"
  by (simp add: grown_def calls_of_def)

lemma add_entry_grown: "add_entry e q = grown q [e]"
  by (simp add: add_entry_def grown_def)

lemma profile_call_ok:
  "named_tree t \<Longrightarrow> prof_ok (refs_used t + k) p \<Longrightarrow>
   \<exists>own e p'. profile_call ops t caller p = Some (own, map_option (add_entry e) caller, p') \<and> prof_ok k p' \<and>
     entry_ok e \<and> ent_mem e = node_memory t \<and> sum_list (map pr_memory own) = node_memory t \<and> length own = tree_size t"
  "\<forall>t \<in> set ts. named_tree t \<Longrightarrow> prof_ok (sum_list (map refs_used ts) + k) p \<Longrightarrow>
   \<exists>own es p'. profile_calls ops ts caller p = Some (own, map_option (\<lambda>q. grown q es) caller, p') \<and> prof_ok k p' \<and>
     (\<forall>e \<in> set es. entry_ok e) \<and> length es = length ts \<and>
     sum_list (map ent_mem es) = sum_list (map node_memory ts) \<and>
     sum_list (map pr_memory own) = sum_list (map node_memory ts) \<and> length own = sum_list (map tree_size ts)"
proof (induction ops t caller p and ops ts caller p arbitrary: k and k rule: profile_call_profile_calls.induct)
  case (1 ops fse n start stop calls caller p)
  let ?pd = "function_begin (fst start) (snd start) (no_prof\<lparr>pd_name := Some n\<rparr>)"
  have pd: "pd_cost ?pd = Some \<lparr>pr_time = 0, pr_mark = fst start, pr_memory = 0, pr_mem_mark = snd start\<rparr>"
      "pd_name ?pd = Some n" "calls_of ?pd = []"
    by (simp_all add: function_begin_def no_prof_def calls_of_def)
  have named: "\<forall>t \<in> set calls. named_tree t" "pn_funcname n \<noteq> []" "pn_filename n \<noteq> []"
    using "1.prems"(1) by simp_all
  have ok: "prof_ok (sum_list (map refs_used calls) + Suc (length calls + k)) p"
    using "1.prems"(2) by (simp add: ac_simps)
  obtain own es p1 where r: "profile_calls ops calls (Some ?pd) p = Some (own, Some (grown ?pd es), p1)"
      "prof_ok (Suc (length es + k)) p1" "\<forall>e \<in> set es. entry_ok e" "length es = length calls"
      "sum_list (map ent_mem es) = sum_list (map node_memory calls)"
      "sum_list (map pr_memory own) = sum_list (map node_memory calls)" "length own = sum_list (map tree_size calls)"
    using "1.IH"(1) [OF named(1) ok] by auto
  obtain e c' p2 where e: "function_end ops False (fst stop) (snd stop) fse (grown ?pd es) caller p1 =
        Some ((grown ?pd es)\<lparr>pd_cost := Some c', pd_calls := Some (calls_of (grown ?pd es))\<rparr>, map_option (add_entry e) caller, p2)"
      "prof_ok k p2" "entry_ok e" "ent_mem e = snd stop - snd start"
      "pr_memory c' = ent_mem e - sum_list (map ent_mem es)"
    using function_end_ok [of "grown ?pd es" _ n k p1 ops "fst stop" "snd stop" fse caller] pd named(2,3) r(2,3) by auto
  have "profile_call ops (Cost_node fse n start stop calls) caller p = Some (own @ [c'], map_option (add_entry e) caller, p2)"
    using r(1) e(1) by simp
  moreover have "sum_list (map pr_memory (own @ [c'])) = snd stop - snd start"
    using r(5,6) e(4,5) by simp
  ultimately show ?case using e(2-4) r(7) by (auto simp: node_memory_def)
next
  case (2 ops caller p)
  then show ?case by (auto simp: grown_def option.map_ident intro!: exI [of _ "[]"])
next
  case (3 ops t ts caller p)
  have ok: "prof_ok (refs_used t + (sum_list (map refs_used ts) + k)) p" using "3.prems"(2) by (simp add: add.assoc)
  obtain own e p1 where t: "profile_call ops t caller p = Some (own, map_option (add_entry e) caller, p1)"
      "prof_ok (sum_list (map refs_used ts) + k) p1" "entry_ok e" "ent_mem e = node_memory t"
      "sum_list (map pr_memory own) = node_memory t" "length own = tree_size t"
    using "3.IH"(1) [OF _ ok] "3.prems"(1) by auto
  obtain owns es p2 where ts: "profile_calls ops ts (map_option (add_entry e) caller) p1 =
        Some (owns, map_option (\<lambda>q. grown q es) (map_option (add_entry e) caller), p2)" "prof_ok k p2"
      "\<forall>e \<in> set es. entry_ok e" "length es = length ts" "sum_list (map ent_mem es) = sum_list (map node_memory ts)"
      "sum_list (map pr_memory owns) = sum_list (map node_memory ts)" "length owns = sum_list (map tree_size ts)"
    using "3.IH"(2) [OF t(1) refl refl _ t(2)] "3.prems"(1) by auto
  have "map_option (\<lambda>q. grown q es) (map_option (add_entry e) caller) = map_option (\<lambda>q. grown q (e # es)) caller"
    by (cases caller) (simp_all add: add_entry_grown grown_add)
  then have "profile_calls ops (t # ts) caller p = Some (own @ owns, map_option (\<lambda>q. grown q (e # es)) caller, p2)"
    using t(1) ts(1) by simp
  then show ?case using t(3-6) ts(2-7) by (intro exI [of _ "own @ owns"] exI [of _ "e # es"] exI [of _ p2]) auto
qed

text \<open>the profile of a tree of calls loses no memory and counts none twice: the costs printed for the
  frames add up to what was allocated between the begin and the end of the outermost call, at the width of the
  counters.\<close>

lemma profile_costs_conserved:
  assumes "named_tree t" and "refs_used t < 2 ^ 31"
  shows "\<exists>own p. profile_call ops t None (new_profiler\<lparr>profile_file := Some h\<rparr>) = Some (own, None, p) \<and>
    length own = tree_size t \<and> sum_list (map pr_memory own) = snd (node_end t) - snd (node_begin t)"
  using profile_call_ok(1) [of t 0 "new_profiler\<lparr>profile_file := Some h\<rparr>" ops None] assms refs_ok_new
  by (auto simp: prof_ok_def new_profiler_def node_memory_def)

definition prof_frame :: "string \<Rightarrow> nat \<Rightarrow> function_stack_entry" where
  "prof_frame name ud =
     \<lparr>fse_function = \<lparr>func_class = None, func_function = Some name, func_type = XFUNC_NORMAL\<rparr>,
      user_defined = ud, fse_level = 1, fse_filename = Some ''/a.php'', fse_lineno = 3,
      include_filename = None, function_nr = 0, filtered_tracing = 0, filtered_code_coverage = 0, declared_vars = None,
      fse_execute_data = None, fse_symbol_table = None, fse_this = None\<rparr>"

definition sample_tree :: cost_tree where
  "sample_tree =
     Cost_node (prof_frame ''{main}'' XDEBUG_EXTERNAL) \<lparr>pn_lineno = 1, pn_filename = ''/a.php'', pn_funcname = ''{main}''\<rparr>
       (0, 1000) (9, 700)
       [Cost_node (prof_frame ''system'' XDEBUG_INTERNAL) \<lparr>pn_lineno = 3, pn_filename = ''/a.php'', pn_funcname = ''system''\<rparr>
          (2, 1100) (5, 600) [],
        Cost_node (prof_frame ''system'' XDEBUG_INTERNAL) \<lparr>pn_lineno = 3, pn_filename = ''/a.php'', pn_funcname = ''system''\<rparr>
          (6, 600) (7, 650) []]"

lemma profile_costs_conserved_witness:
  "\<exists>own p. profile_call \<lparr>d_add = (+), d_sub = (-), d_usec = (\<lambda>t. dec (unat t))\<rparr> sample_tree None
       (new_profiler\<lparr>profile_file := Some []\<rparr>) = Some (own, None, p) \<and>
     length own = 3 \<and> sum_list (map pr_memory own) = - 300"
proof -
  have "named_tree sample_tree" "refs_used sample_tree < 2 ^ 31" "tree_size sample_tree = 3"
      "snd (node_end sample_tree) - snd (node_begin sample_tree) = - 300"
    by (simp_all add: sample_tree_def)
  then show ?thesis by (metis profile_costs_conserved)
qed

text \<open>With the aggregated profile on, the first call that ends reads an entry that is not there.\<close>

lemma aggregate_faults: "function_end ops True now mem fse pd caller p = None"
  by (auto simp: function_end_def Let_def split: option.splits bind_split)

end
