(* ===== verification/CallFrames.thy ===== *)
theory CallFrames
  imports StackFilter Profiler PhpValue SharedCallstack
begin

text \<open>
  How a frame of the function stack is made when a function is called: \<open>xdebug_add_stack_frame\<close> and what it
  uses of \<open>xdebug_stack.c\<close>, the recording of calls of \<open>xdebug_monitor.c\<close>, and \<open>add_used_variables\<close> of
  \<open>xdebug.c\<close>. The engine's calls are a list, innermost first, in which a call may have no function; the file
  names of compiled code are never missing, nor is \<open>XG(stack)\<close> while a name is built. The code for PHP 7.1 is
  modelled. \<open>None\<close> is a fault: a missing
  function or name that is used, an argument outside the declared ones.
\<close>

section \<open>The engine's calls\<close>

definition ZEND_USER_FUNCTION :: nat where "ZEND_USER_FUNCTION = 2"
definition ZEND_EVAL_CODE :: nat where "ZEND_EVAL_CODE = 4"

definition ZEND_USER_CODE :: "nat \<Rightarrow> bool" where
  "ZEND_USER_CODE t \<longleftrightarrow> even t"

definition ZEND_EVAL :: nat where "ZEND_EVAL = 1"
definition ZEND_INCLUDE :: nat where "ZEND_INCLUDE = 2"
definition ZEND_INCLUDE_ONCE :: nat where "ZEND_INCLUDE_ONCE = 4"
definition ZEND_REQUIRE :: nat where "ZEND_REQUIRE = 8"
definition ZEND_REQUIRE_ONCE :: nat where "ZEND_REQUIRE_ONCE = 16"

lemmas zend_defs = ZEND_USER_FUNCTION_def ZEND_EVAL_CODE_def ZEND_USER_CODE_def ZEND_EVAL_def ZEND_INCLUDE_def
  ZEND_INCLUDE_ONCE_def ZEND_REQUIRE_def ZEND_REQUIRE_ONCE_def

record scope_class =
  sc_name :: string
  sc_filename :: string
  sc_line_start :: nat
  sc_line_end :: nat

record arg_info =
  ai_name :: "string option"
  ai_variadic :: bool

text \<open>\<open>zf_pass\<close> marks the engine's function that does nothing. The compiled variables of \<open>zf_vars\<close> and the
  opcodes with up to two of them each are those of the compiled code.\<close>

record zend_function =
  zf_type :: nat
  zf_pass :: bool
  zf_scope :: "scope_class option"
  zf_name :: "string option"
  zf_variadic :: bool
  zf_trampoline :: bool
  zf_generator :: bool
  zf_filename :: string
  zf_line_start :: nat
  zf_line_end :: nat
  zf_num_args :: nat
  zf_arg_info :: "arg_info list"
  zf_vars :: "string list"
  zf_T :: nat
  zf_opcode_vars :: "(string option \<times> string option) list"

datatype call_opcode = ZEND_INCLUDE_OR_EVAL nat | ZEND_EXT_STMT | Other_opcode

record call_opline =
  co_lineno :: nat
  co_opcode :: call_opcode

text \<open>\<open>ed_this\<close> is the class of the object the call is made on, \<open>ed_slots\<close> the variables of the call: first the
  arguments, behind all variables and temporaries the arguments that are not declared.\<close>

record execute_data =
  ed_func :: "zend_function option"
  ed_this :: "string option"
  ed_opline :: "call_opline option"
  ed_num_args :: nat
  ed_slots :: "nat \<Rightarrow> PhpValue.zval"

type_synonym calls = "execute_data list"

section \<open>Places\<close>

text \<open>The innermost call that runs compiled code.\<close>

fun user_call :: "calls \<Rightarrow> (zend_function \<times> call_opline option) option" where
  "user_call [] = None"
| "user_call (e # es) =
     (case ed_func e of
        None \<Rightarrow> user_call es
      | Some f \<Rightarrow> if ZEND_USER_CODE (zf_type f) then Some (f, ed_opline e) else user_call es)"

definition find_line_number_for_current_execute_point :: "calls \<Rightarrow> int" where
  "find_line_number_for_current_execute_point edata =
     (case user_call edata of
        Some (f, Some ol) \<Rightarrow> to_int32 (int (co_lineno ol))
      | _ \<Rightarrow> 0)"

text \<open>The file of the innermost frame.\<close>

definition tail_filename :: "fstack \<Rightarrow> string option" where
  "tail_filename st = Option.bind (get_stack_tail st) fse_filename"

section \<open>Names\<close>

definition no_func :: xdebug_func where
  "no_func = \<lparr>func_class = None, func_function = None, func_type = XFUNC_UNKNOWN\<rparr>"

definition lines_text :: "string \<Rightarrow> string \<Rightarrow> nat \<Rightarrow> nat \<Rightarrow> string" where
  "lines_text kind file first final =
     kind @ file @ '':'' @ dec_int (to_int32 (int first)) @ ''-'' @ dec_int (to_int32 (int final)) @ ''}''"

definition class_part :: "execute_data \<Rightarrow> zend_function \<Rightarrow> nat \<times> string option" where
  "class_part e f =
     (case ed_this e of
        Some ce \<Rightarrow>
          (XFUNC_MEMBER,
           Some (case zf_scope f of
                   Some sc \<Rightarrow>
                     if cstr (sc_name sc) = ''class@anonymous''
                     then lines_text ''{anonymous-class:'' (cstr (sc_filename sc)) (sc_line_start sc) (sc_line_end sc)
                     else cstr ce
                 | None \<Rightarrow> cstr ce))
      | None \<Rightarrow>
          (case zf_scope f of
             Some sc \<Rightarrow> (XFUNC_STATIC_MEMBER, Some (cstr (sc_name sc)))
           | None \<Rightarrow> (XFUNC_NORMAL, None)))"

text \<open>The place from which the functions that call a function were called.\<close>

definition call_user_func_file :: "fstack \<Rightarrow> calls \<Rightarrow> string option" where
  "call_user_func_file st prev =
     (case prev of
        p # _ \<Rightarrow>
          (case ed_func p of
             Some pf \<Rightarrow> if zf_type pf = ZEND_USER_FUNCTION then Some (cstr (zf_filename pf)) else tail_filename st
           | None \<Rightarrow> tail_filename st)
      | [] \<Rightarrow> tail_filename st)"

definition function_part :: "fstack \<Rightarrow> calls \<Rightarrow> zend_function \<Rightarrow> string \<Rightarrow> string" where
  "function_part st edata f name =
     (if cstr name = ''{closure}''
      then lines_text ''{closure:'' (cstr (zf_filename f)) (zf_line_start f) (zf_line_end f)
      else if strncmp (cstr name) ''call_user_func'' 14 = 0
      then
        (case call_user_func_file st (tl edata) of
           None \<Rightarrow> cstr name
         | Some fname \<Rightarrow>
             cstr name @ '':{'' @ fname @ '':'' @ dec_int (find_line_number_for_current_execute_point edata) @ ''}'')
      else cstr name)"

definition include_type :: "nat \<Rightarrow> nat" where
  "include_type kind =
     (if kind = ZEND_EVAL then XFUNC_EVAL
      else if kind = ZEND_INCLUDE then XFUNC_INCLUDE
      else if kind = ZEND_REQUIRE then XFUNC_REQUIRE
      else if kind = ZEND_INCLUDE_ONCE then XFUNC_INCLUDE_ONCE
      else if kind = ZEND_REQUIRE_ONCE then XFUNC_REQUIRE_ONCE
      else XFUNC_UNKNOWN)"

text \<open>Code that \<open>assert\<close> or \<open>create_function\<close> compiles.\<close>

definition internal_eval :: "zend_function \<Rightarrow> calls \<Rightarrow> bool" where
  "internal_eval f prev \<longleftrightarrow>
     zf_type f = ZEND_EVAL_CODE \<and>
     (case prev of
        [] \<Rightarrow> False
      | p # _ \<Rightarrow>
          (case Option.bind (ed_func p) zf_name of
             None \<Rightarrow> False
           | Some n \<Rightarrow> strncmp (cstr n) ''assert'' 6 = 0 \<or> strncmp (cstr n) ''create_function'' 15 = 0))"

fun build_fname :: "fstack \<Rightarrow> calls \<Rightarrow> xdebug_func option" where
  "build_fname st [] = Some no_func"
| "build_fname st (e # prev) =
     (case ed_func e of
        None \<Rightarrow> Some no_func
      | Some f \<Rightarrow>
          if zf_pass f
          then Some \<lparr>func_class = None, func_function = Some ''{zend_pass}'', func_type = XFUNC_ZEND_PASS\<rparr>
          else
            (let (ty, cls) = class_part e f
             in case zf_name f of
                  Some n \<Rightarrow> Some \<lparr>func_class = cls, func_function = Some (function_part st (e # prev) f n), func_type = ty\<rparr>
                | None \<Rightarrow>
                    if internal_eval f prev
                    then Some \<lparr>func_class = cls, func_function = Some ''{internal eval}'', func_type = XFUNC_NORMAL\<rparr>
                    else
                      (case prev of
                         [] \<Rightarrow> Some \<lparr>func_class = cls, func_function = None, func_type = XFUNC_UNKNOWN\<rparr>
                       | p # _ \<Rightarrow>
                           (case ed_func p of
                              None \<Rightarrow> None
                            | Some pf \<Rightarrow>
                                (case (zf_type pf = ZEND_USER_FUNCTION, map_option co_opcode (ed_opline p)) of
                                   (True, Some (ZEND_INCLUDE_OR_EVAL kind)) \<Rightarrow>
                                     Some \<lparr>func_class = cls, func_function = None, func_type = include_type kind\<rparr>
                                 | _ \<Rightarrow> build_fname st prev)))))"


section \<open>Arguments\<close>

text \<open>An argument: its name with its length, its value and whether it takes all further ones.\<close>

record var_name =
  vn_name :: "string option"
  vn_length :: nat
  vn_data :: PhpValue.zval
  vn_variadic :: bool

text \<open>A frame with its arguments, \<open>is_variadic\<close>, and the memory and the time at which it was made, and what
  the profiler knows of it. An entry of the aggregated profile is known by its key.\<close>

record call_frame =
  cf_fse :: function_stack_entry
  cf_var :: "var_name list"
  cf_variadic :: bool
  cf_prev_memory :: int
  cf_memory :: int
  cf_time :: u64
  cf_line_start :: nat
  cf_aggr_entry :: "string option"
  cf_prof :: prof_data

definition named_arg :: "zend_function \<Rightarrow> nat \<Rightarrow> var_name option" where
  "named_arg opa i =
     (if i < length (zf_arg_info opa)
      then
        (let a = zf_arg_info opa ! i
         in Some \<lparr>vn_name = map_option cstr (ai_name a), vn_length = (case ai_name a of None \<Rightarrow> 0 | Some n \<Rightarrow> length n),
                  vn_data = IS_UNDEF, vn_variadic = ai_variadic a\<rparr>)
      else None)"

definition no_arg :: var_name where
  "no_arg = \<lparr>vn_name = None, vn_length = 0, vn_data = IS_UNDEF, vn_variadic = False\<rparr>"

text \<open>The numbers of arguments sent and wanted; the list of the variadic ones counts in both.\<close>

definition arguments_sent :: "execute_data \<Rightarrow> zend_function \<Rightarrow> nat" where
  "arguments_sent e f = ed_num_args e + (if ZEND_USER_CODE (zf_type f) \<and> zf_variadic f then 1 else 0)"

definition arguments_wanted :: "execute_data \<Rightarrow> zend_function \<Rightarrow> zend_function \<Rightarrow> nat" where
  "arguments_wanted e f opa =
     (if ZEND_USER_CODE (zf_type f) then zf_num_args opa + (if zf_variadic f then 1 else 0) else ed_num_args e)"

definition sent_arg :: "bool \<Rightarrow> nat \<Rightarrow> execute_data \<Rightarrow> zend_function \<Rightarrow> zend_function \<Rightarrow> nat \<Rightarrow> var_name option" where
  "sent_arg collect_params type e f opa i =
     (let wanted = arguments_wanted e f opa
      in do {
        v \<leftarrow> (if type = XDEBUG_EXTERNAL \<and> i < wanted then named_arg opa i else Some no_arg);
        Some (if collect_params
              then v\<lparr>vn_data :=
                     ed_slots e (if i < wanted \<or> zf_trampoline f \<and> i < arguments_sent e f then i
                                 else length (zf_vars f) + zf_T f + i - wanted)\<rparr>
              else v)
      })"

definition missing_arg :: "zend_function \<Rightarrow> nat \<Rightarrow> var_name option" where
  "missing_arg opa i = map_option (\<lambda>v. v\<lparr>vn_variadic := False\<rparr>) (named_arg opa i)"

fun all_some :: "('a \<Rightarrow> 'b option) \<Rightarrow> 'a list \<Rightarrow> 'b list option" where
  "all_some f [] = Some []"
| "all_some f (x # xs) = do { y \<leftarrow> f x; ys \<leftarrow> all_some f xs; Some (y # ys) }"

definition gather_arguments ::
  "bool \<Rightarrow> nat \<Rightarrow> execute_data \<Rightarrow> zend_function \<Rightarrow> zend_function \<Rightarrow> var_name list option" where
  "gather_arguments collect_params type e f opa =
     (let sent = arguments_sent e f; wanted = arguments_wanted e f opa
      in do {
        vs \<leftarrow> all_some (sent_arg collect_params type e f opa) [0..<sent];
        ms \<leftarrow> (if type = XDEBUG_EXTERNAL \<and> sent < wanted then all_some (missing_arg opa) [sent..<wanted] else Some []);
        Some (vs @ ms)
      })"

text \<open>\<open>add_used_variables\<close>: the names of the arguments, then the compiled variables of the code from the index
  the arguments end at, then those that the opcodes use from the index reached on.\<close>

definition arg_names :: "char \<Rightarrow> var_name list \<Rightarrow> xstr list option" where
  "arg_names junk vs =
     all_some (\<lambda>v. case vn_name v of None \<Rightarrow> None | Some n \<Rightarrow> str_create junk n (vn_length v))
       (filter (\<lambda>v. vn_name v \<noteq> None) vs)"

definition used_names :: "zend_function \<Rightarrow> nat \<Rightarrow> string list" where
  "used_names opa i =
     (let vars = drop i (zf_vars opa); j = max i (length (zf_vars opa))
      in vars @ concat (map (\<lambda>(a, b). (case a of None \<Rightarrow> [] | Some n \<Rightarrow> [n]) @ (case b of None \<Rightarrow> [] | Some n \<Rightarrow> [n]))
                          (drop j (zf_opcode_vars opa))))"

definition add_used_variables :: "char \<Rightarrow> zend_function \<Rightarrow> call_frame \<Rightarrow> call_frame option" where
  "add_used_variables junk opa fr =
     (let old = (case declared_vars (cf_fse fr) of None \<Rightarrow> [] | Some vs \<Rightarrow> vs)
      in do {
        ps \<leftarrow> arg_names junk (cf_var fr);
        us \<leftarrow> all_some (\<lambda>n. str_create junk n (length n)) (used_names opa (length (cf_var fr)));
        Some (fr\<lparr>cf_fse := (cf_fse fr)\<lparr>declared_vars := Some (old @ ps @ us)\<rparr>\<rparr>)
      })"

section \<open>Monitored functions\<close>

text \<open>\<open>xdebug_start_function_monitor\<close> is given the values of an array and the number of its elements.\<close>

record monitor =
  do_monitor_functions :: bool
  functions_to_monitor :: "string xhash option"
  monitored_functions_found :: "(string \<times> string \<times> int) list"

fun init_function_monitor_hash :: "string xhash \<Rightarrow> PhpValue.zval list \<Rightarrow> string xhash option" where
  "init_function_monitor_hash h [] = Some h"
| "init_function_monitor_hash h (v # vs) =
     (case v of
        IS_STRING s \<Rightarrow>
          do { h \<leftarrow> hash_add_or_update (key_create (Some s) 0) (cstr s) h; init_function_monitor_hash h vs }
      | _ \<Rightarrow> init_function_monitor_hash h vs)"

definition start_function_monitor :: "PhpValue.zval list \<Rightarrow> monitor \<Rightarrow> monitor option" where
  "start_function_monitor vals m =
     do {
       h \<leftarrow> init_function_monitor_hash (hash_alloc (length vals + 1) True) vals;
       Some (m\<lparr>functions_to_monitor := Some h, do_monitor_functions := True\<rparr>)
     }"

definition stop_function_monitor :: "monitor \<Rightarrow> monitor" where
  "stop_function_monitor m = m\<lparr>do_monitor_functions := False\<rparr>"

definition function_monitor_record :: "string \<Rightarrow> string \<Rightarrow> int \<Rightarrow> monitor \<Rightarrow> monitor" where
  "function_monitor_record name file ln m =
     m\<lparr>monitored_functions_found := monitored_functions_found m @ [(name, file, ln)]\<rparr>"

definition get_monitored_functions :: "bool \<Rightarrow> monitor \<Rightarrow> (string \<times> string \<times> int) list \<times> monitor" where
  "get_monitored_functions clear m =
     (monitored_functions_found m, if clear then m\<lparr>monitored_functions_found := []\<rparr> else m)"

definition monitor_call :: "docref \<Rightarrow> function_stack_entry \<Rightarrow> monitor \<Rightarrow> monitor option" where
  "monitor_call ini fse m =
     (if do_monitor_functions m
      then do {
        name \<leftarrow> show_fname ini False False (fse_function fse);
        h \<leftarrow> functions_to_monitor m;
        r \<leftarrow> hash_extended_find (key_create (Some name) 0) h;
        file \<leftarrow> fse_filename fse;
        Some (if r = None then m else function_monitor_record name file (fse_lineno fse) m)
      }
      else Some m)"


section \<open>Making a frame\<close>

text \<open>The globals of the request that change; the level and the number of calls are those of the coverage.\<close>

record call_globals =
  xg_stack :: "call_frame list option"
  xg_cov :: coverage
  xg_monitor :: monitor
  xg_prev_memory :: int
  xg_aggr_calls :: "string list"
  xg_profiler :: profiler

text \<open>The settings.\<close>

record call_config =
  cc_collect_params :: bool
  cc_collect_vars :: bool
  cc_collect_includes :: bool
  cc_show_local_vars :: bool
  cc_collect_return :: bool
  cc_filters :: filter_config
  cc_docref :: docref
  cc_profiler_aggregate :: bool
  cc_max_nesting_level :: int

text \<open>What is asked of the engine at a call: its calls, the statement evaluated last, the executed file, the
  used memory and the time, and what \<open>op_array->reserved\<close> holds for the coverage filter.\<close>

record call_env =
  ce_calls :: calls
  ce_last_eval :: "string option"
  ce_executed_filename :: string
  ce_memory :: int
  ce_time :: u64
  ce_filtered :: bool

definition fstack_of :: "call_frame list option \<Rightarrow> fstack" where
  "fstack_of st = map_option (map cf_fse) st"

definition frame_filename :: "nat \<Rightarrow> calls \<Rightarrow> zend_function \<Rightarrow> fstack \<Rightarrow> string" where
  "frame_filename type edata opa st =
     (case user_call edata of
        Some (f, _) \<Rightarrow> cstr (zf_filename f)
      | None \<Rightarrow>
          if type = XDEBUG_EXTERNAL then cstr (zf_filename opa)
          else (case tail_filename st of Some f \<Rightarrow> f | None \<Rightarrow> ''UNKNOWN?''))"

text \<open>The frame with its name and place; for a function also its arguments.\<close>

definition place_frame ::
  "call_config \<Rightarrow> bool \<Rightarrow> call_env \<Rightarrow> calls \<Rightarrow> zend_function \<Rightarrow> call_frame \<Rightarrow> xdebug_func \<Rightarrow> call_frame option" where
  "place_frame cfg remote env edata opa fr func =
     (let fse = (cf_fse fr)\<lparr>fse_function := func, fse_lineno := 0\<rparr>
      in if func_type func = XFUNC_UNKNOWN
         then Some (fr\<lparr>cf_fse := fse\<lparr>fse_function :=
                \<lparr>func_class = None, func_function = Some ''{main}'', func_type = XFUNC_NORMAL\<rparr>\<rparr>\<rparr>)
         else if and (func_type func) XFUNC_INCLUDES \<noteq> 0
         then
           (let fse = fse\<lparr>fse_lineno :=
                  (case edata of
                     [] \<Rightarrow> 0
                   | e # _ \<Rightarrow> (case ed_opline e of None \<Rightarrow> 0 | Some ol \<Rightarrow> to_int32 (int (co_lineno ol))))\<rparr>
            in Some (fr\<lparr>cf_fse := fse\<lparr>include_filename :=
                  (if func_type func = XFUNC_EVAL then Some (show_str (ce_last_eval env))
                   else if cc_collect_includes cfg then Some (ce_executed_filename env) else None)\<rparr>\<rparr>))
         else
           (case ce_calls env of
              [] \<Rightarrow> None
            | zdata # _ \<Rightarrow>
                do {
                  f \<leftarrow> ed_func zdata;
                  let fr = fr\<lparr>cf_fse := fse\<lparr>fse_lineno := find_line_number_for_current_execute_point edata\<rparr>,
                              cf_variadic := zf_variadic f\<rparr>;
                  if remote \<or> cc_collect_params cfg \<or> cc_collect_vars cfg
                  then map_option (\<lambda>vs. fr\<lparr>cf_var := vs\<rparr>)
                         (gather_arguments (cc_collect_params cfg) (user_defined fse) zdata f opa)
                  else Some fr
                }))"

text \<open>The entry of the aggregated profile. A new entry is a local variable of the function whose address is put
  into the table; \<open>tmp->aggr_entry\<close> stays NULL then, and an entry that is found is one that is gone.\<close>

definition aggregate_call :: "call_config \<Rightarrow> call_frame \<Rightarrow> call_globals \<Rightarrow> (call_frame \<times> call_globals) option" where
  "aggregate_call cfg fr g =
     (if cc_profiler_aggregate cfg
      then do {
        name \<leftarrow> show_fname (cc_docref cfg) False False (fse_function (cf_fse fr));
        file \<leftarrow> fse_filename (cf_fse fr);
        let key = file @ ''.'' @ name @ ''.'' @ dec_int (fse_lineno (cf_fse fr));
        Some (if key \<in> set (xg_aggr_calls g) then (fr\<lparr>cf_aggr_entry := Some key\<rparr>, g)
              else (fr\<lparr>cf_aggr_entry := None\<rparr>, g\<lparr>xg_aggr_calls := xg_aggr_calls g @ [key]\<rparr>))
      }
      else Some (fr, g))"

text \<open>The caller's entry, which aggregation reads, is NULL or gone.\<close>

definition push_frame :: "call_config \<Rightarrow> call_frame \<Rightarrow> call_globals \<Rightarrow> call_globals option" where
  "push_frame cfg fr g =
     (case xg_stack g of
        None \<Rightarrow> Some g
      | Some frs \<Rightarrow>
          if frs \<noteq> [] \<and> cc_profiler_aggregate cfg then None
          else Some (g\<lparr>xg_stack := Some (frs @ [fr])\<rparr>))"

definition add_stack_frame ::
  "call_config \<Rightarrow> bool \<Rightarrow> call_env \<Rightarrow> zend_function \<Rightarrow> nat \<Rightarrow> call_globals \<Rightarrow> (call_frame \<times> call_globals) option" where
  "add_stack_frame cfg remote env opa type g =
     (case ce_calls env of
        [] \<Rightarrow> None
      | _ # prev \<Rightarrow>
          (let edata = (if type = XDEBUG_EXTERNAL then prev else ce_calls env);
               st = fstack_of (xg_stack g);
               count = uint (word_of_int (function_count (xg_cov g) + 1) :: u32);
               file = frame_filename type edata opa st;
               fr = \<lparr>cf_fse =
                       \<lparr>fse_function = no_func, user_defined = type, fse_level = int (level (xg_cov g)),
                        fse_filename = Some file, fse_lineno = 0, include_filename = None,
                        function_nr = to_int32 count, filtered_tracing = 0, filtered_code_coverage = 0,
                        declared_vars = None, fse_execute_data = None, fse_symbol_table = None, fse_this = None\<rparr>,
                     cf_var = [], cf_variadic = False, cf_prev_memory = xg_prev_memory g, cf_memory = ce_memory env,
                     cf_time = ce_time env, cf_line_start = zf_line_start opa, cf_aggr_entry = None,
                     cf_prof = no_prof\<rparr>;
               g = g\<lparr>xg_cov := (xg_cov g)\<lparr>function_count := count\<rparr>,
                     xg_prev_memory := uint (word_of_int (ce_memory env) :: u32)\<rparr>
           in do {
             func \<leftarrow> build_fname st (ce_calls env);
             fr \<leftarrow> place_frame cfg remote env edata opa fr func;
             fse \<leftarrow> filter_run_tracing (cc_filters cfg) (cf_fse fr);
             let fr = fr\<lparr>cf_fse := fse\<rparr>;
             cov \<leftarrow> (if do_code_coverage (xg_cov g) \<and> \<not> ce_filtered env \<and> cc_branch_check (xg_cov g)
                     then count_line file (fse_lineno fse) False False (xg_cov g) else Some (xg_cov g));
             m \<leftarrow> monitor_call (cc_docref cfg) fse (xg_monitor g);
             (fr, g) \<leftarrow> aggregate_call cfg fr (g\<lparr>xg_cov := cov, xg_monitor := m\<rparr>);
             g \<leftarrow> push_frame cfg fr g;
             Some (fr, g)
           }))"


section \<open>Facts\<close>

lemma all_some_ok:
  "\<forall>x \<in> set xs. f x \<noteq> None \<Longrightarrow> \<exists>ys. all_some f xs = Some ys \<and> length ys = length xs \<and> (\<forall>i < length xs. f (xs ! i) = Some (ys ! i))"
proof (induction xs)
  case (Cons x xs)
  then obtain y ys where "f x = Some y" "all_some f xs = Some ys" "length ys = length xs"
      "\<forall>i < length xs. f (xs ! i) = Some (ys ! i)"
    by auto
  then show ?case by (auto simp: nth_Cons split: nat.splits)
qed simp

lemma run_filters_total:
  "\<forall>f \<in> set fs. \<forall>b. m fse b f \<noteq> None \<Longrightarrow> \<exists>r. run_filters m fse fl fs = Some r"
proof (induction fs arbitrary: fl)
  case (Cons a fs)
  obtain b fl' where "m fse fl a = Some (b, fl')" using Cons.prems by fastforce
  then show ?case using Cons by (cases b) simp_all
qed simp

text \<open>The tracing filter only sets the flag of a frame that has a file.\<close>

lemma filter_run_tracing_total:
  assumes "fse_filename fse \<noteq> None"
  shows "\<exists>fl. filter_run_tracing cfg fse = Some (fse\<lparr>filtered_tracing := fl\<rparr>)"
proof -
  have "\<exists>r. filter_run_internal (fse\<lparr>filtered_tracing := 0\<rparr>) XDEBUG_FILTER_TRACING 0 ty fs = Some r" for ty fs
    using assms
    by (auto simp: filter_run_internal_def include_frame_def filter_defs match_path_whitelist_def match_path_blacklist_def
        match_namespace_whitelist_def match_namespace_blacklist_def match_namespace_def
        intro!: run_filters_total split: option.splits)
  then obtain r where "filter_run_internal (fse\<lparr>filtered_tracing := 0\<rparr>) XDEBUG_FILTER_TRACING 0
      (filter_type_tracing cfg) (filters_tracing cfg) = Some r" by blast
  then show ?thesis by (auto simp: filter_run_tracing_def Let_def)
qed

text \<open>Where the engine keeps an argument of a call: the declared ones first, the others behind the variables.\<close>

definition engine_arg :: "execute_data \<Rightarrow> zend_function \<Rightarrow> nat \<Rightarrow> PhpValue.zval" where
  "engine_arg e f i =
     ed_slots e (if \<not> ZEND_USER_CODE (zf_type f) \<or> i < zf_num_args f then i
                 else length (zf_vars f) + zf_T f + (i - zf_num_args f))"

definition args_declared :: "zend_function \<Rightarrow> bool" where
  "args_declared f \<longleftrightarrow> zf_num_args f + (if zf_variadic f then 1 else 0) \<le> length (zf_arg_info f)"

lemma sent_arg_value:
  assumes "sent_arg True type e f f i = Some v" and "\<not> zf_variadic f" and "\<not> zf_trampoline f" and "i < ed_num_args e"
    and "type = XDEBUG_EXTERNAL \<longleftrightarrow> ZEND_USER_CODE (zf_type f)"
  shows "vn_data v = engine_arg e f i"
  using assms
  by (auto simp: sent_arg_def engine_arg_def arguments_wanted_def Let_def no_arg_def split: if_splits bind_splits)

lemma sent_arg_name:
  assumes "sent_arg True type e f f i = Some v" and "i < arguments_wanted e f f" and "type = XDEBUG_EXTERNAL"
  shows "vn_name v = map_option cstr (ai_name (zf_arg_info f ! i))"
  using assms by (auto simp: sent_arg_def named_arg_def Let_def split: if_splits bind_splits)

lemma missing_arg_name:
  "missing_arg f i = Some v \<Longrightarrow> vn_name v = map_option cstr (ai_name (zf_arg_info f ! i))"
  by (auto simp: missing_arg_def named_arg_def Let_def split: if_splits)

lemma gather_arguments_ok:
  assumes "args_declared f" and "\<not> zf_variadic f" and "\<not> zf_trampoline f"
    and "type = XDEBUG_EXTERNAL \<longleftrightarrow> ZEND_USER_CODE (zf_type f)"
  shows "\<exists>vs. gather_arguments True type e f f = Some vs \<and>
    length vs = (if type = XDEBUG_EXTERNAL then max (ed_num_args e) (zf_num_args f) else ed_num_args e) \<and>
    (\<forall>i < ed_num_args e. vn_data (vs ! i) = engine_arg e f i) \<and>
    (type = XDEBUG_EXTERNAL \<longrightarrow>
      (\<forall>i < zf_num_args f. vn_name (vs ! i) = map_option cstr (ai_name (zf_arg_info f ! i))))"
proof -
  let ?sent = "ed_num_args e" and ?wanted = "arguments_wanted e f f"
  have sent: "arguments_sent e f = ?sent" using assms(2) by (simp add: arguments_sent_def)
  have wanted: "?wanted = (if type = XDEBUG_EXTERNAL then zf_num_args f else ?sent)"
    using assms(2,4) by (simp add: arguments_wanted_def)
  have named: "named_arg f i \<noteq> None" if "type = XDEBUG_EXTERNAL" "i < ?wanted" for i
    using that assms(1) wanted by (auto simp: named_arg_def args_declared_def Let_def)
  have "\<forall>i \<in> set [0..<?sent]. sent_arg True type e f f i \<noteq> None"
    using named by (fastforce simp: sent_arg_def Let_def)
  from all_some_ok [OF this] obtain vs where vs: "all_some (sent_arg True type e f f) [0..<?sent] = Some vs"
      "length vs = ?sent" "\<forall>i < ?sent. sent_arg True type e f f i = Some (vs ! i)" by auto
  have "\<forall>i \<in> set [?sent..<?wanted]. missing_arg f i \<noteq> None" if "type = XDEBUG_EXTERNAL"
    using named [OF that] by (auto simp: missing_arg_def)
  from all_some_ok [OF this] obtain ms where ms: "type = XDEBUG_EXTERNAL \<longrightarrow>
      all_some (missing_arg f) [?sent..<?wanted] = Some ms \<and> length ms = ?wanted - ?sent \<and>
      (\<forall>i < ?wanted - ?sent. missing_arg f (?sent + i) = Some (ms ! i))"
    by (cases "type = XDEBUG_EXTERNAL") auto
  let ?all = "vs @ (if type = XDEBUG_EXTERNAL \<and> ?sent < ?wanted then ms else [])"
  have "gather_arguments True type e f f = Some ?all"
    using vs(1) ms by (auto simp: gather_arguments_def sent)
  moreover have "length ?all = (if type = XDEBUG_EXTERNAL then max ?sent (zf_num_args f) else ?sent)"
    using vs(2) ms wanted by auto
  moreover have "vn_data (?all ! i) = engine_arg e f i" if "i < ?sent" for i
    using sent_arg_value [OF _ assms(2,3) that assms(4)] vs(2,3) that by (simp add: nth_append)
  moreover have "vn_name (?all ! i) = map_option cstr (ai_name (zf_arg_info f ! i))"
    if "type = XDEBUG_EXTERNAL" "i < zf_num_args f" for i
  proof (cases "i < ?sent")
    case True
    then show ?thesis using sent_arg_name [of type e f i "vs ! i"] vs(2,3) that wanted by (simp add: nth_append)
  next
    case False
    then have "i - ?sent < ?wanted - ?sent" "?sent + (i - ?sent) = i" using that wanted by auto
    then have "missing_arg f i = Some (ms ! (i - ?sent))" using ms that(1) by metis
    then show ?thesis using False vs(2) that wanted missing_arg_name by (simp add: nth_append)
  qed
  ultimately show ?thesis by blast
qed


text \<open>A function with a name of its own: not the engine's empty one, a closure or one that calls another.\<close>

definition plain_function :: "zend_function \<Rightarrow> string \<Rightarrow> bool" where
  "plain_function f n \<longleftrightarrow>
     zf_name f = Some n \<and> \<not> zf_pass f \<and> cstr n \<noteq> ''{closure}'' \<and> strncmp (cstr n) ''call_user_func'' 14 \<noteq> 0 \<and>
     \<not> zf_variadic f \<and> \<not> zf_trampoline f \<and> args_declared f \<and>
     (case zf_scope f of None \<Rightarrow> True | Some sc \<Rightarrow> cstr (sc_name sc) \<noteq> ''class@anonymous'')"

text \<open>Neither coverage nor monitoring nor the aggregated profile is on.\<close>

definition plain_request :: "call_config \<Rightarrow> call_globals \<Rightarrow> bool" where
  "plain_request cfg g \<longleftrightarrow>
     \<not> do_code_coverage (xg_cov g) \<and> \<not> do_monitor_functions (xg_monitor g) \<and> \<not> cc_profiler_aggregate cfg"

text \<open>The name a call is to be shown with.\<close>

definition call_func :: "execute_data \<Rightarrow> zend_function \<Rightarrow> string \<Rightarrow> xdebug_func" where
  "call_func e f n =
     \<lparr>func_class = (case ed_this e of Some ce \<Rightarrow> Some (cstr ce) | None \<Rightarrow> map_option (\<lambda>sc. cstr (sc_name sc)) (zf_scope f)),
      func_function = Some (cstr n),
      func_type = (if ed_this e \<noteq> None then XFUNC_MEMBER else if zf_scope f \<noteq> None then XFUNC_STATIC_MEMBER
                   else XFUNC_NORMAL)\<rparr>"

lemma build_fname_plain:
  assumes "plain_function f n" and "ed_func e = Some f"
  shows "build_fname st (e # prev) = Some (call_func e f n)"
  using assms
  by (auto simp: plain_function_def call_func_def class_part_def function_part_def split: option.splits)

lemma call_func_type:
  "func_type (call_func e f n) \<noteq> XFUNC_UNKNOWN" "and (func_type (call_func e f n)) XFUNC_INCLUDES = 0"
  by (simp_all add: call_func_def xfunc_defs)

lemma frame_made:
  assumes "ce_calls env = e # prev" and "ed_func e = Some f" and "plain_function f n" and "plain_request cfg g"
    and "type = (if ZEND_USER_CODE (zf_type f) then XDEBUG_EXTERNAL else XDEBUG_INTERNAL)"
    and "user_call prev = Some (cf, Some ol)" and "xg_stack g = Some frs" and "cc_collect_params cfg"
  shows "\<exists>fr g'. add_stack_frame cfg remote env f type g = Some (fr, g') \<and> xg_stack g' = Some (frs @ [fr]) \<and>
    fse_function (cf_fse fr) = call_func e f n \<and> fse_filename (cf_fse fr) = Some (cstr (zf_filename cf)) \<and>
    fse_lineno (cf_fse fr) = to_int32 (int (co_lineno ol)) \<and> user_defined (cf_fse fr) = type \<and>
    xg_profiler g' = xg_profiler g \<and> plain_request cfg g' \<and>
    fse_level (cf_fse fr) = int (level (xg_cov g)) \<and>
    function_nr (cf_fse fr) = to_int32 (uint (word_of_int (function_count (xg_cov g) + 1) :: u32)) \<and>
    length (cf_var fr) = (if type = XDEBUG_EXTERNAL then max (ed_num_args e) (zf_num_args f) else ed_num_args e) \<and>
    (\<forall>i < ed_num_args e. vn_data (cf_var fr ! i) = engine_arg e f i)"
proof -
  have ty: "type = XDEBUG_EXTERNAL \<longleftrightarrow> ZEND_USER_CODE (zf_type f)"
    using assms(5) by (simp add: XDEBUG_EXTERNAL_def XDEBUG_INTERNAL_def)
  obtain vs where vs: "gather_arguments True type e f f = Some vs"
      "length vs = (if type = XDEBUG_EXTERNAL then max (ed_num_args e) (zf_num_args f) else ed_num_args e)"
      "\<forall>i < ed_num_args e. vn_data (vs ! i) = engine_arg e f i"
    using gather_arguments_ok [of f type e] assms(3) ty unfolding plain_function_def by blast
  let ?edata = "if type = XDEBUG_EXTERNAL then prev else ce_calls env"
  have at: "user_call ?edata = Some (cf, Some ol)"
    using assms(1,2,6) ty by (auto split: option.splits)
  then have fname: "frame_filename type ?edata f st = cstr (zf_filename cf)" for st
    by (simp add: frame_filename_def)
  have line: "find_line_number_for_current_execute_point ?edata = to_int32 (int (co_lineno ol))"
    by (simp add: find_line_number_for_current_execute_point_def at)
  obtain fl where filt: "\<And>fse. fse_filename fse \<noteq> None \<Longrightarrow> filter_run_tracing (cc_filters cfg) fse =
      Some (fse\<lparr>filtered_tracing := fl fse\<rparr>)"
    using filter_run_tracing_total [of _ "cc_filters cfg"] by metis
  show ?thesis
    using assms(1,2,4,7,8) vs build_fname_plain [OF assms(3,2)] call_func_type [of e f n] fname line
    by (simp add: add_stack_frame_def place_frame_def Let_def filt monitor_call_def aggregate_call_def
        push_frame_def plain_request_def)
qed


section \<open>Properties\<close>

text \<open>C20: the frame made for the call of a function shows its class, name and arguments, and the file and line
  of the compiled code that called it (past calls of the engine itself), and becomes the innermost frame.\<close>

theorem frame_of_call:
  assumes "ce_calls env = e # prev" and "ed_func e = Some f" and "plain_function f n" and "plain_request cfg g"
    and "type = (if ZEND_USER_CODE (zf_type f) then XDEBUG_EXTERNAL else XDEBUG_INTERNAL)"
    and "user_call prev = Some (cf, Some ol)" and "xg_stack g = Some frs" and "cc_collect_params cfg"
  shows "\<exists>fr g'. add_stack_frame cfg remote env f type g = Some (fr, g') \<and> xg_stack g' = Some (frs @ [fr]) \<and>
    fse_function (cf_fse fr) = call_func e f n \<and> fse_filename (cf_fse fr) = Some (cstr (zf_filename cf)) \<and>
    fse_lineno (cf_fse fr) = to_int32 (int (co_lineno ol)) \<and>
    length (cf_var fr) = (if type = XDEBUG_EXTERNAL then max (ed_num_args e) (zf_num_args f) else ed_num_args e) \<and>
    (\<forall>i < ed_num_args e. vn_data (cf_var fr ! i) = engine_arg e f i)"
  using frame_made [OF assms, of remote] by blast

definition sample_function :: zend_function where
  "sample_function =
     \<lparr>zf_type = 1, zf_pass = False, zf_scope = None, zf_name = Some ''system'', zf_variadic = False, zf_trampoline = False,
      zf_generator = False, zf_filename = [], zf_line_start = 0, zf_line_end = 0, zf_num_args = 1,
      zf_arg_info = [\<lparr>ai_name = Some ''command'', ai_variadic = False\<rparr>], zf_vars = [], zf_T = 0, zf_opcode_vars = []\<rparr>"

definition caller_script :: zend_function where
  "caller_script = sample_function\<lparr>zf_type := ZEND_USER_FUNCTION, zf_name := None, zf_filename := ''/srv/a.php'',
     zf_num_args := 0, zf_arg_info := []\<rparr>"

definition sample_calls :: calls where
  "sample_calls =
     [\<lparr>ed_func = Some sample_function, ed_this = None, ed_opline = None, ed_num_args = 1, ed_slots = (\<lambda>_. IS_STRING ''id'')\<rparr>,
      \<lparr>ed_func = Some caller_script, ed_this = None, ed_opline = Some \<lparr>co_lineno = 7, co_opcode = Other_opcode\<rparr>,
       ed_num_args = 0, ed_slots = (\<lambda>_. IS_UNDEF)\<rparr>]"

definition sample_call :: call_env where
  "sample_call =
     \<lparr>ce_calls = sample_calls, ce_last_eval = None, ce_executed_filename = ''/srv/a.php'', ce_memory = 1000, ce_time = 0,
      ce_filtered = False\<rparr>"

definition sample_cov :: coverage where
  "sample_cov =
     \<lparr>code_coverage = hash_alloc 32 True, file_store = [], info_store = [], previous_filename = None, previous_file = 0,
      previous_mark_filename = None, previous_mark_file = 0, do_code_coverage = False, cc_unused = False,
      cc_dead_code_analysis = False, cc_branch_check = False, dead_code_last_start_id = 1, level = 0,
      function_count = 2 ^ 32 - 1, branches_size = 0, last_branch_nr = [], stack_paths = [], path_store = [],
      visited_branches = hash_alloc 2048 False\<rparr>"

definition new_globals :: call_globals where
  "new_globals =
     \<lparr>xg_stack = Some [], xg_cov = sample_cov,
      xg_monitor = \<lparr>do_monitor_functions = False, functions_to_monitor = None, monitored_functions_found = []\<rparr>,
      xg_prev_memory = 0, xg_aggr_calls = [], xg_profiler = new_profiler\<rparr>"

definition sample_config :: call_config where
  "sample_config =
     \<lparr>cc_collect_params = True, cc_collect_vars = False, cc_collect_includes = True, cc_show_local_vars = False,
      cc_collect_return = False,
      cc_filters = \<lparr>filter_type_tracing = XDEBUG_FILTER_NONE, filters_tracing = [],
        filter_type_code_coverage = XDEBUG_FILTER_NONE, filters_code_coverage = []\<rparr>,
      cc_docref = \<lparr>html_errors = False, doc_root = [], doc_ext = []\<rparr>, cc_profiler_aggregate = False,
      cc_max_nesting_level = 256\<rparr>"

lemma sample_plain: "plain_function sample_function ''system''" "plain_request sample_config new_globals"
  by (simp_all add: plain_function_def sample_function_def args_declared_def plain_request_def new_globals_def sample_cov_def
      sample_config_def strncmp_def uchar_def cstr_def nul_def)

theorem frame_of_call_witness:
  "\<exists>fr g'. add_stack_frame sample_config False sample_call sample_function XDEBUG_INTERNAL new_globals = Some (fr, g') \<and>
     xg_stack g' = Some [fr] \<and> func_function (fse_function (cf_fse fr)) = Some ''system'' \<and>
     fse_filename (cf_fse fr) = Some ''/srv/a.php'' \<and> fse_lineno (cf_fse fr) = 7 \<and> vn_data (cf_var fr ! 0) = IS_STRING ''id''"
proof -
  have "user_call (tl sample_calls) = Some (caller_script, Some \<lparr>co_lineno = 7, co_opcode = Other_opcode\<rparr>)"
    by (simp add: sample_calls_def caller_script_def zend_defs)
  moreover have "ed_func (hd sample_calls) = Some sample_function" "ce_calls sample_call = hd sample_calls # tl sample_calls"
    "\<not> ZEND_USER_CODE (zf_type sample_function)" "xg_stack new_globals = Some []" "cc_collect_params sample_config"
    by (simp_all add: sample_calls_def sample_call_def sample_function_def zend_defs new_globals_def sample_config_def)
  ultimately show ?thesis
    using frame_of_call [of sample_call "hd sample_calls" "tl sample_calls" sample_function "''system''" sample_config
        new_globals XDEBUG_INTERNAL caller_script "\<lparr>co_lineno = 7, co_opcode = Other_opcode\<rparr>" "[]" False] sample_plain
    by (fastforce simp: sample_calls_def caller_script_def call_func_def engine_arg_def sample_function_def
        zend_defs cstr_def nul_def to_int32_id)
qed

text \<open>With the aggregated profile on, the first call made by a function crashes: its entry was a local
  variable of \<open>xdebug_add_stack_frame\<close>, or none was stored in the frame.\<close>

lemma aggregate_second_call_faults:
  assumes "cc_profiler_aggregate cfg" and "xg_stack g = Some (caller # frs)"
  shows "add_stack_frame cfg remote env opa type g = None"
proof -
  have "push_frame cfg fr g' = None" if "xg_stack g' = Some (caller # frs)" for fr g'
    using that assms(1) by (simp add: push_frame_def)
  moreover have "xg_stack g' = Some (caller # frs)"
    if "aggregate_call cfg fr g0 = Some (fr', g')" "xg_stack g0 = Some (caller # frs)" for fr g0 fr' g'
    using that by (auto simp: aggregate_call_def Let_def split: if_splits bind_splits)
  ultimately show ?thesis
    using assms(2) by (auto simp: add_stack_frame_def Let_def split: list.splits Option.bind_split)
qed

lemma aggregate_second_call_faults_witness:
  "\<exists>fr g. add_stack_frame (sample_config\<lparr>cc_profiler_aggregate := True\<rparr>) False sample_call sample_function
       XDEBUG_INTERNAL new_globals = Some (fr, g) \<and>
     add_stack_frame (sample_config\<lparr>cc_profiler_aggregate := True\<rparr>) False sample_call sample_function
       XDEBUG_INTERNAL g = None"
proof -
  let ?cfg = "sample_config\<lparr>cc_profiler_aggregate := True\<rparr>"
  have "(case add_stack_frame ?cfg False sample_call sample_function XDEBUG_INTERNAL new_globals of
           None \<Rightarrow> False | Some (fr, g) \<Rightarrow> xg_stack g = Some [fr])"
    by code_simp
  then obtain fr g where "add_stack_frame ?cfg False sample_call sample_function XDEBUG_INTERNAL new_globals = Some (fr, g)"
      "xg_stack g = Some [fr]"
    by (auto split: option.splits)
  moreover have "add_stack_frame ?cfg False sample_call sample_function XDEBUG_INTERNAL g = None"
    using aggregate_second_call_faults [of ?cfg g fr "[]"] calculation(2) by simp
  ultimately show ?thesis by blast
qed


text \<open>A file that evaluated code includes is taken for the evaluated code itself: its frame is named \<open>eval\<close>
  and carries the statement evaluated last instead of the file.\<close>

lemma include_in_eval_shown_as_eval:
  assumes "ce_calls env = e # ev # u # rest" and "ed_func e = Some f" and "\<not> zf_pass f" and "zf_name f = None"
    and "zf_type f = ZEND_USER_FUNCTION" and "ed_func ev = Some evf" and "\<not> zf_pass evf" and "zf_name evf = None"
    and "zf_type evf = ZEND_EVAL_CODE" and "ed_func u = Some uf" and "zf_type uf = ZEND_USER_FUNCTION"
    and "\<not> internal_eval evf (u # rest)" and "map_option co_opcode (ed_opline u) = Some (ZEND_INCLUDE_OR_EVAL ZEND_EVAL)"
    and "ce_last_eval env = Some code" and "plain_request cfg g" and "xg_stack g = Some frs"
  shows "\<exists>fr g'. add_stack_frame cfg remote env f XDEBUG_EXTERNAL g = Some (fr, g') \<and>
    plain_fname (fse_function (cf_fse fr)) = Some ''eval'' \<and> include_filename (cf_fse fr) = Some code"
proof -
  have "\<not> internal_eval f (ev # u # rest)" using assms(5) by (simp add: internal_eval_def zend_defs)
  then have b: "build_fname st (e # ev # u # rest) =
      Some \<lparr>func_class = snd (class_part ev evf), func_function = None, func_type = XFUNC_EVAL\<rparr>" for st
    using assms(2-13) by (auto simp: include_type_def case_prod_unfold zend_defs split: option.splits call_opcode.splits)
  obtain fl where filt: "\<And>fse. fse_filename fse \<noteq> None \<Longrightarrow> filter_run_tracing (cc_filters cfg) fse =
      Some (fse\<lparr>filtered_tracing := fl fse\<rparr>)"
    using filter_run_tracing_total [of _ "cc_filters cfg"] by metis
  show ?thesis
    using assms(1,14-16)
    by (simp add: add_stack_frame_def b place_frame_def Let_def filt monitor_call_def aggregate_call_def
        push_frame_def plain_request_def plain_fname_def xfunc_defs show_str_def del: build_fname.simps)
qed

definition eval_calls :: calls where
  "eval_calls =
     (let call = (\<lambda>f ol. \<lparr>ed_func = Some f, ed_this = None, ed_opline = ol, ed_num_args = 0, ed_slots = (\<lambda>_. IS_UNDEF)\<rparr>)
      in [call (caller_script\<lparr>zf_filename := ''/srv/b.php''\<rparr>) None,
          call (caller_script\<lparr>zf_type := ZEND_EVAL_CODE\<rparr>) (Some \<lparr>co_lineno = 1, co_opcode = ZEND_INCLUDE_OR_EVAL ZEND_INCLUDE\<rparr>),
          call caller_script (Some \<lparr>co_lineno = 9, co_opcode = ZEND_INCLUDE_OR_EVAL ZEND_EVAL\<rparr>)])"

lemma include_in_eval_shown_as_eval_witness:
  "\<exists>fr g'. add_stack_frame sample_config False (sample_call\<lparr>ce_calls := eval_calls, ce_last_eval := Some ''include b;''\<rparr>)
       (caller_script\<lparr>zf_filename := ''/srv/b.php''\<rparr>) XDEBUG_EXTERNAL new_globals = Some (fr, g') \<and>
     plain_fname (fse_function (cf_fse fr)) = Some ''eval'' \<and> include_filename (cf_fse fr) = Some ''include b;''"
proof -
  have "xg_stack new_globals = Some []" by (simp add: new_globals_def)
  then show ?thesis
    using include_in_eval_shown_as_eval [of "sample_call\<lparr>ce_calls := eval_calls, ce_last_eval := Some ''include b;''\<rparr>"
        "eval_calls ! 0" "eval_calls ! 1" "eval_calls ! 2" "[]" "caller_script\<lparr>zf_filename := ''/srv/b.php''\<rparr>"
        "caller_script\<lparr>zf_type := ZEND_EVAL_CODE\<rparr>" caller_script "''include b;''" sample_config new_globals "[]" False]
      sample_plain(2)
    by (simp add: eval_calls_def Let_def caller_script_def sample_function_def internal_eval_def zend_defs)
qed

text \<open>The variables of an included file are added to the frames of the functions around it from the index on that
  the arguments of these functions end at: the first ones are lost, unless a later opcode uses them.\<close>

lemma included_variables_lost:
  assumes "length (cf_var fr) = k" and "arg_names junk (cf_var fr) = Some ps" and "zf_vars opa = lost @ kept"
    and "length lost = k" and "drop (k + length kept) (zf_opcode_vars opa) = []" and "declared_vars (cf_fse fr) = None"
    and "all_some (\<lambda>n. str_create junk n (length n)) kept = Some ks"
  shows "\<exists>fr'. add_used_variables junk opa fr = Some fr' \<and> declared_vars (cf_fse fr') = Some (ps @ ks)"
  using assms by (simp add: add_used_variables_def used_names_def)

end
