(* ===== verification/Tracing.thy ===== *)
theory Tracing
  imports VarText CallFrames
begin

text \<open>
  The traces of function calls: choosing a format, opening and closing the file (\<open>xdebug_tracing.c\<close>), and the texts
  that the textual, the computerized and the HTML format write (\<open>xdebug_trace_textual.c\<close>,
  \<open>xdebug_trace_computerized.c\<close>, \<open>xdebug_trace_html.c\<close>). The text of a file is kept as it grows. Opening a file,
  clock, memory and the printing of floating point numbers are parameters; \<open>None\<close> is a fault.
\<close>

section \<open>Settings and state\<close>

datatype trace_handler = Textual | Computerized | Html

definition XDEBUG_TRACE_OPTION_APPEND :: nat where "XDEBUG_TRACE_OPTION_APPEND = 1"
definition XDEBUG_TRACE_OPTION_COMPUTERIZED :: nat where "XDEBUG_TRACE_OPTION_COMPUTERIZED = 2"
definition XDEBUG_TRACE_OPTION_HTML :: nat where "XDEBUG_TRACE_OPTION_HTML = 4"
definition XDEBUG_TRACE_OPTION_NAKED_FILENAME :: nat where "XDEBUG_TRACE_OPTION_NAKED_FILENAME = 8"

text \<open>\<open>tc_open\<close> opens a file, for appending or not, with the extension or not, and gives the name used; \<open>tc_float\<close>
  prints with a format; \<open>tc_values\<close> are the options for values from the settings.\<close>

record trace_config =
  tc_format :: int
  tc_output_dir :: string
  tc_output_name :: string
  tc_collect_params :: int
  tc_show_mem_delta :: bool
  tc_start_time :: u64
  tc_version :: string
  tc_open :: "string \<Rightarrow> bool \<Rightarrow> bool \<Rightarrow> string option"
  tc_names :: "nat \<Rightarrow> name_env"
  tc_junk :: char
  tc_ops :: double_ops
  tc_float :: "string \<Rightarrow> u64 \<Rightarrow> string"
  tc_engine :: PhpValue.engine
  tc_values :: export_options
  tc_serialize :: "PhpValue.zval \<Rightarrow> string option"
  tc_docref :: docref

text \<open>What clock and memory say, and the values of PHP, when something is written.\<close>

record trace_env =
  te_time :: string
  te_utime :: u64
  te_memory :: int
  te_heap :: heap

text \<open>The lines of a file, each with what it reports: the number of the call that begins, ends, or returns a value.\<close>

datatype trace_record =
    Trace_header | Trace_footer | Trace_assignment
  | Trace_entry int | Trace_exit int | Trace_return int | Trace_generator_return int

record trace_context =
  tx_filename :: string
  tx_lines :: "(trace_record \<times> string) list"

record tracer =
  do_trace :: bool
  tr_handler :: trace_handler
  tr_context :: "trace_context option"
  tr_closed :: "trace_context list"

definition is_tracing :: "tracer \<Rightarrow> bool" where
  "is_tracing tr \<longleftrightarrow> do_trace tr \<and> tr_context tr \<noteq> None"

definition has_exit :: "trace_handler \<Rightarrow> bool" where
  "has_exit t \<longleftrightarrow> t = Computerized"

definition has_return_value :: "trace_handler \<Rightarrow> bool" where
  "has_return_value t \<longleftrightarrow> t = Textual \<or> t = Computerized"

definition has_generator_return_value :: "trace_handler \<Rightarrow> bool" where
  "has_generator_return_value t \<longleftrightarrow> t = Textual"

definition trace_text :: "trace_context \<Rightarrow> string" where
  "trace_text c = concat (map snd (tx_lines c))"

definition trace_write :: "trace_record \<Rightarrow> string \<Rightarrow> tracer \<Rightarrow> tracer" where
  "trace_write r t tr = tr\<lparr>tr_context := map_option (\<lambda>c. c\<lparr>tx_lines := tx_lines c @ [(r, t)]\<rparr>) (tr_context tr)\<rparr>"

section \<open>Numbers\<close>

definition pad_left :: "nat \<Rightarrow> string \<Rightarrow> string" where
  "pad_left w s = replicate (w - length s) (CHR '' '') @ s"

text \<open>\<open>%lu\<close> and \<open>%zu\<close> of a signed value, and \<open>%+ld\<close>.\<close>

definition unsigned_long :: "int \<Rightarrow> string" where
  "unsigned_long i = dec (nat (i mod 2 ^ 64))"

definition signed_long :: "int \<Rightarrow> string" where
  "signed_long i = dec_int (sint (word_of_int i :: u64))"

definition plus_long :: "int \<Rightarrow> string" where
  "plus_long i = (if 0 \<le> sint (word_of_int i :: u64) then ''+'' else []) @ signed_long i"

definition since_start :: "trace_config \<Rightarrow> string \<Rightarrow> u64 \<Rightarrow> string" where
  "since_start cfg fmt t = tc_float cfg fmt (d_sub (tc_ops cfg) t (tc_start_time cfg))"

definition tab :: char where "tab = CHR 0x09"
definition nl :: char where "nl = CHR 0x0A"

section \<open>Values and includes\<close>

definition add_single_value :: "trace_config \<Rightarrow> heap \<Rightarrow> PhpValue.zval \<Rightarrow> string option" where
  "add_single_value cfg h z =
     (if tc_collect_params cfg = 1 \<or> tc_collect_params cfg = 2 then var_synopsis (tc_engine cfg) h z False
      else if tc_collect_params cfg = 5
      then Some (case get_zval_value_serialized (en_lib (tc_engine cfg)) (tc_serialize cfg) z of None \<Rightarrow> ''???'' | Some t \<Rightarrow> t)
      else get_zval_value (tc_engine cfg) h z False (tc_values cfg))"

definition traced_arg :: "trace_config \<Rightarrow> heap \<Rightarrow> var_name \<Rightarrow> string option" where
  "traced_arg cfg h v = (if vn_data v = IS_UNDEF then Some ''???'' else add_single_value cfg h (vn_data v))"

definition arg_label :: "trace_config \<Rightarrow> var_name \<Rightarrow> string" where
  "arg_label cfg v =
     (case vn_name v of
        Some n \<Rightarrow> if tc_collect_params cfg = 4 then ''$'' @ n @ '' = '' else []
      | None \<Rightarrow> [])"

definition traced_include :: "trace_config \<Rightarrow> function_stack_entry \<Rightarrow> string" where
  "traced_include cfg fse =
     (case include_filename fse of
        None \<Rightarrow> []
      | Some f \<Rightarrow>
          if func_type (fse_function fse) = XFUNC_EVAL
          then [CHR 0x27] @ cstr (addcslashes (tc_engine cfg) f (take 6 ESCAPE_MASK)) @ [CHR 0x27]
          else f)"

section \<open>The computerized format\<close>

definition computerized_header :: "trace_config \<Rightarrow> trace_env \<Rightarrow> string" where
  "computerized_header cfg te =
     ''Version: '' @ tc_version cfg @ [nl] @ ''File format: 4'' @ [nl] @ ''TRACE START ['' @ te_time te @ '']'' @ [nl]"

definition computerized_footer :: "trace_config \<Rightarrow> trace_env \<Rightarrow> string" where
  "computerized_footer cfg te =
     [tab, tab, tab] @ since_start cfg ''%F'' (te_utime te) @ [tab] @ unsigned_long (te_memory te) @ [nl] @
     ''TRACE END   ['' @ te_time te @ '']'' @ [nl, nl]"

definition computerized_arg :: "trace_config \<Rightarrow> heap \<Rightarrow> var_name \<Rightarrow> string option" where
  "computerized_arg cfg h v =
     map_option (\<lambda>t. [tab] @ (if vn_variadic v then ''...'' @ [tab] else []) @ arg_label cfg v @ t) (traced_arg cfg h v)"

definition computerized_args :: "trace_config \<Rightarrow> heap \<Rightarrow> var_name list \<Rightarrow> string option" where
  "computerized_args cfg h vs =
     (if 0 < tc_collect_params cfg
      then map_option (\<lambda>ts. [tab] @ dec_int (to_int32 (int (length vs))) @ concat ts) (all_some (computerized_arg cfg h) vs)
      else Some [])"

definition computerized_entry :: "trace_config \<Rightarrow> trace_env \<Rightarrow> call_frame \<Rightarrow> int \<Rightarrow> string option" where
  "computerized_entry cfg te fr nr =
     (let fse = cf_fse fr
      in do {
        name \<leftarrow> show_fname (tc_docref cfg) False False (fse_function fse);
        args \<leftarrow> computerized_args cfg (te_heap te) (cf_var fr);
        Some (cstr (dec_int (to_int32 (fse_level fse)) @ [tab] @ dec_int nr @ [tab] @ ''0'' @ [tab] @
          since_start cfg ''%F'' (cf_time fr) @ [tab] @ unsigned_long (cf_memory fr) @ [tab] @ cstr name @ [tab] @
          (if user_defined fse = XDEBUG_EXTERNAL then ''1'' else ''0'') @ [tab] @ traced_include cfg fse @ [tab] @
          show_str (fse_filename fse) @ [tab] @ dec_int (fse_lineno fse) @ args @ [nl]))
      })"

definition computerized_exit :: "trace_config \<Rightarrow> trace_env \<Rightarrow> call_frame \<Rightarrow> int \<Rightarrow> string" where
  "computerized_exit cfg te fr nr =
     dec_int (to_int32 (fse_level (cf_fse fr))) @ [tab] @ dec_int nr @ [tab] @ ''1'' @ [tab] @
     since_start cfg ''%F'' (te_utime te) @ [tab] @ unsigned_long (te_memory te) @ [nl]"

definition computerized_return :: "trace_config \<Rightarrow> trace_env \<Rightarrow> call_frame \<Rightarrow> int \<Rightarrow> PhpValue.zval \<Rightarrow> string option" where
  "computerized_return cfg te fr nr z =
     map_option (\<lambda>t. cstr (dec_int (to_int32 (fse_level (cf_fse fr))) @ [tab] @ dec_int nr @ [tab] @ ''R'' @ [tab, tab, tab] @ t @ [nl]))
       (add_single_value cfg (te_heap te) z)"

section \<open>The textual format\<close>

definition textual_header :: "trace_env \<Rightarrow> string" where
  "textual_header te = ''TRACE START ['' @ te_time te @ '']'' @ [nl]"

definition textual_footer :: "trace_config \<Rightarrow> trace_env \<Rightarrow> string" where
  "textual_footer cfg te =
     since_start cfg ''%10.4F'' (te_utime te) @ '' '' @ pad_left 10 (unsigned_long (te_memory te)) @ [nl] @
     ''TRACE END   ['' @ te_time te @ '']'' @ [nl, nl]"

text \<open>The arguments between commas; behind the name of the variadic ones they are numbered. \<open>comma\<close> says whether one
  stands before the next argument, \<open>opened\<close> how many variadic ones have been written, once they have begun.\<close>

fun textual_args :: "trace_config \<Rightarrow> heap \<Rightarrow> bool \<Rightarrow> nat option \<Rightarrow> var_name list \<Rightarrow> string option" where
  "textual_args cfg h comma opened [] = Some (if opened \<noteq> None then '')'' else [])"
| "textual_args cfg h comma opened (v # vs) =
     (let start = (if comma then '', '' else [])
      in if vn_variadic v \<and> vn_data v = IS_UNDEF
         then map_option (\<lambda>t. start @ ''...'' @ arg_label cfg v @ ''variadic('' @ t)
                (textual_args cfg h False (Some (case opened of None \<Rightarrow> 0 | Some k \<Rightarrow> k)) vs)
         else do {
           a \<leftarrow> traced_arg cfg h v;
           let nr = (case opened of Some k \<Rightarrow> if tc_collect_params cfg \<noteq> 5 then dec k @ '' => '' else [] | None \<Rightarrow> []);
           t \<leftarrow> textual_args cfg h True (if tc_collect_params cfg \<noteq> 5 then map_option Suc opened else opened) vs;
           Some (start @ arg_label cfg v @ nr @ a @ t)
         })"

definition textual_entry :: "trace_config \<Rightarrow> trace_env \<Rightarrow> call_frame \<Rightarrow> string option" where
  "textual_entry cfg te fr =
     (let fse = cf_fse fr
      in do {
        name \<leftarrow> show_fname (tc_docref cfg) False False (fse_function fse);
        args \<leftarrow> (if 0 < tc_collect_params cfg then textual_args cfg (te_heap te) False None (cf_var fr) else Some []);
        Some (cstr (since_start cfg ''%10.4F'' (cf_time fr) @ '' '' @ pad_left 10 (unsigned_long (cf_memory fr)) @ '' '' @
          (if tc_show_mem_delta cfg then pad_left 8 (plus_long (cf_memory fr - cf_prev_memory fr)) @ '' '' else []) @
          concat (replicate (nat (fse_level fse)) ''  '') @ ''-> '' @ cstr name @ ''('' @ args @ traced_include cfg fse @ '') '' @
          show_str (fse_filename fse) @ '':'' @ dec_int (fse_lineno fse) @ [nl]))
      })"

definition textual_return_start :: "trace_config \<Rightarrow> trace_env \<Rightarrow> call_frame \<Rightarrow> string" where
  "textual_return_start cfg te fr =
     since_start cfg ''%10.4F'' (te_utime te) @ '' '' @ pad_left 10 (unsigned_long (te_memory te)) @ '' '' @
     (if tc_show_mem_delta cfg then replicate 8 (CHR '' '') else []) @
     concat (replicate (nat (fse_level (cf_fse fr))) ''  '') @ '' >=> ''"

definition full_value :: "trace_config \<Rightarrow> trace_env \<Rightarrow> PhpValue.zval \<Rightarrow> string option" where
  "full_value cfg te z = get_zval_value (tc_engine cfg) (te_heap te) z False (tc_values cfg)"

definition textual_return :: "trace_config \<Rightarrow> trace_env \<Rightarrow> call_frame \<Rightarrow> PhpValue.zval \<Rightarrow> string option" where
  "textual_return cfg te fr z = map_option (\<lambda>t. cstr (textual_return_start cfg te fr @ t @ [nl])) (full_value cfg te z)"

text \<open>The key and the value of a generator that runs and has not ended.\<close>

definition textual_generator_return ::
  "trace_config \<Rightarrow> trace_env \<Rightarrow> call_frame \<Rightarrow> (PhpValue.zval \<times> PhpValue.zval) option \<Rightarrow> string option" where
  "textual_generator_return cfg te fr running =
     (case running of
        None \<Rightarrow> Some []
      | Some (key, val) \<Rightarrow>
          do {
            k \<leftarrow> full_value cfg te key;
            v \<leftarrow> full_value cfg te val;
            Some (cstr (textual_return_start cfg te fr @ ''('' @ k @ '' => '' @ v @ '')'' @ [nl]))
          })"

text \<open>An assignment: the variable, the operator, and either the variable on the right or the value.\<close>

definition textual_assignment ::
  "trace_config \<Rightarrow> trace_env \<Rightarrow> call_frame \<Rightarrow> string \<Rightarrow> PhpValue.zval \<Rightarrow> string option \<Rightarrow> string \<Rightarrow> string \<Rightarrow> int \<Rightarrow> string option" where
  "textual_assignment cfg te fr full_varname z right_full_varname op file lno =
     do {
       right \<leftarrow> (if op = [] then Some []
                 else map_option (\<lambda>t. '' '' @ op @ '' '' @ t)
                        (case right_full_varname of Some r \<Rightarrow> Some r | None \<Rightarrow> full_value cfg te z));
       Some (cstr (replicate 20 (CHR '' '') @ (if tc_show_mem_delta cfg then replicate 8 (CHR '' '') else []) @
         concat (replicate (nat (fse_level (cf_fse fr)) + 1) ''  '') @ ''   => '' @ full_varname @ right @ '' '' @ file @ '':'' @
         dec_int lno @ [nl]))
     }"

section \<open>The HTML format\<close>

definition quoted :: "string \<Rightarrow> string" where
  "quoted s = [CHR 0x27] @ s @ [CHR 0x27]"

definition html_header :: "trace_config \<Rightarrow> string" where
  "html_header cfg =
     ''<table class='' @ quoted ''xdebug-trace'' @ '' dir='' @ quoted ''ltr'' @ '' border='' @ quoted ''1'' @ '' cellspacing='' @ quoted ''0'' @
     ''>'' @ [nl] @ [tab] @ ''<tr><th>#</th><th>Time</th><th>Mem</th>'' @
     (if tc_show_mem_delta cfg then ''<th>&#948; Mem</th>'' else []) @
     ''<th colspan='' @ quoted ''2'' @ ''>Function</th><th>Location</th></tr>'' @ [nl]"

definition html_footer :: string where
  "html_footer = ''</table>'' @ [nl]"

definition html_include :: "trace_config \<Rightarrow> function_stack_entry \<Rightarrow> string option" where
  "html_include cfg fse =
     (case include_filename fse of
        None \<Rightarrow> Some []
      | Some f \<Rightarrow>
          if func_type (fse_function fse) = XFUNC_EVAL
          then do {
            parts \<leftarrow> explode [nl] f [] 99999;
            joined \<leftarrow> join (tc_junk cfg) ''<br />'' parts 0 99999;
            Some (quoted (str_text joined))
          }
          else Some f)"

definition html_entry :: "trace_config \<Rightarrow> call_frame \<Rightarrow> int \<Rightarrow> string option" where
  "html_entry cfg fr nr =
     (let fse = cf_fse fr
      in do {
        name \<leftarrow> show_fname (tc_docref cfg) False False (fse_function fse);
        inc \<leftarrow> html_include cfg fse;
        Some (cstr ([tab] @ ''<tr><td>'' @ dec_int nr @ ''</td><td>'' @ since_start cfg ''%0.6F'' (cf_time fr) @ ''</td><td align='' @
          quoted ''right'' @ ''>'' @ unsigned_long (cf_memory fr) @ ''</td>'' @
          (if tc_show_mem_delta cfg
           then ''<td align='' @ quoted ''right'' @ ''>'' @ signed_long (cf_memory fr - cf_prev_memory fr) @ ''</td>'' else []) @
          ''<td align='' @ quoted ''left'' @ ''>'' @ concat (replicate (nat (fse_level fse - 1)) ''&nbsp; &nbsp;'') @ ''-&gt;</td><td>'' @
          cstr name @ ''('' @ inc @ '')</td><td>'' @ show_str (fse_filename fse) @ '':'' @ dec_int (fse_lineno fse) @ ''</td></tr>'' @ [nl]))
      })"

section \<open>Starting and stopping\<close>

definition select_trace_handler :: "trace_config \<Rightarrow> nat \<Rightarrow> trace_handler" where
  "select_trace_handler cfg options =
     (if and options XDEBUG_TRACE_OPTION_HTML \<noteq> 0 then Html
      else if and options XDEBUG_TRACE_OPTION_COMPUTERIZED \<noteq> 0 then Computerized
      else if tc_format cfg = 1 then Computerized
      else if tc_format cfg = 2 then Html
      else Textual)"

text \<open>The name used for the file, or none when it cannot be opened.\<close>

definition trace_open_file :: "trace_config \<Rightarrow> string option \<Rightarrow> string \<Rightarrow> nat \<Rightarrow> string option option" where
  "trace_open_file cfg fname script_filename options =
     do {
       filename \<leftarrow>
         (case fname of
            Some (c # cs) \<Rightarrow> Some (Some (c # cs))
          | _ \<Rightarrow>
              if tc_output_name cfg = [] then Some None
              else do {
                f \<leftarrow> format_output_filename (tc_junk cfg) (tc_names cfg) (tc_output_name cfg) (Some script_filename);
                if str_l f \<le> 0 then Some None
                else if tc_output_dir cfg = [] then None
                else Some (Some (tc_output_dir cfg @ (if last (tc_output_dir cfg) = DEFAULT_SLASH then [] else [DEFAULT_SLASH]) @ str_text f))
              });
       Some (case filename of
               None \<Rightarrow> None
             | Some f \<Rightarrow> tc_open cfg f (and options XDEBUG_TRACE_OPTION_APPEND \<noteq> 0) (and options XDEBUG_TRACE_OPTION_NAKED_FILENAME \<noteq> 0))
     }"

definition write_header :: "trace_config \<Rightarrow> trace_env \<Rightarrow> trace_handler \<Rightarrow> string" where
  "write_header cfg te t =
     (case t of Textual \<Rightarrow> textual_header te | Computerized \<Rightarrow> computerized_header cfg te | Html \<Rightarrow> html_header cfg)"

definition write_footer :: "trace_config \<Rightarrow> trace_env \<Rightarrow> trace_handler \<Rightarrow> string" where
  "write_footer cfg te t =
     (case t of Textual \<Rightarrow> textual_footer cfg te | Computerized \<Rightarrow> computerized_footer cfg te | Html \<Rightarrow> html_footer)"

text \<open>The name of the file is returned when the trace has been started.\<close>

definition start_trace_file ::
  "trace_config \<Rightarrow> trace_env \<Rightarrow> string option \<Rightarrow> string \<Rightarrow> nat \<Rightarrow> tracer \<Rightarrow> (string option \<times> tracer) option" where
  "start_trace_file cfg te fname script_filename options tr =
     do {
       let t = select_trace_handler cfg options;
       used \<leftarrow> trace_open_file cfg fname script_filename options;
       Some (used,
         case used of
           None \<Rightarrow> tr\<lparr>tr_handler := t, tr_context := None\<rparr>
         | Some f \<Rightarrow> tr\<lparr>tr_handler := t, tr_context := Some \<lparr>tx_filename = f, tx_lines = [(Trace_header, write_header cfg te t)]\<rparr>, do_trace := True\<rparr>)
     }"

definition stop_trace_file :: "trace_config \<Rightarrow> trace_env \<Rightarrow> tracer \<Rightarrow> tracer" where
  "stop_trace_file cfg te tr =
     (case tr_context tr of
        None \<Rightarrow> tr\<lparr>do_trace := False\<rparr>
      | Some c \<Rightarrow>
          tr\<lparr>do_trace := False, tr_context := None,
             tr_closed := tr_closed tr @ [c\<lparr>tx_lines := tx_lines c @ [(Trace_footer, write_footer cfg te (tr_handler tr))]\<rparr>]\<rparr>)"

text \<open>The functions of PHP, with their result; the frame of the caller gives the name of the script.\<close>

definition php_start_trace ::
  "trace_config \<Rightarrow> trace_env \<Rightarrow> fstack \<Rightarrow> string option \<Rightarrow> nat \<Rightarrow> tracer \<Rightarrow> (string option \<times> tracer) option" where
  "php_start_trace cfg te st fname options tr =
     (if do_trace tr then Some (None, tr)
      else do {
        fse \<leftarrow> get_stack_frame 0 st;
        file \<leftarrow> fse_filename fse;
        (used, tr) \<leftarrow> start_trace_file cfg te fname file options tr;
        Some (used, tr\<lparr>do_trace := used \<noteq> None\<rparr>)
      })"

definition php_stop_trace :: "trace_config \<Rightarrow> trace_env \<Rightarrow> tracer \<Rightarrow> (string option \<times> tracer) option" where
  "php_stop_trace cfg te tr =
     (if do_trace tr
      then map_option (\<lambda>c. (Some (tx_filename c), stop_trace_file cfg te tr)) (tr_context tr)
      else Some (None, tr))"

definition php_get_tracefile_name :: "tracer \<Rightarrow> string option option" where
  "php_get_tracefile_name tr = (if do_trace tr then map_option (\<lambda>c. Some (tx_filename c)) (tr_context tr) else Some None)"

section \<open>The calls of the handlers\<close>

text \<open>The line that a handler writes at the begin and the end of a call and for its value, for the handlers that have
  such a function.\<close>

definition function_entry :: "trace_config \<Rightarrow> trace_env \<Rightarrow> trace_handler \<Rightarrow> call_frame \<Rightarrow> int \<Rightarrow> string option" where
  "function_entry cfg te t fr nr =
     (case t of Textual \<Rightarrow> textual_entry cfg te fr | Computerized \<Rightarrow> computerized_entry cfg te fr nr | Html \<Rightarrow> html_entry cfg fr nr)"

definition return_value :: "trace_config \<Rightarrow> trace_env \<Rightarrow> trace_handler \<Rightarrow> call_frame \<Rightarrow> int \<Rightarrow> PhpValue.zval \<Rightarrow> string option" where
  "return_value cfg te t fr nr z = (if t = Textual then textual_return cfg te fr z else computerized_return cfg te fr nr z)"

text \<open>A call of a handler for a frame that is not filtered.\<close>

definition trace_call :: "bool \<Rightarrow> call_frame \<Rightarrow> trace_record \<Rightarrow> string option \<Rightarrow> tracer \<Rightarrow> tracer option" where
  "trace_call cond fr r line tr =
     (if filtered_tracing (cf_fse fr) = 0 \<and> is_tracing tr \<and> cond
      then map_option (\<lambda>t. trace_write r t tr) line
      else Some tr)"

end
