(* ===== verification/CallHooks.thy ===== *)
theory CallHooks
  imports Tracing DbgpCommands Stepping CoverageFacts
begin

text \<open>
  What happens around the calls of a script: \<open>xdebug_execute_ex\<close> and \<open>xdebug_execute_internal\<close> of \<open>xdebug.c\<close>,
  each cut at the call of the engine's own executor into what is done before and after, with its local variables in
  between. A frame is known by its place in the stack; one that is not there any more is the fault \<open>None\<close>. The first
  call of a request looks at the request and starts debugger, profiler, trace and garbage statistics; connecting to
  a client and opening the statistics are parameters.
  Setting the engine's instruction pointer back to the start of the code is not modelled.
\<close>

section \<open>The request\<close>

text \<open>The variables of the request and of the environment; the engine converts a value to a string.\<close>

record request =
  rq_get :: "string \<Rightarrow> PhpValue.zval option"
  rq_post :: "string \<Rightarrow> PhpValue.zval option"
  rq_cookie :: "string \<Rightarrow> PhpValue.zval option"
  rq_to_string :: "PhpValue.zval \<Rightarrow> string"
  rq_xdebug_config :: "string option"
  rq_headers_sent :: bool

record start_settings =
  ss_remote_autostart :: bool
  ss_remote_enable :: bool
  ss_remote_mode_req :: bool
  ss_profiler_enable :: bool
  ss_profiler_trigger :: bool
  ss_profiler_trigger_value :: "string option"
  ss_auto_trace :: bool
  ss_trace_trigger :: bool
  ss_trace_trigger_value :: "string option"
  ss_gc_stats :: bool

text \<open>A cookie or header that is sent: the value of the session cookie, or the name of the profile.\<close>

datatype header = Session_cookie string | Profile_header

definition get_or_post :: "string \<Rightarrow> request \<Rightarrow> PhpValue.zval option" where
  "get_or_post name rq = (case rq_get rq name of Some v \<Rightarrow> Some v | None \<Rightarrow> rq_post rq name)"

text \<open>The session cookie: the magic cookie, the key and what is sent.\<close>

definition session_start :: "request \<Rightarrow> string option \<Rightarrow> string option \<times> string option \<times> header list" where
  "session_start rq ide_key =
     (case (if rq_headers_sent rq then None else get_or_post ''XDEBUG_SESSION_START'' rq) of
        Some v \<Rightarrow> (let s = cstr (rq_to_string rq v) in (Some s, Some s, [Session_cookie (rq_to_string rq v)]))
      | None \<Rightarrow>
          (case rq_cookie rq ''XDEBUG_SESSION'' of
             Some v \<Rightarrow> (let s = cstr (rq_to_string rq v) in (Some s, Some s, []))
           | None \<Rightarrow>
               (case rq_xdebug_config rq of
                  Some c \<Rightarrow>
                    (Some c, ide_key,
                     case ide_key of
                       None \<Rightarrow> []
                     | Some k \<Rightarrow> if k \<noteq> [] \<and> \<not> rq_headers_sent rq then [Session_cookie k] else [])
                | None \<Rightarrow> (None, ide_key, []))))"

definition session_stop :: "request \<Rightarrow> string option \<times> string option \<times> header list \<Rightarrow> string option \<times> string option \<times> header list" where
  "session_stop rq = (\<lambda>(magic, ide_key, hs).
     if get_or_post ''XDEBUG_SESSION_STOP'' rq \<noteq> None \<and> \<not> rq_headers_sent rq
     then (None, ide_key, hs @ [Session_cookie []]) else (magic, ide_key, hs))"

text \<open>\<open>xdebug_trigger_enabled\<close>; reading the text of a value that is no string is a fault.\<close>

definition trigger_enabled :: "bool \<Rightarrow> string \<Rightarrow> string option \<Rightarrow> request \<Rightarrow> bool option" where
  "trigger_enabled setting var_name var_value rq =
     (if \<not> setting then Some False
      else
        (case (case get_or_post var_name rq of Some v \<Rightarrow> Some v | None \<Rightarrow> rq_cookie rq var_name) of
           None \<Rightarrow> Some False
         | Some v \<Rightarrow>
             (case var_value of
                None \<Rightarrow> Some True
              | Some [] \<Rightarrow> Some True
              | Some t \<Rightarrow> (case v of IS_STRING s \<Rightarrow> Some (t = cstr s) | _ \<Rightarrow> None))))"

section \<open>State\<close>

record 'w hook_state =
  hs_g :: call_globals
  hs_engine :: CodeCoverage.engine
  hs_dbg :: dbg
  hs_world :: 'w
  hs_proc :: proc
  hs_shm :: shm
  hs_no_exec :: bool
  hs_in_execution :: bool
  hs_program_named :: bool
  hs_ide_key :: "string option"
  hs_headers :: "header list"
  hs_tracer :: tracer
  hs_gc_stats :: bool
  hs_error_cb :: nat
  hs_too_deep :: nat

text \<open>What the hooks are given: settings, the client, PHP's functions; \<open>old_error_cb\<close> is the handler of errors that was
  there before.\<close>

record 'w hook_env =
  he_config :: call_config
  he_settings :: start_settings
  he_request :: request
  he_remote :: "'w remote"
  he_debug_init :: "'w \<Rightarrow> dbg \<Rightarrow> ('w \<times> dbg) option"
  he_breakpoints_allowed :: bool
  he_trace :: trace_config
  he_trace_options :: nat
  he_gc_starts :: bool
  he_soap :: bool
  he_old_error_cb :: nat
  he_profiler :: profiler_config
  he_names :: "nat \<Rightarrow> name_env"
  he_ops :: double_ops
  he_junk :: char
  he_fuel :: nat
  he_pid :: int

text \<open>A call: what the engine says of it, its function, the index of its code for the coverage, the addresses that
  the frame keeps, and the readings of clock and memory when its execution starts and ends, for the profiler and for
  a trace; at the end also the value returned, and key and value of a generator that runs.\<close>

record call_info =
  ci_env :: call_env
  ci_func :: zend_function
  ci_code :: nat
  ci_caller :: "nat option"
  ci_symbol_table :: "nat option"
  ci_this :: "nat option"
  ci_start :: "u64 \<times> u64"
  ci_end :: "u64 \<times> u64"
  ci_trace_start :: trace_env
  ci_trace_end :: trace_env
  ci_return_value :: "PhpValue.zval option"
  ci_generator :: "(PhpValue.zval \<times> PhpValue.zval) option"

definition xg_level :: "'w hook_state \<Rightarrow> nat" where
  "xg_level s = level (xg_cov (hs_g s))"

definition map_cov :: "(coverage \<Rightarrow> coverage) \<Rightarrow> 'w hook_state \<Rightarrow> 'w hook_state" where
  "map_cov f s = s\<lparr>hs_g := (hs_g s)\<lparr>xg_cov := f (xg_cov (hs_g s))\<rparr>\<rparr>"

definition frame_at_index :: "nat \<Rightarrow> 'w hook_state \<Rightarrow> call_frame option" where
  "frame_at_index i s =
     (case xg_stack (hs_g s) of None \<Rightarrow> None | Some frs \<Rightarrow> if i < length frs then Some (frs ! i) else None)"

definition put_frame :: "nat \<Rightarrow> call_frame \<Rightarrow> 'w hook_state \<Rightarrow> 'w hook_state" where
  "put_frame i fr s = s\<lparr>hs_g := (hs_g s)\<lparr>xg_stack := map_option (\<lambda>frs. frs[i := fr]) (xg_stack (hs_g s))\<rparr>\<rparr>"

section \<open>The first call\<close>

definition start_profiler :: "'w hook_env \<Rightarrow> string \<Rightarrow> 'w hook_state \<Rightarrow> 'w hook_state option" where
  "start_profiler he file s =
     (let p = xg_profiler (hs_g s)
      in do {
        trigger \<leftarrow> (if \<not> profiler_enabled p \<and> \<not> ss_profiler_enable (he_settings he)
                    then trigger_enabled (ss_profiler_trigger (he_settings he)) ''XDEBUG_PROFILE''
                           (ss_profiler_trigger_value (he_settings he)) (he_request he)
                    else Some True);
        if \<not> profiler_enabled p \<and> (ss_profiler_enable (he_settings he) \<or> trigger)
        then do {
          (ok, p) \<leftarrow> profiler_init (he_junk he) (he_names he) (he_profiler he) file p;
          Some (if ok
                then s\<lparr>hs_g := (hs_g s)\<lparr>xg_profiler := p\<lparr>profiler_enabled := True\<rparr>\<rparr>,
                       hs_headers := hs_headers s @ (if rq_headers_sent (he_request he) then [] else [Profile_header])\<rparr>
                else s\<lparr>hs_g := (hs_g s)\<lparr>xg_profiler := p\<rparr>\<rparr>)
        }
        else Some s
      })"

definition start_trace :: "'w hook_env \<Rightarrow> trace_env \<Rightarrow> string \<Rightarrow> 'w hook_state \<Rightarrow> 'w hook_state option" where
  "start_trace he te file s =
     do {
       trigger \<leftarrow> (if ss_auto_trace (he_settings he) then Some True
                   else trigger_enabled (ss_trace_trigger (he_settings he)) ''XDEBUG_TRACE''
                          (ss_trace_trigger_value (he_settings he)) (he_request he));
       if trigger \<and> tc_output_dir (he_trace he) \<noteq> []
       then map_option (\<lambda>(_, tr). s\<lparr>hs_tracer := tr\<rparr>)
              (start_trace_file (he_trace he) te None file (he_trace_options he) (hs_tracer s))
       else Some s
     }"

definition first_call :: "'w hook_env \<Rightarrow> trace_env \<Rightarrow> string \<Rightarrow> 'w hook_state \<Rightarrow> 'w hook_state option" where
  "first_call he te file s =
     (let (magic, ide_key, hdrs) = session_stop (he_request he) (session_start (he_request he) (hs_ide_key s));
          s = s\<lparr>hs_ide_key := ide_key, hs_headers := hs_headers s @ hdrs\<rparr>;
          set = he_settings he
      in do {
        s \<leftarrow> (if (magic \<noteq> None \<or> ss_remote_autostart set) \<and> \<not> remote_enabled (hs_dbg s) \<and> ss_remote_enable set \<and>
                 ss_remote_mode_req set
              then map_option (\<lambda>(w, d). s\<lparr>hs_world := w, hs_dbg := d\<rparr>) (he_debug_init he (hs_world s) (hs_dbg s))
              else Some s);
        s \<leftarrow> start_profiler he file s;
        s \<leftarrow> start_trace he te file s;
        Some (if \<not> hs_gc_stats s \<and> ss_gc_stats set \<and> he_gc_starts he then s\<lparr>hs_gc_stats := True\<rparr> else s)
      })"


section \<open>Steps that both hooks share\<close>

text \<open>One level deeper; beyond the limit an exception is thrown, which the engine raises when the call is over.\<close>

definition raise_level :: "'w hook_env \<Rightarrow> 'w hook_state \<Rightarrow> 'w hook_state" where
  "raise_level he s =
     (let s = map_cov (\<lambda>c. c\<lparr>level := level c + 1\<rparr>) s; limit = cc_max_nesting_level (he_config he)
      in if limit < int (xg_level s) \<and> limit \<noteq> - 1 then s\<lparr>hs_too_deep := hs_too_deep s + 1\<rparr> else s)"

definition new_frame :: "'w hook_env \<Rightarrow> call_info \<Rightarrow> nat \<Rightarrow> 'w hook_state \<Rightarrow> (nat \<times> 'w hook_state) option" where
  "new_frame he ci type s =
     do {
       (fr, g) \<leftarrow> add_stack_frame (he_config he) (remote_enabled (hs_dbg s)) (ci_env ci) (ci_func ci) type (hs_g s);
       frs \<leftarrow> xg_stack g;
       Some (length frs - 1, s\<lparr>hs_g := g\<rparr>)
     }"

text \<open>The calls of the trace handler for a frame; \<open>cond\<close> is what the hook asks of the frame besides.\<close>

definition traced :: "nat \<Rightarrow> (call_frame \<Rightarrow> tracer \<Rightarrow> tracer option) \<Rightarrow> 'w hook_state \<Rightarrow> 'w hook_state option" where
  "traced i f s =
     do {
       fr \<leftarrow> frame_at_index i s;
       tr \<leftarrow> f fr (hs_tracer s);
       Some (s\<lparr>hs_tracer := tr\<rparr>)
     }"

definition trace_entry ::
  "'w hook_env \<Rightarrow> trace_env \<Rightarrow> (call_frame \<Rightarrow> bool) \<Rightarrow> int \<Rightarrow> nat \<Rightarrow> 'w hook_state \<Rightarrow> 'w hook_state option" where
  "trace_entry he te cond nr i =
     traced i (\<lambda>fr tr. trace_call (cond fr) fr (Trace_entry nr) (function_entry (he_trace he) te (tr_handler tr) fr nr) tr)"

definition trace_exit ::
  "'w hook_env \<Rightarrow> trace_env \<Rightarrow> (call_frame \<Rightarrow> bool) \<Rightarrow> int \<Rightarrow> nat \<Rightarrow> 'w hook_state \<Rightarrow> 'w hook_state option" where
  "trace_exit he te cond nr i =
     traced i (\<lambda>fr tr. trace_call (cond fr \<and> has_exit (tr_handler tr)) fr (Trace_exit nr)
       (Some (computerized_exit (he_trace he) te fr nr)) tr)"

definition trace_value ::
  "'w hook_env \<Rightarrow> trace_env \<Rightarrow> (call_frame \<Rightarrow> bool) \<Rightarrow> int \<Rightarrow> PhpValue.zval \<Rightarrow> nat \<Rightarrow> 'w hook_state \<Rightarrow> 'w hook_state option" where
  "trace_value he te cond nr z i =
     traced i (\<lambda>fr tr. trace_call (cond fr \<and> has_return_value (tr_handler tr)) fr (Trace_return nr)
       (return_value (he_trace he) te (tr_handler tr) fr nr z) tr)"

definition function_breakpoint :: "'w hook_env \<Rightarrow> nat \<Rightarrow> nat \<Rightarrow> 'w hook_state \<Rightarrow> 'w hook_state option" where
  "function_breakpoint he type i s =
     (if remote_enabled (hs_dbg s) \<and> he_breakpoints_allowed he
      then do {
        fr \<leftarrow> frame_at_index i s;
        (w, d) \<leftarrow> map_option keep_session
          (handle_breakpoints (he_remote he) (fstack_of (xg_stack (hs_g s))) (cf_fse fr) type (hs_world s) (hs_dbg s));
        Some (s\<lparr>hs_world := w, hs_dbg := d\<rparr>)
      }
      else Some s)"

definition set_prof :: "nat \<Rightarrow> prof_data \<Rightarrow> 'w hook_state \<Rightarrow> 'w hook_state option" where
  "set_prof i pd s = map_option (\<lambda>fr. put_frame i (fr\<lparr>cf_prof := pd\<rparr>) s) (frame_at_index i s)"

text \<open>The end of the profile of a frame, whose caller is the frame below.\<close>

definition end_profile :: "'w hook_env \<Rightarrow> u64 \<times> u64 \<Rightarrow> nat \<Rightarrow> 'w hook_state \<Rightarrow> 'w hook_state option" where
  "end_profile he reading i s =
     do {
       fr \<leftarrow> frame_at_index i s;
       let caller = (if i = 0 then None else map_option cf_prof (frame_at_index (i - 1) s));
       (pd, caller, p) \<leftarrow> function_end (he_ops he) (cc_profiler_aggregate (he_config he)) (fst reading) (snd reading)
          (cf_fse fr) (cf_prof fr) caller (xg_profiler (hs_g s));
       s \<leftarrow> set_prof i pd (s\<lparr>hs_g := (hs_g s)\<lparr>xg_profiler := p\<rparr>\<rparr>);
       case caller of None \<Rightarrow> Some s | Some q \<Rightarrow> set_prof (i - 1) q s
     }"

definition finish_profile :: "'w hook_env \<Rightarrow> u64 \<times> u64 \<Rightarrow> nat \<Rightarrow> 'w hook_state \<Rightarrow> 'w hook_state option" where
  "finish_profile he reading i s =
     (if profiler_enabled (xg_profiler (hs_g s))
      then do {
        s \<leftarrow> end_profile he reading i s;
        fr \<leftarrow> frame_at_index i s;
        set_prof i (free_function_details (cf_prof fr)) s
      }
      else Some s)"

text \<open>The innermost frame is removed and freed, the level goes back.\<close>

definition drop_frame :: "'w hook_state \<Rightarrow> 'w hook_state option" where
  "drop_frame s =
     (case xg_stack (hs_g s) of
        None \<Rightarrow> Some s
      | Some frs \<Rightarrow> if frs = [] then None else Some (s\<lparr>hs_g := (hs_g s)\<lparr>xg_stack := Some (butlast frs)\<rparr>\<rparr>))"

definition lower_level :: "'w hook_state \<Rightarrow> 'w hook_state" where
  "lower_level s = map_cov (\<lambda>c. c\<lparr>level := level c - 1\<rparr>) s"

section \<open>Functions of the script\<close>

text \<open>The local variables of \<open>xdebug_execute_ex\<close>; the code runs without a frame after some early returns, or not
  at all.\<close>

record user_locals =
  ul_frame :: nat
  ul_do_return :: bool
  ul_function_nr :: int
  ul_coverage :: "(string \<times> string) option"

datatype user_entry = Refused | Unframed | Framed user_locals

text \<open>The variables of the code go to all frames from the innermost on up to a function.\<close>

fun add_to_frames :: "char \<Rightarrow> zend_function \<Rightarrow> call_frame list \<Rightarrow> call_frame list option" where
  "add_to_frames junk opa [] = Some []"
| "add_to_frames junk opa (fr # frs) =
     do {
       fr \<leftarrow> add_used_variables junk opa fr;
       if XDEBUG_IS_FUNCTION (func_type (fse_function (cf_fse fr))) then Some (fr # frs)
       else do { frs \<leftarrow> add_to_frames junk opa frs; Some (fr # frs) }
     }"

definition add_variables :: "'w hook_env \<Rightarrow> zend_function \<Rightarrow> 'w hook_state \<Rightarrow> 'w hook_state option" where
  "add_variables he opa s =
     (case xg_stack (hs_g s) of
        None \<Rightarrow> Some s
      | Some frs \<Rightarrow>
          if remote_enabled (hs_dbg s) \<or> cc_collect_vars (he_config he) \<or> cc_show_local_vars (he_config he)
          then map_option (\<lambda>r. s\<lparr>hs_g := (hs_g s)\<lparr>xg_stack := Some (rev r)\<rparr>\<rparr>) (add_to_frames (he_junk he) opa (rev frs))
          else Some s)"

text \<open>A call of \<open>__call\<close> makes the frame below one of the script.\<close>

definition mark_magic_call :: "nat \<Rightarrow> 'w hook_state \<Rightarrow> 'w hook_state option" where
  "mark_magic_call i s =
     do {
       fr \<leftarrow> frame_at_index i s;
       if 0 < i \<and> func_function (fse_function (cf_fse fr)) = Some ''__call''
       then map_option (\<lambda>pr. put_frame (i - 1) (pr\<lparr>cf_fse := (cf_fse pr)\<lparr>user_defined := XDEBUG_EXTERNAL\<rparr>\<rparr>) s)
              (frame_at_index (i - 1) s)
       else Some s
     }"

definition link_frame :: "call_info \<Rightarrow> nat \<Rightarrow> 'w hook_state \<Rightarrow> 'w hook_state option" where
  "link_frame ci i s =
     map_option (\<lambda>fr. put_frame i (fr\<lparr>cf_fse := (cf_fse fr)\<lparr>fse_execute_data := ci_caller ci,
         fse_symbol_table := ci_symbol_table ci, fse_this := ci_this ci\<rparr>\<rparr>) s) (frame_at_index i s)"

definition start_coverage :: "'w hook_env \<Rightarrow> nat \<Rightarrow> nat \<Rightarrow> 'w hook_state \<Rightarrow> ((string \<times> string) option \<times> 'w hook_state) option" where
  "start_coverage he code i s =
     do {
       fr \<leftarrow> frame_at_index i s;
       let cov = xg_cov (hs_g s);
       if filtered_code_coverage (cf_fse fr) = 0 \<and> do_code_coverage cov \<and> cc_unused cov
       then do {
         opa \<leftarrow> (if code < length (op_arrays (hs_engine s)) then Some (op_arrays (hs_engine s) ! code) else None);
         name \<leftarrow> func_format (build_fname_from_oparray opa);
         (eg, cov) \<leftarrow> start_of_function (he_junk he) (he_fuel he) code (hs_engine s, cov);
         Some (Some (oa_filename opa, name), (map_cov (\<lambda>_. cov) s)\<lparr>hs_engine := eg\<rparr>)
       }
       else Some (None, s)
     }"

definition finish_coverage :: "'w hook_env \<Rightarrow> (string \<times> string) option \<Rightarrow> nat \<Rightarrow> 'w hook_state \<Rightarrow> 'w hook_state option" where
  "finish_coverage he cc i s =
     do {
       fr \<leftarrow> frame_at_index i s;
       let cov = xg_cov (hs_g s);
       case cc of
         Some (file, name) \<Rightarrow>
           if filtered_code_coverage (cf_fse fr) = 0 \<and> do_code_coverage cov \<and> cc_unused cov
           then map_option (\<lambda>cov. map_cov (\<lambda>_. cov) s) (end_of_function (he_junk he) file name cov)
           else Some s
       | None \<Rightarrow> Some s
     }"

definition register_eval :: "nat \<Rightarrow> 'w hook_state \<Rightarrow> 'w hook_state option" where
  "register_eval i s =
     do {
       fr \<leftarrow> frame_at_index i s;
       if remote_enabled (hs_dbg s) \<and> func_type (fse_function (cf_fse fr)) = XFUNC_EVAL
       then map_option (\<lambda>(_, d). s\<lparr>hs_dbg := d\<rparr>) (register_eval_id (cf_fse fr) (hs_dbg s))
       else Some s
     }"

definition begin_user_profile :: "'w hook_env \<Rightarrow> call_info \<Rightarrow> nat \<Rightarrow> 'w hook_state \<Rightarrow> 'w hook_state option" where
  "begin_user_profile he ci i s =
     (if profiler_enabled (xg_profiler (hs_g s))
      then do {
        fr \<leftarrow> frame_at_index i s;
        pd \<leftarrow> add_function_details_user (cc_docref (he_config he)) (cf_fse fr) (cstr (zf_filename (ci_func ci)))
                (cf_line_start fr) (cf_prof fr);
        set_prof i (function_begin (fst (ci_start ci)) (snd (ci_start ci)) pd) s
      }
      else Some s)"

text \<open>A statement of compiled code that is being looked at for breakpoints.\<close>

definition in_statement :: "calls \<Rightarrow> bool" where
  "in_statement prev =
     (case prev of
        [] \<Rightarrow> False
      | p # _ \<Rightarrow>
          (case ed_func p of
             None \<Rightarrow> False
           | Some f \<Rightarrow> ZEND_USER_CODE (zf_type f) \<and> map_option co_opcode (ed_opline p) = Some ZEND_EXT_STMT))"

definition execute_ex_enter :: "'w hook_env \<Rightarrow> call_info \<Rightarrow> 'w hook_state \<Rightarrow> (user_entry \<times> 'w hook_state) option" where
  "execute_ex_enter he ci s =
     (let file = cstr (zf_filename (ci_func ci)); do_return = is_tracing (hs_tracer s)
      in if hs_no_exec s then Some (Refused, s)
         else if file = ''xdebug://debug-eval'' \<or> in_statement (tl (ce_calls (ci_env ci))) then Some (Unframed, s)
         else do {
           let s = (if hs_program_named s then s
                    else s\<lparr>hs_program_named := True, hs_dbg := (hs_dbg s)\<lparr>program_name := file\<rparr>\<rparr>);
           s \<leftarrow> (if xg_level s = 0 \<and> hs_in_execution s then first_call he (ci_trace_start ci) file s else Some s);
           (i, s) \<leftarrow> new_frame he ci XDEBUG_EXTERNAL (raise_level he s);
           s \<leftarrow> mark_magic_call i s;
           let nr = to_int32 (function_count (xg_cov (hs_g s)));
           s \<leftarrow> trace_entry he (ci_trace_start ci) (\<lambda>_. True) nr i s;
           s \<leftarrow> link_frame ci i s;
           s \<leftarrow> add_variables he (ci_func ci) s;
           (cc, s) \<leftarrow> start_coverage he (ci_code ci) i s;
           s \<leftarrow> register_eval i s;
           s \<leftarrow> function_breakpoint he XDEBUG_BRK_FUNC_CALL i s;
           s \<leftarrow> begin_user_profile he ci i s;
           Some (Framed \<lparr>ul_frame = i, ul_do_return = do_return, ul_function_nr = nr, ul_coverage = cc\<rparr>, s)
         })"

definition trace_user_return :: "'w hook_env \<Rightarrow> call_info \<Rightarrow> user_locals \<Rightarrow> 'w hook_state \<Rightarrow> 'w hook_state option" where
  "trace_user_return he ci l s =
     (case ci_return_value ci of
        None \<Rightarrow> Some s
      | Some z \<Rightarrow>
          if cc_collect_return (he_config he) \<and> ul_do_return l
          then
            (if zf_generator (ci_func ci)
             then traced (ul_frame l) (\<lambda>fr tr. trace_call (has_generator_return_value (tr_handler tr)) fr
                    (Trace_generator_return (ul_function_nr l))
                    (textual_generator_return (he_trace he) (ci_trace_end ci) fr (ci_generator ci)) tr) s
             else trace_value he (ci_trace_end ci) (\<lambda>_. True) (ul_function_nr l) z (ul_frame l) s)
          else Some s)"

definition unlink_frame :: "nat \<Rightarrow> 'w hook_state \<Rightarrow> 'w hook_state option" where
  "unlink_frame i s =
     map_option (\<lambda>fr. put_frame i (fr\<lparr>cf_fse := (cf_fse fr)\<lparr>fse_symbol_table := None, fse_execute_data := None\<rparr>\<rparr>) s)
       (frame_at_index i s)"

definition execute_ex_leave :: "'w hook_env \<Rightarrow> call_info \<Rightarrow> user_locals \<Rightarrow> 'w hook_state \<Rightarrow> 'w hook_state option" where
  "execute_ex_leave he ci l s =
     do {
       s \<leftarrow> finish_profile he (ci_end ci) (ul_frame l) s;
       s \<leftarrow> finish_coverage he (ul_coverage l) (ul_frame l) s;
       s \<leftarrow> trace_exit he (ci_trace_end ci) (\<lambda>_. True) (ul_function_nr l) (ul_frame l) s;
       s \<leftarrow> trace_user_return he ci l s;
       s \<leftarrow> function_breakpoint he XDEBUG_BRK_FUNC_RETURN (ul_frame l) s;
       s \<leftarrow> unlink_frame (ul_frame l) s;
       s \<leftarrow> drop_frame s;
       Some (lower_level s)
     }"


section \<open>Functions of PHP\<close>

record internal_locals =
  il_frame :: nat
  il_do_return :: bool
  il_function_nr :: int
  il_restore :: "nat option"

definition contains :: "string \<Rightarrow> string \<Rightarrow> bool" where
  "contains needle s \<longleftrightarrow> list_ex (\<lambda>i. take (length needle) (drop i s) = needle) [0..<Suc (length s)]"

definition check_soap_call :: "bool \<Rightarrow> function_stack_entry \<Rightarrow> bool" where
  "check_soap_call soap fse \<longleftrightarrow>
     (case func_class (fse_function fse) of
        None \<Rightarrow> False
      | Some c \<Rightarrow> (contains ''SoapClient'' c \<or> contains ''SoapServer'' c) \<and> soap)"

definition begin_internal_profile :: "'w hook_env \<Rightarrow> call_info \<Rightarrow> nat \<Rightarrow> 'w hook_state \<Rightarrow> 'w hook_state option" where
  "begin_internal_profile he ci i s =
     (if profiler_enabled (xg_profiler (hs_g s))
      then do {
        fr \<leftarrow> frame_at_index i s;
        pd \<leftarrow> add_function_details_internal (cc_docref (he_config he)) (cf_fse fr) (cf_prof fr);
        set_prof i (function_begin (fst (ci_start ci)) (snd (ci_start ci)) pd) s
      }
      else Some s)"

text \<open>The loop around \<open>update_shared_callstack\<close>.\<close>

definition publish_call :: "'w hook_env \<Rightarrow> 'w hook_state \<Rightarrow> 'w hook_state option" where
  "publish_call he s =
     map_option (\<lambda>(p, m). s\<lparr>hs_proc := p, hs_shm := m\<rparr>)
       (publish (he_pid he) (fstack_of (xg_stack (hs_g s))) (hs_proc s, hs_shm s))"

definition not_pass :: "call_frame \<Rightarrow> bool" where
  "not_pass fr \<longleftrightarrow> func_type (fse_function (cf_fse fr)) \<noteq> XFUNC_ZEND_PASS"

definition execute_internal_enter ::
  "'w hook_env \<Rightarrow> call_info \<Rightarrow> 'w hook_state \<Rightarrow> (internal_locals \<times> 'w hook_state) option" where
  "execute_internal_enter he ci s =
     (let do_return = is_tracing (hs_tracer s)
      in do {
        (i, s) \<leftarrow> new_frame he ci XDEBUG_INTERNAL (raise_level he s);
        let nr = to_int32 (function_count (xg_cov (hs_g s)));
        fr \<leftarrow> frame_at_index i s;
        s \<leftarrow> trace_entry he (ci_trace_start ci) not_pass nr i s;
        s \<leftarrow> function_breakpoint he XDEBUG_BRK_FUNC_CALL i s;
        let soap = check_soap_call (he_soap he) (cf_fse fr);
        let restore = (if soap then Some (hs_error_cb s) else None);
        let s = (if soap then s\<lparr>hs_error_cb := he_old_error_cb he\<rparr> else s);
        s \<leftarrow> begin_internal_profile he ci i s;
        s \<leftarrow> publish_call he s;
        Some (\<lparr>il_frame = i, il_do_return = do_return, il_function_nr = nr, il_restore = restore\<rparr>, s)
      })"

definition trace_internal_return :: "'w hook_env \<Rightarrow> call_info \<Rightarrow> internal_locals \<Rightarrow> 'w hook_state \<Rightarrow> 'w hook_state option" where
  "trace_internal_return he ci l s =
     (case ci_return_value ci of
        None \<Rightarrow> Some s
      | Some z \<Rightarrow>
          if cc_collect_return (he_config he) \<and> il_do_return l
          then trace_value he (ci_trace_end ci) not_pass (il_function_nr l) z (il_frame l) s
          else Some s)"

definition execute_internal_leave ::
  "'w hook_env \<Rightarrow> call_info \<Rightarrow> internal_locals \<Rightarrow> 'w hook_state \<Rightarrow> 'w hook_state option" where
  "execute_internal_leave he ci l s =
     do {
       s \<leftarrow> finish_profile he (ci_end ci) (il_frame l) s;
       let s = (case il_restore l of None \<Rightarrow> s | Some cb \<Rightarrow> s\<lparr>hs_error_cb := cb\<rparr>);
       s \<leftarrow> trace_exit he (ci_trace_end ci) not_pass (il_function_nr l) (il_frame l) s;
       s \<leftarrow> trace_internal_return he ci l s;
       s \<leftarrow> function_breakpoint he XDEBUG_BRK_FUNC_RETURN (il_frame l) s;
       s \<leftarrow> drop_frame s;
       let s = s\<lparr>hs_shm := clear_shared (hs_proc s) (hs_shm s)\<rparr>;
       Some (lower_level s)
     }"

section \<open>Compiling and leaving\<close>

text \<open>\<open>exit\<close> ends the profile of all frames, from the innermost on; \<open>reading\<close> gives clock and memory for each.\<close>

fun profiler_deinit :: "'w hook_env \<Rightarrow> (nat \<Rightarrow> u64 \<times> u64) \<Rightarrow> nat \<Rightarrow> 'w hook_state \<Rightarrow> 'w hook_state option" where
  "profiler_deinit he reading 0 s = Some s"
| "profiler_deinit he reading (Suc i) s = do { s \<leftarrow> end_profile he (reading i) i s; profiler_deinit he reading i s }"

definition exit_handler :: "'w hook_env \<Rightarrow> (nat \<Rightarrow> u64 \<times> u64) \<Rightarrow> 'w hook_state \<Rightarrow> 'w hook_state option" where
  "exit_handler he reading s =
     (if profiler_enabled (xg_profiler (hs_g s))
      then do { frs \<leftarrow> xg_stack (hs_g s); profiler_deinit he reading (length frs) s }
      else Some s)"

text \<open>A file has been compiled into the code with an index; the engine puts its code and functions into the tables
  before.\<close>

definition compile_file :: "'w hook_env \<Rightarrow> nat \<Rightarrow> 'w hook_state \<Rightarrow> 'w hook_state option" where
  "compile_file he code s =
     (let cov = xg_cov (hs_g s)
      in if code < length (op_arrays (hs_engine s)) \<and> do_code_coverage cov \<and> cc_unused cov \<and>
            done_pass_two (op_arrays (hs_engine s) ! code)
         then map_option (\<lambda>(eg, cov). (map_cov (\<lambda>_. cov) s)\<lparr>hs_engine := eg\<rparr>)
                (prefill_code_coverage (he_junk he) (he_fuel he) code (hs_engine s, cov))
         else Some s)"

section \<open>A running script\<close>

text \<open>The calls that are running, innermost first, and the state. A script compiles files, calls functions,
  returns from the innermost one, and executes statements, starts and stops a trace; \<open>exit\<close> is an opcode that the engine goes on to execute.\<close>

datatype open_call =
    Open_user call_info user_locals
  | Open_unframed
  | Open_internal call_info internal_locals

definition statement_hook ::
  "'w hook_env \<Rightarrow> (string \<Rightarrow> bool) \<Rightarrow> bool \<Rightarrow> string \<Rightarrow> int \<Rightarrow> 'w hook_state \<Rightarrow> 'w hook_state option" where
  "statement_hook he eval filtered file ln s =
     map_option (\<lambda>(cov, w, d). (map_cov (\<lambda>_. cov) s)\<lparr>hs_world := w, hs_dbg := d\<rparr>)
       (statement_call (he_remote he) eval filtered file ln (fstack_of (xg_stack (hs_g s))) (xg_cov (hs_g s))
          (hs_world s) (hs_dbg s))"

inductive script_step :: "'w hook_env \<Rightarrow> open_call list \<times> 'w hook_state \<Rightarrow> open_call list \<times> 'w hook_state \<Rightarrow> bool" for he where
  call_user: "execute_ex_enter he ci s = Some (Framed l, s') \<Longrightarrow> script_step he (cs, s) (Open_user ci l # cs, s')"
| call_unframed: "execute_ex_enter he ci s = Some (Unframed, s') \<Longrightarrow> script_step he (cs, s) (Open_unframed # cs, s')"
| call_refused: "execute_ex_enter he ci s = Some (Refused, s') \<Longrightarrow> script_step he (cs, s) (cs, s')"
| call_internal: "execute_internal_enter he ci s = Some (il, s') \<Longrightarrow> script_step he (cs, s) (Open_internal ci il # cs, s')"
| return_user: "execute_ex_leave he ci l s = Some s' \<Longrightarrow> script_step he (Open_user ci l # cs, s) (cs, s')"
| return_unframed: "script_step he (Open_unframed # cs, s) (cs, s)"
| return_internal: "execute_internal_leave he ci il s = Some s' \<Longrightarrow> script_step he (Open_internal ci il # cs, s) (cs, s')"
| compile: "compile_file he code (s\<lparr>hs_engine := eg\<rparr>) = Some s' \<Longrightarrow> script_step he (cs, s) (cs, s')"
| exit_opcode: "exit_handler he reading s = Some s' \<Longrightarrow> script_step he (cs, s) (cs, s')"
| start_trace: "php_start_trace (he_trace he) te (fstack_of (xg_stack (hs_g s))) fname options (hs_tracer s) = Some (used, tr) \<Longrightarrow>
    script_step he (cs, s) (cs, s\<lparr>hs_tracer := tr\<rparr>)"
| stop_trace: "php_stop_trace (he_trace he) te (hs_tracer s) = Some (used, tr) \<Longrightarrow>
    script_step he (cs, s) (cs, s\<lparr>hs_tracer := tr\<rparr>)"
| statement: "statement_hook he eval filtered file ln s = Some s' \<Longrightarrow> script_step he (cs, s) (cs, s')"

text \<open>The frame that a running call works on, with its number.\<close>

fun call_frame_of :: "open_call \<Rightarrow> (nat \<times> int) option" where
  "call_frame_of (Open_user ci l) = Some (ul_frame l, ul_function_nr l)"
| "call_frame_of Open_unframed = None"
| "call_frame_of (Open_internal ci l) = Some (il_frame l, il_function_nr l)"

definition framed_calls :: "open_call list \<Rightarrow> (nat \<times> int) list" where
  "framed_calls cs = rev (List.map_filter call_frame_of cs)"

text \<open>What a request starts with, and the states a script gets to with a number of calls.\<close>

definition request_start :: "'w hook_state \<Rightarrow> bool" where
  "request_start s \<longleftrightarrow>
     xg_stack (hs_g s) = Some [] \<and> xg_level s = 0 \<and> function_count (xg_cov (hs_g s)) = 2 ^ 32 - 1 \<and>
     \<not> do_trace (hs_tracer s) \<and> tr_context (hs_tracer s) = None"

inductive runs_to :: "'w hook_env \<Rightarrow> nat \<Rightarrow> open_call list \<times> 'w hook_state \<Rightarrow> bool" for he where
  start: "request_start s \<Longrightarrow> runs_to he 0 ([], s)"
| step: "runs_to he n c \<Longrightarrow> script_step he c c' \<Longrightarrow>
         runs_to he (if length (framed_calls (fst c')) > length (framed_calls (fst c)) then Suc n else n) c'"

end
