(* ===== verification/CallFacts.thy ===== *)
theory CallFacts
  imports CallHooks SymbolFacts
begin

text \<open>
  What holds while a script runs: the frames of the stack are those of the calls that run, in order and numbered,
  whatever the settings; and what the tracer of system calls reads while a function of PHP runs.
\<close>

section \<open>What the steps leave alone\<close>

text \<open>The part of a frame that names it. A hook changes this part of no frame.\<close>

type_synonym fkey = "xdebug_func \<times> int \<times> string option \<times> int \<times> int \<times> int"

definition frame_key :: "call_frame \<Rightarrow> fkey" where
  "frame_key fr = (fse_function (cf_fse fr), fse_level (cf_fse fr), fse_filename (cf_fse fr), fse_lineno (cf_fse fr),
     function_nr (cf_fse fr), filtered_tracing (cf_fse fr))"

definition keys :: "'w hook_state \<Rightarrow> fkey list option" where
  "keys s = map_option (map frame_key) (xg_stack (hs_g s))"

definition same_frames :: "'w hook_state \<Rightarrow> 'w hook_state \<Rightarrow> bool" where
  "same_frames s s' \<longleftrightarrow>
     keys s' = keys s \<and> xg_level s' = xg_level s \<and> function_count (xg_cov (hs_g s')) = function_count (xg_cov (hs_g s)) \<and>
     hs_proc s' = hs_proc s \<and> hs_shm s' = hs_shm s"

text \<open>Most steps leave the trace alone too.\<close>

definition same_calls :: "'w hook_state \<Rightarrow> 'w hook_state \<Rightarrow> bool" where
  "same_calls s s' \<longleftrightarrow> same_frames s s' \<and> hs_tracer s' = hs_tracer s"

named_theorems same_calls

lemma same_calls_refl [simp]: "same_calls s s"
  by (simp add: same_calls_def same_frames_def)

lemma same_frames_refl [simp]: "same_frames s s"
  by (simp add: same_frames_def)

lemma same_frames_trans: "same_frames s t \<Longrightarrow> same_frames t u \<Longrightarrow> same_frames s u"
  by (simp add: same_frames_def)

lemma same_calls_trans: "same_calls s t \<Longrightarrow> same_calls t u \<Longrightarrow> same_calls s u"
  by (auto simp: same_calls_def intro: same_frames_trans)

lemma same_calls_frames: "same_calls s t \<Longrightarrow> same_frames s t"
  by (simp add: same_calls_def)

lemma same_calls_fields [same_calls]:
  "same_calls s (s\<lparr>hs_world := w\<rparr>)" "same_calls s (s\<lparr>hs_dbg := d\<rparr>)"
  "same_calls s (s\<lparr>hs_gc_stats := b\<rparr>)" "same_calls s (s\<lparr>hs_error_cb := n\<rparr>)"
  "same_calls s (s\<lparr>hs_ide_key := k, hs_headers := h\<rparr>)" "same_calls s (s\<lparr>hs_program_named := b, hs_dbg := d\<rparr>)"
  "same_calls s (s\<lparr>hs_world := w, hs_dbg := d\<rparr>)" "same_calls s (s\<lparr>hs_too_deep := m\<rparr>)"
  "same_calls s (s\<lparr>hs_g := (hs_g s)\<lparr>xg_profiler := p\<rparr>\<rparr>)"
  "same_calls s (s\<lparr>hs_g := (hs_g s)\<lparr>xg_profiler := p\<rparr>, hs_headers := h\<rparr>)"
  by (simp_all add: same_calls_def same_frames_def keys_def xg_level_def)

lemma put_frame_same:
  assumes "frame_at_index i s = Some fr" and "frame_key fr' = frame_key fr"
  shows "same_calls s (put_frame i fr' s)"
proof -
  obtain frs where "xg_stack (hs_g s) = Some frs" "i < length frs" "frs ! i = fr"
    using assms(1) by (auto simp: frame_at_index_def split: option.splits if_splits)
  then show ?thesis using assms(2)
    by (auto simp: same_calls_def same_frames_def keys_def put_frame_def xg_level_def map_update list_update_same_conv)
qed

lemma set_prof_same: "set_prof i pd s = Some s' \<Longrightarrow> same_calls s s'"
  by (auto simp: set_prof_def frame_key_def intro!: put_frame_same)

lemma map_cov_same: "same_levels (xg_cov (hs_g s)) cov \<Longrightarrow> same_calls s (map_cov (\<lambda>_. cov) s)"
  by (simp add: same_calls_def same_frames_def keys_def map_cov_def xg_level_def same_levels_def)

lemma same_frames_tracer [simp]: "same_frames s (s\<lparr>hs_tracer := t\<rparr>)"
  by (simp add: same_frames_def keys_def xg_level_def)

lemma traced_same: "traced i f s = Some s' \<Longrightarrow> same_frames s s'"
  by (auto simp: traced_def bind_eq_Some_conv)

lemma trace_same:
  "trace_entry he te c nr i s = Some s' \<Longrightarrow> same_frames s s'" "trace_exit he te c nr i s = Some s' \<Longrightarrow> same_frames s s'"
  "trace_value he te c nr z i s = Some s' \<Longrightarrow> same_frames s s'"
  unfolding trace_entry_def trace_exit_def trace_value_def by (fact traced_same)+

lemma untraced:
  assumes "\<not> is_tracing (hs_tracer s)" and "frame_at_index i s = Some fr"
  shows "trace_entry he te c nr i s = Some s" "trace_exit he te c nr i s = Some s" "trace_value he te c nr z i s = Some s"
  using assms by (simp_all add: trace_entry_def trace_exit_def trace_value_def traced_def trace_call_def)

lemma trace_user_return_same: "trace_user_return he ci l s = Some s' \<Longrightarrow> same_frames s s'"
  by (auto simp: trace_user_return_def split: option.splits if_splits dest: traced_same trace_same)

lemma function_breakpoint_same: "function_breakpoint he ty i s = Some s' \<Longrightarrow> same_calls s s'"
  by (auto simp: function_breakpoint_def bind_eq_Some_conv same_calls split: if_splits)

lemma end_profile_same:
  assumes "end_profile he reading i s = Some s'"
  shows "same_calls s s'"
proof -
  obtain p pd s1 where "same_calls s (s\<lparr>hs_g := (hs_g s)\<lparr>xg_profiler := p\<rparr>\<rparr>)"
      "set_prof i pd (s\<lparr>hs_g := (hs_g s)\<lparr>xg_profiler := p\<rparr>\<rparr>) = Some s1" "s' = s1 \<or> (\<exists>q. set_prof (i - 1) q s1 = Some s')"
    using assms same_calls by (fastforce simp: end_profile_def bind_eq_Some_conv Let_def split: option.splits prod.splits)
  then show ?thesis using set_prof_same same_calls_trans by blast
qed

lemma finish_profile_same: "finish_profile he reading i s = Some s' \<Longrightarrow> same_calls s s'"
  by (auto simp: finish_profile_def bind_eq_Some_conv split: if_splits
      dest!: end_profile_same set_prof_same intro: same_calls_trans)

lemma start_profiler_same: "start_profiler he file s = Some s' \<Longrightarrow> same_calls s s'"
  by (auto simp: start_profiler_def bind_eq_Some_conv Let_def same_calls split: if_splits)

text \<open>A trace that has not been started, or has only its header yet.\<close>

definition records :: "tracer \<Rightarrow> trace_record list" where
  "records tr = (case tr_context tr of None \<Rightarrow> [] | Some c \<Rightarrow> map fst (tx_lines c))"

definition fresh_trace :: "tracer \<Rightarrow> bool" where
  "fresh_trace tr \<longleftrightarrow> (\<forall>tx. tr_context tr = Some tx \<longrightarrow> length (tx_lines tx) = 1)"

lemma start_trace_file_fresh: "start_trace_file cfg te fname file options tr = Some (used, tr') \<Longrightarrow> fresh_trace tr'"
  by (auto simp: start_trace_file_def bind_eq_Some_conv Let_def fresh_trace_def split: option.splits)

lemma start_trace_same:
  "start_trace he te file s = Some s' \<Longrightarrow> same_frames s s' \<and> (hs_tracer s' = hs_tracer s \<or> fresh_trace (hs_tracer s'))"
  by (auto simp: start_trace_def bind_eq_Some_conv split: if_splits dest: start_trace_file_fresh)

lemma first_call_same:
  assumes call: "first_call he te file s = Some s'"
  shows "same_frames s s' \<and> (hs_tracer s' = hs_tracer s \<or> fresh_trace (hs_tracer s'))"
proof -
  obtain magic ide_key hdrs where m: "session_stop (he_request he) (session_start (he_request he) (hs_ide_key s)) = (magic, ide_key, hdrs)"
    by (metis prod_cases3)
  define t where "t = s\<lparr>hs_ide_key := ide_key, hs_headers := hs_headers s @ hdrs\<rparr>"
  define started where "started \<longleftrightarrow> (magic \<noteq> None \<or> ss_remote_autostart (he_settings he)) \<and> \<not> remote_enabled (hs_dbg s) \<and>
      ss_remote_enable (he_settings he) \<and> ss_remote_mode_req (he_settings he)"
  have t: "same_calls s t" by (simp add: t_def same_calls)
  define begin_debug where "begin_debug = (if started then map_option (\<lambda>(w, d). t\<lparr>hs_world := w, hs_dbg := d\<rparr>)
          (he_debug_init he (hs_world t) (hs_dbg t)) else Some t)"
  define gc where "gc s3 = (if \<not> hs_gc_stats s3 \<and> ss_gc_stats (he_settings he) \<and> he_gc_starts he
      then s3\<lparr>hs_gc_stats := True\<rparr> else s3)" for s3 :: "'a hook_state"
  have "first_call he te file s = do { s1 \<leftarrow> begin_debug; s2 \<leftarrow> start_profiler he file s1; s3 \<leftarrow> start_trace he te file s2; Some (gc s3) }"
    by (cases magic) (simp_all add: first_call_def m Let_def t_def started_def begin_debug_def gc_def)
  with call obtain s1 s2 s3 where s1: "begin_debug = Some s1" and s2: "start_profiler he file s1 = Some s2"
      and s3: "start_trace he te file s2 = Some s3" and s': "s' = gc s3"
    by (auto simp: bind_eq_Some_conv)
  have "same_calls t s1" using s1 by (auto simp: begin_debug_def same_calls split: if_splits)
  moreover have "same_calls s3 s'" using s' by (simp add: gc_def same_calls)
  ultimately have "same_calls s s2" "same_calls s3 s'"
    using t start_profiler_same [OF s2] same_calls_trans by blast+
  then show ?thesis
    using start_trace_same [OF s3] same_calls_frames same_frames_trans unfolding same_calls_def by metis
qed

lemma mark_magic_call_same: "mark_magic_call i s = Some s' \<Longrightarrow> same_calls s s'"
  by (auto simp: mark_magic_call_def bind_eq_Some_conv frame_key_def split: if_splits intro!: put_frame_same)

lemma link_frame_same: "link_frame ci i s = Some s' \<Longrightarrow> same_calls s s'"
  by (auto simp: link_frame_def frame_key_def intro!: put_frame_same)

lemma unlink_frame_same: "unlink_frame i s = Some s' \<Longrightarrow> same_calls s s'"
  by (auto simp: unlink_frame_def frame_key_def intro!: put_frame_same)

lemma add_to_frames_keys: "add_to_frames junk opa frs = Some frs' \<Longrightarrow> map frame_key frs' = map frame_key frs"
proof (induction frs arbitrary: frs')
  case (Cons fr frs)
  have "frame_key fr' = frame_key fr" if "add_used_variables junk opa fr = Some fr'" for fr'
    using that by (auto simp: add_used_variables_def bind_eq_Some_conv Let_def frame_key_def)
  then show ?case using Cons by (auto simp: bind_eq_Some_conv split: if_splits)
qed simp

lemma add_variables_same: "add_variables he opa s = Some s' \<Longrightarrow> same_calls s s'"
  by (auto simp: add_variables_def same_calls_def same_frames_def keys_def xg_level_def rev_map [symmetric]
      dest!: add_to_frames_keys split: option.splits if_splits)

lemma start_of_function_same: "start_of_function junk fuel f (eg, x) = Some (eg', y) \<Longrightarrow>
  level y = level x \<and> function_count y = function_count x"
proof -
  assume start: "start_of_function junk fuel f (eg, x) = Some (eg', y)"
  define x0 where "x0 = x\<lparr>path_store := path_store x @ [Some (path_new None)]\<rparr>"
  obtain eg1 x1 where p: "prefill_code_coverage junk fuel f (eg, x0) = Some (eg1, x1)"
    using start by (auto simp: start_of_function_def x0_def bind_eq_Some_conv Let_def)
  have "level x1 = level x" "function_count x1 = function_count x"
    using prefill_code_coverage_levels [OF p] by (simp_all add: same_levels_def x0_def)
  then show ?thesis
    using start p
    by (simp add: start_of_function_def x0_def [symmetric] Let_def add_path_for_level_def make_sure_level_exists_def
        split: if_splits) auto
qed

lemma map_cov_same': "level cov = level (xg_cov (hs_g s)) \<Longrightarrow> function_count cov = function_count (xg_cov (hs_g s)) \<Longrightarrow>
  same_calls s (map_cov (\<lambda>_. cov) s)"
  by (simp add: same_calls_def same_frames_def keys_def map_cov_def xg_level_def)

lemma same_calls_engine: "same_calls s (s'\<lparr>hs_engine := eg\<rparr>) \<longleftrightarrow> same_calls s s'"
  by (simp add: same_calls_def same_frames_def keys_def xg_level_def)

lemma start_coverage_same: "start_coverage he code i s = Some (cc, s') \<Longrightarrow> same_calls s s'"
  by (auto simp: start_coverage_def bind_eq_Some_conv Let_def same_calls_engine split: if_splits
      dest!: start_of_function_same intro!: map_cov_same')

lemma end_of_function_same:
  assumes "end_of_function junk file name x = Some y"
  shows "level y = level x \<and> function_count y = function_count x"
proof -
  obtain p x1 where x1: "get_path_for_level (level x) x = (p, x1)" by (metis surj_pair)
  then have l: "level x1 = level x" "function_count x1 = function_count x"
    by (auto simp: get_path_for_level_def make_sure_level_exists_def Let_def)
  show ?thesis
  proof (cases p)
    case None
    then show ?thesis using assms x1 l by (simp add: end_of_function_def)
  next
    case (Some q)
    then obtain key x2 where "mark_end_of_function_reached file name key x1 = Some x2" "y = x2\<lparr>path_store := (path_store x2)[q := None]\<rparr>"
      using assms x1 by (auto simp: end_of_function_def bind_eq_Some_conv)
    moreover have "level x2 = level x1 \<and> function_count x2 = function_count x1"
      using calculation(1) get_mark_info_levels
      by (fastforce simp: mark_end_of_function_reached_def bind_eq_Some_conv Let_def same_levels_def split: option.splits if_splits)
    ultimately show ?thesis using l by simp
  qed
qed

lemma finish_coverage_same: "finish_coverage he cc i s = Some s' \<Longrightarrow> same_calls s s'"
proof (cases cc)
  case (Some names)
  obtain f n where names: "names = (f, n)" by force
  show "finish_coverage he cc i s = Some s' \<Longrightarrow> same_calls s s'"
    by (auto simp: finish_coverage_def bind_eq_Some_conv Let_def Some names split: if_splits
        dest!: end_of_function_same intro!: map_cov_same')
qed (auto simp: finish_coverage_def bind_eq_Some_conv Let_def)

lemma register_eval_same: "register_eval i s = Some s' \<Longrightarrow> same_calls s s'"
  by (auto simp: register_eval_def bind_eq_Some_conv same_calls split: if_splits)

lemma begin_user_profile_same: "begin_user_profile he ci i s = Some s' \<Longrightarrow> same_calls s s'"
  by (auto simp: begin_user_profile_def bind_eq_Some_conv split: if_splits dest!: set_prof_same)

lemma begin_internal_profile_same: "begin_internal_profile he ci i s = Some s' \<Longrightarrow> same_calls s s'"
  by (auto simp: begin_internal_profile_def bind_eq_Some_conv split: if_splits dest!: set_prof_same)

lemma statement_hook_same:
  assumes "statement_hook he eval filtered file ln s = Some s'"
  shows "same_calls s s'"
proof -
  obtain cov w d where "statement_call (he_remote he) eval filtered file ln (fstack_of (xg_stack (hs_g s))) (xg_cov (hs_g s))
      (hs_world s) (hs_dbg s) = Some (cov, w, d)" "s' = (map_cov (\<lambda>_. cov) s)\<lparr>hs_world := w, hs_dbg := d\<rparr>"
    using assms by (auto simp: statement_hook_def)
  moreover have "same_levels (xg_cov (hs_g s)) cov"
    using calculation(1) count_line_levels by (auto simp: statement_call_def bind_eq_Some_conv split: if_splits)
  ultimately show ?thesis using map_cov_same same_calls same_calls_trans by metis
qed

lemma compile_file_same: "compile_file he code s = Some s' \<Longrightarrow> same_calls s s'"
  by (auto simp: compile_file_def Let_def same_calls_engine split: if_splits
      dest!: prefill_code_coverage_levels intro!: map_cov_same)

lemma exit_handler_same: "exit_handler he reading s = Some s' \<Longrightarrow> same_calls s s'"
proof -
  have "profiler_deinit he reading n s = Some s' \<Longrightarrow> same_calls s s'" for n s
    by (induction n arbitrary: s) (auto simp: bind_eq_Some_conv dest!: end_profile_same intro: same_calls_trans)
  then show "exit_handler he reading s = Some s' \<Longrightarrow> same_calls s s'"
    by (auto simp: exit_handler_def bind_eq_Some_conv split: if_splits)
qed


section \<open>A new frame\<close>

definition next_count :: "call_globals \<Rightarrow> int" where
  "next_count g = uint (word_of_int (function_count (xg_cov g) + 1) :: u32)"

lemma place_frame_fields:
  "place_frame cfg remote env edata opa fr func = Some fr' \<Longrightarrow>
   fse_level (cf_fse fr') = fse_level (cf_fse fr) \<and> function_nr (cf_fse fr') = function_nr (cf_fse fr) \<and>
   fse_filename (cf_fse fr') = fse_filename (cf_fse fr)"
  by (auto simp: place_frame_def Let_def bind_eq_Some_conv split: if_splits list.splits)

lemma aggregate_call_fields:
  "aggregate_call cfg fr g = Some (fr', g') \<Longrightarrow>
   cf_fse fr' = cf_fse fr \<and> xg_stack g' = xg_stack g \<and> xg_cov g' = xg_cov g"
  by (auto simp: aggregate_call_def Let_def bind_eq_Some_conv split: if_splits)

lemma add_stack_frame_tail:
  assumes "add_stack_frame cfg remote env opa ty g = Some (fr, g')" and "xg_stack g = Some frs"
  shows "xg_stack g' = Some (frs @ [fr])" and "level (xg_cov g') = level (xg_cov g)"
    and "function_count (xg_cov g') = next_count g"
    and "fse_level (cf_fse fr) = int (level (xg_cov g))" and "function_nr (cf_fse fr) = to_int32 (next_count g)"
    and "filter_type_tracing (cc_filters cfg) = XDEBUG_FILTER_NONE \<Longrightarrow> filtered_tracing (cf_fse fr) = 0"
proof -
  obtain e prev where calls: "ce_calls env = e # prev" using assms(1) by (cases "ce_calls env") (simp_all add: add_stack_frame_def)
  define edata where "edata = (if ty = XDEBUG_EXTERNAL then prev else ce_calls env)"
  define fn where "fn = frame_filename ty edata opa (fstack_of (xg_stack g))"
  define fr0 where "fr0 = \<lparr>cf_fse =
                       \<lparr>fse_function = no_func, user_defined = ty, fse_level = int (level (xg_cov g)),
                        fse_filename = Some fn, fse_lineno = 0, include_filename = None,
                        function_nr = to_int32 (next_count g), filtered_tracing = 0, filtered_code_coverage = 0,
                        declared_vars = None, fse_execute_data = None, fse_symbol_table = None, fse_this = None\<rparr>,
                     cf_var = [], cf_variadic = False, cf_prev_memory = xg_prev_memory g, cf_memory = ce_memory env,
                     cf_time = ce_time env, cf_line_start = zf_line_start opa, cf_aggr_entry = None,
                     cf_prof = no_prof\<rparr>"
  define g0 where "g0 = g\<lparr>xg_cov := (xg_cov g)\<lparr>function_count := next_count g\<rparr>,
                     xg_prev_memory := uint (word_of_int (ce_memory env) :: u32)\<rparr>"
  define cov_of where "cov_of fse = (if do_code_coverage (xg_cov g0) \<and> \<not> ce_filtered env \<and> cc_branch_check (xg_cov g0)
      then count_line fn (fse_lineno fse) False False (xg_cov g0) else Some (xg_cov g0))" for fse :: function_stack_entry
  define upd where "upd cov m = g0\<lparr>xg_cov := cov, xg_monitor := m\<rparr>" for cov m
  have "add_stack_frame cfg remote env opa ty g =
      do {
         func \<leftarrow> build_fname (fstack_of (xg_stack g)) (ce_calls env);
         fr \<leftarrow> place_frame cfg remote env edata opa fr0 func;
         fse \<leftarrow> filter_run_tracing (cc_filters cfg) (cf_fse fr);
         cov \<leftarrow> cov_of fse;
         m \<leftarrow> monitor_call (cc_docref cfg) fse (xg_monitor g0);
         (fr, g) \<leftarrow> aggregate_call cfg (fr\<lparr>cf_fse := fse\<rparr>) (upd cov m);
         g \<leftarrow> push_frame cfg fr g;
         Some (fr, g)
       }"
    by (simp only: add_stack_frame_def calls Let_def edata_def fn_def fr0_def g0_def next_count_def list.case cov_of_def upd_def)
  with assms(1) obtain func fr1 fse cov m fr2 g2 g3 where
      1: "place_frame cfg remote env edata opa fr0 func = Some fr1" and
      2: "filter_run_tracing (cc_filters cfg) (cf_fse fr1) = Some fse" and
      3: "cov_of fse = Some cov" and
      4: "aggregate_call cfg (fr1\<lparr>cf_fse := fse\<rparr>) (upd cov m) = Some (fr2, g2)" and
      5: "push_frame cfg fr2 g2 = Some g3" "fr = fr2" "g' = g3"
    by (auto simp: bind_eq_Some_conv)
  have f1: "fse_level (cf_fse fr1) = int (level (xg_cov g)) \<and> function_nr (cf_fse fr1) = to_int32 (next_count g) \<and>
      fse_filename (cf_fse fr1) \<noteq> None"
    using place_frame_fields [OF 1] by (simp add: fr0_def)
  then obtain fl where "fse = (cf_fse fr1)\<lparr>filtered_tracing := fl\<rparr>"
    using 2 filter_run_tracing_total [of "cf_fse fr1" "cc_filters cfg"] by auto
  moreover have "same_levels (xg_cov g0) cov" using 3 count_line_levels by (auto simp: cov_of_def split: if_splits)
  moreover note aggregate_call_fields [OF 4]
  ultimately show "xg_stack g' = Some (frs @ [fr])" "level (xg_cov g') = level (xg_cov g)"
    "function_count (xg_cov g') = next_count g" "fse_level (cf_fse fr) = int (level (xg_cov g))"
    "function_nr (cf_fse fr) = to_int32 (next_count g)"
    using 5 f1 assms(2) by (auto simp: push_frame_def g0_def upd_def same_levels_def split: if_splits option.splits)
  show "filtered_tracing (cf_fse fr) = 0" if "filter_type_tracing (cc_filters cfg) = XDEBUG_FILTER_NONE"
    using that 2 5(2) aggregate_call_fields [OF 4] by (auto simp: filter_run_tracing_def Let_def)
qed

lemma raise_level_fields:
  "xg_stack (hs_g (raise_level he s)) = xg_stack (hs_g s)" "xg_level (raise_level he s) = Suc (xg_level s)"
  "function_count (xg_cov (hs_g (raise_level he s))) = function_count (xg_cov (hs_g s))"
  "hs_proc (raise_level he s) = hs_proc s" "hs_shm (raise_level he s) = hs_shm s" "hs_tracer (raise_level he s) = hs_tracer s"
  by (simp_all add: raise_level_def map_cov_def xg_level_def Let_def)


section \<open>Entering and leaving\<close>

definition key_level :: "fkey \<Rightarrow> int" where
  "key_level k = fst (snd k)"

definition key_nr :: "fkey \<Rightarrow> int" where
  "key_nr k = fst (snd (snd (snd (snd k))))"

text \<open>A call with the place and the number of its frame has been entered; the innermost one has been left.\<close>

definition entered :: "'w hook_state \<Rightarrow> nat \<times> int \<Rightarrow> 'w hook_state \<Rightarrow> bool" where
  "entered s c s' \<longleftrightarrow>
     (\<exists>ks k. keys s = Some ks \<and> keys s' = Some (ks @ [k]) \<and> fst c = length ks \<and> key_nr k = snd c \<and>
        key_level k = int (Suc (xg_level s)) \<and> snd c = to_int32 (next_count (hs_g s)) \<and>
        xg_level s' = Suc (xg_level s) \<and> function_count (xg_cov (hs_g s')) = next_count (hs_g s))"

definition left :: "'w hook_state \<Rightarrow> 'w hook_state \<Rightarrow> bool" where
  "left s s' \<longleftrightarrow>
     (\<exists>ks k. keys s = Some (ks @ [k]) \<and> keys s' = Some ks \<and> xg_level s' = xg_level s - 1 \<and>
        function_count (xg_cov (hs_g s')) = function_count (xg_cov (hs_g s)))"

lemma next_count_cong: "same_frames s s' \<Longrightarrow> next_count (hs_g s') = next_count (hs_g s)"
  by (simp add: same_frames_def next_count_def)

lemma entered_after: "entered s c s1 \<Longrightarrow> same_frames s1 s2 \<Longrightarrow> entered s c s2"
  by (simp add: entered_def same_frames_def)

lemma entered_before: "same_frames s s0 \<Longrightarrow> entered s0 c s1 \<Longrightarrow> entered s c s1"
  using next_count_cong [of s s0] by (simp add: entered_def same_frames_def)

lemma new_frame_entered:
  assumes "new_frame he ci ty (raise_level he s) = Some (i, s')" and "keys s \<noteq> None"
  shows "entered s (i, to_int32 (function_count (xg_cov (hs_g s')))) s'"
    and "hs_proc s' = hs_proc s \<and> hs_shm s' = hs_shm s \<and> hs_dbg s' = hs_dbg (raise_level he s)"
proof -
  obtain frs where frs: "xg_stack (hs_g s) = Some frs" using assms(2) by (auto simp: keys_def)
  let ?r = "raise_level he s"
  obtain fr g where a: "add_stack_frame (he_config he) (remote_enabled (hs_dbg ?r)) (ci_env ci) (ci_func ci) ty (hs_g ?r) = Some (fr, g)"
      and s': "s' = ?r\<lparr>hs_g := g\<rparr>" "xg_stack g = Some (frs @ [fr])" "i = length frs"
    using assms(1) add_stack_frame_tail(1) frs raise_level_fields(1) [of he s]
    by (fastforce simp: new_frame_def bind_eq_Some_conv)
  have nc: "next_count (hs_g ?r) = next_count (hs_g s)" by (simp add: next_count_def raise_level_fields)
  have lv: "level (xg_cov (hs_g ?r)) = Suc (xg_level s)" using raise_level_fields(2) [of he s] by (simp add: xg_level_def)
  note t = add_stack_frame_tail [OF a, unfolded raise_level_fields(1), OF frs, unfolded nc lv]
  show "entered s (i, to_int32 (function_count (xg_cov (hs_g s')))) s'"
    using frs s' t(2-5)
    by (auto simp: entered_def keys_def frame_key_def key_level_def key_nr_def xg_level_def)
  show "hs_proc s' = hs_proc s \<and> hs_shm s' = hs_shm s \<and> hs_dbg s' = hs_dbg ?r"
    using s'(1) by (simp add: raise_level_fields)
qed

lemma drop_frame_left:
  assumes "drop_frame s = Some s'" and "keys s \<noteq> None"
  shows "left s (lower_level (s'\<lparr>hs_shm := m\<rparr>))" and "left s (lower_level s')"
proof -
  obtain frs where frs: "xg_stack (hs_g s) = Some frs" using assms(2) by (auto simp: keys_def)
  then obtain fs f where "frs = fs @ [f]" and s': "s' = s\<lparr>hs_g := (hs_g s)\<lparr>xg_stack := Some (butlast frs)\<rparr>\<rparr>"
    using assms(1) by (auto simp: drop_frame_def split: if_splits) (metis append_butlast_last_id)
  then show "left s (lower_level (s'\<lparr>hs_shm := m\<rparr>))" "left s (lower_level s')"
    using frs by (simp_all add: left_def keys_def lower_level_def map_cov_def xg_level_def del: split_paired_Ex)
qed

lemma left_before: "same_frames s s0 \<Longrightarrow> left s0 s1 \<Longrightarrow> left s s1"
  by (simp add: left_def same_frames_def)


text \<open>The steps of \<open>xdebug_execute_ex\<close> before the call: the frame is made, the call is traced.\<close>

lemma execute_ex_enter_steps:
  assumes "execute_ex_enter he ci s = Some (Framed l, s')"
  shows "\<exists>s1 s2 s3 s4. same_frames s s1 \<and> (hs_tracer s1 = hs_tracer s \<or> xg_level s = 0 \<and> fresh_trace (hs_tracer s1)) \<and>
    new_frame he ci XDEBUG_EXTERNAL (raise_level he s1) = Some (ul_frame l, s2) \<and> same_calls s2 s3 \<and>
    ul_function_nr l = to_int32 (function_count (xg_cov (hs_g s2))) \<and>
    trace_entry he (ci_trace_start ci) (\<lambda>_. True) (ul_function_nr l) (ul_frame l) s3 = Some s4 \<and> same_calls s4 s'"
proof -
  let ?f = "cstr (zf_filename (ci_func ci))"
  define s0 where "s0 = (if hs_program_named s then s
      else s\<lparr>hs_program_named := True, hs_dbg := (hs_dbg s)\<lparr>program_name := ?f\<rparr>\<rparr>)"
  define begun where "begun = (if xg_level s0 = 0 \<and> hs_in_execution s0 then first_call he (ci_trace_start ci) ?f s0 else Some s0)"
  define body where "body = do {
      s \<leftarrow> begun;
      (i, s) \<leftarrow> new_frame he ci XDEBUG_EXTERNAL (raise_level he s);
      s \<leftarrow> mark_magic_call i s;
      let nr = to_int32 (function_count (xg_cov (hs_g s)));
      s \<leftarrow> trace_entry he (ci_trace_start ci) (\<lambda>_. True) nr i s;
      s \<leftarrow> link_frame ci i s;
      s \<leftarrow> add_variables he (ci_func ci) s;
      (cc, s) \<leftarrow> start_coverage he (ci_code ci) i s;
      s \<leftarrow> register_eval i s;
      s \<leftarrow> function_breakpoint he XDEBUG_BRK_FUNC_CALL i s;
      s \<leftarrow> begin_user_profile he ci i s;
      Some (Framed \<lparr>ul_frame = i, ul_do_return = is_tracing (hs_tracer s0), ul_function_nr = nr, ul_coverage = cc\<rparr>, s)
    }"
  have t0: "hs_tracer s0 = hs_tracer s" by (simp add: s0_def)
  then have "execute_ex_enter he ci s = (if hs_no_exec s then Some (Refused, s)
      else if ?f = ''xdebug://debug-eval'' \<or> in_statement (tl (ce_calls (ci_env ci))) then Some (Unframed, s) else body)"
    by (simp only: execute_ex_enter_def Let_def s0_def [symmetric] begun_def [symmetric] body_def)
  then have "body = Some (Framed l, s')" using assms by (simp split: if_splits)
  then have "\<exists>s1 s2 s3 s4 s5 s6 cc s7 s8 s9.
      begun = Some s1 \<and> new_frame he ci XDEBUG_EXTERNAL (raise_level he s1) = Some (ul_frame l, s2) \<and>
      mark_magic_call (ul_frame l) s2 = Some s3 \<and> ul_function_nr l = to_int32 (function_count (xg_cov (hs_g s3))) \<and>
      trace_entry he (ci_trace_start ci) (\<lambda>_. True) (ul_function_nr l) (ul_frame l) s3 = Some s4 \<and>
      link_frame ci (ul_frame l) s4 = Some s5 \<and> add_variables he (ci_func ci) s5 = Some s6 \<and>
      start_coverage he (ci_code ci) (ul_frame l) s6 = Some (cc, s7) \<and> register_eval (ul_frame l) s7 = Some s8 \<and>
      function_breakpoint he XDEBUG_BRK_FUNC_CALL (ul_frame l) s8 = Some s9 \<and> begin_user_profile he ci (ul_frame l) s9 = Some s'"
    by (auto simp: body_def bind_eq_Some_conv Let_def)
  then obtain s1 s2 s3 s4 s5 s6 cc s7 s8 s9 where
      s1: "begun = Some s1" and s2: "new_frame he ci XDEBUG_EXTERNAL (raise_level he s1) = Some (ul_frame l, s2)" and
      s3: "mark_magic_call (ul_frame l) s2 = Some s3" and nr: "ul_function_nr l = to_int32 (function_count (xg_cov (hs_g s3)))" and
      s4: "trace_entry he (ci_trace_start ci) (\<lambda>_. True) (ul_function_nr l) (ul_frame l) s3 = Some s4" and
      s5: "link_frame ci (ul_frame l) s4 = Some s5" and s6: "add_variables he (ci_func ci) s5 = Some s6" and
      s7: "start_coverage he (ci_code ci) (ul_frame l) s6 = Some (cc, s7)" and s8: "register_eval (ul_frame l) s7 = Some s8" and
      s9: "function_breakpoint he XDEBUG_BRK_FUNC_CALL (ul_frame l) s8 = Some s9" and
      s10: "begin_user_profile he ci (ul_frame l) s9 = Some s'"
    by (elim exE conjE) (rule that, assumption+)
  have "same_calls s s0" by (simp add: s0_def same_calls)
  moreover have "same_frames s0 s1 \<and> (hs_tracer s1 = hs_tracer s0 \<or> xg_level s0 = 0 \<and> fresh_trace (hs_tracer s1))"
    using s1 first_call_same [of he "ci_trace_start ci" ?f s0 s1] by (auto simp: begun_def split: if_splits)
  ultimately have "same_frames s s1" "hs_tracer s1 = hs_tracer s \<or> xg_level s = 0 \<and> fresh_trace (hs_tracer s1)"
    by (auto simp: same_calls_def same_frames_def)
  moreover have "same_calls s2 s3" by (rule mark_magic_call_same [OF s3])
  moreover have "same_calls s4 s'"
    using link_frame_same [OF s5] add_variables_same [OF s6] start_coverage_same [OF s7] register_eval_same [OF s8]
      function_breakpoint_same [OF s9] begin_user_profile_same [OF s10] same_calls_trans by metis
  ultimately show ?thesis using s2 s4 nr by (auto simp: same_calls_def same_frames_def)
qed

lemma execute_ex_enter_entered:
  assumes "execute_ex_enter he ci s = Some (Framed l, s')" and "keys s \<noteq> None"
  shows "entered s (ul_frame l, ul_function_nr l) s'"
proof -
  obtain s1 s2 s3 s4 where s1: "same_frames s s1" and
      s2: "new_frame he ci XDEBUG_EXTERNAL (raise_level he s1) = Some (ul_frame l, s2)" and s3: "same_calls s2 s3" and
      nr: "ul_function_nr l = to_int32 (function_count (xg_cov (hs_g s2)))" and
      s4: "trace_entry he (ci_trace_start ci) (\<lambda>_. True) (ul_function_nr l) (ul_frame l) s3 = Some s4" and s': "same_calls s4 s'"
    using execute_ex_enter_steps [OF assms(1)] by blast
  have "keys s1 \<noteq> None" using assms(2) s1 by (simp add: same_frames_def)
  from new_frame_entered(1) [OF s2 this]
  have e: "entered s (ul_frame l, ul_function_nr l) s2" using entered_before [OF s1] nr by simp
  have "same_frames s2 s'"
    using s3 trace_same(1) [OF s4] s' same_calls_frames same_frames_trans by meson
  then show ?thesis by (rule entered_after [OF e])
qed

text \<open>The steps after the call: its end is traced, the frame goes.\<close>

lemma execute_ex_leave_steps:
  assumes "execute_ex_leave he ci l s = Some s'"
  shows "\<exists>s1 s2 s3 s4 s5. same_calls s s1 \<and> trace_exit he (ci_trace_end ci) (\<lambda>_. True) (ul_function_nr l) (ul_frame l) s1 = Some s2 \<and>
    trace_user_return he ci l s2 = Some s3 \<and> same_calls s3 s4 \<and> drop_frame s4 = Some s5 \<and> s' = lower_level s5"
proof -
  have "\<exists>t1 s1 s2 s3 t4 s4 s5. finish_profile he (ci_end ci) (ul_frame l) s = Some t1 \<and>
      finish_coverage he (ul_coverage l) (ul_frame l) t1 = Some s1 \<and>
      trace_exit he (ci_trace_end ci) (\<lambda>_. True) (ul_function_nr l) (ul_frame l) s1 = Some s2 \<and>
      trace_user_return he ci l s2 = Some s3 \<and> function_breakpoint he XDEBUG_BRK_FUNC_RETURN (ul_frame l) s3 = Some t4 \<and>
      unlink_frame (ul_frame l) t4 = Some s4 \<and> drop_frame s4 = Some s5 \<and> s' = lower_level s5"
    using assms by (auto simp: execute_ex_leave_def bind_eq_Some_conv)
  then obtain t1 s1 s2 s3 t4 s4 s5 where "finish_profile he (ci_end ci) (ul_frame l) s = Some t1"
      "finish_coverage he (ul_coverage l) (ul_frame l) t1 = Some s1"
      "trace_exit he (ci_trace_end ci) (\<lambda>_. True) (ul_function_nr l) (ul_frame l) s1 = Some s2"
      "trace_user_return he ci l s2 = Some s3" "function_breakpoint he XDEBUG_BRK_FUNC_RETURN (ul_frame l) s3 = Some t4"
      "unlink_frame (ul_frame l) t4 = Some s4" "drop_frame s4 = Some s5" "s' = lower_level s5"
    by (elim exE conjE) (rule that, assumption+)
  moreover from this have "same_calls s s1" "same_calls s3 s4"
    using finish_profile_same finish_coverage_same function_breakpoint_same unlink_frame_same same_calls_trans by metis+
  ultimately show ?thesis by blast
qed

lemma execute_ex_leave_left:
  assumes "execute_ex_leave he ci l s = Some s'" and "keys s \<noteq> None"
  shows "left s s'"
proof -
  obtain s1 s2 s3 s4 s5 where s1: "same_calls s s1" and
      s2: "trace_exit he (ci_trace_end ci) (\<lambda>_. True) (ul_function_nr l) (ul_frame l) s1 = Some s2" and
      s3: "trace_user_return he ci l s2 = Some s3" and s4: "same_calls s3 s4" and s5: "drop_frame s4 = Some s5" and
      s': "s' = lower_level s5"
    using execute_ex_leave_steps [OF assms(1)] by blast
  have b: "same_frames s s4"
    using s1 trace_same(2) [OF s2] trace_user_return_same [OF s3] s4 same_calls_frames same_frames_trans by meson
  moreover have "left s4 s'"
    using drop_frame_left(2) [OF s5] b assms(2) s' by (simp add: same_frames_def)
  ultimately show ?thesis by (rule left_before)
qed

lemma publish_call_same:
  "publish_call he s = Some s' \<Longrightarrow>
   \<exists>p m. publish (he_pid he) (fstack_of (xg_stack (hs_g s))) (hs_proc s, hs_shm s) = Some (p, m) \<and>
     s' = s\<lparr>hs_proc := p, hs_shm := m\<rparr>"
  by (auto simp: publish_call_def)

lemma entered_shm: "entered s c s1 \<Longrightarrow> entered s c (s1\<lparr>hs_proc := p, hs_shm := m\<rparr>)"
  by (simp add: entered_def keys_def xg_level_def)

text \<open>The steps of \<open>xdebug_execute_internal\<close> before the call: the frame is made, and after steps that change no
  frame the call is published.\<close>

lemma execute_internal_enter_steps:
  assumes "execute_internal_enter he ci s = Some (l, s')"
  shows "\<exists>s1 s2 s3 p m. new_frame he ci XDEBUG_INTERNAL (raise_level he s) = Some (il_frame l, s1) \<and>
    il_function_nr l = to_int32 (function_count (xg_cov (hs_g s1))) \<and>
    trace_entry he (ci_trace_start ci) not_pass (il_function_nr l) (il_frame l) s1 = Some s2 \<and> same_calls s2 s3 \<and>
    publish (he_pid he) (fstack_of (xg_stack (hs_g s3))) (hs_proc s3, hs_shm s3) = Some (p, m) \<and>
    s' = s3\<lparr>hs_proc := p, hs_shm := m\<rparr>"
proof -
  define cb where "cb fr s = (if check_soap_call (he_soap he) (cf_fse fr) then s\<lparr>hs_error_cb := he_old_error_cb he\<rparr> else s)"
    for fr :: call_frame and s :: "'a hook_state"
  define rest where "rest fr s = (if check_soap_call (he_soap he) (cf_fse fr) then Some (hs_error_cb s) else None)"
    for fr :: call_frame and s :: "'a hook_state"
  have "execute_internal_enter he ci s = do {
        (i, t) \<leftarrow> new_frame he ci XDEBUG_INTERNAL (raise_level he s);
        let nr = to_int32 (function_count (xg_cov (hs_g t)));
        fr \<leftarrow> frame_at_index i t;
        t \<leftarrow> trace_entry he (ci_trace_start ci) not_pass nr i t;
        t \<leftarrow> function_breakpoint he XDEBUG_BRK_FUNC_CALL i t;
        u \<leftarrow> begin_internal_profile he ci i (cb fr t);
        u \<leftarrow> publish_call he u;
        Some (\<lparr>il_frame = i, il_do_return = is_tracing (hs_tracer s), il_function_nr = nr, il_restore = rest fr t\<rparr>, u)
      }"
    by (simp only: execute_internal_enter_def Let_def cb_def rest_def)
  from assms [unfolded this] have "\<exists>s1 fr s2 s4 s5. new_frame he ci XDEBUG_INTERNAL (raise_level he s) = Some (il_frame l, s1) \<and>
      frame_at_index (il_frame l) s1 = Some fr \<and> il_function_nr l = to_int32 (function_count (xg_cov (hs_g s1))) \<and>
      trace_entry he (ci_trace_start ci) not_pass (il_function_nr l) (il_frame l) s1 = Some s2 \<and>
      function_breakpoint he XDEBUG_BRK_FUNC_CALL (il_frame l) s2 = Some s4 \<and>
      begin_internal_profile he ci (il_frame l) (cb fr s4) = Some s5 \<and> publish_call he s5 = Some s'"
    by (auto simp: bind_eq_Some_conv Let_def)
  then obtain s1 fr s2 s4 s5 where
      s1: "new_frame he ci XDEBUG_INTERNAL (raise_level he s) = Some (il_frame l, s1)" and
      "frame_at_index (il_frame l) s1 = Some fr" and nr: "il_function_nr l = to_int32 (function_count (xg_cov (hs_g s1)))" and
      s2: "trace_entry he (ci_trace_start ci) not_pass (il_function_nr l) (il_frame l) s1 = Some s2" and
      s4: "function_breakpoint he XDEBUG_BRK_FUNC_CALL (il_frame l) s2 = Some s4" and
      s5: "begin_internal_profile he ci (il_frame l) (cb fr s4) = Some s5" and pub: "publish_call he s5 = Some s'"
    by (elim exE conjE) (rule that, assumption+)
  have "same_calls s4 (cb fr s4)" by (simp add: cb_def same_calls)
  then have "same_calls s2 s5"
    using function_breakpoint_same [OF s4] begin_internal_profile_same [OF s5] same_calls_trans by metis
  then show ?thesis using s1 s2 nr publish_call_same [OF pub] by blast
qed

lemma execute_internal_enter_entered:
  assumes "execute_internal_enter he ci s = Some (l, s')" and "keys s \<noteq> None"
  shows "entered s (il_frame l, il_function_nr l) s'"
proof -
  obtain s1 s2 s3 p m where s1: "new_frame he ci XDEBUG_INTERNAL (raise_level he s) = Some (il_frame l, s1)"
      and nr: "il_function_nr l = to_int32 (function_count (xg_cov (hs_g s1)))"
      and s2: "trace_entry he (ci_trace_start ci) not_pass (il_function_nr l) (il_frame l) s1 = Some s2" and s3: "same_calls s2 s3"
      and s': "s' = s3\<lparr>hs_proc := p, hs_shm := m\<rparr>"
    using execute_internal_enter_steps [OF assms(1)] by blast
  have "same_frames s1 s3" using trace_same(1) [OF s2] s3 same_calls_frames same_frames_trans by meson
  from entered_shm [OF entered_after [OF new_frame_entered(1) [OF s1 assms(2)] this]] show ?thesis using s' nr by simp
qed

lemma trace_internal_return_same: "trace_internal_return he ci l s = Some s' \<Longrightarrow> same_frames s s'"
  by (auto simp: trace_internal_return_def split: option.splits if_splits dest: trace_same)

lemma execute_internal_leave_steps:
  assumes "execute_internal_leave he ci l s = Some s'"
  shows "\<exists>s1 s2 s3 s4 s5. same_calls s s1 \<and> trace_exit he (ci_trace_end ci) not_pass (il_function_nr l) (il_frame l) s1 = Some s2 \<and>
    trace_internal_return he ci l s2 = Some s3 \<and> same_calls s3 s4 \<and> drop_frame s4 = Some s5 \<and>
    s' = lower_level (s5\<lparr>hs_shm := clear_shared (hs_proc s5) (hs_shm s5)\<rparr>)"
proof -
  define cb where "cb s = (case il_restore l of None \<Rightarrow> s | Some cb \<Rightarrow> s\<lparr>hs_error_cb := cb\<rparr>)" for s :: "'a hook_state"
  have "execute_internal_leave he ci l s = do {
       s \<leftarrow> finish_profile he (ci_end ci) (il_frame l) s;
       s \<leftarrow> trace_exit he (ci_trace_end ci) not_pass (il_function_nr l) (il_frame l) (cb s);
       s \<leftarrow> trace_internal_return he ci l s;
       s \<leftarrow> function_breakpoint he XDEBUG_BRK_FUNC_RETURN (il_frame l) s;
       s \<leftarrow> drop_frame s;
       Some (lower_level (s\<lparr>hs_shm := clear_shared (hs_proc s) (hs_shm s)\<rparr>))
     }"
    by (simp add: execute_internal_leave_def Let_def cb_def)
  from assms [unfolded this] have "\<exists>t1 s2 s3 s4 s5. finish_profile he (ci_end ci) (il_frame l) s = Some t1 \<and>
      trace_exit he (ci_trace_end ci) not_pass (il_function_nr l) (il_frame l) (cb t1) = Some s2 \<and>
      trace_internal_return he ci l s2 = Some s3 \<and> function_breakpoint he XDEBUG_BRK_FUNC_RETURN (il_frame l) s3 = Some s4 \<and>
      drop_frame s4 = Some s5 \<and> s' = lower_level (s5\<lparr>hs_shm := clear_shared (hs_proc s5) (hs_shm s5)\<rparr>)"
    by (auto simp: bind_eq_Some_conv)
  then obtain t1 s2 s3 s4 s5 where t1: "finish_profile he (ci_end ci) (il_frame l) s = Some t1" and
      "trace_exit he (ci_trace_end ci) not_pass (il_function_nr l) (il_frame l) (cb t1) = Some s2"
      "trace_internal_return he ci l s2 = Some s3" and s4: "function_breakpoint he XDEBUG_BRK_FUNC_RETURN (il_frame l) s3 = Some s4" and
      "drop_frame s4 = Some s5" "s' = lower_level (s5\<lparr>hs_shm := clear_shared (hs_proc s5) (hs_shm s5)\<rparr>)"
    by (elim exE conjE) (rule that, assumption+)
  moreover have "same_calls t1 (cb t1)" by (simp add: cb_def same_calls split: option.splits)
  then have "same_calls s (cb t1)" using finish_profile_same [OF t1] same_calls_trans by blast
  ultimately show ?thesis using function_breakpoint_same [OF s4] by blast
qed

lemma execute_internal_leave_left:
  assumes "execute_internal_leave he ci l s = Some s'" and "keys s \<noteq> None"
  shows "left s s'" and "hs_shm s' = clear_shared (hs_proc s) (hs_shm s) \<and> hs_proc s' = hs_proc s"
proof -
  obtain s1 s2 s3 s4 s5 where s1: "same_calls s s1" and
      s2: "trace_exit he (ci_trace_end ci) not_pass (il_function_nr l) (il_frame l) s1 = Some s2" and
      s3: "trace_internal_return he ci l s2 = Some s3" and s4: "same_calls s3 s4" and s5: "drop_frame s4 = Some s5" and
      s': "s' = lower_level (s5\<lparr>hs_shm := clear_shared (hs_proc s5) (hs_shm s5)\<rparr>)"
    using execute_internal_leave_steps [OF assms(1)] by blast
  have b: "same_frames s s4"
    using s1 trace_same(2) [OF s2] trace_internal_return_same [OF s3] s4 same_calls_frames same_frames_trans by meson
  have "left s4 s'" using drop_frame_left(1) [OF s5] b assms(2) s' by (simp add: same_frames_def)
  then show "left s s'" by (rule left_before [OF b])
  have "hs_proc s5 = hs_proc s4" "hs_shm s5 = hs_shm s4"
    using s5 by (auto simp: drop_frame_def split: option.splits if_splits)
  then show "hs_shm s' = clear_shared (hs_proc s) (hs_shm s) \<and> hs_proc s' = hs_proc s"
    using b s' by (auto simp: same_frames_def lower_level_def map_cov_def)
qed

section \<open>Every run\<close>

text \<open>The frames are those of the running calls, in order; they are numbered in the order they were made, and their
  levels are their places.\<close>

definition calls_ok :: "nat \<Rightarrow> open_call list \<times> 'w hook_state \<Rightarrow> bool" where
  "calls_ok n = (\<lambda>(cs, s).
     \<exists>ks. keys s = Some ks \<and> xg_level s = length ks \<and>
       map fst (framed_calls cs) = [0..<length ks] \<and> map key_nr ks = map snd (framed_calls cs) \<and>
       map key_level ks = map int [1..<Suc (length ks)] \<and> sorted_wrt (<) (map key_nr ks) \<and>
       (\<forall>nr \<in> set (map key_nr ks). 0 \<le> nr \<and> nr < int n) \<and>
       function_count (xg_cov (hs_g s)) = (int n - 1) mod 2 ^ 32)"

lemma calls_ok_same: "calls_ok n (cs, s) \<Longrightarrow> same_frames s s' \<Longrightarrow> calls_ok n (cs, s')"
  unfolding calls_ok_def prod.case same_frames_def by metis

lemma framed_calls_Cons: "framed_calls (c # cs) = framed_calls cs @ (case call_frame_of c of None \<Rightarrow> [] | Some f \<Rightarrow> [f])"
  by (simp add: framed_calls_def map_filter_simps split: option.split)

lemma next_count_value: "function_count (xg_cov g) = (int n - 1) mod 2 ^ 32 \<Longrightarrow> next_count g = int n mod 2 ^ 32"
  unfolding next_count_def uint_word_of_int by (simp add: mod_simps)

lemma calls_ok_entered:
  assumes "calls_ok n (cs, s)" and "entered s (i, nr) s'" and "call_frame_of c = Some (i, nr)" and "n < 2 ^ 31"
  shows "calls_ok (Suc n) (c # cs, s')"
proof -
  obtain ks where ks: "keys s = Some ks" "xg_level s = length ks" "map fst (framed_calls cs) = [0..<length ks]"
      "map key_nr ks = map snd (framed_calls cs)" "map key_level ks = map int [1..<Suc (length ks)]"
      "sorted_wrt (<) (map key_nr ks)" "\<forall>x \<in> set (map key_nr ks). 0 \<le> x \<and> x < int n"
      "function_count (xg_cov (hs_g s)) = (int n - 1) mod 2 ^ 32"
    using assms(1) unfolding calls_ok_def prod.case by blast
  have nc: "next_count (hs_g s) = int n"
    using next_count_value [OF ks(8)] assms(4) by simp
  obtain k where k: "keys s' = Some (ks @ [k])" "i = length ks" "key_nr k = nr" "key_level k = int (Suc (length ks))"
      "nr = to_int32 (int n)" "xg_level s' = Suc (length ks)" "function_count (xg_cov (hs_g s')) = int n"
    using assms(2) ks(1,2) nc by (auto simp: entered_def)
  have nr: "nr = int n" using k(5) assms(4) by (simp add: to_int32_id)
  have "framed_calls (c # cs) = framed_calls cs @ [(i, nr)]" using assms(3) by (simp add: framed_calls_Cons)
  moreover have "map int [1..<Suc (length (ks @ [k]))] = map int [1..<Suc (length ks)] @ [int (Suc (length ks))]"
    by (simp add: upt_Suc_append del: upt_Suc)
  moreover have "sorted_wrt (<) (map key_nr (ks @ [k]))"
    using ks(6,7) k(3) nr by (simp add: sorted_wrt_append)
  moreover have "\<forall>x \<in> set (map key_nr (ks @ [k])). 0 \<le> x \<and> x < int (Suc n)"
    using ks(7) k(3) nr by force
  moreover have "function_count (xg_cov (hs_g s')) = (int (Suc n) - 1) mod 2 ^ 32" using k(7) assms(4) by simp
  ultimately show ?thesis
    using k(1-4,6) ks(3-5) unfolding calls_ok_def prod.case by (intro exI [of _ "ks @ [k]"]) simp
qed

lemma calls_ok_left:
  assumes "calls_ok n (c # cs, s)" and "left s s'" and "call_frame_of c \<noteq> None"
  shows "calls_ok n (cs, s')"
proof -
  obtain f where f: "call_frame_of c = Some f" using assms(3) by blast
  obtain ks k where k: "keys s = Some (ks @ [k])" "keys s' = Some ks" "xg_level s' = xg_level s - 1"
      "function_count (xg_cov (hs_g s')) = function_count (xg_cov (hs_g s))"
    using assms(2) by (auto simp: left_def)
  show ?thesis
    using assms(1) k f by (auto simp: calls_ok_def framed_calls_Cons sorted_wrt_append)
qed


lemma runs_calls_ok: "runs_to he n c \<Longrightarrow> n \<le> 2 ^ 31 \<Longrightarrow> calls_ok n c"
proof (induction rule: runs_to.induct)
  case (start s)
  then show ?case by (simp add: request_start_def calls_ok_def keys_def framed_calls_def map_filter_simps)
next
  case (step n c c')
  obtain cs s where c: "c = (cs, s)" by force
  have n: "n \<le> 2 ^ 31" using step.prems by (simp split: if_splits)
  then have ok: "calls_ok n (cs, s)" using step.IH c by simp
  then have keys: "keys s \<noteq> None" by (auto simp: calls_ok_def)
  have grow: "Suc n \<le> 2 ^ 31" if "length (framed_calls cs) < length (framed_calls (fst c'))"
    using that step.prems c by simp
  from step.hyps(2) [unfolded c] show ?case
  proof (cases rule: script_step.cases)
    case (call_user ci l s')
    then show ?thesis
      using calls_ok_entered [OF ok execute_ex_enter_entered [OF call_user(2) keys], of "Open_user ci l"] grow
      unfolding call_user(1) c by (simp add: framed_calls_Cons)
  next
    case (call_unframed ci s')
    then have "s' = s" by (auto simp: execute_ex_enter_def Let_def bind_eq_Some_conv split: if_splits)
    then show ?thesis using ok call_unframed by (simp add: c calls_ok_def framed_calls_Cons)
  next
    case (call_refused ci s')
    then have "s' = s" by (auto simp: execute_ex_enter_def Let_def bind_eq_Some_conv split: if_splits)
    then show ?thesis using ok call_refused by (simp add: c)
  next
    case (call_internal ci il s')
    then show ?thesis
      using calls_ok_entered [OF ok execute_internal_enter_entered [OF call_internal(2) keys], of "Open_internal ci il"] grow
      unfolding call_internal(1) c by (simp add: framed_calls_Cons)
  next
    case (return_user ci l s' cs')
    then show ?thesis
      using calls_ok_left [OF ok [unfolded return_user(1)] execute_ex_leave_left [OF _ keys]]
      by (simp add: c framed_calls_Cons)
  next
    case (return_unframed cs')
    then show ?thesis using ok by (simp add: c calls_ok_def framed_calls_Cons)
  next
    case (return_internal ci il s' cs')
    then show ?thesis
      using calls_ok_left [OF ok [unfolded return_internal(1)] execute_internal_leave_left(1) [OF _ keys]]
      by (simp add: c framed_calls_Cons)
  next
    case (compile code eg s')
    have "same_calls s (s\<lparr>hs_engine := eg\<rparr>)" by (simp add: same_calls_engine)
    then show ?thesis
      using calls_ok_same [OF ok same_calls_frames [OF same_calls_trans [OF _ compile_file_same [OF compile(2)]]]] compile
      by (simp add: c)
  next
    case (exit_opcode reading s')
    then show ?thesis using calls_ok_same [OF ok same_calls_frames [OF exit_handler_same]] by (simp add: c)
  next
    case (start_trace te fname options used tr)
    then show ?thesis using calls_ok_same [OF ok same_frames_tracer] by (simp add: c)
  next
    case (stop_trace te used tr)
    then show ?thesis using calls_ok_same [OF ok same_frames_tracer] by (simp add: c)
  next
    case (statement eval filtered f ln s')
    then show ?thesis using calls_ok_same [OF ok same_calls_frames [OF statement_hook_same]] by (simp add: c)
  qed
qed

text \<open>C16: at every moment of a request the frames of the stack are those of the calls that run, in order: the nesting
  level is their number, each has its place as its level and a number larger than those below, and the frame that the
  end of the innermost call works on and that is removed is its own, the last one.\<close>

theorem frames_match_calls:
  assumes "runs_to he n (cs, s)" and "n \<le> 2 ^ 31"
  shows "\<exists>frs. xg_stack (hs_g s) = Some frs \<and> xg_level s = length frs \<and>
    map fst (framed_calls cs) = [0..<length frs] \<and>
    map (\<lambda>fr. function_nr (cf_fse fr)) frs = map snd (framed_calls cs) \<and>
    map (\<lambda>fr. fse_level (cf_fse fr)) frs = map int [1..<Suc (length frs)] \<and>
    sorted_wrt (<) (map (\<lambda>fr. function_nr (cf_fse fr)) frs)"
proof -
  have fields: "map key_nr (map frame_key frs) = map (\<lambda>fr. function_nr (cf_fse fr)) frs"
      "map key_level (map frame_key frs) = map (\<lambda>fr. fse_level (cf_fse fr)) frs" for frs
    by (simp_all add: key_nr_def key_level_def frame_key_def)
  show ?thesis
    using runs_calls_ok [OF assms] unfolding calls_ok_def prod.case keys_def
    by (auto simp flip: fields simp del: map_map)
qed


section \<open>What the tracer of system calls reads\<close>

text \<open>The bytes of the shared memory of this process, up to the first zero.\<close>

definition shown_call :: "'w hook_state \<Rightarrow> string" where
  "shown_call s = cstr (objects (hs_shm s) (shm_obj (hs_proc s)))"

text \<open>The text for a call, with the place it is made from.\<close>

definition call_text :: "xdebug_func \<Rightarrow> string \<Rightarrow> int \<Rightarrow> string" where
  "call_text func file ln =
     '' > '' @ (case func_class func of Some c \<Rightarrow> c @ ''::'' | None \<Rightarrow> []) @ show_str (func_function func) @
     '' ->'' @ file @ '':'' @ dec_int ln @ [CHR 0x0A]"

text \<open>The memory of the process has no fork to wait for.\<close>

definition memory_ready :: "'w hook_state \<Rightarrow> bool" where
  "memory_ready s \<longleftrightarrow> length (objects (hs_shm s) (shm_obj (hs_proc s))) = SHM_SIZE \<and>
     flag (objects (hs_shm s) (shm_obj (hs_proc s))) = 0"

lemma cstr_without_nul: "nul \<notin> set (cstr t)"
  by (auto simp: cstr_def nul_def dest: set_takeWhileD)

lemma nul_notin_dec_int: "nul \<notin> set (dec_int i)"
  using dec_isdigit [of nul "nat i"] dec_isdigit [of nul "nat (- i)"]
  by (auto simp: dec_int_def isdigit_def uchar_def nul_def)

lemma nul_notin_call_text: "nul \<notin> set (call_text (call_func e f n) (cstr file0) ln)"
proof -
  have "nul \<notin> set c" if "func_class (call_func e f n) = Some c" for c
    using that cstr_without_nul by (auto simp: call_func_def split: option.splits)
  moreover have "nul \<notin> set (show_str (func_function (call_func e f n)))"
    using cstr_without_nul by (simp add: call_func_def show_str_def)
  ultimately show ?thesis
    using cstr_without_nul nul_notin_dec_int by (auto simp: call_text_def nul_def split: option.split)
qed

lemma frame_line_text:
  "fse_filename fse = Some fn \<Longrightarrow> frame_line fse = call_text (fse_function fse) fn (fse_lineno fse)"
  by (simp add: frame_line_def call_text_def show_str_def split: option.splits)

text \<open>A trace that shows no arguments can write the begin of every call whose name is known.\<close>

definition trace_plain :: "'w hook_env \<Rightarrow> tracer \<Rightarrow> bool" where
  "trace_plain he tr \<longleftrightarrow> is_tracing tr \<longrightarrow> tr_handler tr \<noteq> Html \<and> tc_collect_params (he_trace he) \<le> 0"

lemma trace_plain_untraced [simp]: "\<not> is_tracing tr \<Longrightarrow> trace_plain he tr"
  by (simp add: trace_plain_def)

lemma trace_write_fields:
  "is_tracing (trace_write r t tr) = is_tracing tr" "tr_handler (trace_write r t tr) = tr_handler tr"
  "is_tracing tr \<Longrightarrow> records (trace_write r t tr) = records tr @ [r]"
  by (auto simp: trace_write_def is_tracing_def records_def)

lemma entry_written:
  assumes "frame_at_index i s = Some fr" and "trace_plain he (hs_tracer s)" and "plain_fname (fse_function (cf_fse fr)) \<noteq> None"
  shows "\<exists>t. trace_entry he te c k i s = Some (s\<lparr>hs_tracer := t\<rparr>) \<and> trace_plain he t \<and>
    is_tracing t = is_tracing (hs_tracer s) \<and> tr_handler t = tr_handler (hs_tracer s) \<and>
    records t = records (hs_tracer s) @ (if is_tracing (hs_tracer s) \<and> filtered_tracing (cf_fse fr) = 0 \<and> c fr then [Trace_entry k] else []) \<and>
    (\<not> is_tracing (hs_tracer s) \<longrightarrow> t = hs_tracer s)"
proof (cases "is_tracing (hs_tracer s) \<and> filtered_tracing (cf_fse fr) = 0 \<and> c fr")
  case True
  let ?tr = "hs_tracer s"
  obtain nm where nm: "plain_fname (fse_function (cf_fse fr)) = Some nm" using assms(3) by blast
  have "\<not> 0 < tc_collect_params (he_trace he)" "tr_handler ?tr \<noteq> Html" using True assms(2) by (simp_all add: trace_plain_def)
  then have "\<exists>line. function_entry (he_trace he) te (tr_handler ?tr) fr k = Some line"
    using nm by (cases "tr_handler ?tr")
      (simp_all add: function_entry_def textual_entry_def computerized_entry_def computerized_args_def Let_def)
  then obtain line where "function_entry (he_trace he) te (tr_handler ?tr) fr k = Some line" by blast
  then have "trace_entry he te c k i s = Some (s\<lparr>hs_tracer := trace_write (Trace_entry k) line ?tr\<rparr>)"
    using True assms(1) by (simp add: trace_entry_def traced_def trace_call_def)
  then show ?thesis using True assms(2) trace_write_fields
    by (intro exI [of _ "trace_write (Trace_entry k) line ?tr"]) (simp add: trace_plain_def)
next
  case False
  then have "trace_entry he te c k i s = Some (s\<lparr>hs_tracer := hs_tracer s\<rparr>)"
    using assms(1) by (auto simp: trace_entry_def traced_def trace_call_def)
  then show ?thesis using False assms(2) by (intro exI [of _ "hs_tracer s"]) auto
qed

lemma internal_enter_plain:
  assumes "ce_calls (ci_env ci) = e # prev" and "ed_func e = Some f" and "ci_func ci = f" and "plain_function f n"
    and "\<not> ZEND_USER_CODE (zf_type f)" and "user_call prev = Some (cf, Some ol)" and "xg_stack (hs_g s) = Some frs"
    and "plain_request (he_config he) (hs_g s)" and "cc_collect_params (he_config he)"
    and "\<not> remote_enabled (hs_dbg s)" and "\<not> profiler_enabled (xg_profiler (hs_g s))" and "memory_ready s"
    and "trace_plain he (hs_tracer s)"
    and "length (call_text (call_func e f n) (cstr (zf_filename cf)) (to_int32 (int (co_lineno ol)))) < SHM_CALLSTACK_SIZE"
  shows "\<exists>l s' fr. execute_internal_enter he ci s = Some (l, s') \<and> memory_ready s' \<and>
    shown_call s' = call_text (call_func e f n) (cstr (zf_filename cf)) (to_int32 (int (co_lineno ol))) \<and>
    xg_stack (hs_g s') = Some (frs @ [fr]) \<and> il_frame l = length frs \<and> plain_request (he_config he) (hs_g s') \<and>
    \<not> remote_enabled (hs_dbg s') \<and> \<not> profiler_enabled (xg_profiler (hs_g s')) \<and> hs_proc s' = hs_proc s \<and>
    names (hs_shm s') = names (hs_shm s) \<and> trace_plain he (hs_tracer s') \<and> is_tracing (hs_tracer s') = is_tracing (hs_tracer s) \<and>
    tr_handler (hs_tracer s') = tr_handler (hs_tracer s) \<and>
    (filter_type_tracing (cc_filters (he_config he)) = XDEBUG_FILTER_NONE \<and> is_tracing (hs_tracer s) \<longrightarrow>
       records (hs_tracer s') = records (hs_tracer s) @ [Trace_entry (il_function_nr l)]) \<and>
    (\<not> is_tracing (hs_tracer s) \<longrightarrow> hs_tracer s' = hs_tracer s) \<and> fse_filename (cf_fse fr) = Some (cstr (zf_filename cf))"
proof -
  let ?r = "raise_level he s" and ?text = "call_text (call_func e f n) (cstr (zf_filename cf)) (to_int32 (int (co_lineno ol)))"
  have plain: "plain_request (he_config he) (hs_g ?r)" and prof: "xg_profiler (hs_g ?r) = xg_profiler (hs_g s)"
      and dbg: "hs_dbg ?r = hs_dbg s"
    using assms(8) by (simp_all add: plain_request_def raise_level_def map_cov_def Let_def)
  have "XDEBUG_INTERNAL = (if ZEND_USER_CODE (zf_type f) then XDEBUG_EXTERNAL else XDEBUG_INTERNAL)" using assms(5) by simp
  from frame_made [OF assms(1,2,4) plain this assms(6) _ assms(9), of frs False]
  obtain fr g where g: "add_stack_frame (he_config he) False (ci_env ci) f XDEBUG_INTERNAL (hs_g ?r) = Some (fr, g)"
      "xg_stack g = Some (frs @ [fr])" "fse_function (cf_fse fr) = call_func e f n"
      "fse_filename (cf_fse fr) = Some (cstr (zf_filename cf))" "fse_lineno (cf_fse fr) = to_int32 (int (co_lineno ol))"
      "xg_profiler g = xg_profiler (hs_g s)" "plain_request (he_config he) g"
    using assms(7) prof by (auto simp: raise_level_fields)
  define nr where "nr = to_int32 (function_count (xg_cov g))"
  define s1 where "s1 = ?r\<lparr>hs_g := g\<rparr>"
  have s1: "hs_g s1 = g" "hs_dbg s1 = hs_dbg s" "hs_proc s1 = hs_proc s" "hs_shm s1 = hs_shm s" "hs_tracer s1 = hs_tracer s"
      "hs_error_cb s1 = hs_error_cb ?r"
    by (simp_all add: s1_def dbg raise_level_fields)
  have "frame_at_index (length frs) s1 = Some fr" using s1(1) g(2) by (simp add: frame_at_index_def)
  moreover have name: "plain_fname (fse_function (cf_fse fr)) \<noteq> None" "not_pass fr"
    using g(3) by (simp_all add: plain_fname_def call_func_def Let_def xfunc_defs not_pass_def)
  ultimately obtain t where t: "trace_entry he (ci_trace_start ci) not_pass nr (length frs) s1 = Some (s1\<lparr>hs_tracer := t\<rparr>)"
      "trace_plain he t" "is_tracing t = is_tracing (hs_tracer s)" "tr_handler t = tr_handler (hs_tracer s)"
      "records t = records (hs_tracer s) @ (if is_tracing (hs_tracer s) \<and> filtered_tracing (cf_fse fr) = 0 then [Trace_entry nr] else [])"
      "\<not> is_tracing (hs_tracer s) \<longrightarrow> t = hs_tracer s"
    using entry_written [of "length frs" s1 fr he "ci_trace_start ci" not_pass nr] assms(13) s1(5) by auto
  have unfiltered: "filter_type_tracing (cc_filters (he_config he)) = XDEBUG_FILTER_NONE \<Longrightarrow> filtered_tracing (cf_fse fr) = 0"
    using add_stack_frame_tail(6) [OF g(1)] assms(7) raise_level_fields(1) [of he s] by simp
  define s2 where "s2 = (if check_soap_call (he_soap he) (cf_fse fr)
    then s1\<lparr>hs_tracer := t, hs_error_cb := he_old_error_cb he\<rparr> else s1\<lparr>hs_tracer := t\<rparr>)"
  then have s2: "hs_g s2 = g" "hs_dbg s2 = hs_dbg s" "hs_proc s2 = hs_proc s" "hs_shm s2 = hs_shm s" "hs_tracer s2 = t"
    using s1 by simp_all
  have "line_ok (cf_fse fr)"
    using frame_line_text [OF g(4)] g(3,5) nul_notin_call_text assms(14) by (simp add: line_ok_def)
  then obtain r where r: "write_callstack (Some (map cf_fse (frs @ [fr]))) (objects (hs_shm s) (shm_obj (hs_proc s))) = Some r"
      "length r = SHM_SIZE" "cstr r = ?text" "flag r = 0"
    using write_publishes [of "objects (hs_shm s) (shm_obj (hs_proc s))" "map cf_fse (frs @ [fr])"] assms(12)
      frame_line_text [OF g(4)] g(3,5) by (auto simp: memory_ready_def)
  have pub: "publish_call he s2 = Some (s2\<lparr>hs_shm := (hs_shm s)\<lparr>objects := (objects (hs_shm s))(shm_obj (hs_proc s) := r)\<rparr>\<rparr>)"
    using publish_own [OF _ r(1), of "he_pid he"] assms(12) s2 g(2)
    by (simp add: publish_call_def fstack_of_def memory_ready_def)
  define il where "il = \<lparr>il_frame = length frs, il_do_return = is_tracing (hs_tracer s), il_function_nr = nr,
      il_restore = (if check_soap_call (he_soap he) (cf_fse fr) then Some (hs_error_cb s1) else None)\<rparr>"
  define s3 where "s3 = s2\<lparr>hs_shm := (hs_shm s)\<lparr>objects := (objects (hs_shm s))(shm_obj (hs_proc s) := r)\<rparr>\<rparr>"
  have "execute_internal_enter he ci s = Some (il, s3)"
    using g assms(3,10,11) pub s1 s2 t(1)
    by (simp add: execute_internal_enter_def new_frame_def dbg frame_at_index_def function_breakpoint_def
        begin_internal_profile_def Let_def nr_def [symmetric] s1_def [symmetric] s2_def [symmetric] il_def s3_def)
  moreover have "shown_call s3 = ?text" "memory_ready s3" and s3: "hs_g s3 = g" "hs_dbg s3 = hs_dbg s" "hs_proc s3 = hs_proc s" "hs_tracer s3 = t"
    using r s2 by (simp_all add: shown_call_def memory_ready_def s3_def)
  moreover have "xg_stack (hs_g s3) = Some (frs @ [fr])" "plain_request (he_config he) (hs_g s3)"
      "\<not> remote_enabled (hs_dbg s3)" "\<not> profiler_enabled (xg_profiler (hs_g s3))"
    using s3 g assms(10,11) by simp_all
  moreover have "il_frame il = length frs" "il_function_nr il = nr" "names (hs_shm s3) = names (hs_shm s)"
    by (simp_all add: il_def s3_def)
  ultimately show ?thesis using t(2-6) unfiltered g(4)
    by (intro exI [of _ il] exI [of _ s3] exI [of _ fr]) simp
qed

text \<open>A request whose script calls a function of PHP, and that one another.\<close>

definition sample_trace :: trace_config where
  "sample_trace =
     \<lparr>tc_format = 1, tc_output_dir = ''/tmp'', tc_output_name = ''trace.%c'', tc_collect_params = 0, tc_show_mem_delta = False,
      tc_start_time = 0, tc_version = ''2.6.0'', tc_open = (\<lambda>f _ _. Some f), tc_names = (\<lambda>_. OutputName.sample_env), tc_junk = nul,
      tc_ops = \<lparr>d_add = (+), d_sub = (-), d_usec = (\<lambda>_. ''0'')\<rparr>, tc_float = (\<lambda>_ t. dec (unat t)), tc_engine = sample_engine,
      tc_values = options_from_ini 0 128 512 3, tc_serialize = (\<lambda>_. None),
      tc_docref = \<lparr>html_errors = False, doc_root = [], doc_ext = []\<rparr>\<rparr>"

definition sample_hooks :: "unit hook_env" where
  "sample_hooks =
     \<lparr>he_config = sample_config,
      he_settings = \<lparr>ss_remote_autostart = False, ss_remote_enable = False, ss_remote_mode_req = True,
        ss_profiler_enable = False, ss_profiler_trigger = False, ss_profiler_trigger_value = None, ss_auto_trace = False,
        ss_trace_trigger = False, ss_trace_trigger_value = None, ss_gc_stats = False\<rparr>,
      he_request = \<lparr>rq_get = Map.empty, rq_post = Map.empty, rq_cookie = Map.empty, rq_to_string = (\<lambda>_. []),
        rq_xdebug_config = None, rq_headers_sent = False\<rparr>,
      he_remote = (\<lambda>_ w d. Some (False, w, d)), he_debug_init = (\<lambda>_ _. None), he_breakpoints_allowed = True,
      he_trace = sample_trace, he_trace_options = 0, he_gc_starts = False, he_soap = False,
      he_old_error_cb = 0,
      he_profiler = \<lparr>profiler_output_dir = ''/tmp'', profiler_output_name = ''cachegrind.out'', profiler_append = False,
        pc_php_version = ''7.1.0'', pc_open = (\<lambda>_ _. None)\<rparr>,
      he_names = (\<lambda>_. OutputName.sample_env), he_ops = \<lparr>d_add = (+), d_sub = (-), d_usec = (\<lambda>_. ''0'')\<rparr>, he_junk = nul,
      he_fuel = 0, he_pid = 1\<rparr>"

definition start_state :: "unit hook_state" where
  "start_state =
     \<lparr>hs_g = new_globals, hs_engine = \<lparr>op_arrays = [], function_table = [], class_table = []\<rparr>,
      hs_dbg = new_session\<lparr>remote_enabled := False\<rparr>, hs_world = (),
      hs_proc = \<lparr>shm_pid = 1, shm_obj = 0, shm_name = name_of 1\<rparr>,
      hs_shm = \<lparr>objects = (\<lambda>_. zero_region), names = [name_of 1 \<mapsto> 0], next_object = 1\<rparr>, hs_no_exec = False,
      hs_in_execution = True, hs_program_named = False, hs_ide_key = None, hs_headers = [], hs_tracer = \<lparr>do_trace = False, tr_handler = Textual, tr_context = None, tr_closed = []\<rparr>,
      hs_gc_stats = False, hs_error_cb = 0, hs_too_deep = 0\<rparr>"

definition sample_moment :: trace_env where
  "sample_moment = \<lparr>te_time = ''2018-01-01 00:00:00'', te_utime = 5, te_memory = 2000, te_heap = sample_heap\<rparr>"

definition sample_info :: "calls \<Rightarrow> call_info" where
  "sample_info cs =
     \<lparr>ci_env = sample_call\<lparr>ce_calls := cs\<rparr>, ci_func = sample_function, ci_code = 0, ci_caller = None,
      ci_symbol_table = None, ci_this = None, ci_start = (0, 0), ci_end = (0, 0), ci_trace_start = sample_moment, ci_trace_end = sample_moment, ci_return_value = None, ci_generator = None\<rparr>"

abbreviation outer_info :: call_info where "outer_info \<equiv> sample_info sample_calls"
abbreviation inner_info :: call_info where "inner_info \<equiv> sample_info (hd sample_calls # sample_calls)"

lemma sample_user_call:
  "user_call (tl sample_calls) = Some (caller_script, Some \<lparr>co_lineno = 7, co_opcode = Other_opcode\<rparr>)"
  "user_call sample_calls = Some (caller_script, Some \<lparr>co_lineno = 7, co_opcode = Other_opcode\<rparr>)"
  by (simp_all add: sample_calls_def caller_script_def sample_function_def zend_defs)

lemma sample_parts:
  "ce_calls (ci_env (sample_info cs)) = cs" "ci_func (sample_info cs) = sample_function"
  "ed_func (hd sample_calls) = Some sample_function" "\<not> ZEND_USER_CODE (zf_type sample_function)"
  "he_config sample_hooks = sample_config" "cc_collect_params sample_config" "hd sample_calls # tl sample_calls = sample_calls"
  by (simp_all add: sample_info_def sample_calls_def sample_function_def zend_defs sample_config_def sample_hooks_def)

lemma sample_text:
  "call_text (call_func (hd sample_calls) sample_function ''system'') (cstr (zf_filename caller_script)) (to_int32 (int 7)) =
     '' > system ->/srv/a.php:7'' @ [CHR 0x0A]"
proof -
  have "dec_int 7 = ''7''" by code_simp
  then show ?thesis
    by (simp add: call_text_def call_func_def sample_calls_def caller_script_def sample_function_def cstr_def nul_def
        to_int32_id show_str_def)
qed

lemma start_state_ok:
  "request_start start_state" "memory_ready start_state" "xg_stack (hs_g start_state) = Some []"
  "plain_request sample_config (hs_g start_state)" "\<not> remote_enabled (hs_dbg start_state)"
  "\<not> profiler_enabled (xg_profiler (hs_g start_state))" "\<not> is_tracing (hs_tracer start_state)"
  "trace_plain sample_hooks (hs_tracer start_state)"
  using sample_plain(2)
  by (simp_all add: request_start_def start_state_def new_globals_def sample_cov_def xg_level_def memory_ready_def new_profiler_def is_tracing_def trace_plain_def)

lemma runs_internal:
  assumes "runs_to he n (cs, s)" and "execute_internal_enter he ci s = Some (l, s')"
  shows "runs_to he (Suc n) (Open_internal ci l # cs, s')"
  using runs_to.step [OF assms(1) call_internal [OF assms(2)]] by (simp add: framed_calls_Cons)

lemma nested_run:
  "\<exists>l0 l s s' fr. runs_to sample_hooks 1 ([Open_internal outer_info l0], s) \<and>
     execute_internal_enter sample_hooks inner_info s = Some (l, s') \<and> il_frame l = 1 \<and>
     (\<exists>frs. xg_stack (hs_g s') = Some (frs @ [fr]) \<and> length frs = 1) \<and>
     \<not> remote_enabled (hs_dbg s') \<and> \<not> profiler_enabled (xg_profiler (hs_g s')) \<and> \<not> is_tracing (hs_tracer s')"
proof -
  have short: "length ('' > system ->/srv/a.php:7'' @ [CHR 0x0A]) < SHM_CALLSTACK_SIZE" by (simp add: shm_defs)
  note parts = sample_parts sample_user_call sample_plain start_state_ok
  obtain l0 s0 fr0 where 1: "execute_internal_enter sample_hooks outer_info start_state = Some (l0, s0)" "memory_ready s0"
      "xg_stack (hs_g s0) = Some [fr0]" "plain_request sample_config (hs_g s0)" "\<not> remote_enabled (hs_dbg s0)"
      "\<not> profiler_enabled (xg_profiler (hs_g s0))" "\<not> is_tracing (hs_tracer s0)"
    using internal_enter_plain [of outer_info "hd sample_calls" "tl sample_calls" sample_function "''system''" caller_script
        "\<lparr>co_lineno = 7, co_opcode = Other_opcode\<rparr>" start_state "[]" sample_hooks] parts sample_text short by auto
  obtain l s fr where 2: "execute_internal_enter sample_hooks inner_info s0 = Some (l, s)" "il_frame l = 1"
      "xg_stack (hs_g s) = Some ([fr0] @ [fr])" "\<not> remote_enabled (hs_dbg s)" "\<not> profiler_enabled (xg_profiler (hs_g s))"
      "\<not> is_tracing (hs_tracer s)"
    using internal_enter_plain [of inner_info "hd sample_calls" sample_calls sample_function "''system''" caller_script
        "\<lparr>co_lineno = 7, co_opcode = Other_opcode\<rparr>" s0 "[fr0]" sample_hooks] parts sample_text short 1 by auto
  have "runs_to sample_hooks 1 ([Open_internal outer_info l0], s0)"
    using runs_internal [OF runs_to.start [OF start_state_ok(1)] 1(1)] by simp
  then show ?thesis using 2 by (metis length_Cons list.size(3) One_nat_def)
qed

lemma leave_returns:
  assumes "\<not> remote_enabled (hs_dbg s)" and "\<not> profiler_enabled (xg_profiler (hs_g s))"
    and "xg_stack (hs_g s) = Some frs" and "il_frame l < length frs" and "\<not> is_tracing (hs_tracer s)"
  shows "\<exists>s'. execute_internal_leave he ci l s = Some s'"
proof -
  have "frs \<noteq> []" using assms(4) by auto
  moreover have "frame_at_index (il_frame l) t = Some (frs ! il_frame l)" if "hs_g t = hs_g s" for t :: "'a hook_state"
    using that assms(3,4) by (simp add: frame_at_index_def)
  note u = untraced [OF _ this]
  ultimately show ?thesis
    using assms
    by (auto simp: execute_internal_leave_def trace_internal_return_def finish_profile_def Let_def u
        function_breakpoint_def drop_frame_def split: option.splits)
qed

text \<open>What the tracer finds under the name of this process.\<close>

definition traced_text :: "'w hook_env \<Rightarrow> 'w hook_state \<Rightarrow> string option" where
  "traced_text he s =
     map_option (\<lambda>i. cstr (objects (hs_shm s) i)) (names (hs_shm s) (name_of (he_pid he)))"

text \<open>C17: when the execution hook hands a function of PHP over to the engine (named, no closure, not variadic,
  no \<open>call_user_func\<close>, its arguments declared), the tracer of system calls finds under the name of the process
  the class and name of the function and the file and line of the script that it was called from: in a request
  without code coverage, function monitor, debugger and profiler, with parameters collected, a trace (if one is
  written) that shows no arguments, a memory of the process's own with no fork counted, and a text shorter than
  the memory.\<close>

theorem internal_call_published:
  assumes "ce_calls (ci_env ci) = e # prev" and "ed_func e = Some f" and "ci_func ci = f" and "plain_function f n"
    and "\<not> ZEND_USER_CODE (zf_type f)" and "user_call prev = Some (cf, Some ol)" and "xg_stack (hs_g s) = Some frs"
    and "plain_request (he_config he) (hs_g s)" and "cc_collect_params (he_config he)"
    and "\<not> remote_enabled (hs_dbg s)" and "\<not> profiler_enabled (xg_profiler (hs_g s))" and "memory_ready s"
    and "trace_plain he (hs_tracer s)"
    and "length (call_text (call_func e f n) (cstr (zf_filename cf)) (to_int32 (int (co_lineno ol)))) < SHM_CALLSTACK_SIZE"
    and "names (hs_shm s) (name_of (he_pid he)) = Some (shm_obj (hs_proc s))"
  shows "\<exists>l s'. execute_internal_enter he ci s = Some (l, s') \<and>
    traced_text he s' = Some (call_text (call_func e f n) (cstr (zf_filename cf)) (to_int32 (int (co_lineno ol))))"
proof -
  obtain l s' where "execute_internal_enter he ci s = Some (l, s')"
      "shown_call s' = call_text (call_func e f n) (cstr (zf_filename cf)) (to_int32 (int (co_lineno ol)))"
      "hs_proc s' = hs_proc s" "names (hs_shm s') = names (hs_shm s)"
    using internal_enter_plain [OF assms(1-14)] by blast
  then show ?thesis using assms(15) by (auto simp: traced_text_def shown_call_def)
qed

theorem internal_call_published_witness:
  "\<exists>l s'. execute_internal_enter sample_hooks outer_info start_state = Some (l, s') \<and>
     traced_text sample_hooks s' = Some ('' > system ->/srv/a.php:7'' @ [CHR 0x0A])"
proof -
  have "length ('' > system ->/srv/a.php:7'' @ [CHR 0x0A]) < SHM_CALLSTACK_SIZE" by (simp add: shm_defs)
  moreover have "names (hs_shm start_state) (name_of (he_pid sample_hooks)) = Some (shm_obj (hs_proc start_state))"
    by (simp add: start_state_def sample_hooks_def)
  ultimately show ?thesis
    using internal_call_published [of outer_info "hd sample_calls" "tl sample_calls" sample_function "''system''" caller_script
        "\<lparr>co_lineno = 7, co_opcode = Other_opcode\<rparr>" start_state "[]" sample_hooks]
      sample_parts sample_user_call sample_plain start_state_ok sample_text by auto
qed

text \<open>C18: when a function of PHP that another one has called returns, the text is cleared although the outer one still
  runs: the system calls it makes from then on are attributed to no function.\<close>

theorem inner_return_clears:
  assumes "runs_to he n (Open_internal ci il # cs, s)" and "n \<le> 2 ^ 31" and "Open_internal ci0 il0 \<in> set cs"
    and "execute_internal_leave he ci il s = Some s'"
  shows "runs_to he n (cs, s') \<and> shown_call s' = [] \<and>
    (\<exists>frs. xg_stack (hs_g s') = Some frs \<and> il_frame il0 < length frs)"
proof -
  have run: "runs_to he n (cs, s')"
    using runs_to.step [OF assms(1) return_internal [OF assms(4)]] by (simp add: framed_calls_Cons)
  have keys: "keys s \<noteq> None" using runs_calls_ok [OF assms(1,2)] by (auto simp: calls_ok_def)
  have "shown_call s' = []"
    using execute_internal_leave_left(2) [OF assms(4) keys]
    by (auto simp: shown_call_def clear_shared_def zero_region_def cstr_def SHM_SIZE_def nul_def takeWhile_eq_Nil_iff)
  moreover obtain ks where ks: "keys s' = Some ks" "map fst (framed_calls cs) = [0..<length ks]"
    using runs_calls_ok [OF run assms(2)] by (auto simp: calls_ok_def)
  moreover have "(il_frame il0, il_function_nr il0) \<in> set (framed_calls cs)"
    using assms(3) by (force simp: framed_calls_def map_filter_def)
  then have "il_frame il0 \<in> set (map fst (framed_calls cs))" by force
  then have "il_frame il0 < length ks" using ks(2) by simp
  ultimately show ?thesis using run by (auto simp: keys_def)
qed

theorem inner_return_clears_witness:
  "\<exists>l0 l s s' frs. runs_to sample_hooks 2 ([Open_internal inner_info l, Open_internal outer_info l0], s) \<and>
     execute_internal_leave sample_hooks inner_info l s = Some s' \<and> shown_call s' = [] \<and>
     xg_stack (hs_g s') = Some frs \<and> il_frame l0 < length frs"
proof -
  obtain l0 l s s' fr frs where run: "runs_to sample_hooks 1 ([Open_internal outer_info l0], s)"
      "execute_internal_enter sample_hooks inner_info s = Some (l, s')" "il_frame l = 1"
      "xg_stack (hs_g s') = Some (frs @ [fr])" "length frs = 1"
      "\<not> remote_enabled (hs_dbg s')" "\<not> profiler_enabled (xg_profiler (hs_g s'))" "\<not> is_tracing (hs_tracer s')"
    using nested_run by blast
  have run2: "runs_to sample_hooks 2 ([Open_internal inner_info l, Open_internal outer_info l0], s')"
    using runs_internal [OF run(1,2)] by (simp add: numeral_2_eq_2)
  obtain t where t: "execute_internal_leave sample_hooks inner_info l s' = Some t"
    using leave_returns [OF run(6,7,4) _ run(8)] run(3,5) by force
  show ?thesis using inner_return_clears [OF run2 _ _ t, of outer_info l0] run2 t by fastforce
qed

theorem frames_match_calls_witness:
  "\<exists>l0 l s frs. runs_to sample_hooks 2 ([Open_internal inner_info l, Open_internal outer_info l0], s) \<and>
     xg_stack (hs_g s) = Some frs \<and> [il_frame l0, il_frame l] = [0..<length frs] \<and>
     map (\<lambda>fr. function_nr (cf_fse fr)) frs = [il_function_nr l0, il_function_nr l]"
proof -
  obtain l0 l s s' where run: "runs_to sample_hooks 1 ([Open_internal outer_info l0], s)"
      "execute_internal_enter sample_hooks inner_info s = Some (l, s')"
    using nested_run by blast
  have run2: "runs_to sample_hooks 2 ([Open_internal inner_info l, Open_internal outer_info l0], s')"
    using runs_internal [OF run] by (simp add: numeral_2_eq_2)
  then obtain frs where "xg_stack (hs_g s') = Some frs" "[il_frame l0, il_frame l] = [0..<length frs]"
      "map (\<lambda>fr. function_nr (cf_fse fr)) frs = [il_function_nr l0, il_function_nr l]"
    using frames_match_calls [OF run2] by (simp add: framed_calls_def map_filter_def) metis
  then show ?thesis using run2 by (intro exI conjI)
qed

end
