(* ===== verification/TraceFacts.thy ===== *)
theory TraceFacts
  imports CallFacts
begin

text \<open>
  What the file of a computerized trace says of a run. A reader splits every record at the tabs; it puts the number of
  every entry on a stack and removes it at its exit. It finds there, at every moment, the calls that began since the
  trace did, that the trace shows, and that still run.
\<close>

section \<open>Reading a trace\<close>

fun split_tab :: "string \<Rightarrow> string list" where
  "split_tab [] = [[]]"
| "split_tab (c # cs) =
     (if c = tab then [] # split_tab cs else (case split_tab cs of [] \<Rightarrow> [[c]] | f # fs \<Rightarrow> (c # f) # fs))"

text \<open>The second field is the number of the call, the third says what is reported: \<open>0\<close> an entry, \<open>1\<close> an exit. An exit on an
  empty stack is that of a call that began before the trace; any other has to be that of the call on top.\<close>

fun replay :: "string list \<Rightarrow> string list \<Rightarrow> string list option" where
  "replay [] st = Some st"
| "replay (t # ts) st =
     (case split_tab t of
        lev # nr # kind # fs \<Rightarrow>
          if kind = ''0'' then replay ts (nr # st)
          else if kind = ''1''
          then (case st of [] \<Rightarrow> replay ts [] | n # st' \<Rightarrow> if n = nr then replay ts st' else None)
          else replay ts st
      | _ \<Rightarrow> replay ts st)"

lemma replay_append: "replay (as @ bs) st = Option.bind (replay as st) (replay bs)"
  by (induction as arbitrary: st) (simp_all split: list.split)

lemma split_tab_field: "tab \<notin> set a \<Longrightarrow> split_tab (a @ tab # b) = a # split_tab b"
  by (induction a) auto

lemma dec_int_plain: "tab \<notin> set (dec_int i)" "nul \<notin> set (dec_int i)"
proof -
  have "tab \<notin> set (dec n) \<and> nul \<notin> set (dec n)" for n
    using dec_isdigit [of _ n] by (fastforce simp: isdigit_def tab_def nul_def uchar_def)
  moreover have "tab \<noteq> CHR ''-''" "nul \<noteq> CHR ''-''" by (simp_all add: tab_def nul_def)
  ultimately show "tab \<notin> set (dec_int i)" "nul \<notin> set (dec_int i)" by (auto simp: dec_int_def)
qed

lemma cstr_head: "nul \<notin> set a \<Longrightarrow> cstr (a @ b) = a @ cstr b"
  unfolding cstr_def by (rule takeWhile_append2) (auto simp: nul_def)

lemma record_fields:
  assumes "k \<noteq> tab" and "k \<noteq> nul"
  shows "split_tab (dec_int l @ tab # dec_int nr @ tab # k # tab # t) = dec_int l # dec_int nr # [k] # split_tab t"
    and "split_tab (cstr (dec_int l @ tab # dec_int nr @ tab # k # tab # t)) = dec_int l # dec_int nr # [k] # split_tab (cstr t)"
proof -
  show raw: "split_tab (dec_int l @ tab # dec_int nr @ tab # k # tab # t) = dec_int l # dec_int nr # [k] # split_tab t" for t
    using split_tab_field [of "[k]" t] assms(1) by (simp add: split_tab_field dec_int_plain)
  have "cstr (tab # u) = tab # cstr u" "cstr (k # u) = k # cstr u" for u
    using assms(2) by (simp_all add: cstr_def tab_def nul_def)
  then have "cstr (dec_int l @ tab # dec_int nr @ tab # k # tab # t) = dec_int l @ tab # dec_int nr @ tab # k # tab # cstr t"
    by (simp add: cstr_head dec_int_plain)
  then show "split_tab (cstr (dec_int l @ tab # dec_int nr @ tab # k # tab # t)) = dec_int l # dec_int nr # [k] # split_tab (cstr t)"
    by (simp only: raw)
qed

lemma kinds: "CHR ''0'' \<noteq> tab" "CHR ''0'' \<noteq> nul" "CHR ''1'' \<noteq> tab" "CHR ''1'' \<noteq> nul" "CHR ''R'' \<noteq> tab" "CHR ''R'' \<noteq> nul"
  by (simp_all add: tab_def nul_def)

lemmas record_kinds = record_fields [OF kinds(1,2)] record_fields [OF kinds(3,4)] record_fields [OF kinds(5,6)]

lemma replay_entry: "computerized_entry cfg te fr nr = Some t \<Longrightarrow> replay [t] st = Some (dec_int nr # st)"
  by (auto simp: computerized_entry_def Let_def bind_eq_Some_conv record_kinds)

lemma replay_exit:
  "replay [computerized_exit cfg te fr nr] st =
     (case st of [] \<Rightarrow> Some [] | n # st' \<Rightarrow> if n = dec_int nr then Some st' else None)"
  by (simp add: computerized_exit_def record_kinds split: list.split)

lemma replay_return: "computerized_return cfg te fr nr z = Some t \<Longrightarrow> replay [t] st = Some st"
  by (auto simp: computerized_return_def record_kinds)

text \<open>The calls that a trace shows: their frame is not filtered, and a function of PHP is not the one without a name that
  the engine calls for itself.\<close>

fun call_shown :: "open_call \<Rightarrow> call_frame \<Rightarrow> bool" where
  "call_shown (Open_internal ci l) fr \<longleftrightarrow> filtered_tracing (cf_fse fr) = 0 \<and> not_pass fr"
| "call_shown c fr \<longleftrightarrow> filtered_tracing (cf_fse fr) = 0"

text \<open>Their numbers, innermost first; the calls with a frame and the frames belong together from the innermost on.\<close>

definition shown_numbers :: "open_call list \<Rightarrow> call_frame list \<Rightarrow> int list" where
  "shown_numbers cs frs =
     map (\<lambda>(c, fr). function_nr (cf_fse fr))
       (filter (\<lambda>(c, fr). call_shown c fr) (zip (filter (\<lambda>c. call_frame_of c \<noteq> None) cs) (rev frs)))"

definition key_shown :: "open_call \<Rightarrow> fkey \<Rightarrow> bool" where
  "key_shown c k \<longleftrightarrow>
     (case k of (func, lev, file, ln, nr, filtered) \<Rightarrow>
        filtered = 0 \<and> (case c of Open_internal _ _ \<Rightarrow> func_type func \<noteq> XFUNC_ZEND_PASS | _ \<Rightarrow> True))"

definition key_numbers :: "open_call list \<Rightarrow> fkey list \<Rightarrow> int list" where
  "key_numbers cs ks =
     map (\<lambda>(c, k). key_nr k) (filter (\<lambda>(c, k). key_shown c k) (zip (filter (\<lambda>c. call_frame_of c \<noteq> None) cs) (rev ks)))"

lemma key_shown_frame: "key_shown c (frame_key fr) = call_shown c fr"
  by (cases c) (simp_all add: key_shown_def frame_key_def not_pass_def)

lemma shown_numbers_keys: "shown_numbers cs frs = key_numbers cs (map frame_key frs)"
proof -
  have "map (\<lambda>(c, k). key_nr k) (filter (\<lambda>(c, k). key_shown c k) (zip cs (map frame_key frs))) =
      map (\<lambda>(c, fr). function_nr (cf_fse fr)) (filter (\<lambda>(c, fr). call_shown c fr) (zip cs frs))" for cs frs
    by (induction cs frs rule: list_induct2') (simp_all add: key_shown_frame, simp add: key_nr_def frame_key_def)
  from this [of "filter (\<lambda>c. call_frame_of c \<noteq> None) cs" "rev frs"]
  show ?thesis by (simp add: shown_numbers_def key_numbers_def rev_map)
qed

lemma key_numbers_enter:
  "call_frame_of c \<noteq> None \<Longrightarrow>
   key_numbers (c # cs) (ks @ [k]) = (if key_shown c k then [key_nr k] else []) @ key_numbers cs ks"
  by (simp add: key_numbers_def)

lemma key_numbers_unframed: "call_frame_of c = None \<Longrightarrow> key_numbers (c # cs) ks = key_numbers cs ks"
  by (simp add: key_numbers_def)

lemma key_numbers_subset: "set (key_numbers cs ks) \<subseteq> set (map key_nr ks)"
  by (auto simp: key_numbers_def dest: set_zip_rightD)

section \<open>The invariant\<close>

text \<open>The records of the file that is being written.\<close>

definition trace_lines :: "tracer \<Rightarrow> string list" where
  "trace_lines tr = (case tr_context tr of None \<Rightarrow> [] | Some tx \<Rightarrow> map snd (tx_lines tx))"

text \<open>Behind the header a reader finds open, of the calls \<open>nrs\<close>, those from the number \<open>n0\<close> on.\<close>

definition reads_open :: "nat \<Rightarrow> int list \<Rightarrow> tracer \<Rightarrow> bool" where
  "reads_open n0 nrs tr \<longleftrightarrow>
     trace_lines tr \<noteq> [] \<and> replay (tl (trace_lines tr)) [] = Some (map dec_int (filter (\<lambda>nr. int n0 \<le> nr) nrs))"

definition matches :: "nat \<Rightarrow> int list \<Rightarrow> tracer \<Rightarrow> bool" where
  "matches n0 nrs tr \<longleftrightarrow> (is_tracing tr \<and> tr_handler tr = Computerized \<longrightarrow> reads_open n0 nrs tr)"

definition trace_ok :: "nat \<Rightarrow> open_call list \<Rightarrow> 'w hook_state \<Rightarrow> bool" where
  "trace_ok n0 cs s \<longleftrightarrow> (\<forall>ks. keys s = Some ks \<longrightarrow> matches n0 (key_numbers cs ks) (hs_tracer s))"

lemma matches_fresh:
  assumes "fresh_trace tr" and "filter (\<lambda>nr. int n0 \<le> nr) nrs = []"
  shows "matches n0 nrs tr"
proof (cases "tr_context tr")
  case (Some tx)
  then have "length (tx_lines tx) = 1" using assms(1) by (simp add: fresh_trace_def)
  then obtain x where "tx_lines tx = [x]" by (cases "tx_lines tx") auto
  then show ?thesis using Some assms(2) by (simp add: matches_def reads_open_def trace_lines_def)
qed (simp add: matches_def is_tracing_def)

lemma matches_stopped: "\<not> is_tracing tr \<Longrightarrow> matches n0 nrs tr"
  by (simp add: matches_def)

lemma trace_ok_same: "trace_ok n0 cs s \<Longrightarrow> same_calls s s' \<Longrightarrow> trace_ok n0 cs s'"
  by (simp add: trace_ok_def same_calls_def same_frames_def)

text \<open>What the handlers are asked to write: nothing, or one record.\<close>

lemma trace_call_effect:
  assumes "traced i f s = Some s'" and "\<And>fr tr. f fr tr = trace_call (cond fr tr) fr r (line fr tr) tr"
  shows "same_frames s s' \<and> is_tracing (hs_tracer s') = is_tracing (hs_tracer s) \<and>
    tr_handler (hs_tracer s') = tr_handler (hs_tracer s) \<and>
    (\<exists>fr. frame_at_index i s = Some fr \<and>
      (if filtered_tracing (cf_fse fr) = 0 \<and> is_tracing (hs_tracer s) \<and> cond fr (hs_tracer s)
       then \<exists>t. line fr (hs_tracer s) = Some t \<and> trace_lines (hs_tracer s') = trace_lines (hs_tracer s) @ [t]
       else trace_lines (hs_tracer s') = trace_lines (hs_tracer s)))"
proof -
  have w: "trace_lines (trace_write r t tr) = trace_lines tr @ [t]" if "is_tracing tr" for t tr
    using that by (auto simp: trace_lines_def trace_write_def is_tracing_def)
  obtain fr tr where "frame_at_index i s = Some fr" "f fr (hs_tracer s) = Some tr" "s' = s\<lparr>hs_tracer := tr\<rparr>"
    using assms(1) by (auto simp: traced_def bind_eq_Some_conv)
  then show ?thesis
    using assms(2) w by (auto simp: trace_call_def trace_write_fields split: if_splits)
qed

lemma reads_open_write:
  assumes "reads_open n0 nrs tr" and "trace_lines tr' = trace_lines tr @ [t]"
    and "replay [t] (map dec_int (filter (\<lambda>nr. int n0 \<le> nr) nrs)) = Some (map dec_int (filter (\<lambda>nr. int n0 \<le> nr) nrs'))"
  shows "reads_open n0 nrs' tr'"
  using assms by (simp add: reads_open_def replay_append)

lemma silent_matches:
  assumes "traced i f s = Some s'" and "\<And>fr tr. f fr tr = trace_call (cond fr tr) fr r (line fr tr) tr"
    and "\<And>fr tr t st. tr_handler tr = Computerized \<Longrightarrow> cond fr tr \<Longrightarrow> line fr tr = Some t \<Longrightarrow> replay [t] st = Some st"
    and "matches n0 nrs (hs_tracer s)"
  shows "same_frames s s' \<and> matches n0 nrs (hs_tracer s')"
proof -
  note e = trace_call_effect [OF assms(1,2)]
  have "matches n0 nrs (hs_tracer s')"
    unfolding matches_def
  proof (intro impI)
    assume "is_tracing (hs_tracer s') \<and> tr_handler (hs_tracer s') = Computerized"
    then have on: "is_tracing (hs_tracer s)" "tr_handler (hs_tracer s) = Computerized" using e by simp_all
    then have r: "reads_open n0 nrs (hs_tracer s)" using assms(4) by (simp add: matches_def)
    then show "reads_open n0 nrs (hs_tracer s')"
      using e assms(3) [OF on(2)] reads_open_write [OF r] by (auto simp: reads_open_def split: if_splits)
  qed
  with e show ?thesis by blast
qed

lemma trace_value_matches:
  assumes "trace_value he te c nr z i s = Some s'" and "matches n0 nrs (hs_tracer s)"
  shows "same_frames s s' \<and> matches n0 nrs (hs_tracer s')"
  by (rule silent_matches [OF assms(1) [unfolded trace_value_def] refl _ assms(2)]) (simp add: return_value_def replay_return del: replay.simps)

lemma generator_return_matches:
  assumes "traced i (\<lambda>fr tr. trace_call (has_generator_return_value (tr_handler tr)) fr r (g fr) tr) s = Some s'"
    and "matches n0 nrs (hs_tracer s)"
  shows "same_frames s s' \<and> matches n0 nrs (hs_tracer s')"
  by (rule silent_matches [OF assms(1) refl _ assms(2)]) (simp add: has_generator_return_value_def)

lemma trace_user_return_matches:
  assumes "trace_user_return he ci l s = Some s'" and "matches n0 nrs (hs_tracer s)"
  shows "matches n0 nrs (hs_tracer s')"
  using assms
  by (auto simp: trace_user_return_def split: option.splits if_splits dest: trace_value_matches generator_return_matches)

lemma trace_internal_return_matches:
  assumes "trace_internal_return he ci l s = Some s'" and "matches n0 nrs (hs_tracer s)"
  shows "matches n0 nrs (hs_tracer s')"
  using assms by (auto simp: trace_internal_return_def split: option.splits if_splits dest: trace_value_matches)

text \<open>The condition that a hook asks about is that its call is shown.\<close>

definition hook_cond :: "open_call \<Rightarrow> call_frame \<Rightarrow> bool" where
  "hook_cond c fr = (case c of Open_internal _ _ \<Rightarrow> not_pass fr | _ \<Rightarrow> True)"

lemma call_shown_cond: "call_shown c fr \<longleftrightarrow> filtered_tracing (cf_fse fr) = 0 \<and> hook_cond c fr"
  by (cases c) (simp_all add: hook_cond_def)

lemma last_frame: "keys s = Some (ks @ [k]) \<Longrightarrow> frame_at_index (length ks) s = Some fr \<Longrightarrow> frame_key fr = k"
  by (auto simp: keys_def frame_at_index_def split: option.splits if_splits)
    (metis length_append_singleton length_map lessI nth_append_length nth_map)

lemma entry_matches:
  assumes "trace_entry he te (hook_cond c) (key_nr k) (length ks) s = Some s'" and "keys s = Some (ks @ [k])"
    and "matches n0 (key_numbers cs ks) (hs_tracer s)" and "call_frame_of c \<noteq> None" and "int n0 \<le> key_nr k"
  shows "matches n0 (key_numbers (c # cs) (ks @ [k])) (hs_tracer s')"
proof -
  note e = trace_call_effect [OF assms(1) [unfolded trace_entry_def] refl]
  then obtain fr where fr: "frame_at_index (length ks) s = Some fr"
      "if filtered_tracing (cf_fse fr) = 0 \<and> is_tracing (hs_tracer s) \<and> hook_cond c fr
       then \<exists>t. function_entry (he_trace he) te (tr_handler (hs_tracer s)) fr (key_nr k) = Some t \<and>
         trace_lines (hs_tracer s') = trace_lines (hs_tracer s) @ [t]
       else trace_lines (hs_tracer s') = trace_lines (hs_tracer s)"
    by blast
  have shown: "key_shown c k \<longleftrightarrow> filtered_tracing (cf_fse fr) = 0 \<and> hook_cond c fr"
    using key_shown_frame [of c fr] last_frame [OF assms(2) fr(1)] by (simp add: call_shown_cond)
  show ?thesis
    unfolding matches_def
  proof (intro impI)
    assume "is_tracing (hs_tracer s') \<and> tr_handler (hs_tracer s') = Computerized"
    then have on: "is_tracing (hs_tracer s)" "tr_handler (hs_tracer s) = Computerized" using e by simp_all
    then have r: "reads_open n0 (key_numbers cs ks) (hs_tracer s)" using assms(3) by (simp add: matches_def)
    show "reads_open n0 (key_numbers (c # cs) (ks @ [k])) (hs_tracer s')"
    proof (cases "key_shown c k")
      case True
      then obtain t where t: "computerized_entry (he_trace he) te fr (key_nr k) = Some t"
          "trace_lines (hs_tracer s') = trace_lines (hs_tracer s) @ [t]"
        using fr(2) shown on by (auto simp: function_entry_def)
      show ?thesis
        by (rule reads_open_write [OF r t(2)])
          (use True assms(4,5) replay_entry [OF t(1)] in \<open>simp add: key_numbers_enter del: replay.simps\<close>)
    next
      case False
      then have "trace_lines (hs_tracer s') = trace_lines (hs_tracer s)" using fr(2) shown by (simp split: if_splits)
      then show ?thesis using r False assms(4) by (simp add: reads_open_def key_numbers_enter)
    qed
  qed
qed

lemma exit_matches:
  assumes "trace_exit he te (hook_cond c) (key_nr k) (length ks) s = Some s'" and "keys s = Some (ks @ [k])"
    and "matches n0 (key_numbers (c # cs) (ks @ [k])) (hs_tracer s)" and "call_frame_of c \<noteq> None"
    and "sorted_wrt (<) (map key_nr (ks @ [k]))"
  shows "matches n0 (key_numbers cs ks) (hs_tracer s')"
proof -
  note e = trace_call_effect [OF assms(1) [unfolded trace_exit_def] refl]
  then obtain fr where fr: "frame_at_index (length ks) s = Some fr"
      "if filtered_tracing (cf_fse fr) = 0 \<and> is_tracing (hs_tracer s) \<and> hook_cond c fr \<and> has_exit (tr_handler (hs_tracer s))
       then trace_lines (hs_tracer s') = trace_lines (hs_tracer s) @ [computerized_exit (he_trace he) te fr (key_nr k)]
       else trace_lines (hs_tracer s') = trace_lines (hs_tracer s)"
    by (simp only: option.inject ex_simps simp_thms) blast
  have shown: "key_shown c k \<longleftrightarrow> filtered_tracing (cf_fse fr) = 0 \<and> hook_cond c fr"
    using key_shown_frame [of c fr] last_frame [OF assms(2) fr(1)] by (simp add: call_shown_cond)
  have below: "filter (\<lambda>nr. int n0 \<le> nr) (key_numbers cs ks) = []" if "key_nr k < int n0"
    using that key_numbers_subset [of cs ks] assms(5) by (fastforce simp: filter_empty_conv sorted_wrt_append)
  show ?thesis
    unfolding matches_def
  proof (intro impI)
    assume "is_tracing (hs_tracer s') \<and> tr_handler (hs_tracer s') = Computerized"
    then have on: "is_tracing (hs_tracer s)" "tr_handler (hs_tracer s) = Computerized" using e by simp_all
    then have r: "reads_open n0 (key_numbers (c # cs) (ks @ [k])) (hs_tracer s)" using assms(3) by (simp add: matches_def)
    show "reads_open n0 (key_numbers cs ks) (hs_tracer s')"
    proof (cases "key_shown c k")
      case True
      then have t: "trace_lines (hs_tracer s') = trace_lines (hs_tracer s) @ [computerized_exit (he_trace he) te fr (key_nr k)]"
        using fr(2) shown on by (simp add: has_exit_def)
      show ?thesis
        by (rule reads_open_write [OF r t], cases "int n0 \<le> key_nr k")
          (use True assms(4) below in \<open>simp_all add: key_numbers_enter replay_exit del: replay.simps\<close>)
    next
      case False
      then have "trace_lines (hs_tracer s') = trace_lines (hs_tracer s)" using fr(2) shown by (simp split: if_splits)
      then show ?thesis using r False assms(4) by (simp add: reads_open_def key_numbers_enter)
    qed
  qed
qed

section \<open>Every run\<close>

lemma call_enters:
  assumes ok: "trace_ok n0 cs s" and keys: "keys s \<noteq> None" and new: "new_frame he ci ty (raise_level he s) = Some (i, s2)"
    and s3: "same_calls s2 s3" and nr: "nr = to_int32 (function_count (xg_cov (hs_g s2)))"
    and entry: "trace_entry he te (hook_cond c) nr i s3 = Some s4" and s5: "same_calls s4 s5" and c: "call_frame_of c \<noteq> None"
    and n0: "int n0 \<le> to_int32 (next_count (hs_g s))"
  shows "trace_ok n0 (c # cs) s5"
proof -
  obtain ks k where k: "keys s = Some ks" "keys s2 = Some (ks @ [k])" "i = length ks" "key_nr k = nr" "int n0 \<le> nr"
    using new_frame_entered(1) [OF new keys] nr n0 by (auto simp: entered_def)
  have "hs_tracer s2 = hs_tracer s" using new by (auto simp: new_frame_def bind_eq_Some_conv raise_level_fields)
  then have 3: "keys s3 = Some (ks @ [k])" "hs_tracer s3 = hs_tracer s"
    using s3 k(2) by (simp_all add: same_calls_def same_frames_def)
  have "matches n0 (key_numbers (c # cs) (ks @ [k])) (hs_tracer s4)"
    using entry_matches [of he te c k ks s3 s4 n0 cs] entry ok 3 k c by (simp add: trace_ok_def)
  moreover have "keys s4 = Some (ks @ [k])" using trace_same(1) [OF entry] 3 by (simp add: same_frames_def)
  ultimately show ?thesis using s5 by (simp add: trace_ok_def same_calls_def same_frames_def)
qed

lemma call_leaves:
  assumes ok: "trace_ok n0 (c # cs) s" and calls: "calls_ok n (c # cs, s)" and c: "call_frame_of c = Some (i, nr)"
    and s1: "same_calls s s1" and exit: "trace_exit he te (hook_cond c) nr i s1 = Some s2"
    and s3: "\<And>nrs. matches n0 nrs (hs_tracer s2) \<Longrightarrow> matches n0 nrs (hs_tracer s')" and left: "left s s'"
  shows "trace_ok n0 cs s'"
proof -
  obtain ks k where k: "keys s = Some (ks @ [k])" "keys s' = Some ks" using left by (auto simp: left_def)
  then have "map fst (framed_calls cs @ [(i, nr)]) = [0..<Suc (length ks)]" "map key_nr (ks @ [k]) = map snd (framed_calls cs @ [(i, nr)])"
      and sorted: "sorted_wrt (<) (map key_nr (ks @ [k]))"
    using calls c by (auto simp: calls_ok_def framed_calls_Cons)
  then have "i = length ks" "nr = key_nr k" by simp_all
  then have "matches n0 (key_numbers cs ks) (hs_tracer s2)"
    using exit_matches [of he te c k ks s1 s2 n0 cs] exit ok s1 k(1) c sorted by (simp add: trace_ok_def same_calls_def same_frames_def)
  then show ?thesis using s3 k(2) by (simp add: trace_ok_def)
qed

text \<open>The next call has a number of its own.\<close>

lemma next_number: "calls_ok n (cs, s) \<Longrightarrow> n < 2 ^ 31 \<Longrightarrow> to_int32 (next_count (hs_g s)) = int n"
  using next_count_value [of "hs_g s" n] by (auto simp: calls_ok_def to_int32_id)

lemma hook_cond_user: "hook_cond (Open_user ci l) = (\<lambda>_. True)" and hook_cond_internal: "hook_cond (Open_internal ci il) = not_pass"
  by (simp_all add: hook_cond_def fun_eq_iff)

lemma execute_ex_enter_traced:
  assumes "execute_ex_enter he ci s = Some (Framed l, s')" and "trace_ok n0 cs s" and "calls_ok n (cs, s)"
    and "n0 \<le> n" and "n < 2 ^ 31"
  shows "trace_ok n0 (Open_user ci l # cs) s'"
proof -
  obtain s1 s2 s3 s4 where s1: "same_frames s s1" "hs_tracer s1 = hs_tracer s \<or> xg_level s = 0 \<and> fresh_trace (hs_tracer s1)" and
      s2: "new_frame he ci XDEBUG_EXTERNAL (raise_level he s1) = Some (ul_frame l, s2)" and s3: "same_calls s2 s3" and
      nr: "ul_function_nr l = to_int32 (function_count (xg_cov (hs_g s2)))" and
      s4: "trace_entry he (ci_trace_start ci) (\<lambda>_. True) (ul_function_nr l) (ul_frame l) s3 = Some s4" and s': "same_calls s4 s'"
    using execute_ex_enter_steps [OF assms(1)] by blast
  have calls: "calls_ok n (cs, s1)" by (rule calls_ok_same [OF assms(3) s1(1)])
  have "trace_ok n0 cs s1"
    using s1(2)
  proof
    assume "hs_tracer s1 = hs_tracer s"
    then show ?thesis using assms(2) s1(1) by (simp add: trace_ok_def same_frames_def)
  next
    assume new: "xg_level s = 0 \<and> fresh_trace (hs_tracer s1)"
    have "ks = []" if "keys s1 = Some ks" for ks
      using that new assms(3) s1(1) by (auto simp: calls_ok_def same_frames_def)
    then show ?thesis using matches_fresh [of "hs_tracer s1"] new by (fastforce simp: trace_ok_def key_numbers_def)
  qed
  moreover have "keys s1 \<noteq> None" "int n0 \<le> to_int32 (next_count (hs_g s1))"
    using calls next_number [OF calls assms(5)] assms(4) by (auto simp: calls_ok_def)
  ultimately show ?thesis using call_enters [OF _ _ s2 s3 nr s4 [folded hook_cond_user [of ci l]] s'] by simp
qed

lemma execute_internal_enter_traced:
  assumes "execute_internal_enter he ci s = Some (l, s')" and "trace_ok n0 cs s" and "calls_ok n (cs, s)"
    and "n0 \<le> n" and "n < 2 ^ 31"
  shows "trace_ok n0 (Open_internal ci l # cs) s'"
proof -
  obtain s2 s4 s5 p m where s2: "new_frame he ci XDEBUG_INTERNAL (raise_level he s) = Some (il_frame l, s2)" and
      nr: "il_function_nr l = to_int32 (function_count (xg_cov (hs_g s2)))" and
      s4: "trace_entry he (ci_trace_start ci) not_pass (il_function_nr l) (il_frame l) s2 = Some s4" and s5: "same_calls s4 s5" and
      s': "s' = s5\<lparr>hs_proc := p, hs_shm := m\<rparr>"
    using execute_internal_enter_steps [OF assms(1)] by blast
  have "keys s \<noteq> None" "int n0 \<le> to_int32 (next_count (hs_g s))"
    using assms(3) next_number [OF assms(3,5)] assms(4) by (auto simp: calls_ok_def)
  from call_enters [OF assms(2) this(1) s2 same_calls_refl nr s4 [folded hook_cond_internal [of ci l]] s5 _ this(2)]
  show ?thesis using s' by (simp add: trace_ok_def keys_def)
qed

lemma drop_frame_tracer: "drop_frame s = Some s' \<Longrightarrow> hs_tracer s' = hs_tracer s"
  by (auto simp: drop_frame_def split: option.splits if_splits)

lemma execute_ex_leave_traced:
  assumes "execute_ex_leave he ci l s = Some s'" and "trace_ok n0 (Open_user ci l # cs) s" and "calls_ok n (Open_user ci l # cs, s)"
  shows "trace_ok n0 cs s'"
proof -
  obtain s1 s2 s3 s4 s5 where s1: "same_calls s s1" and
      s2: "trace_exit he (ci_trace_end ci) (\<lambda>_. True) (ul_function_nr l) (ul_frame l) s1 = Some s2" and
      s3: "trace_user_return he ci l s2 = Some s3" and s4: "same_calls s3 s4" and s5: "drop_frame s4 = Some s5" "s' = lower_level s5"
    using execute_ex_leave_steps [OF assms(1)] by blast
  have "hs_tracer s' = hs_tracer s3"
    using s4 drop_frame_tracer [OF s5(1)] s5(2) by (simp add: same_calls_def lower_level_def map_cov_def)
  then have "matches n0 nrs (hs_tracer s2) \<Longrightarrow> matches n0 nrs (hs_tracer s')" for nrs
    using trace_user_return_matches [OF s3] by simp
  moreover have "left s s'" using execute_ex_leave_left [OF assms(1)] assms(3) by (auto simp: calls_ok_def)
  ultimately show ?thesis using call_leaves [OF assms(2,3) _ s1 s2 [folded hook_cond_user [of ci l]]] by simp
qed

lemma execute_internal_leave_traced:
  assumes "execute_internal_leave he ci l s = Some s'" and "trace_ok n0 (Open_internal ci l # cs) s"
    and "calls_ok n (Open_internal ci l # cs, s)"
  shows "trace_ok n0 cs s'"
proof -
  obtain s1 s2 s3 s4 s5 where s1: "same_calls s s1" and
      s2: "trace_exit he (ci_trace_end ci) not_pass (il_function_nr l) (il_frame l) s1 = Some s2" and
      s3: "trace_internal_return he ci l s2 = Some s3" and s4: "same_calls s3 s4" and
      s5: "drop_frame s4 = Some s5" "s' = lower_level (s5\<lparr>hs_shm := clear_shared (hs_proc s5) (hs_shm s5)\<rparr>)"
    using execute_internal_leave_steps [OF assms(1)] by blast
  have "hs_tracer s' = hs_tracer s3"
    using s4 drop_frame_tracer [OF s5(1)] s5(2) by (simp add: same_calls_def lower_level_def map_cov_def)
  then have "matches n0 nrs (hs_tracer s2) \<Longrightarrow> matches n0 nrs (hs_tracer s')" for nrs
    using trace_internal_return_matches [OF s3] by simp
  moreover have "left s s'" using execute_internal_leave_left(1) [OF assms(1)] assms(3) by (auto simp: calls_ok_def)
  ultimately show ?thesis using call_leaves [OF assms(2,3) _ s1 s2 [folded hook_cond_internal [of ci l]]] by simp
qed

text \<open>While a trace is being written \<open>xdebug_start_trace\<close> changes nothing; otherwise what it starts is fresh.\<close>

lemma php_start_fresh:
  assumes "php_start_trace cfg te st fname options tr = Some (used, tr')"
  shows "tr' = tr \<or> \<not> do_trace tr \<and> fresh_trace tr'"
proof -
  have "fresh_trace (t\<lparr>do_trace := b\<rparr>) = fresh_trace t" for t b by (simp add: fresh_trace_def)
  then show ?thesis
    using assms by (auto simp: php_start_trace_def bind_eq_Some_conv dest!: start_trace_file_fresh split: if_splits)
qed

lemma php_stop_stopped:
  "php_stop_trace cfg te tr = Some (used, tr') \<Longrightarrow> tr' = tr \<or> \<not> is_tracing tr'"
  by (auto simp: php_stop_trace_def stop_trace_file_def is_tracing_def split: if_splits option.splits)

text \<open>A step of a script with \<open>n\<close> calls behind it keeps what a reader finds of the trace that began after \<open>n0\<close> calls; when
  there is no trace yet, one may begin.\<close>

lemma script_step_traced:
  assumes "script_step he (cs, s) (cs', s')" and ok: "trace_ok n0 cs s" and calls: "calls_ok n (cs, s)" and n0: "n0 \<le> n"
    and new: "is_tracing (hs_tracer s) \<or> n = n0" and grow: "length (framed_calls cs) < length (framed_calls cs') \<Longrightarrow> n < 2 ^ 31"
  shows "trace_ok n0 cs' s'"
proof -
  have silent: "trace_ok n0 cs s'" if "same_calls s s'" for s' using trace_ok_same [OF ok that] .
  from assms(1) show ?thesis
  proof (cases rule: script_step.cases)
    case (call_user ci l)
    then have "n < 2 ^ 31" using grow by (simp add: framed_calls_Cons)
    then show ?thesis using execute_ex_enter_traced [OF call_user(2) ok calls n0] call_user(1) by simp
  next
    case (call_unframed ci)
    then have "s' = s" by (auto simp: execute_ex_enter_def Let_def bind_eq_Some_conv split: if_splits)
    then show ?thesis using ok call_unframed by (simp add: trace_ok_def key_numbers_unframed)
  next
    case (call_refused ci)
    then have "s' = s" by (auto simp: execute_ex_enter_def Let_def bind_eq_Some_conv split: if_splits)
    then show ?thesis using ok call_refused by simp
  next
    case (call_internal ci il)
    then have "n < 2 ^ 31" using grow by (simp add: framed_calls_Cons)
    then show ?thesis using execute_internal_enter_traced [OF call_internal(2) ok calls n0] call_internal(1) by simp
  next
    case (return_user ci l)
    then show ?thesis using execute_ex_leave_traced [OF _ ok [unfolded return_user(1)] calls [unfolded return_user(1)]] by simp
  next
    case return_unframed
    then show ?thesis using ok by (simp add: trace_ok_def key_numbers_unframed)
  next
    case (return_internal ci il)
    then show ?thesis
      using execute_internal_leave_traced [OF _ ok [unfolded return_internal(1)] calls [unfolded return_internal(1)]] by simp
  next
    case (compile code eg)
    have "same_calls s (s\<lparr>hs_engine := eg\<rparr>)" by (simp add: same_calls_engine)
    then show ?thesis using silent same_calls_trans compile_file_same [OF compile(2)] compile(1) by auto
  next
    case (exit_opcode reading)
    then show ?thesis using silent [OF exit_handler_same] by simp
  next
    case (start_trace te fname options used tr)
    show ?thesis
    proof (cases "tr = hs_tracer s")
      case True
      then show ?thesis using ok start_trace(1,2) by simp
    next
      case False
      then have f: "\<not> do_trace (hs_tracer s)" "fresh_trace tr" using php_start_fresh [OF start_trace(3)] by blast+
      then have "n = n0" using new by (simp add: is_tracing_def)
      moreover have "\<forall>nr\<in>set (key_numbers cs ks). nr < int n" if "keys s = Some ks" for ks
      proof -
        obtain ks' where ks': "keys s = Some ks'" "\<forall>nr\<in>set (map key_nr ks'). 0 \<le> nr \<and> nr < int n"
          using calls unfolding calls_ok_def prod.case by blast
        then have "\<forall>nr\<in>set (map key_nr ks). nr < int n" using that by simp
        then show ?thesis using key_numbers_subset [of cs ks] by blast
      qed
      ultimately have "filter (\<lambda>nr. int n0 \<le> nr) (key_numbers cs ks) = []" if "keys s = Some ks" for ks
        using that by (fastforce simp: filter_empty_conv)
      then show ?thesis using matches_fresh [OF f(2)] start_trace(1,2) by (simp add: trace_ok_def keys_def)
    qed
  next
    case (stop_trace te used tr)
    then show ?thesis
      using php_stop_stopped [OF stop_trace(3)] ok matches_stopped by (auto simp: trace_ok_def keys_def)
  next
    case (statement eval filtered f ln)
    then show ?thesis using silent [OF statement_hook_same] by simp
  qed
qed

text \<open>The states of a script while a trace is written that began when \<open>n0\<close> calls had begun, by \<open>xdebug_start_trace\<close> or by the
  first call of the request, and \<open>n\<close> have now.\<close>

definition count_after :: "nat \<Rightarrow> open_call list \<times> 'w hook_state \<Rightarrow> open_call list \<times> 'w hook_state \<Rightarrow> nat" where
  "count_after n c c' = (if length (framed_calls (fst c')) > length (framed_calls (fst c)) then Suc n else n)"

inductive traced_run :: "'w hook_env \<Rightarrow> nat \<Rightarrow> nat \<Rightarrow> open_call list \<times> 'w hook_state \<Rightarrow> bool" for he n0 where
  begin_trace: "runs_to he n0 c \<Longrightarrow> \<not> is_tracing (hs_tracer (snd c)) \<Longrightarrow> script_step he c c' \<Longrightarrow> is_tracing (hs_tracer (snd c')) \<Longrightarrow>
    traced_run he n0 (count_after n0 c c') c'"
| continue_trace: "traced_run he n0 n c \<Longrightarrow> script_step he c c' \<Longrightarrow> is_tracing (hs_tracer (snd c')) \<Longrightarrow>
    traced_run he n0 (count_after n c c') c'"

lemma step_keeps:
  assumes "runs_to he n c" and "trace_ok n0 (fst c) (snd c)" and "n0 \<le> n" and "is_tracing (hs_tracer (snd c)) \<or> n = n0"
    and "script_step he c c'" and "count_after n c c' \<le> 2 ^ 31"
  shows "runs_to he (count_after n c c') c' \<and> n0 \<le> count_after n c c' \<and> trace_ok n0 (fst c') (snd c')"
proof -
  obtain cs s cs' s' where c: "c = (cs, s)" "c' = (cs', s')" by fastforce
  have n: "n \<le> 2 ^ 31" using assms(6) by (simp add: count_after_def split: if_splits)
  have g: "n < 2 ^ 31" if "length (framed_calls cs) < length (framed_calls cs')"
    using that assms(6) c by (simp add: count_after_def)
  have "runs_to he (count_after n c c') c'" unfolding count_after_def by (rule runs_to.step [OF assms(1,5)])
  moreover have "trace_ok n0 cs' s'"
    using script_step_traced [OF assms(5) [unfolded c] _ runs_calls_ok [OF assms(1) n, unfolded c] assms(3) _ g] assms(2,4) c
    by simp
  ultimately show ?thesis using assms(3) c by (simp add: count_after_def)
qed

lemma traced_run_ok:
  "traced_run he n0 n c \<Longrightarrow> n \<le> 2 ^ 31 \<Longrightarrow>
   runs_to he n c \<and> n0 \<le> n \<and> is_tracing (hs_tracer (snd c)) \<and> trace_ok n0 (fst c) (snd c)"
proof (induction rule: traced_run.induct)
  case (begin_trace c c')
  have "trace_ok n0 (fst c) (snd c)" using begin_trace.hyps(2) matches_stopped by (simp add: trace_ok_def)
  then show ?case
    using step_keeps [OF begin_trace.hyps(1) _ _ _ begin_trace.hyps(3) begin_trace.prems] begin_trace.hyps(4) by simp
next
  case (continue_trace n c c')
  have "n \<le> 2 ^ 31" using continue_trace.prems by (simp add: count_after_def split: if_splits)
  then have "runs_to he n c" "trace_ok n0 (fst c) (snd c)" "n0 \<le> n" "is_tracing (hs_tracer (snd c)) \<or> n = n0"
    using continue_trace.IH by simp_all
  from step_keeps [OF this continue_trace.hyps(2) continue_trace.prems] show ?case using continue_trace.hyps(3) by simp
qed

text \<open>A run that starts a trace between two calls.\<close>

lemma sample_traced_run:
  "\<exists>l0 l s. traced_run sample_hooks 1 2 ([Open_internal inner_info l, Open_internal outer_info l0], s) \<and>
     tr_handler (hs_tracer s) = Computerized \<and> records (hs_tracer s) = [Trace_header, Trace_entry (il_function_nr l)]"
proof -
  have short: "length ('' > system ->/srv/a.php:7'' @ [CHR 0x0A]) < SHM_CALLSTACK_SIZE" by (simp add: shm_defs)
  note parts = sample_parts sample_user_call sample_plain start_state_ok
  note enter = internal_enter_plain [where n = "''system''" and f = sample_function and cf = caller_script and
      ol = "\<lparr>co_lineno = 7, co_opcode = Other_opcode\<rparr>" and he = sample_hooks]
  obtain l0 s0 fr0 where 1: "execute_internal_enter sample_hooks outer_info start_state = Some (l0, s0)" "memory_ready s0"
      "xg_stack (hs_g s0) = Some [fr0]" "plain_request sample_config (hs_g s0)" "\<not> remote_enabled (hs_dbg s0)"
      "\<not> profiler_enabled (xg_profiler (hs_g s0))" "hs_tracer s0 = hs_tracer start_state" "fse_filename (cf_fse fr0) \<noteq> None"
    using enter [of outer_info "hd sample_calls" "tl sample_calls" start_state "[]"] parts sample_text short by auto
  have run1: "runs_to sample_hooks 1 ([Open_internal outer_info l0], s0)"
    using runs_internal [OF runs_to.start [OF start_state_ok(1)] 1(1)] by simp
  have off: "\<not> is_tracing (hs_tracer s0)" using 1(7) start_state_ok(7) by simp
  define tr where "tr = \<lparr>do_trace = True, tr_handler = Computerized,
    tr_context = Some \<lparr>tx_filename = ''/tmp/t'', tx_lines = [(Trace_header, computerized_header sample_trace sample_moment)]\<rparr>, tr_closed = []\<rparr>"
  have start: "php_start_trace (he_trace sample_hooks) sample_moment (fstack_of (xg_stack (hs_g s0))) (Some ''/tmp/t'') 0 (hs_tracer s0) =
      Some (Some ''/tmp/t'', tr)"
    using 1(3,7,8)
    by (auto simp: php_start_trace_def start_trace_file_def trace_open_file_def select_trace_handler_def write_header_def tr_def
        start_state_def sample_hooks_def sample_trace_def get_stack_frame_def fstack_of_def)
  have tr: "trace_plain sample_hooks tr" "is_tracing tr" "tr_handler tr = Computerized" "records tr = [Trace_header]"
    by (simp_all add: tr_def trace_plain_def is_tracing_def records_def sample_hooks_def sample_trace_def)
  have "traced_run sample_hooks 1 (count_after 1 ([Open_internal outer_info l0], s0) ([Open_internal outer_info l0], s0\<lparr>hs_tracer := tr\<rparr>))
      ([Open_internal outer_info l0], s0\<lparr>hs_tracer := tr\<rparr>)"
    by (rule begin_trace [OF run1 _ start_trace [OF start]]) (use off tr(2) in simp_all)
  then have run2: "traced_run sample_hooks 1 1 ([Open_internal outer_info l0], s0\<lparr>hs_tracer := tr\<rparr>)"
    by (simp add: count_after_def)
  obtain l s where 2: "execute_internal_enter sample_hooks inner_info (s0\<lparr>hs_tracer := tr\<rparr>) = Some (l, s)"
      "is_tracing (hs_tracer s)" "tr_handler (hs_tracer s) = Computerized"
      "records (hs_tracer s) = [Trace_header, Trace_entry (il_function_nr l)]"
    using enter [of inner_info "hd sample_calls" sample_calls "s0\<lparr>hs_tracer := tr\<rparr>" "[fr0]"] parts sample_text short 1 tr
    by (auto simp: memory_ready_def sample_config_def)
  have "traced_run sample_hooks 1 2 ([Open_internal inner_info l, Open_internal outer_info l0], s)"
    using continue_trace [OF run2 call_internal [OF 2(1)]] 2(2)
    by (simp add: count_after_def framed_calls_Cons numeral_2_eq_2)
  then show ?thesis using 2(3,4) by blast
qed

text \<open>C19: A computerized trace is nested as the calls are, in the text of its file. At every moment of a run during which a trace
  is written that began after the first \<open>n0\<close> calls, every exit record behind the header is that of the last entry
  still open, or of a call that began before the trace. The entries still open, read from the text, are exactly the
  numbers of the running calls that began since the trace did and that it shows (the frame is not filtered, and it is
  not the nameless function that the engine calls for itself), innermost first.\<close>

theorem trace_well_nested:
  assumes "traced_run he n0 n (cs, s)" and "n \<le> 2 ^ 31" and "tr_handler (hs_tracer s) = Computerized"
  shows "\<exists>frs tx. xg_stack (hs_g s) = Some frs \<and> tr_context (hs_tracer s) = Some tx \<and>
    replay (map snd (tl (tx_lines tx))) [] = Some (map dec_int (filter (\<lambda>nr. int n0 \<le> nr) (shown_numbers cs frs)))"
proof -
  have run: "runs_to he n (cs, s)" "is_tracing (hs_tracer s)" "trace_ok n0 cs s"
    using traced_run_ok [OF assms(1,2)] by simp_all
  obtain frs where frs: "xg_stack (hs_g s) = Some frs"
    using runs_calls_ok [OF run(1) assms(2)] by (auto simp: calls_ok_def keys_def)
  then have "reads_open n0 (shown_numbers cs frs) (hs_tracer s)"
    using run assms(3) by (simp add: trace_ok_def matches_def keys_def shown_numbers_keys)
  moreover obtain tx where "tr_context (hs_tracer s) = Some tx" using run(2) by (auto simp: is_tracing_def)
  ultimately show ?thesis using frs by (simp add: reads_open_def trace_lines_def map_tl)
qed

theorem trace_well_nested_witness:
  "\<exists>l0 l s frs tx. traced_run sample_hooks 1 2 ([Open_internal inner_info l, Open_internal outer_info l0], s) \<and>
     records (hs_tracer s) = [Trace_header, Trace_entry (il_function_nr l)] \<and> xg_stack (hs_g s) = Some frs \<and>
     tr_context (hs_tracer s) = Some tx \<and> replay (map snd (tl (tx_lines tx))) [] =
       Some (map dec_int (filter (\<lambda>nr. 1 \<le> nr) (shown_numbers [Open_internal inner_info l, Open_internal outer_info l0] frs)))"
proof -
  obtain l0 l s where run: "traced_run sample_hooks 1 2 ([Open_internal inner_info l, Open_internal outer_info l0], s)"
      "tr_handler (hs_tracer s) = Computerized" "records (hs_tracer s) = [Trace_header, Trace_entry (il_function_nr l)]"
    using sample_traced_run by blast
  have "(2 :: nat) \<le> 2 ^ 31" by simp
  from trace_well_nested [OF run(1) this run(2)] run(1,3) show ?thesis by fastforce
qed

end
