(* ===== verification/Spec2Isabelle.thy ===== *)
theory Spec2Isabelle
  imports Prelude Uthash Seccomp Llist Hash Str BitSet OpArray BranchInfo BranchAnalysis CodeCoverage CoverageFacts
    Frames StackFilter SharedCallstack SharedSteps Text Url Crc OutputName Escapes Xml DbgpParse Dbgp Breakpoints BreakpointFacts Stepping
    DbgpCommands DbgpSession DbgpFacts PhpValue PhpSymbol VarXml SymbolFacts VarFacts
    FuncName DbgpValues ValueFacts VarText VarDump VarTextFacts Profiler CallFrames Tracing CallHooks CallFacts TraceFacts
begin

text \<open>
  Saphire confines PHP web applications to the system calls they need. An instrumented interpreter, an Xdebug
  with a shared memory protocol added (\<open>src/stage1/interpreter-tracing/TE_xdebug\<close>), lets a tracer record the
  system calls each PHP function issues; stage 2 combines this with the scripts to a profile; the extension of
  stage 3 (\<open>src/stage3/extension\<close>) loads for the requested script a seccomp filter with the numbers of the
  profile. This development models the C code of stages 1 and 3. Every theory names the files it translates;
  a function keeps its name without the prefix \<open>xdebug_\<close>, a struct is a record, an enumeration a datatype.

  Conventions (\<open>Prelude\<close>): C strings are lists of characters without the final zero unless the code handles
  buffers, then the zero is in the list and a missing one is an error. \<open>int\<close> and \<open>long\<close> values are \<open>int\<close>, with
  \<open>to_int32\<close> or \<open>saturate64\<close> where the code can overflow, bit patterns are words. \<open>None\<close>, or \<open>Inl\<close> of a fault,
  is undefined behaviour: an access outside an array, a use after free, a NULL dereference. What the code calls
  and is not in the repository (libseccomp, the Zend engine, \<open>vsnprintf\<close>, the system) is a parameter, and the
  theorems state what they need of it as hypotheses, met by concrete functions in the witnesses.

  \<^bold>\<open>Enforcement\<close>. \<open>Uthash\<close> models the table of \<open>uthash.h\<close> with its expansion and integrity check: it implements
  a map and deletion is exact. \<open>Seccomp\<close> models \<open>seccomp.c\<close>: parsing a profile line, reading the profile at
  module start, loading the filter of a script and the hook on every internal call. The filter of a script is
  exactly the one of its profile line, the first request of a process decides, the hook is transparent; the
  theorems of kind error and bounds give the inputs for which a process stays unconfined or memory is overrun.

  \<^bold>\<open>Containers\<close>. \<open>Llist\<close> (lists on a heap), \<open>Hash\<close> (a locale of map laws, interpreted on the table),
  \<open>Str\<close> (growing strings with their capacity), \<open>BitSet\<close>: each refines lists, maps, texts or sets, stays inside its
  memory and frees every value once.

  \<^bold>\<open>Coverage\<close>. \<open>OpArray\<close>, \<open>BranchInfo\<close>, \<open>BranchAnalysis\<close>, \<open>CodeCoverage\<close>, \<open>CoverageFacts\<close>: the analysis of
  compiled functions marks exactly the reachable opcodes, the path search returns exactly the maximal trails, the
  report has exactly the counted lines. The searches take a fuel; the theorems give a fuel that is enough for
  every function, so that they return.

  \<^bold>\<open>Frames and filters\<close>. \<open>Frames\<close> is the function stack, \<open>StackFilter\<close> the white and black lists on its frames.

  \<^bold>\<open>Tracing protocol\<close>. \<open>SharedCallstack\<close> is the memory shared with the tracer as a step relation of forking
  workers; every access to the memory is a step of its own, so that the decrement of the fork counter is a read and a
  write with other processes in between. \<open>SharedSteps\<close> shows what every interleaving without a fork inside the windows
  of the known races keeps, that a worker then publishes its call within six of its own steps, and what the races do:
  a lost count stops the master for good, a lost fork leaves a worker without a memory of its own.

  \<^bold>\<open>Calls\<close>. \<open>CallFrames\<close> makes the frame of a call: its name, the place it is called from, its arguments, and the record
  of monitored functions. \<open>Profiler\<close> names functions by numbers and prints the costs of calls: no name and no
  memory is lost. \<open>CallHooks\<close> has the hooks of \<open>xdebug.c\<close> around calls, which tie the frames, the coverage, the
  debugger, the profiler and the shared memory together, and a running script as a step relation. \<open>CallFacts\<close>
  shows that the stack mirrors the running calls, what the tracer reads during a call, and what it misses
  after a nested one. \<open>Tracing\<close> has the trace files in their three formats, from opening to the footer; each line is kept
  with the event it reports. \<open>TraceFacts\<close> shows for the text of a computerized trace that a reader of its fields finds
  entries and exits nested, and open exactly the calls that began since the trace did and that it shows.

  \<^bold>\<open>Texts\<close>. \<open>Text\<close> (splitting, joining, the line reader), \<open>Url\<close>, \<open>Crc\<close>, \<open>OutputName\<close>, \<open>Escapes\<close>.

  \<^bold>\<open>Debugger\<close>. \<open>Xml\<close> prints replies, \<open>DbgpParse\<close> parses commands, \<open>Dbgp\<close> holds the state of a session, \<open>Breakpoints\<close>
  the breakpoint commands on an explicit store of objects, \<open>BreakpointFacts\<close> their invariant, \<open>Stepping\<close> the hooks
  that stop the script. They interact through the session: commands change breakpoints and step flags, the hooks
  read them, count hits and call the client. \<open>DbgpCommands\<close> has the other commands, \<open>DbgpSession\<close> the command loop with
  the start, the end and the events of a session; running out of fuel is a result of its own there, and \<open>DbgpFacts\<close> shows
  that the loop never does with more fuel than twice the bytes to come, and that it answers every command it takes.

  \<^bold>\<open>Values\<close>. \<open>PhpValue\<close> has PHP values on a heap that may be cyclic, \<open>PhpSymbol\<close> the lookup of a variable by its
  name, \<open>VarXml\<close> the export of a value as an XML tree. The export recurses with one unit of fuel for a level;
  \<open>VarFacts\<close> shows that one more than the depth of the options is enough for every heap, bounds the tree and says which
  elements are shown. \<open>SymbolFacts\<close> ties the two: a full name that was exported leads back to its value.
  \<open>DbgpValues\<close> has the commands of the debugger on values and frames, with the pointers that the session keeps to
  the frame looked at last; \<open>ValueFacts\<close> shows what the client gets, and where a pointer outlives its frame.
  \<open>FuncName\<close> prints the names of functions. \<open>VarText\<close> and \<open>VarDump\<close> have the exports as plain text, for terminals and as
  HTML. \<open>VarTextFacts\<close> treats them through a locale of languages closed under concatenation: in HTML everything but the
  names of classes and properties, the types of resources and the header with the place is a tag of the code or escaped;
  in plain text there are no control characters, for the names that the hypotheses allow.

  \<^bold>\<open>Not modelled\<close>. The tracer, the static analysis and stage 2 are not C code of the interpreter or only print. Of
  Xdebug: the display of stacks and errors (\<open>xdebug_stack.c\<close>), the opcode handlers that trace assignments
  and print what \<open>textual_assignment\<close> says, the aggregated profile's file, garbage collection statistics, connecting
  sockets (\<open>xdebug_com.c\<close>), super globals, module and request start, settings, the debug client: they walk
  structures of the Zend engine or only print. Freeing is modelled where a
  second free or a later use is possible. Windows code is left out.
\<close>

end
